(* ===== verification/Prelude.thy ===== *)
theory Prelude
  imports Main "HOL-Library.Word"
begin

text \<open>
  Shared vocabulary of the development: the machine types of the C++ code, the result type of
  operations that can leave defined behaviour, and generic lemmas on lists, maps and searches.

  An operation whose C++ original can dereference a null or dangling pointer, index out of range
  or divide by zero returns a value of \<open>'a res\<close>: \<open>Inl f\<close> names the fault and \<open>Inr v\<close> is the normal
  result. A loop of the original that may not terminate is a \<open>partial_function (option)\<close> and
  returns \<open>None\<close> exactly when the loop runs forever.
\<close>

type_synonym u8 = "8 word"
type_synonym u32 = "32 word"
type_synonym u64 = "64 word"

datatype fault =
    NullDeref
  | OutOfRange
  | DivByZero
  | UseAfterFree
  | DoubleFree
  | AssertFailed
  | BadFunctionCall
  | IntOverflow

type_synonym 'a res = "fault + 'a"

abbreviation ok :: "'a \<Rightarrow> 'a res" where
  "ok \<equiv> Inr"

abbreviation fail :: "fault \<Rightarrow> 'a res" where
  "fail \<equiv> Inl"

text \<open>The result of an operation on \<open>int\<close>: overflow of a signed integer has no meaning in C++.\<close>

definition int32 :: "int \<Rightarrow> int res" where
  "int32 x = (if - (2 ^ 31) \<le> x \<and> x < 2 ^ 31 then ok x else fail IntOverflow)"

definition rbind :: "'a res \<Rightarrow> ('a \<Rightarrow> 'b res) \<Rightarrow> 'b res" where
  "rbind m f = (case m of Inl e \<Rightarrow> Inl e | Inr x \<Rightarrow> f x)"

lemma rbind_simps [simp]:
  "rbind (Inl e) f = Inl e"
  "rbind (Inr x) f = f x"
  by (simp_all add: rbind_def)

lemma rbind_eq_Inr: "rbind m f = Inr y \<longleftrightarrow> (\<exists>x. m = Inr x \<and> f x = Inr y)"
  by (cases m) auto

lemma rbind_eq_Inl: "rbind m f = Inl e \<longleftrightarrow> m = Inl e \<or> (\<exists>x. m = Inr x \<and> f x = Inl e)"
  by (cases m) auto

text \<open>Collections the component theories fill: \<open>inv_pres\<close> holds the preservation lemmas of their
  invariants, \<open>op_defs\<close> the unfoldings of small accessors.\<close>

named_theorems inv_pres "preservation lemmas of component invariants"
named_theorems op_defs "definitions of accessors and one-line operations"

section \<open>Lists\<close>

lemma nth_append_len [simp]: "(xs @ [x]) ! length xs = x"
  by (simp add: nth_append)

lemma set_update_subset: "set (xs[i := y]) \<subseteq> insert y (set xs)"
  by (rule set_update_subset_insert)

text \<open>Pairwise properties of lists, as index statements and under update and append.\<close>

definition pairwise_list :: "('a \<Rightarrow> 'a \<Rightarrow> bool) \<Rightarrow> 'a list \<Rightarrow> bool" where
  "pairwise_list R xs \<longleftrightarrow> (\<forall>i < length xs. \<forall>j < length xs. i \<noteq> j \<longrightarrow> R (xs ! i) (xs ! j))"

lemma pairwise_list_Nil [simp]: "pairwise_list R []"
  by (simp add: pairwise_list_def)

lemma pairwise_list_single [simp]: "pairwise_list R [x]"
  by (simp add: pairwise_list_def)

lemma pairwise_listD: "pairwise_list R xs \<Longrightarrow> i < length xs \<Longrightarrow> j < length xs \<Longrightarrow> i \<noteq> j \<Longrightarrow> R (xs ! i) (xs ! j)"
  by (simp add: pairwise_list_def)

lemma pairwise_list_snoc:
  assumes "pairwise_list R xs" and "\<And>y. y \<in> set xs \<Longrightarrow> R x y \<and> R y x"
  shows "pairwise_list R (xs @ [x])"
  using assms by (auto simp: pairwise_list_def nth_append less_Suc_eq)

lemma pairwise_list_update:
  assumes "pairwise_list R xs" and "i < length xs"
    and "\<And>j. j < length xs \<Longrightarrow> j \<noteq> i \<Longrightarrow> R y (xs ! j) \<and> R (xs ! j) y"
  shows "pairwise_list R (xs[i := y])"
  using assms by (auto simp: pairwise_list_def nth_list_update)

lemma sum_list_map_update:
  fixes f :: "'a \<Rightarrow> 'b :: comm_monoid_add"
  shows "i < length xs \<Longrightarrow> sum_list (map f (xs[i := y])) + f (xs ! i) = sum_list (map f xs) + f y"
proof (induction xs arbitrary: i)
  case (Cons x xs)
  then show ?case by (cases i) (simp_all add: ac_simps)
qed simp

lemma unat32_eqI:
  fixes w :: u32
  assumes "w = word_of_nat n" and "n < 2 ^ 32"
  shows "unat w = n"
  unfolding assms(1) using assms(2) by (simp only: unat_of_nat take_bit_nat_eq_self) (simp add: take_bit_nat_eq_self)

lemma unat64_eqI:
  fixes w :: u64
  assumes "w = word_of_nat n" and "n < 2 ^ 64"
  shows "unat w = n"
  unfolding assms(1) using assms(2) by (simp only: unat_of_nat take_bit_nat_eq_self) (simp add: take_bit_nat_eq_self)

section \<open>Counting loops on 32-bit words\<close>

text \<open>The values of \<open>i\<close> in \<open>for (uint32_t i = a; i < b; ++i)\<close>.\<close>

function word_upto :: "u32 \<Rightarrow> u32 \<Rightarrow> u32 list" where
  "word_upto a b = (if a < b then a # word_upto (a + 1) b else [])"
  by auto

lemma word_less_succ: "(a :: 'w :: len word) < b \<Longrightarrow> unat (a + 1) = Suc (unat a)"
proof -
  assume "a < b"
  then have "1 + a \<noteq> 0" using word_n1_ge [of b] by (metis add.commute add_eq_0_iff2 linorder_not_less)
  then show ?thesis using unatSuc [of a] by (simp add: add.commute)
qed

termination word_upto
  by (relation "measure (\<lambda>(a, b). unat b - unat a)") (auto simp: word_less_succ word_less_nat_alt)

declare word_upto.simps [simp del]

lemma unat_word_upto: "map unat (word_upto a b) = [unat a..<unat b]"
proof (induction a b rule: word_upto.induct)
  case (1 a b)
  then show ?case
    by (subst word_upto.simps) (auto simp: word_less_nat_alt word_less_succ upt_rec [of "unat a"])
qed

lemma length_word_upto [simp]: "length (word_upto a b) = unat b - unat a"
  using unat_word_upto [of a b] by (metis length_map length_upt)

lemma set_word_upto: "set (word_upto a b) = {i. a \<le> i \<and> i < b}"
proof -
  have "unat ` set (word_upto a b) = {unat a..<unat b}"
    using unat_word_upto [of a b] by (metis list.set_map set_upt)
  then show ?thesis
    by (auto simp: word_less_nat_alt word_le_nat_alt image_iff set_eq_iff)
      (metis atLeastLessThan_iff word_unat_eq_iff)+
qed

end
