(* ===== verification/Rects.thy ===== *)
theory Rects
  imports Prelude
begin

text \<open>
  \<open>Maths::IntRect\<close> (\<open>Maths/Rect.h\<close>, \<open>Maths/Rect.cpp\<close>): integer rectangles, half open on the right
  and at the bottom. Coordinates are mathematical integers: the operations only compare, add and
  subtract, and \<open>AreaAlloc\<close> bounds every value it stores. \<open>ToHash\<close> converts to \<open>unsigned\<close> and is
  modelled on 32-bit words. The meaning of a rectangle is its set of cells, \<open>cells\<close>; the float
  class \<open>Rect\<close> of the same file is not modelled here.
\<close>

record int_rect =
  r_left :: int
  r_top :: int
  r_right :: int
  r_bottom :: int

record int_vec2 =
  vec_x :: int
  vec_y :: int

datatype intersection = OUTSIDE | INTERSECTS | INSIDE

definition mk_rect :: "int \<Rightarrow> int \<Rightarrow> int \<Rightarrow> int \<Rightarrow> int_rect" where
  "mk_rect l t r b = \<lparr>r_left = l, r_top = t, r_right = r, r_bottom = b\<rparr>"

definition rect_of_vecs :: "int_vec2 \<Rightarrow> int_vec2 \<Rightarrow> int_rect" where
  "rect_of_vecs mn mx =
     \<lparr>r_left = vec_x mn, r_top = vec_y mn, r_right = vec_x mx, r_bottom = vec_y mx\<rparr>"

definition rect_zero :: int_rect where
  "rect_zero = mk_rect 0 0 0 0"

definition rect_eq :: "int_rect \<Rightarrow> int_rect \<Rightarrow> bool" where
  "rect_eq a b \<longleftrightarrow> r_left a = r_left b \<and> r_top a = r_top b \<and> r_right a = r_right b \<and> r_bottom a = r_bottom b"

definition rect_ne :: "int_rect \<Rightarrow> int_rect \<Rightarrow> bool" where
  "rect_ne a b \<longleftrightarrow> r_left a \<noteq> r_left b \<or> r_top a \<noteq> r_top b \<or> r_right a \<noteq> r_right b \<or> r_bottom a \<noteq> r_bottom b"

definition rect_add :: "int_rect \<Rightarrow> int_rect \<Rightarrow> int_rect" where
  "rect_add a b = mk_rect (r_left a + r_left b) (r_top a + r_top b) (r_right a + r_right b) (r_bottom a + r_bottom b)"

definition rect_sub :: "int_rect \<Rightarrow> int_rect \<Rightarrow> int_rect" where
  "rect_sub a b = mk_rect (r_left a - r_left b) (r_top a - r_top b) (r_right a - r_right b) (r_bottom a - r_bottom b)"

definition rect_width :: "int_rect \<Rightarrow> int" where
  "rect_width r = r_right r - r_left r"

definition rect_height :: "int_rect \<Rightarrow> int" where
  "rect_height r = r_bottom r - r_top r"

definition rect_size :: "int_rect \<Rightarrow> int_vec2" where
  "rect_size r = \<lparr>vec_x = rect_width r, vec_y = rect_height r\<rparr>"

definition rect_min :: "int_rect \<Rightarrow> int_vec2" where
  "rect_min r = \<lparr>vec_x = r_left r, vec_y = r_top r\<rparr>"

definition rect_max :: "int_rect \<Rightarrow> int_vec2" where
  "rect_max r = \<lparr>vec_x = r_right r, vec_y = r_bottom r\<rparr>"

definition rect_inside :: "int_rect \<Rightarrow> int_vec2 \<Rightarrow> intersection" where
  "rect_inside r p =
     (if vec_x p < r_left r \<or> vec_y p < r_top r \<or> vec_x p \<ge> r_right r \<or> vec_y p \<ge> r_bottom r
      then OUTSIDE else INSIDE)"

text \<open>\<open>Clip\<close> and \<open>Merge\<close> assign field by field, in the order of the source.\<close>

definition rect_clip :: "int_rect \<Rightarrow> int_rect \<Rightarrow> int_rect" where
  "rect_clip s r =
     (let s1 = (if r_left r > r_left s then s\<lparr>r_left := r_left r\<rparr> else s);
          s2 = (if r_right r < r_right s1 then s1\<lparr>r_right := r_right r\<rparr> else s1);
          s3 = (if r_top r > r_top s2 then s2\<lparr>r_top := r_top r\<rparr> else s2);
          s4 = (if r_bottom r < r_bottom s3 then s3\<lparr>r_bottom := r_bottom r\<rparr> else s3)
      in if r_left s4 \<ge> r_right s4 \<or> r_top s4 \<ge> r_bottom s4 then rect_zero else s4)"

definition rect_merge :: "int_rect \<Rightarrow> int_rect \<Rightarrow> int_rect" where
  "rect_merge s r =
     (if rect_width s \<le> 0 \<or> rect_height s \<le> 0 then r
      else if rect_width r > 0 \<and> rect_height r > 0 then
        (let s1 = (if r_left r < r_left s then s\<lparr>r_left := r_left r\<rparr> else s);
             s2 = (if r_top r < r_top s1 then s1\<lparr>r_top := r_top r\<rparr> else s1);
             s3 = (if r_right r > r_right s2 then s2\<lparr>r_right := r_right r\<rparr> else s2);
             s4 = (if r_bottom r > r_bottom s3 then s3\<lparr>r_bottom := r_bottom r\<rparr> else s3)
         in s4)
      else s)"

definition rect_hash :: "int_rect \<Rightarrow> u32" where
  "rect_hash r = word_of_int (r_left r) * 31 * 31 * 31 + word_of_int (r_right r) * 31 * 31
     + word_of_int (r_top r) * 31 + word_of_int (r_bottom r)"

text \<open>The set of integer cells a rectangle covers.\<close>

definition cells :: "int_rect \<Rightarrow> (int \<times> int) set" where
  "cells r = {(x, y). r_left r \<le> x \<and> x < r_right r \<and> r_top r \<le> y \<and> y < r_bottom r}"

lemma mk_rect_sel [simp]:
  "r_left (mk_rect l t r b) = l" "r_top (mk_rect l t r b) = t"
  "r_right (mk_rect l t r b) = r" "r_bottom (mk_rect l t r b) = b"
  by (simp_all add: mk_rect_def)

lemma mem_cells [simp]:
  "(x, y) \<in> cells r \<longleftrightarrow> r_left r \<le> x \<and> x < r_right r \<and> r_top r \<le> y \<and> y < r_bottom r"
  by (simp add: cells_def)

lemma cells_empty_iff: "cells r = {} \<longleftrightarrow> r_right r \<le> r_left r \<or> r_bottom r \<le> r_top r"
proof
  assume e: "cells r = {}"
  show "r_right r \<le> r_left r \<or> r_bottom r \<le> r_top r"
  proof (rule ccontr)
    assume "\<not> ?thesis"
    then have "(r_left r, r_top r) \<in> cells r" by simp
    with e show False by blast
  qed
qed (auto simp: cells_def)

lemma cells_empty_iff_size: "cells r = {} \<longleftrightarrow> rect_width r \<le> 0 \<or> rect_height r \<le> 0"
  by (simp add: cells_empty_iff rect_width_def rect_height_def)

lemma rect_ne_iff: "rect_ne a b \<longleftrightarrow> \<not> rect_eq a b"
  by (auto simp: rect_ne_def rect_eq_def)

lemma rect_eq_iff: "rect_eq a b \<longleftrightarrow> a = b"
  by (cases a; cases b) (auto simp: rect_eq_def)

lemma rect_sub_add: "rect_sub (rect_add a b) b = a"
  by (cases a) (simp add: rect_sub_def rect_add_def mk_rect_def)

lemma rect_inside_iff: "rect_inside r p = INSIDE \<longleftrightarrow> (vec_x p, vec_y p) \<in> cells r"
  by (auto simp: rect_inside_def)

lemma rect_clip_cells: "cells (rect_clip s r) = cells s \<inter> cells r"
  by (auto simp: rect_clip_def rect_zero_def Let_def)

lemma rect_clip_empty: "cells s \<inter> cells r = {} \<Longrightarrow> rect_clip s r = rect_zero"
proof -
  assume "cells s \<inter> cells r = {}"
  then have "cells (rect_clip s r) = {}" by (simp add: rect_clip_cells)
  then show ?thesis
    by (auto simp: cells_empty_iff rect_clip_def Let_def rect_zero_def split: if_splits)
qed

text \<open>A non-empty rectangle is determined by its cells, and inclusion of cells is inclusion of the
  bounds; so \<open>rect_merge\<close> computes the least enclosing rectangle.\<close>

lemma cells_subset_iff:
  assumes "cells r \<noteq> {}"
  shows "cells r \<subseteq> cells q \<longleftrightarrow>
    r_left q \<le> r_left r \<and> r_top q \<le> r_top r \<and> r_right r \<le> r_right q \<and> r_bottom r \<le> r_bottom q"
proof
  assume sub: "cells r \<subseteq> cells q"
  from assms have ne: "r_left r < r_right r" "r_top r < r_bottom r"
    by (auto simp: cells_empty_iff)
  from ne have "(r_left r, r_top r) \<in> cells r" "(r_right r - 1, r_bottom r - 1) \<in> cells r" by auto
  with sub have "(r_left r, r_top r) \<in> cells q" "(r_right r - 1, r_bottom r - 1) \<in> cells q" by blast+
  then show "r_left q \<le> r_left r \<and> r_top q \<le> r_top r \<and> r_right r \<le> r_right q \<and> r_bottom r \<le> r_bottom q"
    by auto
qed auto

text \<open>For rectangles that cover at least one cell, \<open>IntRect::Merge\<close> returns the
  least rectangle that covers both: it contains the cells of both operands, and any rectangle that
  contains them contains the result.\<close>

theorem rect_merge_least:
  assumes "cells s \<noteq> {}" and "cells r \<noteq> {}"
  shows "cells s \<union> cells r \<subseteq> cells q \<longleftrightarrow> cells (rect_merge s r) \<subseteq> cells q"
proof -
  let ?m = "rect_merge s r"
  from assms have w: "rect_width s > 0" "rect_height s > 0" "rect_width r > 0" "rect_height r > 0"
    by (auto simp: cells_empty_iff_size)
  then have m: "r_left ?m = min (r_left s) (r_left r)" "r_top ?m = min (r_top s) (r_top r)"
    "r_right ?m = max (r_right s) (r_right r)" "r_bottom ?m = max (r_bottom s) (r_bottom r)"
    by (auto simp: rect_merge_def Let_def)
  with w have "cells ?m \<noteq> {}"
    by (auto simp: cells_empty_iff rect_width_def rect_height_def)
  then show ?thesis
    using assms m by (auto simp: cells_subset_iff)
qed

theorem rect_merge_least_witness:
  "cells (mk_rect 0 0 2 1) \<union> cells (mk_rect 3 2 5 4) \<subseteq> cells (mk_rect 0 0 5 4)
   \<longleftrightarrow> cells (rect_merge (mk_rect 0 0 2 1) (mk_rect 3 2 5 4)) \<subseteq> cells (mk_rect 0 0 5 4)"
  by (rule rect_merge_least) (simp_all add: cells_empty_iff)

end
