(* ===== verification/AreaAlloc.thy ===== *)
theory AreaAlloc
  imports Rects "HOL-Library.Signed_Division"
begin

text \<open>
  \<open>Maths::AreaAllocator\<close> (\<open>Maths/AreaAllocator.cpp\<close>): a texture-atlas allocator. The state keeps
  the free rectangles in vector order, the current and the maximal size and which side grows next.
  \<open>Allocate\<close> loops: it searches the best-fitting free rectangle, and grows the area when none fits;
  \<open>alloc_search\<close> is that loop, \<open>None\<close> when it never ends. In fast mode the reserved area is cut off
  the chosen rectangle; the other mode only calls \<open>Cleanup\<close>, whose inner loop never advances.
  The functions are given twice: first on unbounded integers, as the specification, then (with names that end in 32) as the code
  has them, on \<open>int\<close>, where an operation that does not fit 32 bits is a fault. For areas that cannot grow too large the two agree.
\<close>

definition M_MAX_INT :: int where
  "M_MAX_INT = 0x7fffffff"

record area_alloc =
  freeAreas :: "int_rect list"
  size_x :: int
  size_y :: int
  maxSize_x :: int
  maxSize_y :: int
  doubleWidth :: bool
  fastMode :: bool

definition area_reset :: "int \<Rightarrow> int \<Rightarrow> int \<Rightarrow> int \<Rightarrow> bool \<Rightarrow> area_alloc" where
  "area_reset width height maxWidth maxHeight fast =
     \<lparr>freeAreas = [mk_rect 0 0 width height], size_x = width, size_y = height,
      maxSize_x = maxWidth, maxSize_y = maxHeight, doubleWidth = True, fastMode = fast\<rparr>"

definition area_new0 :: area_alloc where
  "area_new0 = area_reset 0 0 0 0 True"

definition area_new :: "int \<Rightarrow> int \<Rightarrow> bool \<Rightarrow> area_alloc" where
  "area_new width height fast = area_reset width height width height fast"

text \<open>The search loop over \<open>freeAreas_\<close>: index of the best area so far and its rank.\<close>

fun best_area :: "int \<Rightarrow> int \<Rightarrow> int_rect list \<Rightarrow> nat \<Rightarrow> nat option \<Rightarrow> int \<Rightarrow> nat option" where
  "best_area w h [] i best bestFree = best"
| "best_area w h (r # rs) i best bestFree =
     (let freeWidth = rect_width r; freeHeight = rect_height r in
      if freeWidth \<ge> w \<and> freeHeight \<ge> h then
        (let freeArea = freeWidth * freeHeight in
         if freeArea < bestFree then best_area w h rs (Suc i) (Some i) freeArea
         else best_area w h rs (Suc i) best bestFree)
      else best_area w h rs (Suc i) best bestFree)"

text \<open>One growth step; \<open>None\<close> is \<open>return false\<close>.\<close>

definition area_grow :: "area_alloc \<Rightarrow> area_alloc option" where
  "area_grow a =
     (if doubleWidth a \<and> size_x a < maxSize_x a then
        (let oldWidth = size_x a; a1 = a\<lparr>size_x := size_x a * 2\<rparr>; first = hd (freeAreas a1);
             a2 = (if length (freeAreas a1) = 1 \<and> r_left first = 0 \<and> r_top first = 0
                      \<and> r_right first = oldWidth \<and> r_bottom first = size_y a1
                   then a1\<lparr>freeAreas := [first\<lparr>r_right := size_x a1\<rparr>]\<rparr>
                   else a1\<lparr>freeAreas := freeAreas a1 @ [mk_rect oldWidth 0 (size_x a1) (size_y a1)]\<rparr>)
         in Some (a2\<lparr>doubleWidth := \<not> doubleWidth a2\<rparr>))
      else if \<not> doubleWidth a \<and> size_y a < maxSize_y a then
        (let oldHeight = size_y a; a1 = a\<lparr>size_y := size_y a * 2\<rparr>; first = hd (freeAreas a1);
             a2 = (if length (freeAreas a1) = 1 \<and> r_left first = 0 \<and> r_top first = 0
                      \<and> r_right first = size_x a1 \<and> r_bottom first = oldHeight
                   then a1\<lparr>freeAreas := [first\<lparr>r_bottom := size_y a1\<rparr>]\<rparr>
                   else a1\<lparr>freeAreas := freeAreas a1 @ [mk_rect 0 oldHeight (size_x a1) (size_y a1)]\<rparr>)
         in Some (a2\<lparr>doubleWidth := \<not> doubleWidth a2\<rparr>))
      else None)"

partial_function (option) alloc_search :: "int \<Rightarrow> int \<Rightarrow> area_alloc \<Rightarrow> (area_alloc \<times> nat option) option" where
  "alloc_search w h a =
     (case best_area w h (freeAreas a) 0 None M_MAX_INT of
        Some i \<Rightarrow> Some (a, Some i)
      | None \<Rightarrow> (case area_grow a of None \<Rightarrow> Some (a, None) | Some a' \<Rightarrow> alloc_search w h a'))"

text \<open>The fast-mode reservation. C++ integer division truncates: \<open>sdiv\<close>.\<close>

definition reserve_fast :: "int \<Rightarrow> int \<Rightarrow> nat \<Rightarrow> area_alloc \<Rightarrow> area_alloc" where
  "reserve_fast w h i a =
     (let best = freeAreas a ! i;
          reserved = mk_rect (r_left best) (r_top best) (r_left best + w) (r_top best + h);
          best1 = best\<lparr>r_left := r_right reserved\<rparr>
      in if rect_height best1 > 2 * h \<or> h \<ge> size_y a sdiv 2 then
           a\<lparr>freeAreas := (freeAreas a)[i := best1\<lparr>r_bottom := r_bottom reserved\<rparr>]
              @ [mk_rect (r_left reserved) (r_bottom reserved) (r_right best1) (r_bottom best1)]\<rparr>
         else a\<lparr>freeAreas := (freeAreas a)[i := best1]\<rparr>)"

text \<open>\<open>Cleanup\<close>: the body of the inner loop is empty, so it repeats itself while \<open>j\<close> is in range.\<close>

partial_function (option) cleanup_inner :: "nat \<Rightarrow> nat \<Rightarrow> unit option" where
  "cleanup_inner j n = (if j < n then cleanup_inner j n else Some ())"

partial_function (option) cleanup_from :: "nat \<Rightarrow> area_alloc \<Rightarrow> area_alloc option" where
  "cleanup_from i a =
     (if i < length (freeAreas a) then
        (case cleanup_inner (i + 1) (length (freeAreas a)) of
           None \<Rightarrow> None | Some _ \<Rightarrow> cleanup_from (i + 1) a)
      else Some a)"

text \<open>\<open>Allocate\<close>: outer \<open>None\<close>, it never returns; inner \<open>None\<close>, it returned false; otherwise the
  coordinates it filled in.\<close>

definition area_allocate :: "int \<Rightarrow> int \<Rightarrow> area_alloc \<Rightarrow> (area_alloc \<times> (int \<times> int) option) option" where
  "area_allocate width height a =
     (let w = (if width < 0 then 0 else width); h = (if height < 0 then 0 else height) in
      case alloc_search w h a of
        None \<Rightarrow> None
      | Some (a', None) \<Rightarrow> Some (a', None)
      | Some (a', Some i) \<Rightarrow>
          (let best = freeAreas a' ! i in
           if fastMode a' then Some (reserve_fast w h i a', Some (r_left best, r_top best))
           else (case cleanup_from 0 a' of
                   None \<Rightarrow> None
                 | Some a'' \<Rightarrow> Some (a'', Some (r_left best, r_top best)))))"

definition split_rect :: "nat \<Rightarrow> int_rect \<Rightarrow> area_alloc \<Rightarrow> area_alloc \<times> bool" where
  "split_rect idx reserve a =
     (let original = freeAreas a ! idx in
      if r_right reserve > r_left original \<and> r_left reserve < r_right original
         \<and> r_bottom reserve > r_top original \<and> r_top reserve < r_bottom original then
        (let f1 = (if r_right reserve < r_right original
                   then freeAreas a @ [original\<lparr>r_left := r_right reserve\<rparr>] else freeAreas a);
             f2 = (if r_left reserve > r_left original
                   then f1 @ [original\<lparr>r_right := r_left reserve\<rparr>] else f1);
             f3 = (if r_bottom reserve < r_bottom original
                   then f2 @ [original\<lparr>r_top := r_bottom reserve\<rparr>] else f2);
             f4 = (if r_top reserve > r_top original
                   then f3 @ [original\<lparr>r_bottom := r_top reserve\<rparr>] else f3)
         in (a\<lparr>freeAreas := f4\<rparr>, True))
      else (a, False))"

section \<open>The best-fit search\<close>

lemma best_area_range:
  "best_area w h rs i b bf = Some k \<Longrightarrow>
   b = Some k \<or> (i \<le> k \<and> k < i + length rs \<and> w \<le> rect_width (rs ! (k - i)) \<and> h \<le> rect_height (rs ! (k - i)))"
proof (induction rs arbitrary: i b bf)
  case Nil
  then show ?case by simp
next
  case (Cons r rs)
  show ?case
  proof (cases "w \<le> rect_width r \<and> h \<le> rect_height r \<and> rect_width r * rect_height r < bf")
    case True
    with Cons.prems have "best_area w h rs (Suc i) (Some i) (rect_width r * rect_height r) = Some k"
      by (simp add: Let_def)
    from Cons.IH [OF this] True show ?thesis
      by (auto simp: nth_Cons split: nat.split simp flip: Suc_diff_Suc)
  next
    case False
    with Cons.prems obtain bf' where "best_area w h rs (Suc i) b bf' = Some k"
      by (auto simp: Let_def split: if_splits)
    from Cons.IH [OF this] show ?thesis
      by (auto simp: nth_Cons split: nat.split simp flip: Suc_diff_Suc)
  qed
qed

lemma best_area_Some:
  assumes "best_area w h rs 0 None bf = Some k"
  shows "k < length rs" "w \<le> rect_width (rs ! k)" "h \<le> rect_height (rs ! k)"
  using best_area_range [OF assms] by auto

text \<open>Below, \<open>fits\<close> is the test of the loop.\<close>

definition fits :: "int \<Rightarrow> int \<Rightarrow> int_rect \<Rightarrow> bool" where
  "fits w h r \<longleftrightarrow> w \<le> rect_width r \<and> h \<le> rect_height r"

definition rank :: "int_rect \<Rightarrow> int" where
  "rank r = rect_width r * rect_height r"

lemma best_area_Cons_fits:
  "best_area w h (r # rs) i b bf =
     (if fits w h r \<and> rank r < bf then best_area w h rs (Suc i) (Some i) (rank r)
      else best_area w h rs (Suc i) b bf)"
  by (simp add: fits_def rank_def Let_def)

declare best_area.simps(2) [simp del]
declare best_area_Cons_fits [simp]

lemma best_area_None:
  "best_area w h rs i b bf = None \<longleftrightarrow> b = None \<and> (\<forall>r \<in> set rs. fits w h r \<longrightarrow> bf \<le> rank r)"
proof (induction rs arbitrary: i b bf)
  case (Cons r rs)
  then show ?case by auto
qed simp

lemma best_area_keep:
  "(\<forall>r \<in> set rs. fits w h r \<longrightarrow> bf \<le> rank r) \<Longrightarrow> best_area w h rs i b bf = b"
proof (induction rs arbitrary: i)
  case (Cons r rs)
  then show ?case by auto
qed simp

lemma best_area_least:
  "best_area w h rs i b bf = Some k \<Longrightarrow> r \<in> set rs \<Longrightarrow> fits w h r \<Longrightarrow> rank r < bf \<Longrightarrow>
   i \<le> k \<and> rank (rs ! (k - i)) \<le> rank r"
proof (induction rs arbitrary: i b bf r)
  case (Cons q rs)
  show ?case
  proof (cases "fits w h q \<and> rank q < bf")
    case True
    with Cons.prems have step: "best_area w h rs (Suc i) (Some i) (rank q) = Some k"
      by simp
    show ?thesis
    proof (cases "\<exists>r' \<in> set rs. fits w h r' \<and> rank r' < rank q")
      case True
      then obtain r' where r': "r' \<in> set rs" "fits w h r'" "rank r' < rank q" by blast
      from Cons.IH [OF step r'] have k: "Suc i \<le> k" "rank (rs ! (k - Suc i)) \<le> rank r'" by auto
      have "rank (rs ! (k - Suc i)) \<le> rank r"
      proof (cases "r \<in> set rs \<and> rank r < rank q")
        case True
        with Cons.IH [OF step] Cons.prems show ?thesis by blast
      next
        case False
        with Cons.prems k r' show ?thesis by auto
      qed
      with k show ?thesis by (auto simp: nth_Cons split: nat.split simp flip: Suc_diff_Suc)
    next
      case False
      then have "\<forall>r \<in> set rs. fits w h r \<longrightarrow> rank q \<le> rank r" by auto
      from best_area_keep [OF this] step have "k = i" by (metis option.inject)
      with Cons.prems False True show ?thesis by force
    qed
  next
    case False
    with Cons.prems have step: "best_area w h rs (Suc i) b bf = Some k"
      by (auto split: if_splits)
    from False Cons.prems have "r \<in> set rs" by auto
    from Cons.IH [OF step this] Cons.prems show ?thesis
      by (auto simp: nth_Cons split: nat.split simp flip: Suc_diff_Suc)
  qed
qed simp

section \<open>Termination of the growth loop\<close>

lemma area_grow_measure:
  assumes "area_grow a = Some a'" and "0 < size_x a" and "0 < size_y a"
  shows "0 < size_x a' \<and> 0 < size_y a' \<and>
    nat (maxSize_x a' - size_x a') + nat (maxSize_y a' - size_y a')
      < nat (maxSize_x a - size_x a) + nat (maxSize_y a - size_y a)"
  using assms by (auto simp: area_grow_def Let_def split: if_splits)

text \<open>\<open>AreaAllocator::Allocate\<close> returns for every request once the area has a positive
  width and height, in fast mode: the search loop stops because each growth step doubles a side
  that is still below its maximum.\<close>

theorem area_allocate_terminates:
  assumes "0 < size_x a" and "0 < size_y a" and "fastMode a"
  shows "\<exists>a' r. area_allocate w h a = Some (a', r)"
proof -
  have "\<exists>a' r. alloc_search w' h' b = Some (a', r) \<and> fastMode a' = fastMode b"
    if "0 < size_x b" "0 < size_y b" for w' h' b
    using that
  proof (induction "nat (maxSize_x b - size_x b) + nat (maxSize_y b - size_y b)" arbitrary: b rule: less_induct)
    case less
    show ?case
    proof (cases "area_grow b")
      case None
      then show ?thesis by (simp add: alloc_search.simps [of w' h' b] split: option.split)
    next
      case (Some b')
      from area_grow_measure [OF Some less.prems] less.hyps [of b']
      obtain a' r where "alloc_search w' h' b' = Some (a', r)" "fastMode a' = fastMode b'" by blast
      moreover from Some have "fastMode b' = fastMode b"
        by (auto simp: area_grow_def Let_def split: if_splits)
      ultimately show ?thesis using Some by (simp add: alloc_search.simps [of w' h' b] split: option.split)
    qed
  qed
  from this [OF assms(1,2)] obtain a' r
    where "alloc_search (if w < 0 then 0 else w) (if h < 0 then 0 else h) a = Some (a', r)"
      and "fastMode a'" using assms(3) by blast
  then show ?thesis by (cases r) (auto simp only: area_allocate_def Let_def prod.case option.case if_True)
qed

theorem area_allocate_terminates_witness:
  "\<exists>a' r. area_allocate 300 20 (area_reset 64 64 512 512 True) = Some (a', r)"
  by (rule area_allocate_terminates) (simp_all add: area_reset_def)

text \<open>The bound on the sizes is needed: an allocator created empty (\<open>0 x 0\<close>) with a
  positive maximal size never returns from \<open>Allocate\<close>, since doubling 0 never reaches the maximum.\<close>

theorem area_allocate_empty_diverges:
  assumes "0 < w" and "0 < mw" and "0 < mh"
  shows "area_allocate w h (area_reset 0 0 mw mh fast) = None"
proof -
  define stuck where "stuck b \<longleftrightarrow> freeAreas b = [mk_rect 0 0 0 0] \<and> size_x b = 0 \<and> size_y b = 0
    \<and> 0 < maxSize_x b \<and> 0 < maxSize_y b" for b :: area_alloc
  have step: "\<exists>b'. area_grow b = Some b' \<and> stuck b'" if "stuck b" for b
    using that by (auto simp: stuck_def area_grow_def Let_def mk_rect_def)
  have search: "\<not> (0 < w' \<and> stuck b)" if r: "alloc_search w' h' b = Some r" for w' h' b r
  proof (rule alloc_search.raw_induct [where P = "\<lambda>w' h' b r. \<not> (0 < w' \<and> stuck b)", OF _ r])
    fix f w' h' b r
    assume IH: "\<And>w' h' b r. f w' h' b = Some r \<Longrightarrow> \<not> (0 < w' \<and> stuck b)"
      and eq: "(case best_area w' h' (freeAreas b) 0 None M_MAX_INT of
          None \<Rightarrow> case area_grow b of None \<Rightarrow> Some (b, None) | Some a' \<Rightarrow> f w' h' a'
        | Some i \<Rightarrow> Some (b, Some i)) = Some r"
    show "\<not> (0 < w' \<and> stuck b)"
    proof
      assume A: "0 < w' \<and> stuck b"
      then obtain b' where b': "area_grow b = Some b'" "stuck b'" using step by blast
      from A have "best_area w' h' (freeAreas b) 0 None M_MAX_INT = None"
        by (simp add: stuck_def fits_def rect_width_def)
      with eq b' have "f w' h' b' = Some r" by simp
      with IH A b' show False by blast
    qed
  qed
  have "stuck (area_reset 0 0 mw mh fast)" using assms by (simp add: stuck_def area_reset_def)
  with search assms have "alloc_search w h' (area_reset 0 0 mw mh fast) = None" for h'
    by (metis option.exhaust)
  with assms show ?thesis by (simp add: area_allocate_def Let_def)
qed

theorem area_allocate_empty_diverges_witness:
  "area_allocate 1 1 (area_reset 0 0 256 256 True) = None"
  by (rule area_allocate_empty_diverges) simp_all

section \<open>Fast mode never hands out overlapping areas\<close>

definition disj_rect :: "int_rect \<Rightarrow> int_rect \<Rightarrow> bool" where
  "disj_rect r s \<longleftrightarrow> cells r \<inter> cells s = {}"

lemma disj_rect_sym: "disj_rect r s \<Longrightarrow> disj_rect s r"
  by (auto simp: disj_rect_def)

lemma disj_rect_empty: "cells s = {} \<Longrightarrow> disj_rect r s"
  by (simp add: disj_rect_def)

text \<open>A rectangle is well formed for sizes \<open>sx\<close>, \<open>sy\<close>, and the allocator state together with the
  rectangles handed out so far is consistent.\<close>

definition rect_within :: "int \<Rightarrow> int \<Rightarrow> int_rect \<Rightarrow> bool" where
  "rect_within sx sy r \<longleftrightarrow> 0 \<le> r_left r \<and> r_left r \<le> r_right r \<and> r_right r \<le> sx
     \<and> 0 \<le> r_top r \<and> r_top r \<le> r_bottom r \<and> r_bottom r \<le> sy"

definition area_inv :: "area_alloc \<Rightarrow> int_rect list \<Rightarrow> bool" where
  "area_inv a us \<longleftrightarrow> freeAreas a \<noteq> [] \<and> 0 \<le> size_x a \<and> 0 \<le> size_y a
     \<and> (\<forall>r \<in> set (freeAreas a) \<union> set us. rect_within (size_x a) (size_y a) r)
     \<and> pairwise_list disj_rect (freeAreas a) \<and> pairwise_list disj_rect us
     \<and> (\<forall>r \<in> set (freeAreas a). \<forall>u \<in> set us. disj_rect r u)"

lemma area_inv_reset [inv_pres]: "0 \<le> w \<Longrightarrow> 0 \<le> h \<Longrightarrow> area_inv (area_reset w h mw mh fast) []"
  by (simp add: area_inv_def area_reset_def rect_within_def)

lemma rect_within_disj_grow_x:
  "rect_within sx sy r \<Longrightarrow> disj_rect r (mk_rect sx 0 sx' sy')"
  by (auto simp: rect_within_def disj_rect_def)

lemma rect_within_disj_grow_y:
  "rect_within sx sy r \<Longrightarrow> disj_rect r (mk_rect 0 sy sx' sy')"
  by (auto simp: rect_within_def disj_rect_def)

lemma rect_within_mono: "rect_within sx sy r \<Longrightarrow> sx \<le> sx' \<Longrightarrow> sy \<le> sy' \<Longrightarrow> rect_within sx' sy' r"
  by (auto simp: rect_within_def)

text \<open>A used rectangle disjoint from the whole area is empty, so widening the only free area is safe.\<close>

lemma full_area_used_empty:
  "rect_within sx sy u \<Longrightarrow> disj_rect \<lparr>r_left = 0, r_top = 0, r_right = sx, r_bottom = sy\<rparr> u \<Longrightarrow> cells u = {}"
proof -
  let ?F = "\<lparr>r_left = 0, r_top = 0, r_right = sx, r_bottom = sy\<rparr>"
  assume "rect_within sx sy u" and d: "disj_rect ?F u"
  then have "cells u \<subseteq> cells ?F" by (auto simp: rect_within_def)
  with d show ?thesis by (auto simp: disj_rect_def)
qed

lemma area_inv_append:
  assumes inv: "area_inv a us" and "rect_within sx sy q" "size_x a \<le> sx" "size_y a \<le> sy"
    and d: "\<And>r. rect_within (size_x a) (size_y a) r \<Longrightarrow> disj_rect r q"
  shows "area_inv (a\<lparr>size_x := sx, size_y := sy, freeAreas := freeAreas a @ [q], doubleWidth := dw\<rparr>) us"
proof -
  from inv have w: "\<forall>r \<in> set (freeAreas a) \<union> set us. rect_within (size_x a) (size_y a) r"
    by (simp add: area_inv_def)
  then have "\<forall>r \<in> set (freeAreas a) \<union> set us. rect_within sx sy r \<and> disj_rect r q"
    using d rect_within_mono assms(3,4) by blast
  moreover from this inv have "pairwise_list disj_rect (freeAreas a @ [q])"
    by (auto intro!: pairwise_list_snoc intro: disj_rect_sym simp: area_inv_def)
  ultimately show ?thesis using inv assms(2-4) by (auto simp: area_inv_def intro: disj_rect_sym)
qed

lemma area_inv_widen:
  assumes inv: "area_inv a us"
    and one: "freeAreas a = [\<lparr>r_left = 0, r_top = 0, r_right = size_x a, r_bottom = size_y a\<rparr>]"
    and le: "size_x a \<le> sx" "size_y a \<le> sy"
  shows "area_inv (a\<lparr>size_x := sx, size_y := sy,
    freeAreas := [\<lparr>r_left = 0, r_top = 0, r_right = sx, r_bottom = sy\<rparr>], doubleWidth := dw\<rparr>) us"
proof -
  from inv have w: "\<forall>u \<in> set us. rect_within (size_x a) (size_y a) u" by (simp add: area_inv_def)
  with inv one have "\<forall>u \<in> set us. cells u = {}"
    by (auto simp: area_inv_def intro!: full_area_used_empty)
  moreover from w le have "\<forall>u \<in> set us. rect_within sx sy u" using rect_within_mono by blast
  ultimately show ?thesis using inv le by (auto simp: area_inv_def rect_within_def disj_rect_empty)
qed

lemma area_inv_grow [inv_pres]:
  assumes inv: "area_inv a us" and g: "area_grow a = Some a'"
  shows "area_inv a' us"
proof -
  let ?f = "hd (freeAreas a)"
  from inv have ne: "freeAreas a \<noteq> []" and sz: "0 \<le> size_x a" "0 \<le> size_y a"
    by (auto simp: area_inv_def)
  have single: "freeAreas a = [?f]" if "length (freeAreas a) = 1"
    using that by (cases "freeAreas a") auto
  consider
    (wx) "length (freeAreas a) = 1" "?f = \<lparr>r_left = 0, r_top = 0, r_right = size_x a, r_bottom = size_y a\<rparr>"
      "a' = a\<lparr>size_x := size_x a * 2, size_y := size_y a, freeAreas := [\<lparr>r_left = 0, r_top = 0, r_right = size_x a * 2, r_bottom = size_y a\<rparr>], doubleWidth := \<not> doubleWidth a\<rparr>"
    | (ax) "a' = a\<lparr>size_x := size_x a * 2, size_y := size_y a, freeAreas := freeAreas a @ [mk_rect (size_x a) 0 (size_x a * 2) (size_y a)], doubleWidth := \<not> doubleWidth a\<rparr>"
    | (wy) "length (freeAreas a) = 1" "?f = \<lparr>r_left = 0, r_top = 0, r_right = size_x a, r_bottom = size_y a\<rparr>"
      "a' = a\<lparr>size_x := size_x a, size_y := size_y a * 2, freeAreas := [\<lparr>r_left = 0, r_top = 0, r_right = size_x a, r_bottom = size_y a * 2\<rparr>], doubleWidth := \<not> doubleWidth a\<rparr>"
    | (ay) "a' = a\<lparr>size_x := size_x a, size_y := size_y a * 2, freeAreas := freeAreas a @ [mk_rect 0 (size_y a) (size_x a) (size_y a * 2)], doubleWidth := \<not> doubleWidth a\<rparr>"
    using g by (cases ?f) (auto simp: area_grow_def Let_def split: if_splits)
  then show ?thesis
  proof cases
    case wx
    with area_inv_widen [OF inv, of "size_x a * 2" "size_y a" "\<not> doubleWidth a"] single sz show ?thesis
      by simp
  next
    case wy
    with area_inv_widen [OF inv, of "size_x a" "size_y a * 2" "\<not> doubleWidth a"] single sz show ?thesis
      by simp
  next
    case ax
    have "rect_within (size_x a * 2) (size_y a) (mk_rect (size_x a) 0 (size_x a * 2) (size_y a))"
      using sz by (simp add: rect_within_def)
    from area_inv_append [OF inv this _ _ rect_within_disj_grow_x, where dw = "\<not> doubleWidth a"] ax sz show ?thesis
      by simp
  next
    case ay
    have "rect_within (size_x a) (size_y a * 2) (mk_rect 0 (size_y a) (size_x a) (size_y a * 2))"
      using sz by (simp add: rect_within_def)
    from area_inv_append [OF inv this _ _ rect_within_disj_grow_y, where dw = "\<not> doubleWidth a"] ay sz show ?thesis
      by simp
  qed
qed

lemma disj_rect_sub: "disj_rect r s \<Longrightarrow> cells q \<subseteq> cells r \<Longrightarrow> disj_rect q s"
  by (auto simp: disj_rect_def)

lemma area_inv_replace:
  assumes inv: "area_inv a us" and i: "i < length (freeAreas a)"
    and sub: "cells q \<subseteq> cells (freeAreas a ! i)" "cells u \<subseteq> cells (freeAreas a ! i)"
    and within: "rect_within (size_x a) (size_y a) q" "rect_within (size_x a) (size_y a) u"
    and qu: "disj_rect q u"
  shows "area_inv (a\<lparr>freeAreas := (freeAreas a)[i := q]\<rparr>) (us @ [u])"
proof -
  let ?fs = "freeAreas a"
  from inv have pw: "pairwise_list disj_rect ?fs" and pu: "pairwise_list disj_rect us"
    and ru: "\<forall>r \<in> set ?fs. \<forall>v \<in> set us. disj_rect r v" by (auto simp: area_inv_def)
  have other: "disj_rect (?fs ! i) (?fs ! j)" if "j < length ?fs" "j \<noteq> i" for j
    using pairwise_listD [OF pw i that(1)] that by auto
  have "pairwise_list disj_rect (?fs[i := q])"
    using other sub by (intro pairwise_list_update pw i) (blast intro: disj_rect_sub disj_rect_sym)+
  moreover have "pairwise_list disj_rect (us @ [u])"
    using ru i sub by (intro pairwise_list_snoc pu) (blast intro: disj_rect_sub disj_rect_sym nth_mem)
  moreover have "\<forall>r \<in> set (?fs[i := q]). \<forall>v \<in> set (us @ [u]). disj_rect r v"
  proof (intro ballI)
    fix r v assume r: "r \<in> set (?fs[i := q])" and v: "v \<in> set (us @ [u])"
    from r obtain j where j: "j < length ?fs" "r = ?fs[i := q] ! j" by (auto simp: in_set_conv_nth)
    have iv: "x \<in> set us \<Longrightarrow> disj_rect (?fs ! i) x" for x using ru i nth_mem by blast
    show "disj_rect r v"
    proof (cases "j = i")
      case True
      with j v qu iv i sub show ?thesis by (auto intro: disj_rect_sub)
    next
      case False
      with j v ru other sub show ?thesis
        by (auto intro: disj_rect_sub [THEN disj_rect_sym])
    qed
  qed
  moreover have "\<forall>r \<in> set (?fs[i := q]) \<union> set (us @ [u]). rect_within (size_x a) (size_y a) r"
    using inv within set_update_subset [of ?fs i q] by (fastforce simp: area_inv_def)
  ultimately show ?thesis using inv by (auto simp: area_inv_def)
qed

lemma area_inv_add_free:
  assumes inv: "area_inv a us" and within: "rect_within (size_x a) (size_y a) q"
    and d: "\<And>r. r \<in> set (freeAreas a) \<union> set us \<Longrightarrow> disj_rect r q"
  shows "area_inv (a\<lparr>freeAreas := freeAreas a @ [q]\<rparr>) us"
  using inv within d by (auto simp: area_inv_def intro!: pairwise_list_snoc intro: disj_rect_sym)

lemma area_inv_reserve [inv_pres]:
  assumes inv: "area_inv a us" and i: "i < length (freeAreas a)" and wh: "0 \<le> w" "0 \<le> h"
    and fit: "w \<le> rect_width (freeAreas a ! i)" "h \<le> rect_height (freeAreas a ! i)"
  shows "area_inv (reserve_fast w h i a)
    (us @ [mk_rect (r_left (freeAreas a ! i)) (r_top (freeAreas a ! i))
             (r_left (freeAreas a ! i) + w) (r_top (freeAreas a ! i) + h)])"
proof -
  let ?B = "freeAreas a ! i"
  let ?u = "mk_rect (r_left ?B) (r_top ?B) (r_left ?B + w) (r_top ?B + h)"
  let ?low = "mk_rect (r_left ?B) (r_top ?B + h) (r_right ?B) (r_bottom ?B)"
  from inv i have wB: "rect_within (size_x a) (size_y a) ?B" by (auto simp: area_inv_def)
  from wB wh fit have within: "rect_within (size_x a) (size_y a) q"
    if "q = ?u \<or> q = ?B\<lparr>r_left := r_left ?B + w\<rparr> \<or> q = ?low
      \<or> q = ?B\<lparr>r_left := r_left ?B + w, r_bottom := r_top ?B + h\<rparr>" for q
    using that by (auto simp: rect_within_def rect_width_def rect_height_def)
  have sub: "cells ?u \<subseteq> cells ?B" "cells (?B\<lparr>r_left := r_left ?B + w\<rparr>) \<subseteq> cells ?B"
    "cells (?B\<lparr>r_left := r_left ?B + w, r_bottom := r_top ?B + h\<rparr>) \<subseteq> cells ?B" "cells ?low \<subseteq> cells ?B"
    using fit wh by (auto simp: rect_width_def rect_height_def)
  show ?thesis
  proof (cases "rect_height (?B\<lparr>r_left := r_left ?B + w\<rparr>) > 2 * h \<or> h \<ge> size_y a sdiv 2")
    case False
    then have "reserve_fast w h i a = a\<lparr>freeAreas := (freeAreas a)[i := ?B\<lparr>r_left := r_left ?B + w\<rparr>]\<rparr>"
      by (simp add: reserve_fast_def Let_def)
    moreover have "disj_rect (?B\<lparr>r_left := r_left ?B + w\<rparr>) ?u" by (auto simp: disj_rect_def)
    ultimately show ?thesis using area_inv_replace [OF inv i sub(2,1)] within by simp
  next
    case True
    let ?q = "?B\<lparr>r_left := r_left ?B + w, r_bottom := r_top ?B + h\<rparr>"
    let ?a = "a\<lparr>freeAreas := (freeAreas a)[i := ?q]\<rparr>"
    have "disj_rect ?q ?u" by (auto simp: disj_rect_def)
    with area_inv_replace [OF inv i sub(3,1)] within have inv': "area_inv ?a (us @ [?u])" by simp
    have "disj_rect r ?low" if r: "r \<in> set (freeAreas ?a) \<union> set (us @ [?u])" for r
    proof -
      have "disj_rect ?q ?low" "disj_rect ?u ?low" by (auto simp: disj_rect_def)
      moreover have "disj_rect v ?low" if "v \<in> set us" for v
      proof -
        from that inv i have "disj_rect ?B v" by (auto simp: area_inv_def)
        with sub(4) show ?thesis by (blast intro: disj_rect_sub disj_rect_sym)
      qed
      moreover have "disj_rect (freeAreas a ! j) ?low" if "j < length (freeAreas a)" "j \<noteq> i" for j
        using that i inv sub(4) pairwise_listD [of disj_rect "freeAreas a" i j]
        by (auto simp: area_inv_def intro: disj_rect_sub disj_rect_sym)
      ultimately show ?thesis using r i by (auto simp: in_set_conv_nth nth_list_update)
    qed
    with area_inv_add_free [OF inv', of ?low] within have "area_inv (?a\<lparr>freeAreas := freeAreas ?a @ [?low]\<rparr>) (us @ [?u])"
      by simp
    with True show ?thesis by (simp add: reserve_fast_def Let_def)
  qed
qed

text \<open>The search keeps the invariant and the mode, and returns the index of a fitting area.\<close>

lemma alloc_search_inv:
  assumes r: "alloc_search w h a = Some (a', r)" and inv: "area_inv a us"
  shows "area_inv a' us \<and> fastMode a' = fastMode a \<and>
    (\<forall>i. r = Some i \<longrightarrow> i < length (freeAreas a') \<and> w \<le> rect_width (freeAreas a' ! i)
       \<and> h \<le> rect_height (freeAreas a' ! i))"
proof -
  let ?P = "\<lambda>w h a (y :: area_alloc \<times> nat option). area_inv a us \<longrightarrow> area_inv (fst y) us
     \<and> fastMode (fst y) = fastMode a \<and> (\<forall>i. snd y = Some i \<longrightarrow> i < length (freeAreas (fst y))
        \<and> w \<le> rect_width (freeAreas (fst y) ! i) \<and> h \<le> rect_height (freeAreas (fst y) ! i))"
  have "?P w h a (a', r)"
  proof (rule alloc_search.raw_induct [where P = ?P, OF _ r])
    fix f w h b y
    assume IH: "\<And>w h b y. f w h b = Some y \<Longrightarrow> ?P w h b y"
      and eq: "(case best_area w h (freeAreas b) 0 None M_MAX_INT of
          None \<Rightarrow> case area_grow b of None \<Rightarrow> Some (b, None) | Some a' \<Rightarrow> f w h a'
        | Some i \<Rightarrow> Some (b, Some i)) = Some y"
    have mode: "area_grow b = Some b' \<Longrightarrow> fastMode b' = fastMode b" for b'
      by (auto simp: area_grow_def Let_def split: if_splits)
    show "?P w h b y"
    proof (cases "best_area w h (freeAreas b) 0 None M_MAX_INT")
      case (Some i)
      with eq best_area_Some [OF Some] show ?thesis by auto
    next
      case None
      show ?thesis
      proof (cases "area_grow b")
        case None
        with eq \<open>best_area w h (freeAreas b) 0 None M_MAX_INT = None\<close> show ?thesis by auto
      next
        case (Some b')
        with eq None have "f w h b' = Some y" by simp
        with IH area_inv_grow [OF _ Some] mode [OF Some] show ?thesis by fastforce
      qed
    qed
  qed
  with inv show ?thesis by simp
qed

lemma area_allocate_inv:
  assumes "area_allocate w h a = Some (a', r)" and "area_inv a us" and "fastMode a"
  shows "fastMode a' \<and> (case r of None \<Rightarrow> area_inv a' us
     | Some (x, y) \<Rightarrow> area_inv a' (us @ [mk_rect x y (x + max 0 w) (y + max 0 h)]))"
proof -
  let ?w = "if w < 0 then 0 else w" and ?h = "if h < 0 then 0 else h"
  from assms(1) obtain b ri where s: "alloc_search ?w ?h a = Some (b, ri)"
    by (auto simp: area_allocate_def Let_def split: option.splits)
  from alloc_search_inv [OF s assms(2)] have b: "area_inv b us" "fastMode b"
    and i: "\<And>i. ri = Some i \<Longrightarrow> i < length (freeAreas b) \<and> ?w \<le> rect_width (freeAreas b ! i)
       \<and> ?h \<le> rect_height (freeAreas b ! i)" using assms(3) by auto
  have m: "?w = max 0 w" "?h = max 0 h" by auto
  show ?thesis
  proof (cases ri)
    case None
    with assms(1) s b show ?thesis by (simp add: area_allocate_def Let_def)
  next
    case (Some k)
    from i [OF Some] area_inv_reserve [OF b(1), of k "max 0 w" "max 0 h"]
    show ?thesis using assms(1) s b(2) Some unfolding m area_allocate_def Let_def
      by (auto simp: reserve_fast_def Let_def)
  qed
qed

section \<open>The allocator on 32-bit integers\<close>

text \<open>The same functions as the code has them, on \<open>int\<close>: every sum, difference and product is checked, and one that does not fit
  32 bits is the fault \<open>IntOverflow\<close>. The functions above are their specification on unbounded integers.\<close>

fun best_area32 :: "int \<Rightarrow> int \<Rightarrow> int_rect list \<Rightarrow> nat \<Rightarrow> nat option \<Rightarrow> int \<Rightarrow> nat option res" where
  "best_area32 w h [] i best bestFree = ok best"
| "best_area32 w h (r # rs) i best bestFree =
     rbind (int32 (r_right r - r_left r)) (\<lambda>freeWidth. rbind (int32 (r_bottom r - r_top r)) (\<lambda>freeHeight.
       if freeWidth \<ge> w \<and> freeHeight \<ge> h then
         rbind (int32 (freeWidth * freeHeight)) (\<lambda>freeArea.
           if freeArea < bestFree then best_area32 w h rs (Suc i) (Some i) freeArea
           else best_area32 w h rs (Suc i) best bestFree)
       else best_area32 w h rs (Suc i) best bestFree))"

definition area_grow32 :: "area_alloc \<Rightarrow> area_alloc option res" where
  "area_grow32 a =
     (if doubleWidth a \<and> size_x a < maxSize_x a then
        rbind (int32 (size_x a * 2)) (\<lambda>newWidth.
          let oldWidth = size_x a; a1 = a\<lparr>size_x := newWidth\<rparr>; first = hd (freeAreas a1);
              a2 = (if length (freeAreas a1) = 1 \<and> r_left first = 0 \<and> r_top first = 0
                       \<and> r_right first = oldWidth \<and> r_bottom first = size_y a1
                    then a1\<lparr>freeAreas := [first\<lparr>r_right := size_x a1\<rparr>]\<rparr>
                    else a1\<lparr>freeAreas := freeAreas a1 @ [mk_rect oldWidth 0 (size_x a1) (size_y a1)]\<rparr>)
          in ok (Some (a2\<lparr>doubleWidth := \<not> doubleWidth a2\<rparr>)))
      else if \<not> doubleWidth a \<and> size_y a < maxSize_y a then
        rbind (int32 (size_y a * 2)) (\<lambda>newHeight.
          let oldHeight = size_y a; a1 = a\<lparr>size_y := newHeight\<rparr>; first = hd (freeAreas a1);
              a2 = (if length (freeAreas a1) = 1 \<and> r_left first = 0 \<and> r_top first = 0
                       \<and> r_right first = size_x a1 \<and> r_bottom first = oldHeight
                    then a1\<lparr>freeAreas := [first\<lparr>r_bottom := size_y a1\<rparr>]\<rparr>
                    else a1\<lparr>freeAreas := freeAreas a1 @ [mk_rect 0 oldHeight (size_x a1) (size_y a1)]\<rparr>)
          in ok (Some (a2\<lparr>doubleWidth := \<not> doubleWidth a2\<rparr>)))
      else ok None)"

partial_function (option) alloc_search32 :: "int \<Rightarrow> int \<Rightarrow> area_alloc \<Rightarrow> (area_alloc \<times> nat option) res option" where
  "alloc_search32 w h a =
     (case best_area32 w h (freeAreas a) 0 None M_MAX_INT of
        Inl e \<Rightarrow> Some (fail e)
      | Inr (Some i) \<Rightarrow> Some (ok (a, Some i))
      | Inr None \<Rightarrow>
          (case area_grow32 a of
             Inl e \<Rightarrow> Some (fail e)
           | Inr None \<Rightarrow> Some (ok (a, None))
           | Inr (Some a') \<Rightarrow> alloc_search32 w h a'))"

definition reserve_fast32 :: "int_rect \<Rightarrow> int \<Rightarrow> nat \<Rightarrow> area_alloc \<Rightarrow> area_alloc res" where
  "reserve_fast32 reserved h i a =
     (let best = freeAreas a ! i; best1 = best\<lparr>r_left := r_right reserved\<rparr>
      in rbind (int32 (r_bottom best1 - r_top best1)) (\<lambda>left_height. rbind (int32 (2 * h)) (\<lambda>twice.
           if left_height > twice \<or> h \<ge> size_y a sdiv 2 then
             ok (a\<lparr>freeAreas := (freeAreas a)[i := best1\<lparr>r_bottom := r_bottom reserved\<rparr>]
                @ [mk_rect (r_left reserved) (r_bottom reserved) (r_right best1) (r_bottom best1)]\<rparr>)
           else ok (a\<lparr>freeAreas := (freeAreas a)[i := best1]\<rparr>))))"

definition area_allocate32 :: "int \<Rightarrow> int \<Rightarrow> area_alloc \<Rightarrow> (area_alloc \<times> (int \<times> int) option) res option" where
  "area_allocate32 width height a =
     (let w = (if width < 0 then 0 else width); h = (if height < 0 then 0 else height) in
      case alloc_search32 w h a of
        None \<Rightarrow> None
      | Some (Inl e) \<Rightarrow> Some (fail e)
      | Some (Inr (a', None)) \<Rightarrow> Some (ok (a', None))
      | Some (Inr (a', Some i)) \<Rightarrow>
          (let best = freeAreas a' ! i in
           case rbind (int32 (r_left best + w)) (\<lambda>right. rbind (int32 (r_top best + h)) (\<lambda>bottom.
                  ok (mk_rect (r_left best) (r_top best) right bottom))) of
             Inl e \<Rightarrow> Some (fail e)
           | Inr reserved \<Rightarrow>
               (if fastMode a' then
                  Some (rbind (reserve_fast32 reserved h i a') (\<lambda>a''. ok (a'', Some (r_left best, r_top best))))
                else (case cleanup_from 0 a' of
                        None \<Rightarrow> None
                      | Some a'' \<Rightarrow> Some (ok (a'', Some (r_left best, r_top best)))))))"

text \<open>A run of requests, with the rectangles that were handed out.\<close>

fun area_run :: "area_alloc \<Rightarrow> (int \<times> int) list \<Rightarrow> int_rect list \<Rightarrow> (area_alloc \<times> int_rect list) res option" where
  "area_run a [] us = Some (ok (a, us))"
| "area_run a ((w, h) # reqs) us =
     (case area_allocate32 w h a of
        None \<Rightarrow> None
      | Some (Inl e) \<Rightarrow> Some (fail e)
      | Some (Inr (a', None)) \<Rightarrow> area_run a' reqs us
      | Some (Inr (a', Some (x, y))) \<Rightarrow> area_run a' reqs (us @ [mk_rect x y (x + max 0 w) (y + max 0 h)]))"

text \<open>The sides an area can grow to: a side is doubled as long as it is below its maximum.\<close>

definition grown :: "int \<Rightarrow> int \<Rightarrow> int" where
  "grown side most = (if side < most then 2 * most else side)"

definition small_area :: "area_alloc \<Rightarrow> bool" where
  "small_area a \<longleftrightarrow> 0 < size_x a \<and> 0 < size_y a \<and> grown (size_x a) (maxSize_x a) * grown (size_y a) (maxSize_y a) < 2 ^ 31
     \<and> grown (size_y a) (maxSize_y a) < 2 ^ 30"

lemma grown_bounds: "0 < n \<Longrightarrow> n \<le> grown n m" "0 < n \<Longrightarrow> n < m \<Longrightarrow> grown (n * 2) m \<le> grown n m" "n < m \<Longrightarrow> n * 2 < grown n m"
  by (simp_all add: grown_def)

lemma int32_fits: "0 \<le> x \<Longrightarrow> x < 2 ^ 31 \<Longrightarrow> int32 x = ok x"
  by (simp add: int32_def)

lemma int32_diff: "0 \<le> a \<Longrightarrow> a \<le> b \<Longrightarrow> b < 2 ^ 31 \<Longrightarrow> int32 (b - a) = ok (b - a)"
  by (rule int32_fits) simp_all

lemma small_sides:
  assumes "small_area a"
  shows "size_x a < 2 ^ 31" "size_y a < 2 ^ 30" "size_x a * size_y a < 2 ^ 31"
    "size_x a < maxSize_x a \<Longrightarrow> size_x a * 2 < 2 ^ 31" "size_y a < maxSize_y a \<Longrightarrow> size_y a * 2 < 2 ^ 30"
proof -
  let ?x = "grown (size_x a) (maxSize_x a)" and ?y = "grown (size_y a) (maxSize_y a)"
  have p: "0 < size_x a" "0 < size_y a" and b: "?x * ?y < 2 ^ 31" "?y < 2 ^ 30" using assms by (simp_all add: small_area_def)
  have x: "size_x a \<le> ?x" and y: "size_y a \<le> ?y" using p by (simp_all add: grown_bounds)
  have "?x * 1 \<le> ?x * ?y" using p x y by (intro mult_left_mono) simp_all
  then have X: "?x < 2 ^ 31" using b by simp
  show "size_x a < 2 ^ 31" "size_y a < 2 ^ 30" using x y X b by simp_all
  have "size_x a * size_y a \<le> ?x * ?y" using p x y by (intro mult_mono) simp_all
  then show "size_x a * size_y a < 2 ^ 31" using b by simp
  show "size_x a * 2 < 2 ^ 31" if "size_x a < maxSize_x a" using grown_bounds(3) [OF that] X by simp
  show "size_y a * 2 < 2 ^ 30" if "size_y a < maxSize_y a" using grown_bounds(3) [OF that] b by simp
qed

lemma best_area32_fits:
  assumes "\<forall>r \<in> set rs. rect_within sx sy r" and "sx < 2 ^ 31" and "sy < 2 ^ 31" and "sx * sy < 2 ^ 31"
  shows "best_area32 w h rs i b bf = ok (best_area w h rs i b bf)"
  using assms(1)
proof (induction rs arbitrary: i b bf)
  case (Cons r rs)
  have r: "0 \<le> r_left r" "r_left r \<le> r_right r" "r_right r < 2 ^ 31" "0 \<le> r_top r" "r_top r \<le> r_bottom r" "r_bottom r < 2 ^ 31"
    and le: "r_right r - r_left r \<le> sx" "r_bottom r - r_top r \<le> sy"
    using Cons.prems assms(2,3) by (auto simp: rect_within_def)
  have "(r_right r - r_left r) * (r_bottom r - r_top r) \<le> sx * sy" using r le by (intro mult_mono) simp_all
  then have "int32 ((r_right r - r_left r) * (r_bottom r - r_top r)) = ok ((r_right r - r_left r) * (r_bottom r - r_top r))"
    using r assms(4) by (intro int32_fits) simp_all
  then show ?case using Cons.IH Cons.prems int32_diff [OF r(1-3)] int32_diff [OF r(4-6)]
    by (simp add: fits_def rank_def rect_width_def rect_height_def)
qed simp

lemma area_grow32_fits:
  assumes "small_area a"
  shows "area_grow32 a = ok (area_grow a)" "area_grow a = Some b \<Longrightarrow> small_area b"
proof -
  have p: "0 < size_x a" "0 < size_y a" using assms by (simp_all add: small_area_def)
  have "int32 (size_x a * 2) = ok (size_x a * 2)" if "size_x a < maxSize_x a"
    using small_sides(4) [OF assms that] p by (intro int32_fits) simp_all
  moreover have "int32 (size_y a * 2) = ok (size_y a * 2)" if "size_y a < maxSize_y a"
    using small_sides(5) [OF assms that] p by (intro int32_fits) simp_all
  ultimately show "area_grow32 a = ok (area_grow a)" by (simp add: area_grow32_def area_grow_def Let_def)
  let ?x = "grown (size_x a) (maxSize_x a)" and ?y = "grown (size_y a) (maxSize_y a)"
  have pos: "0 < ?x" "0 < ?y" using p by (simp_all add: grown_def)
  have b: "?x * ?y < 2 ^ 31" "?y < 2 ^ 30" using assms by (simp_all add: small_area_def)
  have gx: "grown (size_x a * 2) (maxSize_x a) * ?y < 2 ^ 31" if "size_x a < maxSize_x a"
    by (rule le_less_trans [OF mult_right_mono [OF grown_bounds(2) [OF p(1) that]] b(1)]) (use pos in simp)
  have gy: "?x * grown (size_y a * 2) (maxSize_y a) < 2 ^ 31" if "size_y a < maxSize_y a"
    by (rule le_less_trans [OF mult_left_mono [OF grown_bounds(2) [OF p(2) that]] b(1)]) (use pos in simp)
  have hy: "grown (size_y a * 2) (maxSize_y a) < 2 ^ 30" if "size_y a < maxSize_y a"
    by (rule le_less_trans [OF grown_bounds(2) [OF p(2) that] b(2)])
  assume g: "area_grow a = Some b"
  show "small_area b"
  proof (cases "doubleWidth a \<and> size_x a < maxSize_x a")
    case True
    then have "size_x b = size_x a * 2" "size_y b = size_y a" "maxSize_x b = maxSize_x a" "maxSize_y b = maxSize_y a"
      using g by (auto simp: area_grow_def Let_def)
    then show ?thesis using True gx p b by (simp add: small_area_def)
  next
    case False
    then have "size_y a < maxSize_y a" "size_x b = size_x a" "size_y b = size_y a * 2" "maxSize_x b = maxSize_x a" "maxSize_y b = maxSize_y a"
      using g by (auto simp: area_grow_def Let_def split: if_splits)
    then show ?thesis using gy hy p b by (simp add: small_area_def)
  qed
qed

lemma alloc_search32_fits:
  assumes r: "alloc_search w h a = Some y" and inv: "area_inv a us" "small_area a"
  shows "alloc_search32 w h a = Some (ok y) \<and> small_area (fst y)"
proof -
  let ?P = "\<lambda>w h a (y :: area_alloc \<times> nat option). area_inv a us \<longrightarrow> small_area a
     \<longrightarrow> alloc_search32 w h a = Some (ok y) \<and> small_area (fst y)"
  have "?P w h a y"
  proof (rule alloc_search.raw_induct [where P = ?P, OF _ r])
    fix f w h b y
    assume IH: "\<And>w h b y. f w h b = Some y \<Longrightarrow> ?P w h b y"
      and eq: "(case best_area w h (freeAreas b) 0 None M_MAX_INT of
          None \<Rightarrow> case area_grow b of None \<Rightarrow> Some (b, None) | Some a' \<Rightarrow> f w h a'
        | Some i \<Rightarrow> Some (b, Some i)) = Some y"
    show "?P w h b y"
    proof (intro impI)
      assume b: "area_inv b us" "small_area b"
      have best: "best_area32 w h (freeAreas b) 0 None M_MAX_INT = ok (best_area w h (freeAreas b) 0 None M_MAX_INT)"
        using b(1) small_sides [OF b(2)] by (intro best_area32_fits [of _ "size_x b" "size_y b"]) (auto simp: area_inv_def)
      show "alloc_search32 w h b = Some (ok y) \<and> small_area (fst y)"
      proof (cases "best_area w h (freeAreas b) 0 None M_MAX_INT")
        case (Some i)
        then show ?thesis using eq best b(2) by (subst alloc_search32.simps) auto
      next
        case None
        show ?thesis
        proof (cases "area_grow b")
          case g: None
          then show ?thesis using None eq best b(2) area_grow32_fits(1) [OF b(2)] by (subst alloc_search32.simps) auto
        next
          case (Some c)
          then have "f w h c = Some y" using None eq by simp
          from IH [OF this] area_inv_grow [OF b(1) Some] area_grow32_fits(2) [OF b(2) Some]
          show ?thesis using None Some best area_grow32_fits(1) [OF b(2)] by (subst alloc_search32.simps) simp
        qed
      qed
    qed
  qed
  with inv show ?thesis by simp
qed

lemma reserve_fast32_fits:
  assumes "area_inv a us" and "small_area a" and "i < length (freeAreas a)" and "0 \<le> h" and "h \<le> rect_height (freeAreas a ! i)"
  shows "reserve_fast32 (mk_rect (r_left (freeAreas a ! i)) (r_top (freeAreas a ! i)) (r_left (freeAreas a ! i) + w) (r_top (freeAreas a ! i) + h)) h i a
    = ok (reserve_fast w h i a)"
proof -
  have r: "rect_within (size_x a) (size_y a) (freeAreas a ! i)" using assms(1,3) by (simp add: area_inv_def)
  have "size_y a < 2 ^ 30" by (rule small_sides(2) [OF assms(2)])
  with r assms(4,5) have "int32 (r_bottom (freeAreas a ! i) - r_top (freeAreas a ! i)) = ok (r_bottom (freeAreas a ! i) - r_top (freeAreas a ! i))"
      "int32 (2 * h) = ok (2 * h)"
    by (auto simp: rect_within_def rect_height_def intro!: int32_fits)
  then show ?thesis by (simp add: reserve_fast32_def reserve_fast_def Let_def rect_height_def mk_rect_def)
qed

lemma area_allocate32_fits:
  assumes "area_allocate w h a = Some (b, r)" and "area_inv a us" and "small_area a" and "fastMode a"
  shows "area_allocate32 w h a = Some (ok (b, r)) \<and> small_area b"
proof -
  let ?w = "if w < 0 then 0 else w" and ?h = "if h < 0 then 0 else h"
  from assms(1) obtain c ri where s: "alloc_search ?w ?h a = Some (c, ri)"
    by (auto simp: area_allocate_def Let_def split: option.splits)
  have s32: "alloc_search32 ?w ?h a = Some (ok (c, ri))" and c: "small_area c" using alloc_search32_fits [OF s assms(2,3)] by simp_all
  have inv: "area_inv c us" "fastMode c"
    and i: "\<And>i. ri = Some i \<Longrightarrow> i < length (freeAreas c) \<and> ?w \<le> rect_width (freeAreas c ! i) \<and> ?h \<le> rect_height (freeAreas c ! i)"
    using alloc_search_inv [OF s assms(2)] assms(4) by auto
  show ?thesis
  proof (cases ri)
    case None
    then show ?thesis using assms(1) s s32 c by (simp add: area_allocate_def area_allocate32_def Let_def)
  next
    case (Some k)
    let ?q = "freeAreas c ! k"
    have q: "rect_within (size_x c) (size_y c) ?q" using inv(1) i [OF Some] by (simp add: area_inv_def)
    have "int32 (r_left ?q + ?w) = ok (r_left ?q + ?w)" "int32 (r_top ?q + ?h) = ok (r_top ?q + ?h)"
      using q i [OF Some] small_sides(1,2) [OF c] by (auto simp: rect_within_def rect_width_def rect_height_def intro!: int32_fits)
    moreover have "reserve_fast32 (mk_rect (r_left ?q) (r_top ?q) (r_left ?q + ?w) (r_top ?q + ?h)) ?h k c = ok (reserve_fast ?w ?h k c)"
      using i [OF Some] by (intro reserve_fast32_fits [OF inv(1) c]) auto
    moreover have "b = reserve_fast ?w ?h k c" "r = Some (r_left ?q, r_top ?q)"
      using assms(1) s inv(2) Some by (simp_all add: area_allocate_def Let_def)
    moreover have "small_area (reserve_fast ?w ?h k c)" using c by (simp add: reserve_fast_def small_area_def Let_def)
    ultimately show ?thesis using s32 inv(2) Some unfolding area_allocate32_def Let_def by simp
  qed
qed

lemma area_run_inv:
  assumes "area_inv a us" and "small_area a" and "fastMode a"
  shows "\<exists>b vs. area_run a reqs us = Some (ok (b, vs)) \<and> area_inv b vs"
  using assms
proof (induction reqs arbitrary: a us)
  case (Cons q reqs)
  obtain w h where q: "q = (w, h)" by (cases q)
  have "0 < size_x a" "0 < size_y a" using Cons.prems(2) by (simp_all add: small_area_def)
  from area_allocate_terminates [OF this Cons.prems(3)] obtain b r where b: "area_allocate w h a = Some (b, r)" by blast
  show ?case using area_allocate32_fits [OF b Cons.prems] area_allocate_inv [OF b Cons.prems(1,3)] Cons.IH unfolding q
    by (cases r) (auto split: prod.splits)
qed simp

text \<open>Property C8. In fast mode the allocator never hands out overlapping areas: after \<open>Reset\<close> to a positive size, every sequence of requests
  returns, no operation on \<open>int\<close> overflows, and the rectangles handed out are pairwise disjoint and lie inside the area at the end. The sides the area can
  grow to have a product below 2^31, and its height stays below 2^30.\<close>

theorem fast_allocations_disjoint:
  assumes "0 < W" and "0 < H" and "grown W MW * grown H MH < 2 ^ 31" and "grown H MH < 2 ^ 30"
  shows "\<exists>a us. area_run (area_reset W H MW MH True) reqs [] = Some (ok (a, us))
    \<and> pairwise_list disj_rect us \<and> (\<forall>u \<in> set us. rect_within (size_x a) (size_y a) u)"
proof -
  let ?a = "area_reset W H MW MH True"
  have "small_area ?a" "fastMode ?a" using assms by (simp_all add: area_reset_def small_area_def)
  then have "\<exists>b vs. area_run ?a reqs [] = Some (ok (b, vs)) \<and> area_inv b vs"
    using area_inv_reset [of W H MW MH True] assms(1,2) by (intro area_run_inv) simp_all
  then show ?thesis by (auto simp: area_inv_def)
qed

theorem fast_allocations_disjoint_witness:
  "pairwise_list disj_rect [mk_rect 0 0 4 4, mk_rect 4 0 8 3]
   \<and> list_all (rect_within 8 8) [mk_rect 0 0 4 4, mk_rect 4 0 8 3]"
proof -
  let ?a = "\<lparr>freeAreas = [mk_rect 8 0 8 4, mk_rect 0 4 8 8], size_x = 8, size_y = 8,
      maxSize_x = 8, maxSize_y = 8, doubleWidth = True, fastMode = True\<rparr>"
  have run: "area_run (area_reset 8 8 8 8 True) [(4, 4), (4, 3)] [] =
    Some (ok (?a, [mk_rect 0 0 4 4, mk_rect 4 0 8 3]))"
    by (simp add: area_reset_def area_allocate32_def Let_def alloc_search32.simps int32_def M_MAX_INT_def reserve_fast32_def mk_rect_def
        signed_divide_int_def)
  have "grown 8 8 * grown 8 8 < 2 ^ 31" "grown 8 8 < 2 ^ 30" by (simp_all add: grown_def)
  with fast_allocations_disjoint [of 8 8 8 8 "[(4, 4), (4, 3)]"] run show ?thesis by (simp add: list_all_iff)
qed

text \<open>The bound is needed: the rank of a free area of 65536 times 65536 overflows.\<close>

lemma large_area_overflows: "area_allocate32 1 1 (area_reset 65536 65536 65536 65536 True) = Some (fail IntOverflow)"
  by (simp add: area_reset_def area_allocate32_def Let_def alloc_search32.simps int32_def mk_rect_def)

text \<open>The search returns the best fit: a free rectangle that is large enough, of the
  least area among all that are; it reports none exactly when no rectangle of area below
  \<open>M_MAX_INT\<close> is large enough.\<close>

theorem best_area_spec:
  "case best_area w h rs 0 None M_MAX_INT of
     Some k \<Rightarrow> k < length rs \<and> fits w h (rs ! k)
       \<and> list_all (\<lambda>r. rank (rs ! k) \<le> rank r) (filter (\<lambda>r. fits w h r \<and> rank r < M_MAX_INT) rs)
   | None \<Rightarrow> filter (\<lambda>r. fits w h r \<and> rank r < M_MAX_INT) rs = []"
proof (cases "best_area w h rs 0 None M_MAX_INT")
  case None
  then have "\<forall>r \<in> set rs. fits w h r \<longrightarrow> M_MAX_INT \<le> rank r" by (simp add: best_area_None)
  with None show ?thesis by (auto simp: filter_empty_conv)
next
  case (Some k)
  with best_area_Some [OF Some] best_area_least [OF Some] show ?thesis by (auto simp: fits_def list_all_iff)
qed

section \<open>The other mode, and splitting\<close>

lemma cleanup_inner_diverges: "j < n \<Longrightarrow> cleanup_inner j n = None"
proof -
  have "\<not> j' < n'" if r: "cleanup_inner j' n' = Some u" for j' n' u
  proof (rule cleanup_inner.raw_induct [where P = "\<lambda>j n u. \<not> j < n", OF _ r])
    fix f :: "nat \<Rightarrow> nat \<Rightarrow> unit option" and j n u
    assume "\<And>j n u. f j n = Some u \<Longrightarrow> \<not> j < n" and "(if j < n then f j n else Some ()) = Some u"
    then show "\<not> j < n" by (auto split: if_splits)
  qed
  then show "j < n \<Longrightarrow> cleanup_inner j n = None" by (cases "cleanup_inner j n") auto
qed

lemma cleanup_from_0:
  "cleanup_from 0 a = (if length (freeAreas a) \<le> 1 then Some a else None)"
proof (cases "length (freeAreas a) \<le> 1")
  case True
  then consider "freeAreas a = []" | r where "freeAreas a = [r]"
    by (cases "freeAreas a") auto
  then show ?thesis by cases (simp_all add: cleanup_from.simps cleanup_inner.simps)
next
  case False
  then have "cleanup_inner (0 + 1) (length (freeAreas a)) = None" by (intro cleanup_inner_diverges) simp
  with False show ?thesis by (auto simp: cleanup_from.simps [of 0])
qed

text \<open>Outside fast mode \<open>Allocate\<close> reserves nothing: whenever it succeeds there is a
  single free area, which it leaves as it was, so the same request succeeds again with the same
  coordinates (and with two or more free areas it never returns).\<close>

theorem slow_mode_reserves_nothing:
  assumes "\<not> fastMode a" and "area_allocate w h a = Some (a', Some p)"
  shows "length (freeAreas a') \<le> 1 \<and> area_allocate w h a' = Some (a', Some p)"
proof -
  let ?w = "if w < 0 then 0 else w" and ?h = "if h < 0 then 0 else h"
  let ?P = "\<lambda>w h a (y :: area_alloc \<times> nat option). fastMode (fst y) = fastMode a \<and>
    (\<forall>i. snd y = Some i \<longrightarrow> best_area w h (freeAreas (fst y)) 0 None M_MAX_INT = Some i)"
  have search: "?P w h a y" if r: "alloc_search w h a = Some y" for w h a y
  proof (rule alloc_search.raw_induct [where P = ?P, OF _ r])
    fix f w h b y
    assume IH: "\<And>w h b y. f w h b = Some y \<Longrightarrow> ?P w h b y"
      and eq: "(case best_area w h (freeAreas b) 0 None M_MAX_INT of
          None \<Rightarrow> case area_grow b of None \<Rightarrow> Some (b, None) | Some a' \<Rightarrow> f w h a'
        | Some i \<Rightarrow> Some (b, Some i)) = Some y"
    have "area_grow b = Some b' \<Longrightarrow> fastMode b' = fastMode b" for b'
      by (auto simp: area_grow_def Let_def split: if_splits)
    with eq show "?P w h b y" by (auto split: option.splits dest!: IH)
  qed
  from assms(2) obtain b k where s: "alloc_search ?w ?h a = Some (b, Some k)"
    by (auto simp: area_allocate_def Let_def split: option.splits)
  from search [OF s] assms(1) have b: "\<not> fastMode b" "best_area ?w ?h (freeAreas b) 0 None M_MAX_INT = Some k"
    by auto
  with assms(2) s have one: "length (freeAreas b) \<le> 1" and eq: "a' = b" "p = (r_left (freeAreas b ! k), r_top (freeAreas b ! k))"
    by (auto simp: area_allocate_def Let_def cleanup_from_0 split: if_splits)
  from b have "alloc_search ?w ?h b = Some (b, Some k)" by (subst alloc_search.simps) simp
  with b(1) one eq show ?thesis by (simp add: area_allocate_def Let_def cleanup_from_0)
qed

theorem slow_mode_reserves_nothing_witness:
  "\<exists>a'. area_allocate 4 4 (area_reset 8 8 8 8 False) = Some (a', Some (0, 0))
     \<and> area_allocate 4 4 a' = Some (a', Some (0, 0))"
proof -
  let ?a = "area_reset 8 8 8 8 False"
  have h: "\<not> fastMode ?a" "area_allocate 4 4 ?a = Some (?a, Some (0, 0))"
    by (simp_all add: area_reset_def area_allocate_def Let_def alloc_search.simps fits_def rank_def
        rect_width_def rect_height_def M_MAX_INT_def cleanup_from_0 mk_rect_def)
  from slow_mode_reserves_nothing [OF h] h show ?thesis by blast
qed

text \<open>\<open>SplitRect\<close> removes exactly the reserved cells: when it reports that the original
  rectangle is to be erased, the rectangles it appended cover the original without the reservation,
  and otherwise the two did not meet (for rectangles with cells).\<close>

theorem split_rect_cells:
  assumes "cells (freeAreas a ! i) \<noteq> {}" and "cells reserve \<noteq> {}"
  shows "(\<Union>r \<in> set (drop (length (freeAreas a)) (freeAreas (fst (split_rect i reserve a)))). cells r)
      = (if snd (split_rect i reserve a) then cells (freeAreas a ! i) - cells reserve else {})
    \<and> (snd (split_rect i reserve a) \<longleftrightarrow> cells (freeAreas a ! i) \<inter> cells reserve \<noteq> {})"
proof -
  let ?o = "freeAreas a ! i"
  let ?meet = "r_right reserve > r_left ?o \<and> r_left reserve < r_right ?o
    \<and> r_bottom reserve > r_top ?o \<and> r_top reserve < r_bottom ?o"
  have snd: "snd (split_rect i reserve a) \<longleftrightarrow> ?meet" by (simp add: split_rect_def Let_def)
  have clip: "cells ?o \<inter> cells reserve = cells (mk_rect (max (r_left ?o) (r_left reserve))
      (max (r_top ?o) (r_top reserve)) (min (r_right ?o) (r_right reserve)) (min (r_bottom ?o) (r_bottom reserve)))"
    by auto
  have iff: "?meet \<longleftrightarrow> cells ?o \<inter> cells reserve \<noteq> {}"
    unfolding clip using assms by (auto simp: cells_empty_iff)
  have "(\<Union>r \<in> set (drop (length (freeAreas a)) (freeAreas (fst (split_rect i reserve a)))). cells r)
      = (if ?meet then cells ?o - cells reserve else {})"
    by (auto simp: split_rect_def Let_def)
  with snd iff show ?thesis by simp
qed

theorem split_rect_cells_witness:
  "(\<Union>r \<in> set (drop 1 (freeAreas (fst (split_rect 0 (mk_rect 2 2 4 4) (area_reset 8 8 8 8 False))))). cells r)
     = cells (mk_rect 0 0 8 8) - cells (mk_rect 2 2 4 4)"
proof -
  have "snd (split_rect 0 (mk_rect 2 2 4 4) (area_reset 8 8 8 8 False))"
    by (simp add: split_rect_def area_reset_def Let_def)
  with split_rect_cells [of "area_reset 8 8 8 8 False" 0 "mk_rect 2 2 4 4"] show ?thesis
    by (simp add: cells_empty_iff area_reset_def)
qed

end
