(* ===== verification/JobSystem.thy ===== *)
theory JobSystem
  imports Prelude "HOL-Library.Multiset"
begin

text \<open>
  The job system of \<open>Core/JobSystem.cpp\<close>: the fixed-size ring buffer, the splitting of a dispatch
  into groups, and the interleaving of the main thread with the worker threads.

  The ring buffer is a record with the array, the two indices and their arithmetic modulo the
  capacity; the locale \<open>bounded_queue\<close> states what the threads rely on and is interpreted on it.
  \<open>Dispatch\<close> works on 32-bit words, so its ceiling division can wrap around. The threads are the
  step relation \<open>sys_step\<close>: a state holds the pool, the two 64-bit labels, the program point of the
  main thread and of every worker, and two ghost lists (the jobs handed in, the jobs counted as
  finished). The critical sections guarded by the buffer's mutex are single steps.
\<close>

section \<open>The ring buffer\<close>

record 'a ring =
  rdata :: "'a list"
  head :: nat
  tail :: nat

definition ring_new :: "nat \<Rightarrow> 'a \<Rightarrow> 'a ring" where
  "ring_new capacity d = \<lparr>rdata = replicate capacity d, head = 0, tail = 0\<rparr>"

definition push_back :: "'a \<Rightarrow> 'a ring \<Rightarrow> bool \<times> 'a ring" where
  "push_back item r =
    (let next = (head r + 1) mod length (rdata r) in
     if next \<noteq> tail r then (True, r\<lparr>rdata := (rdata r)[head r := item], head := next\<rparr>)
     else (False, r))"

definition pop_front :: "'a ring \<Rightarrow> 'a option \<times> 'a ring" where
  "pop_front r =
    (if tail r \<noteq> head r
     then (Some (rdata r ! tail r), r\<lparr>tail := (tail r + 1) mod length (rdata r)\<rparr>)
     else (None, r))"

definition ring_count :: "'a ring \<Rightarrow> nat" where
  "ring_count r = (head r + length (rdata r) - tail r) mod length (rdata r)"

definition ring_list :: "'a ring \<Rightarrow> 'a list" where
  "ring_list r = map (\<lambda>i. rdata r ! ((tail r + i) mod length (rdata r))) [0..<ring_count r]"

definition ring_inv :: "nat \<Rightarrow> 'a ring \<Rightarrow> bool" where
  "ring_inv capacity r \<longleftrightarrow> length (rdata r) = capacity \<and> 0 < capacity
     \<and> head r < capacity \<and> tail r < capacity"

locale bounded_queue =
  fixes inv :: "'q \<Rightarrow> bool"
    and abs :: "'q \<Rightarrow> 'a list"
    and room :: nat
    and push :: "'a \<Rightarrow> 'q \<Rightarrow> bool \<times> 'q"
    and pop :: "'q \<Rightarrow> 'a option \<times> 'q"
  assumes push_room: "inv q \<Longrightarrow> length (abs q) < room \<Longrightarrow>
      \<exists>q'. push x q = (True, q') \<and> inv q' \<and> abs q' = abs q @ [x]"
    and push_full: "inv q \<Longrightarrow> \<not> length (abs q) < room \<Longrightarrow> push x q = (False, q)"
    and pop_Nil: "inv q \<Longrightarrow> abs q = [] \<Longrightarrow> pop q = (None, q)"
    and pop_Cons: "inv q \<Longrightarrow> abs q = x # xs \<Longrightarrow>
      \<exists>q'. pop q = (Some x, q') \<and> inv q' \<and> abs q' = xs"
begin

lemma push_True: "inv q \<Longrightarrow> push x q = (True, q') \<Longrightarrow>
    inv q' \<and> abs q' = abs q @ [x] \<and> length (abs q) < room"
  using push_room [of q x] push_full [of q x] by (cases "length (abs q) < room") auto

lemma push_False: "inv q \<Longrightarrow> push x q = (False, q') \<Longrightarrow> q' = q \<and> \<not> length (abs q) < room"
  using push_room [of q x] push_full [of q x] by (cases "length (abs q) < room") auto

lemma pop_Some: "inv q \<Longrightarrow> pop q = (Some x, q') \<Longrightarrow> inv q' \<and> abs q = x # abs q'"
proof (cases "abs q")
  case (Cons y ys)
  assume "inv q" and "pop q = (Some x, q')"
  with pop_Cons [OF _ Cons] Cons show ?thesis by fastforce
qed (use pop_Nil in fastforce)

lemma pop_None: "inv q \<Longrightarrow> pop q = (None, q') \<Longrightarrow> q' = q \<and> abs q = []"
  by (cases "abs q") (use pop_Nil pop_Cons in fastforce)+

lemma length_le: "inv q \<Longrightarrow> length (abs q) \<le> room \<Longrightarrow> push x q = (b, q') \<Longrightarrow> length (abs q') \<le> room"
  by (cases b) (use push_True push_False in fastforce)+

end

lemma ring_count_less: "ring_inv c r \<Longrightarrow> ring_count r < c"
  by (simp add: ring_inv_def ring_count_def)

lemma ring_count_push:
  assumes "ring_inv c r" and "(head r + 1) mod c \<noteq> tail r"
  shows "((head r + 1) mod c + c - tail r) mod c = Suc (ring_count r)"
    and "(tail r + ring_count r) mod c = head r"
proof -
  from assms have b: "head r < c" "tail r < c" "length (rdata r) = c" by (auto simp: ring_inv_def)
  show "((head r + 1) mod c + c - tail r) mod c = Suc (ring_count r)"
  proof (cases "head r + 1 = c")
    case True
    with assms b have "tail r \<noteq> 0" by auto
    with True b show ?thesis by (auto simp: ring_count_def mod_if)
  next
    case False
    with assms b show ?thesis by (cases "tail r \<le> head r") (auto simp: ring_count_def mod_if)
  qed
  show "(tail r + ring_count r) mod c = head r"
    using b by (cases "tail r \<le> head r") (auto simp: ring_count_def mod_if)
qed

lemma ring_count_full:
  assumes "ring_inv c r"
  shows "(head r + 1) mod c \<noteq> tail r \<longleftrightarrow> ring_count r < c - 1"
proof -
  from assms have b: "head r < c" "tail r < c" "length (rdata r) = c" by (auto simp: ring_inv_def)
  show ?thesis
  proof (cases "tail r \<le> head r")
    case True
    then have "ring_count r = head r - tail r" using b by (auto simp: ring_count_def mod_if)
    with True b show ?thesis by (cases "head r + 1 = c") auto
  next
    case False
    then have "ring_count r = head r + c - tail r" using b by (auto simp: ring_count_def mod_if)
    with False b show ?thesis by (cases "head r + 1 = c") auto
  qed
qed

lemma ring_count_pop:
  assumes "ring_inv c r" and "tail r \<noteq> head r"
  shows "ring_count r = Suc ((head r + c - (tail r + 1) mod c) mod c)"
proof -
  from assms have b: "head r < c" "tail r < c" "length (rdata r) = c" by (auto simp: ring_inv_def)
  show ?thesis
  proof (cases "tail r + 1 = c")
    case True
    with assms b show ?thesis by (auto simp: ring_count_def mod_if)
  next
    case False
    with assms b show ?thesis by (cases "tail r \<le> head r") (auto simp: ring_count_def mod_if)
  qed
qed

lemma ring_count_0: "ring_inv c r \<Longrightarrow> ring_count r = 0 \<longleftrightarrow> tail r = head r"
  by (cases "tail r = head r") (simp add: ring_count_def ring_inv_def, simp add: ring_count_pop)

lemma ring_list_length [simp]: "length (ring_list r) = ring_count r"
  by (simp add: ring_list_def)

lemma ring_push_room:
  assumes inv: "ring_inv c r" and room: "length (ring_list r) < c - 1"
  shows "\<exists>r'. push_back x r = (True, r') \<and> ring_inv c r' \<and> ring_list r' = ring_list r @ [x]"
proof -
  let ?h = "(head r + 1) mod c" and ?n = "ring_count r"
  from inv have b: "head r < c" "tail r < c" "length (rdata r) = c" "0 < c" by (auto simp: ring_inv_def)
  from ring_count_full [OF inv] room have ne: "?h \<noteq> tail r" by simp
  let ?r = "r\<lparr>rdata := (rdata r)[head r := x], head := ?h\<rparr>"
  have push: "push_back x r = (True, ?r)" using ne b by (simp add: push_back_def Let_def)
  have n': "ring_count ?r = Suc ?n" using ring_count_push(1) [OF inv ne] b by (simp add: ring_count_def)
  have at_n: "(tail r + ?n) mod c = head r" by (rule ring_count_push(2) [OF inv ne])
  have other: "(tail r + i) mod c \<noteq> head r" if "i < ?n" for i
  proof
    assume "(tail r + i) mod c = head r"
    then have "(tail r + i) mod c = (tail r + ?n) mod c" using at_n by simp
    then have "i mod c = ?n mod c" by (simp add: mod_add_cong nat_mod_eq_iff)
    with that ring_count_less [OF inv] show False by simp
  qed
  have "ring_list ?r = map (\<lambda>i. (rdata r)[head r := x] ! ((tail r + i) mod c)) [0..<Suc ?n]"
    unfolding ring_list_def n' using b by simp
  also have "\<dots> = ring_list r @ [x]"
    using other [THEN not_sym] at_n b by (auto simp: ring_list_def)
  finally have "ring_list ?r = ring_list r @ [x]" .
  with push b show ?thesis by (auto simp: ring_inv_def)
qed

lemma ring_push_full:
  assumes "ring_inv c r" and "\<not> length (ring_list r) < c - 1"
  shows "push_back x r = (False, r)"
  using assms ring_count_full [OF assms(1)] by (auto simp: push_back_def Let_def ring_inv_def)

lemma ring_pop_Nil: "ring_inv c r \<Longrightarrow> ring_list r = [] \<Longrightarrow> pop_front r = (None, r)"
  using ring_count_0 [of c r] by (auto simp: pop_front_def ring_list_def)

lemma ring_pop_Cons:
  assumes inv: "ring_inv c r" and l: "ring_list r = x # xs"
  shows "\<exists>r'. pop_front r = (Some x, r') \<and> ring_inv c r' \<and> ring_list r' = xs"
proof -
  let ?t = "(tail r + 1) mod c"
  from inv have b: "head r < c" "tail r < c" "length (rdata r) = c" "0 < c" by (auto simp: ring_inv_def)
  from l have ne: "tail r \<noteq> head r" using ring_count_0 [OF inv] by (auto simp: ring_list_def)
  let ?r = "r\<lparr>tail := ?t\<rparr>"
  have n: "ring_count r = Suc (ring_count ?r)"
    using ring_count_pop [OF inv ne] b by (simp add: ring_count_def)
  have "ring_list r = map (\<lambda>i. rdata r ! ((tail r + i) mod c)) [0..<Suc (ring_count ?r)]"
    unfolding ring_list_def n using b by simp
  also have "\<dots> = rdata r ! tail r # map (\<lambda>i. rdata r ! ((tail r + Suc i) mod c)) [0..<ring_count ?r]"
    using b by (simp add: upt_rec [of 0] map_Suc_upt [symmetric] del: upt_Suc)
  also have "map (\<lambda>i. rdata r ! ((tail r + Suc i) mod c)) [0..<ring_count ?r] = ring_list ?r"
    using b by (simp add: ring_list_def mod_simps)
  finally have "x = rdata r ! tail r" "xs = ring_list ?r" using l by auto
  moreover have "pop_front r = (Some (rdata r ! tail r), ?r)" using ne b by (simp add: pop_front_def)
  moreover have "ring_inv c ?r" using b by (auto simp: ring_inv_def)
  ultimately show ?thesis by blast
qed

interpretation rq: bounded_queue "ring_inv c" ring_list "c - 1" push_back pop_front for c
  by unfold_locales (auto intro: ring_push_room ring_push_full ring_pop_Nil ring_pop_Cons)

lemma ring_new_empty: "0 < c \<Longrightarrow> ring_inv c (ring_new c d) \<and> ring_list (ring_new c d) = []"
  by (auto simp: ring_inv_def ring_new_def ring_list_def ring_count_def)

text \<open>The behaviour of a queue, as a function on sequences of operations: once on the ring buffer, once
  on a list that holds at most \<open>room\<close> items.\<close>

datatype 'a qop = Push 'a | Pop

fun ring_run :: "'a ring \<Rightarrow> 'a qop list \<Rightarrow> (bool + 'a option) list" where
  "ring_run r [] = []"
| "ring_run r (Push x # ops) = (case push_back x r of (b, r') \<Rightarrow> Inl b # ring_run r' ops)"
| "ring_run r (Pop # ops) = (case pop_front r of (y, r') \<Rightarrow> Inr y # ring_run r' ops)"

fun list_run :: "nat \<Rightarrow> 'a list \<Rightarrow> 'a qop list \<Rightarrow> (bool + 'a option) list" where
  "list_run room xs [] = []"
| "list_run room xs (Push x # ops) =
    (if length xs < room then Inl True # list_run room (xs @ [x]) ops
     else Inl False # list_run room xs ops)"
| "list_run room [] (Pop # ops) = Inr None # list_run room [] ops"
| "list_run room (y # ys) (Pop # ops) = Inr (Some y) # list_run room ys ops"

lemma ring_run_list: "ring_inv c r \<Longrightarrow> ring_run r ops = list_run (c - 1) (ring_list r) ops"
proof (induction ops arbitrary: r)
  case (Cons a ops)
  show ?case
  proof (cases a)
    case (Push x)
    then show ?thesis
      using Cons rq.push_room [OF Cons.prems, of x] rq.push_full [OF Cons.prems, of x]
      by (cases "length (ring_list r) < c - 1") auto
  next
    case Pop
    then show ?thesis
      using Cons rq.pop_Nil [OF Cons.prems] rq.pop_Cons [OF Cons.prems]
      by (cases "ring_list r") fastforce+
  qed
qed simp

text \<open>Property C19. The ring buffer of capacity \<open>c + 1\<close> is a first-in first-out queue that holds at most
  \<open>c\<close> items: on every sequence of \<open>push_back\<close> and \<open>pop_front\<close> calls it answers like a list of
  bounded length, wrap-around of the two indices included.\<close>

theorem ring_is_bounded_fifo:
  "ring_run (ring_new (Suc c) d) ops = list_run c [] ops"
  using ring_run_list [of "Suc c" "ring_new (Suc c) d" ops] ring_new_empty [of "Suc c" d] by simp

section \<open>Dispatch\<close>

record job_args =
  jobIndex :: u32
  groupIndex :: u32

definition group_count :: "u32 \<Rightarrow> u32 \<Rightarrow> u32" where
  "group_count jobCount groupSize = (jobCount + groupSize - 1) div groupSize"

definition group_job :: "u32 \<Rightarrow> u32 \<Rightarrow> u32 \<Rightarrow> job_args list" where
  "group_job jobCount groupSize g =
    (let groupJobOffset = g * groupSize;
         groupJobEnd = min (groupJobOffset + groupSize) jobCount
     in map (\<lambda>i. \<lparr>jobIndex = i, groupIndex = g\<rparr>) (word_upto groupJobOffset groupJobEnd))"

definition dispatch_groups :: "u32 \<Rightarrow> u32 \<Rightarrow> job_args list list" where
  "dispatch_groups jobCount groupSize =
    (if jobCount = 0 \<or> groupSize = 0 then []
     else map (group_job jobCount groupSize) (word_upto 0 (group_count jobCount groupSize)))"

lemma group_count_no_overflow:
  assumes "jobCount \<noteq> 0" "groupSize \<noteq> 0" and "unat jobCount + unat groupSize \<le> 2 ^ 32"
  shows "unat (group_count jobCount groupSize) = (unat jobCount + unat groupSize - 1) div unat groupSize"
proof -
  have p: "0 < unat jobCount" "0 < unat groupSize"
    using assms by (auto simp: unat_gt_0)
  have "unat (jobCount + groupSize - 1) = unat jobCount + unat groupSize - 1"
  proof -
    have "jobCount + groupSize - 1 = word_of_nat (unat jobCount + unat groupSize - 1)"
      using p by (simp add: of_nat_diff)
    then show ?thesis using assms p by (intro unat32_eqI) auto
  qed
  then show ?thesis by (simp add: group_count_def unat_div)
qed

lemma group_count_overflow:
  assumes "2 ^ 32 < unat jobCount + unat groupSize"
  shows "group_count jobCount groupSize = 0"
proof -
  have l: "unat jobCount < 2 ^ 32" "unat groupSize < 2 ^ 32"
    using unsigned_less [of jobCount] unsigned_less [of groupSize] by auto
  have "jobCount + groupSize - 1 = word_of_nat (unat jobCount + unat groupSize - 1)"
    using assms by (simp add: of_nat_diff)
  also have "\<dots> = word_of_nat (unat jobCount + unat groupSize - 1 - 2 ^ 32)"
    using assms by (subst of_nat_diff [where n = "2 ^ 32"]) auto
  finally have "unat (jobCount + groupSize - 1) = unat jobCount + unat groupSize - 1 - 2 ^ 32"
    using l assms by (intro unat32_eqI) auto
  then have "unat (jobCount + groupSize - 1) < unat groupSize" using assms l by simp
  then show ?thesis by (simp add: group_count_def word_unat_eq_iff unat_div)
qed

text \<open>A job as the callback sees it: its index and the index of its group.\<close>

definition seen :: "job_args \<Rightarrow> nat \<times> nat" where
  "seen a = (unat (jobIndex a), unat (groupIndex a))"

lemma concat_groups:
  assumes "0 < s"
  shows "concat (map (\<lambda>g. map (\<lambda>i. (i, g)) [g * s..<min (g * s + s) n]) [0..<k]) =
    map (\<lambda>i. (i, i div s)) [0..<min (k * s) n]"
proof (induction k)
  case (Suc k)
  have eq: "map (\<lambda>i. (i, k)) [k * s..<min (k * s + s) n] = map (\<lambda>i. (i, i div s)) [k * s..<min (k * s + s) n]"
    using assms by (auto intro!: div_nat_eqI [symmetric] simp: mult.commute)
  have app: "[0..<min (k * s) n] @ [k * s..<min (k * s + s) n] = [0..<min (Suc k * s) n]"
  proof (cases "k * s \<le> n")
    case True
    then show ?thesis using upt_add_eq_append [of 0 "k * s" "min (k * s + s) n - k * s"] by (simp add: min_def ac_simps)
  qed (simp add: min_def)
  have "concat (map (\<lambda>g. map (\<lambda>i. (i, g)) [g * s..<min (g * s + s) n]) [0..<Suc k]) =
      map (\<lambda>i. (i, i div s)) ([0..<min (k * s) n] @ [k * s..<min (k * s + s) n])"
    using Suc eq by simp
  then show ?case unfolding app .
qed simp

lemma group_job_seen:
  assumes "unat g * unat groupSize < unat jobCount" and "unat jobCount + unat groupSize \<le> 2 ^ 32"
  shows "map seen (group_job jobCount groupSize g) =
    map (\<lambda>i. (i, unat g)) [unat g * unat groupSize..<min (unat g * unat groupSize + unat groupSize) (unat jobCount)]"
proof -
  have off: "unat (g * groupSize) = unat g * unat groupSize"
    using assms unsigned_less [of jobCount] by (intro unat32_eqI) auto
  have "unat (g * groupSize + groupSize) = unat g * unat groupSize + unat groupSize"
    using assms by (intro unat32_eqI) auto
  then have "unat (min (g * groupSize + groupSize) jobCount) =
      min (unat g * unat groupSize + unat groupSize) (unat jobCount)"
    by (simp add: min_def word_le_nat_alt)
  with off have "map unat (word_upto (g * groupSize) (min (g * groupSize + groupSize) jobCount)) =
      [unat g * unat groupSize..<min (unat g * unat groupSize + unat groupSize) (unat jobCount)]"
    by (simp add: unat_word_upto)
  then show ?thesis
    by (simp add: group_job_def Let_def seen_def comp_def flip: map_map [of "\<lambda>i. (i, unat g)" unat, unfolded comp_def])
qed

text \<open>The groups of a dispatch, read one after another, list every index below \<open>jobCount\<close> once and in order, as long as
  \<open>jobCount + groupSize\<close> does not exceed 2^32. Beyond that the ceiling division wraps around and there is no group at all.\<close>

lemma concat_dispatch:
  "map seen (concat (dispatch_groups jobCount groupSize)) =
    (if groupSize = 0 \<or> 2 ^ 32 < unat jobCount + unat groupSize then []
     else map (\<lambda>i. (i, i div unat groupSize)) [0..<unat jobCount])"
proof (cases "jobCount = 0 \<or> groupSize = 0")
  case True
  then show ?thesis by (auto simp: dispatch_groups_def)
next
  case nz: False
  let ?s = "unat groupSize" and ?n = "unat jobCount" and ?c = "group_count jobCount groupSize"
  from nz have p: "0 < ?s" "0 < ?n" by (auto simp: unat_gt_0)
  show ?thesis
  proof (cases "2 ^ 32 < ?n + ?s")
    case True
    with nz show ?thesis
      by (simp add: dispatch_groups_def group_count_overflow [OF True] word_upto.simps [of 0])
  next
    case False
    then have no: "?n + ?s \<le> 2 ^ 32" by simp
    have c: "unat ?c = (?n + ?s - 1) div ?s"
      using nz no by (simp add: group_count_no_overflow)
    have lt: "unat g * ?s < ?n" if "unat g < unat ?c" for g :: u32
    proof -
      from that c have "unat g * ?s + ?s \<le> (?n + ?s - 1) div ?s * ?s"
        by (metis Suc_leI add.commute mult_Suc mult_le_mono1)
      also have "\<dots> \<le> ?n + ?s - 1" by (rule div_times_less_eq_dividend)
      finally show ?thesis using p by linarith
    qed
    let ?F = "\<lambda>g. map (\<lambda>i. (i, g)) [g * ?s..<min (g * ?s + ?s) ?n]"
    have "map (\<lambda>g. map seen (group_job jobCount groupSize g)) (word_upto 0 ?c) = map (\<lambda>g. ?F (unat g)) (word_upto 0 ?c)"
      by (rule map_cong [OF refl]) (simp add: group_job_seen [OF lt no] set_word_upto word_less_nat_alt)
    also have "\<dots> = map ?F [0..<unat ?c]"
      using unat_word_upto [of 0 ?c] by (simp flip: map_map [of ?F unat, unfolded comp_def])
    finally have "map seen (concat (dispatch_groups jobCount groupSize)) = concat (map ?F [0..<unat ?c])"
      using nz by (simp add: dispatch_groups_def map_concat comp_def)
    also have "\<dots> = map (\<lambda>i. (i, i div ?s)) [0..<min (unat ?c * ?s) ?n]" by (rule concat_groups [OF p(1)])
    also have "min (unat ?c * ?s) ?n = ?n"
    proof -
      have "?n + ?s - 1 < ((?n + ?s - 1) div ?s + 1) * ?s" using p(1) by (simp add: dividend_less_div_times)
      then have "?n \<le> unat ?c * ?s" unfolding c using p by simp
      then show ?thesis by simp
    qed
    finally show ?thesis using nz no by simp
  qed
qed

section \<open>Main thread and workers\<close>

text \<open>A job in the pool is a callback of \<open>Execute\<close> or one group of a \<open>Dispatch\<close>. The program points
  of a worker: about to call \<open>pop_front\<close>, holding a job, between the end of the job and
  \<open>finishedLabel.fetch_add\<close>, on the way to sleep (the pop has failed, the condition variable is not
  yet entered), asleep in \<open>wakeCondition.wait\<close>. The main thread is between calls, inside
  \<open>push_back\<close>'s retry loop with the jobs still to push, about to notify after a push, or in \<open>Wait\<close>.\<close>

datatype 'j job = Single 'j | Group 'j "job_args list"

datatype 'j worker = Polling | Running "'j job" | Counting "'j job" | Dozing | Asleep

datatype 'j main = MainIdle | MainPush "'j job list" | MainNotify "'j job list" | MainWait

record 'j job_sys =
  numThreads :: u32
  jobPool :: "'j job ring"
  currentLabel :: u64
  finishedLabel :: u64
  main_at :: "'j main"
  workers :: "'j worker list"
  submitted :: "'j job list"
  executed :: "'j job list"

definition on_init :: "'j job \<Rightarrow> u32 \<Rightarrow> 'j job_sys" where
  "on_init d numCores =
    \<lparr>numThreads = max 1 numCores, jobPool = ring_new 256 d, currentLabel = 0, finishedLabel = 0,
     main_at = MainIdle, workers = map (\<lambda>threadID. Polling) (word_upto 0 (max 1 numCores)),
     submitted = [], executed = []\<rparr>"

definition is_busy :: "'j job_sys \<Rightarrow> bool" where
  "is_busy s \<longleftrightarrow> finishedLabel s < currentLabel s"

text \<open>The retry loop of \<open>Execute\<close> and \<open>Dispatch\<close>, entered after the label update.\<close>

definition main_next :: "'j job list \<Rightarrow> 'j main" where
  "main_next js = (if js = [] then MainIdle else MainPush js)"

definition execute_call :: "'j \<Rightarrow> 'j job_sys \<Rightarrow> 'j job_sys" where
  "execute_call job s = s\<lparr>currentLabel := currentLabel s + 1, main_at := main_next [Single job],
     submitted := submitted s @ [Single job]\<rparr>"

definition dispatch_call :: "u32 \<Rightarrow> u32 \<Rightarrow> 'j \<Rightarrow> 'j job_sys \<Rightarrow> 'j job_sys" where
  "dispatch_call jobCount groupSize job s =
    (if jobCount = 0 \<or> groupSize = 0 then s
     else let js = map (Group job) (dispatch_groups jobCount groupSize) in
       s\<lparr>currentLabel := currentLabel s + ucast (group_count jobCount groupSize),
         main_at := main_next js, submitted := submitted s @ js\<rparr>)"

definition main_push :: "'j job \<Rightarrow> 'j job list \<Rightarrow> 'j job_sys \<Rightarrow> 'j job_sys" where
  "main_push j js s = (case push_back j (jobPool s) of
      (True, p) \<Rightarrow> s\<lparr>jobPool := p, main_at := MainNotify js\<rparr>
    | (False, p) \<Rightarrow> s\<lparr>main_at := MainNotify (j # js)\<rparr>)"

definition worker_poll :: "nat \<Rightarrow> 'j job_sys \<Rightarrow> 'j job_sys" where
  "worker_poll i s = (case pop_front (jobPool s) of
      (Some j, p) \<Rightarrow> s\<lparr>jobPool := p, workers := (workers s)[i := Running j]\<rparr>
    | (None, p) \<Rightarrow> s\<lparr>workers := (workers s)[i := Dozing]\<rparr>)"

inductive notify_one :: "'j worker list \<Rightarrow> 'j worker list \<Rightarrow> bool" where
  wake: "i < length ws \<Longrightarrow> ws ! i = Asleep \<Longrightarrow> notify_one ws (ws[i := Polling])"
| nobody: "Asleep \<notin> set ws \<Longrightarrow> notify_one ws ws"

text \<open>\<open>calm_step\<close> are the steps the code asks for; a condition variable may also wake a thread without a reason.\<close>

inductive calm_step :: "'j job_sys \<Rightarrow> 'j job_sys \<Rightarrow> bool" where
  execute: "main_at s = MainIdle \<Longrightarrow> calm_step s (execute_call job s)"
| dispatch: "main_at s = MainIdle \<Longrightarrow> calm_step s (dispatch_call jobCount groupSize job s)"
| push: "main_at s = MainPush (j # js) \<Longrightarrow> calm_step s (main_push j js s)"
| notify: "main_at s = MainNotify js \<Longrightarrow> notify_one (workers s) ws \<Longrightarrow>
    calm_step s (s\<lparr>main_at := main_next js, workers := ws\<rparr>)"
| wait: "main_at s = MainIdle \<Longrightarrow> calm_step s (s\<lparr>main_at := MainWait\<rparr>)"
| poll: "main_at s = MainWait \<Longrightarrow> is_busy s \<Longrightarrow> notify_one (workers s) ws \<Longrightarrow>
    calm_step s (s\<lparr>workers := ws\<rparr>)"
| wait_done: "main_at s = MainWait \<Longrightarrow> \<not> is_busy s \<Longrightarrow> calm_step s (s\<lparr>main_at := MainIdle\<rparr>)"
| pop: "i < length (workers s) \<Longrightarrow> workers s ! i = Polling \<Longrightarrow> calm_step s (worker_poll i s)"
| run: "i < length (workers s) \<Longrightarrow> workers s ! i = Running j \<Longrightarrow>
    calm_step s (s\<lparr>workers := (workers s)[i := Counting j], executed := executed s @ [j]\<rparr>)"
| count: "i < length (workers s) \<Longrightarrow> workers s ! i = Counting j \<Longrightarrow>
    calm_step s (s\<lparr>workers := (workers s)[i := Polling], finishedLabel := finishedLabel s + 1\<rparr>)"
| sleep: "i < length (workers s) \<Longrightarrow> workers s ! i = Dozing \<Longrightarrow>
    calm_step s (s\<lparr>workers := (workers s)[i := Asleep]\<rparr>)"

inductive sys_step :: "'j job_sys \<Rightarrow> 'j job_sys \<Rightarrow> bool" where
  calm: "calm_step s s' \<Longrightarrow> sys_step s s'"
| spurious: "i < length (workers s) \<Longrightarrow> workers s ! i = Asleep \<Longrightarrow>
    sys_step s (s\<lparr>workers := (workers s)[i := Polling]\<rparr>)"

abbreviation sys_reach :: "'j job_sys \<Rightarrow> 'j job_sys \<Rightarrow> bool" where
  "sys_reach \<equiv> sys_step\<^sup>*\<^sup>*"

inductive_cases notify_oneE: "notify_one ws ws'"
inductive_cases sys_stepE: "sys_step s s'"

subsection \<open>No job is lost\<close>

fun held :: "'j worker \<Rightarrow> 'j job multiset" where
  "held (Running j) = {#j#}"
| "held _ = {#}"

fun uncounted :: "'j worker \<Rightarrow> nat" where
  "uncounted (Counting j) = 1"
| "uncounted _ = 0"

fun pending :: "'j main \<Rightarrow> 'j job list" where
  "pending (MainPush js) = js"
| "pending (MainNotify js) = js"
| "pending _ = []"

definition sys_inv :: "'j job_sys \<Rightarrow> bool" where
  "sys_inv s \<longleftrightarrow> ring_inv 256 (jobPool s)
     \<and> mset (submitted s) = mset (executed s) + mset (ring_list (jobPool s))
         + sum_list (map held (workers s)) + mset (pending (main_at s))
     \<and> currentLabel s = word_of_nat (length (submitted s))
     \<and> (\<exists>n. finishedLabel s = word_of_nat n \<and> n + sum_list (map uncounted (workers s)) = length (executed s))"

lemma pending_next [simp]: "pending (main_next js) = js"
  by (simp add: main_next_def)

lemma notify_one_held: "notify_one ws ws' \<Longrightarrow> sum_list (map held ws') = sum_list (map held ws)
    \<and> sum_list (map uncounted ws') = sum_list (map uncounted ws) \<and> length ws' = length ws"
proof (erule notify_oneE)
  fix i assume "ws' = ws[i := Polling]" "i < length ws" "ws ! i = Asleep"
  with sum_list_map_update [of i ws held Polling] sum_list_map_update [of i ws uncounted Polling]
  show ?thesis by simp
qed simp

lemma sys_inv_init [inv_pres]: "sys_inv (on_init d numCores)"
proof -
  have "sum_list (map held (map (\<lambda>t :: u32. Polling) ts)) = ({#} :: 'a job multiset)"
    and "sum_list (map uncounted (map (\<lambda>t :: u32. Polling :: 'a worker) ts)) = 0" for ts
    by (induction ts) simp_all
  then show ?thesis using ring_new_empty [of 256 d] by (simp add: sys_inv_def on_init_def comp_def)
qed

lemma length_dispatch_groups:
  "jobCount \<noteq> 0 \<Longrightarrow> groupSize \<noteq> 0 \<Longrightarrow>
    word_of_nat (length (dispatch_groups jobCount groupSize)) = (ucast (group_count jobCount groupSize) :: u64)"
  by (simp add: dispatch_groups_def)

lemma main_push_inv [inv_pres]:
  assumes "sys_inv s" and "main_at s = MainPush (j # js)"
  shows "sys_inv (main_push j js s)"
proof (cases "push_back j (jobPool s)")
  case (Pair b p)
  with assms rq.push_True [of 256 "jobPool s" j p] rq.push_False [of 256 "jobPool s" j p]
  show ?thesis by (cases b) (auto simp: sys_inv_def main_push_def)
qed

lemma worker_poll_inv [inv_pres]:
  assumes "sys_inv s" and "i < length (workers s)" and "workers s ! i = Polling"
  shows "sys_inv (worker_poll i s)"
proof (cases "pop_front (jobPool s)")
  case (Pair y p)
  note upd = sum_list_map_update [OF assms(2), of held] sum_list_map_update [OF assms(2), of uncounted]
  show ?thesis
  proof (cases y)
    case None
    with Pair assms upd [of Dozing] show ?thesis by (auto simp: sys_inv_def worker_poll_def)
  next
    case (Some j)
    with Pair assms upd [of "Running j"] rq.pop_Some [of 256 "jobPool s" j p] show ?thesis
      by (auto simp: sys_inv_def worker_poll_def)
  qed
qed

lemma calm_step_inv [inv_pres]:
  assumes "calm_step s s'" and "sys_inv s"
  shows "sys_inv s'"
  using assms
proof cases
  case (execute job)
  with assms show ?thesis by (auto simp: execute_call_def sys_inv_def)
next
  case (dispatch jobCount groupSize job)
  with assms show ?thesis
    by (auto simp: dispatch_call_def sys_inv_def Let_def length_dispatch_groups)
next
  case (notify js ws)
  with assms notify_one_held [OF notify(3)] show ?thesis by (auto simp: sys_inv_def)
next
  case (poll ws)
  with assms notify_one_held [OF poll(4)] show ?thesis by (auto simp: sys_inv_def)
next
  case (run i j)
  with assms sum_list_map_update [OF run(2), of held "Counting j"]
    sum_list_map_update [OF run(2), of uncounted "Counting j"]
  show ?thesis by (auto simp: sys_inv_def)
next
  case (count i j)
  obtain n where n: "finishedLabel s = word_of_nat n"
    "n + sum_list (map uncounted (workers s)) = length (executed s)"
    using assms(2) by (auto simp: sys_inv_def)
  with count assms sum_list_map_update [OF count(2), of held Polling]
    sum_list_map_update [OF count(2), of uncounted Polling]
  show ?thesis by (auto simp: sys_inv_def intro!: exI [of _ "Suc n"])
next
  case (sleep i)
  with assms sum_list_map_update [OF sleep(2), of held Asleep]
    sum_list_map_update [OF sleep(2), of uncounted Asleep]
  show ?thesis by (auto simp: sys_inv_def)
next
  case (push j js)
  with assms show ?thesis by (simp add: main_push_inv)
next
  case (pop i)
  with assms show ?thesis by (simp add: worker_poll_inv)
qed (auto simp: sys_inv_def)

lemma sys_inv_step [inv_pres]:
  assumes "sys_step s s'" and "sys_inv s"
  shows "sys_inv s'"
  using assms(1)
proof cases
  case calm
  then show ?thesis using calm_step_inv assms(2) by blast
next
  case (spurious i)
  with assms sum_list_map_update [OF spurious(2), of held Polling]
    sum_list_map_update [OF spurious(2), of uncounted Polling]
  show ?thesis by (auto simp: sys_inv_def)
qed

lemma sys_inv_reach: "sys_reach (on_init d numCores) s \<Longrightarrow> sys_inv s"
  by (induction rule: rtranclp_induct) (auto intro: sys_inv_init sys_inv_step)

text \<open>Property C1. When \<open>IsBusy\<close> answers false, as it does when \<open>Wait\<close> returns, every job handed to
  \<open>Execute\<close> and \<open>Dispatch\<close> so far has run, each exactly as often as it was submitted, in every
  interleaving of the threads (as long as fewer than 2^64 jobs were submitted).\<close>

theorem wait_completes_all_jobs:
  assumes "sys_reach (on_init d numCores) s" and "length (submitted s) < 2 ^ 64" and "\<not> is_busy s"
  shows "mset (executed s) = mset (submitted s)"
proof -
  have inv: "sys_inv s" by (rule sys_inv_reach [OF assms(1)])
  then obtain n where n: "finishedLabel s = word_of_nat n" "n \<le> length (executed s)"
    by (auto simp: sys_inv_def)
  have ms: "mset (executed s) \<subseteq># mset (submitted s)"
    using inv by (simp add: sys_inv_def mset_subset_eq_add_left add.assoc)
  then have "length (executed s) \<le> length (submitted s)" by (metis size_mset size_mset_mono)
  moreover have "length (submitted s) \<le> n"
    using assms(2,3) n inv calculation
    by (simp add: is_busy_def sys_inv_def word_less_nat_alt unat_of_nat take_bit_nat_eq_self)
  ultimately have "size (mset (executed s)) = size (mset (submitted s))" using n by simp
  with ms show ?thesis by (metis mset_subset_size less_irrefl subset_mset.le_imp_less_or_eq)
qed

lemma one_worker: "workers (on_init d 1) = [Polling]" "max 1 (1 :: u32) = 1"
  by (simp_all add: on_init_def word_upto.simps [of 0 1] word_upto.simps [of 1 1])

text \<open>One run of the system, used as an example below: one worker, one job, no lost wake-up.\<close>

lemma ring_first_push: "\<exists>p. push_back x (ring_new 256 d) = (True, p) \<and> ring_inv 256 p \<and> ring_list p = [x]"
  using rq.push_room [of 256 "ring_new 256 d" x] ring_new_empty [of 256 d] by simp

lemma ring_first_pop: "pop_front (ring_new 256 d) = (None, ring_new 256 d)"
  using rq.pop_Nil [of 256 "ring_new 256 d"] ring_new_empty [of 256 d] by simp

lemma lost_wakeup_run:
  "\<exists>s. sys_reach (on_init d 1) s \<and> main_at s = MainIdle \<and> workers s = [Asleep]
     \<and> ring_list (jobPool s) = [Single j] \<and> executed s = [] \<and> submitted s = [Single j] \<and> is_busy s"
proof -
  let ?s0 = "on_init d 1"
  let ?s1 = "?s0\<lparr>workers := [Dozing]\<rparr>"
  let ?s2 = "execute_call j ?s1"
  obtain p where p: "push_back (Single j) (ring_new 256 d) = (True, p)" "ring_list p = [Single j]"
    using ring_first_push [of "Single j" d] by auto
  let ?s3 = "?s2\<lparr>jobPool := p, main_at := MainNotify []\<rparr>"
  let ?s4 = "?s3\<lparr>main_at := main_next [], workers := [Dozing]\<rparr>"
  let ?s5 = "?s4\<lparr>workers := [Asleep]\<rparr>"
  have m: "main_at ?s0 = MainIdle" "jobPool ?s0 = ring_new 256 d" "executed ?s0 = []"
    by (simp_all add: on_init_def)
  have "sys_step ?s0 ?s1"
    using sys_step.calm [OF calm_step.pop, of 0 ?s0] one_worker(1) [of d] ring_first_pop [of d] m
    by (simp add: worker_poll_def)
  moreover have "sys_step ?s1 ?s2" using m by (intro sys_step.calm calm_step.execute) simp
  moreover have "sys_step ?s2 ?s3"
    using sys_step.calm [OF calm_step.push, of ?s2 "Single j" "[]"] m p by (simp add: execute_call_def main_push_def main_next_def)
  moreover have "sys_step ?s3 ?s4"
    by (rule sys_step.calm [OF calm_step.notify]) (simp_all add: execute_call_def notify_one.nobody)
  moreover have "sys_step ?s4 ?s5"
    using sys_step.calm [OF calm_step.sleep, of 0 ?s4] by simp
  ultimately have "sys_reach ?s0 ?s5" by (meson r_into_rtranclp rtranclp_trans)
  moreover have "main_at ?s5 = MainIdle" "workers ?s5 = [Asleep]" "ring_list (jobPool ?s5) = [Single j]"
    "executed ?s5 = []" "submitted ?s5 = [Single j]" "is_busy ?s5"
    using p(2) m by (simp_all add: main_next_def execute_call_def is_busy_def on_init_def)
  ultimately show ?thesis by blast
qed

text \<open>A wake-up can be lost: \<open>Execute\<close> can return with the job in the pool and every
  worker asleep, because a worker decides to sleep before it enters the condition variable and
  \<open>notify_one\<close> does not wait for that. Nothing but a further call into the system wakes it.\<close>

theorem wakeup_can_be_lost:
  "\<exists>s. sys_reach (on_init d 1) s \<and> main_at s = MainIdle \<and> workers s = [Asleep]
     \<and> ring_list (jobPool s) = [Single j] \<and> executed s = []"
  using lost_wakeup_run [of d j] by auto

lemma calm_step_workers: "calm_step s s' \<Longrightarrow> length (workers s') = length (workers s)"
  by (cases rule: calm_step.cases, assumption)
    (auto simp: execute_call_def dispatch_call_def Let_def main_push_def worker_poll_def
      dest: notify_one_held split: prod.splits bool.splits option.splits)

lemma workers_nonempty: "sys_reach (on_init d numCores) s \<Longrightarrow> workers s \<noteq> []"
proof (induction rule: rtranclp_induct)
  case base
  have "0 < (1 :: u32)" by simp
  then have "0 < max 1 numCores" by (rule less_le_trans) simp
  then show ?case by (subst on_init_def) (simp add: word_upto.simps [of 0])
next
  case (step s s')
  from step(2) show ?case
  proof cases
    case calm
    then show ?thesis using calm_step_workers step(3) by fastforce
  qed (use step(3) in simp)
qed

lemma all_asleep: "set ws \<subseteq> {Asleep} \<Longrightarrow> sum_list (map held ws) = {#} \<and> sum_list (map uncounted ws) = 0"
  by (induction ws) auto

lemma only_poll:
  assumes "calm_step s s1" and "main_at s = MainWait" and "is_busy s" and "set (workers s) \<subseteq> {Asleep}" and "workers s \<noteq> []"
  shows "\<exists>i < length (workers s). s1 = s\<lparr>workers := (workers s)[i := Polling]\<rparr>"
proof -
  have asleep: "workers s ! i = Asleep" if "i < length (workers s)" for i using assms(4) nth_mem [OF that] by blast
  obtain ws where "notify_one (workers s) ws" "s1 = s\<lparr>workers := ws\<rparr>"
    using assms(1) by cases (use assms(2,3) asleep in auto)
  moreover have "Asleep \<in> set (workers s)" using assms(4,5) by (cases "workers s") auto
  ultimately show ?thesis by (auto elim: notify_oneE)
qed

text \<open>Property C20. \<open>Wait\<close> repairs a lost wake-up without help from spurious ones: whenever it still has to wait and every worker is
  asleep, the pool is not empty and a step of the program is possible; every such step wakes exactly one worker and
  changes nothing else, and that worker then takes the oldest job.\<close>

theorem wait_makes_progress:
  assumes "sys_reach (on_init d numCores) s"
    and "main_at s = MainWait" and "is_busy s" and "set (workers s) \<subseteq> {Asleep}"
  shows "\<exists>j js. ring_list (jobPool s) = j # js \<and> (\<exists>s1. calm_step s s1)
    \<and> (\<forall>s1. calm_step s s1 \<longrightarrow> (\<exists>i < length (workers s). s1 = s\<lparr>workers := (workers s)[i := Polling]\<rparr>
        \<and> calm_step s1 (worker_poll i s1) \<and> workers (worker_poll i s1) = (workers s)[i := Running j]
        \<and> ring_list (jobPool (worker_poll i s1)) = js))"
proof -
  have inv: "sys_inv s" by (rule sys_inv_reach [OF assms(1)])
  have len: "length (submitted s) = length (executed s) + length (ring_list (jobPool s))"
    using inv assms(2) all_asleep [OF assms(4)] unfolding sys_inv_def
    by (metis add.right_neutral mset.simps(1) pending.simps(4) size_mset size_union)
  have "currentLabel s = word_of_nat (length (submitted s))" "finishedLabel s = word_of_nat (length (executed s))"
    using inv all_asleep [OF assms(4)] by (auto simp: sys_inv_def)
  with assms(3) have "length (executed s) \<noteq> length (submitted s)" by (auto simp: is_busy_def)
  with len obtain j js where l: "ring_list (jobPool s) = j # js" by (cases "ring_list (jobPool s)") auto
  have ri: "ring_inv 256 (jobPool s)" using inv by (simp add: sys_inv_def)
  from rq.pop_Cons [OF ri l] obtain p where p: "pop_front (jobPool s) = (Some j, p)" "ring_list p = js" by blast
  from workers_nonempty [OF assms(1)] assms(4) have w: "0 < length (workers s)" "workers s ! 0 = Asleep"
    by (auto simp: neq_Nil_conv)
  have "calm_step s (s\<lparr>workers := (workers s)[0 := Polling]\<rparr>)" by (rule calm_step.poll [OF assms(2,3) notify_one.wake [OF w]])
  moreover have "\<exists>i < length (workers s). s1 = s\<lparr>workers := (workers s)[i := Polling]\<rparr>
      \<and> calm_step s1 (worker_poll i s1) \<and> workers (worker_poll i s1) = (workers s)[i := Running j]
      \<and> ring_list (jobPool (worker_poll i s1)) = js" if st: "calm_step s s1" for s1
  proof -
    obtain i where i: "i < length (workers s)" "s1 = s\<lparr>workers := (workers s)[i := Polling]\<rparr>"
      using only_poll [OF st assms(2-4) workers_nonempty [OF assms(1)]] by blast
    have "calm_step s1 (worker_poll i s1)" using i by (intro calm_step.pop) auto
    then show ?thesis using i p by (intro exI [of _ i]) (simp add: worker_poll_def)
  qed
  ultimately show ?thesis using l by blast
qed

theorem wait_makes_progress_witness:
  "\<exists>s j js s1 i. main_at s = MainWait \<and> ring_list (jobPool s) = j # js \<and> calm_step (s :: nat job_sys) s1
    \<and> workers (worker_poll i s1) = (workers s)[i := Running j]"
proof -
  obtain s where s: "sys_reach (on_init (Single 0) 1) s" "main_at s = MainIdle" "workers s = [Asleep]"
    "is_busy (s :: nat job_sys)"
    using lost_wakeup_run [of "Single 0" 7] by auto
  let ?s = "s\<lparr>main_at := MainWait\<rparr>"
  have "sys_reach (on_init (Single 0) 1) ?s"
    by (rule rtranclp.rtrancl_into_rtrancl [OF s(1) sys_step.calm [OF calm_step.wait [OF s(2)]]])
  from wait_makes_progress [OF this] s(3,4) obtain j js where
    "ring_list (jobPool ?s) = j # js" "\<exists>s1. calm_step ?s s1"
    "\<forall>s1. calm_step ?s s1 \<longrightarrow> (\<exists>i < length (workers ?s). s1 = ?s\<lparr>workers := (workers ?s)[i := Polling]\<rparr>
      \<and> calm_step s1 (worker_poll i s1) \<and> workers (worker_poll i s1) = (workers ?s)[i := Running j] \<and> ring_list (jobPool (worker_poll i s1)) = js)"
    by (auto simp: is_busy_def)
  then show ?thesis by (metis (no_types, lifting) job_sys.select_convs(5) job_sys.simps(15) job_sys.surjective job_sys.update_convs(5))
qed

lemma good_run:
  "\<exists>s. sys_reach (on_init d 1) s \<and> submitted s = [Single j] \<and> executed s = [Single j]
     \<and> \<not> is_busy s"
proof -
  let ?s0 = "on_init d 1"
  let ?s1 = "execute_call j ?s0"
  obtain p where p: "push_back (Single j) (ring_new 256 d) = (True, p)" "ring_inv 256 p" "ring_list p = [Single j]"
    using ring_first_push [of "Single j" d] by auto
  obtain q where q: "pop_front p = (Some (Single j), q)"
    using rq.pop_Cons [OF p(2,3)] by auto
  let ?s2 = "?s1\<lparr>jobPool := p, main_at := MainNotify []\<rparr>"
  let ?s3 = "?s2\<lparr>jobPool := q, workers := [Running (Single j)]\<rparr>"
  let ?s4 = "?s3\<lparr>workers := [Counting (Single j)], executed := [Single j]\<rparr>"
  let ?s5 = "?s4\<lparr>workers := [Polling], finishedLabel := 1\<rparr>"
  have m: "main_at ?s0 = MainIdle" "jobPool ?s0 = ring_new 256 d" "executed ?s0 = []" "finishedLabel ?s0 = 0"
    by (simp_all add: on_init_def)
  have "sys_step ?s0 ?s1" using m by (intro sys_step.calm calm_step.execute) simp
  moreover have "sys_step ?s1 ?s2"
    using sys_step.calm [OF calm_step.push, of ?s1 "Single j" "[]"] m p by (simp add: execute_call_def main_push_def main_next_def)
  moreover have "sys_step ?s2 ?s3"
    using sys_step.calm [OF calm_step.pop, of 0 ?s2] q one_worker(1) [of d] by (simp add: worker_poll_def execute_call_def)
  moreover have "sys_step ?s3 ?s4" using sys_step.calm [OF calm_step.run, of 0 ?s3 "Single j"] m by (simp add: execute_call_def)
  moreover have "sys_step ?s4 ?s5" using sys_step.calm [OF calm_step.count, of 0 ?s4 "Single j"] m by (simp add: execute_call_def)
  ultimately have "sys_reach ?s0 ?s5" by (meson r_into_rtranclp rtranclp_trans)
  moreover have "submitted ?s5 = [Single j]" "executed ?s5 = [Single j]" "\<not> is_busy ?s5"
    by (simp_all add: execute_call_def is_busy_def on_init_def)
  ultimately show ?thesis by blast
qed

theorem wait_completes_all_jobs_witness:
  "\<exists>s :: nat job_sys. submitted s = [Single 7] \<and> mset (executed s) = mset (submitted s)"
proof -
  obtain s :: "nat job_sys" where s: "sys_reach (on_init (Single 0) 1) s" "submitted s = [Single 7]" "\<not> is_busy s"
    using good_run [of "Single 0" 7] by auto
  from wait_completes_all_jobs [OF s(1) _ s(3)] s(2) show ?thesis by auto
qed

section \<open>The callbacks of a dispatch\<close>

fun callbacks :: "'j job \<Rightarrow> (nat \<times> nat) list" where
  "callbacks (Single j) = []"
| "callbacks (Group j args) = map seen args"

text \<open>Property C18. The jobs of a \<open>Dispatch\<close>, in whatever order the workers run them, call back every index below \<open>jobCount\<close> exactly
  once, with the index of its group, and the jobs cover consecutive ranges of indices. When the group size is 0 or
  \<open>jobCount + groupSize\<close> exceeds 2^32, so that the ceiling division wraps around, nothing is called back.\<close>

theorem dispatch_covers:
  assumes "mset runs = mset (map (Group job) (dispatch_groups jobCount groupSize))"
  shows "mset (concat (map callbacks runs)) =
      (if groupSize = 0 \<or> 2 ^ 32 < unat jobCount + unat groupSize then {#}
       else mset (map (\<lambda>i. (i, i div unat groupSize)) [0..<unat jobCount]))
    \<and> concat (map (map seen) (dispatch_groups jobCount groupSize)) =
      (if groupSize = 0 \<or> 2 ^ 32 < unat jobCount + unat groupSize then []
       else map (\<lambda>i. (i, i div unat groupSize)) [0..<unat jobCount])"
proof -
  let ?g = "dispatch_groups jobCount groupSize"
  have c: "concat (map (map seen) ?g) = map seen (concat ?g)" by (simp add: map_concat)
  have "mset (concat (map callbacks runs)) = \<Sum>\<^sub># (image_mset (mset \<circ> callbacks) (mset runs))"
    by (simp add: mset_concat sum_mset_sum_list [symmetric] comp_def)
  also have "\<dots> = \<Sum>\<^sub># (image_mset (mset \<circ> callbacks) (mset (map (Group job) ?g)))" by (simp only: assms)
  also have "\<dots> = mset (concat (map (map seen) ?g))"
    by (simp add: mset_concat sum_mset_sum_list [symmetric] comp_def multiset.map_comp)
  finally show ?thesis unfolding c concat_dispatch by simp
qed

theorem dispatch_covers_witness:
  "mset (concat (map callbacks (map (Group (7 :: nat)) (rev (dispatch_groups 5 2))))) = mset (map (\<lambda>i. (i, i div 2)) [0..<5])"
proof -
  have "mset (map (Group (7 :: nat)) (rev (dispatch_groups 5 2))) = mset (map (Group 7) (dispatch_groups 5 2))"
    by (simp flip: rev_map)
  from dispatch_covers [OF this] show ?thesis by (simp del: upt_Suc)
qed

end
