(* ===== verification/RefCounting.thy ===== *)
theory RefCounting
  imports Prelude
begin

text \<open>
  Shared and owned pointers (\<open>Core/ReferenceCounter.h\<close>, \<open>Core/Reference.h\<close>, \<open>Core/Reference.cpp\<close>).

  Counters are 32-bit words. A \<open>Reference\<close> is its pair of raw pointers, the addresses of the object
  and of its \<open>RefCount\<close>; the heap holds the live objects and the live counters, so that deleting
  twice, reading a deleted counter and dereferencing null are faults of the model. The atomic
  operations are single steps. The destructor of the managed type is taken to touch no other smart
  pointer, and \<open>new\<close> to return an address not used before.
\<close>

section \<open>Counters\<close>

text \<open>An atomic operation returns its result and the new value of the counter.\<close>

definition atomic_conditional_increment :: "u32 \<Rightarrow> u32 \<times> u32" where
  "atomic_conditional_increment pw = (if pw = 0 then (0, pw) else (pw + 1, pw + 1))"

definition atomic_decrement :: "u32 \<Rightarrow> u32 \<times> u32" where
  "atomic_decrement pw = (pw - 1, pw - 1)"

definition atomic_increment :: "u32 \<Rightarrow> u32 \<times> u32" where
  "atomic_increment pw = (pw + 1, pw + 1)"

definition atomic_sub :: "u32 \<Rightarrow> u32 \<Rightarrow> u32 \<times> u32" where
  "atomic_sub pw val = (pw - val, pw - val)"

definition atomic_add :: "u32 \<Rightarrow> u32 \<Rightarrow> u32 \<times> u32" where
  "atomic_add pw val = (pw + val, pw + val)"

definition atomic_exchange_if_greater :: "u32 \<Rightarrow> u32 \<Rightarrow> u32 \<times> u32" where
  "atomic_exchange_if_greater pw val = (if pw \<ge> val then (pw, pw) else (val, val))"

definition counter_ref :: "u32 \<Rightarrow> bool \<times> u32" where
  "counter_ref count = (case atomic_conditional_increment count of (r, c) \<Rightarrow> (r \<noteq> 0, c))"

definition counter_unref :: "u32 \<Rightarrow> bool \<times> u32" where
  "counter_unref count = (case atomic_decrement count of (r, c) \<Rightarrow> (r = 0, c))"

record ref_count =
  m_Refcount :: u32
  m_RefcountInit :: u32
  m_WeakRefcount :: u32

definition rc_new :: ref_count where
  "rc_new = \<lparr>m_Refcount = 1, m_RefcountInit = 1, m_WeakRefcount = 0\<rparr>"

definition rc_reference :: "ref_count \<Rightarrow> bool \<times> ref_count" where
  "rc_reference r = (case counter_ref (m_Refcount r) of (b, c) \<Rightarrow> (b, r\<lparr>m_Refcount := c\<rparr>))"

definition rc_unreference :: "ref_count \<Rightarrow> bool \<times> ref_count" where
  "rc_unreference r = (case counter_unref (m_Refcount r) of (b, c) \<Rightarrow> (b, r\<lparr>m_Refcount := c\<rparr>))"

definition rc_weakReference :: "ref_count \<Rightarrow> bool \<times> ref_count" where
  "rc_weakReference r = (case counter_ref (m_WeakRefcount r) of (b, c) \<Rightarrow> (b, r\<lparr>m_WeakRefcount := c\<rparr>))"

definition rc_weakUnreference :: "ref_count \<Rightarrow> bool \<times> ref_count" where
  "rc_weakUnreference r = (case counter_unref (m_WeakRefcount r) of
     (b, c) \<Rightarrow> (b \<and> m_Refcount r = 0, r\<lparr>m_WeakRefcount := c\<rparr>))"

definition rc_InitRef :: "ref_count \<Rightarrow> bool \<times> ref_count" where
  "rc_InitRef r = (case rc_reference r of
     (True, r1) \<Rightarrow>
       (if m_RefcountInit r1 > 0
        then (let r2 = r1\<lparr>m_RefcountInit := snd (counter_unref (m_RefcountInit r1))\<rparr>
              in (True, snd (rc_unreference r2)))
        else (True, r1))
   | (False, r1) \<Rightarrow> (False, r1))"

definition rc_GetReferenceCount :: "ref_count \<Rightarrow> int" where
  "rc_GetReferenceCount r = sint (m_Refcount r)"

definition rc_GetWeakReferenceCount :: "ref_count \<Rightarrow> int" where
  "rc_GetWeakReferenceCount r = sint (m_WeakRefcount r)"

definition rc_IsReferenced :: "ref_count \<Rightarrow> bool" where
  "rc_IsReferenced r \<longleftrightarrow> m_RefcountInit r < 1"

lemmas rc_defs = rc_new_def rc_reference_def rc_unreference_def rc_weakReference_def rc_weakUnreference_def
  rc_InitRef_def counter_ref_def counter_unref_def atomic_conditional_increment_def atomic_decrement_def
  rc_GetReferenceCount_def rc_GetWeakReferenceCount_def

section \<open>The heap\<close>

type_synonym addr = nat

record heap =
  objects :: "addr set"
  counters :: "addr \<rightharpoonup> ref_count"
  next_object :: addr
  next_counter :: addr

definition heap_empty :: heap where
  "heap_empty = \<lparr>objects = {}, counters = Map.empty, next_object = 0, next_counter = 0\<rparr>"

definition new_object :: "heap \<Rightarrow> addr \<times> heap" where
  "new_object h = (next_object h,
     h\<lparr>objects := insert (next_object h) (objects h), next_object := next_object h + 1\<rparr>)"

text \<open>\<open>new RefCount()\<close> followed by \<open>InitRef()\<close>, as every constructor of a \<open>Reference\<close> does.\<close>

definition new_counter :: "ref_count \<Rightarrow> heap \<Rightarrow> addr \<times> heap" where
  "new_counter r h = (next_counter h,
     h\<lparr>counters := (counters h)(next_counter h \<mapsto> r), next_counter := next_counter h + 1\<rparr>)"

definition delete_object :: "addr option \<Rightarrow> heap \<Rightarrow> heap res" where
  "delete_object po h = (case po of None \<Rightarrow> ok h
     | Some p \<Rightarrow> if p \<in> objects h then ok (h\<lparr>objects := objects h - {p}\<rparr>) else fail DoubleFree)"

definition delete_counter :: "addr option \<Rightarrow> heap \<Rightarrow> heap res" where
  "delete_counter co h = (case co of None \<Rightarrow> ok h
     | Some c \<Rightarrow> if c \<in> dom (counters h) then ok (h\<lparr>counters := (counters h)(c := None)\<rparr>) else fail DoubleFree)"

definition get_counter :: "addr option \<Rightarrow> heap \<Rightarrow> ref_count res" where
  "get_counter co h = (case co of None \<Rightarrow> fail NullDeref
     | Some c \<Rightarrow> (case counters h c of None \<Rightarrow> fail UseAfterFree | Some r \<Rightarrow> ok r))"

text \<open>A call \<open>m_Counter->f()\<close> that returns a truth value and changes the counter.\<close>

definition on_counter :: "(ref_count \<Rightarrow> bool \<times> ref_count) \<Rightarrow> addr option \<Rightarrow> heap \<Rightarrow> (bool \<times> heap) res" where
  "on_counter f co h = rbind (get_counter co h) (\<lambda>r. case f r of
     (b, r') \<Rightarrow> ok (b, h\<lparr>counters := (counters h)(the co \<mapsto> r')\<rparr>))"

lemmas heap_defs = new_object_def new_counter_def delete_object_def delete_counter_def get_counter_def on_counter_def

section \<open>Reference\<close>

record reference =
  m_Ptr :: "addr option"
  m_Counter :: "addr option"

definition ref_null :: reference where
  "ref_null = \<lparr>m_Ptr = None, m_Counter = None\<rparr>"

text \<open>\<open>unref\<close> clears the two pointers only when the object dies.\<close>

definition ref_unref :: "reference \<Rightarrow> heap \<Rightarrow> (reference \<times> heap) res" where
  "ref_unref this h =
    (if m_Counter this \<noteq> None then
       rbind (on_counter rc_unreference (m_Counter this) h) (\<lambda>(die, h1).
         if die then
           rbind (delete_object (m_Ptr this) h1) (\<lambda>h2.
           rbind (get_counter (m_Counter this) h2) (\<lambda>r.
           rbind (if rc_GetWeakReferenceCount r = 0 then delete_counter (m_Counter this) h2 else ok h2) (\<lambda>h3.
             ok (ref_null, h3))))
         else ok (this, h1))
     else ok (this, h))"

definition ref_refPointer :: "addr \<Rightarrow> heap \<Rightarrow> reference \<times> heap" where
  "ref_refPointer p h = (case new_counter (snd (rc_InitRef rc_new)) h of
     (c, h1) \<Rightarrow> (\<lparr>m_Ptr = Some p, m_Counter = Some c\<rparr>, h1))"

text \<open>The tail shared by the assignments: take the pointers of \<open>from\<close> and count the new reference.\<close>

definition ref_attach :: "reference \<Rightarrow> reference \<Rightarrow> heap \<Rightarrow> (reference \<times> heap) res" where
  "ref_attach from this h =
    (if m_Counter from \<noteq> None \<and> m_Ptr from \<noteq> None
     then rbind (on_counter rc_reference (m_Counter from) h) (\<lambda>(b, h1).
            ok (\<lparr>m_Ptr = m_Ptr from, m_Counter = m_Counter from\<rparr>, h1))
     else ok (this, h))"

definition ref_ref :: "reference \<Rightarrow> reference \<Rightarrow> heap \<Rightarrow> (reference \<times> heap) res" where
  "ref_ref p_from this h =
    (if m_Ptr p_from = m_Ptr this then ok (this, h)
     else rbind (ref_unref this h) (\<lambda>(this1, h1). ref_attach p_from ref_null h1))"

definition ref_copy :: "reference \<Rightarrow> heap \<Rightarrow> (reference \<times> heap) res" where
  "ref_copy other h = ref_ref other ref_null h"

definition ref_of_ptr :: "addr option \<Rightarrow> heap \<Rightarrow> reference \<times> heap" where
  "ref_of_ptr po h = (case po of None \<Rightarrow> (ref_null, h) | Some p \<Rightarrow> ref_refPointer p h)"

definition ref_convert :: "reference \<Rightarrow> heap \<Rightarrow> (reference \<times> heap) res" where
  "ref_convert moving h = rbind (ref_unref ref_null h) (\<lambda>(this, h1).
     if m_Ptr moving \<noteq> None then ref_attach moving this h1 else ok (this, h1))"

definition ref_reset :: "addr option \<Rightarrow> reference \<Rightarrow> heap \<Rightarrow> (reference \<times> heap) res" where
  "ref_reset po this h = rbind (ref_unref this h) (\<lambda>(this1, h1). ok (ref_of_ptr po h1))"

definition ref_release :: "reference \<Rightarrow> heap \<Rightarrow> (addr option \<times> reference \<times> heap) res" where
  "ref_release this h = rbind (on_counter rc_unreference (m_Counter this) h) (\<lambda>(die, h1).
     if die then rbind (delete_counter (m_Counter this) h1) (\<lambda>h2. ok (m_Ptr this, ref_null, h2))
     else ok (m_Ptr this, this\<lparr>m_Ptr := None\<rparr>, h1))"

text \<open>\<open>operator=(const Reference<U>&)\<close>: \<open>castable\<close> is the outcome of the \<open>dynamic_cast\<close> of a non-null
  pointer; a null pointer casts to null.\<close>

definition ref_assign_cast :: "bool \<Rightarrow> reference \<Rightarrow> reference \<Rightarrow> heap \<Rightarrow> (reference \<times> heap) res" where
  "ref_assign_cast castable moving this h = rbind (ref_unref this h) (\<lambda>(this1, h1).
     if m_Ptr moving \<noteq> None \<and> castable then ref_attach moving this1 h1 else ok (this1, h1))"

definition ref_deref :: "reference \<Rightarrow> heap \<Rightarrow> addr res" where
  "ref_deref this h = (case m_Ptr this of None \<Rightarrow> fail NullDeref
     | Some p \<Rightarrow> if p \<in> objects h then ok p else fail UseAfterFree)"

definition ref_eq :: "reference \<Rightarrow> reference \<Rightarrow> bool" where
  "ref_eq a b \<longleftrightarrow> m_Ptr a = m_Ptr b"

text \<open>\<open>CreateRef\<close> and \<open>operator=(T*)\<close> with a fresh object.\<close>

definition create_ref :: "heap \<Rightarrow> reference \<times> heap" where
  "create_ref h = (case new_object h of (p, h1) \<Rightarrow> ref_of_ptr (Some p) h1)"

section \<open>WeakReference\<close>

definition weak_add_ref :: "reference \<Rightarrow> heap \<Rightarrow> (reference \<times> heap) res" where
  "weak_add_ref this h = rbind (on_counter rc_weakReference (m_Counter this) h) (\<lambda>(b, h1). ok (this, h1))"

definition weak_of_ref :: "reference \<Rightarrow> heap \<Rightarrow> (reference \<times> heap) res" where
  "weak_of_ref rhs h = weak_add_ref \<lparr>m_Ptr = m_Ptr rhs, m_Counter = m_Counter rhs\<rparr> h"

definition weak_of_ptr :: "addr \<Rightarrow> heap \<Rightarrow> reference \<times> heap" where
  "weak_of_ptr p h = (case new_counter (snd (rc_weakReference rc_new)) h of
     (c, h1) \<Rightarrow> (\<lparr>m_Ptr = Some p, m_Counter = Some c\<rparr>, h1))"

definition weak_destroy :: "reference \<Rightarrow> heap \<Rightarrow> heap res" where
  "weak_destroy this h = rbind (on_counter rc_weakUnreference (m_Counter this) h) (\<lambda>(die, h1).
     if die then delete_object (m_Ptr this) h1 else ok h1)"

definition weak_expired :: "reference \<Rightarrow> heap \<Rightarrow> bool res" where
  "weak_expired this h = (if m_Counter this \<noteq> None
     then rbind (get_counter (m_Counter this) h) (\<lambda>r. ok (rc_GetReferenceCount r \<le> 0)) else ok True)"

definition weak_lock :: "reference \<Rightarrow> heap \<Rightarrow> (reference \<times> heap) res" where
  "weak_lock this h = rbind (weak_expired this h) (\<lambda>e.
     if e then ok (ref_null, h) else ok (ref_of_ptr (m_Ptr this) h))"

section \<open>Owned\<close>

type_synonym owned = "addr option"

definition owned_release :: "owned \<Rightarrow> addr option \<times> owned" where
  "owned_release this = (this, None)"

definition owned_reset :: "owned \<Rightarrow> heap \<Rightarrow> (owned \<times> heap) res" where
  "owned_reset this h = (case owned_release this of (tmp, this1) \<Rightarrow>
     rbind (delete_object tmp h) (\<lambda>h1. ok (this1, h1)))"

definition owned_destroy :: "owned \<Rightarrow> heap \<Rightarrow> heap res" where
  "owned_destroy this h = delete_object this h"

text \<open>Swapping, and moving: from the same type the two are swapped, from another type the moved
  pointer is released into a temporary, which is swapped in and destroyed with the old pointer.\<close>

definition owned_swap :: "owned \<Rightarrow> owned \<Rightarrow> owned \<times> owned" where
  "owned_swap this src = (src, this)"

definition owned_move_from :: "owned \<Rightarrow> owned \<Rightarrow> heap \<Rightarrow> (owned \<times> owned \<times> heap) res" where
  "owned_move_from moving this h = (case owned_release moving of (p, moving1) \<Rightarrow>
     (case owned_swap p this of (tmp, this1) \<Rightarrow>
       rbind (owned_destroy tmp h) (\<lambda>h1. ok (this1, moving1, h1))))"

section \<open>A program over shared pointers\<close>

text \<open>A program with a fixed number of \<open>Reference\<close> variables and the operations on them, together with the raw
  pointers it got by \<open>release\<close> and owns itself. \<open>DestroyRef\<close> is the destructor, after which the variable is
  constructed empty; \<open>CastRef\<close> is the assignment from a reference of another type, with the outcome of its cast;
  \<open>AdoptRef\<close> resets a variable to the raw pointer released last.\<close>

datatype ref_op = NewRef nat | CopyRef nat nat | ClearRef nat | DestroyRef nat | SwapRef nat nat
  | ConvertRef nat nat | CastRef bool nat nat | ReleaseRef nat | AdoptRef nat

type_synonym ref_state = "reference list \<times> addr list \<times> heap"

definition store :: "nat \<Rightarrow> reference list \<Rightarrow> addr list \<Rightarrow> (reference \<times> heap) res \<Rightarrow> ref_state res" where
  "store i vs raws m = rbind m (\<lambda>(v, h). ok (vs[i := v], raws, h))"

fun run_op :: "ref_op \<Rightarrow> ref_state \<Rightarrow> ref_state res" where
  "run_op (NewRef i) (vs, raws, h) = (case new_object h of (p, h1) \<Rightarrow> store i vs raws (ref_reset (Some p) (vs ! i) h1))"
| "run_op (CopyRef i j) (vs, raws, h) = store i vs raws (ref_ref (vs ! j) (vs ! i) h)"
| "run_op (ClearRef i) (vs, raws, h) = store i vs raws (ref_reset None (vs ! i) h)"
| "run_op (DestroyRef i) (vs, raws, h) = rbind (ref_unref (vs ! i) h) (\<lambda>(v, h1). ok (vs[i := ref_null], raws, h1))"
| "run_op (SwapRef i j) (vs, raws, h) = ok (vs[i := vs ! j, j := vs ! i], raws, h)"
| "run_op (ConvertRef i j) (vs, raws, h) = rbind (ref_unref (vs ! i) h) (\<lambda>(v, h1).
     store i (vs[i := ref_null]) raws (ref_convert (vs[i := ref_null] ! j) h1))"
| "run_op (CastRef castable i j) (vs, raws, h) = store i vs raws (ref_assign_cast castable (vs ! j) (vs ! i) h)"
| "run_op (ReleaseRef i) (vs, raws, h) = rbind (ref_release (vs ! i) h) (\<lambda>(po, v, h1).
     ok (vs[i := v], (case po of None \<Rightarrow> raws | Some p \<Rightarrow> p # raws), h1))"
| "run_op (AdoptRef i) (vs, raws, h) = (case raws of
     [] \<Rightarrow> store i vs [] (ref_reset None (vs ! i) h)
   | p # ps \<Rightarrow> store i vs ps (ref_reset (Some p) (vs ! i) h))"

fun run_ops :: "ref_op list \<Rightarrow> ref_state \<Rightarrow> ref_state res" where
  "run_ops [] s = ok s"
| "run_ops (x # xs) s = rbind (run_op x s) (run_ops xs)"

fun op_within :: "nat \<Rightarrow> ref_op \<Rightarrow> bool" where
  "op_within n (NewRef i) \<longleftrightarrow> i < n"
| "op_within n (CopyRef i j) \<longleftrightarrow> i < n \<and> j < n"
| "op_within n (ClearRef i) \<longleftrightarrow> i < n"
| "op_within n (DestroyRef i) \<longleftrightarrow> i < n"
| "op_within n (SwapRef i j) \<longleftrightarrow> i < n \<and> j < n"
| "op_within n (ConvertRef i j) \<longleftrightarrow> i < n \<and> j < n"
| "op_within n (CastRef b i j) \<longleftrightarrow> i < n \<and> j < n"
| "op_within n (ReleaseRef i) \<longleftrightarrow> i < n"
| "op_within n (AdoptRef i) \<longleftrightarrow> i < n"

text \<open>What the class asks of its clients without saying so: a variable is released only as the last owner, and a casting
  assignment succeeds, or its target holds nothing anybody else owns.\<close>

definition last_owner :: "heap \<Rightarrow> reference \<Rightarrow> bool" where
  "last_owner h v = (case m_Counter v of None \<Rightarrow> False | Some c \<Rightarrow> (case counters h c of None \<Rightarrow> False | Some r \<Rightarrow> m_Refcount r = 1))"

fun careful :: "ref_op \<Rightarrow> ref_state \<Rightarrow> bool" where
  "careful (CastRef castable i j) (vs, raws, h) \<longleftrightarrow>
     i \<noteq> j \<and> (castable \<and> m_Ptr (vs ! j) \<noteq> None \<or> vs ! i = ref_null \<or> last_owner h (vs ! i))"
| "careful (ReleaseRef i) (vs, raws, h) \<longleftrightarrow> last_owner h (vs ! i)"
| "careful _ _ \<longleftrightarrow> True"

fun careful_run :: "ref_op list \<Rightarrow> ref_state \<Rightarrow> bool" where
  "careful_run [] s \<longleftrightarrow> True"
| "careful_run (x # xs) s \<longleftrightarrow> careful x s \<and> (case run_op x s of Inl f \<Rightarrow> True | Inr t \<Rightarrow> careful_run xs t)"

section \<open>The ownership invariant\<close>

definition uses :: "addr \<Rightarrow> reference list \<Rightarrow> nat" where
  "uses c vs = sum_list (map (\<lambda>v. if m_Counter v = Some c then 1 else 0) vs)"

definition agree :: "reference set \<Rightarrow> bool" where
  "agree V \<longleftrightarrow> (\<forall>v \<in> V. \<forall>w \<in> V. m_Ptr v = m_Ptr w \<longleftrightarrow> m_Counter v = m_Counter w)"

text \<open>Two variables share an object exactly when they share a counter; the empty reference is one of
  the values compared, so that a null pointer goes with a null counter.\<close>

definition refs_agree :: "reference list \<Rightarrow> bool" where
  "refs_agree vs \<longleftrightarrow> agree (insert ref_null (set vs))"

definition counter_ok :: "reference list \<Rightarrow> heap \<Rightarrow> addr \<Rightarrow> bool" where
  "counter_ok vs h c \<longleftrightarrow> (case counters h c of None \<Rightarrow> uses c vs = 0
     | Some r \<Rightarrow> unat (m_Refcount r) = uses c vs \<and> 0 < uses c vs \<and> m_WeakRefcount r = 0)"

definition pointed :: "reference list \<Rightarrow> addr \<Rightarrow> bool" where
  "pointed vs p \<longleftrightarrow> (\<exists>v \<in> set vs. m_Ptr v = Some p)"

text \<open>\<open>raw\<close> is the set of objects owned by raw pointers, waiting to be given to a reference.\<close>

definition shared_inv :: "addr set \<Rightarrow> reference list \<Rightarrow> heap \<Rightarrow> bool" where
  "shared_inv raw vs h \<longleftrightarrow> refs_agree vs \<and> (\<forall>c. counter_ok vs h c)
     \<and> (\<forall>p. p \<in> objects h \<longleftrightarrow> pointed vs p \<or> p \<in> raw) \<and> (\<forall>p \<in> raw. \<not> pointed vs p)
     \<and> (\<forall>p \<in> objects h. p < next_object h) \<and> (\<forall>c \<in> dom (counters h). c < next_counter h)"

lemma uses_update:
  "i < length vs \<Longrightarrow> uses c (vs[i := v]) + (if m_Counter (vs ! i) = Some c then 1 else 0)
     = uses c vs + (if m_Counter v = Some c then 1 else 0)"
  unfolding uses_def using sum_list_map_update [of i vs "\<lambda>v. if m_Counter v = Some c then 1 else 0 :: nat" v] by simp

lemma uses_pos: "0 < uses c vs \<longleftrightarrow> Some c \<in> m_Counter ` set vs"
  by (induction vs) (auto simp: uses_def)

lemma uses_le: "uses c vs \<le> length vs"
  by (induction vs) (auto simp: uses_def)

lemma agreeD: "agree V \<Longrightarrow> v \<in> V \<Longrightarrow> w \<in> V \<Longrightarrow> m_Ptr v = m_Ptr w \<longleftrightarrow> m_Counter v = m_Counter w"
  by (simp add: agree_def)

lemma agree_mono: "agree V \<Longrightarrow> W \<subseteq> V \<Longrightarrow> agree W"
  by (auto simp: agree_def)

lemma refs_agree_null: "refs_agree vs \<Longrightarrow> v \<in> set vs \<Longrightarrow> m_Ptr v = None \<longleftrightarrow> m_Counter v = None"
  using agreeD [of "insert ref_null (set vs)" v ref_null] by (simp add: refs_agree_def ref_null_def)

lemma counter_of:
  assumes "shared_inv raw vs h" and "v \<in> set vs" and "m_Counter v = Some c"
  shows "\<exists>r p. counters h c = Some r \<and> unat (m_Refcount r) = uses c vs \<and> 0 < uses c vs
    \<and> m_WeakRefcount r = 0 \<and> m_Ptr v = Some p \<and> p \<in> objects h"
proof -
  have pos: "0 < uses c vs" using assms(2,3) by (metis uses_pos image_eqI)
  have "counter_ok vs h c" using assms(1) by (simp add: shared_inv_def)
  with pos obtain r where r: "counters h c = Some r" "unat (m_Refcount r) = uses c vs" "m_WeakRefcount r = 0"
    by (auto simp: counter_ok_def split: option.splits)
  have "m_Ptr v \<noteq> None" using refs_agree_null [of vs v] assms by (simp add: shared_inv_def)
  then obtain p where p: "m_Ptr v = Some p" by auto
  then have "p \<in> objects h" using assms(1,2) by (auto simp: shared_inv_def pointed_def intro!: bexI [of _ v])
  with p r pos show ?thesis by simp
qed

lemma set_update_iff: "i < length vs \<Longrightarrow> v \<in> set (vs[i := x]) \<longleftrightarrow> v = x \<or> (\<exists>k < length vs. k \<noteq> i \<and> vs ! k = v)"
  by (auto simp: in_set_conv_nth nth_list_update)

lemma refs_agree_update:
  "agree (insert v (insert ref_null (set vs))) \<Longrightarrow> refs_agree (vs[i := v])"
  unfolding refs_agree_def by (erule agree_mono) (use set_update_subset in fastforce)

lemma refs_agree_clear: "refs_agree vs \<Longrightarrow> refs_agree (vs[i := ref_null])"
  by (rule refs_agree_update) (simp add: refs_agree_def)

lemma ptr_mem_iff_uses:
  assumes "refs_agree vs" and "set ws \<subseteq> insert ref_null (set vs)" and "v \<in> set vs"
    and "m_Ptr v = Some p" and "m_Counter v = Some c"
  shows "pointed ws p \<longleftrightarrow> 0 < uses c ws"
proof -
  have "m_Ptr w = Some p \<longleftrightarrow> m_Counter w = Some c" if "w \<in> set ws" for w
    using agreeD [of "insert ref_null (set vs)" w v] assms that by (auto simp: refs_agree_def)
  then show ?thesis unfolding uses_pos image_iff pointed_def by metis
qed

lemma ptr_mem_other:
  assumes "i < length vs" and "m_Ptr (vs ! i) \<noteq> Some q" and "m_Ptr v \<noteq> Some q"
  shows "pointed (vs[i := v]) q \<longleftrightarrow> pointed vs q"
proof -
  have "pointed ws q \<longleftrightarrow> (\<exists>k < length ws. m_Ptr (ws ! k) = Some q)" for ws
    by (auto simp: pointed_def) (metis in_set_conv_nth)+
  with assms show ?thesis by (auto simp: nth_list_update) metis+
qed

text \<open>Re-establishing the invariant after a step that touches one object and its counter.\<close>

lemma shared_inv_update:
  assumes inv: "shared_inv raw vs h" and "refs_agree ws"
    and other: "\<And>c'. c' \<noteq> c \<Longrightarrow> uses c' ws = uses c' vs \<and> counters h' c' = counters h c'"
    and ctr: "counter_ok ws h' c"
    and "\<And>q. q \<noteq> p \<Longrightarrow> pointed ws q = pointed vs q \<and> (q \<in> objects h' \<longleftrightarrow> q \<in> objects h)"
    and "p \<in> objects h' \<longleftrightarrow> pointed ws p"
    and "\<forall>p \<in> objects h'. p < next_object h'" and "\<forall>c \<in> dom (counters h'). c < next_counter h'"
  shows "shared_inv (raw - {p}) ws h'"
proof -
  have "counter_ok ws h' c'" for c'
  proof (cases "c' = c")
    case False
    moreover have "counter_ok vs h c'" using inv by (simp add: shared_inv_def)
    ultimately show ?thesis using other [of c'] by (auto simp: counter_ok_def split: option.splits)
  qed (simp add: ctr)
  moreover have "q \<in> objects h' \<longleftrightarrow> pointed ws q \<or> q \<in> raw - {p}" for q
    using inv assms(5) [of q] assms(6) by (cases "q = p") (auto simp: shared_inv_def)
  moreover have "\<not> pointed ws q" if "q \<in> raw - {p}" for q
    using inv assms(5) [of q] that by (auto simp: shared_inv_def)
  ultimately show ?thesis using assms(2,7,8) by (simp add: shared_inv_def)
qed

lemma ref_unref_ok:
  assumes inv: "shared_inv raw vs h" and i: "i < length vs" and n: "length vs < 2 ^ 32"
  shows "\<exists>v h'. ref_unref (vs ! i) h = Inr (v, h') \<and> shared_inv raw (vs[i := ref_null]) h'"
proof (cases "m_Counter (vs ! i)")
  case None
  then have "vs ! i = ref_null" using refs_agree_null [of vs "vs ! i"] inv i
    by (simp add: shared_inv_def ref_null_def)
  then have "vs[i := ref_null] = vs" using i by (metis list_update_id)
  with None inv show ?thesis by (simp add: ref_unref_def)
next
  case (Some c)
  from counter_of [OF inv nth_mem [OF i] Some] obtain r p where
    r: "counters h c = Some r" "unat (m_Refcount r) = uses c vs" "0 < uses c vs" "m_WeakRefcount r = 0"
    and p: "m_Ptr (vs ! i) = Some p" "p \<in> objects h" by auto
  let ?ws = "vs[i := ref_null]"
  have agr: "refs_agree ?ws" using inv by (simp add: shared_inv_def refs_agree_clear)
  have u: "uses c ?ws = uses c vs - 1" using uses_update [OF i, of c ref_null] Some by (simp add: ref_null_def)
  have uo: "uses c' ?ws = uses c' vs" if "c' \<noteq> c" for c'
    using uses_update [OF i, of c' ref_null] Some that by (simp add: ref_null_def)
  have cnt: "unat (m_Refcount r - 1) = uses c vs - 1"
    using r(2,3) by (metis One_nat_def diff_is_0_eq' less_numeral_extra(3) not_less_eq_eq unat_eq_zero unat_minus_one)
  have nraw: "raw = raw - {p}" using inv i p by (auto simp: shared_inv_def pointed_def)
  have po: "pointed ?ws q \<longleftrightarrow> pointed vs q" if "q \<noteq> p" for q
    using ptr_mem_other [OF i, of q ref_null] p that by (simp add: ref_null_def)
  have pp: "pointed ?ws p \<longleftrightarrow> 0 < uses c ?ws"
    using ptr_mem_iff_uses [of vs ?ws "vs ! i" p c] inv i p Some set_update_subset [of vs i ref_null]
    by (simp add: shared_inv_def)
  show ?thesis
  proof (cases "uses c vs = 1")
    case True
    let ?h = "h\<lparr>objects := objects h - {p}, counters := (counters h)(c := None)\<rparr>"
    have "m_Refcount r - 1 = 0" using cnt True by (simp add: unat_eq_zero)
    then have "ref_unref (vs ! i) h = Inr (ref_null, ?h)"
      using Some r p by (simp add: ref_unref_def heap_defs rc_defs)
    moreover have "shared_inv raw ?ws ?h"
      by (subst nraw, rule shared_inv_update [OF inv agr, where c = c and p = p])
        (use inv u uo True po pp in \<open>auto simp: shared_inv_def counter_ok_def\<close>)
    ultimately show ?thesis by blast
  next
    case False
    let ?h = "h\<lparr>counters := (counters h)(c \<mapsto> r\<lparr>m_Refcount := m_Refcount r - 1\<rparr>)\<rparr>"
    have "m_Refcount r - 1 \<noteq> 0" using cnt False r(3) by (simp add: unat_eq_zero [symmetric] del: unat_eq_zero)
    then have "ref_unref (vs ! i) h = Inr (vs ! i, ?h)"
      using Some r p by (simp add: ref_unref_def heap_defs rc_defs)
    moreover have "shared_inv raw ?ws ?h"
      by (subst nraw, rule shared_inv_update [OF inv agr, where c = c and p = p])
        (use inv u uo False po pp r p cnt in \<open>auto simp: shared_inv_def counter_ok_def\<close>)
    ultimately show ?thesis by blast
  qed
qed

lemma ref_attach_ok:
  assumes inv: "shared_inv raw vs h" and i: "i < length vs" and n: "length vs < 2 ^ 32"
    and null: "vs ! i = ref_null" and w: "w \<in> set vs"
  shows "\<exists>v h'. ref_attach w ref_null h = Inr (v, h') \<and> shared_inv raw (vs[i := v]) h'"
proof (cases "m_Counter w")
  case None
  then have "ref_attach w ref_null h = Inr (ref_null, h)" by (simp add: ref_attach_def)
  with inv null i show ?thesis by (metis list_update_id)
next
  case (Some c)
  from counter_of [OF inv w Some] obtain r p where
    r: "counters h c = Some r" "unat (m_Refcount r) = uses c vs" "0 < uses c vs" "m_WeakRefcount r = 0"
    and p: "m_Ptr w = Some p" "p \<in> objects h" by auto
  let ?ws = "vs[i := w]" and ?h = "h\<lparr>counters := (counters h)(c \<mapsto> r\<lparr>m_Refcount := m_Refcount r + 1\<rparr>)\<rparr>"
  have agr: "refs_agree ?ws"
    using inv w by (intro refs_agree_update) (simp add: shared_inv_def refs_agree_def insert_absorb)
  have u: "uses c ?ws = Suc (uses c vs)" using uses_update [OF i, of c w] null Some by (simp add: ref_null_def)
  have uo: "uses c' ?ws = uses c' vs" if "c' \<noteq> c" for c'
    using uses_update [OF i, of c' w] null Some that by (simp add: ref_null_def)
  have "Suc (uses c vs) < 2 ^ 32" using uses_le [of c ?ws] u n by simp
  then have cnt: "unat (m_Refcount r + 1) = Suc (uses c vs)" by (simp add: unat_word_ariths r(2))
  have pt: "pointed ?ws q \<longleftrightarrow> pointed vs q" for q
    using ptr_mem_other [OF i, of q w] null p w i by (cases "q = p") (auto simp: ref_null_def pointed_def set_update_iff
        intro: bexI [of _ w])
  have pw: "pointed vs p" using w p by (auto simp: pointed_def)
  then have nraw: "raw = raw - {p}" using inv by (auto simp: shared_inv_def)
  have res: "ref_attach w ref_null h = Inr (w, ?h)"
    using Some p r cnt by (auto simp: ref_attach_def heap_defs rc_defs unat_eq_0)
  have "shared_inv raw ?ws ?h"
    by (subst nraw, rule shared_inv_update [OF inv agr, where c = c and p = p])
      (use inv u uo pt p pw r cnt in \<open>auto simp: shared_inv_def counter_ok_def\<close>)
  with res show ?thesis by blast
qed

lemma ref_fresh_ok:
  assumes inv: "shared_inv raw vs h" and i: "i < length vs" and null: "vs ! i = ref_null" and p: "p \<in> raw"
  shows "\<exists>v h'. ref_of_ptr (Some p) h = (v, h') \<and> shared_inv (raw - {p}) (vs[i := v]) h'"
proof -
  let ?c = "next_counter h"
  let ?v = "\<lparr>m_Ptr = Some p, m_Counter = Some ?c\<rparr>"
  let ?h = "h\<lparr>counters := (counters h)(?c \<mapsto> \<lparr>m_Refcount = 1, m_RefcountInit = 0, m_WeakRefcount = 0\<rparr>),
    next_counter := ?c + 1\<rparr>"
  have c: "counters h ?c = None" using inv by (auto simp: shared_inv_def dom_def)
  moreover have "counter_ok vs h ?c" using inv by (simp add: shared_inv_def)
  ultimately have "uses ?c vs = 0" by (simp add: counter_ok_def)
  moreover have np: "\<not> pointed vs p" using inv p by (simp add: shared_inv_def)
  ultimately have fresh: "m_Counter w \<noteq> Some ?c" "m_Ptr w \<noteq> Some p" if "w \<in> set vs" for w
    using that uses_pos [of ?c vs] by (auto simp: pointed_def image_iff)
  have agr: "refs_agree (vs[i := ?v])"
    using inv fresh by (intro refs_agree_update) (auto simp: agree_def shared_inv_def refs_agree_def ref_null_def)
  have u: "uses ?c (vs[i := ?v]) = 1" using uses_update [OF i, of ?c ?v] null \<open>uses ?c vs = 0\<close>
    by (simp add: ref_null_def)
  have uo: "uses c' (vs[i := ?v]) = uses c' vs" if "c' \<noteq> ?c" for c'
    using uses_update [OF i, of c' ?v] null that by (simp add: ref_null_def)
  have pt: "pointed (vs[i := ?v]) q \<longleftrightarrow> pointed vs q" if "q \<noteq> p" for q
    using ptr_mem_other [OF i, of q ?v] null that by (simp add: ref_null_def)
  have pp: "pointed (vs[i := ?v]) p" unfolding pointed_def by (rule bexI [of _ ?v]) (use i in \<open>auto simp: set_update_memI\<close>)
  have "ref_of_ptr (Some p) h = (?v, ?h)"
    by (simp add: ref_of_ptr_def ref_refPointer_def heap_defs rc_defs)
  moreover have "shared_inv (raw - {p}) (vs[i := ?v]) ?h"
    by (rule shared_inv_update [OF inv agr, where c = ?c and p = p])
      (use inv u uo pt pp p in \<open>auto simp: shared_inv_def counter_ok_def less_Suc_eq\<close>)
  ultimately show ?thesis by blast
qed

lemma new_object_raw:
  "shared_inv raw vs h \<Longrightarrow> new_object h = (p, h') \<Longrightarrow> shared_inv (insert p raw) vs h' \<and> p \<notin> raw"
  by (auto simp: shared_inv_def heap_defs counter_ok_def less_Suc_eq)

lemma new_object_inv:
  "shared_inv {} vs h \<Longrightarrow> new_object h = (p, h') \<Longrightarrow> shared_inv {p} vs h'"
  using new_object_raw by blast

lemma ref_reset_ok:
  assumes "shared_inv raw vs h" and "i < length vs" and "length vs < 2 ^ 32" and "set_option po \<subseteq> raw"
  shows "\<exists>v h'. ref_reset po (vs ! i) h = Inr (v, h') \<and> shared_inv (raw - set_option po) (vs[i := v]) h'"
proof -
  from ref_unref_ok [OF assms(1-3)] obtain v h1 where
    1: "ref_unref (vs ! i) h = Inr (v, h1)" "shared_inv raw (vs[i := ref_null]) h1" by blast
  show ?thesis
  proof (cases po)
    case None
    with 1 show ?thesis by (simp add: ref_reset_def ref_of_ptr_def)
  next
    case (Some p)
    with ref_fresh_ok [OF 1(2), of i p] 1(1) assms(2,4) show ?thesis by (auto simp: ref_reset_def)
  qed
qed

text \<open>The last owner: dropping it empties the variable, releasing it hands over the object.\<close>

lemma ref_unref_last: "last_owner h v \<Longrightarrow> ref_unref v h = Inr (w, h') \<Longrightarrow> w = ref_null"
  by (auto simp: last_owner_def ref_unref_def heap_defs rc_defs rbind_eq_Inr split: option.splits if_splits)

lemma shared_inv_add_raw:
  "shared_inv raw vs h \<Longrightarrow> p \<notin> objects h \<Longrightarrow> p < next_object h \<Longrightarrow> shared_inv (insert p raw) vs (h\<lparr>objects := insert p (objects h)\<rparr>)"
  by (auto simp: shared_inv_def counter_ok_def)

lemma ref_release_last:
  assumes inv: "shared_inv raw vs h" and i: "i < length vs" and n: "length vs < 2 ^ 32" and l: "last_owner h (vs ! i)"
  shows "\<exists>p h'. ref_release (vs ! i) h = Inr (Some p, ref_null, h') \<and> shared_inv (insert p raw) (vs[i := ref_null]) h' \<and> p \<notin> raw"
proof -
  obtain c r where c: "m_Counter (vs ! i) = Some c" "counters h c = Some r" "m_Refcount r = 1"
    using l by (auto simp: last_owner_def split: option.splits)
  obtain p where p: "m_WeakRefcount r = 0" "m_Ptr (vs ! i) = Some p" "p \<in> objects h"
    using counter_of [OF inv nth_mem [OF i] c(1)] c(2) by auto
  let ?h = "h\<lparr>objects := objects h - {p}, counters := (counters h)(c := None)\<rparr>"
  have "ref_unref (vs ! i) h = Inr (ref_null, ?h)" using c p by (simp add: ref_unref_def heap_defs rc_defs)
  then have "shared_inv raw (vs[i := ref_null]) ?h" using ref_unref_ok [OF inv i n] by auto
  moreover have "p < next_object h" using inv p(3) by (simp add: shared_inv_def)
  ultimately have "shared_inv (insert p raw) (vs[i := ref_null]) (?h\<lparr>objects := insert p (objects ?h)\<rparr>)"
    by (intro shared_inv_add_raw) simp_all
  moreover have "?h\<lparr>objects := insert p (objects ?h)\<rparr> = h\<lparr>counters := (counters h)(c := None)\<rparr>" using p(3) by (simp add: insert_absorb)
  moreover have "ref_release (vs ! i) h = Inr (Some p, ref_null, h\<lparr>counters := (counters h)(c := None)\<rparr>)"
    using c p by (simp add: ref_release_def heap_defs rc_defs)
  moreover have "p \<notin> raw" using inv i p(2) by (auto simp: shared_inv_def pointed_def)
  ultimately show ?thesis by auto
qed

lemma ref_attach_any: "m_Ptr from \<noteq> None \<Longrightarrow> m_Counter from \<noteq> None \<Longrightarrow> ref_attach from v h = ref_attach from ref_null h"
  by (simp add: ref_attach_def)

lemma ref_assign_cast_ok:
  assumes inv: "shared_inv raw vs h" and ij: "i < length vs" "j < length vs" "i \<noteq> j" and n: "length vs < 2 ^ 32"
    and c: "castable \<and> m_Ptr (vs ! j) \<noteq> None \<or> vs ! i = ref_null \<or> last_owner h (vs ! i)"
  shows "\<exists>v h'. ref_assign_cast castable (vs ! j) (vs ! i) h = Inr (v, h') \<and> shared_inv raw (vs[i := v]) h'"
proof -
  from ref_unref_ok [OF inv ij(1) n] obtain v h1 where
    1: "ref_unref (vs ! i) h = Inr (v, h1)" "shared_inv raw (vs[i := ref_null]) h1" by blast
  have m: "vs ! j \<in> set (vs[i := ref_null])" using ij by (metis length_list_update nth_list_update_neq nth_mem)
  have nn: "m_Ptr (vs ! j) = None \<longleftrightarrow> m_Counter (vs ! j) = None"
    using refs_agree_null [of vs "vs ! j"] inv ij by (simp add: shared_inv_def)
  show ?thesis
  proof (cases "castable \<and> m_Ptr (vs ! j) \<noteq> None")
    case True
    obtain w h2 where "ref_attach (vs ! j) ref_null h1 = Inr (w, h2)" "shared_inv raw ((vs[i := ref_null])[i := w]) h2"
      using ref_attach_ok [OF 1(2) _ _ _ m, of i] ij n by auto
    then show ?thesis using 1(1) True nn ref_attach_any [of "vs ! j" v h1] by (simp add: ref_assign_cast_def)
  next
    case False
    then have "v = ref_null" using c 1(1) ref_unref_last [of h "vs ! i" v h1] by (auto simp: ref_unref_def ref_null_def)
    then show ?thesis using 1 False by (auto simp: ref_assign_cast_def)
  qed
qed

lemma shared_inv_swap:
  assumes "shared_inv raw vs h" and "i < length vs" and "j < length vs"
  shows "shared_inv raw (vs[i := vs ! j, j := vs ! i]) h"
proof -
  let ?ws = "vs[i := vs ! j, j := vs ! i]"
  have s: "set ?ws = set vs" using assms(2,3) by (simp add: set_swap)
  have u: "uses c ?ws = uses c vs" for c
    using uses_update [of i vs c "vs ! j"] uses_update [of j "vs[i := vs ! j]" c "vs ! i"] assms(2,3)
    by (cases "i = j") auto
  have "counter_ok ?ws h c \<longleftrightarrow> counter_ok vs h c" for c
    using u by (auto simp: counter_ok_def split: option.splits)
  then show ?thesis using assms(1) s by (simp add: shared_inv_def refs_agree_def pointed_def)
qed

lemma run_op_ok [inv_pres]:
  assumes inv: "shared_inv (set raws) vs h" and n: "length vs < 2 ^ 32" and w: "op_within (length vs) x"
    and c: "careful x (vs, raws, h)" and d: "distinct raws"
  shows "\<exists>ws raws' h'. run_op x (vs, raws, h) = Inr (ws, raws', h') \<and> shared_inv (set raws') ws h' \<and> length ws = length vs \<and> distinct raws'"
proof (cases x)
  case (NewRef i)
  obtain p h1 where p: "new_object h = (p, h1)" by (cases "new_object h")
  then have "shared_inv (insert p (set raws)) vs h1" "insert p (set raws) - {p} = set raws"
    using new_object_raw [OF inv p] by auto
  with ref_reset_ok [of "insert p (set raws)" vs h1 i "Some p"] n w NewRef p d show ?thesis by (auto simp: store_def)
next
  case (CopyRef i j)
  then have ij: "i < length vs" "j < length vs" using w by simp_all
  show ?thesis
  proof (cases "m_Ptr (vs ! j) = m_Ptr (vs ! i)")
    case True
    with CopyRef inv d show ?thesis by (simp add: ref_ref_def store_def)
  next
    case False
    then have ne: "i \<noteq> j" by auto
    from ref_unref_ok [OF inv ij(1) n] obtain v h1 where
      1: "ref_unref (vs ! i) h = Inr (v, h1)" "shared_inv (set raws) (vs[i := ref_null]) h1" by blast
    have "vs ! j \<in> set (vs[i := ref_null])" using ij ne by (metis length_list_update nth_list_update_neq nth_mem)
    from ref_attach_ok [OF 1(2) _ _ _ this, of i] ij n 1(1) False CopyRef d show ?thesis
      by (auto simp: ref_ref_def store_def)
  qed
next
  case (ClearRef i)
  with ref_reset_ok [OF inv, of i None] n w d show ?thesis by (auto simp: store_def)
next
  case (DestroyRef i)
  with ref_unref_ok [OF inv, of i] n w d show ?thesis by auto
next
  case (SwapRef i j)
  with shared_inv_swap [OF inv, of i j] w d show ?thesis by simp
next
  case (ConvertRef i j)
  then have ij: "i < length vs" "j < length vs" using w by simp_all
  let ?ws = "vs[i := ref_null]"
  from ref_unref_ok [OF inv ij(1) n] obtain v h1 where
    1: "ref_unref (vs ! i) h = Inr (v, h1)" "shared_inv (set raws) ?ws h1" by blast
  have "?ws ! j \<in> set ?ws" using ij by simp
  from ref_attach_ok [OF 1(2) _ _ _ this, of i] ij n 1 ConvertRef d show ?thesis
    by (auto simp: ref_convert_def store_def ref_unref_def ref_null_def split: if_splits)
next
  case (CastRef castable i j)
  with ref_assign_cast_ok [OF inv, of i j castable] n w c d show ?thesis by (auto simp: store_def)
next
  case (ReleaseRef i)
  with ref_release_last [OF inv, of i] n w c d show ?thesis by auto
next
  case (AdoptRef i)
  show ?thesis
  proof (cases raws)
    case Nil
    with ref_reset_ok [OF inv, of i None] n w AdoptRef show ?thesis by (auto simp: store_def)
  next
    case (Cons p ps)
    then have "set raws - {p} = set ps" using d by auto
    with ref_reset_ok [OF inv, of i "Some p"] n w AdoptRef Cons d show ?thesis by (auto simp: store_def)
  qed
qed

lemma run_ops_ok:
  assumes "shared_inv (set raws) vs h" and "length vs < 2 ^ 32" and "list_all (op_within (length vs)) ops"
    and "careful_run ops (vs, raws, h)" and "distinct raws"
  shows "\<exists>ws raws' h'. run_ops ops (vs, raws, h) = Inr (ws, raws', h') \<and> shared_inv (set raws') ws h' \<and> distinct raws'"
  using assms
proof (induction ops arbitrary: vs raws h)
  case (Cons x ops)
  from run_op_ok [OF Cons.prems(1,2), of x] Cons.prems(3-5) obtain ws raws' h1 where
    1: "run_op x (vs, raws, h) = Inr (ws, raws', h1)" "shared_inv (set raws') ws h1" "length ws = length vs" "distinct raws'" by auto
  from Cons.IH [OF 1(2)] 1 Cons.prems show ?case by auto
qed auto

lemma shared_inv_init: "shared_inv {} (replicate n ref_null) heap_empty"
  by (auto simp: shared_inv_def refs_agree_def agree_def counter_ok_def heap_empty_def pointed_def
      ref_null_def uses_def sum_list_replicate)

text \<open>Property C2. Programs over fewer than 2^32 \<open>Reference\<close> variables that create, copy, convert, assign, clear, swap, destroy,
  release and adopt, in any order, never read a deleted counter and never delete an object twice, as long as they
  release a variable only as the last owner and a casting assignment succeeds or its target holds nothing anybody else
  owns; at every moment the live objects are exactly those some variable points to and those released, and the
  live counters those some variable uses.\<close>

theorem references_are_safe:
  assumes "n < 2 ^ 32" and "list_all (op_within n) ops" and "careful_run ops (replicate n ref_null, [], heap_empty)"
  shows "\<exists>vs raws h. run_ops ops (replicate n ref_null, [], heap_empty) = Inr (vs, raws, h)
    \<and> objects h = {p. \<exists>v \<in> set vs. m_Ptr v = Some p} \<union> set raws
    \<and> {p. \<exists>v \<in> set vs. m_Ptr v = Some p} \<inter> set raws = {} \<and> distinct raws
    \<and> dom (counters h) = {c. \<exists>v \<in> set vs. m_Counter v = Some c}"
proof -
  from run_ops_ok [of "[]" "replicate n ref_null" heap_empty ops] shared_inv_init [of n] assms obtain vs raws h where
    1: "run_ops ops (replicate n ref_null, [], heap_empty) = Inr (vs, raws, h)" and inv: "shared_inv (set raws) vs h"
    and d: "distinct raws" by auto
  have "c \<in> dom (counters h) \<longleftrightarrow> (\<exists>v \<in> set vs. m_Counter v = Some c)" for c
  proof -
    have "counter_ok vs h c" using inv by (simp add: shared_inv_def)
    then have "c \<in> dom (counters h) \<longleftrightarrow> 0 < uses c vs" by (auto simp: counter_ok_def split: option.splits)
    then show ?thesis unfolding uses_pos image_iff by metis
  qed
  moreover have "objects h = {p. \<exists>v \<in> set vs. m_Ptr v = Some p} \<union> set raws" "{p. \<exists>v \<in> set vs. m_Ptr v = Some p} \<inter> set raws = {}"
    using inv by (auto simp: shared_inv_def pointed_def)
  ultimately show ?thesis using 1 d by blast
qed

theorem references_are_safe_witness:
  "\<exists>vs raws h. run_ops [NewRef 0, CopyRef 1 0, NewRef 0, CastRef True 0 1, DestroyRef 1, ReleaseRef 0, AdoptRef 1, CastRef False 1 0]
      (replicate 2 ref_null, [], heap_empty) = Inr (vs, raws, h)
    \<and> objects h = {p. \<exists>v \<in> set vs. m_Ptr v = Some p} \<union> set raws"
proof -
  let ?ops = "[NewRef 0, CopyRef 1 0, NewRef 0, CastRef True 0 1, DestroyRef 1, ReleaseRef 0, AdoptRef 1, CastRef False 1 0]"
  have "careful_run ?ops (replicate 2 ref_null, [], heap_empty)"
    by (simp add: numeral_2_eq_2 store_def ref_reset_def ref_ref_def ref_assign_cast_def ref_release_def ref_attach_def ref_unref_def ref_of_ptr_def
        ref_refPointer_def last_owner_def heap_defs rc_defs heap_empty_def) (simp add: ref_null_def)
  from references_are_safe [OF _ _ this] show ?thesis by auto
qed

section \<open>Where the pointers go wrong\<close>

text \<open>A weak reference never counts: the weak counter starts at 0, where the conditional increment
  refuses to move, and dropping the weak reference takes it to -1. The last \<open>Reference\<close> then finds a
  non-zero weak count and leaves the counter allocated.\<close>

lemma weak_reference_leaks_counter:
  "case create_ref h of (r, h0) \<Rightarrow>
     \<exists>h3. rbind (weak_of_ref r h0) (\<lambda>(w, h1). rbind (weak_destroy w h1) (\<lambda>h2. ref_unref r h2)) = Inr (ref_null, h3)
       \<and> the (m_Ptr r) \<notin> objects h3 \<and> the (m_Counter r) \<in> dom (counters h3)"
  by (simp add: create_ref_def ref_of_ptr_def ref_refPointer_def weak_of_ref_def weak_add_ref_def weak_destroy_def
      ref_unref_def heap_defs rc_defs)

text \<open>A weak reference that outlives the object reads the deleted counter.\<close>

lemma weak_expired_after_death:
  "case create_ref h of (r, h0) \<Rightarrow>
     rbind (weak_of_ref r h0) (\<lambda>(w, h1). rbind (ref_unref r h1) (\<lambda>(r', h2). weak_expired w h2)) = Inl UseAfterFree"
  by (simp add: create_ref_def ref_of_ptr_def ref_refPointer_def weak_of_ref_def weak_add_ref_def weak_expired_def
      ref_unref_def heap_defs rc_defs)

text \<open>\<open>Lock\<close> builds the strong reference from the raw pointer, hence with a counter of its
  own: the two owners each believe to be the last, and the object is deleted twice.\<close>

theorem weak_lock_double_free:
  "case create_ref h of (r, h0) \<Rightarrow>
     rbind (weak_of_ref r h0) (\<lambda>(w, h1). rbind (weak_lock w h1) (\<lambda>(l, h2).
       rbind (ref_unref l h2) (\<lambda>(l', h3). ref_unref r h3))) = Inl DoubleFree"
  by (simp add: create_ref_def ref_of_ptr_def ref_refPointer_def weak_of_ref_def weak_add_ref_def weak_expired_def
      weak_lock_def ref_unref_def heap_defs rc_defs)

text \<open>\<open>release\<close> gives the count back but keeps the counter while others use it, so the destructor of the
  released variable gives it back again.\<close>

lemma release_then_destroy:
  "case create_ref h of (a, h0) \<Rightarrow>
     rbind (ref_copy a h0) (\<lambda>(b, h1). rbind (ref_release a h1) (\<lambda>(p, a', h2).
       rbind (ref_unref a' h2) (\<lambda>(a'', h3). ref_unref b h3))) = Inl UseAfterFree"
  by (simp add: create_ref_def ref_of_ptr_def ref_refPointer_def ref_copy_def ref_ref_def ref_attach_def ref_release_def
      ref_unref_def heap_defs rc_defs) (simp add: ref_null_def)

text \<open>The converting assignment gives up its count before it tests the cast, and when the
  cast fails (or the source is empty) it keeps the old pointers uncounted: with a second owner \<open>b\<close>
  the object dies with \<open>a\<close>, and \<open>b\<close> reads a deleted counter.\<close>

theorem failed_cast_leaves_uncounted_reference:
  "case create_ref h of (a, h0) \<Rightarrow>
     rbind (ref_copy a h0) (\<lambda>(b, h1). rbind (ref_assign_cast False x a h1) (\<lambda>(a', h2).
       rbind (ref_unref a' h2) (\<lambda>(a'', h3). ref_deref b h3))) = Inl UseAfterFree"
  by (simp add: create_ref_def ref_of_ptr_def ref_refPointer_def ref_copy_def ref_ref_def ref_attach_def
      ref_assign_cast_def ref_deref_def ref_unref_def heap_defs rc_defs) (simp add: ref_null_def)

text \<open>Moving an \<open>Owned\<close> pointer hands the object over: afterwards only the target holds it, and the object
  it held before is gone.\<close>

lemma owned_move_from_ok:
  assumes "this \<noteq> moving" and "set_option this \<subseteq> objects h"
  shows "\<exists>h'. owned_move_from moving this h = Inr (moving, None, h') \<and> objects h' = objects h - set_option this"
  using assms by (cases this) (auto simp: owned_move_from_def owned_release_def owned_swap_def owned_destroy_def
      heap_defs)

end
