(* ===== verification/StringUtils.thy ===== *)
theory StringUtils
  imports Prelude "HOL-Library.Sublist"
begin

text \<open>
  The string helpers of \<open>Core/StringUtilities.cpp\<close>. A \<open>std::string\<close> is a list of characters, a
  position a natural number, and \<open>npos\<close> is \<open>None\<close>. A \<open>const char*\<close> is the list of the characters
  before the terminating zero; reading past that zero is a fault. The first section gives the
  operations of the standard library that the source calls; demangling calls into the compiler's
  runtime and is left out.
\<close>

section \<open>The standard library's searches\<close>

definition find_first_of :: "(char \<Rightarrow> bool) \<Rightarrow> nat \<Rightarrow> string \<Rightarrow> nat option" where
  "find_first_of P start s =
    (let n = length (takeWhile (\<lambda>c. \<not> P c) (drop start s))
     in if start + n < length s then Some (start + n) else None)"

fun find_last_of :: "char \<Rightarrow> string \<Rightarrow> nat option" where
  "find_last_of c [] = None"
| "find_last_of c (x # xs) = (case find_last_of c xs of Some i \<Rightarrow> Some (Suc i)
    | None \<Rightarrow> if x = c then Some 0 else None)"

definition substr :: "nat \<Rightarrow> nat \<Rightarrow> string \<Rightarrow> string" where
  "substr start n s = take n (drop start s)"

text \<open>The first occurrence of a pattern: \<open>std::string::find\<close> and \<open>strstr\<close>.\<close>

fun find_sub :: "string \<Rightarrow> string \<Rightarrow> nat option" where
  "find_sub p [] = (if p = [] then Some 0 else None)"
| "find_sub p (x # xs) = (if prefix p (x # xs) then Some 0 else map_option Suc (find_sub p xs))"

definition c_str :: "string \<Rightarrow> string" where
  "c_str s = takeWhile (\<lambda>c. c \<noteq> CHR 0x00) s"

text \<open>Reading through a \<open>const char*\<close>: the terminating zero may be read, nothing after it.\<close>

definition c_at :: "string \<Rightarrow> nat \<Rightarrow> char res" where
  "c_at s i = (if i < length s then ok (s ! i) else if i = length s then ok (CHR 0x00) else fail OutOfRange)"

definition is_space :: "char \<Rightarrow> bool" where
  "is_space c \<longleftrightarrow> c \<in> {CHR '' '', CHR 0x09, CHR 0x0A, CHR 0x0B, CHR 0x0C, CHR 0x0D}"

definition is_digit :: "char \<Rightarrow> bool" where
  "is_digit c \<longleftrightarrow> c \<in> set ''0123456789''"

definition digit_value :: "char \<Rightarrow> nat" where
  "digit_value c = of_char c - 48"

lemma find_sub_Some: "find_sub p s = Some i \<Longrightarrow> i \<le> length s \<and> prefix p (drop i s) \<and> (\<forall>j < i. \<not> prefix p (drop j s))"
proof (induction p s arbitrary: i rule: find_sub.induct)
  case (2 p x xs)
  show ?case
  proof (cases "prefix p (x # xs)")
    case False
    with 2 obtain k where "i = Suc k" "find_sub p xs = Some k" by auto
    with 2(1) [OF False, of k] False show ?thesis by (auto simp: less_Suc_eq_0_disj)
  qed (use 2(2) in auto)
qed (auto split: if_splits)

lemma find_sub_None: "find_sub p s = None \<Longrightarrow> \<not> prefix p (drop j s)"
proof (induction p s arbitrary: j rule: find_sub.induct)
  case (2 p x xs)
  then show ?case by (cases j) (auto split: if_splits)
qed (auto split: if_splits)

lemma find_sub_exists: "prefix p (drop j s) \<Longrightarrow> \<exists>i. find_sub p s = Some i \<and> i \<le> j"
proof -
  assume p: "prefix p (drop j s)"
  then obtain i where i: "find_sub p s = Some i" by (metis find_sub_None not_None_eq)
  moreover have "i \<le> j" using find_sub_Some [OF i] p by (meson not_le)
  ultimately show ?thesis by blast
qed

lemma find_sub_0: "find_sub p s = Some 0 \<longleftrightarrow> prefix p s"
  by (cases s) (auto split: if_splits)

lemma find_last_of_None: "find_last_of c s = None \<longleftrightarrow> c \<notin> set s"
  by (induction s) (auto split: option.splits)

lemma find_last_of_Some:
  "find_last_of c s = Some i \<Longrightarrow> i < length s \<and> s ! i = c \<and> c \<notin> set (drop (Suc i) s)"
proof (induction s arbitrary: i)
  case (Cons x s)
  then show ?case by (cases "find_last_of c s") (auto split: if_splits simp: find_last_of_None)
qed simp

lemma find_last_of_mem: "find_last_of c s = Some i \<Longrightarrow> c \<in> set s"
  using find_last_of_Some nth_mem by blast

section \<open>File names\<close>

definition GetFilePathExtension :: "string \<Rightarrow> string" where
  "GetFilePathExtension FileName = (case find_last_of CHR ''.'' FileName of
     Some pos \<Rightarrow> drop (pos + 1) FileName | None \<Rightarrow> [])"

definition RemoveFilePathExtension :: "string \<Rightarrow> string" where
  "RemoveFilePathExtension FileName = (case find_last_of CHR ''.'' FileName of
     Some pos \<Rightarrow> substr 0 pos FileName | None \<Rightarrow> FileName)"

definition GetFileName :: "string \<Rightarrow> string" where
  "GetFileName FilePath = (case find_last_of CHR ''/'' FilePath of
     Some pos \<Rightarrow> drop (pos + 1) FilePath | None \<Rightarrow> FilePath)"

definition GetFileLocation :: "string \<Rightarrow> string" where
  "GetFileLocation FilePath = (case find_last_of CHR ''/'' FilePath of
     Some pos \<Rightarrow> substr 0 (pos + 1) FilePath | None \<Rightarrow> FilePath)"

definition RemoveName :: "string \<Rightarrow> string" where
  "RemoveName FilePath = (case find_last_of CHR ''/'' FilePath of
     Some pos \<Rightarrow> substr 0 (pos + 1) FilePath | None \<Rightarrow> FilePath)"

text \<open>Splitting a path loses nothing: the location and the name concatenate to the path when
  it has a slash, and stem, dot and extension to the file name when it has a dot; the name holds no
  slash and the extension no dot. Without a slash the location is, surprisingly, the whole path.\<close>

theorem path_parts:
  "(if CHR ''/'' \<in> set path then GetFileLocation path @ GetFileName path = path
    else GetFileLocation path = path \<and> GetFileName path = path)
   \<and> (if CHR ''.'' \<in> set path then RemoveFilePathExtension path @ CHR ''.'' # GetFilePathExtension path = path
      else RemoveFilePathExtension path = path \<and> GetFilePathExtension path = [])
   \<and> CHR ''/'' \<notin> set (GetFileName path) \<and> CHR ''.'' \<notin> set (GetFilePathExtension path)"
proof (intro conjI)
  show "if CHR ''/'' \<in> set path then GetFileLocation path @ GetFileName path = path
    else GetFileLocation path = path \<and> GetFileName path = path"
  proof (cases "find_last_of CHR ''/'' path")
    case (Some i)
    then show ?thesis using find_last_of_mem [OF Some] by (simp add: GetFileLocation_def GetFileName_def substr_def)
  next
    case None
    then have "CHR ''/'' \<notin> set path" by (simp add: find_last_of_None)
    then show ?thesis using None unfolding GetFileLocation_def GetFileName_def by simp
  qed
  show "if CHR ''.'' \<in> set path then RemoveFilePathExtension path @ CHR ''.'' # GetFilePathExtension path = path
      else RemoveFilePathExtension path = path \<and> GetFilePathExtension path = []"
  proof (cases "find_last_of CHR ''.'' path")
    case (Some i)
    with find_last_of_Some [OF Some] show ?thesis
      by (simp add: RemoveFilePathExtension_def GetFilePathExtension_def substr_def find_last_of_mem)
        (metis id_take_nth_drop)
  next
    case None
    then have "CHR ''.'' \<notin> set path" by (simp add: find_last_of_None)
    then show ?thesis using None unfolding RemoveFilePathExtension_def GetFilePathExtension_def by simp
  qed
  show "CHR ''/'' \<notin> set (GetFileName path)"
    by (auto simp: GetFileName_def find_last_of_None split: option.splits dest: find_last_of_Some)
  show "CHR ''.'' \<notin> set (GetFilePathExtension path)"
    by (cases "find_last_of CHR ''.'' path") (simp_all add: GetFilePathExtension_def find_last_of_Some)
qed

section \<open>Splitting\<close>

function split_loop :: "(char \<Rightarrow> bool) \<Rightarrow> string \<Rightarrow> nat \<Rightarrow> string list" where
  "split_loop delim s start =
    (case find_first_of delim start s of
       None \<Rightarrow> (let token = drop start s in if token \<noteq> [] then [token] else [])
     | Some end_ \<Rightarrow>
         (let token = substr start (end_ - start) s
          in (if token \<noteq> [] then [token] else []) @ split_loop delim s (end_ + 1)))"
  by auto
termination
  by (relation "measure (\<lambda>(delim, s, start). length s - start)") (auto simp: find_first_of_def Let_def split: if_splits)

declare split_loop.simps [simp del]

definition SplitString :: "string \<Rightarrow> string \<Rightarrow> string list" where
  "SplitString s delimiters = split_loop (\<lambda>c. c \<in> set delimiters) s 0"

definition Tokenize :: "string \<Rightarrow> string list" where
  "Tokenize s = SplitString s [CHR '' '', CHR 0x09, CHR 0x0A]"

definition GetLines :: "string \<Rightarrow> string list" where
  "GetLines s = SplitString s [CHR 0x0A]"

text \<open>Reference: cut at every delimiter, drop the empty pieces.\<close>

fun pieces :: "('a \<Rightarrow> bool) \<Rightarrow> 'a list \<Rightarrow> 'a list list" where
  "pieces P [] = [[]]"
| "pieces P (x # xs) = (if P x then [] # pieces P xs else (x # hd (pieces P xs)) # tl (pieces P xs))"

lemma pieces_none: "\<forall>x \<in> set xs. \<not> P x \<Longrightarrow> pieces P xs = [xs]"
  by (induction xs) auto

lemma pieces_delim: "\<forall>x \<in> set xs. \<not> P x \<Longrightarrow> P d \<Longrightarrow> pieces P (xs @ d # ys) = xs # pieces P ys"
  by (induction xs) auto

lemma find_first_of_None:
  "find_first_of P start s = None \<Longrightarrow> start \<le> length s \<Longrightarrow> \<forall>x \<in> set (drop start s). \<not> P x"
proof -
  assume n: "find_first_of P start s = None" and "start \<le> length s"
  then have "length (takeWhile (\<lambda>c. \<not> P c) (drop start s)) \<ge> length (drop start s)"
    by (auto simp: find_first_of_def Let_def split: if_splits)
  then have "takeWhile (\<lambda>c. \<not> P c) (drop start s) = drop start s"
    by (metis append_Nil2 append_eq_conv_conj length_takeWhile_le order_antisym takeWhile_eq_take)
  then show ?thesis by (metis set_takeWhileD)
qed

lemma find_first_of_Some:
  assumes "find_first_of P start s = Some e"
  shows "start \<le> e \<and> e < length s \<and> P (s ! e) \<and> (\<forall>x \<in> set (take (e - start) (drop start s)). \<not> P x)"
proof -
  let ?t = "takeWhile (\<lambda>c. \<not> P c) (drop start s)"
  from assms have e: "e = start + length ?t" "e < length s" by (auto simp: find_first_of_def Let_def split: if_splits)
  then have "length ?t < length (drop start s)" by simp
  from nth_length_takeWhile [OF this] e have "P (s ! e)" by simp
  moreover have "take (e - start) (drop start s) = ?t" using e by (simp add: takeWhile_eq_take [symmetric])
  ultimately show ?thesis using e by (metis le_add1 set_takeWhileD)
qed

lemma split_loop_pieces:
  "start \<le> length s \<Longrightarrow> split_loop P s start = filter (\<lambda>t. t \<noteq> []) (pieces P (drop start s))"
proof (induction P s start rule: split_loop.induct)
  case (1 P s start)
  show ?case
  proof (cases "find_first_of P start s")
    case None
    with find_first_of_None [OF None 1(2)] show ?thesis
      by (simp add: split_loop.simps [of P s start] pieces_none)
  next
    case (Some e)
    note e = find_first_of_Some [OF Some]
    have "drop start s = take (e - start) (drop start s) @ s ! e # drop (e + 1) s"
      using e id_take_nth_drop [of "e - start" "drop start s"] by (simp add: less_diff_conv)
    then have "pieces P (drop start s) = take (e - start) (drop start s) # pieces P (drop (e + 1) s)"
      using e by (metis pieces_delim)
    with 1(1) [OF Some] e Some show ?thesis
      by (simp add: split_loop.simps [of P s start] substr_def)
  qed
qed

definition join_with :: "char \<Rightarrow> string list \<Rightarrow> string" where
  "join_with d ts = concat (map (\<lambda>t. t @ [d]) ts)"

lemma pieces_join:
  assumes "P d" and "list_all (\<lambda>t. list_all (\<lambda>c. \<not> P c) t) ts"
  shows "pieces P (join_with d ts) = ts @ [[]]"
  using assms(2)
proof (induction ts)
  case (Cons t ts)
  then have "pieces P (t @ d # join_with d ts) = t # pieces P (join_with d ts)"
    using assms(1) by (intro pieces_delim) (auto simp: list_all_iff)
  with Cons show ?case by (simp add: join_with_def)
qed (simp add: join_with_def)

text \<open>\<open>SplitString\<close> cuts at every delimiter character and drops the empty pieces: no token is
  lost, reordered or split further. Joining tokens that are non-empty and free of delimiters and
  splitting the result gives the same tokens.\<close>

theorem split_string_roundtrip:
  "SplitString s ds = filter (\<lambda>t. t \<noteq> []) (pieces (\<lambda>c. c \<in> set ds) s)
   \<and> SplitString (join_with d (filter (\<lambda>t. t \<noteq> [] \<and> d \<notin> set t) ts)) [d] = filter (\<lambda>t. t \<noteq> [] \<and> d \<notin> set t) ts"
proof
  show "SplitString s ds = filter (\<lambda>t. t \<noteq> []) (pieces (\<lambda>c. c \<in> set ds) s)" for s ds
    by (simp add: SplitString_def split_loop_pieces)
  let ?ts = "filter (\<lambda>t. t \<noteq> [] \<and> d \<notin> set t) ts"
  have "list_all (\<lambda>t. list_all (\<lambda>c. \<not> c = d) t) ?ts" by (auto simp: list_all_iff)
  then show "SplitString (join_with d ?ts) [d] = ?ts"
    by (simp add: SplitString_def split_loop_pieces pieces_join conj_commute)
qed

section \<open>Finding whole words\<close>

text \<open>\<open>None\<close>: the loop never ends; \<open>Some (Inr None)\<close>: not found.\<close>

partial_function (option) find_token_loop :: "string \<Rightarrow> string \<Rightarrow> nat \<Rightarrow> nat option res option" where
  "find_token_loop str token t =
    (case find_sub (c_str token) (drop t str) of
       None \<Rightarrow> Some (ok None)
     | Some k \<Rightarrow>
         (let t1 = t + k;
              left = (t1 = 0 \<or> is_space (str ! (t1 - 1)))
          in case c_at str (t1 + length token) of
               Inl e \<Rightarrow> Some (Inl e)
             | Inr c \<Rightarrow>
                 (if left \<and> (c = CHR 0x00 \<or> is_space c) then Some (ok (Some t1))
                  else find_token_loop str token (t1 + length token))))"

definition FindToken :: "string \<Rightarrow> string \<Rightarrow> nat option res option" where
  "FindToken str token = find_token_loop str token 0"

definition whole_word_at :: "string \<Rightarrow> string \<Rightarrow> nat \<Rightarrow> bool" where
  "whole_word_at str token i \<longleftrightarrow> prefix token (drop i str)
     \<and> (i = 0 \<or> is_space (str ! (i - 1)))
     \<and> (i + length token = length str \<or> (i + length token < length str \<and> is_space (str ! (i + length token))))"

lemma no_word_inside:
  assumes "prefix token (drop i str)" and "\<forall>c \<in> set token. \<not> is_space c" and "i < j" and "j < i + length token"
  shows "\<not> whole_word_at str token j"
proof -
  have lt: "j - 1 - i < length token" using assms(3,4) by linarith
  obtain ys where ys: "drop i str = token @ ys" using assms(1) by (auto simp: prefix_def)
  have "i \<le> length str" using ys assms(3,4) by (cases "i \<le> length str") auto
  then have "str ! (j - 1) = drop i str ! (j - 1 - i)" using assms(3) by simp
  then have "str ! (j - 1) = token ! (j - 1 - i)" using ys lt by (simp add: nth_append)
  moreover have "token ! (j - 1 - i) \<in> set token" using assms(3,4) by (intro nth_mem) linarith
  ultimately show ?thesis using assms(2,3) by (auto simp: whole_word_at_def)
qed

definition first_word :: "string \<Rightarrow> string \<Rightarrow> nat option \<Rightarrow> bool" where
  "first_word str token r = (case r of None \<Rightarrow> (\<forall>i. \<not> whole_word_at str token i)
     | Some i \<Rightarrow> whole_word_at str token i \<and> (\<forall>j < i. \<not> whole_word_at str token j))"

lemma find_token_loop_correct:
  assumes nul: "CHR 0x00 \<notin> set str" "CHR 0x00 \<notin> set token"
    and tok: "token \<noteq> []" "\<forall>c \<in> set token. \<not> is_space c"
  shows "t \<le> length str \<Longrightarrow> \<forall>j < t. \<not> whole_word_at str token j \<Longrightarrow>
    \<exists>r. find_token_loop str token t = Some (Inr r) \<and> first_word str token r"
proof (induction "length str - t" arbitrary: t rule: less_induct)
  case less
  have cs: "c_str token = token" using nul(2) by (auto simp: c_str_def takeWhile_eq_all_conv)
  show ?case
  proof (cases "find_sub token (drop t str)")
    case None
    have "\<not> whole_word_at str token j" for j
    proof (cases "j < t")
      case False
      then have "drop j str = drop (j - t) (drop t str)" by simp
      with find_sub_None [OF None, of "j - t"] show ?thesis by (simp add: whole_word_at_def)
    qed (use less in simp)
    with None cs show ?thesis
      by (simp add: find_token_loop.simps [of str token t] first_word_def)
  next
    case (Some k)
    let ?i = "t + k" and ?n = "length token"
    note fs = find_sub_Some [OF Some]
    have pre: "prefix token (drop ?i str)" using fs by (simp add: add.commute)
    then have len: "?i + ?n \<le> length str" using tok(1) fs less(2) prefix_length_le [OF pre] by auto
    have none: "\<not> whole_word_at str token j" if "j < ?i" for j
    proof (cases "j < t")
      case False
      then have "j - t < k" using that by linarith
      then have "\<not> prefix token (drop (j - t) (drop t str))" using fs by blast
      with False show ?thesis by (simp add: whole_word_at_def)
    qed (use less in simp)
    obtain c where c: "c_at str (?i + ?n) = Inr c" and
      right: "c = CHR 0x00 \<or> is_space c \<longleftrightarrow> ?i + ?n = length str \<or> (?i + ?n < length str \<and> is_space (str ! (?i + ?n)))"
    proof (cases "?i + ?n = length str")
      case False
      then have l: "?i + ?n < length str" using len by simp
      then have "str ! (?i + ?n) \<noteq> CHR 0x00" using nul(1) by (metis nth_mem)
      with l that show ?thesis by (simp add: c_at_def)
    qed (use that in \<open>simp add: c_at_def\<close>)
    let ?ok = "(?i = 0 \<or> is_space (str ! (?i - 1))) \<and> (c = CHR 0x00 \<or> is_space c)"
    have ww: "?ok \<longleftrightarrow> whole_word_at str token ?i" using right pre by (simp add: whole_word_at_def)
    have step: "find_token_loop str token t =
        (if ?ok then Some (ok (Some ?i)) else find_token_loop str token (?i + ?n))"
      using Some c cs by (simp add: find_token_loop.simps [of str token t] Let_def)
    show ?thesis
    proof (cases ?ok)
      case True
      with step ww none show ?thesis by (simp add: first_word_def)
    next
      case False
      have "\<not> whole_word_at str token j" if "j < ?i + ?n" for j
        using none [of j] no_word_inside [OF pre tok(2), of j] that ww False by (cases j ?i rule: linorder_cases) auto
      with less(1) [of "?i + ?n"] len tok(1) fs less(2) show ?thesis
        unfolding step using False by (cases token) auto
    qed
  qed
qed

text \<open>\<open>FindToken\<close> returns the first occurrence of the token that stands as a word of its own,
  or nothing if there is none, for every non-empty token free of white space and every C string.\<close>

theorem find_token_first_word:
  assumes "CHR 0x00 \<notin> set str" and "CHR 0x00 \<notin> set token" and "token \<noteq> []" and "\<forall>c \<in> set token. \<not> is_space c"
  shows "\<exists>r. FindToken str token = Some (Inr r) \<and> first_word str token r"
  using find_token_loop_correct [OF assms, of 0] by (simp add: FindToken_def)

theorem find_token_first_word_witness:
  "\<exists>r. FindToken ''outin in'' ''in'' = Some (Inr r) \<and> first_word ''outin in'' ''in'' r"
  by (rule find_token_first_word) (auto simp: is_space_def)

text \<open>With an empty token the search never advances.\<close>

lemma find_token_empty_diverges: "t < length str \<Longrightarrow> str ! t \<noteq> CHR 0x00 \<Longrightarrow> \<not> is_space (str ! t) \<Longrightarrow>
    find_token_loop str [] t = None"
proof -
  assume a: "t < length str" "str ! t \<noteq> CHR 0x00" "\<not> is_space (str ! t)"
  let ?P = "\<lambda>str token t (u :: nat option res). \<not> (token = [] \<and> t < length str \<and> str ! t \<noteq> CHR 0x00 \<and> \<not> is_space (str ! t))"
  have "?P str' token' t' u" if r: "find_token_loop str' token' t' = Some u" for str' token' t' u
  proof (rule find_token_loop.raw_induct [where P = ?P, OF _ r])
    fix f :: "string \<Rightarrow> string \<Rightarrow> nat \<Rightarrow> nat option res option" and str token t u
    assume IH: "\<And>str token t u. f str token t = Some u \<Longrightarrow> ?P str token t u"
      and eq: "(case find_sub (c_str token) (drop t str) of None \<Rightarrow> Some (ok None)
     | Some k \<Rightarrow> (let t1 = t + k; left = (t1 = 0 \<or> is_space (str ! (t1 - 1)))
          in case c_at str (t1 + length token) of Inl e \<Rightarrow> Some (Inl e)
             | Inr c \<Rightarrow> (if left \<and> (c = CHR 0x00 \<or> is_space c) then Some (ok (Some t1))
                  else f str token (t1 + length token)))) = Some u"
    show "?P str token t u"
    proof
      assume b: "token = [] \<and> t < length str \<and> str ! t \<noteq> CHR 0x00 \<and> \<not> is_space (str ! t)"
      then have "f str [] t = Some u"
        using eq by (simp add: c_str_def find_sub_0 [THEN iffD2] Let_def c_at_def)
      from IH [OF this] b show False by simp
    qed
  qed
  from this [of str "[]" t] a show "find_token_loop str [] t = None" by (cases "find_token_loop str [] t") auto
qed

section \<open>Positions, blocks and statements\<close>

text \<open>\<open>(int32_t)(found - str) + offset\<close> is computed modulo 2^32. An offset beyond the terminating zero is
  an invalid pointer.\<close>

definition FindStringPosition :: "string \<Rightarrow> string \<Rightarrow> u32 \<Rightarrow> int res" where
  "FindStringPosition s search offset =
    (if length (c_str s) < unat offset then fail OutOfRange
     else case find_sub (c_str search) (drop (unat offset) (c_str s)) of
       None \<Rightarrow> ok (- 1)
     | Some i \<Rightarrow> ok (sint (word_of_nat i + offset)))"

definition StringRange :: "string \<Rightarrow> u32 \<Rightarrow> u32 \<Rightarrow> string res" where
  "StringRange s start n = (if length s < unat start then fail OutOfRange else ok (substr (unat start) (unat n) s))"

definition RemoveStringRange :: "string \<Rightarrow> u32 \<Rightarrow> u32 \<Rightarrow> string res" where
  "RemoveStringRange s start n = (if length s < unat start then fail OutOfRange
     else ok (take (unat start) s @ drop (unat start + unat n) s))"

text \<open>\<open>GetBlock\<close> and \<open>GetStatement\<close> return the text up to and including the closing character, and the
  new value of \<open>*outPosition\<close> (an offset into \<open>str\<close>) when they find it.\<close>

definition up_to :: "char \<Rightarrow> string \<Rightarrow> string \<times> nat option" where
  "up_to close str = (case find_sub [close] str of None \<Rightarrow> (str, None)
     | Some e \<Rightarrow> (take (unat (word_of_nat (e + 1) :: u32)) str, Some e))"

definition GetBlock :: "string \<Rightarrow> string \<times> nat option" where
  "GetBlock str = up_to CHR ''}'' str"

definition GetBlock_at :: "string \<Rightarrow> u32 \<Rightarrow> string res" where
  "GetBlock_at s offset = (if length (c_str s) < unat offset then fail OutOfRange
     else ok (fst (GetBlock (drop (unat offset) (c_str s)))))"

definition GetStatement :: "string \<Rightarrow> string \<times> nat option" where
  "GetStatement str = up_to CHR '';'' str"

definition StringContains :: "string \<Rightarrow> string \<Rightarrow> bool" where
  "StringContains s chars \<longleftrightarrow> find_sub chars s \<noteq> None"

definition StartsWith :: "string \<Rightarrow> string \<Rightarrow> bool" where
  "StartsWith s start \<longleftrightarrow> find_sub start s = Some 0"

text \<open>\<open>atoi\<close> at a digit: the value of the digits, undefined when it does not fit an \<open>int\<close>.\<close>

definition atoi_digits :: "string \<Rightarrow> int res" where
  "atoi_digits s =
    (let v = fold (\<lambda>c n. 10 * n + int (digit_value c)) (takeWhile is_digit s) 0
     in if v < 2 ^ 31 then ok v else fail OutOfRange)"

fun NextInt :: "string \<Rightarrow> int res" where
  "NextInt [] = ok (- 1)"
| "NextInt (c # s) = (if is_digit c then atoi_digits (c # s) else NextInt s)"

definition StringEquals :: "string \<Rightarrow> string \<Rightarrow> bool" where
  "StringEquals s1 s2 \<longleftrightarrow> c_str s1 = c_str s2"

lemma StartsWith_prefix: "StartsWith s start \<longleftrightarrow> prefix start s"
  by (simp add: StartsWith_def find_sub_0)

lemma StringContains_sublist: "StringContains s chars \<longleftrightarrow> sublist chars s"
proof -
  have "StringContains s chars \<longleftrightarrow> (\<exists>j. prefix chars (drop j s))"
    unfolding StringContains_def
    by (metis find_sub_None find_sub_Some not_None_eq)
  also have "\<dots> \<longleftrightarrow> sublist chars s"
    by (metis append_take_drop_id prefix_order.order_refl prefixI sublist_altdef sublist_altdef' suffix_drop suffix_def
        append_eq_conv_conj)
  finally show ?thesis .
qed

section \<open>Character replacement\<close>

definition StringReplace :: "string \<Rightarrow> char \<Rightarrow> char \<Rightarrow> string" where
  "StringReplace str ch1 ch2 = fold (\<lambda>i s. if s ! i = ch1 then s[i := ch2] else s) [0..<length str] str"

definition BackSlashesToSlashes :: "string \<Rightarrow> string" where
  "BackSlashesToSlashes str = fold (\<lambda>i s. if s ! i = CHR 0x5C then s[i := CHR ''/''] else s) [0..<length str] str"

definition SlashesToBackSlashes :: "string \<Rightarrow> string" where
  "SlashesToBackSlashes str = fold (\<lambda>i s. if s ! i = CHR ''/'' then s[i := CHR 0x5C] else s) [0..<length str] str"

definition RemoveSpaces :: "string \<Rightarrow> string" where
  "RemoveSpaces s = filter (\<lambda>x. \<not> is_space x) (filter (\<lambda>x. x \<noteq> CHR '' '') s)"

text \<open>The overload that deletes a character: after a deletion the index still moves on.\<close>

function remove_char_loop :: "string \<Rightarrow> char \<Rightarrow> nat \<Rightarrow> string" where
  "remove_char_loop str ch i =
    (if i < length str then
       (if str ! i = ch then remove_char_loop (substr 0 i str @ drop (i + 1) str) ch (i + 1)
        else remove_char_loop str ch (i + 1))
     else str)"
  by auto
termination
  by (relation "measure (\<lambda>(str, ch, i). length str - i)") (auto simp: substr_def)

declare remove_char_loop.simps [simp del]

definition StringReplace1 :: "string \<Rightarrow> char \<Rightarrow> string" where
  "StringReplace1 str ch = remove_char_loop str ch 0"

text \<open>What it computes: of every occurrence followed by another one, only the first is removed.\<close>

fun remove_alternate :: "char \<Rightarrow> string \<Rightarrow> string" where
  "remove_alternate ch [] = []"
| "remove_alternate ch [x] = (if x = ch then [] else [x])"
| "remove_alternate ch (x # y # s) =
    (if x = ch then y # remove_alternate ch s else x # remove_alternate ch (y # s))"

lemma fold_update_map:
  "fold (\<lambda>i s. if s ! i = a then s[i := b] else s) [0..<length str] str = map (\<lambda>c. if c = a then b else c) str"
proof -
  let ?f = "\<lambda>i s. if s ! i = a then s[i := b] else s" and ?g = "\<lambda>c. if c = a then b else c"
  have "n \<le> length str \<Longrightarrow> fold ?f [0..<n] str = map ?g (take n str) @ drop n str" for n
  proof (induction n)
    case (Suc n)
    then have "drop n str = str ! n # drop (Suc n) str" by (simp add: Cons_nth_drop_Suc)
    with Suc show ?case by (auto simp: take_Suc_conv_app_nth nth_append list_update_append)
  qed simp
  from this [of "length str"] show ?thesis by simp
qed

lemma remove_char_loop_eq:
  "remove_char_loop str ch i = take i str @ remove_alternate ch (drop i str)"
proof (induction str ch i rule: remove_char_loop.induct)
  case (1 str ch i)
  show ?case
  proof (cases "i < length str")
    case True
    then have d: "drop i str = str ! i # drop (Suc i) str" by (simp add: Cons_nth_drop_Suc)
    show ?thesis
    proof (cases "str ! i = ch")
      case True': True
      let ?s = "substr 0 i str @ drop (i + 1) str"
      have IH: "remove_char_loop ?s ch (i + 1) = take (i + 1) ?s @ remove_alternate ch (drop (i + 1) ?s)"
        using 1(1) [OF True True'] .
      have "take (i + 1) ?s @ remove_alternate ch (drop (i + 1) ?s) = take i str @ remove_alternate ch (drop i str)"
        using True True' d by (cases "drop (Suc i) str") (auto simp: substr_def min_def)
      with IH True True' show ?thesis by (simp add: remove_char_loop.simps [of str ch i])
    next
      case False
      have "take i str @ [str ! i] = take (Suc i) str" using True by (simp add: take_Suc_conv_app_nth)
      moreover have "remove_alternate ch (drop i str) = str ! i # remove_alternate ch (drop (Suc i) str)"
        using False d by (cases "drop (Suc i) str") auto
      ultimately show ?thesis using 1(2) [OF True False] True False
        by (simp add: remove_char_loop.simps [of str ch i])
    qed
  qed (simp add: remove_char_loop.simps [of str ch i])
qed

text \<open>The overload of \<open>StringReplace\<close> that removes a character leaves half of every run of
  it behind: the character after a removed one is never looked at.\<close>

theorem string_remove_skips:
  "StringReplace1 str ch = remove_alternate ch str
   \<and> StringReplace1 (replicate (2 * n) ch) ch = replicate n ch"
proof
  show eq: "StringReplace1 str ch = remove_alternate ch str" for str
    by (simp add: StringReplace1_def remove_char_loop_eq)
  show "StringReplace1 (replicate (2 * n) ch) ch = replicate n ch"
    unfolding eq by (induction n) simp_all
qed

lemma slashes_back:
  "CHR ''/'' \<notin> set (SlashesToBackSlashes s)" "CHR 0x5C \<notin> set (BackSlashesToSlashes s)"
  "CHR 0x5C \<notin> set s \<Longrightarrow> BackSlashesToSlashes (SlashesToBackSlashes s) = s"
  unfolding BackSlashesToSlashes_def SlashesToBackSlashes_def fold_update_map
  by (auto simp: comp_def intro: map_idI split: if_splits)

end
