(* ===== verification/IniFiles.thy ===== *)
theory IniFiles
  imports StringUtils
begin

text \<open>
  The settings file of \<open>Utilities/IniFile.h\<close> and \<open>Utilities/IniFile.cpp\<close>: an unordered map from keys
  to values, its typed accessors, and the text form it is written to and read from. The order in
  which the unordered map is enumerated when it is written is an argument; the text of the file is
  the value the file system hands over. Floating-point values are left out.
\<close>

type_synonym ini = "string \<rightharpoonup> string"

section \<open>Numbers as text\<close>

definition digit :: "nat \<Rightarrow> char" where
  "digit d = ''0123456789'' ! d"

fun nat_text :: "nat \<Rightarrow> string" where
  "nat_text n = (if n < 10 then [digit n] else nat_text (n div 10) @ [digit (n mod 10)])"

declare nat_text.simps [simp del]

text \<open>\<open>std::to_string\<close> of an integer.\<close>

definition int_text :: "int \<Rightarrow> string" where
  "int_text v = (if v < 0 then CHR ''-'' # nat_text (nat (- v)) else nat_text (nat v))"

text \<open>\<open>std::atoi\<close>: white space, an optional sign, digits; undefined when the value does not fit an \<open>int\<close>.\<close>

definition digits_value :: "string \<Rightarrow> nat" where
  "digits_value s = fold (\<lambda>c n. 10 * n + digit_value c) s 0"

definition atoi :: "string \<Rightarrow> int res" where
  "atoi s =
    (let t = dropWhile is_space (c_str s);
         neg = (t \<noteq> [] \<and> hd t = CHR ''-'');
         u = (if t \<noteq> [] \<and> (hd t = CHR ''-'' \<or> hd t = CHR ''+'') then tl t else t);
         m = int (digits_value (takeWhile is_digit u));
         v = (if neg then - m else m)
     in if - (2 ^ 31) \<le> v \<and> v < 2 ^ 31 then ok v else fail OutOfRange)"

lemma digit_cases: "d < 10 \<Longrightarrow> d \<in> {0, 1, 2, 3, 4, 5, 6, 7, 8, 9 :: nat}"
  by auto

lemma digit_ok: "d < 10 \<Longrightarrow> is_digit (digit d) \<and> digit_value (digit d) = d \<and> \<not> is_space (digit d)
    \<and> digit d \<noteq> CHR ''-'' \<and> digit d \<noteq> CHR ''+'' \<and> digit d \<noteq> CHR 0x00"
  by (drule digit_cases) (auto simp: digit_def is_digit_def digit_value_def is_space_def)

lemma nat_text_ok: "nat_text n \<noteq> [] \<and> (\<forall>c \<in> set (nat_text n). \<exists>d < 10. c = digit d) \<and> digits_value (nat_text n) = n"
proof (induction n rule: nat_text.induct)
  case (1 n)
  show ?case
  proof (cases "n < 10")
    case True
    then show ?thesis by (auto simp: nat_text.simps [of n] digits_value_def digit_ok)
  next
    case False
    with 1 have "digits_value (nat_text (n div 10)) = n div 10" "nat_text (n div 10) \<noteq> []"
      "\<forall>c \<in> set (nat_text (n div 10)). \<exists>d < 10. c = digit d" by auto
    moreover have "digit_value (digit (n mod 10)) = n mod 10" by (simp add: digit_ok)
    moreover have "\<exists>d < 10. digit (n mod 10) = digit d" by (rule exI [of _ "n mod 10"]) simp
    ultimately show ?thesis using False
      by (auto simp: nat_text.simps [of n] digits_value_def)
  qed
qed

lemma atoi_int_text:
  assumes "- (2 ^ 31) \<le> v" and "v < 2 ^ 31"
  shows "atoi (int_text v) = Inr v"
proof -
  have nt: "c_str (nat_text n) = nat_text n" "takeWhile is_digit (nat_text n) = nat_text n"
    "dropWhile is_space (nat_text n) = nat_text n" "hd (nat_text n) \<noteq> CHR ''-''" "hd (nat_text n) \<noteq> CHR ''+''"
    "nat_text n \<noteq> []" for n
  proof -
    have *: "is_digit c \<and> \<not> is_space c \<and> c \<noteq> CHR ''-'' \<and> c \<noteq> CHR ''+'' \<and> c \<noteq> CHR 0x00" if "c \<in> set (nat_text n)" for c
    proof -
      obtain d where "d < 10" "c = digit d" using nat_text_ok [of n] \<open>c \<in> set (nat_text n)\<close> by auto
      then show ?thesis using digit_ok [of d] by simp
    qed
    show ne: "nat_text n \<noteq> []" by (simp add: nat_text_ok)
    with * [OF hd_in_set] show "hd (nat_text n) \<noteq> CHR ''-''" "hd (nat_text n) \<noteq> CHR ''+''" by auto
    show "c_str (nat_text n) = nat_text n" "takeWhile is_digit (nat_text n) = nat_text n"
      using * by (auto simp: c_str_def takeWhile_eq_all_conv)
    show "dropWhile is_space (nat_text n) = nat_text n" using * [OF hd_in_set] ne by (simp add: dropWhile_eq_self_iff)
  qed
  have val: "digits_value (nat_text n) = n" for n using nat_text_ok [of n] by blast
  have neg: "c_str (CHR ''-'' # nat_text n) = CHR ''-'' # nat_text n" "\<not> is_space CHR ''-''" for n
    using nt(1) [of n] by (auto simp: c_str_def is_space_def)
  show ?thesis
  proof (cases "v < 0")
    case True
    then show ?thesis using assms by (simp add: atoi_def int_text_def Let_def neg nt val)
  next
    case False
    then show ?thesis using assms by (simp add: atoi_def int_text_def Let_def nt val)
  qed
qed

section \<open>Access\<close>

definition IsKeyExisting :: "string \<Rightarrow> ini \<Rightarrow> bool" where
  "IsKeyExisting key d \<longleftrightarrow> d key \<noteq> None"

definition StringToBoolean :: "string \<Rightarrow> bool" where
  "StringToBoolean value \<longleftrightarrow> value \<in> {''1'', ''T'', ''t'', ''True'', ''true''}"

definition Get_bool :: "string \<Rightarrow> ini \<Rightarrow> bool" where
  "Get_bool key d = (case d key of None \<Rightarrow> False | Some v \<Rightarrow> StringToBoolean v)"

definition Get_string :: "string \<Rightarrow> ini \<Rightarrow> string" where
  "Get_string key d = (case d key of None \<Rightarrow> ''NULL'' | Some v \<Rightarrow> v)"

definition Get_int :: "string \<Rightarrow> ini \<Rightarrow> int res" where
  "Get_int key d = (case d key of None \<Rightarrow> ok 0 | Some v \<Rightarrow> atoi v)"

definition GetOrDefault :: "(string \<Rightarrow> ini \<Rightarrow> 'a) \<Rightarrow> string \<Rightarrow> 'a \<Rightarrow> ini \<Rightarrow> 'a" where
  "GetOrDefault get key defaultT d = (if IsKeyExisting key d then get key d else defaultT)"

definition bool_text :: "bool \<Rightarrow> string" where
  "bool_text b = (if b then ''true'' else ''false'')"

text \<open>\<open>value\<close> is the text the branch for the value's type produces.\<close>

definition RegisterPair :: "string \<times> string \<Rightarrow> ini \<Rightarrow> ini" where
  "RegisterPair p d = (if fst p \<in> dom d then d else d(fst p \<mapsto> snd p))"

definition Set_value :: "string \<Rightarrow> string \<Rightarrow> ini \<Rightarrow> bool \<times> ini" where
  "Set_value key value d = (if IsKeyExisting key d then (True, d(key \<mapsto> value)) else (False, d))"

definition Add_value :: "string \<Rightarrow> string \<Rightarrow> ini \<Rightarrow> bool \<times> ini" where
  "Add_value key value d = (if \<not> IsKeyExisting key d then (True, RegisterPair (key, value) d) else (False, d))"

definition SetOrAdd :: "string \<Rightarrow> string \<Rightarrow> ini \<Rightarrow> bool \<times> ini" where
  "SetOrAdd key value d = (if IsKeyExisting key d then Set_value key value d else Add_value key value d)"

definition Remove_key :: "string \<Rightarrow> ini \<Rightarrow> bool \<times> ini" where
  "Remove_key key d = (if IsKeyExisting key d then (True, d(key := None)) else (False, d))"

definition RemoveAll :: "ini \<Rightarrow> ini" where
  "RemoveAll d = Map.empty"

lemmas ini_access_defs = IsKeyExisting_def Get_bool_def Get_string_def Get_int_def GetOrDefault_def RegisterPair_def
  Set_value_def Add_value_def SetOrAdd_def Remove_key_def RemoveAll_def

text \<open>A value written with \<open>SetOrAdd\<close> is read back by the accessor of its type: every string,
  every truth value and every integer of 32 bits, whatever was stored before.\<close>

theorem set_or_add_get:
  "Get_string k (snd (SetOrAdd k v d)) = v
   \<and> Get_bool k (snd (SetOrAdd k (bool_text b) d)) = b
   \<and> Get_int k (snd (SetOrAdd k (int_text (sint (w :: 32 word))) d)) = Inr (sint w)
   \<and> fst (SetOrAdd k v d)"
proof -
  have s: "snd (SetOrAdd k v d) = d(k \<mapsto> v)" "fst (SetOrAdd k v d)" for v
    by (auto simp: ini_access_defs split: option.splits)
  have "- (2 ^ 31) \<le> sint w" "sint w < 2 ^ 31"
    using sint_ge [of w] sint_less [of w] by simp_all
  then have "atoi (int_text (sint w)) = Inr (sint w)" by (rule atoi_int_text)
  then show ?thesis unfolding s by (simp add: s(2) ini_access_defs bool_text_def StringToBoolean_def)
qed

section \<open>The text form\<close>

definition IsValidLine :: "string \<Rightarrow> bool" where
  "IsValidLine l \<longleftrightarrow> l \<noteq> [] \<and> \<not> (hd l = CHR ''#'' \<or> hd l = CHR '';'' \<or> hd l = CHR ''['')
     \<and> count_list l CHR ''='' = 1"

fun extract_loop :: "string \<Rightarrow> bool \<Rightarrow> string \<Rightarrow> string \<Rightarrow> string \<times> string" where
  "extract_loop [] in_value key value = (key, value)"
| "extract_loop (c # l) in_value key value =
    (if c = CHR ''='' then extract_loop l True key value
     else if in_value then extract_loop l in_value key (value @ [c])
     else extract_loop l in_value (key @ [c]) value)"

definition ExtractKeyAndValue :: "string \<Rightarrow> string \<times> string" where
  "ExtractKeyAndValue l = extract_loop l False [] []"

definition load_line :: "string \<Rightarrow> ini \<Rightarrow> ini" where
  "load_line line d = (if IsValidLine line
     then RegisterPair (ExtractKeyAndValue (filter (\<lambda>c. \<not> is_space c) line)) d else d)"

definition Load :: "string \<Rightarrow> ini \<Rightarrow> ini" where
  "Load fileString d = fold load_line (GetLines fileString) d"

definition Reload :: "string \<Rightarrow> ini \<Rightarrow> ini" where
  "Reload fileString d = Load fileString (RemoveAll d)"

definition ini_open :: "string \<Rightarrow> ini" where
  "ini_open fileString = Load fileString Map.empty"

text \<open>\<open>order\<close> is the order in which the unordered map enumerates its keys.\<close>

definition GetFormattedContent :: "string list \<Rightarrow> ini \<Rightarrow> string list" where
  "GetFormattedContent order d = map (\<lambda>key. key @ ''='' @ the (d key)) order"

definition Rewrite :: "string list \<Rightarrow> ini \<Rightarrow> string" where
  "Rewrite order d = concat (map (\<lambda>key. key @ ''='' @ the (d key) @ [CHR 0x0A]) order)"

lemma extract_loop_eq:
  "extract_loop l True key val = (key, val @ filter (\<lambda>c. c \<noteq> CHR ''='') l)"
  by (induction l arbitrary: val) auto

lemma extract_key_value:
  "CHR ''='' \<notin> set k \<Longrightarrow> CHR ''='' \<notin> set v \<Longrightarrow> ExtractKeyAndValue (k @ CHR ''='' # v) = (k, v)"
proof -
  assume "CHR ''='' \<notin> set k" "CHR ''='' \<notin> set v"
  then have "extract_loop (k @ CHR ''='' # v) False acc [] = (acc @ k, v)" for acc
    by (induction k arbitrary: acc) (auto simp: extract_loop_eq filter_id_conv)
  then show ?thesis by (simp add: ExtractKeyAndValue_def)
qed

text \<open>The entries the text form can carry: no white space and no equals sign inside, and a key that does
  not look like a comment or a section.\<close>

definition plain_entry :: "string \<Rightarrow> string \<Rightarrow> bool" where
  "plain_entry k v \<longleftrightarrow> list_all (\<lambda>c. \<not> is_space c \<and> c \<noteq> CHR ''='') (k @ v)
     \<and> (k = [] \<or> hd k \<notin> {CHR ''#'', CHR '';'', CHR ''[''})"

lemma load_line_plain:
  assumes "plain_entry k v"
  shows "load_line (k @ ''='' @ v) d = RegisterPair (k, v) d"
proof -
  have c: "count_list k CHR ''='' = 0" "count_list v CHR ''='' = 0" "CHR ''='' \<notin> set k" "CHR ''='' \<notin> set v"
    using assms by (auto simp: plain_entry_def list_all_iff count_list_0_iff)
  have "filter (\<lambda>c. \<not> is_space c) (k @ ''='' @ v) = k @ CHR ''='' # v"
    using assms by (auto simp: plain_entry_def list_all_iff filter_id_conv is_space_def)
  moreover have "IsValidLine (k @ ''='' @ v)"
    using assms c by (cases k) (auto simp: IsValidLine_def plain_entry_def)
  ultimately show ?thesis using c by (simp add: load_line_def extract_key_value)
qed

lemma lines_rewrite:
  assumes "list_all (\<lambda>k. plain_entry k (the (d k))) order"
  shows "GetLines (Rewrite order d) = GetFormattedContent order d"
proof -
  let ?ls = "GetFormattedContent order d"
  have "Rewrite order d = join_with CHR 0x0A ?ls"
    by (simp add: Rewrite_def join_with_def GetFormattedContent_def comp_def)
  moreover have "list_all (list_all (\<lambda>c. c \<noteq> CHR 0x0A)) ?ls"
    using assms by (auto simp: GetFormattedContent_def list_all_iff plain_entry_def is_space_def)
  ultimately show ?thesis
    by (simp add: GetLines_def SplitString_def split_loop_pieces pieces_join GetFormattedContent_def)
qed

text \<open>Property C28. Writing the settings and loading the file gives the same settings, in whatever order
  the map is enumerated, when keys and values are free of white space and equals signs and no key begins with a
  hash, a semicolon or an opening bracket (the loader drops such lines as comments and sections).\<close>

theorem rewrite_load_roundtrip:
  assumes "set order = dom d" and "distinct order" and "list_all (\<lambda>k. plain_entry k (the (d k))) order"
  shows "ini_open (Rewrite order d) = d"
proof -
  have "list_all (\<lambda>k. plain_entry k (the (d k))) ks \<Longrightarrow> distinct ks \<Longrightarrow> set ks \<inter> dom m = {} \<Longrightarrow>
      fold load_line (GetFormattedContent ks d) m = m ++ (\<lambda>k. if k \<in> set ks then Some (the (d k)) else None)" for ks m
  proof (induction ks arbitrary: m)
    case (Cons k ks)
    then have "fold load_line (GetFormattedContent (k # ks) d) m = fold load_line (GetFormattedContent ks d) (m(k \<mapsto> the (d k)))"
      using load_line_plain [of k "the (d k)" m] by (simp add: GetFormattedContent_def RegisterPair_def disjoint_iff)
    also have "\<dots> = m(k \<mapsto> the (d k)) ++ (\<lambda>k. if k \<in> set ks then Some (the (d k)) else None)"
      using Cons.prems by (intro Cons.IH) (auto split: if_splits)
    also have "\<dots> = m ++ (\<lambda>x. if x \<in> set (k # ks) then Some (the (d x)) else None)"
      using Cons.prems(2) by (auto simp: map_add_def fun_eq_iff)
    finally show ?case .
  qed (simp add: GetFormattedContent_def map_add_def fun_eq_iff)
  from this [of order Map.empty] assms have "ini_open (Rewrite order d) = (\<lambda>k. if k \<in> dom d then Some (the (d k)) else None)"
    by (simp add: ini_open_def Load_def lines_rewrite)
  also have "\<dots> = d" by (rule ext) (simp add: domIff)
  finally show ?thesis .
qed

theorem rewrite_load_roundtrip_witness:
  "ini_open (Rewrite [''w'', ''h''] [''w'' \<mapsto> ''800'', ''h'' \<mapsto> ''600'']) = [''w'' \<mapsto> ''800'', ''h'' \<mapsto> ''600'']"
  by (rule rewrite_load_roundtrip) (auto simp: plain_entry_def is_space_def)

end
