(* ===== verification/Vfs.thy ===== *)
theory Vfs
  imports StringUtils
begin

text \<open>
  The virtual file system of \<open>Core/VFS.cpp\<close>: mount points map a virtual directory to a list of
  physical directories, and paths are resolved against them. Which files and folders exist is a
  parameter (two predicates on physical paths), as are the operating system's readers and writers;
  the order in which the unordered map is enumerated is an argument of \<open>AbsoulePathToVFS\<close>.
\<close>

type_synonym mounts = "string \<rightharpoonup> string list"

definition mounted :: "mounts \<Rightarrow> string \<Rightarrow> string list" where
  "mounted m v = (case m v of None \<Rightarrow> [] | Some ps \<Rightarrow> ps)"

definition Mount :: "string \<Rightarrow> string \<Rightarrow> mounts \<Rightarrow> mounts" where
  "Mount virtualPath physicalPath m = m(virtualPath \<mapsto> mounted m virtualPath @ [physicalPath])"

definition Unmount :: "string \<Rightarrow> mounts \<Rightarrow> mounts" where
  "Unmount path m = m(path \<mapsto> [])"

text \<open>The loop over the physical directories. The result is the truth value and \<open>outPhysicalPath\<close>,
  which is \<open>None\<close> when it is left unset.\<close>

fun try_mounts :: "(string \<Rightarrow> bool) \<Rightarrow> string \<Rightarrow> string list \<Rightarrow> bool \<times> string option" where
  "try_mounts exists remainder [] = (False, None)"
| "try_mounts exists remainder (physicalPath # ps) =
    (let newPath = physicalPath @ ''/'' @ remainder
     in if exists newPath then (True, Some newPath) else try_mounts exists remainder ps)"

definition ResolvePhysicalPath ::
    "(string \<Rightarrow> bool) \<Rightarrow> (string \<Rightarrow> bool) \<Rightarrow> mounts \<Rightarrow> string \<Rightarrow> bool \<Rightarrow> (bool \<times> string option) res" where
  "ResolvePhysicalPath FolderExists FileExists m path folder =
    (let exists = (if folder then FolderExists else FileExists) in
     rbind (c_at path 0) (\<lambda>c0.
     rbind (if c0 \<noteq> CHR ''/'' then rbind (c_at path 1) (\<lambda>c1. ok (c1 \<noteq> CHR ''/'')) else ok False) (\<lambda>plain.
       if plain then ok (exists path, Some path)
       else case SplitString path ''//'' of
         [] \<Rightarrow> fail OutOfRange
       | virtualDir # dirs \<Rightarrow>
           (if m virtualDir = None \<or> mounted m virtualDir = [] then ok (exists path, Some path)
            else if length path < length virtualDir + 2 then fail OutOfRange
            else ok (try_mounts exists
                  (substr (length virtualDir + 2) (length path - length virtualDir) path)
                  (mounted m virtualDir))))))"

text \<open>Readers and writers: resolve, then call the file system, or give up.\<close>

definition vfs_ReadFile :: "(string \<Rightarrow> bool) \<Rightarrow> (string \<Rightarrow> bool) \<Rightarrow> (string \<Rightarrow> 'b) \<Rightarrow> mounts \<Rightarrow> string \<Rightarrow> 'b option res" where
  "vfs_ReadFile FolderExists FileExists read m path =
    rbind (ResolvePhysicalPath FolderExists FileExists m path False) (\<lambda>(found, p).
      ok (if found then Some (read (the p)) else None))"

text \<open>\<open>ReadTextFile\<close> converts a null pointer to \<open>std::string\<close> when the path does not resolve.\<close>

definition vfs_ReadTextFile :: "(string \<Rightarrow> bool) \<Rightarrow> (string \<Rightarrow> bool) \<Rightarrow> (string \<Rightarrow> string) \<Rightarrow> mounts \<Rightarrow> string \<Rightarrow> string res" where
  "vfs_ReadTextFile FolderExists FileExists read m path =
    rbind (ResolvePhysicalPath FolderExists FileExists m path False) (\<lambda>(found, p).
      if found then ok (read (the p)) else fail NullDeref)"

definition vfs_WriteFile :: "(string \<Rightarrow> bool) \<Rightarrow> (string \<Rightarrow> bool) \<Rightarrow> (string \<Rightarrow> 'b \<Rightarrow> bool) \<Rightarrow> mounts \<Rightarrow> string \<Rightarrow> 'b \<Rightarrow> bool res" where
  "vfs_WriteFile FolderExists FileExists write m path buffer =
    rbind (ResolvePhysicalPath FolderExists FileExists m path False) (\<lambda>(found, p).
      ok (if found then write (the p) buffer else False))"

definition AbsoulePathToVFS :: "string list \<Rightarrow> mounts \<Rightarrow> string \<Rightarrow> bool \<times> string" where
  "AbsoulePathToVFS order m path =
    (case [(key, vfsPath). key \<leftarrow> order, vfsPath \<leftarrow> mounted m key, find_sub vfsPath path \<noteq> None] of
       [] \<Rightarrow> (False, path)
     | (key, vfsPath) # rest \<Rightarrow> (True, ''//'' @ key @ drop (length vfsPath) path))"

lemma try_mounts_first:
  "try_mounts exists r ps = (case filter (\<lambda>p. exists (p @ ''/'' @ r)) ps of
     [] \<Rightarrow> (False, None) | p # qs \<Rightarrow> (True, Some (p @ ''/'' @ r)))"
  by (induction ps) (auto simp: Let_def)

lemma mounted_mount: "mounted (Mount v p m) v = mounted m v @ [p]"
  "v \<noteq> w \<Longrightarrow> mounted (Mount v p m) w = mounted m w" "mounted (Unmount v m) v = []"
  by (simp_all add: mounted_def Mount_def Unmount_def)

lemma split_virtual:
  assumes "v \<noteq> []" and "CHR ''/'' \<notin> set v"
  shows "\<exists>ds. SplitString (''//'' @ v @ CHR ''/'' # rest) ''//'' = v # ds"
proof -
  have "pieces (\<lambda>c. c \<in> set ''//'') (v @ CHR ''/'' # rest) = v # pieces (\<lambda>c. c \<in> set ''//'') rest"
    using assms(2) by (intro pieces_delim) auto
  then show ?thesis using assms(1) by (simp add: SplitString_def split_loop_pieces)
qed

text \<open>Property C30. A path \<open>//v/rest\<close> into a mounted virtual directory resolves to the first physical
  directory, in mount order, under which the file (or folder) exists; it fails exactly when there is
  none. Mounting adds a last choice and unmounting removes them all.\<close>

theorem resolve_first_mount:
  assumes "v \<noteq> []" and "CHR ''/'' \<notin> set v" and "mounted m v \<noteq> []"
  shows "ResolvePhysicalPath FolderExists FileExists m (''//'' @ v @ CHR ''/'' # rest) folder =
    Inr (case filter (\<lambda>p. (if folder then FolderExists else FileExists) (p @ ''/'' @ CHR ''/'' # rest)) (mounted m v) of
       [] \<Rightarrow> (False, None) | p # ps \<Rightarrow> (True, Some (p @ ''/'' @ CHR ''/'' # rest)))
    \<and> mounted (Mount v p m) v = mounted m v @ [p] \<and> mounted (Unmount v m) v = []"
proof -
  obtain ds where ds: "SplitString (''//'' @ v @ CHR ''/'' # rest) ''//'' = v # ds"
    using split_virtual [OF assms(1,2)] by blast
  have r: "substr (length v + 2) (length (''//'' @ v @ CHR ''/'' # rest) - length v) (''//'' @ v @ CHR ''/'' # rest)
      = CHR ''/'' # rest"
    by (simp add: substr_def)
  obtain ps where "m v = Some ps" using assms(3) by (cases "m v") (simp_all add: mounted_def)
  then show ?thesis
    using ds r assms(3) by (simp add: ResolvePhysicalPath_def Let_def c_at_def try_mounts_first mounted_mount)
qed

theorem resolve_first_mount_witness:
  "ResolvePhysicalPath (\<lambda>p. False) (\<lambda>p. p = ''b//f'') [''S'' \<mapsto> [''a'', ''b'']] ''//S/f'' False = Inr (True, Some ''b//f'')"
  using resolve_first_mount [of "''S''" "[''S'' \<mapsto> [''a'', ''b'']]" "\<lambda>p. False" "\<lambda>p. p = ''b//f''" "''f''" False]
  by (simp add: mounted_def)

text \<open>A path outside every mount is its own resolution, and a path with a single leading slash shorter
  than the directory it names makes \<open>substr\<close> throw.\<close>

lemma resolve_plain:
  "c \<noteq> CHR ''/'' \<Longrightarrow> d \<noteq> CHR ''/'' \<Longrightarrow>
    ResolvePhysicalPath FolderExists FileExists m (c # d # path) folder =
      Inr ((if folder then FolderExists else FileExists) (c # d # path), Some (c # d # path))"
  by (simp add: ResolvePhysicalPath_def Let_def c_at_def)

lemma resolve_short_throws:
  assumes "v \<noteq> []" and "CHR ''/'' \<notin> set v" and "mounted m v \<noteq> []"
  shows "ResolvePhysicalPath FolderExists FileExists m (CHR ''/'' # v) folder = Inl OutOfRange"
proof -
  have "SplitString (CHR ''/'' # v) ''//'' = [v]"
    using assms pieces_none [of v "\<lambda>c. c = CHR ''/''"] by (force simp: SplitString_def split_loop_pieces)
  moreover obtain ps where "m v = Some ps" using assms(3) by (cases "m v") (simp_all add: mounted_def)
  ultimately show ?thesis using assms(3) by (simp add: ResolvePhysicalPath_def Let_def c_at_def)
qed

lemma read_text_unresolved:
  "\<lbrakk>c \<noteq> CHR ''/''; d \<noteq> CHR ''/''; \<not> FileExists (c # d # path)\<rbrakk> \<Longrightarrow>
    vfs_ReadTextFile FolderExists FileExists read m (c # d # path) = Inl NullDeref"
  by (simp add: vfs_ReadTextFile_def resolve_plain)

text \<open>The physical directory is looked for anywhere in the path but replaced at its start:
  a path that contains it further in loses its first characters instead.\<close>

theorem absolute_path_replaces_prefix:
  "AbsoulePathToVFS [v] [v \<mapsto> [root]] (root @ rest) = (True, ''//'' @ v @ rest)
   \<and> AbsoulePathToVFS [v] [v \<mapsto> [root]] (before @ root @ rest) = (True, ''//'' @ v @ drop (length root) (before @ root @ rest))"
proof -
  have f: "find_sub root (b @ root @ rest) \<noteq> None" for b
    using find_sub_exists [of root "length b" "b @ root @ rest"] by auto
  from f [of "[]"] f [of before] show ?thesis by (auto simp: AbsoulePathToVFS_def mounted_def)
qed

end
