(* ===== verification/AStarSearch.thy ===== *)
theory AStarSearch
  imports Prelude
begin

text \<open>
  Path finding (\<open>AI/AStar.cpp\<close>, \<open>AI/PathEdge.*\<close>, \<open>AI/PathNodePriorityQueue.h\<close>). Nodes and edges are
  numbered; a \<open>QueueablePathNode\<close> is identified with the node it wraps, and \<open>m_NodeData\<close> maps the node
  to its parent and its scores. The world positions enter only through the distance of two nodes,
  which is an argument. Scores are elements of an ordered ring: rounding is not modelled. The main
  loop and the walk along the parents are partial functions whose value is \<open>None\<close> when they do not
  end.
\<close>

section \<open>Edges\<close>

record 'f edge =
  m_NodeA :: nat
  m_NodeB :: nat
  m_Traversable :: bool
  m_Weight :: 'f

record 'f graph =
  edges :: "nat \<Rightarrow> 'f edge"
  connections :: "nat \<Rightarrow> nat list"
  distance :: "nat \<Rightarrow> nat \<Rightarrow> 'f"

text \<open>The constructor enters the new edge \<open>e\<close> in the connections of both ends.\<close>

definition edge_new :: "nat \<Rightarrow> nat \<Rightarrow> nat \<Rightarrow> ('f :: linordered_idom) graph \<Rightarrow> 'f graph" where
  "edge_new e a b g =
    (let c1 = (connections g)(a := connections g a @ [e])
     in g\<lparr>edges := (edges g)(e := \<lparr>m_NodeA = a, m_NodeB = b, m_Traversable = True, m_Weight = 1\<rparr>),
          connections := c1(b := c1 b @ [e])\<rparr>)"

definition OtherNode :: "'f edge \<Rightarrow> nat \<Rightarrow> nat option" where
  "OtherNode e n = (if n = m_NodeA e then Some (m_NodeB e) else if n = m_NodeB e then Some (m_NodeA e) else None)"

definition StaticCost :: "'f graph \<Rightarrow> 'f edge \<Rightarrow> 'f" where
  "StaticCost g e = distance g (m_NodeA e) (m_NodeB e)"

definition Cost :: "('f :: linordered_idom) graph \<Rightarrow> 'f edge \<Rightarrow> 'f" where
  "Cost g e = StaticCost g e * m_Weight e"

definition HeuristicValue :: "'f graph \<Rightarrow> nat \<Rightarrow> nat \<Rightarrow> 'f" where
  "HeuristicValue g n other = distance g n other"

definition SetTraversable :: "bool \<Rightarrow> 'f edge \<Rightarrow> 'f edge" where
  "SetTraversable t e = e\<lparr>m_Traversable := t\<rparr>"

definition SetWeight :: "'f \<Rightarrow> 'f edge \<Rightarrow> 'f edge" where
  "SetWeight w e = e\<lparr>m_Weight := w\<rparr>"

text \<open>The position \<open>std::find\<close> returns: the length of the list when there is none.\<close>

definition find_pos :: "nat \<Rightarrow> nat list \<Rightarrow> nat" where
  "find_pos x xs = length (takeWhile (\<lambda>y. y \<noteq> x) xs)"

definition IsOnPath :: "'f edge \<Rightarrow> nat list \<Rightarrow> bool" where
  "IsOnPath e path =
    (let aIt = find_pos (m_NodeA e) path; bIt = find_pos (m_NodeB e) path
     in aIt \<noteq> length path \<and> bIt \<noteq> length path \<and> \<bar>int bIt - int aIt\<bar> = 1)"

definition edge_eq :: "'f edge \<Rightarrow> 'f edge \<Rightarrow> bool" where
  "edge_eq e other \<longleftrightarrow> (m_NodeA e = m_NodeA other \<and> m_NodeB e = m_NodeB other)
     \<or> (m_NodeA e = m_NodeB other \<and> m_NodeB e = m_NodeA other)"

section \<open>The search\<close>

record 'f qnode =
  Parent :: "nat option"
  fScore :: 'f
  gScore :: 'f

record 'f astar =
  m_NodeData :: "nat \<rightharpoonup> 'f qnode"
  m_OpenList :: "nat list"
  m_ClosedList :: "nat list"
  m_Path :: "nat list"

text \<open>The queue operations as they are compiled: the heap calls are commented out.\<close>

definition queue_push :: "nat \<Rightarrow> nat list \<Rightarrow> nat list" where
  "queue_push x q = q @ [x]"

definition queue_pop :: "nat list \<Rightarrow> nat list" where
  "queue_pop q = butlast q"

definition queue_top :: "nat list \<Rightarrow> nat" where
  "queue_top q = hd q"

definition qnode_new :: "'f \<Rightarrow> 'f qnode" where
  "qnode_new fmax = \<lparr>Parent = None, fScore = fmax, gScore = fmax\<rparr>"

definition astar_new :: "'f \<Rightarrow> nat list \<Rightarrow> 'f astar" where
  "astar_new fmax nodes = \<lparr>m_NodeData = (\<lambda>n. if n \<in> set nodes then Some (qnode_new fmax) else None),
     m_OpenList = [], m_ClosedList = [], m_Path = []\<rparr>"

definition astar_reset :: "'f \<Rightarrow> 'f astar \<Rightarrow> 'f astar" where
  "astar_reset fmax s = s\<lparr>m_OpenList := [], m_ClosedList := [], m_Path := [],
     m_NodeData := (\<lambda>n. map_option (\<lambda>d. qnode_new fmax) (m_NodeData s n))\<rparr>"

text \<open>The body of the loop over the connections of \<open>p\<close>. A node without data is a null pointer.\<close>

definition relax :: "('f :: linordered_idom) graph \<Rightarrow> nat \<Rightarrow> nat \<Rightarrow> nat \<Rightarrow> 'f astar \<Rightarrow> 'f astar res" where
  "relax g goal p e s =
    (if \<not> m_Traversable (edges g e) then ok s
     else case (OtherNode (edges g e) p, m_NodeData s p) of
       (Some q, Some dp) \<Rightarrow>
         (case m_NodeData s q of None \<Rightarrow> fail NullDeref
          | Some dq \<Rightarrow>
              (let g' = gScore dp + Cost g (edges g e);
                   f' = g' + HeuristicValue g q goal;
                   s' = s\<lparr>m_NodeData := (m_NodeData s)(q \<mapsto> \<lparr>Parent = Some p, fScore = f', gScore = g'\<rparr>)\<rparr>
               in if q \<in> set (m_ClosedList s) \<or> q \<in> set (m_OpenList s)
                  then ok (if gScore dq > g' then s' else s)
                  else ok (s'\<lparr>m_OpenList := queue_push q (m_OpenList s)\<rparr>)))
     | _ \<Rightarrow> fail NullDeref)"

fun relax_all :: "('f :: linordered_idom) graph \<Rightarrow> nat \<Rightarrow> nat \<Rightarrow> nat list \<Rightarrow> 'f astar \<Rightarrow> 'f astar res" where
  "relax_all g goal p [] s = ok s"
| "relax_all g goal p (e # es) s = rbind (relax g goal p e s) (relax_all g goal p es)"

partial_function (option) search_loop ::
    "('f :: linordered_idom) graph \<Rightarrow> nat \<Rightarrow> 'f astar \<Rightarrow> (bool \<times> 'f astar) res option" where
  "search_loop g goal s =
    (if m_OpenList s = [] then Some (ok (False, s))
     else let p = queue_top (m_OpenList s);
              s1 = s\<lparr>m_OpenList := queue_pop (m_OpenList s), m_ClosedList := m_ClosedList s @ [p]\<rparr>
          in if p = goal then Some (ok (True, s1))
             else case relax_all g goal p (connections g p) s1 of
               Inl f \<Rightarrow> Some (fail f)
             | Inr s2 \<Rightarrow> search_loop g goal s2)"

partial_function (option) walk_parents :: "(nat \<rightharpoonup> 'f qnode) \<Rightarrow> nat option \<Rightarrow> nat list \<Rightarrow> nat list res option" where
  "walk_parents D n path = (case n of None \<Rightarrow> Some (ok path)
     | Some k \<Rightarrow> (case D k of None \<Rightarrow> Some (fail NullDeref)
         | Some d \<Rightarrow> walk_parents D (Parent d) (path @ [k])))"

definition FindPath ::
    "('f :: linordered_idom) graph \<Rightarrow> 'f \<Rightarrow> nat \<Rightarrow> nat \<Rightarrow> 'f astar \<Rightarrow> (bool \<times> 'f astar) res option" where
  "FindPath g fmax start goal s =
    (let s0 = astar_reset fmax s in
     case m_NodeData s0 start of None \<Rightarrow> Some (fail NullDeref)
     | Some d \<Rightarrow>
         (let s1 = s0\<lparr>m_NodeData := (m_NodeData s0)(start \<mapsto>
                        d\<lparr>gScore := 0, fScore := HeuristicValue g start goal\<rparr>),
                      m_OpenList := queue_push start (m_OpenList s0)\<rparr>
          in case search_loop g goal s1 of
               None \<Rightarrow> None
             | Some (Inl f) \<Rightarrow> Some (Inl f)
             | Some (Inr (False, s2)) \<Rightarrow> Some (ok (False, s2))
             | Some (Inr (True, s2)) \<Rightarrow>
                 (case walk_parents (m_NodeData s2) (Some (last (m_ClosedList s2))) (m_Path s2) of
                    None \<Rightarrow> None
                  | Some (Inl f) \<Rightarrow> Some (Inl f)
                  | Some (Inr path) \<Rightarrow> Some (ok (True, s2\<lparr>m_Path := rev path\<rparr>)))))"

definition PathCost :: "'f astar \<Rightarrow> 'f" where
  "PathCost s = gScore (the (m_NodeData s (last (m_ClosedList s))))"

lemma other_node_involutive:
  "OtherNode e n = Some k \<Longrightarrow> OtherNode e k = Some n"
  by (auto simp: OtherNode_def split: if_splits)

section \<open>A path that is found is a path\<close>

definition positive_costs :: "('f :: linordered_idom) graph \<Rightarrow> bool" where
  "positive_costs g \<longleftrightarrow> (\<forall>e. 0 < Cost g (edges g e))"

definition linked :: "'f graph \<Rightarrow> nat \<Rightarrow> nat \<Rightarrow> bool" where
  "linked g a b \<longleftrightarrow> (\<exists>e \<in> set (connections g a). m_Traversable (edges g e) \<and> OtherNode (edges g e) a = Some b)"

fun walk :: "'f graph \<Rightarrow> nat list \<Rightarrow> bool" where
  "walk g (a # b # p) \<longleftrightarrow> linked g a b \<and> walk g (b # p)"
| "walk g p \<longleftrightarrow> True"

definition known :: "nat \<Rightarrow> (nat \<rightharpoonup> 'f qnode) \<Rightarrow> nat \<Rightarrow> bool" where
  "known start D n \<longleftrightarrow> (\<exists>d. D n = Some d \<and> (n = start \<or> Parent d \<noteq> None))"

definition parents_ok :: "('f :: linordered_idom) graph \<Rightarrow> nat \<Rightarrow> nat set \<Rightarrow> (nat \<rightharpoonup> 'f qnode) \<Rightarrow> bool" where
  "parents_ok g start C D \<longleftrightarrow> (\<exists>d. D start = Some d \<and> Parent d = None \<and> gScore d = 0)
     \<and> (\<forall>n d m. D n = Some d \<longrightarrow> Parent d = Some m \<longrightarrow>
          m \<in> C \<and> linked g m n \<and> (\<exists>dm. D m = Some dm \<and> gScore dm < gScore d \<and> 0 \<le> gScore dm))
     \<and> (\<forall>n \<in> C. known start D n)"

definition search_inv :: "('f :: linordered_idom) graph \<Rightarrow> nat \<Rightarrow> 'f astar \<Rightarrow> bool" where
  "search_inv g start s \<longleftrightarrow> parents_ok g start (set (m_ClosedList s)) (m_NodeData s)
     \<and> (\<forall>n \<in> set (m_OpenList s). known start (m_NodeData s) n)
     \<and> (m_OpenList s = [start] \<or> start \<in> set (m_ClosedList s)) \<and> m_Path s = []"

lemma parents_okD:
  assumes "parents_ok g start C D"
  shows "\<exists>d. D start = Some d \<and> Parent d = None \<and> gScore d = 0"
    and "D n = Some d \<Longrightarrow> Parent d = Some m \<Longrightarrow>
          m \<in> C \<and> linked g m n \<and> (\<exists>dm. D m = Some dm \<and> gScore dm < gScore d \<and> 0 \<le> gScore dm)"
    and "n \<in> C \<Longrightarrow> known start D n"
  using assms unfolding parents_ok_def by blast+

lemma known_nonneg:
  assumes "parents_ok g start C D" and "known start D n" and "D n = Some d"
  shows "0 \<le> gScore d"
proof (cases "Parent d")
  case None
  with assms parents_okD(1) [OF assms(1)] show ?thesis by (auto simp: known_def)
next
  case (Some m)
  with parents_okD(2) [OF assms(1,3), of m] show ?thesis by auto
qed

text \<open>Giving \<open>q\<close> the new parent \<open>p\<close>: either \<open>q\<close> has no children yet, or its score went down.\<close>

lemma parents_ok_update:
  assumes ok: "parents_ok g start C D" and p: "p \<in> C" "D p = Some dp" and l: "linked g p q"
    and sc: "gScore dp < g'" and q: "q \<noteq> start" and dq: "D q = Some dq" "q \<in> C \<Longrightarrow> g' < gScore dq"
  shows "parents_ok g start C (D(q \<mapsto> \<lparr>Parent = Some p, fScore = f', gScore = g'\<rparr>))"
proof -
  let ?D = "D(q \<mapsto> \<lparr>Parent = Some p, fScore = f', gScore = g'\<rparr>)"
  have nn: "0 \<le> gScore dp" by (rule known_nonneg [OF ok parents_okD(3) [OF ok p(1)] p(2)])
  have pq: "p \<noteq> q"
  proof
    assume "p = q"
    then show False using dq p sc by auto
  qed
  have "\<exists>d. ?D start = Some d \<and> Parent d = None \<and> gScore d = 0" using parents_okD(1) [OF ok] q by auto
  moreover have "m \<in> C \<and> linked g m n \<and> (\<exists>dm. ?D m = Some dm \<and> gScore dm < gScore d \<and> 0 \<le> gScore dm)"
    if n: "?D n = Some d" "Parent d = Some m" for n d m
  proof (cases "n = q")
    case True
    with n p l sc nn pq show ?thesis by auto
  next
    case False
    with n parents_okD(2) [OF ok, of n d m] obtain dm where
      m: "m \<in> C" "linked g m n" "D m = Some dm" "gScore dm < gScore d" "0 \<le> gScore dm" by auto
    show ?thesis
    proof (cases "m = q")
      case True
      with m dq have "g' < gScore d" by auto
      with True m sc nn show ?thesis by auto
    qed (use m in auto)
  qed
  moreover have "known start ?D n" if "n \<in> C" for n
    using parents_okD(3) [OF ok that] by (auto simp: known_def)
  ultimately show ?thesis unfolding parents_ok_def by blast
qed

lemma relax_inv [inv_pres]:
  assumes pos: "positive_costs g" and inv: "search_inv g start s" and sC: "start \<in> set (m_ClosedList s)"
    and p: "p \<in> set (m_ClosedList s)" and e: "e \<in> set (connections g p)"
    and r: "relax g goal p e s = Inr s'"
  shows "search_inv g start s' \<and> m_ClosedList s' = m_ClosedList s"
proof (cases "m_Traversable (edges g e)")
  case False
  with r inv show ?thesis by (simp add: relax_def)
next
  case T: True
  let ?C = "set (m_ClosedList s)" and ?D = "m_NodeData s"
  have ok: "parents_ok g start ?C ?D" using inv by (simp add: search_inv_def)
  obtain q dp dq where q: "OtherNode (edges g e) p = Some q" "?D p = Some dp" "?D q = Some dq"
    using r T by (auto simp: relax_def split: option.splits)
  let ?g = "gScore dp + Cost g (edges g e)"
  let ?d = "\<lparr>Parent = Some p, fScore = ?g + HeuristicValue g q goal, gScore = ?g\<rparr>"
  have l: "linked g p q" using q e T by (auto simp: linked_def)
  have sc: "gScore dp < ?g" using pos by (simp add: positive_costs_def)
  have nn: "0 \<le> gScore dp" by (rule known_nonneg [OF ok parents_okD(3) [OF ok p] q(2)])
  obtain ds where ds: "?D start = Some ds" "gScore ds = 0" using parents_okD(1) [OF ok] by auto
  have upd: "parents_ok g start ?C (?D(q \<mapsto> ?d))" if "q \<noteq> start" "q \<in> ?C \<Longrightarrow> ?g < gScore dq"
    using parents_ok_update [OF ok p q(2) l sc that(1) q(3) that(2)] .
  have kn: "known start (?D(q \<mapsto> ?d)) n" if "known start ?D n" for n using that by (auto simp: known_def)
  have kq: "known start (?D(q \<mapsto> ?d)) q" by (simp add: known_def)
  show ?thesis
  proof (cases "q \<in> ?C \<or> q \<in> set (m_OpenList s)")
    case True
    show ?thesis
    proof (cases "?g < gScore dq")
      case less: True
      have qs: "q \<noteq> start"
      proof
        assume "q = start"
        then show False using ds q(3) less sc nn by simp
      qed
      from upd [OF qs less] qs True less T q r inv show ?thesis
        by (auto simp: relax_def Let_def search_inv_def kn)
    qed (use True T q r inv in \<open>auto simp: relax_def Let_def\<close>)
  next
    case False
    then have "q \<noteq> start" using sC by auto
    from upd [OF this] False T q r inv sC show ?thesis
      by (auto simp: relax_def Let_def search_inv_def queue_push_def kn kq)
  qed
qed

lemma relax_all_inv [inv_pres]:
  assumes pos: "positive_costs g" and "search_inv g start s" and "start \<in> set (m_ClosedList s)"
    and "p \<in> set (m_ClosedList s)" and "set es \<subseteq> set (connections g p)" and "relax_all g goal p es s = Inr s'"
  shows "search_inv g start s' \<and> m_ClosedList s' = m_ClosedList s"
  using assms(2-)
proof (induction es arbitrary: s)
  case (Cons e es)
  then obtain s1 where s1: "relax g goal p e s = Inr s1" "relax_all g goal p es s1 = Inr s'"
    by (auto simp: rbind_eq_Inr)
  with relax_inv [OF pos Cons.prems(1-3) _ s1(1)] Cons.prems have "search_inv g start s1" "m_ClosedList s1 = m_ClosedList s"
    by auto
  with Cons.IH [of s1] Cons.prems s1(2) show ?case by auto
qed simp

lemma search_loop_inv:
  assumes pos: "positive_costs g" and r: "search_loop g goal s = Some (Inr (True, s'))" and inv: "search_inv g start s"
  shows "parents_ok g start (set (m_ClosedList s')) (m_NodeData s') \<and> m_ClosedList s' \<noteq> []
    \<and> last (m_ClosedList s') = goal \<and> m_Path s' = []"
proof -
  let ?Q = "\<lambda>s'. parents_ok g start (set (m_ClosedList s')) (m_NodeData s') \<and> m_ClosedList s' \<noteq> []
    \<and> last (m_ClosedList s') = goal \<and> m_Path s' = []"
  let ?P = "\<lambda>g' goal' s (u :: (bool \<times> 'a astar) res). g' = g \<longrightarrow> goal' = goal \<longrightarrow> search_inv g start s \<longrightarrow> (case u of Inr (True, s') \<Rightarrow> ?Q s' | _ \<Rightarrow> True)"
  have "?P g goal s (Inr (True, s'))"
  proof (rule search_loop.raw_induct [where P = ?P, OF _ r], intro impI)
    fix f :: "'a graph \<Rightarrow> nat \<Rightarrow> 'a astar \<Rightarrow> (bool \<times> 'a astar) res option" and g' goal' s u
    assume IH: "\<And>g goal s u. f g goal s = Some u \<Longrightarrow> ?P g goal s u"
      and eq: "(if m_OpenList s = [] then Some (ok (False, s))
       else let p = queue_top (m_OpenList s);
              s1 = s\<lparr>m_OpenList := queue_pop (m_OpenList s), m_ClosedList := m_ClosedList s @ [p]\<rparr>
          in if p = goal' then Some (ok (True, s1))
             else case relax_all g' goal' p (connections g' p) s1 of
               Inl f \<Rightarrow> Some (fail f) | Inr s2 \<Rightarrow> f g' goal' s2) = Some u"
      and g': "g' = g" "goal' = goal" and inv: "search_inv g start s"
    let ?p = "queue_top (m_OpenList s)"
    let ?s1 = "s\<lparr>m_OpenList := queue_pop (m_OpenList s), m_ClosedList := m_ClosedList s @ [?p]\<rparr>"
    show "case u of Inr (True, s') \<Rightarrow> ?Q s' | _ \<Rightarrow> True"
    proof (cases "m_OpenList s = []")
      case True
      with eq show ?thesis by auto
    next
      case False
      have kp: "known start (m_NodeData s) ?p" using inv False by (simp add: search_inv_def queue_top_def)
      have po: "parents_ok g start (set (m_ClosedList ?s1)) (m_NodeData ?s1)"
        using inv kp unfolding search_inv_def parents_ok_def by auto
      have sC: "start \<in> set (m_ClosedList ?s1)" using inv by (auto simp: search_inv_def queue_top_def)
      have inv1: "search_inv g start ?s1"
        using inv po sC by (auto simp: search_inv_def queue_pop_def dest: in_set_butlastD)
      show ?thesis
      proof (cases "?p = goal")
        case True
        with eq False g' po inv show ?thesis by (auto simp: Let_def search_inv_def)
      next
        case np: False
        show ?thesis
        proof (cases "relax_all g goal ?p (connections g ?p) ?s1")
          case (Inl e)
          with eq False np g' show ?thesis by (auto simp: Let_def)
        next
          case (Inr s2)
          with eq False np g' have "f g goal s2 = Some u" by (simp add: Let_def)
          moreover have "search_inv g start s2" using relax_all_inv [OF pos inv1 sC _ _ Inr] by simp
          ultimately show ?thesis using IH [of g goal s2 u] by simp
        qed
      qed
    qed
  qed
  with inv show ?thesis by simp
qed

lemma walk_snoc: "walk g (xs @ [a]) \<Longrightarrow> linked g a b \<Longrightarrow> walk g (xs @ [a, b])"
  by (induction xs rule: induct_list012) auto

lemma walk_parents_path:
  assumes po: "parents_ok g start C D" and r: "walk_parents D (Some n) [] = Some (Inr path)" and kn: "known start D n"
  shows "walk g (rev path) \<and> path \<noteq> [] \<and> hd path = n \<and> last path = start"
proof -
  let ?P = "\<lambda>D' no acc (u :: nat list res). D' = D \<longrightarrow> (case u of Inl f \<Rightarrow> True | Inr path \<Rightarrow>
     (case no of None \<Rightarrow> path = acc
      | Some n \<Rightarrow> known start D n \<longrightarrow> (\<exists>q. path = acc @ q \<and> q \<noteq> [] \<and> hd q = n \<and> last q = start \<and> walk g (rev q))))"
  have "?P D (Some n) [] (Inr path)"
  proof (rule walk_parents.raw_induct [where P = ?P, OF _ r], intro impI)
    fix f :: "(nat \<rightharpoonup> 'a qnode) \<Rightarrow> nat option \<Rightarrow> nat list \<Rightarrow> nat list res option" and D' no acc u
    assume IH: "\<And>D' no acc u. f D' no acc = Some u \<Longrightarrow> ?P D' no acc u" and D': "D' = D"
      and eq: "(case no of None \<Rightarrow> Some (ok acc) | Some k \<Rightarrow> (case D' k of None \<Rightarrow> Some (fail NullDeref)
         | Some d \<Rightarrow> f D' (Parent d) (acc @ [k]))) = Some u"
    show "case u of Inl f \<Rightarrow> True | Inr path \<Rightarrow> (case no of None \<Rightarrow> path = acc
      | Some n \<Rightarrow> known start D n \<longrightarrow> (\<exists>q. path = acc @ q \<and> q \<noteq> [] \<and> hd q = n \<and> last q = start \<and> walk g (rev q)))"
    proof (cases no)
      case None
      with eq show ?thesis by auto
    next
      case (Some k)
      show ?thesis
      proof (cases "D k")
        case None
        with eq Some D' show ?thesis by auto
      next
        case d: (Some d)
        with eq Some D' have fe: "f D (Parent d) (acc @ [k]) = Some u" by simp
        have "\<exists>q. path = acc @ q \<and> q \<noteq> [] \<and> hd q = k \<and> last q = start \<and> walk g (rev q)"
          if u: "u = Inr path" and k: "known start D k" for path
        proof (cases "Parent d")
          case None
          with IH [OF fe] u have "path = acc @ [k]" by simp
          moreover have "k = start" using k d None by (auto simp: known_def)
          ultimately show ?thesis by auto
        next
          case (Some m)
          note pm = parents_okD(2) [OF po d Some]
          then have "known start D m" using parents_okD(3) [OF po] by simp
          with IH [OF fe] u Some obtain q where
            q: "path = (acc @ [k]) @ q" "q \<noteq> []" "hd q = m" "last q = start" "walk g (rev q)" by auto
          have "walk g (rev (k # q))"
            using walk_snoc [of g "rev (tl q)" m k] q pm by (cases q) auto
          with q show ?thesis by (intro exI [of _ "k # q"]) auto
        qed
        with Some show ?thesis by (auto split: sum.splits)
      qed
    qed
  qed
  with kn show ?thesis by auto
qed

text \<open>Property C31. When \<open>FindPath\<close> answers true, the path it leaves leads from the start to the goal, and
  consecutive nodes are joined by traversable edges, provided every edge has a positive cost.\<close>

theorem found_path_is_path:
  assumes pos: "positive_costs g" and r: "FindPath g fmax start goal s = Some (Inr (True, s'))"
  shows "m_Path s' \<noteq> [] \<and> hd (m_Path s') = start \<and> last (m_Path s') = goal \<and> walk g (m_Path s')"
proof -
  let ?s0 = "astar_reset fmax s"
  obtain d where d: "m_NodeData ?s0 start = Some d"
    using r by (auto simp: FindPath_def Let_def split: option.splits)
  let ?s1 = "?s0\<lparr>m_NodeData := (m_NodeData ?s0)(start \<mapsto> d\<lparr>gScore := 0, fScore := HeuristicValue g start goal\<rparr>),
    m_OpenList := queue_push start (m_OpenList ?s0)\<rparr>"
  obtain s2 path where s2: "search_loop g goal ?s1 = Some (Inr (True, s2))"
    and w: "walk_parents (m_NodeData s2) (Some (last (m_ClosedList s2))) (m_Path s2) = Some (Inr path)"
    and s': "s' = s2\<lparr>m_Path := rev path\<rparr>"
    using r d by (auto simp: FindPath_def Let_def split: option.splits sum.splits prod.splits bool.splits)
  have "Parent d = None" and none: "m_NodeData ?s0 n = Some e \<Longrightarrow> Parent e = None" for n e
    using d by (auto simp: astar_reset_def qnode_new_def)
  then have "search_inv g start ?s1"
    by (auto simp: search_inv_def parents_ok_def known_def astar_reset_def queue_push_def qnode_new_def split: if_splits)
  from search_loop_inv [OF pos s2 this] have
    po: "parents_ok g start (set (m_ClosedList s2)) (m_NodeData s2)" and cl: "m_ClosedList s2 \<noteq> []"
    "last (m_ClosedList s2) = goal" "m_Path s2 = []" by auto
  have "known start (m_NodeData s2) goal" using parents_okD(3) [OF po] cl by (metis last_in_set)
  from walk_parents_path [OF po _ this, of path] w cl s' show ?thesis
    by (simp add: hd_rev last_rev)
qed

text \<open>Two nodes and the edge between them, built by the constructor.\<close>

definition no_edges :: "int graph" where
  "no_edges = \<lparr>edges = (\<lambda>e. \<lparr>m_NodeA = 0, m_NodeB = 0, m_Traversable = True, m_Weight = 1\<rparr>),
     connections = (\<lambda>n. []), distance = (\<lambda>a b. 1)\<rparr>"

definition pair_graph :: "int graph" where
  "pair_graph = edge_new 0 0 1 no_edges"

lemma find_path_pair: "FindPath pair_graph 100 0 1 (astar_new 100 [0, 1]) =
   Some (Inr (True, \<lparr>m_NodeData = [0 \<mapsto> \<lparr>Parent = None, fScore = 1, gScore = 0\<rparr>,
       1 \<mapsto> \<lparr>Parent = Some 0, fScore = 2, gScore = 1\<rparr>],
     m_OpenList = [], m_ClosedList = [0, 1], m_Path = [0, 1]\<rparr>))"
  by (simp add: FindPath_def Let_def astar_reset_def astar_new_def qnode_new_def queue_push_def queue_top_def
      queue_pop_def search_loop.simps walk_parents.simps relax_def pair_graph_def edge_new_def no_edges_def
      OtherNode_def Cost_def StaticCost_def HeuristicValue_def fun_eq_iff)

theorem found_path_is_path_witness:
  "walk pair_graph [0, 1] \<and> hd [0, 1 :: nat] = 0"
proof -
  have "positive_costs pair_graph"
    by (simp add: positive_costs_def pair_graph_def edge_new_def no_edges_def Cost_def StaticCost_def)
  from found_path_is_path [OF this find_path_pair] show ?thesis by simp
qed

section \<open>The queue drops nodes\<close>

text \<open>A triangle with sides of length one: the goal is a neighbour of the start.\<close>

definition triangle :: "int graph" where
  "triangle = edge_new 2 1 2 (edge_new 1 0 2 (edge_new 0 0 1 no_edges))"

lemma triangle_simps:
  "connections triangle 0 = [0, 1]" "connections triangle (Suc 0) = [0, 2]"
  "edges triangle 0 = \<lparr>m_NodeA = 0, m_NodeB = 1, m_Traversable = True, m_Weight = 1\<rparr>"
  "edges triangle (Suc 0) = \<lparr>m_NodeA = 0, m_NodeB = 2, m_Traversable = True, m_Weight = 1\<rparr>"
  "edges triangle 2 = \<lparr>m_NodeA = 1, m_NodeB = 2, m_Traversable = True, m_Weight = 1\<rparr>"
  "distance triangle a b = 1"
  by (simp_all add: triangle_def edge_new_def no_edges_def)

text \<open>The states the search passes through for ever: node 1 stays at the front, node 2 is dropped and
  pushed again.\<close>

definition stuck :: "int astar \<Rightarrow> bool" where
  "stuck s \<longleftrightarrow> m_OpenList s = [1, 2] \<and> 0 \<in> set (m_ClosedList s) \<and> 2 \<notin> set (m_ClosedList s)
     \<and> (\<exists>d0 d1 d2. m_NodeData s 0 = Some d0 \<and> m_NodeData s 1 = Some d1 \<and> m_NodeData s 2 = Some d2
          \<and> gScore d0 = 0 \<and> gScore d1 = 1)"

lemma stuck_step:
  assumes "stuck s"
  shows "\<exists>s2. relax_all triangle 2 (Suc 0) (connections triangle (Suc 0))
      (s\<lparr>m_OpenList := [1], m_ClosedList := m_ClosedList s @ [1]\<rparr>) = Inr s2 \<and> stuck s2"
proof -
  from assms obtain d0 d1 d2 where d: "m_NodeData s 0 = Some d0" "m_NodeData s (Suc 0) = Some d1"
    "m_NodeData s 2 = Some d2" "gScore d0 = 0" "gScore d1 = 1" by (auto simp: stuck_def)
  with assms show ?thesis
    by (simp add: stuck_def relax_def triangle_simps OtherNode_def Let_def Cost_def StaticCost_def queue_push_def)
qed

lemma stuck_diverges: "stuck s \<Longrightarrow> search_loop triangle 2 s = None"
proof -
  let ?P = "\<lambda>g goal s (u :: (bool \<times> int astar) res). \<not> (g = triangle \<and> goal = 2 \<and> stuck s)"
  have "?P g goal s u" if r: "search_loop g goal s = Some u" for g goal s u
  proof (rule search_loop.raw_induct [where P = ?P, OF _ r])
    fix f :: "int graph \<Rightarrow> nat \<Rightarrow> int astar \<Rightarrow> (bool \<times> int astar) res option" and g goal s u
    assume IH: "\<And>g goal s u. f g goal s = Some u \<Longrightarrow> ?P g goal s u"
      and eq: "(if m_OpenList s = [] then Some (ok (False, s))
       else let p = queue_top (m_OpenList s);
              s1 = s\<lparr>m_OpenList := queue_pop (m_OpenList s), m_ClosedList := m_ClosedList s @ [p]\<rparr>
          in if p = goal then Some (ok (True, s1))
             else case relax_all g goal p (connections g p) s1 of
               Inl f \<Rightarrow> Some (fail f) | Inr s2 \<Rightarrow> f g goal s2) = Some u"
    show "?P g goal s u"
    proof
      assume a: "g = triangle \<and> goal = 2 \<and> stuck s"
      then obtain s2 where s2: "relax_all triangle 2 (Suc 0) (connections triangle (Suc 0))
          (s\<lparr>m_OpenList := [1], m_ClosedList := m_ClosedList s @ [1]\<rparr>) = Inr s2" "stuck s2"
        using stuck_step by blast
      have "m_OpenList s = [1, 2]" using a by (simp add: stuck_def)
      with a eq s2(1) have "f triangle 2 s2 = Some u"
        by (simp add: Let_def queue_top_def queue_pop_def)
      from IH [OF this] s2(2) show False by simp
    qed
  qed
  then show "stuck s \<Longrightarrow> search_loop triangle 2 s = None" by (cases "search_loop triangle 2 s") auto
qed

text \<open>Property C33. With the heap operations commented out, \<open>Top\<close> looks at the first element while \<open>Pop\<close>
  removes the last: on a triangle, \<open>FindPath\<close> from a node to its neighbour never returns.\<close>

theorem find_path_triangle_diverges:
  "FindPath triangle fmax 0 2 (astar_new fmax [0, 1, 2]) = None"
proof -
  let ?s0 = "(astar_reset fmax (astar_new fmax [0, 1, 2]) :: int astar)"
  let ?s1 = "?s0\<lparr>m_NodeData := (m_NodeData ?s0)(0 \<mapsto> \<lparr>Parent = None, fScore = 1, gScore = 0\<rparr>), m_OpenList := [0]\<rparr>"
  obtain s2 where s2: "relax_all triangle 2 0 (connections triangle 0)
      (?s1\<lparr>m_OpenList := [], m_ClosedList := [0]\<rparr>) = Inr s2" "stuck s2"
    by (simp add: stuck_def relax_def triangle_simps OtherNode_def Let_def Cost_def StaticCost_def queue_push_def
        astar_reset_def astar_new_def)
  have "search_loop triangle 2 ?s1 = None"
    by (subst search_loop.simps)
      (use s2 in \<open>simp add: queue_top_def queue_pop_def Let_def stuck_diverges astar_reset_def astar_new_def\<close>)
  then show ?thesis
    by (simp add: FindPath_def Let_def astar_reset_def astar_new_def qnode_new_def queue_push_def
        HeuristicValue_def triangle_simps)
qed

end
