(* ===== verification/SceneHierarchy.thy ===== *)
theory SceneHierarchy
  imports Prelude
begin

text \<open>
  The scene graph (\<open>Scene/SceneGraph.*\<close>, \<open>Scene/Entity.h\<close>, \<open>Maths/Transform.cpp\<close>): entities carry a
  \<open>Hierarchy\<close> component with the parent, the first child and the two sibling pointers, kept in order
  by the callbacks of the registry. The registry is a map from entities to components together with
  the set of valid entities; \<open>entt::null\<close> is \<open>None\<close>. Walks along pointers are partial functions.
  The invariant says that the children of every entity form a doubly linked list and that the
  parents form a forest.
\<close>

type_synonym entity = nat

record hierarchy =
  h_Parent :: "entity option"
  h_First :: "entity option"
  h_Next :: "entity option"
  h_Prev :: "entity option"

type_synonym hmap = "entity \<rightharpoonup> hierarchy"

definition hierarchy_empty :: hierarchy where
  "hierarchy_empty = \<lparr>h_Parent = None, h_First = None, h_Next = None, h_Prev = None\<rparr>"

definition hierarchy_of_parent :: "entity option \<Rightarrow> hierarchy" where
  "hierarchy_of_parent p = \<lparr>h_Parent = p, h_First = None, h_Next = None, h_Prev = None\<rparr>"

definition hierarchy_reset :: "hierarchy \<Rightarrow> hierarchy" where
  "hierarchy_reset h = h\<lparr>h_Parent := None, h_First := None, h_Next := None, h_Prev := None\<rparr>"

text \<open>Change a component through a pointer that \<open>try_get\<close> returned, if it is not null.\<close>

definition upd_h :: "entity option \<Rightarrow> (hierarchy \<Rightarrow> hierarchy) \<Rightarrow> hmap \<Rightarrow> hmap" where
  "upd_h n f H = (case n of None \<Rightarrow> H | Some x \<Rightarrow> (case H x of None \<Rightarrow> H | Some h \<Rightarrow> H(x \<mapsto> f h)))"

section \<open>The registry callbacks\<close>

partial_function (option) last_sibling :: "hmap \<Rightarrow> entity \<Rightarrow> entity option" where
  "last_sibling H prev_ent = (case H prev_ent of None \<Rightarrow> Some prev_ent
     | Some h \<Rightarrow> (case h_Next h of None \<Rightarrow> Some prev_ent | Some n \<Rightarrow> last_sibling H n))"

definition OnConstruct :: "entity \<Rightarrow> hmap \<Rightarrow> hmap res option" where
  "OnConstruct entity H = (case H entity of None \<Rightarrow> Some (fail NullDeref)
     | Some h \<Rightarrow>
       (case h_Parent h of None \<Rightarrow> Some (ok H)
        | Some p \<Rightarrow>
          (let H1 = (if H p = None then H(p \<mapsto> hierarchy_empty) else H);
               ph = the (H1 p)
           in case h_First ph of
                None \<Rightarrow> Some (ok (H1(p \<mapsto> ph\<lparr>h_First := Some entity\<rparr>)))
              | Some first \<Rightarrow>
                 (case last_sibling H1 first of None \<Rightarrow> None
                  | Some prev_ent \<Rightarrow>
                     (case H1 prev_ent of None \<Rightarrow> Some (fail NullDeref)
                      | Some c \<Rightarrow>
                         Some (ok (upd_h (Some entity) (\<lambda>h. h\<lparr>h_Prev := Some prev_ent\<rparr>)
                                (H1(prev_ent \<mapsto> c\<lparr>h_Next := Some entity\<rparr>)))))))))"

definition OnUpdate :: "entity \<Rightarrow> hmap \<Rightarrow> hmap res" where
  "OnUpdate entity H = (case H entity of None \<Rightarrow> fail NullDeref
     | Some h \<Rightarrow>
       ok (if h_Prev h = None then
             (case h_Parent h of None \<Rightarrow> H
              | Some p \<Rightarrow> (case H p of None \<Rightarrow> H
                  | Some ph \<Rightarrow> upd_h (h_Next h) (\<lambda>n. n\<lparr>h_Prev := None\<rparr>) (H(p \<mapsto> ph\<lparr>h_First := h_Next h\<rparr>))))
           else upd_h (h_Next h) (\<lambda>n. n\<lparr>h_Prev := h_Prev h\<rparr>) (upd_h (h_Prev h) (\<lambda>p. p\<lparr>h_Next := h_Next h\<rparr>) H)))"

text \<open>The same with the validity tests of \<open>OnDestroy\<close>.\<close>

definition OnDestroy :: "entity set \<Rightarrow> entity \<Rightarrow> hmap \<Rightarrow> hmap res" where
  "OnDestroy valid entity H = (case H entity of None \<Rightarrow> fail NullDeref
     | Some h \<Rightarrow>
       ok (if h_Prev h = None \<or> the (h_Prev h) \<notin> valid then
             (case h_Parent h of None \<Rightarrow> H
              | Some p \<Rightarrow>
                 (if p \<notin> valid then H
                  else case H p of None \<Rightarrow> H
                  | Some ph \<Rightarrow> upd_h (h_Next h) (\<lambda>n. n\<lparr>h_Prev := None\<rparr>) (H(p \<mapsto> ph\<lparr>h_First := h_Next h\<rparr>))))
           else upd_h (h_Next h) (\<lambda>n. n\<lparr>h_Prev := h_Prev h\<rparr>) (upd_h (h_Prev h) (\<lambda>p. p\<lparr>h_Next := h_Next h\<rparr>) H)))"

definition Reparent :: "entity set \<Rightarrow> entity \<Rightarrow> entity option \<Rightarrow> hmap \<Rightarrow> hmap res option" where
  "Reparent valid entity parent H = (case OnDestroy valid entity H of
     Inl f \<Rightarrow> Some (Inl f)
   | Inr H1 \<Rightarrow>
       (let H2 = upd_h (Some entity) (\<lambda>h. h\<lparr>h_Parent := None, h_Next := None, h_Prev := None\<rparr>) H1
        in if parent \<noteq> None then OnConstruct entity (upd_h (Some entity) (\<lambda>h. h\<lparr>h_Parent := parent\<rparr>) H2)
           else Some (ok H2)))"

text \<open>\<open>registry.destroy\<close>: the callback runs while the entity is still valid, then the component goes.\<close>

definition destroy_entity :: "entity \<Rightarrow> entity set \<times> hmap \<Rightarrow> (entity set \<times> hmap) res" where
  "destroy_entity e s = (case s of (valid, H) \<Rightarrow>
     rbind (if H e = None then ok H else OnDestroy valid e H) (\<lambda>H1. ok (valid - {e}, H1(e := None))))"

section \<open>Entities\<close>

partial_function (option) ancestor_loop :: "hmap \<Rightarrow> entity option \<Rightarrow> entity \<Rightarrow> bool option" where
  "ancestor_loop H parent potentialParent = (case parent of None \<Rightarrow> Some False
     | Some p \<Rightarrow> if p = potentialParent then Some True
         else ancestor_loop H (case H p of None \<Rightarrow> None | Some h \<Rightarrow> h_Parent h) potentialParent)"

definition IsParent :: "hmap \<Rightarrow> entity \<Rightarrow> entity \<Rightarrow> bool option" where
  "IsParent H this potentialParent = (case H this of None \<Rightarrow> Some False
     | Some h \<Rightarrow> ancestor_loop H (h_Parent h) potentialParent)"

definition SetParent :: "entity set \<Rightarrow> entity \<Rightarrow> entity \<Rightarrow> hmap \<Rightarrow> hmap res option" where
  "SetParent valid this entity H = (case H this of
     Some h \<Rightarrow>
       (if entity = this then Some (ok H)
        else case IsParent H entity this of
          None \<Rightarrow> None
        | Some isAbove \<Rightarrow>
            (if \<not> isAbove \<and> h_Parent h \<noteq> Some this then Reparent valid this (Some entity) H else Some (ok H)))
   | None \<Rightarrow>
       (if entity = this then Some (ok H)
        else OnConstruct this (H(this \<mapsto> hierarchy_of_parent (Some entity)))))"

definition GetParent :: "hmap \<Rightarrow> entity \<Rightarrow> entity option" where
  "GetParent H this = (case H this of None \<Rightarrow> None | Some h \<Rightarrow> h_Parent h)"

partial_function (option) children_loop :: "entity set \<Rightarrow> hmap \<Rightarrow> entity option \<Rightarrow> entity list option" where
  "children_loop valid H child = (case child of None \<Rightarrow> Some []
     | Some c \<Rightarrow> if c \<notin> valid then Some []
         else Option.bind (children_loop valid H (case H c of None \<Rightarrow> Some c | Some h \<Rightarrow> h_Next h)) (\<lambda>cs. Some (c # cs)))"

definition GetChildren :: "entity set \<Rightarrow> hmap \<Rightarrow> entity \<Rightarrow> entity list option" where
  "GetChildren valid H this = (case H this of None \<Rightarrow> Some [] | Some h \<Rightarrow> children_loop valid H (h_First h))"

text \<open>\<open>Compare\<close>, which nothing calls any more: \<open>registry.get\<close> needs the component to be there.\<close>

partial_function (option) Compare :: "hmap \<Rightarrow> hierarchy \<Rightarrow> entity option \<Rightarrow> bool res option" where
  "Compare H h rhs =
    (if rhs = None \<or> rhs = h_Parent h \<or> rhs = h_Prev h then Some (ok True)
     else case h_Parent h of None \<Rightarrow> Some (ok False)
     | Some p \<Rightarrow> (case (H p, H (the rhs)) of
         (Some ph, Some rh) \<Rightarrow> Compare H ph (h_Parent rh)
       | _ \<Rightarrow> Some (fail NullDeref)))"

text \<open>\<open>DeleteChildren\<close>: after \<open>registry.destroy(child)\<close> the pointer to its component dangles.\<close>

partial_function (option) delete_loop ::
    "entity option \<Rightarrow> entity set \<times> hmap \<Rightarrow> (entity set \<times> hmap) res option" where
  "delete_loop child s = (case child of None \<Rightarrow> Some (ok s)
     | Some c \<Rightarrow>
        Option.bind (case snd s c of None \<Rightarrow> Some (ok s) | Some h \<Rightarrow> delete_loop (h_First h) s) (\<lambda>r.
          case r of
            Inl f \<Rightarrow> Some (Inl f)
          | Inr s1 \<Rightarrow>
             (case destroy_entity c s1 of
                Inl f \<Rightarrow> Some (Inl f)
              | Inr s2 \<Rightarrow> (case snd s1 c of Some h \<Rightarrow> Some (fail UseAfterFree)
                  | None \<Rightarrow> delete_loop (Some c) s2))))"

definition DeleteChildren :: "entity \<Rightarrow> entity set \<times> hmap \<Rightarrow> (entity set \<times> hmap) res option" where
  "DeleteChildren parent s = (case snd s parent of None \<Rightarrow> Some (ok s) | Some h \<Rightarrow> delete_loop (h_First h) s)"

section \<open>The invariant\<close>

definition link :: "hmap \<Rightarrow> entity \<Rightarrow> (entity option \<times> entity option \<times> entity option) option" where
  "link H x = map_option (\<lambda>h. (h_Parent h, h_Prev h, h_Next h)) (H x)"

definition first_of :: "hmap \<Rightarrow> entity \<Rightarrow> entity option" where
  "first_of H p = (case H p of None \<Rightarrow> None | Some h \<Rightarrow> h_First h)"

definition parent_of :: "hmap \<Rightarrow> entity \<Rightarrow> entity option" where
  "parent_of H x = (case H x of None \<Rightarrow> None | Some h \<Rightarrow> h_Parent h)"

text \<open>A segment of a sibling list: it starts at \<open>cur\<close> after \<open>prev\<close>, holds \<open>xs\<close>, and ends with \<open>lst\<close>
  before \<open>nxt\<close>.\<close>

fun seg :: "hmap \<Rightarrow> entity \<Rightarrow> entity option \<Rightarrow> entity option \<Rightarrow> entity list \<Rightarrow> entity option \<Rightarrow> entity option \<Rightarrow> bool" where
  "seg H p prev cur [] lst nxt \<longleftrightarrow> cur = nxt \<and> prev = lst"
| "seg H p prev cur (x # xs) lst nxt \<longleftrightarrow> cur = Some x
     \<and> (\<exists>n. link H x = Some (Some p, prev, n) \<and> seg H p (Some x) n xs lst nxt)"

definition hier_inv :: "hmap \<Rightarrow> (entity \<Rightarrow> entity list) \<Rightarrow> bool" where
  "hier_inv H ch \<longleftrightarrow> (\<forall>p. distinct (ch p) \<and> (\<exists>lst. seg H p None (first_of H p) (ch p) lst None))
     \<and> (\<forall>x h. H x = Some h \<longrightarrow> (case h_Parent h of None \<Rightarrow> h_Prev h = None \<and> h_Next h = None | Some p \<Rightarrow> x \<in> set (ch p)))"

definition parent_rel :: "hmap \<Rightarrow> (entity \<times> entity) set" where
  "parent_rel H = {(p, c). parent_of H c = Some p}"

definition forest :: "hmap \<Rightarrow> bool" where
  "forest H \<longleftrightarrow> wf (parent_rel H)"

section \<open>Surgery on sibling lists\<close>

lemma seg_append: "seg H p pv c (xs @ ys) l n \<longleftrightarrow> (\<exists>m d. seg H p pv c xs m d \<and> seg H p m d ys l n)"
  by (induction xs arbitrary: pv c) auto

lemma seg_cong: "(\<And>x. x \<in> set xs \<Longrightarrow> link H' x = link H x) \<Longrightarrow> seg H' p pv c xs l n \<longleftrightarrow> seg H p pv c xs l n"
  by (induction xs arbitrary: pv c) auto

lemma parent_link: "parent_of H x = (case link H x of None \<Rightarrow> None | Some (p, _) \<Rightarrow> p)"
  by (auto simp: parent_of_def link_def split: option.splits)

lemma seg_member: "seg H p pv c xs l n \<Longrightarrow> x \<in> set xs \<Longrightarrow> parent_of H x = Some p"
  by (induction xs arbitrary: pv c) (auto simp: parent_link)

lemma seg_last: "seg H p pv c xs l n \<Longrightarrow> l = (if xs = [] then pv else Some (last xs))"
  by (induction xs arbitrary: pv c) auto

lemma seg_hd: "seg H p pv c xs l n \<Longrightarrow> c = (if xs = [] then n else Some (hd xs))"
  by (cases xs) auto

definition set_prev :: "entity option \<Rightarrow> (entity option \<times> entity option \<times> entity option) option \<Rightarrow>
    (entity option \<times> entity option \<times> entity option) option" where
  "set_prev v = map_option (\<lambda>(p, pv, n). (p, v, n))"

definition set_next :: "entity option \<Rightarrow> (entity option \<times> entity option \<times> entity option) option \<Rightarrow>
    (entity option \<times> entity option \<times> entity option) option" where
  "set_next v = map_option (\<lambda>(p, pv, n). (p, pv, v))"

lemma seg_set_next:
  assumes "seg H p pv c xs m d" and "distinct xs" and "xs \<noteq> []"
    and "\<And>x. x \<in> set xs \<Longrightarrow> link H' x = (if m = Some x then set_next d' (link H x) else link H x)"
  shows "seg H' p pv c xs m d'"
proof -
  obtain us z where xs: "xs = us @ [z]" using assms(3) by (metis rev_exhaust)
  then obtain k e where k: "seg H p pv c us k e" "seg H p k e [z] m d" using assms(1) by (auto simp: seg_append)
  then have m: "m = Some z" by auto
  have "seg H' p pv c us k e" using k(1) assms(2,4) xs m by (subst seg_cong) auto
  moreover have "seg H' p k e [z] m d'" using k(2) assms(4) [of z] xs m by (auto simp: set_next_def)
  ultimately show ?thesis using xs by (auto simp: seg_append)
qed

lemma seg_set_prev:
  assumes "seg H p pv c xs l n" and "distinct xs"
    and "\<And>x. x \<in> set xs \<Longrightarrow> link H' x = (if c = Some x then set_prev pv' (link H x) else link H x)"
  shows "\<exists>l'. seg H' p pv' c xs l' n"
proof (cases xs)
  case (Cons y ys)
  then obtain k where k: "c = Some y" "link H y = Some (Some p, pv, k)" "seg H p (Some y) k ys l n"
    using assms(1) by auto
  have "seg H' p (Some y) k ys l n" using k assms(2,3) Cons by (subst seg_cong) auto
  then show ?thesis using k assms(3) [of y] Cons by (auto simp: set_prev_def)
qed (use assms(1) in auto)

lemma link_upd_h: "link (upd_h no f H) x =
    (if no = Some x then map_option (\<lambda>h. (h_Parent (f h), h_Prev (f h), h_Next (f h))) (H x) else link H x)"
  by (auto simp: upd_h_def link_def split: option.splits)

lemma link_upd_prev: "link (upd_h no (\<lambda>h. h\<lparr>h_Prev := v\<rparr>) H) x = (if no = Some x then set_prev v (link H x) else link H x)"
  unfolding link_upd_h by (simp add: set_prev_def link_def option.map_comp comp_def)

lemma link_upd_next: "link (upd_h no (\<lambda>h. h\<lparr>h_Next := v\<rparr>) H) x = (if no = Some x then set_next v (link H x) else link H x)"
  unfolding link_upd_h by (simp add: set_next_def link_def option.map_comp comp_def)

lemma link_upd_first: "H q = Some h \<Longrightarrow> link (H(q \<mapsto> h\<lparr>h_First := v\<rparr>)) x = link H x"
  by (auto simp: link_def)

lemma first_upd_h: "(\<And>h. h_First (f h) = h_First h) \<Longrightarrow> first_of (upd_h no f H) = first_of H"
  by (auto simp: upd_h_def first_of_def fun_eq_iff split: option.splits)

lemma dom_upd_h [simp]: "dom (upd_h no f H) = dom H"
  by (auto simp: upd_h_def split: option.splits)

lemmas surgery = link_upd_prev link_upd_next link_upd_first first_upd_h

text \<open>The invariant in terms of links and first children alone.\<close>

lemma hier_inv_links:
  "hier_inv H ch \<longleftrightarrow> (\<forall>p. distinct (ch p) \<and> (\<exists>lst. seg H p None (first_of H p) (ch p) lst None))
     \<and> (\<forall>x par prev nxt. link H x = Some (par, prev, nxt) \<longrightarrow>
          (case par of None \<Rightarrow> prev = None \<and> nxt = None | Some p \<Rightarrow> x \<in> set (ch p)))"
proof -
  have "(\<forall>x h. H x = Some h \<longrightarrow> P x (h_Parent h) (h_Prev h) (h_Next h)) \<longleftrightarrow>
      (\<forall>x par prev nxt. link H x = Some (par, prev, nxt) \<longrightarrow> P x par prev nxt)" for P
    by (auto simp: link_def)
  from this [of "\<lambda>x par prev nxt. case par of None \<Rightarrow> prev = None \<and> nxt = None | Some p \<Rightarrow> x \<in> set (ch p)"]
  show ?thesis unfolding hier_inv_def by simp
qed

lemma hier_inv_link:
  assumes "hier_inv H ch" and "link H x = Some (par, prev, nxt)"
  shows "par = None \<Longrightarrow> prev = None \<and> nxt = None" and "par = Some p \<Longrightarrow> x \<in> set (ch p)"
proof -
  have "case par of None \<Rightarrow> prev = None \<and> nxt = None | Some p \<Rightarrow> x \<in> set (ch p)"
    using assms unfolding hier_inv_links by blast
  then show "par = None \<Longrightarrow> prev = None \<and> nxt = None" "par = Some p \<Longrightarrow> x \<in> set (ch p)" by auto
qed

lemma hier_invD:
  assumes "hier_inv H ch"
  shows "distinct (ch p)" and "\<exists>lst. seg H p None (first_of H p) (ch p) lst None"
    and "x \<in> set (ch p) \<longleftrightarrow> parent_of H x = Some p"
proof -
  show "distinct (ch p)" "\<exists>lst. seg H p None (first_of H p) (ch p) lst None"
    using assms by (auto simp: hier_inv_def)
  then have "x \<in> set (ch p) \<Longrightarrow> parent_of H x = Some p" using seg_member by blast
  moreover have "parent_of H x = Some p \<Longrightarrow> x \<in> set (ch p)"
  proof -
    assume "parent_of H x = Some p"
    then obtain prev nxt where "link H x = Some (Some p, prev, nxt)" by (auto simp: parent_link split: option.splits)
    then show "x \<in> set (ch p)" by (rule hier_inv_link(2) [OF assms _ refl])
  qed
  ultimately show "x \<in> set (ch p) \<longleftrightarrow> parent_of H x = Some p" by blast
qed

lemma children_dom: "hier_inv H ch \<Longrightarrow> x \<in> set (ch p) \<Longrightarrow> x \<in> dom H \<and> p \<in> dom H"
proof
  assume i: "hier_inv H ch" and x: "x \<in> set (ch p)"
  then have "parent_of H x = Some p" by (simp add: hier_invD(3))
  then show "x \<in> dom H" by (auto simp: parent_of_def split: option.splits)
  obtain l where "seg H p None (first_of H p) (ch p) l None" using hier_invD(2) [OF i] by blast
  with x have "first_of H p \<noteq> None" by (cases "ch p") auto
  then show "p \<in> dom H" by (auto simp: first_of_def split: option.splits)
qed

lemma forest_irrefl: "forest H \<Longrightarrow> parent_of H x \<noteq> Some x"
  unfolding forest_def using wf_not_refl [of "parent_rel H" x] by (auto simp: parent_rel_def)

definition unlist :: "entity \<Rightarrow> (entity \<Rightarrow> entity list) \<Rightarrow> entity \<Rightarrow> entity list" where
  "unlist e ch p = filter (\<lambda>x. x \<noteq> e) (ch p)"

text \<open>What a detached entity leaves behind: its neighbours are linked to each other.\<close>

lemma unlink_inv:
  assumes inv: "hier_inv H ch" and e: "link H e = Some (Some p, m, n)"
    and links: "\<And>x. link H' x = (if x = e then Some (None, None, None)
        else if m = Some x then set_next n (link H x) else if n = Some x then set_prev m (link H x) else link H x)"
    and first: "\<And>q. first_of H' q = (if q = p \<and> m = None then n else first_of H q)"
  shows "hier_inv H' (unlist e ch)"
proof -
  have "e \<in> set (ch p)" using e hier_invD(3) [OF inv, of e p] by (simp add: parent_link)
  then obtain xs ys where ch: "ch p = xs @ e # ys" by (meson split_list)
  have d: "distinct (xs @ e # ys)" using hier_invD(1) [OF inv, of p] ch by simp
  obtain l where s: "seg H p None (first_of H p) xs m (Some e)" "seg H p (Some e) n ys l None"
    using hier_invD(2) [OF inv, of p] e ch by (auto simp: seg_append)
  have mx: "m = (if xs = [] then None else Some (last xs))" using seg_last [OF s(1)] .
  have ny: "n = (if ys = [] then None else Some (hd ys))" using seg_hd [OF s(2)] .
  have mem: "Some x = m \<Longrightarrow> x \<in> set xs" "Some x = n \<Longrightarrow> x \<in> set ys" for x
    using mx ny by (auto split: if_splits)
  have par: "parent_of H x = Some p" if "x \<in> set (xs @ e # ys)" for x
    using that hier_invD(3) [OF inv, of x p] ch by simp
  have l1: "link H' x = (if m = Some x then set_next n (link H x) else link H x)" if "x \<in> set xs" for x
    using links that d mem(2) [of x] by auto
  have l2: "link H' x = (if n = Some x then set_prev m (link H x) else link H x)" if "x \<in> set ys" for x
    using links that d mem(1) [of x] by auto
  obtain l' where s2: "seg H' p m n ys l' None" using seg_set_prev [OF s(2) _ l2] d by auto
  have s1: "seg H' p None (first_of H' p) xs m n"
    using seg_set_next [OF s(1) _ _ l1] d s(1) mx first by (cases "xs = []") auto
  have "filter (\<lambda>x. x \<noteq> e) xs = xs" "filter (\<lambda>x. x \<noteq> e) ys = ys" using d by (auto intro!: filter_True)
  then have up: "unlist e ch p = xs @ ys" using ch by (simp add: unlist_def)
  have "distinct (unlist e ch q) \<and> (\<exists>lst. seg H' q None (first_of H' q) (unlist e ch q) lst None)" for q
  proof (cases "q = p")
    case True
    with s1 s2 up d show ?thesis by (auto simp: seg_append)
  next
    case False
    have nin: "x \<notin> set (xs @ e # ys)" if "x \<in> set (ch q)" for x
      using par [of x] that hier_invD(3) [OF inv, of x q] False by auto
    then have "unlist e ch q = ch q" by (auto simp: unlist_def intro!: filter_True)
    moreover have "link H' x = link H x" if "x \<in> set (ch q)" for x
      using nin [OF that] links mem [of x] by auto
    then have "seg H' q None c (ch q) k None = seg H q None c (ch q) k None" for c k by (intro seg_cong)
    ultimately show ?thesis using hier_invD(1,2) [OF inv, of q] first False by auto
  qed
  moreover have "case par of None \<Rightarrow> prev = None \<and> nxt = None | Some q \<Rightarrow> x \<in> set (unlist e ch q)"
    if x: "link H' x = Some (par, prev, nxt)" for x par prev nxt
  proof (cases "x = e")
    case True
    with x links show ?thesis by auto
  next
    case False
    show ?thesis
    proof (cases "Some x = m \<or> Some x = n")
      case True
      then have "x \<in> set (xs @ ys)" using mem by auto
      then have "parent_of H x = Some p" using par by auto
      then have "par = Some p" using x False links [of x]
        by (auto simp: parent_link set_next_def set_prev_def split: option.splits if_splits)
      with \<open>x \<in> set (xs @ ys)\<close> up show ?thesis by simp
    next
      case nb: False
      then have "link H x = Some (par, prev, nxt)" using x False links by auto
      with hier_inv_link [OF inv this] False show ?thesis by (cases par) (auto simp: unlist_def)
    qed
  qed
  ultimately show ?thesis unfolding hier_inv_links by blast
qed

lemma upd_h_dom_other: "x \<noteq> y \<Longrightarrow> upd_h (Some y) f H x = H x"
  by (auto simp: upd_h_def split: option.splits)

lemma neighbours:
  assumes inv: "hier_inv H ch" and e: "link H e = Some (Some p, m, n)"
  shows "m = Some x \<Longrightarrow> x \<in> set (ch p) \<and> n \<noteq> Some x" and "n = Some x \<Longrightarrow> x \<in> set (ch p)"
proof -
  have "e \<in> set (ch p)" by (rule hier_inv_link(2) [OF inv e refl])
  then obtain xs ys where ch: "ch p = xs @ e # ys" by (meson split_list)
  have d: "distinct (xs @ e # ys)" using hier_invD(1) [OF inv, of p] ch by simp
  obtain l where s: "seg H p None (first_of H p) xs m (Some e)" "seg H p (Some e) n ys l None"
    using hier_invD(2) [OF inv, of p] e ch by (auto simp: seg_append)
  show "m = Some x \<Longrightarrow> x \<in> set (ch p) \<and> n \<noteq> Some x" "n = Some x \<Longrightarrow> x \<in> set (ch p)"
    using seg_last [OF s(1)] seg_hd [OF s(2)] ch d by (auto split: if_splits) (metis disjoint_iff last_in_set list.set_sel(1))+
qed

text \<open>Detaching: \<open>OnDestroy\<close> followed by clearing the links of the entity.\<close>

lemma detach_ok:
  assumes inv: "hier_inv H ch" and fo: "forest H" and e: "H e = Some h" and v: "dom H \<subseteq> valid"
  shows "\<exists>H1. OnDestroy valid e H = Inr H1 \<and> dom H1 = dom H \<and>
    (let H2 = upd_h (Some e) (\<lambda>h. h\<lparr>h_Parent := None, h_Next := None, h_Prev := None\<rparr>) H1
     in hier_inv H2 (unlist e ch) \<and> link H2 e = Some (None, None, None) \<and> parent_of H2 = (parent_of H)(e := None))"
proof (cases "h_Parent h")
  case None
  have le: "link H e = Some (None, h_Prev h, h_Next h)" using e None by (simp add: link_def)
  then have n: "h_Prev h = None" "h_Next h = None" using hier_inv_link(1) [OF inv le] by auto
  have "OnDestroy valid e H = Inr H" using e n None by (simp add: OnDestroy_def)
  moreover have "upd_h (Some e) (\<lambda>h. h\<lparr>h_Parent := None, h_Next := None, h_Prev := None\<rparr>) H = H"
    using e n None by (auto simp: upd_h_def fun_eq_iff)
  moreover have "unlist e ch = ch"
  proof
    fix q
    have "e \<notin> set (ch q)" using hier_invD(3) [OF inv, of e q] e None by (simp add: parent_of_def)
    then show "unlist e ch q = ch q" by (auto simp: unlist_def intro!: filter_True)
  qed
  moreover have "(parent_of H)(e := None) = parent_of H" using e None by (auto simp: parent_of_def)
  ultimately show ?thesis using inv le n by simp
next
  case (Some p)
  let ?m = "h_Prev h" and ?n = "h_Next h"
  have le: "link H e = Some (Some p, ?m, ?n)" using e Some by (simp add: link_def)
  have ep: "e \<in> set (ch p)" by (rule hier_inv_link(2) [OF inv le refl])
  have "p \<in> dom H" using children_dom [OF inv ep] by simp
  then obtain ph where ph: "H p = Some ph" by auto
  have pe: "p \<noteq> e" using forest_irrefl [OF fo, of e] le by (auto simp: parent_link)
  have vm: "the ?m \<in> valid" if "?m \<noteq> None"
  proof -
    from that obtain x where x: "?m = Some x" by auto
    have "x \<in> set (ch p)" using neighbours(1) [OF inv le x] by simp
    then have "x \<in> dom H" using children_dom [OF inv] by blast
    with x v show ?thesis by auto
  qed
  let ?H1 = "if ?m = None then upd_h ?n (\<lambda>n. n\<lparr>h_Prev := None\<rparr>) (H(p \<mapsto> ph\<lparr>h_First := ?n\<rparr>))
    else upd_h ?n (\<lambda>n. n\<lparr>h_Prev := ?m\<rparr>) (upd_h ?m (\<lambda>p. p\<lparr>h_Next := ?n\<rparr>) H)"
  have od: "OnDestroy valid e H = Inr ?H1"
    using e Some ph vm v \<open>p \<in> dom H\<close> by (auto simp: OnDestroy_def)
  have dm: "dom ?H1 = dom H" using ph by auto
  let ?H2 = "upd_h (Some e) (\<lambda>h. h\<lparr>h_Parent := None, h_Next := None, h_Prev := None\<rparr>) ?H1"
  have eq: "?H1 e \<noteq> None" using e dm by (metis domIff option.distinct(1))
  have l2: "link ?H2 x = (if x = e then Some (None, None, None)
      else if ?m = Some x then set_next ?n (link H x) else if ?n = Some x then set_prev ?m (link H x) else link H x)" for x
  proof (cases "x = e")
    case True
    obtain h1 where "?H1 e = Some h1" using eq by blast
    with True show ?thesis by (simp add: link_upd_h)
  next
    case False
    then have "link ?H2 x = link ?H1 x" by (simp add: link_upd_h)
    also have "\<dots> = (if ?m = Some x then set_next ?n (link H x) else if ?n = Some x then set_prev ?m (link H x) else link H x)"
      using neighbours(1) [OF inv le, of x] ph by (simp add: link_upd_prev link_upd_next link_upd_first)
    finally show ?thesis using False by simp
  qed
  have f2: "first_of ?H2 q = (if q = p \<and> ?m = None then ?n else first_of H q)" for q
    by (simp add: first_upd_h) (simp add: first_of_def)
  have "hier_inv ?H2 (unlist e ch)" by (rule unlink_inv [OF inv le l2 f2])
  moreover have "parent_of ?H2 = (parent_of H)(e := None)"
  proof
    fix x show "parent_of ?H2 x = ((parent_of H)(e := None)) x"
      by (simp add: parent_link l2 set_next_def set_prev_def split: option.splits)
  qed
  ultimately show ?thesis using od dm l2 [of e] by (simp add: Let_def)
qed

text \<open>Attaching: \<open>OnConstruct\<close> of an entity without siblings whose parent has been set appends it to the
  children of the parent. The component may be new.\<close>

lemma last_sibling_seg:
  "seg H p pv (Some x) (x # xs) l None \<Longrightarrow> last_sibling H x = Some (last (x # xs))"
proof (induction xs arbitrary: pv x)
  case Nil
  then show ?case by (auto simp: last_sibling.simps [of H x] link_def)
next
  case (Cons y ys)
  then have "link H x = Some (Some p, pv, Some y)" "seg H p (Some x) (Some y) (y # ys) l None" by auto
  moreover from this obtain h where "H x = Some h" "h_Next h = Some y" by (auto simp: link_def)
  ultimately show ?case using Cons.IH [of "Some x" y] by (simp add: last_sibling.simps [of H x])
qed

lemma attach_ok:
  assumes inv: "hier_inv H ch" and pe: "p \<noteq> e" and le: "link G e = Some (Some p, None, None)"
    and free: "\<And>q. e \<notin> set (ch q)" and oth: "\<And>x. x \<noteq> e \<Longrightarrow> G x = H x"
    and fe: "first_of G e = first_of H e"
  shows "\<exists>H'. OnConstruct e G = Some (Inr H') \<and> hier_inv H' (ch(p := ch p @ [e]))
    \<and> parent_of H' = (parent_of H)(e := Some p) \<and> dom H' = insert p (insert e (dom H))"
proof -
  obtain h where h: "G e = Some h" "h_Parent h = Some p" "h_Prev h = None" "h_Next h = None"
    using le by (auto simp: link_def)
  let ?G1 = "if G p = None then G(p \<mapsto> hierarchy_empty) else G"
  let ?ch = "ch(p := ch p @ [e])"
  define ph where "ph = the (?G1 p)"
  have ph: "?G1 p = Some ph" by (simp add: ph_def)
  have dG: "dom ?G1 = insert p (insert e (dom H))" using oth h by (auto simp: dom_def) (metis option.distinct(1))+
  have f0: "first_of G q = first_of H q" for q
    using oth [of q] fe by (cases "q = e") (simp_all add: first_of_def)
  have f1: "first_of ?G1 q = first_of H q" for q
    using f0 [of q] oth [OF pe] by (auto simp: first_of_def hierarchy_empty_def)
  have fp: "h_First ph = first_of H p" using f1 [of p] ph by (simp add: first_of_def split: if_splits)
  have l1: "link ?G1 x = (if x = e then Some (Some p, None, None)
      else if x = p \<and> H p = None then Some (None, None, None) else link H x)" for x
    using le oth pe by (auto simp: link_def hierarchy_empty_def)
  have npar: "x \<noteq> p" if "x \<in> set (ch q)" "H p = None" for x q
    using children_dom [OF inv that(1)] that(2) by auto
  have noch: "ch p = [] \<longleftrightarrow> first_of H p = None"
  proof -
    obtain l where "seg H p None (first_of H p) (ch p) l None" using hier_invD(2) [OF inv] by blast
    then show ?thesis by (cases "ch p") auto
  qed
  have cong: "seg H' q None c (ch q) l n = seg H q None c (ch q) l n"
    if "\<And>x. x \<noteq> e \<Longrightarrow> x \<in> set (ch q) \<Longrightarrow> link H' x = link ?G1 x" for H' q c l n
    using that free l1 npar by (intro seg_cong) (auto, metis)
  have fin: "hier_inv H' ?ch \<and> parent_of H' = (parent_of H)(e := Some p)"
    if sp: "\<exists>l. seg H' p None (first_of H' p) (ch p @ [e]) l None"
      and so: "\<And>q. q \<noteq> p \<Longrightarrow> \<exists>l. seg H' q None (first_of H' q) (ch q) l None"
      and lk: "\<And>x. x \<noteq> e \<Longrightarrow> x \<notin> set (ch p) \<Longrightarrow> link H' x = link ?G1 x"
      and pr: "\<And>x. parent_of H' x = parent_of ?G1 x" for H'
  proof
    have "distinct (?ch q)" for q using hier_invD(1) [OF inv, of q] free by auto
    moreover have "\<exists>l. seg H' q None (first_of H' q) (?ch q) l None" for q using sp so by auto
    moreover have "case par of None \<Rightarrow> prev = None \<and> nxt = None | Some q \<Rightarrow> x \<in> set (?ch q)"
      if x: "link H' x = Some (par, prev, nxt)" for x par prev nxt
    proof (cases "x = e \<or> x \<in> set (ch p)")
      case True
      then have "parent_of H' x = Some p" using sp seg_member [of H' p _ _ "ch p @ [e]" _ _ x] by auto
      then show ?thesis using x True by (auto simp: parent_link)
    next
      case False
      then have "link ?G1 x = Some (par, prev, nxt)" using lk x by simp
      then show ?thesis using False l1 [of x] hier_inv_link [OF inv, of x par prev nxt]
        by (cases par) (auto split: if_splits)
    qed
    ultimately show "hier_inv H' ?ch" unfolding hier_inv_links by blast
    show "parent_of H' = (parent_of H)(e := Some p)"
    proof
      fix x
      have "link H p = None" if "H p = None" using that by (simp add: link_def)
      then have "parent_of ?G1 x = ((parent_of H)(e := Some p)) x"
        unfolding parent_link l1 by (cases "x = e") auto
      then show "parent_of H' x = ((parent_of H)(e := Some p)) x" by (simp only: pr)
    qed
  qed
  show ?thesis
  proof (cases "first_of H p")
    case None
    let ?H' = "?G1(p \<mapsto> ph\<lparr>h_First := Some e\<rparr>)"
    have "OnConstruct e G = Some (Inr ?H')"
      using h fp None unfolding OnConstruct_def by (simp add: Let_def ph_def)
    moreover have lk: "link ?H' x = link ?G1 x" for x using ph by (auto simp: link_def)
    then have "parent_of ?H' x = parent_of ?G1 x" for x by (simp add: parent_link)
    moreover have fo: "first_of ?H' q = (if q = p then Some e else first_of H q)" for q
      using f1 [of q] by (simp add: first_of_def)
    have "\<exists>l. seg ?H' p None (first_of ?H' p) (ch p @ [e]) l None"
      using None noch lk l1 fo by simp
    moreover have "\<exists>l. seg ?H' q None (first_of ?H' q) (ch q) l None" if "q \<noteq> p" for q
      using cong [of q ?H'] lk fo that hier_invD(2) [OF inv, of q] by simp
    moreover have "dom ?H' = insert p (insert e (dom H))" using dG by auto
    ultimately show ?thesis using fin [of ?H'] lk by blast
  next
    case (Some first)
    then obtain xs where cp: "ch p = first # xs"
      using noch hier_invD(2) [OF inv, of p] by (cases "ch p") auto
    let ?z = "last (ch p)"
    obtain l where s: "seg H p None (Some first) (ch p) l None" using hier_invD(2) [OF inv, of p] Some by auto
    have s1: "seg ?G1 p None (Some first) (ch p) l None" using cong [of p ?G1] s by simp
    have ls: "last_sibling ?G1 first = Some ?z" using last_sibling_seg [of ?G1 p None first xs] s1 cp by simp
    have zin: "?z \<in> set (ch p)" using cp by simp
    have ze: "?z \<noteq> e" using zin free by auto
    obtain c where c: "?G1 ?z = Some c" using seg_member [OF s1 zin] by (auto simp: parent_of_def split: option.splits)
    let ?H' = "upd_h (Some e) (\<lambda>h. h\<lparr>h_Prev := Some ?z\<rparr>) (?G1(?z \<mapsto> c\<lparr>h_Next := Some e\<rparr>))"
    have oc: "OnConstruct e G = Some (Inr ?H')"
      using h fp Some ls c unfolding OnConstruct_def by (simp add: Let_def ph_def)
    have lk: "link ?H' x = (if x = e then Some (Some p, Some ?z, None)
        else if x = ?z then set_next (Some e) (link ?G1 x) else link ?G1 x)" for x
    proof -
      have "?G1(?z \<mapsto> c\<lparr>h_Next := Some e\<rparr>) = upd_h (Some ?z) (\<lambda>h. h\<lparr>h_Next := Some e\<rparr>) ?G1"
        using c by (simp add: upd_h_def)
      then show ?thesis using l1 [of e] ze by (simp add: link_upd_prev link_upd_next) (auto simp: set_prev_def)
    qed
    have fo: "first_of ?H' q = first_of H q" for q
      using f1 [of q] c ze by (auto simp: first_upd_h) (auto simp: first_of_def)
    have lz: "l = Some ?z" using seg_last [OF s1] cp by simp
    have lk2: "link ?H' x = (if l = Some x then set_next (Some e) (link ?G1 x) else link ?G1 x)" if "x \<in> set (ch p)" for x
    proof -
      have "x \<noteq> e" using that free by auto
      then show ?thesis using lk [of x] lz by (simp only: option.inject if_False eq_commute [of x])
    qed
    have "ch p \<noteq> []" using cp by simp
    from seg_set_next [OF s1 hier_invD(1) [OF inv] this lk2]
    have "seg ?H' p None (Some first) (ch p) (Some ?z) (Some e)" unfolding lz .
    then have sp: "\<exists>l. seg ?H' p None (first_of ?H' p) (ch p @ [e]) l None"
      using fo Some lk [of e] by (auto simp: seg_append)
    have so: "\<exists>l. seg ?H' q None (first_of ?H' q) (ch q) l None" if "q \<noteq> p" for q
    proof -
      have "x \<noteq> ?z" if "x \<in> set (ch q)" for x
        using that zin hier_invD(3) [OF inv] \<open>q \<noteq> p\<close> by auto
      then show ?thesis using cong [of q ?H'] lk fo hier_invD(2) [OF inv, of q] by simp
    qed
    have pr: "parent_of ?H' x = parent_of ?G1 x" for x
      using lk [of x] l1 [of e] by (auto simp: parent_link set_next_def split: option.splits)
    have lk3: "link ?H' x = link ?G1 x" if "x \<noteq> e" "x \<notin> set (ch p)" for x
    proof -
      have "x \<noteq> ?z" using that zin by auto
      then show ?thesis using lk [of x] that(1) by (simp only: if_False)
    qed
    have "?z \<in> insert p (insert e (dom H))" using c dG by blast
    then have "dom ?H' = insert p (insert e (dom H))"
      using dG by (simp only: dom_upd_h dom_fun_upd option.distinct if_False insert_absorb)
    then show ?thesis using fin [OF sp so lk3 pr] oc by blast
  qed
qed

section \<open>Parents and children\<close>

lemma parent_rel_iff: "(p, c) \<in> parent_rel H \<longleftrightarrow> parent_of H c = Some p"
  by (simp add: parent_rel_def)

lemma ancestor_loop_correct:
  assumes "forest H"
  shows "ancestor_loop H (parent_of H n) x = Some ((x, n) \<in> (parent_rel H)\<^sup>+)"
  using assms unfolding forest_def
proof (induction n rule: wf_induct_rule)
  case (less n)
  show ?case
  proof (cases "parent_of H n")
    case None
    then have "(x, n) \<notin> (parent_rel H)\<^sup>+" by (auto simp: parent_rel_iff elim: tranclE)
    with None show ?thesis by (simp add: ancestor_loop.simps [of H None])
  next
    case (Some m)
    have tr: "(x, n) \<in> (parent_rel H)\<^sup>+ \<longleftrightarrow> x = m \<or> (x, m) \<in> (parent_rel H)\<^sup>+"
    proof
      assume "(x, n) \<in> (parent_rel H)\<^sup>+"
      then show "x = m \<or> (x, m) \<in> (parent_rel H)\<^sup>+" using Some by cases (auto simp: parent_rel_iff)
    next
      assume "x = m \<or> (x, m) \<in> (parent_rel H)\<^sup>+"
      moreover have "(m, n) \<in> parent_rel H" using Some by (simp add: parent_rel_iff)
      ultimately show "(x, n) \<in> (parent_rel H)\<^sup>+" by (auto intro: trancl_into_trancl)
    qed
    have "ancestor_loop H (parent_of H m) x = Some ((x, m) \<in> (parent_rel H)\<^sup>+)"
      using less Some by (simp add: parent_rel_iff)
    then show ?thesis unfolding Some ancestor_loop.simps [of H "Some m"] tr by (simp add: parent_of_def)
  qed
qed

lemma IsParent_correct: "forest H \<Longrightarrow> IsParent H n x = Some ((x, n) \<in> (parent_rel H)\<^sup>+)"
  using ancestor_loop_correct [of H n x] ancestor_loop.simps [of H None x]
  by (auto simp: IsParent_def parent_of_def split: option.splits)

lemma forest_reparent:
  assumes fo: "forest H" and pe: "p \<noteq> e" and na: "(e, p) \<notin> (parent_rel H)\<^sup>+"
    and par: "parent_of H' = (parent_of H)(e := Some p)"
  shows "forest H'"
proof -
  let ?r = "parent_rel H - {(q, e) | q. True}"
  have r: "parent_rel H' = insert (p, e) ?r" by (auto simp: parent_rel_def par)
  have "(e, p) \<notin> (parent_rel H)\<^sup>*" using na pe by (simp add: rtrancl_eq_or_trancl)
  then have "(e, p) \<notin> ?r\<^sup>*" using rtrancl_mono [of ?r "parent_rel H"] by blast
  moreover have "wf ?r" using fo by (auto simp: forest_def intro: wf_subset)
  ultimately show ?thesis by (simp add: forest_def r wf_insert)
qed

lemma SetParent_ok:
  assumes inv: "hier_inv H ch" and fo: "forest H" and v: "dom H \<subseteq> valid"
  shows "\<exists>H'. SetParent valid e p H = Some (Inr H') \<and> forest H'
    \<and> hier_inv H' (if p = e \<or> (e, p) \<in> (parent_rel H)\<^sup>+ then ch else (unlist e ch)(p := unlist e ch p @ [e]))
    \<and> dom H' \<subseteq> insert p (insert e (dom H))"
proof (cases "p = e")
  case True
  then show ?thesis using inv fo by (auto simp: SetParent_def split: option.splits)
next
  case pe: False
  show ?thesis
  proof (cases "H e")
    case None
    let ?G = "H(e \<mapsto> hierarchy_of_parent (Some p))"
    have free: "e \<notin> set (ch q)" for q using children_dom [OF inv] None by blast
    then have ul: "unlist e ch = ch" by (auto simp: unlist_def fun_eq_iff intro!: filter_True)
    have nt: "(e, p) \<notin> (parent_rel H)\<^sup>+"
    proof
      assume "(e, p) \<in> (parent_rel H)\<^sup>+"
      then obtain c where "(e, c) \<in> parent_rel H" by (meson tranclD)
      then have "c \<in> set (ch e)" by (simp add: parent_rel_iff hier_invD(3) [OF inv])
      then show False using children_dom [OF inv] None by blast
    qed
    have "link ?G e = Some (Some p, None, None)" "first_of ?G e = first_of H e"
      using None by (simp_all add: link_def first_of_def hierarchy_of_parent_def)
    from attach_ok [OF inv pe this(1) free _ this(2)] obtain H' where H':
      "OnConstruct e ?G = Some (Inr H')" "hier_inv H' (ch(p := ch p @ [e]))"
      "parent_of H' = (parent_of H)(e := Some p)" "dom H' = insert p (insert e (dom H))" by auto
    from forest_reparent [OF fo pe nt H'(3)] H' None pe ul nt show ?thesis by (simp add: SetParent_def)
  next
    case (Some h)
    have hp: "h_Parent h \<noteq> Some e" using forest_irrefl [OF fo, of e] Some by (simp add: parent_of_def)
    show ?thesis
    proof (cases "(e, p) \<in> (parent_rel H)\<^sup>+")
      case True
      with Some pe inv fo show ?thesis by (auto simp: SetParent_def IsParent_correct)
    next
      case nt: False
      from detach_ok [OF inv fo Some v] obtain H1 where H1: "OnDestroy valid e H = Inr H1" "dom H1 = dom H" by auto
      let ?H2 = "upd_h (Some e) (\<lambda>h. h\<lparr>h_Parent := None, h_Next := None, h_Prev := None\<rparr>) H1"
      have H2: "hier_inv ?H2 (unlist e ch)" "link ?H2 e = Some (None, None, None)"
        "parent_of ?H2 = (parent_of H)(e := None)" using detach_ok [OF inv fo Some v] H1 by (auto simp: Let_def)
      let ?G = "upd_h (Some e) (\<lambda>h. h\<lparr>h_Parent := Some p\<rparr>) ?H2"
      obtain h2 where h2: "?H2 e = Some h2" "h_Prev h2 = None" "h_Next h2 = None"
        using H2(2) unfolding link_def by blast
      have le: "link ?G e = Some (Some p, None, None)" by (subst link_upd_h, subst h2(1)) (simp add: h2(2,3))
      have free: "e \<notin> set (unlist e ch q)" for q by (simp add: unlist_def)
      have "first_of ?G e = first_of ?H2 e" by (simp add: first_upd_h)
      from attach_ok [OF H2(1) pe le free upd_h_dom_other this] obtain H' where H':
        "OnConstruct e ?G = Some (Inr H')" "hier_inv H' ((unlist e ch)(p := unlist e ch p @ [e]))"
        "parent_of H' = (parent_of ?H2)(e := Some p)" "dom H' = insert p (insert e (dom ?H2))" by auto
      have par: "parent_of H' = (parent_of H)(e := Some p)" using H'(3) H2(3) by simp
      have "SetParent valid e p H = Some (Inr H')"
        using Some pe nt hp H1(1) H'(1) by (simp add: SetParent_def IsParent_correct [OF fo] Reparent_def Let_def)
      then show ?thesis using forest_reparent [OF fo pe nt par] H'(2,4) H1(2) pe nt by auto
    qed
  qed
qed

lemma children_loop_seg:
  "seg H p pv c xs l None \<Longrightarrow> set xs \<subseteq> valid \<Longrightarrow> children_loop valid H c = Some xs"
proof (induction xs arbitrary: pv c)
  case Nil
  then show ?case by (simp add: children_loop.simps [of valid H None])
next
  case (Cons x xs)
  then obtain n where "c = Some x" "link H x = Some (Some p, pv, n)" "seg H p (Some x) n xs l None" by auto
  moreover from this obtain h where "H x = Some h" "h_Next h = n" by (auto simp: link_def)
  ultimately show ?case using Cons by (simp add: children_loop.simps [of valid H "Some x"])
qed

lemma GetChildren_ok:
  assumes "hier_inv H ch" and "dom H \<subseteq> valid"
  shows "GetChildren valid H p = Some (ch p)"
proof -
  obtain l where l: "seg H p None (first_of H p) (ch p) l None" using hier_invD(2) [OF assms(1)] by blast
  have "set (ch p) \<subseteq> valid" using children_dom [OF assms(1)] assms(2) by blast
  from children_loop_seg [OF l this] show ?thesis
    using l by (cases "H p") (auto simp: GetChildren_def first_of_def dest: seg_hd split: if_splits)
qed

text \<open>A program of \<open>SetParent\<close> calls on a scene whose entities are all valid.\<close>

fun set_parents :: "entity set \<Rightarrow> (entity \<times> entity) list \<Rightarrow> hmap \<Rightarrow> hmap res option" where
  "set_parents valid [] H = Some (ok H)"
| "set_parents valid ((e, p) # es) H = Option.bind (SetParent valid e p H) (\<lambda>r.
     case r of Inl f \<Rightarrow> Some (Inl f) | Inr H1 \<Rightarrow> set_parents valid es H1)"

text \<open>What it should do to the lists of children: nothing when the new parent is the entity itself or
  below it, else move the entity to the end of the new parent's children.\<close>

definition below :: "(entity \<Rightarrow> entity list) \<Rightarrow> entity \<Rightarrow> entity \<Rightarrow> bool" where
  "below ch e p \<longleftrightarrow> (e, p) \<in> {(q, c). c \<in> set (ch q)}\<^sup>*"

fun move_all :: "(entity \<times> entity) list \<Rightarrow> (entity \<Rightarrow> entity list) \<Rightarrow> entity \<Rightarrow> entity list" where
  "move_all [] ch = ch"
| "move_all ((e, p) # es) ch =
    move_all es (if below ch e p then ch else (unlist e ch)(p := unlist e ch p @ [e]))"

lemma parent_rel_children: "hier_inv H ch \<Longrightarrow> parent_rel H = {(q, c). c \<in> set (ch q)}"
  by (auto simp: parent_rel_def hier_invD(3))

lemma set_parents_ok:
  assumes "hier_inv H ch" and "forest H" and "dom H \<subseteq> valid" and "\<forall>(e, p) \<in> set es. e \<in> valid \<and> p \<in> valid"
  shows "\<exists>H'. set_parents valid es H = Some (Inr H') \<and> forest H' \<and> hier_inv H' (move_all es ch) \<and> dom H' \<subseteq> valid"
  using assms
proof (induction es arbitrary: H ch)
  case (Cons x es)
  obtain e p where x: "x = (e, p)" by (cases x)
  have b: "p = e \<or> (e, p) \<in> (parent_rel H)\<^sup>+ \<longleftrightarrow> below ch e p"
    unfolding below_def parent_rel_children [OF Cons.prems(1), symmetric] by (auto simp: rtrancl_eq_or_trancl)
  from SetParent_ok [OF Cons.prems(1-3), of e p] obtain H1 where H1: "SetParent valid e p H = Some (Inr H1)" "forest H1"
    "hier_inv H1 (if below ch e p then ch else (unlist e ch)(p := unlist e ch p @ [e]))"
    "dom H1 \<subseteq> insert p (insert e (dom H))" unfolding b by blast
  have "dom H1 \<subseteq> valid" using H1(4) Cons.prems(3,4) x by auto
  from Cons.IH [OF H1(3,2) this] Cons.prems(4) H1(1) x show ?case by simp
qed simp

lemma empty_scene: "hier_inv Map.empty (\<lambda>p. [])" "forest Map.empty"
  by (auto simp: hier_inv_def first_of_def forest_def parent_rel_def parent_of_def)

text \<open>Property C5. Starting from a scene without hierarchy, any sequence of \<open>SetParent\<close> calls on valid
  entities leaves the first-child and sibling pointers in order: \<open>GetChildren\<close> of every entity returns
  exactly the children in the order they were attached, calls that would make an entity its own
  ancestor change nothing, and the parents stay a forest, so that no walk along them can loop.\<close>

theorem set_parent_keeps_forest:
  assumes "\<forall>(e, p) \<in> set es. e \<in> valid \<and> p \<in> valid"
  shows "\<exists>H'. set_parents valid es Map.empty = Some (Inr H') \<and> forest H'
    \<and> GetChildren valid H' p = Some (move_all es (\<lambda>p. []) p)
    \<and> IsParent H' a b = Some ((b, a) \<in> (parent_rel H')\<^sup>+)"
proof -
  from set_parents_ok [OF empty_scene, of valid es] assms obtain H' where
    "set_parents valid es Map.empty = Some (Inr H')" "forest H'" "hier_inv H' (move_all es (\<lambda>p. []))" "dom H' \<subseteq> valid"
    by auto
  then show ?thesis using GetChildren_ok IsParent_correct by blast
qed

theorem set_parent_keeps_forest_witness:
  "\<exists>H'. set_parents {0, 1, 2, 3} [(1, 0), (2, 0), (3, 1), (1, 2)] Map.empty = Some (Inr H') \<and> forest H'"
proof -
  have "\<forall>(e, p) \<in> set [(1, 0), (2, 0), (3, 1), (1, 2 :: nat)]. e \<in> {0, 1, 2, 3 :: nat} \<and> p \<in> {0, 1, 2, 3 :: nat}"
    by simp
  from set_parent_keeps_forest [OF this] show ?thesis by blast
qed

lemma wf_children:
  assumes inv: "hier_inv H ch" and fo: "forest H" and fin: "finite (dom H)"
  shows "wf ((parent_rel H)\<inverse>)"
proof -
  have "parent_rel H \<subseteq> dom H \<times> dom H"
  proof (rule subrelI)
    fix p c assume "(p, c) \<in> parent_rel H"
    then have "c \<in> set (ch p)" by (simp add: parent_rel_iff hier_invD(3) [OF inv])
    then show "(p, c) \<in> dom H \<times> dom H" using children_dom [OF inv] by blast
  qed
  then have "finite (parent_rel H)" using fin by (meson finite_SigmaI finite_subset)
  then show "wf ((parent_rel H)\<inverse>)"
    using fo unfolding forest_def by (simp add: finite_acyclic_wf_converse wf_acyclic)
qed

section \<open>Deleting children\<close>

lemma delete_loop_fails:
  assumes inv: "hier_inv H ch" and fo: "forest H" and fin: "finite (dom H)" and v: "dom H \<subseteq> valid"
  shows "c \<in> dom H \<Longrightarrow> delete_loop (Some c) (valid, H) = Some (Inl UseAfterFree)"
proof (induction c rule: wf_induct_rule [OF wf_children [OF inv fo fin]])
  case (1 c)
  then obtain h where h: "H c = Some h" by auto
  obtain l where s: "seg H c None (h_First h) (ch c) l None"
    using hier_invD(2) [OF inv, of c] h by (auto simp: first_of_def)
  show ?case
  proof (cases "ch c")
    case Nil
    then have "h_First h = None" using s by simp
    moreover obtain H1 where "OnDestroy valid c H = Inr H1" using detach_ok [OF inv fo h v] by auto
    ultimately show ?thesis using h
      by (simp add: delete_loop.simps [of "Some c"] delete_loop.simps [of None] destroy_entity_def)
  next
    case (Cons d ds)
    then have d: "h_First h = Some d" using s by simp
    have "d \<in> set (ch c)" using Cons by simp
    then have "(d, c) \<in> (parent_rel H)\<inverse>" "d \<in> dom H"
      using children_dom [OF inv] by (auto simp: parent_rel_iff hier_invD(3) [OF inv])
    with 1 have "delete_loop (Some d) (valid, H) = Some (Inl UseAfterFree)" by blast
    then show ?thesis using h d by (simp add: delete_loop.simps [of "Some c"])
  qed
qed

text \<open>\<open>DeleteChildren\<close> of an entity that has a child reads the component of the child it has
  just destroyed, in every well-formed scene.\<close>

theorem delete_children_use_after_free:
  assumes "set_parents valid es Map.empty = Some (Inr H)" and "\<forall>(e, p) \<in> set es. e \<in> valid \<and> p \<in> valid"
    and "finite valid" and "GetChildren valid H p \<noteq> Some []"
  shows "DeleteChildren p (valid, H) = Some (Inl UseAfterFree)"
proof -
  from set_parents_ok [OF empty_scene, of valid es] assms(1,2) have
    H: "forest H" "hier_inv H (move_all es (\<lambda>p. []))" "dom H \<subseteq> valid" by auto
  let ?cs = "move_all es (\<lambda>p. []) p"
  have fin: "finite (dom H)" using H(3) assms(3) by (rule finite_subset)
  have "?cs \<noteq> []" using assms(4) GetChildren_ok [OF H(2,3), of p] by auto
  then obtain c cs where c: "?cs = c # cs" by (cases ?cs) auto
  then have "c \<in> dom H" using children_dom [OF H(2), of c p] by simp
  moreover obtain l where "seg H p None (first_of H p) (c # cs) l None" using hier_invD(2) [OF H(2), of p] c by auto
  then have "first_of H p = Some c" by simp
  ultimately show ?thesis using delete_loop_fails [OF H(2,1) fin H(3)]
    by (auto simp: DeleteChildren_def first_of_def split: option.splits)
qed

theorem delete_children_use_after_free_witness:
  "\<exists>H. set_parents {0, 1} [(1, 0)] Map.empty = Some (Inr H) \<and> DeleteChildren 0 ({0, 1}, H) = Some (Inl UseAfterFree)"
proof -
  have v: "\<forall>(e, p) \<in> set [(1, 0)]. e \<in> {0, 1 :: nat} \<and> p \<in> {0, 1 :: nat}" by simp
  from set_parents_ok [OF empty_scene, of "{0, 1}" "[(1, 0)]"] obtain H where
    H: "set_parents {0, 1} [(1, 0)] Map.empty = Some (Inr H)" "hier_inv H (move_all [(1, 0)] (\<lambda>p. []))"
    "dom H \<subseteq> {0, 1}" by auto
  have "\<not> below (\<lambda>p. []) (1 :: nat) 0" unfolding below_def by (auto elim: converse_rtranclE)
  then have "GetChildren {0, 1} H 0 \<noteq> Some []" using GetChildren_ok [OF H(2,3)] by simp
  with delete_children_use_after_free [OF H(1) v] H(1) show ?thesis by auto
qed

section \<open>Camera controllers\<close>

datatype controller_type = FPS | ThirdPerson | Simple | Camera2D | EditorCamera | Custom

datatype controller = ThirdPersonCameraController | FPSCameraController | EditorCameraController | CameraController2D

record default_controller =
  m_Type :: controller_type
  m_CameraController :: "controller option"

definition SetControllerType :: "controller_type \<Rightarrow> default_controller \<Rightarrow> default_controller" where
  "SetControllerType type c = c\<lparr>m_Type := type, m_CameraController :=
    (case type of
       ThirdPerson \<Rightarrow> Some ThirdPersonCameraController
     | FPS \<Rightarrow> Some FPSCameraController
     | Simple \<Rightarrow> Some FPSCameraController
     | EditorCamera \<Rightarrow> Some EditorCameraController
     | Camera2D \<Rightarrow> Some CameraController2D
     | Custom \<Rightarrow> None)\<rparr>"

fun CameraControllerTypeToString :: "controller_type \<Rightarrow> string" where
  "CameraControllerTypeToString ThirdPerson = ''ThirdPerson''"
| "CameraControllerTypeToString FPS = ''FPS''"
| "CameraControllerTypeToString Simple = ''Simple''"
| "CameraControllerTypeToString EditorCamera = ''Editor''"
| "CameraControllerTypeToString Camera2D = ''2D''"
| "CameraControllerTypeToString Custom = ''Custom''"

definition StringToControllerType :: "string \<Rightarrow> controller_type" where
  "StringToControllerType type =
    (if type = ''ThirdPerson'' then ThirdPerson
     else if type = ''FPS'' then FPS
     else if type = ''Simple'' then Simple
     else if type = ''Editor'' then EditorCamera
     else if type = ''2D'' then Camera2D
     else Custom)"

lemma controller_type_roundtrip: "StringToControllerType (CameraControllerTypeToString t) = t"
  by (cases t) (simp_all add: StringToControllerType_def)

end
