(* ===== verification/SceneTransforms.thy ===== *)
theory SceneTransforms
  imports SceneHierarchy
begin

text \<open>
  Transforms (\<open>Maths/Transform.*\<close>) and their propagation through the scene graph
  (\<open>SceneGraph::Update\<close>, \<open>SceneGraph::UpdateTransform\<close>). Matrices form any type with a product and a
  unit; composing a local matrix from translation, rotation and scale, and taking one apart, are
  arguments. The order in which the registry enumerates its views is an argument as well.
\<close>

section \<open>Transforms\<close>

record ('m, 'v, 'q) transform =
  m_LocalMatrix :: 'm
  m_WorldMatrix :: 'm
  m_LocalPosition :: 'v
  m_LocalScale :: 'v
  m_LocalOrientation :: 'q
  m_HasUpdated :: bool
  m_Dirty :: bool

definition transform_new :: "'v \<Rightarrow> 'v \<Rightarrow> 'q \<Rightarrow> ('m :: one, 'v, 'q) transform" where
  "transform_new zero_v one_v euler0 = \<lparr>m_LocalMatrix = 1, m_WorldMatrix = 1, m_LocalPosition = zero_v,
     m_LocalScale = one_v, m_LocalOrientation = euler0, m_HasUpdated = False, m_Dirty = False\<rparr>"

definition transform_of_matrix ::
    "('m \<Rightarrow> 'v) \<Rightarrow> ('m \<Rightarrow> 'q) \<Rightarrow> ('m \<Rightarrow> 'v) \<Rightarrow> 'm \<Rightarrow> ('m, 'v, 'q) transform" where
  "transform_of_matrix translation rotation scale matrix =
    \<lparr>m_LocalMatrix = matrix, m_WorldMatrix = matrix, m_LocalPosition = translation matrix,
     m_LocalScale = scale matrix, m_LocalOrientation = rotation matrix, m_HasUpdated = False, m_Dirty = False\<rparr>"

definition SetLocalPosition :: "'v \<Rightarrow> ('m, 'v, 'q) transform \<Rightarrow> ('m, 'v, 'q) transform" where
  "SetLocalPosition p t = t\<lparr>m_Dirty := True, m_LocalPosition := p\<rparr>"

definition SetLocalScale :: "'v \<Rightarrow> ('m, 'v, 'q) transform \<Rightarrow> ('m, 'v, 'q) transform" where
  "SetLocalScale p t = t\<lparr>m_Dirty := True, m_LocalScale := p\<rparr>"

definition SetLocalOrientation :: "'q \<Rightarrow> ('m, 'v, 'q) transform \<Rightarrow> ('m, 'v, 'q) transform" where
  "SetLocalOrientation q t = t\<lparr>m_Dirty := True, m_LocalOrientation := q\<rparr>"

definition transform_at :: "'v \<Rightarrow> 'q \<Rightarrow> 'v \<Rightarrow> ('m :: one, 'v, 'q) transform" where
  "transform_at one_v euler0 position = SetLocalPosition position (transform_new position one_v euler0)"

definition UpdateMatrices :: "('v \<Rightarrow> 'q \<Rightarrow> 'v \<Rightarrow> 'm) \<Rightarrow> ('m, 'v, 'q) transform \<Rightarrow> ('m, 'v, 'q) transform" where
  "UpdateMatrices compose t = t\<lparr>
     m_LocalMatrix := compose (m_LocalPosition t) (m_LocalOrientation t) (m_LocalScale t),
     m_Dirty := False, m_HasUpdated := True\<rparr>"

definition ApplyTransform ::
    "('m \<Rightarrow> 'v) \<Rightarrow> ('m \<Rightarrow> 'q) \<Rightarrow> ('m \<Rightarrow> 'v) \<Rightarrow> ('m, 'v, 'q) transform \<Rightarrow> ('m, 'v, 'q) transform" where
  "ApplyTransform translation rotation scale t = t\<lparr>m_LocalPosition := translation (m_LocalMatrix t),
     m_LocalOrientation := rotation (m_LocalMatrix t), m_LocalScale := scale (m_LocalMatrix t)\<rparr>"

definition SetLocalTransform ::
    "('m \<Rightarrow> 'v) \<Rightarrow> ('m \<Rightarrow> 'q) \<Rightarrow> ('m \<Rightarrow> 'v) \<Rightarrow> 'm \<Rightarrow> ('m, 'v, 'q) transform \<Rightarrow> ('m, 'v, 'q) transform" where
  "SetLocalTransform translation rotation scale localMat t =
     ApplyTransform translation rotation scale (t\<lparr>m_LocalMatrix := localMat, m_HasUpdated := True\<rparr>)"

definition clean :: "('v \<Rightarrow> 'q \<Rightarrow> 'v \<Rightarrow> 'm) \<Rightarrow> ('m, 'v, 'q) transform \<Rightarrow> ('m, 'v, 'q) transform" where
  "clean compose t = (if m_Dirty t then UpdateMatrices compose t else t)"

definition SetWorldMatrix ::
    "('v \<Rightarrow> 'q \<Rightarrow> 'v \<Rightarrow> 'm :: times) \<Rightarrow> 'm \<Rightarrow> ('m, 'v, 'q) transform \<Rightarrow> ('m, 'v, 'q) transform" where
  "SetWorldMatrix compose mat t = (let t1 = clean compose t in t1\<lparr>m_WorldMatrix := mat * m_LocalMatrix t1\<rparr>)"

text \<open>The getters bring the local matrix up to date, not the world matrix.\<close>

definition GetWorldMatrix :: "('v \<Rightarrow> 'q \<Rightarrow> 'v \<Rightarrow> 'm) \<Rightarrow> ('m, 'v, 'q) transform \<Rightarrow> 'm \<times> ('m, 'v, 'q) transform" where
  "GetWorldMatrix compose t = (let t1 = clean compose t in (m_WorldMatrix t1, t1))"

definition GetLocalMatrix :: "('v \<Rightarrow> 'q \<Rightarrow> 'v \<Rightarrow> 'm) \<Rightarrow> ('m, 'v, 'q) transform \<Rightarrow> 'm \<times> ('m, 'v, 'q) transform" where
  "GetLocalMatrix compose t = (let t1 = clean compose t in (m_LocalMatrix t1, t1))"

lemma clean_simps [simp]: "\<not> m_Dirty (clean compose t)" "m_WorldMatrix (clean compose t) = m_WorldMatrix t"
  "\<not> m_Dirty t \<Longrightarrow> clean compose t = t"
  by (simp_all add: clean_def UpdateMatrices_def)

section \<open>Propagation\<close>

type_synonym ('m, 'v, 'q) tmap = "entity \<rightharpoonup> ('m, 'v, 'q) transform"

text \<open>The head of \<open>UpdateTransform\<close>: the world matrix of the entity itself.\<close>

definition place ::
    "('v \<Rightarrow> 'q \<Rightarrow> 'v \<Rightarrow> 'm :: monoid_mult) \<Rightarrow> hierarchy \<Rightarrow> entity \<Rightarrow> ('m, 'v, 'q) tmap \<Rightarrow> ('m, 'v, 'q) tmap" where
  "place compose h e T = (case T e of None \<Rightarrow> T
     | Some t \<Rightarrow> (case h_Parent h of
         None \<Rightarrow> T(e \<mapsto> SetWorldMatrix compose 1 t)
       | Some p \<Rightarrow> (case T p of None \<Rightarrow> T
           | Some tp \<Rightarrow> (case GetWorldMatrix compose tp of (w, tp') \<Rightarrow>
               (let T1 = T(p \<mapsto> tp') in T1(e \<mapsto> SetWorldMatrix compose w (the (T1 e))))))))"

text \<open>The loop over the children and, inside it, the recursive call. The next sibling is read before
  the call; a child without the component ends the loop.\<close>

partial_function (option) update_children ::
    "('v \<Rightarrow> 'q \<Rightarrow> 'v \<Rightarrow> 'm :: monoid_mult) \<Rightarrow> hmap \<Rightarrow> entity option \<Rightarrow> ('m, 'v, 'q) tmap \<Rightarrow> ('m, 'v, 'q) tmap option" where
  "update_children compose H child T = (case child of None \<Rightarrow> Some T
     | Some c \<Rightarrow> (case H c of None \<Rightarrow> Some T
         | Some h \<Rightarrow> Option.bind (update_children compose H (h_First h) (place compose h c T))
             (update_children compose H (h_Next h))))"

definition UpdateTransform ::
    "('v \<Rightarrow> 'q \<Rightarrow> 'v \<Rightarrow> 'm :: monoid_mult) \<Rightarrow> hmap \<Rightarrow> entity \<Rightarrow> ('m, 'v, 'q) tmap \<Rightarrow> ('m, 'v, 'q) tmap option" where
  "UpdateTransform compose H e T = (case H e of None \<Rightarrow> Some T
     | Some h \<Rightarrow> update_children compose H (h_First h) (place compose h e T))"

fun update_roots ::
    "('v \<Rightarrow> 'q \<Rightarrow> 'v \<Rightarrow> 'm :: monoid_mult) \<Rightarrow> hmap \<Rightarrow> entity list \<Rightarrow> ('m, 'v, 'q) tmap \<Rightarrow> ('m, 'v, 'q) tmap option" where
  "update_roots compose H [] T = Some T"
| "update_roots compose H (e # es) T =
    Option.bind (if H e \<noteq> None \<and> parent_of H e = None then UpdateTransform compose H e T else Some T)
      (update_roots compose H es)"

definition SceneGraph_Update ::
    "('v \<Rightarrow> 'q \<Rightarrow> 'v \<Rightarrow> 'm :: monoid_mult) \<Rightarrow> hmap \<Rightarrow> entity list \<Rightarrow> ('m, 'v, 'q) tmap \<Rightarrow> ('m, 'v, 'q) tmap option" where
  "SceneGraph_Update compose H view T =
    update_roots compose H (filter (\<lambda>e. H e \<noteq> None) view)
      (fold (\<lambda>e T. T(e \<mapsto> SetWorldMatrix compose 1 (the (T e)))) (filter (\<lambda>e. H e = None) view) T)"

section \<open>Subtrees\<close>

definition subtree :: "hmap \<Rightarrow> entity \<Rightarrow> entity set" where
  "subtree H e = {x. (e, x) \<in> (parent_rel H)\<^sup>*}"

lemma subtree_self [simp]: "e \<in> subtree H e"
  by (simp add: subtree_def)

lemma ancestors_comparable:
  assumes "(x, z) \<in> (parent_rel H)\<^sup>*" and "(y, z) \<in> (parent_rel H)\<^sup>*"
  shows "(x, y) \<in> (parent_rel H)\<^sup>* \<or> (y, x) \<in> (parent_rel H)\<^sup>*"
  using assms
proof (induction rule: rtrancl_induct)
  case (step a b)
  show ?case
  proof (cases "y = b")
    case True
    then show ?thesis using rtrancl_into_rtrancl [OF step(1,2)] by blast
  next
    case False
    with step(4) obtain c where c: "(y, c) \<in> (parent_rel H)\<^sup>*" "(c, b) \<in> parent_rel H" by (meson rtranclE)
    have "c = a" using step(2) c(2) by (simp add: parent_rel_iff)
    with c(1) have "(y, a) \<in> (parent_rel H)\<^sup>*" by simp
    then show ?thesis by (rule step(3))
  qed
qed simp

lemma forest_acyclic: "forest H \<Longrightarrow> (x, x) \<notin> (parent_rel H)\<^sup>+"
  using wf_acyclic [of "parent_rel H"] by (simp add: forest_def acyclic_def)

lemma parent_not_below: "forest H \<Longrightarrow> parent_of H x = Some p \<Longrightarrow> p \<notin> subtree H x"
proof
  assume f: "forest H" and p: "parent_of H x = Some p" "p \<in> subtree H x"
  then have "(p, x) \<in> parent_rel H" "(x, p) \<in> (parent_rel H)\<^sup>*" by (auto simp: parent_rel_iff subtree_def)
  then have "(p, p) \<in> (parent_rel H)\<^sup>+" by (meson rtrancl_into_trancl2)
  with forest_acyclic [OF f] show False by blast
qed

text \<open>Two different entities neither of which is below the other have disjoint subtrees; in particular
  siblings and roots have.\<close>

lemma siblings_disjoint:
  assumes "forest H" and "parent_of H x = parent_of H y" and "x \<noteq> y"
  shows "subtree H x \<inter> subtree H y = {}"
proof (rule ccontr)
  assume "subtree H x \<inter> subtree H y \<noteq> {}"
  then obtain z where "(x, z) \<in> (parent_rel H)\<^sup>*" "(y, z) \<in> (parent_rel H)\<^sup>*" by (auto simp: subtree_def)
  from ancestors_comparable [OF this] assms(3) have "(x, y) \<in> (parent_rel H)\<^sup>+ \<or> (y, x) \<in> (parent_rel H)\<^sup>+"
    by (auto simp: rtrancl_eq_or_trancl)
  moreover have False if r: "(a, b) \<in> (parent_rel H)\<^sup>+" "parent_of H a = parent_of H b" for a b
  proof -
    from r(1) obtain p where p: "(a, p) \<in> (parent_rel H)\<^sup>*" "(p, b) \<in> parent_rel H" by (meson tranclD2)
    then have "parent_of H a = Some p" using r(2) by (simp add: parent_rel_iff)
    from parent_not_below [OF assms(1) this] p(1) show False by (simp add: subtree_def)
  qed
  ultimately show False using assms(2) by metis
qed

lemma subtree_unfold: "hier_inv H ch \<Longrightarrow> subtree H e = insert e (\<Union>c \<in> set (ch e). subtree H c)"
proof
  assume i: "hier_inv H ch"
  show "subtree H e \<subseteq> insert e (\<Union>c \<in> set (ch e). subtree H c)"
  proof
    fix x assume "x \<in> subtree H e"
    then have "(e, x) \<in> (parent_rel H)\<^sup>*" by (simp add: subtree_def)
    then show "x \<in> insert e (\<Union>c \<in> set (ch e). subtree H c)"
    proof (cases rule: converse_rtranclE)
      case (step c)
      then have "c \<in> set (ch e)" by (simp add: hier_invD(3) [OF i] parent_rel_iff)
      with step show ?thesis by (auto simp: subtree_def)
    qed simp
  qed
  show "insert e (\<Union>c \<in> set (ch e). subtree H c) \<subseteq> subtree H e"
  proof
    fix x assume "x \<in> insert e (\<Union>c \<in> set (ch e). subtree H c)"
    then consider "x = e" | c where "c \<in> set (ch e)" "(c, x) \<in> (parent_rel H)\<^sup>*" by (auto simp: subtree_def)
    then show "x \<in> subtree H e"
    proof cases
      case 2
      then have "(e, c) \<in> parent_rel H" by (simp add: hier_invD(3) [OF i] parent_rel_iff)
      with 2 show ?thesis by (auto simp: subtree_def intro: converse_rtrancl_into_rtrancl)
    qed simp
  qed
qed

lemma parent_in_subtree:
  assumes "x \<in> subtree H e" and "x \<noteq> e" and "parent_of H x = Some p"
  shows "p \<in> subtree H e"
proof -
  from assms(1,2) obtain q where "(e, q) \<in> (parent_rel H)\<^sup>*" "(q, x) \<in> parent_rel H"
    by (auto simp: subtree_def elim: rtranclE)
  with assms(3) show ?thesis by (auto simp: parent_rel_iff subtree_def)
qed

section \<open>Correctness of the propagation\<close>

text \<open>What the transform of \<open>x\<close> should be after an update that started from \<open>T\<close>.\<close>

definition world_of :: "hmap \<Rightarrow> ('m :: monoid_mult, 'v, 'q) tmap \<Rightarrow> entity \<Rightarrow> 'm" where
  "world_of H T x = (case parent_of H x of None \<Rightarrow> 1 | Some p \<Rightarrow> m_WorldMatrix (the (T p)))"

text \<open>What reading a transform may do to it: the getters bring a stale local matrix up to date.\<close>

definition same :: "('v \<Rightarrow> 'q \<Rightarrow> 'v \<Rightarrow> 'm :: monoid_mult) \<Rightarrow> ('m, 'v, 'q) tmap \<Rightarrow> ('m, 'v, 'q) tmap \<Rightarrow> entity \<Rightarrow> bool" where
  "same compose T T' x \<longleftrightarrow> T' x = T x \<or> T' x = map_option (clean compose) (T x)"

text \<open>The parent has no transform to take a world matrix from.\<close>

definition orphan :: "hmap \<Rightarrow> ('m, 'v, 'q) tmap \<Rightarrow> entity \<Rightarrow> bool" where
  "orphan H T x \<longleftrightarrow> (case parent_of H x of None \<Rightarrow> False | Some p \<Rightarrow> T p = None)"

definition placed :: "('v \<Rightarrow> 'q \<Rightarrow> 'v \<Rightarrow> 'm :: monoid_mult) \<Rightarrow> hmap \<Rightarrow> ('m, 'v, 'q) tmap \<Rightarrow> ('m, 'v, 'q) tmap \<Rightarrow> entity \<Rightarrow> bool" where
  "placed compose H T T' x \<longleftrightarrow> (if orphan H T x then same compose T T' x
     else T' x = map_option (SetWorldMatrix compose (world_of H T' x)) (T x))"

text \<open>An update of the entities of \<open>S\<close>: it places everything in \<open>S\<close> and at most reads anything else.\<close>

definition updates :: "('v \<Rightarrow> 'q \<Rightarrow> 'v \<Rightarrow> 'm :: monoid_mult) \<Rightarrow> hmap \<Rightarrow> entity set \<Rightarrow> ('m, 'v, 'q) tmap \<Rightarrow> ('m, 'v, 'q) tmap \<Rightarrow> bool" where
  "updates compose H S T T' \<longleftrightarrow> (\<forall>x. x \<notin> S \<longrightarrow> same compose T T' x) \<and> (\<forall>x \<in> S. placed compose H T T' x)"

lemma SetWorldMatrix_clean [simp]: "\<not> m_Dirty (SetWorldMatrix compose m t)"
  by (simp add: SetWorldMatrix_def Let_def)

lemma clean_clean [simp]: "clean compose (clean compose t) = clean compose t"
  "clean compose (SetWorldMatrix compose m t) = SetWorldMatrix compose m t"
  "SetWorldMatrix compose m (clean compose t) = SetWorldMatrix compose m t"
  by (simp_all add: SetWorldMatrix_def Let_def)

lemma same_refl [simp]: "same compose T T x"
  by (simp add: same_def)

lemma updates_nothing [simp]: "updates compose H {} T T"
  unfolding updates_def by (intro conjI allI impI ballI same_refl) simp

lemma same_trans: "same compose T T1 x \<Longrightarrow> same compose T1 T2 x \<Longrightarrow> same compose T T2 x"
  by (cases "T x") (auto simp: same_def)

lemma same_None: "same compose T T' x \<Longrightarrow> T' x = None \<longleftrightarrow> T x = None"
  by (auto simp: same_def)

lemma same_world: "same compose T T' x \<Longrightarrow> m_WorldMatrix (the (T' x)) = m_WorldMatrix (the (T x))"
  by (cases "T x") (auto simp: same_def)

lemma place_updates:
  assumes fo: "forest H" and h: "H e = Some h"
  shows "updates compose H {e} T (place compose h e T)"
proof (cases "T e")
  case None
  then show ?thesis by (simp add: place_def updates_def placed_def)
next
  case t: (Some t)
  show ?thesis
  proof (cases "h_Parent h")
    case None
    with t h show ?thesis by (simp add: place_def updates_def placed_def world_of_def parent_of_def orphan_def same_def)
  next
    case (Some p)
    then have p: "parent_of H e = Some p" using h by (simp add: parent_of_def)
    have "p \<noteq> e" using forest_irrefl [OF fo, of e] p by auto
    with t p Some show ?thesis
      by (cases "T p") (auto simp: place_def updates_def placed_def world_of_def orphan_def same_def GetWorldMatrix_def Let_def)
  qed
qed

lemma updates_None: "updates compose H S T T' \<Longrightarrow> T' x = None \<longleftrightarrow> T x = None"
  by (cases "x \<in> S") (auto simp: updates_def placed_def dest: same_None split: if_splits)

lemma updates_dom: "updates compose H S T T' \<Longrightarrow> dom T' = dom T"
  by (auto simp: dom_def updates_None)

lemma updates_orphan: "updates compose H S T T' \<Longrightarrow> orphan H T' x \<longleftrightarrow> orphan H T x"
  by (simp add: orphan_def updates_None split: option.splits)

text \<open>Updates of disjoint parts, the first of which holds or precedes the parents of the second, compose.\<close>

lemma updates_compose:
  assumes u1: "updates compose H A T T1" and u2: "updates compose H B T1 T2" and d: "A \<inter> B = {}"
    and par: "\<And>x p. x \<in> A \<Longrightarrow> parent_of H x = Some p \<Longrightarrow> p \<notin> B"
  shows "updates compose H (A \<union> B) T T2"
  unfolding updates_def
proof (intro conjI allI ballI impI)
  fix x assume "x \<notin> A \<union> B"
  then show "same compose T T2 x" using u1 u2 by (auto simp: updates_def intro: same_trans)
next
  fix x assume x: "x \<in> A \<union> B"
  show "placed compose H T T2 x"
  proof (cases "x \<in> A")
    case True
    then have s: "same compose T1 T2 x" using u2 d by (auto simp: updates_def)
    have w: "world_of H T2 x = world_of H T1 x"
      using u2 par [OF True] same_world [of compose T1 T2] by (auto simp: updates_def world_of_def split: option.splits)
    have "placed compose H T T1 x" using u1 True by (simp add: updates_def)
    with s w show ?thesis by (cases "T x") (auto simp: placed_def same_def split: if_splits)
  next
    case False
    then have s: "same compose T T1 x" using u1 by (simp add: updates_def)
    have "placed compose H T1 T2 x" using u2 x False by (simp add: updates_def)
    with s updates_orphan [OF u1, of x] show ?thesis by (cases "T x") (auto simp: placed_def same_def split: if_splits)
  qed
qed

text \<open>The loop over the children, given that it works for each child's subtree.\<close>

lemma update_siblings:
  assumes inv: "hier_inv H ch" and fo: "forest H"
    and IH: "\<And>c T h. c \<in> set cs \<Longrightarrow> H c = Some h \<Longrightarrow>
      \<exists>T'. update_children compose H (h_First h) (place compose h c T) = Some T' \<and> updates compose H (subtree H c) T T'"
    and s: "seg H p pv cur cs l None" and sub: "set cs \<subseteq> set (ch p)" and dis: "distinct cs"
  shows "\<exists>T'. update_children compose H cur T = Some T' \<and> updates compose H (\<Union>c \<in> set cs. subtree H c) T T'"
  using IH s sub dis
proof (induction cs arbitrary: pv cur T)
  case Nil
  then show ?case by (simp add: update_children.simps [of _ H None])
next
  case (Cons c cs)
  then obtain n where n: "cur = Some c" "link H c = Some (Some p, pv, n)" "seg H p (Some c) n cs l None" by auto
  then obtain h where h: "H c = Some h" "h_Next h = n" by (auto simp: link_def)
  have par: "parent_of H x = Some p" if "x \<in> set (c # cs)" for x
    using that Cons.prems(3) hier_invD(3) [OF inv, of x p] by auto
  have pn: "p \<notin> subtree H x" if "x \<in> set (c # cs)" for x by (rule parent_not_below [OF fo par [OF that]])
  obtain T1 where T1: "update_children compose H (h_First h) (place compose h c T) = Some T1"
    "updates compose H (subtree H c) T T1" using Cons.prems(1) [of c h T] h(1) by auto
  have "\<exists>T2. update_children compose H n T1 = Some T2 \<and> updates compose H (\<Union>c \<in> set cs. subtree H c) T1 T2"
    by (rule Cons.IH [OF _ n(3)]) (use Cons.prems in auto)
  then obtain T2 where T2: "update_children compose H n T1 = Some T2"
    "updates compose H (\<Union>c \<in> set cs. subtree H c) T1 T2" by blast
  have "subtree H c \<inter> (\<Union>c \<in> set cs. subtree H c) = {}"
  proof -
    have "subtree H c \<inter> subtree H y = {}" if "y \<in> set cs" for y
      using siblings_disjoint [OF fo, of c y] par that Cons.prems(4) by auto
    then show ?thesis by blast
  qed
  moreover have "q \<notin> (\<Union>c \<in> set cs. subtree H c)" if x: "x \<in> subtree H c" "parent_of H x = Some q" for x q
  proof (cases "x = c")
    case True
    with x par [of c] pn show ?thesis by auto
  next
    case False
    with parent_in_subtree [OF x(1) False x(2)] calculation show ?thesis by blast
  qed
  ultimately have "updates compose H (subtree H c \<union> (\<Union>c \<in> set cs. subtree H c)) T T2"
    using updates_compose [OF T1(2) T2(2)] by blast
  then show ?case using T1(1) T2(1) n(1) h by (simp add: update_children.simps [of _ H "Some c"])
qed

lemma subtree_update:
  assumes inv: "hier_inv H ch" and fo: "forest H" and fin: "finite (dom H)" and h: "H e = Some h"
  shows "\<exists>T'. update_children compose H (h_First h) (place compose h e T) = Some T' \<and> updates compose H (subtree H e) T T'"
proof -
  have wf: "wf ((parent_rel H)\<inverse>)" by (rule wf_children [OF inv fo fin])
  show ?thesis using h
  proof (induction e arbitrary: h T rule: wf_induct_rule [OF wf])
    case (1 e)
    let ?T1 = "place compose h e T"
    have u1: "updates compose H {e} T ?T1" by (rule place_updates [OF fo 1(2)])
    have fe: "first_of H e = h_First h" using 1(2) by (simp add: first_of_def)
    obtain l where s: "seg H e None (h_First h) (ch e) l None" using hier_invD(2) [OF inv, of e] fe by auto
    have par: "c \<in> set (ch e) \<Longrightarrow> parent_of H c = Some e" for c by (simp add: hier_invD(3) [OF inv])
    have "\<exists>T'. update_children compose H (h_First h) ?T1 = Some T' \<and> updates compose H (\<Union>c \<in> set (ch e). subtree H c) ?T1 T'"
    proof (rule update_siblings [OF inv fo _ s order_refl hier_invD(1) [OF inv]])
      fix c h and T :: "('a, 'b, 'c) tmap" assume c: "c \<in> set (ch e)" "H c = Some h"
      show "\<exists>T'. update_children compose H (h_First h) (place compose h c T) = Some T' \<and> updates compose H (subtree H c) T T'"
        by (rule 1(1) [OF _ c(2)]) (use par [OF c(1)] in \<open>auto simp: parent_rel_iff\<close>)
    qed
    then obtain T' where T': "update_children compose H (h_First h) ?T1 = Some T'"
      "updates compose H (\<Union>c \<in> set (ch e). subtree H c) ?T1 T'" by blast
    have "e \<notin> subtree H c" if "c \<in> set (ch e)" for c by (rule parent_not_below [OF fo par [OF that]])
    moreover have "p \<notin> subtree H c" if "parent_of H e = Some p" "c \<in> set (ch e)" for p c
    proof
      assume "p \<in> subtree H c"
      then have "(c, e) \<in> (parent_rel H)\<^sup>*" using that(1) by (auto simp: subtree_def parent_rel_iff intro: rtrancl_into_rtrancl)
      with parent_not_below [OF fo par [OF that(2)]] show False by (simp add: subtree_def)
    qed
    ultimately have "updates compose H ({e} \<union> (\<Union>c \<in> set (ch e). subtree H c)) T T'"
      by (intro updates_compose [OF u1 T'(2)]) auto
    then show ?case using T'(1) subtree_unfold [OF inv, of e] by simp
  qed
qed

lemma flat_updates:
  "distinct es \<Longrightarrow> set es \<inter> dom H = {} \<Longrightarrow> set es \<subseteq> dom T \<Longrightarrow>
    updates compose H (set es) T (fold (\<lambda>e T. T(e \<mapsto> SetWorldMatrix compose 1 (the (T e)))) es T)"
proof (induction es arbitrary: T)
  case Nil
  then show ?case by simp
next
  case (Cons e es)
  let ?T1 = "T(e \<mapsto> SetWorldMatrix compose 1 (the (T e)))"
  have pn: "parent_of H x = None" if "x \<in> set (e # es)" for x
    using that Cons.prems(2) by (auto simp: parent_of_def split: option.splits)
  have "updates compose H {e} T ?T1"
    using Cons.prems pn [of e] by (auto simp: updates_def placed_def world_of_def orphan_def same_def)
  moreover have "updates compose H (set es) ?T1 (fold (\<lambda>e T. T(e \<mapsto> SetWorldMatrix compose 1 (the (T e)))) es ?T1)"
    by (rule Cons.IH) (use Cons.prems in \<open>auto split: if_splits\<close>)
  ultimately have "updates compose H ({e} \<union> set es) T (fold (\<lambda>e T. T(e \<mapsto> SetWorldMatrix compose 1 (the (T e)))) es ?T1)"
    by (rule updates_compose) (use Cons.prems pn in auto)
  then show ?case by (simp del: fun_upd_apply)
qed

lemma roots_update:
  assumes inv: "hier_inv H ch" and fo: "forest H" and fin: "finite (dom H)"
  shows "distinct es \<Longrightarrow> set es \<subseteq> dom H \<Longrightarrow>
    \<exists>T'. update_roots compose H es T = Some T'
      \<and> updates compose H (\<Union>e \<in> {e \<in> set es. parent_of H e = None}. subtree H e) T T'"
proof (induction es arbitrary: T)
  case Nil
  then show ?case by simp
next
  case (Cons e es)
  let ?U = "\<lambda>es. \<Union>e \<in> {e \<in> set es. parent_of H e = None}. subtree H e"
  obtain h where h: "H e = Some h" using Cons.prems(2) by auto
  show ?case
  proof (cases "parent_of H e")
    case (Some p)
    then have "?U (e # es) = ?U es" by auto
    with Cons Some show ?thesis by simp
  next
    case None
    from subtree_update [OF inv fo fin h, of compose T] obtain T1 where
      T1: "UpdateTransform compose H e T = Some T1" "updates compose H (subtree H e) T T1"
      using h by (auto simp: UpdateTransform_def)
    obtain T2 where T2: "update_roots compose H es T1 = Some T2" "updates compose H (?U es) T1 T2"
      using Cons.IH [of T1] Cons.prems by auto
    have dis: "subtree H e \<inter> ?U es = {}"
    proof -
      have "subtree H e \<inter> subtree H y = {}" if "y \<in> set es" "parent_of H y = None" for y
        using siblings_disjoint [OF fo, of e y] None that Cons.prems(1) by auto
      then show ?thesis by blast
    qed
    have "p \<notin> ?U es" if "x \<in> subtree H e" "parent_of H x = Some p" for x p
    proof (cases "x = e")
      case False
      from parent_in_subtree [OF that(1) False that(2)] dis show ?thesis by blast
    qed (use that None in simp)
    then have "updates compose H (subtree H e \<union> ?U es) T T2"
      by (intro updates_compose [OF T1(2) T2(2) dis]) blast
    moreover have "?U (e # es) = subtree H e \<union> ?U es" using None by auto
    ultimately show ?thesis using T1(1) T2(1) h None by simp
  qed
qed

text \<open>The entities that the update visits, and those among them that it places: their parent has a transform
  as well.\<close>

definition visited :: "hmap \<Rightarrow> ('m, 'v, 'q) tmap \<Rightarrow> entity set" where
  "visited H T = {x. \<exists>r. T r \<noteq> None \<and> parent_of H r = None \<and> x \<in> subtree H r}"

lemma SceneGraph_Update_ok:
  assumes inv: "hier_inv H ch" and fo: "forest H" and fin: "finite (dom H)" and view: "set view = dom T" "distinct view"
  shows "\<exists>T'. SceneGraph_Update compose H view T = Some T' \<and> updates compose H (visited H T) T T'"
proof -
  let ?flat = "filter (\<lambda>e. H e = None) view" and ?hs = "filter (\<lambda>e. H e \<noteq> None) view"
  let ?T1 = "fold (\<lambda>e T. T(e \<mapsto> SetWorldMatrix compose 1 (the (T e)))) ?flat T"
  let ?U = "\<Union>e \<in> {e \<in> set ?hs. parent_of H e = None}. subtree H e"
  have u1: "updates compose H (set ?flat) T ?T1" by (rule flat_updates) (use view in auto)
  obtain T2 where T2: "update_roots compose H ?hs ?T1 = Some T2" "updates compose H ?U ?T1 T2"
    using roots_update [OF inv fo fin, of ?hs compose ?T1] view by auto
  have below: "x \<in> dom H" if "x \<in> subtree H e" "x \<noteq> e" for x e
  proof -
    from that have "(e, x) \<in> (parent_rel H)\<^sup>*" by (simp add: subtree_def)
    then show "x \<in> dom H"
    proof cases
      case (step y)
      then have "x \<in> set (ch y)" by (simp add: hier_invD(3) [OF inv] parent_rel_iff)
      then show ?thesis using children_dom [OF inv] by blast
    qed (use that in simp)
  qed
  have childless: "subtree H e = {e}" if e: "H e = None" for e
  proof -
    have "x = e" if "(e, x) \<in> (parent_rel H)\<^sup>*" for x
      using that
    proof (cases rule: converse_rtranclE)
      case (step y)
      then have "y \<in> set (ch e)" by (simp add: hier_invD(3) [OF inv] parent_rel_iff)
      then show ?thesis using children_dom [OF inv] e by blast
    qed simp
    then show ?thesis by (auto simp: subtree_def)
  qed
  have "?U \<subseteq> dom H" using below by fastforce
  then have "updates compose H (set ?flat \<union> ?U) T T2"
    using T2(2) u1 by (intro updates_compose [of compose H "set ?flat" T ?T1]) (auto simp: parent_of_def)
  moreover have "set ?flat \<union> ?U = visited H T"
  proof
    have r: "parent_of H x = None" if "H x = None" for x using that by (simp add: parent_of_def)
    show "set ?flat \<union> ?U \<subseteq> visited H T"
    proof
      fix x assume "x \<in> set ?flat \<union> ?U"
      then consider "H x = None" "T x \<noteq> None" | e where "T e \<noteq> None" "parent_of H e = None" "x \<in> subtree H e"
        using view by auto
      then show "x \<in> visited H T" by cases (use r in \<open>auto simp: visited_def intro: exI [of _ x]\<close>)
    qed
    show "visited H T \<subseteq> set ?flat \<union> ?U"
    proof
      fix x assume "x \<in> visited H T"
      then obtain e where e: "T e \<noteq> None" "parent_of H e = None" "x \<in> subtree H e" by (auto simp: visited_def)
      then show "x \<in> set ?flat \<union> ?U" using view childless [of e] by (cases "H e") auto
    qed
  qed
  ultimately show ?thesis using T2(1) by (simp add: SceneGraph_Update_def)
qed

text \<open>Property C6. \<open>SceneGraph::Update\<close> after any \<open>SetParent\<close> calls, whatever the order of the registry's view and whichever
  entities have a transform, returns. An entity whose parent and topmost ancestor have transforms (a root that has
  one, for example) is placed: its local matrix is not stale and its world matrix is that of its parent times its
  local matrix, or its local matrix if it has no parent. Every other entity keeps its world matrix,
  and at most its local matrix is brought up to date.\<close>

theorem scene_update_places_all:
  assumes "set_parents valid es Map.empty = Some (Inr H)" and "\<forall>(e, p) \<in> set es. e \<in> valid \<and> p \<in> valid"
    and "finite valid" and "set view = dom T" and "distinct view"
  shows "\<exists>T'. SceneGraph_Update compose H view T = Some T' \<and> dom T' = dom T \<and>
    (\<forall>x t. T' x = Some t \<longrightarrow>
      (if x \<in> visited H T \<and> (case parent_of H x of None \<Rightarrow> True | Some p \<Rightarrow> p \<in> dom T)
       then \<not> m_Dirty t \<and> m_LocalMatrix t = m_LocalMatrix (clean compose (the (T x)))
         \<and> m_WorldMatrix t = (case parent_of H x of None \<Rightarrow> m_LocalMatrix t
             | Some p \<Rightarrow> m_WorldMatrix (the (T' p)) * m_LocalMatrix t)
       else m_WorldMatrix t = m_WorldMatrix (the (T x)) \<and> (t = the (T x) \<or> t = clean compose (the (T x)))))"
proof -
  from set_parents_ok [OF empty_scene, of valid es] assms(1,2) have
    H: "forest H" "hier_inv H (move_all es (\<lambda>p. []))" "dom H \<subseteq> valid" by auto
  obtain T' where T': "SceneGraph_Update compose H view T = Some T'" "updates compose H (visited H T) T T'"
    using SceneGraph_Update_ok [OF H(2,1) _ assms(4,5)] H(3) assms(3) by (meson finite_subset subset_trans)
  have o: "orphan H T x \<longleftrightarrow> \<not> (case parent_of H x of None \<Rightarrow> True | Some p \<Rightarrow> p \<in> dom T)" for x
    by (auto simp: orphan_def split: option.splits)
  have "if x \<in> visited H T \<and> (case parent_of H x of None \<Rightarrow> True | Some p \<Rightarrow> p \<in> dom T)
       then \<not> m_Dirty t \<and> m_LocalMatrix t = m_LocalMatrix (clean compose (the (T x)))
         \<and> m_WorldMatrix t = (case parent_of H x of None \<Rightarrow> m_LocalMatrix t
             | Some p \<Rightarrow> m_WorldMatrix (the (T' p)) * m_LocalMatrix t)
       else m_WorldMatrix t = m_WorldMatrix (the (T x)) \<and> (t = the (T x) \<or> t = clean compose (the (T x)))"
    if x: "T' x = Some t" for x t
  proof -
    obtain t0 where t0: "T x = Some t0" using x updates_dom [OF T'(2)] by blast
    show ?thesis
    proof (cases "x \<in> visited H T \<and> \<not> orphan H T x")
      case True
      then have "t = SetWorldMatrix compose (world_of H T' x) t0"
        using x t0 T'(2) by (auto simp: updates_def placed_def)
      with True o show ?thesis by (simp add: t0 SetWorldMatrix_def Let_def world_of_def split: option.splits)
    next
      case False
      then have s: "same compose T T' x" using T'(2) by (cases "x \<in> visited H T") (auto simp: updates_def placed_def)
      with False o x t0 same_world [OF s] show ?thesis by (auto simp: same_def)
    qed
  qed
  then show ?thesis using T' updates_dom [OF T'(2)] by blast
qed

theorem scene_update_places_all_witness:
  "\<exists>H T'. set_parents {0, 1} [(1, 0)] Map.empty = Some (Inr H)
     \<and> SceneGraph_Update (\<lambda>p q s. p) H [0, 1]
         [0 \<mapsto> SetLocalPosition 2 (transform_new 0 1 ()), 1 \<mapsto> SetLocalPosition (3 :: int) (transform_new 0 1 ())] = Some T'
     \<and> dom T' = {0, 1}"
proof -
  let ?T = "[0 \<mapsto> SetLocalPosition 2 (transform_new 0 1 ()), 1 \<mapsto> SetLocalPosition (3 :: int) (transform_new 0 1 ())]"
  have v: "\<forall>(e, p) \<in> set [(1, 0)]. e \<in> {0, 1 :: nat} \<and> p \<in> {0, 1 :: nat}" by simp
  from set_parents_ok [OF empty_scene, of "{0, 1}" "[(1, 0)]"] obtain H where
    H: "set_parents {0, 1} [(1, 0)] Map.empty = Some (Inr H)" by auto
  have "\<exists>T'. SceneGraph_Update (\<lambda>p q s. p) H [0, 1] ?T = Some T' \<and> dom T' = dom ?T"
    using scene_update_places_all [OF H v, of "[0, 1]" ?T "\<lambda>p q s. p"] by auto
  with H show ?thesis by auto
qed

end
