(* ===== verification/SceneManagement.thy ===== *)
theory SceneManagement
  imports Vfs
begin

text \<open>
  The scene manager (\<open>Scene/SceneManager.*\<close>). A scene is its name and the flag \<open>HasCppClass\<close>; the
  current scene is a position in the list of scenes, which only grows. What \<open>ApplySceneSwitch\<close> asks of
  the scenes, the physics engines and the application is recorded as a trace of events. The list is
  taken to have fewer than 2^31 entries, so that sizes fit an \<open>int\<close>.
\<close>

record scene =
  scene_name :: string
  has_cpp_class :: bool

datatype sm_event =
    CleanupScene nat
  | AppExitScene
  | PhysicsPaused bool
  | PhysicsDefaults
  | B2Defaults
  | Deserialise nat string
  | ScreenSize nat "u32 \<times> u32"
  | InitScene nat
  | NewScene nat

record scene_manager =
  m_SceneIdx :: u32
  m_CurrentScene :: "nat option"
  m_vpAllScenes :: "scene list"
  m_SceneFilePaths :: "string list"
  m_SceneFilePathsToLoad :: "string list"
  m_SwitchingScenes :: bool
  m_QueuedSceneIndex :: int
  sm_trace :: "sm_event list"

text \<open>What the manager sees of the rest of the engine: the file system, the window and the editor.\<close>

record sm_env =
  env_FolderExists :: "string \<Rightarrow> bool"
  env_FileExists :: "string \<Rightarrow> bool"
  env_mounts :: mounts
  env_window :: "u32 \<times> u32"
  env_playing :: bool

definition scene_manager_new :: scene_manager where
  "scene_manager_new = \<lparr>m_SceneIdx = 0, m_CurrentScene = None, m_vpAllScenes = [], m_SceneFilePaths = [],
     m_SceneFilePathsToLoad = [], m_SwitchingScenes = False, m_QueuedSceneIndex = - 1, sm_trace = []\<rparr>"

definition scene_manager_destroy :: "scene_manager \<Rightarrow> scene_manager" where
  "scene_manager_destroy s = s\<lparr>m_SceneIdx := 0,
     sm_trace := sm_trace s @ (case m_CurrentScene s of None \<Rightarrow> [] | Some c \<Rightarrow> [CleanupScene c]),
     m_vpAllScenes := []\<rparr>"

definition SwitchScene_index :: "int \<Rightarrow> scene_manager \<Rightarrow> scene_manager" where
  "SwitchScene_index idx s = s\<lparr>m_QueuedSceneIndex := idx, m_SwitchingScenes := True\<rparr>"

definition SwitchScene_next :: "scene_manager \<Rightarrow> scene_manager res" where
  "SwitchScene_next s = (if m_vpAllScenes s = [] then fail DivByZero
     else ok (SwitchScene_index (int (unat (m_SceneIdx s + 1) mod length (m_vpAllScenes s))) s))"

fun find_scene :: "string \<Rightarrow> scene list \<Rightarrow> nat \<Rightarrow> nat option" where
  "find_scene name [] i = None"
| "find_scene name (sc # scs) i = (if scene_name sc = name then Some i else find_scene name scs (i + 1))"

definition SwitchScene_name :: "string \<Rightarrow> scene_manager \<Rightarrow> scene_manager" where
  "SwitchScene_name name s = (let s1 = s\<lparr>m_SwitchingScenes := True\<rparr> in
     case find_scene name (m_vpAllScenes s) 0 of
       Some idx \<Rightarrow> SwitchScene_index (int idx) s1
     | None \<Rightarrow> s1)"

text \<open>The head of \<open>ApplySceneSwitch\<close>: nothing to do, or the index to switch to.\<close>

definition queued_index :: "scene_manager \<Rightarrow> scene_manager option" where
  "queued_index s =
    (let s1 = (if \<not> m_SwitchingScenes s then
                (if m_CurrentScene s \<noteq> None then None
                 else let s' = (if m_vpAllScenes s = []
                        then s\<lparr>m_vpAllScenes := [\<lparr>scene_name = ''NewScene'', has_cpp_class = True\<rparr>]\<rparr> else s)
                      in Some (s'\<lparr>m_QueuedSceneIndex := 0\<rparr>))
              else Some s)
     in map_option (\<lambda>s. if m_QueuedSceneIndex s < 0 \<or> m_QueuedSceneIndex s \<ge> int (length (m_vpAllScenes s))
          then s\<lparr>m_QueuedSceneIndex := 0\<rparr> else s) s1)"

definition ApplySceneSwitch :: "sm_env \<Rightarrow> scene_manager \<Rightarrow> scene_manager res" where
  "ApplySceneSwitch env s = (case queued_index s of None \<Rightarrow> ok s
     | Some s1 \<Rightarrow>
        (let leave = (case m_CurrentScene s1 of None \<Rightarrow> []
               | Some c \<Rightarrow> [PhysicsPaused True, CleanupScene c, AppExitScene]);
             i = nat (m_QueuedSceneIndex s1)
         in if length (m_vpAllScenes s1) \<le> i then fail OutOfRange
            else rbind (ResolvePhysicalPath (env_FolderExists env) (env_FileExists env) (env_mounts env)
                    (''//Scenes/'' @ scene_name (m_vpAllScenes s1 ! i) @ ''.lsn'') False) (\<lambda>(found, p).
              ok (s1\<lparr>m_SceneIdx := word_of_nat i, m_CurrentScene := Some i, m_SwitchingScenes := False,
                sm_trace := sm_trace s1 @ leave @ [PhysicsDefaults, B2Defaults, PhysicsPaused False]
                  @ (if found then [Deserialise i (RemoveName (the p))] else [])
                  @ [ScreenSize i (env_window env)]
                  @ (if env_playing env then [InitScene i] else [])
                  @ [NewScene i]\<rparr>))))"

definition GetSceneNames :: "scene_manager \<Rightarrow> string list" where
  "GetSceneNames s = map scene_name (m_vpAllScenes s)"

definition EnqueueScene :: "scene \<Rightarrow> scene_manager \<Rightarrow> scene_manager" where
  "EnqueueScene sc s = s\<lparr>m_vpAllScenes := m_vpAllScenes s @ [sc]\<rparr>"

definition EnqueueSceneFromFile :: "string \<Rightarrow> scene_manager \<Rightarrow> scene_manager" where
  "EnqueueSceneFromFile filePath s =
    EnqueueScene \<lparr>scene_name = RemoveFilePathExtension (GetFileName filePath), has_cpp_class = False\<rparr>
      (s\<lparr>m_SceneFilePaths := m_SceneFilePaths s @ [filePath]\<rparr>)"

definition AddFileToLoadList :: "string \<Rightarrow> scene_manager \<Rightarrow> scene_manager" where
  "AddFileToLoadList filePath s = s\<lparr>m_SceneFilePathsToLoad := m_SceneFilePathsToLoad s @ [filePath]\<rparr>"

text \<open>The virtual path is computed and then not used.\<close>

definition LoadCurrentList :: "scene_manager \<Rightarrow> scene_manager" where
  "LoadCurrentList s = (fold EnqueueSceneFromFile (m_SceneFilePathsToLoad s) s)\<lparr>m_SceneFilePathsToLoad := []\<rparr>"

section \<open>The life cycle of scenes\<close>

datatype sm_op = SwitchNext | SwitchTo int | SwitchByName string | Apply | Enqueue scene | EnqueueFile string
  | AddFile string | LoadList

fun sm_step :: "sm_env \<Rightarrow> sm_op \<Rightarrow> scene_manager \<Rightarrow> scene_manager res" where
  "sm_step env SwitchNext s = SwitchScene_next s"
| "sm_step env (SwitchTo i) s = ok (SwitchScene_index i s)"
| "sm_step env (SwitchByName n) s = ok (SwitchScene_name n s)"
| "sm_step env Apply s = ApplySceneSwitch env s"
| "sm_step env (Enqueue sc) s = ok (EnqueueScene sc s)"
| "sm_step env (EnqueueFile f) s = ok (EnqueueSceneFromFile f s)"
| "sm_step env (AddFile f) s = ok (AddFileToLoadList f s)"
| "sm_step env LoadList s = ok (LoadCurrentList s)"

fun sm_run :: "sm_env \<Rightarrow> sm_op list \<Rightarrow> scene_manager \<Rightarrow> scene_manager res" where
  "sm_run env [] s = ok s"
| "sm_run env (x # xs) s = rbind (sm_step env x s) (sm_run env xs)"

text \<open>Reading a trace: which scene is live after it, and \<open>None\<close> if some scene was entered while another
  was live or left while it was not.\<close>

fun live_after :: "nat option \<Rightarrow> sm_event list \<Rightarrow> nat option option" where
  "live_after cur [] = Some cur"
| "live_after cur (NewScene i # es) = (if cur = None then live_after (Some i) es else None)"
| "live_after cur (CleanupScene i # es) = (if cur = Some i then live_after None es else None)"
| "live_after cur (e # es) = live_after cur es"

definition sm_inv :: "scene_manager \<Rightarrow> bool" where
  "sm_inv s \<longleftrightarrow> live_after None (sm_trace s) = Some (m_CurrentScene s)
     \<and> (case m_CurrentScene s of None \<Rightarrow> m_SceneIdx s = 0
        | Some c \<Rightarrow> c < length (m_vpAllScenes s) \<and> m_SceneIdx s = word_of_nat c)"

lemma live_after_append: "live_after cur (es @ fs) = Option.bind (live_after cur es) (\<lambda>c. live_after c fs)"
  by (induction cur es rule: live_after.induct) auto

lemma enqueue_file_simps:
  "sm_trace (EnqueueSceneFromFile f s) = sm_trace s"
  "m_CurrentScene (EnqueueSceneFromFile f s) = m_CurrentScene s"
  "m_SceneIdx (EnqueueSceneFromFile f s) = m_SceneIdx s"
  "length (m_vpAllScenes (EnqueueSceneFromFile f s)) = Suc (length (m_vpAllScenes s))"
  by (simp_all add: EnqueueSceneFromFile_def EnqueueScene_def)

lemma fold_enqueue:
  "sm_trace (fold EnqueueSceneFromFile fs s) = sm_trace s \<and> m_CurrentScene (fold EnqueueSceneFromFile fs s) = m_CurrentScene s
   \<and> m_SceneIdx (fold EnqueueSceneFromFile fs s) = m_SceneIdx s
   \<and> length (m_vpAllScenes s) \<le> length (m_vpAllScenes (fold EnqueueSceneFromFile fs s))"
  by (induction fs rule: rev_induct) (simp_all add: enqueue_file_simps le_SucI)

lemma queued_index_Some:
  assumes "queued_index s = Some s1"
  shows "sm_trace s1 = sm_trace s \<and> m_CurrentScene s1 = m_CurrentScene s \<and> m_SceneIdx s1 = m_SceneIdx s"
  using assms by (auto simp: queued_index_def Let_def split: if_splits)

lemma apply_inv:
  assumes "sm_inv s" and r: "ApplySceneSwitch env s = Inr s'"
  shows "sm_inv s'"
proof (cases "queued_index s")
  case None
  with assms show ?thesis by (simp add: ApplySceneSwitch_def)
next
  case (Some s1)
  note q = queued_index_Some [OF Some]
  with assms(1) have l: "live_after None (sm_trace s1) = Some (m_CurrentScene s1)" by (simp add: sm_inv_def)
  let ?i = "nat (m_QueuedSceneIndex s1)"
  have i: "?i < length (m_vpAllScenes s1)"
    using r Some by (cases "?i < length (m_vpAllScenes s1)") (simp_all add: ApplySceneSwitch_def Let_def)
  with r Some obtain b p where s': "s' = s1\<lparr>m_SceneIdx := word_of_nat ?i, m_CurrentScene := Some ?i, m_SwitchingScenes := False,
       sm_trace := sm_trace s1 @ (case m_CurrentScene s1 of None \<Rightarrow> []
               | Some c \<Rightarrow> [PhysicsPaused True, CleanupScene c, AppExitScene])
          @ [PhysicsDefaults, B2Defaults, PhysicsPaused False]
          @ (if b then [Deserialise ?i (RemoveName (the p))] else [])
          @ [ScreenSize ?i (env_window env)] @ (if env_playing env then [InitScene ?i] else []) @ [NewScene ?i]\<rparr>"
    by (auto simp: ApplySceneSwitch_def Let_def rbind_eq_Inr)
  have "live_after None (sm_trace s') = Some (Some ?i)"
    unfolding s' using l by (cases "m_CurrentScene s1") (simp_all add: live_after_append)
  with i show ?thesis by (simp add: sm_inv_def s')
qed

lemma sm_step_inv [inv_pres]: "sm_inv s \<Longrightarrow> sm_step env x s = Inr s' \<Longrightarrow> sm_inv s'"
proof (cases x)
  case Apply
  assume "sm_inv s" "sm_step env x s = Inr s'"
  with Apply show "sm_inv s'" by (auto intro: apply_inv)
next
  case LoadList
  assume "sm_inv s" "sm_step env x s = Inr s'"
  with LoadList fold_enqueue [of "m_SceneFilePathsToLoad s" s] show "sm_inv s'"
    by (auto simp: sm_inv_def LoadCurrentList_def split: option.splits)
qed (auto simp: sm_inv_def SwitchScene_next_def SwitchScene_index_def SwitchScene_name_def EnqueueScene_def
    EnqueueSceneFromFile_def AddFileToLoadList_def Let_def split: if_splits option.splits)

lemma scene_run_inv:
  assumes "sm_run env ops scene_manager_new = Inr s"
  shows "sm_inv s"
proof -
  have "sm_inv s1 \<Longrightarrow> sm_run env ops s1 = Inr s \<Longrightarrow> sm_inv s" for s1
  proof (induction ops arbitrary: s1)
    case (Cons x ops)
    then obtain s2 where "sm_step env x s1 = Inr s2" "sm_run env ops s2 = Inr s" by (auto simp: rbind_eq_Inr)
    with Cons show ?case by (auto intro: sm_step_inv)
  qed simp
  moreover have "sm_inv scene_manager_new" by (simp add: sm_inv_def scene_manager_new_def)
  ultimately show ?thesis using assms by auto
qed

text \<open>Property C21. In every run of the manager that does not fault, scenes are entered and left in turn:
  a scene is only entered when none is live and only the live one is cleaned up; the live scene is the
  current one, its index is inside the list, and \<open>GetCurrentSceneIndex\<close> agrees with it.\<close>

theorem scenes_alternate:
  assumes "sm_run env ops scene_manager_new = Inr s"
  shows "live_after None (sm_trace s) = Some (m_CurrentScene s)
    \<and> (case m_CurrentScene s of None \<Rightarrow> m_SceneIdx s = 0
       | Some c \<Rightarrow> c < length (m_vpAllScenes s) \<and> m_SceneIdx s = word_of_nat c)"
  using scene_run_inv [OF assms] by (simp add: sm_inv_def)

definition plain_env :: sm_env where
  "plain_env = \<lparr>env_FolderExists = (\<lambda>p. False), env_FileExists = (\<lambda>p. False), env_mounts = Map.empty,
     env_window = (800, 600), env_playing = False\<rparr>"

lemma resolve_unmounted:
  "ResolvePhysicalPath FO FI Map.empty (CHR ''/'' # CHR ''/'' # c # path) folder =
     (case SplitString (CHR ''/'' # CHR ''/'' # c # path) ''//'' of [] \<Rightarrow> Inl OutOfRange
      | d # ds \<Rightarrow> Inr ((if folder then FO else FI) (CHR ''/'' # CHR ''/'' # c # path), Some (CHR ''/'' # CHR ''/'' # c # path)))"
  by (simp add: ResolvePhysicalPath_def Let_def c_at_def split: list.splits)

lemma scene_path: "\<exists>ds. SplitString (''//Scenes/'' @ n) ''//'' = ''Scenes'' # ds"
  using split_virtual [of "''Scenes''" n] by simp

text \<open>With no mounts and no files, applying a switch only fails on an empty list.\<close>

lemma apply_plain:
  assumes "queued_index s = Some s1" and "nat (m_QueuedSceneIndex s1) < length (m_vpAllScenes s1)"
  shows "\<exists>s'. ApplySceneSwitch plain_env s = Inr s' \<and> m_CurrentScene s' = Some (nat (m_QueuedSceneIndex s1))
    \<and> m_vpAllScenes s' = m_vpAllScenes s1 \<and> m_QueuedSceneIndex s' = m_QueuedSceneIndex s1 \<and> \<not> m_SwitchingScenes s'
    \<and> m_SceneIdx s' = word_of_nat (nat (m_QueuedSceneIndex s1))"
proof -
  let ?n = "scene_name (m_vpAllScenes s1 ! nat (m_QueuedSceneIndex s1)) @ ''.lsn''"
  obtain ds where "SplitString (''//Scenes/'' @ ?n) ''//'' = ''Scenes'' # ds" using scene_path [of ?n] by blast
  then show ?thesis using assms
    by (simp add: ApplySceneSwitch_def Let_def plain_env_def resolve_unmounted)
qed

text \<open>In any file system, with any mounts, a switch only fails on an empty list, and it leaves a current
  scene behind.\<close>

lemma resolve_scene_total: "\<exists>r. ResolvePhysicalPath FO FI m (''//Scenes/'' @ n) False = Inr r"
proof -
  obtain ds where "SplitString (''//Scenes/'' @ n) ''//'' = ''Scenes'' # ds" using scene_path [of n] by blast
  then show ?thesis by (simp add: ResolvePhysicalPath_def Let_def c_at_def)
qed

lemma apply_current: "ApplySceneSwitch env s = Inr s' \<Longrightarrow> m_CurrentScene s' \<noteq> None"
  by (auto simp: ApplySceneSwitch_def queued_index_def Let_def rbind_eq_Inr split: option.splits if_splits)

lemma apply_total:
  assumes "m_vpAllScenes s \<noteq> [] \<or> \<not> m_SwitchingScenes s"
  shows "\<exists>s'. ApplySceneSwitch env s = Inr s'"
proof (cases "queued_index s")
  case (Some s1)
  then have i: "nat (m_QueuedSceneIndex s1) < length (m_vpAllScenes s1)"
    using assms by (auto simp: queued_index_def Let_def split: if_splits)
  obtain b p where "ResolvePhysicalPath (env_FolderExists env) (env_FileExists env) (env_mounts env)
      (''//Scenes/'' @ scene_name (m_vpAllScenes s1 ! nat (m_QueuedSceneIndex s1)) @ ''.lsn'') False = Inr (b, p)"
    using resolve_scene_total [of "env_FolderExists env" "env_FileExists env" "env_mounts env"] by (metis surj_pair)
  with Some i show ?thesis by (simp add: ApplySceneSwitch_def Let_def)
qed (simp add: ApplySceneSwitch_def)

lemma sm_step_total:
  assumes "m_vpAllScenes s \<noteq> []" and "x \<noteq> Apply"
  shows "\<exists>s'. sm_step env x s = Inr s' \<and> m_CurrentScene s' = m_CurrentScene s"
  using assms fold_enqueue [of "m_SceneFilePathsToLoad s" s]
  by (cases x) (auto simp: SwitchScene_next_def SwitchScene_index_def SwitchScene_name_def EnqueueScene_def
      EnqueueSceneFromFile_def AddFileToLoadList_def LoadCurrentList_def Let_def split: option.splits)

lemma apply_queued:
  assumes "ApplySceneSwitch env s = Inr s'" and "m_SwitchingScenes s" and "m_CurrentScene s = Some c"
    and "0 \<le> m_QueuedSceneIndex s" and "nat (m_QueuedSceneIndex s) < length (m_vpAllScenes s)"
  shows "m_CurrentScene s' = Some (nat (m_QueuedSceneIndex s))
    \<and> (\<exists>es. sm_trace s' = sm_trace s @ [PhysicsPaused True, CleanupScene c, AppExitScene] @ es
         \<and> NewScene (nat (m_QueuedSceneIndex s)) \<in> set es)"
proof -
  have q: "queued_index s = Some s" using assms(2,4,5) by (auto simp: queued_index_def)
  from assms(1,3,5) q show ?thesis by (auto simp: ApplySceneSwitch_def Let_def rbind_eq_Inr)
qed

lemma find_scene_None: "find_scene name scs i = None \<longleftrightarrow> name \<notin> scene_name ` set scs"
  by (induction scs arbitrary: i) auto

text \<open>\<open>SwitchScene()\<close> followed by \<open>ApplySceneSwitch\<close> moves to the next scene of the list and
  from the last one to the first.\<close>

theorem switch_next_cycles:
  assumes run: "sm_run env ops scene_manager_new = Inr s" and c: "m_CurrentScene s = Some c"
    and len: "length (m_vpAllScenes s) < 2 ^ 31" and sw: "sm_run env [SwitchNext, Apply] s = Inr s'"
  shows "m_CurrentScene s' = Some ((c + 1) mod length (m_vpAllScenes s))"
proof -
  have i: "c < length (m_vpAllScenes s)" "m_SceneIdx s = word_of_nat c"
    using scene_run_inv [OF run] c by (auto simp: sm_inv_def)
  have u: "unat (m_SceneIdx s + 1) = c + 1"
    using i len by (intro unat32_eqI) auto
  let ?n = "length (m_vpAllScenes s)"
  let ?s1 = "SwitchScene_index (int ((c + 1) mod ?n)) s"
  have "m_vpAllScenes s \<noteq> []" using i by auto
  then have "ApplySceneSwitch env ?s1 = Inr s'"
    using sw u by (simp add: SwitchScene_next_def zmod_int rbind_eq_Inr)
  moreover have "Suc c mod ?n < ?n" using i(1) by (intro mod_less_divisor) linarith
  ultimately show ?thesis using apply_queued [of env ?s1 s' c] c by (simp add: SwitchScene_index_def zmod_int [symmetric])
qed

text \<open>Asking for a scene that does not exist is not a no-op: the switching flag is set before the
  search, so the next \<open>ApplySceneSwitch\<close> tears the current scene down and enters it again.\<close>

theorem unknown_scene_reloads:
  assumes "m_CurrentScene s = Some c" and "m_QueuedSceneIndex s = int c" and "c < length (m_vpAllScenes s)"
    and "name \<notin> scene_name ` set (m_vpAllScenes s)" and "sm_run env [SwitchByName name, Apply] s = Inr s'"
  shows "m_CurrentScene s' = Some c
    \<and> (\<exists>es. sm_trace s' = sm_trace s @ [PhysicsPaused True, CleanupScene c, AppExitScene] @ es \<and> NewScene c \<in> set es)"
proof -
  have "ApplySceneSwitch env (s\<lparr>m_SwitchingScenes := True\<rparr>) = Inr s'"
    using assms(4,5) find_scene_None [of name "m_vpAllScenes s" 0]
    by (simp add: SwitchScene_name_def Let_def rbind_eq_Inr)
  from apply_queued [OF this, of c] assms show ?thesis by simp
qed

text \<open>Two scenes, the first of them current.\<close>

definition two_scenes :: "sm_op list" where
  "two_scenes = [Enqueue \<lparr>scene_name = ''a'', has_cpp_class = True\<rparr>, Enqueue \<lparr>scene_name = ''b'', has_cpp_class = True\<rparr>, Apply]"

lemma two_scenes_run:
  "\<exists>s. sm_run plain_env two_scenes scene_manager_new = Inr s \<and> m_CurrentScene s = Some 0
     \<and> m_vpAllScenes s = [\<lparr>scene_name = ''a'', has_cpp_class = True\<rparr>, \<lparr>scene_name = ''b'', has_cpp_class = True\<rparr>]
     \<and> m_QueuedSceneIndex s = 0 \<and> m_SceneIdx s = 0"
proof -
  let ?s = "EnqueueScene \<lparr>scene_name = ''b'', has_cpp_class = True\<rparr>
    (EnqueueScene \<lparr>scene_name = ''a'', has_cpp_class = True\<rparr> scene_manager_new)"
  have "queued_index ?s = Some (?s\<lparr>m_QueuedSceneIndex := 0\<rparr>)"
    by (simp add: queued_index_def EnqueueScene_def scene_manager_new_def)
  from apply_plain [OF this] show ?thesis
    by (auto simp: two_scenes_def EnqueueScene_def scene_manager_new_def)
qed

theorem scenes_alternate_witness:
  "\<exists>s. sm_run plain_env two_scenes scene_manager_new = Inr s \<and> live_after None (sm_trace s) = Some (Some 0)"
proof -
  from two_scenes_run obtain s where "sm_run plain_env two_scenes scene_manager_new = Inr s" "m_CurrentScene s = Some 0"
    by blast
  with scenes_alternate [OF this(1)] show ?thesis by auto
qed

lemma two_scenes_next:
  "\<exists>s s'. sm_run plain_env two_scenes scene_manager_new = Inr s \<and> m_CurrentScene s = Some 0 \<and> length (m_vpAllScenes s) = 2
     \<and> sm_run plain_env [SwitchNext, Apply] s = Inr s'"
proof -
  obtain s where s: "sm_run plain_env two_scenes scene_manager_new = Inr s" "m_CurrentScene s = Some 0"
    "length (m_vpAllScenes s) = 2" "m_SceneIdx s = 0" using two_scenes_run by auto
  let ?s1 = "SwitchScene_index 1 s"
  have n: "SwitchScene_next s = Inr ?s1" using s by (auto simp: SwitchScene_next_def)
  have "queued_index ?s1 = Some ?s1" using s by (simp add: queued_index_def SwitchScene_index_def)
  from apply_plain [OF this] s(3) obtain s' where "ApplySceneSwitch plain_env ?s1 = Inr s'"
    by (auto simp: SwitchScene_index_def)
  with s n show ?thesis by auto
qed

theorem switch_next_cycles_witness:
  "\<exists>s s'. sm_run plain_env [SwitchNext, Apply] s = Inr s' \<and> m_CurrentScene s' = Some 1"
proof -
  from two_scenes_next obtain s s' where s: "sm_run plain_env two_scenes scene_manager_new = Inr s"
    "m_CurrentScene s = Some 0" "length (m_vpAllScenes s) = 2" "sm_run plain_env [SwitchNext, Apply] s = Inr s'" by blast
  with switch_next_cycles [OF s(1,2) _ s(4)] show ?thesis by auto
qed

theorem unknown_scene_reloads_witness:
  "\<exists>s s'. sm_run plain_env [SwitchByName ''zzz'', Apply] s = Inr s' \<and> m_CurrentScene s' = Some 0"
proof -
  obtain s :: scene_manager where s: "m_CurrentScene s = Some 0" "m_QueuedSceneIndex s = 0"
    "m_vpAllScenes s = [\<lparr>scene_name = ''a'', has_cpp_class = True\<rparr>, \<lparr>scene_name = ''b'', has_cpp_class = True\<rparr>]"
    using two_scenes_run by auto
  let ?s1 = "s\<lparr>m_SwitchingScenes := True\<rparr>"
  have "queued_index ?s1 = Some ?s1" using s by (simp add: queued_index_def)
  from apply_plain [OF this] s obtain s' where s': "ApplySceneSwitch plain_env ?s1 = Inr s'" by auto
  then have "sm_run plain_env [SwitchByName ''zzz'', Apply] s = Inr s'" using s by (simp add: SwitchScene_name_def)
  from unknown_scene_reloads [OF _ _ _ _ this, of 0] s this show ?thesis by auto
qed

end
