(* ===== verification/Events.thy ===== *)
theory Events
  imports Prelude
begin

text \<open>
  Events, their dispatch and the input state (\<open>Events/*.h\<close>, \<open>Core/OS/KeyCodes.h\<close>,
  \<open>Core/OS/Input.*\<close>). Key codes and mouse buttons are 32-bit words that index the arrays of the
  input state; an index outside is a fault. Coordinates are of an arbitrary type. An event object is
  the event with its \<open>m_Handled\<close> flag, which every dispatch that fires overwrites.
\<close>

section \<open>Events\<close>

datatype event_type =
    NoEvent
  | WindowClose | WindowResize | WindowFocus | WindowLostFocus | WindowMoved
  | AppTick | AppUpdate | AppRender
  | KeyPressed | KeyReleased | KeyTyped
  | MouseButtonPressed | MouseButtonReleased | MouseMoved | MouseScrolled | MouseEntered

datatype 'f event =
    WindowResizeEvent u32 u32
  | WindowCloseEvent
  | AppTickEvent
  | AppUpdateEvent
  | AppRenderEvent
  | KeyPressedEvent u32 int
  | KeyReleasedEvent u32
  | KeyTypedEvent u32 char
  | MouseMovedEvent 'f 'f
  | MouseScrolledEvent 'f 'f
  | MouseButtonPressedEvent u32
  | MouseButtonReleasedEvent u32
  | MouseEnterEvent bool

fun GetEventType :: "'f event \<Rightarrow> event_type" where
  "GetEventType (WindowResizeEvent w h) = WindowResize"
| "GetEventType WindowCloseEvent = WindowClose"
| "GetEventType AppTickEvent = AppTick"
| "GetEventType AppUpdateEvent = AppUpdate"
| "GetEventType AppRenderEvent = AppRender"
| "GetEventType (KeyPressedEvent k r) = KeyPressed"
| "GetEventType (KeyReleasedEvent k) = KeyReleased"
| "GetEventType (KeyTypedEvent k c) = KeyTyped"
| "GetEventType (MouseMovedEvent x y) = MouseMoved"
| "GetEventType (MouseScrolledEvent x y) = MouseScrolled"
| "GetEventType (MouseButtonPressedEvent b) = MouseButtonPressed"
| "GetEventType (MouseButtonReleasedEvent b) = MouseButtonReleased"
| "GetEventType (MouseEnterEvent b) = MouseEntered"

unbundle bit_operations_syntax

definition EventCategoryApplication :: u32 where "EventCategoryApplication = 1"
definition EventCategoryInput :: u32 where "EventCategoryInput = 2"
definition EventCategoryKeyboard :: u32 where "EventCategoryKeyboard = 4"
definition EventCategoryMouse :: u32 where "EventCategoryMouse = 8"
definition EventCategoryMouseButton :: u32 where "EventCategoryMouseButton = 16"

fun GetCategoryFlags :: "'f event \<Rightarrow> u32" where
  "GetCategoryFlags (WindowResizeEvent w h) = EventCategoryApplication"
| "GetCategoryFlags WindowCloseEvent = EventCategoryApplication"
| "GetCategoryFlags AppTickEvent = EventCategoryApplication"
| "GetCategoryFlags AppUpdateEvent = EventCategoryApplication"
| "GetCategoryFlags AppRenderEvent = EventCategoryApplication"
| "GetCategoryFlags (KeyPressedEvent k r) = EventCategoryKeyboard OR EventCategoryInput"
| "GetCategoryFlags (KeyReleasedEvent k) = EventCategoryKeyboard OR EventCategoryInput"
| "GetCategoryFlags (KeyTypedEvent k c) = EventCategoryKeyboard OR EventCategoryInput"
| "GetCategoryFlags (MouseMovedEvent x y) = EventCategoryMouse OR EventCategoryInput"
| "GetCategoryFlags (MouseScrolledEvent x y) = EventCategoryMouse OR EventCategoryInput"
| "GetCategoryFlags (MouseButtonPressedEvent b) = EventCategoryMouse OR EventCategoryInput"
| "GetCategoryFlags (MouseButtonReleasedEvent b) = EventCategoryMouse OR EventCategoryInput"
| "GetCategoryFlags (MouseEnterEvent b) = EventCategoryMouse OR EventCategoryInput"

definition IsInCategory :: "'f event \<Rightarrow> u32 \<Rightarrow> bool" where
  "IsInCategory e category \<longleftrightarrow> GetCategoryFlags e AND category \<noteq> 0"

text \<open>One \<open>Dispatch<T>(func)\<close>: \<open>h\<close> is the flag \<open>m_Handled\<close> and \<open>s\<close> the state the handler works on.\<close>

definition Dispatch ::
    "event_type \<Rightarrow> ('f event \<Rightarrow> 's \<Rightarrow> (bool \<times> 's) res) \<Rightarrow> 'f event \<Rightarrow> bool \<times> 's \<Rightarrow> (bool \<times> 's) res" where
  "Dispatch t func e hs = (if GetEventType e = t then func e (snd hs) else ok hs)"

fun dispatch_all ::
    "(event_type \<times> ('f event \<Rightarrow> 's \<Rightarrow> (bool \<times> 's) res)) list \<Rightarrow> 'f event \<Rightarrow> bool \<times> 's \<Rightarrow> (bool \<times> 's) res" where
  "dispatch_all [] e hs = ok hs"
| "dispatch_all ((t, f) # ds) e hs = rbind (Dispatch t f e hs) (dispatch_all ds e)"

text \<open>Delivering events in their order, each with a fresh flag, to one handler.\<close>

fun deliver :: "('f event \<Rightarrow> bool \<times> 's \<Rightarrow> (bool \<times> 's) res) \<Rightarrow> 'f event list \<Rightarrow> 's \<Rightarrow> 's res" where
  "deliver f [] s = ok s"
| "deliver f (e # es) s = rbind (f e (False, s)) (\<lambda>(h, s1). deliver f es s1)"

lemma deliver_append: "deliver f (es @ fs) s = rbind (deliver f es s) (deliver f fs)"
proof (induction es arbitrary: s)
  case (Cons e es)
  then show ?case by (cases "f e (False, s)") auto
qed simp

text \<open>The contract of a layer of the event chain: it dispatches on some event types and lets every other
  event pass, with its flag, untouched.\<close>

locale event_layer =
  fixes on_event :: "'f event \<Rightarrow> bool \<times> 's \<Rightarrow> (bool \<times> 's) res" and types :: "event_type set"
  assumes ignores: "GetEventType e \<notin> types \<Longrightarrow> on_event e hs = Inr hs"
begin

lemma deliver_only_types: "deliver on_event es s = deliver on_event (filter (\<lambda>e. GetEventType e \<in> types) es) s"
proof (induction es arbitrary: s)
  case (Cons e es)
  show ?case
  proof (cases "GetEventType e \<in> types")
    case True
    with Cons.IH show ?thesis by (cases "on_event e (False, s)") auto
  qed (simp add: Cons.IH ignores)
qed simp

lemma none_delivered: "(\<And>e. e \<in> set es \<Longrightarrow> GetEventType e \<notin> types) \<Longrightarrow> deliver on_event es s = Inr s"
  by (induction es) (simp_all add: ignores)

end

section \<open>Key codes\<close>

text \<open>The enumeration \<open>InputCode::Key\<close>, as names with their values, and \<open>InputCode::MouseKey\<close>.\<close>

definition key_codes :: "(string \<times> nat) list" where
  "key_codes = [
    (''Space'', 32), (''Apostrophe'', 39), (''Comma'', 44), (''Minus'', 45), (''Period'', 46),
    (''Slash'', 47), (''D0'', 48), (''D1'', 49), (''D2'', 50), (''D3'', 51), (''D4'', 52), (''D5'', 53),
    (''D6'', 54), (''D7'', 55), (''D8'', 56), (''D9'', 57), (''Semicolon'', 59), (''Equal'', 61),
    (''A'', 65), (''B'', 66), (''C'', 67), (''D'', 68), (''E'', 69), (''F'', 70), (''G'', 71), (''H'', 72),
    (''I'', 73), (''J'', 74), (''K'', 75), (''L'', 76), (''M'', 77), (''N'', 78), (''O'', 79), (''P'', 80),
    (''Q'', 81), (''R'', 82), (''S'', 83), (''T'', 84), (''U'', 85), (''V'', 86), (''W'', 87), (''X'', 88),
    (''Y'', 89), (''Z'', 90), (''LeftBracket'', 91), (''Backslash'', 92), (''RightBracket'', 93),
    (''GraveAccent'', 96), (''World1'', 161), (''World2'', 162), (''Escape'', 256), (''Enter'', 257),
    (''Tab'', 258), (''Backspace'', 259), (''Insert'', 260), (''Delete'', 261), (''Right'', 262),
    (''Left'', 263), (''Down'', 264), (''Up'', 265), (''PageUp'', 266), (''PageDown'', 267),
    (''Home'', 268), (''End'', 269), (''CapsLock'', 280), (''ScrollLock'', 281), (''NumLock'', 282),
    (''PrintScreen'', 283), (''Pause'', 284), (''F1'', 290), (''F2'', 291), (''F3'', 292), (''F4'', 293),
    (''F5'', 294), (''F6'', 295), (''F7'', 296), (''F8'', 297), (''F9'', 298), (''F10'', 299),
    (''F11'', 300), (''F12'', 301), (''F13'', 302), (''F14'', 303), (''F15'', 304), (''F16'', 305),
    (''F17'', 306), (''F18'', 307), (''F19'', 308), (''F20'', 309), (''F21'', 310), (''F22'', 311),
    (''F23'', 312), (''F24'', 313), (''F25'', 314), (''KP0'', 320), (''KP1'', 321), (''KP2'', 322),
    (''KP3'', 323), (''KP4'', 324), (''KP5'', 325), (''KP6'', 326), (''KP7'', 327), (''KP8'', 328),
    (''KP9'', 329), (''KPDecimal'', 330), (''KPDivide'', 331), (''KPMultiply'', 332), (''KPSubtract'', 333),
    (''KPAdd'', 334), (''KPEnter'', 335), (''KPEqual'', 336), (''LeftShift'', 340), (''LeftControl'', 341),
    (''LeftAlt'', 342), (''LeftSuper'', 343), (''RightShift'', 344), (''RightControl'', 345),
    (''RightAlt'', 346), (''RightSuper'', 347), (''Menu'', 348)]"

definition mouse_codes :: "(string \<times> nat) list" where
  "mouse_codes = [(''ButtonLeft'', 0), (''ButtonMiddle'', 1), (''ButtonRight'', 2), (''NoCursor'', 3)]"

definition MAX_KEYS :: nat where "MAX_KEYS = 1024"
definition MAX_BUTTONS :: nat where "MAX_BUTTONS = 32"

text \<open>The value of \<open>Key::Escape\<close>.\<close>

definition key_escape :: u32 where "key_escape = 256"

section \<open>The input state\<close>

record 'f input =
  m_KeyPressed :: "bool list"
  m_KeyHeld :: "bool list"
  m_MouseHeld :: "bool list"
  m_MouseClicked :: "bool list"
  m_ScrollOffset :: 'f
  m_MouseOnScreen :: bool
  m_WindowFocus :: bool
  m_MousePosition :: "'f \<times> 'f"

definition get_flag :: "bool list \<Rightarrow> u32 \<Rightarrow> bool res" where
  "get_flag xs i = (if unat i < length xs then ok (xs ! unat i) else fail OutOfRange)"

definition set_flag :: "u32 \<Rightarrow> bool \<Rightarrow> bool list \<Rightarrow> bool list res" where
  "set_flag i b xs = (if unat i < length xs then ok (xs[unat i := b]) else fail OutOfRange)"

definition GetKeyPressed :: "u32 \<Rightarrow> 'f input \<Rightarrow> bool res" where
  "GetKeyPressed key s = get_flag (m_KeyPressed s) key"
definition GetKeyHeld :: "u32 \<Rightarrow> 'f input \<Rightarrow> bool res" where
  "GetKeyHeld key s = get_flag (m_KeyHeld s) key"
definition GetMouseClicked :: "u32 \<Rightarrow> 'f input \<Rightarrow> bool res" where
  "GetMouseClicked key s = get_flag (m_MouseClicked s) key"
definition GetMouseHeld :: "u32 \<Rightarrow> 'f input \<Rightarrow> bool res" where
  "GetMouseHeld key s = get_flag (m_MouseHeld s) key"

definition SetKeyPressed :: "u32 \<Rightarrow> bool \<Rightarrow> 'f input \<Rightarrow> 'f input res" where
  "SetKeyPressed key a s = rbind (set_flag key a (m_KeyPressed s)) (\<lambda>xs. ok (s\<lparr>m_KeyPressed := xs\<rparr>))"
definition SetKeyHeld :: "u32 \<Rightarrow> bool \<Rightarrow> 'f input \<Rightarrow> 'f input res" where
  "SetKeyHeld key a s = rbind (set_flag key a (m_KeyHeld s)) (\<lambda>xs. ok (s\<lparr>m_KeyHeld := xs\<rparr>))"
definition SetMouseClicked :: "u32 \<Rightarrow> bool \<Rightarrow> 'f input \<Rightarrow> 'f input res" where
  "SetMouseClicked key a s = rbind (set_flag key a (m_MouseClicked s)) (\<lambda>xs. ok (s\<lparr>m_MouseClicked := xs\<rparr>))"
definition SetMouseHeld :: "u32 \<Rightarrow> bool \<Rightarrow> 'f input \<Rightarrow> 'f input res" where
  "SetMouseHeld key a s = rbind (set_flag key a (m_MouseHeld s)) (\<lambda>xs. ok (s\<lparr>m_MouseHeld := xs\<rparr>))"

definition Input_Reset :: "('f :: zero) input \<Rightarrow> 'f input" where
  "Input_Reset s = s\<lparr>m_KeyHeld := replicate MAX_KEYS False, m_KeyPressed := replicate MAX_KEYS False,
     m_MouseClicked := replicate MAX_BUTTONS False, m_MouseHeld := replicate MAX_BUTTONS False,
     m_MouseOnScreen := True, m_WindowFocus := True, m_ScrollOffset := 0\<rparr>"

definition ResetPressed :: "('f :: zero) input \<Rightarrow> 'f input" where
  "ResetPressed s = s\<lparr>m_KeyPressed := replicate MAX_KEYS False, m_MouseClicked := replicate MAX_BUTTONS False,
     m_ScrollOffset := 0\<rparr>"

definition OnKeyPressed :: "'f event \<Rightarrow> 'f input \<Rightarrow> (bool \<times> 'f input) res" where
  "OnKeyPressed e s = (case e of KeyPressedEvent k r \<Rightarrow>
       rbind (SetKeyPressed k (r < 1) s) (\<lambda>s1. rbind (SetKeyHeld k True s1) (\<lambda>s2. ok (False, s2)))
     | _ \<Rightarrow> ok (False, s))"

definition OnKeyReleased :: "'f event \<Rightarrow> 'f input \<Rightarrow> (bool \<times> 'f input) res" where
  "OnKeyReleased e s = (case e of KeyReleasedEvent k \<Rightarrow>
       rbind (SetKeyPressed k False s) (\<lambda>s1. rbind (SetKeyHeld k False s1) (\<lambda>s2. ok (False, s2)))
     | _ \<Rightarrow> ok (False, s))"

definition OnMousePressed :: "'f event \<Rightarrow> 'f input \<Rightarrow> (bool \<times> 'f input) res" where
  "OnMousePressed e s = (case e of MouseButtonPressedEvent b \<Rightarrow>
       rbind (SetMouseClicked b True s) (\<lambda>s1. rbind (SetMouseHeld b True s1) (\<lambda>s2. ok (False, s2)))
     | _ \<Rightarrow> ok (False, s))"

definition OnMouseReleased :: "'f event \<Rightarrow> 'f input \<Rightarrow> (bool \<times> 'f input) res" where
  "OnMouseReleased e s = (case e of MouseButtonReleasedEvent b \<Rightarrow>
       rbind (SetMouseClicked b False s) (\<lambda>s1. rbind (SetMouseHeld b False s1) (\<lambda>s2. ok (False, s2)))
     | _ \<Rightarrow> ok (False, s))"

definition OnMouseScrolled :: "'f event \<Rightarrow> 'f input \<Rightarrow> (bool \<times> 'f input) res" where
  "OnMouseScrolled e s = (case e of MouseScrolledEvent x y \<Rightarrow> ok (False, s\<lparr>m_ScrollOffset := y\<rparr>) | _ \<Rightarrow> ok (False, s))"

definition OnMouseMoved :: "'f event \<Rightarrow> 'f input \<Rightarrow> (bool \<times> 'f input) res" where
  "OnMouseMoved e s = (case e of MouseMovedEvent x y \<Rightarrow> ok (False, s\<lparr>m_MousePosition := (x, y)\<rparr>) | _ \<Rightarrow> ok (False, s))"

definition OnMouseEnter :: "'f event \<Rightarrow> 'f input \<Rightarrow> (bool \<times> 'f input) res" where
  "OnMouseEnter e s = (case e of MouseEnterEvent b \<Rightarrow> ok (False, s\<lparr>m_MouseOnScreen := b\<rparr>) | _ \<Rightarrow> ok (False, s))"

definition Input_OnEvent :: "'f event \<Rightarrow> bool \<times> 'f input \<Rightarrow> (bool \<times> 'f input) res" where
  "Input_OnEvent = dispatch_all [(KeyPressed, OnKeyPressed), (KeyReleased, OnKeyReleased),
     (MouseButtonPressed, OnMousePressed), (MouseButtonReleased, OnMouseReleased),
     (MouseScrolled, OnMouseScrolled), (MouseMoved, OnMouseMoved), (MouseEntered, OnMouseEnter)]"

interpretation input_layer: event_layer Input_OnEvent
    "{KeyPressed, KeyReleased, MouseButtonPressed, MouseButtonReleased, MouseScrolled, MouseMoved, MouseEntered}"
  by unfold_locales (simp add: Input_OnEvent_def Dispatch_def)

definition input_new :: "('f :: zero) \<times> 'f \<Rightarrow> 'f input" where
  "input_new pos = Input_Reset \<lparr>m_KeyPressed = [], m_KeyHeld = [], m_MouseHeld = [], m_MouseClicked = [],
     m_ScrollOffset = 0, m_MouseOnScreen = True, m_WindowFocus = True, m_MousePosition = pos\<rparr>"

lemmas input_flag_defs = GetKeyPressed_def GetKeyHeld_def GetMouseClicked_def GetMouseHeld_def SetKeyPressed_def
  SetKeyHeld_def SetMouseClicked_def SetMouseHeld_def get_flag_def set_flag_def

lemmas input_handler_defs = OnKeyPressed_def OnKeyReleased_def OnMousePressed_def OnMouseReleased_def
  OnMouseScrolled_def OnMouseMoved_def OnMouseEnter_def Dispatch_def

section \<open>What the input state remembers\<close>

text \<open>The history since the state was created: events and the per-frame reset.\<close>

datatype 'f input_op = Ev "'f event" | Frame

fun input_run :: "('f :: zero) input_op list \<Rightarrow> 'f input \<Rightarrow> 'f input res" where
  "input_run [] s = ok s"
| "input_run (Ev e # ops) s = rbind (Input_OnEvent e (False, s)) (\<lambda>(h, s1). input_run ops s1)"
| "input_run (Frame # ops) s = input_run ops (ResetPressed s)"

text \<open>One key, and one button, as a pair (held, pressed).\<close>

fun key_history :: "u32 \<Rightarrow> 'f input_op list \<Rightarrow> bool \<times> bool \<Rightarrow> bool \<times> bool" where
  "key_history k [] hp = hp"
| "key_history k (Ev (KeyPressedEvent k' r) # ops) hp = key_history k ops (if k' = k then (True, r < 1) else hp)"
| "key_history k (Ev (KeyReleasedEvent k') # ops) hp = key_history k ops (if k' = k then (False, False) else hp)"
| "key_history k (Frame # ops) hp = key_history k ops (fst hp, False)"
| "key_history k (_ # ops) hp = key_history k ops hp"

fun button_history :: "u32 \<Rightarrow> 'f input_op list \<Rightarrow> bool \<times> bool \<Rightarrow> bool \<times> bool" where
  "button_history k [] hp = hp"
| "button_history k (Ev (MouseButtonPressedEvent k') # ops) hp = button_history k ops (if k' = k then (True, True) else hp)"
| "button_history k (Ev (MouseButtonReleasedEvent k') # ops) hp = button_history k ops (if k' = k then (False, False) else hp)"
| "button_history k (Frame # ops) hp = button_history k ops (fst hp, False)"
| "button_history k (_ # ops) hp = button_history k ops hp"

fun codes_ok :: "'f input_op \<Rightarrow> bool" where
  "codes_ok (Ev (KeyPressedEvent k r)) \<longleftrightarrow> unat k < MAX_KEYS"
| "codes_ok (Ev (KeyReleasedEvent k)) \<longleftrightarrow> unat k < MAX_KEYS"
| "codes_ok (Ev (MouseButtonPressedEvent b)) \<longleftrightarrow> unat b < MAX_BUTTONS"
| "codes_ok (Ev (MouseButtonReleasedEvent b)) \<longleftrightarrow> unat b < MAX_BUTTONS"
| "codes_ok _ \<longleftrightarrow> True"

definition input_wf :: "'f input \<Rightarrow> bool" where
  "input_wf s \<longleftrightarrow> length (m_KeyPressed s) = MAX_KEYS \<and> length (m_KeyHeld s) = MAX_KEYS
     \<and> length (m_MouseHeld s) = MAX_BUTTONS \<and> length (m_MouseClicked s) = MAX_BUTTONS"

definition key_view :: "u32 \<Rightarrow> 'f input \<Rightarrow> bool \<times> bool" where
  "key_view k s = (m_KeyHeld s ! unat k, m_KeyPressed s ! unat k)"

definition button_view :: "u32 \<Rightarrow> 'f input \<Rightarrow> bool \<times> bool" where
  "button_view k s = (m_MouseHeld s ! unat k, m_MouseClicked s ! unat k)"

lemma input_step:
  assumes "input_wf s" and "codes_ok (Ev e)" and "unat k < MAX_KEYS" and "unat b < MAX_BUTTONS"
  shows "\<exists>h s1. Input_OnEvent e (h0, s) = Inr (h, s1) \<and> input_wf s1
    \<and> key_view k s1 = key_history k [Ev e] (key_view k s) \<and> button_view b s1 = button_history b [Ev e] (button_view b s)"
  using assms
  by (cases e) (auto simp: Input_OnEvent_def input_handler_defs input_flag_defs input_wf_def key_view_def
      button_view_def nth_list_update word_unat_eq_iff)

lemma key_history_step: "key_history k (Ev e # ops) hp = key_history k ops (key_history k [Ev e] hp)"
  by (cases e) simp_all

lemma button_history_step: "button_history k (Ev e # ops) hp = button_history k ops (button_history k [Ev e] hp)"
  by (cases e) simp_all

lemma input_run_views:
  assumes "input_wf s" and "list_all codes_ok ops" and k: "unat k < MAX_KEYS" and b: "unat b < MAX_BUTTONS"
  shows "\<exists>s1. input_run ops s = Inr s1 \<and> input_wf s1 \<and> key_view k s1 = key_history k ops (key_view k s)
    \<and> button_view b s1 = button_history b ops (button_view b s)"
  using assms(1,2)
proof (induction ops arbitrary: s)
  case (Cons x ops)
  show ?case
  proof (cases x)
    case (Ev e)
    obtain h s1 where s1: "Input_OnEvent e (False, s) = Inr (h, s1)" "input_wf s1"
      "key_view k s1 = key_history k [Ev e] (key_view k s)" "button_view b s1 = button_history b [Ev e] (button_view b s)"
      using input_step [OF Cons.prems(1) _ k b, of e False] Cons.prems(2) Ev by auto
    with Cons.IH [OF s1(2)] Cons.prems(2) Ev show ?thesis
      by (simp add: key_history_step [of k e ops] button_history_step [of b e ops] del: key_history.simps button_history.simps)
  next
    case Frame
    have "input_wf (ResetPressed s)" using Cons.prems(1) by (simp add: input_wf_def ResetPressed_def)
    moreover have "key_view k (ResetPressed s) = (fst (key_view k s), False)"
      "button_view b (ResetPressed s) = (fst (button_view b s), False)"
      using k b by (simp_all add: key_view_def button_view_def ResetPressed_def)
    ultimately show ?thesis using Cons.IH [of "ResetPressed s"] Cons.prems(2) Frame by simp
  qed
qed simp

text \<open>Property C22. The input state remembers, for every key and button, exactly what its last event says:
  held from a press to its release, pressed (clicked) only between a press that is not a repeat and the
  next frame, release or repeat. No access leaves the arrays as long as the codes are below their
  sizes.\<close>

theorem input_remembers:
  assumes "list_all codes_ok ops" and "unat k < MAX_KEYS" and "unat b < MAX_BUTTONS"
  shows "\<exists>s. input_run ops (input_new pos) = Inr s
    \<and> GetKeyHeld k s = Inr (fst (key_history k ops (False, False)))
    \<and> GetKeyPressed k s = Inr (snd (key_history k ops (False, False)))
    \<and> GetMouseHeld b s = Inr (fst (button_history b ops (False, False)))
    \<and> GetMouseClicked b s = Inr (snd (button_history b ops (False, False)))"
proof -
  have "input_wf (input_new pos)" "key_view k (input_new pos) = (False, False)"
    "button_view b (input_new pos) = (False, False)"
    using assms(2,3) by (simp_all add: input_wf_def input_new_def Input_Reset_def key_view_def button_view_def)
  with input_run_views [OF this(1) assms] obtain s where s: "input_run ops (input_new pos) = Inr s" "input_wf s"
    "key_view k s = key_history k ops (False, False)" "button_view b s = button_history b ops (False, False)" by auto
  then show ?thesis using assms(2,3)
    by (auto simp: key_view_def button_view_def input_flag_defs input_wf_def dest: sym)
qed

theorem input_remembers_witness:
  "\<exists>s. input_run [Ev (KeyPressedEvent 65 0), Frame] (input_new (0 :: int, 0)) = Inr s
    \<and> GetKeyHeld 65 s = Inr True \<and> GetKeyPressed 65 s = Inr False"
  using input_remembers [of "[Ev (KeyPressedEvent 65 0), Frame]" 65 0 "(0 :: int, 0)"]
  by (auto simp: MAX_KEYS_def MAX_BUTTONS_def)

text \<open>The names of the key enumeration have different values, all inside the key arrays, and
  the same holds for the mouse buttons.\<close>

theorem key_codes_in_range:
  "distinct (map snd key_codes) \<and> list_all (\<lambda>v. v < MAX_KEYS) (map snd key_codes)
   \<and> distinct (map snd mouse_codes) \<and> list_all (\<lambda>v. v < MAX_BUTTONS) (map snd mouse_codes)
   \<and> map_of key_codes ''Escape'' = Some (unat key_escape)"
  by (simp add: key_codes_def mouse_codes_def MAX_KEYS_def MAX_BUTTONS_def key_escape_def)

end
