(* ===== verification/RenderGraphs.thy ===== *)
theory RenderGraphs
  imports Events
begin

text \<open>
  The render graph (\<open>Graphics/Renderers/RenderGraph.*\<close>) and the ImGui layer
  (\<open>ImGui/ImGuiManager.cpp\<close>), the two layers that see an event before the scene does. A renderer is
  an identity with its priority and whether it draws to the screen; what the graph asks of its
  renderers, of the G-buffer and of the debug renderer is a list of calls that every operation
  returns beside the new graph. The ImGui state is the part of \<open>ImGuiIO\<close> that the layer writes.
\<close>

section \<open>The render graph\<close>

record renderer =
  rd_id :: nat
  rd_priority :: int
  rd_screen :: bool

datatype rg_call =
    RBegin nat "nat option"
  | RRender nat
  | RResize nat u32 u32
  | RTarget nat "nat option" bool
  | RImGui nat
  | RDelete nat
  | GBufferNew u32 u32
  | GBufferUpdate u32 u32
  | GBufferDelete
  | DebugInit u32 u32
  | DebugRelease
  | DebugReset
  | DebugBegin "nat option"
  | DebugRender
  | DebugResize u32 u32

record render_graph =
  m_Renderers :: "renderer list"
  m_ReflectSkyBox :: bool
  m_UseShadowMap :: bool
  m_NumShadowMaps :: u32
  m_OverrideCamera :: "nat option"
  m_ScreenBufferWidth :: u32
  m_ScreenBufferHeight :: u32

definition SetScreenBufferSize :: "u32 \<Rightarrow> u32 \<Rightarrow> render_graph \<Rightarrow> render_graph" where
  "SetScreenBufferSize width height g =
    (let width = (if width = 0 then 1 else width); height = (if height = 0 then 1 else height)
     in g\<lparr>m_ScreenBufferWidth := width, m_ScreenBufferHeight := height\<rparr>)"

definition rg_Reset :: "render_graph \<Rightarrow> render_graph" where
  "rg_Reset g = g\<lparr>m_ReflectSkyBox := False, m_UseShadowMap := False, m_NumShadowMaps := 4\<rparr>"

definition render_graph_new :: "u32 \<Rightarrow> u32 \<Rightarrow> render_graph \<times> rg_call list" where
  "render_graph_new width height =
    (let g = \<lparr>m_Renderers = [], m_ReflectSkyBox = False, m_UseShadowMap = False, m_NumShadowMaps = 4,
       m_OverrideCamera = None, m_ScreenBufferWidth = 0, m_ScreenBufferHeight = 0\<rparr>
     in (rg_Reset (SetScreenBufferSize width height g), [GBufferNew width height]))"

definition render_graph_destroy :: "render_graph \<Rightarrow> rg_call list" where
  "render_graph_destroy g = GBufferDelete # map (\<lambda>r. RDelete (rd_id r)) (m_Renderers g) @ [DebugRelease]"

definition rg_OnResize :: "u32 \<Rightarrow> u32 \<Rightarrow> render_graph \<Rightarrow> render_graph \<times> rg_call list" where
  "rg_OnResize width height g = (SetScreenBufferSize width height g, [GBufferUpdate width height])"

definition EnableDebugRenderer :: "bool \<Rightarrow> render_graph \<Rightarrow> rg_call list" where
  "EnableDebugRenderer enable g =
    (if enable then [DebugInit (m_ScreenBufferWidth g) (m_ScreenBufferHeight g)] else [DebugRelease])"

definition rg_BeginScene :: "render_graph \<Rightarrow> rg_call list" where
  "rg_BeginScene g = DebugReset # map (\<lambda>r. RBegin (rd_id r) (m_OverrideCamera g)) (m_Renderers g)
     @ [DebugBegin (m_OverrideCamera g)]"

definition rg_SetRenderTarget :: "nat option \<Rightarrow> bool \<Rightarrow> bool \<Rightarrow> render_graph \<Rightarrow> rg_call list" where
  "rg_SetRenderTarget texture onlyIfTargetsScreen rebuildFramebuffer g =
    map (\<lambda>r. RTarget (rd_id r) texture rebuildFramebuffer)
      (filter (\<lambda>r. \<not> onlyIfTargetsScreen \<or> rd_screen r) (m_Renderers g))"

definition rg_OnRender :: "render_graph \<Rightarrow> rg_call list" where
  "rg_OnRender g = map (\<lambda>r. RRender (rd_id r)) (m_Renderers g) @ [DebugRender]"

definition OnwindowResizeEvent :: "u32 \<Rightarrow> u32 \<Rightarrow> render_graph \<Rightarrow> rg_call list" where
  "OnwindowResizeEvent w h g = map (\<lambda>r. RResize (rd_id r) w h) (m_Renderers g) @ [DebugResize w h]"

definition rg_resize_handler ::
    "'f event \<Rightarrow> render_graph \<times> rg_call list \<Rightarrow> (bool \<times> render_graph \<times> rg_call list) res" where
  "rg_resize_handler e gs = (case e of
       WindowResizeEvent w h \<Rightarrow> ok (False, fst gs, snd gs @ OnwindowResizeEvent w h (fst gs))
     | _ \<Rightarrow> ok (False, gs))"

definition rg_OnEvent ::
    "'f event \<Rightarrow> bool \<times> render_graph \<times> rg_call list \<Rightarrow> (bool \<times> render_graph \<times> rg_call list) res" where
  "rg_OnEvent = dispatch_all [(WindowResize, rg_resize_handler)]"

interpretation render_layer: event_layer rg_OnEvent "{WindowResize}"
  by unfold_locales (simp add: rg_OnEvent_def Dispatch_def)

definition rg_OnImGui :: "render_graph \<Rightarrow> rg_call list" where
  "rg_OnImGui g = map (\<lambda>r. RImGui (rd_id r)) (m_Renderers g)"

definition AddRenderer :: "renderer \<Rightarrow> render_graph \<Rightarrow> render_graph" where
  "AddRenderer r g = g\<lparr>m_Renderers := m_Renderers g @ [r]\<rparr>"

definition AddRenderer_priority :: "renderer \<Rightarrow> int \<Rightarrow> render_graph \<Rightarrow> render_graph" where
  "AddRenderer_priority r renderPriority g = AddRenderer (r\<lparr>rd_priority := renderPriority\<rparr>) g"

definition rg_GetCount :: "render_graph \<Rightarrow> u32" where
  "rg_GetCount g = word_of_nat (length (m_Renderers g))"

definition SetOverrideCamera :: "nat option \<Rightarrow> render_graph \<Rightarrow> render_graph" where
  "SetOverrideCamera camera g = g\<lparr>m_OverrideCamera := camera\<rparr>"

lemmas rg_defs = rg_OnResize_def rg_BeginScene_def rg_OnRender_def OnwindowResizeEvent_def rg_OnImGui_def
  SetScreenBufferSize_def AddRenderer_def

section \<open>The ImGui layer\<close>

record 'f imgui_io =
  MouseDown :: "bool list"
  KeysDown :: "bool list"
  KeyCtrl :: bool
  KeyShift :: bool
  KeyAlt :: bool
  KeySuper :: bool
  MousePos :: "'f \<times> 'f"
  MouseWheel :: 'f
  MouseWheelH :: 'f
  InputQueue :: "16 word list"
  WantTextInput :: bool
  DisplaySize :: "u32 \<times> u32"

text \<open>The sizes of the arrays \<open>MouseDown\<close> and \<open>KeysDown\<close> of \<open>ImGuiIO\<close>.\<close>

definition IMGUI_MOUSE :: nat where "IMGUI_MOUSE = 5"
definition IMGUI_KEYS :: nat where "IMGUI_KEYS = 512"

definition LumosMouseButtonToImGui :: "u32 \<Rightarrow> u32" where
  "LumosMouseButtonToImGui key = (if key = 0 then 0 else if key = 2 then 1 else if key = 1 then 2 else 4)"

definition OnMouseButtonPressedEvent :: "'f event \<Rightarrow> 'f imgui_io \<Rightarrow> (bool \<times> 'f imgui_io) res" where
  "OnMouseButtonPressedEvent e io = (case e of MouseButtonPressedEvent b \<Rightarrow>
       rbind (set_flag (LumosMouseButtonToImGui b) True (MouseDown io)) (\<lambda>xs. ok (False, io\<lparr>MouseDown := xs\<rparr>))
     | _ \<Rightarrow> ok (False, io))"

definition OnMouseButtonReleasedEvent :: "'f event \<Rightarrow> 'f imgui_io \<Rightarrow> (bool \<times> 'f imgui_io) res" where
  "OnMouseButtonReleasedEvent e io = (case e of MouseButtonReleasedEvent b \<Rightarrow>
       rbind (set_flag (LumosMouseButtonToImGui b) False (MouseDown io)) (\<lambda>xs. ok (False, io\<lparr>MouseDown := xs\<rparr>))
     | _ \<Rightarrow> ok (False, io))"

definition OnMouseMovedEvent :: "'f event \<Rightarrow> 'f imgui_io \<Rightarrow> (bool \<times> 'f imgui_io) res" where
  "OnMouseMovedEvent e io = (case e of MouseMovedEvent x y \<Rightarrow> ok (False, io\<lparr>MousePos := (x, y)\<rparr>)
     | _ \<Rightarrow> ok (False, io))"

definition OnMouseScrolledEvent :: "('f :: field) event \<Rightarrow> 'f imgui_io \<Rightarrow> (bool \<times> 'f imgui_io) res" where
  "OnMouseScrolledEvent e io = (case e of
       MouseScrolledEvent x y \<Rightarrow> ok (False, io\<lparr>MouseWheel := MouseWheel io + y / 10, MouseWheelH := MouseWheelH io + x / 10\<rparr>)
     | _ \<Rightarrow> ok (False, io))"

definition OnKeyPressedEvent :: "'f event \<Rightarrow> 'f imgui_io \<Rightarrow> (bool \<times> 'f imgui_io) res" where
  "OnKeyPressedEvent e io = (case e of KeyPressedEvent k r \<Rightarrow>
       rbind (set_flag k True (KeysDown io)) (\<lambda>xs.
       rbind (get_flag xs 341) (\<lambda>lc. rbind (get_flag xs 345) (\<lambda>rc.
       rbind (get_flag xs 340) (\<lambda>ls. rbind (get_flag xs 344) (\<lambda>rs.
       rbind (get_flag xs 342) (\<lambda>la. rbind (get_flag xs 346) (\<lambda>ra.
       rbind (get_flag xs 343) (\<lambda>lw. rbind (get_flag xs 347) (\<lambda>rw.
         ok (WantTextInput io, io\<lparr>KeysDown := xs, KeyCtrl := lc \<or> rc, KeyShift := ls \<or> rs,
           KeyAlt := la \<or> ra, KeySuper := lw \<or> rw\<rparr>))))))))))
     | _ \<Rightarrow> ok (False, io))"

definition OnKeyReleasedEvent :: "'f event \<Rightarrow> 'f imgui_io \<Rightarrow> (bool \<times> 'f imgui_io) res" where
  "OnKeyReleasedEvent e io = (case e of KeyReleasedEvent k \<Rightarrow>
       rbind (set_flag k False (KeysDown io)) (\<lambda>xs. ok (False, io\<lparr>KeysDown := xs\<rparr>))
     | _ \<Rightarrow> ok (False, io))"

text \<open>The value of a (signed) \<open>char\<close>.\<close>

definition char_value :: "char \<Rightarrow> int" where
  "char_value c = (if of_char c < (128 :: int) then of_char c else of_char c - 256)"

definition OnKeyTypedEvent :: "'f event \<Rightarrow> 'f imgui_io \<Rightarrow> (bool \<times> 'f imgui_io) res" where
  "OnKeyTypedEvent e io = (case e of
       KeyTypedEvent k c \<Rightarrow>
        (let keycode = char_value c in
         ok (False, if keycode > 0 \<and> keycode < 65536 then io\<lparr>InputQueue := InputQueue io @ [word_of_int keycode]\<rparr> else io))
     | _ \<Rightarrow> ok (False, io))"

text \<open>The renderer of ImGui is resized with the clamped size as well.\<close>

definition imgui_OnwindowResizeEvent :: "'f event \<Rightarrow> 'f imgui_io \<Rightarrow> (bool \<times> 'f imgui_io) res" where
  "imgui_OnwindowResizeEvent e io = (case e of
       WindowResizeEvent w h \<Rightarrow> ok (False, io\<lparr>DisplaySize := (max 1 w, max 1 h)\<rparr>)
     | _ \<Rightarrow> ok (False, io))"

definition imgui_OnEvent :: "('f :: field) event \<Rightarrow> bool \<times> 'f imgui_io \<Rightarrow> (bool \<times> 'f imgui_io) res" where
  "imgui_OnEvent = dispatch_all [(MouseButtonPressed, OnMouseButtonPressedEvent),
     (MouseButtonReleased, OnMouseButtonReleasedEvent), (MouseMoved, OnMouseMovedEvent),
     (MouseScrolled, OnMouseScrolledEvent), (KeyPressed, OnKeyPressedEvent), (KeyReleased, OnKeyReleasedEvent),
     (KeyTyped, OnKeyTypedEvent), (WindowResize, imgui_OnwindowResizeEvent)]"

interpretation imgui_layer: event_layer imgui_OnEvent
    "{MouseButtonPressed, MouseButtonReleased, MouseMoved, MouseScrolled, KeyPressed, KeyReleased, KeyTyped, WindowResize}"
  by unfold_locales (simp add: imgui_OnEvent_def Dispatch_def)

lemmas imgui_handler_defs = OnMouseButtonPressedEvent_def OnMouseButtonReleasedEvent_def OnMouseMovedEvent_def
  OnMouseScrolledEvent_def OnKeyPressedEvent_def OnKeyReleasedEvent_def OnKeyTypedEvent_def
  imgui_OnwindowResizeEvent_def

definition io_wf :: "'f imgui_io \<Rightarrow> bool" where
  "io_wf io \<longleftrightarrow> length (MouseDown io) = IMGUI_MOUSE \<and> length (KeysDown io) = IMGUI_KEYS"

fun imgui_codes_ok :: "'f event \<Rightarrow> bool" where
  "imgui_codes_ok (KeyPressedEvent k r) \<longleftrightarrow> unat k < IMGUI_KEYS"
| "imgui_codes_ok (KeyReleasedEvent k) \<longleftrightarrow> unat k < IMGUI_KEYS"
| "imgui_codes_ok _ \<longleftrightarrow> True"

lemma mouse_button_in_range: "unat (LumosMouseButtonToImGui b) < IMGUI_MOUSE"
  by (simp add: LumosMouseButtonToImGui_def IMGUI_MOUSE_def)

text \<open>The ImGui layer never faults on key codes of its arrays, and marks an event as handled only when
  it is a key press that a text field is waiting for.\<close>

lemma imgui_OnEvent_ok:
  assumes "io_wf io" and "imgui_codes_ok e" and "\<not> h \<or> e = WindowCloseEvent"
  shows "\<exists>io1. imgui_OnEvent e (h, io) = Inr (h \<or> (WantTextInput io \<and> GetEventType e = KeyPressed), io1)
    \<and> io_wf io1 \<and> WantTextInput io1 = WantTextInput io"
  using assms mouse_button_in_range
  by (cases e) (auto simp: imgui_OnEvent_def imgui_handler_defs Dispatch_def set_flag_def get_flag_def io_wf_def
      IMGUI_KEYS_def Let_def)

end
