(* ===== verification/AppLoop.thy ===== *)
theory AppLoop
  imports Complex_Main SceneManagement RenderGraphs
begin

text \<open>
  The frame loop of the application (\<open>Core/Application.*\<close>, \<open>Scene/SystemManager.h\<close>,
  \<open>Utilities/TimeStep.h\<close>): the chain of layers an event passes, one frame and the loop \<open>Run\<close>. It is
  built over the models of the scene manager, the input state, the render graph and the ImGui layer.
  Code the loop only calls (systems, scripts, scenes, the renderer back end) is a list of calls; what
  that code may do to the application is an input of the frame, a list of actions. Times are of an
  arbitrary ordered field. \<open>LUMOS_LIMIT_FRAMERATE\<close> is not defined.
\<close>

section \<open>Time steps\<close>

record 'f time_step =
  ts_Timestep :: 'f
  ts_LastTime :: 'f
  ts_Elapsed :: 'f

definition time_step_new :: "'f :: zero \<Rightarrow> 'f time_step" where
  "time_step_new initialTime = \<lparr>ts_Timestep = 0, ts_LastTime = initialTime, ts_Elapsed = 0\<rparr>"

definition TimeStep_Update :: "'f :: ab_group_add \<Rightarrow> 'f time_step \<Rightarrow> 'f time_step" where
  "TimeStep_Update currentTime t = (let d = currentTime - ts_LastTime t in
     t\<lparr>ts_Timestep := d, ts_LastTime := currentTime, ts_Elapsed := ts_Elapsed t + d\<rparr>)"

definition GetMillis :: "'f :: field time_step \<Rightarrow> 'f" where "GetMillis t = ts_Timestep t * 1000"
definition GetElapsedMillis :: "'f :: field time_step \<Rightarrow> 'f" where "GetElapsedMillis t = ts_Elapsed t * 1000"

lemma elapsed_telescopes:
  "ts_Elapsed (fold TimeStep_Update ts (time_step_new t0)) = last (t0 # ts) - t0
   \<and> ts_LastTime (fold TimeStep_Update ts (time_step_new t0)) = last (t0 # ts)"
  by (induction ts rule: rev_induct) (simp_all add: time_step_new_def TimeStep_Update_def Let_def)

section \<open>Systems\<close>

text \<open>The systems of the engine, by the hash of their type. Registering a type twice asserts.\<close>

type_synonym systems = "u64 \<rightharpoonup> nat"

definition RegisterSystem :: "u64 \<Rightarrow> nat \<Rightarrow> systems \<Rightarrow> systems res" where
  "RegisterSystem typeName sys m = (if m typeName \<noteq> None then fail AssertFailed else ok (m(typeName \<mapsto> sys)))"

definition RemoveSystem :: "u64 \<Rightarrow> systems \<Rightarrow> systems" where
  "RemoveSystem typeName m = (if m typeName \<noteq> None then m(typeName := None) else m)"

definition GetSystem :: "u64 \<Rightarrow> systems \<Rightarrow> nat option" where
  "GetSystem typeName m = m typeName"

text \<open>The registrations of \<open>Init\<close>: the audio system, when there is one, and the two physics engines, given the
  hashes of their types.\<close>

definition init_systems :: "u64 \<Rightarrow> u64 \<Rightarrow> u64 \<Rightarrow> bool \<Rightarrow> systems res" where
  "init_systems audio lumos_physics b2_physics has_audio =
    rbind (if has_audio then RegisterSystem audio 0 Map.empty else ok Map.empty) (\<lambda>m.
    rbind (RegisterSystem lumos_physics 1 m) (RegisterSystem b2_physics 2))"

lemma init_systems_ok:
  assumes "distinct [audio, lumos, b2]"
  shows "\<exists>m. init_systems audio lumos b2 has_audio = Inr m \<and> GetSystem lumos m = Some 1 \<and> GetSystem b2 m = Some 2
    \<and> GetSystem audio m = (if has_audio then Some 0 else None)"
  using assms by (auto simp: init_systems_def RegisterSystem_def GetSystem_def)

section \<open>The application\<close>

datatype app_state = Running | Loading | Closing
datatype editor_state = Paused | Play | Next | Preview

datatype app_call =
    WaitIdle
  | RendererResize u32 u32
  | Graph rg_call
  | SceneResize nat u32 u32
  | SystemsUpdate "nat option"
  | LuaUpdate "nat option"
  | SceneUpdate nat
  | SceneTick nat
  | SceneImGui nat
  | ImGuiNewFrame
  | ImGuiBegin
  | ImGuiEnd
  | TrimCaches
  | ShadersUpdate
  | RendererBegin
  | SystemsDebugDraw
  | ImGuiRender "nat option"
  | Present
  | ReadGPUMemory
  | Serialise
  | ReleaseDefaultTexture
  | EngineRelease
  | InputRelease
  | ShaderLibraryReset
  | SystemsReset
  | ImGuiReset
  | RendererRelease
  | ClearPipelineCache
  | ClearRenderPassCache
  | ClearFramebufferCache
  | WindowReset

record 'f app =
  a_Frames :: u32
  a_Updates :: u32
  a_SecondTimer :: 'f
  a_UpdateTimer :: 'f
  a_Minimized :: bool
  a_SceneActive :: bool
  a_SceneViewWidth :: u32
  a_SceneViewHeight :: u32
  a_SceneViewSizeUpdated :: bool
  a_CurrentState :: app_state
  a_EditorState :: editor_state
  a_FramesPerSecond :: u32
  a_UpdatesPerSecond :: u32
  a_FrameTime :: 'f
  a_ts :: "'f time_step"
  a_input :: "'f input"
  a_io :: "'f imgui_io"
  a_graph :: render_graph
  a_scenes :: scene_manager
  a_calls :: "app_call list"

definition calls :: "app_call list \<Rightarrow> 'f app \<Rightarrow> 'f app" where
  "calls cs a = a\<lparr>a_calls := a_calls a @ cs\<rparr>"

definition GetCurrentScene :: "'f app \<Rightarrow> nat option" where
  "GetCurrentScene a = m_CurrentScene (a_scenes a)"

section \<open>Events\<close>

definition OnWindowClose :: "'f event \<Rightarrow> 'f app \<Rightarrow> (bool \<times> 'f app) res" where
  "OnWindowClose e a = ok (True, a\<lparr>a_CurrentState := Closing\<rparr>)"

definition OnWindowResize :: "'f event \<Rightarrow> 'f app \<Rightarrow> (bool \<times> 'f app) res" where
  "OnWindowResize e a = (case e of WindowResizeEvent width height \<Rightarrow>
       (let a1 = calls [WaitIdle] a in
        if width = 0 \<or> height = 0 then ok (False, a1\<lparr>a_Minimized := True\<rparr>)
        else (let r = rg_OnResize width height (a_graph a1) in
          ok (False, calls (map Graph (snd r) @ [RendererResize width height, WaitIdle])
            (a1\<lparr>a_Minimized := False, a_graph := fst r\<rparr>))))
     | _ \<Rightarrow> ok (False, a))"

text \<open>\<open>Scene::OnEvent\<close>: only an active scene resizes its camera.\<close>

definition Scene_OnWindowResize :: "bool \<Rightarrow> nat \<Rightarrow> 'f event \<Rightarrow> app_call list \<Rightarrow> (bool \<times> app_call list) res" where
  "Scene_OnWindowResize active scene e cs = (case e of
       WindowResizeEvent w h \<Rightarrow> ok (False, if active then cs @ [SceneResize scene w h] else cs)
     | _ \<Rightarrow> ok (False, cs))"

definition Scene_OnEvent ::
    "bool \<Rightarrow> nat \<Rightarrow> 'f event \<Rightarrow> bool \<times> app_call list \<Rightarrow> (bool \<times> app_call list) res" where
  "Scene_OnEvent active scene = dispatch_all [(WindowResize, Scene_OnWindowResize active scene)]"

interpretation scene_layer: event_layer "Scene_OnEvent active scene" "{WindowResize}" for active scene
  by unfold_locales (simp add: Scene_OnEvent_def Dispatch_def)

definition App_OnEvent :: "('f :: field) event \<Rightarrow> bool \<times> 'f app \<Rightarrow> (bool \<times> 'f app) res" where
  "App_OnEvent e ha =
    rbind (dispatch_all [(WindowClose, OnWindowClose), (WindowResize, OnWindowResize)] e ha) (\<lambda>(h1, a1).
    rbind (imgui_OnEvent e (h1, a_io a1)) (\<lambda>(h2, io).
      let a2 = a1\<lparr>a_io := io\<rparr> in
      if h2 then ok (True, a2)
      else rbind (rg_OnEvent e (h2, (a_graph a2, []))) (\<lambda>(h3, g, cs).
        let a3 = calls (map Graph cs) (a2\<lparr>a_graph := g\<rparr>) in
        if h3 then ok (True, a3)
        else (case GetCurrentScene a3 of None \<Rightarrow> fail NullDeref
          | Some scene \<Rightarrow> rbind (Scene_OnEvent (a_SceneActive a3) scene e (h3, a_calls a3)) (\<lambda>(h4, cs4).
              rbind (Input_OnEvent e (h4, a_input a3)) (\<lambda>(h5, i).
                ok (h5, a3\<lparr>a_calls := cs4, a_input := i\<rparr>)))))))"

definition OnSceneViewSizeUpdated :: "u32 \<Rightarrow> u32 \<Rightarrow> 'f app \<Rightarrow> 'f app" where
  "OnSceneViewSizeUpdated width height a =
    (let a1 = calls [WaitIdle] a in
     if width = 0 \<or> height = 0 then a1\<lparr>a_Minimized := True\<rparr>
     else (let r = rg_OnResize width height (a_graph a1) in
       calls (map Graph (snd r) @ map Graph (OnwindowResizeEvent width height (fst r)) @ [WaitIdle])
         (a1\<lparr>a_Minimized := False, a_graph := fst r\<rparr>)))"

definition SetSceneViewDimensions :: "u32 \<Rightarrow> u32 \<Rightarrow> 'f app \<Rightarrow> 'f app" where
  "SetSceneViewDimensions width height a =
    (let a1 = (if width \<noteq> a_SceneViewWidth a then a\<lparr>a_SceneViewWidth := width, a_SceneViewSizeUpdated := True\<rparr> else a)
     in if height \<noteq> a_SceneViewHeight a1 then a1\<lparr>a_SceneViewHeight := height, a_SceneViewSizeUpdated := True\<rparr> else a1)"

section \<open>One frame\<close>

text \<open>What scenes, scripts, systems and the GUI may do to the application while a frame calls them.\<close>

datatype app_action =
    SceneAction sm_op
  | SetAppState app_state
  | SetEditorState editor_state
  | SetSceneActive bool
  | SceneViewDimensions u32 u32
  | SceneViewSize u32 u32

fun act :: "sm_env \<Rightarrow> app_action \<Rightarrow> 'f app \<Rightarrow> 'f app res" where
  "act env (SceneAction x) a = rbind (sm_step env x (a_scenes a)) (\<lambda>s. ok (a\<lparr>a_scenes := s\<rparr>))"
| "act env (SetAppState st) a = ok (a\<lparr>a_CurrentState := st\<rparr>)"
| "act env (SetEditorState st) a = ok (a\<lparr>a_EditorState := st\<rparr>)"
| "act env (SetSceneActive b) a = ok (a\<lparr>a_SceneActive := b\<rparr>)"
| "act env (SceneViewDimensions w h) a = ok (SetSceneViewDimensions w h a)"
| "act env (SceneViewSize w h) a = ok (OnSceneViewSizeUpdated w h a)"

fun acts :: "sm_env \<Rightarrow> app_action list \<Rightarrow> 'f app \<Rightarrow> 'f app res" where
  "acts env [] a = ok a"
| "acts env (x # xs) a = rbind (act env x a) (acts env xs)"

text \<open>The inputs of a frame; \<open>fi_WantTextInput\<close> is the flag that ImGui sets as its frame begins.\<close>

record 'f frame_in =
  fi_env :: sm_env
  fi_now :: 'f
  fi_WantTextInput :: bool
  fi_scripts :: "app_action list"
  fi_gui :: "app_action list"
  fi_events :: "'f event list"

definition App_OnImGui :: "'f app \<Rightarrow> 'f app res" where
  "App_OnImGui a = (case GetCurrentScene a of None \<Rightarrow> fail NullDeref | Some scene \<Rightarrow> ok (calls [SceneImGui scene] a))"

text \<open>The update of the render graph is empty and is left out.\<close>

definition App_OnUpdate :: "'f frame_in \<Rightarrow> 'f app \<Rightarrow> 'f app res" where
  "App_OnUpdate fi a =
    rbind (if a_EditorState a \<noteq> Paused \<and> a_EditorState a \<noteq> Preview
        then (case GetCurrentScene a of None \<Rightarrow> fail NullDeref
          | Some scene \<Rightarrow> acts (fi_env fi) (fi_scripts fi)
              (calls [SystemsUpdate (Some scene), LuaUpdate (Some scene), SceneUpdate scene] a))
        else ok a) (\<lambda>a1.
    rbind (App_OnImGui (calls [ImGuiBegin] a1)) (\<lambda>a2.
    rbind (acts (fi_env fi) (fi_gui fi) a2) (\<lambda>a3.
      ok (calls [ImGuiEnd, TrimCaches, ShadersUpdate] a3))))"

definition App_OnRender :: "'f app \<Rightarrow> 'f app" where
  "App_OnRender a = (if rg_GetCount (a_graph a) > 0
     then calls ([RendererBegin] @ map Graph (rg_BeginScene (a_graph a)) @ [SystemsDebugDraw]
       @ map Graph (rg_OnRender (a_graph a))) a
     else a)"

definition second_tick :: "'f :: linordered_field \<Rightarrow> 'f app \<Rightarrow> 'f app res" where
  "second_tick now a = (if now - a_SecondTimer a > 1
     then (case GetCurrentScene a of None \<Rightarrow> fail NullDeref
       | Some scene \<Rightarrow> ok (calls [SceneTick scene] (a\<lparr>a_SecondTimer := a_SecondTimer a + 1,
           a_FramesPerSecond := a_Frames a, a_UpdatesPerSecond := a_Updates a, a_Frames := 0, a_Updates := 0\<rparr>)))
     else ok a)"

definition OnFrame :: "('f :: linordered_field) frame_in \<Rightarrow> 'f app \<Rightarrow> (bool \<times> 'f app) res" where
  "OnFrame fi a =
    (let ts = TimeStep_Update (fi_now fi) (a_ts a); a1 = a\<lparr>a_ts := ts, a_FrameTime := GetMillis ts\<rparr> in
     rbind (ApplySceneSwitch (fi_env fi) (a_scenes a1)) (\<lambda>sm.
     rbind (App_OnUpdate fi (calls [ImGuiNewFrame]
         (a1\<lparr>a_scenes := sm, a_io := (a_io a1)\<lparr>WantTextInput := fi_WantTextInput fi\<rparr>\<rparr>))) (\<lambda>a2.
       let a3 = a2\<lparr>a_Updates := a_Updates a2 + 1\<rparr>;
           a4 = (if \<not> a_Minimized a3
             then (calls [ImGuiRender (GetCurrentScene a3), Present] (App_OnRender a3))\<lparr>a_Frames := a_Frames a3 + 1\<rparr>
             else a3);
           a5 = calls [ReadGPUMemory] a4;
           a6 = a5\<lparr>a_input := ResetPressed (a_input a5)\<rparr>
       in rbind (deliver App_OnEvent (fi_events fi) a6) (\<lambda>a7.
          rbind (GetKeyPressed key_escape (a_input a7)) (\<lambda>esc.
          rbind (second_tick (fi_now fi) (if esc then a7\<lparr>a_CurrentState := Closing\<rparr> else a7)) (\<lambda>a8.
            ok (a_CurrentState a8 \<noteq> Closing, a8)))))))"

section \<open>The loop\<close>

definition Quit :: "'f app \<Rightarrow> 'f app" where
  "Quit a = calls ([Serialise, ReleaseDefaultTexture, EngineRelease, InputRelease, ShaderLibraryReset]
      @ map Graph (render_graph_destroy (a_graph a))
      @ [SystemsReset, ImGuiReset, RendererRelease, ClearPipelineCache, ClearRenderPassCache, ClearFramebufferCache,
         WindowReset])
    (a\<lparr>a_scenes := scene_manager_destroy (a_scenes a)\<rparr>)"

text \<open>\<open>Run\<close> over the inputs of the coming frames: \<open>None\<close> when they are used up before the loop ends. The
  result also counts the frames that ran.\<close>

fun frames :: "('f :: linordered_field) frame_in list \<Rightarrow> 'f app \<Rightarrow> ('f app \<times> nat) option res" where
  "frames [] a = ok None"
| "frames (fi # fis) a = rbind (OnFrame fi a) (\<lambda>(continue, a1).
     if continue then rbind (frames fis a1) (\<lambda>r. ok (map_option (\<lambda>(b, n). (b, n + 1)) r))
     else ok (Some (Quit a1, 1)))"

definition Run :: "'f \<Rightarrow> ('f :: linordered_field) frame_in list \<Rightarrow> 'f app \<Rightarrow> ('f app \<times> nat) option res" where
  "Run t fis a = frames fis (a\<lparr>a_UpdateTimer := t\<rparr>)"


section \<open>Events through the chain\<close>

text \<open>Which events reach the input state: all but the close event and the key presses that a text field of
  the GUI is waiting for.\<close>

definition delivered :: "bool \<Rightarrow> 'f event \<Rightarrow> bool" where
  "delivered want e \<longleftrightarrow> GetEventType e \<noteq> WindowClose \<and> \<not> (want \<and> GetEventType e = KeyPressed)"

definition app_wf :: "'f app \<Rightarrow> bool" where
  "app_wf a \<longleftrightarrow> sm_inv (a_scenes a) \<and> input_wf (a_input a) \<and> io_wf (a_io a)"

definition event_ok :: "'f event \<Rightarrow> bool" where
  "event_ok e \<longleftrightarrow> codes_ok (Ev e) \<and> imgui_codes_ok e"

text \<open>What one event leaves alone in the application.\<close>

definition same_core :: "'f app \<Rightarrow> 'f app \<Rightarrow> bool" where
  "same_core a b \<longleftrightarrow> a_scenes b = a_scenes a \<and> WantTextInput (a_io b) = WantTextInput (a_io a)
     \<and> a_SecondTimer b = a_SecondTimer a \<and> a_Frames b = a_Frames a \<and> a_Updates b = a_Updates a"

lemma GetEventType_close: "GetEventType e = WindowClose \<longleftrightarrow> e = WindowCloseEvent"
  by (cases e) simp_all

lemma rg_OnEvent_ok: "\<exists>cs'. rg_OnEvent e (False, g, cs) = Inr (False, g, cs')"
  by (cases e) (simp_all add: rg_OnEvent_def Dispatch_def rg_resize_handler_def)

lemma Scene_OnEvent_ok: "\<exists>cs'. Scene_OnEvent b n e (False, cs) = Inr (False, cs')"
  by (cases e) (simp_all add: Scene_OnEvent_def Dispatch_def Scene_OnWindowResize_def)

lemma first_dispatch:
  "\<exists>a1. dispatch_all [(WindowClose, OnWindowClose), (WindowResize, OnWindowResize)] e (False, a) = Inr (e = WindowCloseEvent, a1)
    \<and> same_core a a1 \<and> a_input a1 = a_input a \<and> a_io a1 = a_io a
    \<and> a_CurrentState a1 = (if e = WindowCloseEvent then Closing else a_CurrentState a)"
  by (cases e) (simp_all add: Dispatch_def OnWindowClose_def OnWindowResize_def Let_def calls_def same_core_def)

lemma Input_OnEvent_ok:
  assumes "input_wf s" and "codes_ok (Ev e)"
  shows "\<exists>h s1. Input_OnEvent e (h0, s) = Inr (h, s1) \<and> input_wf s1"
  using input_step [OF assms, of 0 0 h0] by (auto simp: MAX_KEYS_def MAX_BUTTONS_def)

lemma App_OnEvent_ok:
  assumes wf: "app_wf a" and c: "GetCurrentScene a = Some c" and e: "event_ok e"
  shows "\<exists>h a'. App_OnEvent e (False, a) = Inr (h, a') \<and> app_wf a' \<and> same_core a a'
    \<and> a_CurrentState a' = (if e = WindowCloseEvent then Closing else a_CurrentState a)
    \<and> (if delivered (WantTextInput (a_io a)) e then \<exists>h1. Input_OnEvent e (False, a_input a) = Inr (h1, a_input a')
       else a_input a' = a_input a)"
proof -
  obtain a1 where a1: "dispatch_all [(WindowClose, OnWindowClose), (WindowResize, OnWindowResize)] e (False, a) = Inr (e = WindowCloseEvent, a1)"
    "same_core a a1" "a_input a1 = a_input a" "a_io a1 = a_io a"
    "a_CurrentState a1 = (if e = WindowCloseEvent then Closing else a_CurrentState a)"
    using first_dispatch [of e a] by blast
  let ?w = "WantTextInput (a_io a)"
  obtain io where io: "imgui_OnEvent e (e = WindowCloseEvent, a_io a1)
      = Inr (e = WindowCloseEvent \<or> (?w \<and> GetEventType e = KeyPressed), io)" "io_wf io" "WantTextInput io = ?w"
    using imgui_OnEvent_ok [of "a_io a1" e "e = WindowCloseEvent"] wf e a1(4) by (auto simp: app_wf_def event_ok_def)
  let ?a2 = "a1\<lparr>a_io := io\<rparr>"
  have d: "delivered ?w e \<longleftrightarrow> \<not> (e = WindowCloseEvent \<or> (?w \<and> GetEventType e = KeyPressed))"
    by (simp add: delivered_def GetEventType_close)
  show ?thesis
  proof (cases "delivered ?w e")
    case False
    then have "App_OnEvent e (False, a) = Inr (True, ?a2)" using a1(1) io(1) d by (simp add: App_OnEvent_def Let_def)
    with False a1 io wf show ?thesis by (auto simp: app_wf_def same_core_def)
  next
    case True
    then have nh: "e = WindowCloseEvent \<or> (?w \<and> GetEventType e = KeyPressed) \<longleftrightarrow> False" using d by simp
    obtain cs where cs: "rg_OnEvent e (False, a_graph ?a2, []) = Inr (False, a_graph ?a2, cs)"
      using rg_OnEvent_ok [of e "a_graph ?a2" "[]"] by blast
    let ?a3 = "calls (map Graph cs) ?a2"
    obtain cs4 where cs4: "Scene_OnEvent (a_SceneActive ?a3) c e (False, a_calls ?a3) = Inr (False, cs4)"
      using Scene_OnEvent_ok [of "a_SceneActive ?a3" c e "a_calls ?a3"] by blast
    obtain h s1 where s1: "Input_OnEvent e (False, a_input a) = Inr (h, s1)" "input_wf s1"
      using Input_OnEvent_ok [of "a_input a" e False] wf e by (auto simp: app_wf_def event_ok_def)
    have c3: "GetCurrentScene ?a3 = Some c" "a_input ?a3 = a_input a"
      using c a1 by (simp_all add: GetCurrentScene_def same_core_def calls_def)
    have g: "?a2\<lparr>a_graph := a_graph ?a2\<rparr> = ?a2" by simp
    have "App_OnEvent e (False, a) = Inr (h, ?a3\<lparr>a_calls := cs4, a_input := s1\<rparr>)"
      unfolding App_OnEvent_def using a1(1) io(1) cs cs4 s1(1) c3 nh by (simp add: Let_def)
    with True a1 io wf s1 show ?thesis by (auto simp: app_wf_def same_core_def calls_def)
  qed
qed

lemma deliver_app:
  assumes "app_wf a" and "GetCurrentScene a = Some c" and "list_all event_ok es"
  shows "\<exists>a'. deliver App_OnEvent es a = Inr a' \<and> app_wf a' \<and> same_core a a'
    \<and> a_CurrentState a' = (if WindowCloseEvent \<in> set es then Closing else a_CurrentState a)
    \<and> deliver Input_OnEvent (filter (delivered (WantTextInput (a_io a))) es) (a_input a) = Inr (a_input a')"
  using assms
proof (induction es arbitrary: a)
  case (Cons e es)
  let ?w = "WantTextInput (a_io a)"
  obtain h a1 where a1: "App_OnEvent e (False, a) = Inr (h, a1)" "app_wf a1" "same_core a a1"
    "a_CurrentState a1 = (if e = WindowCloseEvent then Closing else a_CurrentState a)"
    "if delivered ?w e then \<exists>h1. Input_OnEvent e (False, a_input a) = Inr (h1, a_input a1) else a_input a1 = a_input a"
    using App_OnEvent_ok [OF Cons.prems(1,2), of e] Cons.prems(3) by auto
  moreover have "GetCurrentScene a1 = Some c" "WantTextInput (a_io a1) = ?w"
    using a1(3) Cons.prems(2) by (simp_all add: same_core_def GetCurrentScene_def)
  moreover obtain a2 where "deliver App_OnEvent es a1 = Inr a2" "app_wf a2" "same_core a1 a2"
    "a_CurrentState a2 = (if WindowCloseEvent \<in> set es then Closing else a_CurrentState a1)"
    "deliver Input_OnEvent (filter (delivered (WantTextInput (a_io a1))) es) (a_input a1) = Inr (a_input a2)"
    using Cons.IH [of a1] a1(2) calculation(6) Cons.prems(3) by auto
  ultimately show ?case by (cases "delivered ?w e") (auto simp: same_core_def)
qed (simp add: same_core_def)


section \<open>Frames\<close>

definition action_ok :: "app_action \<Rightarrow> bool" where
  "action_ok x \<longleftrightarrow> x \<noteq> SceneAction Apply"

definition scripts_ok :: "'f frame_in \<Rightarrow> bool" where
  "scripts_ok fi \<longleftrightarrow> list_all action_ok (fi_scripts fi) \<and> list_all action_ok (fi_gui fi)"

definition frame_ok :: "'f frame_in \<Rightarrow> bool" where
  "frame_ok fi \<longleftrightarrow> scripts_ok fi \<and> list_all event_ok (fi_events fi)"

text \<open>The application state that a list of actions asks for.\<close>

fun asked_state :: "app_action list \<Rightarrow> app_state \<Rightarrow> app_state" where
  "asked_state [] st = st"
| "asked_state (SetAppState st' # xs) st = asked_state xs st'"
| "asked_state (_ # xs) st = asked_state xs st"

lemma asked_state_Cons: "asked_state (x # xs) st = asked_state xs (asked_state [x] st)"
  by (cases x) simp_all

text \<open>The actions a frame runs: those of the scripts only while the editor plays.\<close>

definition frame_acts :: "'f frame_in \<Rightarrow> 'f app \<Rightarrow> app_action list" where
  "frame_acts fi a = (if a_EditorState a \<noteq> Paused \<and> a_EditorState a \<noteq> Preview then fi_scripts fi else []) @ fi_gui fi"

definition same_input :: "'f app \<Rightarrow> 'f app \<Rightarrow> bool" where
  "same_input a b \<longleftrightarrow> a_input b = a_input a \<and> a_io b = a_io a \<and> GetCurrentScene b = GetCurrentScene a"

lemma current_nonempty: "app_wf a \<Longrightarrow> GetCurrentScene a = Some c \<Longrightarrow> m_vpAllScenes (a_scenes a) \<noteq> []"
  by (auto simp: app_wf_def sm_inv_def GetCurrentScene_def)

lemma act_ok:
  assumes wf: "app_wf a" and c: "GetCurrentScene a = Some c" and x: "action_ok x"
  shows "\<exists>b. act env x a = Inr b \<and> app_wf b \<and> same_input a b \<and> a_CurrentState b = asked_state [x] (a_CurrentState a)"
proof (cases x)
  case (SceneAction y)
  with x obtain s' where "sm_step env y (a_scenes a) = Inr s'" "m_CurrentScene s' = m_CurrentScene (a_scenes a)"
    using sm_step_total [OF current_nonempty [OF wf c], of y env] by (auto simp: action_ok_def)
  with SceneAction wf show ?thesis
    by (auto simp: app_wf_def same_input_def GetCurrentScene_def intro: sm_step_inv)
qed (use wf in \<open>auto simp: app_wf_def same_input_def GetCurrentScene_def SetSceneViewDimensions_def
      OnSceneViewSizeUpdated_def calls_def Let_def\<close>)

lemma acts_ok:
  assumes "app_wf a" and "GetCurrentScene a = Some c" and "list_all action_ok xs"
  shows "\<exists>b. acts env xs a = Inr b \<and> app_wf b \<and> same_input a b \<and> a_CurrentState b = asked_state xs (a_CurrentState a)"
  using assms
proof (induction xs arbitrary: a)
  case (Cons x xs)
  obtain b where b: "act env x a = Inr b" "app_wf b" "same_input a b" "a_CurrentState b = asked_state [x] (a_CurrentState a)"
    using act_ok [of a c x env] Cons.prems by auto
  moreover have "GetCurrentScene b = Some c" using b(3) Cons.prems(2) by (simp add: same_input_def)
  ultimately show ?case using Cons.IH [of b] Cons.prems(3)
    by (auto simp: same_input_def asked_state_Cons [of x xs])
qed (simp add: same_input_def)

lemma app_wf_calls [simp]: "app_wf (calls cs a) = app_wf a"
  by (simp add: app_wf_def calls_def)

lemma GetCurrentScene_calls [simp]: "GetCurrentScene (calls cs a) = GetCurrentScene a"
  by (simp add: GetCurrentScene_def calls_def)

lemma calls_simps [simp]:
  "a_CurrentState (calls cs a) = a_CurrentState a" "a_EditorState (calls cs a) = a_EditorState a"
  "a_input (calls cs a) = a_input a" "a_io (calls cs a) = a_io a" "a_scenes (calls cs a) = a_scenes a"
  by (simp_all add: calls_def)

lemma asked_state_append: "asked_state (xs @ ys) st = asked_state ys (asked_state xs st)"
  by (induction xs st rule: asked_state.induct) simp_all

lemma App_OnUpdate_ok:
  assumes wf: "app_wf a" and c: "GetCurrentScene a = Some c" and f: "scripts_ok fi"
  shows "\<exists>b. App_OnUpdate fi a = Inr b \<and> app_wf b \<and> same_input a b
    \<and> a_CurrentState b = asked_state (frame_acts fi a) (a_CurrentState a)"
proof -
  let ?play = "a_EditorState a \<noteq> Paused \<and> a_EditorState a \<noteq> Preview"
  obtain b where b: "(if ?play then acts (fi_env fi) (fi_scripts fi)
        (calls [SystemsUpdate (Some c), LuaUpdate (Some c), SceneUpdate c] a) else ok a) = Inr b"
    "app_wf b" "same_input a b" "a_CurrentState b = asked_state (if ?play then fi_scripts fi else []) (a_CurrentState a)"
    using acts_ok [of "calls [SystemsUpdate (Some c), LuaUpdate (Some c), SceneUpdate c] a" c "fi_scripts fi" "fi_env fi"] assms
    by (cases ?play) (auto simp: scripts_ok_def same_input_def)
  moreover have cb: "GetCurrentScene b = Some c" using b(3) c by (simp add: same_input_def)
  moreover obtain d where "acts (fi_env fi) (fi_gui fi) (calls [SceneImGui c] (calls [ImGuiBegin] b)) = Inr d" "app_wf d"
    "same_input b d" "a_CurrentState d = asked_state (fi_gui fi) (a_CurrentState b)"
    using acts_ok [of "calls [SceneImGui c] (calls [ImGuiBegin] b)" c "fi_gui fi" "fi_env fi"] b(2) cb f
    by (auto simp: scripts_ok_def same_input_def)
  moreover have "App_OnUpdate fi a = Inr (calls [ImGuiEnd, TrimCaches, ShadersUpdate] d)"
  proof -
    have "(if ?play then (case GetCurrentScene a of None \<Rightarrow> fail NullDeref
          | Some scene \<Rightarrow> acts (fi_env fi) (fi_scripts fi)
              (calls [SystemsUpdate (Some scene), LuaUpdate (Some scene), SceneUpdate scene] a))
        else ok a) = Inr b" using b(1) c by (cases "a_EditorState a") simp_all
    then show ?thesis unfolding App_OnUpdate_def using calculation(6) cb by (simp add: App_OnImGui_def)
  qed
  ultimately show ?thesis by (auto simp: same_input_def frame_acts_def asked_state_append)
qed

lemma second_tick_ok:
  assumes "GetCurrentScene a = Some c"
  shows "\<exists>b. second_tick now a = Inr b \<and> a_input b = a_input a \<and> a_io b = a_io a \<and> a_scenes b = a_scenes a
    \<and> a_CurrentState b = a_CurrentState a"
  using assms by (simp add: second_tick_def)

lemma GetKeyPressed_wf: "input_wf s \<Longrightarrow> unat k < MAX_KEYS \<Longrightarrow> GetKeyPressed k s = Inr (snd (key_view k s))"
  by (simp add: GetKeyPressed_def get_flag_def input_wf_def key_view_def)

lemma escape_in_range: "unat key_escape < MAX_KEYS"
  by (simp add: key_escape_def MAX_KEYS_def)

text \<open>One frame, from a state in which the scene list is not empty or nothing was queued: up to the events
  nothing can go wrong.\<close>

lemma OnFrame_events:
  assumes wf: "app_wf a" and s: "m_vpAllScenes (a_scenes a) \<noteq> [] \<or> \<not> m_SwitchingScenes (a_scenes a)" and f: "scripts_ok fi"
  shows "\<exists>a6 c. OnFrame fi a = rbind (deliver App_OnEvent (fi_events fi) a6) (\<lambda>a7.
        rbind (GetKeyPressed key_escape (a_input a7)) (\<lambda>esc.
        rbind (second_tick (fi_now fi) (if esc then a7\<lparr>a_CurrentState := Closing\<rparr> else a7)) (\<lambda>a8.
          ok (a_CurrentState a8 \<noteq> Closing, a8))))
    \<and> app_wf a6 \<and> a_input a6 = ResetPressed (a_input a) \<and> WantTextInput (a_io a6) = fi_WantTextInput fi
    \<and> GetCurrentScene a6 = Some c \<and> a_CurrentState a6 = asked_state (frame_acts fi a) (a_CurrentState a)"
proof -
  obtain sm where sm: "ApplySceneSwitch (fi_env fi) (a_scenes a) = Inr sm" using apply_total [OF s] by blast
  then obtain c where c: "m_CurrentScene sm = Some c" using apply_current by blast
  let ?ts = "TimeStep_Update (fi_now fi) (a_ts a)"
  let ?a1 = "calls [ImGuiNewFrame] (a\<lparr>a_ts := ?ts, a_FrameTime := GetMillis ?ts, a_scenes := sm,
      a_io := (a_io a)\<lparr>WantTextInput := fi_WantTextInput fi\<rparr>\<rparr>)"
  have wf1: "app_wf ?a1" "GetCurrentScene ?a1 = Some c"
    using wf apply_inv [OF _ sm] c by (simp_all add: app_wf_def io_wf_def GetCurrentScene_def)
  obtain a2 where a2: "App_OnUpdate fi ?a1 = Inr a2" "app_wf a2" "same_input ?a1 a2"
    "a_CurrentState a2 = asked_state (frame_acts fi a) (a_CurrentState a)"
    using App_OnUpdate_ok [OF wf1 f] by (auto simp: frame_acts_def)
  let ?a3 = "a2\<lparr>a_Updates := a_Updates a2 + 1\<rparr>"
  let ?a4 = "if \<not> a_Minimized ?a3 then (calls [ImGuiRender (GetCurrentScene ?a3), Present] (App_OnRender ?a3))\<lparr>a_Frames := a_Frames ?a3 + 1\<rparr> else ?a3"
  let ?a6 = "(calls [ReadGPUMemory] ?a4)\<lparr>a_input := ResetPressed (a_input (calls [ReadGPUMemory] ?a4))\<rparr>"
  have r: "a_input (App_OnRender x) = a_input x \<and> a_io (App_OnRender x) = a_io x \<and> a_scenes (App_OnRender x) = a_scenes x
    \<and> a_CurrentState (App_OnRender x) = a_CurrentState x" for x :: "'a app"
    by (simp add: App_OnRender_def)
  have "a_input a2 = a_input a" "a_io a2 = (a_io a)\<lparr>WantTextInput := fi_WantTextInput fi\<rparr>" "GetCurrentScene a2 = Some c"
    using a2(3) wf1(2) by (simp_all add: same_input_def)
  then have i6: "a_input ?a6 = ResetPressed (a_input a)" "WantTextInput (a_io ?a6) = fi_WantTextInput fi"
    "GetCurrentScene ?a6 = Some c" "a_CurrentState ?a6 = a_CurrentState a2"
    using r [of ?a3] by (simp_all add: GetCurrentScene_def)
  have wf6: "app_wf ?a6"
    using a2(2) r [of ?a3] by (simp add: app_wf_def input_wf_def ResetPressed_def)
  have "OnFrame fi a = rbind (deliver App_OnEvent (fi_events fi) ?a6) (\<lambda>a7.
        rbind (GetKeyPressed key_escape (a_input a7)) (\<lambda>esc.
        rbind (second_tick (fi_now fi) (if esc then a7\<lparr>a_CurrentState := Closing\<rparr> else a7)) (\<lambda>a8.
          ok (a_CurrentState a8 \<noteq> Closing, a8))))"
    unfolding OnFrame_def Let_def using sm a2(1) by simp
  with wf6 i6(1-3) i6(4) [unfolded a2(4)] show ?thesis
    by (intro exI [of _ ?a6] exI [of _ c] conjI)
qed

lemma OnFrame_ok:
  assumes wf: "app_wf a" and s: "m_vpAllScenes (a_scenes a) \<noteq> [] \<or> \<not> m_SwitchingScenes (a_scenes a)" and f: "frame_ok fi"
  shows "\<exists>b. OnFrame fi a = Inr (a_CurrentState b \<noteq> Closing, b) \<and> app_wf b \<and> GetCurrentScene b \<noteq> None
    \<and> deliver Input_OnEvent (filter (delivered (fi_WantTextInput fi)) (fi_events fi)) (ResetPressed (a_input a)) = Inr (a_input b)
    \<and> a_CurrentState b = (if WindowCloseEvent \<in> set (fi_events fi) \<or> snd (key_view key_escape (a_input b))
         then Closing else asked_state (frame_acts fi a) (a_CurrentState a))"
proof -
  obtain a6 c where o: "OnFrame fi a = rbind (deliver App_OnEvent (fi_events fi) a6) (\<lambda>a7.
        rbind (GetKeyPressed key_escape (a_input a7)) (\<lambda>esc.
        rbind (second_tick (fi_now fi) (if esc then a7\<lparr>a_CurrentState := Closing\<rparr> else a7)) (\<lambda>a8.
          ok (a_CurrentState a8 \<noteq> Closing, a8))))"
    and wf6: "app_wf a6" and i6: "a_input a6 = ResetPressed (a_input a)" "WantTextInput (a_io a6) = fi_WantTextInput fi"
      "GetCurrentScene a6 = Some c" "a_CurrentState a6 = asked_state (frame_acts fi a) (a_CurrentState a)"
    using OnFrame_events [OF wf s, of fi] f by (auto simp: frame_ok_def)
  obtain a7 where a7: "deliver App_OnEvent (fi_events fi) a6 = Inr a7" "app_wf a7" "same_core a6 a7"
    "a_CurrentState a7 = (if WindowCloseEvent \<in> set (fi_events fi) then Closing else a_CurrentState a6)"
    "deliver Input_OnEvent (filter (delivered (fi_WantTextInput fi)) (fi_events fi)) (ResetPressed (a_input a)) = Inr (a_input a7)"
    using deliver_app [OF wf6 i6(3), of "fi_events fi"] f i6 by (auto simp: frame_ok_def)
  have esc: "GetKeyPressed key_escape (a_input a7) = Inr (snd (key_view key_escape (a_input a7)))"
    using a7(2) by (intro GetKeyPressed_wf escape_in_range) (simp add: app_wf_def)
  let ?a7 = "if snd (key_view key_escape (a_input a7)) then a7\<lparr>a_CurrentState := Closing\<rparr> else a7"
  have c7: "GetCurrentScene ?a7 = Some c" using a7(3) i6(3) by (simp add: same_core_def GetCurrentScene_def)
  obtain a8 where a8: "second_tick (fi_now fi) ?a7 = Inr a8" "a_input a8 = a_input ?a7" "a_io a8 = a_io ?a7"
    "a_scenes a8 = a_scenes ?a7" "a_CurrentState a8 = a_CurrentState ?a7" using second_tick_ok [OF c7, of "fi_now fi"] by blast
  have "OnFrame fi a = Inr (a_CurrentState a8 \<noteq> Closing, a8)" unfolding o using a7(1) esc a8(1) by simp
  moreover have "app_wf a8" using a8 a7(2) by (simp add: app_wf_def split: if_splits)
  moreover have "GetCurrentScene a8 \<noteq> None" using c7 a8(4) by (simp add: GetCurrentScene_def)
  ultimately show ?thesis using a7(4,5) i6(4) a8(2,5) by auto
qed

text \<open>An event whose code is outside the arrays faults, whatever layer it is sent through, and so does the frame.\<close>

lemma bad_event_faults:
  assumes wf: "app_wf a" and e: "\<not> event_ok e" and c: "GetCurrentScene a = Some c"
  shows "\<exists>f. App_OnEvent e (False, a) = Inl f"
proof -
  obtain a1 where a1: "dispatch_all [(WindowClose, OnWindowClose), (WindowResize, OnWindowResize)] e (False, a) = Inr (e = WindowCloseEvent, a1)"
    "same_core a a1" "a_input a1 = a_input a" "a_io a1 = a_io a" using first_dispatch [of e a] by blast
  have n: "e \<noteq> WindowCloseEvent" using e by (auto simp: event_ok_def)
  show ?thesis
  proof (cases "imgui_codes_ok e")
    case False
    then obtain f where "imgui_OnEvent e (False, a_io a) = Inl f"
      using wf by (cases e) (auto simp: imgui_OnEvent_def imgui_handler_defs Dispatch_def set_flag_def app_wf_def io_wf_def)
    with a1 n show ?thesis by (simp add: App_OnEvent_def)
  next
    case True
    then have bad: "\<not> codes_ok (Ev e)" using e by (simp add: event_ok_def)
    with True have np: "GetEventType e \<noteq> KeyPressed" by (cases e) (auto simp: MAX_KEYS_def IMGUI_KEYS_def)
    obtain f where f: "Input_OnEvent e (h, a_input a) = Inl f" if "\<not> h" for h
      using bad wf True
      by (cases e) (auto simp: Input_OnEvent_def input_handler_defs input_flag_defs app_wf_def input_wf_def MAX_KEYS_def IMGUI_KEYS_def)
    obtain io where io: "imgui_OnEvent e (False, a_io a1) = Inr (False, io)"
      using imgui_OnEvent_ok [of "a_io a1" e False] wf True a1(4) np by (auto simp: app_wf_def)
    let ?a2 = "a1\<lparr>a_io := io\<rparr>"
    obtain cs where cs: "rg_OnEvent e (False, a_graph ?a2, []) = Inr (False, a_graph ?a2, cs)"
      using rg_OnEvent_ok [of e "a_graph ?a2" "[]"] by blast
    let ?a3 = "calls (map Graph cs) ?a2"
    obtain cs4 where cs4: "Scene_OnEvent (a_SceneActive ?a3) c e (False, a_calls ?a3) = Inr (False, cs4)"
      using Scene_OnEvent_ok [of "a_SceneActive ?a3" c e "a_calls ?a3"] by blast
    have c3: "GetCurrentScene ?a3 = Some c" "a_input ?a3 = a_input a"
      using c a1 by (simp_all add: GetCurrentScene_def same_core_def calls_def)
    have "App_OnEvent e (False, a) = Inl f"
      unfolding App_OnEvent_def using a1(1) io cs cs4 f c3 n by (simp add: Let_def)
    then show ?thesis by blast
  qed
qed

lemma deliver_bad:
  assumes "app_wf a" and "GetCurrentScene a = Some c" and "\<not> list_all event_ok es"
  shows "\<exists>f. deliver App_OnEvent es a = Inl f"
  using assms
proof (induction es arbitrary: a)
  case (Cons e es)
  show ?case
  proof (cases "event_ok e")
    case False
    with bad_event_faults [OF Cons.prems(1) _ Cons.prems(2)] show ?thesis by fastforce
  next
    case True
    then obtain h a1 where a1: "App_OnEvent e (False, a) = Inr (h, a1)" "app_wf a1" "same_core a a1"
      using App_OnEvent_ok [OF Cons.prems(1,2)] by blast
    have "GetCurrentScene a1 = Some c" using a1(3) Cons.prems(2) by (simp add: same_core_def GetCurrentScene_def)
    from Cons.IH [OF a1(2) this] True Cons.prems(3) a1(1) show ?thesis by auto
  qed
qed simp

lemma OnFrame_faults:
  assumes wf: "app_wf a" and f: "scripts_ok fi"
    and b: "m_vpAllScenes (a_scenes a) = [] \<and> m_SwitchingScenes (a_scenes a) \<or> \<not> list_all event_ok (fi_events fi)"
  shows "\<exists>f. OnFrame fi a = Inl f"
proof (cases "m_vpAllScenes (a_scenes a) = [] \<and> m_SwitchingScenes (a_scenes a)")
  case True
  then have "ApplySceneSwitch (fi_env fi) (a_scenes a) = Inl OutOfRange"
    by (auto simp: ApplySceneSwitch_def queued_index_def Let_def)
  then show ?thesis by (simp add: OnFrame_def Let_def)
next
  case False
  then obtain a6 c where "app_wf a6" "GetCurrentScene a6 = Some c" and o: "OnFrame fi a = rbind (deliver App_OnEvent (fi_events fi) a6) (\<lambda>a7.
        rbind (GetKeyPressed key_escape (a_input a7)) (\<lambda>esc.
        rbind (second_tick (fi_now fi) (if esc then a7\<lparr>a_CurrentState := Closing\<rparr> else a7)) (\<lambda>a8.
          ok (a_CurrentState a8 \<noteq> Closing, a8))))"
    using OnFrame_events [OF wf _ f] by auto
  with deliver_bad [of a6 c "fi_events fi"] b False show ?thesis by auto
qed


section \<open>Starting up\<close>

text \<open>The scene part of a project file: the versions decide which fields exist.\<close>

definition load_project :: "int \<Rightarrow> string list \<Rightarrow> int \<Rightarrow> scene_manager \<Rightarrow> scene_manager" where
  "load_project projectVersion sceneFilePaths sceneIndex s =
    (let s1 = (if projectVersion > 2 then fold AddFileToLoadList sceneFilePaths s else s)
     in if projectVersion > 3 then SwitchScene_index sceneIndex s1 else s1)"

text \<open>Construction and \<open>Init\<close>. The renderers are numbered in the order in which they are added: shadow,
  deferred, skybox and 2D; only the first does not draw to the screen. \<open>pos\<close> is the mouse position before
  the first event, which the code leaves unset.\<close>

definition io_new :: "'f \<times> 'f \<Rightarrow> ('f :: zero) imgui_io" where
  "io_new pos = \<lparr>MouseDown = replicate IMGUI_MOUSE False, KeysDown = replicate IMGUI_KEYS False, KeyCtrl = False,
     KeyShift = False, KeyAlt = False, KeySuper = False, MousePos = pos, MouseWheel = 0, MouseWheelH = 0,
     InputQueue = [], WantTextInput = False, DisplaySize = (0, 0)\<rparr>"

definition Application_new :: "'f \<times> 'f \<Rightarrow> scene_manager \<Rightarrow> ('f :: linordered_field) app" where
  "Application_new pos sm = \<lparr>a_Frames = 0, a_Updates = 0, a_SecondTimer = 0, a_UpdateTimer = 0, a_Minimized = False,
     a_SceneActive = True, a_SceneViewWidth = 800, a_SceneViewHeight = 600, a_SceneViewSizeUpdated = False,
     a_CurrentState = Loading, a_EditorState = Play, a_FramesPerSecond = 0, a_UpdatesPerSecond = 0, a_FrameTime = 0,
     a_ts = time_step_new 0, a_input = input_new pos, a_io = io_new pos, a_graph = fst (render_graph_new 0 0),
     a_scenes = sm, a_calls = []\<rparr>"

definition Application_Init :: "u32 \<Rightarrow> u32 \<Rightarrow> 'f app \<Rightarrow> ('f :: linordered_field) app" where
  "Application_Init screenWidth screenHeight a =
    (let (g, cs) = render_graph_new screenWidth screenHeight;
         g4 = fold AddRenderer [\<lparr>rd_id = 0, rd_priority = 0, rd_screen = False\<rparr>, \<lparr>rd_id = 1, rd_priority = 0, rd_screen = True\<rparr>,
             \<lparr>rd_id = 2, rd_priority = 0, rd_screen = True\<rparr>, \<lparr>rd_id = 3, rd_priority = 0, rd_screen = True\<rparr>] g
     in calls (map Graph (cs @ EnableDebugRenderer True g4))
       (a\<lparr>a_input := input_new (m_MousePosition (a_input a)), a_graph := g4, a_scenes := LoadCurrentList (a_scenes a),
          a_io := (a_io a)\<lparr>DisplaySize := (screenWidth, screenHeight)\<rparr>, a_CurrentState := Running\<rparr>))"

lemma input_wf_new: "input_wf (input_new pos)"
  by (simp add: input_wf_def input_new_def Input_Reset_def)

lemma app_wf_new:
  assumes "sm_inv sm"
  shows "app_wf (Application_Init w h (Application_new pos sm))"
proof -
  have "sm_inv (LoadCurrentList sm)" using sm_step_inv [OF assms, of undefined LoadList] by simp
  then show ?thesis
    by (simp add: Application_Init_def Application_new_def render_graph_new_def Let_def app_wf_def io_wf_def io_new_def
        input_wf_new)
qed

section \<open>What the loop guarantees\<close>

lemma deliver_input_run: "deliver Input_OnEvent es s = input_run (map Ev es) s"
proof (induction es arbitrary: s)
  case (Cons e es)
  then show ?case by (cases "Input_OnEvent e (False, s)") auto
qed simp

lemma key_history_pressed: "snd hp = snd hp' \<Longrightarrow> snd (key_history k es hp) = snd (key_history k es hp')"
proof (induction es arbitrary: hp hp')
  case (Cons x es)
  show ?case
  proof (cases x)
    case (Ev e)
    have "snd (key_history k [Ev e] hp) = snd (key_history k [Ev e] hp')" using Cons.prems by (cases e) simp_all
    then show ?thesis unfolding Ev key_history_step [of k e es] by (rule Cons.IH)
  next
    case Frame
    then show ?thesis by (simp add: Cons.IH [of "(fst hp, False)" "(fst hp', False)"])
  qed
qed simp

lemma filtered_codes_ok: "list_all event_ok es \<Longrightarrow> list_all codes_ok (map Ev (filter P es))"
  by (induction es) (auto simp: event_ok_def)

lemma frame_views:
  assumes wf: "app_wf a" and s: "m_vpAllScenes (a_scenes a) \<noteq> [] \<or> \<not> m_SwitchingScenes (a_scenes a)"
    and f: "frame_ok fi" and k: "unat k < MAX_KEYS" and b: "unat b < MAX_BUTTONS" and r: "OnFrame fi a = Inr (cont, a')"
  shows "key_view k (a_input a') = key_history k (Frame # map Ev (filter (delivered (fi_WantTextInput fi)) (fi_events fi))) (key_view k (a_input a))
    \<and> button_view b (a_input a') = button_history b (Frame # map Ev (filter (delivered (fi_WantTextInput fi)) (fi_events fi))) (button_view b (a_input a))"
proof -
  let ?es = "map Ev (filter (delivered (fi_WantTextInput fi)) (fi_events fi))"
  have e: "input_run (Frame # ?es) (a_input a) = Inr (a_input a')"
    using OnFrame_ok [OF wf s f] r by (auto simp: deliver_input_run)
  have "list_all codes_ok (Frame # ?es)" using f filtered_codes_ok by (auto simp: frame_ok_def)
  moreover have "input_wf (a_input a)" using wf by (simp add: app_wf_def)
  ultimately show ?thesis using input_run_views [of "a_input a" "Frame # ?es" k b] k b e by auto
qed

text \<open>The state in which every later frame starts.\<close>

lemma frame_keeps:
  assumes "app_wf a" and "m_vpAllScenes (a_scenes a) \<noteq> [] \<or> \<not> m_SwitchingScenes (a_scenes a)" and "frame_ok fi"
  shows "\<exists>c b. OnFrame fi a = Inr (c, b) \<and> app_wf b \<and> m_vpAllScenes (a_scenes b) \<noteq> []"
  using OnFrame_ok [OF assms] current_nonempty by blast

lemma quit_cleans:
  assumes "app_wf a"
  shows "live_after None (sm_trace (a_scenes (Quit a))) = Some None"
  using assms by (cases "m_CurrentScene (a_scenes a)")
    (auto simp: Quit_def calls_def app_wf_def sm_inv_def scene_manager_destroy_def live_after_append)

lemma ex_nat_split: "(\<exists>n. P n) \<longleftrightarrow> P (0 :: nat) \<or> (\<exists>n. P (Suc n))"
  by (metis nat.exhaust)

lemma frames_faults:
  assumes "app_wf a" and "list_all scripts_ok fis"
  shows "(\<exists>f. frames fis a = Inl f) \<longleftrightarrow>
      fis \<noteq> [] \<and> m_vpAllScenes (a_scenes a) = [] \<and> m_SwitchingScenes (a_scenes a)
      \<or> (\<exists>n < length fis. frames (take n fis) a = Inr None \<and> \<not> list_all event_ok (fi_events (fis ! n)))"
  using assms
proof (induction fis arbitrary: a)
  case (Cons fi fis)
  let ?queued = "m_vpAllScenes (a_scenes a) = [] \<and> m_SwitchingScenes (a_scenes a)"
  let ?bad = "\<lambda>fs a n. frames (take n fs) a = Inr None \<and> \<not> list_all event_ok (fi_events (fs ! n))"
  have split: "(\<exists>n < length (fi # fis). ?bad (fi # fis) a n) \<longleftrightarrow>
      \<not> list_all event_ok (fi_events fi) \<or> (\<exists>n < length fis. ?bad (fi # fis) a (Suc n))"
    by (subst ex_nat_split) simp
  have f: "scripts_ok fi" using Cons.prems(2) by simp
  show ?case
  proof (cases "?queued \<or> \<not> list_all event_ok (fi_events fi)")
    case True
    with OnFrame_faults [OF Cons.prems(1) f] split show ?thesis by auto
  next
    case False
    with f have s: "m_vpAllScenes (a_scenes a) \<noteq> [] \<or> \<not> m_SwitchingScenes (a_scenes a)" "frame_ok fi"
      by (auto simp: frame_ok_def)
    obtain c b where b: "OnFrame fi a = Inr (c, b)" "app_wf b" "m_vpAllScenes (a_scenes b) \<noteq> []"
      using frame_keeps [OF Cons.prems(1) s] by blast
    have none: "frames (take (Suc n) (fi # fis)) a = Inr None \<longleftrightarrow> c \<and> frames (take n fis) b = Inr None" for n
      using b(1) by (auto simp: rbind_eq_Inr)
    show ?thesis
    proof (cases c)
      case True
      have "(\<exists>f. frames (fi # fis) a = Inl f) \<longleftrightarrow> (\<exists>f. frames fis b = Inl f)"
        using b(1) True by (cases "frames fis b") auto
      also have "\<dots> \<longleftrightarrow> (\<exists>n < length fis. ?bad fis b n)"
        using Cons.IH [OF b(2)] b(3) Cons.prems(2) by simp
      finally show ?thesis using split none True False by auto
    next
      case c: False
      then have "\<not> (\<exists>f. frames (fi # fis) a = Inl f)" using b(1) by simp
      with split none c False show ?thesis by auto
    qed
  qed
qed simp

lemma frames_clean:
  assumes "app_wf a" and "list_all scripts_ok fis" and "frames fis a = Inr (Some (b, n))"
  shows "n \<le> length fis \<and> live_after None (sm_trace (a_scenes b)) = Some None"
  using assms
proof (induction fis arbitrary: a b n)
  case (Cons fi fis)
  then obtain c a1 where a1: "OnFrame fi a = Inr (c, a1)" by (cases "OnFrame fi a") auto
  have f: "scripts_ok fi" using Cons.prems(2) by simp
  have "m_vpAllScenes (a_scenes a) \<noteq> [] \<or> \<not> m_SwitchingScenes (a_scenes a)" "list_all event_ok (fi_events fi)"
    using OnFrame_faults [OF Cons.prems(1) f] a1 by fastforce+
  with f have wf: "app_wf a1" using frame_keeps [OF Cons.prems(1), of fi] a1 by (auto simp: frame_ok_def)
  show ?case
  proof (cases c)
    case True
    with Cons.prems(3) a1 obtain m where "frames fis a1 = Inr (Some (b, m))" "n = m + 1" by (auto simp: rbind_eq_Inr)
    with Cons.IH [OF wf, of b m] Cons.prems(2) show ?thesis by simp
  next
    case False
    with Cons.prems(3) a1 quit_cleans [OF wf] show ?thesis by auto
  qed
qed simp

text \<open>Property C7. Over any sequence of frames, whatever the events, scripts, GUI and timings, the loop faults (a null
  scene, an index outside a list or array) exactly in two cases: when it starts with a switch queued
  while the list of scenes is empty, and when a frame it reaches polls an event whose key or button code is outside
  the arrays. If it ends, every scene that was entered has been cleaned up, exactly once.\<close>

theorem run_never_faults:
  assumes "app_wf a" and "list_all scripts_ok fis"
  shows "((\<exists>f. Run t fis a = Inl f) \<longleftrightarrow>
      fis \<noteq> [] \<and> m_vpAllScenes (a_scenes a) = [] \<and> m_SwitchingScenes (a_scenes a)
      \<or> (\<exists>n < length fis. Run t (take n fis) a = Inr None \<and> \<not> list_all event_ok (fi_events (fis ! n))))
    \<and> (\<forall>b n. Run t fis a = Inr (Some (b, n)) \<longrightarrow> n \<le> length fis \<and> live_after None (sm_trace (a_scenes b)) = Some None)"
proof -
  have "app_wf (a\<lparr>a_UpdateTimer := t\<rparr>)" using assms(1) by (simp add: app_wf_def)
  from frames_faults [OF this assms(2)] frames_clean [OF this assms(2)] show ?thesis unfolding Run_def by simp
qed

definition idle_frame :: "int \<Rightarrow> rat event list \<Rightarrow> rat frame_in" where
  "idle_frame t es = \<lparr>fi_env = plain_env, fi_now = of_int t, fi_WantTextInput = False, fi_scripts = [], fi_gui = [], fi_events = es\<rparr>"

definition fresh_app :: "rat app" where
  "fresh_app = Application_Init 800 600 (Application_new (0, 0) scene_manager_new)"

lemma fresh_app_wf:
  "app_wf fresh_app \<and> (m_vpAllScenes (a_scenes fresh_app) \<noteq> [] \<or> \<not> m_SwitchingScenes (a_scenes fresh_app))"
  unfolding fresh_app_def
  by (intro conjI app_wf_new)
    (simp_all add: sm_inv_def scene_manager_new_def Application_Init_def Application_new_def render_graph_new_def Let_def
      LoadCurrentList_def)

lemma idle_frame_ok: "frame_ok (idle_frame t es) \<longleftrightarrow> list_all event_ok es"
  by (simp add: frame_ok_def scripts_ok_def idle_frame_def)

lemma two_frames_ok: "list_all frame_ok [idle_frame 1 [KeyPressedEvent 65 0], idle_frame 2 [WindowCloseEvent]]"
  by (simp add: idle_frame_ok event_ok_def MAX_KEYS_def IMGUI_KEYS_def)

theorem run_never_faults_witness:
  "(\<exists>r. Run 0 [idle_frame 1 [KeyPressedEvent 65 0], idle_frame 2 [WindowCloseEvent]] fresh_app = Inr r)
   \<and> (\<exists>f. Run 0 [idle_frame 1 [KeyReleasedEvent 600]] fresh_app = Inl f)"
proof -
  have s: "scripts_ok (idle_frame t es)" for t es by (simp add: scripts_ok_def idle_frame_def)
  have "\<not> (\<exists>f. Run 0 [idle_frame 1 [KeyPressedEvent 65 0], idle_frame 2 [WindowCloseEvent]] fresh_app = Inl f)"
    using run_never_faults [OF conjunct1 [OF fresh_app_wf], of "[idle_frame 1 [KeyPressedEvent 65 0], idle_frame 2 [WindowCloseEvent]]" 0]
      conjunct2 [OF fresh_app_wf] s two_frames_ok by (auto simp: less_Suc_eq frame_ok_def)
  moreover have "\<exists>f. Run 0 [idle_frame 1 [KeyReleasedEvent 600]] fresh_app = Inl f"
    apply (rule iffD2 [OF conjunct1 [OF run_never_faults [OF conjunct1 [OF fresh_app_wf]]]])
     apply (simp add: s)
    apply (rule disjI2, rule exI [of _ 0])
    by (simp add: Run_def idle_frame_def event_ok_def IMGUI_KEYS_def)
  ultimately show ?thesis by (cases "Run 0 [idle_frame 1 [KeyPressedEvent 65 0], idle_frame 2 [WindowCloseEvent]] fresh_app") auto
qed

text \<open>A frame is the last one exactly when its scripts left the application closing, the polled events
  contain a close event, or the Escape key counts as pressed after the events that the layers above let
  through; a press that a text field swallowed does not close the application.\<close>

theorem frame_is_last:
  assumes "app_wf a" and "m_vpAllScenes (a_scenes a) \<noteq> [] \<or> \<not> m_SwitchingScenes (a_scenes a)" and "frame_ok fi"
    and "OnFrame fi a = Inr (continue, a')"
  shows "\<not> continue \<longleftrightarrow> asked_state (frame_acts fi a) (a_CurrentState a) = Closing \<or> WindowCloseEvent \<in> set (fi_events fi)
    \<or> snd (key_history key_escape (map Ev (filter (delivered (fi_WantTextInput fi)) (fi_events fi))) (False, False))"
proof -
  note v = frame_views [OF assms(1-3) escape_in_range, of 0 continue a', OF _ assms(4)]
  have "snd (key_view key_escape (a_input a')) =
      snd (key_history key_escape (map Ev (filter (delivered (fi_WantTextInput fi)) (fi_events fi))) (False, False))"
    using v key_history_pressed [of "(fst (key_view key_escape (a_input a)), False)" "(False, False)"]
    by (auto simp: MAX_BUTTONS_def)
  then show ?thesis using OnFrame_ok [OF assms(1-3)] assms(4) by auto
qed

text \<open>After a frame, every key and button is held or pressed according to the events of that frame
  that reached the input state, starting from what was held before it: presses of earlier frames are
  forgotten, what is held is not, and key presses taken by a text field are not seen.\<close>

theorem frame_input:
  assumes "app_wf a" and "m_vpAllScenes (a_scenes a) \<noteq> [] \<or> \<not> m_SwitchingScenes (a_scenes a)" and "frame_ok fi"
    and "unat k < MAX_KEYS" and "unat b < MAX_BUTTONS" and "OnFrame fi a = Inr (cont, a')"
  shows "key_view k (a_input a') = key_history k (map Ev (filter (delivered (fi_WantTextInput fi)) (fi_events fi)))
      (fst (key_view k (a_input a)), False)
    \<and> button_view b (a_input a') = button_history b (map Ev (filter (delivered (fi_WantTextInput fi)) (fi_events fi)))
      (fst (button_view b (a_input a)), False)"
  using frame_views [OF assms] by simp

text \<open>A resize to an empty area minimises the window and leaves the render graph's own buffers alone,
  but the event is not handled and goes on, so every renderer is still resized to the empty area.\<close>

theorem minimise_resizes_renderers:
  assumes "GetCurrentScene a = Some c" and "w = 0 \<or> h = 0"
  shows "\<exists>b. App_OnEvent (WindowResizeEvent w h) (False, a) = Inr (False, b) \<and> a_Minimized b \<and> a_graph b = a_graph a
    \<and> a_calls b = a_calls a @ [WaitIdle] @ map (\<lambda>r. Graph (RResize (rd_id r) w h)) (m_Renderers (a_graph a))
        @ [Graph (DebugResize w h)] @ (if a_SceneActive a then [SceneResize c w h] else [])"
proof -
  let ?e = "WindowResizeEvent w h :: 'a event"
  let ?a1 = "(calls [WaitIdle] a)\<lparr>a_Minimized := True\<rparr>"
  have 1: "dispatch_all [(WindowClose, OnWindowClose), (WindowResize, OnWindowResize)] ?e (False, a) = Inr (False, ?a1)"
    using assms(2) by (simp add: Dispatch_def OnWindowResize_def Let_def)
  have 2: "imgui_OnEvent ?e (False, a_io ?a1) = Inr (False, (a_io a)\<lparr>DisplaySize := (max 1 w, max 1 h)\<rparr>)"
    by (simp add: imgui_OnEvent_def Dispatch_def imgui_OnwindowResizeEvent_def)
  have 3: "rg_OnEvent ?e (False, g, cs) = Inr (False, g, cs @ OnwindowResizeEvent w h g)" for g cs
    by (simp add: rg_OnEvent_def Dispatch_def rg_resize_handler_def)
  have 4: "Scene_OnEvent act n ?e (False, cs) = Inr (False, if act then cs @ [SceneResize n w h] else cs)" for act n cs
    by (simp add: Scene_OnEvent_def Dispatch_def Scene_OnWindowResize_def)
  have 5: "Input_OnEvent ?e (False, i) = Inr (False, i)" for i
    by (rule input_layer.ignores) simp
  have 6: "GetCurrentScene (calls cs (?a1\<lparr>a_io := io, a_graph := g\<rparr>)) = Some c" for cs io g
    using assms(1) by (simp add: GetCurrentScene_def)
  show ?thesis
    unfolding App_OnEvent_def 1 by (simp add: 2 [simplified] 3 4 5 6 [simplified] Let_def, simp add: calls_def OnwindowResizeEvent_def)
qed

lemma escape_frame_ok: "frame_ok (idle_frame 1 [KeyPressedEvent 256 0, KeyPressedEvent 65 0])"
  by (simp add: idle_frame_ok event_ok_def MAX_KEYS_def IMGUI_KEYS_def)

lemma escape_frame: "\<exists>c b. OnFrame (idle_frame 1 [KeyPressedEvent 256 0, KeyPressedEvent 65 0]) fresh_app = Inr (c, b)"
  using frame_keeps [OF conjunct1 [OF fresh_app_wf] conjunct2 [OF fresh_app_wf] escape_frame_ok] by blast

theorem frame_is_last_witness:
  "\<exists>b. OnFrame (idle_frame 1 [KeyPressedEvent 256 0, KeyPressedEvent 65 0]) fresh_app = Inr (False, b)"
proof -
  obtain c b where b: "OnFrame (idle_frame 1 [KeyPressedEvent 256 0, KeyPressedEvent 65 0]) fresh_app = Inr (c, b)"
    using escape_frame by blast
  have "\<not> c"
    using frame_is_last [OF conjunct1 [OF fresh_app_wf] conjunct2 [OF fresh_app_wf] escape_frame_ok b]
    by (simp add: idle_frame_def delivered_def key_escape_def)
  then have "c = False" by simp
  with b show ?thesis by auto
qed

theorem frame_input_witness:
  "\<exists>c b. OnFrame (idle_frame 1 [KeyPressedEvent 256 0, KeyPressedEvent 65 0]) fresh_app = Inr (c, b)
    \<and> key_view 65 (a_input b) = (True, True)"
proof -
  obtain c b where b: "OnFrame (idle_frame 1 [KeyPressedEvent 256 0, KeyPressedEvent 65 0]) fresh_app = Inr (c, b)"
    using escape_frame by blast
  have r: "unat (65 :: u32) < MAX_KEYS" "unat (0 :: u32) < MAX_BUTTONS" by (simp_all add: MAX_KEYS_def MAX_BUTTONS_def)
  show ?thesis
    using b frame_input [OF conjunct1 [OF fresh_app_wf] conjunct2 [OF fresh_app_wf] escape_frame_ok r b]
    by (auto simp: idle_frame_def delivered_def)
qed

theorem minimise_resizes_renderers_witness:
  "\<exists>b. App_OnEvent (WindowResizeEvent 0 600) (False, fresh_app\<lparr>a_scenes := scene_manager_new\<lparr>m_CurrentScene := Some 0\<rparr>\<rparr>) = Inr (False, b)
    \<and> Graph (RResize 1 0 600) \<in> set (a_calls b)"
proof -
  let ?a = "fresh_app\<lparr>a_scenes := scene_manager_new\<lparr>m_CurrentScene := Some 0\<rparr>\<rparr>"
  have "Graph (RResize 1 0 600) \<in> set (map (\<lambda>r. Graph (RResize (rd_id r) 0 600)) (m_Renderers (a_graph ?a)))"
    by (simp add: fresh_app_def Application_Init_def Application_new_def render_graph_new_def Let_def AddRenderer_def
        SetScreenBufferSize_def rg_Reset_def calls_def)
  then show ?thesis
    using minimise_resizes_renderers [of ?a 0 0 600] by (fastforce simp: GetCurrentScene_def)
qed

end
