(* ===== verification/MathBits.thy ===== *)
theory MathBits
  imports Prelude
begin

text \<open>
  The bit-level functions of \<open>Maths/MathDefs.h\<close> and the random generator of \<open>Maths/Random.cpp\<close>, on
  32-bit words with wrap-around. A float is the word that holds it (\<open>FloatToRawIntBits\<close>).
\<close>

unbundle bit_operations_syntax

section \<open>Powers of two and bit counts\<close>

definition IsPowerOfTwo :: "u32 \<Rightarrow> bool" where
  "IsPowerOfTwo value \<longleftrightarrow> value AND (value - 1) = 0"

definition smear_step :: "nat \<Rightarrow> u32 \<Rightarrow> u32" where
  "smear_step s value = value OR drop_bit s value"

definition NextPowerOfTwo :: "u32 \<Rightarrow> u32" where
  "NextPowerOfTwo value = smear_step 16 (smear_step 8 (smear_step 4 (smear_step 2 (smear_step 1 (value - 1))))) + 1"

definition ClosestPowerOfTwo :: "u32 \<Rightarrow> u32" where
  "ClosestPowerOfTwo value = (let next = NextPowerOfTwo value; prev = drop_bit 1 next
     in if value - prev > next - value then next else prev)"

lemma unat_drop1: "unat (drop_bit 1 (v :: u32)) = unat v div 2"
  by (simp add: drop_bit_eq_div unat_div)

function log_loop :: "u32 \<Rightarrow> u32 \<Rightarrow> u32" where
  "log_loop value ret = (let value = drop_bit 1 value in if value \<noteq> 0 then log_loop value (ret + 1) else ret)"
  by auto
termination
proof (relation "measure (\<lambda>(v, r). unat v)")
  fix v x :: u32 and r :: u32
  assume "x = drop_bit 1 v" "x \<noteq> 0"
  moreover have "unat (drop_bit 1 v) = unat v div 2" by (rule unat_drop1)
  moreover have "unat x \<noteq> 0" using \<open>x \<noteq> 0\<close> by (simp add: unat_eq_zero)
  ultimately show "((x, r + 1), v, r) \<in> measure (\<lambda>(v, r). unat v)" by simp
qed simp

declare log_loop.simps [simp del]

definition LogBaseTwo :: "u32 \<Rightarrow> u32" where
  "LogBaseTwo value = log_loop value 0"

lemma kernighan_less: "v \<noteq> 0 \<Longrightarrow> unat (v AND (v - 1)) < unat (v :: u32)"
proof -
  assume v: "v \<noteq> 0"
  have "v AND (v - 1) \<le> v - 1" by (rule word_and_le1)
  then have "unat (v AND (v - 1)) \<le> unat v - 1" using v by (simp add: word_le_nat_alt unat_minus_one)
  moreover have "0 < unat v" using v by (simp add: unat_gt_0)
  ultimately show ?thesis by linarith
qed

function count_loop :: "u32 \<Rightarrow> u32 \<Rightarrow> u32" where
  "count_loop value count = (if value = 0 then count else count_loop (value AND (value - 1)) (count + 1))"
  by auto
termination
  by (relation "measure (\<lambda>(v, c). unat v)") (auto simp: kernighan_less)

declare count_loop.simps [simp del]

definition CountSetBits :: "u32 \<Rightarrow> u32" where
  "CountSetBits value = count_loop value 0"

definition SDBMHash :: "u32 \<Rightarrow> u8 \<Rightarrow> u32" where
  "SDBMHash hash c = ucast c + push_bit 6 hash + push_bit 16 hash - hash"

section \<open>Half-precision floats\<close>

definition FloatToHalf :: "u32 \<Rightarrow> 16 word" where
  "FloatToHalf inu =
    (let t1 = inu AND 0x7fffffff; t2 = inu AND 0x80000000; t3 = inu AND 0x7f800000;
         t1 = drop_bit 13 t1; t2 = drop_bit 16 t2;
         t1 = t1 - 0x1c000;
         t1 = (if t3 < 0x38800000 then 0 else t1);
         t1 = (if t3 > 0x47000000 then 0x7bff else t1);
         t1 = (if t3 = 0 then 0 else t1)
     in ucast (t1 OR t2))"

definition HalfToFloat :: "16 word \<Rightarrow> u32" where
  "HalfToFloat value =
    (let t1 = ucast value AND (0x7fff :: u32); t2 = ucast value AND (0x8000 :: u32); t3 = ucast value AND (0x7c00 :: u32);
         t1 = push_bit 13 t1; t2 = push_bit 16 t2;
         t1 = t1 + 0x38000000;
         t1 = (if t3 = 0 then 0 else t1)
     in t1 OR t2)"

section \<open>Random numbers\<close>

definition rand_next :: "u32 \<Rightarrow> u32" where
  "rand_next seed = seed * 214013 + 2531011"

definition Rand :: "u32 \<Rightarrow> int \<times> u32" where
  "Rand seed = (let seed = rand_next seed in (uint (drop_bit 16 seed AND 32767), seed))"

fun rand_sum :: "nat \<Rightarrow> u32 \<Rightarrow> int \<times> u32" where
  "rand_sum 0 seed = (0, seed)"
| "rand_sum (Suc n) seed = (case rand_sum n seed of (t, s) \<Rightarrow> (case Rand s of (r, s') \<Rightarrow> (t + r, s')))"

definition RandStandardNormalized :: "u32 \<Rightarrow> ('f :: field) \<times> u32" where
  "RandStandardNormalized seed = (case rand_sum 12 seed of (t, s) \<Rightarrow> (of_int t / 32768 - 6, s))"

section \<open>Counting bits\<close>

fun popcount :: "nat \<Rightarrow> nat" where
  "popcount n = (if n = 0 then 0 else n mod 2 + popcount (n div 2))"

declare popcount.simps [simp del]

lemma bit_nat_less: "bit (m :: nat) k \<Longrightarrow> k < m"
proof (rule ccontr)
  assume b: "bit m k" and "\<not> k < m"
  then have "m < 2 ^ k" using less_exp [of k] by linarith
  with b show False by (simp add: bit_iff_odd)
qed

lemma popcount_card: "popcount n = card {k. bit n k}"
proof (induction n rule: popcount.induct)
  case (1 n)
  show ?case
  proof (cases "n = 0")
    case False
    have fin: "finite {k. bit m k}" for m :: nat
      by (rule finite_subset [of _ "{..<m}"]) (auto dest: bit_nat_less)
    have "{k. bit n k} = (if odd n then {0} else {}) \<union> Suc ` {k. bit (n div 2) k}"
    proof (rule set_eqI)
      fix k show "k \<in> {k. bit n k} \<longleftrightarrow> k \<in> (if odd n then {0} else {}) \<union> Suc ` {k. bit (n div 2) k}"
        by (cases k) (auto simp: bit_0 bit_Suc)
    qed
    moreover have "card (Suc ` {k. bit (n div 2) k}) = card {k. bit (n div 2) k}" by (simp add: card_image)
    ultimately have "card {k. bit n k} = n mod 2 + card {k. bit (n div 2) k}"
      using fin [of "n div 2"] by (auto simp: odd_iff_mod_2_eq_one even_iff_mod_2_eq_zero card_insert_if)
    with 1 False show ?thesis by (subst popcount.simps) simp
  qed (simp add: popcount.simps)
qed

lemma popcount_kernighan: "0 < n \<Longrightarrow> popcount (n AND (n - 1)) + 1 = popcount n"
proof (induction n rule: popcount.induct)
  case (1 n)
  show ?case
  proof (cases "even n")
    case True
    then obtain m where n: "n = 2 * m" by auto
    then have m: "0 < m" using 1 by simp
    then have "2 * m - 1 = 2 * (m - 1) + 1" by simp
    then have "n AND (n - 1) = 2 * (m AND (m - 1))" unfolding n by (subst and_rec) simp
    then have "popcount (n AND (n - 1)) = popcount (m AND (m - 1))"
      by (subst popcount.simps) (simp add: popcount.simps [of 0])
    moreover have "popcount n = popcount m" unfolding n using m by (subst popcount.simps) simp
    ultimately show ?thesis using 1 n m by simp
  next
    case False
    then obtain m where n: "n = 2 * m + 1" using oddE by blast
    have "n AND (n - 1) = 2 * m" unfolding n by (subst and_rec) simp
    moreover have "popcount (2 * m) = popcount m" by (subst popcount.simps) (simp add: popcount.simps [of 0])
    moreover have "popcount n = 1 + popcount m" unfolding n by (subst popcount.simps) simp
    ultimately show ?thesis by simp
  qed
qed


lemma count_loop_popcount:
  "unat count + popcount (unat value) < 2 ^ 32 \<Longrightarrow> unat (count_loop value count) = unat count + popcount (unat value)"
proof (induction "value" count rule: count_loop.induct)
  case (1 v c)
  show ?case
  proof (cases "v = 0")
    case False
    then have v: "0 < unat v" by (simp add: unat_gt_0)
    have p: "popcount (unat (v AND (v - 1))) + 1 = popcount (unat v)"
      using popcount_kernighan [OF v] False by (simp add: unsigned_and_eq unat_minus_one)
    then have "unat c + 1 < 2 ^ 32" using 1 by linarith
    then have "unat (c + 1) = unat c + 1" by (intro unat32_eqI) simp_all
    with 1 False p show ?thesis by (subst count_loop.simps) simp
  qed (simp add: count_loop.simps [of 0] popcount.simps)
qed

lemma unat_bits: "{k. bit (unat (v :: u32)) k} = {k. bit v k}"
  by (auto simp: bit_unsigned_iff)

lemma popcount_le: "popcount (unat (v :: u32)) \<le> 32"
proof -
  have "{k. bit v k} \<subseteq> {..<32}" by (auto dest: bit_imp_le_length)
  then have "card {k. bit v k} \<le> card {..<32 :: nat}" by (rule card_mono [rotated]) simp
  then show ?thesis by (simp add: popcount_card unat_bits)
qed

lemma count_set_bits_card: "unat (CountSetBits v) = card {k. bit v k}"
  using count_loop_popcount [of 0 v] popcount_le [of v] by (simp add: CountSetBits_def popcount_card unat_bits)

section \<open>Logarithms and powers of two\<close>

lemma log_loop_spec:
  assumes "v \<noteq> 0" and "unat ret + unat v < 2 ^ 32"
  shows "\<exists>k. unat (log_loop v ret) = unat ret + k \<and> 2 ^ k \<le> unat v \<and> unat v < 2 ^ (k + 1)"
  using assms
proof (induction v ret rule: log_loop.induct)
  case (1 v r)
  have h: "unat (drop_bit 1 v) = unat v div 2" by (rule unat_drop1)
  show ?case
  proof (cases "drop_bit 1 v = 0")
    case True
    then have "unat v div 2 = 0" using h by simp
    moreover have "0 < unat v" using 1 by (simp add: unat_gt_0)
    ultimately have "unat v = 1" by linarith
    with True show ?thesis by (subst log_loop.simps) (auto intro!: exI [of _ 0])
  next
    case False
    then have h0: "unat (drop_bit 1 v) \<noteq> 0" by (simp add: unat_eq_zero)
    have r: "unat (r + 1) = unat r + 1" using h h0 1(3) by (intro unat32_eqI) auto
    have "unat (r + 1) + unat (drop_bit 1 v) < 2 ^ 32" using r h h0 1(3) by linarith
    then obtain k where k: "unat (log_loop (drop_bit 1 v) (r + 1)) = unat (r + 1) + k" "2 ^ k \<le> unat (drop_bit 1 v)"
      "unat (drop_bit 1 v) < 2 ^ (k + 1)" using 1(1) [OF refl False False] by blast
    have "log_loop v r = log_loop (drop_bit 1 v) (r + 1)" using False by (subst log_loop.simps) simp
    moreover have "2 ^ (k + 1) \<le> unat v" "unat v < 2 ^ (k + 1 + 1)" using k h by simp_all
    ultimately show ?thesis using k(1) r by (intro exI [of _ "k + 1"]) simp
  qed
qed

lemma smear_step_bits:
  assumes "\<And>n. bit y n \<longleftrightarrow> (\<exists>m<d. bit x (n + m))"
  shows "bit (smear_step d y) n \<longleftrightarrow> (\<exists>m<2 * d. bit x (n + m))"
proof -
  have "bit (smear_step d y) n \<longleftrightarrow> (\<exists>m<d. bit x (n + m)) \<or> (\<exists>m<d. bit x (d + n + m))"
    by (auto simp: smear_step_def bit_or_iff bit_drop_bit_eq assms)
  also have "\<dots> \<longleftrightarrow> (\<exists>m<2 * d. bit x (n + m))"
  proof
    assume "(\<exists>m<d. bit x (n + m)) \<or> (\<exists>m<d. bit x (d + n + m))"
    then show "\<exists>m<2 * d. bit x (n + m)"
    proof
      assume "\<exists>m<d. bit x (d + n + m)"
      then obtain m where "m < d" "bit x (d + n + m)" by blast
      then show ?thesis by (intro exI [of _ "d + m"]) (simp add: ac_simps)
    next
      assume "\<exists>m<d. bit x (n + m)"
      then obtain m where "m < d" "bit x (n + m)" by blast
      then show ?thesis by (intro exI [of _ m]) simp
    qed
  next
    assume "\<exists>m<2 * d. bit x (n + m)"
    then obtain m where m: "m < 2 * d" "bit x (n + m)" by blast
    show "(\<exists>m<d. bit x (n + m)) \<or> (\<exists>m<d. bit x (d + n + m))"
    proof (cases "m < d")
      case False
      then have "d + n + (m - d) = n + m" by simp
      with m False show ?thesis by (intro disjI2 exI [of _ "m - d"]) simp
    qed (use m in blast)
  qed
  finally show ?thesis .
qed

lemma smear_all: "bit (smear_step 16 (smear_step 8 (smear_step 4 (smear_step 2 (smear_step 1 x))))) n
    \<longleftrightarrow> (\<exists>m<32. bit x (n + m))"
proof -
  have 0: "bit x n \<longleftrightarrow> (\<exists>m<1. bit x (n + m))" for n by simp
  have 1: "bit (smear_step 1 x) n \<longleftrightarrow> (\<exists>m<2. bit x (n + m))" for n using smear_step_bits [OF 0, of n] by simp
  have 2: "bit (smear_step 2 (smear_step 1 x)) n \<longleftrightarrow> (\<exists>m<4. bit x (n + m))" for n
    using smear_step_bits [of "smear_step 1 x" 2 x n, OF 1] by simp
  have 4: "bit (smear_step 4 (smear_step 2 (smear_step 1 x))) n \<longleftrightarrow> (\<exists>m<8. bit x (n + m))" for n
    using smear_step_bits [of "smear_step 2 (smear_step 1 x)" 4 x n, OF 2] by simp
  have 8: "bit (smear_step 8 (smear_step 4 (smear_step 2 (smear_step 1 x)))) n \<longleftrightarrow> (\<exists>m<16. bit x (n + m))" for n
    using smear_step_bits [of "smear_step 4 (smear_step 2 (smear_step 1 x))" 8 x n, OF 4] by simp
  show ?thesis
    using smear_step_bits [of "smear_step 8 (smear_step 4 (smear_step 2 (smear_step 1 x)))" 16 x n, OF 8] by simp
qed

lemma bit_word_nat: "bit (x :: u32) m \<longleftrightarrow> m < 32 \<and> odd (unat x div 2 ^ m)"
proof -
  have "bit (unat x) m \<longleftrightarrow> m < 32 \<and> bit x m" by (auto simp: bit_unsigned_iff dest: bit_imp_le_length)
  moreover have "bit x m \<Longrightarrow> m < 32" by (auto dest: bit_imp_le_length)
  ultimately show ?thesis by (auto simp: bit_iff_odd)
qed

lemma smear_mask:
  assumes "unat x < 2 ^ k" and "k \<noteq> 0 \<longrightarrow> 2 ^ (k - 1) \<le> unat x" and "k \<le> 32"
  shows "smear_step 16 (smear_step 8 (smear_step 4 (smear_step 2 (smear_step 1 x)))) = mask k"
proof (rule bit_word_eqI)
  fix n assume n: "n < LENGTH(32)"
  have hi: "\<not> bit x m" if "k \<le> m" for m
  proof -
    have "(2 :: nat) ^ k \<le> 2 ^ m" using that by (simp add: power_increasing)
    then have "unat x < 2 ^ m" using assms(1) by (rule less_le_trans [rotated])
    then have "unat x div 2 ^ m = 0" by simp
    then show ?thesis by (simp add: bit_word_nat)
  qed
  have top: "bit x (k - 1)" if "k \<noteq> 0"
  proof -
    have "unat x div 2 ^ (k - 1) = 1"
    proof (rule div_nat_eqI)
      show "2 ^ (k - 1) * 1 \<le> unat x" using assms(2) that by simp
      show "unat x < 2 ^ (k - 1) * Suc 1" using assms(1) that by (cases k) simp_all
    qed
    with that assms(3) show ?thesis by (simp add: bit_word_nat)
  qed
  have "(\<exists>m<32. bit x (n + m)) \<longleftrightarrow> n < k"
  proof
    assume "\<exists>m<32. bit x (n + m)"
    then obtain m where "bit x (n + m)" by blast
    then have "\<not> k \<le> n + m" using hi by blast
    then show "n < k" by simp
  next
    assume k: "n < k"
    then have "bit x (n + (k - 1 - n))" using top by simp
    then show "\<exists>m<32. bit x (n + m)" using k assms(3) by (intro exI [of _ "k - 1 - n"]) simp
  qed
  then show "bit (smear_step 16 (smear_step 8 (smear_step 4 (smear_step 2 (smear_step 1 x))))) n \<longleftrightarrow> bit (mask k :: u32) n"
    unfolding smear_all bit_mask_iff using n by simp
qed

lemma nat_log_exists: "\<exists>k. (n :: nat) < 2 ^ k \<and> (k \<noteq> 0 \<longrightarrow> 2 ^ (k - 1) \<le> n)"
proof -
  let ?k = "LEAST k. n < 2 ^ k"
  have "n < 2 ^ ?k" using less_exp [of n] by (rule LeastI)
  moreover have "?k \<noteq> 0 \<longrightarrow> 2 ^ (?k - 1) \<le> n"
    using not_less_Least [of "?k - 1" "\<lambda>k. n < 2 ^ k"] by auto
  ultimately show ?thesis by blast
qed

lemma next_power_spec:
  assumes "0 < unat v" and "unat v \<le> 2 ^ 31"
  shows "\<exists>k. unat (NextPowerOfTwo v) = 2 ^ k \<and> unat v \<le> 2 ^ k \<and> (k \<noteq> 0 \<longrightarrow> 2 ^ (k - 1) < unat v)"
proof -
  have v: "unat (v - 1) = unat v - 1" using assms(1) by (simp add: unat_minus_one unat_gt_0)
  obtain k where k: "unat (v - 1) < 2 ^ k" "k \<noteq> 0 \<longrightarrow> 2 ^ (k - 1) \<le> unat (v - 1)" using nat_log_exists by blast
  have k31: "k \<le> 31"
  proof (rule ccontr)
    assume "\<not> k \<le> 31"
    then have "(2 :: nat) ^ 31 \<le> 2 ^ (k - 1)" by (intro power_increasing) auto
    with k(2) \<open>\<not> k \<le> 31\<close> v assms show False by auto
  qed
  have "NextPowerOfTwo v = mask k + 1" unfolding NextPowerOfTwo_def using smear_mask [OF k] k31 by simp
  also have "\<dots> = 2 ^ k" by (simp add: mask_eq_exp_minus_1)
  finally have n: "NextPowerOfTwo v = 2 ^ k" .
  have "(2 :: nat) ^ k < 2 ^ 32" using k31 by (intro power_strict_increasing) simp_all
  then have "unat (NextPowerOfTwo v) = 2 ^ k" unfolding n by (intro unat32_eqI) simp_all
  with k v assms show ?thesis by (intro exI [of _ k]) auto
qed

text \<open>For every value from 1 to 2^31, \<open>NextPowerOfTwo\<close> is the least power of two that is not
  below it; \<open>LogBaseTwo\<close> of a value other than 0 is the exponent of the greatest power of two not above it, and
  \<open>CountSetBits\<close> counts the bits that are set.\<close>

theorem bit_functions_spec:
  assumes "0 < unat v" and "unat v \<le> 2 ^ 31"
  shows "(\<exists>k. unat (NextPowerOfTwo v) = 2 ^ k \<and> unat v \<le> 2 ^ k \<and> (\<forall>j. unat v \<le> 2 ^ j \<longrightarrow> k \<le> j))
    \<and> 2 ^ unat (LogBaseTwo v) \<le> unat v \<and> unat v < 2 ^ (unat (LogBaseTwo v) + 1)
    \<and> unat (CountSetBits v) = card {k. bit v k}"
proof -
  obtain k where k: "unat (NextPowerOfTwo v) = 2 ^ k" "unat v \<le> 2 ^ k" "k \<noteq> 0 \<longrightarrow> 2 ^ (k - 1) < unat v"
    using next_power_spec [OF assms] by blast
  have "k \<le> j" if "unat v \<le> 2 ^ j" for j
  proof (rule ccontr)
    assume "\<not> k \<le> j"
    then have "(2 :: nat) ^ j \<le> 2 ^ (k - 1)" by (intro power_increasing) auto
    moreover have "2 ^ (k - 1) < unat v" using k(3) \<open>\<not> k \<le> j\<close> by simp
    ultimately show False using that by linarith
  qed
  moreover have "v \<noteq> 0" using assms(1) by auto
  ultimately show ?thesis
    using k log_loop_spec [of v 0] count_set_bits_card [of v] assms(2) by (auto simp: LogBaseTwo_def)
qed

theorem bit_functions_spec_witness:
  "\<exists>k. unat (NextPowerOfTwo 37) = 2 ^ k \<and> 37 \<le> (2 :: nat) ^ k"
  using bit_functions_spec [of 37] by auto

lemma power_of_two_least:
  assumes "0 < unat v" and "unat v \<le> 2 ^ 31" and "unat v = 2 ^ j"
  shows "NextPowerOfTwo v = v"
proof -
  obtain k where k: "unat (NextPowerOfTwo v) = 2 ^ k" "unat v \<le> 2 ^ k" "k \<noteq> 0 \<longrightarrow> 2 ^ (k - 1) < unat v"
    using next_power_spec [OF assms(1,2)] by blast
  have "j \<le> k" using k(2) assms(3) by simp
  moreover have "\<not> j < k"
  proof
    assume "j < k"
    then have "(2 :: nat) ^ j \<le> 2 ^ (k - 1)" by (intro power_increasing) auto
    moreover have "2 ^ (k - 1) < unat v" using k(3) \<open>j < k\<close> by simp
    ultimately show False using assms(3) by linarith
  qed
  ultimately have "k = j" by simp
  with k(1) assms(3) show ?thesis by (simp add: word_unat_eq_iff)
qed

section \<open>Half-precision floats\<close>

lemma one_bit:
  fixes w :: "'a :: len word"
  shows "w AND push_bit k 1 = (if bit w k then push_bit k 1 else 0)"
  by (rule bit_word_eqI) (auto simp: bit_and_iff bit_exp_iff)

lemma bit_field:
  fixes w :: "'a :: len word"
  shows "w AND push_bit k (mask n) = push_bit k (take_bit n (drop_bit k w))"
  by (rule bit_word_eqI) (auto simp: bit_and_iff bit_push_bit_iff bit_take_bit_iff bit_drop_bit_eq bit_mask_iff)

lemma sign_bit: "ucast (h :: 16 word) AND (0x8000 :: u32) = (if bit h 15 then 0x8000 else 0)"
  using one_bit [of "ucast h :: u32" 15] by (simp add: bit_ucast_iff)

lemma take_31: "t AND 0x7fffffff = take_bit 31 (t :: u32)"
proof -
  have "(0x7fffffff :: u32) = mask 31" by (simp add: mask_eq_exp_minus_1)
  then show ?thesis by (simp only: take_bit_eq_mask)
qed

lemma low_31: "unat (t :: u32) < 2 ^ 31 \<Longrightarrow> take_bit 31 t = t"
  by (simp add: word_unat_eq_iff unsigned_take_bit_eq take_bit_nat_eq_self)

lemma high_bit: "unat (t :: u32) < 2 ^ 31 \<Longrightarrow> t AND 0x80000000 = 0"
proof -
  assume "unat t < 2 ^ 31"
  then have "\<not> bit t 31" by (simp add: bit_word_nat)
  then show ?thesis using one_bit [of t 31] by simp
qed

lemma unat_push: "unat w * 2 ^ n < 2 ^ 32 \<Longrightarrow> unat (push_bit n w :: u32) = unat w * 2 ^ n"
  by (subst unsigned_push_bit_eq) (simp add: push_bit_eq_mult take_bit_nat_eq_self)

lemma unat_drop: "unat (drop_bit n w) = unat (w :: 'a :: len word) div 2 ^ n"
  using unsigned_less [of w] by (subst unsigned_drop_bit_eq) (simp add: drop_bit_eq_div take_bit_nat_eq_self)

lemma unat_ucast16: "unat (ucast (h :: 16 word) :: u32) = unat h"
proof -
  have "unat h < 2 ^ 16" using unsigned_less [of h] by simp
  then show ?thesis by (intro unat32_eqI) simp_all
qed

lemma exponent_bits: "unat (t AND (0x7f800000 :: u32)) = (unat t div 2 ^ 23 mod 2 ^ 8) * 2 ^ 23"
proof -
  have u: "unat (take_bit 8 (drop_bit 23 t)) = unat t div 2 ^ 23 mod 2 ^ 8"
    by (simp add: unsigned_take_bit_eq unsigned_drop_bit_eq take_bit_eq_mod drop_bit_eq_div unat_mod unat_div)
  have "unat t div 2 ^ 23 mod 2 ^ 8 < 2 ^ 8" by simp
  then have "unat (push_bit 23 (take_bit 8 (drop_bit 23 t))) = (unat t div 2 ^ 23 mod 2 ^ 8) * 2 ^ 23"
    using u unat_push [of "take_bit 8 (drop_bit 23 t)" 23] by simp
  then have "unat (t AND push_bit 23 (mask 8)) = (unat t div 2 ^ 23 mod 2 ^ 8) * 2 ^ 23" by (simp only: bit_field)
  moreover have "push_bit 23 (mask 8) = (0x7f800000 :: u32)" by (simp add: mask_eq_exp_minus_1)
  ultimately show ?thesis by simp
qed

lemma half_exponent_bits: "unat (ucast (h :: 16 word) AND (0x7c00 :: u32)) = (unat h div 2 ^ 10 mod 2 ^ 5) * 2 ^ 10"
proof -
  have u: "unat (take_bit 5 (drop_bit 10 (ucast h :: u32))) = unat h div 2 ^ 10 mod 2 ^ 5"
    by (simp add: unsigned_take_bit_eq unsigned_drop_bit_eq take_bit_eq_mod drop_bit_eq_div unat_mod unat_div unat_ucast16)
  have "unat h div 2 ^ 10 mod 2 ^ 5 < 2 ^ 5" by simp
  then have "unat (push_bit 10 (take_bit 5 (drop_bit 10 (ucast h :: u32)))) = (unat h div 2 ^ 10 mod 2 ^ 5) * 2 ^ 10"
    using u unat_push [of "take_bit 5 (drop_bit 10 (ucast h))" 10] by simp
  then have "unat (ucast h AND (push_bit 10 (mask 5) :: u32)) = (unat h div 2 ^ 10 mod 2 ^ 5) * 2 ^ 10" by (simp only: bit_field)
  moreover have "push_bit 10 (mask 5) = (0x7c00 :: u32)" by (simp add: mask_eq_exp_minus_1)
  ultimately show ?thesis by simp
qed

lemma half_mantissa: "unat (ucast (h :: 16 word) AND (0x7fff :: u32)) = unat h mod 2 ^ 15"
proof -
  have "(0x7fff :: u32) = mask 15" by (simp add: mask_eq_exp_minus_1)
  then have "ucast h AND (0x7fff :: u32) = take_bit 15 (ucast h)" by (simp only: take_bit_eq_mask)
  then show ?thesis by (simp add: unsigned_take_bit_eq take_bit_eq_mod unat_ucast16 unat_mod)
qed

lemma half_parts: "ucast (ucast (h :: 16 word) AND (0x7fff :: u32) OR ucast h AND 0x8000 :: u32) = h"
proof -
  have "ucast (ucast h AND (mask k :: u32) OR ucast h AND push_bit k 1 :: u32) = h" if "k = 15" for k
  proof (rule bit_word_eqI)
    fix n assume "n < LENGTH(16)"
    then have "bit (ucast (ucast h AND (mask k :: u32) OR ucast h AND push_bit k 1 :: u32) :: 16 word) n \<longleftrightarrow> bit h n \<and> (n < k \<or> n = k)"
      by (auto simp: bit_and_iff bit_or_iff bit_ucast_iff bit_mask_iff bit_exp_iff)
    with that \<open>n < LENGTH(16)\<close> show "bit (ucast (ucast h AND (mask k :: u32) OR ucast h AND push_bit k 1 :: u32) :: 16 word) n = bit h n"
      by auto
  qed
  from this [OF refl] show ?thesis by (simp add: mask_eq_exp_minus_1)
qed

definition half_exponent :: "16 word \<Rightarrow> nat" where
  "half_exponent h = unat h div 2 ^ 10 mod 2 ^ 5"

lemma half_normal:
  assumes e: "0 < half_exponent h" "half_exponent h < 31"
  shows "FloatToHalf (HalfToFloat h) = h"
proof -
  let ?m = "ucast h AND (0x7fff :: u32)"
  let ?s = "ucast h AND (0x8000 :: u32)"
  have m: "unat ?m < 2 ^ 15" by (simp add: half_mantissa)
  let ?t = "push_bit 13 ?m + 0x38000000"
  have p: "unat (push_bit 13 ?m) = unat ?m * 2 ^ 13" using m by (intro unat_push) simp
  have t: "unat ?t = unat ?m * 2 ^ 13 + 0x38000000"
    using m p by (intro unat32_eqI) (simp_all add: word_unat_eq_iff unat_word_ariths)
  have t31: "unat ?t < 2 ^ 31" using t m by simp
  have e_t: "unat ?t div 2 ^ 23 = 112 + half_exponent h"
  proof -
    have "unat ?t = (unat ?m + 112 * 2 ^ 10) * 2 ^ 13" using t by simp
    then have "unat ?t div 2 ^ 23 = (unat ?m + 112 * 2 ^ 10) div 2 ^ 10"
      using div_mult2_eq [of "unat ?t" "2 ^ 13" "2 ^ 10"] by simp
    also have "\<dots> = unat ?m div 2 ^ 10 + 112" by simp
    also have "unat ?m div 2 ^ 10 = half_exponent h"
      using mod_mult2_eq [of "unat h" "2 ^ 10" "2 ^ 5"] by (simp add: half_mantissa half_exponent_def)
    finally show ?thesis by simp
  qed
  have nz: "ucast h AND (0x7c00 :: u32) \<noteq> 0"
  proof
    assume "ucast h AND (0x7c00 :: u32) = 0"
    then have "half_exponent h * 2 ^ 10 = 0" using half_exponent_bits [of h] by (simp add: half_exponent_def)
    with e show False by simp
  qed
  have s: "?s = 0 \<or> ?s = 0x8000" by (simp add: sign_bit)
  have f: "HalfToFloat h = ?t OR push_bit 16 ?s" using nz by (simp add: HalfToFloat_def Let_def)
  have s16: "push_bit 16 ?s = 0 \<and> ?s = 0 \<or> push_bit 16 ?s = 0x80000000 \<and> ?s = 0x8000"
  proof -
    have "push_bit 16 (0x8000 :: u32) = 0x80000000" by simp
    with s show ?thesis by (metis push_bit_of_0)
  qed
  have l: "(?t OR push_bit 16 ?s) AND 0x7fffffff = ?t"
    using s16 low_31 [OF t31] by (auto simp: take_31 take_bit_or)
  have hi: "(?t OR push_bit 16 ?s) AND 0x80000000 = push_bit 16 ?s"
    using s16 high_bit [OF t31] by (auto simp: bit.conj_disj_distrib2)
  have "(?t OR push_bit 16 ?s) AND 0x7f800000 = ?t AND 0x7f800000" using s16 by (auto simp: bit.conj_disj_distrib2)
  then have ex: "unat ((?t OR push_bit 16 ?s) AND 0x7f800000) = (112 + half_exponent h) * 2 ^ 23"
    using exponent_bits [of ?t] e e_t by simp
  have "drop_bit 13 ?t - 0x1c000 = ?m"
  proof -
    have "unat (drop_bit 13 ?t) = unat ?m + 0x1c000"
      unfolding unat_drop t by simp
    then have "drop_bit 13 ?t = ?m + 0x1c000"
      using m by (simp add: word_unat_eq_iff unat_word_ariths)
    then show ?thesis by simp
  qed
  moreover have "drop_bit 16 (push_bit 16 ?s) = ?s"
  proof -
    have "drop_bit 16 (push_bit 16 (0x8000 :: u32)) = 0x8000" by simp
    with s show ?thesis by (metis drop_bit_of_0 push_bit_of_0)
  qed
  moreover have "\<not> (?t OR push_bit 16 ?s) AND 0x7f800000 < 0x38800000" "\<not> (?t OR push_bit 16 ?s) AND 0x7f800000 > 0x47000000"
    "(?t OR push_bit 16 ?s) AND 0x7f800000 \<noteq> 0"
    using ex e by (auto simp: word_less_nat_alt)
  ultimately have "FloatToHalf (HalfToFloat h) = ucast (?m OR ?s)"
    unfolding f FloatToHalf_def Let_def l hi by simp
  then show ?thesis using half_parts by simp
qed

text \<open>Every half-precision number of normal exponent survives the conversion to a float and back;
  the zeros do as well, while infinities and NaNs become the greatest finite number of their sign and
  subnormal numbers become zero.\<close>

theorem half_roundtrip:
  assumes "half_exponent h < 31" and "0 < half_exponent h \<or> h AND 0x3ff = 0"
  shows "FloatToHalf (HalfToFloat h) = h"
proof (cases "0 < half_exponent h")
  case True
  then show ?thesis using assms(1) by (rule half_normal)
next
  case False
  with assms have z: "h AND 0x3ff = 0" and e0: "half_exponent h = 0" by simp_all
  have "h AND 0x3ff = take_bit 10 h" by (simp add: take_bit_eq_mask mask_eq_exp_minus_1)
  then have "take_bit 10 h = 0" using z by simp
  then have "unat h mod 2 ^ 10 = 0" by (simp add: word_unat_eq_iff unsigned_take_bit_eq take_bit_eq_mod unat_mod)
  then obtain q where q: "unat h = 2 ^ 10 * q" by (metis dvdE mod_0_imp_dvd)
  have "unat h < 2 ^ 16" using unsigned_less [of h] by simp
  then have "q < 64" using q by simp
  have "q mod 32 = 0" using e0 q by (simp add: half_exponent_def)
  then obtain r where r: "q = 32 * r" by (metis dvdE mod_0_imp_dvd)
  with \<open>q < 64\<close> have "r = 0 \<or> r = 1" by auto
  then have "unat h = 0 \<or> unat h = 2 ^ 15" using q r by auto
  then have "h = 0 \<or> h = 0x8000" by (simp add: word_unat_eq_iff)
  then show ?thesis by (auto simp: HalfToFloat_def FloatToHalf_def)
qed

theorem half_roundtrip_witness: "FloatToHalf (HalfToFloat 0x3c00) = 0x3c00 \<and> HalfToFloat 0x3c00 = 0x3f800000"
  using half_roundtrip [of "0x3c00"] by (simp add: half_exponent_def HalfToFloat_def)

section \<open>Random numbers\<close>

lemma rand_range: "0 \<le> fst (Rand seed) \<and> fst (Rand seed) < 32768"
proof -
  have "drop_bit 16 (rand_next seed) AND 32767 = take_bit 15 (drop_bit 16 (rand_next seed))"
    by (simp add: take_bit_eq_mask mask_eq_exp_minus_1)
  then have "unat (drop_bit 16 (rand_next seed) AND 32767) < 2 ^ 15"
    by (simp add: unsigned_take_bit_eq take_bit_nat_less_exp [of 15, simplified])
  then have "int (unat (drop_bit 16 (rand_next seed) AND 32767)) < int (2 ^ 15)" by (simp only: of_nat_less_iff)
  then have "uint (drop_bit 16 (rand_next seed) AND 32767) < 32768" by simp
  then show ?thesis unfolding Rand_def Let_def fst_conv by simp
qed

lemma rand_next_inj: "rand_next a = rand_next b \<Longrightarrow> a = b"
proof -
  assume "rand_next a = rand_next b"
  then have "a * 214013 = b * 214013" by (simp add: rand_next_def)
  then have "a * 214013 * 3115528533 = b * 214013 * 3115528533" by (rule arg_cong)
  then have "a * (214013 * 3115528533) = b * (214013 * 3115528533)" by (simp only: mult.assoc)
  moreover have "(214013 :: u32) * 3115528533 = 1" by simp
  ultimately show "a = b" by (simp only: mult_1_right)
qed

end
