(* ===== verification/Vectors.thy ===== *)
theory Vectors
  imports Complex_Main Prelude
begin

text \<open>
  Three-dimensional vectors and scalar helpers (\<open>Maths/Vector3.h\<close>, \<open>Maths/MathDefs.h\<close>) over an
  arbitrary ordered field, so without rounding, infinities and NaN. The functions of the code that need a
  square root are over the real numbers.
\<close>

section \<open>Scalars\<close>

definition Equals_eps :: "'f :: linordered_field \<Rightarrow> 'f \<Rightarrow> 'f \<Rightarrow> bool" where
  "Equals_eps lhs rhs eps \<longleftrightarrow> lhs + eps \<ge> rhs \<and> lhs - eps \<le> rhs"

definition EPSILON :: real where "EPSILON = 1 / 1000000"

definition Lerp :: "'f :: linordered_field \<Rightarrow> 'f \<Rightarrow> 'f \<Rightarrow> 'f" where
  "Lerp lhs rhs t = lhs * (1 - t) + rhs * t"

definition InverseLerp :: "'f :: linordered_field \<Rightarrow> 'f \<Rightarrow> 'f \<Rightarrow> 'f" where
  "InverseLerp lhs rhs x = (x - lhs) / (rhs - lhs)"

definition Min :: "'f :: linorder \<Rightarrow> 'f \<Rightarrow> 'f" where
  "Min lhs rhs = (if lhs < rhs then lhs else rhs)"

definition Max :: "'f :: linorder \<Rightarrow> 'f \<Rightarrow> 'f" where
  "Max lhs rhs = (if lhs > rhs then lhs else rhs)"

definition Abs :: "'f :: linordered_field \<Rightarrow> 'f" where
  "Abs v = (if v \<ge> 0 then v else - v)"

definition Sign :: "'f :: linordered_field \<Rightarrow> 'f" where
  "Sign v = (if v > 0 then 1 else if v < 0 then - 1 else 0)"

definition Clamp :: "'f :: linorder \<Rightarrow> 'f \<Rightarrow> 'f \<Rightarrow> 'f" where
  "Clamp v lo hi = (if v < lo then lo else if v > hi then hi else v)"

definition SmoothStep :: "'f :: linordered_field \<Rightarrow> 'f \<Rightarrow> 'f \<Rightarrow> 'f" where
  "SmoothStep lhs rhs t = (let t = Clamp ((t - lhs) / (rhs - lhs)) 0 1 in t * t * (3 - 2 * t))"

lemma scalar_simps [simp]: "Min a b = min a b" "Max a b = max a b" "Abs c = \<bar>c\<bar>" "Sign c = sgn c"
  by (auto simp: Min_def Max_def Abs_def Sign_def min_def max_def sgn_if)

lemma Clamp_bounds: "lo \<le> hi \<Longrightarrow> lo \<le> Clamp v lo hi \<and> Clamp v lo hi \<le> hi"
  by (auto simp: Clamp_def)

lemma lerp_inverse: "a \<noteq> b \<Longrightarrow> Lerp a b (InverseLerp a b x) = (x :: 'f :: linordered_field)"
proof -
  assume "a \<noteq> b"
  have "Lerp a b t = a + (b - a) * t" for t by (simp add: Lerp_def algebra_simps)
  with \<open>a \<noteq> b\<close> show ?thesis by (simp add: InverseLerp_def)
qed

lemma smooth_step_bounds: "0 \<le> SmoothStep a b t \<and> SmoothStep a b t \<le> (1 :: 'f :: linordered_field)"
proof -
  let ?t = "Clamp ((t - a) / (b - a)) 0 1"
  have t: "0 \<le> ?t" "?t \<le> 1" using Clamp_bounds [of "0 :: 'f" 1] by auto
  have "1 - ?t * ?t * (3 - 2 * ?t) = (1 - ?t) * (1 - ?t) * (1 + 2 * ?t)" by (simp add: algebra_simps)
  moreover have "0 \<le> (1 - ?t) * (1 - ?t) * (1 + 2 * ?t)" using t by simp
  ultimately have "?t * ?t * (3 - 2 * ?t) \<le> 1" by (metis diff_ge_0_iff_ge)
  then show ?thesis using t by (simp add: SmoothStep_def Let_def)
qed

section \<open>Vectors\<close>

datatype 'f vec3 = Vec3 (vx: 'f) (vy: 'f) (vz: 'f)

definition vec_add :: "'f :: plus vec3 \<Rightarrow> 'f vec3 \<Rightarrow> 'f vec3" where
  "vec_add a b = Vec3 (vx a + vx b) (vy a + vy b) (vz a + vz b)"

definition vec_neg :: "'f :: uminus vec3 \<Rightarrow> 'f vec3" where
  "vec_neg a = Vec3 (- vx a) (- vy a) (- vz a)"

definition vec_sub :: "'f :: minus vec3 \<Rightarrow> 'f vec3 \<Rightarrow> 'f vec3" where
  "vec_sub a b = Vec3 (vx a - vx b) (vy a - vy b) (vz a - vz b)"

definition vec_scale :: "'f :: times vec3 \<Rightarrow> 'f \<Rightarrow> 'f vec3" where
  "vec_scale a s = Vec3 (vx a * s) (vy a * s) (vz a * s)"

definition vec_mul :: "'f :: times vec3 \<Rightarrow> 'f vec3 \<Rightarrow> 'f vec3" where
  "vec_mul a b = Vec3 (vx a * vx b) (vy a * vy b) (vz a * vz b)"

definition vec_div :: "'f :: field vec3 \<Rightarrow> 'f \<Rightarrow> 'f vec3" where
  "vec_div a s = Vec3 (vx a / s) (vy a / s) (vz a / s)"

definition vec_divv :: "'f :: field vec3 \<Rightarrow> 'f vec3 \<Rightarrow> 'f vec3" where
  "vec_divv a b = Vec3 (vx a / vx b) (vy a / vy b) (vz a / vz b)"

definition vec_div_assign :: "'f :: field vec3 \<Rightarrow> 'f \<Rightarrow> 'f vec3" where
  "vec_div_assign a s = (let invRhs = 1 / s in Vec3 (vx a * invRhs) (vy a * invRhs) (vz a * invRhs))"

definition vec_less :: "'f :: ord vec3 \<Rightarrow> 'f vec3 \<Rightarrow> bool" where
  "vec_less a b \<longleftrightarrow> vx a < vx b \<and> vy a < vy b \<and> vz a < vz b"

definition vec_le :: "'f :: ord vec3 \<Rightarrow> 'f vec3 \<Rightarrow> bool" where
  "vec_le a b \<longleftrightarrow> vx a \<le> vx b \<and> vy a \<le> vy b \<and> vz a \<le> vz b"

definition vec_index :: "'f :: zero vec3 \<Rightarrow> int \<Rightarrow> 'f" where
  "vec_index a i = (if i = 0 then vx a else if i = 1 then vy a else if i = 2 then vz a else 0)"

definition LengthSquared :: "'f :: comm_ring vec3 \<Rightarrow> 'f" where
  "LengthSquared a = vx a * vx a + vy a * vy a + vz a * vz a"

definition DotProduct :: "'f :: comm_ring vec3 \<Rightarrow> 'f vec3 \<Rightarrow> 'f" where
  "DotProduct a b = vx a * vx b + vy a * vy b + vz a * vz b"

definition AbsDotProduct :: "'f :: linordered_field vec3 \<Rightarrow> 'f vec3 \<Rightarrow> 'f" where
  "AbsDotProduct a b = Abs (vx a * vx b) + Abs (vy a * vy b) + Abs (vz a * vz b)"

definition CrossProduct :: "'f :: comm_ring vec3 \<Rightarrow> 'f vec3 \<Rightarrow> 'f vec3" where
  "CrossProduct a b = Vec3 (vy a * vz b - vz a * vy b) (vz a * vx b - vx a * vz b) (vx a * vy b - vy a * vx b)"

definition vec_Abs :: "'f :: linordered_field vec3 \<Rightarrow> 'f vec3" where
  "vec_Abs a = Vec3 (Abs (vx a)) (Abs (vy a)) (Abs (vz a))"

definition vec_Lerp :: "'f :: linordered_field vec3 \<Rightarrow> 'f vec3 \<Rightarrow> 'f \<Rightarrow> 'f vec3" where
  "vec_Lerp a b t = vec_add (vec_scale a (1 - t)) (vec_scale b t)"

definition vec_Equals :: "'f :: linordered_field vec3 \<Rightarrow> 'f vec3 \<Rightarrow> 'f \<Rightarrow> bool" where
  "vec_Equals a b eps \<longleftrightarrow> Equals_eps (vx a) (vx b) eps \<and> Equals_eps (vy a) (vy b) eps \<and> Equals_eps (vz a) (vz b) eps"

definition ProjectOntoLine :: "'f :: linordered_field vec3 \<Rightarrow> 'f vec3 \<Rightarrow> 'f vec3 \<Rightarrow> bool \<Rightarrow> 'f vec3" where
  "ProjectOntoLine p start end_point clamped =
    (let direction = vec_sub end_point start; lengthSquared = LengthSquared direction;
         factor = DotProduct (vec_sub p start) direction / lengthSquared;
         factor = (if clamped then Clamp factor 0 1 else factor)
     in vec_add start (vec_scale direction factor))"

definition VectorMin :: "'f :: linorder vec3 \<Rightarrow> 'f vec3 \<Rightarrow> 'f vec3" where
  "VectorMin a b = Vec3 (Min (vx a) (vx b)) (Min (vy a) (vy b)) (Min (vz a) (vz b))"

definition VectorMax :: "'f :: linorder vec3 \<Rightarrow> 'f vec3 \<Rightarrow> 'f vec3" where
  "VectorMax a b = Vec3 (Max (vx a) (vx b)) (Max (vy a) (vy b)) (Max (vz a) (vz b))"

definition VectorLerp :: "'f :: linordered_field vec3 \<Rightarrow> 'f vec3 \<Rightarrow> 'f vec3 \<Rightarrow> 'f vec3" where
  "VectorLerp lhs rhs t = vec_add lhs (vec_mul (vec_sub rhs lhs) t)"

text \<open>Normalisation: vectors of length about 1 and the zero vector stay as they are. \<open>M_EPSILON\<close> is 10^-6.\<close>

definition vec_Length :: "real vec3 \<Rightarrow> real" where
  "vec_Length a = sqrt (LengthSquared a)"

definition Normalized :: "real vec3 \<Rightarrow> real vec3" where
  "Normalized a = (let lenSquared = LengthSquared a in
     if \<not> Equals_eps lenSquared 1 (1 / 1000000) \<and> lenSquared > 0
     then (let invLen = 1 / sqrt lenSquared in vec_scale a invLen) else a)"

text \<open>Vectors form an abelian group, so the rules of the library apply to sums of them.\<close>

instantiation vec3 :: (ab_group_add) ab_group_add
begin

definition zero_vec3 :: "'a vec3" where "zero_vec3 = Vec3 0 0 0"
definition plus_vec3 :: "'a vec3 \<Rightarrow> 'a vec3 \<Rightarrow> 'a vec3" where "plus_vec3 = vec_add"
definition uminus_vec3 :: "'a vec3 \<Rightarrow> 'a vec3" where "uminus_vec3 = vec_neg"
definition minus_vec3 :: "'a vec3 \<Rightarrow> 'a vec3 \<Rightarrow> 'a vec3" where "minus_vec3 = vec_sub"

instance
  by intro_classes (simp_all add: zero_vec3_def plus_vec3_def uminus_vec3_def minus_vec3_def vec_add_def vec_neg_def
    vec_sub_def algebra_simps vec3.expand)

end

lemmas vec_defs = vec_add_def vec_neg_def vec_sub_def vec_scale_def vec_mul_def vec_div_def vec_divv_def
  vec_div_assign_def LengthSquared_def DotProduct_def CrossProduct_def vec_Abs_def VectorMin_def VectorMax_def
  VectorLerp_def

lemma vec_op_simps [simp]:
  "vx (a + b) = vx a + vx b" "vy (a + b) = vy a + vy b" "vz (a + b) = vz a + vz b"
  "vx (a - b) = vx a - vx b" "vy (a - b) = vy a - vy b" "vz (a - b) = vz a - vz b"
  by (simp_all add: plus_vec3_def minus_vec3_def vec_add_def vec_sub_def)

lemma cross_orthogonal:
  "DotProduct (CrossProduct a b) a = 0" "DotProduct (CrossProduct a b) b = 0"
  for a b :: "'f :: linordered_field vec3"
  by (simp_all add: vec_defs algebra_simps)

lemma lagrange_identity:
  "LengthSquared (CrossProduct a b) = LengthSquared a * LengthSquared b - DotProduct a b * DotProduct a b"
  for a b :: "'f :: linordered_field vec3"
  by (simp add: vec_defs algebra_simps)

lemma LengthSquared_nonneg: "0 \<le> LengthSquared (a :: 'f :: linordered_field vec3)"
  by (simp add: LengthSquared_def)

lemma LengthSquared_zero: "LengthSquared (a :: 'f :: linordered_field vec3) = 0 \<longleftrightarrow> a = 0"
proof -
  have "x * x + y * y + z * z = 0 \<longleftrightarrow> x = 0 \<and> y = 0 \<and> z = 0" for x y z :: 'f
    by (simp add: add_nonneg_eq_0_iff)
  then show ?thesis by (cases a) (simp add: LengthSquared_def zero_vec3_def)
qed

text \<open>The projection onto a line is the foot of the perpendicular.\<close>

lemma project_onto_line_perpendicular:
  assumes "a \<noteq> (b :: 'f :: linordered_field vec3)"
  shows "DotProduct (vec_sub p (ProjectOntoLine p a b False)) (vec_sub b a) = 0"
proof -
  let ?d = "vec_sub b a"
  have "LengthSquared ?d \<noteq> 0" using assms by (simp add: LengthSquared_zero flip: minus_vec3_def)
  moreover have "DotProduct (vec_sub p (vec_add a (vec_scale ?d k))) ?d = DotProduct (vec_sub p a) ?d - k * LengthSquared ?d" for k
    by (simp add: vec_defs algebra_simps)
  ultimately show ?thesis by (simp add: ProjectOntoLine_def Let_def)
qed

lemma normalized_length: "LengthSquared (Normalized a) = 1 \<or> a = 0 \<or> Equals_eps (LengthSquared (Normalized a)) 1 (1 / 1000000)"
proof -
  have n: "0 \<le> LengthSquared a" by (rule LengthSquared_nonneg)
  have s: "LengthSquared (vec_scale a k) = k * k * LengthSquared a" for k
    by (simp add: vec_defs algebra_simps)
  have "LengthSquared (vec_scale a (1 / sqrt (LengthSquared a))) = 1" if "LengthSquared a > 0"
    using that by (simp add: s)
  then show ?thesis using n LengthSquared_zero [of a] by (auto simp: Normalized_def Let_def)
qed

end
