(* ===== verification/BoundingBoxes.thy ===== *)
theory BoundingBoxes
  imports Complex_Main Vectors
begin

text \<open>
  Axis-aligned bounding boxes and their tests against points, boxes and spheres
  (\<open>Maths/BoundingBox.*\<close>, the geometric tests of \<open>Maths/Sphere.*\<close>). A box is the pair of its corners, as in
  the code; \<open>in_box\<close> gives its points. The infinity of an undefined box is a parameter, and the branches
  without SSE instructions are the ones modelled.
\<close>

datatype intersection = OUTSIDE | INTERSECTS | INSIDE

record 'f bbox =
  bb_min :: "'f vec3"
  bb_max :: "'f vec3"

record 'f sphere =
  center :: "'f vec3"
  radius :: 'f

definition mk_box :: "'f vec3 \<Rightarrow> 'f vec3 \<Rightarrow> 'f bbox" where
  "mk_box lo hi = \<lparr>bb_min = lo, bb_max = hi\<rparr>"

section \<open>Boxes\<close>

definition bb_Clear :: "'f :: linordered_field \<Rightarrow> 'f bbox" where
  "bb_Clear huge = mk_box (Vec3 huge huge huge) (Vec3 (- huge) (- huge) (- huge))"

definition bb_Defined :: "'f :: linordered_field \<Rightarrow> 'f bbox \<Rightarrow> bool" where
  "bb_Defined huge b \<longleftrightarrow> vx (bb_min b) \<noteq> huge"

definition Merge_point :: "'f :: linordered_field vec3 \<Rightarrow> 'f bbox \<Rightarrow> 'f bbox" where
  "Merge_point p b = mk_box
     (Vec3 (if vx p < vx (bb_min b) then vx p else vx (bb_min b)) (if vy p < vy (bb_min b) then vy p else vy (bb_min b))
        (if vz p < vz (bb_min b) then vz p else vz (bb_min b)))
     (Vec3 (if vx p > vx (bb_max b) then vx p else vx (bb_max b)) (if vy p > vy (bb_max b) then vy p else vy (bb_max b))
        (if vz p > vz (bb_max b) then vz p else vz (bb_max b)))"

definition Merge_box :: "'f :: linordered_field bbox \<Rightarrow> 'f bbox \<Rightarrow> 'f bbox" where
  "Merge_box c b = mk_box
     (Vec3 (if vx (bb_min c) < vx (bb_min b) then vx (bb_min c) else vx (bb_min b))
        (if vy (bb_min c) < vy (bb_min b) then vy (bb_min c) else vy (bb_min b))
        (if vz (bb_min c) < vz (bb_min b) then vz (bb_min c) else vz (bb_min b)))
     (Vec3 (if vx (bb_max c) > vx (bb_max b) then vx (bb_max c) else vx (bb_max b))
        (if vy (bb_max c) > vy (bb_max b) then vy (bb_max c) else vy (bb_max b))
        (if vz (bb_max c) > vz (bb_max b) then vz (bb_max c) else vz (bb_max b)))"

definition Merge_points :: "'f :: linordered_field vec3 list \<Rightarrow> 'f bbox \<Rightarrow> 'f bbox" where
  "Merge_points ps b = fold Merge_point ps b"

definition Define_points :: "'f :: linordered_field \<Rightarrow> 'f vec3 list \<Rightarrow> 'f bbox" where
  "Define_points huge ps = (if ps = [] then bb_Clear huge else Merge_points ps (bb_Clear huge))"

definition Define_sphere :: "'f :: linordered_field sphere \<Rightarrow> 'f bbox" where
  "Define_sphere s = mk_box (vec_add (center s) (Vec3 (- radius s) (- radius s) (- radius s)))
     (vec_add (center s) (Vec3 (radius s) (radius s) (radius s)))"

definition Merge_sphere :: "'f :: linordered_field sphere \<Rightarrow> 'f bbox \<Rightarrow> 'f bbox" where
  "Merge_sphere s b = Merge_point (vec_add (center s) (Vec3 (- radius s) (- radius s) (- radius s)))
     (Merge_point (vec_add (center s) (Vec3 (radius s) (radius s) (radius s))) b)"

definition Clip :: "'f :: linordered_field \<Rightarrow> 'f bbox \<Rightarrow> 'f bbox \<Rightarrow> 'f bbox" where
  "Clip huge c b =
    (let lo = Vec3 (if vx (bb_min c) > vx (bb_min b) then vx (bb_min c) else vx (bb_min b))
                (if vy (bb_min c) > vy (bb_min b) then vy (bb_min c) else vy (bb_min b))
                (if vz (bb_min c) > vz (bb_min b) then vz (bb_min c) else vz (bb_min b));
         hi = Vec3 (if vx (bb_max c) < vx (bb_max b) then vx (bb_max c) else vx (bb_max b))
                (if vy (bb_max c) < vy (bb_max b) then vy (bb_max c) else vy (bb_max b))
                (if vz (bb_max c) < vz (bb_max b) then vz (bb_max c) else vz (bb_max b))
     in if vx lo > vx hi \<or> vy lo > vy hi \<or> vz lo > vz hi then bb_Clear huge else mk_box lo hi)"

definition bb_Center :: "'f :: linordered_field bbox \<Rightarrow> 'f vec3" where
  "bb_Center b = vec_scale (vec_add (bb_max b) (bb_min b)) (1 / 2)"

definition bb_Size :: "'f :: linordered_field bbox \<Rightarrow> 'f vec3" where
  "bb_Size b = vec_sub (bb_max b) (bb_min b)"

definition HalfSize :: "'f :: linordered_field bbox \<Rightarrow> 'f vec3" where
  "HalfSize b = vec_scale (vec_sub (bb_max b) (bb_min b)) (1 / 2)"

section \<open>Tests\<close>

definition IsInside_point :: "'f :: linordered_field bbox \<Rightarrow> 'f vec3 \<Rightarrow> intersection" where
  "IsInside_point b p =
    (if vx p < vx (bb_min b) \<or> vx p > vx (bb_max b) \<or> vy p < vy (bb_min b) \<or> vy p > vy (bb_max b)
        \<or> vz p < vz (bb_min b) \<or> vz p > vz (bb_max b) then OUTSIDE else INSIDE)"

definition apart :: "'f :: linordered_field bbox \<Rightarrow> 'f bbox \<Rightarrow> bool" where
  "apart b c \<longleftrightarrow> vx (bb_max c) < vx (bb_min b) \<or> vx (bb_min c) > vx (bb_max b)
     \<or> vy (bb_max c) < vy (bb_min b) \<or> vy (bb_min c) > vy (bb_max b)
     \<or> vz (bb_max c) < vz (bb_min b) \<or> vz (bb_min c) > vz (bb_max b)"

definition IsInside_box :: "'f :: linordered_field bbox \<Rightarrow> 'f bbox \<Rightarrow> intersection" where
  "IsInside_box b c =
    (if apart b c then OUTSIDE
     else if vx (bb_min c) < vx (bb_min b) \<or> vx (bb_max c) > vx (bb_max b)
        \<or> vy (bb_min c) < vy (bb_min b) \<or> vy (bb_max c) > vy (bb_max b)
        \<or> vz (bb_min c) < vz (bb_min b) \<or> vz (bb_max c) > vz (bb_max b) then INTERSECTS
     else INSIDE)"

definition IsInsideFast_box :: "'f :: linordered_field bbox \<Rightarrow> 'f bbox \<Rightarrow> intersection" where
  "IsInsideFast_box b c = (if apart b c then OUTSIDE else INSIDE)"

text \<open>The squared distance from the centre of a sphere to a box, one axis at a time.\<close>

definition axis_dist :: "'f :: linordered_field \<Rightarrow> 'f \<Rightarrow> 'f \<Rightarrow> 'f" where
  "axis_dist c lo hi = (if c < lo then (c - lo) * (c - lo) else if c > hi then (c - hi) * (c - hi) else 0)"

definition dist_squared :: "'f :: linordered_field bbox \<Rightarrow> 'f vec3 \<Rightarrow> 'f" where
  "dist_squared b c = axis_dist (vx c) (vx (bb_min b)) (vx (bb_max b)) + axis_dist (vy c) (vy (bb_min b)) (vy (bb_max b))
     + axis_dist (vz c) (vz (bb_min b)) (vz (bb_max b))"

definition IsInside_sphere :: "'f :: linordered_field bbox \<Rightarrow> 'f sphere \<Rightarrow> intersection" where
  "IsInside_sphere b s =
    (let c = center s; r = radius s in
     if dist_squared b c > r * r then OUTSIDE
     else if vx c - r < vx (bb_min b) \<or> vx c + r > vx (bb_max b) \<or> vy c - r < vy (bb_min b)
        \<or> vy c + r > vy (bb_max b) \<or> vz c - r < vz (bb_min b) \<or> vz c + r > vz (bb_max b) then INTERSECTS
     else INSIDE)"

definition IsInsideFast_sphere :: "'f :: linordered_field bbox \<Rightarrow> 'f sphere \<Rightarrow> intersection" where
  "IsInsideFast_sphere b s = (if dist_squared b (center s) \<ge> radius s * radius s then OUTSIDE else INSIDE)"

text \<open>Tests of a sphere against a point, a sphere (without the square root) and a box.\<close>

definition sphere_IsInside_point :: "'f :: linordered_field sphere \<Rightarrow> 'f vec3 \<Rightarrow> intersection" where
  "sphere_IsInside_point s p =
    (if LengthSquared (vec_sub p (center s)) < radius s * radius s then INSIDE else OUTSIDE)"

definition sphere_IsInsideFast_sphere :: "'f :: linordered_field sphere \<Rightarrow> 'f sphere \<Rightarrow> intersection" where
  "sphere_IsInsideFast_sphere s t =
    (let distSquared = LengthSquared (vec_sub (center t) (center s)); combined = radius t + radius s
     in if distSquared \<ge> combined * combined then OUTSIDE else INSIDE)"

text \<open>The corners are visited along edges; the first one outside decides.\<close>

definition sphere_IsInside_box :: "'f :: linordered_field sphere \<Rightarrow> 'f bbox \<Rightarrow> intersection" where
  "sphere_IsInside_box s b =
    (let r2 = radius s * radius s in
     if dist_squared b (center s) \<ge> r2 then OUTSIDE
     else (let lo = vec_sub (bb_min b) (center s); hi = vec_sub (bb_max b) (center s) in
       if list_ex (\<lambda>v. LengthSquared v \<ge> r2)
          [Vec3 (vx lo) (vy lo) (vz lo), Vec3 (vx hi) (vy lo) (vz lo), Vec3 (vx hi) (vy hi) (vz lo),
           Vec3 (vx lo) (vy hi) (vz lo), Vec3 (vx lo) (vy hi) (vz hi), Vec3 (vx lo) (vy lo) (vz hi),
           Vec3 (vx hi) (vy lo) (vz hi), Vec3 (vx hi) (vy hi) (vz hi)] then INTERSECTS
       else INSIDE))"

definition sphere_IsInsideFast_box :: "'f :: linordered_field sphere \<Rightarrow> 'f bbox \<Rightarrow> intersection" where
  "sphere_IsInsideFast_box s b = (if dist_squared b (center s) \<ge> radius s * radius s then OUTSIDE else INSIDE)"

section \<open>What the tests mean\<close>

definition in_box :: "'f :: linordered_field vec3 \<Rightarrow> 'f bbox \<Rightarrow> bool" where
  "in_box p b \<longleftrightarrow> vec_le (bb_min b) p \<and> vec_le p (bb_max b)"

definition box_ok :: "'f :: linordered_field bbox \<Rightarrow> bool" where
  "box_ok b \<longleftrightarrow> vec_le (bb_min b) (bb_max b)"

definition box_le :: "'f :: linordered_field bbox \<Rightarrow> 'f bbox \<Rightarrow> bool" where
  "box_le b c \<longleftrightarrow> vec_le (bb_min c) (bb_min b) \<and> vec_le (bb_max b) (bb_max c)"

lemmas box_simps = in_box_def box_ok_def box_le_def vec_le_def mk_box_def

lemma box_le_in: "box_le b c \<Longrightarrow> in_box p b \<Longrightarrow> in_box p c"
  by (auto simp: box_simps)

lemma merge_point_box: "in_box p (Merge_point p b)" "box_le b (Merge_point p b)"
  by (auto simp: Merge_point_def box_simps)

lemma merge_box_upper: "box_le b (Merge_box c b)" "box_le c (Merge_box c b)"
  by (auto simp: Merge_box_def box_simps)

lemma merge_box_least: "box_le b d \<Longrightarrow> box_le c d \<Longrightarrow> box_le (Merge_box c b) d"
  by (auto simp: Merge_box_def box_simps)

lemma box_le_trans: "box_le a b \<Longrightarrow> box_le b c \<Longrightarrow> box_le a c"
  by (auto simp: box_simps)

lemma box_le_refl: "box_le b b"
  by (simp add: box_simps)

lemma merge_points_le: "box_le b (Merge_points ps b)"
proof (induction ps arbitrary: b)
  case (Cons q ps)
  have "box_le b (Merge_point q b)" by (rule merge_point_box)
  also note Cons [of "Merge_point q b"]
  finally (box_le_trans) show ?case by (simp add: Merge_points_def)
qed (simp add: Merge_points_def box_le_refl)

lemma merge_points_in: "p \<in> set ps \<Longrightarrow> in_box p (Merge_points ps b)"
proof (induction ps arbitrary: b)
  case (Cons q ps)
  show ?case
  proof (cases "p = q")
    case True
    have "in_box p (Merge_points ps (Merge_point q b))"
      unfolding True by (rule box_le_in [OF merge_points_le merge_point_box(1)])
    then show ?thesis by (simp add: Merge_points_def)
  next
    case False
    with Cons show ?thesis by (simp add: Merge_points_def)
  qed
qed simp

lemma apart_iff:
  assumes "box_ok b" and "box_ok c"
  shows "apart b c \<longleftrightarrow> \<not> (\<exists>p. in_box p b \<and> in_box p c)"
proof
  assume "\<not> (\<exists>p. in_box p b \<and> in_box p c)"
  then have "\<not> (in_box (VectorMax (bb_min b) (bb_min c)) b \<and> in_box (VectorMax (bb_min b) (bb_min c)) c)" by blast
  with assms show "apart b c" by (auto simp: box_simps apart_def VectorMax_def max_def split: if_splits)
qed (fastforce simp: box_simps apart_def)

lemma IsInside_point_iff: "IsInside_point b p = INSIDE \<longleftrightarrow> in_box p b"
  by (auto simp: IsInside_point_def box_simps)

lemma IsInside_box_cases:
  assumes "box_ok b" and "box_ok c"
  shows "IsInside_box b c = OUTSIDE \<longleftrightarrow> \<not> (\<exists>p. in_box p b \<and> in_box p c)"
    and "IsInside_box b c = INSIDE \<longleftrightarrow> (\<forall>p. in_box p c \<longrightarrow> in_box p b)"
proof -
  show "IsInside_box b c = OUTSIDE \<longleftrightarrow> \<not> (\<exists>p. in_box p b \<and> in_box p c)"
    using apart_iff [OF assms] by (simp add: IsInside_box_def)
  have "(\<forall>p. in_box p c \<longrightarrow> in_box p b) \<longleftrightarrow> box_le c b"
  proof
    assume "\<forall>p. in_box p c \<longrightarrow> in_box p b"
    then have "in_box (bb_min c) b" "in_box (bb_max c) b" using assms by (auto simp: box_simps)
    then show "box_le c b" by (auto simp: box_simps)
  qed (auto dest: box_le_in)
  then show "IsInside_box b c = INSIDE \<longleftrightarrow> (\<forall>p. in_box p c \<longrightarrow> in_box p b)"
    using assms by (auto simp: IsInside_box_def apart_def box_simps)
qed

lemma Clip_alt: "Clip huge c b = (let lo = VectorMax (bb_min c) (bb_min b); hi = VectorMin (bb_max c) (bb_max b)
    in if vec_le lo hi then mk_box lo hi else bb_Clear huge)"
proof -
  have "(if x > y then x else y) = max x y" "(if x < y then x else y) = min x y" for x y :: 'a
    by (auto simp: max_def min_def)
  moreover have "(if x1 > y1 \<or> x2 > y2 \<or> x3 > y3 then e else f) = (if x1 \<le> y1 \<and> x2 \<le> y2 \<and> x3 \<le> y3 then f else e)"
    for x1 y1 x2 y2 x3 y3 :: 'a and e f :: "'a bbox"
    by auto
  ultimately show ?thesis
    by (simp only: Clip_def Let_def VectorMax_def VectorMin_def vec_le_def vec3.sel scalar_simps)
qed

lemma in_corners: "vec_le (VectorMax a b) p \<and> vec_le p (VectorMin c d) \<longleftrightarrow>
    (vec_le a p \<and> vec_le p c) \<and> (vec_le b p \<and> vec_le p d)"
  by (auto simp: vec_le_def VectorMax_def VectorMin_def)

lemma vec_le_trans: "vec_le a b \<Longrightarrow> vec_le b c \<Longrightarrow> vec_le a (c :: 'f :: linorder vec3)"
  by (auto simp: vec_le_def)

text \<open>Clipping intersects the point sets; a box with no common point becomes undefined.\<close>

lemma clip_points:
  assumes "0 < huge"
  shows "in_box p (Clip huge c b) \<longleftrightarrow> in_box p b \<and> in_box p c"
proof -
  let ?lo = "VectorMax (bb_min c) (bb_min b)" and ?hi = "VectorMin (bb_max c) (bb_max b)"
  have n: "\<not> in_box p (bb_Clear huge)" using assms by (simp add: bb_Clear_def box_simps)
  have r: "in_box p b \<and> in_box p c \<longleftrightarrow> vec_le ?lo p \<and> vec_le p ?hi"
    using in_corners [of "bb_min c" "bb_min b" p "bb_max c" "bb_max b"] by (auto simp: in_box_def)
  show ?thesis
  proof (cases "vec_le ?lo ?hi")
    case True
    then show ?thesis by (simp add: Clip_alt Let_def r) (simp add: in_box_def mk_box_def)
  next
    case False
    then have "\<not> (vec_le ?lo p \<and> vec_le p ?hi)" by (blast intro: vec_le_trans)
    with False n show ?thesis unfolding r by (simp add: Clip_alt Let_def)
  qed
qed

text \<open>The distance of the sphere tests is the least distance to a point of the box.\<close>

lemma axis_dist_least:
  assumes "lo \<le> x" and "x \<le> hi"
  shows "axis_dist c lo hi \<le> (x - c) * (x - c)"
proof -
  have sq: "0 \<le> u \<Longrightarrow> u \<le> v \<Longrightarrow> u * u \<le> v * v" for u v :: 'a by (rule mult_mono) auto
  consider "c < lo" | "c > hi" | "lo \<le> c" "c \<le> hi" by force
  then show ?thesis
  proof cases
    case 1
    with sq [of "lo - c" "x - c"] assms show ?thesis by (simp add: axis_dist_def algebra_simps)
  next
    case 2
    with sq [of "c - hi" "c - x"] assms show ?thesis by (simp add: axis_dist_def algebra_simps)
  qed (simp add: axis_dist_def)
qed

lemma axis_dist_clamp: "axis_dist c lo hi = (Clamp c lo hi - c) * (Clamp c lo hi - c)"
  by (auto simp: axis_dist_def Clamp_def algebra_simps)

lemma dist_squared_least: "in_box p b \<Longrightarrow> dist_squared b c \<le> LengthSquared (vec_sub p c)"
  unfolding dist_squared_def LengthSquared_def
  by (intro add_mono) (auto simp: box_simps vec_sub_def intro: axis_dist_least)

lemma dist_squared_attained:
  assumes "box_ok b"
  shows "\<exists>p. in_box p b \<and> dist_squared b c = LengthSquared (vec_sub p c)"
proof -
  let ?p = "Vec3 (Clamp (vx c) (vx (bb_min b)) (vx (bb_max b))) (Clamp (vy c) (vy (bb_min b)) (vy (bb_max b)))
    (Clamp (vz c) (vz (bb_min b)) (vz (bb_max b)))"
  have "in_box ?p b" using assms Clamp_bounds by (auto simp: box_simps)
  moreover have "dist_squared b c = LengthSquared (vec_sub ?p c)"
    by (simp add: dist_squared_def axis_dist_clamp LengthSquared_def vec_sub_def)
  ultimately show ?thesis by blast
qed

text \<open>For a box with ordered corners, the tests against boxes and spheres mean what they are named
  for: a box is OUTSIDE exactly when no point is common and INSIDE exactly when it is contained; a sphere
  is OUTSIDE exactly when every point of the box is farther from its centre than the radius; and clipping
  computes the common points.\<close>

theorem box_tests:
  assumes "box_ok b" and "box_ok c" and "0 < huge"
  shows "(IsInside_box b c = OUTSIDE \<longleftrightarrow> \<not> (\<exists>p. in_box p b \<and> in_box p c))
    \<and> (IsInside_box b c = INSIDE \<longleftrightarrow> (\<forall>p. in_box p c \<longrightarrow> in_box p b))
    \<and> (IsInside_sphere b s = OUTSIDE \<longleftrightarrow> (\<forall>p. in_box p b \<longrightarrow> radius s * radius s < LengthSquared (vec_sub p (center s))))
    \<and> (\<forall>p. in_box p (Clip huge c b) \<longleftrightarrow> in_box p b \<and> in_box p c)"
proof -
  have "IsInside_sphere b s = OUTSIDE \<longleftrightarrow> dist_squared b (center s) > radius s * radius s"
    by (simp add: IsInside_sphere_def Let_def)
  also have "\<dots> \<longleftrightarrow> (\<forall>p. in_box p b \<longrightarrow> radius s * radius s < LengthSquared (vec_sub p (center s)))"
    using dist_squared_attained [OF assms(1), of "center s"] dist_squared_least [of _ b "center s"]
    by (metis less_le_trans)
  finally show ?thesis using IsInside_box_cases [OF assms(1,2)] clip_points [OF assms(3)] by blast
qed

definition unit_box :: "rat bbox" where
  "unit_box = mk_box (Vec3 0 0 0) (Vec3 1 1 1)"

theorem box_tests_witness:
  "IsInside_box unit_box unit_box = INSIDE \<and> IsInside_sphere unit_box \<lparr>center = Vec3 3 0 0, radius = 1\<rparr> = OUTSIDE"
proof -
  have "box_ok unit_box" by (simp add: unit_box_def box_simps)
  from box_tests [OF this this zero_less_one, of "\<lparr>center = Vec3 3 0 0, radius = 1\<rparr>"]
  have "IsInside_box unit_box unit_box = INSIDE" by blast
  moreover have "IsInside_sphere unit_box \<lparr>center = Vec3 3 0 0, radius = 1\<rparr> = OUTSIDE"
    by (simp add: IsInside_sphere_def dist_squared_def axis_dist_def unit_box_def mk_box_def)
  ultimately show ?thesis by blast
qed

end
