(* ===== verification/Broadphases.thy ===== *)
theory Broadphases
  imports BoundingBoxes "HOL-Library.Multiset"
begin

text \<open>
  Broad phases of collision detection (\<open>Physics/LumosPhysicsEngine/*Broadphase.*\<close>): brute force, sort
  and sweep along an axis, and the octree that hands its leaves to a secondary broad phase. A body is a
  number; the world \<open>W\<close> gives what the broad phases read of it. \<open>std::sort\<close> is a parameter that returns
  some sorted permutation. Reading or writing outside the fixed arrays of the octree is a fault.
\<close>

record 'f body =
  at_rest :: bool
  is_static :: bool
  has_shape :: bool
  aabb :: "'f bbox"

type_synonym 'f world = "nat \<Rightarrow> 'f body"

definition is_awake :: "'f body \<Rightarrow> bool" where
  "is_awake b \<longleftrightarrow> \<not> at_rest b"

section \<open>Brute force\<close>

definition bf_skip :: "'f body \<Rightarrow> 'f body \<Rightarrow> bool" where
  "bf_skip a b \<longleftrightarrow> at_rest a \<and> at_rest b \<or> is_static a \<and> is_static b \<or> at_rest a \<and> is_static b \<or> is_static a \<and> at_rest b"

definition bf_report :: "'f body \<Rightarrow> 'f body \<Rightarrow> bool" where
  "bf_report a b \<longleftrightarrow> \<not> bf_skip a b \<and> has_shape a \<and> has_shape b \<and> (is_awake a \<or> is_awake b)"

fun BruteForce :: "'f world \<Rightarrow> nat list \<Rightarrow> (nat \<times> nat) list" where
  "BruteForce W [] = []"
| "BruteForce W (a # objects) =
    map (Pair a) (filter (\<lambda>b. bf_report (W a) (W b)) objects) @ BruteForce W objects"

section \<open>Sort and sweep\<close>

definition SetAxis :: "real vec3 \<Rightarrow> int \<Rightarrow> real vec3 \<times> int" where
  "SetAxis axis index = (let a = Normalized axis in
     (a, if \<bar>vx a\<bar> > 9 / 10 then 0 else if \<bar>vy a\<bar> > 9 / 10 then 1 else if \<bar>vz a\<bar> > 9 / 10 then 2 else index))"

definition box_left :: "int \<Rightarrow> 'f :: zero body \<Rightarrow> 'f" where
  "box_left ax b = vec_index (bb_min (aabb b)) ax"

definition box_right :: "int \<Rightarrow> 'f :: zero body \<Rightarrow> 'f" where
  "box_right ax b = vec_index (bb_max (aabb b)) ax"

definition idle :: "'f body \<Rightarrow> bool" where
  "idle b \<longleftrightarrow> at_rest b \<or> is_static b"

fun sweep :: "int \<Rightarrow> ('f :: linordered_field) world \<Rightarrow> nat list \<Rightarrow> (nat \<times> nat) list" where
  "sweep ax W [] = []"
| "sweep ax W (a # objects) =
    map (Pair a) (filter (\<lambda>b. \<not> (idle (W a) \<and> idle (W b)) \<and> box_left ax (W b) < box_right ax (W a)) objects)
    @ sweep ax W objects"

text \<open>\<open>srt key\<close> stands for \<open>std::sort\<close> with the comparison of the keys.\<close>

type_synonym 'f sorter = "(nat \<Rightarrow> 'f) \<Rightarrow> nat list \<Rightarrow> nat list"

definition SortAndSweep :: "('f :: linordered_field) sorter \<Rightarrow> int \<Rightarrow> 'f world \<Rightarrow> nat list \<Rightarrow> (nat \<times> nat) list" where
  "SortAndSweep srt ax W objects = sweep ax W (srt (\<lambda>a. box_left ax (W a)) objects)"

section \<open>Octree\<close>

definition MAX_OBJECTS_PER_NODE :: nat where "MAX_OBJECTS_PER_NODE = 1024"
definition POOL_SIZE :: nat where "POOL_SIZE = 8 * 8 * 8"

record 'f oct_node =
  n_objects :: "nat list"
  n_children :: "nat list"
  n_box :: "'f bbox"

record 'f octree =
  m_NodePool :: "nat \<Rightarrow> 'f oct_node"
  m_CurrentPoolIndex :: nat
  m_Leaves :: "nat list"

text \<open>The eight cells between the corners and the centre of a box, in the order of the table.\<close>

definition division_box :: "'f :: linordered_field bbox \<Rightarrow> nat \<Rightarrow> 'f bbox" where
  "division_box b i =
    (let lo = bb_min b; mid = bb_Center b; hi = bb_max b;
         right = i mod 2 = 1; top = i div 2 mod 2 = 1; back = i div 4 = 1
     in mk_box (Vec3 (if right then vx mid else vx lo) (if top then vy mid else vy lo) (if back then vz mid else vz lo))
          (Vec3 (if right then vx hi else vx mid) (if top then vy hi else vy mid) (if back then vz hi else vz mid)))"

definition add_leaf :: "nat \<Rightarrow> 'f octree \<Rightarrow> 'f octree res" where
  "add_leaf idx t =
    (if n_objects (m_NodePool t idx) \<noteq> []
     then (if length (m_Leaves t) < POOL_SIZE then ok (t\<lparr>m_Leaves := m_Leaves t @ [idx]\<rparr>) else fail OutOfRange)
     else ok t)"

definition make_child :: "('f :: linordered_field) world \<Rightarrow> nat \<Rightarrow> nat \<Rightarrow> 'f octree \<Rightarrow> (nat \<times> 'f octree) res" where
  "make_child W idx i t =
    (let c = m_CurrentPoolIndex t; division = m_NodePool t idx; cell = division_box (n_box division) i in
     if c < POOL_SIZE
     then ok (c, t\<lparr>m_CurrentPoolIndex := c + 1,
        m_NodePool := (m_NodePool t)
          (idx := division\<lparr>n_children := n_children division @ [c]\<rparr>,
           c := \<lparr>n_objects = filter (\<lambda>a. IsInsideFast_box cell (aabb (W a)) \<noteq> OUTSIDE) (n_objects division),
                 n_children = [], n_box = cell\<rparr>)\<rparr>)
     else fail OutOfRange)"

fun rfold :: "('a \<Rightarrow> 's \<Rightarrow> 's res) \<Rightarrow> 'a list \<Rightarrow> 's \<Rightarrow> 's res" where
  "rfold f [] s = ok s"
| "rfold f (x # xs) s = rbind (f x s) (rfold f xs)"

text \<open>\<open>Divide(division, iteration)\<close>: the first argument is how many iterations are left until
  \<open>iteration > m_MaxPartitionDepth\<close>.\<close>

primrec Divide :: "nat \<Rightarrow> ('f :: linordered_field) world \<Rightarrow> nat \<Rightarrow> nat \<Rightarrow> 'f octree \<Rightarrow> 'f octree res" where
  "Divide 0 W maxObjects idx t = add_leaf idx t"
| "Divide (Suc d) W maxObjects idx t =
    (if length (n_objects (m_NodePool t idx)) \<le> maxObjects then add_leaf idx t
     else rfold (\<lambda>i t. rbind (make_child W idx i t) (\<lambda>(c, t1). Divide d W maxObjects c t1)) [0..<8] t)"

text \<open>The root keeps the box of the previous call: only its objects and children are reset.\<close>

definition reset_nodes :: "'f octree \<Rightarrow> 'f octree" where
  "reset_nodes t = t\<lparr>m_Leaves := [], m_CurrentPoolIndex := 1,
     m_NodePool := (\<lambda>i. if i < POOL_SIZE then (m_NodePool t i)\<lparr>n_objects := [], n_children := []\<rparr> else m_NodePool t i)\<rparr>"

definition add_object :: "('f :: linordered_field) world \<Rightarrow> nat \<Rightarrow> 'f octree \<Rightarrow> 'f octree res" where
  "add_object W a t =
    (if has_shape (W a)
     then (let r = m_NodePool t 0 in
        if length (n_objects r) < MAX_OBJECTS_PER_NODE
        then ok (t\<lparr>m_NodePool := (m_NodePool t)(0 := r\<lparr>n_box := Merge_box (aabb (W a)) (n_box r), n_objects := n_objects r @ [a]\<rparr>)\<rparr>)
        else fail OutOfRange)
     else ok t)"

definition leaf_pairs :: "('f world \<Rightarrow> nat list \<Rightarrow> (nat \<times> nat) list) \<Rightarrow> 'f world \<Rightarrow> 'f octree \<Rightarrow> (nat \<times> nat) list" where
  "leaf_pairs secondary W t = concat (map (\<lambda>l. let os = n_objects (m_NodePool t l) in
     if length os > 1 then secondary W os else []) (m_Leaves t))"

definition Octree :: "('f world \<Rightarrow> nat list \<Rightarrow> (nat \<times> nat) list) \<Rightarrow> nat \<Rightarrow> nat \<Rightarrow> ('f :: linordered_field) world \<Rightarrow>
    nat list \<Rightarrow> 'f octree \<Rightarrow> ((nat \<times> nat) list \<times> 'f octree) res" where
  "Octree secondary maxObjects maxDepth W objects t =
    rbind (rfold (add_object W) objects (reset_nodes t)) (\<lambda>t1.
    rbind (Divide (maxDepth + 1) W maxObjects 0 t1) (\<lambda>t2. ok (leaf_pairs secondary W t2, t2)))"


section \<open>The contract of a broad phase\<close>

definition overlap :: "'f :: linordered_field bbox \<Rightarrow> 'f bbox \<Rightarrow> bool" where
  "overlap b c \<longleftrightarrow> box_ok b \<and> box_ok c \<and> vec_less (bb_min b) (bb_max c) \<and> vec_less (bb_min c) (bb_max b)"

text \<open>Pairs that must be reported: with shapes, not both idle, and boxes that overlap on every axis.\<close>

definition candidates :: "('f :: linordered_field) world \<Rightarrow> nat \<Rightarrow> nat \<Rightarrow> bool" where
  "candidates W a b \<longleftrightarrow> has_shape (W a) \<and> has_shape (W b) \<and> \<not> (idle (W a) \<and> idle (W b)) \<and> overlap (aabb (W a)) (aabb (W b))"

lemma candidates_sym: "candidates W a b \<longleftrightarrow> candidates W b a"
  by (auto simp: candidates_def overlap_def)

locale broadphase =
  fixes find :: "('f :: linordered_field) world \<Rightarrow> nat list \<Rightarrow> (nat \<times> nat) list"
  assumes sound: "(a, b) \<in> set (find W os) \<Longrightarrow> a \<in> set os \<and> b \<in> set os \<and> \<not> (idle (W a) \<and> idle (W b))"
    and complete: "a \<in> set os \<Longrightarrow> b \<in> set os \<Longrightarrow> a \<noteq> b \<Longrightarrow> candidates W a b \<Longrightarrow>
      (a, b) \<in> set (find W os) \<or> (b, a) \<in> set (find W os)"

lemma bf_skip_idle: "bf_skip a b \<longleftrightarrow> idle a \<and> idle b"
  by (auto simp: bf_skip_def idle_def)

interpretation brute_force: broadphase BruteForce
proof
  fix W :: "'f :: linordered_field world" and os a b
  show "(a, b) \<in> set (BruteForce W os) \<Longrightarrow> a \<in> set os \<and> b \<in> set os \<and> \<not> (idle (W a) \<and> idle (W b))"
    by (induction os) (auto simp: bf_report_def bf_skip_idle)
  show "a \<in> set os \<Longrightarrow> b \<in> set os \<Longrightarrow> a \<noteq> b \<Longrightarrow> candidates W a b \<Longrightarrow>
      (a, b) \<in> set (BruteForce W os) \<or> (b, a) \<in> set (BruteForce W os)"
    by (induction os) (auto simp: bf_report_def bf_skip_idle candidates_def idle_def is_awake_def)
qed

text \<open>What \<open>std::sort\<close> promises, and the axes that \<open>SetAxis\<close> chooses.\<close>

locale std_sort =
  fixes srt :: "('f :: linordered_field) sorter" and ax :: int
  assumes permutes: "mset (srt key os) = mset os"
    and sorted: "sorted (map key (srt key os))"
    and axis: "ax \<in> {0, 1, 2}"

lemma sweep_sound: "(a, b) \<in> set (sweep ax W os) \<Longrightarrow> a \<in> set os \<and> b \<in> set os \<and> \<not> (idle (W a) \<and> idle (W b))"
  by (induction os) auto

lemma overlap_axis:
  "overlap b c \<Longrightarrow> ax \<in> {0, 1, 2} \<Longrightarrow> vec_index (bb_min b) ax < vec_index (bb_max c) ax"
  by (auto simp: overlap_def vec_less_def vec_index_def)

lemma sweep_complete:
  assumes "ax \<in> {0, 1, 2}" and "a \<in> set os" and "b \<in> set os" and "a \<noteq> b" and "candidates W a b"
  shows "(a, b) \<in> set (sweep ax W os) \<or> (b, a) \<in> set (sweep ax W os)"
  using assms(2-4)
proof (induction os)
  case (Cons x os)
  have "box_left ax (W b) < box_right ax (W a)" "box_left ax (W a) < box_right ax (W b)"
    using assms(1,5) overlap_axis [of "aabb (W b)" "aabb (W a)" ax] overlap_axis [of "aabb (W a)" "aabb (W b)" ax]
    by (auto simp: candidates_def overlap_def box_left_def box_right_def)
  with Cons assms(5) show ?case by (auto simp: candidates_def)
qed simp

context std_sort
begin

lemma set_srt: "set (srt key os) = set os"
  using permutes by (metis set_mset_mset)

text \<open>Of the pairs on the axis, exactly those that overlap there are reported, for boxes of positive extent.\<close>

lemma sweep_exact:
  assumes "(a, b) \<in> set (SortAndSweep srt ax W os)"
  shows "box_left ax (W b) < box_right ax (W a) \<and> box_left ax (W a) \<le> box_left ax (W b)"
proof -
  have "sorted (map (\<lambda>a. box_left ax (W a)) xs) \<Longrightarrow> (a, b) \<in> set (sweep ax W xs) \<Longrightarrow>
      box_left ax (W b) < box_right ax (W a) \<and> box_left ax (W a) \<le> box_left ax (W b)" for xs
    by (induction xs) auto
  from this [OF sorted] assms show ?thesis by (simp add: SortAndSweep_def)
qed

end

sublocale std_sort \<subseteq> broadphase "SortAndSweep srt ax"
proof
  fix W :: "'f world" and os a b
  show "(a, b) \<in> set (SortAndSweep srt ax W os) \<Longrightarrow> a \<in> set os \<and> b \<in> set os \<and> \<not> (idle (W a) \<and> idle (W b))"
    using sweep_sound [of a b ax W "srt (\<lambda>a. box_left ax (W a)) os"] by (simp add: SortAndSweep_def set_srt)
  show "a \<in> set os \<Longrightarrow> b \<in> set os \<Longrightarrow> a \<noteq> b \<Longrightarrow> candidates W a b \<Longrightarrow>
      (a, b) \<in> set (SortAndSweep srt ax W os) \<or> (b, a) \<in> set (SortAndSweep srt ax W os)"
    using sweep_complete [OF axis, of a "srt (\<lambda>a. box_left ax (W a)) os" b W] by (simp add: SortAndSweep_def set_srt)
qed

definition stable_sort :: "('f :: linorder) sorter" where
  "stable_sort key os = sort_key key os"

interpretation x_sweep: std_sort stable_sort 0
  by unfold_locales (simp_all add: stable_sort_def)

section \<open>The octree reports every candidate\<close>

lemma rfold_append: "rfold f (xs @ ys) s = rbind (rfold f xs s) (rfold f ys)"
proof (induction xs arbitrary: s)
  case (Cons x xs)
  then show ?case by (cases "f x s") auto
qed simp

lemma rfold_rel:
  assumes "\<And>s. R s s" and "\<And>s t u. R s t \<Longrightarrow> R t u \<Longrightarrow> R s u"
    and "\<And>x s t. P s \<Longrightarrow> f x s = Inr t \<Longrightarrow> R s t \<and> P t"
  shows "P s \<Longrightarrow> rfold f xs s = Inr t \<Longrightarrow> R s t \<and> P t"
proof (induction xs arbitrary: s)
  case Nil
  then show ?case using assms(1) by simp
next
  case (Cons x xs)
  from Cons.prems(2) obtain u where u: "f x s = Inr u" "rfold f xs u = Inr t" by (auto simp: rbind_eq_Inr)
  from assms(3) [OF Cons.prems(1) u(1)] have "R s u" "P u" by auto
  with Cons.IH [OF \<open>P u\<close> u(2)] assms(2) show ?case by blast
qed

text \<open>Later subdivisions keep what is in the nodes and only add leaves.\<close>

definition extends :: "'f octree \<Rightarrow> 'f octree \<Rightarrow> bool" where
  "extends t u \<longleftrightarrow> m_CurrentPoolIndex t \<le> m_CurrentPoolIndex u
     \<and> (\<forall>i < m_CurrentPoolIndex t. n_objects (m_NodePool u i) = n_objects (m_NodePool t i) \<and> n_box (m_NodePool u i) = n_box (m_NodePool t i))
     \<and> set (m_Leaves t) \<subseteq> set (m_Leaves u)"

lemma extends_refl: "extends t t"
  by (simp add: extends_def)

lemma extends_trans: "extends s t \<Longrightarrow> extends t u \<Longrightarrow> extends s u"
  by (auto simp: extends_def)

lemma add_leaf_Inr:
  assumes "add_leaf idx t = Inr u"
  shows "extends t u" "n_objects (m_NodePool t idx) \<noteq> [] \<Longrightarrow> idx \<in> set (m_Leaves u)"
  using assms by (auto simp: add_leaf_def extends_def split: if_splits)

lemma make_child_Inr:
  assumes "make_child W idx i t = Inr (c, u)" and "idx < m_CurrentPoolIndex t"
  shows "extends t u" "c = m_CurrentPoolIndex t" "m_CurrentPoolIndex u = c + 1"
    "n_box (m_NodePool u c) = division_box (n_box (m_NodePool t idx)) i"
    "n_objects (m_NodePool u c) = filter (\<lambda>a. IsInsideFast_box (division_box (n_box (m_NodePool t idx)) i) (aabb (W a)) \<noteq> OUTSIDE)
       (n_objects (m_NodePool t idx))"
  using assms by (auto simp: make_child_def extends_def Let_def split: if_splits)

abbreviation visit_child where
  "visit_child d W m idx \<equiv> (\<lambda>i t. rbind (make_child W idx i t) (\<lambda>(c, t1). Divide d W m c t1))"

lemma visit_children:
  assumes ext: "\<forall>c s v. c < m_CurrentPoolIndex s \<longrightarrow> Divide d W m c s = Inr v \<longrightarrow> extends s v"
    and "idx < m_CurrentPoolIndex t" and "rfold (visit_child d W m idx) is t = Inr u"
  shows "extends t u \<and> idx < m_CurrentPoolIndex u"
proof (rule rfold_rel [where P = "\<lambda>s. idx < m_CurrentPoolIndex s", OF extends_refl _ _ assms(2,3)])
  fix i s v assume s: "idx < m_CurrentPoolIndex s" "visit_child d W m idx i s = Inr v"
  obtain c s1 where c: "make_child W idx i s = Inr (c, s1)" "Divide d W m c s1 = Inr v"
    using s(2) by (auto simp: rbind_eq_Inr)
  note mc = make_child_Inr [OF c(1) s(1)]
  have "c < m_CurrentPoolIndex s1" using mc by simp
  then have "extends s1 v" using ext c(2) by blast
  with mc(1) have "extends s v" by (rule extends_trans)
  with s(1) show "extends s v \<and> idx < m_CurrentPoolIndex v" by (auto simp: extends_def)
qed (rule extends_trans)

lemma Divide_extends:
  assumes "idx < m_CurrentPoolIndex t" and "Divide d W m idx t = Inr u"
  shows "extends t u"
  using assms
proof (induction d arbitrary: idx t u)
  case 0
  then show ?case using add_leaf_Inr(1) by auto
next
  case (Suc d)
  show ?case
  proof (cases "length (n_objects (m_NodePool t idx)) \<le> m")
    case True
    with Suc.prems add_leaf_Inr(1) show ?thesis by auto
  next
    case False
    then have "rfold (visit_child d W m idx) [0..<8] t = Inr u" using Suc.prems(2) by simp
    moreover have "\<forall>c s v. c < m_CurrentPoolIndex s \<longrightarrow> Divide d W m c s = Inr v \<longrightarrow> extends s v"
      using Suc.IH by blast
    ultimately show ?thesis using visit_children [OF _ Suc.prems(1)] by blast
  qed
qed

lemma division_covers:
  assumes "in_box p b"
  shows "\<exists>i<8. in_box p (division_box b i)"
proof -
  let ?m = "bb_Center b"
  let ?i = "(if vx p \<le> vx ?m then 0 else 1) + ((if vy p \<le> vy ?m then 0 else 2) + (if vz p \<le> vz ?m then 0 else 4)) :: nat"
  have "?i < 8" by simp
  moreover have "in_box p (division_box b ?i)"
    using assms by (auto simp: division_box_def Let_def box_simps)
  ultimately show ?thesis by blast
qed

lemma common_point_not_apart: "in_box p b \<Longrightarrow> in_box p c \<Longrightarrow> IsInsideFast_box b c \<noteq> OUTSIDE"
  by (fastforce simp: IsInsideFast_box_def apart_def box_simps)

text \<open>Two bodies that share a point of a node end up together in some leaf.\<close>

lemma Divide_covers:
  assumes "idx < m_CurrentPoolIndex t" and "Divide d W m idx t = Inr u"
    and "a \<in> set (n_objects (m_NodePool t idx))" and "b \<in> set (n_objects (m_NodePool t idx))"
    and "in_box p (n_box (m_NodePool t idx))" and p: "in_box p (aabb (W a))" "in_box p (aabb (W b))"
  shows "\<exists>l \<in> set (m_Leaves u). l < m_CurrentPoolIndex u \<and> a \<in> set (n_objects (m_NodePool u l)) \<and> b \<in> set (n_objects (m_NodePool u l))"
  using assms(1-5)
proof (induction d arbitrary: idx t u)
  case (0 idx t u)
  then have "n_objects (m_NodePool t idx) \<noteq> []" by auto
  moreover have l: "add_leaf idx t = Inr u" using 0 by simp
  ultimately have "idx \<in> set (m_Leaves u)" by (rule add_leaf_Inr(2) [rotated])
  with add_leaf_Inr(1) [OF l] 0 show ?case by (intro bexI [of _ idx]) (simp_all add: extends_def)
next
  case (Suc d idx t u)
  show ?case
  proof (cases "length (n_objects (m_NodePool t idx)) \<le> m")
    case True
    then have l: "add_leaf idx t = Inr u" using Suc.prems by simp
    have "n_objects (m_NodePool t idx) \<noteq> []" using Suc.prems by auto
    then have "idx \<in> set (m_Leaves u)" using l by (rule add_leaf_Inr(2) [rotated])
    with add_leaf_Inr(1) [OF l] Suc.prems show ?thesis by (intro bexI [of _ idx]) (simp_all add: extends_def)
  next
    case False
    let ?f = "visit_child d W m idx"
    have ext: "\<forall>c s v. c < m_CurrentPoolIndex s \<longrightarrow> Divide d W m c s = Inr v \<longrightarrow> extends s v"
      using Divide_extends by blast
    note fold_step = visit_children [OF ext]
    obtain i where i: "i < 8" "in_box p (division_box (n_box (m_NodePool t idx)) i)"
      using division_covers Suc.prems(5) by blast
    then have split: "[0..<8] = [0..<i] @ i # [Suc i..<8]"
      by (metis less_imp_le upt_add_eq_append upt_conv_Cons le_add_diff_inverse zero_le add_0)
    have "rfold ?f [0..<8] t = Inr u" using Suc.prems(2) False by simp
    then obtain s1 s3 where s: "rfold ?f [0..<i] t = Inr s1" "?f i s1 = Inr s3" "rfold ?f [Suc i..<8] s3 = Inr u"
      unfolding split rfold_append by (auto simp: rbind_eq_Inr)
    have e1: "extends t s1" "idx < m_CurrentPoolIndex s1" using fold_step [OF Suc.prems(1) s(1)] by auto
    obtain c s2 where c: "make_child W idx i s1 = Inr (c, s2)" "Divide d W m c s2 = Inr s3"
      using s(2) by (auto simp: rbind_eq_Inr)
    note mc = make_child_Inr [OF c(1) e1(2)]
    have same: "n_objects (m_NodePool s1 idx) = n_objects (m_NodePool t idx)" "n_box (m_NodePool s1 idx) = n_box (m_NodePool t idx)"
      using e1 Suc.prems(1) by (auto simp: extends_def)
    have "a \<in> set (n_objects (m_NodePool s2 c))" "b \<in> set (n_objects (m_NodePool s2 c))" "in_box p (n_box (m_NodePool s2 c))"
      using mc same Suc.prems(3,4) common_point_not_apart [OF i(2)] p i(2) by auto
    then obtain l where l: "l \<in> set (m_Leaves s3)" "l < m_CurrentPoolIndex s3" "a \<in> set (n_objects (m_NodePool s3 l))"
      "b \<in> set (n_objects (m_NodePool s3 l))" using Suc.IH [OF _ c(2)] mc by auto
    have "extends s2 s3" using Divide_extends [OF _ c(2)] mc by simp
    then have "idx < m_CurrentPoolIndex s3" using mc e1(2) by (auto simp: extends_def)
    then have "extends s3 u" using fold_step [OF _ s(3)] by blast
    with l show ?thesis by (intro bexI [of _ l]) (auto simp: extends_def)
  qed
qed


section \<open>From the root to the pairs\<close>

lemma add_object_Inr:
  assumes "add_object W a t = Inr u"
  shows "m_CurrentPoolIndex u = m_CurrentPoolIndex t \<and> m_Leaves u = m_Leaves t
    \<and> set (n_objects (m_NodePool t 0)) \<subseteq> set (n_objects (m_NodePool u 0))
    \<and> set (n_objects (m_NodePool u 0)) \<subseteq> insert a (set (n_objects (m_NodePool t 0)))
    \<and> box_le (n_box (m_NodePool t 0)) (n_box (m_NodePool u 0))
    \<and> (has_shape (W a) \<longrightarrow> a \<in> set (n_objects (m_NodePool u 0)) \<and> box_le (aabb (W a)) (n_box (m_NodePool u 0)))"
  using assms by (auto simp: add_object_def Let_def merge_box_upper box_le_refl split: if_splits)

lemma add_objects_Inr:
  "rfold (add_object W) os t = Inr u \<Longrightarrow>
    m_CurrentPoolIndex u = m_CurrentPoolIndex t \<and> m_Leaves u = m_Leaves t
    \<and> set (n_objects (m_NodePool t 0)) \<subseteq> set (n_objects (m_NodePool u 0))
    \<and> set (n_objects (m_NodePool u 0)) \<subseteq> set (n_objects (m_NodePool t 0)) \<union> set os
    \<and> box_le (n_box (m_NodePool t 0)) (n_box (m_NodePool u 0))
    \<and> (\<forall>a \<in> set os. has_shape (W a) \<longrightarrow> a \<in> set (n_objects (m_NodePool u 0)) \<and> box_le (aabb (W a)) (n_box (m_NodePool u 0)))"
proof (induction os arbitrary: t)
  case Nil
  then show ?case by (simp add: box_le_refl)
next
  case (Cons a os)
  from Cons.prems obtain s where s: "add_object W a t = Inr s" "rfold (add_object W) os s = Inr u"
    by (auto simp: rbind_eq_Inr)
  note 1 = add_object_Inr [OF s(1)] and 2 = Cons.IH [OF s(2)]
  from 1 2 have "box_le (n_box (m_NodePool t 0)) (n_box (m_NodePool u 0))" by (blast intro: box_le_trans)
  moreover from 1 2 have "has_shape (W a) \<longrightarrow> box_le (aabb (W a)) (n_box (m_NodePool u 0))" by (blast intro: box_le_trans)
  moreover from 1 2 have "set (n_objects (m_NodePool u 0)) \<subseteq> set (n_objects (m_NodePool t 0)) \<union> set (a # os)"
    by auto
  ultimately show ?case using 1 2 by auto
qed

text \<open>Objects of new nodes come from their parents, so all of them come from the root.\<close>

definition objects_from :: "nat set \<Rightarrow> 'f octree \<Rightarrow> bool" where
  "objects_from S t \<longleftrightarrow> (\<forall>i < m_CurrentPoolIndex t. set (n_objects (m_NodePool t i)) \<subseteq> S) \<and> (\<forall>l \<in> set (m_Leaves t). l < m_CurrentPoolIndex t)"

lemma add_leaf_objects_from:
  assumes "objects_from S t" and "idx < m_CurrentPoolIndex t" and "add_leaf idx t = Inr u"
  shows "objects_from S u"
proof -
  have "m_NodePool u = m_NodePool t" "m_CurrentPoolIndex u = m_CurrentPoolIndex t" "set (m_Leaves u) \<subseteq> insert idx (set (m_Leaves t))"
    using assms(3) by (auto simp: add_leaf_def split: if_splits)
  with assms(1,2) show ?thesis unfolding objects_from_def by auto
qed

lemma Divide_objects_from:
  "objects_from S t \<Longrightarrow> idx < m_CurrentPoolIndex t \<Longrightarrow> Divide d W m idx t = Inr u \<Longrightarrow> objects_from S u"
proof (induction d arbitrary: idx t u)
  case 0
  then show ?case using add_leaf_objects_from by auto
next
  case (Suc d)
  show ?case
  proof (cases "length (n_objects (m_NodePool t idx)) \<le> m")
    case True
    with Suc.prems show ?thesis using add_leaf_objects_from by auto
  next
    case False
    let ?P = "\<lambda>s. idx < m_CurrentPoolIndex s \<and> objects_from S s"
    have "(\<lambda>x y. True) t u \<and> ?P u"
    proof (rule rfold_rel [where R = "\<lambda>x y. True" and P = ?P])
      fix i s v assume s: "?P s" "visit_child d W m idx i s = Inr v"
      obtain c s1 where c: "make_child W idx i s = Inr (c, s1)" "Divide d W m c s1 = Inr v"
        using s(2) by (auto simp: rbind_eq_Inr)
      have i: "idx < m_CurrentPoolIndex s" using s(1) by simp
      note mc = make_child_Inr [OF c(1) i]
      have "m_Leaves s1 = m_Leaves s" using c(1) by (auto simp: make_child_def Let_def split: if_splits)
      then have "objects_from S s1" using mc s(1) by (force simp: objects_from_def extends_def less_Suc_eq)
      then have "objects_from S v" using Suc.IH [OF _ _ c(2)] mc by simp
      moreover have "extends s v" using mc(1) Divide_extends [OF _ c(2)] mc by (intro extends_trans [OF mc(1)]) simp
      ultimately show "True \<and> ?P v" using i by (auto simp: extends_def)
    qed (use Suc.prems False in auto)
    then show ?thesis by simp
  qed
qed

lemma reset_nodes_simps [simp]:
  "m_CurrentPoolIndex (reset_nodes t) = 1" "m_Leaves (reset_nodes t) = []" "n_objects (m_NodePool (reset_nodes t) 0) = []"
  by (simp_all add: reset_nodes_def POOL_SIZE_def)

context broadphase
begin

lemma octree_complete:
  assumes r: "Octree find m d W os t = Inr (ps, u)" and ab: "a \<in> set os" "b \<in> set os" "a \<noteq> b" and c: "candidates W a b"
  shows "(a, b) \<in> set ps \<or> (b, a) \<in> set ps"
proof -
  obtain t1 where t1: "rfold (add_object W) os (reset_nodes t) = Inr t1" "Divide (d + 1) W m 0 t1 = Inr u" "ps = leaf_pairs find W u"
    using r by (auto simp: Octree_def rbind_eq_Inr)
  note a1 = add_objects_Inr [OF t1(1)]
  let ?p = "VectorMax (bb_min (aabb (W a))) (bb_min (aabb (W b)))"
  have p: "in_box ?p (aabb (W a))" "in_box ?p (aabb (W b))"
    using c by (auto simp: candidates_def overlap_def box_simps vec_less_def VectorMax_def)
  have "box_le (aabb (W a)) (n_box (m_NodePool t1 0))" "a \<in> set (n_objects (m_NodePool t1 0))" "b \<in> set (n_objects (m_NodePool t1 0))"
    using a1 ab c by (auto simp: candidates_def)
  moreover have "0 < m_CurrentPoolIndex t1" using a1 by simp
  ultimately obtain l where l: "l \<in> set (m_Leaves u)" "a \<in> set (n_objects (m_NodePool u l))" "b \<in> set (n_objects (m_NodePool u l))"
    using Divide_covers [OF _ t1(2) _ _ box_le_in [OF _ p(1)] p] by blast
  then have "length (n_objects (m_NodePool u l)) > 1" using ab(3) by (cases "n_objects (m_NodePool u l)") auto
  moreover have "(a, b) \<in> set (find W (n_objects (m_NodePool u l))) \<or> (b, a) \<in> set (find W (n_objects (m_NodePool u l)))"
    using complete [OF l(2,3) ab(3) c] .
  ultimately show ?thesis using l(1) by (auto simp: t1(3) leaf_pairs_def Let_def)
qed

lemma octree_sound:
  assumes r: "Octree find m d W os t = Inr (ps, u)" and ab: "(a, b) \<in> set ps"
  shows "a \<in> set os \<and> b \<in> set os \<and> \<not> (idle (W a) \<and> idle (W b))"
proof -
  obtain t1 where t1: "rfold (add_object W) os (reset_nodes t) = Inr t1" "Divide (d + 1) W m 0 t1 = Inr u" "ps = leaf_pairs find W u"
    using r by (auto simp: Octree_def rbind_eq_Inr)
  note a1 = add_objects_Inr [OF t1(1)]
  have "objects_from (set os) t1" using a1 by (auto simp: objects_from_def)
  then have o: "objects_from (set os) u" using Divide_objects_from [OF _ _ t1(2)] a1 by simp
  obtain l where "l \<in> set (m_Leaves u)" "(a, b) \<in> set (find W (n_objects (m_NodePool u l)))"
    using ab by (auto simp: t1(3) leaf_pairs_def Let_def split: if_splits)
  then show ?thesis using sound o by (fastforce simp: objects_from_def)
qed

end

context std_sort
begin

lemmas sweep_octree_complete = octree_complete
lemmas sweep_octree_sound = octree_sound

end

text \<open>Property C29. Every pair of distinct bodies with shapes, not both at rest or static, whose boxes overlap on
  every axis is among the pairs of the octree over sort and sweep, whatever sorting algorithm is used,
  whichever axis and depth are chosen and whatever the tree held before; and every pair it reports is a
  pair of its bodies that are not both idle. It holds whenever the call does not leave its arrays.\<close>

theorem octree_reports_candidates:
  assumes "\<forall>key os. mset (srt key os) = mset os \<and> sorted (map key (srt key os))" and "ax \<in> {0, 1, 2}"
    and "Octree (SortAndSweep srt ax) m d W os t = Inr (ps, u)"
  shows "(a \<in> set os \<and> b \<in> set os \<and> a \<noteq> b \<and> candidates W a b \<longrightarrow> (a, b) \<in> set ps \<or> (b, a) \<in> set ps)
    \<and> ((a, b) \<in> set ps \<longrightarrow> a \<in> set os \<and> b \<in> set os \<and> \<not> (idle (W a) \<and> idle (W b)))"
proof -
  have s: "std_sort srt ax" using assms(1,2) by unfold_locales auto
  show ?thesis
    using std_sort.sweep_octree_complete [OF s assms(3)] std_sort.sweep_octree_sound [OF s assms(3)] by blast
qed

section \<open>The node pool is too small\<close>

fun nodes_below :: "nat \<Rightarrow> nat" where
  "nodes_below 0 = 0"
| "nodes_below (Suc d) = 8 * (1 + nodes_below d)"

lemma nodes_below_4: "nodes_below 4 = 4680"
  by code_simp

lemma rfold_count:
  fixes g :: "'s \<Rightarrow> nat"
  assumes "\<And>x s v. P s \<Longrightarrow> f x s = Inr v \<Longrightarrow> P v \<and> g s + k \<le> g v"
  shows "P s \<Longrightarrow> rfold f xs s = Inr u \<Longrightarrow> P u \<and> g s + length xs * k \<le> g u"
proof (induction xs arbitrary: s)
  case (Cons x xs)
  then obtain v where "f x s = Inr v" "rfold f xs v = Inr u" by (auto simp: rbind_eq_Inr)
  with assms [OF Cons.prems(1)] Cons.IH [of v] show ?case by force
qed simp

lemma division_le: "box_ok b \<Longrightarrow> box_le (division_box b i) b \<and> box_ok (division_box b i)"
proof -
  assume b: "box_ok b"
  have m: "x \<le> y \<Longrightarrow> x \<le> (y + x) * (1 / 2) \<and> (y + x) * (1 / 2) \<le> y" for x y :: 'a by (simp add: field_simps)
  have "vec_le (bb_min b) (bb_Center b)" "vec_le (bb_Center b) (bb_max b)"
    using b m by (auto simp: bb_Center_def box_simps vec_scale_def vec_add_def)
  with b show ?thesis by (auto simp: division_box_def Let_def box_simps)
qed

lemma covered_not_outside:
  assumes "box_ok c" and "box_le c b" and "box_le b d"
  shows "IsInsideFast_box c d \<noteq> OUTSIDE"
proof -
  have "in_box (bb_min c) c" using assms(1) by (simp add: box_simps)
  moreover have "in_box (bb_min c) d" using calculation assms(2,3) box_le_in by blast
  ultimately show ?thesis by (rule common_point_not_apart)
qed

text \<open>When every object of a node covers its box, every cell gets all of them.\<close>

lemma Divide_full:
  assumes "idx < m_CurrentPoolIndex t" and "Divide d W m idx t = Inr u" and "box_ok (n_box (m_NodePool t idx))"
    and "m < length (n_objects (m_NodePool t idx))"
    and "\<forall>a \<in> set (n_objects (m_NodePool t idx)). box_le (n_box (m_NodePool t idx)) (aabb (W a))"
  shows "m_CurrentPoolIndex t + nodes_below d \<le> m_CurrentPoolIndex u"
  using assms
proof (induction d arbitrary: idx t u)
  case 0
  then show ?case using add_leaf_Inr(1) [of idx t u] by (simp add: extends_def)
next
  case (Suc d)
  let ?P = "\<lambda>s. idx < m_CurrentPoolIndex s \<and> extends t s"
  have "?P u \<and> m_CurrentPoolIndex t + length [0..<8] * (1 + nodes_below d) \<le> m_CurrentPoolIndex u"
  proof (rule rfold_count [where P = ?P])
    fix i s v assume s: "?P s" "visit_child d W m idx i s = Inr v"
    obtain c s1 where c: "make_child W idx i s = Inr (c, s1)" "Divide d W m c s1 = Inr v"
      using s(2) by (auto simp: rbind_eq_Inr)
    have i: "idx < m_CurrentPoolIndex s" and e: "extends t s" using s(1) by simp_all
    note mc = make_child_Inr [OF c(1) i]
    let ?b = "n_box (m_NodePool t idx)"
    have same: "n_objects (m_NodePool s idx) = n_objects (m_NodePool t idx)" "n_box (m_NodePool s idx) = ?b"
      using e Suc.prems(1) by (auto simp: extends_def)
    note cell = division_le [OF Suc.prems(3), of i]
    have "filter (\<lambda>a. IsInsideFast_box (division_box ?b i) (aabb (W a)) \<noteq> OUTSIDE) (n_objects (m_NodePool t idx))
        = n_objects (m_NodePool t idx)"
      using covered_not_outside cell Suc.prems(5) by (intro filter_True) blast
    then have o: "n_objects (m_NodePool s1 c) = n_objects (m_NodePool t idx)" "n_box (m_NodePool s1 c) = division_box ?b i"
      using mc same by simp_all
    have "m_CurrentPoolIndex s1 + nodes_below d \<le> m_CurrentPoolIndex v"
    proof (rule Suc.IH [OF _ c(2)])
      show "\<forall>a \<in> set (n_objects (m_NodePool s1 c)). box_le (n_box (m_NodePool s1 c)) (aabb (W a))"
        unfolding o using cell Suc.prems(5) box_le_trans by blast
    qed (use mc o cell Suc.prems(4) in simp_all)
    moreover have "extends s v" using Divide_extends [OF _ c(2)] mc by (intro extends_trans [OF mc(1)]) simp
    ultimately show "?P v \<and> m_CurrentPoolIndex s + (1 + nodes_below d) \<le> m_CurrentPoolIndex v"
      using mc e i extends_trans [OF e] by (auto simp: extends_def [of s v])
  next
    show "?P t" using Suc.prems(1) extends_refl by blast
    show "rfold (visit_child d W m idx) [0..<8] t = Inr u" using Suc.prems(2,4) by simp
  qed
  then show ?case by simp
qed

lemma Divide_pool: "m_CurrentPoolIndex t \<le> POOL_SIZE \<Longrightarrow> Divide d W m idx t = Inr u \<Longrightarrow> m_CurrentPoolIndex u \<le> POOL_SIZE"
proof (induction d arbitrary: idx t u)
  case 0
  then show ?case by (auto simp: add_leaf_def split: if_splits)
next
  case (Suc d)
  show ?case
  proof (cases "length (n_objects (m_NodePool t idx)) \<le> m")
    case True
    with Suc.prems show ?thesis by (auto simp: add_leaf_def split: if_splits)
  next
    case False
    let ?P = "\<lambda>s. m_CurrentPoolIndex s \<le> POOL_SIZE"
    have "(\<lambda>x y. True) t u \<and> ?P u"
    proof (rule rfold_rel [where R = "\<lambda>x y. True" and P = ?P])
      fix i s v assume s: "?P s" "visit_child d W m idx i s = Inr v"
      obtain c s1 where c: "make_child W idx i s = Inr (c, s1)" "Divide d W m c s1 = Inr v"
        using s(2) by (auto simp: rbind_eq_Inr)
      have "m_CurrentPoolIndex s1 \<le> POOL_SIZE" using c(1) by (auto simp: make_child_def Let_def split: if_splits)
      with Suc.IH [OF _ c(2)] show "True \<and> ?P v" by simp
    qed (use Suc.prems False in auto)
    then show ?thesis by simp
  qed
qed

lemma rfold_Inl:
  assumes "\<And>x s. f x s = Inl e \<Longrightarrow> e = E"
  shows "rfold f xs s = Inl e \<Longrightarrow> e = E"
proof (induction xs arbitrary: s)
  case (Cons x xs)
  then show ?case using assms by (auto simp: rbind_eq_Inl)
qed simp

lemma Divide_fault: "Divide d W m idx t = Inl e \<Longrightarrow> e = OutOfRange"
proof (induction d arbitrary: idx t)
  case 0
  then show ?case by (auto simp: add_leaf_def split: if_splits)
next
  case (Suc d)
  have v: "visit_child d W m idx i s = Inl e \<Longrightarrow> e = OutOfRange" for i s
    using Suc.IH by (auto simp: rbind_eq_Inl make_child_def Let_def split: if_splits)
  from Suc.prems rfold_Inl [of "visit_child d W m idx" e OutOfRange, OF v] show ?case
    by (auto simp: add_leaf_def split: if_splits)
qed

lemma add_objects_fault: "rfold (add_object W) os t = Inl e \<Longrightarrow> e = OutOfRange"
  by (rule rfold_Inl [of "add_object W"]) (auto simp: add_object_def Let_def split: if_splits)

lemma add_objects_same_box:
  "rfold (add_object W) os t = Inr u \<Longrightarrow> \<forall>a \<in> set os. has_shape (W a) \<and> aabb (W a) = b \<Longrightarrow> box_le (n_box (m_NodePool t 0)) b \<Longrightarrow>
    n_objects (m_NodePool u 0) = n_objects (m_NodePool t 0) @ os \<and> (os \<noteq> [] \<longrightarrow> n_box (m_NodePool u 0) = b)"
proof (induction os arbitrary: t)
  case (Cons a os)
  then obtain s where s: "add_object W a t = Inr s" "rfold (add_object W) os s = Inr u" by (auto simp: rbind_eq_Inr)
  have "Merge_box b (n_box (m_NodePool t 0)) = b"
    using Cons.prems(3) by (auto simp: Merge_box_def box_simps vec3.expand intro!: bbox.equality vec3.expand)
  then have 1: "n_objects (m_NodePool s 0) = n_objects (m_NodePool t 0) @ [a]" "n_box (m_NodePool s 0) = b"
    using s(1) Cons.prems(2) by (auto simp: add_object_def Let_def split: if_splits)
  have "box_le (n_box (m_NodePool s 0)) b" using 1 by (simp add: box_le_refl)
  with Cons.IH [OF s(2)] Cons.prems(2) 1 show ?case
    by (cases os) (use s(2) in auto)
qed simp

text \<open>With the parameters of the scene (five objects per node, depth three), six or more bodies with the
  same box overflow the pool of 512 nodes: every cell of every subdivision meets all of them.\<close>

theorem octree_pool_overflow:
  assumes "5 < length os" and "\<forall>a \<in> set os. has_shape (W a) \<and> aabb (W a) = b" and "box_ok b"
    and "box_le (n_box (m_NodePool t 0)) b"
  shows "Octree secondary 5 3 W os t = Inl OutOfRange"
proof (cases "rfold (add_object W) os (reset_nodes t)")
  case (Inl e)
  then show ?thesis using add_objects_fault [OF Inl] by (simp add: Octree_def)
next
  case (Inr t1)
  have "n_box (m_NodePool (reset_nodes t) 0) = n_box (m_NodePool t 0)" by (simp add: reset_nodes_def)
  then have t1: "n_objects (m_NodePool t1 0) = os" "n_box (m_NodePool t1 0) = b" "m_CurrentPoolIndex t1 = 1"
    using add_objects_same_box [OF Inr assms(2)] add_objects_Inr [OF Inr] assms(1,4) by auto
  have "Divide (3 + 1) W 5 0 t1 \<noteq> Inr u" for u
  proof
    assume u: "Divide (3 + 1) W 5 0 t1 = Inr u"
    have "1 + nodes_below 4 \<le> m_CurrentPoolIndex u"
      using Divide_full [OF _ u] t1 assms by (simp add: box_le_refl)
    moreover have "m_CurrentPoolIndex u \<le> POOL_SIZE" using Divide_pool [OF _ u] t1(3) by (simp add: POOL_SIZE_def)
    ultimately show False by (simp add: POOL_SIZE_def nodes_below_4)
  qed
  then obtain e where "Divide (3 + 1) W 5 0 t1 = Inl e" by (cases "Divide (3 + 1) W 5 0 t1") auto
  with Divide_fault [OF this] Inr show ?thesis by (simp add: Octree_def)
qed


definition crate :: "rat bbox \<Rightarrow> rat body" where
  "crate b = \<lparr>at_rest = False, is_static = False, has_shape = True, aabb = b\<rparr>"

definition empty_octree :: "('f :: linordered_field) \<Rightarrow> 'f octree" where
  "empty_octree huge = \<lparr>m_NodePool = (\<lambda>i. \<lparr>n_objects = [], n_children = [], n_box = bb_Clear huge\<rparr>),
     m_CurrentPoolIndex = 0, m_Leaves = []\<rparr>"

theorem octree_pool_overflow_witness:
  "Octree BruteForce 5 3 (\<lambda>a. crate unit_box) [0, 1, 2, 3, 4, 5] (empty_octree 1000) = Inl OutOfRange"
  using octree_pool_overflow [of "[0, 1, 2, 3, 4, 5]" "\<lambda>a. crate unit_box" unit_box "empty_octree 1000" BruteForce]
  by (simp add: crate_def unit_box_def empty_octree_def bb_Clear_def box_simps)

lemma Divide_small:
  "length (n_objects (m_NodePool t idx)) \<le> m \<Longrightarrow> Divide d W m idx t = add_leaf idx t"
  by (cases d) auto

lemma two_crates: "\<exists>ps u. Octree (SortAndSweep stable_sort 0) 5 3 (\<lambda>a. crate unit_box) [3, 8] (empty_octree 1000) = Inr (ps, u)"
  by (simp add: Octree_def add_object_def crate_def Let_def MAX_OBJECTS_PER_NODE_def reset_nodes_def empty_octree_def
      POOL_SIZE_def Divide_small add_leaf_def del: Divide.simps)

theorem octree_reports_candidates_witness:
  "\<exists>ps u. Octree (SortAndSweep stable_sort 0) 5 3 (\<lambda>a. crate unit_box) [3, 8] (empty_octree 1000) = Inr (ps, u)
    \<and> ((3, 8) \<in> set ps \<or> (8, 3) \<in> set ps)"
proof -
  obtain ps u where r: "Octree (SortAndSweep stable_sort 0) 5 3 (\<lambda>a. crate unit_box) [3, 8] (empty_octree 1000) = Inr (ps, u)"
    using two_crates by blast
  have "\<forall>key os. mset ((stable_sort :: rat sorter) key os) = mset os \<and> sorted (map key ((stable_sort :: rat sorter) key os))"
    by (simp add: stable_sort_def)
  note pairs = octree_reports_candidates [OF this _ r, of 3 8]
  have "candidates (\<lambda>a. crate unit_box) 3 8"
    by (simp add: candidates_def crate_def idle_def overlap_def unit_box_def box_simps vec_less_def)
  then have "(3, 8) \<in> set ps \<or> (8, 3) \<in> set ps" using pairs by simp
  with r show ?thesis by auto
qed

text \<open>A pair that meets several leaves is reported once for each, so the narrow phase builds several manifolds
  for it.\<close>

lemma octree_duplicates:
  "map_sum id fst (Octree BruteForce 1 0 (\<lambda>a. crate unit_box) [0, 1] (empty_octree 1000)) = Inr (replicate 8 (0, 1))"
  by code_simp

end
