(* ===== verification/Rotations.thy ===== *)
theory Rotations
  imports Vectors
begin

text \<open>
  Matrices and quaternions of \<open>Maths/Matrix3.*\<close>, \<open>Maths/Matrix4.*\<close> and \<open>Maths/Quaternion.*\<close> over a
  field in place of floats, in the code without SIMD. Angles are in degrees as in the code. A division by
  zero is 0 here and an infinity in the code; the lemmas exclude it.
\<close>

section \<open>3x3 matrices\<close>

datatype 'f mat3 = Mat3 (m00: 'f) (m01: 'f) (m02: 'f) (m10: 'f) (m11: 'f) (m12: 'f) (m20: 'f) (m21: 'f) (m22: 'f)

definition mat3_id :: "'f :: zero_neq_one mat3" where
  "mat3_id = Mat3 1 0 0 0 1 0 0 0 1"

definition mat3_vec :: "'f :: comm_ring mat3 \<Rightarrow> 'f vec3 \<Rightarrow> 'f vec3" where
  "mat3_vec m v = Vec3 (m00 m * vx v + m01 m * vy v + m02 m * vz v)
                       (m10 m * vx v + m11 m * vy v + m12 m * vz v)
                       (m20 m * vx v + m21 m * vy v + m22 m * vz v)"

definition mat3_add :: "'f :: plus mat3 \<Rightarrow> 'f mat3 \<Rightarrow> 'f mat3" where
  "mat3_add a b = Mat3 (m00 a + m00 b) (m01 a + m01 b) (m02 a + m02 b) (m10 a + m10 b) (m11 a + m11 b) (m12 a + m12 b)
     (m20 a + m20 b) (m21 a + m21 b) (m22 a + m22 b)"

definition mat3_sub :: "'f :: minus mat3 \<Rightarrow> 'f mat3 \<Rightarrow> 'f mat3" where
  "mat3_sub a b = Mat3 (m00 a - m00 b) (m01 a - m01 b) (m02 a - m02 b) (m10 a - m10 b) (m11 a - m11 b) (m12 a - m12 b)
     (m20 a - m20 b) (m21 a - m21 b) (m22 a - m22 b)"

definition mat3_scale :: "'f :: times mat3 \<Rightarrow> 'f \<Rightarrow> 'f mat3" where
  "mat3_scale a s = Mat3 (m00 a * s) (m01 a * s) (m02 a * s) (m10 a * s) (m11 a * s) (m12 a * s)
     (m20 a * s) (m21 a * s) (m22 a * s)"

definition mat3_mul :: "'f :: comm_ring mat3 \<Rightarrow> 'f mat3 \<Rightarrow> 'f mat3" where
  "mat3_mul a b = Mat3
     (m00 a * m00 b + m01 a * m10 b + m02 a * m20 b) (m00 a * m01 b + m01 a * m11 b + m02 a * m21 b) (m00 a * m02 b + m01 a * m12 b + m02 a * m22 b)
     (m10 a * m00 b + m11 a * m10 b + m12 a * m20 b) (m10 a * m01 b + m11 a * m11 b + m12 a * m21 b) (m10 a * m02 b + m11 a * m12 b + m12 a * m22 b)
     (m20 a * m00 b + m21 a * m10 b + m22 a * m20 b) (m20 a * m01 b + m21 a * m11 b + m22 a * m21 b) (m20 a * m02 b + m21 a * m12 b + m22 a * m22 b)"

definition mat3_SetScale :: "'f vec3 \<Rightarrow> 'f mat3 \<Rightarrow> 'f mat3" where
  "mat3_SetScale s m = Mat3 (vx s) (m01 m) (m02 m) (m10 m) (vy s) (m12 m) (m20 m) (m21 m) (vz s)"

definition mat3_Scale :: "real mat3 \<Rightarrow> real vec3" where
  "mat3_Scale m = Vec3 (sqrt (m00 m * m00 m + m10 m * m10 m + m20 m * m20 m))
     (sqrt (m01 m * m01 m + m11 m * m11 m + m21 m * m21 m)) (sqrt (m02 m * m02 m + m12 m * m12 m + m22 m * m22 m))"

definition mat3_Transpose :: "'f mat3 \<Rightarrow> 'f mat3" where
  "mat3_Transpose m = Mat3 (m00 m) (m10 m) (m20 m) (m01 m) (m11 m) (m21 m) (m02 m) (m12 m) (m22 m)"

definition mat3_Scaled :: "'f :: times mat3 \<Rightarrow> 'f vec3 \<Rightarrow> 'f mat3" where
  "mat3_Scaled m s = Mat3 (m00 m * vx s) (m01 m * vy s) (m02 m * vz s) (m10 m * vx s) (m11 m * vy s) (m12 m * vz s)
     (m20 m * vx s) (m21 m * vy s) (m22 m * vz s)"

definition mat3_det :: "'f :: comm_ring mat3 \<Rightarrow> 'f" where
  "mat3_det m = m00 m * m11 m * m22 m + m10 m * m21 m * m02 m + m20 m * m01 m * m12 m
     - m20 m * m11 m * m02 m - m10 m * m01 m * m22 m - m00 m * m21 m * m12 m"

definition mat3_Inverse :: "'f :: field mat3 \<Rightarrow> 'f mat3" where
  "mat3_Inverse m = (let invDet = 1 / mat3_det m in Mat3
     ((m11 m * m22 m - m21 m * m12 m) * invDet) (- (m01 m * m22 m - m21 m * m02 m) * invDet) ((m01 m * m12 m - m11 m * m02 m) * invDet)
     (- (m10 m * m22 m - m20 m * m12 m) * invDet) ((m00 m * m22 m - m20 m * m02 m) * invDet) (- (m00 m * m12 m - m10 m * m02 m) * invDet)
     ((m10 m * m21 m - m20 m * m11 m) * invDet) (- (m00 m * m21 m - m20 m * m01 m) * invDet) ((m00 m * m11 m - m10 m * m01 m) * invDet))"

lemmas mat3_defs = mat3_id_def mat3_vec_def mat3_add_def mat3_sub_def mat3_scale_def mat3_mul_def mat3_SetScale_def
  mat3_Transpose_def mat3_Scaled_def mat3_det_def

lemma mat3_mul_assoc: "mat3_mul (mat3_mul a b) c = mat3_mul a (mat3_mul b c)"
  by (simp add: mat3_mul_def algebra_simps)

lemma mat3_vec_mul: "mat3_vec (mat3_mul a b) v = mat3_vec a (mat3_vec b v)"
  by (simp add: mat3_mul_def mat3_vec_def algebra_simps)

lemma mat3_id_mul [simp]: "mat3_mul mat3_id a = a" "mat3_mul a mat3_id = a" for a :: "'f :: comm_ring_1 mat3"
  by (simp_all add: mat3_mul_def mat3_id_def mat3.expand)

lemma mat3_id_vec [simp]: "mat3_vec mat3_id v = v" for v :: "'f :: comm_ring_1 vec3"
  by (simp add: mat3_vec_def mat3_id_def vec3.expand)

lemma mat3_transpose_mul: "mat3_Transpose (mat3_mul a b) = mat3_mul (mat3_Transpose b) (mat3_Transpose a)"
  by (simp add: mat3_mul_def mat3_Transpose_def algebra_simps)

lemma mat3_transpose_dot: "DotProduct (mat3_vec m a) b = DotProduct a (mat3_vec (mat3_Transpose m) b)"
  by (simp add: mat3_vec_def mat3_Transpose_def DotProduct_def algebra_simps)

lemma mat3_vec_add: "mat3_vec m (a + b) = mat3_vec m a + mat3_vec m b"
  by (simp add: mat3_vec_def plus_vec3_def vec_add_def algebra_simps)

lemma mat3_vec_scale: "mat3_vec m (vec_scale a s) = vec_scale (mat3_vec m a) s"
  by (simp add: mat3_vec_def vec_scale_def algebra_simps)

lemma mat3_det_mul: "mat3_det (mat3_mul a b) = mat3_det a * mat3_det b"
  by (simp add: mat3_mul_def mat3_det_def algebra_simps)

lemma mat3_inverse:
  assumes "mat3_det m \<noteq> (0 :: 'f :: field)"
  shows "mat3_mul m (mat3_Inverse m) = mat3_id" "mat3_mul (mat3_Inverse m) m = mat3_id"
proof -
  define k where "k = 1 / mat3_det m"
  have k: "mat3_det m * k = 1" using assms by (simp add: k_def)
  have "mat3_mul m (mat3_Inverse m) = mat3_scale mat3_id (mat3_det m * k)"
    unfolding mat3_Inverse_def Let_def k_def [symmetric]
    by (simp add: mat3_mul_def mat3_id_def mat3_scale_def mat3_det_def algebra_simps)
  then show "mat3_mul m (mat3_Inverse m) = mat3_id" by (simp add: k mat3_scale_def mat3_id_def)
  have "mat3_mul (mat3_Inverse m) m = mat3_scale mat3_id (mat3_det m * k)"
    unfolding mat3_Inverse_def Let_def k_def [symmetric]
    by (simp add: mat3_mul_def mat3_id_def mat3_scale_def mat3_det_def algebra_simps)
  then show "mat3_mul (mat3_Inverse m) m = mat3_id" by (simp add: k mat3_scale_def mat3_id_def)
qed

section \<open>4x4 matrices\<close>

datatype 'f mat4 = Mat4 (n00: 'f) (n01: 'f) (n02: 'f) (n03: 'f) (n10: 'f) (n11: 'f) (n12: 'f) (n13: 'f)
  (n20: 'f) (n21: 'f) (n22: 'f) (n23: 'f) (n30: 'f) (n31: 'f) (n32: 'f) (n33: 'f)

definition mat4_id :: "'f :: zero_neq_one mat4" where
  "mat4_id = Mat4 1 0 0 0 0 1 0 0 0 0 1 0 0 0 0 1"

definition mat4_of_mat3 :: "'f :: zero_neq_one mat3 \<Rightarrow> 'f mat4" where
  "mat4_of_mat3 m = Mat4 (m00 m) (m01 m) (m02 m) 0 (m10 m) (m11 m) (m12 m) 0 (m20 m) (m21 m) (m22 m) 0 0 0 0 1"

definition mat4_vec :: "'f :: field mat4 \<Rightarrow> 'f vec3 \<Rightarrow> 'f vec3" where
  "mat4_vec m v = (let invW = 1 / (n30 m * vx v + n31 m * vy v + n32 m * vz v + n33 m) in
     Vec3 ((n00 m * vx v + n01 m * vy v + n02 m * vz v + n03 m) * invW)
          ((n10 m * vx v + n11 m * vy v + n12 m * vz v + n13 m) * invW)
          ((n20 m * vx v + n21 m * vy v + n22 m * vz v + n23 m) * invW))"

definition mat4_add :: "'f :: plus mat4 \<Rightarrow> 'f mat4 \<Rightarrow> 'f mat4" where
  "mat4_add a b = Mat4 (n00 a + n00 b) (n01 a + n01 b) (n02 a + n02 b) (n03 a + n03 b)
     (n10 a + n10 b) (n11 a + n11 b) (n12 a + n12 b) (n13 a + n13 b)
     (n20 a + n20 b) (n21 a + n21 b) (n22 a + n22 b) (n23 a + n23 b)
     (n30 a + n30 b) (n31 a + n31 b) (n32 a + n32 b) (n33 a + n33 b)"

definition mat4_sub :: "'f :: minus mat4 \<Rightarrow> 'f mat4 \<Rightarrow> 'f mat4" where
  "mat4_sub a b = Mat4 (n00 a - n00 b) (n01 a - n01 b) (n02 a - n02 b) (n03 a - n03 b)
     (n10 a - n10 b) (n11 a - n11 b) (n12 a - n12 b) (n13 a - n13 b)
     (n20 a - n20 b) (n21 a - n21 b) (n22 a - n22 b) (n23 a - n23 b)
     (n30 a - n30 b) (n31 a - n31 b) (n32 a - n32 b) (n33 a - n33 b)"

definition mat4_scale :: "'f :: times mat4 \<Rightarrow> 'f \<Rightarrow> 'f mat4" where
  "mat4_scale a s = Mat4 (n00 a * s) (n01 a * s) (n02 a * s) (n03 a * s) (n10 a * s) (n11 a * s) (n12 a * s) (n13 a * s)
     (n20 a * s) (n21 a * s) (n22 a * s) (n23 a * s) (n30 a * s) (n31 a * s) (n32 a * s) (n33 a * s)"

definition mat4_mul :: "'f :: comm_ring mat4 \<Rightarrow> 'f mat4 \<Rightarrow> 'f mat4" where
  "mat4_mul a b = Mat4
     (n00 a * n00 b + n01 a * n10 b + n02 a * n20 b + n03 a * n30 b)
     (n00 a * n01 b + n01 a * n11 b + n02 a * n21 b + n03 a * n31 b)
     (n00 a * n02 b + n01 a * n12 b + n02 a * n22 b + n03 a * n32 b)
     (n00 a * n03 b + n01 a * n13 b + n02 a * n23 b + n03 a * n33 b)
     (n10 a * n00 b + n11 a * n10 b + n12 a * n20 b + n13 a * n30 b)
     (n10 a * n01 b + n11 a * n11 b + n12 a * n21 b + n13 a * n31 b)
     (n10 a * n02 b + n11 a * n12 b + n12 a * n22 b + n13 a * n32 b)
     (n10 a * n03 b + n11 a * n13 b + n12 a * n23 b + n13 a * n33 b)
     (n20 a * n00 b + n21 a * n10 b + n22 a * n20 b + n23 a * n30 b)
     (n20 a * n01 b + n21 a * n11 b + n22 a * n21 b + n23 a * n31 b)
     (n20 a * n02 b + n21 a * n12 b + n22 a * n22 b + n23 a * n32 b)
     (n20 a * n03 b + n21 a * n13 b + n22 a * n23 b + n23 a * n33 b)
     (n30 a * n00 b + n31 a * n10 b + n32 a * n20 b + n33 a * n30 b)
     (n30 a * n01 b + n31 a * n11 b + n32 a * n21 b + n33 a * n31 b)
     (n30 a * n02 b + n31 a * n12 b + n32 a * n22 b + n33 a * n32 b)
     (n30 a * n03 b + n31 a * n13 b + n32 a * n23 b + n33 a * n33 b)"

definition SetTranslation :: "'f vec3 \<Rightarrow> 'f mat4 \<Rightarrow> 'f mat4" where
  "SetTranslation t m = Mat4 (n00 m) (n01 m) (n02 m) (vx t) (n10 m) (n11 m) (n12 m) (vy t) (n20 m) (n21 m) (n22 m) (vz t)
     (n30 m) (n31 m) (n32 m) (n33 m)"

definition SetRotation :: "'f mat3 \<Rightarrow> 'f mat4 \<Rightarrow> 'f mat4" where
  "SetRotation r m = Mat4 (m00 r) (m01 r) (m02 r) (n03 m) (m10 r) (m11 r) (m12 r) (n13 m) (m20 r) (m21 r) (m22 r) (n23 m)
     (n30 m) (n31 m) (n32 m) (n33 m)"

definition mat4_SetScale :: "'f vec3 \<Rightarrow> 'f mat4 \<Rightarrow> 'f mat4" where
  "mat4_SetScale s m = Mat4 (vx s) (n01 m) (n02 m) (n03 m) (n10 m) (vy s) (n12 m) (n13 m) (n20 m) (n21 m) (vz s) (n23 m)
     (n30 m) (n31 m) (n32 m) (n33 m)"

definition ToMatrix3 :: "'f mat4 \<Rightarrow> 'f mat3" where
  "ToMatrix3 m = Mat3 (n00 m) (n01 m) (n02 m) (n10 m) (n11 m) (n12 m) (n20 m) (n21 m) (n22 m)"

definition Translation :: "'f mat4 \<Rightarrow> 'f vec3" where
  "Translation m = Vec3 (n03 m) (n13 m) (n23 m)"

definition mat4_Transpose :: "'f mat4 \<Rightarrow> 'f mat4" where
  "mat4_Transpose m = Mat4 (n00 m) (n10 m) (n20 m) (n30 m) (n01 m) (n11 m) (n21 m) (n31 m)
     (n02 m) (n12 m) (n22 m) (n32 m) (n03 m) (n13 m) (n23 m) (n33 m)"

definition scale_matrix :: "'f :: zero_neq_one vec3 \<Rightarrow> 'f mat4" where
  "scale_matrix s = mat4_SetScale s mat4_id"

definition translation_matrix :: "'f :: zero_neq_one vec3 \<Rightarrow> 'f mat4" where
  "translation_matrix p = SetTranslation p mat4_id"

definition mat4_Inverse :: "'f :: field mat4 \<Rightarrow> 'f mat4" where
  "mat4_Inverse m =
    (let v0 = n20 m * n31 m - n21 m * n30 m; v1 = n20 m * n32 m - n22 m * n30 m; v2 = n20 m * n33 m - n23 m * n30 m;
         v3 = n21 m * n32 m - n22 m * n31 m; v4 = n21 m * n33 m - n23 m * n31 m; v5 = n22 m * n33 m - n23 m * n32 m;
         i00 = v5 * n11 m - v4 * n12 m + v3 * n13 m; i10 = - (v5 * n10 m - v2 * n12 m + v1 * n13 m);
         i20 = v4 * n10 m - v2 * n11 m + v0 * n13 m; i30 = - (v3 * n10 m - v1 * n11 m + v0 * n12 m);
         invDet = 1 / (i00 * n00 m + i10 * n01 m + i20 * n02 m + i30 * n03 m);
         i01 = - (v5 * n01 m - v4 * n02 m + v3 * n03 m) * invDet; i11 = (v5 * n00 m - v2 * n02 m + v1 * n03 m) * invDet;
         i21 = - (v4 * n00 m - v2 * n01 m + v0 * n03 m) * invDet; i31 = (v3 * n00 m - v1 * n01 m + v0 * n02 m) * invDet;
         u0 = n10 m * n31 m - n11 m * n30 m; u1 = n10 m * n32 m - n12 m * n30 m; u2 = n10 m * n33 m - n13 m * n30 m;
         u3 = n11 m * n32 m - n12 m * n31 m; u4 = n11 m * n33 m - n13 m * n31 m; u5 = n12 m * n33 m - n13 m * n32 m;
         i02 = (u5 * n01 m - u4 * n02 m + u3 * n03 m) * invDet; i12 = - (u5 * n00 m - u2 * n02 m + u1 * n03 m) * invDet;
         i22 = (u4 * n00 m - u2 * n01 m + u0 * n03 m) * invDet; i32 = - (u3 * n00 m - u1 * n01 m + u0 * n02 m) * invDet;
         w0 = n21 m * n10 m - n20 m * n11 m; w1 = n22 m * n10 m - n20 m * n12 m; w2 = n23 m * n10 m - n20 m * n13 m;
         w3 = n22 m * n11 m - n21 m * n12 m; w4 = n23 m * n11 m - n21 m * n13 m; w5 = n23 m * n12 m - n22 m * n13 m;
         i03 = - (w5 * n01 m - w4 * n02 m + w3 * n03 m) * invDet; i13 = (w5 * n00 m - w2 * n02 m + w1 * n03 m) * invDet;
         i23 = - (w4 * n00 m - w2 * n01 m + w0 * n03 m) * invDet; i33 = (w3 * n00 m - w1 * n01 m + w0 * n02 m) * invDet
     in Mat4 (i00 * invDet) i01 i02 i03 (i10 * invDet) i11 i12 i13 (i20 * invDet) i21 i22 i23 (i30 * invDet) i31 i32 i33)"

text \<open>The denominator of \<open>mat4_Inverse\<close>.\<close>

definition mat4_det :: "'f :: comm_ring mat4 \<Rightarrow> 'f" where
  "mat4_det m =
    (let v0 = n20 m * n31 m - n21 m * n30 m; v1 = n20 m * n32 m - n22 m * n30 m; v2 = n20 m * n33 m - n23 m * n30 m;
         v3 = n21 m * n32 m - n22 m * n31 m; v4 = n21 m * n33 m - n23 m * n31 m; v5 = n22 m * n33 m - n23 m * n32 m
     in (v5 * n11 m - v4 * n12 m + v3 * n13 m) * n00 m + - (v5 * n10 m - v2 * n12 m + v1 * n13 m) * n01 m
      + (v4 * n10 m - v2 * n11 m + v0 * n13 m) * n02 m + - (v3 * n10 m - v1 * n11 m + v0 * n12 m) * n03 m)"

lemma mat4_mul_assoc: "mat4_mul (mat4_mul a b) c = mat4_mul a (mat4_mul b c)"
  by (simp add: mat4_mul_def algebra_simps)

lemma mat4_id_mul [simp]: "mat4_mul mat4_id a = a" "mat4_mul a mat4_id = a" for a :: "'f :: comm_ring_1 mat4"
  by (simp_all add: mat4_mul_def mat4_id_def mat4.expand)

lemma mat4_inverse:
  assumes "mat4_det m \<noteq> (0 :: 'f :: field)"
  shows "mat4_mul (mat4_Inverse m) m = mat4_id"
proof -
  define k where "k = 1 / mat4_det m"
  have k: "mat4_det m * k = 1" using assms by (simp add: k_def)
  have "mat4_mul (mat4_Inverse m) m = mat4_scale mat4_id (mat4_det m * k)"
    unfolding mat4_Inverse_def mat4_det_def [unfolded Let_def, symmetric] Let_def k_def [symmetric]
    by (simp add: mat4_mul_def mat4_id_def mat4_scale_def mat4_det_def algebra_simps)
  then show ?thesis by (simp add: k mat4_scale_def mat4_id_def)
qed

text \<open>Affine matrices: the last row is (0, 0, 0, 1).\<close>

definition affine :: "'f :: zero_neq_one mat4 \<Rightarrow> bool" where
  "affine m \<longleftrightarrow> n30 m = 0 \<and> n31 m = 0 \<and> n32 m = 0 \<and> n33 m = 1"

lemma affine_mul: "affine a \<Longrightarrow> affine b \<Longrightarrow> affine (mat4_mul a b)" for a b :: "'f :: comm_ring_1 mat4"
  by (simp add: affine_def mat4_mul_def)

lemma affine_consts [simp]:
  "affine mat4_id" "affine (mat4_of_mat3 r)" "affine (scale_matrix s)" "affine (translation_matrix p)"
  "affine (SetTranslation t m) = affine m" "affine (SetRotation r m) = affine m" "affine (mat4_SetScale s m) = affine m"
  by (simp_all add: affine_def mat4_id_def mat4_of_mat3_def scale_matrix_def translation_matrix_def SetTranslation_def
    SetRotation_def mat4_SetScale_def)

lemma affine_vec: "affine m \<Longrightarrow> mat4_vec m v = mat3_vec (ToMatrix3 m) v + Translation m"
  by (simp add: affine_def mat4_vec_def mat3_vec_def ToMatrix3_def Translation_def plus_vec3_def vec_add_def)

lemma affine_vec_mul: "affine a \<Longrightarrow> affine b \<Longrightarrow> mat4_vec (mat4_mul a b) v = mat4_vec a (mat4_vec b v)"
  by (simp add: affine_def mat4_vec_def mat4_mul_def algebra_simps)

lemma ToMatrix3_simps [simp]:
  "ToMatrix3 (mat4_of_mat3 r) = r" "ToMatrix3 (SetTranslation t m) = ToMatrix3 m" "ToMatrix3 (SetRotation r m) = r"
  "Translation (SetTranslation t m) = t" "ToMatrix3 mat4_id = mat3_id"
  by (simp_all add: ToMatrix3_def mat4_of_mat3_def SetTranslation_def SetRotation_def Translation_def mat4_id_def
    mat3_id_def vec3.expand mat3.expand)

lemma ToMatrix3_mul: "affine a \<Longrightarrow> affine b \<Longrightarrow> ToMatrix3 (mat4_mul a b) = mat3_mul (ToMatrix3 a) (ToMatrix3 b)"
  by (simp add: ToMatrix3_def affine_def mat4_mul_def mat3_mul_def)

end
