(* ===== verification/Quaternions.thy ===== *)
theory Quaternions
  imports Rotations
begin

text \<open>
  Quaternions of \<open>Maths/Quaternion.*\<close>: the algebra, rotation of vectors, the conversions from and to
  rotation matrices, axes and Euler angles, and the interpolations. Angles are in degrees.
\<close>

datatype 'f quat = Quat (qw: 'f) (qx: 'f) (qy: 'f) (qz: 'f)

definition quat_id :: "'f :: zero_neq_one quat" where
  "quat_id = Quat 1 0 0 0"

definition quat_scale :: "'f :: times quat \<Rightarrow> 'f \<Rightarrow> 'f quat" where
  "quat_scale q s = Quat (qw q * s) (qx q * s) (qy q * s) (qz q * s)"

definition quat_neg :: "'f :: uminus quat \<Rightarrow> 'f quat" where
  "quat_neg q = Quat (- qw q) (- qx q) (- qy q) (- qz q)"

definition quat_add :: "'f :: plus quat \<Rightarrow> 'f quat \<Rightarrow> 'f quat" where
  "quat_add p q = Quat (qw p + qw q) (qx p + qx q) (qy p + qy q) (qz p + qz q)"

definition quat_sub :: "'f :: minus quat \<Rightarrow> 'f quat \<Rightarrow> 'f quat" where
  "quat_sub p q = Quat (qw p - qw q) (qx p - qx q) (qy p - qy q) (qz p - qz q)"

definition quat_mul :: "'f :: comm_ring quat \<Rightarrow> 'f quat \<Rightarrow> 'f quat" where
  "quat_mul p q = Quat
     (qw p * qw q - qx p * qx q - qy p * qy q - qz p * qz q)
     (qw p * qx q + qx p * qw q + qy p * qz q - qz p * qy q)
     (qw p * qy q + qy p * qw q + qz p * qx q - qx p * qz q)
     (qw p * qz q + qz p * qw q + qx p * qy q - qy p * qx q)"

definition quat_rotate :: "'f :: comm_ring_1 quat \<Rightarrow> 'f vec3 \<Rightarrow> 'f vec3" where
  "quat_rotate q v = (let qVec = Vec3 (qx q) (qy q) (qz q);
     cross1 = CrossProduct qVec v; cross2 = CrossProduct qVec cross1
   in vec_add v (vec_scale (vec_add (vec_scale cross1 (qw q)) cross2) 2))"

text \<open>The product of a vector and a quaternion takes the vector as a quaternion without real part.\<close>

definition vec_quat_mul :: "'f :: comm_ring vec3 \<Rightarrow> 'f quat \<Rightarrow> 'f quat" where
  "vec_quat_mul v q = Quat
     (- (qx q * vx v) - (qy q * vy v) - (qz q * vz v))
     ((qw q * vx v) + (vy v * qz q) - (vz v * qy q))
     ((qw q * vy v) + (vz v * qx q) - (vx v * qz q))
     ((qw q * vz v) + (vx v * qy q) - (vy v * qx q))"

definition quat_LengthSquared :: "'f :: comm_ring quat \<Rightarrow> 'f" where
  "quat_LengthSquared q = qw q * qw q + qx q * qx q + qy q * qy q + qz q * qz q"

definition quat_DotProduct :: "'f :: comm_ring quat \<Rightarrow> 'f quat \<Rightarrow> 'f" where
  "quat_DotProduct p q = qw p * qw q + qx p * qx q + qy p * qy q + qz p * qz q"

definition quat_Equals :: "'f :: linordered_field quat \<Rightarrow> 'f quat \<Rightarrow> 'f \<Rightarrow> bool" where
  "quat_Equals p q eps \<longleftrightarrow> Equals_eps (qw p) (qw q) eps \<and> Equals_eps (qx p) (qx q) eps
     \<and> Equals_eps (qy p) (qy q) eps \<and> Equals_eps (qz p) (qz q) eps"

definition Conjugate :: "'f :: uminus quat \<Rightarrow> 'f quat" where
  "Conjugate q = Quat (qw q) (- qx q) (- qy q) (- qz q)"

definition quat_Inverse :: "'f :: linordered_field quat \<Rightarrow> 'f quat" where
  "quat_Inverse q = (let lenSquared = quat_LengthSquared q in
     if lenSquared = 1 then Conjugate q
     else if lenSquared \<ge> 1 / 1000000 then quat_scale (Conjugate q) (1 / lenSquared)
     else quat_id)"

definition quat_Normalized :: "real quat \<Rightarrow> real quat" where
  "quat_Normalized q = (let lenSquared = quat_LengthSquared q in
     if \<not> Equals_eps lenSquared 1 (1 / 1000000) \<and> lenSquared > 0
     then (let invLen = 1 / sqrt lenSquared in quat_scale q invLen) else q)"

definition RotationMatrix :: "'f :: comm_ring_1 quat \<Rightarrow> 'f mat3" where
  "RotationMatrix q = Mat3
     (1 - 2 * qy q * qy q - 2 * qz q * qz q) (2 * qx q * qy q - 2 * qw q * qz q) (2 * qx q * qz q + 2 * qw q * qy q)
     (2 * qx q * qy q + 2 * qw q * qz q) (1 - 2 * qx q * qx q - 2 * qz q * qz q) (2 * qy q * qz q - 2 * qw q * qx q)
     (2 * qx q * qz q - 2 * qw q * qy q) (2 * qy q * qz q + 2 * qw q * qx q) (1 - 2 * qx q * qx q - 2 * qy q * qy q)"

definition RotationMatrix4 :: "'f :: comm_ring_1 quat \<Rightarrow> 'f mat4" where
  "RotationMatrix4 q = mat4_of_mat3 (RotationMatrix q)"

definition FromRotationMatrix :: "real mat3 \<Rightarrow> real quat" where
  "FromRotationMatrix m = (let t = m00 m + m11 m + m22 m in
     if t > 0 then (let invS = 1 / 2 / sqrt (1 + t) in
       Quat (1 / 4 / invS) ((m21 m - m12 m) * invS) ((m02 m - m20 m) * invS) ((m10 m - m01 m) * invS))
     else if m00 m > m11 m \<and> m00 m > m22 m then (let invS = 1 / 2 / sqrt (1 + m00 m - m11 m - m22 m) in
       Quat ((m21 m - m12 m) * invS) (1 / 4 / invS) ((m01 m + m10 m) * invS) ((m20 m + m02 m) * invS))
     else if m11 m > m22 m then (let invS = 1 / 2 / sqrt (1 + m11 m - m00 m - m22 m) in
       Quat ((m02 m - m20 m) * invS) ((m01 m + m10 m) * invS) (1 / 4 / invS) ((m12 m + m21 m) * invS))
     else (let invS = 1 / 2 / sqrt (1 + m22 m - m00 m - m11 m) in
       Quat ((m10 m - m01 m) * invS) ((m02 m + m20 m) * invS) ((m12 m + m21 m) * invS) (1 / 4 / invS)))"

definition FromAxes :: "real vec3 \<Rightarrow> real vec3 \<Rightarrow> real vec3 \<Rightarrow> real quat" where
  "FromAxes a b c = FromRotationMatrix (Mat3 (vx a) (vx b) (vx c) (vy a) (vy b) (vy c) (vz a) (vz b) (vz c))"

definition DEGTORAD_2 :: real where "DEGTORAD_2 = pi / 360"

definition FromAngleAxis :: "real \<Rightarrow> real vec3 \<Rightarrow> real quat" where
  "FromAngleAxis angle axis = (let normAxis = Normalized axis; a = angle * DEGTORAD_2 in
     Quat (cos a) (vx normAxis * sin a) (vy normAxis * sin a) (vz normAxis * sin a))"

definition FromEulerAngles :: "real \<Rightarrow> real \<Rightarrow> real \<Rightarrow> real quat" where
  "FromEulerAngles pitch yaw roll =
    (let p = pitch * DEGTORAD_2; y = yaw * DEGTORAD_2; r = roll * DEGTORAD_2;
         sinX = sin p; cosX = cos p; sinY = sin y; cosY = cos y; sinZ = sin r; cosZ = cos r
     in Quat (cosY * cosX * cosZ + sinY * sinX * sinZ) (cosY * sinX * cosZ + sinY * cosX * sinZ)
          (sinY * cosX * cosZ - cosY * sinX * sinZ) (cosY * cosX * sinZ - sinY * sinX * cosZ))"

definition FromRotationTo :: "real vec3 \<Rightarrow> real vec3 \<Rightarrow> real quat" where
  "FromRotationTo start end_dir =
    (let normStart = Normalized start; normEnd = Normalized end_dir; d = DotProduct normStart normEnd in
     if d > -1 + 1 / 1000000
     then (let c = CrossProduct normStart normEnd; s = sqrt ((1 + d) * 2); invS = 1 / s
       in Quat (1 / 2 * s) (vx c * invS) (vy c * invS) (vz c * invS))
     else (let axis = CrossProduct (Vec3 1 0 0) normStart;
               axis = (if vec_Length axis < 1 / 1000000 then CrossProduct (Vec3 0 1 0) normStart else axis)
       in FromAngleAxis 180 axis))"

definition Slerp :: "real quat \<Rightarrow> real quat \<Rightarrow> real \<Rightarrow> real quat" where
  "Slerp q rhs t =
    (let cosAngle = quat_DotProduct q rhs; sign = (if cosAngle < 0 then -1 else 1);
         cosAngle = (if cosAngle < 0 then - cosAngle else cosAngle);
         angle = arccos cosAngle; sinAngle = sin angle;
         (t1, t2) = (if sinAngle > 1 / 1000
            then (let invSinAngle = 1 / sinAngle in (sin ((1 - t) * angle) * invSinAngle, sin (t * angle) * invSinAngle))
            else (1 - t, t))
     in quat_add (quat_scale q t1) (quat_scale (quat_scale rhs sign) t2))"

definition Nlerp :: "real quat \<Rightarrow> real quat \<Rightarrow> real \<Rightarrow> bool \<Rightarrow> real quat" where
  "Nlerp q rhs t shortestPath = quat_Normalized
     (if quat_DotProduct q rhs < 0 \<and> shortestPath
      then quat_add q (quat_scale (quat_sub (quat_neg rhs) q) t)
      else quat_add q (quat_scale (quat_sub rhs q) t))"

lemmas quat_defs = quat_id_def quat_scale_def quat_neg_def quat_add_def quat_sub_def quat_mul_def vec_quat_mul_def
  quat_LengthSquared_def quat_DotProduct_def Conjugate_def

section \<open>Algebra\<close>

lemma quat_mul_assoc: "quat_mul (quat_mul a b) c = quat_mul a (quat_mul b c)"
  by (simp add: quat_mul_def algebra_simps)

lemma quat_id_mul [simp]: "quat_mul quat_id q = q" "quat_mul q quat_id = q" for q :: "'f :: comm_ring_1 quat"
  by (simp_all add: quat_defs quat.expand)

lemma quat_length_mul: "quat_LengthSquared (quat_mul a b) = quat_LengthSquared a * quat_LengthSquared b"
  by (simp add: quat_mul_def quat_LengthSquared_def algebra_simps)

lemma quat_length_scale: "quat_LengthSquared (quat_scale q s) = quat_LengthSquared q * (s * s)"
  by (simp add: quat_scale_def quat_LengthSquared_def algebra_simps)

lemma vec_quat_mul: "vec_quat_mul v q = quat_mul (Quat 0 (vx v) (vy v) (vz v)) q" for q :: "'f :: comm_ring_1 quat"
  by (simp add: vec_quat_mul_def quat_mul_def algebra_simps)

lemma quat_conjugate:
  "quat_mul q (Conjugate q) = quat_scale quat_id (quat_LengthSquared q)" for q :: "'f :: comm_ring_1 quat"
  by (simp add: quat_defs algebra_simps)

lemma quat_length_nonneg: "0 \<le> quat_LengthSquared (q :: 'f :: linordered_field quat)"
  by (simp add: quat_LengthSquared_def)

lemma quat_mul_scale: "quat_mul q (quat_scale p s) = quat_scale (quat_mul q p) s"
  by (simp add: quat_mul_def quat_scale_def algebra_simps)

lemma quat_inverse:
  assumes "quat_LengthSquared q \<ge> 1 / 1000000"
  shows "quat_mul q (quat_Inverse q) = quat_id"
proof -
  have "quat_LengthSquared q \<noteq> 0" using assms by auto
  then show ?thesis using assms quat_conjugate [of q]
    by (simp add: quat_Inverse_def Let_def quat_mul_scale) (simp add: quat_id_def quat_scale_def)
qed

section \<open>Rotations\<close>

lemma rotate_matrix: "mat3_vec (RotationMatrix q) v = quat_rotate q v"
  by (simp add: mat3_vec_def RotationMatrix_def quat_rotate_def vec_defs Let_def algebra_simps)

definition pure_quat :: "'f :: zero vec3 \<Rightarrow> 'f quat" where
  "pure_quat v = Quat 0 (vx v) (vy v) (vz v)"

lemma pure_quat_inj: "pure_quat a = pure_quat b \<Longrightarrow> a = b"
  by (simp add: pure_quat_def vec3.expand)

lemma quat_sandwich:
  "quat_mul (quat_mul q (pure_quat v)) (Conjugate q)
    = pure_quat (vec_add (vec_scale v (quat_LengthSquared q - 1)) (quat_rotate q v))"
  for q :: "'f :: comm_ring_1 quat"
  by (simp add: pure_quat_def quat_rotate_def quat_defs vec_defs Let_def algebra_simps)

lemma rotate_sandwich:
  assumes "quat_LengthSquared q = 1"
  shows "pure_quat (quat_rotate q v) = quat_mul (quat_mul q (pure_quat v)) (Conjugate q)"
  using quat_sandwich [of q v] assms by (simp add: pure_quat_def vec_defs)

lemma conjugate_mul: "Conjugate (quat_mul p q) = quat_mul (Conjugate q) (Conjugate p)"
  by (simp add: quat_defs algebra_simps)

lemma conjugate_length [simp]: "quat_LengthSquared (Conjugate q) = quat_LengthSquared q"
  by (simp add: quat_defs)

lemma conjugate_twice [simp]: "Conjugate (Conjugate q) = q" for q :: "'f :: comm_ring_1 quat"
  by (simp add: quat_defs)

lemma rotate_compose:
  assumes "quat_LengthSquared p = 1" and "quat_LengthSquared q = 1"
  shows "quat_rotate (quat_mul p q) v = quat_rotate p (quat_rotate q v)"
proof -
  have "quat_LengthSquared (quat_mul p q) = 1" using assms by (simp add: quat_length_mul)
  from rotate_sandwich [OF this, of v] rotate_sandwich [OF assms(1), of "quat_rotate q v"] rotate_sandwich [OF assms(2), of v]
  have "pure_quat (quat_rotate (quat_mul p q) v) = pure_quat (quat_rotate p (quat_rotate q v))"
    by (simp add: quat_mul_assoc conjugate_mul)
  then show ?thesis by (rule pure_quat_inj)
qed

lemma rotate_length:
  assumes "quat_LengthSquared q = 1"
  shows "LengthSquared (quat_rotate q v) = LengthSquared v"
proof -
  have p: "quat_LengthSquared (pure_quat a) = LengthSquared a" for a :: "'a vec3"
    by (simp add: pure_quat_def quat_LengthSquared_def LengthSquared_def)
  from arg_cong [OF rotate_sandwich [OF assms, of v], of quat_LengthSquared] assms show ?thesis
    by (simp add: p quat_length_mul)
qed

lemma rotate_id [simp]: "quat_rotate quat_id v = v"
  by (simp add: quat_rotate_def quat_id_def vec_defs Let_def)

lemma mat3_eqI:
  assumes "\<And>v. mat3_vec a v = mat3_vec b (v :: 'f :: comm_ring_1 vec3)"
  shows "a = b"
  using assms [of "Vec3 1 0 0"] assms [of "Vec3 0 1 0"] assms [of "Vec3 0 0 1"]
  by (simp add: mat3_vec_def mat3.expand)

lemma rotation_matrix_mul:
  assumes "quat_LengthSquared p = 1" and "quat_LengthSquared q = 1"
  shows "RotationMatrix (quat_mul p q) = mat3_mul (RotationMatrix p) (RotationMatrix q)"
  by (rule mat3_eqI) (simp add: rotate_matrix mat3_vec_mul rotate_compose assms)

lemma rotation_matrix_conjugate: "RotationMatrix (Conjugate q) = mat3_Transpose (RotationMatrix q)"
  by (simp add: RotationMatrix_def Conjugate_def mat3_Transpose_def algebra_simps)

lemma rotation_matrix_id [simp]: "RotationMatrix quat_id = mat3_id"
  by (simp add: RotationMatrix_def quat_id_def mat3_id_def)

lemma rotation_orthogonal:
  assumes "quat_LengthSquared q = 1"
  shows "mat3_mul (mat3_Transpose (RotationMatrix q)) (RotationMatrix q) = mat3_id"
    "mat3_mul (RotationMatrix q) (mat3_Transpose (RotationMatrix q)) = mat3_id"
proof -
  have c: "quat_mul q (Conjugate q) = quat_id" "quat_mul (Conjugate q) q = quat_id"
    using quat_conjugate [of q] quat_conjugate [of "Conjugate q"] assms by (simp_all add: quat_id_def quat_scale_def)
  show "mat3_mul (mat3_Transpose (RotationMatrix q)) (RotationMatrix q) = mat3_id"
    using rotation_matrix_mul [of "Conjugate q" q] assms c by (simp add: rotation_matrix_conjugate)
  show "mat3_mul (RotationMatrix q) (mat3_Transpose (RotationMatrix q)) = mat3_id"
    using rotation_matrix_mul [of q "Conjugate q"] assms c by (simp add: rotation_matrix_conjugate)
qed

lemma rotate_dot:
  assumes "quat_LengthSquared q = 1"
  shows "DotProduct (quat_rotate q a) (quat_rotate q b) = DotProduct a b"
  using mat3_transpose_dot [of "RotationMatrix q" a "quat_rotate q b"] rotation_orthogonal(1) [OF assms]
  by (metis mat3_id_vec mat3_vec_mul rotate_matrix)

section \<open>Conversions\<close>

text \<open>The four branches of the conversion from a matrix: the divisor is four times the modulus of one coordinate.\<close>

lemma sqrt_four_square: "sqrt (4 * (a * a)) = 2 * \<bar>a\<bar>"
  by (simp add: real_sqrt_mult)

lemma over_modulus:
  assumes "a \<noteq> (0 :: real)" and "r = 4 * (a * a)"
  shows "1 / 4 / (1 / 2 / sqrt r) = a * sgn a" "k = 4 * (a * b) \<Longrightarrow> k * (1 / 2 / sqrt r) = b * sgn a"
  using assms(1) unfolding assms(2) sqrt_four_square by (auto simp: sgn_if abs_if field_simps)

lemma FromRotationMatrix_cases:
  fixes q :: "real quat"
  assumes u: "quat_LengthSquared q = 1"
  obtains a where "a \<noteq> 0" "FromRotationMatrix (RotationMatrix q) = quat_scale q (sgn a)"
proof -
  let ?m = "RotationMatrix q"
  let ?w = "qw q" and ?x = "qx q" and ?y = "qy q" and ?z = "qz q"
  have n: "?w * ?w + ?x * ?x + ?y * ?y + ?z * ?z = 1" using u by (simp add: quat_LengthSquared_def)
  have diag: "1 + (m00 ?m + m11 ?m + m22 ?m) = 4 * (?w * ?w)" "1 + m00 ?m - m11 ?m - m22 ?m = 4 * (?x * ?x)"
    "1 + m11 ?m - m00 ?m - m22 ?m = 4 * (?y * ?y)" "1 + m22 ?m - m00 ?m - m11 ?m = 4 * (?z * ?z)"
    using n by (simp_all add: RotationMatrix_def)
  have offw: "m21 ?m - m12 ?m = 4 * (?w * ?x)" "m02 ?m - m20 ?m = 4 * (?w * ?y)" "m10 ?m - m01 ?m = 4 * (?w * ?z)"
    and offx: "m21 ?m - m12 ?m = 4 * (?x * ?w)" "m01 ?m + m10 ?m = 4 * (?x * ?y)" "m20 ?m + m02 ?m = 4 * (?x * ?z)"
    and offy: "m02 ?m - m20 ?m = 4 * (?y * ?w)" "m01 ?m + m10 ?m = 4 * (?y * ?x)" "m12 ?m + m21 ?m = 4 * (?y * ?z)"
    and offz: "m10 ?m - m01 ?m = 4 * (?z * ?w)" "m02 ?m + m20 ?m = 4 * (?z * ?x)" "m12 ?m + m21 ?m = 4 * (?z * ?y)"
    by (simp_all add: RotationMatrix_def)
  have cmp: "m00 ?m > m11 ?m \<longleftrightarrow> ?y * ?y < ?x * ?x" "m00 ?m > m22 ?m \<longleftrightarrow> ?z * ?z < ?x * ?x"
    "m11 ?m > m22 ?m \<longleftrightarrow> ?z * ?z < ?y * ?y" "m00 ?m + m11 ?m + m22 ?m > 0 \<longleftrightarrow> 1 / 4 < ?w * ?w"
    using n by (auto simp: RotationMatrix_def)
  have c1: "?w \<noteq> 0" if "1 / 4 < ?w * ?w" using that by auto
  have c2: "?x \<noteq> 0" if "?y * ?y < ?x * ?x" using that zero_le_square [of ?y] by auto
  have c3: "?y \<noteq> 0" if "?z * ?z < ?y * ?y" using that zero_le_square [of ?z] by auto
  have c4: "?z \<noteq> 0" if "\<not> 1 / 4 < ?w * ?w" "\<not> (?y * ?y < ?x * ?x \<and> ?z * ?z < ?x * ?x)" "\<not> ?z * ?z < ?y * ?y"
  proof
    assume "?z = 0"
    with that n zero_le_square [of ?x] zero_le_square [of ?y] show False by auto
  qed
  note unfold = FromRotationMatrix_def Let_def cmp quat_scale_def
  show thesis
  proof (cases "1 / 4 < ?w * ?w")
    case True
    then have "?w \<noteq> 0" by auto
    note om = over_modulus [OF this diag(1)]
    have "FromRotationMatrix ?m = quat_scale q (sgn ?w)"
      unfolding unfold by (simp only: True om(1) offw [THEN om(2)] simp_thms if_True if_False)
    with \<open>?w \<noteq> 0\<close> that show thesis by blast
  next
    case w: False
    show thesis
    proof (cases "?y * ?y < ?x * ?x \<and> ?z * ?z < ?x * ?x")
      case True
      then have "?x \<noteq> 0" using c2 by blast
      note om = over_modulus [OF this diag(2)]
      have "FromRotationMatrix ?m = quat_scale q (sgn ?x)"
        unfolding unfold by (simp only: True w om(1) offx [THEN om(2)] simp_thms if_True if_False)
      with \<open>?x \<noteq> 0\<close> that show thesis by blast
    next
      case x: False
      show thesis
      proof (cases "?z * ?z < ?y * ?y")
        case True
        then have "?y \<noteq> 0" using c3 by blast
        note om = over_modulus [OF this diag(3)]
        have "FromRotationMatrix ?m = quat_scale q (sgn ?y)"
          unfolding unfold by (simp only: True w x om(1) offy [THEN om(2)] simp_thms if_True if_False)
        with \<open>?y \<noteq> 0\<close> that show thesis by blast
      next
        case False
        then have "?z \<noteq> 0" using c4 w x by blast
        note om = over_modulus [OF this diag(4)]
        have "FromRotationMatrix ?m = quat_scale q (sgn ?z)"
          unfolding unfold by (simp only: False w x om(1) offz [THEN om(2)] simp_thms if_True if_False)
        with \<open>?z \<noteq> 0\<close> that show thesis by blast
      qed
    qed
  qed
qed

text \<open>Euler angles are rotations about Z, then X, then Y.\<close>

lemma normalized_unit: "LengthSquared a = 1 \<Longrightarrow> Normalized a = a"
  by (simp add: Normalized_def Equals_eps_def)

lemma FromEulerAngles_axes:
  "FromEulerAngles pitch yaw roll =
    quat_mul (quat_mul (FromAngleAxis yaw (Vec3 0 1 0)) (FromAngleAxis pitch (Vec3 1 0 0))) (FromAngleAxis roll (Vec3 0 0 1))"
  by (simp add: FromEulerAngles_def FromAngleAxis_def normalized_unit LengthSquared_def quat_mul_def Let_def)

lemma FromAngleAxis_unit:
  assumes "LengthSquared (Normalized axis) = 1"
  shows "quat_LengthSquared (FromAngleAxis angle axis) = 1"
proof -
  let ?n = "Normalized axis" and ?s = "sin (angle * DEGTORAD_2)"
  have "quat_LengthSquared (FromAngleAxis angle axis) = (cos (angle * DEGTORAD_2))\<^sup>2 + ?s\<^sup>2 * LengthSquared ?n"
    by (simp add: FromAngleAxis_def Let_def quat_LengthSquared_def LengthSquared_def power2_eq_square algebra_simps)
  with assms show ?thesis by simp
qed

lemma FromAngleAxis_fixes_axis: "quat_rotate (FromAngleAxis angle axis) (Normalized axis) = Normalized axis"
  by (simp add: FromAngleAxis_def quat_rotate_def Let_def vec_defs algebra_simps)

lemma FromEulerAngles_unit: "quat_LengthSquared (FromEulerAngles pitch yaw roll) = 1"
  by (simp add: FromEulerAngles_axes quat_length_mul FromAngleAxis_unit normalized_unit LengthSquared_def)

text \<open>The shortest rotation between two unit vectors, unless they are nearly opposite.\<close>

lemma triple_product:
  "CrossProduct (CrossProduct a b) a = vec_sub (vec_scale b (LengthSquared a)) (vec_scale a (DotProduct a b))"
  by (simp add: vec_defs algebra_simps)

lemma rotate_between:
  fixes a b :: "real vec3"
  assumes a: "LengthSquared a = 1" and b: "LengthSquared b = 1" and d: "DotProduct a b = d" and s: "s * s = (1 + d) * 2" "s \<noteq> 0"
    and c: "c = CrossProduct a b"
  shows "quat_rotate (Quat (1 / 2 * s) (vx c * (1 / s)) (vy c * (1 / s)) (vz c * (1 / s))) a = b"
proof -
  define u where "u = vec_scale c (1 / s)"
  have u: "u = Vec3 (vx c * (1 / s)) (vy c * (1 / s)) (vz c * (1 / s))" by (simp add: u_def vec_scale_def)
  have "s * s \<noteq> 0" using s(2) by simp
  then have d1: "1 + d \<noteq> 0" by (simp add: s(1))
  have ua: "CrossProduct u a = vec_scale (vec_sub b (vec_scale a d)) (1 / s)"
  proof -
    have "CrossProduct u a = vec_scale (CrossProduct c a) (1 / s)" by (simp add: u_def vec_defs diff_divide_distrib)
    also have "CrossProduct c a = vec_sub b (vec_scale a d)"
      unfolding c triple_product using a d by (simp add: vec_scale_def)
    finally show ?thesis .
  qed
  have perp: "DotProduct u a = 0" by (simp add: u_def c vec_defs algebra_simps)
  have bac: "CrossProduct u (CrossProduct u a) = vec_sub (vec_scale u (DotProduct u a)) (vec_scale a (LengthSquared u))"
    by (simp add: vec_defs algebra_simps)
  have len: "LengthSquared u = (1 - d) / 2"
  proof -
    have "LengthSquared u = (1 - d * d) / (s * s)"
    proof -
      have "LengthSquared (vec_scale v k) = LengthSquared v * (k * k)" for v :: "real vec3" and k
        by (simp add: vec_defs algebra_simps)
      then show ?thesis using lagrange_identity [of a b] a b d by (simp add: u_def c)
    qed
    also have "\<dots> = (1 + d) * (1 - d) / ((1 + d) * 2)" by (simp add: s algebra_simps)
    also have "\<dots> = (1 - d) / 2" by (rule mult_divide_mult_cancel_left [OF d1])
    finally show ?thesis .
  qed
  have "quat_rotate (Quat (1 / 2 * s) (vx u) (vy u) (vz u)) a
      = vec_add a (vec_scale (vec_add (vec_scale (CrossProduct u a) (1 / 2 * s)) (CrossProduct u (CrossProduct u a))) 2)"
    by (simp add: quat_rotate_def Let_def)
  also have "\<dots> = b" unfolding bac perp len unfolding ua using s(2) by (simp add: vec_defs vec3.expand field_simps)
  finally show ?thesis by (simp add: u)
qed

lemma FromRotationTo_rotates:
  assumes "LengthSquared a = 1" and "LengthSquared b = 1" and "DotProduct a b > -1 + 1 / 1000000"
  shows "quat_rotate (FromRotationTo a b) a = b"
proof -
  let ?d = "DotProduct a b"
  have "sqrt ((1 + ?d) * 2) * sqrt ((1 + ?d) * 2) = (1 + ?d) * 2" "sqrt ((1 + ?d) * 2) \<noteq> 0" using assms(3) by simp_all
  from rotate_between [OF assms(1,2) refl this refl] show ?thesis
    using assms by (simp add: FromRotationTo_def Let_def normalized_unit del: real_sqrt_mult_self)
qed

text \<open>Spherical interpolation keeps unit length and meets its ends, the second up to the sign of the shorter arc.\<close>

lemma length_combination:
  "quat_LengthSquared (quat_add (quat_scale p a) (quat_scale q b))
    = a * a * quat_LengthSquared p + b * b * quat_LengthSquared q + 2 * a * b * quat_DotProduct p q"
  for p q :: "real quat"
  by (simp add: quat_defs algebra_simps)

lemma Slerp_ends:
  "Slerp p q 0 = p"
  "Slerp p q 1 = (if quat_DotProduct p q < 0 then quat_neg q else q)"
  by (auto simp: Slerp_def Let_def quat_defs split: prod.splits)

lemma sin_split: "(sin a)\<^sup>2 + (sin b)\<^sup>2 + 2 * sin a * sin b * cos (a + b) = (sin (a + b))\<^sup>2" for a b :: real
proof -
  have "x * (1 - y) + (1 - x) * y = x + y - 2 * x * y" for x y :: real by (simp add: algebra_simps)
  from this [of "(sin a)\<^sup>2" "(sin b)\<^sup>2"]
  have "(sin a)\<^sup>2 * (cos b)\<^sup>2 + (cos a)\<^sup>2 * (sin b)\<^sup>2 = (sin a)\<^sup>2 + (sin b)\<^sup>2 - 2 * (sin a)\<^sup>2 * (sin b)\<^sup>2"
    by (simp only: cos_squared_eq)
  then show ?thesis by (simp add: sin_add cos_add power2_eq_square algebra_simps)
qed

lemma Slerp_unit:
  assumes "quat_LengthSquared p = 1" and "quat_LengthSquared q = 1" and "\<bar>quat_DotProduct p q\<bar> = c" and "c \<le> 1"
    and "sin (arccos c) > 1 / 1000"
  shows "quat_LengthSquared (Slerp p q t) = 1"
proof -
  define g where "g = (if quat_DotProduct p q < 0 then -1 else (1 :: real))"
  define th where "th = arccos c"
  define k where "k = 1 / sin th"
  let ?a = "sin ((1 - t) * th)" and ?b = "sin (t * th)"
  have c0: "0 \<le> c" using assms(3) by auto
  have sth: "sin th > 0" "cos th = c" using assms(4,5) c0 by (simp_all add: th_def)
  have k: "k * k * (sin th)\<^sup>2 = 1" using sth by (simp add: k_def power2_eq_square)
  have g: "g * g = 1" "g * quat_DotProduct p q = c" using assms(3) by (auto simp: g_def)
  have "Slerp p q t = quat_add (quat_scale p (?a * k)) (quat_scale q (g * (?b * k)))"
    using assms(3,5) by (auto simp: Slerp_def Let_def g_def th_def k_def quat_defs)
  then have "quat_LengthSquared (Slerp p q t) = (?a * k) * (?a * k) + (g * g) * ((?b * k) * (?b * k)) + 2 * (?a * k) * (?b * k) * (g * quat_DotProduct p q)"
    by (simp add: length_combination assms(1,2) algebra_simps)
  also have "\<dots> = k * k * (?a\<^sup>2 + ?b\<^sup>2 + 2 * ?a * ?b * cos ((1 - t) * th + t * th))"
    by (simp add: g sth(2) power2_eq_square algebra_simps)
  also have "\<dots> = 1" unfolding sin_split using k by (simp add: algebra_simps)
  finally show ?thesis .
qed

text \<open>Property C39. The rotations of the engine agree: for unit quaternions the rotation matrix acts as the quaternion does
  (so the product of two is the composition), it is orthogonal and keeps lengths, and the conversion of the
  matrix back, through whichever of its four branches, returns the quaternion or its negative, which is the
  same rotation.\<close>

theorem rotations_agree:
  fixes p q :: "real quat" and v :: "real vec3"
  assumes "quat_LengthSquared p = 1" and "quat_LengthSquared q = 1"
  shows "mat3_vec (RotationMatrix q) v = quat_rotate q v
    \<and> RotationMatrix (quat_mul p q) = mat3_mul (RotationMatrix p) (RotationMatrix q)
    \<and> mat3_mul (mat3_Transpose (RotationMatrix q)) (RotationMatrix q) = mat3_id
    \<and> LengthSquared (quat_rotate q v) = LengthSquared v
    \<and> FromRotationMatrix (RotationMatrix q) \<in> {q, quat_neg q}
    \<and> RotationMatrix (FromRotationMatrix (RotationMatrix q)) = RotationMatrix q"
proof -
  obtain a where a: "a \<noteq> 0" "FromRotationMatrix (RotationMatrix q) = quat_scale q (sgn a)"
    using FromRotationMatrix_cases [OF assms(2)] by blast
  have n: "quat_scale q 1 = q" "quat_scale q (-1) = quat_neg q" by (simp_all add: quat_defs)
  have "RotationMatrix (quat_neg q) = RotationMatrix q" by (simp add: RotationMatrix_def quat_neg_def)
  with a n show ?thesis
    by (auto simp: rotate_matrix rotation_matrix_mul rotation_orthogonal rotate_length assms sgn_if)
qed

theorem rotations_agree_witness:
  "FromRotationMatrix (RotationMatrix (Quat (3 / 5) 0 (4 / 5) 0)) \<in> {Quat (3 / 5) 0 (4 / 5) 0, quat_neg (Quat (3 / 5) 0 (4 / 5) 0)}
    \<and> RotationMatrix (quat_mul (Quat 0 1 0 0) (Quat (3 / 5) 0 (4 / 5) 0))
      = mat3_mul (RotationMatrix (Quat 0 1 0 0)) (RotationMatrix (Quat (3 / 5 :: real) 0 (4 / 5) 0))"
  using rotations_agree [of "Quat 0 1 0 0" "Quat (3 / 5) 0 (4 / 5) 0" 0] by (simp add: quat_LengthSquared_def)

end
