(* ===== verification/Projections.thy ===== *)
theory Projections
  imports Quaternions
begin

text \<open>
  The projection matrices of \<open>Maths/Matrix4.cpp\<close> and the choice of a clip convention, a static variable
  of \<open>Matrix4\<close> that \<open>SetUpCoordSystem\<close> sets and the two entry points read.
\<close>

unbundle bit_operations_syntax

text \<open>The last four parameters of every projection and its matrix.\<close>

type_synonym lens = "real \<Rightarrow> real \<Rightarrow> real \<Rightarrow> real \<Rightarrow> real mat4"

definition DEGTORAD :: real where "DEGTORAD = pi / 180"

section \<open>Clip conventions\<close>

definition CLIP_CONTROL_ZO_BIT :: int where "CLIP_CONTROL_ZO_BIT = push_bit 0 1"
definition CLIP_CONTROL_NO_BIT :: int where "CLIP_CONTROL_NO_BIT = push_bit 1 1"
definition CLIP_CONTROL_LH_BIT :: int where "CLIP_CONTROL_LH_BIT = push_bit 2 1"
definition CLIP_CONTROL_RH_BIT :: int where "CLIP_CONTROL_RH_BIT = push_bit 3 1"
definition CLIP_CONTROL_LH_ZO :: int where "CLIP_CONTROL_LH_ZO = CLIP_CONTROL_LH_BIT OR CLIP_CONTROL_ZO_BIT"
definition CLIP_CONTROL_LH_NO :: int where "CLIP_CONTROL_LH_NO = CLIP_CONTROL_LH_BIT OR CLIP_CONTROL_NO_BIT"
definition CLIP_CONTROL_RH_ZO :: int where "CLIP_CONTROL_RH_ZO = CLIP_CONTROL_RH_BIT OR CLIP_CONTROL_ZO_BIT"
definition CLIP_CONTROL_RH_NO :: int where "CLIP_CONTROL_RH_NO = CLIP_CONTROL_RH_BIT OR CLIP_CONTROL_NO_BIT"

lemmas clip_defs = CLIP_CONTROL_ZO_BIT_def CLIP_CONTROL_NO_BIT_def CLIP_CONTROL_LH_BIT_def CLIP_CONTROL_RH_BIT_def
  CLIP_CONTROL_LH_ZO_def CLIP_CONTROL_LH_NO_def CLIP_CONTROL_RH_ZO_def CLIP_CONTROL_RH_NO_def

definition SetUpCoordSystem :: "bool \<Rightarrow> bool \<Rightarrow> int" where
  "SetUpCoordSystem LeftHanded forceZeroToOne =
    (if forceZeroToOne then (if LeftHanded then CLIP_CONTROL_LH_ZO else CLIP_CONTROL_RH_ZO)
     else (if LeftHanded then CLIP_CONTROL_LH_NO else CLIP_CONTROL_RH_NO))"

definition IsDepthZeroOne :: "int \<Rightarrow> bool" where
  "IsDepthZeroOne config \<longleftrightarrow> config = CLIP_CONTROL_RH_ZO \<or> config = CLIP_CONTROL_LH_ZO"

lemma clip_values [simp]:
  "CLIP_CONTROL_LH_ZO = 5" "CLIP_CONTROL_LH_NO = 6" "CLIP_CONTROL_RH_ZO = 9" "CLIP_CONTROL_RH_NO = 10"
  by (simp_all add: clip_defs)

lemma IsDepthZeroOne_SetUp: "IsDepthZeroOne (SetUpCoordSystem lh zo) = zo"
  by (auto simp: IsDepthZeroOne_def SetUpCoordSystem_def)

section \<open>Perspective\<close>

definition PerspectiveRH_ZO :: "real \<Rightarrow> real \<Rightarrow> real \<Rightarrow> lens" where
  "PerspectiveRH_ZO znear zfar aspect fov offsetX offsetY zoom =
    (let h = zoom / tan (fov * DEGTORAD * (1 / 2)); neg_depth_r = 1 / (znear - zfar) in
     Mat4 (h / aspect) 0 (offsetX * 2) 0
          0 (- h) (offsetY * 2) 0
          0 0 (zfar * neg_depth_r) ((znear * zfar) * neg_depth_r)
          0 0 (-1) 0)"

definition PerspectiveRH_NO :: "real \<Rightarrow> real \<Rightarrow> real \<Rightarrow> lens" where
  "PerspectiveRH_NO znear zfar aspect fov offsetX offsetY zoom =
    (let h = zoom / tan (fov * DEGTORAD * (1 / 2)); neg_depth_r = 1 / (znear - zfar) in
     Mat4 (h / aspect) 0 (offsetX * 2) 0
          0 (h) (offsetY * 2) 0
          0 0 ((zfar + znear) * neg_depth_r) (2 * (znear * zfar) * neg_depth_r)
          0 0 (-1) 0)"

definition PerspectiveLH_ZO :: "real \<Rightarrow> real \<Rightarrow> real \<Rightarrow> lens" where
  "PerspectiveLH_ZO znear zfar aspect fov offsetX offsetY zoom =
    (let h = zoom / tan (fov * DEGTORAD * (1 / 2)); neg_depth_r = 1 / (znear - zfar) in
     Mat4 (h / aspect) 0 (offsetX * 2) 0
          0 (h) (offsetY * 2) 0
          0 0 (zfar * neg_depth_r) ((znear * zfar) * neg_depth_r)
          0 0 (1) 0)"

definition PerspectiveLH_NO :: "real \<Rightarrow> real \<Rightarrow> real \<Rightarrow> lens" where
  "PerspectiveLH_NO znear zfar aspect fov offsetX offsetY zoom =
    (let h = zoom / tan (fov * DEGTORAD * (1 / 2)); neg_depth_r = 1 / (zfar - zfar) in
     Mat4 (h / aspect) 0 (offsetX * 2) 0
          0 (h) (offsetY * 2) 0
          0 0 ((zfar + znear) * neg_depth_r) (-2 * (znear * zfar) * neg_depth_r)
          0 0 (1) 0)"

definition Perspective :: "int \<Rightarrow> real \<Rightarrow> real \<Rightarrow> real \<Rightarrow> lens" where
  "Perspective config =
    (if config = CLIP_CONTROL_LH_ZO then PerspectiveLH_ZO
     else if config = CLIP_CONTROL_LH_NO then PerspectiveLH_NO
     else if config = CLIP_CONTROL_RH_ZO then PerspectiveRH_ZO
     else if config = CLIP_CONTROL_RH_NO then PerspectiveRH_NO
     else PerspectiveRH_NO)"

section \<open>Orthographic\<close>

definition OrthographicRH_ZO :: "real \<Rightarrow> real \<Rightarrow> real \<Rightarrow> real \<Rightarrow> real \<Rightarrow> lens" where
  "OrthographicRH_ZO znear zfar right left topp bottom offsetX offsetY zoom =
    (let x_r = 1 / (right - left); y_r = zoom / (topp - bottom); z_r = 1 / (zfar - znear) in
     Mat4 (2 * x_r) 0 (offsetX * 2) (- (right + left) * x_r)
          0 (-2 * y_r) (offsetY * 2) (- (topp + bottom) * y_r)
          0 0 (-1 * z_r) (- znear * z_r)
          0 0 0 1)"

definition OrthographicRH_NO :: "real \<Rightarrow> real \<Rightarrow> real \<Rightarrow> real \<Rightarrow> real \<Rightarrow> lens" where
  "OrthographicRH_NO znear zfar right left topp bottom offsetX offsetY zoom =
    (let x_r = 1 / (right - left); y_r = zoom / (topp - bottom); z_r = 1 / (zfar - znear) in
     Mat4 (2 * x_r) 0 (offsetX * 2) (- (right + left) * x_r)
          0 (2 * y_r) (offsetY * 2) (- (topp + bottom) * y_r)
          0 0 (-2 * z_r) (- (zfar + znear) * z_r)
          0 0 0 1)"

definition OrthographicLH_ZO :: "real \<Rightarrow> real \<Rightarrow> real \<Rightarrow> real \<Rightarrow> real \<Rightarrow> lens" where
  "OrthographicLH_ZO znear zfar right left topp bottom offsetX offsetY zoom =
    (let x_r = 1 / (right - left); y_r = zoom / (topp - bottom); z_r = 1 / (zfar - znear) in
     Mat4 (2 * x_r) 0 (offsetX * 2) (- (right + left) * x_r)
          0 (2 * y_r) (offsetY * 2) (- (topp + bottom) * y_r)
          0 0 (-1 * z_r) (- znear * z_r)
          0 0 0 1)"

definition OrthographicLH_NO :: "real \<Rightarrow> real \<Rightarrow> real \<Rightarrow> real \<Rightarrow> real \<Rightarrow> lens" where
  "OrthographicLH_NO znear zfar right left topp bottom offsetX offsetY zoom =
    (let x_r = 1 / (right - left); y_r = zoom / (topp - bottom); z_r = 1 / (zfar - znear) in
     Mat4 (2 * x_r) 0 (offsetX * 2) (- (right + left) * x_r)
          0 (2 * y_r) (offsetY * 2) (- (topp + bottom) * y_r)
          0 0 (2 * z_r) (- (zfar + znear) * z_r)
          0 0 0 1)"

definition Orthographic :: "int \<Rightarrow> real \<Rightarrow> real \<Rightarrow> real \<Rightarrow> real \<Rightarrow> real \<Rightarrow> lens" where
  "Orthographic config left right bottom topp znear zfar offsetX offsetY zoom =
    (if config = CLIP_CONTROL_LH_ZO then OrthographicLH_ZO znear zfar right left topp bottom offsetX offsetY zoom
     else if config = CLIP_CONTROL_LH_NO then OrthographicLH_NO znear zfar right left topp bottom offsetX offsetY zoom
     else if config = CLIP_CONTROL_RH_ZO then OrthographicRH_ZO znear zfar right left topp bottom offsetX offsetY zoom
     else if config = CLIP_CONTROL_RH_NO then OrthographicRH_NO znear zfar right left topp bottom offsetX offsetY zoom
     else OrthographicRH_NO znear zfar right left topp bottom offsetX offsetY zoom)"

section \<open>The view volume\<close>

text \<open>A point \<open>(x, y)\<close> of the far end of the pyramid of sight, at the depth \<open>z\<close> in front of the eye.\<close>

definition eye_ray :: "real \<Rightarrow> real \<Rightarrow> real \<Rightarrow> real \<Rightarrow> real \<Rightarrow> real vec3" where
  "eye_ray aspect fov x y z = (let t = tan (fov * DEGTORAD * (1 / 2)) in Vec3 (x * aspect * t * z) (y * t * z) (- z))"

lemma perspective_xy:
  assumes "tan (fov * DEGTORAD * (1 / 2)) \<noteq> 0" and "aspect \<noteq> 0" and "z \<noteq> 0"
  shows "mat4_vec (PerspectiveRH_NO n f aspect fov 0 0 1) (eye_ray aspect fov x y z)
      = Vec3 x y ((2 * (n * f) - (f + n) * z) * (1 / (n - f)) / z)"
    "mat4_vec (PerspectiveRH_ZO n f aspect fov 0 0 1) (eye_ray aspect fov x y z)
      = Vec3 x (- y) ((n * f - f * z) * (1 / (n - f)) / z)"
proof -
  define k where "k = 1 / (n - f)"
  define t where "t = tan (fov * DEGTORAD * (1 / 2))"
  have t: "t \<noteq> 0" using assms(1) by (simp add: t_def)
  show "mat4_vec (PerspectiveRH_NO n f aspect fov 0 0 1) (eye_ray aspect fov x y z)
      = Vec3 x y ((2 * (n * f) - (f + n) * z) * (1 / (n - f)) / z)"
    unfolding mat4_vec_def PerspectiveRH_NO_def eye_ray_def Let_def t_def [symmetric] k_def [symmetric]
    using t assms(2,3) by (simp add: field_simps)
  show "mat4_vec (PerspectiveRH_ZO n f aspect fov 0 0 1) (eye_ray aspect fov x y z)
      = Vec3 x (- y) ((n * f - f * z) * (1 / (n - f)) / z)"
    unfolding mat4_vec_def PerspectiveRH_ZO_def eye_ray_def Let_def t_def [symmetric] k_def [symmetric]
    using t assms(2,3) by (simp add: field_simps)
qed

lemma axis_ends:
  assumes "r \<noteq> (l :: real)"
  shows "2 * (1 / (r - l)) * l + - (r + l) * (1 / (r - l)) = -1" "2 * (1 / (r - l)) * r + - (r + l) * (1 / (r - l)) = 1"
    "-2 * (1 / (r - l)) * - l + - (r + l) * (1 / (r - l)) = -1" "-2 * (1 / (r - l)) * - r + - (r + l) * (1 / (r - l)) = 1"
proof -
  define k where "k = 1 / (r - l)"
  have k: "(r - l) * k = 1" using assms by (simp add: k_def)
  have "2 * k * l + - (r + l) * k = - ((r - l) * k)" "2 * k * r + - (r + l) * k = (r - l) * k"
    "-2 * k * - l + - (r + l) * k = - ((r - l) * k)" "-2 * k * - r + - (r + l) * k = (r - l) * k"
    by (simp_all add: algebra_simps)
  then show "2 * (1 / (r - l)) * l + - (r + l) * (1 / (r - l)) = -1" "2 * (1 / (r - l)) * r + - (r + l) * (1 / (r - l)) = 1"
    "-2 * (1 / (r - l)) * - l + - (r + l) * (1 / (r - l)) = -1" "-2 * (1 / (r - l)) * - r + - (r + l) * (1 / (r - l)) = 1"
    unfolding k_def [symmetric] by (simp_all only: k)
qed

lemma orthographic_corners:
  assumes "n \<noteq> f" and "l \<noteq> r" and "b \<noteq> t"
  shows "mat4_vec (OrthographicRH_NO n f r l t b 0 0 1) (Vec3 l b (- n)) = Vec3 (-1) (-1) (-1)"
    "mat4_vec (OrthographicRH_NO n f r l t b 0 0 1) (Vec3 r t (- f)) = Vec3 1 1 1"
  unfolding mat4_vec_def OrthographicRH_NO_def Let_def
  using axis_ends [of r l] axis_ends [of t b] axis_ends [of f n] assms by simp_all

lemma depth_ends:
  assumes "0 < n" and "n < (f :: real)"
  shows "(2 * (n * f) - (f + n) * n) * (1 / (n - f)) / n = -1" "(2 * (n * f) - (f + n) * f) * (1 / (n - f)) / f = 1"
    "(n * f - f * n) * (1 / (n - f)) / n = 0" "(n * f - f * f) * (1 / (n - f)) / f = 1"
proof -
  define k where "k = 1 / (n - f)"
  have k: "(n - f) * k = 1" using assms by (simp add: k_def)
  have e: "(2 * (n * f) - (f + n) * n) * k = - (((n - f) * k) * n)" "(2 * (n * f) - (f + n) * f) * k = ((n - f) * k) * f"
    "(n * f - f * n) * k = 0" "(n * f - f * f) * k = ((n - f) * k) * f"
    by (simp_all add: algebra_simps)
  have d: "- (1 * n) / n = -1" "1 * f / f = 1" "0 / n = 0" using assms by simp_all
  show "(2 * (n * f) - (f + n) * n) * (1 / (n - f)) / n = -1" "(2 * (n * f) - (f + n) * f) * (1 / (n - f)) / f = 1"
    "(n * f - f * n) * (1 / (n - f)) / n = 0" "(n * f - f * f) * (1 / (n - f)) / f = 1"
    unfolding k_def [symmetric] e k d by (rule refl)+
qed

text \<open>The right-handed projections send the volume of sight to the clip volume: the perspective matrices send
  the rays of the pyramid to their screen coordinates (the zero-to-one convention flips the vertical axis)
  and the near and far planes to the ends of the depth range, -1 and 1 or 0 and 1; the orthographic matrix
  sends the corners of the box to the corners of the clip cube. The choice of the matrix is the one that
  \<open>SetUpCoordSystem\<close> asked for.\<close>

theorem projections_fit:
  assumes "tan (fov * DEGTORAD * (1 / 2)) \<noteq> 0" and "aspect \<noteq> 0" and "0 < n" and "n < f" and "l \<noteq> r" and "b \<noteq> t"
  shows "mat4_vec (Perspective (SetUpCoordSystem False False) n f aspect fov 0 0 1) (eye_ray aspect fov x y n) = Vec3 x y (-1)
    \<and> mat4_vec (Perspective (SetUpCoordSystem False False) n f aspect fov 0 0 1) (eye_ray aspect fov x y f) = Vec3 x y 1
    \<and> mat4_vec (Perspective (SetUpCoordSystem False True) n f aspect fov 0 0 1) (eye_ray aspect fov x y n) = Vec3 x (- y) 0
    \<and> mat4_vec (Perspective (SetUpCoordSystem False True) n f aspect fov 0 0 1) (eye_ray aspect fov x y f) = Vec3 x (- y) 1
    \<and> mat4_vec (Orthographic (SetUpCoordSystem False False) l r b t n f 0 0 1) (Vec3 l b (- n)) = Vec3 (-1) (-1) (-1)
    \<and> mat4_vec (Orthographic (SetUpCoordSystem False False) l r b t n f 0 0 1) (Vec3 r t (- f)) = Vec3 1 1 1"
proof -
  have d: "n \<noteq> 0" "f \<noteq> 0" "n \<noteq> f" using assms by auto
  note ends = perspective_xy [OF assms(1,2) d(1)] perspective_xy [OF assms(1,2) d(2)] depth_ends [OF assms(3,4)]
  have choice: "Perspective (SetUpCoordSystem False False) = PerspectiveRH_NO" "Perspective (SetUpCoordSystem False True) = PerspectiveRH_ZO"
    "Orthographic (SetUpCoordSystem False False) l r b t n f 0 0 1 = OrthographicRH_NO n f r l t b 0 0 1"
    by (simp_all add: Perspective_def Orthographic_def SetUpCoordSystem_def)
  show ?thesis by (simp only: choice ends orthographic_corners [OF d(3) assms(5,6)] simp_thms)
qed

theorem projections_fit_witness:
  "mat4_vec (Perspective (SetUpCoordSystem False False) 1 100 2 90 0 0 1) (eye_ray 2 90 (1 / 2) 1 100) = Vec3 (1 / 2) 1 1"
  using projections_fit [of 90 2 1 100 0 1 0 1 "1 / 2" 1] by (simp add: DEGTORAD_def tan_45)

text \<open>The left-handed matrices do not: the near plane is not sent to depth 0, and the depth factor of one
  divides by \<open>zfar - zfar\<close>.\<close>

lemma left_handed_near_plane:
  assumes "0 < n" and "n < f"
  shows "vz (mat4_vec (PerspectiveLH_ZO n f aspect fov 0 0 1) (Vec3 0 0 n)) = 2 * f * (1 / (n - f))"
    "vz (mat4_vec (OrthographicLH_ZO n f r l t b 0 0 1) (Vec3 0 0 n)) = - 2 * n * (1 / (f - n))"
    "n22 (PerspectiveLH_NO n f aspect fov 0 0 1) = (f + n) * (1 / 0)"
proof -
  define k where "k = 1 / (n - f)"
  show "vz (mat4_vec (PerspectiveLH_ZO n f aspect fov 0 0 1) (Vec3 0 0 n)) = 2 * f * (1 / (n - f))"
    unfolding mat4_vec_def PerspectiveLH_ZO_def Let_def k_def [symmetric] using assms by (simp add: field_simps)
  define j where "j = 1 / (f - n)"
  show "vz (mat4_vec (OrthographicLH_ZO n f r l t b 0 0 1) (Vec3 0 0 n)) = - 2 * n * (1 / (f - n))"
    unfolding mat4_vec_def OrthographicLH_ZO_def Let_def j_def [symmetric] using assms by (simp add: field_simps)
qed (simp add: PerspectiveLH_NO_def)

end
