(* ===== verification/Hulls.thy ===== *)
theory Hulls
  imports Vectors
begin

text \<open>
  Convex hulls of collision shapes (\<open>Physics/LumosPhysicsEngine/Hull.*\<close>) and the hulls of the cube and the
  pyramid. Vertices, edges and faces are known by their index in the vectors of the hull. A vertex index out
  of range is a fault.
\<close>

record 'f hull_vertex =
  hv_pos :: "'f vec3"
  hv_edges :: "nat list"
  hv_faces :: "nat list"

record hull_edge =
  vStart :: nat
  vEnd :: nat
  he_adjoining :: "nat list"
  he_faces :: "nat list"

record 'f hull_face =
  hf_normal :: "'f vec3"
  hf_verts :: "nat list"
  hf_edges :: "nat list"
  hf_adjoining :: "nat list"

record 'f hull3 =
  m_Vertices :: "'f hull_vertex list"
  m_Edges :: "hull_edge list"
  m_Faces :: "'f hull_face list"

definition empty_hull :: "'f hull3" where
  "empty_hull = \<lparr>m_Vertices = [], m_Edges = [], m_Faces = []\<rparr>"

definition AddVertex :: "'f vec3 \<Rightarrow> 'f hull3 \<Rightarrow> 'f hull3" where
  "AddVertex v h = h\<lparr>m_Vertices := m_Vertices h @ [\<lparr>hv_pos = v, hv_edges = [], hv_faces = []\<rparr>]\<rparr>"

text \<open>\<open>find_edge es i a b\<close> looks from index \<open>i\<close> on; the code returns -1 for None.\<close>

fun find_edge :: "hull_edge list \<Rightarrow> nat \<Rightarrow> nat \<Rightarrow> nat \<Rightarrow> nat option" where
  "find_edge [] i a b = None"
| "find_edge (e # es) i a b =
    (if vStart e = a \<and> vEnd e = b \<or> vStart e = b \<and> vEnd e = a then Some i else find_edge es (Suc i) a b)"

definition FindEdge :: "'f hull3 \<Rightarrow> nat \<Rightarrow> nat \<Rightarrow> nat option" where
  "FindEdge h a b = find_edge (m_Edges h) 0 a b"

definition touches :: "nat \<Rightarrow> nat \<Rightarrow> hull_edge \<Rightarrow> bool" where
  "touches a b e \<longleftrightarrow> vStart e = a \<or> vStart e = b \<or> vEnd e = a \<or> vEnd e = b"

definition add_vertex_edge :: "nat \<Rightarrow> nat \<Rightarrow> 'f hull3 \<Rightarrow> 'f hull3" where
  "add_vertex_edge v e h = h\<lparr>m_Vertices := (m_Vertices h)[v := (m_Vertices h ! v)\<lparr>hv_edges := hv_edges (m_Vertices h ! v) @ [e]\<rparr>]\<rparr>"

definition add_new_edge :: "nat \<Rightarrow> nat \<Rightarrow> 'f hull3 \<Rightarrow> 'f hull3" where
  "add_new_edge a b h =
    (let n = length (m_Edges h);
         adjacent = filter (\<lambda>i. touches a b (m_Edges h ! i)) [0..<n];
         es = map (\<lambda>e. if touches a b e then e\<lparr>he_adjoining := he_adjoining e @ [n]\<rparr> else e) (m_Edges h)
     in add_vertex_edge b n (add_vertex_edge a n
          (h\<lparr>m_Edges := es @ [\<lparr>vStart = a, vEnd = b, he_adjoining = adjacent, he_faces = []\<rparr>]\<rparr>)))"

definition add_edge_face :: "nat \<Rightarrow> nat \<Rightarrow> 'f hull3 \<Rightarrow> 'f hull3" where
  "add_edge_face e f h = h\<lparr>m_Edges := (m_Edges h)[e := (m_Edges h ! e)\<lparr>he_faces := he_faces (m_Edges h ! e) @ [f]\<rparr>]\<rparr>"

definition ConstructNewEdge :: "nat \<Rightarrow> nat \<Rightarrow> nat \<Rightarrow> 'f hull3 \<Rightarrow> (nat \<times> 'f hull3) res" where
  "ConstructNewEdge f a b h =
    (if a < length (m_Vertices h) \<and> b < length (m_Vertices h)
     then (case FindEdge h a b of
        Some e \<Rightarrow> ok (e, add_edge_face e f h)
      | None \<Rightarrow> ok (length (m_Edges h), add_edge_face (length (m_Edges h)) f (add_new_edge a b h)))
     else fail OutOfRange)"

text \<open>The loop over the corners: each is joined with the one before it, the first with the last.\<close>

fun face_edges :: "nat \<Rightarrow> nat \<Rightarrow> nat list \<Rightarrow> 'f hull3 \<Rightarrow> (nat list \<times> 'f hull3) res" where
  "face_edges f p0 [] h = ok ([], h)"
| "face_edges f p0 (p1 # ps) h =
    rbind (ConstructNewEdge f p0 p1 h) (\<lambda>(e, h1). rbind (face_edges f p1 ps h1) (\<lambda>(es, h2). ok (e # es, h2)))"

definition add_to_vertex :: "nat \<Rightarrow> nat \<Rightarrow> 'f hull3 \<Rightarrow> 'f hull3" where
  "add_to_vertex f v h = (let x = m_Vertices h ! v in
     if f \<in> set (hv_faces x) then h else h\<lparr>m_Vertices := (m_Vertices h)[v := x\<lparr>hv_faces := hv_faces x @ [f]\<rparr>]\<rparr>)"

definition update_vertices :: "nat \<Rightarrow> nat list \<Rightarrow> 'f hull3 \<Rightarrow> 'f hull3" where
  "update_vertices f es h = fold (\<lambda>e h. let x = m_Edges h ! e in add_to_vertex f (vEnd x) (add_to_vertex f (vStart x) h)) es h"

definition shares_edge :: "nat list \<Rightarrow> 'f hull_face \<Rightarrow> bool" where
  "shares_edge es c \<longleftrightarrow> list_ex (\<lambda>e. e \<in> set es) (hf_edges c)"

definition add_face :: "'f vec3 \<Rightarrow> nat list \<Rightarrow> 'f hull3 \<Rightarrow> 'f hull3 res" where
  "add_face normal verts h =
    (let f = length (m_Faces h) in
     rbind (if verts = [] then ok ([], h) else face_edges f (last verts) verts h) (\<lambda>(es, h1).
     let adjacent = filter (\<lambda>i. shares_edge es (m_Faces h1 ! i)) [0..<f];
         fs = map (\<lambda>c. if shares_edge es c then c\<lparr>hf_adjoining := hf_adjoining c @ [f]\<rparr> else c) (m_Faces h1);
         new_face = \<lparr>hf_normal = normal, hf_verts = verts, hf_edges = es, hf_adjoining = adjacent\<rparr>
     in ok (update_vertices f es (h1\<lparr>m_Faces := fs @ [new_face]\<rparr>))))"

definition AddFace :: "real vec3 \<Rightarrow> nat list \<Rightarrow> real hull3 \<Rightarrow> real hull3 res" where
  "AddFace normal verts h = add_face (Normalized normal) verts h"

text \<open>The extreme vertices along an axis: the first with the largest correlation, the last with the smallest.
  The start values of the code, plus and minus \<open>FLT_MAX\<close>, lie beyond every correlation: the first vertex
  replaces both.\<close>

definition extreme_step :: "'f :: linordered_field vec3 \<Rightarrow> 'f hull_vertex \<Rightarrow> nat \<times> (nat \<times> 'f) option \<times> (nat \<times> 'f) option \<Rightarrow>
    nat \<times> (nat \<times> 'f) option \<times> (nat \<times> 'f) option" where
  "extreme_step axis v = (\<lambda>(i, lo, hi). let c = DotProduct axis (hv_pos v) in
     (Suc i,
      case lo of None \<Rightarrow> Some (i, c) | Some (j, m) \<Rightarrow> if c \<le> m then Some (i, c) else lo,
      case hi of None \<Rightarrow> Some (i, c) | Some (j, m) \<Rightarrow> if c > m then Some (i, c) else hi))"

definition GetMinMaxVerticesInAxis :: "'f :: linordered_field vec3 \<Rightarrow> 'f hull3 \<Rightarrow> nat \<times> nat" where
  "GetMinMaxVerticesInAxis axis h =
    (case fold (extreme_step axis) (m_Vertices h) (0, None, None) of
       (_, lo, hi) \<Rightarrow> (case lo of None \<Rightarrow> 0 | Some (i, _) \<Rightarrow> i, case hi of None \<Rightarrow> 0 | Some (i, _) \<Rightarrow> i))"

section \<open>The hulls of the cube and the pyramid\<close>

fun add_vertices :: "'f vec3 list \<Rightarrow> 'f hull3 \<Rightarrow> 'f hull3" where
  "add_vertices [] h = h"
| "add_vertices (v # vs) h = add_vertices vs (AddVertex v h)"

fun add_faces :: "('f vec3 \<times> nat list) list \<Rightarrow> 'f hull3 \<Rightarrow> 'f hull3 res" where
  "add_faces [] h = ok h"
| "add_faces ((n, vs) # fs) h = rbind (add_face n vs h) (add_faces fs)"

definition ConstructCubeHull :: "real hull3 res" where
  "ConstructCubeHull = add_faces (map (\<lambda>(n, vs). (Normalized n, vs))
     [(Vec3 0 0 (-1), [0, 1, 2, 3]), (Vec3 0 0 1, [7, 6, 5, 4]), (Vec3 0 1 0, [5, 6, 2, 1]),
      (Vec3 0 (-1) 0, [0, 3, 7, 4]), (Vec3 1 0 0, [6, 7, 3, 2]), (Vec3 (-1) 0 0, [4, 5, 1, 0])])
   (add_vertices [Vec3 (-1) (-1) (-1), Vec3 (-1) 1 (-1), Vec3 1 1 (-1), Vec3 1 (-1) (-1),
      Vec3 (-1) (-1) 1, Vec3 (-1) 1 1, Vec3 1 1 1, Vec3 1 (-1) 1] empty_hull)"

definition ConstructPyramidHull :: "real hull3 res" where
  "ConstructPyramidHull =
    (let v0 = Vec3 (-1) (-1) (-1); v1 = Vec3 (-1) (-1) 1; v2 = Vec3 1 (-1) 1; v3 = Vec3 1 (-1) (-1); v4 = Vec3 0 1 0 in
     add_faces (map (\<lambda>(n, vs). (Normalized (Normalized n), vs))
       [(CrossProduct (vec_sub v0 v3) (vec_sub v4 v3), [0, 4, 3]), (CrossProduct (vec_sub v1 v0) (vec_sub v4 v0), [1, 4, 0]),
        (CrossProduct (vec_sub v2 v1) (vec_sub v4 v1), [2, 4, 1]), (CrossProduct (vec_sub v3 v2) (vec_sub v4 v2), [3, 4, 2]),
        (Vec3 0 (-1) 0, [0, 3, 2, 1])])
     (add_vertices [v0, v1, v2, v3, v4] empty_hull))"

section \<open>Incidence\<close>

text \<open>The faces and the ends of an edge, empty for an index out of range.\<close>

definition faces_of :: "'f hull3 \<Rightarrow> nat \<Rightarrow> nat set" where
  "faces_of h e = (if e < length (m_Edges h) then set (he_faces (m_Edges h ! e)) else {})"

definition ends_of :: "'f hull3 \<Rightarrow> nat \<Rightarrow> nat set" where
  "ends_of h e = (if e < length (m_Edges h) then {vStart (m_Edges h ! e), vEnd (m_Edges h ! e)} else {})"

text \<open>A vertex lists exactly the edges it ends, an edge exactly the other edges it has an end in common with.\<close>

definition linked :: "'f hull3 \<Rightarrow> bool" where
  "linked h \<longleftrightarrow> (\<forall>v < length (m_Vertices h). set (hv_edges (m_Vertices h ! v)) = {e. v \<in> ends_of h e})
     \<and> (\<forall>e < length (m_Edges h). set (he_adjoining (m_Edges h ! e))
           = {d. d < length (m_Edges h) \<and> d \<noteq> e \<and> ends_of h d \<inter> ends_of h e \<noteq> {}})"

definition edges_ok :: "'f hull3 \<Rightarrow> bool" where
  "edges_ok h \<longleftrightarrow> (\<forall>e < length (m_Edges h). ends_of h e \<subseteq> {..<length (m_Vertices h)})
     \<and> inj_on (ends_of h) {..<length (m_Edges h)} \<and> linked h"

text \<open>A hull is consistent: edges join known vertices, no two join the same pair, and vertices and edges list the edges they meet; an edge lists exactly the
  faces that list it; a vertex lists exactly the faces of its edges; two faces are neighbours when they share
  an edge.\<close>

definition hull_ok :: "'f hull3 \<Rightarrow> bool" where
  "hull_ok h \<longleftrightarrow> edges_ok h
     \<and> (\<forall>f < length (m_Faces h). set (hf_edges (m_Faces h ! f)) \<subseteq> {..<length (m_Edges h)})
     \<and> (\<forall>e. faces_of h e = {f. f < length (m_Faces h) \<and> e \<in> set (hf_edges (m_Faces h ! f))})
     \<and> (\<forall>v < length (m_Vertices h). set (hv_faces (m_Vertices h ! v))
           = {f. f < length (m_Faces h) \<and> (\<exists>e \<in> set (hf_edges (m_Faces h ! f)). v \<in> ends_of h e)})
     \<and> (\<forall>f < length (m_Faces h). set (hf_adjoining (m_Faces h ! f))
           = {g. g < length (m_Faces h) \<and> g \<noteq> f \<and> set (hf_edges (m_Faces h ! f)) \<inter> set (hf_edges (m_Faces h ! g)) \<noteq> {}})"

lemma find_edge_None: "find_edge es i a b = None \<Longrightarrow> e \<in> set es \<Longrightarrow> {vStart e, vEnd e} \<noteq> {a, b}"
  by (induction es arbitrary: i) (auto split: if_splits simp: doubleton_eq_iff)

lemma find_edge_Some:
  "find_edge es i a b = Some k \<Longrightarrow> i \<le> k \<and> k < i + length es \<and> {vStart (es ! (k - i)), vEnd (es ! (k - i))} = {a, b}"
proof (induction es arbitrary: i)
  case (Cons e es)
  show ?case
  proof (cases "vStart e = a \<and> vEnd e = b \<or> vStart e = b \<and> vEnd e = a")
    case True
    with Cons.prems show ?thesis by auto
  next
    case False
    with Cons.prems have "find_edge es (Suc i) a b = Some k" by simp
    from Cons.IH [OF this] have k: "Suc i \<le> k" "k < Suc i + length es" "{vStart (es ! (k - Suc i)), vEnd (es ! (k - Suc i))} = {a, b}"
      by auto
    then have "(e # es) ! (k - i) = es ! (k - Suc i)" by (simp add: nth_Cons')
    with k show ?thesis by auto
  qed
qed simp

lemma map_update_same: "g y = g (xs ! i) \<Longrightarrow> map g (xs[i := y]) = map g xs"
  by (cases "i < length xs") (auto intro!: nth_equalityI simp: nth_list_update)

lemma add_vertex_edge_simps [simp]:
  "m_Edges (add_vertex_edge v e h) = m_Edges h" "m_Faces (add_vertex_edge v e h) = m_Faces h"
  "map hv_faces (m_Vertices (add_vertex_edge v e h)) = map hv_faces (m_Vertices h)"
  "map hv_pos (m_Vertices (add_vertex_edge v e h)) = map hv_pos (m_Vertices h)"
  "length (m_Vertices (add_vertex_edge v e h)) = length (m_Vertices h)"
  by (simp_all add: add_vertex_edge_def map_update_same)

lemma add_edge_face_simps:
  "e < length (m_Edges h) \<Longrightarrow> faces_of (add_edge_face e f h) = (faces_of h)(e := insert f (faces_of h e))"
  "ends_of (add_edge_face e f h) = ends_of h"
  "m_Faces (add_edge_face e f h) = m_Faces h" "m_Vertices (add_edge_face e f h) = m_Vertices h"
  "length (m_Edges (add_edge_face e f h)) = length (m_Edges h)"
  by (cases "e < length (m_Edges h)"; auto simp: add_edge_face_def faces_of_def ends_of_def fun_eq_iff nth_list_update)+

lemma add_new_edge_simps:
  "faces_of (add_new_edge a b h) = faces_of h"
  "ends_of (add_new_edge a b h) = (ends_of h)(length (m_Edges h) := {a, b})"
  "m_Faces (add_new_edge a b h) = m_Faces h"
  "map hv_faces (m_Vertices (add_new_edge a b h)) = map hv_faces (m_Vertices h)"
  "map hv_pos (m_Vertices (add_new_edge a b h)) = map hv_pos (m_Vertices h)"
  "length (m_Vertices (add_new_edge a b h)) = length (m_Vertices h)"
  "length (m_Edges (add_new_edge a b h)) = Suc (length (m_Edges h))"
  by (auto simp: add_new_edge_def Let_def faces_of_def ends_of_def fun_eq_iff nth_append less_Suc_eq)

lemma linked_cong:
  assumes "m_Edges h1 = m_Edges h" and "map hv_edges (m_Vertices h1) = map hv_edges (m_Vertices h)" and "linked h"
  shows "linked h1"
proof -
  have e: "ends_of h1 = ends_of h" by (simp add: ends_of_def assms(1) fun_eq_iff)
  have l: "length (m_Vertices h1) = length (m_Vertices h)" using assms(2) by (metis length_map)
  have "hv_edges (m_Vertices h1 ! v) = hv_edges (m_Vertices h ! v)" if "v < length (m_Vertices h)" for v
    using assms(2) that l by (metis nth_map)
  with assms(3) show ?thesis by (simp add: linked_def e l assms(1))
qed

lemma linked_add_edge_face: "linked h \<Longrightarrow> linked (add_edge_face e f h)"
proof -
  have "map he_adjoining (m_Edges (add_edge_face e f h)) = map he_adjoining (m_Edges h)"
    by (simp add: add_edge_face_def map_update_same)
  then have "he_adjoining (m_Edges (add_edge_face e f h) ! i) = he_adjoining (m_Edges h ! i)" if "i < length (m_Edges h)" for i
    using that by (metis add_edge_face_simps(5) nth_map)
  then show "linked h \<Longrightarrow> linked (add_edge_face e f h)" by (simp add: linked_def add_edge_face_simps)
qed

lemma linked_new_edge:
  assumes l: "linked h" and ab: "a < length (m_Vertices h)" "b < length (m_Vertices h)"
  shows "linked (add_new_edge a b h)"
proof -
  let ?n = "length (m_Edges h)" and ?h = "add_new_edge a b h"
  note en = add_new_edge_simps(2) [of a b h]
  have t: "touches a b (m_Edges h ! e) \<longleftrightarrow> ends_of h e \<inter> {a, b} \<noteq> {}" if "e < ?n" for e
    using that by (auto simp: touches_def ends_of_def)
  have out: "ends_of h ?n = {}" by (simp add: ends_of_def)
  have v: "set (hv_edges (m_Vertices ?h ! v)) = {e. v \<in> ends_of ?h e}" if "v < length (m_Vertices ?h)" for v
  proof -
    have "v < length (m_Vertices h)" using that by (simp add: add_new_edge_simps)
    then have "set (hv_edges (m_Vertices ?h ! v)) = {e. v \<in> ends_of h e} \<union> (if v \<in> {a, b} then {?n} else {})"
      using l ab by (auto simp: add_new_edge_def Let_def add_vertex_edge_def nth_list_update linked_def)
    then show ?thesis unfolding en using out by auto
  qed
  have adj: "he_adjoining (m_Edges ?h ! e) = (if e = ?n then filter (\<lambda>i. touches a b (m_Edges h ! i)) [0..<?n]
      else he_adjoining (m_Edges h ! e) @ (if touches a b (m_Edges h ! e) then [?n] else []))" if "e < Suc ?n" for e
    using that by (auto simp: add_new_edge_def Let_def nth_append less_Suc_eq)
  have e: "set (he_adjoining (m_Edges ?h ! e)) = {d. d < length (m_Edges ?h) \<and> d \<noteq> e \<and> ends_of ?h d \<inter> ends_of ?h e \<noteq> {}}"
    if "e < length (m_Edges ?h)" for e
  proof (cases "e = ?n")
    case True
    have "set (he_adjoining (m_Edges ?h ! e)) = {d. d < ?n \<and> ends_of h d \<inter> {a, b} \<noteq> {}}"
      using adj [of ?n] t by (auto simp: True)
    then show ?thesis by (auto simp: True en add_new_edge_simps(7) less_Suc_eq)
  next
    case False
    with that have i: "e < ?n" by (simp add: add_new_edge_simps(7))
    then have "set (he_adjoining (m_Edges ?h ! e))
        = {d. d < ?n \<and> d \<noteq> e \<and> ends_of h d \<inter> ends_of h e \<noteq> {}} \<union> (if ends_of h e \<inter> {a, b} \<noteq> {} then {?n} else {})"
      using adj [of e] t [OF i] l by (simp add: linked_def)
    then show ?thesis using i by (auto simp: en add_new_edge_simps(7) less_Suc_eq)
  qed
  show ?thesis unfolding linked_def using v e by blast
qed

text \<open>What adding an edge to a face does, whether the edge is found or made.\<close>

lemma ConstructNewEdge_spec:
  assumes "ConstructNewEdge f a b h = Inr (e, h1)" and "edges_ok h"
  shows "edges_ok h1 \<and> e < length (m_Edges h1) \<and> ends_of h1 e = {a, b} \<and> faces_of h1 = (faces_of h)(e := insert f (faces_of h e))
    \<and> (\<forall>i < length (m_Edges h). ends_of h1 i = ends_of h i) \<and> length (m_Edges h) \<le> length (m_Edges h1)
    \<and> m_Faces h1 = m_Faces h \<and> map hv_faces (m_Vertices h1) = map hv_faces (m_Vertices h)
    \<and> map hv_pos (m_Vertices h1) = map hv_pos (m_Vertices h) \<and> length (m_Vertices h1) = length (m_Vertices h)"
proof -
  have ab: "a < length (m_Vertices h)" "b < length (m_Vertices h)" using assms(1) by (auto simp: ConstructNewEdge_def split: if_splits)
  show ?thesis
  proof (cases "FindEdge h a b")
    case None
    let ?n = "length (m_Edges h)" and ?h = "add_new_edge a b h"
    have h1: "e = ?n" "h1 = add_edge_face ?n f ?h" using assms(1) None ab by (auto simp: ConstructNewEdge_def)
    have new: "\<forall>i < ?n. ends_of h i \<noteq> {a, b}"
      using find_edge_None [OF None [unfolded FindEdge_def]] by (auto simp: ends_of_def)
    have "edges_ok ?h"
      using assms(2) ab new linked_new_edge [OF _ ab] by (auto simp: edges_ok_def add_new_edge_simps lessThan_Suc inj_on_def)
    then show ?thesis
      using linked_add_edge_face [of ?h ?n f] by (auto simp: h1 add_edge_face_simps add_new_edge_simps edges_ok_def)
  next
    case (Some k)
    from find_edge_Some [OF Some [unfolded FindEdge_def]] have k: "k < length (m_Edges h)" "ends_of h k = {a, b}"
      by (auto simp: ends_of_def)
    have "e = k" "h1 = add_edge_face k f h" using assms(1) Some ab by (auto simp: ConstructNewEdge_def)
    with k assms(2) linked_add_edge_face [of h k f] show ?thesis by (auto simp: add_edge_face_simps edges_ok_def)
  qed
qed

lemma face_edges_spec:
  assumes "face_edges f p0 ps h = Inr (es, h1)" and "edges_ok h"
  shows "edges_ok h1 \<and> set es \<subseteq> {..<length (m_Edges h1)}
    \<and> map (ends_of h1) es = map (\<lambda>(a, b). {a, b}) (zip (p0 # ps) ps)
    \<and> (\<forall>i. faces_of h1 i = faces_of h i \<union> (if i \<in> set es then {f} else {}))
    \<and> (\<forall>i < length (m_Edges h). ends_of h1 i = ends_of h i) \<and> length (m_Edges h) \<le> length (m_Edges h1)
    \<and> m_Faces h1 = m_Faces h \<and> map hv_faces (m_Vertices h1) = map hv_faces (m_Vertices h)
    \<and> map hv_pos (m_Vertices h1) = map hv_pos (m_Vertices h) \<and> length (m_Vertices h1) = length (m_Vertices h)"
  using assms
proof (induction ps arbitrary: p0 h es)
  case (Cons p1 ps)
  obtain e h2 es2 where s: "ConstructNewEdge f p0 p1 h = Inr (e, h2)" "face_edges f p1 ps h2 = Inr (es2, h1)" "es = e # es2"
    using Cons.prems(1) by (auto simp: rbind_eq_Inr)
  note c = ConstructNewEdge_spec [OF s(1) Cons.prems(2)]
  note r = Cons.IH [OF s(2) conjunct1 [OF c]]
  have e: "e < length (m_Edges h2)" "ends_of h2 e = {p0, p1}" using c by auto
  have "ends_of h1 e = {p0, p1}" using r e by simp
  then show ?case using c r e by (simp add: s(3))
qed simp

lemma add_to_vertex_simps:
  "m_Edges (add_to_vertex f v h) = m_Edges h" "m_Faces (add_to_vertex f v h) = m_Faces h"
  "map hv_pos (m_Vertices (add_to_vertex f v h)) = map hv_pos (m_Vertices h)"
  "map hv_edges (m_Vertices (add_to_vertex f v h)) = map hv_edges (m_Vertices h)"
  "length (m_Vertices (add_to_vertex f v h)) = length (m_Vertices h)"
  "u < length (m_Vertices h) \<Longrightarrow> set (hv_faces (m_Vertices (add_to_vertex f v h) ! u))
     = set (hv_faces (m_Vertices h ! u)) \<union> (if u = v then {f} else {})"
  by (auto simp: add_to_vertex_def Let_def map_update_same nth_list_update)

lemma update_vertices_spec:
  assumes "set es \<subseteq> {..<length (m_Edges h)}"
  shows "m_Edges (update_vertices f es h) = m_Edges h \<and> m_Faces (update_vertices f es h) = m_Faces h
    \<and> map hv_pos (m_Vertices (update_vertices f es h)) = map hv_pos (m_Vertices h)
    \<and> map hv_edges (m_Vertices (update_vertices f es h)) = map hv_edges (m_Vertices h)
    \<and> length (m_Vertices (update_vertices f es h)) = length (m_Vertices h)
    \<and> (\<forall>v < length (m_Vertices h). set (hv_faces (m_Vertices (update_vertices f es h) ! v))
         = set (hv_faces (m_Vertices h ! v)) \<union> (if \<exists>e \<in> set es. v \<in> ends_of h e then {f} else {}))"
  using assms
proof (induction es arbitrary: h)
  case Nil
  then show ?case by (simp add: update_vertices_def)
next
  case (Cons e es)
  define h1 where "h1 = add_to_vertex f (vEnd (m_Edges h ! e)) (add_to_vertex f (vStart (m_Edges h ! e)) h)"
  have u: "update_vertices f (e # es) h = update_vertices f es h1" by (simp add: update_vertices_def h1_def Let_def)
  have h1: "m_Edges h1 = m_Edges h" "m_Faces h1 = m_Faces h" "map hv_pos (m_Vertices h1) = map hv_pos (m_Vertices h)"
    "map hv_edges (m_Vertices h1) = map hv_edges (m_Vertices h)"
    "length (m_Vertices h1) = length (m_Vertices h)" by (simp_all add: h1_def add_to_vertex_simps)
  have en: "ends_of h1 = ends_of h" by (simp add: ends_of_def h1 fun_eq_iff)
  have vf: "set (hv_faces (m_Vertices h1 ! v)) = set (hv_faces (m_Vertices h ! v)) \<union> (if v \<in> ends_of h e then {f} else {})"
    if "v < length (m_Vertices h)" for v
    using that Cons.prems by (auto simp: h1_def add_to_vertex_simps ends_of_def)
  have "set es \<subseteq> {..<length (m_Edges h1)}" using Cons.prems h1 by simp
  from Cons.IH [OF this] show ?case by (auto simp: u h1 en vf)
qed

text \<open>A new face is joined to the hull as the code's cross references promise.\<close>

lemma add_face_edges:
  assumes "add_face n vs h = Inr h1" and "hull_ok h"
  obtains es h2 where "edges_ok h2" "set es \<subseteq> {..<length (m_Edges h2)}" "m_Edges h1 = m_Edges h2"
    "\<forall>i. faces_of h2 i = faces_of h i \<union> (if i \<in> set es then {length (m_Faces h)} else {})"
    "\<forall>i < length (m_Edges h). ends_of h2 i = ends_of h i" "length (m_Edges h) \<le> length (m_Edges h2)"
    "m_Faces h2 = m_Faces h" "map hv_faces (m_Vertices h2) = map hv_faces (m_Vertices h)"
    "map hv_pos (m_Vertices h2) = map hv_pos (m_Vertices h)"
    "map (ends_of h2) es = map (\<lambda>(a, b). {a, b}) (zip (last vs # vs) vs)"
    "h1 = update_vertices (length (m_Faces h)) es (h2\<lparr>m_Faces :=
       map (\<lambda>c. if shares_edge es c then c\<lparr>hf_adjoining := hf_adjoining c @ [length (m_Faces h)]\<rparr> else c) (m_Faces h) @
       [\<lparr>hf_normal = n, hf_verts = vs, hf_edges = es,
         hf_adjoining = filter (\<lambda>i. shares_edge es (m_Faces h ! i)) [0..<length (m_Faces h)]\<rparr>]\<rparr>)"
proof -
  obtain es h2 where s: "(if vs = [] then ok ([], h) else face_edges (length (m_Faces h)) (last vs) vs h) = Inr (es, h2)"
    "h1 = (let adjacent = filter (\<lambda>i. shares_edge es (m_Faces h2 ! i)) [0..<length (m_Faces h)];
         fs = map (\<lambda>c. if shares_edge es c then c\<lparr>hf_adjoining := hf_adjoining c @ [length (m_Faces h)]\<rparr> else c) (m_Faces h2);
         new_face = \<lparr>hf_normal = n, hf_verts = vs, hf_edges = es, hf_adjoining = adjacent\<rparr>
       in update_vertices (length (m_Faces h)) es (h2\<lparr>m_Faces := fs @ [new_face]\<rparr>))"
    using assms(1) by (auto simp: add_face_def Let_def rbind_eq_Inr)
  have "face_edges (length (m_Faces h)) (last vs) vs h = Inr (es, h2)" using s(1) by (cases vs) auto
  note r = face_edges_spec [OF this] 
  have "edges_ok h" using assms(2) by (simp add: hull_ok_def)
  note r = r [OF this]
  have "m_Edges h1 = m_Edges h2"
    using r update_vertices_spec [of es "h2\<lparr>m_Faces := _\<rparr>"] by (simp add: s(2) Let_def)
  with r s(2) that [of h2 es] show thesis by (simp add: Let_def)
qed

lemma of_faces_update [simp]: "ends_of (h\<lparr>m_Faces := fs\<rparr>) = ends_of h" "faces_of (h\<lparr>m_Faces := fs\<rparr>) = faces_of h"
  by (simp_all add: ends_of_def faces_of_def fun_eq_iff)

lemma shares_edge_iff: "shares_edge es c \<longleftrightarrow> set (hf_edges c) \<inter> set es \<noteq> {}"
  by (auto simp: shares_edge_def list_ex_iff)

lemma add_face_ok:
  assumes "add_face n vs h = Inr h1" and "hull_ok h"
  shows "hull_ok h1 \<and> map hv_pos (m_Vertices h1) = map hv_pos (m_Vertices h) \<and> length (m_Faces h1) = Suc (length (m_Faces h))
    \<and> hf_normal (last (m_Faces h1)) = n \<and> hf_verts (last (m_Faces h1)) = vs
    \<and> map (ends_of h1) (hf_edges (last (m_Faces h1))) = map (\<lambda>(a, b). {a, b}) (zip (last vs # vs) vs)"
proof -
  let ?F = "length (m_Faces h)"
  obtain es h2 where a: "edges_ok h2" "set es \<subseteq> {..<length (m_Edges h2)}" "m_Edges h1 = m_Edges h2"
    "\<forall>i. faces_of h2 i = faces_of h i \<union> (if i \<in> set es then {?F} else {})"
    "\<forall>i < length (m_Edges h). ends_of h2 i = ends_of h i" "length (m_Edges h) \<le> length (m_Edges h2)"
    "m_Faces h2 = m_Faces h" "map hv_faces (m_Vertices h2) = map hv_faces (m_Vertices h)"
    "map hv_pos (m_Vertices h2) = map hv_pos (m_Vertices h)"
    "map (ends_of h2) es = map (\<lambda>(a, b). {a, b}) (zip (last vs # vs) vs)"
    and h1: "h1 = update_vertices ?F es (h2\<lparr>m_Faces :=
       map (\<lambda>c. if shares_edge es c then c\<lparr>hf_adjoining := hf_adjoining c @ [?F]\<rparr> else c) (m_Faces h) @
       [\<lparr>hf_normal = n, hf_verts = vs, hf_edges = es, hf_adjoining = filter (\<lambda>i. shares_edge es (m_Faces h ! i)) [0..<?F]\<rparr>]\<rparr>)"
    using assms by (rule add_face_edges)
  note ok = assms(2) [unfolded hull_ok_def]
  note ok2 = ok [THEN conjunct2, THEN conjunct1] and ok3 = ok [THEN conjunct2, THEN conjunct2, THEN conjunct1]
    and ok4 = ok [THEN conjunct2, THEN conjunct2, THEN conjunct2, THEN conjunct1]
    and ok5 = ok [THEN conjunct2, THEN conjunct2, THEN conjunct2, THEN conjunct2]
  define old where "old = (\<lambda>c :: 'a hull_face. if shares_edge es c then c\<lparr>hf_adjoining := hf_adjoining c @ [?F]\<rparr> else c)"
  define new where "new = \<lparr>hf_normal = n, hf_verts = vs, hf_edges = es,
    hf_adjoining = filter (\<lambda>i. shares_edge es (m_Faces h ! i)) [0..<?F]\<rparr>"
  have old: "hf_edges (old c) = hf_edges c" "hf_adjoining (old c) = hf_adjoining c @ (if shares_edge es c then [?F] else [])" for c
    by (simp_all add: old_def)
  have h1: "h1 = update_vertices ?F es (h2\<lparr>m_Faces := map old (m_Faces h) @ [new]\<rparr>)"
    using h1 unfolding old_def new_def .
  have "set es \<subseteq> {..<length (m_Edges (h2\<lparr>m_Faces := map old (m_Faces h) @ [new]\<rparr>))}" using a(2) by simp
  note upd = update_vertices_spec [OF this, of ?F, folded h1]
  have u: "m_Faces h1 = map old (m_Faces h) @ [new]" "map hv_pos (m_Vertices h1) = map hv_pos (m_Vertices h)"
    "length (m_Vertices h1) = length (m_Vertices h2)"
    using upd a(9) by simp_all
  have u4: "set (hv_faces (m_Vertices h1 ! v)) = set (hv_faces (m_Vertices h2 ! v)) \<union> (if \<exists>e \<in> set es. v \<in> ends_of h2 e then {?F} else {})"
    if "v < length (m_Vertices h2)" for v
    using upd that by simp
  have same: "ends_of h1 = ends_of h2" "faces_of h1 = faces_of h2" by (simp_all add: ends_of_def faces_of_def a(3) fun_eq_iff)
  have len: "length (m_Vertices h2) = length (m_Vertices h)" using a(9) map_eq_imp_length_eq by blast
  have edges: "hf_edges (m_Faces h1 ! f) = (if f = ?F then es else hf_edges (m_Faces h ! f))" if "f < Suc ?F" for f
    using that by (auto simp: u(1) nth_append old new_def)
  have lenF: "length (m_Faces h1) = Suc ?F" by (simp add: u(1))
  have lst: "last (m_Faces h1) = new" by (simp add: u(1))
  have inr: "e < length (m_Edges h)" if "f < ?F" "e \<in> set (hf_edges (m_Faces h ! f))" for e f
    using ok2 that by blast
  have "linked h1" by (rule linked_cong [of h1 h2]) (use upd a(1,3) in \<open>simp_all add: edges_ok_def\<close>)
  then have c1: "edges_ok h1" using a(1) by (simp add: edges_ok_def a(3) u(3) same)
  have c2: "\<forall>f < length (m_Faces h1). set (hf_edges (m_Faces h1 ! f)) \<subseteq> {..<length (m_Edges h1)}"
    using inr a(2,6) by (auto simp: edges lenF less_Suc_eq a(3) dest: order_less_le_trans)
  have c3: "faces_of h1 e = {f. f < length (m_Faces h1) \<and> e \<in> set (hf_edges (m_Faces h1 ! f))}" for e
  proof -
    have "faces_of h e = {f. f < ?F \<and> e \<in> set (hf_edges (m_Faces h ! f))}" using ok3 by blast
    then show ?thesis using a(4) by (auto simp: same edges lenF less_Suc_eq)
  qed
  have c4: "set (hv_faces (m_Vertices h1 ! v))
      = {f. f < length (m_Faces h1) \<and> (\<exists>e \<in> set (hf_edges (m_Faces h1 ! f)). v \<in> ends_of h1 e)}"
    if v: "v < length (m_Vertices h1)" for v
  proof -
    have "hv_faces (m_Vertices h2 ! v) = hv_faces (m_Vertices h ! v)"
      using a(8) v len by (metis u(3) nth_map)
    moreover have "set (hv_faces (m_Vertices h ! v)) = {f. f < ?F \<and> (\<exists>e \<in> set (hf_edges (m_Faces h ! f)). v \<in> ends_of h e)}"
      using ok4 v len u(3) by simp
    moreover have "\<dots> = {f. f < ?F \<and> (\<exists>e \<in> set (hf_edges (m_Faces h ! f)). v \<in> ends_of h2 e)}"
      using a(5) inr by blast
    ultimately show ?thesis using u4 [of v] v by (auto simp: lenF u(3) edges same less_Suc_eq)
  qed
  have c5: "set (hf_adjoining (m_Faces h1 ! f))
      = {g. g < length (m_Faces h1) \<and> g \<noteq> f \<and> set (hf_edges (m_Faces h1 ! f)) \<inter> set (hf_edges (m_Faces h1 ! g)) \<noteq> {}}"
    if f: "f < length (m_Faces h1)" for f
  proof (cases "f = ?F")
    case True
    have "m_Faces h1 ! ?F = new" by (simp add: u(1) nth_append)
    then have "set (hf_adjoining (m_Faces h1 ! f)) = {g. g < ?F \<and> set (hf_edges (m_Faces h ! g)) \<inter> set es \<noteq> {}}"
      unfolding True by (auto simp: new_def shares_edge_iff)
    then show ?thesis unfolding True lenF by (auto simp: edges less_Suc_eq)
  next
    case False
    with f have f': "f < ?F" by (simp add: u(1))
    then have "set (hf_adjoining (m_Faces h ! f))
        = {g. g < ?F \<and> g \<noteq> f \<and> set (hf_edges (m_Faces h ! f)) \<inter> set (hf_edges (m_Faces h ! g)) \<noteq> {}}"
      using ok5 by blast
    moreover have "set (hf_adjoining (m_Faces h1 ! f)) = set (hf_adjoining (m_Faces h ! f)) \<union> (if shares_edge es (m_Faces h ! f) then {?F} else {})"
      using f' by (auto simp: u(1) nth_append old)
    ultimately have a1: "set (hf_adjoining (m_Faces h1 ! f))
        = {g. g < ?F \<and> g \<noteq> f \<and> set (hf_edges (m_Faces h ! f)) \<inter> set (hf_edges (m_Faces h ! g)) \<noteq> {}}
          \<union> (if set (hf_edges (m_Faces h ! f)) \<inter> set es \<noteq> {} then {?F} else {})"
      by (simp only: shares_edge_iff)
    have "hf_edges (m_Faces h1 ! f) = hf_edges (m_Faces h ! f)" "hf_edges (m_Faces h1 ! ?F) = es"
      "\<And>g. g < ?F \<Longrightarrow> hf_edges (m_Faces h1 ! g) = hf_edges (m_Faces h ! g)"
      using f' by (simp_all add: edges)
    then show ?thesis unfolding a1 lenF using f' False by (auto simp: less_Suc_eq)
  qed
  show ?thesis
    unfolding hull_ok_def using c1 c2 c3 c4 c5 u(2) a(10) by (simp add: same lenF lst new_def)
qed

section \<open>The extreme vertices\<close>

definition extreme_inv :: "'f :: linordered_field vec3 \<Rightarrow> 'f hull_vertex list \<Rightarrow> nat \<Rightarrow> (nat \<times> 'f) option \<Rightarrow> (nat \<times> 'f) option \<Rightarrow> bool" where
  "extreme_inv axis vs n lo hi \<longleftrightarrow>
    (case lo of None \<Rightarrow> n = 0 | Some (i, c) \<Rightarrow> i < n \<and> c = DotProduct axis (hv_pos (vs ! i)) \<and> (\<forall>j < n. c \<le> DotProduct axis (hv_pos (vs ! j))))
  \<and> (case hi of None \<Rightarrow> n = 0 | Some (i, c) \<Rightarrow> i < n \<and> c = DotProduct axis (hv_pos (vs ! i)) \<and> (\<forall>j < n. DotProduct axis (hv_pos (vs ! j)) \<le> c))"

lemma extreme_fold:
  "n + length xs = length vs \<Longrightarrow> drop n vs = xs \<Longrightarrow> extreme_inv axis vs n lo hi \<Longrightarrow>
    (case fold (extreme_step axis) xs (n, lo, hi) of (_, lo', hi') \<Rightarrow> extreme_inv axis vs (length vs) lo' hi')"
proof (induction xs arbitrary: n lo hi)
  case Nil
  then show ?case by simp
next
  case (Cons v xs)
  have v: "vs ! n = v" "drop (Suc n) vs = xs"
    using Cons.prems(1,2) by (metis add_lessD1 hd_drop_conv_nth length_Cons less_add_same_cancel1 list.sel(1) zero_less_Suc,
      metis drop_Suc list.sel(3) tl_drop)
  obtain lo1 hi1 where st: "extreme_step axis v (n, lo, hi) = (Suc n, lo1, hi1)" by (simp add: extreme_step_def Let_def)
  have "extreme_inv axis vs (Suc n) lo1 hi1"
    using Cons.prems(3) st v(1) unfolding extreme_inv_def extreme_step_def Let_def
    by (auto simp: less_Suc_eq split: option.splits if_splits prod.splits intro: order_trans less_imp_le)
  from Cons.IH [OF _ v(2) this] Cons.prems(1) show ?case by (simp add: st)
qed

lemma GetMinMax_extreme:
  assumes "GetMinMaxVerticesInAxis axis h = (lo, hi)" and "i < length (m_Vertices h)"
  shows "lo < length (m_Vertices h) \<and> hi < length (m_Vertices h)
    \<and> DotProduct axis (hv_pos (m_Vertices h ! lo)) \<le> DotProduct axis (hv_pos (m_Vertices h ! i))
    \<and> DotProduct axis (hv_pos (m_Vertices h ! i)) \<le> DotProduct axis (hv_pos (m_Vertices h ! hi))"
proof -
  have "extreme_inv axis (m_Vertices h) 0 None None" by (simp add: extreme_inv_def)
  with extreme_fold [of 0 "m_Vertices h" "m_Vertices h" axis None None] assms show ?thesis
    by (auto simp: GetMinMaxVerticesInAxis_def extreme_inv_def split: prod.splits option.splits)
qed

section \<open>The hulls are closed surfaces\<close>

lemma add_vertices_ok: "m_Faces h = [] \<Longrightarrow> m_Edges h = [] \<Longrightarrow> list_all (\<lambda>v. hv_faces v = [] \<and> hv_edges v = []) (m_Vertices h) \<Longrightarrow> hull_ok (add_vertices vs h)"
proof (induction vs arbitrary: h)
  case Nil
  then show ?case by (auto simp: hull_ok_def edges_ok_def linked_def faces_of_def ends_of_def list_all_length)
next
  case (Cons v vs)
  have "list_all (\<lambda>v. hv_faces v = [] \<and> hv_edges v = []) (m_Vertices (AddVertex v h))" using Cons.prems(3) by (simp add: AddVertex_def)
  moreover have "m_Faces (AddVertex v h) = []" "m_Edges (AddVertex v h) = []" using Cons.prems by (simp_all add: AddVertex_def)
  ultimately show ?case using Cons.IH by simp
qed

lemma add_faces_ok: "add_faces fs h = Inr h1 \<Longrightarrow> hull_ok h \<Longrightarrow> hull_ok h1"
proof (induction fs arbitrary: h)
  case (Cons x fs)
  obtain n vs where x: "x = (n, vs)" by (cases x)
  obtain h2 where "add_face n vs h = Inr h2" "add_faces fs h2 = Inr h1" using Cons.prems(1) by (auto simp: x rbind_eq_Inr)
  with Cons.IH add_face_ok Cons.prems(2) show ?case by blast
qed simp

text \<open>Faces whose corners are known vertices are always added.\<close>

lemma face_edges_total:
  "p0 < length (m_Vertices h) \<Longrightarrow> \<forall>v \<in> set ps. v < length (m_Vertices h) \<Longrightarrow> edges_ok h \<Longrightarrow> \<exists>es h1. face_edges f p0 ps h = Inr (es, h1)"
proof (induction ps arbitrary: p0 h)
  case (Cons p1 ps)
  have "\<exists>e h2. ConstructNewEdge f p0 p1 h = Inr (e, h2)"
    using Cons.prems(1,2) by (auto simp: ConstructNewEdge_def split: option.splits)
  then obtain e h2 where c: "ConstructNewEdge f p0 p1 h = Inr (e, h2)" by blast
  note s = ConstructNewEdge_spec [OF c Cons.prems(3)]
  have "p1 < length (m_Vertices h2)" "\<forall>v \<in> set ps. v < length (m_Vertices h2)" "edges_ok h2"
    using s Cons.prems(2) by auto
  from Cons.IH [OF this] c show ?case by auto
qed simp

text \<open>The edges with their faces, as the faces alone determine them.\<close>

type_synonym edge_table = "(nat \<times> nat \<times> nat list) list"

fun put_edge :: "nat \<Rightarrow> nat \<Rightarrow> nat \<Rightarrow> edge_table \<Rightarrow> edge_table" where
  "put_edge f a b [] = [(a, b, [f])]"
| "put_edge f a b ((x, y, fs) # es) =
    (if x = a \<and> y = b \<or> x = b \<and> y = a then (x, y, fs @ [f]) # es else (x, y, fs) # put_edge f a b es)"

fun put_face :: "nat \<Rightarrow> nat \<Rightarrow> nat list \<Rightarrow> edge_table \<Rightarrow> edge_table" where
  "put_face f p0 [] es = es"
| "put_face f p0 (p1 # ps) es = put_face f p1 ps (put_edge f p0 p1 es)"

fun put_faces :: "nat \<Rightarrow> nat list list \<Rightarrow> edge_table \<Rightarrow> edge_table" where
  "put_faces f [] es = es"
| "put_faces f (vs # fs) es = put_faces (Suc f) fs (put_face f (last vs) vs es)"

definition table_of :: "'f hull3 \<Rightarrow> edge_table" where
  "table_of h = map (\<lambda>e. (vStart e, vEnd e, he_faces e)) (m_Edges h)"

lemma put_edge_find:
  "put_edge f a b (map (\<lambda>e. (vStart e, vEnd e, he_faces e)) es) = (case find_edge es i a b of
      None \<Rightarrow> map (\<lambda>e. (vStart e, vEnd e, he_faces e)) es @ [(a, b, [f])]
    | Some k \<Rightarrow> (map (\<lambda>e. (vStart e, vEnd e, he_faces e)) es)[k - i := (vStart (es ! (k - i)), vEnd (es ! (k - i)), he_faces (es ! (k - i)) @ [f])])"
proof (induction es arbitrary: i)
  case (Cons e es)
  show ?case
  proof (cases "vStart e = a \<and> vEnd e = b \<or> vStart e = b \<and> vEnd e = a")
    case False
    show ?thesis
    proof (cases "find_edge es (Suc i) a b")
      case None
      with False Cons.IH [of "Suc i"] show ?thesis by simp
    next
      case (Some k)
      with find_edge_Some [OF Some] have "k - i = Suc (k - Suc i)" by auto
      with False Some Cons.IH [of "Suc i"] show ?thesis by simp
    qed
  qed simp
qed simp

lemma table_ConstructNewEdge:
  assumes "ConstructNewEdge f a b h = Inr (e, h1)"
  shows "table_of h1 = put_edge f a b (table_of h)"
proof (cases "FindEdge h a b")
  case None
  then have "h1 = add_edge_face (length (m_Edges h)) f (add_new_edge a b h)"
    using assms by (auto simp: ConstructNewEdge_def split: if_splits)
  then have "table_of h1 = table_of h @ [(a, b, [f])]"
    by (simp add: table_of_def add_edge_face_def add_new_edge_def Let_def list_update_append nth_append o_def if_distrib cong: if_cong)
  then show ?thesis using put_edge_find [of f a b "m_Edges h" 0] None by (simp add: FindEdge_def table_of_def)
next
  case (Some k)
  then have "h1 = add_edge_face k f h" using assms by (auto simp: ConstructNewEdge_def split: if_splits)
  then show ?thesis using put_edge_find [of f a b "m_Edges h" 0] Some by (simp add: FindEdge_def table_of_def add_edge_face_def map_update)
qed

lemma table_face_edges: "face_edges f p0 ps h = Inr (es, h1) \<Longrightarrow> table_of h1 = put_face f p0 ps (table_of h)"
proof (induction ps arbitrary: p0 h es)
  case (Cons p1 ps)
  then obtain e h2 es2 where "ConstructNewEdge f p0 p1 h = Inr (e, h2)" "face_edges f p1 ps h2 = Inr (es2, h1)"
    by (auto simp: rbind_eq_Inr)
  with Cons.IH table_ConstructNewEdge show ?case by fastforce
qed simp

lemma add_face_total:
  assumes "hull_ok h" and "\<forall>v \<in> set vs. v < length (m_Vertices h)" and "vs \<noteq> []"
  shows "\<exists>h1. add_face n vs h = Inr h1 \<and> table_of h1 = put_face (length (m_Faces h)) (last vs) vs (table_of h)"
proof -
  have "edges_ok h" using assms(1) by (simp add: hull_ok_def)
  with face_edges_total [of "last vs" h vs "length (m_Faces h)"] assms(2,3)
  obtain es h2 where f: "face_edges (length (m_Faces h)) (last vs) vs h = Inr (es, h2)" by auto
  note sp = face_edges_spec [OF f \<open>edges_ok h\<close>]
  then have "set es \<subseteq> {..<length (m_Edges (h2\<lparr>m_Faces := x\<rparr>))}" for x by simp
  from update_vertices_spec [OF this] have "m_Edges (update_vertices k es (h2\<lparr>m_Faces := x\<rparr>)) = m_Edges h2" for k x by simp
  with f assms(3) table_face_edges [OF f] show ?thesis by (simp add: add_face_def Let_def table_of_def)
qed

lemma add_faces_total:
  "hull_ok h \<Longrightarrow> \<forall>(n, vs) \<in> set fs. vs \<noteq> [] \<and> (\<forall>v \<in> set vs. v < length (m_Vertices h)) \<Longrightarrow>
    \<exists>h1. add_faces fs h = Inr h1 \<and> hull_ok h1 \<and> map hv_pos (m_Vertices h1) = map hv_pos (m_Vertices h)
      \<and> length (m_Faces h1) = length (m_Faces h) + length fs
      \<and> table_of h1 = put_faces (length (m_Faces h)) (map snd fs) (table_of h)"
proof (induction fs arbitrary: h)
  case (Cons x fs)
  obtain n vs where x: "x = (n, vs)" by (cases x)
  have "\<forall>v \<in> set vs. v < length (m_Vertices h)" "vs \<noteq> []" using Cons.prems(2) by (auto simp: x)
  from add_face_total [OF Cons.prems(1) this, of n]
  obtain h2 where h2: "add_face n vs h = Inr h2" "table_of h2 = put_face (length (m_Faces h)) (last vs) vs (table_of h)" by blast
  note ok = add_face_ok [OF h2(1) Cons.prems(1)]
  have len: "length (m_Vertices h2) = length (m_Vertices h)" using ok by (metis length_map)
  have "\<forall>(n, vs) \<in> set fs. vs \<noteq> [] \<and> (\<forall>v \<in> set vs. v < length (m_Vertices h2))" using Cons.prems(2) by (auto simp: len)
  with Cons.IH [of h2] ok h2 show ?case by (auto simp: x)
qed simp

text \<open>Every edge lies on two faces, and Euler's formula holds.\<close>

definition closed_surface :: "'f hull3 \<Rightarrow> bool" where
  "closed_surface h \<longleftrightarrow> (\<forall>e < length (m_Edges h). card (faces_of h e) = 2)
     \<and> length (m_Vertices h) + length (m_Faces h) = length (m_Edges h) + 2"

definition two_faces :: "edge_table \<Rightarrow> bool" where
  "two_faces t \<longleftrightarrow> list_all (\<lambda>(_, _, fs). distinct fs \<and> length fs = 2) t"

lemma two_faces_card: "two_faces (table_of h) \<Longrightarrow> e < length (m_Edges h) \<Longrightarrow> card (faces_of h e) = 2"
  by (auto simp: two_faces_def table_of_def list_all_length faces_of_def distinct_card)

lemma cube_table:
  "let t = put_faces 0 [[0, 1, 2, 3], [7, 6, 5, 4], [5, 6, 2, 1], [0, 3, 7, 4], [6, 7, 3, 2], [4, 5, 1, 0]] []
   in two_faces t \<and> length t = 12"
  by code_simp

lemma pyramid_table:
  "let t = put_faces 0 [[0, 4, 3], [1, 4, 0], [2, 4, 1], [3, 4, 2], [0, 3, 2, 1]] [] in two_faces t \<and> length t = 8"
  by code_simp

lemma add_vertices_simps: "length (m_Vertices (add_vertices vs h)) = length (m_Vertices h) + length vs"
  "m_Faces (add_vertices vs h) = m_Faces h" "m_Edges (add_vertices vs h) = m_Edges h"
  by (induction vs arbitrary: h) (simp_all add: AddVertex_def)

lemma closed_hull:
  assumes "\<forall>(n, vs) \<in> set fs. vs \<noteq> [] \<and> (\<forall>v \<in> set vs. v < length ps)" and "put_faces 0 (map snd fs) [] = t"
    and "two_faces t" and "length ps + length fs = length t + 2"
  shows "\<exists>h. add_faces fs (add_vertices ps empty_hull) = Inr h \<and> hull_ok h \<and> closed_surface h"
proof -
  let ?h = "add_vertices ps empty_hull"
  have "hull_ok ?h" by (rule add_vertices_ok) (simp_all add: empty_hull_def)
  moreover have "\<forall>(n, vs) \<in> set fs. vs \<noteq> [] \<and> (\<forall>v \<in> set vs. v < length (m_Vertices ?h))"
    using assms(1) by (simp add: add_vertices_simps empty_hull_def)
  ultimately obtain h where h: "add_faces fs ?h = Inr h" "hull_ok h" "map hv_pos (m_Vertices h) = map hv_pos (m_Vertices ?h)"
    "length (m_Faces h) = length fs" "table_of h = t"
    using add_faces_total [of ?h fs] assms(2) by (auto simp: add_vertices_simps empty_hull_def table_of_def)
  have "length (m_Vertices h) = length ps" using h(3) by (metis add_vertices_simps(1) add_0 empty_hull_def length_map list.size(3) select_convs(1))
  moreover have "length (m_Edges h) = length t" using h(5) by (simp add: table_of_def flip: h(5))
  ultimately have "closed_surface h" using two_faces_card [of h] h(4,5) assms(3,4) by (simp add: closed_surface_def)
  with h show ?thesis by blast
qed

text \<open>Property C38. Adding a face to a hull keeps its cross references consistent (no two edges join the same vertices; a vertex lists
  exactly the edges it ends and the faces of these edges, an edge exactly the edges it meets and the faces it bounds, a face exactly
  the faces it shares an edge with) and the edges of the new face join its corners in order; the
  hulls of the cube and of the pyramid are built without a fault and are closed surfaces: each edge lies on
  exactly two faces and Euler's formula holds.\<close>

theorem hulls_wellformed:
  "(\<forall>n vs h h1. hull_ok h \<longrightarrow> AddFace n vs h = Inr h1 \<longrightarrow> hull_ok h1
      \<and> map (ends_of h1) (hf_edges (last (m_Faces h1))) = map (\<lambda>(a, b). {a, b}) (zip (last vs # vs) vs))
    \<and> (\<exists>h. ConstructCubeHull = Inr h \<and> hull_ok h \<and> closed_surface h)
    \<and> (\<exists>h. ConstructPyramidHull = Inr h \<and> hull_ok h \<and> closed_surface h)"
proof (intro conjI allI impI)
  fix n vs and h h1 :: "real hull3"
  assume "hull_ok h" "AddFace n vs h = Inr h1"
  then show "hull_ok h1" "map (ends_of h1) (hf_edges (last (m_Faces h1))) = map (\<lambda>(a, b). {a, b}) (zip (last vs # vs) vs)"
    using add_face_ok by (auto simp: AddFace_def)
next
  show "\<exists>h. ConstructCubeHull = Inr h \<and> hull_ok h \<and> closed_surface h"
    unfolding ConstructCubeHull_def using cube_table by (intro closed_hull) (auto simp: Let_def)
  show "\<exists>h. ConstructPyramidHull = Inr h \<and> hull_ok h \<and> closed_surface h"
    unfolding ConstructPyramidHull_def Let_def using pyramid_table by (intro closed_hull) (auto simp: Let_def)
qed

theorem hulls_wellformed_witness:
  "\<exists>h1. AddFace (Vec3 0 0 1) [0, 1, 2] (add_vertices [Vec3 0 0 0, Vec3 1 0 0, Vec3 0 1 0] empty_hull) = Inr h1 \<and> hull_ok h1"
proof -
  define ps where "ps = [Vec3 0 0 0, Vec3 1 0 0, Vec3 0 1 0 :: real vec3]"
  define h where "h = add_vertices ps empty_hull"
  have h: "hull_ok h" unfolding h_def by (rule add_vertices_ok) (simp_all add: empty_hull_def)
  have "\<forall>v \<in> set [0, 1, 2]. v < length (m_Vertices h)" by (simp add: h_def ps_def [symmetric] add_vertices_simps empty_hull_def) (simp add: ps_def)
  from add_face_total [OF h this] obtain h1 where "AddFace (Vec3 0 0 1) [0, 1, 2] h = Inr h1"
    by (auto simp: AddFace_def)
  with hulls_wellformed h show ?thesis unfolding h_def ps_def by blast
qed

end
