(* ===== verification/Shapes.thy ===== *)
theory Shapes
  imports Hulls Quaternions
begin

text \<open>
  Planes (\<open>Maths/Plane.h\<close>) and the collision shapes of \<open>Physics/LumosPhysicsEngine\<close>: cuboid, sphere,
  pyramid, capsule and hull, as one record with the fields of each class. The place of a body is its
  world transform; \<open>None\<close> stands for the null body that \<open>AutoResizeBoundingBox\<close> passes. Using the
  hull of a hull shape that has none is a fault.
\<close>

section \<open>Planes\<close>

record plane =
  plane_normal :: "real vec3"
  plane_absNormal :: "real vec3"
  plane_d :: real

definition Plane_of :: "real vec3 \<Rightarrow> real \<Rightarrow> plane" where
  "Plane_of normal distance =
    (let n = Normalized normal in \<lparr>plane_normal = n, plane_absNormal = vec_Abs n, plane_d = distance\<rparr>)"

definition Plane_point :: "real vec3 \<Rightarrow> real vec3 \<Rightarrow> plane" where
  "Plane_point normal point =
    (let n = Normalized normal in \<lparr>plane_normal = n, plane_absNormal = vec_Abs n, plane_d = - DotProduct n point\<rparr>)"

definition Plane_vertices :: "real vec3 \<Rightarrow> real vec3 \<Rightarrow> real vec3 \<Rightarrow> plane" where
  "Plane_vertices v0 v1 v2 = Plane_point (CrossProduct (vec_sub v1 v0) (vec_sub v2 v0)) v0"

definition plane_Distance :: "plane \<Rightarrow> real vec3 \<Rightarrow> real" where
  "plane_Distance p point = DotProduct (plane_normal p) point + plane_d p"

definition plane_Project :: "plane \<Rightarrow> real vec3 \<Rightarrow> real vec3" where
  "plane_Project p point = vec_sub point (vec_scale (plane_normal p) (DotProduct (plane_normal p) point + plane_d p))"

definition plane_Reflect :: "plane \<Rightarrow> real vec3 \<Rightarrow> real vec3" where
  "plane_Reflect p direction = vec_sub direction (vec_scale (plane_normal p) (2 * DotProduct (plane_normal p) direction))"

definition PointInPlane :: "plane \<Rightarrow> real vec3 \<Rightarrow> bool" where
  "PointInPlane p position \<longleftrightarrow> DotProduct position (plane_normal p) + plane_Distance p (Vec3 0 0 0) \<ge> - (1 / 10000)"

lemma PointInPlane_distance: "PointInPlane p v \<longleftrightarrow> plane_Distance p v \<ge> - (1 / 10000)"
  by (simp add: PointInPlane_def plane_Distance_def DotProduct_def algebra_simps)

lemma plane_Project_on: "LengthSquared (plane_normal p) = 1 \<Longrightarrow> plane_Distance p (plane_Project p v) = 0"
proof -
  have "DotProduct n (vec_sub v (vec_scale n k)) = DotProduct n v - k * LengthSquared n" for n v :: "real vec3" and k
    by (simp add: vec_defs algebra_simps)
  then show "LengthSquared (plane_normal p) = 1 \<Longrightarrow> plane_Distance p (plane_Project p v) = 0"
    by (simp add: plane_Distance_def plane_Project_def)
qed

section \<open>Shapes\<close>

datatype shape_type = CollisionCuboid | CollisionSphere | CollisionPyramid | CollisionCapsule | CollisionHull

fun type_code :: "shape_type \<Rightarrow> nat" where
  "type_code CollisionCuboid = 1"
| "type_code CollisionSphere = 2"
| "type_code CollisionPyramid = 3"
| "type_code CollisionCapsule = 4"
| "type_code CollisionHull = 5"

record shape =
  m_Type :: shape_type
  m_LocalTransform :: "real mat4"
  m_HalfDimensions :: "real vec3"
  m_Radius :: real
  m_Height :: real
  m_Normals :: "real vec3 list"
  m_Axes :: "real vec3 list"
  m_Hull :: "real hull3 option"

definition the_hull :: "real hull3 res \<Rightarrow> real hull3 option" where
  "the_hull r = (case r of Inl _ \<Rightarrow> None | Inr h \<Rightarrow> Some h)"

definition blank_shape :: "shape_type \<Rightarrow> shape" where
  "blank_shape t = \<lparr>m_Type = t, m_LocalTransform = mat4_id, m_HalfDimensions = Vec3 0 0 0, m_Radius = 0, m_Height = 0,
     m_Normals = [], m_Axes = [], m_Hull = None\<rparr>"

text \<open>The default cuboid keeps the identity as its local transform; the other constructors scale.\<close>

definition new_Cuboid :: shape where
  "new_Cuboid = (blank_shape CollisionCuboid)\<lparr>m_HalfDimensions := Vec3 (1 / 2) (1 / 2) (1 / 2),
     m_Axes := replicate 3 0, m_Hull := the_hull ConstructCubeHull\<rparr>"

definition new_Cuboid_dims :: "real vec3 \<Rightarrow> shape" where
  "new_Cuboid_dims dims = (blank_shape CollisionCuboid)\<lparr>m_HalfDimensions := dims, m_LocalTransform := scale_matrix dims,
     m_Axes := replicate 3 0, m_Hull := the_hull ConstructCubeHull\<rparr>"

definition new_Sphere :: "real \<Rightarrow> shape" where
  "new_Sphere r = (blank_shape CollisionSphere)\<lparr>m_Radius := r, m_LocalTransform := scale_matrix (Vec3 r r r)\<rparr>"

definition new_Capsule :: "real \<Rightarrow> real \<Rightarrow> shape" where
  "new_Capsule r height = (blank_shape CollisionCapsule)\<lparr>m_Radius := r, m_Height := height, m_LocalTransform := scale_matrix (Vec3 r r r)\<rparr>"

text \<open>The default pyramid leaves its normals at zero.\<close>

definition new_Pyramid :: shape where
  "new_Pyramid = (let dims = Vec3 (1 / 2) (1 / 2) (1 / 2) in
     (blank_shape CollisionPyramid)\<lparr>m_HalfDimensions := dims, m_LocalTransform := scale_matrix dims,
       m_Normals := replicate 5 0, m_Axes := replicate 5 0, m_Hull := the_hull ConstructPyramidHull\<rparr>)"

definition pyramid_normals :: "real mat4 \<Rightarrow> real vec3 list" where
  "pyramid_normals T =
    (let p0 = mat4_vec T (Vec3 (-1) (-1) (-1)); p1 = mat4_vec T (Vec3 (-1) (-1) 1); p2 = mat4_vec T (Vec3 1 (-1) 1);
         p3 = mat4_vec T (Vec3 1 (-1) (-1)); p4 = mat4_vec T (Vec3 0 1 0)
     in [Normalized (CrossProduct (vec_sub p0 p3) (vec_sub p4 p3)), Normalized (CrossProduct (vec_sub p1 p0) (vec_sub p4 p0)),
         Normalized (CrossProduct (vec_sub p2 p1) (vec_sub p4 p1)), Normalized (CrossProduct (vec_sub p3 p2) (vec_sub p4 p2)),
         Vec3 0 (-1) 0])"

definition pyramid_SetHalfDimensions :: "real vec3 \<Rightarrow> shape \<Rightarrow> shape" where
  "pyramid_SetHalfDimensions dims s = s\<lparr>m_HalfDimensions := dims, m_LocalTransform := scale_matrix dims,
     m_Type := CollisionPyramid, m_Normals := pyramid_normals (scale_matrix dims)\<rparr>"

definition new_Pyramid_dims :: "real vec3 \<Rightarrow> shape" where
  "new_Pyramid_dims dims = (blank_shape CollisionPyramid)\<lparr>m_HalfDimensions := dims, m_LocalTransform := scale_matrix dims,
     m_Normals := pyramid_normals (scale_matrix dims), m_Axes := replicate 5 0, m_Hull := the_hull ConstructPyramidHull\<rparr>"

definition new_Hull :: shape where
  "new_Hull = (blank_shape CollisionHull)\<lparr>m_HalfDimensions := Vec3 (1 / 2) (1 / 2) (1 / 2), m_Axes := replicate 3 0\<rparr>"

text \<open>\<open>mesh\<close> is what the mesh gives: the position and the normal of each vertex, and the indices.\<close>

fun mesh_faces :: "(real vec3 \<times> real vec3) list \<Rightarrow> nat list \<Rightarrow> real hull3 \<Rightarrow> real hull3 res" where
  "mesh_faces vs (i # j # k # is) h =
    (if i < length vs \<and> j < length vs \<and> k < length vs
     then rbind (AddFace (Normalized (vec_add (vec_add (snd (vs ! i)) (snd (vs ! j))) (snd (vs ! k)))) [i, j, k] h) (mesh_faces vs is)
     else fail OutOfRange)"
| "mesh_faces vs [] h = ok h"
| "mesh_faces vs _ h = fail OutOfRange"

definition BuildFromMesh :: "(real vec3 \<times> real vec3) list \<Rightarrow> nat list \<Rightarrow> shape \<Rightarrow> shape res" where
  "BuildFromMesh vs is s = rbind (mesh_faces vs is (add_vertices (map fst vs) empty_hull)) (\<lambda>h. ok (s\<lparr>m_Hull := Some h\<rparr>))"

definition cuboid_SetHalfDimensions :: "real vec3 \<Rightarrow> shape \<Rightarrow> shape" where
  "cuboid_SetHalfDimensions dims s = s\<lparr>m_HalfDimensions := dims, m_LocalTransform := scale_matrix dims\<rparr>"

definition SetHalfWidth :: "real \<Rightarrow> shape \<Rightarrow> shape" where
  "SetHalfWidth w s = (let d = m_HalfDimensions s in cuboid_SetHalfDimensions (Vec3 \<bar>w\<bar> (vy d) (vz d)) s)"

definition SetHalfHeight :: "real \<Rightarrow> shape \<Rightarrow> shape" where
  "SetHalfHeight w s = (let d = m_HalfDimensions s in cuboid_SetHalfDimensions (Vec3 (vx d) \<bar>w\<bar> (vz d)) s)"

definition SetHalfDepth :: "real \<Rightarrow> shape \<Rightarrow> shape" where
  "SetHalfDepth w s = (let d = m_HalfDimensions s in cuboid_SetHalfDimensions (Vec3 (vx d) (vy d) \<bar>w\<bar>) s)"

definition SetRadius :: "real \<Rightarrow> shape \<Rightarrow> shape" where
  "SetRadius r s = s\<lparr>m_Radius := r, m_LocalTransform := scale_matrix (Vec3 r r r)\<rparr>"

section \<open>Inertia\<close>

definition diagonal :: "real \<Rightarrow> real \<Rightarrow> real \<Rightarrow> real mat3" where
  "diagonal a b c = Mat3 a 0 0 0 b 0 0 0 c"

definition cuboid_inertia :: "real vec3 \<Rightarrow> real \<Rightarrow> real mat3" where
  "cuboid_inertia half invMass = (let d = vec_add half half; dimsSq = vec_mul d d in
     diagonal (12 * invMass * 1 / (vy dimsSq + vz dimsSq)) (12 * invMass * 1 / (vx dimsSq + vz dimsSq)) (12 * invMass * 1 / (vx dimsSq + vy dimsSq)))"

definition sphere_inertia :: "real \<Rightarrow> real \<Rightarrow> real mat3" where
  "sphere_inertia r invMass = (let i = 5 / 2 * invMass / (r * r) in diagonal i i i)"

definition pyramid_inertia :: "real vec3 \<Rightarrow> real \<Rightarrow> real mat3" where
  "pyramid_inertia half invMass = (let q = vec_mul half half in
     diagonal (invMass / ((1 / 5 * vx q) + (3 / 20 * vy q))) (invMass / ((1 / 5 * vz q) + (3 / 20 * vy q)))
       (invMass / ((1 / 5 * vz q) + (1 / 5 * vx q))))"

definition capsule_inertia :: "real \<Rightarrow> real \<Rightarrow> real \<Rightarrow> real mat3" where
  "capsule_inertia r height invMass =
    (let lx = 2 * (r + height / 2); ly = 2 * r; lz = 2 * r; x2 = lx * lx; y2 = ly * ly; z2 = lz * lz;
         scaledmass = 1 / invMass * (8333333 / 100000000)
     in diagonal (1 / scaledmass * (y2 + z2)) (1 / scaledmass * (x2 + z2)) (1 / scaledmass * (x2 + y2)))"

definition BuildInverseInertia :: "shape \<Rightarrow> real \<Rightarrow> real mat3" where
  "BuildInverseInertia s invMass = (case m_Type s of
      CollisionCuboid \<Rightarrow> cuboid_inertia (m_HalfDimensions s) invMass
    | CollisionHull \<Rightarrow> cuboid_inertia (m_HalfDimensions s) invMass
    | CollisionSphere \<Rightarrow> sphere_inertia (m_Radius s) invMass
    | CollisionPyramid \<Rightarrow> pyramid_inertia (m_HalfDimensions s) invMass
    | CollisionCapsule \<Rightarrow> capsule_inertia (m_Radius s) (m_Height s) invMass)"

section \<open>Axes, edges and extreme points\<close>

text \<open>\<open>GetCollisionAxes\<close> overwrites the first axes of the vector and leaves what was added behind them.\<close>

definition overwrite :: "'a list \<Rightarrow> 'a list \<Rightarrow> 'a list" where
  "overwrite new old = new @ drop (length new) old"

definition GetCollisionAxes :: "real quat \<Rightarrow> shape \<Rightarrow> shape" where
  "GetCollisionAxes orientation s = (let R = RotationMatrix orientation in
     case m_Type s of
       CollisionSphere \<Rightarrow> s
     | CollisionCapsule \<Rightarrow> s
     | CollisionPyramid \<Rightarrow> s\<lparr>m_Axes := overwrite (map (mat3_vec R) (m_Normals s)) (m_Axes s)\<rparr>
     | _ \<Rightarrow> s\<lparr>m_Axes := overwrite [mat3_vec R (Vec3 1 0 0), mat3_vec R (Vec3 0 1 0), mat3_vec R (Vec3 0 0 1)] (m_Axes s)\<rparr>)"

definition ws_transform :: "shape \<Rightarrow> real mat4 option \<Rightarrow> real mat4" where
  "ws_transform s obj = (case obj of Some T \<Rightarrow> mat4_mul T (m_LocalTransform s) | None \<Rightarrow> m_LocalTransform s)"

definition hull_of :: "shape \<Rightarrow> real hull3 res" where
  "hull_of s = (case m_Hull s of None \<Rightarrow> fail NullDeref | Some h \<Rightarrow> ok h)"

definition vertex_pos :: "real hull3 \<Rightarrow> nat \<Rightarrow> real vec3 res" where
  "vertex_pos h i = (if i < length (m_Vertices h) then ok (hv_pos (m_Vertices h ! i)) else fail OutOfRange)"

definition GetEdges :: "shape \<Rightarrow> real mat4 \<Rightarrow> (real vec3 \<times> real vec3) list res" where
  "GetEdges s T = (case m_Type s of
      CollisionSphere \<Rightarrow> ok []
    | CollisionCapsule \<Rightarrow> ok []
    | _ \<Rightarrow> rbind (hull_of s) (\<lambda>h. let W = ws_transform s (Some T) in
        ok (map (\<lambda>e. (mat4_vec W (hv_pos (m_Vertices h ! vStart e)), mat4_vec W (hv_pos (m_Vertices h ! vEnd e)))) (m_Edges h))))"

definition GetMinMaxVertexOnAxis :: "shape \<Rightarrow> real mat4 option \<Rightarrow> real vec3 \<Rightarrow> (real vec3 \<times> real vec3) res" where
  "GetMinMaxVertexOnAxis s obj axis = (let W = ws_transform s obj in
     if m_Type s \<in> {CollisionSphere, CollisionCapsule}
     then (let pos = Translation W in ok (vec_sub pos (vec_scale axis (m_Radius s)), vec_add pos (vec_scale axis (m_Radius s))))
     else rbind (hull_of s) (\<lambda>h. let local_axis = mat3_vec (mat3_Transpose (ToMatrix3 W)) axis;
            (vMin, vMax) = GetMinMaxVerticesInAxis local_axis h in
          rbind (vertex_pos h vMin) (\<lambda>a. rbind (vertex_pos h vMax) (\<lambda>b. ok (mat4_vec W a, mat4_vec W b)))))"

section \<open>Reference polygons\<close>

text \<open>The corners of a face and the planes around it, in arrays of eight.\<close>

record ref_polygon =
  rp_Faces :: "real vec3 list"
  rp_Planes :: "plane list"
  rp_Normal :: "real vec3"

definition MAX_POLYGON :: nat where "MAX_POLYGON = 8"

definition push_face :: "real vec3 \<Rightarrow> ref_polygon \<Rightarrow> ref_polygon res" where
  "push_face v r = (if length (rp_Faces r) < MAX_POLYGON then ok (r\<lparr>rp_Faces := rp_Faces r @ [v]\<rparr>) else fail OutOfRange)"

definition push_plane :: "plane \<Rightarrow> ref_polygon \<Rightarrow> ref_polygon res" where
  "push_plane v r = (if length (rp_Planes r) < MAX_POLYGON then ok (r\<lparr>rp_Planes := rp_Planes r @ [v]\<rparr>) else fail OutOfRange)"

fun push_all :: "('a \<Rightarrow> 's \<Rightarrow> 's res) \<Rightarrow> 'a list \<Rightarrow> 's \<Rightarrow> 's res" where
  "push_all f [] r = ok r"
| "push_all f (x # xs) r = rbind (f x r) (push_all f xs)"

text \<open>The first face with the largest correlation; the start value of the code lies below all.\<close>

fun best_face :: "real vec3 \<Rightarrow> real hull3 \<Rightarrow> nat list \<Rightarrow> (nat \<times> real) option \<Rightarrow> nat option" where
  "best_face axis h [] best = map_option fst best"
| "best_face axis h (f # fs) best =
    (let c = DotProduct axis (hf_normal (m_Faces h ! f)) in
     best_face axis h fs (case best of None \<Rightarrow> Some (f, c) | Some (g, d) \<Rightarrow> if c > d then Some (f, c) else best))"

definition face_plane :: "real mat3 \<Rightarrow> real vec3 \<Rightarrow> real vec3 \<Rightarrow> plane" where
  "face_plane normalMatrix normal point = (let n = Normalized (vec_neg (mat3_vec normalMatrix normal)) in
     Plane_of n (- DotProduct n point))"

definition adjacent_planes :: "real mat3 \<Rightarrow> real mat4 \<Rightarrow> real hull3 \<Rightarrow> nat \<Rightarrow> nat \<Rightarrow> plane list" where
  "adjacent_planes N W h f e = (let edge = m_Edges h ! e; point = mat4_vec W (hv_pos (m_Vertices h ! vStart edge)) in
     map (\<lambda>g. face_plane N (hf_normal (m_Faces h ! g)) point) (filter (\<lambda>g. g \<noteq> f) (he_faces edge)))"

definition hull_polygon :: "real hull3 \<Rightarrow> real mat4 \<Rightarrow> real vec3 \<Rightarrow> ref_polygon res" where
  "hull_polygon h W axis =
    (let invNormalMatrix = mat3_Inverse (ToMatrix3 W); N = mat3_Transpose invNormalMatrix;
         local_axis = mat3_vec invNormalMatrix axis; (minVertex, maxVertex) = GetMinMaxVerticesInAxis local_axis h;
         r = \<lparr>rp_Faces = [], rp_Planes = [], rp_Normal = Vec3 0 0 0\<rparr>
     in if maxVertex < length (m_Vertices h)
     then (case best_face local_axis h (hv_faces (m_Vertices h ! maxVertex)) None of
         None \<Rightarrow> ok r
       | Some f \<Rightarrow> (let face = m_Faces h ! f in
           rbind (push_all push_face (map (\<lambda>v. mat4_vec W (hv_pos (m_Vertices h ! v))) (hf_verts face))
             (r\<lparr>rp_Normal := Normalized (mat3_vec N (hf_normal face))\<rparr>)) (\<lambda>r.
           case hf_edges face of [] \<Rightarrow> fail OutOfRange
           | e0 # _ \<Rightarrow>
             rbind (push_plane (face_plane N (hf_normal face) (mat4_vec W (hv_pos (m_Vertices h ! vStart (m_Edges h ! e0))))) r)
               (push_all push_plane (concat (map (adjacent_planes N W h f) (hf_edges face)))))))
     else fail OutOfRange)"

definition GetIncidentReferencePolygon :: "shape \<Rightarrow> real mat4 \<Rightarrow> real vec3 \<Rightarrow> real vec3 \<Rightarrow> ref_polygon res" where
  "GetIncidentReferencePolygon s T position axis =
    (if m_Type s \<in> {CollisionSphere, CollisionCapsule}
     then ok \<lparr>rp_Faces = [vec_add position (vec_scale axis (m_Radius s))], rp_Planes = [], rp_Normal = axis\<rparr>
     else rbind (hull_of s) (\<lambda>h. hull_polygon h (ws_transform s (Some T)) axis))"

section \<open>The extreme points bound the shape\<close>

text \<open>The points of a shape in the world: the ball around the centre, the points within the radius of the axis of a capsule, which is its
  x axis, or the convex combinations of the vertices.\<close>

definition combine :: "real list \<Rightarrow> real vec3 list \<Rightarrow> real vec3" where
  "combine ws ps = sum_list (map2 (\<lambda>w p. vec_scale p w) ws ps)"

definition capsule_axis :: "real mat4 option \<Rightarrow> real vec3" where
  "capsule_axis obj = (case obj of None \<Rightarrow> Vec3 1 0 0 | Some T \<Rightarrow> mat3_vec (ToMatrix3 T) (Vec3 1 0 0))"

definition in_shape :: "shape \<Rightarrow> real mat4 option \<Rightarrow> real vec3 \<Rightarrow> bool" where
  "in_shape s obj p \<longleftrightarrow> (let W = ws_transform s obj in
     if m_Type s = CollisionSphere then LengthSquared (vec_sub p (Translation W)) \<le> m_Radius s * m_Radius s
     else if m_Type s = CollisionCapsule
     then (\<exists>k. \<bar>k\<bar> \<le> m_Height s / 2
            \<and> LengthSquared (vec_sub p (vec_add (Translation W) (vec_scale (capsule_axis obj) k))) \<le> m_Radius s * m_Radius s)
     else (\<exists>h ws. m_Hull s = Some h \<and> length ws = length (m_Vertices h) \<and> (\<forall>w \<in> set ws. 0 \<le> w) \<and> sum_list ws = 1
            \<and> p = combine ws (map (\<lambda>v. mat4_vec W (hv_pos v)) (m_Vertices h))))"

text \<open>The code treats a capsule as the ball at its middle, which it is only when it has no height.\<close>

definition flat_capsule :: "shape \<Rightarrow> bool" where
  "flat_capsule s \<longleftrightarrow> (m_Type s = CollisionCapsule \<longrightarrow> m_Height s = 0)"

lemma in_shape_round:
  assumes "flat_capsule s" and "m_Type s \<in> {CollisionSphere, CollisionCapsule}"
  shows "in_shape s obj p \<longleftrightarrow> LengthSquared (vec_sub p (Translation (ws_transform s obj))) \<le> m_Radius s * m_Radius s"
  using assms by (auto simp: in_shape_def flat_capsule_def Let_def vec_add_def vec_scale_def)

lemma in_shape_hull:
  assumes "m_Type s \<notin> {CollisionSphere, CollisionCapsule}"
  shows "in_shape s obj p \<longleftrightarrow> (\<exists>h ws. m_Hull s = Some h \<and> length ws = length (m_Vertices h) \<and> (\<forall>w \<in> set ws. 0 \<le> w) \<and> sum_list ws = 1
            \<and> p = combine ws (map (\<lambda>v. mat4_vec (ws_transform s obj) (hv_pos v)) (m_Vertices h)))"
  using assms by (simp add: in_shape_def Let_def)

lemma dot_simps: "DotProduct a (b + c) = DotProduct a b + DotProduct a c" "DotProduct a (vec_scale b k) = k * DotProduct a b"
  "DotProduct a 0 = 0" "DotProduct a (vec_add b c) = DotProduct a b + DotProduct a c"
  "DotProduct a (vec_sub b c) = DotProduct a b - DotProduct a c" for a b c :: "real vec3"
  by (simp_all add: DotProduct_def vec_defs zero_vec3_def algebra_simps)

lemma dot_combine: "length ws = length ps \<Longrightarrow> DotProduct a (combine ws ps) = sum_list (map2 (\<lambda>w p. w * DotProduct a p) ws ps)"
  by (induction ws ps rule: list_induct2) (simp_all add: combine_def dot_simps)

lemma weighted_bounds:
  "length ws = length xs \<Longrightarrow> \<forall>w \<in> set ws. 0 \<le> w \<Longrightarrow> \<forall>x \<in> set xs. lo \<le> x \<and> x \<le> hi \<Longrightarrow>
    sum_list ws * lo \<le> sum_list (map2 (*) ws xs) \<and> sum_list (map2 (*) ws xs) \<le> sum_list ws * (hi :: real)"
proof (induction ws xs rule: list_induct2)
  case (Cons w ws x xs)
  then have "w * lo \<le> w * x" "w * x \<le> w * hi" by (auto intro: mult_left_mono)
  with Cons show ?case by (auto simp: algebra_simps)
qed simp

lemma combine_bounds:
  assumes "length ws = length ps" and "\<forall>w \<in> set ws. 0 \<le> w" and "sum_list ws = 1"
    and "\<forall>p \<in> set ps. lo \<le> DotProduct a p \<and> DotProduct a p \<le> hi"
  shows "lo \<le> DotProduct a (combine ws ps) \<and> DotProduct a (combine ws ps) \<le> hi"
proof -
  have "map2 (\<lambda>w p. w * DotProduct a p) ws ps = map2 (*) ws (map (DotProduct a) ps)"
    by (simp add: zip_map2 split_def)
  with weighted_bounds [of ws "map (DotProduct a) ps" lo hi] assms show ?thesis by (simp add: dot_combine)
qed

lemma cauchy_schwarz: "(DotProduct a b)\<^sup>2 \<le> LengthSquared a * LengthSquared (b :: real vec3)"
  using lagrange_identity [of a b] LengthSquared_nonneg [of "CrossProduct a b"] by (simp add: power2_eq_square)

text \<open>\<open>GetMinMaxVertexOnAxis\<close> is the support of the shape along the axis, of unit length for a ball.\<close>

lemma support_any:
  assumes "GetMinMaxVertexOnAxis s obj axis = Inr (lo, hi)" and "in_shape s obj p" and "affine (ws_transform s obj)"
    and unit: "m_Type s \<in> {CollisionSphere, CollisionCapsule} \<Longrightarrow> LengthSquared axis = 1" and "0 \<le> m_Radius s" and flat: "flat_capsule s"
  shows "DotProduct axis lo \<le> DotProduct axis p \<and> DotProduct axis p \<le> DotProduct axis hi"
proof (cases "m_Type s \<in> {CollisionSphere, CollisionCapsule}")
  case True
  note assms = assms(1-3) unit [OF True] assms(5)
  let ?c = "Translation (ws_transform s obj)"
  have lh: "lo = vec_sub ?c (vec_scale axis (m_Radius s))" "hi = vec_add ?c (vec_scale axis (m_Radius s))"
    and d: "LengthSquared (vec_sub p ?c) \<le> m_Radius s * m_Radius s"
    using assms(1,2) True by (auto simp: GetMinMaxVertexOnAxis_def in_shape_round [OF flat] Let_def)
  have "(DotProduct axis (vec_sub p ?c))\<^sup>2 \<le> (m_Radius s)\<^sup>2"
    using cauchy_schwarz [of axis "vec_sub p ?c"] d assms(4) by (simp add: power2_eq_square)
  then have "\<bar>DotProduct axis (vec_sub p ?c)\<bar> \<le> m_Radius s" using assms(5) by (simp add: abs_le_square_iff [of _ "m_Radius s", simplified abs_of_nonneg [OF assms(5)]])
  moreover have "DotProduct axis axis = 1" using assms(4) by (simp add: DotProduct_def LengthSquared_def)
  ultimately show ?thesis by (simp add: lh dot_simps abs_le_iff)
next
  case False
  let ?W = "ws_transform s obj"
  let ?l = "mat3_vec (mat3_Transpose (ToMatrix3 ?W)) axis"
  obtain h ws where h: "m_Hull s = Some h" "length ws = length (m_Vertices h)" "\<forall>w \<in> set ws. 0 \<le> w" "sum_list ws = 1"
    "p = combine ws (map (\<lambda>v. mat4_vec ?W (hv_pos v)) (m_Vertices h))"
    using assms(2) False by (auto simp: in_shape_hull)
  obtain i j where ij: "GetMinMaxVerticesInAxis ?l h = (i, j)" by force
  have lh: "i < length (m_Vertices h)" "j < length (m_Vertices h)" "lo = mat4_vec ?W (hv_pos (m_Vertices h ! i))"
    "hi = mat4_vec ?W (hv_pos (m_Vertices h ! j))"
    using assms(1) False h(1) ij by (auto simp: GetMinMaxVertexOnAxis_def Let_def hull_of_def vertex_pos_def rbind_eq_Inr split: if_splits)
  have dot: "DotProduct axis (mat4_vec ?W v) = DotProduct ?l v + DotProduct axis (Translation ?W)" for v
  proof -
    have "DotProduct axis (mat3_vec (ToMatrix3 ?W) v) = DotProduct (mat3_vec (ToMatrix3 ?W) v) axis" by (simp add: DotProduct_def mult.commute)
    also have "\<dots> = DotProduct v ?l" by (rule mat3_transpose_dot)
    also have "\<dots> = DotProduct ?l v" by (simp add: DotProduct_def mult.commute)
    finally show ?thesis by (simp add: affine_vec [OF assms(3)] dot_simps)
  qed
  have "DotProduct axis lo \<le> DotProduct axis q \<and> DotProduct axis q \<le> DotProduct axis hi"
    if "q \<in> set (map (\<lambda>v. mat4_vec ?W (hv_pos v)) (m_Vertices h))" for q
    using that GetMinMax_extreme [OF ij] by (auto simp: in_set_conv_nth lh(3,4) dot)
  then show ?thesis unfolding h(5) by (intro combine_bounds) (use h in auto)
qed

lemma support:
  assumes "GetMinMaxVertexOnAxis s obj axis = Inr (lo, hi)" and "in_shape s obj p" and "affine (ws_transform s obj)"
    and "LengthSquared axis = 1" and "0 \<le> m_Radius s" and "flat_capsule s"
  shows "DotProduct axis lo \<le> DotProduct axis p \<and> DotProduct axis p \<le> DotProduct axis hi"
  by (rule support_any [OF assms])

text \<open>A capsule of some height sticks out of the extent that the code gives it: along its own axis, to which the inertia adds half
  the height, the extreme points are those of the ball.\<close>

lemma capsule_extent_too_small:
  assumes "0 < r" and "0 < height"
  shows "in_shape (new_Capsule r height) None (Vec3 (r + height / 2) 0 0)"
    "\<exists>lo hi. GetMinMaxVertexOnAxis (new_Capsule r height) None (Vec3 1 0 0) = Inr (lo, hi) \<and> hi = Vec3 r 0 0 \<and> vx hi < r + height / 2"
proof -
  have t: "Translation (scale_matrix (Vec3 r r r)) = Vec3 0 0 0"
    by (simp add: scale_matrix_def mat4_SetScale_def mat4_id_def Translation_def)
  show "in_shape (new_Capsule r height) None (Vec3 (r + height / 2) 0 0)"
    using assms by (simp add: in_shape_def new_Capsule_def blank_shape_def ws_transform_def Let_def t capsule_axis_def)
      (rule exI [of _ "height / 2"], simp add: LengthSquared_def vec_defs)
  show "\<exists>lo hi. GetMinMaxVertexOnAxis (new_Capsule r height) None (Vec3 1 0 0) = Inr (lo, hi) \<and> hi = Vec3 r 0 0 \<and> vx hi < r + height / 2"
    using assms by (simp add: GetMinMaxVertexOnAxis_def new_Capsule_def blank_shape_def ws_transform_def Let_def t vec_defs)
qed

end
