(* ===== verification/RigidBodies.thy ===== *)
theory RigidBodies
  imports Shapes Broadphases
begin

text \<open>
  Rigid bodies (\<open>Physics/RigidBody.*\<close>, \<open>Physics/LumosPhysicsEngine/RigidBody3D.*\<close>) with their cached world
  transform and world box. A body names its shape by its index in the store of shapes. Assertions are those
  of builds with \<open>LUMOS_ENABLE_ASSERTS\<close>.
\<close>

record rigid_body =
  rb_Static :: bool
  rb_AtRest :: bool
  rb_Elasticity :: real
  rb_Friction :: real
  wsTransformInvalidated :: bool
  RestVelocityThresholdSquared :: real
  AverageSummedVelocity :: real
  wsTransform :: "real mat4"
  localBoundingBox :: "real bbox"
  wsAabbInvalidated :: bool
  wsAabb :: "real bbox"
  rb_Position :: "real vec3"
  LinearVelocity :: "real vec3"
  Force :: "real vec3"
  InvMass :: real
  Trigger :: bool
  Orientation :: "real quat"
  AngularVelocity :: "real vec3"
  Torque :: "real vec3"
  InvInertia :: "real mat3"
  rb_Shape :: "nat option"

section \<open>Boxes under a transform\<close>

definition box_Transformed :: "'f :: linordered_field mat4 \<Rightarrow> 'f bbox \<Rightarrow> 'f bbox" where
  "box_Transformed m b =
    (let newCenter = vec_add (mat3_vec (ToMatrix3 m) (bb_Center b)) (Translation m); oldEdge = vec_scale (bb_Size b) (1 / 2);
         newEdge = Vec3 (Abs (n00 m) * vx oldEdge + Abs (n01 m) * vy oldEdge + Abs (n02 m) * vz oldEdge)
                        (Abs (n10 m) * vx oldEdge + Abs (n11 m) * vy oldEdge + Abs (n12 m) * vz oldEdge)
                        (Abs (n20 m) * vx oldEdge + Abs (n21 m) * vy oldEdge + Abs (n22 m) * vz oldEdge)
     in mk_box (vec_sub newCenter newEdge) (vec_add newCenter newEdge))"

section \<open>Caches\<close>

definition fresh_transform :: "rigid_body \<Rightarrow> real mat4" where
  "fresh_transform b = SetTranslation (rb_Position b) (RotationMatrix4 (Orientation b))"

definition GetWorldSpaceTransform :: "rigid_body \<Rightarrow> real mat4 \<times> rigid_body" where
  "GetWorldSpaceTransform b =
    (if wsTransformInvalidated b
     then (fresh_transform b, b\<lparr>wsTransform := fresh_transform b, wsTransformInvalidated := False\<rparr>)
     else (wsTransform b, b))"

definition GetWorldSpaceAABB :: "rigid_body \<Rightarrow> real bbox \<times> rigid_body" where
  "GetWorldSpaceAABB b =
    (if wsAabbInvalidated b
     then (let (T, b) = GetWorldSpaceTransform b; box = box_Transformed T (localBoundingBox b)
           in (box, b\<lparr>wsAabb := box, wsAabbInvalidated := False\<rparr>))
     else (wsAabb b, b))"

section \<open>Operations\<close>

definition SetIsStatic :: "bool \<Rightarrow> rigid_body \<Rightarrow> rigid_body" where "SetIsStatic v b = b\<lparr>rb_Static := v\<rparr>"
definition SetElasticity :: "real \<Rightarrow> rigid_body \<Rightarrow> rigid_body" where "SetElasticity v b = b\<lparr>rb_Elasticity := v\<rparr>"
definition SetFriction :: "real \<Rightarrow> rigid_body \<Rightarrow> rigid_body" where "SetFriction v b = b\<lparr>rb_Friction := v\<rparr>"
definition SetIsAtRest :: "bool \<Rightarrow> rigid_body \<Rightarrow> rigid_body" where "SetIsAtRest v b = b\<lparr>rb_AtRest := v\<rparr>"
definition WakeUp :: "rigid_body \<Rightarrow> rigid_body" where "WakeUp b = SetIsAtRest False b"
definition SetIsTrigger :: "bool \<Rightarrow> rigid_body \<Rightarrow> rigid_body" where "SetIsTrigger v b = b\<lparr>Trigger := v\<rparr>"

definition SetRestVelocityThreshold :: "real \<Rightarrow> rigid_body \<Rightarrow> rigid_body" where
  "SetRestVelocityThreshold vel b = b\<lparr>RestVelocityThresholdSquared := (if vel \<le> 0 then -1 else vel * vel)\<rparr>"

definition SetLocalBoundingBox :: "real bbox \<Rightarrow> rigid_body \<Rightarrow> rigid_body" where
  "SetLocalBoundingBox bb b = b\<lparr>localBoundingBox := bb, wsAabbInvalidated := True\<rparr>"

definition SetPosition :: "real vec3 \<Rightarrow> rigid_body \<Rightarrow> rigid_body" where
  "SetPosition v b = b\<lparr>rb_Position := v, wsTransformInvalidated := True, wsAabbInvalidated := True\<rparr>"

definition SetLinearVelocity :: "real vec3 \<Rightarrow> rigid_body \<Rightarrow> rigid_body" where
  "SetLinearVelocity v b = (if rb_Static b then b else b\<lparr>LinearVelocity := v\<rparr>)"

definition SetForce :: "real vec3 \<Rightarrow> rigid_body \<Rightarrow> rigid_body" where
  "SetForce v b = (if rb_Static b then b else b\<lparr>Force := v\<rparr>)"

definition SetOrientation :: "real quat \<Rightarrow> rigid_body \<Rightarrow> rigid_body" where
  "SetOrientation v b = b\<lparr>Orientation := v, wsTransformInvalidated := True\<rparr>"

definition SetAngularVelocity :: "real vec3 \<Rightarrow> rigid_body \<Rightarrow> rigid_body" where
  "SetAngularVelocity v b = (if rb_Static b then b else b\<lparr>AngularVelocity := v\<rparr>)"

definition SetTorque :: "real vec3 \<Rightarrow> rigid_body \<Rightarrow> rigid_body" where
  "SetTorque v b = (if rb_Static b then b else b\<lparr>Torque := v\<rparr>)"

definition SetInverseInertia :: "real mat3 \<Rightarrow> rigid_body \<Rightarrow> rigid_body" where
  "SetInverseInertia v b = b\<lparr>InvInertia := v\<rparr>"

text \<open>The box of the shape in its own space, merged from the extreme points along the three axes into the
  cleared box. \<open>huge\<close> stands for the infinity of the cleared box.\<close>

definition merge_extremes :: "shape \<Rightarrow> real vec3 \<Rightarrow> real bbox \<Rightarrow> real bbox res" where
  "merge_extremes s axis box = rbind (GetMinMaxVertexOnAxis s None axis) (\<lambda>(lower, upper). ok (Merge_point upper (Merge_point lower box)))"

definition AutoResizeBoundingBox :: "real \<Rightarrow> (nat \<Rightarrow> shape) \<Rightarrow> rigid_body \<Rightarrow> rigid_body res" where
  "AutoResizeBoundingBox huge S b =
    (let cleared = bb_Clear huge in
     case rb_Shape b of
       None \<Rightarrow> ok (b\<lparr>localBoundingBox := cleared, wsAabbInvalidated := True\<rparr>)
     | Some s \<Rightarrow>
         rbind (merge_extremes (S s) (Vec3 1 0 0) cleared) (\<lambda>b1.
         rbind (merge_extremes (S s) (Vec3 0 1 0) b1) (\<lambda>b2.
         rbind (merge_extremes (S s) (Vec3 0 0 1) b2) (\<lambda>b3.
         ok (b\<lparr>localBoundingBox := b3, wsAabbInvalidated := True\<rparr>)))))"

definition SetCollisionShape :: "real \<Rightarrow> (nat \<Rightarrow> shape) \<Rightarrow> nat \<Rightarrow> rigid_body \<Rightarrow> rigid_body res" where
  "SetCollisionShape huge S s b =
    AutoResizeBoundingBox huge S (b\<lparr>rb_Shape := Some s, InvInertia := BuildInverseInertia (S s) (InvMass b)\<rparr>)"

definition rebuild_inertia :: "(nat \<Rightarrow> shape) \<Rightarrow> rigid_body \<Rightarrow> rigid_body" where
  "rebuild_inertia S b = (case rb_Shape b of None \<Rightarrow> b | Some s \<Rightarrow> b\<lparr>InvInertia := BuildInverseInertia (S s) (InvMass b)\<rparr>)"

definition CollisionShapeUpdated :: "real \<Rightarrow> (nat \<Rightarrow> shape) \<Rightarrow> rigid_body \<Rightarrow> rigid_body res" where
  "CollisionShapeUpdated huge S b = AutoResizeBoundingBox huge S (rebuild_inertia S b)"

definition SetInverseMass :: "(nat \<Rightarrow> shape) \<Rightarrow> real \<Rightarrow> rigid_body \<Rightarrow> rigid_body" where
  "SetInverseMass S v b = rebuild_inertia S (b\<lparr>InvMass := v\<rparr>)"

definition SetMass :: "(nat \<Rightarrow> shape) \<Rightarrow> real \<Rightarrow> rigid_body \<Rightarrow> rigid_body res" where
  "SetMass S v b = (if v > 0 then ok (rebuild_inertia S (b\<lparr>InvMass := 1 / v\<rparr>)) else fail AssertFailed)"

text \<open>A default shape of the type, put at a fresh index of the store; a hull is only logged as unsupported.\<close>

definition default_shape :: "shape_type \<Rightarrow> shape option" where
  "default_shape t = (case t of
      CollisionCuboid \<Rightarrow> Some new_Cuboid
    | CollisionSphere \<Rightarrow> Some (new_Sphere 1)
    | CollisionPyramid \<Rightarrow> Some new_Pyramid
    | CollisionCapsule \<Rightarrow> Some (new_Capsule 1 1)
    | CollisionHull \<Rightarrow> None)"

definition SetCollisionShapeType :: "real \<Rightarrow> nat \<Rightarrow> shape_type \<Rightarrow> rigid_body \<times> (nat \<Rightarrow> shape) \<Rightarrow> (rigid_body \<times> (nat \<Rightarrow> shape)) res" where
  "SetCollisionShapeType huge fresh t = (\<lambda>(b, S). case default_shape t of
      None \<Rightarrow> ok (b, S)
    | Some s \<Rightarrow> (let S = S(fresh := s) in rbind (SetCollisionShape huge S fresh b) (\<lambda>b. ok (b, S))))"

definition ALPHA :: real where "ALPHA = 7 / 10"

definition RestTest :: "rigid_body \<Rightarrow> rigid_body" where
  "RestTest b =
    (if RestVelocityThresholdSquared b \<le> 0 then b
     else (let v = LengthSquared (LinearVelocity b) + LengthSquared (AngularVelocity b);
               avg = AverageSummedVelocity b + ALPHA * (v - AverageSummedVelocity b)
           in SetIsAtRest (avg \<le> RestVelocityThresholdSquared b) (b\<lparr>AverageSummedVelocity := avg\<rparr>)))"

section \<open>Construction\<close>

record rb_properties =
  p_Position :: "real vec3"
  p_LinearVelocity :: "real vec3"
  p_Force :: "real vec3"
  p_Mass :: real
  p_Orientation :: "real quat"
  p_AngularVelocity :: "real vec3"
  p_Torque :: "real vec3"
  p_Static :: bool
  p_Elasticity :: real
  p_Friction :: real
  p_AtRest :: bool
  p_isTrigger :: bool
  p_Shape :: "nat option"

definition default_properties :: rb_properties where
  "default_properties = \<lparr>p_Position = Vec3 0 0 0, p_LinearVelocity = Vec3 0 0 0, p_Force = Vec3 0 0 0, p_Mass = 1,
     p_Orientation = quat_id, p_AngularVelocity = Vec3 0 0 0, p_Torque = Vec3 0 0 0, p_Static = False,
     p_Elasticity = 9 / 10, p_Friction = 8 / 10, p_AtRest = False, p_isTrigger = False, p_Shape = None\<rparr>"

text \<open>The static flag is set last, so the setters before it apply; \<open>isTrigger\<close> is not read.\<close>

definition new_RigidBody :: "real \<Rightarrow> (nat \<Rightarrow> shape) \<Rightarrow> rb_properties \<Rightarrow> rigid_body res" where
  "new_RigidBody huge S p =
    (if p_Mass p > 0
     then (let b = \<lparr>rb_Static = False, rb_AtRest = False, rb_Elasticity = 9 / 10, rb_Friction = 8 / 10,
              wsTransformInvalidated = True, RestVelocityThresholdSquared = 1 / 1000, AverageSummedVelocity = 0,
              wsTransform = mat4_id, localBoundingBox = mk_box (Vec3 (- (1 / 2)) (- (1 / 2)) (- (1 / 2))) (Vec3 (1 / 2) (1 / 2) (1 / 2)),
              wsAabbInvalidated = True, wsAabb = bb_Clear huge, rb_Position = p_Position p, LinearVelocity = p_LinearVelocity p,
              Force = p_Force p, InvMass = 1 / p_Mass p, Trigger = False, Orientation = p_Orientation p,
              AngularVelocity = p_AngularVelocity p, Torque = p_Torque p, InvInertia = Mat3 0 0 0 0 0 0 0 0 0, rb_Shape = None\<rparr>
       in rbind (case p_Shape p of None \<Rightarrow> ok b | Some s \<Rightarrow> SetCollisionShape huge S s b) (\<lambda>b.
          ok (b\<lparr>rb_Static := p_Static p, rb_AtRest := p_AtRest p, rb_Elasticity := p_Elasticity p, rb_Friction := p_Friction p\<rparr>)))
     else fail AssertFailed)"

section \<open>The caches are coherent\<close>

definition coherent :: "rigid_body \<Rightarrow> bool" where
  "coherent b \<longleftrightarrow> (wsTransformInvalidated b \<or> wsTransform b = fresh_transform b)
     \<and> (wsAabbInvalidated b \<or> wsAabb b = box_Transformed (fresh_transform b) (localBoundingBox b))"

lemma merge_extremes_ok: "merge_extremes s axis box = Inr c \<Longrightarrow> box_le box c"
  by (auto simp: merge_extremes_def rbind_eq_Inr Merge_point_def box_simps)

lemma Auto_Inr:
  assumes "AutoResizeBoundingBox huge S b = Inr c"
  obtains box where "c = b\<lparr>localBoundingBox := box, wsAabbInvalidated := True\<rparr>"
  using assms by (auto simp: AutoResizeBoundingBox_def Let_def rbind_eq_Inr split: option.splits)

lemma fresh_simps [simp]:
  "fresh_transform (b\<lparr>localBoundingBox := x\<rparr>) = fresh_transform b" "fresh_transform (b\<lparr>wsAabbInvalidated := f\<rparr>) = fresh_transform b"
  "fresh_transform (b\<lparr>wsTransformInvalidated := f\<rparr>) = fresh_transform b" "fresh_transform (b\<lparr>wsTransform := t\<rparr>) = fresh_transform b"
  "fresh_transform (b\<lparr>wsAabb := x\<rparr>) = fresh_transform b" "fresh_transform (b\<lparr>rb_Static := f\<rparr>) = fresh_transform b"
  "fresh_transform (b\<lparr>rb_AtRest := f\<rparr>) = fresh_transform b" "fresh_transform (b\<lparr>rb_Elasticity := e\<rparr>) = fresh_transform b"
  "fresh_transform (b\<lparr>rb_Friction := e\<rparr>) = fresh_transform b" "fresh_transform (b\<lparr>Trigger := f\<rparr>) = fresh_transform b"
  "fresh_transform (b\<lparr>LinearVelocity := v\<rparr>) = fresh_transform b" "fresh_transform (b\<lparr>AngularVelocity := v\<rparr>) = fresh_transform b"
  "fresh_transform (b\<lparr>Force := v\<rparr>) = fresh_transform b" "fresh_transform (b\<lparr>Torque := v\<rparr>) = fresh_transform b"
  "fresh_transform (b\<lparr>InvInertia := m\<rparr>) = fresh_transform b" "fresh_transform (b\<lparr>InvMass := e\<rparr>) = fresh_transform b"
  "fresh_transform (b\<lparr>rb_Shape := s\<rparr>) = fresh_transform b" "fresh_transform (b\<lparr>AverageSummedVelocity := e\<rparr>) = fresh_transform b"
  "fresh_transform (b\<lparr>RestVelocityThresholdSquared := e\<rparr>) = fresh_transform b"
  by (simp_all add: fresh_transform_def)

lemma rebuild_coherent: "coherent (rebuild_inertia S b) = coherent b"
  by (simp add: rebuild_inertia_def coherent_def split: option.splits)

lemma mass_coherent: "coherent (b\<lparr>InvMass := e\<rparr>) = coherent b"
  by (simp add: coherent_def)

lemma GetWorldSpaceAABB_coherent:
  assumes "coherent b"
  shows "fst (GetWorldSpaceAABB b) = box_Transformed (fresh_transform b) (localBoundingBox b)" "coherent (snd (GetWorldSpaceAABB b))"
    "fst (GetWorldSpaceTransform b) = fresh_transform b" "coherent (snd (GetWorldSpaceTransform b))"
  using assms by (auto simp: GetWorldSpaceAABB_def GetWorldSpaceTransform_def coherent_def Let_def split: prod.splits)

lemma setters_coherent [inv_pres]:
  assumes "coherent b"
  shows "coherent (SetIsStatic f b)" "coherent (SetElasticity e b)" "coherent (SetFriction e b)" "coherent (SetIsAtRest f b)"
    "coherent (WakeUp b)" "coherent (SetIsTrigger f b)" "coherent (SetRestVelocityThreshold e b)" "coherent (SetLocalBoundingBox bb b)"
    "coherent (SetPosition v b)" "coherent (SetLinearVelocity v b)" "coherent (SetForce v b)" "coherent (SetAngularVelocity v b)"
    "coherent (SetTorque v b)" "coherent (SetInverseInertia m b)" "coherent (RestTest b)" "coherent (SetInverseMass S e b)"
  using assms mass_coherent [where b = b] rebuild_coherent [of S] by (simp_all add: coherent_def SetIsStatic_def SetElasticity_def SetFriction_def SetIsAtRest_def WakeUp_def
    SetIsTrigger_def SetRestVelocityThreshold_def SetLocalBoundingBox_def SetPosition_def SetLinearVelocity_def SetForce_def
    SetAngularVelocity_def SetTorque_def SetInverseInertia_def SetInverseMass_def RestTest_def Let_def)

lemma shape_setters_coherent [inv_pres]:
  assumes "coherent b"
  shows "AutoResizeBoundingBox huge S b = Inr c \<Longrightarrow> coherent c" "SetCollisionShape huge S s b = Inr c \<Longrightarrow> coherent c"
    "CollisionShapeUpdated huge S b = Inr c \<Longrightarrow> coherent c" "SetMass S e b = Inr c \<Longrightarrow> coherent c"
proof -
  have a: "coherent c" if "AutoResizeBoundingBox huge S d = Inr c" "coherent d" for c d
    using that by (auto elim!: Auto_Inr simp: coherent_def)
  show "AutoResizeBoundingBox huge S b = Inr c \<Longrightarrow> coherent c" using a assms by blast
  show "SetCollisionShape huge S s b = Inr c \<Longrightarrow> coherent c"
    using a assms by (simp add: SetCollisionShape_def coherent_def)
  show "CollisionShapeUpdated huge S b = Inr c \<Longrightarrow> coherent c"
    using a assms by (simp add: CollisionShapeUpdated_def rebuild_coherent)
  show "SetMass S e b = Inr c \<Longrightarrow> coherent c"
    using assms by (auto simp: SetMass_def rebuild_coherent mass_coherent split: if_splits)
qed

section \<open>The boxes contain the shape\<close>

lemma abs_sum3: "\<bar>a * x + b * y + c * z\<bar> \<le> \<bar>a\<bar> * e + \<bar>b\<bar> * f + \<bar>c\<bar> * (g :: 'f :: linordered_field)"
  if "\<bar>x\<bar> \<le> e" "\<bar>y\<bar> \<le> f" "\<bar>z\<bar> \<le> g"
proof -
  have "\<bar>a * x\<bar> \<le> \<bar>a\<bar> * e" "\<bar>b * y\<bar> \<le> \<bar>b\<bar> * f" "\<bar>c * z\<bar> \<le> \<bar>c\<bar> * g"
    using that by (simp_all add: abs_mult mult_left_mono)
  then show ?thesis by (simp only: abs_le_iff) linarith
qed

lemma Transformed_contains:
  assumes "affine m" and "in_box p b"
  shows "in_box (mat4_vec m p) (box_Transformed m b)"
proof -
  let ?c = "bb_Center b" and ?e = "vec_scale (bb_Size b) (1 / 2)"
  let ?d = "vec_sub p ?c"
  have d: "\<bar>vx ?d\<bar> \<le> vx ?e" "\<bar>vy ?d\<bar> \<le> vy ?e" "\<bar>vz ?d\<bar> \<le> vz ?e"
    using assms(2) by (auto simp: box_simps bb_Center_def bb_Size_def vec_defs field_simps abs_le_iff)
  have "mat4_vec m p = vec_add (vec_add (mat3_vec (ToMatrix3 m) ?c) (Translation m)) (mat3_vec (ToMatrix3 m) ?d)"
    by (simp add: affine_vec [OF assms(1)] mat3_vec_def vec_defs algebra_simps del: vec_op_simps flip: plus_vec3_def) (simp add: plus_vec3_def vec_add_def)
  then show ?thesis
    using abs_sum3 [OF d, of "n00 m" "n01 m" "n02 m"] abs_sum3 [OF d, of "n10 m" "n11 m" "n12 m"] abs_sum3 [OF d, of "n20 m" "n21 m" "n22 m"]
    by (simp add: box_Transformed_def Let_def box_simps vec_add_def vec_sub_def mat3_vec_def ToMatrix3_def abs_le_iff)
qed

lemma merge_extremes_contains:
  assumes "merge_extremes s axis box = Inr c" and "in_shape s None p" and "affine (m_LocalTransform s)" and "LengthSquared axis = 1"
    and "0 \<le> m_Radius s" and "flat_capsule s"
  obtains lo hi where "in_box lo c" "in_box hi c" "DotProduct axis lo \<le> DotProduct axis p" "DotProduct axis p \<le> DotProduct axis hi"
proof -
  obtain lo hi where e: "GetMinMaxVertexOnAxis s None axis = Inr (lo, hi)" "c = Merge_point hi (Merge_point lo box)"
    using assms(1) by (auto simp: merge_extremes_def rbind_eq_Inr)
  have "affine (ws_transform s None)" using assms(3) by (simp add: ws_transform_def)
  from support [OF e(1) assms(2) this assms(4-6)] show ?thesis
    using that merge_point_box(1) [of hi] box_le_in [OF merge_point_box(2) merge_point_box(1)] e(2) by blast
qed

definition sound_shape :: "shape \<Rightarrow> bool" where
  "sound_shape s \<longleftrightarrow> affine (m_LocalTransform s) \<and> 0 \<le> m_Radius s \<and> flat_capsule s"

lemma AutoResize_contains:
  assumes "AutoResizeBoundingBox huge S b = Inr c" and "rb_Shape b = Some s" and "sound_shape (S s)" and "in_shape (S s) None p"
  shows "in_box p (localBoundingBox c)"
proof -
  have snd: "affine (m_LocalTransform (S s))" "0 \<le> m_Radius (S s)" "flat_capsule (S s)" using assms(3) by (auto simp: sound_shape_def)
  obtain b1 b2 b3 where e: "merge_extremes (S s) (Vec3 1 0 0) (bb_Clear huge) = Inr b1" "merge_extremes (S s) (Vec3 0 1 0) b1 = Inr b2"
    "merge_extremes (S s) (Vec3 0 0 1) b2 = Inr b3" "localBoundingBox c = b3"
    using assms(1,2) by (auto simp: AutoResizeBoundingBox_def Let_def rbind_eq_Inr)
  have unit: "LengthSquared (Vec3 1 0 0 :: real vec3) = 1" "LengthSquared (Vec3 0 1 0 :: real vec3) = 1"
    "LengthSquared (Vec3 0 0 1 :: real vec3) = 1" by (simp_all add: LengthSquared_def)
  have le: "box_le b1 b3" "box_le b2 b3" using e(2,3) by (blast intro: merge_extremes_ok box_le_trans)+
  obtain lx hx where "in_box lx b1" "in_box hx b1" "vx lx \<le> vx p" "vx p \<le> vx hx"
    by (rule merge_extremes_contains [OF e(1) assms(4) snd(1) unit(1) snd(2,3)]) (simp add: DotProduct_def)
  then have "vx (bb_min b3) \<le> vx p \<and> vx p \<le> vx (bb_max b3)" using le(1) by (auto simp: box_simps)
  moreover
  obtain ly hy where "in_box ly b2" "in_box hy b2" "vy ly \<le> vy p" "vy p \<le> vy hy"
    by (rule merge_extremes_contains [OF e(2) assms(4) snd(1) unit(2) snd(2,3)]) (simp add: DotProduct_def)
  then have "vy (bb_min b3) \<le> vy p \<and> vy p \<le> vy (bb_max b3)" using le(2) by (auto simp: box_simps)
  moreover
  obtain lz hz where "in_box lz b3" "in_box hz b3" "vz lz \<le> vz p" "vz p \<le> vz hz"
    by (rule merge_extremes_contains [OF e(3) assms(4) snd(1) unit(3) snd(2,3)]) (simp add: DotProduct_def)
  then have "vz (bb_min b3) \<le> vz p \<and> vz p \<le> vz (bb_max b3)" by (auto simp: box_simps)
  ultimately show ?thesis unfolding e(4) by (simp add: box_simps)
qed

section \<open>A body in service\<close>

text \<open>\<open>MoveTo\<close> is how the engine writes the pose, with both caches invalidated. The calls that touch neither the pose nor
  the local box come first.\<close>

definition MoveTo :: "real vec3 \<Rightarrow> real quat \<Rightarrow> rigid_body \<Rightarrow> rigid_body" where
  "MoveTo v q b = SetPosition v (SetOrientation q b)"

inductive body_call :: "(nat \<Rightarrow> shape) \<Rightarrow> rigid_body \<Rightarrow> rigid_body \<Rightarrow> bool" for S where
  call_static: "body_call S b (SetIsStatic f b)"
| call_elasticity: "body_call S b (SetElasticity e b)"
| call_friction: "body_call S b (SetFriction e b)"
| call_rest: "body_call S b (SetIsAtRest f b)"
| call_wake: "body_call S b (WakeUp b)"
| call_trigger: "body_call S b (SetIsTrigger f b)"
| call_threshold: "body_call S b (SetRestVelocityThreshold e b)"
| call_velocity: "body_call S b (SetLinearVelocity v b)"
| call_force: "body_call S b (SetForce v b)"
| call_spin: "body_call S b (SetAngularVelocity v b)"
| call_torque: "body_call S b (SetTorque v b)"
| call_inertia: "body_call S b (SetInverseInertia m b)"
| call_inverse_mass: "body_call S b (SetInverseMass S e b)"
| call_mass: "SetMass S e b = Inr c \<Longrightarrow> body_call S b c"
| call_rest_test: "body_call S b (RestTest b)"
| call_transform: "body_call S b (snd (GetWorldSpaceTransform b))"
| call_box: "body_call S b (snd (GetWorldSpaceAABB b))"

text \<open>A body and the store of shapes through any sequence of the public calls, changes of the shapes by others included. The first
  flag says whether \<open>SetOrientation\<close> turned the body after its world box was computed and nothing has invalidated the box since; the
  second whether the local box was taken from the shape as it is now.\<close>

inductive served :: "real \<Rightarrow> rigid_body \<Rightarrow> (nat \<Rightarrow> shape) \<Rightarrow> bool \<Rightarrow> bool \<Rightarrow> bool" for huge where
  created: "new_RigidBody huge S p = Inr b \<Longrightarrow> served huge b S False True"
| called: "served huge b S turned fits \<Longrightarrow> body_call S b c \<Longrightarrow> served huge c S turned fits"
| turned: "served huge b S turned fits \<Longrightarrow> served huge (SetOrientation q b) S (turned \<or> \<not> wsAabbInvalidated b) fits"
| positioned: "served huge b S turned fits \<Longrightarrow> served huge (SetPosition v b) S False fits"
| moved: "served huge b S turned fits \<Longrightarrow> served huge (MoveTo v q b) S False fits"
| box_set: "served huge b S turned fits \<Longrightarrow> served huge (SetLocalBoundingBox box b) S False False"
| resized: "served huge b S turned fits \<Longrightarrow> AutoResizeBoundingBox huge S b = Inr c \<Longrightarrow> served huge c S False True"
| shape_set: "served huge b S turned fits \<Longrightarrow> SetCollisionShape huge S s b = Inr c \<Longrightarrow> served huge c S False True"
| shape_updated: "served huge b S turned fits \<Longrightarrow> CollisionShapeUpdated huge S b = Inr c \<Longrightarrow> served huge c S False True"
| type_set: "served huge b S turned fits \<Longrightarrow> SetCollisionShapeType huge fresh t (b, S) = Inr (c, S') \<Longrightarrow>
    served huge c S' (turned \<and> default_shape t = None) (fits \<or> default_shape t \<noteq> None)"
| shape_changed: "served huge b S turned fits \<Longrightarrow> served huge b (S(s := shape)) turned (fits \<and> rb_Shape b \<noteq> Some s)"

text \<open>The bodies the engine meets: boxed by their shape and not turned behind the back of their world box.\<close>

definition in_service :: "real \<Rightarrow> (nat \<Rightarrow> shape) \<Rightarrow> rigid_body \<Rightarrow> bool" where
  "in_service huge S b \<longleftrightarrow> served huge b S False True"

text \<open>The local box of a body with a shape contains the shape.\<close>

definition boxed :: "(nat \<Rightarrow> shape) \<Rightarrow> rigid_body \<Rightarrow> bool" where
  "boxed S b \<longleftrightarrow> (\<forall>s p. rb_Shape b = Some s \<longrightarrow> sound_shape (S s) \<longrightarrow> in_shape (S s) None p \<longrightarrow> in_box p (localBoundingBox b))"

lemma rebuild_simps [simp]: "rb_Shape (rebuild_inertia S b) = rb_Shape b" "localBoundingBox (rebuild_inertia S b) = localBoundingBox b"
  by (simp_all add: rebuild_inertia_def split: option.splits)

lemma boxed_cong: "rb_Shape c = rb_Shape b \<Longrightarrow> localBoundingBox c = localBoundingBox b \<Longrightarrow> boxed S b \<Longrightarrow> boxed S c"
  by (simp add: boxed_def)

lemma AutoResize_boxed: "AutoResizeBoundingBox huge S b = Inr c \<Longrightarrow> boxed S c"
  unfolding boxed_def
proof (intro allI impI)
  fix s p
  assume a: "AutoResizeBoundingBox huge S b = Inr c" and c: "rb_Shape c = Some s" "sound_shape (S s)" "in_shape (S s) None p"
  from a c(1) have "rb_Shape b = Some s" by (auto elim: Auto_Inr)
  from AutoResize_contains [OF a this c(2,3)] show "in_box p (localBoundingBox c)" .
qed

definition transform_ok :: "rigid_body \<Rightarrow> bool" where
  "transform_ok b \<longleftrightarrow> wsTransformInvalidated b \<or> wsTransform b = fresh_transform b"

lemma coherent_transform: "coherent b \<Longrightarrow> transform_ok b"
  by (simp add: coherent_def transform_ok_def)

lemma pose_coherent: "coherent (SetPosition v b)" "coherent (MoveTo v q b)" "transform_ok (SetOrientation q b)"
  by (simp_all add: MoveTo_def SetPosition_def SetOrientation_def coherent_def transform_ok_def)

lemma resized_coherent:
  assumes "transform_ok b"
  shows "AutoResizeBoundingBox huge S b = Inr c \<Longrightarrow> coherent c" "SetCollisionShape huge S s b = Inr c \<Longrightarrow> coherent c"
    "CollisionShapeUpdated huge S b = Inr c \<Longrightarrow> coherent c" "coherent (SetLocalBoundingBox box b)"
proof -
  have a: "coherent c" if "AutoResizeBoundingBox huge S d = Inr c" "transform_ok d" for c d
    using that by (auto elim!: Auto_Inr simp: coherent_def transform_ok_def)
  show "AutoResizeBoundingBox huge S b = Inr c \<Longrightarrow> coherent c" using a assms by blast
  show "SetCollisionShape huge S s b = Inr c \<Longrightarrow> coherent c"
    using a assms by (simp add: SetCollisionShape_def transform_ok_def)
  show "CollisionShapeUpdated huge S b = Inr c \<Longrightarrow> coherent c"
    using a assms by (simp add: CollisionShapeUpdated_def transform_ok_def rebuild_inertia_def split: option.splits)
  show "coherent (SetLocalBoundingBox box b)" using assms by (simp add: SetLocalBoundingBox_def coherent_def transform_ok_def)
qed

lemma GetWorldSpaceAABB_kept [simp]:
  "rb_Shape (snd (GetWorldSpaceAABB b)) = rb_Shape b" "localBoundingBox (snd (GetWorldSpaceAABB b)) = localBoundingBox b"
  by (simp_all add: GetWorldSpaceAABB_def GetWorldSpaceTransform_def Let_def)

lemma setters_boxed:
  assumes "boxed S b"
  shows "boxed S (SetIsStatic f b)" "boxed S (SetElasticity e b)" "boxed S (SetFriction e b)" "boxed S (SetIsAtRest f b)" "boxed S (WakeUp b)"
    "boxed S (SetIsTrigger f b)" "boxed S (SetRestVelocityThreshold e b)" "boxed S (SetPosition v b)" "boxed S (SetOrientation q b)"
    "boxed S (MoveTo v q b)" "boxed S (SetLinearVelocity v b)" "boxed S (SetForce v b)" "boxed S (SetAngularVelocity v b)" "boxed S (SetTorque v b)"
    "boxed S (SetInverseInertia m b)" "boxed S (SetInverseMass S e b)" "boxed S (RestTest b)"
    "boxed S (snd (GetWorldSpaceTransform b))" "boxed S (snd (GetWorldSpaceAABB b))"
  by (rule boxed_cong [OF _ _ assms]; simp add: SetIsStatic_def SetElasticity_def SetFriction_def SetIsAtRest_def WakeUp_def SetIsTrigger_def
    SetRestVelocityThreshold_def SetPosition_def MoveTo_def SetOrientation_def SetLinearVelocity_def SetForce_def SetAngularVelocity_def SetTorque_def
    SetInverseInertia_def SetInverseMass_def RestTest_def GetWorldSpaceTransform_def Let_def)+

lemma shape_setters_boxed:
  "SetCollisionShape huge S s b = Inr c \<Longrightarrow> boxed S c" "CollisionShapeUpdated huge S b = Inr c \<Longrightarrow> boxed S c"
  "SetMass S e b = Inr c \<Longrightarrow> boxed S b \<Longrightarrow> boxed S c"
  by (auto simp: SetCollisionShape_def CollisionShapeUpdated_def SetMass_def intro: AutoResize_boxed boxed_cong [rotated 2] split: if_splits)

lemma call_boxed: "body_call S b c \<Longrightarrow> boxed S b \<Longrightarrow> boxed S c"
  by (induction rule: body_call.induct) (simp_all add: setters_boxed shape_setters_boxed(3))

lemma call_coherent: "body_call S b c \<Longrightarrow> coherent b \<Longrightarrow> coherent c"
  by (induction rule: body_call.induct) (simp_all add: setters_coherent shape_setters_coherent(4) GetWorldSpaceAABB_coherent(2,4))

lemma call_transform_ok: "body_call S b c \<Longrightarrow> transform_ok b \<Longrightarrow> transform_ok c"
  by (induction rule: body_call.induct) (auto simp: transform_ok_def SetIsStatic_def SetElasticity_def SetFriction_def SetIsAtRest_def WakeUp_def
    SetIsTrigger_def SetRestVelocityThreshold_def SetLinearVelocity_def SetForce_def SetAngularVelocity_def SetTorque_def SetInverseInertia_def
    SetInverseMass_def SetMass_def rebuild_inertia_def RestTest_def GetWorldSpaceTransform_def GetWorldSpaceAABB_def Let_def
    split: option.splits if_splits)

lemma boxed_elsewhere: "boxed S b \<Longrightarrow> rb_Shape b \<noteq> Some s \<Longrightarrow> boxed (S(s := shape)) b"
  by (auto simp: boxed_def)

lemma new_keeps:
  assumes "new_RigidBody huge S p = Inr b"
  shows "coherent b \<and> boxed S b"
proof -
  have pass: "coherent (c\<lparr>rb_Static := f, rb_AtRest := g, rb_Elasticity := e, rb_Friction := h\<rparr>) = coherent c"
    "boxed S (c\<lparr>rb_Static := f, rb_AtRest := g, rb_Elasticity := e, rb_Friction := h\<rparr>) = boxed S c" for c f g e h
    by (simp_all add: coherent_def boxed_def)
  have start: "coherent (c\<lparr>wsTransformInvalidated := True, wsAabbInvalidated := True\<rparr>)" for c by (simp add: coherent_def)
  show ?thesis
  proof (cases "p_Shape p")
    case None
    with assms show ?thesis by (auto simp: new_RigidBody_def coherent_def boxed_def Let_def split: if_splits)
  next
    case (Some s)
    with assms obtain d c where "SetCollisionShape huge S s d = Inr c" "coherent d"
      and b: "b = c\<lparr>rb_Static := p_Static p, rb_AtRest := p_AtRest p, rb_Elasticity := p_Elasticity p, rb_Friction := p_Friction p\<rparr>"
      by (fastforce simp: new_RigidBody_def Let_def rbind_eq_Inr coherent_def split: if_splits)
    then show ?thesis using shape_setters_coherent(2) shape_setters_boxed(1) unfolding b pass by blast
  qed
qed

lemma served_invariant: "served huge b S u f \<Longrightarrow> transform_ok b \<and> (\<not> u \<longrightarrow> coherent b) \<and> (f \<longrightarrow> boxed S b)"
proof (induction rule: served.induct)
  case (created S p b)
  then show ?case using new_keeps coherent_transform by blast
next
  case (called b S turned fits c)
  then show ?case using call_coherent call_boxed call_transform_ok by blast
next
  case (turned b S turned fits q)
  then have "coherent (SetOrientation q b)" if "\<not> turned" "wsAabbInvalidated b" using that by (simp add: coherent_def SetOrientation_def)
  with turned show ?case using pose_coherent(3) setters_boxed(9) by blast
next
  case (positioned b S turned fits v)
  then show ?case using pose_coherent(1) coherent_transform setters_boxed(8) by blast
next
  case (moved b S turned fits v q)
  then show ?case using pose_coherent(2) coherent_transform setters_boxed(10) by blast
next
  case (box_set b S turned fits box)
  then show ?case using resized_coherent(4) coherent_transform by blast
next
  case (resized b S turned fits c)
  then show ?case using resized_coherent(1) coherent_transform AutoResize_boxed by blast
next
  case (shape_set b S turned fits s c)
  then show ?case using resized_coherent(2) coherent_transform shape_setters_boxed(1) by blast
next
  case (shape_updated b S turned fits c)
  then show ?case using resized_coherent(3) coherent_transform shape_setters_boxed(2) by blast
next
  case (type_set b S turned fits fresh t c S')
  show ?case
  proof (cases "default_shape t")
    case None
    with type_set show ?thesis by (simp add: SetCollisionShapeType_def)
  next
    case (Some sh)
    with type_set(2) have "SetCollisionShape huge S' fresh b = Inr c"
      by (auto simp: SetCollisionShapeType_def Let_def rbind_eq_Inr)
    then show ?thesis using type_set.IH resized_coherent(2) coherent_transform shape_setters_boxed(1) by blast
  qed
next
  case (shape_changed b S turned fits s shape)
  then show ?case using boxed_elsewhere by blast
qed

lemma service_invariant: "in_service huge S b \<Longrightarrow> coherent b \<and> boxed S b"
  using served_invariant by (auto simp: in_service_def)

lemma created_in_service: "new_RigidBody huge S p = Inr b \<Longrightarrow> in_service huge S b"
  by (simp add: in_service_def served.created)

lemma fresh_affine: "affine (fresh_transform b)"
  by (simp add: fresh_transform_def affine_def SetTranslation_def RotationMatrix4_def mat4_of_mat3_def)

text \<open>Property C32. Whatever sequence of the public calls a body goes through, and whoever changes its shape, the box its
  \<open>GetWorldSpaceAABB\<close> returns, cached or computed, is the one of its current pose, unless \<open>SetOrientation\<close> turned the body after the
  box was computed and nothing has invalidated the box since. It contains every point of the shape placed at that pose, unless the
  local box was set by hand, or the shape changed, and the local box has not been taken from the shape since. Capsules of
  some height are excepted. Reading the box twice returns the same box.\<close>
theorem world_box_contains_shape:
  assumes "served huge b S turned fits"
  shows "(\<not> turned \<longrightarrow> fst (GetWorldSpaceAABB b) = box_Transformed (fresh_transform b) (localBoundingBox b))
    \<and> (\<not> turned \<and> fits \<and> rb_Shape b = Some s \<and> sound_shape (S s) \<and> in_shape (S s) None p \<longrightarrow>
         in_box (mat4_vec (fresh_transform b) p) (fst (GetWorldSpaceAABB b)))
    \<and> fst (GetWorldSpaceAABB (snd (GetWorldSpaceAABB b))) = fst (GetWorldSpaceAABB b)"
proof -
  have box: "fst (GetWorldSpaceAABB b) = box_Transformed (fresh_transform b) (localBoundingBox b)" if "\<not> turned"
    using GetWorldSpaceAABB_coherent(1) served_invariant [OF assms] that by blast
  have "in_box (mat4_vec (fresh_transform b) p) (fst (GetWorldSpaceAABB b))"
    if "\<not> turned" "fits" "rb_Shape b = Some s" "sound_shape (S s)" "in_shape (S s) None p"
  proof -
    have "in_box p (localBoundingBox b)" using served_invariant [OF assms] that(2-5) by (simp add: boxed_def)
    then show ?thesis unfolding box [OF that(1)] by (rule Transformed_contains [OF fresh_affine])
  qed
  moreover have "fst (GetWorldSpaceAABB (snd (GetWorldSpaceAABB b))) = fst (GetWorldSpaceAABB b)"
    by (auto simp: GetWorldSpaceAABB_def Let_def split: prod.splits)
  ultimately show ?thesis using box by blast
qed

text \<open>A ball at the origin of the space of its body, in service.\<close>

definition ball_properties :: rb_properties where
  "ball_properties = default_properties\<lparr>p_Shape := Some 0, p_Position := Vec3 3 0 0\<rparr>"

lemma ball_created: "\<exists>b. new_RigidBody 1000 (\<lambda>_. new_Sphere 2) ball_properties = Inr b \<and> rb_Shape b = Some 0"
  by (simp add: new_RigidBody_def ball_properties_def default_properties_def SetCollisionShape_def AutoResizeBoundingBox_def
      merge_extremes_def GetMinMaxVertexOnAxis_def new_Sphere_def blank_shape_def Let_def)

theorem world_box_contains_shape_witness:
  "\<exists>b. new_RigidBody 1000 (\<lambda>_. new_Sphere 2) ball_properties = Inr b
     \<and> in_box (mat4_vec (fresh_transform b) (Vec3 0 1 1)) (fst (GetWorldSpaceAABB b))"
proof -
  obtain b where b: "new_RigidBody 1000 (\<lambda>_. new_Sphere 2) ball_properties = Inr b" "rb_Shape b = Some 0" using ball_created by blast
  have "sound_shape (new_Sphere 2)" "in_shape (new_Sphere 2) None (Vec3 0 1 1)"
    by (simp_all add: sound_shape_def flat_capsule_def new_Sphere_def blank_shape_def in_shape_def ws_transform_def affine_def scale_matrix_def
        mat4_SetScale_def mat4_id_def Translation_def LengthSquared_def vec_defs Let_def)
  with world_box_contains_shape [OF served.created [OF b(1)], of 0 "Vec3 0 1 1"] b show ?thesis by blast
qed

text \<open>\<open>SetOrientation\<close> invalidates the transform but not the box: a box read before a turn of the body is returned after it.\<close>

definition unit_body :: rigid_body where
  "unit_body = \<lparr>rb_Static = False, rb_AtRest = False, rb_Elasticity = 9 / 10, rb_Friction = 8 / 10, wsTransformInvalidated = True,
     RestVelocityThresholdSquared = 1 / 1000, AverageSummedVelocity = 0, wsTransform = mat4_id,
     localBoundingBox = mk_box (Vec3 (- (1 / 2)) (- (1 / 2)) (- (1 / 2))) (Vec3 (1 / 2) (1 / 2) (1 / 2)), wsAabbInvalidated = True,
     wsAabb = bb_Clear 1000, rb_Position = Vec3 0 0 0, LinearVelocity = Vec3 0 0 0, Force = Vec3 0 0 0, InvMass = 1, Trigger = False,
     Orientation = quat_id, AngularVelocity = Vec3 0 0 0, Torque = Vec3 0 0 0, InvInertia = diagonal 1 1 1, rb_Shape = None\<rparr>"

lemma SetOrientation_leaves_stale_box:
  "let b = SetOrientation (Quat (3 / 5) 0 0 (4 / 5)) (snd (GetWorldSpaceAABB unit_body))
   in fst (GetWorldSpaceAABB b) \<noteq> box_Transformed (fresh_transform b) (localBoundingBox b)
     \<and> \<not> in_box (mat4_vec (fresh_transform b) (Vec3 (1 / 2) (1 / 2) 0)) (fst (GetWorldSpaceAABB b))"
  by (simp add: Let_def SetOrientation_def GetWorldSpaceAABB_def GetWorldSpaceTransform_def unit_body_def fresh_transform_def box_Transformed_def
      RotationMatrix4_def RotationMatrix_def mat4_of_mat3_def SetTranslation_def ToMatrix3_def Translation_def bb_Center_def bb_Size_def
      mat3_vec_def mat4_vec_def vec_defs quat_defs mk_box_def box_simps)

end
