(* ===== verification/Manifolds.thy ===== *)
theory Manifolds
  imports RigidBodies
begin

text \<open>
  Contact manifolds (\<open>Physics/LumosPhysicsEngine/Manifold.*\<close>): the contact points of a pair of bodies and the
  sequential impulses that resolve them. The bodies live in a store and are named by their index. A manifold
  keeps the used part of its array of eight contacts; entries behind the count are never read.
\<close>

record contact =
  sumImpulseContact :: real
  sumImpulseFriction :: real
  elatisity_term :: real
  collisionPenetration :: real
  collisionNormal :: "real vec3"
  relPosA :: "real vec3"
  relPosB :: "real vec3"

record manifold =
  m_pNodeA :: nat
  m_pNodeB :: nat
  m_vContacts :: "contact list"

type_synonym bodies = "nat \<Rightarrow> rigid_body"

definition MAX_CONTACT_POINTS :: nat where "MAX_CONTACT_POINTS = 8"

definition Initiate :: "nat \<Rightarrow> nat \<Rightarrow> manifold" where
  "Initiate a b = \<lparr>m_pNodeA = a, m_pNodeB = b, m_vContacts = []\<rparr>"

section \<open>Adding a contact\<close>

definition swap_remove :: "nat \<Rightarrow> 'a list \<Rightarrow> 'a list" where
  "swap_remove i xs = butlast (xs[i := last xs])"

definition close :: "contact \<Rightarrow> contact \<Rightarrow> bool" where
  "close c d \<longleftrightarrow> (let ab = vec_sub (relPosA c) (relPosA d) in DotProduct ab ab < 2 / 10 * (2 / 10))"

text \<open>A shallower contact nearby is replaced by the last one, and the loop goes on behind it.\<close>

function add_loop :: "contact \<Rightarrow> nat \<Rightarrow> contact list \<Rightarrow> bool \<Rightarrow> contact list \<times> bool" where
  "add_loop c i cs should_add =
    (if i < length cs
     then (if close (cs ! i) c
           then (if collisionPenetration (cs ! i) > collisionPenetration c
                 then add_loop c (Suc i) (swap_remove i cs) should_add
                 else add_loop c (Suc i) cs False)
           else add_loop c (Suc i) cs should_add)
     else (cs, should_add))"
  by pat_completeness auto
termination by (relation "measure (\<lambda>(c, i, cs, s). length cs - i)") (auto simp: swap_remove_def)

declare add_loop.simps [simp del]

definition new_contact :: "bodies \<Rightarrow> manifold \<Rightarrow> real vec3 \<Rightarrow> real vec3 \<Rightarrow> real vec3 \<Rightarrow> real \<Rightarrow> contact" where
  "new_contact W M globalOnA globalOnB normal penetration =
    \<lparr>sumImpulseContact = 0, sumImpulseFriction = 0, elatisity_term = 1, collisionPenetration = penetration, collisionNormal = normal,
     relPosA = vec_sub globalOnA (rb_Position (W (m_pNodeA M))), relPosB = vec_sub globalOnB (rb_Position (W (m_pNodeB M)))\<rparr>"

definition AddContact :: "bodies \<Rightarrow> real vec3 \<Rightarrow> real vec3 \<Rightarrow> real vec3 \<Rightarrow> real \<Rightarrow> manifold \<Rightarrow> manifold res" where
  "AddContact W globalOnA globalOnB normal penetration M =
    (let c = new_contact W M globalOnA globalOnB normal penetration; (cs, should_add) = add_loop c 0 (m_vContacts M) True
     in if \<not> should_add then ok (M\<lparr>m_vContacts := cs\<rparr>)
     else if length cs < MAX_CONTACT_POINTS then ok (M\<lparr>m_vContacts := cs @ [c]\<rparr>)
     else fail OutOfRange)"

section \<open>The solver\<close>

definition upd :: "nat \<Rightarrow> (rigid_body \<Rightarrow> rigid_body) \<Rightarrow> bodies \<Rightarrow> bodies" where
  "upd a f W = W(a := f (W a))"

definition point_velocity :: "rigid_body \<Rightarrow> real vec3 \<Rightarrow> real vec3" where
  "point_velocity b r = vec_add (LinearVelocity b) (CrossProduct (AngularVelocity b) r)"

definition constraint_mass :: "rigid_body \<Rightarrow> rigid_body \<Rightarrow> real vec3 \<Rightarrow> real vec3 \<Rightarrow> real vec3 \<Rightarrow> real" where
  "constraint_mass A B r1 r2 n = (InvMass A + InvMass B)
     + DotProduct n (vec_add (CrossProduct (mat3_vec (InvInertia A) (CrossProduct r1 n)) r1)
         (CrossProduct (mat3_vec (InvInertia B) (CrossProduct r2 n)) r2))"

definition push_linear :: "real vec3 \<Rightarrow> real \<Rightarrow> rigid_body \<Rightarrow> rigid_body" where
  "push_linear n j x = SetLinearVelocity (vec_add (LinearVelocity x) (vec_scale n (j * InvMass x))) x"

definition push_back_linear :: "real vec3 \<Rightarrow> real \<Rightarrow> rigid_body \<Rightarrow> rigid_body" where
  "push_back_linear n j x = SetLinearVelocity (vec_sub (LinearVelocity x) (vec_scale n (j * InvMass x))) x"

definition push_angular :: "real vec3 \<Rightarrow> real vec3 \<Rightarrow> real \<Rightarrow> rigid_body \<Rightarrow> rigid_body" where
  "push_angular r n j x = SetAngularVelocity (vec_add (AngularVelocity x) (mat3_vec (InvInertia x) (CrossProduct r (vec_scale n j)))) x"

definition push_back_angular :: "real vec3 \<Rightarrow> real vec3 \<Rightarrow> real \<Rightarrow> rigid_body \<Rightarrow> rigid_body" where
  "push_back_angular r n j x = SetAngularVelocity (vec_sub (AngularVelocity x) (mat3_vec (InvInertia x) (CrossProduct r (vec_scale n j)))) x"

text \<open>The four updates of an impulse \<open>j\<close> along \<open>n\<close>, in order.\<close>

definition apply_pair :: "nat \<Rightarrow> nat \<Rightarrow> real vec3 \<Rightarrow> real vec3 \<Rightarrow> real vec3 \<Rightarrow> real \<Rightarrow> bodies \<Rightarrow> bodies" where
  "apply_pair a b r1 r2 n j W =
    upd b (push_back_angular r2 n j) (upd a (push_angular r1 n j) (upd b (push_back_linear n j) (upd a (push_linear n j) W)))"

definition bias :: "real \<Rightarrow> contact \<Rightarrow> real" where
  "bias dt c = (let baumgarteScalar = 3 / 10; baumgarteSlop = 1 / 1000; penetrationSlop = Min (collisionPenetration c + baumgarteSlop) 0;
     b = - (baumgarteScalar / dt) * penetrationSlop in Max b (elatisity_term c + b * (2 / 10)))"

definition solve_normal :: "real \<Rightarrow> nat \<Rightarrow> nat \<Rightarrow> real vec3 \<Rightarrow> contact \<times> bodies \<Rightarrow> contact \<times> bodies" where
  "solve_normal dt a b dv = (\<lambda>(c, W).
    let n = collisionNormal c; jn = - (DotProduct dv n + bias dt c) / constraint_mass (W a) (W b) (relPosA c) (relPosB c) n;
        s = Min (sumImpulseContact c + jn) 0
    in (c\<lparr>sumImpulseContact := s\<rparr>, apply_pair a b (relPosA c) (relPosB c) n (s - sumImpulseContact c) W))"

definition solve_friction :: "nat \<Rightarrow> nat \<Rightarrow> real vec3 \<Rightarrow> contact \<times> bodies \<Rightarrow> contact \<times> bodies" where
  "solve_friction a b dv = (\<lambda>(c, W).
    let n = collisionNormal c; t = vec_sub dv (vec_scale n (DotProduct dv n)); len = vec_Length t in
    if len > 1 / 1000
    then (let t = vec_scale t (1 / len); frictionalMass = constraint_mass (W a) (W b) (relPosA c) (relPosB c) t;
              frictionCoef = sqrt (rb_Friction (W a) * rb_Friction (W b));
              jt = - 1 * frictionCoef * DotProduct dv t / frictionalMass; maxJt = frictionCoef * sumImpulseContact c;
              s = Min (Max (sumImpulseFriction c + jt) maxJt) (- maxJt)
          in (c\<lparr>sumImpulseFriction := s\<rparr>, apply_pair a b (relPosA c) (relPosB c) t (s - sumImpulseFriction c) W))
    else (c, W))"

definition SolveContactPoint :: "real \<Rightarrow> manifold \<Rightarrow> contact \<Rightarrow> bodies \<Rightarrow> contact \<times> bodies" where
  "SolveContactPoint dt M c W =
    (let a = m_pNodeA M; b = m_pNodeB M in
     if InvMass (W a) + InvMass (W b) = 0 then (c, W)
     else (let dv = vec_sub (point_velocity (W a) (relPosA c)) (point_velocity (W b) (relPosB c))
           in solve_friction a b dv (solve_normal dt a b dv (c, W))))"

fun solve_contacts :: "real \<Rightarrow> manifold \<Rightarrow> contact list \<Rightarrow> bodies \<Rightarrow> contact list \<times> bodies" where
  "solve_contacts dt M [] W = ([], W)"
| "solve_contacts dt M (c # cs) W =
    (let (c1, W1) = SolveContactPoint dt M c W; (cs1, W2) = solve_contacts dt M cs W1 in (c1 # cs1, W2))"

definition ApplyImpulse :: "real \<Rightarrow> manifold \<Rightarrow> bodies \<Rightarrow> manifold \<times> bodies" where
  "ApplyImpulse dt M W = (let (cs, W1) = solve_contacts dt M (m_vContacts M) W in (M\<lparr>m_vContacts := cs\<rparr>, W1))"

definition UpdateConstraint :: "bodies \<Rightarrow> manifold \<Rightarrow> contact \<Rightarrow> contact" where
  "UpdateConstraint W M c =
    (let A = W (m_pNodeA M); B = W (m_pNodeB M); elasticity = sqrt (rb_Elasticity A * rb_Elasticity B);
         e = elasticity * DotProduct (collisionNormal c)
               (vec_sub (vec_sub (vec_add (LinearVelocity A) (CrossProduct (relPosA c) (AngularVelocity A))) (LinearVelocity B))
                  (CrossProduct (relPosB c) (AngularVelocity B)))
     in c\<lparr>sumImpulseContact := 0, sumImpulseFriction := 0,
          elatisity_term := (if e < 0 then 0 else if e < 2 / 10 then 0 else e)\<rparr>)"

definition PreSolverStep :: "bodies \<Rightarrow> manifold \<Rightarrow> manifold" where
  "PreSolverStep W M = M\<lparr>m_vContacts := map (UpdateConstraint W M) (m_vContacts M)\<rparr>"

section \<open>What a manifold keeps of its contacts\<close>

lemma swap_remove_simps:
  assumes "i < length xs"
  shows "length (swap_remove i xs) = length xs - 1" "j < i \<Longrightarrow> swap_remove i xs ! j = xs ! j"
    "mset (swap_remove i xs) = mset xs - {#xs ! i#}"
proof -
  show "length (swap_remove i xs) = length xs - 1" by (simp add: swap_remove_def)
  show "j < i \<Longrightarrow> swap_remove i xs ! j = xs ! j" using assms by (simp add: swap_remove_def nth_butlast)
  obtain ys x where xs: "xs = ys @ [x]" using assms by (cases xs rule: rev_cases) auto
  show "mset (swap_remove i xs) = mset xs - {#xs ! i#}"
  proof (cases "i = length ys")
    case True
    then show ?thesis by (simp add: swap_remove_def xs)
  next
    case False
    with assms have "i < length ys" by (simp add: xs)
    then show ?thesis by (simp add: swap_remove_def xs list_update_append butlast_append mset_update nth_append)
  qed
qed

text \<open>The contacts that the loop drops, and the witness that stops the new one from being added.\<close>


definition dominated :: "contact \<Rightarrow> contact \<Rightarrow> bool" where
  "dominated c x \<longleftrightarrow> close x c \<and> collisionPenetration c < collisionPenetration x"

definition dominates :: "contact \<Rightarrow> contact \<Rightarrow> bool" where
  "dominates c y \<longleftrightarrow> close y c \<and> collisionPenetration y \<le> collisionPenetration c"

lemma prefix_step: "Suc i \<le> length ds \<Longrightarrow> take (Suc i) ds = take (Suc i) cs \<Longrightarrow> i \<le> length ds \<and> take i ds = take i cs"
  by (metis Suc_leD min.absorb1 take_take lessI less_imp_le_nat)

lemma add_loop_spec:
  assumes "add_loop c i cs add = (ds, flag)"
  shows "mset ds \<subseteq># mset cs \<and> (\<forall>x. x \<in># mset cs - mset ds \<longrightarrow> dominated c x)
    \<and> (i \<le> length cs \<longrightarrow> i \<le> length ds \<and> take i ds = take i cs)
    \<and> (flag \<longrightarrow> add) \<and> (\<not> flag \<longrightarrow> \<not> add \<or> (\<exists>y \<in> set ds. dominates c y))"
  using assms
proof (induction c i cs add rule: add_loop.induct)
  case (1 c i cs add)
  show ?case
  proof (cases "i < length cs")
    case False
    with "1.prems" show ?thesis by (simp add: add_loop.simps)
  next
    case i: True
    consider (swap) "close (cs ! i) c" "collisionPenetration (cs ! i) > collisionPenetration c"
      | (keep) "dominates c (cs ! i)" | (apart) "\<not> close (cs ! i) c"
      unfolding dominates_def by fastforce
    then show ?thesis
    proof cases
      case swap
      note sr = swap_remove_simps [OF i]
      from swap "1.prems" i have e: "add_loop c (Suc i) (swap_remove i cs) add = (ds, flag)" by (simp add: add_loop.simps [of c i cs])
      note IH = "1.IH"(1) [OF i swap e]
      have sub: "mset ds \<subseteq># mset cs - {#cs ! i#}" using IH by (simp add: sr(3))
      have "x \<in># mset cs - mset ds \<Longrightarrow> dominated c x" for x
      proof -
        have "mset cs - mset ds = add_mset (cs ! i) (mset cs - {#cs ! i#} - mset ds)"
          using sub i by (metis add_mset_diff_bothsides insert_DiffM2 add_mset_add_single nth_mem_mset multi_member_this insert_DiffM mset_subset_eq_multiset_union_diff_commute)
        then show "x \<in># mset cs - mset ds \<Longrightarrow> dominated c x" using IH swap by (auto simp: sr(3) dominated_def)
      qed
      moreover have "i \<le> length ds \<and> take i ds = take i cs"
      proof (cases "Suc i \<le> length (swap_remove i cs)")
        case True
        with IH have d: "Suc i \<le> length ds" "take (Suc i) ds = take (Suc i) (swap_remove i cs)" by auto
        then have "take i ds = take i (swap_remove i cs)" by (metis Suc_n_not_le_n nat_le_linear take_Suc_conv_app_nth min.absorb1 take_take)
        then show ?thesis using d(1) i by (auto intro!: nth_equalityI simp: sr(1,2) list_eq_iff_nth_eq)
      next
        case False
        then have "length cs = Suc i" using i by (simp add: sr(1))
        then have "ds = swap_remove i cs" using e by (simp add: add_loop.simps sr(1))
        then show ?thesis using i \<open>length cs = Suc i\<close> by (auto intro!: nth_equalityI simp: sr(1,2))
      qed
      ultimately show ?thesis using IH sub by (auto intro: subset_mset.trans)
    next
      case keep
      then have e: "add_loop c (Suc i) cs False = (ds, flag)" using "1.prems" i by (simp add: add_loop.simps [of c i cs] dominates_def)
      have k: "close (cs ! i) c" "\<not> collisionPenetration c < collisionPenetration (cs ! i)" using keep by (auto simp: dominates_def)
      note IH = "1.IH"(2) [OF i k e]
      then have t: "Suc i \<le> length ds" "take (Suc i) ds = take (Suc i) cs" using i by auto
      then have "cs ! i \<in> set ds" by (metis lessI nth_mem nth_take Suc_le_lessD)
      with keep IH prefix_step [OF t] show ?thesis by auto
    next
      case apart
      then have e: "add_loop c (Suc i) cs add = (ds, flag)" using "1.prems" i by (simp add: add_loop.simps [of c i cs])
      note IH = "1.IH"(3) [OF i apart e]
      then have t: "Suc i \<le> length ds" "take (Suc i) ds = take (Suc i) cs" using i by auto
      with IH prefix_step [OF t] show ?thesis by auto
    qed
  qed
qed

text \<open>Adding a contact never loses the deepest one: of the old contacts and the new one only those are dropped that lie near
  the new one and are no deeper than a contact near it that stays, so every depth reached before is reached after.
  The array of eight holds eight contacts, and only a manifold that is full faults, with a write behind the array.\<close>
theorem AddContact_keeps_deepest:
  "(\<forall>M1 x. AddContact W ga gb n d M = Inr M1 \<longrightarrow> x \<in> insert (new_contact W M ga gb n d) (set (m_vContacts M)) \<longrightarrow>
      (\<exists>y \<in> set (m_vContacts M1). (y = x \<or> close x (new_contact W M ga gb n d) \<and> close y (new_contact W M ga gb n d))
         \<and> collisionPenetration y \<le> collisionPenetration x))
    \<and> (\<forall>M1. AddContact W ga gb n d M = Inr M1 \<longrightarrow> set (m_vContacts M1) \<subseteq> insert (new_contact W M ga gb n d) (set (m_vContacts M))
         \<and> length (m_vContacts M1) \<le> max (length (m_vContacts M)) MAX_CONTACT_POINTS)
    \<and> (\<forall>e. AddContact W ga gb n d M = Inl e \<longrightarrow> e = OutOfRange \<and> MAX_CONTACT_POINTS \<le> length (m_vContacts M))"
proof -
  define c where "c = new_contact W M ga gb n d"
  obtain ds flag where r: "add_loop c 0 (m_vContacts M) True = (ds, flag)" by force
  have self: "close c c" by (simp add: close_def DotProduct_def vec_defs)
  from add_loop_spec [OF r] have spec: "mset ds \<subseteq># mset (m_vContacts M)" "\<And>x. x \<in># mset (m_vContacts M) - mset ds \<Longrightarrow> dominated c x"
    "\<not> flag \<Longrightarrow> \<exists>y \<in> set ds. dominates c y" by auto
  have len: "length ds \<le> length (m_vContacts M)" using size_mset_mono [OF spec(1)] by simp
  have sub: "set ds \<subseteq> set (m_vContacts M)" using set_mset_mono [OF spec(1)] by simp
  have split: "x \<in> set ds \<or> dominated c x" if "x \<in> set (m_vContacts M)" for x
    using that spec(2) [of x] by (metis (no_types) in_diff_count set_mset_mset not_in_iff count_greater_zero_iff not_gr_zero)
  show ?thesis
  proof (intro conjI allI impI, fold c_def, goal_cases)
    case (1 M1 x)
    then consider "x = c" | "x \<in> set ds" | "dominated c x" using split by blast
    then show ?case using 1(1) r self spec(3)
      by cases (fastforce simp: AddContact_def c_def [symmetric] Let_def dominated_def dominates_def split: if_splits)+
  next
    case (2 M1)
    then show ?case using r sub by (auto simp: AddContact_def c_def [symmetric] Let_def split: if_splits)
  next
    case (3 M1)
    then show ?case using r len by (auto simp: AddContact_def c_def [symmetric] Let_def split: if_splits)
  qed (use r len sub in \<open>auto simp: AddContact_def c_def [symmetric] Let_def split: if_splits\<close>)
qed

text \<open>A contact swapped into the place of a removed one is not looked at: of two shallow contacts at the place of a deeper one, one stays.\<close>

definition flat_contact :: "real \<Rightarrow> contact" where
  "flat_contact d = \<lparr>sumImpulseContact = 0, sumImpulseFriction = 0, elatisity_term = 1, collisionPenetration = d,
     collisionNormal = Vec3 0 1 0, relPosA = Vec3 0 0 0, relPosB = Vec3 0 0 0\<rparr>"

definition flat_manifold :: "contact list \<Rightarrow> manifold" where
  "flat_manifold cs = \<lparr>m_pNodeA = 0, m_pNodeB = 1, m_vContacts = cs\<rparr>"

lemma flat_add:
  "AddContact (\<lambda>_. unit_body) 0 0 (Vec3 0 1 0) (- 2) (flat_manifold [flat_contact (- 1), flat_contact 0])
    = Inr (flat_manifold [flat_contact 0, flat_contact (- 2)])"
  by (simp add: AddContact_def new_contact_def flat_manifold_def flat_contact_def add_loop.simps close_def swap_remove_def Let_def
      unit_body_def vec_defs DotProduct_def zero_vec3_def MAX_CONTACT_POINTS_def)

theorem AddContact_keeps_deepest_witness:
  "\<exists>y \<in> {flat_contact 0, flat_contact (- 2)}. collisionPenetration y \<le> collisionPenetration (flat_contact (- 1))"
  using AddContact_keeps_deepest [of "\<lambda>_. unit_body" 0 0 "Vec3 0 1 0" "- 2" "flat_manifold [flat_contact (- 1), flat_contact 0]"] flat_add
  by (fastforce simp: flat_manifold_def)

section \<open>What the solver keeps\<close>

lemma dot_cross: "DotProduct n (CrossProduct w r) = DotProduct w (CrossProduct r n)" for n :: "'f :: comm_ring vec3"
  by (simp add: DotProduct_def CrossProduct_def algebra_simps)

lemma cross_scale: "CrossProduct r (vec_scale n j) = vec_scale (CrossProduct r n) j" for n :: "'f :: comm_ring vec3"
  by (simp add: CrossProduct_def vec_defs algebra_simps)

text \<open>The two bodies after an impulse.\<close>

definition pushed :: "real vec3 \<Rightarrow> real vec3 \<Rightarrow> real \<Rightarrow> rigid_body \<Rightarrow> rigid_body" where
  "pushed r n j x = (if rb_Static x then x else x\<lparr>LinearVelocity := vec_add (LinearVelocity x) (vec_scale n (j * InvMass x)),
     AngularVelocity := vec_add (AngularVelocity x) (mat3_vec (InvInertia x) (CrossProduct r (vec_scale n j)))\<rparr>)"

lemma vec_sub_pushed: "vec_sub v (vec_scale n (j * m)) = vec_add v (vec_scale n (- j * m))"
  "vec_sub v (mat3_vec M (CrossProduct r (vec_scale n j))) = vec_add v (mat3_vec M (CrossProduct r (vec_scale n (- j))))"
  for v :: "'f :: comm_ring vec3"
  by (simp_all add: vec_defs mat3_vec_def CrossProduct_def algebra_simps)

lemma apply_pair:
  assumes "a \<noteq> b"
  shows "apply_pair a b r1 r2 n j W = W(a := pushed r1 n j (W a), b := pushed r2 n (- j) (W b))"
  using assms by (auto simp: apply_pair_def upd_def pushed_def push_linear_def push_angular_def push_back_linear_def push_back_angular_def
      SetLinearVelocity_def SetAngularVelocity_def vec_sub_pushed fun_eq_iff)

lemma pushed_simps [simp]: "InvMass (pushed r n j x) = InvMass x" "InvInertia (pushed r n j x) = InvInertia x"
  "rb_Static (pushed r n j x) = rb_Static x" "rb_Friction (pushed r n j x) = rb_Friction x" "rb_Position (pushed r n j x) = rb_Position x"
  by (simp_all add: pushed_def)

text \<open>An impulse \<open>j\<close> along \<open>n\<close> changes the relative velocity along \<open>n\<close> by \<open>j\<close> times the constraint mass.\<close>

lemma pushed_velocity:
  assumes "\<not> rb_Static x"
  shows "DotProduct n (point_velocity (pushed r n j x) r)
    = DotProduct n (point_velocity x r) + j * (InvMass x * DotProduct n n + DotProduct n (CrossProduct (mat3_vec (InvInertia x) (CrossProduct r n)) r))"
  using assms by (simp add: pushed_def point_velocity_def DotProduct_def CrossProduct_def vec_defs mat3_vec_def algebra_simps)

lemma constraint_mass_eq:
  "DotProduct n n = 1 \<Longrightarrow> constraint_mass A B r1 r2 n
    = (InvMass A * DotProduct n n + DotProduct n (CrossProduct (mat3_vec (InvInertia A) (CrossProduct r1 n)) r1))
    + (InvMass B * DotProduct n n + DotProduct n (CrossProduct (mat3_vec (InvInertia B) (CrossProduct r2 n)) r2))"
  by (simp add: constraint_mass_def dot_simps)

definition psd :: "real mat3 \<Rightarrow> bool" where
  "psd M \<longleftrightarrow> (\<forall>v. 0 \<le> DotProduct v (mat3_vec M v))"

lemma psd_diagonal: "0 \<le> a \<Longrightarrow> 0 \<le> b \<Longrightarrow> 0 \<le> c \<Longrightarrow> psd (diagonal a b c)"
  by (simp add: psd_def DotProduct_def mat3_vec_def diagonal_def mult.commute mult.left_commute add_nonneg_nonneg zero_le_mult_iff linorder_linear)

lemma constraint_mass_pos:
  assumes "psd (InvInertia A)" and "psd (InvInertia B)" and "0 < InvMass A + InvMass B"
  shows "0 < constraint_mass A B r1 r2 n"
proof -
  have "DotProduct n (CrossProduct (mat3_vec M (CrossProduct r n)) r) = DotProduct (CrossProduct r n) (mat3_vec M (CrossProduct r n))" for M r
    by (subst dot_cross) (simp add: DotProduct_def algebra_simps)
  with assms show ?thesis by (simp add: constraint_mass_def dot_simps psd_def add_pos_nonneg)
qed

lemma pair_velocity:
  assumes "a \<noteq> b" and "\<not> rb_Static (W a)" and "\<not> rb_Static (W b)" and "DotProduct n n = 1"
  shows "DotProduct n (vec_sub (point_velocity (apply_pair a b r1 r2 n j W a) r1) (point_velocity (apply_pair a b r1 r2 n j W b) r2))
    = DotProduct n (vec_sub (point_velocity (W a) r1) (point_velocity (W b) r2)) + j * constraint_mass (W a) (W b) r1 r2 n"
  by (simp add: apply_pair [OF assms(1)] assms(1) dot_simps pushed_velocity assms(2,3) constraint_mass_eq [OF assms(4)])
    (simp add: algebra_simps assms(4))

text \<open>Property C34. The normal impulse solves the contact of two different bodies neither of which is static: after it the bodies no longer
  approach faster than the bias asks for, the impulse so far only pushes apart, and one of the two holds with equality (the
  complementarity condition of a contact). The contact normal has unit length, the inverse inertias are positive
  semidefinite and not both bodies have an infinite mass. Against a static body the impulse is too small (\<open>static_share\<close>).\<close>
theorem normal_impulse_complementarity:
  assumes "a \<noteq> b" and "\<not> rb_Static (W a)" and "\<not> rb_Static (W b)" and "DotProduct (collisionNormal c) (collisionNormal c) = 1"
    and "psd (InvInertia (W a))" and "psd (InvInertia (W b))" and "0 < InvMass (W a) + InvMass (W b)"
    and "solve_normal dt a b (vec_sub (point_velocity (W a) (relPosA c)) (point_velocity (W b) (relPosB c))) (c, W) = (c1, W1)"
  shows "sumImpulseContact c1 \<le> 0
    \<and> DotProduct (collisionNormal c) (vec_sub (point_velocity (W1 a) (relPosA c)) (point_velocity (W1 b) (relPosB c))) \<le> - bias dt c
    \<and> (sumImpulseContact c1 = 0
       \<or> DotProduct (collisionNormal c) (vec_sub (point_velocity (W1 a) (relPosA c)) (point_velocity (W1 b) (relPosB c))) = - bias dt c)"
proof -
  define n where "n = collisionNormal c"
  define dv where "dv = vec_sub (point_velocity (W a) (relPosA c)) (point_velocity (W b) (relPosB c))"
  define K where "K = constraint_mass (W a) (W b) (relPosA c) (relPosB c) n"
  define jn where "jn = - (DotProduct dv n + bias dt c) / K"
  define s where "s = min (sumImpulseContact c + jn) 0"
  have K: "0 < K" unfolding K_def using assms(5-7) by (rule constraint_mass_pos)
  have r: "sumImpulseContact c1 = s" "W1 = apply_pair a b (relPosA c) (relPosB c) n (s - sumImpulseContact c) W"
    using assms(8) by (auto simp: solve_normal_def Let_def n_def dv_def K_def jn_def s_def)
  have v: "DotProduct n (vec_sub (point_velocity (W1 a) (relPosA c)) (point_velocity (W1 b) (relPosB c)))
      = DotProduct n dv + (s - sumImpulseContact c) * K"
    unfolding r(2) dv_def K_def using assms(1-4) by (intro pair_velocity) (simp_all add: n_def)
  have jK: "jn * K = - (DotProduct n dv + bias dt c)" using K by (simp add: jn_def DotProduct_def mult.commute)
  have "(s - sumImpulseContact c) * K \<le> jn * K" using K by (simp add: s_def mult_right_mono min_def)
  moreover have "s = 0 \<or> (s - sumImpulseContact c) * K = jn * K" by (auto simp: s_def min_def)
  ultimately show ?thesis unfolding n_def [symmetric] r(1) v using jK by (auto simp: s_def)
qed

lemma unit_body_psd: "psd (InvInertia unit_body)"
  using psd_diagonal [of 1 1 1] by (simp add: unit_body_def)

theorem normal_impulse_complementarity_witness:
  "\<exists>c1 W1. solve_normal (1 / 60) 0 1 (vec_sub (point_velocity unit_body 0) (point_velocity unit_body 0)) (flat_contact (- 1), \<lambda>_. unit_body) = (c1, W1)
    \<and> sumImpulseContact c1 \<le> 0
    \<and> DotProduct (Vec3 0 1 0) (vec_sub (point_velocity (W1 0) 0) (point_velocity (W1 1) 0)) \<le> - bias (1 / 60) (flat_contact (- 1))"
proof -
  obtain c1 W1 where r: "solve_normal (1 / 60) 0 1 (vec_sub (point_velocity unit_body 0) (point_velocity unit_body 0)) (flat_contact (- 1), \<lambda>_. unit_body) = (c1, W1)"
    by force
  have "\<not> rb_Static unit_body" "InvMass unit_body = 1" "DotProduct (Vec3 0 1 0) (Vec3 0 1 0 :: real vec3) = 1"
    by (simp_all add: unit_body_def DotProduct_def)
  with normal_impulse_complementarity [of 0 1 "\<lambda>_. unit_body" "flat_contact (- 1)" "1 / 60" c1 W1] r unit_body_psd
  have "sumImpulseContact c1 \<le> 0
    \<and> DotProduct (Vec3 0 1 0) (vec_sub (point_velocity (W1 0) 0) (point_velocity (W1 1) 0)) \<le> - bias (1 / 60) (flat_contact (- 1))"
    by (simp add: flat_contact_def zero_vec3_def)
  with r show ?thesis by blast
qed

text \<open>The constraint mass counts a static body with its inverse mass, though the impulse does not move it: the other body gets
  only a share of the change of velocity that the contact needs.\<close>

lemma static_share:
  assumes "a \<noteq> b" and "\<not> rb_Static (W a)" and "rb_Static (W b)" and "DotProduct n n = 1"
  shows "DotProduct n (vec_sub (point_velocity (apply_pair a b r1 r2 n j W a) r1) (point_velocity (apply_pair a b r1 r2 n j W b) r2))
    = DotProduct n (vec_sub (point_velocity (W a) r1) (point_velocity (W b) r2)) + j * (constraint_mass (W a) (W b) r1 r2 n
        - InvMass (W b) - DotProduct n (CrossProduct (mat3_vec (InvInertia (W b)) (CrossProduct r2 n)) r2))"
proof -
  have "pushed r2 n (- j) (W b) = W b" using assms(3) by (simp add: pushed_def)
  then show ?thesis
    by (simp add: apply_pair [OF assms(1)] assms(1) dot_simps pushed_velocity assms(2) constraint_mass_eq [OF assms(4)])
      (simp add: algebra_simps assms(4))
qed

section \<open>A pass over the contacts\<close>

text \<open>What a pass may change: the velocities of the two bodies, unless they are static.\<close>

definition velocities_only :: "nat \<Rightarrow> nat \<Rightarrow> bodies \<Rightarrow> bodies \<Rightarrow> bool" where
  "velocities_only a b W V \<longleftrightarrow> (\<forall>x. (\<exists>v w. V x = (W x)\<lparr>LinearVelocity := v, AngularVelocity := w\<rparr>)
     \<and> (x \<notin> {a, b} \<or> rb_Static (W x) \<longrightarrow> V x = W x))"

definition momentum :: "nat \<Rightarrow> nat \<Rightarrow> bodies \<Rightarrow> real vec3" where
  "momentum a b W = vec_add (vec_scale (LinearVelocity (W a)) (1 / InvMass (W a))) (vec_scale (LinearVelocity (W b)) (1 / InvMass (W b)))"

definition movable :: "rigid_body \<Rightarrow> bool" where
  "movable x \<longleftrightarrow> \<not> rb_Static x \<and> InvMass x \<noteq> 0"

definition pass_ok :: "nat \<Rightarrow> nat \<Rightarrow> bodies \<Rightarrow> bodies \<Rightarrow> bool" where
  "pass_ok a b W V \<longleftrightarrow> velocities_only a b W V \<and> (movable (W a) \<longrightarrow> movable (W b) \<longrightarrow> momentum a b V = momentum a b W)"

lemma same_update: "\<exists>v w. y = y\<lparr>LinearVelocity := v, AngularVelocity := w\<rparr>" for y :: rigid_body
  by (intro exI [of _ "LinearVelocity y"] exI [of _ "AngularVelocity y"]) simp

lemma pass_refl: "pass_ok a b W W"
  using same_update by (simp add: pass_ok_def velocities_only_def)

lemma velocities_only_keeps:
  assumes "velocities_only a b W V"
  shows "rb_Static (V x) = rb_Static (W x)" "InvMass (V x) = InvMass (W x)" "InvInertia (V x) = InvInertia (W x)" "rb_Friction (V x) = rb_Friction (W x)"
    "rb_Position (V x) = rb_Position (W x)" "Orientation (V x) = Orientation (W x)"
proof -
  from assms obtain v w where e: "V x = (W x)\<lparr>LinearVelocity := v, AngularVelocity := w\<rparr>" unfolding velocities_only_def by blast
  show "rb_Static (V x) = rb_Static (W x)" "InvMass (V x) = InvMass (W x)" "InvInertia (V x) = InvInertia (W x)" "rb_Friction (V x) = rb_Friction (W x)"
    "rb_Position (V x) = rb_Position (W x)" "Orientation (V x) = Orientation (W x)"
    by (simp_all add: e)
qed

lemma pass_friction: "pass_ok a b W V \<Longrightarrow> rb_Friction (V x) = rb_Friction (W x)"
  unfolding pass_ok_def by (erule conjE) (rule velocities_only_keeps)

lemma pass_trans [trans]:
  assumes "pass_ok a b W V" and "pass_ok a b V U"
  shows "pass_ok a b W U"
proof -
  have vo: "velocities_only a b W V" "velocities_only a b V U" using assms by (auto simp: pass_ok_def)
  have "velocities_only a b W U"
    unfolding velocities_only_def
  proof (intro allI conjI impI)
    fix x
    obtain v w v1 w1 where "V x = (W x)\<lparr>LinearVelocity := v, AngularVelocity := w\<rparr>" "U x = (V x)\<lparr>LinearVelocity := v1, AngularVelocity := w1\<rparr>"
      using vo unfolding velocities_only_def by meson
    then show "\<exists>v w. U x = (W x)\<lparr>LinearVelocity := v, AngularVelocity := w\<rparr>" by (intro exI [of _ v1] exI [of _ w1]) simp
    assume "x \<notin> {a, b} \<or> rb_Static (W x)"
    with vo velocities_only_keeps(1) [OF vo(1)] show "U x = W x" by (auto simp: velocities_only_def)
  qed
  then show ?thesis using assms velocities_only_keeps [OF vo(1)] by (auto simp: pass_ok_def movable_def)
qed

lemma apply_pair_pass:
  assumes "a \<noteq> b"
  shows "pass_ok a b W (apply_pair a b r1 r2 n j W)"
  unfolding pass_ok_def
proof (intro conjI impI)
  show "velocities_only a b W (apply_pair a b r1 r2 n j W)"
    unfolding velocities_only_def
  proof (intro allI conjI impI)
    fix x
    have "\<exists>v w. pushed r n j y = y\<lparr>LinearVelocity := v, AngularVelocity := w\<rparr>" for r n j y
      using same_update [of y] by (cases "rb_Static y") (auto simp: pushed_def)
    then show "\<exists>v w. apply_pair a b r1 r2 n j W x = (W x)\<lparr>LinearVelocity := v, AngularVelocity := w\<rparr>"
      using same_update by (simp add: apply_pair [OF assms])
    assume "x \<notin> {a, b} \<or> rb_Static (W x)"
    then show "apply_pair a b r1 r2 n j W x = W x" by (auto simp: apply_pair [OF assms] pushed_def)
  qed
  assume "movable (W a)" "movable (W b)"
  then show "momentum a b (apply_pair a b r1 r2 n j W) = momentum a b W"
    using assms by (simp add: apply_pair momentum_def pushed_def movable_def vec_defs field_simps)
qed

text \<open>A friction impulse stays within the friction cone of the normal impulse.\<close>

definition in_cone :: "rigid_body \<Rightarrow> rigid_body \<Rightarrow> contact \<Rightarrow> bool" where
  "in_cone A B c \<longleftrightarrow> \<bar>sumImpulseFriction c\<bar> \<le> sqrt (rb_Friction A * rb_Friction B) * - sumImpulseContact c"

lemma solve_normal_Pair:
  assumes "a \<noteq> b" and "solve_normal dt a b dv (c, W) = (c1, W1)"
  shows "pass_ok a b W W1" "c1 = c\<lparr>sumImpulseContact := sumImpulseContact c1\<rparr>" "sumImpulseContact c1 \<le> 0"
  using assms apply_pair_pass by (auto simp: solve_normal_def Let_def)

lemma solve_friction_Pair:
  assumes "a \<noteq> b" and "solve_friction a b dv (c, W) = (c1, W1)" and "sumImpulseContact c \<le> 0" and "0 \<le> rb_Friction (W a) * rb_Friction (W b)"
  shows "pass_ok a b W W1" "c1 = c\<lparr>sumImpulseFriction := sumImpulseFriction c1\<rparr>" "in_cone (W a) (W b) c1 \<or> c1 = c"
proof -
  show "pass_ok a b W W1" "c1 = c\<lparr>sumImpulseFriction := sumImpulseFriction c1\<rparr>"
    using assms(1,2) apply_pair_pass pass_refl by (auto simp: solve_friction_def Let_def split: if_splits)
  have "sqrt (rb_Friction (W a) * rb_Friction (W b)) * sumImpulseContact c \<le> 0" using assms(3,4) by (intro mult_nonneg_nonpos) auto
  then show "in_cone (W a) (W b) c1 \<or> c1 = c"
    using assms(2) by (auto simp: solve_friction_def Let_def in_cone_def abs_le_iff split: if_splits)
qed

lemma solve_friction_pass: "a \<noteq> b \<Longrightarrow> solve_friction a b dv (c, W) = (c1, W1) \<Longrightarrow> pass_ok a b W W1"
  using apply_pair_pass pass_refl by (auto simp: solve_friction_def Let_def split: if_splits)

lemma ApplyImpulse_pass:
  assumes "m_pNodeA M \<noteq> m_pNodeB M"
  shows "pass_ok (m_pNodeA M) (m_pNodeB M) W (snd (ApplyImpulse dt M W))" "m_pNodeA (fst (ApplyImpulse dt M W)) = m_pNodeA M"
    "m_pNodeB (fst (ApplyImpulse dt M W)) = m_pNodeB M"
proof -
  have c: "pass_ok (m_pNodeA M) (m_pNodeB M) V (snd (SolveContactPoint dt M c V))" for c V
  proof (cases "InvMass (V (m_pNodeA M)) + InvMass (V (m_pNodeB M)) = 0")
    case False
    let ?dv = "vec_sub (point_velocity (V (m_pNodeA M)) (relPosA c)) (point_velocity (V (m_pNodeB M)) (relPosB c))"
    obtain c0 V0 where n: "solve_normal dt (m_pNodeA M) (m_pNodeB M) ?dv (c, V) = (c0, V0)" by force
    obtain c1 V1 where f: "solve_friction (m_pNodeA M) (m_pNodeB M) ?dv (c0, V0) = (c1, V1)" by force
    from pass_trans [OF solve_normal_Pair(1) [OF assms n] solve_friction_pass [OF assms f]] show ?thesis
      using False n f by (simp add: SolveContactPoint_def Let_def)
  qed (simp add: SolveContactPoint_def pass_refl)
  have "pass_ok (m_pNodeA M) (m_pNodeB M) V (snd (solve_contacts dt M cs V))" for cs V
  proof (induction cs arbitrary: V)
    case (Cons c0 cs)
    from pass_trans [OF c [of V c0] Cons.IH [of "snd (SolveContactPoint dt M c0 V)"]] show ?case by (simp add: split_def Let_def)
  qed (simp add: pass_refl)
  then show "pass_ok (m_pNodeA M) (m_pNodeB M) W (snd (ApplyImpulse dt M W))" "m_pNodeA (fst (ApplyImpulse dt M W)) = m_pNodeA M"
    "m_pNodeB (fst (ApplyImpulse dt M W)) = m_pNodeB M" by (simp_all add: ApplyImpulse_def split_def Let_def)
qed

lemma SolveContactPoint_pass:
  assumes "m_pNodeA M \<noteq> m_pNodeB M" and "0 \<le> rb_Friction (W (m_pNodeA M)) * rb_Friction (W (m_pNodeB M))"
    and "SolveContactPoint dt M c W = (c1, W1)"
  shows "pass_ok (m_pNodeA M) (m_pNodeB M) W W1" "c1 = c\<lparr>sumImpulseContact := sumImpulseContact c1, sumImpulseFriction := sumImpulseFriction c1\<rparr>"
    "c1 = c \<or> sumImpulseContact c1 \<le> 0 \<and> (in_cone (W (m_pNodeA M)) (W (m_pNodeB M)) c1 \<or> sumImpulseFriction c1 = sumImpulseFriction c)"
proof -
  let ?a = "m_pNodeA M" and ?b = "m_pNodeB M"
  let ?dv = "vec_sub (point_velocity (W ?a) (relPosA c)) (point_velocity (W ?b) (relPosB c))"
  have "pass_ok ?a ?b W W1 \<and> c1 = c\<lparr>sumImpulseContact := sumImpulseContact c1, sumImpulseFriction := sumImpulseFriction c1\<rparr>
    \<and> (c1 = c \<or> sumImpulseContact c1 \<le> 0 \<and> (in_cone (W ?a) (W ?b) c1 \<or> sumImpulseFriction c1 = sumImpulseFriction c))"
  proof (cases "InvMass (W ?a) + InvMass (W ?b) = 0")
    case True
    then show ?thesis using assms(3) by (simp add: SolveContactPoint_def pass_refl)
  next
    case False
    obtain c0 W0 where n: "solve_normal dt ?a ?b ?dv (c, W) = (c0, W0)" by force
    with False assms(3) have f: "solve_friction ?a ?b ?dv (c0, W0) = (c1, W1)" by (simp add: SolveContactPoint_def Let_def)
    note N = solve_normal_Pair [OF assms(1) n]
    have fr: "rb_Friction (W0 x) = rb_Friction (W x)" for x by (rule pass_friction [OF N(1)])
    note F = solve_friction_Pair [OF assms(1) f N(3)]
    have F': "pass_ok ?a ?b W0 W1" "c1 = c0\<lparr>sumImpulseFriction := sumImpulseFriction c1\<rparr>" "in_cone (W ?a) (W ?b) c1 \<or> c1 = c0"
      using F assms(2) by (simp_all add: fr in_cone_def)
    have "sumImpulseContact c1 = sumImpulseContact c0" by (subst F'(2)) simp
    moreover have "c1 = c\<lparr>sumImpulseContact := sumImpulseContact c0, sumImpulseFriction := sumImpulseFriction c1\<rparr>"
      by (subst F'(2), subst N(2)) simp
    moreover have "sumImpulseFriction c0 = sumImpulseFriction c" by (subst N(2)) simp
    ultimately show ?thesis using F'(3) N(3) pass_trans [OF N(1) F'(1)] by auto
  qed
  then show "pass_ok ?a ?b W W1" "c1 = c\<lparr>sumImpulseContact := sumImpulseContact c1, sumImpulseFriction := sumImpulseFriction c1\<rparr>"
    "c1 = c \<or> sumImpulseContact c1 \<le> 0 \<and> (in_cone (W ?a) (W ?b) c1 \<or> sumImpulseFriction c1 = sumImpulseFriction c)" by blast+
qed

text \<open>What the solver keeps of each contact from one pass to the next: it pushes only, and its friction was put in the cone or never set.\<close>

definition pushing :: "contact \<Rightarrow> bool" where
  "pushing c \<longleftrightarrow> sumImpulseContact c \<le> 0"

lemma solve_contacts_pass:
  assumes "m_pNodeA M \<noteq> m_pNodeB M"
  shows "0 \<le> rb_Friction (W (m_pNodeA M)) * rb_Friction (W (m_pNodeB M)) \<Longrightarrow> solve_contacts dt M cs W = (ds, V) \<Longrightarrow>
    pass_ok (m_pNodeA M) (m_pNodeB M) W V
    \<and> list_all2 (\<lambda>c d. d = c\<lparr>sumImpulseContact := sumImpulseContact d, sumImpulseFriction := sumImpulseFriction d\<rparr> \<and> (pushing c \<longrightarrow> pushing d)) cs ds"
proof (induction cs arbitrary: W ds)
  case (Cons c cs)
  obtain c1 W1 where s: "SolveContactPoint dt M c W = (c1, W1)" by force
  obtain ds1 where r: "solve_contacts dt M cs W1 = (ds1, V)" "ds = c1 # ds1" using Cons.prems(2) s by (auto split: prod.splits)
  note S = SolveContactPoint_pass [OF assms Cons.prems(1) s]
  have "rb_Friction (W1 x) = rb_Friction (W x)" for x by (rule pass_friction [OF S(1)])
  with Cons.IH [OF _ r(1)] Cons.prems(1) have IH: "pass_ok (m_pNodeA M) (m_pNodeB M) W1 V"
    "list_all2 (\<lambda>c d. d = c\<lparr>sumImpulseContact := sumImpulseContact d, sumImpulseFriction := sumImpulseFriction d\<rparr> \<and> (pushing c \<longrightarrow> pushing d)) cs ds1"
    by auto
  have "pushing c \<longrightarrow> pushing c1" using S(3) by (auto simp: pushing_def)
  then show ?case using pass_trans [OF S(1) IH(1)] IH(2) S(2) by (simp add: r(2))
qed (simp add: pass_refl)

text \<open>A step of a manifold (the reset of its constraints and any number of passes of the solver) conserves the linear momentum of
  two bodies that can move, changes nothing of any body but the velocities of the pair, leaves static bodies
  alone, and keeps the geometry of its contacts, whose normal impulses never pull.\<close>
theorem manifold_step_conserves:
  assumes "m_pNodeA M \<noteq> m_pNodeB M" and "0 \<le> rb_Friction (W (m_pNodeA M)) * rb_Friction (W (m_pNodeB M))"
    and "((\<lambda>(M, W). ApplyImpulse dt M W) ^^ k) (PreSolverStep W M, W) = (M1, W1)"
  shows "velocities_only (m_pNodeA M) (m_pNodeB M) W W1
    \<and> (movable (W (m_pNodeA M)) \<longrightarrow> movable (W (m_pNodeB M)) \<longrightarrow> momentum (m_pNodeA M) (m_pNodeB M) W1 = momentum (m_pNodeA M) (m_pNodeB M) W)
    \<and> map relPosA (m_vContacts M1) = map relPosA (m_vContacts M) \<and> map relPosB (m_vContacts M1) = map relPosB (m_vContacts M)
    \<and> map collisionNormal (m_vContacts M1) = map collisionNormal (m_vContacts M)
    \<and> list_all (\<lambda>c. sumImpulseContact c \<le> 0) (m_vContacts M1)"
proof -
  let ?a = "m_pNodeA M" and ?b = "m_pNodeB M"
  let ?same = "\<lambda>c d. relPosA d = relPosA c \<and> relPosB d = relPosB c \<and> collisionNormal d = collisionNormal c"
  have "m_pNodeA M1 = ?a \<and> m_pNodeB M1 = ?b \<and> pass_ok ?a ?b W W1 \<and> list_all2 ?same (m_vContacts M) (m_vContacts M1) \<and> list_all pushing (m_vContacts M1)"
    using assms(3)
  proof (induction k arbitrary: M1 W1)
    case 0
    then show ?case by (auto simp: PreSolverStep_def pass_refl list_all2_map2 list_all2_same list_all_iff pushing_def UpdateConstraint_def Let_def)
  next
    case (Suc k)
    obtain M0 W0 where k: "((\<lambda>(M, W). ApplyImpulse dt M W) ^^ k) (PreSolverStep W M, W) = (M0, W0)" by force
    note IH = Suc.IH [OF k]
    obtain ds where r: "solve_contacts dt M0 (m_vContacts M0) W0 = (ds, W1)" "M1 = M0\<lparr>m_vContacts := ds\<rparr>"
      using Suc.prems k by (auto simp: ApplyImpulse_def split: prod.splits)
    have fr: "0 \<le> rb_Friction (W0 (m_pNodeA M0)) * rb_Friction (W0 (m_pNodeB M0))"
      using IH assms(2) pass_friction [of ?a ?b W W0] by simp
    have ne: "m_pNodeA M0 \<noteq> m_pNodeB M0" using IH assms(1) by simp
    from solve_contacts_pass [OF ne fr r(1)] IH
    have P: "pass_ok ?a ?b W0 W1" "list_all2 (\<lambda>c d. d = c\<lparr>sumImpulseContact := sumImpulseContact d, sumImpulseFriction := sumImpulseFriction d\<rparr> \<and> (pushing c \<longrightarrow> pushing d)) (m_vContacts M0) ds"
      by auto
    from P(2) have "list_all2 (\<lambda>c d. ?same c d \<and> (pushing c \<longrightarrow> pushing d)) (m_vContacts M0) ds"
    proof (rule list_all2_mono)
      fix c d :: contact
      assume a: "d = c\<lparr>sumImpulseContact := sumImpulseContact d, sumImpulseFriction := sumImpulseFriction d\<rparr> \<and> (pushing c \<longrightarrow> pushing d)"
      then have e: "d = c\<lparr>sumImpulseContact := sumImpulseContact d, sumImpulseFriction := sumImpulseFriction d\<rparr>" by blast
      have "?same c d" by (subst (1 2 3) e) simp
      then show "?same c d \<and> (pushing c \<longrightarrow> pushing d)" using a by blast
    qed
    moreover from this have "list_all2 ?same (m_vContacts M) ds"
      by (intro list_all2_trans [of ?same ?same ?same "m_vContacts M" "m_vContacts M0" ds]) (use IH in \<open>auto elim: list_all2_mono\<close>)
    ultimately show ?case using IH pass_trans [of ?a ?b W W0 W1] P(1)
      by (auto simp: r(2) list_all2_conv_all_nth list_all_length)
  qed
  then show ?thesis by (auto simp: pass_ok_def pushing_def [abs_def] list_all2_conv_all_nth intro: nth_equalityI)
qed

theorem manifold_step_conserves_witness:
  "\<exists>M1 W1. ((\<lambda>(M, W). ApplyImpulse (1 / 60) M W) ^^ 2) (PreSolverStep (\<lambda>_. unit_body) (flat_manifold [flat_contact (- 1)]), \<lambda>_. unit_body) = (M1, W1)
    \<and> momentum 0 1 W1 = Vec3 0 0 0 \<and> list_all (\<lambda>c. sumImpulseContact c \<le> 0) (m_vContacts M1)"
proof -
  obtain M1 W1 where r: "((\<lambda>(M, W). ApplyImpulse (1 / 60) M W) ^^ 2) (PreSolverStep (\<lambda>_. unit_body) (flat_manifold [flat_contact (- 1)]), \<lambda>_. unit_body) = (M1, W1)"
    by force
  have "movable unit_body" "momentum 0 1 (\<lambda>_. unit_body) = Vec3 0 0 0" "0 \<le> rb_Friction unit_body * rb_Friction unit_body"
    by (simp_all add: movable_def momentum_def unit_body_def vec_defs)
  with manifold_step_conserves [OF _ _ r] have "momentum 0 1 W1 = Vec3 0 0 0 \<and> list_all (\<lambda>c. sumImpulseContact c \<le> 0) (m_vContacts M1)"
    by (simp add: flat_manifold_def)
  with r show ?thesis by blast
qed

end
