(* ===== verification/Collisions.thy ===== *)
theory Collisions
  imports Manifolds
begin

unbundle bit_operations_syntax

text \<open>
  Collision detection (\<open>Physics/LumosPhysicsEngine/CollisionDetection.*\<close>): the table of checks, the separating-axis
  tests, and the clipping that builds a contact manifold. Bodies and shapes live in stores and are named by their
  indices, since two bodies may share a shape, whose vector of axes the checks write. \<open>-FLT_MAX\<close>, the start of a
  search for the largest penetration, is \<open>None\<close>.
\<close>

record coldata =
  cd_penetration :: real
  cd_normal :: "real vec3"
  cd_pointOnPlane :: "real vec3"

type_synonym shapes = "nat \<Rightarrow> shape"

section \<open>Overlap helpers\<close>

definition Squared :: "'f :: times \<Rightarrow> 'f" where
  "Squared x = x * x"

definition CheckSphereOverlap :: "'f :: linordered_field vec3 \<Rightarrow> 'f \<Rightarrow> 'f vec3 \<Rightarrow> 'f \<Rightarrow> bool" where
  "CheckSphereOverlap pos1 radius1 pos2 radius2 \<longleftrightarrow> LengthSquared (vec_sub pos2 pos1) \<le> Squared (radius1 + radius2)"

definition CheckAABBOverlap :: "'f :: linordered_field vec3 \<Rightarrow> 'f vec3 \<Rightarrow> 'f vec3 \<Rightarrow> 'f vec3 \<Rightarrow> bool" where
  "CheckAABBOverlap pos1 half1 pos2 half2 =
    (if \<bar>vx pos1 - vx pos2\<bar> \<ge> vx half1 + vx half2 then False
     else if \<bar>vy pos1 - vy pos2\<bar> \<ge> vy half1 + vy half2 then False
     else if \<bar>vz pos1 - vz pos2\<bar> \<ge> vz half1 + vz half2 then False
     else True)"

definition axis_penalty :: "'f :: linordered_field \<Rightarrow> 'f \<Rightarrow> 'f \<Rightarrow> 'f" where
  "axis_penalty p lo hi = (if p \<le> lo then Squared (p - lo) else if p \<ge> hi then Squared (p - hi) else 0)"

definition CheckAABBSphereOverlap :: "'f :: linordered_field vec3 \<Rightarrow> 'f vec3 \<Rightarrow> 'f vec3 \<Rightarrow> 'f \<Rightarrow> bool" where
  "CheckAABBSphereOverlap centre halfVol spherePos sphereRad =
    (let minVol = vec_sub centre halfVol; maxVol = vec_add centre halfVol;
         distSquared = sphereRad * sphereRad - axis_penalty (vx spherePos) (vx minVol) (vx maxVol)
           - axis_penalty (vy spherePos) (vy minVol) (vy maxVol) - axis_penalty (vz spherePos) (vz minVol) (vz maxVol)
     in distSquared > 0)"

definition CheckSphereInsideAABB :: "'f :: linordered_field vec3 \<Rightarrow> 'f \<Rightarrow> 'f vec3 \<Rightarrow> 'f vec3 \<Rightarrow> bool" where
  "CheckSphereInsideAABB pos r centre half =
    (let minPoint = vec_sub centre half; maxPoint = vec_add centre half in
     if vx minPoint > vx pos - r then False else if vy minPoint > vy pos - r then False else if vz minPoint > vz pos - r then False
     else if vx maxPoint < vx pos + r then False else if vy maxPoint < vy pos + r then False else if vz maxPoint < vz pos + r then False
     else True)"

definition CheckAABBInsideAABB :: "'f :: linordered_field vec3 \<Rightarrow> 'f vec3 \<Rightarrow> 'f vec3 \<Rightarrow> 'f vec3 \<Rightarrow> bool" where
  "CheckAABBInsideAABB insideCenter insideHalf centre half =
    (let minPoint = vec_sub centre half; minInside = vec_sub insideCenter insideHalf;
         maxPoint = vec_add centre half; maxInside = vec_add insideCenter insideHalf in
     if vx minPoint > vx minInside then False else if vy minPoint > vy minInside then False else if vz minPoint > vz minInside then False
     else if vx maxPoint < vx maxInside then False else if vy maxPoint < vy maxInside then False else if vz maxPoint < vz maxInside then False
     else True)"

section \<open>One axis\<close>

text \<open>\<open>T1\<close> and \<open>T2\<close> are the world transforms of the bodies.\<close>

definition CheckCollisionAxis :: "real vec3 \<Rightarrow> real mat4 \<Rightarrow> real mat4 \<Rightarrow> shape \<Rightarrow> shape \<Rightarrow> coldata option res" where
  "CheckCollisionAxis axis T1 T2 shape1 shape2 =
    rbind (GetMinMaxVertexOnAxis shape1 (Some T1) axis) (\<lambda>(min1, max1).
    rbind (GetMinMaxVertexOnAxis shape2 (Some T2) axis) (\<lambda>(min2, max2).
      let minCorrelation1 = DotProduct axis min1; maxCorrelation1 = DotProduct axis max1;
          minCorrelation2 = DotProduct axis min2; maxCorrelation2 = DotProduct axis max2 in
      if minCorrelation1 \<le> minCorrelation2 \<and> maxCorrelation1 \<ge> minCorrelation2
      then (let penetration = minCorrelation2 - maxCorrelation1
            in ok (Some \<lparr>cd_penetration = penetration, cd_normal = axis, cd_pointOnPlane = vec_add max1 (vec_scale axis penetration)\<rparr>))
      else if minCorrelation2 \<le> minCorrelation1 \<and> maxCorrelation2 > minCorrelation1
      then (let penetration = minCorrelation1 - maxCorrelation2; normal = vec_neg axis
            in ok (Some \<lparr>cd_penetration = penetration, cd_normal = normal, cd_pointOnPlane = vec_add min1 (vec_scale normal penetration)\<rparr>))
      else ok None))"

text \<open>The axes in turn: \<open>None\<close> when one separates, otherwise the data of the best axis.\<close>

fun check_axes :: "(coldata \<Rightarrow> coldata \<Rightarrow> bool) \<Rightarrow> (real vec3 \<Rightarrow> coldata option res) \<Rightarrow> real vec3 list \<Rightarrow> coldata option \<Rightarrow> coldata option option res" where
  "check_axes better check [] best = ok (Some best)"
| "check_axes better check (axis # axes) best = rbind (check axis) (\<lambda>r. case r of None \<Rightarrow> ok None
     | Some cur \<Rightarrow> check_axes better check axes (case best of None \<Rightarrow> Some cur | Some b \<Rightarrow> if better cur b then Some cur else best))"

section \<open>Candidate axes\<close>

definition axis_epsilon :: real where "axis_epsilon = 1 / 10000"

text \<open>\<open>AddPossibleCollisionAxis\<close> normalises its axis in place: the axis after the call and the list of axes.\<close>

definition AddPossibleCollisionAxis :: "real vec3 \<Rightarrow> real vec3 list \<Rightarrow> real vec3 \<times> real vec3 list" where
  "AddPossibleCollisionAxis axis axes =
    (if LengthSquared axis < axis_epsilon then (axis, axes)
     else (let axis = Normalized axis in
       if list_ex (\<lambda>p. \<bar>DotProduct axis p\<bar> \<ge> 1 - axis_epsilon) axes then (axis, axes) else (axis, axes @ [axis])))"

definition GetClosestPointOnEdges :: "real vec3 \<Rightarrow> (real vec3 \<times> real vec3) list \<Rightarrow> real vec3" where
  "GetClosestPointOnEdges target edges =
    (case fold (\<lambda>(posA, posB) best.
        let a_t = vec_sub target posA; a_b = vec_sub posB posA; distance = DotProduct a_t a_b / DotProduct a_b a_b;
            temp = (if distance < 0 then posA else if distance > 1 then posB else vec_add posA (vec_scale a_b distance));
            c_t = vec_sub target temp; d = DotProduct c_t c_t
        in case best of None \<Rightarrow> Some (d, temp) | Some (closest, p) \<Rightarrow> if d < closest then Some (d, temp) else best) edges None
     of None \<Rightarrow> Vec3 0 0 0 | Some (d, p) \<Rightarrow> p)"

section \<open>The checks\<close>

definition CheckSphereCollision :: "rigid_body \<Rightarrow> rigid_body \<Rightarrow> shape \<Rightarrow> shape \<Rightarrow> coldata option res" where
  "CheckSphereCollision o1 o2 shape1 shape2 =
    CheckCollisionAxis (Normalized (vec_sub (rb_Position o2) (rb_Position o1))) (fst (GetWorldSpaceTransform o1)) (fst (GetWorldSpaceTransform o2)) shape1 shape2"

definition set_axes :: "nat \<Rightarrow> real vec3 list \<Rightarrow> shapes \<Rightarrow> shapes" where
  "set_axes s axes S = S(s := (S s)\<lparr>m_Axes := axes\<rparr>)"

definition add_axis :: "nat \<Rightarrow> real vec3 \<Rightarrow> shapes \<Rightarrow> shapes" where
  "add_axis s axis S = set_axes s (snd (AddPossibleCollisionAxis axis (m_Axes (S s)))) S"

text \<open>The axis at \<open>i\<close> of shape \<open>s2\<close>, normalised where it stands, is offered to shape \<open>s1\<close>.\<close>

definition offer_axis :: "nat \<Rightarrow> nat \<Rightarrow> nat \<Rightarrow> shapes \<Rightarrow> shapes" where
  "offer_axis s1 s2 i S =
    (let axis = m_Axes (S s2) ! i; axis1 = fst (AddPossibleCollisionAxis axis (m_Axes (S s1)));
         S1 = set_axes s2 ((m_Axes (S s2))[i := axis1]) S
     in if LengthSquared axis < axis_epsilon \<or> list_ex (\<lambda>p. \<bar>DotProduct axis1 p\<bar> \<ge> 1 - axis_epsilon) (m_Axes (S1 s1)) then S1
        else set_axes s1 (m_Axes (S1 s1) @ [axis1]) S1)"

definition edge_axis :: "(real vec3 \<times> real vec3) \<Rightarrow> (real vec3 \<times> real vec3) \<Rightarrow> real vec3" where
  "edge_axis e1 e2 = CrossProduct (Normalized (vec_sub (snd e1) (fst e1))) (Normalized (vec_sub (snd e2) (fst e2)))"

text \<open>Bodies that share a shape also share its vector of edges, written for the second body last.\<close>

definition CheckPolyhedronCollision :: "rigid_body \<Rightarrow> rigid_body \<Rightarrow> nat \<Rightarrow> nat \<Rightarrow> shapes \<Rightarrow> (coldata option option \<times> shapes) res" where
  "CheckPolyhedronCollision o1 o2 s1 s2 S =
    (let T1 = fst (GetWorldSpaceTransform o1); T2 = fst (GetWorldSpaceTransform o2);
         S1 = S(s1 := GetCollisionAxes (Orientation o1) (S s1)); S2 = S1(s2 := GetCollisionAxes (Orientation o2) (S1 s2));
         S3 = fold (offer_axis s1 s2) [0..<length (m_Axes (S2 s2))] S2 in
     rbind (GetEdges (S3 s1) T1) (\<lambda>e1. rbind (GetEdges (S3 s2) T2) (\<lambda>shape2_edges.
       let shape1_edges = (if s1 = s2 then shape2_edges else e1);
           S4 = fold (\<lambda>(e, f). add_axis s1 (edge_axis e f)) (List.product shape1_edges shape2_edges) S3 in
       rbind (check_axes (\<lambda>cur best. cd_penetration cur \<ge> cd_penetration best) (\<lambda>axis. CheckCollisionAxis axis T1 T2 (S4 s1) (S4 s2)) (m_Axes (S4 s1)) None)
         (\<lambda>r. ok (r, S4)))))"

definition CheckPolyhedronSphereCollision :: "rigid_body \<Rightarrow> rigid_body \<Rightarrow> nat \<Rightarrow> nat \<Rightarrow> shapes \<Rightarrow> (coldata option option \<times> shapes) res" where
  "CheckPolyhedronSphereCollision o1 o2 s1 s2 S =
    (case rb_Shape o1 of None \<Rightarrow> fail NullDeref | Some own \<Rightarrow>
      let (sphereObj, complexShape, complexObj) = (if m_Type (S own) = CollisionSphere then (o1, s2, o2) else (o2, s1, o1));
          T1 = fst (GetWorldSpaceTransform o1); T2 = fst (GetWorldSpaceTransform o2);
          S1 = S(complexShape := GetCollisionAxes (Orientation complexObj) (S complexShape)) in
      rbind (GetEdges (S1 complexShape) (fst (GetWorldSpaceTransform complexObj))) (\<lambda>edges.
        let p = GetClosestPointOnEdges (rb_Position sphereObj) edges; p_t = Normalized (vec_sub (rb_Position sphereObj) p);
            S2 = add_axis complexShape p_t S1 in
        rbind (check_axes (\<lambda>cur best. cd_penetration cur > cd_penetration best) (\<lambda>axis. CheckCollisionAxis axis T1 T2 (S2 s1) (S2 s2)) (m_Axes (S2 complexShape)) None)
          (\<lambda>r. ok (r, S2))))"

section \<open>The table of checks\<close>

datatype check = InvalidCheck | SphereCheck | PolyhedronCheck | PolyhedronSphereCheck

definition CollisionShapeTypeMax :: nat where "CollisionShapeTypeMax = 6"

definition check_table :: "check list" where
  "check_table =
    (replicate (CollisionShapeTypeMax OR (drop_bit 1 CollisionShapeTypeMax)) InvalidCheck)
      [type_code CollisionSphere := SphereCheck, type_code CollisionCuboid := PolyhedronCheck,
       type_code CollisionPyramid := PolyhedronCheck, type_code CollisionHull := PolyhedronCheck,
       type_code CollisionSphere OR type_code CollisionCuboid := PolyhedronSphereCheck]"

definition lookup_check :: "shape_type \<Rightarrow> shape_type \<Rightarrow> check res" where
  "lookup_check t1 t2 = (let k = type_code t1 OR type_code t2 in
     if k < length check_table then ok (check_table ! k) else fail OutOfRange)"

text \<open>The check chosen for the pair; a check leaves the world transforms of both bodies in their caches.\<close>

definition cache_transform :: "rigid_body \<Rightarrow> rigid_body" where
  "cache_transform b = snd (GetWorldSpaceTransform b)"

definition CheckCollision :: "nat \<Rightarrow> nat \<Rightarrow> nat \<Rightarrow> nat \<Rightarrow> bodies \<times> shapes \<Rightarrow> (coldata option option \<times> bodies \<times> shapes) res" where
  "CheckCollision a b s1 s2 = (\<lambda>(W, S).
    let W1 = upd b cache_transform (upd a cache_transform W) in
    rbind (lookup_check (m_Type (S s1)) (m_Type (S s2))) (\<lambda>k. case k of
        InvalidCheck \<Rightarrow> ok (None, W, S)
      | SphereCheck \<Rightarrow> rbind (CheckSphereCollision (W a) (W b) (S s1) (S s2)) (\<lambda>r. ok (map_option Some r, W1, S))
      | PolyhedronCheck \<Rightarrow> rbind (CheckPolyhedronCollision (W a) (W b) s1 s2 S) (\<lambda>(r, S1). ok (r, W1, S1))
      | PolyhedronSphereCheck \<Rightarrow> rbind (CheckPolyhedronSphereCollision (W a) (W b) s1 s2 S) (\<lambda>(r, S1). ok (r, W1, S1))))"

section \<open>Clipping\<close>

definition PlaneEdgeIntersection :: "plane \<Rightarrow> real vec3 \<Rightarrow> real vec3 \<Rightarrow> real vec3" where
  "PlaneEdgeIntersection plane start end1 =
    (let ab = vec_sub end1 start; ab_p = DotProduct (plane_normal plane) ab in
     if \<bar>ab_p\<bar> > 1 / 10000
     then (let p_co = vec_scale (plane_normal plane) (- plane_Distance plane (Vec3 0 0 0)); w = vec_sub start p_co;
               fac = - DotProduct (plane_normal plane) w / ab_p
           in vec_add start (vec_scale ab fac))
     else start)"

text \<open>The points that one edge of the polygon puts out, and the edges in turn.\<close>

definition clip_edge :: "bool \<Rightarrow> plane \<Rightarrow> real vec3 \<Rightarrow> real vec3 \<Rightarrow> real vec3 list" where
  "clip_edge removePoints plane startPoint endPoint =
    (let startIn = PointInPlane plane startPoint; endIn = PointInPlane plane endPoint in
     if removePoints then (if endIn then [endPoint] else [])
     else if startIn \<and> endIn then [endPoint]
     else if startIn \<and> \<not> endIn then [PlaneEdgeIntersection plane startPoint endPoint]
     else if \<not> startIn \<and> endIn then [PlaneEdgeIntersection plane endPoint startPoint, endPoint]
     else [])"

fun clip_pass :: "bool \<Rightarrow> plane \<Rightarrow> real vec3 \<Rightarrow> real vec3 list \<Rightarrow> real vec3 list" where
  "clip_pass removePoints plane startPoint [] = []"
| "clip_pass removePoints plane startPoint (p # ps) = clip_edge removePoints plane startPoint p @ clip_pass removePoints plane p ps"

text \<open>The loop over the planes on its two arrays of eight, which it swaps; the flag says whether \<open>output\<close> is the array of the caller.\<close>

fun clip_loop :: "bool \<Rightarrow> plane list \<Rightarrow> bool \<Rightarrow> real vec3 list \<Rightarrow> real vec3 list \<Rightarrow> nat \<Rightarrow> (bool \<times> real vec3 list \<times> real vec3 list \<times> nat) res" where
  "clip_loop removePoints [] callers input output outputCount = ok (callers, input, output, outputCount)"
| "clip_loop removePoints (plane # planes) callers input output outputCount =
    (if outputCount = 0 then ok (callers, input, output, outputCount)
     else (let points = take outputCount output; out1 = clip_pass removePoints plane (last points) points
           in if length out1 \<le> MAX_POLYGON then clip_loop removePoints planes (\<not> callers) output (overwrite out1 input) (length out1)
              else fail OutOfRange))"

text \<open>What the caller sees: its array and the count. The pointer to the last output is assigned to a local.\<close>

definition SutherlandHodgesonClipping :: "real vec3 list \<Rightarrow> nat \<Rightarrow> plane list \<Rightarrow> bool \<Rightarrow> (real vec3 list \<times> nat) res" where
  "SutherlandHodgesonClipping polygon num planes removePoints =
    rbind (clip_loop removePoints planes True (replicate MAX_POLYGON (Vec3 0 0 0)) polygon num)
      (\<lambda>(callers, input, output, outputCount). ok (if callers then output else input, outputCount))"

section \<open>Building a manifold\<close>

definition full_array :: "real vec3 list \<Rightarrow> real vec3 list" where
  "full_array xs = overwrite xs (replicate MAX_POLYGON (Vec3 0 0 0))"

text \<open>The contact of a clipped point, on the bodies \<open>A\<close> and \<open>B\<close>.\<close>

definition clipped_contact :: "bool \<Rightarrow> real vec3 \<Rightarrow> real vec3 \<Rightarrow> real vec3 \<Rightarrow> real vec3 \<times> real vec3 \<times> real" where
  "clipped_contact flipped normal face endPoint =
    (if flipped
     then (let pen = - (DotProduct endPoint normal - DotProduct normal face) in (vec_add endPoint (vec_scale normal pen), endPoint, pen))
     else (let pen = DotProduct endPoint normal - DotProduct normal face in (endPoint, vec_sub endPoint (vec_scale normal pen), pen)))"

fun add_contacts :: "bodies \<Rightarrow> real vec3 \<Rightarrow> (real vec3 \<times> real vec3 \<times> real) list \<Rightarrow> manifold \<Rightarrow> manifold res" where
  "add_contacts W normal [] M = ok M"
| "add_contacts W normal ((onA, onB, pen) # cs) M = rbind (AddContact W onA onB normal pen M) (add_contacts W normal cs)"

definition clip_polygons :: "real vec3 \<Rightarrow> ref_polygon \<Rightarrow> ref_polygon \<Rightarrow> (real vec3 \<times> real vec3 \<times> real) list res" where
  "clip_polygons normal poly1 poly2 =
    (let flipped = \<not> \<bar>DotProduct normal (rp_Normal poly1)\<bar> > \<bar>DotProduct normal (rp_Normal poly2)\<bar>;
         (ref, inc) = (if flipped then (poly2, poly1) else (poly1, poly2));
         face = hd (rp_Faces ref); refPlane = Plane_of (vec_neg (rp_Normal ref)) (- DotProduct face (vec_neg (rp_Normal ref))) in
     rbind (SutherlandHodgesonClipping (full_array (rp_Faces inc)) (length (rp_Faces inc)) (rp_Planes ref) False) (\<lambda>(polygon, num).
     rbind (SutherlandHodgesonClipping polygon num [refPlane] True) (\<lambda>(polygon, num).
       ok (map (clipped_contact flipped normal face) (take num polygon)))))"

definition BuildCollisionManifold :: "bodies \<Rightarrow> nat \<Rightarrow> nat \<Rightarrow> shape \<Rightarrow> shape \<Rightarrow> coldata \<Rightarrow> manifold \<Rightarrow> (bool \<times> manifold) res" where
  "BuildCollisionManifold W a b shape1 shape2 cd M =
    (let n = cd_normal cd; pen = cd_penetration cd in
     rbind (GetIncidentReferencePolygon shape1 (fst (GetWorldSpaceTransform (W a))) (rb_Position (W a)) n) (\<lambda>poly1.
     rbind (GetIncidentReferencePolygon shape2 (fst (GetWorldSpaceTransform (W b))) (rb_Position (W b)) (vec_neg n)) (\<lambda>poly2.
       if rp_Faces poly1 = [] \<or> rp_Faces poly2 = [] then ok (False, M)
       else rbind (if length (rp_Faces poly1) = 1
                   then (let p = hd (rp_Faces poly1) in ok [(p, vec_sub p (vec_scale n pen), pen)])
                   else if length (rp_Faces poly2) = 1
                   then (let p = hd (rp_Faces poly2) in ok [(vec_add p (vec_scale n pen), p, pen)])
                   else clip_polygons n poly1 poly2) (\<lambda>cs.
         rbind (add_contacts W n cs M) (\<lambda>M1. ok (True, M1))))))"

section \<open>The table\<close>

lemma table_values: "check_table = [InvalidCheck, PolyhedronCheck, SphereCheck, PolyhedronSphereCheck, InvalidCheck, PolyhedronCheck, InvalidCheck]"
  by code_simp

text \<open>The table maps a pair of types by the bitwise or of their codes, which mixes the pairs up: a pyramid is tested
  as a sphere against every type but hulls and capsules, capsules are never tested against capsules or spheres, two
  pyramids get the test of a polyhedron and a sphere, and the pairs of a hull with a sphere or a pyramid and of a
  capsule with a pyramid read behind the table. The order of the two types never matters.\<close>
theorem check_dispatch:
  "lookup_check t1 t2 =
    (if {t1, t2} \<in> {{CollisionSphere, CollisionHull}, {CollisionPyramid, CollisionCapsule}, {CollisionPyramid, CollisionHull}} then fail OutOfRange
     else if {t1, t2} \<in> {{CollisionSphere, CollisionCapsule}, {CollisionCapsule}} then ok InvalidCheck
     else if {t1, t2} = {CollisionSphere} then ok SphereCheck
     else if CollisionPyramid \<in> {t1, t2} \<or> {t1, t2} = {CollisionSphere, CollisionCuboid} then ok PolyhedronSphereCheck
     else ok PolyhedronCheck)"
proof -
  have "(1::nat) OR 1 = 1" "(1::nat) OR 2 = 3" "(1::nat) OR 3 = 3" "(1::nat) OR 4 = 5" "(1::nat) OR 5 = 5" "(2::nat) OR 1 = 3" "(2::nat) OR 2 = 2"
    "(2::nat) OR 3 = 3" "(2::nat) OR 4 = 6" "(2::nat) OR 5 = 7" "(3::nat) OR 1 = 3" "(3::nat) OR 2 = 3" "(3::nat) OR 3 = 3" "(3::nat) OR 4 = 7"
    "(3::nat) OR 5 = 7" "(4::nat) OR 1 = 5" "(4::nat) OR 2 = 6" "(4::nat) OR 3 = 7" "(4::nat) OR 4 = 4" "(4::nat) OR 5 = 5" "(5::nat) OR 1 = 5"
    "(5::nat) OR 2 = 7" "(5::nat) OR 3 = 7" "(5::nat) OR 4 = 5" "(5::nat) OR 5 = 5" by code_simp+
  then show ?thesis by (cases t1; cases t2) (simp_all add: lookup_check_def table_values doubleton_eq_iff)
qed

section \<open>Separating axes\<close>

text \<open>A plane normal to the axis has the first shape on one side and the second on the other.\<close>

definition separates :: "real vec3 \<Rightarrow> shape \<Rightarrow> real mat4 \<Rightarrow> shape \<Rightarrow> real mat4 \<Rightarrow> bool" where
  "separates axis s1 T1 s2 T2 \<longleftrightarrow>
    (\<forall>p q. in_shape s1 (Some T1) p \<longrightarrow> in_shape s2 (Some T2) q \<longrightarrow> DotProduct axis p < DotProduct axis q)
    \<or> (\<forall>p q. in_shape s1 (Some T1) p \<longrightarrow> in_shape s2 (Some T2) q \<longrightarrow> DotProduct axis q \<le> DotProduct axis p)"

definition well_placed :: "shape \<Rightarrow> real mat4 \<Rightarrow> bool" where
  "well_placed s T \<longleftrightarrow> affine T \<and> sound_shape s"

definition round_shape :: "shape \<Rightarrow> bool" where
  "round_shape s \<longleftrightarrow> m_Type s \<in> {CollisionSphere, CollisionCapsule}"

lemma placed_ws: "well_placed s T \<Longrightarrow> affine (ws_transform s (Some T))"
  by (simp add: well_placed_def sound_shape_def ws_transform_def affine_mul)

lemma axis_separates:
  assumes "CheckCollisionAxis axis T1 T2 s1 s2 = Inr None" and "well_placed s1 T1" and "well_placed s2 T2"
    and "round_shape s1 \<or> round_shape s2 \<Longrightarrow> LengthSquared axis = 1"
  shows "separates axis s1 T1 s2 T2"
proof -
  obtain min1 max1 min2 max2 where m: "GetMinMaxVertexOnAxis s1 (Some T1) axis = Inr (min1, max1)"
    "GetMinMaxVertexOnAxis s2 (Some T2) axis = Inr (min2, max2)"
    using assms(1) by (auto simp: CheckCollisionAxis_def rbind_eq_Inr)
  have "DotProduct axis max1 < DotProduct axis min2 \<or> DotProduct axis max2 \<le> DotProduct axis min1
      \<or> \<not> DotProduct axis min1 \<le> DotProduct axis max1 \<or> \<not> DotProduct axis min2 \<le> DotProduct axis max2"
    using assms(1) m by (auto simp: CheckCollisionAxis_def Let_def split: if_splits)
  moreover have s1: "DotProduct axis min1 \<le> DotProduct axis p \<and> DotProduct axis p \<le> DotProduct axis max1" if "in_shape s1 (Some T1) p" for p
    by (rule support_any [OF m(1) that placed_ws [OF assms(2)]]) (use assms(2,4) in \<open>auto simp: well_placed_def sound_shape_def round_shape_def\<close>)
  moreover have s2: "DotProduct axis min2 \<le> DotProduct axis q \<and> DotProduct axis q \<le> DotProduct axis max2" if "in_shape s2 (Some T2) q" for q
    by (rule support_any [OF m(2) that placed_ws [OF assms(3)]]) (use assms(3,4) in \<open>auto simp: well_placed_def sound_shape_def round_shape_def\<close>)
  ultimately show ?thesis unfolding separates_def by (smt (verit))
qed

lemma check_axes_None: "check_axes better check axes best = Inr None \<Longrightarrow> \<exists>axis \<in> set axes. check axis = Inr None"
proof (induction axes arbitrary: best)
  case (Cons axis axes)
  then obtain r where r: "check axis = Inr r" by (auto simp: rbind_eq_Inr)
  show ?case
  proof (cases r)
    case (Some c)
    with Cons.prems r have "\<exists>best. check_axes better check axes best = Inr None" by auto
    with Cons.IH show ?thesis by auto
  qed (use r in simp)
qed simp

lemma check_axes_Some:
  assumes "check_axes better check axes best = Inr (Some res)" and "\<And>c d. better c d \<longrightarrow> pen d \<le> pen c" "\<And>c d. \<not> better c d \<longrightarrow> pen c \<le> (pen d :: real)"
  shows "(\<forall>axis \<in> set axes. \<exists>c d. check axis = Inr (Some c) \<and> res = Some d \<and> pen c \<le> pen d)
    \<and> (\<forall>b. best = Some b \<longrightarrow> (\<exists>d. res = Some d \<and> pen b \<le> pen d))
    \<and> (\<forall>d. res = Some d \<longrightarrow> best = Some d \<or> (\<exists>axis \<in> set axes. check axis = Inr (Some d)))"
  using assms(1)
proof (induction axes arbitrary: best)
  case (Cons axis axes)
  then obtain c where c: "check axis = Inr (Some c)" by (auto simp: rbind_eq_Inr split: option.splits)
  define best1 where "best1 = (case best of None \<Rightarrow> Some c | Some b \<Rightarrow> if better c b then Some c else best)"
  have r: "check_axes better check axes best1 = Inr (Some res)" using Cons.prems c by (simp add: best1_def)
  have b1: "\<exists>d. best1 = Some d \<and> pen c \<le> pen d \<and> (\<forall>b. best = Some b \<longrightarrow> pen b \<le> pen d) \<and> (best = Some d \<or> d = c)"
    using assms(2,3) by (auto simp: best1_def split: option.splits)
  with Cons.IH [OF r] c show ?case by (fastforce intro: order_trans)
qed auto

text \<open>The checks write nothing of the shapes but their axes.\<close>

definition axes_only :: "shapes \<Rightarrow> shapes \<Rightarrow> bool" where
  "axes_only S S1 \<longleftrightarrow> (\<forall>s. \<exists>axes. S1 s = (S s)\<lparr>m_Axes := axes\<rparr>)"

lemma same_axes: "\<exists>axes. s = s\<lparr>m_Axes := axes\<rparr>" for s :: shape
  by (intro exI [of _ "m_Axes s"]) simp

lemma axes_only_refl: "axes_only S S"
  using same_axes by (simp add: axes_only_def)

lemma axes_only_trans: "axes_only S S1 \<Longrightarrow> axes_only S1 S2 \<Longrightarrow> axes_only S S2"
  unfolding axes_only_def by (metis shape.update_convs(7) shape.surjective)

lemma axes_only_upd:
  assumes "x = (S s)\<lparr>m_Axes := axes\<rparr>"
  shows "axes_only S (S(s := x))"
  using assms same_axes by (auto simp: axes_only_def)

lemma axes_only_steps:
  "axes_only S (S(s := GetCollisionAxes q (S s)))" "axes_only S (add_axis s axis S)" "axes_only S (offer_axis s1 s2 i S)"
proof -
  have "\<exists>axes. GetCollisionAxes q (S s) = (S s)\<lparr>m_Axes := axes\<rparr>"
    using same_axes [of "S s"] unfolding GetCollisionAxes_def Let_def by (cases "m_Type (S s)") auto
  then show "axes_only S (S(s := GetCollisionAxes q (S s)))" using axes_only_upd by metis
  have set_axes: "axes_only S (set_axes s axes S)" for s axes S unfolding set_axes_def by (rule axes_only_upd) simp
  then show "axes_only S (add_axis s axis S)" by (simp add: add_axis_def)
  show "axes_only S (offer_axis s1 s2 i S)" by (auto simp: offer_axis_def Let_def intro: set_axes axes_only_trans [OF set_axes set_axes])
qed

lemma axes_only_fold: "(\<And>x S. axes_only S (f x S)) \<Longrightarrow> axes_only S (fold f xs S)"
  by (induction xs arbitrary: S) (auto intro: axes_only_refl axes_only_trans)

lemma axes_only_shape:
  assumes "axes_only S S1"
  shows "in_shape (S1 s) T p = in_shape (S s) T p" "well_placed (S1 s) M = well_placed (S s) M" "round_shape (S1 s) = round_shape (S s)"
    "m_Type (S1 s) = m_Type (S s)"
proof -
  obtain axes where e: "S1 s = (S s)\<lparr>m_Axes := axes\<rparr>" using assms unfolding axes_only_def by blast
  have ws: "ws_transform ((S s)\<lparr>m_Axes := axes\<rparr>) T = ws_transform (S s) T" for T by (simp add: ws_transform_def split: option.splits)
  show "in_shape (S1 s) T p = in_shape (S s) T p" "well_placed (S1 s) M = well_placed (S s) M" "round_shape (S1 s) = round_shape (S s)"
    "m_Type (S1 s) = m_Type (S s)" by (simp_all add: e in_shape_def ws well_placed_def sound_shape_def flat_capsule_def round_shape_def)
qed

lemma axes_only_separates: "axes_only S S1 \<Longrightarrow> separates axis (S1 s1) T1 (S1 s2) T2 = separates axis (S s1) T1 (S s2) T2"
  by (simp add: separates_def axes_only_shape)

lemma Polyhedron_Inr:
  assumes "CheckPolyhedronCollision o1 o2 s1 s2 S = Inr (r, S1)"
  shows "axes_only S S1"
    "check_axes (\<lambda>cur best. cd_penetration cur \<ge> cd_penetration best)
       (\<lambda>axis. CheckCollisionAxis axis (fst (GetWorldSpaceTransform o1)) (fst (GetWorldSpaceTransform o2)) (S1 s1) (S1 s2)) (m_Axes (S1 s1)) None = Inr r"
proof -
  let ?S1 = "S(s1 := GetCollisionAxes (Orientation o1) (S s1))"
  let ?S2 = "?S1(s2 := GetCollisionAxes (Orientation o2) (?S1 s2))"
  let ?S3 = "fold (offer_axis s1 s2) [0..<length (m_Axes (?S2 s2))] ?S2"
  obtain es where S1: "S1 = fold (\<lambda>(e, f). add_axis s1 (edge_axis e f)) es ?S3"
    and c: "check_axes (\<lambda>cur best. cd_penetration cur \<ge> cd_penetration best)
       (\<lambda>axis. CheckCollisionAxis axis (fst (GetWorldSpaceTransform o1)) (fst (GetWorldSpaceTransform o2)) (S1 s1) (S1 s2)) (m_Axes (S1 s1)) None = Inr r"
    using assms by (auto simp: CheckPolyhedronCollision_def Let_def rbind_eq_Inr simp del: fun_upd_apply)
  have "axes_only ?S3 S1" unfolding S1 by (rule axes_only_fold) (auto split: prod.splits intro: axes_only_steps)
  moreover have "axes_only ?S2 ?S3" by (rule axes_only_fold) (rule axes_only_steps)
  moreover have "axes_only S ?S1" "axes_only ?S1 ?S2" by (rule axes_only_steps)+
  ultimately show "axes_only S S1" using axes_only_trans by blast
  show "check_axes (\<lambda>cur best. cd_penetration cur \<ge> cd_penetration best)
       (\<lambda>axis. CheckCollisionAxis axis (fst (GetWorldSpaceTransform o1)) (fst (GetWorldSpaceTransform o2)) (S1 s1) (S1 s2)) (m_Axes (S1 s1)) None = Inr r"
    by (rule c)
qed

lemma PolyhedronSphere_Inr:
  assumes "CheckPolyhedronSphereCollision o1 o2 s1 s2 S = Inr (r, S1)"
  shows "axes_only S S1 \<and> (\<exists>k \<in> {s1, s2}. check_axes (\<lambda>cur best. cd_penetration cur > cd_penetration best)
       (\<lambda>axis. CheckCollisionAxis axis (fst (GetWorldSpaceTransform o1)) (fst (GetWorldSpaceTransform o2)) (S1 s1) (S1 s2)) (m_Axes (S1 k)) None = Inr r)"
proof -
  obtain own where own: "rb_Shape o1 = Some own" using assms by (auto simp: CheckPolyhedronSphereCollision_def split: option.splits)
  define sph cs co where "sph = (if m_Type (S own) = CollisionSphere then o1 else o2)"
    and "cs = (if m_Type (S own) = CollisionSphere then s2 else s1)" and "co = (if m_Type (S own) = CollisionSphere then o2 else o1)"
  define S0 where "S0 = S(cs := GetCollisionAxes (Orientation co) (S cs))"
  have split: "(if m_Type (S own) = CollisionSphere then (o1, s2, o2) else (o2, s1, o1)) = (sph, cs, co)"
    by (simp add: sph_def cs_def co_def)
  obtain p where S1: "S1 = add_axis cs p S0" and c: "check_axes (\<lambda>cur best. cd_penetration cur > cd_penetration best)
       (\<lambda>axis. CheckCollisionAxis axis (fst (GetWorldSpaceTransform o1)) (fst (GetWorldSpaceTransform o2)) (S1 s1) (S1 s2)) (m_Axes (S1 cs)) None = Inr r"
    using assms unfolding CheckPolyhedronSphereCollision_def own option.case split Let_def prod.case S0_def [symmetric]
    by (auto simp: rbind_eq_Inr simp del: fun_upd_apply)
  have "axes_only S S0" unfolding S0_def by (rule axes_only_steps)
  moreover have "axes_only S0 S1" unfolding S1 by (rule axes_only_steps)
  moreover have "cs \<in> {s1, s2}" by (simp add: cs_def)
  ultimately show ?thesis using c axes_only_trans by blast
qed

text \<open>The axes that a check of the pair has tested, read off the shapes it leaves.\<close>

definition tested :: "rigid_body \<Rightarrow> rigid_body \<Rightarrow> shape \<Rightarrow> shape \<Rightarrow> real vec3 set" where
  "tested o1 o2 shape1 shape2 = insert (Normalized (vec_sub (rb_Position o2) (rb_Position o1))) (set (m_Axes shape1) \<union> set (m_Axes shape2))"


section \<open>Balls\<close>

lemma ball_extremes:
  assumes "m_Type s = CollisionSphere" and "m_LocalTransform s = scale_matrix v"
  shows "GetMinMaxVertexOnAxis s (Some T) axis
    = Inr (vec_sub (Translation T) (vec_scale axis (m_Radius s)), vec_add (Translation T) (vec_scale axis (m_Radius s)))"
proof -
  have "Translation (mat4_mul T (scale_matrix v)) = Translation T"
    by (simp add: mat4_mul_def scale_matrix_def mat4_SetScale_def mat4_id_def Translation_def)
  then show ?thesis by (simp add: GetMinMaxVertexOnAxis_def ws_transform_def Let_def assms)
qed

lemma Normalized_direction:
  assumes "LengthSquared (Normalized v) = 1"
  shows "v = vec_scale (Normalized v) (vec_Length v)"
proof -
  have "LengthSquared v \<noteq> 0" using assms LengthSquared_zero [of v] by (auto simp: Normalized_def Let_def Equals_eps_def zero_vec3_def LengthSquared_def)
  then have pos: "0 < LengthSquared v" using LengthSquared_nonneg [of v] by simp
  show ?thesis
  proof (cases "Equals_eps (LengthSquared v) 1 (1 / 1000000)")
    case True
    then have "Normalized v = v" by (simp add: Normalized_def Let_def)
    with assms show ?thesis by (simp add: vec_Length_def vec_scale_def)
  next
    case False
    then show ?thesis using pos by (simp add: Normalized_def Let_def vec_Length_def vec_scale_def vec3.expand)
  qed
qed

text \<open>A body whose cached transform, if valid, is at its position.\<close>

lemma coherent_translation: "coherent b \<Longrightarrow> Translation (fst (GetWorldSpaceTransform b)) = rb_Position b"
  by (simp add: GetWorldSpaceAABB_coherent(3) fresh_transform_def SetTranslation_def Translation_def)

definition ball_shape :: "shape \<Rightarrow> bool" where
  "ball_shape s \<longleftrightarrow> m_Type s = CollisionSphere \<and> (\<exists>v. m_LocalTransform s = scale_matrix v) \<and> 0 \<le> m_Radius s"

lemma ball_check:
  assumes "ball_shape s1" and "ball_shape s2" and "coherent o1" and "coherent o2"
    and "LengthSquared (Normalized (vec_sub (rb_Position o2) (rb_Position o1))) = 1"
  shows "CheckSphereCollision o1 o2 s1 s2 =
    (let axis = Normalized (vec_sub (rb_Position o2) (rb_Position o1)); d = vec_Length (vec_sub (rb_Position o2) (rb_Position o1));
         r1 = m_Radius s1; r2 = m_Radius s2 in
     if d \<le> r1 + r2 then ok (Some (if r2 - r1 \<le> d
         then \<lparr>cd_penetration = d - (r1 + r2), cd_normal = axis, cd_pointOnPlane = vec_add (rb_Position o1) (vec_scale axis (d - r2))\<rparr>
         else \<lparr>cd_penetration = - (d + r1 + r2), cd_normal = vec_neg axis, cd_pointOnPlane = vec_add (rb_Position o1) (vec_scale axis (d + r2))\<rparr>))
     else ok None)"
proof -
  define axis where "axis = Normalized (vec_sub (rb_Position o2) (rb_Position o1))"
  define d where "d = vec_Length (vec_sub (rb_Position o2) (rb_Position o1))"
  obtain v1 v2 where bs: "m_Type s1 = CollisionSphere" "m_LocalTransform s1 = scale_matrix v1" "m_Type s2 = CollisionSphere" "m_LocalTransform s2 = scale_matrix v2"
    and r: "0 \<le> m_Radius s1" "0 \<le> m_Radius s2" using assms(1,2) by (auto simp: ball_shape_def)
  have u: "DotProduct axis axis = 1" using assms(5) by (simp add: axis_def DotProduct_def LengthSquared_def)
  have dir: "vec_sub (rb_Position o2) (rb_Position o1) = vec_scale axis d"
    unfolding axis_def d_def by (rule Normalized_direction) (rule assms(5))
  then have "DotProduct axis (vec_sub (rb_Position o2) (rb_Position o1)) = d" by (simp add: dot_simps u)
  then have p2: "DotProduct axis (rb_Position o2) = DotProduct axis (rb_Position o1) + d" by (simp add: dot_simps)
  have d: "0 < d"
  proof -
    have "d \<noteq> 0"
    proof
      assume "d = 0"
      then have "vec_sub (rb_Position o2) (rb_Position o1) = Vec3 0 0 0" using dir by (simp add: vec_scale_def)
      then have "axis = Vec3 0 0 0" by (simp add: axis_def Normalized_def LengthSquared_def)
      then show False using u by (simp add: DotProduct_def)
    qed
    moreover have "0 \<le> d" by (simp add: d_def vec_Length_def LengthSquared_nonneg)
    ultimately show ?thesis by simp
  qed
  let ?p = "rb_Position o1" and ?q = "rb_Position o2" and ?a = "DotProduct axis (rb_Position o1)"
  let ?r1 = "m_Radius s1" and ?r2 = "m_Radius s2"
  have m: "DotProduct axis (vec_sub ?p (vec_scale axis ?r1)) = ?a - ?r1" "DotProduct axis (vec_add ?p (vec_scale axis ?r1)) = ?a + ?r1"
    "DotProduct axis (vec_sub ?q (vec_scale axis ?r2)) = ?a + d - ?r2" "DotProduct axis (vec_add ?q (vec_scale axis ?r2)) = ?a + d + ?r2"
    by (simp_all only: dot_simps u p2 mult_1_right)
  have v: "vec_add (vec_add ?p (vec_scale axis ?r1)) (vec_scale axis (?a + d - ?r2 - (?a + ?r1))) = vec_add ?p (vec_scale axis (d - ?r2))"
    "vec_add (vec_sub ?p (vec_scale axis ?r1)) (vec_scale (vec_neg axis) (?a - ?r1 - (?a + d + ?r2))) = vec_add ?p (vec_scale axis (d + ?r2))"
    by (simp_all add: vec_defs algebra_simps)
  have step: "CheckSphereCollision o1 o2 s1 s2 =
     (if ?a - ?r1 \<le> ?a + d - ?r2 \<and> ?a + ?r1 \<ge> ?a + d - ?r2
      then ok (Some \<lparr>cd_penetration = ?a + d - ?r2 - (?a + ?r1), cd_normal = axis, cd_pointOnPlane = vec_add ?p (vec_scale axis (d - ?r2))\<rparr>)
      else if ?a + d - ?r2 \<le> ?a - ?r1 \<and> ?a + d + ?r2 > ?a - ?r1
      then ok (Some \<lparr>cd_penetration = ?a - ?r1 - (?a + d + ?r2), cd_normal = vec_neg axis, cd_pointOnPlane = vec_add ?p (vec_scale axis (d + ?r2))\<rparr>)
      else ok None)"
    unfolding CheckSphereCollision_def axis_def [symmetric] d_def [symmetric] CheckCollisionAxis_def
      ball_extremes [OF bs(1,2)] ball_extremes [OF bs(3,4)] coherent_translation [OF assms(3)] coherent_translation [OF assms(4)]
    by (simp only: rbind_simps prod.case Let_def m v)
  have c: "(if ?r2 - ?r1 \<le> d \<and> d \<le> ?r1 + ?r2 then x else if d \<le> ?r2 - ?r1 then y else z)
      = (if d \<le> ?r1 + ?r2 then if ?r2 - ?r1 \<le> d then x else y else z)" for x y z :: "coldata option res"
    using r by auto
  have i: "?a - ?r1 \<le> ?a + d - ?r2 \<longleftrightarrow> ?r2 - ?r1 \<le> d" "?a + d - ?r2 \<le> ?a + ?r1 \<longleftrightarrow> d \<le> ?r1 + ?r2"
    "?a + d - ?r2 \<le> ?a - ?r1 \<longleftrightarrow> d \<le> ?r2 - ?r1" "?a - ?r1 < ?a + d + ?r2 \<longleftrightarrow> True"
    "?a + d - ?r2 - (?a + ?r1) = d - (?r1 + ?r2)" "?a - ?r1 - (?a + d + ?r2) = - (d + ?r1 + ?r2)" using r d by auto
  show ?thesis
    unfolding step Let_def axis_def [symmetric] d_def [symmetric] i simp_thms c by simp
qed

text \<open>The separating-axis check of two balls agrees with the closed form \<open>CheckSphereOverlap\<close>: it never faults, it
  reports a collision exactly when the helper does, and the penetration it reports is at most the sum of the radii below the distance, with a unit
  normal; when the centre of neither ball is engulfed the normal points from the first to the second.\<close>
theorem ball_check_equivalent:
  assumes "ball_shape s1" and "ball_shape s2" and "coherent o1" and "coherent o2"
    and "LengthSquared (Normalized (vec_sub (rb_Position o2) (rb_Position o1))) = 1"
  shows "\<exists>r. CheckSphereCollision o1 o2 s1 s2 = Inr r
    \<and> (r \<noteq> None \<longleftrightarrow> CheckSphereOverlap (rb_Position o1) (m_Radius s1) (rb_Position o2) (m_Radius s2))
    \<and> (\<forall>c. r = Some c \<longrightarrow> LengthSquared (cd_normal c) = 1 \<and> cd_penetration c \<le> 0
         \<and> cd_penetration c \<le> vec_Length (vec_sub (rb_Position o2) (rb_Position o1)) - (m_Radius s1 + m_Radius s2))"
proof -
  define d where "d = vec_Length (vec_sub (rb_Position o2) (rb_Position o1))"
  define axis where "axis = Normalized (vec_sub (rb_Position o2) (rb_Position o1))"
  have r: "0 \<le> m_Radius s1" "0 \<le> m_Radius s2" using assms(1,2) by (auto simp: ball_shape_def)
  have d: "0 \<le> d" "d * d = LengthSquared (vec_sub (rb_Position o2) (rb_Position o1))"
    by (simp_all add: d_def vec_Length_def LengthSquared_nonneg)
  have "CheckSphereOverlap (rb_Position o1) (m_Radius s1) (rb_Position o2) (m_Radius s2) \<longleftrightarrow> d\<^sup>2 \<le> (m_Radius s1 + m_Radius s2)\<^sup>2"
    by (simp add: CheckSphereOverlap_def Squared_def d(2) [symmetric] power2_eq_square)
  also have "\<dots> \<longleftrightarrow> d \<le> m_Radius s1 + m_Radius s2" using d(1) r by (simp add: power_mono_iff)
  finally have o: "CheckSphereOverlap (rb_Position o1) (m_Radius s1) (rb_Position o2) (m_Radius s2) \<longleftrightarrow> d \<le> m_Radius s1 + m_Radius s2" .
  have u: "LengthSquared axis = 1" "LengthSquared (vec_neg axis) = 1" using assms(5) by (simp_all add: axis_def LengthSquared_def vec_neg_def)
  show ?thesis
    unfolding ball_check [OF assms] Let_def axis_def [symmetric] d_def [symmetric] o using u d(1) r by simp
qed

text \<open>Two balls of radius one, ten apart.\<close>

definition ball_at :: "real \<Rightarrow> rigid_body" where
  "ball_at x = unit_body\<lparr>rb_Shape := Some 0, rb_Position := Vec3 x 0 0\<rparr>"

lemma ball_at_simps: "ball_shape (new_Sphere 1)" "coherent (ball_at x)" "m_Radius (new_Sphere 1) = 1"
  "vec_sub (rb_Position (ball_at 10)) (rb_Position (ball_at 0)) = Vec3 10 0 0" "Normalized (Vec3 10 0 0) = Vec3 1 0 0"
  "LengthSquared (Vec3 1 0 0 :: real vec3) = 1" "vec_Length (Vec3 10 0 0) = 10"
proof -
  have ten: "sqrt 100 = (10 :: real)" using real_sqrt_abs [of 10] by simp
  show "ball_shape (new_Sphere 1)" "coherent (ball_at x)" "m_Radius (new_Sphere 1) = 1"
    by (auto simp: ball_shape_def new_Sphere_def blank_shape_def coherent_def ball_at_def unit_body_def)
  show "vec_sub (rb_Position (ball_at 10)) (rb_Position (ball_at 0)) = Vec3 10 0 0" "Normalized (Vec3 10 0 0) = Vec3 1 0 0"
    "LengthSquared (Vec3 1 0 0 :: real vec3) = 1" "vec_Length (Vec3 10 0 0) = 10"
    by (simp_all add: ball_at_def unit_body_def vec_defs Normalized_def Let_def LengthSquared_def Equals_eps_def vec_Length_def ten)
qed

theorem ball_check_equivalent_witness:
  "CheckSphereCollision (ball_at 0) (ball_at 10) (new_Sphere 1) (new_Sphere 1) = Inr None"
proof -
  have "\<not> CheckSphereOverlap (rb_Position (ball_at 0)) 1 (rb_Position (ball_at 10)) (1 :: real)"
    by (simp add: CheckSphereOverlap_def ball_at_simps Squared_def LengthSquared_def)
  with ball_check_equivalent [of "new_Sphere 1" "new_Sphere 1" "ball_at 0" "ball_at 10"] show ?thesis by (auto simp: ball_at_simps)
qed

lemma balls_apart: "CheckSphereCollision (ball_at 0) (ball_at 10) (new_Sphere 1) (new_Sphere 1) = Inr None"
  using ball_check [of "new_Sphere 1" "new_Sphere 1" "ball_at 0" "ball_at 10"] by (simp add: ball_at_simps)

lemma ball_transform: "fst (GetWorldSpaceTransform (ball_at x)) = SetTranslation (Vec3 x 0 0) mat4_id"
  by (simp add: GetWorldSpaceTransform_def ball_at_def unit_body_def fresh_transform_def RotationMatrix4_def mat4_of_mat3_def
      SetTranslation_def mat4_id_def mat3_id_def)

lemma unit_sphere_placed: "well_placed (new_Sphere 1) (SetTranslation v mat4_id)"
  by (simp add: well_placed_def sound_shape_def flat_capsule_def new_Sphere_def blank_shape_def affine_def scale_matrix_def mat4_SetScale_def mat4_id_def SetTranslation_def)


section \<open>What the clipping computes\<close>

text \<open>The reference: every plane cuts the whole polygon in turn.\<close>

fun clip_ref :: "bool \<Rightarrow> plane list \<Rightarrow> real vec3 list \<Rightarrow> real vec3 list" where
  "clip_ref r [] points = points"
| "clip_ref r (plane # planes) points = (if points = [] then [] else clip_ref r planes (clip_pass r plane (last points) points))"

lemma clip_ref_append: "clip_ref r (ps @ [p]) points = (let q = clip_ref r ps points in if q = [] then [] else clip_pass r p (last q) q)"
  by (induction ps arbitrary: points) (auto simp: Let_def)

lemma clip_ref_Nil [simp]: "clip_ref r ps [] = []"
  by (cases ps) auto

lemma overwrite_simps: "length xs \<le> length ys \<Longrightarrow> length (overwrite xs ys) = length ys" "take (length xs) (overwrite xs ys) = xs"
  by (simp_all add: overwrite_def)

lemma clip_loop_spec:
  assumes "clip_loop r ps c inp out n = Inr (c1, i1, o1, m)" and "length inp = MAX_POLYGON" and "length out = MAX_POLYGON" and "n \<le> MAX_POLYGON"
  shows "take m o1 = clip_ref r ps (take n out) \<and> m = length (clip_ref r ps (take n out)) \<and> length i1 = MAX_POLYGON \<and> length o1 = MAX_POLYGON
    \<and> (clip_ref r (butlast ps) (take n out) \<noteq> [] \<longrightarrow> (c1 \<longleftrightarrow> c = even (length ps))
        \<and> (ps \<noteq> [] \<longrightarrow> take (length (clip_ref r (butlast ps) (take n out))) i1 = clip_ref r (butlast ps) (take n out)))
    \<and> (ps = [] \<longrightarrow> i1 = inp \<and> c1 = c) \<and> (length ps = 1 \<longrightarrow> n \<noteq> 0 \<longrightarrow> i1 = out)"
  using assms
proof (induction ps arbitrary: c inp out n)
  case Nil
  then show ?case by auto
next
  case (Cons p ps)
  show ?case
  proof (cases "n = 0")
    case True
    with Cons.prems show ?thesis by (cases ps) auto
  next
    case False
    define pts where "pts = take n out"
    define new where "new = clip_pass r p (last pts) pts"
    have pts: "pts \<noteq> []" "length pts = n" using False Cons.prems(3,4) by (auto simp: pts_def MAX_POLYGON_def)
    have rec: "length new \<le> MAX_POLYGON" "clip_loop r ps (\<not> c) out (overwrite new inp) (length new) = Inr (c1, i1, o1, m)"
      using Cons.prems(1) False by (auto simp: Let_def new_def pts_def split: if_splits)
    note ow = overwrite_simps(1) [OF rec(1) [folded Cons.prems(2)], unfolded Cons.prems(2)]
    note IH = Cons.IH [OF rec(2) Cons.prems(3) ow rec(1), unfolded overwrite_simps(2)]
    have ref: "clip_ref r (p # ps) pts = clip_ref r ps new" using pts by (simp add: new_def)
    show ?thesis
    proof (cases "ps = []")
      case True
      with IH ref pts Cons.prems(3) show ?thesis by (auto simp: pts_def [symmetric])
    next
      case False
      have ref1: "clip_ref r (butlast (p # ps)) pts = clip_ref r (butlast ps) new" using False pts by (simp add: new_def)
      show ?thesis unfolding pts_def [symmetric] ref ref1 using IH False by auto
    qed
  qed
qed

lemma PlaneEdge_in_plane:
  assumes "LengthSquared (plane_normal p) = 1" and "PointInPlane p start"
  shows "PointInPlane p (PlaneEdgeIntersection p start end1)"
proof (cases "\<bar>DotProduct (plane_normal p) (vec_sub end1 start)\<bar> > 1 / 10000")
  case True
  define n d where "n = plane_normal p" and "d = plane_d p"
  define k where "k = DotProduct n (vec_sub end1 start)"
  have k: "k \<noteq> 0" using True by (auto simp: k_def n_def)
  have nn: "DotProduct n n = 1" using assms(1) by (simp add: n_def DotProduct_def LengthSquared_def)
  have w: "DotProduct n (vec_sub start (vec_scale n (- d))) = DotProduct n start + d" by (simp add: dot_simps nn)
  have D: "plane_Distance p (Vec3 0 0 0) = d" by (simp add: plane_Distance_def DotProduct_def d_def)
  have "PlaneEdgeIntersection p start end1 = vec_add start (vec_scale (vec_sub end1 start) (- (DotProduct n start + d) / k))"
    using True w unfolding PlaneEdgeIntersection_def Let_def D n_def [symmetric] k_def [symmetric] by simp
  then have "DotProduct n (PlaneEdgeIntersection p start end1) = DotProduct n start + (- (DotProduct n start + d) / k) * k"
    by (simp add: dot_simps k_def)
  then have "plane_Distance p (PlaneEdgeIntersection p start end1) = 0" using k by (simp add: plane_Distance_def n_def [symmetric] d_def [symmetric])
  then show ?thesis by (simp add: PointInPlane_distance)
next
  case False
  with assms(2) show ?thesis by (simp add: PlaneEdgeIntersection_def Let_def)
qed

lemma clip_pass_in_plane: "LengthSquared (plane_normal p) = 1 \<Longrightarrow> x \<in> set (clip_pass r p start pts) \<Longrightarrow> PointInPlane p x"
  by (induction r p start pts rule: clip_pass.induct) (auto simp: clip_edge_def Let_def PlaneEdge_in_plane split: if_splits)

lemma clip_pass_remove: "clip_pass True p start pts = filter (PointInPlane p) pts"
  by (induction pts arbitrary: start) (simp_all add: clip_edge_def Let_def)

lemma clip_ref_last: "LengthSquared (plane_normal p) = 1 \<Longrightarrow> x \<in> set (clip_ref r (ps @ [p]) pts) \<Longrightarrow> PointInPlane p x"
  by (auto simp: clip_ref_append Let_def clip_pass_in_plane split: if_splits)

text \<open>Property C27. Over an even number of planes the clipping gives its caller what clipping the polygon by each plane in turn gives, all of it within the
  last plane. Over an odd number the last result is in an array that the caller never sees: the caller keeps the polygon from before the last
  plane, cut to the number of points after it. So clipping by one plane leaves the array as it was.\<close>
theorem clipping_equivalence:
  assumes "SutherlandHodgesonClipping polygon n planes removePoints = Inr (result, m)" and "length polygon = MAX_POLYGON" and "n \<le> MAX_POLYGON"
  shows "m = length (clip_ref removePoints planes (take n polygon))
    \<and> (even (length planes) \<longrightarrow> take m result = clip_ref removePoints planes (take n polygon))
    \<and> (odd (length planes) \<longrightarrow> take (length (clip_ref removePoints (butlast planes) (take n polygon))) result = clip_ref removePoints (butlast planes) (take n polygon))
    \<and> (length planes = 1 \<longrightarrow> result = polygon)
    \<and> (\<forall>qs p x. planes = qs @ [p] \<longrightarrow> LengthSquared (plane_normal p) = 1 \<longrightarrow> even (length planes) \<longrightarrow> x \<in> set (take m result) \<longrightarrow> PointInPlane p x)"
proof -
  obtain c1 i1 o1 where l: "clip_loop removePoints planes True (replicate MAX_POLYGON (Vec3 0 0 0)) polygon n = Inr (c1, i1, o1, m)"
    and res: "result = (if c1 then o1 else i1)" using assms(1) by (auto simp: SutherlandHodgesonClipping_def rbind_eq_Inr)
  note spec = clip_loop_spec [OF l _ assms(2,3), simplified]
  let ?ref = "clip_ref removePoints planes (take n polygon)" and ?ref1 = "clip_ref removePoints (butlast planes) (take n polygon)"
  have m: "m = length ?ref" using spec by simp
  have cut: "?ref = []" if "?ref1 = []"
    using that clip_ref_append [of removePoints "butlast planes" "last planes" "take n polygon"] by (cases planes rule: rev_cases) (auto simp: Let_def)
  have par: "c1 = even (length planes)" if "?ref1 \<noteq> []" using spec that by simp
  have ev: "take m result = ?ref" if "even (length planes)"
    using that spec par cut by (cases "?ref1 = []") (auto simp: res)
  have od: "take (length ?ref1) result = ?ref1" if "odd (length planes)"
  proof (cases "?ref1 = []")
    case False
    with that spec par have "planes \<noteq> []" "\<not> c1" by auto
    with False spec show ?thesis by (simp add: res)
  qed simp
  have one: "result = polygon" if "length planes = 1"
  proof (cases "n = 0")
    case True
    then show ?thesis using l that by (cases planes) (auto simp: res)
  next
    case False
    have "butlast planes = []" using that by (cases planes) auto
    with False assms(2,3) have "?ref1 \<noteq> []" by (auto simp: MAX_POLYGON_def)
    with par that have "\<not> c1" by simp
    then show ?thesis using spec that False by (simp add: res)
  qed
  show ?thesis using m ev od one clip_ref_last by (auto simp del: take_eq_Nil)
qed

text \<open>A point below the plane and one above it: the last clip of \<open>BuildCollisionManifold\<close> is meant to remove the first, and keeps it instead of the second.\<close>

definition two_points :: "real vec3 list" where
  "two_points = full_array [Vec3 0 0 0, Vec3 0 2 0]"

definition above_one :: plane where
  "above_one = \<lparr>plane_normal = Vec3 0 1 0, plane_absNormal = Vec3 0 1 0, plane_d = -1\<rparr>"

lemma two_points_pass: "clip_pass True above_one s (take 2 two_points) = [Vec3 0 2 0]"
  by (simp add: clip_edge_def Let_def two_points_def full_array_def overwrite_def PointInPlane_distance plane_Distance_def above_one_def DotProduct_def)

theorem clipping_equivalence_witness:
  "\<exists>result m. SutherlandHodgesonClipping two_points 2 [above_one] True = Inr (result, m) \<and> take m result = [Vec3 0 0 0]
     \<and> \<not> PointInPlane above_one (Vec3 0 0 0)"
proof -
  obtain result m where r: "SutherlandHodgesonClipping two_points 2 [above_one] True = Inr (result, m)"
    by (simp add: SutherlandHodgesonClipping_def Let_def two_points_pass MAX_POLYGON_def)
  have "length two_points = MAX_POLYGON" by (simp add: two_points_def full_array_def overwrite_def MAX_POLYGON_def)
  moreover have "take 2 two_points \<noteq> []" by (simp add: two_points_def full_array_def overwrite_def)
  ultimately have "m = 1 \<and> result = two_points"
    using clipping_equivalence [OF r] two_points_pass by (simp add: MAX_POLYGON_def)
  moreover have "\<not> PointInPlane above_one (Vec3 0 0 0)"
    by (simp add: PointInPlane_distance plane_Distance_def above_one_def DotProduct_def)
  ultimately show ?thesis using r by (simp add: two_points_def full_array_def overwrite_def)
qed

end
