(* ===== verification/Constraints.thy ===== *)
theory Constraints
  imports Manifolds
begin

text \<open>
  The constraints of the physics engine (\<open>Physics/LumosPhysicsEngine/{Axis,Distance,Spring,Weld}Constraint.*\<close>):
  their construction from the current poses and their impulses. The two bodies are named by their indices.
\<close>

datatype axes = AxesX | AxesY | AxesZ | AxesXY | AxesXZ | AxesYZ | AxesXYZ

record distance_constraint =
  dc_Obj1 :: nat
  dc_Obj2 :: nat
  dc_Distance :: real
  dc_LocalOnA :: "real vec3"
  dc_LocalOnB :: "real vec3"

record spring_constraint = distance_constraint +
  sc_springConstant :: real
  sc_dampingFactor :: real

record weld_constraint =
  wc_Obj1 :: nat
  wc_Obj2 :: nat
  wc_positionOffset :: "real vec3"
  wc_orientation :: "real quat"

datatype constraint = AxisConstraint nat axes | DistanceConstraint distance_constraint | SpringConstraint spring_constraint
  | WeldConstraint weld_constraint

section \<open>Construction\<close>

definition local_anchor :: "rigid_body \<Rightarrow> real vec3 \<Rightarrow> real vec3" where
  "local_anchor b p = mat3_vec (mat3_Transpose (RotationMatrix (Orientation b))) (vec_sub p (rb_Position b))"

definition new_DistanceConstraint :: "bodies \<Rightarrow> nat \<Rightarrow> nat \<Rightarrow> real vec3 \<Rightarrow> real vec3 \<Rightarrow> distance_constraint" where
  "new_DistanceConstraint W a b globalOnA globalOnB = \<lparr>dc_Obj1 = a, dc_Obj2 = b, dc_Distance = vec_Length (vec_sub globalOnB globalOnA),
     dc_LocalOnA = local_anchor (W a) globalOnA, dc_LocalOnB = local_anchor (W b) globalOnB\<rparr>"

definition new_SpringConstraint :: "bodies \<Rightarrow> nat \<Rightarrow> nat \<Rightarrow> real vec3 \<Rightarrow> real vec3 \<Rightarrow> real \<Rightarrow> real \<Rightarrow> spring_constraint" where
  "new_SpringConstraint W a b globalOnA globalOnB springConstant dampingFactor =
    \<lparr>dc_Obj1 = a, dc_Obj2 = b, dc_Distance = vec_Length (vec_sub globalOnB globalOnA), dc_LocalOnA = local_anchor (W a) globalOnA,
     dc_LocalOnB = local_anchor (W b) globalOnB, sc_springConstant = springConstant, sc_dampingFactor = dampingFactor\<rparr>"

text \<open>A spring between the centres; the offsets of the anchors are differences of a position with itself.\<close>

definition new_SpringConstraint_centres :: "bodies \<Rightarrow> nat \<Rightarrow> nat \<Rightarrow> real \<Rightarrow> real \<Rightarrow> spring_constraint" where
  "new_SpringConstraint_centres W a b springConstant dampingFactor =
    \<lparr>dc_Obj1 = a, dc_Obj2 = b, dc_Distance = vec_Length (vec_sub (rb_Position (W b)) (rb_Position (W a))),
     dc_LocalOnA = local_anchor (W a) (rb_Position (W a)), dc_LocalOnB = local_anchor (W b) (rb_Position (W b)),
     sc_springConstant = springConstant, sc_dampingFactor = dampingFactor\<rparr>"

definition new_WeldConstraint :: "bodies \<Rightarrow> nat \<Rightarrow> nat \<Rightarrow> weld_constraint" where
  "new_WeldConstraint W a b = \<lparr>wc_Obj1 = a, wc_Obj2 = b, wc_positionOffset = vec_sub (rb_Position (W b)) (rb_Position (W a)),
     wc_orientation = Orientation (W b)\<rparr>"

section \<open>Impulses\<close>

text \<open>The components \<open>x\<close> and \<open>z\<close> are cleared before the axes are looked at.\<close>

definition restrict_spin :: "axes \<Rightarrow> real vec3 \<Rightarrow> real vec3" where
  "restrict_spin axes velocity =
    (let v = Vec3 0 (vy velocity) 0 in
     case axes of
       AxesX \<Rightarrow> Vec3 0 (vy v) (vz v)
     | AxesY \<Rightarrow> Vec3 (vx v) 0 (vz v)
     | AxesZ \<Rightarrow> Vec3 (vx v) (vy v) 0
     | AxesXZ \<Rightarrow> Vec3 0 (vy v) 0
     | AxesXY \<Rightarrow> Vec3 0 0 (vz v)
     | AxesYZ \<Rightarrow> Vec3 (vx v) 0 0
     | AxesXYZ \<Rightarrow> Vec3 0 0 0)"

definition axis_ApplyImpulse :: "nat \<Rightarrow> axes \<Rightarrow> bodies \<Rightarrow> bodies" where
  "axis_ApplyImpulse a axes = upd a (\<lambda>x. SetAngularVelocity (restrict_spin axes (AngularVelocity x)) x)"

definition world_anchor :: "rigid_body \<Rightarrow> real vec3 \<Rightarrow> real vec3" where
  "world_anchor b l = mat3_vec (RotationMatrix (Orientation b)) l"

definition anchor_gap :: "('z distance_constraint_scheme) \<Rightarrow> bodies \<Rightarrow> real vec3" where
  "anchor_gap d W = vec_sub (vec_add (world_anchor (W (dc_Obj2 d)) (dc_LocalOnB d)) (rb_Position (W (dc_Obj2 d))))
     (vec_add (world_anchor (W (dc_Obj1 d)) (dc_LocalOnA d)) (rb_Position (W (dc_Obj1 d))))"

definition anchor_velocity :: "('z distance_constraint_scheme) \<Rightarrow> bodies \<Rightarrow> real vec3" where
  "anchor_velocity d W = vec_sub (point_velocity (W (dc_Obj1 d)) (world_anchor (W (dc_Obj1 d)) (dc_LocalOnA d)))
     (point_velocity (W (dc_Obj2 d)) (world_anchor (W (dc_Obj2 d)) (dc_LocalOnB d)))"

definition baumgarte :: "real \<Rightarrow> ('z distance_constraint_scheme) \<Rightarrow> bodies \<Rightarrow> real" where
  "baumgarte dt d W = - (1 / 10 / dt) * (vec_Length (anchor_gap d W) - dc_Distance d)"

definition joint_impulse :: "('z distance_constraint_scheme) \<Rightarrow> (real \<Rightarrow> real vec3 \<Rightarrow> real) \<Rightarrow> bodies \<Rightarrow> bodies" where
  "joint_impulse d force W =
    (let a = dc_Obj1 d; b = dc_Obj2 d in
     if InvMass (W a) + InvMass (W b) = 0 then W
     else (let r1 = world_anchor (W a) (dc_LocalOnA d); r2 = world_anchor (W b) (dc_LocalOnB d); abn = Normalized (anchor_gap d W);
               jn = force (DotProduct (anchor_velocity d W) abn) (anchor_velocity d W) / constraint_mass (W a) (W b) r1 r2 abn
           in apply_pair a b r1 r2 abn jn W))"

definition distance_ApplyImpulse :: "real \<Rightarrow> distance_constraint \<Rightarrow> bodies \<Rightarrow> bodies" where
  "distance_ApplyImpulse dt d W = joint_impulse d (\<lambda>vn dv. - (vn + baumgarte dt d W)) W"

definition spring_ApplyImpulse :: "real \<Rightarrow> spring_constraint \<Rightarrow> bodies \<Rightarrow> bodies" where
  "spring_ApplyImpulse dt s W =
    joint_impulse s (\<lambda>vn dv. (- (vn + baumgarte dt s W) * sc_springConstant s) - (sc_dampingFactor s * vec_Length dv)) W"

definition weld_ApplyImpulse :: "weld_constraint \<Rightarrow> bodies \<Rightarrow> bodies" where
  "weld_ApplyImpulse c W =
    (let A = W (wc_Obj1 c); pos = vec_add (quat_rotate (Orientation A) (wc_positionOffset c)) (rb_Position A);
         W1 = upd (wc_Obj2 c) (SetPosition pos) W
     in upd (wc_Obj2 c) (SetOrientation (quat_mul (Orientation (W1 (wc_Obj1 c))) (wc_orientation c))) W1)"

fun constraint_ApplyImpulse :: "real \<Rightarrow> constraint \<Rightarrow> bodies \<Rightarrow> bodies" where
  "constraint_ApplyImpulse dt (AxisConstraint a axes) W = axis_ApplyImpulse a axes W"
| "constraint_ApplyImpulse dt (DistanceConstraint d) W = distance_ApplyImpulse dt d W"
| "constraint_ApplyImpulse dt (SpringConstraint s) W = spring_ApplyImpulse dt s W"
| "constraint_ApplyImpulse dt (WeldConstraint c) W = weld_ApplyImpulse c W"

section \<open>Joints\<close>

lemma anchor_round:
  assumes "quat_LengthSquared (Orientation b) = 1"
  shows "world_anchor b (local_anchor b p) = vec_sub p (rb_Position b)"
  using rotation_orthogonal [OF assms] by (simp add: world_anchor_def local_anchor_def mat3_vec_mul [symmetric])

lemma new_gap:
  assumes "quat_LengthSquared (Orientation (W a)) = 1" and "quat_LengthSquared (Orientation (W b)) = 1"
  shows "anchor_gap (new_DistanceConstraint W a b p q) W = vec_sub q p" "baumgarte dt (new_DistanceConstraint W a b p q) W = 0"
proof -
  show "anchor_gap (new_DistanceConstraint W a b p q) W = vec_sub q p"
    by (simp add: anchor_gap_def new_DistanceConstraint_def anchor_round assms) (simp add: vec_defs)
  then show "baumgarte dt (new_DistanceConstraint W a b p q) W = 0" by (simp add: baumgarte_def new_DistanceConstraint_def)
qed

lemma gap_kept: "velocities_only a b W V \<Longrightarrow> anchor_gap d V = anchor_gap d W"
  by (simp add: anchor_gap_def world_anchor_def velocities_only_keeps(5,6))

lemma joint_pass: "dc_Obj1 d \<noteq> dc_Obj2 d \<Longrightarrow> pass_ok (dc_Obj1 d) (dc_Obj2 d) W (joint_impulse d f W)"
  by (simp add: joint_impulse_def Let_def apply_pair_pass pass_refl)

lemma joint_velocity:
  assumes "dc_Obj1 d \<noteq> dc_Obj2 d" and "\<not> rb_Static (W (dc_Obj1 d))" and "\<not> rb_Static (W (dc_Obj2 d))"
    and "psd (InvInertia (W (dc_Obj1 d)))" and "psd (InvInertia (W (dc_Obj2 d)))" and "0 < InvMass (W (dc_Obj1 d)) + InvMass (W (dc_Obj2 d))"
    and "LengthSquared (Normalized (anchor_gap d W)) = 1"
  shows "DotProduct (Normalized (anchor_gap d W)) (anchor_velocity d (joint_impulse d f W))
    = DotProduct (Normalized (anchor_gap d W)) (anchor_velocity d W) + f (DotProduct (anchor_velocity d W) (Normalized (anchor_gap d W))) (anchor_velocity d W)"
proof -
  let ?a = "dc_Obj1 d" and ?b = "dc_Obj2 d" and ?n = "Normalized (anchor_gap d W)" and ?W1 = "joint_impulse d f W"
  let ?r1 = "world_anchor (W ?a) (dc_LocalOnA d)" and ?r2 = "world_anchor (W ?b) (dc_LocalOnB d)"
  define K where "K = constraint_mass (W ?a) (W ?b) ?r1 ?r2 ?n"
  have K: "0 < K" unfolding K_def using assms(4-6) by (rule constraint_mass_pos)
  have n: "DotProduct ?n ?n = 1" using assms(7) by (simp add: DotProduct_def LengthSquared_def)
  define j where "j = f (DotProduct (anchor_velocity d W) ?n) (anchor_velocity d W) / K"
  have W1: "?W1 = apply_pair ?a ?b ?r1 ?r2 ?n j W" using assms(6) by (simp add: joint_impulse_def Let_def j_def K_def)
  have vo: "velocities_only ?a ?b W ?W1" using joint_pass [OF assms(1)] by (simp add: pass_ok_def)
  have "anchor_velocity d ?W1 = vec_sub (point_velocity (?W1 ?a) ?r1) (point_velocity (?W1 ?b) ?r2)"
    by (simp add: anchor_velocity_def world_anchor_def velocities_only_keeps(6) [OF vo])
  then have "DotProduct ?n (anchor_velocity d ?W1) = DotProduct ?n (anchor_velocity d W) + j * K"
    unfolding W1 K_def anchor_velocity_def by (simp only: pair_velocity [OF assms(1-3) n])
  then show ?thesis using K by (simp add: j_def)
qed

text \<open>A distance constraint closes a tenth of its error per step: after its impulse two bodies that can move approach along
  the line of the anchors at a tenth of the error over the time step, their linear momentum and everything but their velocities
  unchanged.\<close>
theorem distance_constraint_solves:
  assumes "dc_Obj1 d \<noteq> dc_Obj2 d" and "movable (W (dc_Obj1 d))" and "movable (W (dc_Obj2 d))"
    and "psd (InvInertia (W (dc_Obj1 d)))" and "psd (InvInertia (W (dc_Obj2 d)))" and "0 < InvMass (W (dc_Obj1 d)) + InvMass (W (dc_Obj2 d))"
    and "LengthSquared (Normalized (anchor_gap d W)) = 1"
  shows "DotProduct (Normalized (anchor_gap d W)) (anchor_velocity d (distance_ApplyImpulse dt d W))
      = 1 / 10 / dt * (vec_Length (anchor_gap d W) - dc_Distance d)
    \<and> velocities_only (dc_Obj1 d) (dc_Obj2 d) W (distance_ApplyImpulse dt d W)
    \<and> momentum (dc_Obj1 d) (dc_Obj2 d) (distance_ApplyImpulse dt d W) = momentum (dc_Obj1 d) (dc_Obj2 d) W
    \<and> anchor_gap d (distance_ApplyImpulse dt d W) = anchor_gap d W"
proof -
  let ?f = "\<lambda>vn dv. - (vn + baumgarte dt d W)"
  have W1: "distance_ApplyImpulse dt d W = joint_impulse d ?f W" by (simp add: distance_ApplyImpulse_def)
  have p: "pass_ok (dc_Obj1 d) (dc_Obj2 d) W (joint_impulse d ?f W)" by (rule joint_pass [OF assms(1)])
  then have vo: "velocities_only (dc_Obj1 d) (dc_Obj2 d) W (joint_impulse d ?f W)" by (simp add: pass_ok_def)
  have st: "\<not> rb_Static (W (dc_Obj1 d))" "\<not> rb_Static (W (dc_Obj2 d))" using assms(2,3) by (auto simp: movable_def)
  have "DotProduct (Normalized (anchor_gap d W)) (anchor_velocity d (joint_impulse d ?f W)) = - baumgarte dt d W"
    using joint_velocity [OF assms(1) st assms(4-7), of ?f] by (simp add: DotProduct_def algebra_simps)
  moreover have "anchor_gap d (joint_impulse d ?f W) = anchor_gap d W"
    by (rule gap_kept [OF vo])
  ultimately show ?thesis unfolding W1 using p vo assms(2,3) by (simp add: pass_ok_def baumgarte_def)
qed

definition rod :: distance_constraint where
  "rod = new_DistanceConstraint (\<lambda>_. unit_body) 0 1 (Vec3 0 0 0) (Vec3 1 0 0)"

theorem distance_constraint_solves_witness:
  "momentum 0 1 (distance_ApplyImpulse (1 / 60) rod (\<lambda>_. unit_body)) = momentum 0 1 (\<lambda>_. unit_body)"
proof -
  have q: "quat_LengthSquared (Orientation unit_body) = 1" by (simp add: unit_body_def quat_id_def quat_LengthSquared_def)
  have "anchor_gap rod (\<lambda>_. unit_body) = Vec3 1 0 0" unfolding rod_def by (subst new_gap) (simp_all add: q vec_defs)
  moreover have "LengthSquared (Normalized (Vec3 1 0 0)) = 1" by (simp add: Normalized_def Let_def LengthSquared_def Equals_eps_def)
  moreover have "dc_Obj1 rod = 0" "dc_Obj2 rod = 1" by (simp_all add: rod_def new_DistanceConstraint_def)
  moreover have "movable unit_body" "InvMass unit_body = 1" by (simp_all add: movable_def unit_body_def)
  ultimately show ?thesis using distance_constraint_solves [of rod "\<lambda>_. unit_body" "1 / 60"] unit_body_psd by simp
qed

section \<open>Welds\<close>

text \<open>A weld takes the offset of the bodies in the world as one in the space of the first: made at the identity it holds the pose it
  found, and applied again it changes nothing.\<close>

lemma weld_pose:
  assumes "wc_Obj1 c \<noteq> wc_Obj2 c"
  shows "Orientation (weld_ApplyImpulse c W (wc_Obj2 c)) = quat_mul (Orientation (W (wc_Obj1 c))) (wc_orientation c)"
    "rb_Position (weld_ApplyImpulse c W (wc_Obj2 c)) = vec_add (quat_rotate (Orientation (W (wc_Obj1 c))) (wc_positionOffset c)) (rb_Position (W (wc_Obj1 c)))"
    "x \<noteq> wc_Obj2 c \<Longrightarrow> weld_ApplyImpulse c W x = W x" "weld_ApplyImpulse c (weld_ApplyImpulse c W) = weld_ApplyImpulse c W"
  using assms by (auto simp: weld_ApplyImpulse_def Let_def upd_def SetPosition_def SetOrientation_def fun_eq_iff)

lemma new_weld_keeps_pose:
  assumes "a \<noteq> b" and "Orientation (W a) = quat_id"
  shows "rb_Position (weld_ApplyImpulse (new_WeldConstraint W a b) W b) = rb_Position (W b)"
    "Orientation (weld_ApplyImpulse (new_WeldConstraint W a b) W b) = Orientation (W b)"
  using weld_pose [where c = "new_WeldConstraint W a b" and W = W] assms by (simp_all add: new_WeldConstraint_def) (simp add: vec_defs)

text \<open>Made while the first body is turned, it moves the second on its first impulse.\<close>

lemma new_weld_moves_body:
  "let W = (\<lambda>_. unit_body)(0 := unit_body\<lparr>Orientation := Quat 0 0 1 0\<rparr>, 1 := unit_body\<lparr>rb_Position := Vec3 1 0 0\<rparr>)
   in rb_Position (weld_ApplyImpulse (new_WeldConstraint W 0 1) W 1) = Vec3 (- 1) 0 0"
  by (simp add: Let_def weld_ApplyImpulse_def new_WeldConstraint_def upd_def SetPosition_def SetOrientation_def unit_body_def
      quat_rotate_def vec_defs CrossProduct_def)

lemma spin_around_y: "vx (restrict_spin axes v) = 0 \<and> vz (restrict_spin axes v) = 0"
  by (cases axes) (simp_all add: restrict_spin_def)

text \<open>What an impulse keeps of the bodies: the caches stay coherent, static bodies stay as they are unless they are welded to another.\<close>

lemma velocities_coherent: "velocities_only a b W V \<Longrightarrow> coherent (V x) = coherent (W x)"
proof -
  assume "velocities_only a b W V"
  then obtain v w where "V x = (W x)\<lparr>LinearVelocity := v, AngularVelocity := w\<rparr>" unfolding velocities_only_def by blast
  then show ?thesis by (simp add: coherent_def)
qed

definition joins_two :: "constraint \<Rightarrow> bool" where
  "joins_two c \<longleftrightarrow> (case c of AxisConstraint a axes \<Rightarrow> True | DistanceConstraint d \<Rightarrow> dc_Obj1 d \<noteq> dc_Obj2 d
     | SpringConstraint s \<Rightarrow> dc_Obj1 s \<noteq> dc_Obj2 s | WeldConstraint w \<Rightarrow> wc_Obj1 w \<noteq> wc_Obj2 w)"

definition welded :: "constraint \<Rightarrow> nat \<Rightarrow> bool" where
  "welded c x \<longleftrightarrow> (case c of WeldConstraint w \<Rightarrow> wc_Obj2 w = x | _ \<Rightarrow> False)"

lemma joint_keeps:
  assumes "dc_Obj1 d \<noteq> dc_Obj2 d"
  shows "coherent (W x) \<Longrightarrow> coherent (joint_impulse d f W x)" "rb_Static (W x) \<Longrightarrow> joint_impulse d f W x = W x"
    "rb_Static (joint_impulse d f W x) = rb_Static (W x)"
proof -
  have vo: "velocities_only (dc_Obj1 d) (dc_Obj2 d) W (joint_impulse d f W)" using joint_pass [OF assms] by (simp add: pass_ok_def)
  show "coherent (W x) \<Longrightarrow> coherent (joint_impulse d f W x)" by (simp add: velocities_coherent [OF vo])
  show "rb_Static (W x) \<Longrightarrow> joint_impulse d f W x = W x" using vo by (simp add: velocities_only_def)
  show "rb_Static (joint_impulse d f W x) = rb_Static (W x)" by (rule velocities_only_keeps [OF vo])
qed

lemma weld_keeps:
  "coherent (W x) \<Longrightarrow> coherent (weld_ApplyImpulse c W x)" "x \<noteq> wc_Obj2 c \<Longrightarrow> weld_ApplyImpulse c W x = W x"
  "rb_Static (weld_ApplyImpulse c W x) = rb_Static (W x)"
proof -
  show other: "x \<noteq> wc_Obj2 c \<Longrightarrow> weld_ApplyImpulse c W x = W x" by (simp add: weld_ApplyImpulse_def Let_def upd_def)
  have "coherent (SetOrientation q (SetPosition v b))" for q v b by (simp add: SetOrientation_def SetPosition_def coherent_def)
  then have "coherent (weld_ApplyImpulse c W (wc_Obj2 c))" by (simp add: weld_ApplyImpulse_def Let_def upd_def)
  with other show "coherent (W x) \<Longrightarrow> coherent (weld_ApplyImpulse c W x)" by (cases "x = wc_Obj2 c") auto
  show "rb_Static (weld_ApplyImpulse c W x) = rb_Static (W x)"
    by (simp add: weld_ApplyImpulse_def Let_def upd_def SetOrientation_def SetPosition_def)
qed

lemma axis_keeps:
  "coherent (W x) \<Longrightarrow> coherent (axis_ApplyImpulse a axes W x)" "rb_Static (W x) \<Longrightarrow> axis_ApplyImpulse a axes W x = W x"
  "rb_Static (axis_ApplyImpulse a axes W x) = rb_Static (W x)"
  by (auto simp: axis_ApplyImpulse_def upd_def setters_coherent) (auto simp: SetAngularVelocity_def split: if_splits)

lemma constraint_keeps:
  assumes "joins_two c"
  shows "coherent (W x) \<Longrightarrow> coherent (constraint_ApplyImpulse dt c W x)"
    "rb_Static (W x) \<Longrightarrow> \<not> welded c x \<Longrightarrow> constraint_ApplyImpulse dt c W x = W x"
    "rb_Static (constraint_ApplyImpulse dt c W x) = rb_Static (W x)"
  using assms
  by (cases c; simp add: joins_two_def welded_def distance_ApplyImpulse_def spring_ApplyImpulse_def joint_keeps axis_keeps weld_keeps)+

end
