(* ===== verification/PhysicsEngine.thy ===== *)
theory PhysicsEngine
  imports Collisions Constraints
begin

text \<open>
  The physics engine (\<open>Physics/LumosPhysicsEngine/LumosPhysicsEngine.*\<close>, \<open>Integration.*\<close>): integration, the two collision
  phases, the solver and the clock. The broad phase is an object with a state, of which the engine knows one
  call; \<open>bp_reads\<close> says whether it asks the bodies for their boxes, which fills their caches. The collision
  callbacks of the game are a parameter that answers; what they do beside is not modelled.
\<close>

section \<open>Integration\<close>

record int_state =
  is_position :: "real vec3"
  is_velocity :: "real vec3"
  is_acceleration :: "real vec3"

record derivative =
  dv_acceleration :: "real vec3"
  dv_velocity :: "real vec3"

definition no_derivative :: derivative where
  "no_derivative = \<lparr>dv_acceleration = Vec3 0 0 0, dv_velocity = Vec3 0 0 0\<rparr>"

definition Evaluate :: "int_state \<Rightarrow> real \<Rightarrow> real \<Rightarrow> derivative \<Rightarrow> derivative" where
  "Evaluate initial dt t d = \<lparr>dv_acceleration = is_acceleration initial, dv_velocity = vec_add (is_velocity initial) (vec_scale (dv_acceleration d) dt)\<rparr>"

definition RK2 :: "int_state \<Rightarrow> real \<Rightarrow> real \<Rightarrow> int_state" where
  "RK2 state t dt =
    (let a = Evaluate state t 0 no_derivative; b = Evaluate state t (dt * (1 / 2)) a;
         dxdt = vec_scale (vec_add (dv_velocity a) (dv_velocity b)) (1 / 2);
         dvdt = vec_scale (vec_add (dv_acceleration a) (dv_acceleration b)) (1 / 2)
     in state\<lparr>is_position := vec_add (is_position state) (vec_scale dxdt dt), is_velocity := vec_add (is_velocity state) (vec_scale dvdt dt)\<rparr>)"

definition sixth :: "real vec3 \<Rightarrow> real vec3 \<Rightarrow> real vec3 \<Rightarrow> real vec3 \<Rightarrow> real vec3" where
  "sixth a b c d = vec_div (vec_scale (vec_add (vec_add a (vec_scale (vec_add b c) 2)) d) 1) 6"

definition RK4 :: "int_state \<Rightarrow> real \<Rightarrow> real \<Rightarrow> int_state" where
  "RK4 state t dt =
    (let a = Evaluate state t 0 no_derivative; b = Evaluate state t (dt * (1 / 2)) a; c = Evaluate state t (dt * (1 / 2)) b; d = Evaluate state t dt c;
         dxdt = sixth (dv_velocity a) (dv_velocity b) (dv_velocity c) (dv_velocity d);
         dvdt = sixth (dv_acceleration a) (dv_acceleration b) (dv_acceleration c) (dv_acceleration d)
     in state\<lparr>is_position := vec_add (is_position state) (vec_scale dxdt dt), is_velocity := vec_add (is_velocity state) (vec_scale dvdt dt)\<rparr>)"

section \<open>State\<close>

datatype integration_type = EXPLICIT_EULER | SEMI_IMPLICIT_EULER | RUNGE_KUTTA_2 | RUNGE_KUTTA_4

record 'p engine =
  m_IsPaused :: bool
  m_UpdateAccum :: real
  m_Gravity :: "real vec3"
  m_DampingFactor :: real
  m_RigidBodys :: "nat list"
  m_BroadphaseCollisionPairs :: "(nat \<times> nat) list"
  m_Constraints :: "constraint list"
  m_Manifolds :: "manifold list"
  m_BroadphaseDetection :: "'p option"
  m_IntegrationType :: integration_type
  m_MultipleUpdates :: bool
  s_UpdateTimestep :: real
  en_bodies :: bodies
  en_shapes :: shapes

definition new_engine :: "bodies \<Rightarrow> shapes \<Rightarrow> 'p engine" where
  "new_engine W S = \<lparr>m_IsPaused = True, m_UpdateAccum = 0, m_Gravity = Vec3 0 (- (981 / 100)) 0, m_DampingFactor = 999 / 1000,
     m_RigidBodys = [], m_BroadphaseCollisionPairs = [], m_Constraints = [], m_Manifolds = [], m_BroadphaseDetection = None,
     m_IntegrationType = RUNGE_KUTTA_4, m_MultipleUpdates = False, s_UpdateTimestep = 1 / 60, en_bodies = W, en_shapes = S\<rparr>"

definition SetDefaults :: "'p engine \<Rightarrow> 'p engine" where
  "SetDefaults e = e\<lparr>m_IsPaused := True, s_UpdateTimestep := 1 / 60, m_UpdateAccum := 0, m_Gravity := Vec3 0 (- (981 / 100)) 0,
     m_DampingFactor := 999 / 1000, m_IntegrationType := RUNGE_KUTTA_4\<rparr>"

definition AddConstraint :: "constraint \<Rightarrow> 'p engine \<Rightarrow> 'p engine" where
  "AddConstraint c e = e\<lparr>m_Constraints := m_Constraints e @ [c]\<rparr>"

definition ClearConstraints :: "'p engine \<Rightarrow> 'p engine" where
  "ClearConstraints e = e\<lparr>m_Constraints := []\<rparr>"

section \<open>Movement\<close>

definition turn :: "real \<Rightarrow> rigid_body \<Rightarrow> rigid_body" where
  "turn dt b = b\<lparr>Orientation := quat_Normalized (quat_add (Orientation b) (vec_quat_mul (vec_scale (vec_scale (AngularVelocity b) dt) (1 / 2)) (Orientation b)))\<rparr>"

definition spin_up :: "real \<Rightarrow> real \<Rightarrow> rigid_body \<Rightarrow> rigid_body" where
  "spin_up damping dt b = b\<lparr>AngularVelocity := vec_scale (vec_add (AngularVelocity b) (vec_scale (mat3_vec (InvInertia b) (Torque b)) dt)) damping\<rparr>"

definition linear_state :: "rigid_body \<Rightarrow> int_state" where
  "linear_state b = \<lparr>is_position = rb_Position b, is_velocity = LinearVelocity b, is_acceleration = vec_scale (Force b) (InvMass b)\<rparr>"

definition from_state :: "real \<Rightarrow> int_state \<Rightarrow> rigid_body \<Rightarrow> rigid_body" where
  "from_state damping s b = b\<lparr>rb_Position := is_position s, LinearVelocity := vec_scale (is_velocity s) damping\<rparr>"

text \<open>The semi-implicit method scales the velocity by the inverse mass, where the others use the force.\<close>

definition integrate :: "integration_type \<Rightarrow> real \<Rightarrow> real \<Rightarrow> rigid_body \<Rightarrow> rigid_body" where
  "integrate type damping dt b = (case type of
      EXPLICIT_EULER \<Rightarrow>
        spin_up damping dt (turn dt (b\<lparr>rb_Position := vec_add (rb_Position b) (vec_scale (LinearVelocity b) dt),
          LinearVelocity := vec_scale (vec_add (LinearVelocity b) (vec_scale (vec_scale (Force b) (InvMass b)) dt)) damping\<rparr>))
    | SEMI_IMPLICIT_EULER \<Rightarrow>
        (let v = vec_scale (vec_add (LinearVelocity b) (vec_scale (vec_scale (LinearVelocity b) (InvMass b)) dt)) damping
         in turn dt (spin_up damping dt (b\<lparr>LinearVelocity := v, rb_Position := vec_add (rb_Position b) (vec_scale v dt)\<rparr>)))
    | RUNGE_KUTTA_2 \<Rightarrow> turn dt (spin_up damping dt (from_state damping (RK2 (linear_state b) 0 dt) b))
    | RUNGE_KUTTA_4 \<Rightarrow> turn dt (spin_up damping dt (from_state damping (RK4 (linear_state b) 0 dt) b)))"

definition UpdateRigidBody :: "'p engine \<Rightarrow> rigid_body \<Rightarrow> rigid_body" where
  "UpdateRigidBody e b =
    (if \<not> rb_Static b \<and> \<not> rb_AtRest b
     then (let dt = s_UpdateTimestep e;
               b = (if InvMass b > 0 then b\<lparr>LinearVelocity := vec_add (LinearVelocity b) (vec_scale (m_Gravity e) dt)\<rparr> else b);
               b = integrate (m_IntegrationType e) (m_DampingFactor e) dt b
           in RestTest (b\<lparr>wsTransformInvalidated := True, wsAabbInvalidated := True\<rparr>))
     else b)"

definition UpdateRigidBodys :: "'p engine \<Rightarrow> 'p engine" where
  "UpdateRigidBodys e = e\<lparr>en_bodies := fold (\<lambda>x. upd x (UpdateRigidBody e)) (m_RigidBodys e) (en_bodies e)\<rparr>"

section \<open>The collision phases\<close>

text \<open>What the broad phases read of a body.\<close>

definition body_view :: "rigid_body \<Rightarrow> real body" where
  "body_view b = \<lparr>at_rest = rb_AtRest b, is_static = rb_Static b, has_shape = (rb_Shape b \<noteq> None), aabb = fst (GetWorldSpaceAABB b)\<rparr>"

record 'p broadphase_calls =
  bp_find :: "'p \<Rightarrow> real world \<Rightarrow> nat list \<Rightarrow> ((nat \<times> nat) list \<times> 'p) res"
  bp_reads :: bool

definition cache_box :: "rigid_body \<Rightarrow> rigid_body" where
  "cache_box b = snd (GetWorldSpaceAABB b)"

definition BroadPhaseCollisions :: "'p broadphase_calls \<Rightarrow> 'p engine \<Rightarrow> 'p engine res" where
  "BroadPhaseCollisions bp e = (case m_BroadphaseDetection e of
      None \<Rightarrow> ok (e\<lparr>m_BroadphaseCollisionPairs := []\<rparr>)
    | Some p \<Rightarrow> rbind (bp_find bp p (\<lambda>x. body_view (en_bodies e x)) (m_RigidBodys e)) (\<lambda>(pairs, p1).
        ok (e\<lparr>m_BroadphaseCollisionPairs := pairs, m_BroadphaseDetection := Some p1,
          en_bodies := (if bp_reads bp then fold (\<lambda>x. upd x cache_box) (m_RigidBodys e) (en_bodies e) else en_bodies e)\<rparr>)))"

text \<open>\<open>callback x a b\<close>: the answer of the callback of body \<open>x\<close>, true without one; a body that accepts wakes up.\<close>

type_synonym callbacks = "nat \<Rightarrow> nat \<Rightarrow> nat \<Rightarrow> bool"

definition FireOnCollisionEvent :: "callbacks \<Rightarrow> nat \<Rightarrow> nat \<Rightarrow> bodies \<Rightarrow> bool \<times> bodies" where
  "FireOnCollisionEvent callback a b W = (if callback a a b then (True, upd a WakeUp W) else (False, W))"

text \<open>The data of a search over no axis at all.\<close>

definition no_data :: "real \<Rightarrow> coldata" where
  "no_data huge = \<lparr>cd_penetration = - huge, cd_normal = Vec3 0 0 0, cd_pointOnPlane = Vec3 0 0 0\<rparr>"

definition collide :: "real \<Rightarrow> callbacks \<Rightarrow> nat \<Rightarrow> nat \<Rightarrow> nat \<Rightarrow> nat \<Rightarrow> coldata option \<Rightarrow> 'p engine \<Rightarrow> 'p engine res" where
  "collide huge callback a b s1 s2 data e =
    (let (okA, W1) = FireOnCollisionEvent callback a b (en_bodies e); (okB, W2) = FireOnCollisionEvent callback b a W1; e = e\<lparr>en_bodies := W2\<rparr> in
     if okA \<and> okB
     then rbind (BuildCollisionManifold W2 a b (en_shapes e s1) (en_shapes e s2) (case data of None \<Rightarrow> no_data huge | Some d \<Rightarrow> d) (Initiate a b))
       (\<lambda>(built, M). ok (if built then e\<lparr>m_Manifolds := m_Manifolds e @ [M]\<rparr> else e))
     else ok e)"

definition narrow_pair :: "real \<Rightarrow> callbacks \<Rightarrow> nat \<times> nat \<Rightarrow> 'p engine \<Rightarrow> 'p engine res" where
  "narrow_pair huge callback = (\<lambda>(a, b) e.
    case (rb_Shape (en_bodies e a), rb_Shape (en_bodies e b)) of
      (Some s1, Some s2) \<Rightarrow>
        rbind (CheckCollision a b s1 s2 (en_bodies e, en_shapes e)) (\<lambda>(r, W1, S1). let e = e\<lparr>en_bodies := W1, en_shapes := S1\<rparr> in
          case r of None \<Rightarrow> ok e | Some data \<Rightarrow> collide huge callback a b s1 s2 data e)
    | _ \<Rightarrow> ok e)"

definition NarrowPhaseCollisions :: "real \<Rightarrow> callbacks \<Rightarrow> 'p engine \<Rightarrow> 'p engine res" where
  "NarrowPhaseCollisions huge callback e = rfold (narrow_pair huge callback) (m_BroadphaseCollisionPairs e) e"

section \<open>The solver and the clock\<close>

definition SOLVER_ITERATIONS :: nat where "SOLVER_ITERATIONS = 50"

fun apply_manifolds :: "real \<Rightarrow> manifold list \<Rightarrow> bodies \<Rightarrow> manifold list \<times> bodies" where
  "apply_manifolds dt [] W = ([], W)"
| "apply_manifolds dt (M # Ms) W = (let (M1, W1) = ApplyImpulse dt M W; (Ms1, W2) = apply_manifolds dt Ms W1 in (M1 # Ms1, W2))"

definition solver_iteration :: "real \<Rightarrow> constraint list \<Rightarrow> manifold list \<times> bodies \<Rightarrow> manifold list \<times> bodies" where
  "solver_iteration dt cs = (\<lambda>(Ms, W). let (Ms1, W1) = apply_manifolds dt Ms W in (Ms1, fold (constraint_ApplyImpulse dt) cs W1))"

definition SolveConstraints :: "'p engine \<Rightarrow> 'p engine" where
  "SolveConstraints e =
    (let dt = s_UpdateTimestep e; Ms = map (PreSolverStep (en_bodies e)) (m_Manifolds e);
         (Ms1, W1) = (solver_iteration dt (m_Constraints e) ^^ SOLVER_ITERATIONS) (Ms, en_bodies e)
     in e\<lparr>m_Manifolds := Ms1, en_bodies := W1\<rparr>)"

definition UpdatePhysics :: "real \<Rightarrow> callbacks \<Rightarrow> 'p broadphase_calls \<Rightarrow> 'p engine \<Rightarrow> 'p engine res" where
  "UpdatePhysics huge callback bp e =
    rbind (BroadPhaseCollisions bp (e\<lparr>m_Manifolds := []\<rparr>)) (\<lambda>e.
    rbind (NarrowPhaseCollisions huge callback e) (\<lambda>e. ok (UpdateRigidBodys (SolveConstraints e))))"

definition MAX_UPDATES :: nat where "MAX_UPDATES = 5"

text \<open>At most \<open>n\<close> more updates of this frame; the result counts them.\<close>

fun clock_loop :: "real \<Rightarrow> callbacks \<Rightarrow> 'p broadphase_calls \<Rightarrow> nat \<Rightarrow> 'p engine \<Rightarrow> (nat \<times> 'p engine) res" where
  "clock_loop huge callback bp 0 e = ok (0, e)"
| "clock_loop huge callback bp (Suc n) e =
    (if m_UpdateAccum e \<ge> s_UpdateTimestep e
     then rbind (UpdatePhysics huge callback bp (e\<lparr>m_UpdateAccum := m_UpdateAccum e - s_UpdateTimestep e\<rparr>)) (\<lambda>e.
          rbind (clock_loop huge callback bp n e) (\<lambda>(k, e). ok (Suc k, e)))
     else ok (0, e))"

text \<open>\<open>scene_bodies\<close> and \<open>scene_constraints\<close> are what the views of the registry give, the constraints in the order spring, axis,
  distance, weld; \<open>place\<close> receives the pose of each body for the transform of its entity.\<close>

definition step_clock :: "real \<Rightarrow> callbacks \<Rightarrow> 'p broadphase_calls \<Rightarrow> real \<Rightarrow> 'p engine \<Rightarrow> (nat \<times> 'p engine) res" where
  "step_clock huge callback bp seconds e =
    (if m_MultipleUpdates e
     then rbind (clock_loop huge callback bp MAX_UPDATES (e\<lparr>m_UpdateAccum := m_UpdateAccum e + seconds\<rparr>)) (\<lambda>(k, e).
          ok (k, if m_UpdateAccum e \<ge> s_UpdateTimestep e then e\<lparr>m_UpdateAccum := 0\<rparr> else e))
     else rbind (UpdatePhysics huge callback bp (e\<lparr>s_UpdateTimestep := seconds\<rparr>)) (\<lambda>e. ok (1, e)))"

definition engine_OnUpdate :: "real \<Rightarrow> callbacks \<Rightarrow> 'p broadphase_calls \<Rightarrow> real \<Rightarrow> nat list \<Rightarrow> constraint list \<Rightarrow> 'p engine
    \<Rightarrow> ((nat \<times> real vec3 \<times> real quat) list \<times> 'p engine) res" where
  "engine_OnUpdate huge callback bp seconds scene_bodies scene_constraints e =
    (let e = e\<lparr>m_RigidBodys := []\<rparr> in
     if m_IsPaused e then ok ([], e)
     else (let e = e\<lparr>m_RigidBodys := scene_bodies\<rparr> in
       if scene_bodies = [] then ok ([], e)
       else rbind (step_clock huge callback bp seconds (e\<lparr>m_Constraints := scene_constraints\<rparr>)) (\<lambda>(k, e).
         ok (map (\<lambda>x. (x, rb_Position (en_bodies e x), Orientation (en_bodies e x))) scene_bodies, ClearConstraints e))))"

section \<open>Integration, checked\<close>

text \<open>The step is passed where the code expects the time and the time, which is zero, where it expects the step.\<close>

lemma Evaluate_zero: "Evaluate s 0 t d = \<lparr>dv_acceleration = is_acceleration s, dv_velocity = is_velocity s\<rparr>"
  by (simp add: Evaluate_def vec_defs)

lemma RK_Euler:
  "RK2 s 0 dt = s\<lparr>is_position := vec_add (is_position s) (vec_scale (is_velocity s) dt), is_velocity := vec_add (is_velocity s) (vec_scale (is_acceleration s) dt)\<rparr>"
  "RK4 s 0 dt = s\<lparr>is_position := vec_add (is_position s) (vec_scale (is_velocity s) dt), is_velocity := vec_add (is_velocity s) (vec_scale (is_acceleration s) dt)\<rparr>"
proof -
  have "vec_scale (vec_add v v) (1 / 2) = v" "sixth v v v v = v" for v :: "real vec3"
    by (simp_all add: sixth_def vec_defs)
  then show "RK2 s 0 dt = s\<lparr>is_position := vec_add (is_position s) (vec_scale (is_velocity s) dt), is_velocity := vec_add (is_velocity s) (vec_scale (is_acceleration s) dt)\<rparr>"
    "RK4 s 0 dt = s\<lparr>is_position := vec_add (is_position s) (vec_scale (is_velocity s) dt), is_velocity := vec_add (is_velocity s) (vec_scale (is_acceleration s) dt)\<rparr>"
    by (simp_all add: RK2_def RK4_def Let_def Evaluate_zero)
qed

text \<open>Both Runge-Kutta methods take one explicit Euler step: the update of a body is the same under either, and moves the body and its
  velocity exactly as the explicit Euler method does.\<close>
theorem integrators_agree:
  "integrate RUNGE_KUTTA_2 damping dt b = integrate RUNGE_KUTTA_4 damping dt b
    \<and> rb_Position (integrate RUNGE_KUTTA_4 damping dt b) = rb_Position (integrate EXPLICIT_EULER damping dt b)
    \<and> LinearVelocity (integrate RUNGE_KUTTA_4 damping dt b) = LinearVelocity (integrate EXPLICIT_EULER damping dt b)
    \<and> AngularVelocity (integrate RUNGE_KUTTA_4 damping dt b) = AngularVelocity (integrate EXPLICIT_EULER damping dt b)"
  by (simp add: integrate_def RK_Euler from_state_def linear_state_def turn_def spin_up_def)

section \<open>The clock, checked\<close>

definition same_clock :: "'p engine \<Rightarrow> 'p engine \<Rightarrow> bool" where
  "same_clock e f \<longleftrightarrow> m_UpdateAccum f = m_UpdateAccum e \<and> s_UpdateTimestep f = s_UpdateTimestep e \<and> m_MultipleUpdates f = m_MultipleUpdates e"

lemma collide_clock: "collide huge callback a b s1 s2 data e = Inr f \<Longrightarrow> same_clock e f"
  by (auto simp: collide_def Let_def rbind_eq_Inr same_clock_def split: prod.splits if_splits)

lemma narrow_pair_clock: "narrow_pair huge callback ab e = Inr f \<Longrightarrow> same_clock e f"
  by (auto simp: narrow_pair_def Let_def rbind_eq_Inr same_clock_def dest!: collide_clock split: prod.splits option.splits)

lemma narrow_clock: "rfold (narrow_pair huge callback) ps e = Inr f \<Longrightarrow> same_clock e f"
  by (induction ps arbitrary: e) (auto simp: rbind_eq_Inr same_clock_def dest!: narrow_pair_clock)

lemma broad_clock: "BroadPhaseCollisions bp e = Inr f \<Longrightarrow> same_clock e f"
  by (auto simp: BroadPhaseCollisions_def rbind_eq_Inr same_clock_def split: option.splits)

lemma solve_clock: "same_clock e (UpdateRigidBodys (SolveConstraints e))"
  by (simp add: same_clock_def UpdateRigidBodys_def SolveConstraints_def Let_def split: prod.splits)

lemma UpdatePhysics_Inr:
  assumes "UpdatePhysics huge callback bp e = Inr f"
  obtains g h where "BroadPhaseCollisions bp (e\<lparr>m_Manifolds := []\<rparr>) = Inr g" "rfold (narrow_pair huge callback) (m_BroadphaseCollisionPairs g) g = Inr h"
    "f = UpdateRigidBodys (SolveConstraints h)"
  using assms by (auto simp: UpdatePhysics_def NarrowPhaseCollisions_def rbind_eq_Inr)

lemma UpdatePhysics_clock:
  assumes "UpdatePhysics huge callback bp e = Inr f"
  shows "same_clock e f"
proof -
  obtain g h where g: "BroadPhaseCollisions bp (e\<lparr>m_Manifolds := []\<rparr>) = Inr g"
    "rfold (narrow_pair huge callback) (m_BroadphaseCollisionPairs g) g = Inr h" "f = UpdateRigidBodys (SolveConstraints h)"
    using assms by (rule UpdatePhysics_Inr)
  have "same_clock e (e\<lparr>m_Manifolds := []\<rparr>)" by (simp add: same_clock_def)
  with broad_clock [OF g(1)] narrow_clock [OF g(2)] solve_clock [of h] show ?thesis by (simp add: g(3) same_clock_def)
qed

lemma clock_loop_time:
  assumes "clock_loop huge callback bp n e = Inr (k, f)" and "0 \<le> m_UpdateAccum e"
  shows "k \<le> n \<and> m_UpdateAccum f = m_UpdateAccum e - of_nat k * s_UpdateTimestep e \<and> s_UpdateTimestep f = s_UpdateTimestep e
    \<and> 0 \<le> m_UpdateAccum f \<and> (k < n \<longrightarrow> m_UpdateAccum f < s_UpdateTimestep e) \<and> m_MultipleUpdates f = m_MultipleUpdates e"
  using assms
proof (induction n arbitrary: e k)
  case (Suc n)
  show ?case
  proof (cases "m_UpdateAccum e \<ge> s_UpdateTimestep e")
    case True
    then obtain g j where g: "UpdatePhysics huge callback bp (e\<lparr>m_UpdateAccum := m_UpdateAccum e - s_UpdateTimestep e\<rparr>) = Inr g"
      "clock_loop huge callback bp n g = Inr (j, f)" "k = Suc j" using Suc.prems(1) by (auto simp: rbind_eq_Inr)
    from UpdatePhysics_clock [OF g(1)] have c: "m_UpdateAccum g = m_UpdateAccum e - s_UpdateTimestep e" "s_UpdateTimestep g = s_UpdateTimestep e"
      "m_MultipleUpdates g = m_MultipleUpdates e" by (simp_all add: same_clock_def)
    with True Suc.IH [OF g(2)] show ?thesis by (simp add: g(3) algebra_simps)
  qed (use Suc.prems in auto)
qed simp

text \<open>Property C35. With a fixed time step a frame makes at most five updates and leaves less than one step on the clock: either the frame time is
  split exactly into the updates and the remainder, or five updates were not enough and the rest of the time is dropped.\<close>
theorem clock_accounts_for_time:
  assumes "step_clock huge callback bp seconds e = Inr (k, f)" and "m_MultipleUpdates e" and "0 \<le> m_UpdateAccum e" and "0 \<le> seconds"
    and "0 < s_UpdateTimestep e"
  shows "k \<le> 5 \<and> 0 \<le> m_UpdateAccum f \<and> m_UpdateAccum f < s_UpdateTimestep f \<and> s_UpdateTimestep f = s_UpdateTimestep e
    \<and> (m_UpdateAccum f = m_UpdateAccum e + seconds - of_nat k * s_UpdateTimestep e
       \<or> k = 5 \<and> m_UpdateAccum f = 0 \<and> m_UpdateAccum e + seconds \<ge> 6 * s_UpdateTimestep e)"
proof -
  obtain g where g: "clock_loop huge callback bp MAX_UPDATES (e\<lparr>m_UpdateAccum := m_UpdateAccum e + seconds\<rparr>) = Inr (k, g)"
    and f: "f = (if m_UpdateAccum g \<ge> s_UpdateTimestep g then g\<lparr>m_UpdateAccum := 0\<rparr> else g)"
    using assms(1,2) by (auto simp: step_clock_def rbind_eq_Inr)
  from clock_loop_time [OF g] assms(3-5) show ?thesis
    by (cases "k = 5") (auto simp: f MAX_UPDATES_def)
qed

section \<open>What an update keeps of the bodies\<close>

definition same_motion :: "rigid_body \<Rightarrow> rigid_body \<Rightarrow> bool" where
  "same_motion x y \<longleftrightarrow> rb_Position y = rb_Position x \<and> Orientation y = Orientation x \<and> LinearVelocity y = LinearVelocity x
     \<and> AngularVelocity y = AngularVelocity x"

text \<open>Caches stay coherent, and static bodies outside \<open>F\<close> stay where they are.\<close>

definition keeps :: "nat set \<Rightarrow> bodies \<Rightarrow> bodies \<Rightarrow> bool" where
  "keeps F W V \<longleftrightarrow> (\<forall>x. (coherent (W x) \<longrightarrow> coherent (V x)) \<and> rb_Static (V x) = rb_Static (W x)
     \<and> (rb_Static (W x) \<and> x \<notin> F \<longrightarrow> same_motion (W x) (V x)))"

definition body_keeps :: "(rigid_body \<Rightarrow> rigid_body) \<Rightarrow> bool" where
  "body_keeps f \<longleftrightarrow> (\<forall>b. (coherent b \<longrightarrow> coherent (f b)) \<and> rb_Static (f b) = rb_Static b \<and> (rb_Static b \<longrightarrow> same_motion b (f b)))"

lemma keeps_refl: "keeps F W W"
  by (simp add: keeps_def same_motion_def)

lemma keeps_trans [trans]: "keeps F W V \<Longrightarrow> keeps F V U \<Longrightarrow> keeps F W U"
  by (simp add: keeps_def same_motion_def)

lemma keeps_upd: "body_keeps f \<Longrightarrow> keeps F W (upd x f W)"
  by (simp add: keeps_def body_keeps_def upd_def same_motion_def)

lemma keeps_fold: "(\<And>x V. x \<in> set xs \<Longrightarrow> keeps F V (f x V)) \<Longrightarrow> keeps F W (fold f xs W)"
proof (induction xs arbitrary: W)
  case (Cons x xs)
  then have "keeps F W (f x W)" "keeps F (f x W) (fold f xs (f x W))" by auto
  then show ?case using keeps_trans by simp
qed (simp add: keeps_refl)

lemma reads_simps [simp]:
  "rb_Static (snd (GetWorldSpaceTransform b)) = rb_Static b" "rb_Static (snd (GetWorldSpaceAABB b)) = rb_Static b"
  "same_motion b (snd (GetWorldSpaceTransform b))" "same_motion b (snd (GetWorldSpaceAABB b))"
  by (simp_all add: GetWorldSpaceAABB_def GetWorldSpaceTransform_def Let_def same_motion_def)

lemma static_simps [simp]: "rb_Static (RestTest b) = rb_Static b" "rb_Static (integrate type damping dt b) = rb_Static b" "rb_Static (WakeUp b) = rb_Static b"
  "same_motion b (WakeUp b)"
  by (simp_all add: RestTest_def SetIsAtRest_def WakeUp_def same_motion_def Let_def)
    (simp add: integrate_def turn_def spin_up_def from_state_def Let_def split: integration_type.splits)

lemma body_keeps_ops: "body_keeps cache_box" "body_keeps cache_transform" "body_keeps WakeUp"
  by (simp_all add: body_keeps_def cache_box_def cache_transform_def GetWorldSpaceAABB_coherent setters_coherent)

lemma body_keeps_update: "body_keeps (UpdateRigidBody e)"
  unfolding body_keeps_def
proof (intro allI conjI impI)
  fix b
  have "coherent (RestTest (b\<lparr>wsTransformInvalidated := True, wsAabbInvalidated := True\<rparr>))" for b
    by (rule setters_coherent) (simp add: coherent_def)
  then show "coherent b \<Longrightarrow> coherent (UpdateRigidBody e b)" by (simp add: UpdateRigidBody_def Let_def)
  show "rb_Static (UpdateRigidBody e b) = rb_Static b" by (simp add: UpdateRigidBody_def Let_def)
  show "rb_Static b \<Longrightarrow> same_motion b (UpdateRigidBody e b)" by (simp add: UpdateRigidBody_def same_motion_def)
qed

lemma pass_keeps: "pass_ok a b W V \<Longrightarrow> keeps F W V"
proof -
  assume "pass_ok a b W V"
  then have vo: "velocities_only a b W V" by (simp add: pass_ok_def)
  then have "rb_Static (W x) \<Longrightarrow> V x = W x" for x by (simp add: velocities_only_def)
  then show ?thesis using velocities_coherent [OF vo] velocities_only_keeps(1) [OF vo] by (simp add: keeps_def same_motion_def)
qed

lemma CheckCollision_keeps:
  assumes "CheckCollision a b s1 s2 (W, S) = Inr (r, W1, S1)"
  shows "keeps F W W1"
proof -
  have k: "keeps F W (upd b cache_transform (upd a cache_transform W))"
    by (rule keeps_trans [OF keeps_upd keeps_upd]) (rule body_keeps_ops)+
  obtain c where c: "lookup_check (m_Type (S s1)) (m_Type (S s2)) = Inr c" using assms by (auto simp: CheckCollision_def Let_def rbind_eq_Inr)
  have "W1 = W \<or> W1 = upd b cache_transform (upd a cache_transform W)"
    using assms by (cases c) (auto simp: CheckCollision_def Let_def c rbind_eq_Inr)
  then show ?thesis using k keeps_refl by auto
qed

lemma Fire_keeps: "keeps F W (snd (FireOnCollisionEvent callback a b W))"
  by (simp add: FireOnCollisionEvent_def keeps_upd body_keeps_ops keeps_refl)

definition two_nodes :: "manifold list \<Rightarrow> bool" where
  "two_nodes Ms \<longleftrightarrow> list_all (\<lambda>M. m_pNodeA M \<noteq> m_pNodeB M) Ms"

lemma AddContact_nodes: "AddContact W a b n p M = Inr M0 \<Longrightarrow> m_pNodeA M0 = m_pNodeA M \<and> m_pNodeB M0 = m_pNodeB M"
  by (auto simp: AddContact_def Let_def split: prod.splits if_splits)

lemma add_contacts_nodes: "add_contacts W n cs M = Inr M1 \<Longrightarrow> m_pNodeA M1 = m_pNodeA M \<and> m_pNodeB M1 = m_pNodeB M"
  by (induction W n cs M rule: add_contacts.induct) (auto simp: rbind_eq_Inr dest!: AddContact_nodes)

lemma Build_nodes: "BuildCollisionManifold W a b s1 s2 d M = Inr (t, M1) \<Longrightarrow> m_pNodeA M1 = m_pNodeA M \<and> m_pNodeB M1 = m_pNodeB M"
  by (auto simp: BuildCollisionManifold_def Let_def rbind_eq_Inr dest!: AddContact_nodes add_contacts_nodes split: if_splits)

lemma collide_keeps:
  assumes "collide huge callback a b s1 s2 data e = Inr f" and "a \<noteq> b" and "two_nodes (m_Manifolds e)"
  shows "keeps F (en_bodies e) (en_bodies f) \<and> two_nodes (m_Manifolds f) \<and> m_Constraints f = m_Constraints e \<and> m_RigidBodys f = m_RigidBodys e"
proof -
  obtain okA W1 okB W2 where w: "FireOnCollisionEvent callback a b (en_bodies e) = (okA, W1)" "FireOnCollisionEvent callback b a W1 = (okB, W2)"
    by (metis surj_pair)
  have "keeps F (en_bodies e) W1" "keeps F W1 W2" using Fire_keeps [of F _ callback a b] Fire_keeps [of F _ callback b a] w by (metis snd_conv)+
  then have k: "keeps F (en_bodies e) W2" by (rule keeps_trans)
  show ?thesis
  proof (cases "okA \<and> okB")
    case True
    with assms(1) w obtain t M where M: "BuildCollisionManifold W2 a b (en_shapes e s1) (en_shapes e s2) (case data of None \<Rightarrow> no_data huge | Some d \<Rightarrow> d) (Initiate a b) = Inr (t, M)"
      and f: "f = (if t then (e\<lparr>en_bodies := W2\<rparr>)\<lparr>m_Manifolds := m_Manifolds e @ [M]\<rparr> else e\<lparr>en_bodies := W2\<rparr>)"
      by (auto simp: collide_def Let_def rbind_eq_Inr)
    from Build_nodes [OF M] assms(2,3) k show ?thesis by (simp add: f two_nodes_def Initiate_def)
  next
    case False
    with assms w have "f = e\<lparr>en_bodies := W2\<rparr>" by (auto simp: collide_def Let_def)
    with k assms(3) show ?thesis by simp
  qed
qed

lemma narrow_pair_keeps:
  assumes "narrow_pair huge callback (a, b) e = Inr f" and "a \<noteq> b" and "two_nodes (m_Manifolds e)"
  shows "keeps F (en_bodies e) (en_bodies f) \<and> two_nodes (m_Manifolds f) \<and> m_Constraints f = m_Constraints e \<and> m_RigidBodys f = m_RigidBodys e"
proof (cases "rb_Shape (en_bodies e a) = None \<or> rb_Shape (en_bodies e b) = None")
  case True
  with assms show ?thesis by (auto simp: narrow_pair_def keeps_refl split: option.splits)
next
  case False
  then obtain s1 s2 where s: "rb_Shape (en_bodies e a) = Some s1" "rb_Shape (en_bodies e b) = Some s2" by auto
  with assms(1) obtain r W1 S1 where c: "CheckCollision a b s1 s2 (en_bodies e, en_shapes e) = Inr (r, W1, S1)"
    and f: "(case r of None \<Rightarrow> ok (e\<lparr>en_bodies := W1, en_shapes := S1\<rparr>) | Some data \<Rightarrow> collide huge callback a b s1 s2 data (e\<lparr>en_bodies := W1, en_shapes := S1\<rparr>)) = Inr f"
    by (auto simp: narrow_pair_def Let_def rbind_eq_Inr)
  note k = CheckCollision_keeps [OF c, of F]
  show ?thesis
  proof (cases r)
    case None
    with f k assms(3) show ?thesis by auto
  next
    case (Some data)
    with f have "collide huge callback a b s1 s2 data (e\<lparr>en_bodies := W1, en_shapes := S1\<rparr>) = Inr f" by simp
    from collide_keeps [OF this assms(2), of F] assms(3) k show ?thesis by (auto intro: keeps_trans)
  qed
qed

lemma narrow_keeps:
  assumes "rfold (narrow_pair huge callback) ps e = Inr f" and "\<forall>(a, b) \<in> set ps. a \<noteq> b" and "two_nodes (m_Manifolds e)"
  shows "keeps F (en_bodies e) (en_bodies f) \<and> two_nodes (m_Manifolds f) \<and> m_Constraints f = m_Constraints e \<and> m_RigidBodys f = m_RigidBodys e"
  using assms
proof (induction ps arbitrary: e)
  case (Cons p ps)
  obtain a b where p: "p = (a, b)" by force
  obtain g where g: "narrow_pair huge callback (a, b) e = Inr g" "rfold (narrow_pair huge callback) ps g = Inr f"
    using Cons.prems(1) by (auto simp: rbind_eq_Inr p)
  have ab: "a \<noteq> b" using Cons.prems(2) by (simp add: p)
  note k = narrow_pair_keeps [OF g(1) ab Cons.prems(3), of F]
  with Cons.IH [OF g(2)] Cons.prems(2) show ?case by (auto intro: keeps_trans)
qed (simp add: keeps_refl)

lemma apply_manifolds_keeps: "two_nodes Ms \<Longrightarrow> keeps F W (snd (apply_manifolds dt Ms W)) \<and> two_nodes (fst (apply_manifolds dt Ms W))"
proof (induction Ms arbitrary: W)
  case (Cons M Ms)
  then have M: "m_pNodeA M \<noteq> m_pNodeB M" "two_nodes Ms" by (auto simp: two_nodes_def)
  note A = ApplyImpulse_pass [OF M(1)]
  show ?case using Cons.IH [OF M(2), of "snd (ApplyImpulse dt M W)"] A(2,3) M(1) keeps_trans [OF pass_keeps [OF A(1) [of W dt]]]
    by (simp add: split_def Let_def two_nodes_def)
qed (simp add: keeps_refl two_nodes_def)

definition weld_targets :: "constraint list \<Rightarrow> nat set" where
  "weld_targets cs = {x. \<exists>c \<in> set cs. welded c x}"

lemma constraint_keeps_bodies:
  assumes "joins_two c" and "\<forall>x. welded c x \<longrightarrow> x \<in> F"
  shows "keeps F W (constraint_ApplyImpulse dt c W)"
  unfolding keeps_def
proof (intro allI conjI impI)
  fix x
  show "coherent (W x) \<Longrightarrow> coherent (constraint_ApplyImpulse dt c W x)" by (rule constraint_keeps [OF assms(1)])
  show "rb_Static (constraint_ApplyImpulse dt c W x) = rb_Static (W x)" by (rule constraint_keeps [OF assms(1)])
  assume "rb_Static (W x) \<and> x \<notin> F"
  then have "constraint_ApplyImpulse dt c W x = W x" using assms(2) by (intro constraint_keeps(2) [OF assms(1)]) auto
  then show "same_motion (W x) (constraint_ApplyImpulse dt c W x)" by (simp add: same_motion_def)
qed

lemma iteration_keeps:
  assumes "list_all joins_two cs" and "two_nodes Ms"
  shows "keeps (weld_targets cs) W (snd (solver_iteration dt cs (Ms, W))) \<and> two_nodes (fst (solver_iteration dt cs (Ms, W)))"
proof -
  obtain Ms1 W1 where m: "apply_manifolds dt Ms W = (Ms1, W1)" by force
  with apply_manifolds_keeps [OF assms(2), of "weld_targets cs" W dt] have k: "keeps (weld_targets cs) W W1" "two_nodes Ms1" by auto
  have "keeps (weld_targets cs) W1 (fold (constraint_ApplyImpulse dt) cs W1)"
    by (intro keeps_fold constraint_keeps_bodies) (use assms(1) in \<open>auto simp: list_all_iff weld_targets_def\<close>)
  with k show ?thesis by (auto simp: solver_iteration_def m intro: keeps_trans)
qed

lemma iterations_keep:
  assumes "list_all joins_two cs" and "two_nodes Ms"
  shows "keeps (weld_targets cs) W (snd ((solver_iteration dt cs ^^ k) (Ms, W))) \<and> two_nodes (fst ((solver_iteration dt cs ^^ k) (Ms, W)))"
proof (induction k)
  case (Suc k)
  obtain Ms1 W1 where m: "(solver_iteration dt cs ^^ k) (Ms, W) = (Ms1, W1)" by force
  with Suc iteration_keeps [OF assms(1), of Ms1 W1 dt] show ?case by (auto intro: keeps_trans)
qed (use assms(2) in \<open>simp add: keeps_refl\<close>)

lemma solve_keeps:
  assumes "list_all joins_two (m_Constraints e)" and "two_nodes (m_Manifolds e)"
  shows "keeps (weld_targets (m_Constraints e)) (en_bodies e) (en_bodies (SolveConstraints e)) \<and> m_RigidBodys (SolveConstraints e) = m_RigidBodys e"
proof -
  have "two_nodes (map (PreSolverStep (en_bodies e)) (m_Manifolds e))"
    using assms(2) by (simp add: two_nodes_def list_all_iff PreSolverStep_def)
  from iterations_keep [OF assms(1) this, where W = "en_bodies e" and dt = "s_UpdateTimestep e" and k = SOLVER_ITERATIONS] show ?thesis
    by (simp add: SolveConstraints_def Let_def split_def)
qed

text \<open>What the engine relies on of a broad phase: over distinct bodies it pairs no body with itself.\<close>

definition pairs_distinct :: "'p broadphase_calls \<Rightarrow> bool" where
  "pairs_distinct bp \<longleftrightarrow> (\<forall>p W os ps p1. bp_find bp p W os = Inr (ps, p1) \<longrightarrow> distinct os \<longrightarrow> (\<forall>(a, b) \<in> set ps. a \<noteq> b))"

lemma broad_keeps:
  assumes "BroadPhaseCollisions bp e = Inr f" and "pairs_distinct bp" and "distinct (m_RigidBodys e)"
  shows "keeps F (en_bodies e) (en_bodies f) \<and> (\<forall>(a, b) \<in> set (m_BroadphaseCollisionPairs f). a \<noteq> b) \<and> m_Manifolds f = m_Manifolds e
    \<and> m_Constraints f = m_Constraints e \<and> m_RigidBodys f = m_RigidBodys e"
proof (cases "m_BroadphaseDetection e")
  case None
  with assms(1) show ?thesis by (auto simp: BroadPhaseCollisions_def keeps_refl)
next
  case (Some p)
  then obtain ps p1 where b: "bp_find bp p (\<lambda>x. body_view (en_bodies e x)) (m_RigidBodys e) = Inr (ps, p1)"
    and f: "f = e\<lparr>m_BroadphaseCollisionPairs := ps, m_BroadphaseDetection := Some p1,
      en_bodies := (if bp_reads bp then fold (\<lambda>x. upd x cache_box) (m_RigidBodys e) (en_bodies e) else en_bodies e)\<rparr>"
    using assms(1) by (auto simp: BroadPhaseCollisions_def rbind_eq_Inr)
  have "keeps F (en_bodies e) (fold (\<lambda>x. upd x cache_box) (m_RigidBodys e) (en_bodies e))"
    by (intro keeps_fold keeps_upd body_keeps_ops)
  moreover have "\<forall>(a, b) \<in> set ps. a \<noteq> b" using assms(2,3) b unfolding pairs_distinct_def by blast
  ultimately show ?thesis by (auto simp: f keeps_refl)
qed

text \<open>Property C25. An update of the whole engine (broad phase, narrow phase, fifty iterations of the solver, movement) leaves every cache of a transform
  or of a box that was coherent coherent, never changes which bodies are static, and moves no static body, nor gives it a velocity,
  unless a weld holds it to another body.\<close>
theorem update_keeps_bodies:
  assumes "UpdatePhysics huge callback bp e = Inr f" and "pairs_distinct bp" and "distinct (m_RigidBodys e)"
    and "list_all joins_two (m_Constraints e)"
  shows "(\<forall>x. coherent (en_bodies e x) \<longrightarrow> coherent (en_bodies f x))
    \<and> (\<forall>x. rb_Static (en_bodies f x) = rb_Static (en_bodies e x))
    \<and> (\<forall>x. rb_Static (en_bodies e x) \<and> x \<notin> weld_targets (m_Constraints e) \<longrightarrow> same_motion (en_bodies e x) (en_bodies f x))"
proof -
  let ?F = "weld_targets (m_Constraints e)"
  obtain g h where g: "BroadPhaseCollisions bp (e\<lparr>m_Manifolds := []\<rparr>) = Inr g"
    "rfold (narrow_pair huge callback) (m_BroadphaseCollisionPairs g) g = Inr h" "f = UpdateRigidBodys (SolveConstraints h)"
    using assms(1) by (rule UpdatePhysics_Inr)
  from broad_keeps [OF g(1) assms(2), of ?F] assms(3) have b: "keeps ?F (en_bodies e) (en_bodies g)"
    "\<forall>(a, b) \<in> set (m_BroadphaseCollisionPairs g). a \<noteq> b" "two_nodes (m_Manifolds g)" "m_Constraints g = m_Constraints e"
    by (auto simp: two_nodes_def)
  from narrow_keeps [OF g(2) b(2,3), of ?F] b(4) have n: "keeps ?F (en_bodies g) (en_bodies h)" "two_nodes (m_Manifolds h)" "m_Constraints h = m_Constraints e"
    by auto
  from solve_keeps [of h] n assms(4) have s: "keeps ?F (en_bodies h) (en_bodies (SolveConstraints h))" by simp
  have m: "keeps ?F (en_bodies (SolveConstraints h)) (en_bodies f)"
    unfolding g(3) by (simp add: UpdateRigidBodys_def) (intro keeps_fold keeps_upd body_keeps_update)
  have "keeps ?F (en_bodies e) (en_bodies f)" by (rule keeps_trans [OF keeps_trans [OF keeps_trans [OF b(1) n(1)] s] m])
  then show ?thesis by (simp add: keeps_def)
qed

section \<open>An engine at work\<close>

text \<open>The brute-force broad phase as the engine calls it; it has no state and asks for no box.\<close>

definition brute_calls :: "unit broadphase_calls" where
  "brute_calls = \<lparr>bp_find = (\<lambda>p W os. ok (BruteForce W os, p)), bp_reads = False\<rparr>"

lemma brute_distinct: "distinct os \<Longrightarrow> (a, b) \<in> set (BruteForce W os) \<Longrightarrow> a \<noteq> b"
  by (induction os) auto

lemma brute_pairs_distinct: "pairs_distinct brute_calls"
  using brute_distinct by (fastforce simp: pairs_distinct_def brute_calls_def)

definition falling :: "bool \<Rightarrow> unit engine" where
  "falling multiple = (new_engine (\<lambda>_. unit_body) (\<lambda>_. new_Sphere 1))\<lparr>m_RigidBodys := [0, 1], m_BroadphaseDetection := Some (), m_MultipleUpdates := multiple\<rparr>"

lemma no_manifolds_iterate: "(solver_iteration dt [] ^^ k) ([], W) = ([], W)"
  by (induction k) (simp_all add: solver_iteration_def)

lemma idle_update:
  assumes "m_Constraints e = []" and "m_BroadphaseDetection e = Some ()" and "\<And>x. rb_Shape (en_bodies e x) = None"
  obtains f where "UpdatePhysics huge callback brute_calls e = Inr f" "m_Constraints f = []" "m_BroadphaseDetection f = Some ()"
    "\<And>x. rb_Shape (en_bodies f x) = None"
proof -
  let ?g = "e\<lparr>m_Manifolds := [], m_BroadphaseCollisionPairs := [], m_BroadphaseDetection := Some ()\<rparr>"
  have "BruteForce (\<lambda>x. body_view (en_bodies e x)) os = []" for os
    by (induction os) (simp_all add: bf_report_def body_view_def assms(3))
  then have b: "BroadPhaseCollisions brute_calls (e\<lparr>m_Manifolds := []\<rparr>) = Inr ?g"
    by (simp add: BroadPhaseCollisions_def brute_calls_def assms(2))
  have s: "SolveConstraints ?g = ?g" by (simp add: SolveConstraints_def Let_def no_manifolds_iterate assms(1))
  have u: "rb_Shape (UpdateRigidBody k b) = rb_Shape b" for k :: "unit engine" and b
    by (simp add: UpdateRigidBody_def RestTest_def SetIsAtRest_def Let_def integrate_def turn_def spin_up_def from_state_def split: integration_type.splits)
  have "rb_Shape (fold (\<lambda>x. upd x (UpdateRigidBody k)) xs W x) = rb_Shape (W x)" for k :: "unit engine" and xs W x
    by (induction xs arbitrary: W) (simp_all add: upd_def u)
  then have "\<And>x. rb_Shape (en_bodies (UpdateRigidBodys ?g) x) = None" by (simp add: UpdateRigidBodys_def assms(3))
  moreover have "UpdatePhysics huge callback brute_calls e = Inr (UpdateRigidBodys ?g)"
    by (simp add: UpdatePhysics_def b NarrowPhaseCollisions_def s)
  ultimately show ?thesis using that by (simp add: UpdateRigidBodys_def assms(1))
qed

lemma falling_simps [simp]: "m_Constraints (falling m) = []" "m_BroadphaseDetection (falling m) = Some ()" "en_bodies (falling m) x = unit_body"
  "rb_Shape unit_body = None" "m_MultipleUpdates (falling m) = m" "m_UpdateAccum (falling m) = 0" "s_UpdateTimestep (falling m) = 1 / 60"
  "m_RigidBodys (falling m) = [0, 1]"
  by (simp_all add: falling_def new_engine_def unit_body_def)

theorem update_keeps_bodies_witness:
  "\<exists>f. UpdatePhysics 1000 (\<lambda>_ _ _. True) brute_calls (falling False) = Inr f \<and> coherent (en_bodies f 0)"
proof -
  obtain f where f: "UpdatePhysics 1000 (\<lambda>_ _ _. True) brute_calls (falling False) = Inr f" by (rule idle_update [of "falling False"]) auto
  have "coherent unit_body" by (simp add: coherent_def unit_body_def)
  with update_keeps_bodies [OF f brute_pairs_distinct] f show ?thesis by simp
qed

lemma idle_clock:
  assumes "m_Constraints e = []" and "m_BroadphaseDetection e = Some ()" and "\<And>x. rb_Shape (en_bodies e x) = None"
  shows "\<exists>k f. clock_loop huge callback brute_calls n e = Inr (k, f)"
  using assms
proof (induction n arbitrary: e)
  case (Suc n)
  show ?case
  proof (cases "m_UpdateAccum e \<ge> s_UpdateTimestep e")
    case True
    obtain g where g: "UpdatePhysics huge callback brute_calls (e\<lparr>m_UpdateAccum := m_UpdateAccum e - s_UpdateTimestep e\<rparr>) = Inr g"
      "m_Constraints g = []" "m_BroadphaseDetection g = Some ()" "\<And>x. rb_Shape (en_bodies g x) = None"
      by (rule idle_update [of "e\<lparr>m_UpdateAccum := m_UpdateAccum e - s_UpdateTimestep e\<rparr>"]) (use Suc.prems in auto)
    from Suc.IH [OF g(2-4)] obtain k f where "clock_loop huge callback brute_calls n g = Inr (k, f)" by blast
    with g(1) True show ?thesis by simp
  qed simp
qed simp

theorem clock_accounts_for_time_witness:
  "\<exists>k f. step_clock 1000 (\<lambda>_ _ _. True) brute_calls (1 / 30) (falling True) = Inr (k, f) \<and> k \<le> 5 \<and> m_UpdateAccum f < s_UpdateTimestep f"
proof -
  have "\<exists>k f. clock_loop 1000 (\<lambda>_ _ _. True) brute_calls MAX_UPDATES ((falling True)\<lparr>m_UpdateAccum := 1 / 30\<rparr>) = Inr (k, f)"
    by (rule idle_clock) simp_all
  then obtain k f where "clock_loop 1000 (\<lambda>_ _ _. True) brute_calls MAX_UPDATES ((falling True)\<lparr>m_UpdateAccum := 1 / 30\<rparr>) = Inr (k, f)"
    by blast
  then obtain g where "step_clock 1000 (\<lambda>_ _ _. True) brute_calls (1 / 30) (falling True) = Inr (k, g)" by (simp add: step_clock_def)
  with clock_accounts_for_time [OF this] show ?thesis by auto
qed

section \<open>No collision is missed\<close>

lemma combine_affine:
  "length ws = length ps \<Longrightarrow> affine T \<Longrightarrow> combine ws (map (mat4_vec T) ps) = vec_add (mat3_vec (ToMatrix3 T) (combine ws ps)) (vec_scale (Translation T) (sum_list ws))"
proof (induction ws ps rule: list_induct2)
  case Nil
  then show ?case by (simp add: combine_def mat3_vec_def vec_defs zero_vec3_def)
next
  case (Cons w ws p ps)
  then show ?case
    by (simp add: combine_def affine_vec) (simp add: mat3_vec_def vec_add_def vec_scale_def plus_vec3_def algebra_simps)
qed

text \<open>A point of the placed shape is a point of the shape, placed.\<close>

lemma placed_point:
  assumes "in_shape s (Some (fresh_transform b)) q" and "affine (m_LocalTransform s)" and "quat_LengthSquared (Orientation b) = 1"
    and flat: "flat_capsule s"
  obtains p where "in_shape s None p" "q = mat4_vec (fresh_transform b) p"
proof -
  let ?T = "fresh_transform b" and ?L = "m_LocalTransform s" and ?R = "RotationMatrix (Orientation b)"
  have R: "ToMatrix3 ?T = ?R" "Translation ?T = rb_Position b"
    by (simp_all add: fresh_transform_def RotationMatrix4_def)
  show ?thesis
  proof (cases "m_Type s \<in> {CollisionSphere, CollisionCapsule}")
    case True
    define p where "p = mat3_vec (mat3_Transpose ?R) (vec_sub q (rb_Position b))"
    have undo: "mat3_vec ?R p = vec_sub q (rb_Position b)"
      unfolding p_def by (simp add: mat3_vec_mul [symmetric] rotation_orthogonal(2) [OF assms(3)])
    have "vec_add (vec_sub q (rb_Position b)) (rb_Position b) = q" by (simp add: vec_add_def vec_sub_def)
    then have q: "q = mat4_vec ?T p" by (simp only: affine_vec [OF fresh_affine] R undo plus_vec3_def)
    have "Translation (mat4_mul ?T ?L) = vec_add (mat3_vec ?R (Translation ?L)) (rb_Position b)"
      using assms(2) by (simp add: Translation_def mat4_mul_def affine_def mat3_vec_def vec_add_def R [symmetric] ToMatrix3_def)
    then have "vec_sub q (Translation (mat4_mul ?T ?L)) = mat3_vec ?R (vec_sub p (Translation ?L))"
      using undo by (simp add: mat3_vec_def vec_defs algebra_simps)
    then have "LengthSquared (vec_sub p (Translation ?L)) \<le> m_Radius s * m_Radius s"
      using assms(1) by (simp add: in_shape_round [OF flat True] ws_transform_def rotate_matrix rotate_length [OF assms(3)])
    then have "in_shape s None p" by (simp add: in_shape_round [OF flat True] ws_transform_def)
    with q that show ?thesis by blast
  next
    case False
    then obtain h ws where h: "m_Hull s = Some h" "length ws = length (m_Vertices h)" "\<forall>w \<in> set ws. 0 \<le> w" "sum_list ws = 1"
      "q = combine ws (map (\<lambda>v. mat4_vec (mat4_mul ?T ?L) (hv_pos v)) (m_Vertices h))"
      using assms(1) by (auto simp: in_shape_hull ws_transform_def)
    define p where "p = combine ws (map (\<lambda>v. mat4_vec ?L (hv_pos v)) (m_Vertices h))"
    define qs where "qs = map (\<lambda>v. mat4_vec ?L (hv_pos v)) (m_Vertices h)"
    have "map (\<lambda>v. mat4_vec (mat4_mul ?T ?L) (hv_pos v)) (m_Vertices h) = map (mat4_vec ?T) qs"
      by (simp add: qs_def affine_vec_mul [OF fresh_affine assms(2)])
    then have "q = combine ws (map (mat4_vec ?T) qs)" using h(5) by simp
    also have "\<dots> = vec_add (mat3_vec ?R p) (vec_scale (rb_Position b) 1)"
      using combine_affine [of ws qs ?T] h(2,4) fresh_affine R by (simp add: p_def qs_def)
    finally have "q = vec_add (mat3_vec ?R p) (vec_scale (rb_Position b) 1)" .
    then have "q = mat4_vec ?T p" by (simp add: affine_vec [OF fresh_affine] R plus_vec3_def vec_scale_def)
    moreover have "in_shape s None p" using False h by (auto simp: in_shape_hull ws_transform_def p_def)
    ultimately show ?thesis using that by blast
  qed
qed

lemma shape_in_box:
  assumes "in_service huge S b" and "rb_Shape b = Some s" and "sound_shape (S s)" and "quat_LengthSquared (Orientation b) = 1"
    and "in_shape (S s) (Some (fresh_transform b)) q"
  shows "in_box q (fst (GetWorldSpaceAABB b))"
proof -
  have inv: "coherent b" "boxed S b" using service_invariant [OF assms(1)] by auto
  have "affine (m_LocalTransform (S s))" "flat_capsule (S s)" using assms(3) by (simp_all add: sound_shape_def)
  from placed_point [OF assms(5) this(1) assms(4) this(2)] obtain p where p: "in_shape (S s) None p" "q = mat4_vec (fresh_transform b) p" by blast
  have "in_box p (localBoundingBox b)" using inv(2) assms(2,3) p(1) by (simp add: boxed_def)
  then show ?thesis unfolding p(2) GetWorldSpaceAABB_coherent(1) [OF inv(1)] by (rule Transformed_contains [OF fresh_affine])
qed

text \<open>Two shapes share a ball of positive radius.\<close>

definition interpenetrate :: "shape \<Rightarrow> rigid_body \<Rightarrow> shape \<Rightarrow> rigid_body \<Rightarrow> bool" where
  "interpenetrate s1 b1 s2 b2 \<longleftrightarrow> (\<exists>p r. 0 < r \<and> (\<forall>q. LengthSquared (vec_sub q p) \<le> r * r \<longrightarrow>
     in_shape s1 (Some (fresh_transform b1)) q \<and> in_shape s2 (Some (fresh_transform b2)) q))"

lemma ball_in_boxes:
  assumes "0 < r" and "\<forall>q. LengthSquared (vec_sub q p) \<le> r * r \<longrightarrow> in_box q b \<and> in_box q c"
  shows "overlap b c"
proof -
  have "in_box q b \<and> in_box q c" if "q \<in> {vec_add p (Vec3 r 0 0), vec_add p (Vec3 (- r) 0 0), vec_add p (Vec3 0 r 0),
      vec_add p (Vec3 0 (- r) 0), vec_add p (Vec3 0 0 r), vec_add p (Vec3 0 0 (- r))}" for q
    using that by (intro assms(2) [rule_format]) (auto simp: LengthSquared_def vec_defs)
  then have "in_box (vec_add p (Vec3 r 0 0)) b \<and> in_box (vec_add p (Vec3 r 0 0)) c" "in_box (vec_add p (Vec3 (- r) 0 0)) b \<and> in_box (vec_add p (Vec3 (- r) 0 0)) c"
    "in_box (vec_add p (Vec3 0 r 0)) b \<and> in_box (vec_add p (Vec3 0 r 0)) c" "in_box (vec_add p (Vec3 0 (- r) 0)) b \<and> in_box (vec_add p (Vec3 0 (- r) 0)) c"
    "in_box (vec_add p (Vec3 0 0 r)) b \<and> in_box (vec_add p (Vec3 0 0 r)) c" "in_box (vec_add p (Vec3 0 0 (- r))) b \<and> in_box (vec_add p (Vec3 0 0 (- r))) c"
    by blast+
  with assms(1) show ?thesis by (simp add: overlap_def box_simps vec_less_def vec_add_def)
qed

lemma interpenetrating_candidates:
  assumes "in_service huge S (W a)" and "in_service huge S (W b)" and "rb_Shape (W a) = Some s1" and "rb_Shape (W b) = Some s2"
    and "sound_shape (S s1)" and "sound_shape (S s2)" and "quat_LengthSquared (Orientation (W a)) = 1" and "quat_LengthSquared (Orientation (W b)) = 1"
    and "interpenetrate (S s1) (W a) (S s2) (W b)" and "\<not> (idle (body_view (W a)) \<and> idle (body_view (W b)))"
  shows "candidates (\<lambda>x. body_view (W x)) a b"
proof -
  obtain p r where pr: "0 < r" "\<forall>q. LengthSquared (vec_sub q p) \<le> r * r \<longrightarrow>
     in_shape (S s1) (Some (fresh_transform (W a))) q \<and> in_shape (S s2) (Some (fresh_transform (W b))) q"
    using assms(9) by (auto simp: interpenetrate_def)
  have "overlap (aabb (body_view (W a))) (aabb (body_view (W b)))"
    using pr shape_in_box [OF assms(1,3,5,7)] shape_in_box [OF assms(2,4,6,8)]
    by (intro ball_in_boxes [OF pr(1)]) (auto simp: body_view_def)
  with assms(3,4,10) show ?thesis by (simp add: candidates_def body_view_def)
qed

text \<open>Property C24. No collision is missed by the broad phases: two bodies in service with unit orientations whose shapes interpenetrate, and
  which are not both idle, are reported as a pair by the brute force and by sort and sweep, and by the octree if it returns, with the boxes
  that the bodies hand out. The shapes have an affine local transform and a capsule has no height; a capsule of some height sticks out of the
  box the code gives it.\<close>
theorem interpenetrating_bodies_reported:
  assumes "in_service huge S (W a)" and "in_service huge S (W b)" and "rb_Shape (W a) = Some s1" and "rb_Shape (W b) = Some s2"
    and "sound_shape (S s1)" and "sound_shape (S s2)" and "quat_LengthSquared (Orientation (W a)) = 1" and "quat_LengthSquared (Orientation (W b)) = 1"
    and "interpenetrate (S s1) (W a) (S s2) (W b)" and "\<not> (idle (body_view (W a)) \<and> idle (body_view (W b)))"
    and "a \<in> set os" and "b \<in> set os" and "a \<noteq> b"
  shows "((a, b) \<in> set (BruteForce (\<lambda>x. body_view (W x)) os) \<or> (b, a) \<in> set (BruteForce (\<lambda>x. body_view (W x)) os))
    \<and> ((a, b) \<in> set (SortAndSweep stable_sort 0 (\<lambda>x. body_view (W x)) os) \<or> (b, a) \<in> set (SortAndSweep stable_sort 0 (\<lambda>x. body_view (W x)) os))
    \<and> (\<forall>ps u. Octree (SortAndSweep stable_sort 0) m d (\<lambda>x. body_view (W x)) os t = Inr (ps, u) \<longrightarrow> (a, b) \<in> set ps \<or> (b, a) \<in> set ps)"
proof -
  have c: "candidates (\<lambda>x. body_view (W x)) a b" by (rule interpenetrating_candidates [OF assms(1-10)])
  show ?thesis
    using brute_force.complete [OF assms(11-13) c] x_sweep.complete [OF assms(11-13) c] x_sweep.octree_complete [OF _ assms(11-13) c]
    by blast
qed

text \<open>The ball in service and itself, as two bodies of the store.\<close>

theorem interpenetrating_bodies_reported_witness:
  "\<exists>b. new_RigidBody 1000 (\<lambda>_. new_Sphere 2) ball_properties = Inr b
     \<and> ((0, 1) \<in> set (BruteForce (\<lambda>x. body_view b) [0, 1]) \<or> (1, 0) \<in> set (BruteForce (\<lambda>x. body_view b) [0, 1]))"
proof -
  obtain b where b: "new_RigidBody 1000 (\<lambda>_. new_Sphere 2) ball_properties = Inr b" "rb_Shape b = Some 0" using ball_created by blast
  have pose: "Orientation b = quat_id" "\<not> rb_Static b" "\<not> rb_AtRest b" "rb_Position b = Vec3 3 0 0"
    using b(1) by (auto simp: new_RigidBody_def ball_properties_def default_properties_def SetCollisionShape_def Let_def rbind_eq_Inr elim!: Auto_Inr)
  have q: "quat_LengthSquared (Orientation b) = 1" by (simp add: pose quat_id_def quat_LengthSquared_def)
  have s: "sound_shape (new_Sphere 2)"
    by (simp add: sound_shape_def flat_capsule_def new_Sphere_def blank_shape_def)
  have "Translation (mat4_mul (fresh_transform b) (scale_matrix (Vec3 2 2 2))) = Vec3 3 0 0"
    by (simp add: fresh_transform_def pose mat4_mul_def scale_matrix_def mat4_SetScale_def mat4_id_def SetTranslation_def Translation_def)
  then have "interpenetrate (new_Sphere 2) b (new_Sphere 2) b"
    unfolding interpenetrate_def
    by (intro exI [of _ "Vec3 3 0 0"] exI [of _ 2]) (simp add: in_shape_def new_Sphere_def blank_shape_def ws_transform_def Let_def)
  moreover have "\<not> idle (body_view b)" using pose by (simp add: idle_def body_view_def)
  ultimately show ?thesis
    using interpenetrating_bodies_reported [where W = "\<lambda>_. b" and a = 0 and b = 1 and os = "[0, 1]", OF created_in_service [OF b(1)] created_in_service [OF b(1)] b(2,2) s s q q] b(1)
    by auto
qed

end
