(* ===== verification/PlanarVectors.thy ===== *)
theory PlanarVectors
  imports BoundingBoxes "HOL-Library.Signed_Division"
begin

text \<open>
  Rounding and remainders (\<open>Maths/MathDefs.h\<close>), vectors of two and four components
  (\<open>Maths/Vector2.h\<close>, \<open>Maths/Vector4.h\<close>), the rest of \<open>Maths/Vector3.h\<close>, and the rectangles
  of \<open>Maths/Rect.h\<close>, over an ordered field or the reals. \<open>M_EPSILON\<close> is 10^-6. The C operators on
  integers truncate towards zero.
\<close>

section \<open>Rounding and remainders\<close>

definition Floor :: "real \<Rightarrow> real" where
  "Floor x = of_int \<lfloor>x\<rfloor>"

definition Ceil :: "real \<Rightarrow> real" where
  "Ceil x = of_int \<lceil>x\<rceil>"

definition Fract :: "real \<Rightarrow> real" where
  "Fract v = v - of_int \<lfloor>v\<rfloor>"

definition FloorToInt :: "real \<Rightarrow> int" where
  "FloorToInt x = \<lfloor>x\<rfloor>"

definition CeilToInt :: "real \<Rightarrow> int" where
  "CeilToInt x = \<lceil>x\<rceil>"

definition RoundToInt :: "real \<Rightarrow> int" where
  "RoundToInt x = (if x < 0 then - \<lfloor>1 / 2 - x\<rfloor> else \<lfloor>x + 1 / 2\<rfloor>)"

definition Round :: "real \<Rightarrow> real" where
  "Round x = of_int (RoundToInt x)"

text \<open>\<open>fmod\<close> of the C library, for a divisor other than zero.\<close>

definition fmod :: "real \<Rightarrow> real \<Rightarrow> real" where
  "fmod x y = x - y * (if x / y < 0 then of_int \<lceil>x / y\<rceil> else of_int \<lfloor>x / y\<rfloor>)"

definition Mod :: "real \<Rightarrow> real \<Rightarrow> real" where
  "Mod x y = fmod x y"

definition Mod_int :: "int \<Rightarrow> int \<Rightarrow> int" where
  "Mod_int x y = x smod y"

definition AbsMod :: "int \<Rightarrow> int \<Rightarrow> int" where
  "AbsMod x y = (let result = x smod y in if result < 0 then result + y else result)"

definition Wrap :: "int \<Rightarrow> int \<Rightarrow> int \<Rightarrow> int" where
  "Wrap v lo hi = (let range = hi - lo in lo + Mod_int v range)"

definition RoundToNearestMultiple :: "real \<Rightarrow> real \<Rightarrow> real" where
  "RoundToNearestMultiple x multiple =
    (let mag = Abs x; multiple = Abs multiple; remainder = Mod mag multiple in
     if remainder \<ge> multiple / 2 then (of_int (FloorToInt (mag / multiple)) * multiple + multiple) * Sign x
     else (of_int (FloorToInt (mag / multiple)) * multiple) * Sign x)"

definition Average :: "real list \<Rightarrow> real" where
  "Average xs = (let average = fold (\<lambda>x a. a + x) xs 0; n = length xs in
     if n \<noteq> 0 then average / of_nat n else average)"

lemma fract_bounds: "0 \<le> Fract v \<and> Fract v < 1"
  by (simp add: Fract_def) linarith

lemma round_nearest: "\<bar>Round x - x\<bar> \<le> 1 / 2"
proof (cases "x < 0")
  case True
  then have "Round x = - of_int \<lfloor>1 / 2 - x\<rfloor>" by (simp add: Round_def RoundToInt_def)
  then show ?thesis using floor_correct [of "1 / 2 - x"] by linarith
next
  case False
  then have "Round x = of_int \<lfloor>x + 1 / 2\<rfloor>" by (simp add: Round_def RoundToInt_def)
  then show ?thesis using floor_correct [of "x + 1 / 2"] by linarith
qed

lemma AbsMod_mod: "0 < y \<Longrightarrow> AbsMod x y = x mod y"
proof -
  assume "0 < y"
  have "x smod y = x mod y \<or> x smod y = x mod y - y"
    unfolding signed_modulo_int_eq_modulo_int by (cases "sgn x \<noteq> sgn y \<and> \<not> y dvd x") auto
  moreover have "0 \<le> x mod y" "x mod y < y" using \<open>0 < y\<close> by simp_all
  moreover have "0 \<le> x smod y \<Longrightarrow> x smod y = x mod y" using calculation by linarith
  moreover have "x smod y < 0 \<Longrightarrow> x smod y + y = x mod y" using calculation by linarith
  ultimately show ?thesis unfolding AbsMod_def Let_def by (cases "x smod y < 0") simp_all
qed

text \<open>\<open>Wrap\<close> does not subtract the lower bound before it takes the remainder: values inside the range move,
  and values below zero leave it.\<close>

lemma wrap_moves_values: "Wrap 5 3 7 = 4" "Wrap (- 1) 0 4 = - 1"
  by (simp_all add: Wrap_def Mod_int_def smod_int_alt_def Let_def)

lemma wrap_from_zero: "0 \<le> v \<Longrightarrow> 0 < hi \<Longrightarrow> Wrap v 0 hi = v mod hi"
  by (simp add: Wrap_def Mod_int_def smod_int_alt_def sgn_if)

lemma nearest_multiple:
  assumes "multiple \<noteq> 0"
  shows "\<bar>RoundToNearestMultiple x multiple - x\<bar> \<le> \<bar>multiple\<bar> / 2"
    and "\<exists>k :: int. RoundToNearestMultiple x multiple = of_int k * multiple"
proof -
  let ?m = "\<bar>multiple\<bar>" let ?q = "\<lfloor>\<bar>x\<bar> / ?m\<rfloor>"
  have m: "?m > 0" using assms by simp
  have f: "Mod \<bar>x\<bar> ?m = \<bar>x\<bar> - ?m * of_int ?q" 
  proof -
    have "\<not> \<bar>x\<bar> / ?m < 0" using m by (simp add: not_less)
    then show ?thesis by (simp add: Mod_def fmod_def)
  qed
  have q: "of_int ?q * ?m \<le> \<bar>x\<bar>" "\<bar>x\<bar> < (of_int ?q + 1) * ?m"
    using m by (simp_all add: floor_divide_lower floor_divide_upper)
  have x: "x = \<bar>x\<bar> * sgn x" by (simp add: abs_mult_sgn)
  obtain k :: int where k: "RoundToNearestMultiple x multiple = of_int k * ?m * sgn x"
    and d: "\<bar>of_int k * ?m - \<bar>x\<bar>\<bar> \<le> ?m / 2"
  proof (cases "Mod \<bar>x\<bar> ?m \<ge> ?m / 2")
    case True
    show ?thesis
      by (rule that [of "?q + 1"]) (use True f q in \<open>simp_all add: RoundToNearestMultiple_def Let_def FloorToInt_def algebra_simps\<close>)
  next
    case False
    show ?thesis
      by (rule that [of ?q]) (use False f q in \<open>simp_all add: RoundToNearestMultiple_def Let_def FloorToInt_def algebra_simps\<close>)
  qed
  have "RoundToNearestMultiple x multiple - x = (of_int k * ?m - \<bar>x\<bar>) * sgn x"
    using x k by (simp add: algebra_simps)
  then have "\<bar>RoundToNearestMultiple x multiple - x\<bar> \<le> \<bar>of_int k * ?m - \<bar>x\<bar>\<bar>"
    by (simp add: abs_mult abs_sgn_eq)
  then show "\<bar>RoundToNearestMultiple x multiple - x\<bar> \<le> \<bar>multiple\<bar> / 2" using d by linarith
  have "RoundToNearestMultiple x multiple \<in> {of_int k * multiple, of_int (- k) * multiple, of_int 0 * multiple}"
    using k by (auto simp: sgn_if abs_if)
  then show "\<exists>k :: int. RoundToNearestMultiple x multiple = of_int k * multiple" by blast
qed

section \<open>Vectors of two components\<close>

datatype 'f vec2 = Vec2 (px: 'f) (py: 'f)

definition vec2_add :: "'f :: plus vec2 \<Rightarrow> 'f vec2 \<Rightarrow> 'f vec2" where
  "vec2_add a b = Vec2 (px a + px b) (py a + py b)"

definition vec2_neg :: "'f :: uminus vec2 \<Rightarrow> 'f vec2" where
  "vec2_neg a = Vec2 (- px a) (- py a)"

definition vec2_sub :: "'f :: minus vec2 \<Rightarrow> 'f vec2 \<Rightarrow> 'f vec2" where
  "vec2_sub a b = Vec2 (px a - px b) (py a - py b)"

definition vec2_scale :: "'f :: times vec2 \<Rightarrow> 'f \<Rightarrow> 'f vec2" where
  "vec2_scale a s = Vec2 (px a * s) (py a * s)"

definition vec2_mul :: "'f :: times vec2 \<Rightarrow> 'f vec2 \<Rightarrow> 'f vec2" where
  "vec2_mul a b = Vec2 (px a * px b) (py a * py b)"

definition vec2_div :: "'f :: field vec2 \<Rightarrow> 'f \<Rightarrow> 'f vec2" where
  "vec2_div a s = Vec2 (px a / s) (py a / s)"

definition vec2_divv :: "'f :: field vec2 \<Rightarrow> 'f vec2 \<Rightarrow> 'f vec2" where
  "vec2_divv a b = Vec2 (px a / px b) (py a / py b)"

definition vec2_div_assign :: "'f :: field vec2 \<Rightarrow> 'f \<Rightarrow> 'f vec2" where
  "vec2_div_assign a s = (let invRhs = 1 / s in Vec2 (px a * invRhs) (py a * invRhs))"

definition vec2_Length :: "real vec2 \<Rightarrow> real" where
  "vec2_Length a = sqrt (px a * px a + py a * py a)"

definition vec2_LengthSquared :: "'f :: comm_ring vec2 \<Rightarrow> 'f" where
  "vec2_LengthSquared a = px a * px a + py a * py a"

definition vec2_DotProduct :: "'f :: comm_ring vec2 \<Rightarrow> 'f vec2 \<Rightarrow> 'f" where
  "vec2_DotProduct a b = px a * px b + py a * py b"

definition vec2_AbsDotProduct :: "'f :: linordered_field vec2 \<Rightarrow> 'f vec2 \<Rightarrow> 'f" where
  "vec2_AbsDotProduct a b = Abs (px a * px b) + Abs (py a * py b)"

definition vec2_Abs :: "'f :: linordered_field vec2 \<Rightarrow> 'f vec2" where
  "vec2_Abs a = Vec2 (Abs (px a)) (Abs (py a))"

definition vec2_Lerp :: "'f :: linordered_field vec2 \<Rightarrow> 'f vec2 \<Rightarrow> 'f \<Rightarrow> 'f vec2" where
  "vec2_Lerp a b t = vec2_add (vec2_scale a (1 - t)) (vec2_scale b t)"

definition vec2_Equals :: "'f :: linordered_field vec2 \<Rightarrow> 'f vec2 \<Rightarrow> 'f \<Rightarrow> bool" where
  "vec2_Equals a b eps \<longleftrightarrow> Equals_eps (px a) (px b) eps \<and> Equals_eps (py a) (py b) eps"

definition vec2_Normalized :: "real vec2 \<Rightarrow> real vec2" where
  "vec2_Normalized a = (let lenSquared = vec2_LengthSquared a in
     if \<not> Equals_eps lenSquared 1 (1 / 1000000) \<and> lenSquared > 0
     then (let invLen = 1 / sqrt lenSquared in vec2_scale a invLen) else a)"

definition vec2_ProjectOntoAxis :: "real vec2 \<Rightarrow> real vec2 \<Rightarrow> real" where
  "vec2_ProjectOntoAxis a axis = vec2_DotProduct a (vec2_Normalized axis)"

definition vec2_NormalizedOrDefault :: "real vec2 \<Rightarrow> real vec2 \<Rightarrow> real \<Rightarrow> real vec2" where
  "vec2_NormalizedOrDefault a defaultValue eps = (let lenSquared = vec2_LengthSquared a in
     if lenSquared < eps * eps then defaultValue else vec2_div a (sqrt lenSquared))"

definition vec2_ReNormalized :: "real vec2 \<Rightarrow> real \<Rightarrow> real \<Rightarrow> real vec2 \<Rightarrow> real \<Rightarrow> real vec2" where
  "vec2_ReNormalized a minLength maxLength defaultValue eps = (let lenSquared = vec2_LengthSquared a in
     if lenSquared < eps * eps then defaultValue
     else (let len = sqrt lenSquared; newLen = Clamp len minLength maxLength in vec2_scale a (newLen / len)))"

definition vec2_VectorLerp :: "'f :: linordered_field vec2 \<Rightarrow> 'f vec2 \<Rightarrow> 'f vec2 \<Rightarrow> 'f vec2" where
  "vec2_VectorLerp lhs rhs t = vec2_add lhs (vec2_mul (vec2_sub rhs lhs) t)"

definition vec2_VectorMin :: "'f :: linorder vec2 \<Rightarrow> 'f vec2 \<Rightarrow> 'f vec2" where
  "vec2_VectorMin a b = Vec2 (Min (px a) (px b)) (Min (py a) (py b))"

definition vec2_VectorMax :: "'f :: linorder vec2 \<Rightarrow> 'f vec2 \<Rightarrow> 'f vec2" where
  "vec2_VectorMax a b = Vec2 (Max (px a) (px b)) (Max (py a) (py b))"

definition vec2_VectorFloor :: "real vec2 \<Rightarrow> real vec2" where
  "vec2_VectorFloor a = Vec2 (Floor (px a)) (Floor (py a))"

definition vec2_VectorRound :: "real vec2 \<Rightarrow> real vec2" where
  "vec2_VectorRound a = Vec2 (Round (px a)) (Round (py a))"

definition vec2_VectorCeil :: "real vec2 \<Rightarrow> real vec2" where
  "vec2_VectorCeil a = Vec2 (Ceil (px a)) (Ceil (py a))"

lemmas vec2_defs = vec2_add_def vec2_neg_def vec2_sub_def vec2_scale_def vec2_mul_def vec2_div_def vec2_divv_def
  vec2_div_assign_def vec2_LengthSquared_def vec2_DotProduct_def vec2_Abs_def vec2_VectorMin_def vec2_VectorMax_def

instantiation vec2 :: (ab_group_add) ab_group_add
begin

definition zero_vec2 :: "'a vec2" where "zero_vec2 = Vec2 0 0"
definition plus_vec2 :: "'a vec2 \<Rightarrow> 'a vec2 \<Rightarrow> 'a vec2" where "plus_vec2 = vec2_add"
definition uminus_vec2 :: "'a vec2 \<Rightarrow> 'a vec2" where "uminus_vec2 = vec2_neg"
definition minus_vec2 :: "'a vec2 \<Rightarrow> 'a vec2 \<Rightarrow> 'a vec2" where "minus_vec2 = vec2_sub"

instance
  by intro_classes (simp_all add: zero_vec2_def plus_vec2_def uminus_vec2_def minus_vec2_def vec2_defs
    algebra_simps vec2.expand)

end

lemma vec2_LengthSquared_scale: "vec2_LengthSquared (vec2_scale a k) = k * k * vec2_LengthSquared a"
  by (simp add: vec2_defs algebra_simps)

lemma vec2_LengthSquared_nonneg: "0 \<le> vec2_LengthSquared (a :: 'f :: linordered_field vec2)"
  by (simp add: vec2_defs)

text \<open>A renormalised vector keeps its direction and has a length within the bounds.\<close>

lemma vec2_renormalized_length:
  assumes "0 < eps" "0 \<le> lo" "lo \<le> hi" "eps * eps \<le> vec2_LengthSquared a"
  shows "vec2_Length (vec2_ReNormalized a lo hi d eps) = Clamp (vec2_Length a) lo hi"
proof -
  let ?l = "vec2_Length a"
  have l: "?l = sqrt (vec2_LengthSquared a)" by (simp add: vec2_Length_def vec2_LengthSquared_def)
  have "0 < vec2_LengthSquared a" using assms(1,4) by (smt (verit) mult_pos_pos)
  then have p: "0 < ?l" by (simp add: l)
  have c: "0 \<le> Clamp ?l lo hi" using Clamp_bounds [of lo hi ?l] assms by linarith
  have "vec2_Length (vec2_scale a k) = \<bar>k\<bar> * ?l" for k
    by (simp add: l vec2_Length_def vec2_LengthSquared_scale real_sqrt_mult flip: vec2_LengthSquared_def)
  then show ?thesis using p c assms(4) by (simp add: vec2_ReNormalized_def Let_def l)
qed

section \<open>More of three components\<close>

definition ProjectOntoAxis :: "real vec3 \<Rightarrow> real vec3 \<Rightarrow> real" where
  "ProjectOntoAxis a axis = DotProduct a (Normalized axis)"

definition ProjectOntoPlane :: "real vec3 \<Rightarrow> real vec3 \<Rightarrow> real vec3 \<Rightarrow> real vec3" where
  "ProjectOntoPlane p origin normal = (let delta = vec_sub p origin in
     vec_sub p (vec_scale (Normalized normal) (ProjectOntoAxis delta normal)))"

definition DistanceToPoint :: "real vec3 \<Rightarrow> real vec3 \<Rightarrow> real" where
  "DistanceToPoint a point = vec_Length (vec_sub a point)"

definition DistanceToPlane :: "real vec3 \<Rightarrow> real vec3 \<Rightarrow> real vec3 \<Rightarrow> real" where
  "DistanceToPlane a origin normal = ProjectOntoAxis (vec_sub a origin) normal"

definition Orthogonalize :: "real vec3 \<Rightarrow> real vec3 \<Rightarrow> real vec3" where
  "Orthogonalize a axis = Normalized (CrossProduct (CrossProduct axis a) axis)"

definition NormalizedOrDefault :: "real vec3 \<Rightarrow> real vec3 \<Rightarrow> real \<Rightarrow> real vec3" where
  "NormalizedOrDefault a defaultValue eps = (let lenSquared = LengthSquared a in
     if lenSquared < eps * eps then defaultValue else vec_div a (sqrt lenSquared))"

definition ReNormalized :: "real vec3 \<Rightarrow> real \<Rightarrow> real \<Rightarrow> real vec3 \<Rightarrow> real \<Rightarrow> real vec3" where
  "ReNormalized a minLength maxLength defaultValue eps = (let lenSquared = LengthSquared a in
     if lenSquared < eps * eps then defaultValue
     else (let len = sqrt lenSquared; newLen = Clamp len minLength maxLength in vec_scale a (newLen / len)))"

definition VectorFloor :: "real vec3 \<Rightarrow> real vec3" where
  "VectorFloor a = Vec3 (Floor (vx a)) (Floor (vy a)) (Floor (vz a))"

definition VectorRound :: "real vec3 \<Rightarrow> real vec3" where
  "VectorRound a = Vec3 (Round (vx a)) (Round (vy a)) (Round (vz a))"

definition VectorCeil :: "real vec3 \<Rightarrow> real vec3" where
  "VectorCeil a = Vec3 (Ceil (vx a)) (Ceil (vy a)) (Ceil (vz a))"

definition xy :: "'f vec3 \<Rightarrow> 'f vec2" where
  "xy a = Vec2 (vx a) (vy a)"

lemma Normalized_scale: "\<exists>k. Normalized a = vec_scale a k"
proof -
  have "a = vec_scale a 1" by (cases a) (simp add: vec_scale_def)
  then show ?thesis by (auto simp: Normalized_def Let_def)
qed

lemma Orthogonalize_orthogonal: "DotProduct (Orthogonalize a axis) axis = 0"
proof -
  obtain k where k: "Orthogonalize a axis = vec_scale (CrossProduct (CrossProduct axis a) axis) k"
    unfolding Orthogonalize_def using Normalized_scale by blast
  have "DotProduct (vec_scale u k) v = k * DotProduct u v" for u v :: "real vec3"
    by (simp add: vec_defs algebra_simps)
  then show ?thesis by (simp add: k cross_orthogonal)
qed

text \<open>The projection onto a plane lies in it, and the foot is at the distance of the point.\<close>

lemma project_onto_plane:
  assumes "LengthSquared n = 1"
  shows "DotProduct (vec_sub (ProjectOntoPlane p q n) q) n = 0"
    and "DistanceToPoint p (ProjectOntoPlane p q n) = \<bar>DistanceToPlane p q n\<bar>"
proof -
  have n: "Normalized n = n" using assms by (simp add: Normalized_def Equals_eps_def)
  let ?d = "DotProduct (vec_sub p q) n"
  have p: "ProjectOntoPlane p q n = vec_sub p (vec_scale n ?d)"
    by (simp add: ProjectOntoPlane_def ProjectOntoAxis_def Let_def n)
  have "DotProduct (vec_sub (vec_sub p (vec_scale n k)) q) n = DotProduct (vec_sub p q) n - k * LengthSquared n" for k
    by (simp add: vec_defs algebra_simps)
  then show "DotProduct (vec_sub (ProjectOntoPlane p q n) q) n = 0" by (simp add: p assms)
  have "LengthSquared (vec_sub p (vec_sub p (vec_scale n k))) = k * k * LengthSquared n" for k
    by (simp add: vec_defs algebra_simps)
  then show "DistanceToPoint p (ProjectOntoPlane p q n) = \<bar>DistanceToPlane p q n\<bar>"
    by (simp add: p DistanceToPoint_def vec_Length_def DistanceToPlane_def ProjectOntoAxis_def n assms real_sqrt_abs2)
qed

section \<open>Vectors of four components\<close>

datatype 'f vec4 = Vec4 (x4: 'f) (y4: 'f) (z4: 'f) (w4: 'f)

definition vec4_point :: "'f :: one vec3 \<Rightarrow> 'f vec4" where
  "vec4_point v = Vec4 (vx v) (vy v) (vz v) 1"

definition vec4_add :: "'f :: plus vec4 \<Rightarrow> 'f vec4 \<Rightarrow> 'f vec4" where
  "vec4_add a b = Vec4 (x4 a + x4 b) (y4 a + y4 b) (z4 a + z4 b) (w4 a + w4 b)"

definition vec4_neg :: "'f :: uminus vec4 \<Rightarrow> 'f vec4" where
  "vec4_neg a = Vec4 (- x4 a) (- y4 a) (- z4 a) (- w4 a)"

definition vec4_sub :: "'f :: minus vec4 \<Rightarrow> 'f vec4 \<Rightarrow> 'f vec4" where
  "vec4_sub a b = Vec4 (x4 a - x4 b) (y4 a - y4 b) (z4 a - z4 b) (w4 a - w4 b)"

definition vec4_scale :: "'f :: times vec4 \<Rightarrow> 'f \<Rightarrow> 'f vec4" where
  "vec4_scale a s = Vec4 (x4 a * s) (y4 a * s) (z4 a * s) (w4 a * s)"

definition vec4_mul :: "'f :: times vec4 \<Rightarrow> 'f vec4 \<Rightarrow> 'f vec4" where
  "vec4_mul a b = Vec4 (x4 a * x4 b) (y4 a * y4 b) (z4 a * z4 b) (w4 a * w4 b)"

definition vec4_div :: "'f :: field vec4 \<Rightarrow> 'f \<Rightarrow> 'f vec4" where
  "vec4_div a s = Vec4 (x4 a / s) (y4 a / s) (z4 a / s) (w4 a / s)"

definition vec4_div_assign :: "'f :: field vec4 \<Rightarrow> 'f \<Rightarrow> 'f vec4" where
  "vec4_div_assign a s = (let invRhs = 1 / s in Vec4 (x4 a * invRhs) (y4 a * invRhs) (z4 a * invRhs) (w4 a * invRhs))"

definition vec4_index :: "'f :: zero vec4 \<Rightarrow> int \<Rightarrow> 'f" where
  "vec4_index a i = (if i = 0 then x4 a else if i = 1 then y4 a else if i = 2 then z4 a else if i = 3 then w4 a else 0)"

definition ToVector3 :: "'f vec4 \<Rightarrow> 'f vec3" where
  "ToVector3 a = Vec3 (x4 a) (y4 a) (z4 a)"

definition vec4_DotProduct :: "'f :: comm_ring vec4 \<Rightarrow> 'f vec4 \<Rightarrow> 'f" where
  "vec4_DotProduct a b = x4 a * x4 b + y4 a * y4 b + z4 a * z4 b + w4 a * w4 b"

definition vec4_Lerp :: "'f :: linordered_field vec4 \<Rightarrow> 'f vec4 \<Rightarrow> 'f \<Rightarrow> 'f vec4" where
  "vec4_Lerp a b t = vec4_add (vec4_scale a (1 - t)) (vec4_scale b t)"

definition vec4_VectorMin :: "'f :: linorder vec4 \<Rightarrow> 'f vec4 \<Rightarrow> 'f vec4" where
  "vec4_VectorMin a b = Vec4 (Min (x4 a) (x4 b)) (Min (y4 a) (y4 b)) (Min (z4 a) (z4 b)) (Min (w4 a) (w4 b))"

definition vec4_VectorMax :: "'f :: linorder vec4 \<Rightarrow> 'f vec4 \<Rightarrow> 'f vec4" where
  "vec4_VectorMax a b = Vec4 (Max (x4 a) (x4 b)) (Max (y4 a) (y4 b)) (Max (z4 a) (z4 b)) (Max (w4 a) (w4 b))"

lemma ToVector3_point [simp]: "ToVector3 (vec4_point v) = v" "w4 (vec4_point v) = 1"
  by (simp_all add: ToVector3_def vec4_point_def)

section \<open>Rectangles\<close>

record 'f frect =
  fr_min :: "'f vec2"
  fr_max :: "'f vec2"

definition mk_frect :: "'f vec2 \<Rightarrow> 'f vec2 \<Rightarrow> 'f frect" where
  "mk_frect lo hi = \<lparr>fr_min = lo, fr_max = hi\<rparr>"

definition frect_Clear :: "'f :: linordered_field \<Rightarrow> 'f frect" where
  "frect_Clear huge = mk_frect (Vec2 huge huge) (Vec2 (- huge) (- huge))"

definition frect_Defined :: "'f :: linordered_field \<Rightarrow> 'f frect \<Rightarrow> bool" where
  "frect_Defined huge r \<longleftrightarrow> px (fr_min r) \<noteq> huge"

definition frect_scale :: "'f :: times frect \<Rightarrow> 'f \<Rightarrow> 'f frect" where
  "frect_scale r s = mk_frect (vec2_scale (fr_min r) s) (vec2_scale (fr_max r) s)"

definition frect_div :: "'f :: field frect \<Rightarrow> 'f \<Rightarrow> 'f frect" where
  "frect_div r s = mk_frect (vec2_div (fr_min r) s) (vec2_div (fr_max r) s)"

definition frect_add :: "'f :: plus frect \<Rightarrow> 'f frect \<Rightarrow> 'f frect" where
  "frect_add r s = mk_frect (vec2_add (fr_min r) (fr_min s)) (vec2_add (fr_max r) (fr_max s))"

definition frect_sub :: "'f :: minus frect \<Rightarrow> 'f frect \<Rightarrow> 'f frect" where
  "frect_sub r s = mk_frect (vec2_sub (fr_min r) (fr_min s)) (vec2_sub (fr_max r) (fr_max s))"

definition frect_Merge_point :: "'f :: linordered_field vec2 \<Rightarrow> 'f frect \<Rightarrow> 'f frect" where
  "frect_Merge_point p r = mk_frect
     (Vec2 (if px p < px (fr_min r) then px p else px (fr_min r)) (if py p < py (fr_min r) then py p else py (fr_min r)))
     (Vec2 (if px p > px (fr_max r) then px p else px (fr_max r)) (if py p > py (fr_max r) then py p else py (fr_max r)))"

definition frect_Merge :: "'f :: linordered_field frect \<Rightarrow> 'f frect \<Rightarrow> 'f frect" where
  "frect_Merge q r = mk_frect
     (Vec2 (if px (fr_min q) < px (fr_min r) then px (fr_min q) else px (fr_min r))
        (if py (fr_min q) < py (fr_min r) then py (fr_min q) else py (fr_min r)))
     (Vec2 (if px (fr_max q) > px (fr_max r) then px (fr_max q) else px (fr_max r))
        (if py (fr_max q) > py (fr_max r) then py (fr_max q) else py (fr_max r)))"

definition frect_Clip :: "'f :: linordered_field \<Rightarrow> 'f frect \<Rightarrow> 'f frect \<Rightarrow> 'f frect" where
  "frect_Clip huge q r =
    (let lo = Vec2 (if px (fr_min q) > px (fr_min r) then px (fr_min q) else px (fr_min r))
                (if py (fr_min q) > py (fr_min r) then py (fr_min q) else py (fr_min r));
         hi = Vec2 (if px (fr_max q) < px (fr_max r) then px (fr_max q) else px (fr_max r))
                (if py (fr_max q) < py (fr_max r) then py (fr_max q) else py (fr_max r))
     in if px lo > px hi \<or> py lo > py hi then frect_Clear huge else mk_frect lo hi)"

definition frect_Center :: "'f :: linordered_field frect \<Rightarrow> 'f vec2" where
  "frect_Center r = vec2_scale (vec2_add (fr_max r) (fr_min r)) (1 / 2)"

definition frect_Size :: "'f :: linordered_field frect \<Rightarrow> 'f vec2" where
  "frect_Size r = vec2_sub (fr_max r) (fr_min r)"

definition frect_HalfSize :: "'f :: linordered_field frect \<Rightarrow> 'f vec2" where
  "frect_HalfSize r = vec2_scale (vec2_sub (fr_max r) (fr_min r)) (1 / 2)"

definition frect_IsInside_point :: "'f :: linordered_field frect \<Rightarrow> 'f vec2 \<Rightarrow> intersection" where
  "frect_IsInside_point r p =
    (if px p < px (fr_min r) \<or> py p < py (fr_min r) \<or> px p > px (fr_max r) \<or> py p > py (fr_max r) then OUTSIDE else INSIDE)"

definition frect_IsInside :: "'f :: linordered_field frect \<Rightarrow> 'f frect \<Rightarrow> intersection" where
  "frect_IsInside r q =
    (if px (fr_max q) < px (fr_min r) \<or> px (fr_min q) > px (fr_max r) \<or> py (fr_max q) < py (fr_min r) \<or> py (fr_min q) > py (fr_max r)
     then OUTSIDE
     else if px (fr_min q) < px (fr_min r) \<or> px (fr_max q) > px (fr_max r) \<or> py (fr_min q) < py (fr_min r) \<or> py (fr_max q) > py (fr_max r)
     then INTERSECTS else INSIDE)"

text \<open>The points of a rectangle, borders included.\<close>

definition in_rect :: "'f :: linordered_field vec2 \<Rightarrow> 'f frect \<Rightarrow> bool" where
  "in_rect p r \<longleftrightarrow> px (fr_min r) \<le> px p \<and> px p \<le> px (fr_max r) \<and> py (fr_min r) \<le> py p \<and> py p \<le> py (fr_max r)"

lemma frect_sel [simp]: "fr_min (mk_frect a b) = a" "fr_max (mk_frect a b) = b"
  by (simp_all add: mk_frect_def)

lemma frect_IsInside_point_spec: "frect_IsInside_point r p = INSIDE \<longleftrightarrow> in_rect p r"
  by (auto simp: frect_IsInside_point_def in_rect_def not_less)

lemma frect_clip_spec:
  assumes "0 < huge"
  shows "in_rect p (frect_Clip huge q r) \<longleftrightarrow> in_rect p q \<and> in_rect p r"
  using assms by (auto simp: frect_Clip_def Let_def in_rect_def frect_Clear_def)

lemma frect_merge_contains: "in_rect p q \<or> in_rect p r \<Longrightarrow> in_rect p (frect_Merge q r)"
  by (auto simp: in_rect_def frect_Merge_def)

lemma frect_inside_spec:
  assumes "in_rect c q"
  shows "frect_IsInside r q = INSIDE \<longleftrightarrow> (\<forall>p. in_rect p q \<longrightarrow> in_rect p r)"
proof
  show "frect_IsInside r q = INSIDE \<Longrightarrow> \<forall>p. in_rect p q \<longrightarrow> in_rect p r"
    by (auto simp: frect_IsInside_def in_rect_def split: if_splits)
  assume all: "\<forall>p. in_rect p q \<longrightarrow> in_rect p r"
  have "in_rect (fr_min q) q" "in_rect (fr_max q) q" using assms by (auto simp: in_rect_def)
  then have "in_rect (fr_min q) r" "in_rect (fr_max q) r" using all by blast+
  then show "frect_IsInside r q = INSIDE" by (auto simp: frect_IsInside_def in_rect_def)
qed

lemma frect_outside_spec: "frect_IsInside r q = OUTSIDE \<Longrightarrow> \<not> (in_rect p q \<and> in_rect p r)"
  by (auto simp: frect_IsInside_def in_rect_def split: if_splits)

end
