(* ===== verification/Colours.thy ===== *)
theory Colours
  imports PlanarVectors
begin

text \<open>
  Colours (\<open>Maths/Colour.*\<close>): the packed 32-bit forms, and the conversions to and from hue, saturation and
  lightness or value. Channels are real numbers in place of floats; the conversion of a float to an integer
  truncates, and is only defined while the value fits the integer, which \<open>int_of_float\<close> makes a fault.
\<close>

unbundle bit_operations_syntax

record colour =
  c_r :: real
  c_g :: real
  c_b :: real
  c_a :: real

definition mk_colour :: "real \<Rightarrow> real \<Rightarrow> real \<Rightarrow> real \<Rightarrow> colour" where
  "mk_colour r g b a = \<lparr>c_r = r, c_g = g, c_b = b, c_a = a\<rparr>"

definition colour_rgb :: "real \<Rightarrow> real \<Rightarrow> real \<Rightarrow> colour" where
  "colour_rgb r g b = mk_colour r g b 1"

record channel_mask =
  red_mask :: u32
  green_mask :: u32
  blue_mask :: u32
  alpha_mask :: u32

definition ABGR :: channel_mask where
  "ABGR = \<lparr>red_mask = 0x000000ff, green_mask = 0x0000ff00, blue_mask = 0x00ff0000, alpha_mask = 0xff000000\<rparr>"

definition ARGB :: channel_mask where
  "ARGB = \<lparr>red_mask = 0x00ff0000, green_mask = 0x0000ff00, blue_mask = 0x000000ff, alpha_mask = 0xff000000\<rparr>"

section \<open>Packed forms\<close>

definition trunc :: "real \<Rightarrow> int" where
  "trunc x = (if x < 0 then \<lceil>x\<rceil> else \<lfloor>x\<rfloor>)"

definition int_of_float :: "real \<Rightarrow> int res" where
  "int_of_float x = (let i = trunc x in if - (2 ^ 31) \<le> i \<and> i < 2 ^ 31 then ok i else fail OutOfRange)"

definition channel_byte :: "real \<Rightarrow> u32 res" where
  "channel_byte c = rbind (int_of_float (c * 255)) (\<lambda>i. ok (word_of_int (Clamp i 0 255)))"

definition ToUInt :: "colour \<Rightarrow> u32 res" where
  "ToUInt c =
    rbind (channel_byte (c_r c)) (\<lambda>r. rbind (channel_byte (c_g c)) (\<lambda>g.
    rbind (channel_byte (c_b c)) (\<lambda>b. rbind (channel_byte (c_a c)) (\<lambda>a.
      ok (push_bit 24 a OR push_bit 16 b OR push_bit 8 g OR r)))))"

definition FromUInt :: "u32 \<Rightarrow> colour" where
  "FromUInt w = mk_colour (of_nat (unat (drop_bit 0 w AND 0xff)) / 255) (of_nat (unat (drop_bit 8 w AND 0xff)) / 255)
     (of_nat (unat (drop_bit 16 w AND 0xff)) / 255) (of_nat (unat (drop_bit 24 w AND 0xff)) / 255)"

definition channel_mask_bits :: "real \<Rightarrow> u32 \<Rightarrow> u32" where
  "channel_mask_bits c m = word_of_int \<lfloor>Clamp (c * of_nat (unat m)) 0 4294967295\<rfloor> AND m"

definition ToUIntMask :: "channel_mask \<Rightarrow> colour \<Rightarrow> u32" where
  "ToUIntMask m c =
    (let r = channel_mask_bits (c_r c) (red_mask m);
         g = channel_mask_bits (c_g c) (green_mask m);
         b = channel_mask_bits (c_b c) (blue_mask m);
         a = channel_mask_bits (c_a c) (alpha_mask m)
     in r OR g OR b OR a)"

definition FromUIntMask :: "channel_mask \<Rightarrow> u32 \<Rightarrow> colour" where
  "FromUIntMask m w =
    mk_colour
      (if red_mask m = 0 then 0 else of_nat (unat (w AND red_mask m)) / of_nat (unat (red_mask m)))
      (if green_mask m = 0 then 0 else of_nat (unat (w AND green_mask m)) / of_nat (unat (green_mask m)))
      (if blue_mask m = 0 then 0 else of_nat (unat (w AND blue_mask m)) / of_nat (unat (blue_mask m)))
      (if alpha_mask m = 0 then 1 else of_nat (unat (w AND alpha_mask m)) / of_nat (unat (alpha_mask m)))"

definition Hex :: "u32 \<Rightarrow> colour" where
  "Hex hexValue =
    (let red = drop_bit 16 hexValue AND 255; green = drop_bit 8 hexValue AND 255; blue = hexValue AND 255
     in colour_rgb (of_nat (unat red)) (of_nat (unat green)) (of_nat (unat blue)))"

text \<open>Unpacking and packing again gives the same word.\<close>

lemma channel_byte_of_byte: "n < 256 \<Longrightarrow> channel_byte (of_nat n / 255) = ok (of_nat n)"
proof -
  assume "n < 256"
  have "trunc (of_nat n / 255 * 255) = int n" by (simp add: trunc_def)
  then show ?thesis using \<open>n < 256\<close>
    by (simp add: channel_byte_def int_of_float_def Let_def Clamp_def)
qed

lemma byte_bound: "unat (w AND 0xff :: u32) < 256"
proof -
  have "w AND 0xff = take_bit 8 w" by (simp add: take_bit_eq_mask mask_eq_exp_minus_1)
  then have "unat (w AND 0xff) = take_bit 8 (unat w)" by (simp add: unsigned_take_bit_eq)
  then show ?thesis using take_bit_nat_less_exp [of 8 "unat w"] by simp
qed

lemma byte_mask: "(0xff :: u32) = mask 8"
  by (simp add: mask_eq_exp_minus_1)

lemma bytes_of_word:
  "push_bit 24 (drop_bit 24 w AND 0xff) OR push_bit 16 (drop_bit 16 w AND 0xff) OR push_bit 8 (drop_bit 8 w AND 0xff)
     OR (drop_bit 0 w AND 0xff) = (w :: u32)"
proof (rule bit_word_eqI)
  fix n assume "n < LENGTH(32)"
  then consider "n < 8" | "8 \<le> n" "n < 16" | "16 \<le> n" "n < 24" | "24 \<le> n" "n < 32" by fastforce
  then show "bit (push_bit 24 (drop_bit 24 w AND 0xff) OR push_bit 16 (drop_bit 16 w AND 0xff) OR push_bit 8 (drop_bit 8 w AND 0xff)
     OR (drop_bit 0 w AND 0xff)) n = bit w n"
    unfolding byte_mask by cases (auto simp: bit_simps)
qed

lemma from_to_uint: "ToUInt (FromUInt w) = ok w"
proof -
  have "channel_byte (of_nat (unat (v AND 0xff)) / 255) = ok (v AND 0xff)" for v :: u32
    using channel_byte_of_byte [OF byte_bound] by simp
  then show ?thesis by (simp add: ToUInt_def FromUInt_def mk_colour_def bytes_of_word [simplified])
qed

lemma from_uint_bounds:
  "0 \<le> c_r (FromUInt w) \<and> c_r (FromUInt w) \<le> 1" "0 \<le> c_a (FromUInt w) \<and> c_a (FromUInt w) \<le> 1"
proof -
  have "0 \<le> of_nat (unat (v AND 0xff :: u32)) / (255 :: real) \<and> of_nat (unat (v AND 0xff :: u32)) / (255 :: real) \<le> 1" for v
    using byte_bound [of v] by (simp del: of_nat_unat)
  then show "0 \<le> c_r (FromUInt w) \<and> c_r (FromUInt w) \<le> 1" "0 \<le> c_a (FromUInt w) \<and> c_a (FromUInt w) \<le> 1"
    by (simp_all only: FromUInt_def mk_colour_def colour.simps)
qed

text \<open>With a mask the round trip keeps the bits under the mask.\<close>

lemma channel_mask_bits_of:
  "m \<noteq> 0 \<Longrightarrow> channel_mask_bits (of_nat (unat (w AND m)) / of_nat (unat m)) m = w AND m"
proof -
  assume "m \<noteq> 0"
  then have "of_nat (unat (w AND m)) / of_nat (unat m) * of_nat (unat m) = (of_nat (unat (w AND m)) :: real)"
    by (simp add: unat_0_iff del: of_nat_unat)
  moreover have "(of_nat (unat (w AND m)) :: real) \<le> 4294967295"
  proof -
    have "unat (w AND m) < 2 ^ LENGTH(32)" by (rule unsigned_less)
    then have "unat (w AND m) \<le> 4294967295" by simp
    then show ?thesis by (simp del: of_nat_unat)
  qed
  ultimately have "channel_mask_bits (of_nat (unat (w AND m)) / of_nat (unat m)) m = word_of_int \<lfloor>of_nat (unat (w AND m)) :: real\<rfloor> AND m"
    unfolding channel_mask_bits_def Clamp_def by (simp del: of_nat_unat)
  also have "\<dots> = word_of_int (int (unat (w AND m))) AND m" by (simp only: floor_of_nat)
  also have "\<dots> = (w AND m) AND m"
  proof -
    have "word_of_int (int (unat x)) = x" for x :: u32 by simp
    then show ?thesis by (simp only:)
  qed
  also have "\<dots> = w AND m" by (simp add: and.assoc)
  finally show ?thesis .
qed

text \<open>\<open>Hex\<close> leaves its channels in the range from 0 to 255.\<close>

lemma hex_not_normalised: "c_r (Hex 0xFF8000) = 255" "ToUInt (Hex 0xFF8000) = ok 0xFF00FFFF"
  by (simp_all add: Hex_def Let_def colour_rgb_def mk_colour_def ToUInt_def channel_byte_def int_of_float_def trunc_def Clamp_def)

section \<open>Hue, saturation and lightness\<close>

definition clip01 :: "real \<Rightarrow> real" where
  "clip01 x = (if x > 1 then 1 else if x < 0 then 0 else x)"

definition Bounds :: "colour \<Rightarrow> bool \<Rightarrow> real \<times> real" where
  "Bounds c clipped =
    (let (lo, hi) =
       (if c_r c > c_g c
        then (if c_g c > c_b c then (c_b c, c_r c) else (c_g c, if c_r c > c_b c then c_r c else c_b c))
        else (if c_b c > c_g c then (c_r c, c_b c) else (if c_r c < c_b c then c_r c else c_b c, c_g c)))
     in if clipped then (clip01 lo, clip01 hi) else (lo, hi))"

definition MaxRGB :: "colour \<Rightarrow> real" where
  "MaxRGB c = (if c_r c > c_g c then (if c_r c > c_b c then c_r c else c_b c) else if c_g c > c_b c then c_g c else c_b c)"

definition MinRGB :: "colour \<Rightarrow> real" where
  "MinRGB c = (if c_r c < c_g c then (if c_r c < c_b c then c_r c else c_b c) else if c_g c < c_b c then c_g c else c_b c)"

definition Range :: "colour \<Rightarrow> real" where
  "Range c = (let (lo, hi) = Bounds c False in hi - lo)"

definition colour_eps :: real where
  "colour_eps = 1 / 1000000"

definition Hue_of :: "colour \<Rightarrow> real \<Rightarrow> real \<Rightarrow> real" where
  "Hue_of c lo hi =
    (let chroma = hi - lo in
     if chroma \<le> colour_eps then 0
     else if Equals_eps (c_g c) hi colour_eps then (c_b c + 2 * chroma - c_r c) / (6 * chroma)
     else if Equals_eps (c_b c) hi colour_eps then (4 * chroma - c_g c + c_r c) / (6 * chroma)
     else (let r = (c_g c - c_b c) / (6 * chroma) in if r < 0 then 1 + r else if r \<ge> 1 then r - 1 else r))"

definition SaturationHSV_of :: "real \<Rightarrow> real \<Rightarrow> real" where
  "SaturationHSV_of lo hi = (if hi \<le> colour_eps then 0 else 1 - lo / hi)"

definition SaturationHSL_of :: "real \<Rightarrow> real \<Rightarrow> real" where
  "SaturationHSL_of lo hi =
    (if hi \<le> colour_eps \<or> lo \<ge> 1 - colour_eps then 0
     else (let hl = hi + lo in if hl \<le> 1 then (hi - lo) / hl else (lo - hi) / (hl - 2)))"

definition ToHSL :: "colour \<Rightarrow> real vec3" where
  "ToHSL c = (let (lo, hi) = Bounds c True; h = Hue_of c lo hi; s = SaturationHSL_of lo hi; l = (hi + lo) * (1 / 2) in Vec3 h s l)"

definition ToHSV :: "colour \<Rightarrow> real vec3" where
  "ToHSV c = (let (lo, hi) = Bounds c True; h = Hue_of c lo hi; s = SaturationHSV_of lo hi; v = hi in Vec3 h s v)"

definition Chroma :: "colour \<Rightarrow> real" where
  "Chroma c = (let (lo, hi) = Bounds c True in hi - lo)"

definition Lightness :: "colour \<Rightarrow> real" where
  "Lightness c = (let (lo, hi) = Bounds c True in (hi + lo) * (1 / 2))"

definition FromHCM :: "real \<Rightarrow> real \<Rightarrow> real \<Rightarrow> real \<Rightarrow> colour" where
  "FromHCM h c m a =
    (let h = (if h < 0 \<or> h \<ge> 1 then h - Floor h else h);
         hs = h * 6;
         x = c * (1 - Abs (fmod hs 2 - 1));
         (r, g, b) =
           (if hs < 2 then (if hs < 1 then (c, x, 0) else (x, c, 0))
            else if hs < 4 then (if hs < 3 then (0, c, x) else (0, x, c))
            else (if hs < 5 then (x, 0, c) else (c, 0, x)))
     in mk_colour (r + m) (g + m) (b + m) a)"

definition FromHSL :: "real \<Rightarrow> real \<Rightarrow> real \<Rightarrow> real \<Rightarrow> colour" where
  "FromHSL h s l a =
    (let c = (if l < 1 / 2 then (1 + (2 * l - 1)) * s else (1 - (2 * l - 1)) * s); m = l - 1 / 2 * c in FromHCM h c m a)"

definition FromHSV :: "real \<Rightarrow> real \<Rightarrow> real \<Rightarrow> real \<Rightarrow> colour" where
  "FromHSV h s v a = (let c = v * s; m = v - c in FromHCM h c m a)"

definition colour_Clip :: "colour \<Rightarrow> bool \<Rightarrow> colour" where
  "colour_Clip c clipAlpha = mk_colour (clip01 (c_r c)) (clip01 (c_g c)) (clip01 (c_b c)) (if clipAlpha then clip01 (c_a c) else c_a c)"

definition Invert :: "colour \<Rightarrow> bool \<Rightarrow> colour" where
  "Invert c invertAlpha = mk_colour (1 - c_r c) (1 - c_g c) (1 - c_b c) (if invertAlpha then 1 - c_a c else c_a c)"

definition colour_Lerp :: "colour \<Rightarrow> colour \<Rightarrow> real \<Rightarrow> colour" where
  "colour_Lerp c rhs t = (let invT = 1 - t in mk_colour (c_r c * invT + c_r rhs * t) (c_g c * invT + c_g rhs * t)
     (c_b c * invT + c_b rhs * t) (c_a c * invT + c_a rhs * t))"

definition SumRGB :: "colour \<Rightarrow> real" where
  "SumRGB c = c_r c + c_g c + c_b c"

definition Luma :: "colour \<Rightarrow> real" where
  "Luma c = c_r c * (299 / 1000) + c_g c * (587 / 1000) + c_b c * (114 / 1000)"

text \<open>The bounds are the least and the greatest channel.\<close>

lemma Bounds_spec: "Bounds c False = (min (c_r c) (min (c_g c) (c_b c)), max (c_r c) (max (c_g c) (c_b c)))"
  by (auto simp: Bounds_def)

lemma MaxRGB_spec: "MaxRGB c = snd (Bounds c False)" and MinRGB_spec: "MinRGB c = fst (Bounds c False)"
  by (auto simp: Bounds_spec MaxRGB_def MinRGB_def)

text \<open>The sector of a hue decides which channels are set.\<close>

lemma fmod_two: "0 \<le> x \<Longrightarrow> x < 2 \<Longrightarrow> fmod x 2 = x" "2 \<le> x \<Longrightarrow> x < 4 \<Longrightarrow> fmod x 2 = x - 2"
  "4 \<le> x \<Longrightarrow> x < 6 \<Longrightarrow> fmod x 2 = x - 4"
proof -
  show "0 \<le> x \<Longrightarrow> x < 2 \<Longrightarrow> fmod x 2 = x"
    by (simp add: fmod_def not_less floor_eq_iff)
  have "\<lfloor>x / 2\<rfloor> = 1" if "2 \<le> x" "x < 4" using that by (simp add: floor_eq_iff)
  then show "2 \<le> x \<Longrightarrow> x < 4 \<Longrightarrow> fmod x 2 = x - 2" by (simp add: fmod_def)
  have "\<lfloor>x / 2\<rfloor> = 2" if "4 \<le> x" "x < 6" using that by (simp add: floor_eq_iff)
  then show "4 \<le> x \<Longrightarrow> x < 6 \<Longrightarrow> fmod x 2 = x - 4" by (simp add: fmod_def)
qed

lemma FromHCM_sector:
  assumes "h = hs / 6"
  shows "0 \<le> hs \<Longrightarrow> hs < 1 \<Longrightarrow> FromHCM h c m a = mk_colour (c + m) (c * hs + m) m a"
    and "1 \<le> hs \<Longrightarrow> hs < 2 \<Longrightarrow> FromHCM h c m a = mk_colour (c * (2 - hs) + m) (c + m) m a"
    and "2 \<le> hs \<Longrightarrow> hs < 3 \<Longrightarrow> FromHCM h c m a = mk_colour m (c + m) (c * (hs - 2) + m) a"
    and "3 \<le> hs \<Longrightarrow> hs < 4 \<Longrightarrow> FromHCM h c m a = mk_colour m (c * (4 - hs) + m) (c + m) a"
    and "4 \<le> hs \<Longrightarrow> hs < 5 \<Longrightarrow> FromHCM h c m a = mk_colour (c * (hs - 4) + m) m (c + m) a"
    and "5 \<le> hs \<Longrightarrow> hs < 6 \<Longrightarrow> FromHCM h c m a = mk_colour (c + m) m (c * (6 - hs) + m) a"
  using assms by (simp_all add: FromHCM_def Let_def fmod_two abs_if)

text \<open>Channels that differ at all differ by more than the tolerance of the comparisons.\<close>

definition distinct_channels :: "colour \<Rightarrow> bool" where
  "distinct_channels c \<longleftrightarrow>
     (let far = (\<lambda>x y. x = y \<or> colour_eps < \<bar>x - y\<bar>) in
      far (c_r c) (c_g c) \<and> far (c_g c) (c_b c) \<and> far (c_r c) (c_b c)
      \<and> list_all (\<lambda>x. 0 \<le> x \<and> x \<le> 1 \<and> far x 0 \<and> far x 1) [c_r c, c_g c, c_b c])"

lemma far_Equals: "x = y \<or> colour_eps < \<bar>x - y\<bar> \<Longrightarrow> Equals_eps x y colour_eps \<longleftrightarrow> x = y"
  by (auto simp: Equals_eps_def colour_eps_def abs_if split: if_splits)

lemma Bounds_clipped:
  "distinct_channels c \<Longrightarrow> Bounds c True = Bounds c False"
  by (auto simp: Bounds_def distinct_channels_def clip01_def Let_def)

lemma FromHCM_hue:
  assumes d: "distinct_channels c" and b: "Bounds c False = (lo, hi)"
  shows "FromHCM (Hue_of c lo hi) (hi - lo) lo a = mk_colour (c_r c) (c_g c) (c_b c) a"
proof -
  obtain r g bl where c: "c_r c = r" "c_g c = g" "c_b c = bl" by blast
  have lo: "lo = min r (min g bl)" and hi: "hi = max r (max g bl)" using b by (simp_all add: Bounds_spec c)
  have f: "r = g \<or> colour_eps < \<bar>r - g\<bar>" "g = bl \<or> colour_eps < \<bar>g - bl\<bar>" "r = bl \<or> colour_eps < \<bar>r - bl\<bar>"
    using d by (simp_all add: distinct_channels_def c Let_def)
  let ?ch = "hi - lo" let ?h = "Hue_of c lo hi"
  show ?thesis
  proof (cases "?ch \<le> colour_eps")
    case True
    then have "r = g" "g = bl" using f by (auto simp: lo hi abs_if min_def max_def split: if_splits)
    then show ?thesis using FromHCM_sector(1) [of 0 0] by (simp add: Hue_of_def lo hi colour_eps_def c)
  next
    case False
    then have p: "0 < ?ch" by (simp add: colour_eps_def)
    have self: "Equals_eps hi hi colour_eps" by (simp add: Equals_eps_def colour_eps_def)
    have eq: "Equals_eps g hi colour_eps \<longleftrightarrow> g = hi" "Equals_eps bl hi colour_eps \<longleftrightarrow> bl = hi"
      by (intro far_Equals; use f in \<open>auto simp: hi max_def\<close>)+
    consider (g) "g = hi" | (b) "bl = hi" "g < hi" | (r) "r = hi" "g < hi" "bl < hi"
    proof -
      have "hi = r \<or> hi = g \<or> hi = bl" "r \<le> hi" "g \<le> hi" "bl \<le> hi" by (auto simp: hi max_def)
      then show ?thesis using that by linarith
    qed
    then show ?thesis
    proof cases
      case g
      let ?hs = "2 + (bl - r) / ?ch"
      have "?h = (bl + 2 * ?ch - r) / (6 * ?ch)" using False by (simp add: Hue_of_def Let_def c g self)
      also have "\<dots> = ?hs / 6" using p by (simp add: field_simps)
      finally have h: "?h = ?hs / 6" .
      show ?thesis
      proof (cases "bl < r")
        case True
        then have l: "lo = bl" using g by (simp add: lo hi)
        then have "1 \<le> ?hs" "?hs < 2" using True g p by (simp_all add: field_simps hi)
        moreover have "?ch * (2 - ?hs) = r - bl" using p by (simp add: field_simps)
        ultimately show ?thesis using p FromHCM_sector(2) [OF h] by (simp add: c g l)
      next
        case False
        then have l: "lo = r" using g by (simp add: lo hi)
        show ?thesis
        proof (cases "bl = g")
          case True
          then have "?hs = 3" using g l p by simp
          then show ?thesis using p FromHCM_sector(4) [OF h] by (simp add: c g l True)
        next
          case ne: False
          have "bl \<le> hi" by (simp add: hi)
          then have "2 \<le> ?hs" "?hs < 3" using ne False g p l by (simp_all add: field_simps)
          moreover have "?ch * (?hs - 2) = bl - r" using p by (simp add: field_simps)
          ultimately show ?thesis using p FromHCM_sector(3) [OF h] by (simp add: c g l)
        qed
      qed
    next
      case b
      let ?hs = "4 + (r - g) / ?ch"
      have "?h = (4 * ?ch - g + r) / (6 * ?ch)" using False b eq by (simp add: Hue_of_def Let_def c self)
      also have "\<dots> = ?hs / 6" using p by (simp add: field_simps)
      finally have h: "?h = ?hs / 6" .
      show ?thesis
      proof (cases "r < g")
        case True
        then have l: "lo = r" using b by (simp add: lo hi)
        then have "3 \<le> ?hs" "?hs < 4" using True b p by (simp_all add: field_simps)
        moreover have "?ch * (4 - ?hs) = g - r" using p by (simp add: field_simps)
        ultimately show ?thesis using p FromHCM_sector(4) [OF h] by (simp add: c b l)
      next
        case False
        then have l: "lo = g" using b by (simp add: lo hi)
        show ?thesis
        proof (cases "r = bl")
          case True
          then have "?hs = 5" using b l p by simp
          then show ?thesis using p FromHCM_sector(6) [OF h] by (simp add: c b l True)
        next
          case ne: False
          have "r \<le> hi" by (simp add: hi)
          then have "4 \<le> ?hs" "?hs < 5" using ne False b p l by (simp_all add: field_simps)
          moreover have "?ch * (?hs - 4) = r - g" using p by (simp add: field_simps)
          ultimately show ?thesis using p FromHCM_sector(5) [OF h] by (simp add: c b l)
        qed
      qed
    next
      case r
      show ?thesis
      proof (cases "g < bl")
        case True
        let ?hs = "6 + (g - bl) / ?ch"
        have l: "lo = g" using r True by (simp add: lo hi)
        have n: "(g - bl) / (6 * ?ch) < 0" using True p by (simp add: divide_neg_pos)
        have "?h = 1 + (g - bl) / (6 * ?ch)" using False r n eq by (simp add: Hue_of_def c Let_def)
        also have "\<dots> = ?hs / 6" using p by (simp add: field_simps)
        finally have h: "?h = ?hs / 6" .
        have "5 \<le> ?hs" "?hs < 6" using True r p by (simp_all add: field_simps l)
        moreover have "?ch * (6 - ?hs) = bl - g" using p by (simp add: field_simps)
        ultimately show ?thesis using p FromHCM_sector(6) [OF h] by (simp add: c r(1) l)
      next
        case ge: False
        let ?hs = "(g - bl) / ?ch"
        have l: "lo = bl" using r ge by (simp add: lo hi)
        have hs: "0 \<le> ?hs" "?hs < 1" using ge r p by (simp_all add: field_simps l)
        have e: "(g - bl) / (6 * ?ch) = ?hs / 6" using p by (simp add: field_simps)
        have n: "\<not> (g - bl) / (6 * ?ch) < 0" "\<not> 1 \<le> (g - bl) / (6 * ?ch)" 
        proof -
          define q where "q = ?hs"
          have q: "0 \<le> q" "q < 1" "(g - bl) / (6 * ?ch) = q / 6" using hs e by (simp_all only: q_def)
          show "\<not> (g - bl) / (6 * ?ch) < 0" "\<not> 1 \<le> (g - bl) / (6 * ?ch)" unfolding q(3) using q(1,2) by simp_all
        qed
        have "?h = (g - bl) / (6 * ?ch)" using False n r eq by (simp add: Hue_of_def c Let_def)
        then have h: "?h = ?hs / 6" using e by simp
        moreover have "?ch * ?hs = g - bl" using p by simp
        ultimately show ?thesis using p FromHCM_sector(1) [OF h hs] by (simp add: c r(1) l)
      qed
    qed
  qed
qed

lemma clip01_id: "0 \<le> x \<Longrightarrow> x \<le> 1 \<Longrightarrow> clip01 x = x"
  by (simp add: clip01_def)

lemma from_to_HSV:
  assumes "distinct_channels c" "ToHSV c = Vec3 h s v"
  shows "FromHSV h s v (c_a c) = c"
proof -
  obtain lo hi where b: "Bounds c False = (lo, hi)" by (cases "Bounds c False")
  have v: "v = hi" "s = SaturationHSV_of lo hi" "h = Hue_of c lo hi"
    using assms(2) b Bounds_clipped [OF assms(1)] by (auto simp add: ToHSV_def Let_def)
  have "hi * s = hi - lo"
  proof (cases "hi \<le> colour_eps")
    case True
    have "hi = 0 \<and> lo = 0"
      using assms(1) True b by (auto simp: distinct_channels_def Let_def Bounds_spec min_def max_def split: if_splits)
    then show ?thesis by simp
  next
    case False
    then have "hi \<noteq> 0" by (auto simp: colour_eps_def)
    with False show ?thesis by (simp add: v SaturationHSV_of_def right_diff_distrib)
  qed
  then have "FromHSV h s v (c_a c) = FromHCM h (hi - lo) lo (c_a c)" by (simp add: FromHSV_def Let_def v)
  also have "\<dots> = c" using FromHCM_hue [OF assms(1) b] by (simp add: v mk_colour_def)
  finally show ?thesis .
qed

lemma from_to_HSL:
  assumes "distinct_channels c" "ToHSL c = Vec3 h s l"
  shows "FromHSL h s l (c_a c) = c"
proof -
  obtain lo hi where b: "Bounds c False = (lo, hi)" by (cases "Bounds c False")
  have v: "l = (hi + lo) / 2" "s = SaturationHSL_of lo hi" "h = Hue_of c lo hi"
    using assms(2) b Bounds_clipped [OF assms(1)] by (auto simp add: ToHSL_def Let_def)
  have k: "(if l < 1 / 2 then (1 + (2 * l - 1)) * s else (1 - (2 * l - 1)) * s) = hi - lo"
  proof -
    consider "hi = 0" "lo = 0" | "hi = 1" "lo = 1" | "hi > colour_eps" "lo < 1 - colour_eps" "0 \<le> lo" "hi \<le> 1"
      using assms(1) b by (auto simp: distinct_channels_def Let_def Bounds_spec min_def max_def abs_if split: if_splits)
    then show ?thesis
    proof cases
      case 3
      have e: "0 < hi + lo" "0 < 2 - (hi + lo)" using 3 by (auto simp: colour_eps_def)
      have "\<not> (hi \<le> colour_eps \<or> lo \<ge> 1 - colour_eps)" using 3 by auto
      then have "s = (if hi + lo \<le> 1 then (hi - lo) / (hi + lo) else (hi - lo) / (2 - (hi + lo)))"
        using e by (simp add: v SaturationHSL_of_def Let_def) (simp add: divide_simps algebra_simps)
      then have "s * (if hi + lo \<le> 1 then hi + lo else 2 - (hi + lo)) = hi - lo" using e by simp
      moreover have "(if l < 1 / 2 then 1 + (2 * l - 1) else 1 - (2 * l - 1)) = (if hi + lo \<le> 1 then hi + lo else 2 - (hi + lo))"
        by (auto simp: v field_simps)
      ultimately show ?thesis by (metis mult.commute)
    qed (simp_all add: v SaturationHSL_of_def colour_eps_def)
  qed
  have "FromHSL h s l (c_a c) = FromHCM h (hi - lo) lo (c_a c)" unfolding FromHSL_def Let_def k
  proof -
    have "l - 1 / 2 * (hi - lo) = lo" by (simp add: v field_simps)
    then show "FromHCM h (hi - lo) (l - 1 / 2 * (hi - lo)) (c_a c) = FromHCM h (hi - lo) lo (c_a c)" by (simp only:)
  qed
  also have "\<dots> = c" using FromHCM_hue [OF assms(1) b] by (simp add: v mk_colour_def)
  finally show ?thesis .
qed

lemma bytes_distinct: "distinct_channels (FromUInt w)"
proof -
  have far: "of_nat a / 255 = (of_nat b / 255 :: real) \<or> colour_eps < \<bar>of_nat a / 255 - of_nat b / 255\<bar>" for a b :: nat
  proof (cases "a = b")
    case False
    then have "1 \<le> \<bar>of_nat a - of_nat b :: real\<bar>" by linarith
    moreover have "\<bar>of_nat a / 255 - of_nat b / 255 :: real\<bar> = \<bar>of_nat a - of_nat b\<bar> / 255"
      by (simp flip: diff_divide_distrib)
    ultimately have "colour_eps < \<bar>of_nat a / 255 - of_nat b / 255\<bar>" by (simp add: colour_eps_def del: of_nat_diff)
    then show ?thesis by blast
  qed simp
  have ch: "0 \<le> of_nat n / (255 :: real) \<and> of_nat n / (255 :: real) \<le> 1 \<and> (of_nat n / (255 :: real) = 0 \<or> colour_eps < \<bar>of_nat n / 255 - 0\<bar>)
      \<and> (of_nat n / (255 :: real) = 1 \<or> colour_eps < \<bar>of_nat n / 255 - 1\<bar>)" if "n < 256" for n :: nat
    using far [of n 0] far [of n 255] that by simp
  note P = ch [OF byte_bound]
  show ?thesis
    unfolding distinct_channels_def FromUInt_def mk_colour_def Let_def colour.simps list.pred_inject(2)
    by (intro conjI far TrueI list.pred_inject(1) P [THEN conjunct1] P [THEN conjunct2, THEN conjunct1]
      P [THEN conjunct2, THEN conjunct2, THEN conjunct1] P [THEN conjunct2, THEN conjunct2, THEN conjunct2])
qed

text \<open>Every packed colour survives the way to hue, saturation and value and back, and the way to hue,
  saturation and lightness and back.\<close>

theorem hue_roundtrip:
  "(case ToHSV (FromUInt w) of Vec3 h s v \<Rightarrow> ToUInt (FromHSV h s v (c_a (FromUInt w)))) = ok w \<and>
   (case ToHSL (FromUInt w) of Vec3 h s l \<Rightarrow> ToUInt (FromHSL h s l (c_a (FromUInt w)))) = ok w"
  using from_to_HSV [OF bytes_distinct [of w]] from_to_HSL [OF bytes_distinct [of w]] from_to_uint [of w]
  by (simp split: vec3.split)

text \<open>The hue of a colour outside the unit range is computed from the channels as they are, against bounds that are
  clipped, so the colour and its clipped form have different hues.\<close>

lemma hue_of_unclipped:
  "ToHSV (mk_colour 1 3 0 1) = Vec3 (1 / 2) 1 1" "ToHSV (colour_Clip (mk_colour 1 3 0 1) False) = Vec3 (1 / 6) 1 1"
  by (simp_all add: ToHSV_def Bounds_def clip01_def Hue_of_def mk_colour_def Let_def colour_eps_def Equals_eps_def
    SaturationHSV_of_def colour_Clip_def)

end
