(* ===== verification/Sprites.thy ===== *)
theory Sprites
  imports PlanarVectors
begin

text \<open>
  Sprites and animated sprites (\<open>Graphics/Renderable2D.*\<close>, \<open>Graphics/Sprite.*\<close>, \<open>Graphics/AnimatedSprite.*\<close>).
  A texture is its identity and its size; a texture coordinate is an element of an ordered field. The frame counter is a
  32-bit word and the number of frames a 64-bit size. Using the null texture and reading behind the frames
  of a state are faults. The profiling macros are left out.
\<close>

record texture =
  t_id :: nat
  t_width :: nat
  t_height :: nat

record 'f renderable =
  m_Texture :: "texture option"
  m_Position :: "'f vec2"
  m_Scale :: "'f vec2"
  m_Colour :: "'f vec4"
  m_UVs :: "'f vec2 list"

definition GetDefaultUVs :: "'f :: linordered_field vec2 list" where
  "GetDefaultUVs = [Vec2 0 1, Vec2 1 1, Vec2 1 0, Vec2 0 0]"

definition GetUVs :: "'f vec2 \<Rightarrow> 'f vec2 \<Rightarrow> 'f vec2 list" where
  "GetUVs lo hi = [Vec2 (px lo) (py hi), hi, Vec2 (px hi) (py lo), lo]"

definition sprite_new :: "texture option \<Rightarrow> 'f :: linordered_field vec2 \<Rightarrow> 'f vec2 \<Rightarrow> 'f vec4 \<Rightarrow> 'f renderable" where
  "sprite_new t position scale colour =
    \<lparr>m_Texture = t, m_Position = position, m_Scale = scale, m_Colour = colour, m_UVs = GetDefaultUVs\<rparr>"

definition SetTexture :: "texture option \<Rightarrow> ('f, 'a) renderable_scheme \<Rightarrow> ('f, 'a) renderable_scheme" where
  "SetTexture t s = s\<lparr>m_Texture := t\<rparr>"

definition tex_size :: "texture option \<Rightarrow> ('f :: linordered_field) vec2 res" where
  "tex_size t = (case t of None \<Rightarrow> fail NullDeref | Some t \<Rightarrow> ok (Vec2 (of_nat (t_width t)) (of_nat (t_height t))))"

definition SetSpriteSheet :: "texture option \<Rightarrow> 'f :: linordered_field vec2 \<Rightarrow> 'f vec2 \<Rightarrow> 'f vec2 \<Rightarrow>
    ('f, 'a) renderable_scheme \<Rightarrow> ('f, 'a) renderable_scheme res" where
  "SetSpriteSheet t index cellSize spriteSize s =
    rbind (tex_size t) (\<lambda>size.
      let lo = vec2_divv (vec2_mul index cellSize) size;
          hi = vec2_divv (vec2_mul (vec2_add index spriteSize) cellSize) size
      in ok (s\<lparr>m_Texture := t, m_UVs := GetUVs lo hi\<rparr>))"

section \<open>Animation\<close>

datatype play_mode = Loop | PingPong

record 'f anim_state =
  Mode :: play_mode
  Frames :: "'f vec2 list"
  FrameDuration :: 'f

text \<open>What \<open>operator []\<close> of the map puts in place of a missing state.\<close>

definition anim_default :: "'f :: linordered_field anim_state" where
  "anim_default = \<lparr>Mode = Loop, Frames = [], FrameDuration = 1\<rparr>"

record 'f animated = "'f renderable" +
  m_AnimationStates :: "(string \<rightharpoonup> 'f anim_state)"
  m_CurrentFrame :: u32
  m_FrameTimer :: 'f
  m_State :: string
  m_Forward :: bool

definition animated_new :: "'f :: linordered_field animated" where
  "animated_new = renderable.extend (sprite_new None (Vec2 0 0) (Vec2 1 1) (Vec4 1 1 1 1))
     \<lparr>m_AnimationStates = Map.empty, m_CurrentFrame = 0, m_FrameTimer = 0, m_State = [], m_Forward = True\<rparr>"

definition GetAnimatedUVs :: "'f :: linordered_field animated \<Rightarrow> ('f vec2 list \<times> 'f animated) res" where
  "GetAnimatedUVs s =
    (let st = (case m_AnimationStates s (m_State s) of None \<Rightarrow> anim_default | Some st \<Rightarrow> st);
         s = s\<lparr>m_AnimationStates := (m_AnimationStates s)(m_State s \<mapsto> st)\<rparr>
     in if Frames st = [] then ok (GetDefaultUVs, s)
        else if unat (m_CurrentFrame s) \<ge> length (Frames st) then fail OutOfRange
        else (let lo = Frames st ! unat (m_CurrentFrame s); hi = vec2_add lo (m_Scale s)
          in rbind (tex_size (m_Texture s)) (\<lambda>size.
            let uvs = GetUVs (vec2_divv lo size) (vec2_divv hi size) in ok (uvs, s\<lparr>m_UVs := uvs\<rparr>))))"

definition SetState :: "string \<Rightarrow> 'f :: linordered_field animated \<Rightarrow> 'f animated res" where
  "SetState st s = rbind (GetAnimatedUVs (s\<lparr>m_State := st, m_CurrentFrame := 0, m_FrameTimer := 0\<rparr>))
     (\<lambda>(uvs, s). ok (s\<lparr>m_UVs := uvs\<rparr>))"

definition AddState :: "'f vec2 list \<Rightarrow> 'f \<Rightarrow> string \<Rightarrow> 'f animated \<Rightarrow> 'f animated" where
  "AddState frames frameDuration name s =
    s\<lparr>m_AnimationStates := (m_AnimationStates s)(name \<mapsto> \<lparr>Mode = Loop, Frames = frames, FrameDuration = frameDuration\<rparr>)\<rparr>"

definition animated_of :: "texture option \<Rightarrow> 'f :: linordered_field vec2 \<Rightarrow> 'f vec2 \<Rightarrow> 'f vec2 list \<Rightarrow> 'f \<Rightarrow> string \<Rightarrow> 'f animated res" where
  "animated_of t position scale frames frameDuration name =
    (let s = animated_new\<lparr>m_Texture := t, m_Position := position, m_Scale := scale\<rparr>;
         s = (AddState frames frameDuration name s)\<lparr>m_State := name, m_CurrentFrame := 0\<rparr>
     in rbind (GetAnimatedUVs s) (\<lambda>(uvs, s). ok (s\<lparr>m_UVs := uvs\<rparr>)))"

text \<open>The step to the next frame; \<open>Frames.size() - 1\<close> is computed on 64 bits.\<close>

definition last_frame :: "'a list \<Rightarrow> u64" where
  "last_frame frames = word_of_nat (length frames) - 1"

definition next_frame :: "'f anim_state \<Rightarrow> u32 \<times> bool \<Rightarrow> u32 \<times> bool" where
  "next_frame st cf =
    (let (current, forward) = cf in
     if forward
     then (if ucast current = last_frame (Frames st)
           then (if Mode st = PingPong then (current - 1, False) else (0, forward))
           else (current + 1, forward))
     else (if current = 0 then (if Mode st = PingPong then (1, True) else (1, True)) else (current - 1, forward)))"

definition anim_OnUpdate :: "'f :: linordered_field \<Rightarrow> 'f animated \<Rightarrow> 'f animated res" where
  "anim_OnUpdate dt s =
    (case m_AnimationStates s (m_State s) of
       None \<Rightarrow> ok s
     | Some st \<Rightarrow>
         (let s = s\<lparr>m_FrameTimer := m_FrameTimer s + dt\<rparr> in
          if m_FrameTimer s \<ge> FrameDuration st
          then (let (current, forward) = next_frame st (m_CurrentFrame s, m_Forward s);
                    s = s\<lparr>m_FrameTimer := 0, m_CurrentFrame := current, m_Forward := forward\<rparr>
                in rbind (GetAnimatedUVs s) (\<lambda>(uvs, s). ok s))
          else ok s))"

text \<open>Where the frame counter stands against the last frame.\<close>

lemma at_last_frame:
  assumes "0 < length frames" "length frames < 2 ^ 32"
  shows "(ucast (c :: u32) = last_frame frames) \<longleftrightarrow> unat c = length frames - 1"
proof -
  have l: "last_frame frames = word_of_nat (length frames - 1)"
    using assms(1) by (cases "length frames") (simp_all add: last_frame_def)
  have "unat (last_frame frames) = length frames - 1"
    using assms unfolding l by (simp add: unsigned_of_nat take_bit_nat_eq_self)
  moreover have "unat (ucast c :: u64) = unat c"
  proof -
    have "unat c < 2 ^ LENGTH(32)" by (rule unsigned_less)
    then show ?thesis by (simp add: unsigned_ucast_eq take_bit_nat_eq_self)
  qed
  ultimately show ?thesis by (metis unsigned_word_eqI)
qed

lemma unat_succ32: "unat (c :: u32) < n \<Longrightarrow> n < 2 ^ 32 \<Longrightarrow> unat (c + 1) = unat c + 1"
  by (subst unat_add_lem [THEN iffD1]) simp_all

lemma unat_pred32: "(c :: u32) \<noteq> 0 \<Longrightarrow> unat (c - 1) = unat c - 1"
  by (rule unat_minus_one)

lemma next_frame_cases:
  assumes "2 \<le> length (Frames st)" "length (Frames st) < 2 ^ 32" "unat c < length (Frames st)"
    and "next_frame st (c, fwd) = (c', fwd')"
  shows "unat c' = (if fwd then (if unat c = length (Frames st) - 1 then (if Mode st = PingPong then unat c - 1 else 0) else unat c + 1)
           else if unat c = 0 then 1 else unat c - 1)"
    and "fwd' \<longleftrightarrow> (if fwd then \<not> (unat c = length (Frames st) - 1 \<and> Mode st = PingPong) else unat c = 0)"
proof -
  have l: "ucast c = last_frame (Frames st) \<longleftrightarrow> unat c = length (Frames st) - 1"
    by (rule at_last_frame) (use assms in auto)
  have p: "unat (c + 1) = unat c + 1" "c \<noteq> 0 \<Longrightarrow> unat (c - 1) = unat c - 1"
    using unat_succ32 unat_pred32 assms by blast+
  have z: "unat c = 0 \<longleftrightarrow> c = 0" by (simp add: unat_0_iff)
  have ne: "unat c = length (Frames st) - 1 \<Longrightarrow> c \<noteq> 0" using assms(1) by auto
  show "unat c' = (if fwd then (if unat c = length (Frames st) - 1 then (if Mode st = PingPong then unat c - 1 else 0) else unat c + 1)
           else if unat c = 0 then 1 else unat c - 1)"
  proof (cases fwd)
    case True
    then show ?thesis using assms(4) p(1) p(2) [OF ne]
      by (cases "unat c = length (Frames st) - 1"; cases "Mode st = PingPong") (simp_all add: next_frame_def l)
  next
    case False
    then show ?thesis using assms(4) p(2) by (cases "c = 0"; cases "Mode st") (simp_all add: next_frame_def z)
  qed
  show "fwd' \<longleftrightarrow> (if fwd then \<not> (unat c = length (Frames st) - 1 \<and> Mode st = PingPong) else unat c = 0)"
  proof (cases fwd)
    case True
    then show ?thesis using assms(4)
      by (cases "unat c = length (Frames st) - 1"; cases "Mode st = PingPong") (simp_all add: next_frame_def l)
  next
    case False
    then show ?thesis using assms(4) by (cases "c = 0"; cases "Mode st") (simp_all add: next_frame_def z)
  qed
qed

lemma next_frame_bound:
  assumes "2 \<le> length (Frames st)" "length (Frames st) < 2 ^ 32" "unat c < length (Frames st)"
  shows "unat (fst (next_frame st (c, fwd))) < length (Frames st)"
proof -
  obtain c' fwd' where n: "next_frame st (c, fwd) = (c', fwd')" by fastforce
  show ?thesis using next_frame_cases(1) [OF assms n] assms n by (auto split: if_splits)
qed

text \<open>The state of an animated sprite whose frame counter stays inside its frames. States have no frame or at least two.\<close>

definition anim_ok :: "'f :: linordered_field animated \<Rightarrow> bool" where
  "anim_ok s \<longleftrightarrow> m_Texture s \<noteq> None
     \<and> (\<forall>st \<in> ran (m_AnimationStates s). length (Frames st) \<noteq> 1 \<and> length (Frames st) < 2 ^ 32)
     \<and> (case m_AnimationStates s (m_State s) of None \<Rightarrow> True | Some st \<Rightarrow> Frames st = [] \<or> unat (m_CurrentFrame s) < length (Frames st))"

lemma GetAnimatedUVs_ok:
  assumes "anim_ok s"
  shows "\<exists>uvs s'. GetAnimatedUVs s = ok (uvs, s') \<and> anim_ok s' \<and> anim_ok (s'\<lparr>m_UVs := uvs\<rparr>)
    \<and> m_AnimationStates s \<subseteq>\<^sub>m m_AnimationStates s'"
proof -
  obtain t where t: "m_Texture s = Some t" using assms by (auto simp: anim_ok_def)
  show ?thesis
  proof (cases "m_AnimationStates s (m_State s)")
    case None
    then show ?thesis
      using assms by (auto simp: GetAnimatedUVs_def anim_default_def anim_ok_def Let_def ran_def map_le_def)
  next
    case (Some st)
    then have "(m_AnimationStates s)(m_State s \<mapsto> st) = m_AnimationStates s" by auto
    then show ?thesis using assms Some t
      by (cases "Frames st = []") (auto simp: GetAnimatedUVs_def anim_ok_def Let_def tex_size_def not_le)
  qed
qed

lemma SetState_ok:
  assumes "anim_ok s" shows "\<exists>s'. SetState n s = ok s' \<and> anim_ok s'"
proof -
  have "anim_ok (s\<lparr>m_State := n, m_CurrentFrame := 0, m_FrameTimer := 0\<rparr>)"
    using assms by (auto simp: anim_ok_def split: option.splits)
  from GetAnimatedUVs_ok [OF this] show ?thesis by (auto simp: SetState_def)
qed

lemma AddState_ok:
  assumes "anim_ok s" "m_AnimationStates s n = None" "2 \<le> length frames" "length frames < 2 ^ 32" "m_State s \<noteq> n"
  shows "anim_ok (AddState frames d n s)"
  using assms by (auto simp: anim_ok_def AddState_def ran_def split: option.splits if_splits)

lemma anim_OnUpdate_ok:
  assumes ok: "anim_ok s" shows "\<exists>s'. anim_OnUpdate dt s = ok s' \<and> anim_ok s'"
proof (cases "m_AnimationStates s (m_State s)")
  case None
  then show ?thesis using ok by (simp add: anim_OnUpdate_def)
next
  case (Some st)
  then have st: "length (Frames st) \<noteq> 1" "length (Frames st) < 2 ^ 32" "Frames st = [] \<or> unat (m_CurrentFrame s) < length (Frames st)"
    using ok by (auto simp: anim_ok_def ran_def)
  obtain c fwd where n: "next_frame st (m_CurrentFrame s, m_Forward s) = (c, fwd)" by fastforce
  have "Frames st = [] \<or> unat c < length (Frames st)"
  proof (cases "Frames st = []")
    case False
    then have "2 \<le> length (Frames st)" using st(1) by (cases "Frames st" rule: remdups_adj.cases) auto
    then show ?thesis using next_frame_bound [of st "m_CurrentFrame s" "m_Forward s"] st False n by simp
  qed simp
  then have "anim_ok (s\<lparr>m_FrameTimer := 0, m_CurrentFrame := c, m_Forward := fwd\<rparr>)"
    using ok Some by (auto simp: anim_ok_def)
  from GetAnimatedUVs_ok [OF this] show ?thesis
    using ok Some n by (auto simp: anim_OnUpdate_def Let_def anim_ok_def)
qed

section \<open>Lives of animated sprites\<close>

text \<open>The calls made on a sprite: the editor sets the mode of a state through \<open>GetAnimationStates\<close>; a state is
  added once, with two or more frames.\<close>

inductive playing :: "'f :: linordered_field animated res \<Rightarrow> bool" where
  made: "2 \<le> length frames \<Longrightarrow> length frames < 2 ^ 32 \<Longrightarrow> playing (animated_of (Some t) position scale frames d n)"
| added: "playing (ok s) \<Longrightarrow> m_AnimationStates s n = None \<Longrightarrow> m_State s \<noteq> n \<Longrightarrow> 2 \<le> length frames \<Longrightarrow> length frames < 2 ^ 32 \<Longrightarrow>
    playing (ok (AddState frames d n s))"
| mode_set: "playing (ok s) \<Longrightarrow> m_AnimationStates s n = Some st \<Longrightarrow>
    playing (ok (s\<lparr>m_AnimationStates := (m_AnimationStates s)(n \<mapsto> st\<lparr>Mode := mode\<rparr>)\<rparr>))"
| state_set: "playing (ok s) \<Longrightarrow> playing (SetState n s)"
| updated: "playing (ok s) \<Longrightarrow> playing (anim_OnUpdate dt s)"
| textured: "playing (ok s) \<Longrightarrow> playing (ok (SetTexture (Some t) s))"

lemma playing_ok: "playing r \<Longrightarrow> \<exists>s. r = ok s \<and> anim_ok s"
proof (induction rule: playing.induct)
  case (made frames t position scale d n)
  let ?s = "(AddState frames d n (animated_new\<lparr>m_Texture := Some t, m_Position := position, m_Scale := scale\<rparr>))\<lparr>m_State := n, m_CurrentFrame := 0\<rparr>"
  have "anim_ok ?s" using made by (auto simp: anim_ok_def AddState_def animated_new_def renderable.defs sprite_new_def ran_def)
  from GetAnimatedUVs_ok [OF this] show ?case by (auto simp: animated_of_def Let_def)
next
  case (mode_set s n st mode)
  then show ?case by (auto simp: anim_ok_def ran_def split: if_splits option.splits)
next
  case (textured s t)
  then show ?case by (auto simp: anim_ok_def SetTexture_def split: option.splits)
qed (auto intro: AddState_ok SetState_ok anim_OnUpdate_ok)

text \<open>Whatever is done to an animated sprite made with a texture and at least two frames (states added once
  with two or more frames, any state selected, known or not, any mode and texture set, any updates), no call reads
  behind the frames or through a null texture, and the current frame stays inside the frames of its state.\<close>

theorem animation_stays_inside:
  assumes "playing r"
  shows "\<exists>s. r = ok s \<and> (\<forall>st. m_AnimationStates s (m_State s) = Some st \<longrightarrow>
    Frames st = [] \<or> unat (m_CurrentFrame s) < length (Frames st))"
  using playing_ok [OF assms] by (auto simp: anim_ok_def)

lemma animation_stays_inside_witness:
  "\<exists>s. rbind (animated_of (Some \<lparr>t_id = 1, t_width = 8, t_height = 8\<rparr>) (Vec2 0 0) (Vec2 1 (1 :: rat)) [Vec2 0 0, Vec2 1 0] 1 ''a'')
     (anim_OnUpdate 2) = ok s \<and> unat (m_CurrentFrame s) = 1"
proof -
  let ?t = "\<lparr>t_id = 1, t_width = 8, t_height = 8\<rparr>"
  let ?r = "animated_of (Some ?t) (Vec2 0 0) (Vec2 1 (1 :: rat)) [Vec2 0 0, Vec2 1 0] 1 ''a''"
  have p: "playing ?r" by (rule playing.made) simp_all
  then obtain s where s: "?r = ok s" using animation_stays_inside by blast
  have "playing (anim_OnUpdate 2 s)" using p unfolding s by (rule playing.updated)
  then obtain s' where s': "anim_OnUpdate 2 s = ok s'" using animation_stays_inside by blast
  moreover have "unat (m_CurrentFrame s') = 1"
    using s s' by (auto simp: animated_of_def animated_new_def renderable.defs sprite_new_def AddState_def GetAnimatedUVs_def Let_def
      tex_size_def anim_OnUpdate_def next_frame_def last_frame_def vec2_defs)
  ultimately show ?thesis using s by simp
qed

text \<open>With one frame the counter leaves it: a ping-pong state counts down from 0.\<close>

lemma single_frame_pingpong_faults:
  assumes "m_AnimationStates s (m_State s) = Some \<lparr>Mode = PingPong, Frames = [f], FrameDuration = d\<rparr>"
    and "m_CurrentFrame s = 0" "m_Forward s" "d \<le> m_FrameTimer s + dt"
  shows "anim_OnUpdate dt s = fail OutOfRange"
  using assms by (simp add: anim_OnUpdate_def Let_def next_frame_def last_frame_def GetAnimatedUVs_def
    unsigned_minus_1_eq_mask mask_eq_exp_minus_1)

section \<open>The frames an animation shows\<close>

definition shown :: "play_mode \<Rightarrow> nat \<Rightarrow> nat \<Rightarrow> nat" where
  "shown mode n k = (case mode of Loop \<Rightarrow> k mod n
     | PingPong \<Rightarrow> let j = k mod (2 * (n - 1)) in if j < n then j else 2 * (n - 1) - j)"

definition period :: "play_mode \<Rightarrow> nat \<Rightarrow> nat" where
  "period mode n = (case mode of Loop \<Rightarrow> n | PingPong \<Rightarrow> 2 * (n - 1))"

definition at_phase :: "play_mode \<Rightarrow> nat \<Rightarrow> nat \<Rightarrow> nat \<Rightarrow> bool \<Rightarrow> bool" where
  "at_phase mode n j c fwd \<longleftrightarrow> j < period mode n \<and> c = (if j < n then j else 2 * (n - 1) - j) \<and> (j \<noteq> 0 \<longrightarrow> (fwd \<longleftrightarrow> j < n))"

lemma next_frame_phase:
  assumes "2 \<le> length (Frames st)" "length (Frames st) < 2 ^ 32"
    and "at_phase (Mode st) (length (Frames st)) j (unat c) fwd" "next_frame st (c, fwd) = (c', fwd')"
  shows "at_phase (Mode st) (length (Frames st)) (Suc j mod period (Mode st) (length (Frames st))) (unat c') fwd'"
proof -
  let ?n = "length (Frames st)"
  have j: "j < period (Mode st) ?n" and c: "unat c = (if j < ?n then j else 2 * (?n - 1) - j)" and f: "j \<noteq> 0 \<Longrightarrow> fwd \<longleftrightarrow> j < ?n"
    using assms(3) by (auto simp: at_phase_def)
  have "unat c < ?n" using j c assms(1) by (cases "Mode st") (auto simp: period_def)
  note nf = next_frame_cases [OF assms(1,2) this assms(4)]
  show ?thesis
  proof (cases "Suc j = period (Mode st) ?n")
    case True
    then have j1: "Suc j mod period (Mode st) ?n = 0" by simp
    have "unat c' = 0" using nf(1) c f True assms(1) by (cases "Mode st") (auto simp: period_def split: if_splits)
    then show ?thesis using j unfolding j1 by (simp add: at_phase_def)
  next
    case False
    then have j1: "Suc j mod period (Mode st) ?n = Suc j" using j by simp
    show ?thesis unfolding j1
      using nf c f j False assms(1) by (cases "Mode st") (auto simp: at_phase_def period_def split: if_splits)
  qed
qed

definition frame_uvs :: "texture \<Rightarrow> 'f :: linordered_field vec2 \<Rightarrow> 'f vec2 \<Rightarrow> 'f vec2 list" where
  "frame_uvs t scale frame = (let size = Vec2 (of_nat (t_width t)) (of_nat (t_height t)) in
     GetUVs (vec2_divv frame size) (vec2_divv (vec2_add frame scale) size))"

definition updates :: "'f :: linordered_field list \<Rightarrow> 'f animated res \<Rightarrow> 'f animated res" where
  "updates dts r = fold (\<lambda>dt r. rbind r (anim_OnUpdate dt)) dts r"

definition shows_frame :: "texture \<Rightarrow> 'f :: linordered_field vec2 \<Rightarrow> string \<Rightarrow> 'f anim_state \<Rightarrow> nat \<Rightarrow> 'f animated \<Rightarrow> bool" where
  "shows_frame t scale n st j s \<longleftrightarrow> m_Texture s = Some t \<and> m_Scale s = scale \<and> m_State s = n \<and> m_AnimationStates s n = Some st
     \<and> m_FrameTimer s = 0 \<and> at_phase (Mode st) (length (Frames st)) j (unat (m_CurrentFrame s)) (m_Forward s)
     \<and> m_UVs s = frame_uvs t scale (Frames st ! unat (m_CurrentFrame s))"

lemma at_phase_bound: "2 \<le> n \<Longrightarrow> at_phase mode n j c fwd \<Longrightarrow> c < n"
  by (cases mode) (auto simp: at_phase_def period_def)

lemma GetAnimatedUVs_frame:
  assumes "m_Texture s = Some t" "m_AnimationStates s (m_State s) = Some st" "unat (m_CurrentFrame s) < length (Frames st)"
  shows "GetAnimatedUVs s = (let uvs = frame_uvs t (m_Scale s) (Frames st ! unat (m_CurrentFrame s)) in ok (uvs, s\<lparr>m_UVs := uvs\<rparr>))"
proof -
  have "(m_AnimationStates s)(m_State s \<mapsto> st) = m_AnimationStates s" using assms(2) by auto
  then show ?thesis using assms by (auto simp: GetAnimatedUVs_def Let_def tex_size_def frame_uvs_def)
qed

lemma update_shows_next:
  assumes "2 \<le> length (Frames st)" "length (Frames st) < 2 ^ 32" "FrameDuration st \<le> dt" "shows_frame t scale n st j s"
  shows "\<exists>s'. anim_OnUpdate dt s = ok s' \<and> shows_frame t scale n st (Suc j mod period (Mode st) (length (Frames st))) s'"
proof -
  have s: "m_Texture s = Some t" "m_Scale s = scale" "m_State s = n" "m_AnimationStates s n = Some st" "m_FrameTimer s = 0"
    and ph: "at_phase (Mode st) (length (Frames st)) j (unat (m_CurrentFrame s)) (m_Forward s)"
    using assms(4) by (auto simp: shows_frame_def)
  obtain c fwd where n: "next_frame st (m_CurrentFrame s, m_Forward s) = (c, fwd)" by fastforce
  note ph' = next_frame_phase [OF assms(1,2) ph n]
  note b = at_phase_bound [OF assms(1) ph']
  have "GetAnimatedUVs (s\<lparr>m_FrameTimer := 0, m_CurrentFrame := c, m_Forward := fwd\<rparr>) =
    (let uvs = frame_uvs t scale (Frames st ! unat c) in ok (uvs, s\<lparr>m_FrameTimer := 0, m_CurrentFrame := c, m_Forward := fwd, m_UVs := uvs\<rparr>))"
    using GetAnimatedUVs_frame [of "s\<lparr>m_FrameTimer := 0, m_CurrentFrame := c, m_Forward := fwd\<rparr>" t st] s b by simp
  then show ?thesis using s n assms(3) ph' by (simp add: anim_OnUpdate_def Let_def shows_frame_def)
qed

lemma updates_show:
  assumes "2 \<le> length (Frames st)" "length (Frames st) < 2 ^ 32" "list_all (\<lambda>dt. FrameDuration st \<le> dt) dts"
    and "shows_frame t scale n st j s"
  shows "\<exists>s'. updates dts (ok s) = ok s' \<and> shows_frame t scale n st ((j + length dts) mod period (Mode st) (length (Frames st))) s'"
  using assms(3,4)
proof (induction dts arbitrary: j s)
  case Nil
  then show ?case by (auto simp: updates_def shows_frame_def at_phase_def)
next
  case (Cons dt dts)
  from update_shows_next [OF assms(1,2) _ Cons.prems(2), of dt] Cons.prems(1) obtain s1 where
    s1: "anim_OnUpdate dt s = ok s1" "shows_frame t scale n st (Suc j mod period (Mode st) (length (Frames st))) s1"
    by auto
  from Cons.IH [OF _ s1(2)] Cons.prems(1) s1(1) show ?case
    by (auto simp: updates_def mod_add_left_eq)
qed

text \<open>After a state with two or more frames is selected, whatever the sprite did before, the k-th update that
  lasts a frame shows the frame k (modulo the frames in a looping state, there and back again in a ping-pong state), with
  its texture coordinates.\<close>

theorem animation_plays:
  assumes "m_Texture s = Some t" "m_AnimationStates s n = Some st" "2 \<le> length (Frames st)" "length (Frames st) < 2 ^ 32"
    and "list_all (\<lambda>dt. FrameDuration st \<le> dt) dts"
  shows "\<exists>s'. updates dts (SetState n s) = ok s' \<and> unat (m_CurrentFrame s') = shown (Mode st) (length (Frames st)) (length dts)
    \<and> m_UVs s' = frame_uvs t (m_Scale s) (Frames st ! shown (Mode st) (length (Frames st)) (length dts))"
proof -
  let ?s = "s\<lparr>m_State := n, m_CurrentFrame := 0, m_FrameTimer := 0\<rparr>"
  have "GetAnimatedUVs ?s = (let uvs = frame_uvs t (m_Scale s) (Frames st ! 0) in ok (uvs, ?s\<lparr>m_UVs := uvs\<rparr>))"
  proof -
    have "0 < length (Frames st)" using assms(3) by linarith
    then show ?thesis using GetAnimatedUVs_frame [of ?s t st] assms by simp
  qed
  then have "SetState n s = ok (?s\<lparr>m_UVs := frame_uvs t (m_Scale s) (Frames st ! 0)\<rparr>)" by (simp add: SetState_def Let_def)
  moreover have "shows_frame t (m_Scale s) n st 0 (?s\<lparr>m_UVs := frame_uvs t (m_Scale s) (Frames st ! 0)\<rparr>)"
    using assms by (cases "Mode st") (auto simp: shows_frame_def at_phase_def period_def)
  ultimately obtain s' where s': "updates dts (SetState n s) = ok s'"
    "shows_frame t (m_Scale s) n st (length dts mod period (Mode st) (length (Frames st))) s'"
    using updates_show [OF assms(3-5)] by fastforce
  then have "unat (m_CurrentFrame s') = shown (Mode st) (length (Frames st)) (length dts)"
    using assms(3) by (cases "Mode st") (auto simp: shows_frame_def at_phase_def shown_def period_def Let_def)
  then show ?thesis using s' by (auto simp: shows_frame_def)
qed

lemma animation_plays_witness:
  "\<exists>s'. updates [1, 2, 1, 1] (SetState ''a'' (animated_new\<lparr>m_Texture := Some \<lparr>t_id = 1, t_width = 8, t_height = 8\<rparr>,
     m_AnimationStates := [''a'' \<mapsto> \<lparr>Mode = PingPong, Frames = [Vec2 0 0, Vec2 1 0, Vec2 2 (0 :: rat)], FrameDuration = 1\<rparr>]\<rparr>)) = ok s'
   \<and> unat (m_CurrentFrame s') = 0"
proof -
  let ?st = "\<lparr>Mode = PingPong, Frames = [Vec2 0 0, Vec2 1 0, Vec2 2 (0 :: rat)], FrameDuration = 1\<rparr>"
  let ?t = "\<lparr>t_id = 1, t_width = 8, t_height = 8\<rparr>"
  let ?s = "animated_new\<lparr>m_Texture := Some ?t, m_AnimationStates := [''a'' \<mapsto> ?st]\<rparr>"
  have "\<exists>s'. updates [1, 2, 1, 1] (SetState ''a'' ?s) = ok s'
    \<and> unat (m_CurrentFrame s') = shown (Mode ?st) (length (Frames ?st)) (length [1 :: rat, 2, 1, 1])
    \<and> m_UVs s' = frame_uvs ?t (m_Scale ?s) (Frames ?st ! shown (Mode ?st) (length (Frames ?st)) (length [1 :: rat, 2, 1, 1]))"
    by (rule animation_plays) simp_all
  moreover have "shown (Mode ?st) (length (Frames ?st)) (length [1 :: rat, 2, 1, 1]) = 0" by (simp add: shown_def)
  ultimately show ?thesis by metis
qed

end
