(* ===== verification/Batches.thy ===== *)
theory Batches
  imports Sprites Rotations
begin

text \<open>
  Batched drawing: the 2D renderer (\<open>Graphics/Renderers/Renderer2D.*\<close>), the line and point renderers
  (\<open>LineRenderer.*\<close>, \<open>PointRenderer.*\<close>) and the debug renderer over them (\<open>DebugRenderer.cpp\<close>). The
  contents of a mapped vertex buffer are the vertices written since it was mapped; what the renderer asks of
  the graphics back end is a list of calls. Writing behind a vertex buffer and using a batch that
  does not exist are faults, and so is reading an element of a vector that was cleared. Which sprites the
  camera sees is a parameter.
\<close>

section \<open>Vertices, draw calls and limits\<close>

record 'f vertex_data =
  vd_vertex :: "'f vec3"
  vd_uv :: "'f vec2"
  vd_tid :: nat
  vd_color :: "'f vec4"

record 'f command2d =
  cmd_renderable :: "'f renderable"
  cmd_transform :: "'f mat4"

record 'f triangle_info =
  tri_p1 :: "'f vec3"
  tri_p2 :: "'f vec3"
  tri_p3 :: "'f vec3"
  tri_col :: "'f vec4"

record ('v, 't) draw_call =
  d_batch :: nat
  d_vertices :: "'v list"
  d_count :: nat
  d_textures :: "'t list"

datatype ('v, 't) gpu_call = BeginPass | DrawIndexed "('v, 't) draw_call" | EndPass | ExecuteBuffer | PresentToScreen

definition VERTEX_SIZE :: nat where
  "VERTEX_SIZE = 44"

record limits =
  MaxQuads :: nat
  BufferSize :: nat
  IndiciesSize :: nat
  MaxTextures :: nat
  MaxBatchDrawCalls :: nat

definition limits_default :: limits where
  "limits_default = \<lparr>MaxQuads = 10000, BufferSize = 10000 * VERTEX_SIZE * 4, IndiciesSize = 10000 * 6, MaxTextures = 16, MaxBatchDrawCalls = 100\<rparr>"

definition SetMaxQuads :: "nat \<Rightarrow> limits \<Rightarrow> limits" where
  "SetMaxQuads quads l = l\<lparr>MaxQuads := quads, BufferSize := quads * VERTEX_SIZE * 4, IndiciesSize := quads * 6\<rparr>"

definition MAX_BOUND_TEXTURES :: nat where
  "MAX_BOUND_TEXTURES = 16"

section \<open>The 2D renderer\<close>

text \<open>\<open>m_Sets\<close> holds the textures last written into each descriptor set that was created, the last of which is
  \<open>m_DescriptorSet\<close>; \<open>m_Bound\<close> lists for each draw call which set it was recorded with. The descriptor sets of the replaced
  objects are never freed.\<close>

record 'f renderer2d =
  m_CommandQueue2D :: "'f command2d list"
  m_Triangles :: "'f triangle_info list"
  m_BatchDrawCallIndex :: nat
  m_IndexCount :: nat
  m_Limits :: limits
  m_Buffer :: "'f vertex_data list"
  m_Textures :: "texture list"
  m_PreviousFrameTextureCount :: nat
  m_Sets :: "texture list list"
  m_Bound :: "nat option list"
  m_Empty :: bool
  m_RenderTexture :: bool
  m_Camera :: "nat option"
  m_CameraTransform :: "nat option"
  gpu :: "('f vertex_data, texture) gpu_call list"
  rendered :: nat

definition renderer2d_new :: "'f renderer2d" where
  "renderer2d_new = \<lparr>m_CommandQueue2D = [], m_Triangles = [], m_BatchDrawCallIndex = 0, m_IndexCount = 0,
     m_Limits = (SetMaxQuads 10000 limits_default)\<lparr>MaxQuads := 16\<rparr>, m_Buffer = [], m_Textures = [],
     m_PreviousFrameTextureCount = 0, m_Sets = [[]], m_Bound = [], m_Empty = False, m_RenderTexture = False, m_Camera = None, m_CameraTransform = None,
     gpu = [], rendered = 0\<rparr>"

text \<open>The index buffer: every index in triangle mode, two triangles per four vertices otherwise.\<close>

definition quad_indices :: "nat \<Rightarrow> nat list" where
  "quad_indices n = concat (map (\<lambda>k. let offset = 4 * k in
     [offset + 0, offset + 1, offset + 2, offset + 2, offset + 3, offset + 0]) [0..<n div 6])"

definition index_buffer :: "bool \<Rightarrow> limits \<Rightarrow> nat list" where
  "index_buffer triangleIndicies l = (if triangleIndicies then [0..<IndiciesSize l] else quad_indices (IndiciesSize l))"

definition issue :: "('f vertex_data, texture) gpu_call \<Rightarrow> 'f renderer2d \<Rightarrow> 'f renderer2d" where
  "issue c r = r\<lparr>gpu := gpu r @ [c]\<rparr>"

definition map_buffer :: "'f renderer2d \<Rightarrow> 'f renderer2d res" where
  "map_buffer r = (if m_BatchDrawCallIndex r \<ge> MaxBatchDrawCalls (m_Limits r) then fail OutOfRange else ok (r\<lparr>m_Buffer := []\<rparr>))"

definition write_vertex :: "'f vertex_data \<Rightarrow> 'f renderer2d \<Rightarrow> 'f renderer2d res" where
  "write_vertex v r =
    (if (length (m_Buffer r) + 1) * VERTEX_SIZE > BufferSize (m_Limits r) then fail OutOfRange
     else ok (r\<lparr>m_Buffer := m_Buffer r @ [v]\<rparr>))"

definition UpdateDesciptorSet :: "'f renderer2d \<Rightarrow> 'f renderer2d" where
  "UpdateDesciptorSet r =
    (if length (m_Textures r) = 0 then r
     else (let r = (if length (m_Textures r) \<noteq> m_PreviousFrameTextureCount r then r\<lparr>m_Sets := m_Sets r @ [[]]\<rparr> else r);
               r = r\<lparr>m_Sets := (m_Sets r)[length (m_Sets r) - 1 := m_Textures r]\<rparr>
           in r\<lparr>m_PreviousFrameTextureCount := length (m_Textures r)\<rparr>))"

text \<open>A draw call is recorded with the textures that its set holds at this moment.\<close>

definition Present :: "'f renderer2d \<Rightarrow> 'f renderer2d res" where
  "Present r =
    (if m_BatchDrawCallIndex r \<ge> MaxBatchDrawCalls (m_Limits r) then fail OutOfRange
     else if m_IndexCount r = 0 then ok (r\<lparr>m_Empty := True\<rparr>)
     else (let r = UpdateDesciptorSet (r\<lparr>m_Empty := False\<rparr>);
               r = r\<lparr>m_Bound := m_Bound r @ [if length (m_Textures r) > 0 then Some (length (m_Sets r) - 1) else None]\<rparr>;
               r = issue (DrawIndexed \<lparr>d_batch = m_BatchDrawCallIndex r, d_vertices = m_Buffer r, d_count = m_IndexCount r,
                     d_textures = m_Textures r\<rparr>) r
           in ok (r\<lparr>m_IndexCount := 0, m_BatchDrawCallIndex := m_BatchDrawCallIndex r + 1\<rparr>)))"

definition FlushAndReset :: "'f renderer2d \<Rightarrow> 'f renderer2d res" where
  "FlushAndReset r = rbind (Present r) (\<lambda>r. map_buffer (r\<lparr>m_Textures := [], m_Triangles := []\<rparr>))"

definition Begin :: "'f renderer2d \<Rightarrow> 'f renderer2d res" where
  "Begin r = map_buffer ((issue BeginPass r)\<lparr>m_Textures := [], m_Triangles := []\<rparr>)"

definition BeginSimple :: "'f renderer2d \<Rightarrow> 'f renderer2d" where
  "BeginSimple r = r\<lparr>m_Textures := [], m_Triangles := []\<rparr>"

definition End :: "'f renderer2d \<Rightarrow> 'f renderer2d" where
  "End r =
    (let r = issue EndPass r;
         r = (if m_RenderTexture r then issue ExecuteBuffer r else r);
         r = (if \<not> m_RenderTexture r \<and> \<not> m_Empty r then issue PresentToScreen r else r)
     in r\<lparr>m_BatchDrawCallIndex := 0\<rparr>)"

definition Submit :: "'f renderable \<Rightarrow> 'f mat4 \<Rightarrow> 'f renderer2d \<Rightarrow> 'f renderer2d" where
  "Submit s transform r = r\<lparr>m_CommandQueue2D := m_CommandQueue2D r @ [\<lparr>cmd_renderable = s, cmd_transform = transform\<rparr>]\<rparr>"

fun texture_slot :: "texture \<Rightarrow> texture list \<Rightarrow> nat \<Rightarrow> nat option" where
  "texture_slot t [] i = None"
| "texture_slot t (u # us) i = (if u = t then Some (i + 1) else texture_slot t us (i + 1))"

definition SubmitTexture :: "texture \<Rightarrow> 'f renderer2d \<Rightarrow> (nat \<times> 'f renderer2d) res" where
  "SubmitTexture t r =
    (case texture_slot t (m_Textures r) 0 of
       Some result \<Rightarrow> ok (result, r)
     | None \<Rightarrow>
         rbind (if length (m_Textures r) \<ge> MaxTextures (m_Limits r) then FlushAndReset r else ok r) (\<lambda>r.
           if length (m_Textures r) \<ge> MAX_BOUND_TEXTURES then fail OutOfRange
           else (let r = r\<lparr>m_Textures := m_Textures r @ [t]\<rparr> in ok (length (m_Textures r), r))))"

definition quad_vertices :: "'f :: linordered_field renderable \<Rightarrow> 'f mat4 \<Rightarrow> nat \<Rightarrow> 'f vertex_data list" where
  "quad_vertices s transform slot =
    (let lo = m_Position s; hi = vec2_add (m_Position s) (m_Scale s);
         vertex = (\<lambda>x y uv. \<lparr>vd_vertex = mat4_vec transform (Vec3 x y 0), vd_uv = uv, vd_tid = slot, vd_color = m_Colour s\<rparr>)
     in [vertex (px lo) (py lo) (m_UVs s ! 0), vertex (px hi) (py lo) (m_UVs s ! 1),
         vertex (px hi) (py hi) (m_UVs s ! 2), vertex (px lo) (py hi) (m_UVs s ! 3)])"

definition write_all :: "'f vertex_data list \<Rightarrow> 'f renderer2d \<Rightarrow> 'f renderer2d res" where
  "write_all vs r = fold (\<lambda>v m. rbind m (write_vertex v)) vs (ok r)"

definition SubmitCommand :: "'f :: linordered_field command2d \<Rightarrow> 'f renderer2d \<Rightarrow> 'f renderer2d res" where
  "SubmitCommand c r =
    rbind (let r = r\<lparr>rendered := Suc (rendered r)\<rparr> in if m_IndexCount r \<ge> IndiciesSize (m_Limits r) then FlushAndReset r else ok r) (\<lambda>r.
    rbind (case m_Texture (cmd_renderable c) of None \<Rightarrow> ok (0, r) | Some t \<Rightarrow> SubmitTexture t r) (\<lambda>(slot, r).
    rbind (write_all (quad_vertices (cmd_renderable c) (cmd_transform c) slot) r) (\<lambda>r.
      ok (r\<lparr>m_IndexCount := m_IndexCount r + 6\<rparr>))))"

definition SubmitQueue :: "'f :: linordered_field renderer2d \<Rightarrow> 'f renderer2d res" where
  "SubmitQueue r = fold (\<lambda>c m. rbind m (SubmitCommand c)) (m_CommandQueue2D r) (ok r)"

definition RenderScene :: "'f :: linordered_field renderer2d \<Rightarrow> 'f renderer2d res" where
  "RenderScene r = rbind (Begin r) (\<lambda>r. rbind (SubmitQueue r) (\<lambda>r. rbind (Present r) (\<lambda>r. ok (End r))))"

text \<open>The camera of the override or the first one of the scene; without a camera the queue is left as it is.\<close>

definition BeginScene :: "(nat \<Rightarrow> nat \<Rightarrow> 'f renderable \<Rightarrow> 'f mat4 \<Rightarrow> bool) \<Rightarrow> (nat \<times> nat option) option \<Rightarrow> (nat \<times> nat option) option \<Rightarrow>
    ('f renderable \<times> 'f mat4) list \<Rightarrow> ('f renderable \<times> 'f mat4) list \<Rightarrow> 'f renderer2d \<Rightarrow> 'f renderer2d" where
  "BeginScene visible override first sprites animated r =
    (let r = (case override of Some (c, t) \<Rightarrow> r\<lparr>m_Camera := Some c, m_CameraTransform := t\<rparr>
              | None \<Rightarrow> (case first of Some (c, t) \<Rightarrow> r\<lparr>m_Camera := Some c, m_CameraTransform := t\<rparr> | None \<Rightarrow> r))
     in case (m_Camera r, m_CameraTransform r) of
          (Some c, Some t) \<Rightarrow>
            fold (\<lambda>(s, m). if visible c t s m then Submit s m else id) (sprites @ animated) (r\<lparr>m_CommandQueue2D := []\<rparr>)
        | _ \<Rightarrow> r)"

section \<open>The batches of a queue\<close>

text \<open>What the renderer should draw: the queue cut greedily into batches of at most \<open>q\<close> quads and \<open>n\<close> textures. A
  batch is its commands with the textures they use, in the order of their first use.\<close>

type_synonym 'f batch = "'f command2d list \<times> texture list"

definition tex_of :: "'f command2d \<Rightarrow> texture option" where
  "tex_of c = m_Texture (cmd_renderable c)"

definition needs_flush :: "nat \<Rightarrow> nat \<Rightarrow> 'f command2d \<Rightarrow> 'f batch \<Rightarrow> bool" where
  "needs_flush q n c b \<longleftrightarrow> length (fst b) \<ge> q \<or>
     (case tex_of c of None \<Rightarrow> False | Some t \<Rightarrow> t \<notin> set (snd b) \<and> length (snd b) \<ge> n)"

definition add_command :: "'f command2d \<Rightarrow> 'f batch \<Rightarrow> 'f batch" where
  "add_command c b = (fst b @ [c], case tex_of c of None \<Rightarrow> snd b | Some t \<Rightarrow> if t \<in> set (snd b) then snd b else snd b @ [t])"

fun batches :: "nat \<Rightarrow> nat \<Rightarrow> 'f batch \<Rightarrow> 'f command2d list \<Rightarrow> 'f batch list" where
  "batches q n b [] = (if fst b = [] then [] else [b])"
| "batches q n b (c # cs) =
    (if needs_flush q n c b then b # batches q n (add_command c ([], [])) cs else batches q n (add_command c b) cs)"

definition slot_of :: "texture list \<Rightarrow> 'f command2d \<Rightarrow> nat" where
  "slot_of ts c = (case tex_of c of None \<Rightarrow> 0 | Some t \<Rightarrow> the (texture_slot t ts 0))"

definition batch_vertices :: "'f :: linordered_field batch \<Rightarrow> 'f vertex_data list" where
  "batch_vertices b = concat (map (\<lambda>c. quad_vertices (cmd_renderable c) (cmd_transform c) (slot_of (snd b) c)) (fst b))"

definition batch_draw :: "nat \<Rightarrow> 'f :: linordered_field batch \<Rightarrow> ('f vertex_data, texture) gpu_call" where
  "batch_draw k b = DrawIndexed \<lparr>d_batch = k, d_vertices = batch_vertices b, d_count = 6 * length (fst b), d_textures = snd b\<rparr>"

text \<open>A batch under construction: every texture of its commands is listed once.\<close>

definition batch_ok :: "'f batch \<Rightarrow> bool" where
  "batch_ok b \<longleftrightarrow> distinct (snd b) \<and> set (snd b) = {t. \<exists>c \<in> set (fst b). tex_of c = Some t} \<and> length (snd b) \<le> length (fst b)"

lemma batch_ok_empty: "batch_ok ([], [])"
  by (simp add: batch_ok_def)

lemma batch_ok_add: "batch_ok b \<Longrightarrow> batch_ok (add_command c b)"
  by (auto simp: batch_ok_def add_command_def split: option.splits)

lemma texture_slot_None: "texture_slot t ts i = None \<longleftrightarrow> t \<notin> set ts"
  by (induction ts arbitrary: i) auto

lemma texture_slot_Some: "texture_slot t ts i = Some k \<Longrightarrow> i < k \<and> k \<le> i + length ts \<and> ts ! (k - i - 1) = t"
proof (induction ts arbitrary: i)
  case (Cons u us)
  show ?case
  proof (cases "u = t")
    case False
    then have "i + 1 < k \<and> k \<le> i + 1 + length us \<and> us ! (k - (i + 1) - 1) = t" using Cons.IH [of "i + 1"] Cons.prems by simp
    moreover have "i + 1 < k \<Longrightarrow> k - i - 1 = Suc (k - (i + 1) - 1)" by simp
    ultimately show ?thesis by auto
  qed (use Cons.prems in auto)
qed simp

lemma texture_slot_append: "t \<in> set ts \<Longrightarrow> texture_slot t (ts @ us) i = texture_slot t ts i"
  by (induction ts arbitrary: i) auto

lemma texture_slot_last: "t \<notin> set ts \<Longrightarrow> texture_slot t (ts @ [t]) i = Some (i + length ts + 1)"
  by (induction ts arbitrary: i) auto

lemma batch_vertices_add:
  assumes "batch_ok b"
  shows "batch_vertices (add_command c b) = batch_vertices b @ quad_vertices (cmd_renderable c) (cmd_transform c) (slot_of (snd (add_command c b)) c)"
proof -
  have "slot_of (snd (add_command c b)) d = slot_of (snd b) d" if "d \<in> set (fst b)" for d
  proof (cases "tex_of d")
    case (Some t)
    then have "t \<in> set (snd b)" using assms that by (auto simp: batch_ok_def)
    then show ?thesis using Some by (auto simp: slot_of_def add_command_def texture_slot_append split: option.splits)
  qed (simp add: slot_of_def)
  then have "map (\<lambda>d. quad_vertices (cmd_renderable d) (cmd_transform d) (slot_of (snd (add_command c b)) d)) (fst b)
     = map (\<lambda>d. quad_vertices (cmd_renderable d) (cmd_transform d) (slot_of (snd b) d)) (fst b)" by simp
  moreover have "fst (add_command c b) = fst b @ [c]" by (simp add: add_command_def)
  ultimately show ?thesis unfolding batch_vertices_def by (simp only: map_append concat_append list.map concat.simps append_Nil2)
qed

lemma length_quad_vertices [simp]: "length (quad_vertices s m k) = 4"
  by (simp add: quad_vertices_def Let_def)

lemma length_batch_vertices: "length (batch_vertices b) = 4 * length (fst b)"
  by (simp add: batch_vertices_def length_concat comp_def sum_list_triv)

section \<open>The renderer draws the batches\<close>

definition the_limits :: limits where
  "the_limits = (SetMaxQuads 10000 limits_default)\<lparr>MaxQuads := 16\<rparr>"

lemma the_limits_simps [simp]:
  "BufferSize the_limits = 1760000" "IndiciesSize the_limits = 60000" "MaxTextures the_limits = 16" "MaxBatchDrawCalls the_limits = 100"
  by (simp_all add: the_limits_def SetMaxQuads_def limits_default_def VERTEX_SIZE_def)

lemma write_all_ok:
  assumes "m_Limits r = the_limits" "length (m_Buffer r) + length vs \<le> 40000"
  shows "write_all vs r = ok (r\<lparr>m_Buffer := m_Buffer r @ vs\<rparr>)"
  using assms
proof (induction vs arbitrary: r)
  case (Cons v vs)
  have "write_vertex v r = ok (r\<lparr>m_Buffer := m_Buffer r @ [v]\<rparr>)"
    using Cons.prems by (simp add: write_vertex_def VERTEX_SIZE_def)
  moreover have "write_all vs (r\<lparr>m_Buffer := m_Buffer r @ [v]\<rparr>) = ok (r\<lparr>m_Buffer := m_Buffer r @ v # vs\<rparr>)"
    using Cons.IH [of "r\<lparr>m_Buffer := m_Buffer r @ [v]\<rparr>"] Cons.prems by simp
  ultimately show ?case by (simp add: write_all_def)
qed (simp add: write_all_def)

text \<open>A renderer in the middle of batch \<open>k\<close>, of which it has collected \<open>b\<close>.\<close>

definition filling :: "nat \<Rightarrow> 'f :: linordered_field batch \<Rightarrow> 'f renderer2d \<Rightarrow> bool" where
  "filling k b r \<longleftrightarrow> m_Limits r = the_limits \<and> m_BatchDrawCallIndex r = k \<and> k < 100 \<and> m_IndexCount r = 6 * length (fst b)
     \<and> m_Textures r = snd b \<and> m_Buffer r = batch_vertices b \<and> batch_ok b \<and> length (fst b) \<le> 10000 \<and> length (snd b) \<le> 16"

text \<open>What a batch does to the descriptor sets: a new set for a number of textures other than the one before, or the
  same set written again.\<close>

definition write_set :: "texture list \<Rightarrow> texture list list \<Rightarrow> texture list list" where
  "write_set ts S = (if ts = [] then S else if length ts = length (last S) then butlast S @ [ts] else S @ [ts])"

fun bind_set :: "texture list \<Rightarrow> texture list list \<times> nat option list \<Rightarrow> texture list list \<times> nat option list" where
  "bind_set ts (S, B) = (write_set ts S, B @ [if ts = [] then None else Some (length (write_set ts S) - 1)])"

definition sets_of :: "'f renderer2d \<Rightarrow> texture list list \<times> nat option list" where
  "sets_of r = (m_Sets r, m_Bound r)"

definition sets_ok :: "'f renderer2d \<Rightarrow> bool" where
  "sets_ok r \<longleftrightarrow> m_Sets r \<noteq> [] \<and> m_PreviousFrameTextureCount r = length (last (m_Sets r))"

definition tracks :: "texture list list \<Rightarrow> 'f renderer2d \<Rightarrow> 'f renderer2d \<Rightarrow> bool" where
  "tracks tss r r' \<longleftrightarrow> (sets_ok r \<longrightarrow> sets_ok r' \<and> sets_of r' = fold bind_set tss (sets_of r))"

lemma tracks_trans: "tracks ts a b \<Longrightarrow> tracks us b c \<Longrightarrow> tracks (ts @ us) a c"
  by (simp add: tracks_def)

lemma tracks_same:
  "m_Sets r' = m_Sets r \<Longrightarrow> m_Bound r' = m_Bound r \<Longrightarrow> m_PreviousFrameTextureCount r' = m_PreviousFrameTextureCount r \<Longrightarrow> tracks [] r r'"
  by (simp add: tracks_def sets_ok_def sets_of_def)

lemma Present_tracks:
  assumes "Present r = ok r'" and "m_IndexCount r \<noteq> 0"
  shows "tracks [m_Textures r] r r'"
proof -
  have u: "S[length S - Suc 0 := ts] = butlast S @ [ts]" if "S \<noteq> []" for S :: "texture list list" and ts
    using that by (cases S rule: rev_cases) simp_all
  have b: "Suc (length (butlast S)) = length S" if "S \<noteq> []" for S :: "texture list list"
    using that by (cases S) simp_all
  show ?thesis
    using assms by (auto simp: Present_def UpdateDesciptorSet_def Let_def issue_def tracks_def sets_ok_def sets_of_def write_set_def u b
        split: if_splits)
qed

lemma Present_draws:
  assumes "m_BatchDrawCallIndex r < MaxBatchDrawCalls (m_Limits r)" and "m_IndexCount r \<noteq> 0"
  obtains r' where "Present r = ok r'" and "m_IndexCount r' = 0" and "m_BatchDrawCallIndex r' = m_BatchDrawCallIndex r + 1"
    and "m_Limits r' = m_Limits r" and "m_CommandQueue2D r' = m_CommandQueue2D r" and "m_RenderTexture r' = m_RenderTexture r"
    and "rendered r' = rendered r" and "\<not> m_Empty r'" and "tracks [m_Textures r] r r'"
    and "gpu r' = gpu r @ [DrawIndexed \<lparr>d_batch = m_BatchDrawCallIndex r, d_vertices = m_Buffer r, d_count = m_IndexCount r,
          d_textures = m_Textures r\<rparr>]"
proof -
  let ?u = "UpdateDesciptorSet (r\<lparr>m_Empty := False\<rparr>)"
  let ?v = "?u\<lparr>m_Bound := m_Bound ?u @ [if length (m_Textures ?u) > 0 then Some (length (m_Sets ?u) - 1) else None]\<rparr>"
  let ?w = "issue (DrawIndexed \<lparr>d_batch = m_BatchDrawCallIndex ?v, d_vertices = m_Buffer ?v, d_count = m_IndexCount ?v,
          d_textures = m_Textures ?v\<rparr>) ?v"
  let ?r = "?w\<lparr>m_IndexCount := 0, m_BatchDrawCallIndex := m_BatchDrawCallIndex ?w + 1\<rparr>"
  have p: "Present r = ok ?r" using assms by (simp add: Present_def Let_def)
  show ?thesis
    by (rule that [OF p]; (rule Present_tracks [OF p assms(2)])?; simp add: UpdateDesciptorSet_def issue_def Let_def)
qed

definition same_frame :: "'f renderer2d \<Rightarrow> 'f renderer2d \<Rightarrow> bool" where
  "same_frame r r' \<longleftrightarrow> m_CommandQueue2D r' = m_CommandQueue2D r \<and> m_RenderTexture r' = m_RenderTexture r"

lemma same_frame_trans: "same_frame a b \<Longrightarrow> same_frame b c \<Longrightarrow> same_frame a c"
  by (simp add: same_frame_def)

lemma flush_filling:
  assumes "filling k b r" "fst b \<noteq> []"
  shows "if k < 99 then \<exists>r'. FlushAndReset r = ok r' \<and> filling (k + 1) ([], []) r' \<and> same_frame r r'
            \<and> rendered r' = rendered r \<and> gpu r' = gpu r @ [batch_draw k b] \<and> tracks [snd b] r r'
         else FlushAndReset r = fail OutOfRange"
proof -
  have k: "m_BatchDrawCallIndex r < MaxBatchDrawCalls (m_Limits r)" "m_IndexCount r \<noteq> 0" using assms by (simp_all add: filling_def)
  obtain r1 where r1: "Present r = ok r1" "m_IndexCount r1 = 0" "m_BatchDrawCallIndex r1 = m_BatchDrawCallIndex r + 1"
    "m_Limits r1 = m_Limits r" "m_CommandQueue2D r1 = m_CommandQueue2D r" "m_RenderTexture r1 = m_RenderTexture r"
    "rendered r1 = rendered r" "tracks [m_Textures r] r r1"
    "gpu r1 = gpu r @ [DrawIndexed \<lparr>d_batch = m_BatchDrawCallIndex r, d_vertices = m_Buffer r, d_count = m_IndexCount r,
          d_textures = m_Textures r\<rparr>]"
    using Present_draws [OF k] by metis
  let ?r = "r1\<lparr>m_Textures := [], m_Triangles := [], m_Buffer := []\<rparr>"
  have "tracks [snd b] r ?r"
    using tracks_trans [OF r1(8) tracks_same, of ?r] assms by (simp add: filling_def)
  then show ?thesis using assms r1
    by (simp add: filling_def FlushAndReset_def map_buffer_def same_frame_def batch_draw_def batch_ok_empty batch_vertices_def)
qed

lemma push_filling:
  assumes f: "filling k b r" and n: "\<not> needs_flush 10000 16 c b"
  shows "\<exists>r'. SubmitCommand c r = ok r' \<and> filling k (add_command c b) r' \<and> same_frame r r' \<and> rendered r' = rendered r + 1 \<and> gpu r' = gpu r
    \<and> tracks [] r r'"
proof -
  let ?r = "r\<lparr>rendered := Suc (rendered r)\<rparr>"
  have len: "length (fst b) < 10000" and ok: "batch_ok b" and lim: "m_Limits r = the_limits"
    using f n by (auto simp: filling_def needs_flush_def)
  let ?slot = "slot_of (snd (add_command c b)) c"
  let ?r1 = "?r\<lparr>m_Textures := snd (add_command c b)\<rparr>"
  have t: "(case m_Texture (cmd_renderable c) of None \<Rightarrow> ok (0, ?r) | Some t \<Rightarrow> SubmitTexture t ?r) = ok (?slot, ?r1)"
  proof (cases "tex_of c")
    case None
    then have "?r1 = ?r" using f by (simp add: add_command_def filling_def)
    then show ?thesis using None by (simp add: slot_of_def tex_of_def)
  next
    case (Some t)
    show ?thesis
    proof (cases "t \<in> set (snd b)")
      case True
      then obtain i where i: "texture_slot t (snd b) 0 = Some i" using texture_slot_None [of t "snd b" 0] by blast
      have "?r1 = ?r" using f Some True by (simp add: add_command_def filling_def)
      then show ?thesis using Some True i f by (simp add: tex_of_def SubmitTexture_def filling_def slot_of_def add_command_def)
    next
      case False
      then have "length (snd b) < 16" using n Some by (auto simp: needs_flush_def)
      then show ?thesis using Some False f texture_slot_None [of t "snd b" 0] texture_slot_last [OF False, of 0]
        by (simp add: tex_of_def SubmitTexture_def filling_def slot_of_def add_command_def MAX_BOUND_TEXTURES_def Let_def lim)
    qed
  qed
  have buf: "m_Buffer r = batch_vertices b" "length (m_Buffer r) = 4 * length (fst b)"
    using f by (simp_all add: filling_def length_batch_vertices)
  have "write_all (quad_vertices (cmd_renderable c) (cmd_transform c) ?slot) ?r1 = ok (?r1\<lparr>m_Buffer := batch_vertices (add_command c b)\<rparr>)"
    using write_all_ok [of ?r1] len lim buf by (simp add: batch_vertices_add [OF ok])
  moreover have "\<not> 60000 \<le> m_IndexCount r" using f len by (simp add: filling_def)
  ultimately have "SubmitCommand c r = ok (?r1\<lparr>m_Buffer := batch_vertices (add_command c b), m_IndexCount := m_IndexCount r + 6\<rparr>)"
    using t lim by (simp add: SubmitCommand_def Let_def)
  moreover have "length (snd (add_command c b)) \<le> 16" "length (fst (add_command c b)) \<le> 10000"
    using f n len by (auto simp: add_command_def filling_def needs_flush_def split: option.splits)
  ultimately show ?thesis using f len batch_ok_add [OF ok, of c]
    by (auto simp: filling_def same_frame_def add_command_def intro: tracks_same)
qed

lemma filling_flush_nonempty:
  assumes "filling k b r" "needs_flush 10000 16 c b" shows "fst b \<noteq> []"
  using assms by (auto simp: filling_def needs_flush_def batch_ok_def split: option.splits)

text \<open>A command that does not fit flushes the batch and opens the next one.\<close>

lemma flush_push_filling:
  assumes f: "filling k b r" and n: "needs_flush 10000 16 c b"
  shows "if k < 99 then \<exists>r'. SubmitCommand c r = ok r' \<and> filling (k + 1) (add_command c ([], [])) r' \<and> same_frame r r'
            \<and> rendered r' = rendered r + 1 \<and> gpu r' = gpu r @ [batch_draw k b] \<and> tracks [snd b] r r'
         else SubmitCommand c r = fail OutOfRange"
proof -
  let ?r = "r\<lparr>rendered := Suc (rendered r)\<rparr>"
  have fr: "filling k b ?r" using f by (simp add: filling_def)
  note fl = flush_filling [OF fr filling_flush_nonempty [OF f n]]
  have split: "SubmitCommand c r = rbind (FlushAndReset ?r) (\<lambda>r1. SubmitCommand c (r1\<lparr>rendered := rendered r\<rparr>))"
  proof (cases "m_IndexCount r \<ge> 60000")
    case True
    show ?thesis
    proof (cases "FlushAndReset ?r")
      case (Inl e)
      then show ?thesis using True f by (simp add: SubmitCommand_def filling_def)
    next
      case (Inr r1)
      then have r1: "filling (k + 1) ([], []) r1" "rendered r1 = Suc (rendered r)" using fl by (auto split: if_splits)
      then have e: "r1\<lparr>rendered := Suc (rendered r)\<rparr> = r1" by (cases r1) simp
      then show ?thesis using True Inr f r1 by (simp add: e SubmitCommand_def filling_def Let_def)
    qed
  next
    case False
    then have l: "length (fst b) < 10000" using f by (simp add: filling_def)
    then obtain t where t: "tex_of c = Some t" "t \<notin> set (snd b)" "16 \<le> length (snd b)"
      using n by (auto simp: needs_flush_def split: option.splits)
    then have st: "SubmitTexture t ?r = rbind (FlushAndReset ?r) (\<lambda>r.
           if length (m_Textures r) \<ge> MAX_BOUND_TEXTURES then fail OutOfRange
           else (let r = r\<lparr>m_Textures := m_Textures r @ [t]\<rparr> in ok (length (m_Textures r), r)))"
      using f texture_slot_None [of t "snd b" 0] by (simp add: SubmitTexture_def filling_def)
    show ?thesis
    proof (cases "FlushAndReset ?r")
      case (Inl e)
      then show ?thesis using False f t st by (simp add: SubmitCommand_def filling_def tex_of_def)
    next
      case (Inr r1)
      then have r1: "filling (k + 1) ([], []) r1" "rendered r1 = Suc (rendered r)" using fl by (auto split: if_splits)
      then have e: "r1\<lparr>rendered := Suc (rendered r)\<rparr> = r1" by (cases r1) simp
      then show ?thesis using False Inr f r1 t st by (simp add: e SubmitCommand_def filling_def Let_def tex_of_def SubmitTexture_def)
    qed
  qed
  show ?thesis
  proof (cases "k < 99")
    case True
    then obtain r1 where r1: "FlushAndReset ?r = ok r1" "filling (k + 1) ([], []) r1" "same_frame ?r r1"
      "rendered r1 = rendered r + 1" "gpu r1 = gpu r @ [batch_draw k b]" "tracks [snd b] ?r r1"
      using fl by auto
    have "filling (k + 1) ([], []) (r1\<lparr>rendered := rendered r\<rparr>)" using r1(2) by (simp add: filling_def)
    moreover have "\<not> needs_flush 10000 16 c ([], [])" by (simp add: needs_flush_def split: option.splits)
    ultimately obtain r' where r': "SubmitCommand c (r1\<lparr>rendered := rendered r\<rparr>) = ok r'" "filling (k + 1) (add_command c ([], [])) r'"
      "same_frame (r1\<lparr>rendered := rendered r\<rparr>) r'" "rendered r' = rendered r + 1" "gpu r' = gpu r1" "tracks [] (r1\<lparr>rendered := rendered r\<rparr>) r'"
      using push_filling [of "k + 1" "([], [])" "r1\<lparr>rendered := rendered r\<rparr>" c] by auto
    have "tracks [snd b] r r'"
      using r1(6) r'(6) by (simp add: tracks_def sets_ok_def sets_of_def del: bind_set.simps split del: if_split)
    then show ?thesis using True split r1 r' by (auto simp: same_frame_def)
  next
    case False
    then show ?thesis using split fl by simp
  qed
qed

abbreviation submit_all :: "'f :: linordered_field command2d list \<Rightarrow> 'f renderer2d res \<Rightarrow> 'f renderer2d res" where
  "submit_all cs r \<equiv> fold (\<lambda>c m. rbind m (SubmitCommand c)) cs r"

lemma submit_all_fail: "submit_all cs (fail e) = fail e"
  by (induction cs) simp_all

fun draws_from :: "nat \<Rightarrow> 'f :: linordered_field batch list \<Rightarrow> ('f vertex_data, texture) gpu_call list" where
  "draws_from k [] = []"
| "draws_from k (b # bs) = batch_draw k b # draws_from (Suc k) bs"

lemma draws_from_snoc: "draws_from k (bs @ [b]) = draws_from k bs @ [batch_draw (k + length bs) b]"
  by (induction bs arbitrary: k) auto

text \<open>The finished batches and the one being filled.\<close>

fun cut :: "'f batch \<Rightarrow> 'f command2d list \<Rightarrow> 'f batch list \<times> 'f batch" where
  "cut b [] = ([], b)"
| "cut b (c # cs) =
    (if needs_flush 10000 16 c b then (b # fst (cut (add_command c ([], [])) cs), snd (cut (add_command c ([], [])) cs))
     else cut (add_command c b) cs)"

lemma batches_cut: "batches 10000 16 b cs = fst (cut b cs) @ (if fst (snd (cut b cs)) = [] then [] else [snd (cut b cs)])"
  by (induction cs arbitrary: b) auto

lemma cut_last_nonempty: "fst (snd (cut b cs)) = [] \<longleftrightarrow> fst b = [] \<and> cs = []"
  by (induction cs arbitrary: b) (auto simp: add_command_def)

text \<open>The state after a part of the queue: the finished batches are drawn, the last one is being filled.\<close>

lemma queue_filling:
  assumes "filling k b r"
  shows "if k + length (fst (cut b cs)) < 100
     then \<exists>r'. submit_all cs (ok r) = ok r' \<and> filling (k + length (fst (cut b cs))) (snd (cut b cs)) r' \<and> same_frame r r'
            \<and> rendered r' = rendered r + length cs \<and> gpu r' = gpu r @ draws_from k (fst (cut b cs))
            \<and> tracks (map snd (fst (cut b cs))) r r'
     else submit_all cs (ok r) = fail OutOfRange"
  using assms
proof (induction cs arbitrary: k b r)
  case Nil
  then show ?case by (simp add: filling_def same_frame_def tracks_same)
next
  case (Cons c cs)
  show ?case
  proof (cases "needs_flush 10000 16 c b")
    case False
    then obtain r1 where r1: "SubmitCommand c r = ok r1" "filling k (add_command c b) r1" "same_frame r r1"
      "rendered r1 = rendered r + 1" "gpu r1 = gpu r" "tracks [] r r1"
      using push_filling [OF Cons.prems] by blast
    show ?thesis using Cons.IH [OF r1(2)] False r1 same_frame_trans [OF r1(3)] tracks_trans [OF r1(6), simplified]
      by (simp split: if_splits) blast
  next
    case True
    let ?d = "cut (add_command c ([], [])) cs"
    show ?thesis
    proof (cases "k < 99")
      case k: True
      then obtain r1 where r1: "SubmitCommand c r = ok r1" "filling (k + 1) (add_command c ([], [])) r1" "same_frame r r1"
        "rendered r1 = rendered r + 1" "gpu r1 = gpu r @ [batch_draw k b]" "tracks [snd b] r r1"
        using flush_push_filling [OF Cons.prems True] by auto
      note IH = Cons.IH [OF r1(2)]
      show ?thesis
      proof (cases "k + 1 + length (fst ?d) < 100")
        case l: True
        with IH obtain r' where r': "submit_all cs (ok r1) = ok r'" "filling (k + 1 + length (fst ?d)) (snd ?d) r'" "same_frame r1 r'"
          "rendered r' = rendered r1 + length cs" "gpu r' = gpu r1 @ draws_from (k + 1) (fst ?d)"
          "tracks (map snd (fst ?d)) r1 r'" by auto
        have "fst (cut b (c # cs)) = b # fst ?d" "snd (cut b (c # cs)) = snd ?d" using True by simp_all
        moreover have "gpu r' = gpu r @ draws_from k (b # fst ?d)" using r'(5) r1(5) by (simp)
        moreover have "tracks (map snd (b # fst ?d)) r r'" using tracks_trans [OF r1(6) r'(6)] by simp
        ultimately show ?thesis using l r1 r'(1-4) same_frame_trans [OF r1(3) r'(3)] by (simp del: cut.simps)
      next
        case l: False
        with IH have "submit_all cs (ok r1) = fail OutOfRange" by simp
        then show ?thesis using l r1 True by simp
      qed
    next
      case k: False
      then have "SubmitCommand c r = fail OutOfRange" using flush_push_filling [OF Cons.prems True] by simp
      then show ?thesis using k True by (simp add: submit_all_fail)
    qed
  qed
qed

text \<open>Between frames no batch is open.\<close>

definition idle :: "'f renderer2d \<Rightarrow> bool" where
  "idle r \<longleftrightarrow> m_Limits r = the_limits \<and> m_BatchDrawCallIndex r = 0 \<and> m_IndexCount r = 0"

lemma idle_new: "idle renderer2d_new"
  by (simp add: idle_def renderer2d_new_def the_limits_def)

lemma Present_filling:
  assumes "filling k b r"
  shows "\<exists>r'. Present r = ok r' \<and> same_frame r r' \<and> m_Limits r' = the_limits \<and> m_IndexCount r' = 0 \<and> rendered r' = rendered r
     \<and> (m_Empty r' \<longleftrightarrow> fst b = []) \<and> gpu r' = gpu r @ (if fst b = [] then [] else [batch_draw k b])
     \<and> tracks (if fst b = [] then [] else [snd b]) r r'"
proof (cases "fst b = []")
  case True
  then have "Present r = ok (r\<lparr>m_Empty := True\<rparr>)" using assms by (simp add: Present_def filling_def)
  then show ?thesis using True assms by (simp add: filling_def same_frame_def tracks_same)
next
  case False
  then have k: "m_BatchDrawCallIndex r < MaxBatchDrawCalls (m_Limits r)" "m_IndexCount r \<noteq> 0"
    using assms by (simp_all add: filling_def)
  obtain r1 where r1: "Present r = ok r1" "m_IndexCount r1 = 0"
    "m_Limits r1 = m_Limits r" "m_CommandQueue2D r1 = m_CommandQueue2D r" "m_RenderTexture r1 = m_RenderTexture r"
    "rendered r1 = rendered r" "\<not> m_Empty r1" "tracks [m_Textures r] r r1"
    "gpu r1 = gpu r @ [DrawIndexed \<lparr>d_batch = m_BatchDrawCallIndex r, d_vertices = m_Buffer r, d_count = m_IndexCount r,
          d_textures = m_Textures r\<rparr>]"
    using Present_draws [OF k] by metis
  then show ?thesis using False assms by (simp add: filling_def same_frame_def batch_draw_def)
qed

text \<open>One frame of the 2D renderer: when the queue splits into more than a hundred batches, the renderer uses
  a vertex buffer that does not exist; otherwise it draws exactly these batches, in order, presents the frame unless it
  is empty or goes to a texture, and is ready for the next frame.\<close>

lemma render_scene_draws:
  assumes "idle r"
  shows "if length (batches 10000 16 ([], []) (m_CommandQueue2D r)) > 100 then RenderScene r = fail OutOfRange
    else \<exists>r'. RenderScene r = ok r' \<and> idle r' \<and> same_frame r r' \<and> rendered r' = rendered r + length (m_CommandQueue2D r)
      \<and> gpu r' = gpu r @ [BeginPass] @ draws_from 0 (batches 10000 16 ([], []) (m_CommandQueue2D r)) @ [EndPass]
          @ (if m_RenderTexture r then [ExecuteBuffer] else if m_CommandQueue2D r = [] then [] else [PresentToScreen])
      \<and> tracks (map snd (batches 10000 16 ([], []) (m_CommandQueue2D r))) r r'"
proof -
  let ?r = "(issue BeginPass r)\<lparr>m_Textures := [], m_Triangles := [], m_Buffer := []\<rparr>"
  let ?cs = "m_CommandQueue2D r" let ?b = "([], []) :: 'a batch"
  have b: "Begin r = ok ?r" using assms by (simp add: Begin_def idle_def map_buffer_def issue_def)
  have f: "filling 0 ?b ?r"
    using assms by (simp add: filling_def idle_def issue_def batch_vertices_def batch_ok_empty)
  have q: "SubmitQueue ?r = submit_all ?cs (ok ?r)" by (simp add: SubmitQueue_def issue_def)
  note qf = queue_filling [OF f, of ?cs]
  have e: "fst (snd (cut ?b ?cs)) = [] \<longleftrightarrow> ?cs = []" by (simp add: cut_last_nonempty)
  have len: "length (batches 10000 16 ?b ?cs) > 100 \<longleftrightarrow> \<not> length (fst (cut ?b ?cs)) < 100"
    unfolding batches_cut using e by (cases "?cs = []") auto
  show ?thesis
  proof (cases "length (fst (cut ?b ?cs)) < 100")
    case False
    with qf b q len show ?thesis by (simp add: RenderScene_def)
  next
    case True
    with qf obtain r1 where r1: "submit_all ?cs (ok ?r) = ok r1" "filling (length (fst (cut ?b ?cs))) (snd (cut ?b ?cs)) r1"
      "same_frame ?r r1" "rendered r1 = rendered ?r + length ?cs" "gpu r1 = gpu ?r @ draws_from 0 (fst (cut ?b ?cs))"
      "tracks (map snd (fst (cut ?b ?cs))) ?r r1" by auto
    from Present_filling [OF r1(2)] obtain r2 where r2: "Present r1 = ok r2" "same_frame r1 r2" "m_Limits r2 = the_limits"
      "m_IndexCount r2 = 0" "rendered r2 = rendered r1" "m_Empty r2 \<longleftrightarrow> ?cs = []"
      "gpu r2 = gpu r1 @ (if ?cs = [] then [] else [batch_draw (length (fst (cut ?b ?cs))) (snd (cut ?b ?cs))])"
      "tracks (if ?cs = [] then [] else [snd (snd (cut ?b ?cs))]) r1 r2"
      unfolding e by blast
    have "tracks [] r ?r" by (rule tracks_same) (simp_all add: issue_def)
    then have "tracks (map snd (batches 10000 16 ?b ?cs)) r r2"
      using tracks_trans [OF tracks_trans [OF _ r1(6)] r2(8), of "[]" r] e unfolding batches_cut by auto
    then have tr: "tracks (map snd (batches 10000 16 ?b ?cs)) r (End r2)"
      using tracks_trans [OF _ tracks_same, of _ r r2 "End r2"] by (simp add: End_def issue_def Let_def)
    have "RenderScene r = ok (End r2)" using b q r1(1) r2(1) by (simp add: RenderScene_def)
    moreover have "idle (End r2)" using r2 by (simp add: idle_def End_def issue_def Let_def)
    moreover have sf: "same_frame r r2" using r1(3) r2(2) by (simp add: same_frame_def issue_def)
    then have "same_frame r (End r2)" by (simp add: same_frame_def End_def issue_def Let_def)
    moreover have "rendered (End r2) = rendered r + length ?cs" using r1(4) r2(5) by (simp add: End_def issue_def Let_def)
    moreover have "gpu r2 = gpu r @ [BeginPass] @ draws_from 0 (batches 10000 16 ?b ?cs)"
      using r2(7) r1(5) e unfolding batches_cut by (cases "?cs = []") (simp_all add: issue_def draws_from_snoc)
    then have "gpu (End r2) = gpu r @ [BeginPass] @ draws_from 0 (batches 10000 16 ?b ?cs) @ [EndPass]
          @ (if m_RenderTexture r then [ExecuteBuffer] else if ?cs = [] then [] else [PresentToScreen])"
      using sf r2(6) by (simp add: End_def issue_def Let_def same_frame_def)
    ultimately show ?thesis using True len tr by simp
  qed
qed

section \<open>Every sprite is drawn once\<close>

lemma batches_cover: "concat (map fst (batches q n b cs)) = fst b @ cs"
  by (induction cs arbitrary: b) (auto simp: add_command_def)

lemma batches_ok: "batch_ok b \<Longrightarrow> d \<in> set (batches q n b cs) \<Longrightarrow> batch_ok d"
proof (induction cs arbitrary: b)
  case (Cons c cs)
  note IH = Cons.IH [OF batch_ok_add [OF batch_ok_empty], of c] Cons.IH [OF batch_ok_add [OF Cons.prems(1)], of c]
  show ?case using Cons.prems IH by (cases "needs_flush q n c b") auto
qed (auto split: if_splits)

lemma batches_bounded:
  assumes "0 < q" "length (fst b) \<le> q" "d \<in> set (batches q n b cs)"
  shows "length (fst d) \<le> q"
  using assms(2,3)
proof (induction cs arbitrary: b)
  case (Cons c cs)
  have "length (fst (add_command c ([], []))) \<le> q" using assms(1) by (simp add: add_command_def)
  moreover have "\<not> needs_flush q n c b \<Longrightarrow> length (fst (add_command c b)) \<le> q"
    by (auto simp: needs_flush_def add_command_def)
  ultimately show ?case using Cons.prems Cons.IH [of "add_command c ([], [])"] Cons.IH [of "add_command c b"]
    by (cases "needs_flush q n c b") auto
qed (auto split: if_splits)

text \<open>A batch is closed with 16 commands at least, so 1600 commands fit into a hundred batches.\<close>

lemma batches_length:
  assumes "batch_ok b"
  shows "16 * length (batches 10000 16 b cs) \<le> length (fst b) + length cs + 15"
  using assms
proof (induction cs arbitrary: b)
  case Nil
  then show ?case by (cases "fst b") auto
next
  case (Cons c cs)
  show ?case
  proof (cases "needs_flush 10000 16 c b")
    case True
    then have "16 \<le> length (fst b)" using Cons.prems by (auto simp: needs_flush_def batch_ok_def split: option.splits)
    moreover have "16 * length (batches 10000 16 (add_command c ([], [])) cs) \<le> 1 + length cs + 15"
      using Cons.IH [OF batch_ok_add [OF batch_ok_empty], of c] by (simp add: add_command_def)
    ultimately show ?thesis using True by simp
  next
    case False
    then show ?thesis using Cons.IH [OF batch_ok_add [OF Cons.prems], of c] by (simp add: add_command_def)
  qed
qed

text \<open>What a draw call puts on the screen: the vertices the index buffer names, with the texture of their slot.\<close>

definition resolve :: "texture list \<Rightarrow> 'f vertex_data \<Rightarrow> 'f vertex_data \<times> texture option" where
  "resolve ts v = (v\<lparr>vd_tid := 0\<rparr>, if vd_tid v = 0 then None else Some (ts ! (vd_tid v - 1)))"

fun drawn :: "('f vertex_data, texture) gpu_call \<Rightarrow> ('f vertex_data \<times> texture option) list" where
  "drawn (DrawIndexed d) = map (\<lambda>i. resolve (d_textures d) (d_vertices d ! i)) (take (d_count d) (index_buffer False the_limits))"
| "drawn _ = []"

definition two_triangles :: "'a list \<Rightarrow> 'a list" where
  "two_triangles q = [q ! 0, q ! 1, q ! 2, q ! 2, q ! 3, q ! 0]"

definition sprite_triangles :: "'f :: linordered_field command2d \<Rightarrow> ('f vertex_data \<times> texture option) list" where
  "sprite_triangles c = map (\<lambda>v. (v, tex_of c)) (two_triangles (quad_vertices (cmd_renderable c) (cmd_transform c) 0))"

lemma nth_concat_uniform:
  assumes "\<And>x. length (g x) = n" "k < length xs" "j < n"
  shows "concat (map g xs) ! (n * k + j) = g (xs ! k) ! j"
  using assms(2)
proof (induction xs arbitrary: k)
  case (Cons x xs)
  show ?case
  proof (cases k)
    case 0
    then show ?thesis using assms by (simp add: nth_append)
  next
    case (Suc k')
    then have "n * k + j - n = n * k' + j" "\<not> n * k + j < n" by simp_all
    then show ?thesis using Cons Suc assms(1) by (simp add: nth_append)
  qed
qed simp

lemma take_quad_indices:
  assumes "m \<le> 10000"
  shows "take (6 * m) (index_buffer False the_limits) = concat (map (\<lambda>k. map (\<lambda>j. 4 * k + j) [0, 1, 2, 2, 3, 0]) [0..<m])"
proof -
  let ?f = "\<lambda>k. map (\<lambda>j. 4 * k + j) [0, 1, 2, 2, 3, 0 :: nat]"
  have "index_buffer False the_limits = concat (map ?f [0..<10000])"
    by (simp add: index_buffer_def quad_indices_def Let_def)
  also have "[0..<10000] = [0..<m] @ [m..<10000]" using assms upt_add_eq_append [of 0 m "10000 - m"] by simp
  finally have "index_buffer False the_limits = concat (map ?f [0..<m]) @ concat (map ?f [m..<10000])" by (simp only: map_append concat_append)
  moreover have "length (concat (map ?f [0..<m])) = 6 * m" by (simp add: length_concat comp_def sum_list_triv)
  ultimately show ?thesis by simp
qed

lemma resolve_quad:
  assumes "batch_ok b" "c \<in> set (fst b)" "v \<in> set (quad_vertices (cmd_renderable c) (cmd_transform c) (slot_of (snd b) c))"
  shows "resolve (snd b) v = (v\<lparr>vd_tid := 0\<rparr>, tex_of c)"
proof -
  have v: "vd_tid v = slot_of (snd b) c" using assms(3) by (auto simp: quad_vertices_def Let_def)
  show ?thesis
  proof (cases "tex_of c")
    case (Some t)
    then have "t \<in> set (snd b)" using assms by (auto simp: batch_ok_def)
    then obtain k where "texture_slot t (snd b) 0 = Some k" using texture_slot_None [of t "snd b" 0] by blast
    then show ?thesis using texture_slot_Some [of t "snd b" 0 k] Some v by (simp add: resolve_def slot_of_def)
  qed (use v in \<open>simp add: resolve_def slot_of_def\<close>)
qed

lemma quad_vertices_tid: "map (\<lambda>v. v\<lparr>vd_tid := 0\<rparr>) (quad_vertices s m k) = quad_vertices s m 0"
  by (simp add: quad_vertices_def Let_def)

lemma drawn_batch:
  assumes b: "batch_ok b" and l: "length (fst b) \<le> 10000"
  shows "drawn (batch_draw k b) = concat (map sprite_triangles (fst b))"
proof -
  let ?q = "\<lambda>c. quad_vertices (cmd_renderable c) (cmd_transform c) (slot_of (snd b) c)"
  have n: "batch_vertices b ! (4 * i + j) = ?q (fst b ! i) ! j" if "i < length (fst b)" "j < 4" for i j
    unfolding batch_vertices_def by (rule nth_concat_uniform) (use that in simp_all)
  have r: "resolve (snd b) (?q c ! j) = (quad_vertices (cmd_renderable c) (cmd_transform c) 0 ! j, tex_of c)"
    if "c \<in> set (fst b)" "j < 4" for c j
  proof -
    have "?q c ! j \<in> set (?q c)" using that by simp
    moreover have "(?q c ! j)\<lparr>vd_tid := 0\<rparr> = quad_vertices (cmd_renderable c) (cmd_transform c) 0 ! j"
      using that(2) nth_map [of j "?q c" "\<lambda>v. v\<lparr>vd_tid := 0\<rparr>"] by (simp add: quad_vertices_tid)
    ultimately show ?thesis using resolve_quad [OF b that(1)] by simp
  qed
  have i: "map (\<lambda>j. resolve (snd b) (batch_vertices b ! (4 * i + j))) [0, 1, 2, 2, 3, 0] = sprite_triangles (fst b ! i)"
    if "i < length (fst b)" for i
  proof -
    have "resolve (snd b) (batch_vertices b ! (4 * i + j)) = (quad_vertices (cmd_renderable (fst b ! i)) (cmd_transform (fst b ! i)) 0 ! j, tex_of (fst b ! i))"
      if "j < 4" for j using n r \<open>i < length (fst b)\<close> that by simp
    from this [of 0] this [of 1] this [of 2] this [of 3] show ?thesis by (simp add: sprite_triangles_def two_triangles_def)
  qed
  have "drawn (batch_draw k b) = concat (map (\<lambda>i. map (\<lambda>j. resolve (snd b) (batch_vertices b ! (4 * i + j))) [0, 1, 2, 2, 3, 0]) [0..<length (fst b)])"
    by (simp add: batch_draw_def take_quad_indices [OF l] map_concat comp_def)
  also have "\<dots> = concat (map (\<lambda>i. sprite_triangles (fst b ! i)) [0..<length (fst b)])"
    using i by (intro arg_cong [where f = concat] map_cong refl) simp
  also have "map (\<lambda>i. sprite_triangles (fst b ! i)) [0..<length (fst b)] = map sprite_triangles (fst b)"
    by (rule nth_equalityI) simp_all
  finally show ?thesis .
qed

lemma drawn_batches:
  assumes "\<And>d. d \<in> set bs \<Longrightarrow> batch_ok d \<and> length (fst d) \<le> 10000"
  shows "concat (map drawn (draws_from k bs)) = concat (map sprite_triangles (concat (map fst bs)))"
  using assms by (induction bs arbitrary: k) (simp_all add: drawn_batch)

text \<open>A back end that draws later (Vulkan records the calls and runs them at the end of the frame) reads every descriptor set as it was written
  last: what the frame from \<open>r\<close> to \<open>r'\<close> then puts on the screen.\<close>

fun drawn_with :: "texture list \<Rightarrow> ('f vertex_data, texture) gpu_call \<Rightarrow> ('f vertex_data \<times> texture option) list" where
  "drawn_with ts (DrawIndexed d) = drawn (DrawIndexed (d\<lparr>d_textures := ts\<rparr>))"
| "drawn_with ts c = []"

fun is_draw :: "('v, 't) gpu_call \<Rightarrow> bool" where
  "is_draw (DrawIndexed d) \<longleftrightarrow> True"
| "is_draw c \<longleftrightarrow> False"

definition drawn_late :: "'f renderer2d \<Rightarrow> 'f renderer2d \<Rightarrow> ('f vertex_data \<times> texture option) list" where
  "drawn_late r r' = concat (map2 (\<lambda>c i. drawn_with (case i of None \<Rightarrow> [] | Some i \<Rightarrow> m_Sets r' ! i) c)
     (filter is_draw (drop (length (gpu r)) (gpu r'))) (drop (length (m_Bound r)) (m_Bound r')))"

text \<open>The textures a recorded batch meets at the end: those of the last batch in a row that use as many.\<close>

fun left_in_set :: "texture list \<Rightarrow> texture list list \<Rightarrow> texture list" where
  "left_in_set ts [] = ts"
| "left_in_set ts (us # tss) =
    (if us = [] then left_in_set ts tss else if length us = length ts then left_in_set us tss else ts)"

lemma write_set_simps: "S \<noteq> [] \<Longrightarrow> write_set ts S \<noteq> []" "ts \<noteq> [] \<Longrightarrow> last (write_set ts S) = ts" "length S \<le> length (write_set ts S)"
  "i < length S - 1 \<Longrightarrow> write_set ts S ! i = S ! i"
  by (auto simp: write_set_def nth_append nth_butlast)

lemma bind_sets_old: "i < length S - 1 \<Longrightarrow> fst (fold bind_set tss (S, B)) ! i = S ! i"
proof (induction tss arbitrary: S B)
  case (Cons ts tss)
  have "i < length (write_set ts S) - 1" using Cons.prems write_set_simps(3) [of S ts] by linarith
  with Cons write_set_simps(4) show ?case by simp
qed simp

lemma bind_sets_last: "S \<noteq> [] \<Longrightarrow> last S \<noteq> [] \<Longrightarrow> fst (fold bind_set tss (S, B)) ! (length S - 1) = left_in_set (last S) tss"
proof (induction tss arbitrary: S B)
  case Nil
  then show ?case by (simp add: last_conv_nth)
next
  case (Cons ts tss)
  note IH = Cons.IH [OF write_set_simps(1) [OF Cons.prems(1)], of ts]
  consider "ts = []" | "ts \<noteq> []" "length ts = length (last S)" | "ts \<noteq> []" "length ts \<noteq> length (last S)" by blast
  then show ?case
  proof cases
    case 1
    then show ?thesis using Cons by (simp add: write_set_def)
  next
    case 2
    then have "length (write_set ts S) = length S" using Cons.prems(1) by (simp add: write_set_def)
    then show ?thesis using 2 IH write_set_simps(2) [OF 2(1), of S] by simp
  next
    case 3
    then have "write_set ts S = S @ [ts]" by (simp add: write_set_def)
    moreover have "length S - 1 < length (S @ [ts]) - 1" using Cons.prems(1) by (cases S) auto
    ultimately show ?thesis using 3 bind_sets_old [of "length S - 1" "S @ [ts]" tss] Cons.prems(1)
      by (simp add: nth_append last_conv_nth)
  qed
qed

lemma bind_sets_bound:
  assumes "S \<noteq> []"
  shows "\<exists>bs. snd (fold bind_set tss (S, B)) = B @ bs \<and> length bs = length tss
    \<and> (\<forall>i < length tss. (case bs ! i of None \<Rightarrow> [] | Some j \<Rightarrow> fst (fold bind_set tss (S, B)) ! j)
         = (if tss ! i = [] then [] else left_in_set (tss ! i) (drop (Suc i) tss)))"
  using assms
proof (induction tss arbitrary: S B)
  case (Cons ts tss)
  let ?S = "write_set ts S" and ?b = "if ts = [] then None else Some (length (write_set ts S) - 1)"
  have ne: "?S \<noteq> []" by (rule write_set_simps(1) [OF Cons.prems])
  obtain bs where bs: "snd (fold bind_set tss (?S, B @ [?b])) = (B @ [?b]) @ bs" "length bs = length tss"
    "\<forall>i < length tss. (case bs ! i of None \<Rightarrow> [] | Some j \<Rightarrow> fst (fold bind_set tss (?S, B @ [?b])) ! j)
         = (if tss ! i = [] then [] else left_in_set (tss ! i) (drop (Suc i) tss))"
    using Cons.IH [OF ne, of "B @ [?b]"] by blast
  have first: "(case ?b of None \<Rightarrow> [] | Some j \<Rightarrow> fst (fold bind_set tss (?S, B @ [?b])) ! j) = (if ts = [] then [] else left_in_set ts tss)"
    using bind_sets_last [OF ne, of tss "B @ [?b]"] write_set_simps(2) [of ts S] by (cases "ts = []") simp_all
  have f: "fold bind_set (ts # tss) (S, B) = fold bind_set tss (?S, B @ [?b])" by simp
  have at: "(case (?b # bs) ! i of None \<Rightarrow> [] | Some j \<Rightarrow> fst (fold bind_set tss (?S, B @ [?b])) ! j)
      = (if (ts # tss) ! i = [] then [] else left_in_set ((ts # tss) ! i) (drop (Suc i) (ts # tss)))" if "i < length (ts # tss)" for i
  proof (cases i)
    case (Suc j)
    then show ?thesis using that bs(3) by (simp only: nth_Cons_Suc drop_Suc_Cons length_Cons Suc_less_eq)
  qed (use first in \<open>simp only: nth_Cons_0 drop_Suc_Cons drop_0\<close>)
  show ?case unfolding f
    by (intro exI [of _ "?b # bs"] conjI allI impI at) (use bs(1,2) in \<open>simp_all split del: if_split\<close>)
qed simp

text \<open>No batch that uses textures is followed by one that uses as many.\<close>

definition sets_apart :: "texture list list \<Rightarrow> bool" where
  "sets_apart tss \<longleftrightarrow> successively (\<lambda>ts us. length ts \<noteq> length us) (filter (\<lambda>ts. ts \<noteq> []) tss)"

lemma sets_apart_left: "sets_apart (ts # tss) \<Longrightarrow> ts \<noteq> [] \<Longrightarrow> left_in_set ts tss = ts"
  by (induction tss) (auto simp: sets_apart_def)

lemma sets_apart_drop: "sets_apart tss \<Longrightarrow> sets_apart (drop i tss)"
proof (induction tss arbitrary: i)
  case (Cons ts tss)
  have "sets_apart tss" using Cons.prems by (cases "filter (\<lambda>ts. ts \<noteq> []) tss") (auto simp: sets_apart_def split: if_splits)
  with Cons show ?case by (cases i) auto
qed simp

lemma draws_from_simps: "length (draws_from k bs) = length bs" "filter is_draw (draws_from k bs) = draws_from k bs"
  "i < length bs \<Longrightarrow> draws_from k bs ! i = batch_draw (k + i) (bs ! i)"
  by (induction bs arbitrary: k i) (auto simp: batch_draw_def nth_Cons split: nat.splits)

lemma drawn_with_batch: "drawn_with (snd b) (batch_draw k b) = drawn (batch_draw k b)"
  by (simp add: batch_draw_def)

text \<open>Property C16. A queue of at most 1600 sprites never faults. On a back end that draws at once (OpenGL) the frame puts exactly their quads on
  the screen, in the order of the queue, as two triangles each with the colour, the coordinates and the texture of its sprite. On a back end
  that runs the recorded calls at the end of the frame (Vulkan) it does so as well, unless two batches in a row use the same number of textures: these
  share one descriptor set, which is written in place.\<close>

theorem sprites_drawn_once:
  assumes "idle r" "length (m_CommandQueue2D r) \<le> 1600"
  shows "\<exists>r'. RenderScene r = ok r' \<and> idle r' \<and>
    concat (map drawn (gpu r')) = concat (map drawn (gpu r)) @ concat (map sprite_triangles (m_CommandQueue2D r)) \<and>
    (sets_ok r \<longrightarrow> sets_ok r' \<and>
      (sets_apart (map snd (batches 10000 16 ([], []) (m_CommandQueue2D r))) \<longrightarrow>
        drawn_late r r' = concat (map sprite_triangles (m_CommandQueue2D r))))"
proof -
  let ?bs = "batches 10000 16 ([], []) (m_CommandQueue2D r)"
  have "16 * length ?bs \<le> 1615" using batches_length [OF batch_ok_empty, of "m_CommandQueue2D r"] assms(2) by simp
  then have "\<not> 100 < length ?bs" by simp
  with render_scene_draws [OF assms(1)] obtain r' tail where r': "RenderScene r = ok r'" "idle r'" "tracks (map snd ?bs) r r'"
    "gpu r' = gpu r @ [BeginPass] @ draws_from 0 ?bs @ [EndPass] @ tail" "concat (map drawn tail) = []" "filter is_draw tail = []"
    by (auto split: if_splits)
  have ok: "batch_ok d \<and> length (fst d) \<le> 10000" if "d \<in> set ?bs" for d
    using batches_ok [OF batch_ok_empty that] batches_bounded [of 10000 "([], [])" d 16] that by simp
  then have once: "concat (map drawn (draws_from 0 ?bs)) = concat (map sprite_triangles (m_CommandQueue2D r))"
    using drawn_batches [of ?bs 0] batches_cover [of 10000 16 "([], [])" "m_CommandQueue2D r"] by simp
  have "drawn_late r r' = concat (map sprite_triangles (m_CommandQueue2D r))"
    if s: "sets_ok r" and apart: "sets_apart (map snd ?bs)"
  proof -
    have ne: "m_Sets r \<noteq> []" and so: "sets_of r' = fold bind_set (map snd ?bs) (m_Sets r, m_Bound r)"
      using s r'(3) by (simp_all add: tracks_def sets_ok_def sets_of_def)
    obtain ids where b: "m_Bound r' = m_Bound r @ ids" "length ids = length (map snd ?bs)"
      "\<forall>i < length (map snd ?bs). (case ids ! i of None \<Rightarrow> [] | Some j \<Rightarrow> fst (sets_of r') ! j)
         = (if map snd ?bs ! i = [] then [] else left_in_set (map snd ?bs ! i) (drop (Suc i) (map snd ?bs)))"
      using bind_sets_bound [OF ne, of "map snd ?bs" "m_Bound r"] unfolding so [symmetric] by (auto simp only: sets_of_def snd_conv)
    have left: "(case ids ! i of None \<Rightarrow> [] | Some j \<Rightarrow> m_Sets r' ! j) = snd (?bs ! i)" if i: "i < length ?bs" for i
    proof -
      have "sets_apart (snd (?bs ! i) # drop (Suc i) (map snd ?bs))"
        using sets_apart_drop [OF apart, of i] i by (simp add: Cons_nth_drop_Suc [symmetric])
      then have "left_in_set (snd (?bs ! i)) (drop (Suc i) (map snd ?bs)) = snd (?bs ! i)" if "snd (?bs ! i) \<noteq> []"
        using that by (rule sets_apart_left)
      moreover have "map snd ?bs ! i = snd (?bs ! i)" using i by simp
      ultimately show ?thesis using spec [OF b(3), of i] i by (cases "snd (?bs ! i) = []") (simp_all only: length_map sets_of_def fst_conv if_True if_False simp_thms)
    qed
    have "drawn_late r r' = concat (map2 (\<lambda>c i. drawn_with (case i of None \<Rightarrow> [] | Some i \<Rightarrow> m_Sets r' ! i) c) (draws_from 0 ?bs) ids)"
      by (simp add: drawn_late_def r'(4,6) b(1) draws_from_simps(2))
    also have "\<dots> = concat (map drawn (draws_from 0 ?bs))"
      by (intro arg_cong [where f = concat] nth_equalityI)
        (simp_all add: draws_from_simps b(2) left drawn_with_batch)
    finally show ?thesis using once by simp
  qed
  then show ?thesis using r' once by (auto simp: tracks_def)
qed

text \<open>Two batches in a row with as many textures: when the frame is drawn, the first meets the textures of the second.\<close>

lemma deferred_batches_share_set:
  assumes "sets_ok r" and "tracks [ts, us] r r'" and "ts \<noteq> []" and "length us = length ts"
  shows "\<exists>i. m_Bound r' = m_Bound r @ [Some i, Some i] \<and> m_Sets r' ! i = us"
proof -
  have "us \<noteq> []" using assms(3,4) by auto
  define i where "i = length (write_set ts (m_Sets r)) - 1"
  have ne: "write_set ts (m_Sets r) \<noteq> []" using assms(1) by (simp add: sets_ok_def write_set_simps(1))
  have w: "write_set us (write_set ts (m_Sets r)) = butlast (write_set ts (m_Sets r)) @ [us]"
    using assms(3,4) \<open>us \<noteq> []\<close> write_set_simps(2) [OF assms(3)] by (simp add: write_set_def [of us])
  then have "length (write_set us (write_set ts (m_Sets r))) - 1 = i" using ne by (simp add: i_def)
  then show ?thesis
    using assms(1-3) \<open>us \<noteq> []\<close> w by (intro exI [of _ i]) (simp add: tracks_def sets_of_def i_def nth_append)
qed

lemma sprites_drawn_once_witness:
  "\<exists>r'. RenderScene (Submit (sprite_new None (Vec2 0 0) (Vec2 1 1) (Vec4 1 1 1 (1 :: rat))) mat4_id renderer2d_new) = ok r'
     \<and> length (concat (map drawn (gpu r'))) = 6 \<and> length (drawn_late renderer2d_new r') = 6"
proof -
  let ?r = "Submit (sprite_new None (Vec2 0 0) (Vec2 1 1) (Vec4 1 1 1 (1 :: rat))) mat4_id renderer2d_new"
  have "idle ?r" using idle_new by (simp add: Submit_def idle_def)
  moreover have q: "m_CommandQueue2D ?r = [\<lparr>cmd_renderable = sprite_new None (Vec2 0 0) (Vec2 1 1) (Vec4 1 1 1 1), cmd_transform = mat4_id\<rparr>]" "gpu ?r = []"
    by (simp_all add: Submit_def renderer2d_new_def)
  moreover have "sets_ok ?r" by (simp add: sets_ok_def Submit_def renderer2d_new_def)
  moreover have "sets_apart (map snd (batches 10000 16 ([], []) (m_CommandQueue2D ?r)))"
    unfolding q by (simp add: add_command_def needs_flush_def sprite_new_def sets_apart_def)
  ultimately obtain r' where "RenderScene ?r = ok r'" "concat (map drawn (gpu r')) = concat (map sprite_triangles (m_CommandQueue2D ?r))"
    "drawn_late ?r r' = concat (map sprite_triangles (m_CommandQueue2D ?r))"
    using sprites_drawn_once [of ?r] by auto
  moreover have "drawn_late ?r r' = drawn_late renderer2d_new r'" by (simp add: drawn_late_def Submit_def)
  ultimately show ?thesis by (auto simp: q sprite_triangles_def two_triangles_def)
qed

text \<open>Sprites that all have their own texture need a batch for every 16 of them.\<close>

lemma batches_textures:
  assumes "length (snd b) \<le> n" "0 < n" "d \<in> set (batches q n b cs)"
  shows "length (snd d) \<le> n"
  using assms(1,3)
proof (induction cs arbitrary: b)
  case (Cons c cs)
  have "length (snd (add_command c ([], []))) \<le> n" using assms(2) by (simp add: add_command_def split: option.splits)
  moreover have "\<not> needs_flush q n c b \<Longrightarrow> length (snd (add_command c b)) \<le> n"
    using Cons.prems(1) by (auto simp: needs_flush_def add_command_def split: option.splits)
  ultimately show ?case using Cons.prems Cons.IH [of "add_command c ([], [])"] Cons.IH [of "add_command c b"]
    by (cases "needs_flush q n c b") auto
qed (auto split: if_splits)

lemma distinct_batch_size:
  assumes "batch_ok d" "distinct (map tex_of (fst d))" "\<forall>c \<in> set (fst d). tex_of c \<noteq> None"
  shows "length (fst d) = length (snd d)"
proof -
  have "length (fst d) = card (tex_of ` set (fst d))" using assms(2) distinct_card [of "map tex_of (fst d)"] by simp
  also have "tex_of ` set (fst d) = Some ` set (snd d)" using assms(1,3) by (force simp: batch_ok_def image_iff)
  also have "card (Some ` set (snd d)) = card (set (snd d))" by (simp add: card_image)
  also have "card (set (snd d)) = length (snd d)" by (rule distinct_card) (use assms(1) in \<open>simp add: batch_ok_def\<close>)
  finally show ?thesis .
qed

lemma distinct_textures_batches:
  assumes "distinct (map tex_of cs)" "\<forall>c \<in> set cs. tex_of c \<noteq> None"
  shows "length cs \<le> 16 * length (batches 10000 16 ([], []) cs)"
proof -
  let ?bs = "batches 10000 16 ([], []) cs"
  have cs: "concat (map fst ?bs) = cs" using batches_cover [of 10000 16 "([], [])" cs] by simp
  have "length (fst d) \<le> 16" if d: "d \<in> set ?bs" for d
  proof -
    obtain u v where "?bs = u @ d # v" using split_list [OF d] by blast
    then have "cs = concat (map fst u) @ fst d @ concat (map fst v)" using cs by simp
    then have "distinct (map tex_of (fst d))" "\<forall>c \<in> set (fst d). tex_of c \<noteq> None"
      using assms by (metis distinct_append map_append, metis Un_iff set_append)
    then show ?thesis using distinct_batch_size [OF batches_ok [OF batch_ok_empty d]] batches_textures [OF _ _ d] by simp
  qed
  moreover have "length (concat (map fst bs)) \<le> 16 * length bs" if "\<And>d. d \<in> set bs \<Longrightarrow> length (fst d) \<le> 16" for bs :: "'a batch list"
    using that by (induction bs) (auto intro: add_mono)
  ultimately have "length (concat (map fst ?bs)) \<le> 16 * length ?bs" by blast
  then show ?thesis by (simp only: cs)
qed

text \<open>Property C17. A frame uses a vertex buffer that does not exist exactly when its queue splits into more than a hundred
  batches; otherwise it issues one draw call for each batch, in order, presents the frame unless it is empty or goes to
  a texture, and the renderer is ready for the next frame.\<close>

theorem render_scene_draws_batches:
  assumes "idle r"
  shows "if length (batches 10000 16 ([], []) (m_CommandQueue2D r)) > 100 then RenderScene r = fail OutOfRange
    else \<exists>r'. RenderScene r = ok r' \<and> idle r' \<and> same_frame r r' \<and> rendered r' = rendered r + length (m_CommandQueue2D r)
      \<and> gpu r' = gpu r @ [BeginPass] @ draws_from 0 (batches 10000 16 ([], []) (m_CommandQueue2D r)) @ [EndPass]
          @ (if m_RenderTexture r then [ExecuteBuffer] else if m_CommandQueue2D r = [] then [] else [PresentToScreen])"
  using render_scene_draws [OF assms] by (auto split: if_splits)

lemma render_scene_draws_batches_witness:
  "RenderScene (renderer2d_new\<lparr>m_CommandQueue2D := map (\<lambda>i. \<lparr>cmd_renderable = sprite_new (Some \<lparr>t_id = i, t_width = 8, t_height = 8\<rparr>)
     (Vec2 0 0) (Vec2 1 1) (Vec4 1 1 1 (1 :: rat)), cmd_transform = mat4_id\<rparr>) [0..<1601]\<rparr>) = fail OutOfRange"
proof -
  define c where "c i = \<lparr>cmd_renderable = sprite_new (Some \<lparr>t_id = i, t_width = 8, t_height = 8\<rparr>)
     (Vec2 0 0) (Vec2 1 1) (Vec4 1 1 1 (1 :: rat)), cmd_transform = mat4_id\<rparr>" for i
  let ?r = "renderer2d_new\<lparr>m_CommandQueue2D := map c [0..<1601]\<rparr>"
  have t: "tex_of (c i) = Some \<lparr>t_id = i, t_width = 8, t_height = 8\<rparr>" for i by (simp add: c_def tex_of_def sprite_new_def)
  have "distinct (map tex_of (map c [0..<1601]))" by (simp add: comp_def t distinct_map inj_on_def del: upt_conv_Cons_Cons)
  moreover have "\<forall>x \<in> set (map c [0..<1601]). tex_of x \<noteq> None" by (simp add: t)
  ultimately have "1601 \<le> 16 * length (batches 10000 16 ([], []) (map c [0..<1601]))"
    using distinct_textures_batches [of "map c [0..<1601]"] by simp
  then have l: "length (batches 10000 16 ([], []) (map c [0..<1601])) > 100" by simp
  have "idle ?r" using idle_new by (simp add: idle_def)
  then show ?thesis using render_scene_draws_batches [of ?r] l by (simp add: c_def [abs_def])
qed

text \<open>Without a camera \<open>BeginScene\<close> leaves the queue of the frame before, which the next frame draws again.\<close>

lemma begin_scene_keeps_stale_queue:
  "m_Camera r = None \<Longrightarrow> m_CommandQueue2D (BeginScene visible None None sprites animated r) = m_CommandQueue2D r"
  by (simp add: BeginScene_def Let_def)

lemma begin_scene_queue:
  assumes "override = Some (c, Some t)"
  shows "m_CommandQueue2D (BeginScene visible override first sprites animated r)
    = map (\<lambda>(s, m). \<lparr>cmd_renderable = s, cmd_transform = m\<rparr>) (filter (\<lambda>(s, m). visible c t s m) (sprites @ animated))"
proof -
  have "m_CommandQueue2D (fold (\<lambda>(s, m). if visible c t s m then Submit s m else id) xs q)
    = m_CommandQueue2D q @ map (\<lambda>(s, m). \<lparr>cmd_renderable = s, cmd_transform = m\<rparr>) (filter (\<lambda>(s, m). visible c t s m) xs)"
    for xs and q :: "'a renderer2d"
    by (induction xs arbitrary: q) (auto simp: Submit_def)
  then show ?thesis using assms by (simp add: BeginScene_def Let_def)
qed

end
