(* ===== verification/DebugDrawing.thy ===== *)
theory DebugDrawing
  imports Batches Projections
begin

text \<open>
  The line and point renderers and the debug renderer over them (\<open>Graphics/Renderers/LineRenderer.*\<close>,
  \<open>PointRenderer.*\<close>, \<open>DebugRenderer.*\<close>), with the triangles of the 2D renderer. The line and the point renderer
  are the same program over different items: the operations take the vertices of an item, the indices it uses
  and the sizes of the buffers. A loop over a vector that the loop clears is a fault.
\<close>

section \<open>Triangles of the 2D renderer\<close>

definition SubmitTriangle :: "'f triangle_info \<Rightarrow> 'f renderer2d \<Rightarrow> 'f renderer2d" where
  "SubmitTriangle t r = r\<lparr>m_Triangles := m_Triangles r @ [t]\<rparr>"

definition triangle_vertices :: "'f :: linordered_field triangle_info \<Rightarrow> 'f vertex_data list" where
  "triangle_vertices t = map (\<lambda>p. \<lparr>vd_vertex = p, vd_uv = Vec2 0 0, vd_tid = 0, vd_color = tri_col t\<rparr>) [tri_p1 t, tri_p2 t, tri_p3 t]"

text \<open>The triangle is a reference into \<open>m_Triangles\<close>, which \<open>FlushAndReset\<close> clears.\<close>

definition SubmitInternal :: "'f :: linordered_field triangle_info \<Rightarrow> 'f renderer2d \<Rightarrow> 'f renderer2d res" where
  "SubmitInternal t r =
    rbind (if m_IndexCount r \<ge> IndiciesSize (m_Limits r) then rbind (FlushAndReset r) (\<lambda>_. fail UseAfterFree) else ok r) (\<lambda>r.
    rbind (write_all (triangle_vertices t) r) (\<lambda>r. ok (r\<lparr>m_IndexCount := m_IndexCount r + 3\<rparr>)))"

definition SubmitTriangles :: "'f :: linordered_field renderer2d \<Rightarrow> 'f renderer2d res" where
  "SubmitTriangles r = fold (\<lambda>t m. rbind m (SubmitInternal t)) (m_Triangles r) (ok r)"

lemma triangle_submit:
  assumes "m_Limits r = the_limits" "length (m_Buffer r) = m_IndexCount r"
  shows "m_IndexCount r \<le> 39997 \<Longrightarrow> SubmitInternal t r = ok (r\<lparr>m_Buffer := m_Buffer r @ triangle_vertices t, m_IndexCount := m_IndexCount r + 3\<rparr>)"
    and "m_IndexCount r = 39999 \<Longrightarrow> SubmitInternal t r = fail OutOfRange"
proof -
  show "m_IndexCount r \<le> 39997 \<Longrightarrow> SubmitInternal t r = ok (r\<lparr>m_Buffer := m_Buffer r @ triangle_vertices t, m_IndexCount := m_IndexCount r + 3\<rparr>)"
    using assms write_all_ok [of r "triangle_vertices t"] by (simp add: SubmitInternal_def triangle_vertices_def)
  show "m_IndexCount r = 39999 \<Longrightarrow> SubmitInternal t r = fail OutOfRange"
    using assms by (simp add: SubmitInternal_def triangle_vertices_def write_all_def write_vertex_def VERTEX_SIZE_def)
qed

text \<open>The vertex buffer has room for 13333 triangles, while the renderer flushes after 20000.\<close>

lemma triangles_fit:
  assumes "m_Limits r = the_limits" "length (m_Buffer r) = m_IndexCount r" "m_IndexCount r = 3 * k" "k \<le> 13333"
  shows "fold (\<lambda>t m. rbind m (SubmitInternal t)) ts (ok r) =
    (if k + length ts \<le> 13333
     then ok (r\<lparr>m_Buffer := m_Buffer r @ concat (map triangle_vertices ts), m_IndexCount := m_IndexCount r + 3 * length ts\<rparr>)
     else fail OutOfRange)"
  using assms
proof (induction ts arbitrary: r k)
  case (Cons t ts)
  have f: "fold (\<lambda>t m. rbind m (SubmitInternal t)) ts (fail e) = fail e" for ts :: "'a triangle_info list" and e
    by (induction ts) simp_all
  show ?case
  proof (cases "k = 13333")
    case True
    then show ?thesis using triangle_submit(2) [OF Cons.prems(1,2)] Cons.prems(3) f by simp
  next
    case False
    let ?r = "r\<lparr>m_Buffer := m_Buffer r @ triangle_vertices t, m_IndexCount := m_IndexCount r + 3\<rparr>"
    have "SubmitInternal t r = ok ?r" using triangle_submit(1) [OF Cons.prems(1,2)] Cons.prems(3,4) False by simp
    moreover have "fold (\<lambda>t m. rbind m (SubmitInternal t)) ts (ok ?r) =
      (if k + 1 + length ts \<le> 13333
       then ok (?r\<lparr>m_Buffer := m_Buffer ?r @ concat (map triangle_vertices ts), m_IndexCount := m_IndexCount ?r + 3 * length ts\<rparr>)
       else fail OutOfRange)"
      by (rule Cons.IH) (use Cons.prems False in \<open>simp_all add: triangle_vertices_def\<close>)
    ultimately show ?thesis by (simp add: algebra_simps)
  qed
qed simp

section \<open>Streams of lines and points\<close>

record ('i, 'v) stream =
  s_items :: "'i list"
  s_batch :: nat
  s_index_count :: nat
  s_buffer :: "'v list"
  s_target :: bool
  s_gpu :: "('v, texture) gpu_call list"

record ('i, 'v) stream_kind =
  k_vertices :: "'i \<Rightarrow> 'v list"
  k_indices :: nat
  k_max_indices :: nat
  k_capacity :: nat

definition MAX_BATCH_DRAW_CALLS :: nat where
  "MAX_BATCH_DRAW_CALLS = 100"

definition stream_new :: "('i, 'v) stream" where
  "stream_new = \<lparr>s_items = [], s_batch = 0, s_index_count = 0, s_buffer = [], s_target = False, s_gpu = []\<rparr>"

definition s_issue :: "('v, texture) gpu_call \<Rightarrow> ('i, 'v) stream \<Rightarrow> ('i, 'v) stream" where
  "s_issue c r = r\<lparr>s_gpu := s_gpu r @ [c]\<rparr>"

definition s_map :: "('i, 'v) stream \<Rightarrow> ('i, 'v) stream res" where
  "s_map r = (if s_batch r \<ge> MAX_BATCH_DRAW_CALLS then fail OutOfRange else ok (r\<lparr>s_buffer := []\<rparr>))"

definition s_write :: "('i, 'v) stream_kind \<Rightarrow> 'v \<Rightarrow> ('i, 'v) stream \<Rightarrow> ('i, 'v) stream res" where
  "s_write K v r = (if length (s_buffer r) \<ge> k_capacity K then fail OutOfRange else ok (r\<lparr>s_buffer := s_buffer r @ [v]\<rparr>))"

definition s_Submit :: "'i \<Rightarrow> ('i, 'v) stream \<Rightarrow> ('i, 'v) stream" where
  "s_Submit x r = r\<lparr>s_items := s_items r @ [x]\<rparr>"

definition s_Begin :: "('i, 'v) stream \<Rightarrow> ('i, 'v) stream" where
  "s_Begin r = (s_issue BeginPass r)\<lparr>s_index_count := 0, s_items := []\<rparr>"

definition s_Present :: "('i, 'v) stream \<Rightarrow> ('i, 'v) stream res" where
  "s_Present r =
    (if s_batch r \<ge> MAX_BATCH_DRAW_CALLS then fail OutOfRange
     else (let r = s_issue (DrawIndexed \<lparr>d_batch = s_batch r, d_vertices = s_buffer r, d_count = s_index_count r, d_textures = []\<rparr>) r
           in ok (r\<lparr>s_index_count := 0, s_batch := s_batch r + 1\<rparr>)))"

definition s_Flush :: "('i, 'v) stream \<Rightarrow> ('i, 'v) stream res" where
  "s_Flush r = rbind (s_Present r) (\<lambda>r. s_map (r\<lparr>s_items := []\<rparr>))"

definition s_SubmitInternal :: "('i, 'v) stream_kind \<Rightarrow> 'i \<Rightarrow> ('i, 'v) stream \<Rightarrow> ('i, 'v) stream res" where
  "s_SubmitInternal K x r =
    rbind (if s_index_count r \<ge> k_max_indices K then rbind (s_Flush r) (\<lambda>_. fail UseAfterFree) else ok r) (\<lambda>r.
    rbind (fold (\<lambda>v m. rbind m (s_write K v)) (k_vertices K x) (ok r)) (\<lambda>r.
      ok (r\<lparr>s_index_count := s_index_count r + k_indices K\<rparr>)))"

definition s_End :: "('i, 'v) stream \<Rightarrow> ('i, 'v) stream" where
  "s_End r =
    (let r = s_issue EndPass r;
         r = (if s_target r then s_issue ExecuteBuffer r else r);
         r = (if \<not> s_target r then s_issue PresentToScreen r else r)
     in r\<lparr>s_batch := 0\<rparr>)"

definition s_RenderInternal :: "('i, 'v) stream_kind \<Rightarrow> ('i, 'v) stream \<Rightarrow> ('i, 'v) stream res" where
  "s_RenderInternal K r =
    rbind (s_map (s_issue BeginPass r)) (\<lambda>r.
    rbind (fold (\<lambda>x m. rbind m (s_SubmitInternal K x)) (s_items r) (ok r)) (\<lambda>r.
    rbind (s_Present r) (\<lambda>r. ok (s_End r))))"

text \<open>A frame with up to the maximal number of indices is one draw call; one item more and the loop reads the vector it
  has cleared.\<close>

lemma stream_writes:
  assumes "length (s_buffer r) + length vs \<le> k_capacity K"
  shows "fold (\<lambda>v m. rbind m (s_write K v)) vs (ok r) = ok (r\<lparr>s_buffer := s_buffer r @ vs\<rparr>)"
  using assms
proof (induction vs arbitrary: r)
  case (Cons v vs)
  then show ?case by (simp add: s_write_def)
qed simp

lemma stream_items:
  assumes "\<And>x. length (k_vertices K x) = n" "k_max_indices K = k_indices K * m" "0 < k_indices K" "n * m \<le> k_capacity K"
    and "s_index_count r = k_indices K * j" "length (s_buffer r) = n * j" "j \<le> m" "s_batch r < 99"
  shows "fold (\<lambda>x q. rbind q (s_SubmitInternal K x)) xs (ok r) =
    (if j + length xs \<le> m
     then ok (r\<lparr>s_buffer := s_buffer r @ concat (map (k_vertices K) xs), s_index_count := k_indices K * (j + length xs)\<rparr>)
     else fail UseAfterFree)"
  using assms(5-8)
proof (induction xs arbitrary: r j)
  case (Cons x xs)
  have f: "fold (\<lambda>x q. rbind q (s_SubmitInternal K x)) ys (fail e) = fail e" for ys :: "'a list" and e
    by (induction ys) simp_all
  show ?case
  proof (cases "j = m")
    case True
    then have "s_SubmitInternal K x r = fail UseAfterFree"
      using Cons.prems assms(2) by (simp add: s_SubmitInternal_def s_Flush_def s_Present_def s_map_def MAX_BATCH_DRAW_CALLS_def Let_def s_issue_def)
    then show ?thesis using True f by simp
  next
    case False
    then have j: "Suc j \<le> m" using Cons.prems(3) by simp
    let ?r = "r\<lparr>s_buffer := s_buffer r @ k_vertices K x, s_index_count := k_indices K * Suc j\<rparr>"
    have "n * Suc j \<le> k_capacity K" using j assms(4) by (meson le_trans mult_le_mono2)
    then have "length (s_buffer r) + length (k_vertices K x) \<le> k_capacity K" using Cons.prems(2) assms(1) by simp
    moreover have "\<not> k_max_indices K \<le> s_index_count r" using Cons.prems(1) assms(2,3) j by simp
    ultimately have "s_SubmitInternal K x r = ok ?r"
      using stream_writes [of r "k_vertices K x" K] Cons.prems(1) by (simp add: s_SubmitInternal_def algebra_simps)
    moreover have "fold (\<lambda>x q. rbind q (s_SubmitInternal K x)) xs (ok ?r) =
      (if Suc j + length xs \<le> m
       then ok (?r\<lparr>s_buffer := s_buffer ?r @ concat (map (k_vertices K) xs), s_index_count := k_indices K * (Suc j + length xs)\<rparr>)
       else fail UseAfterFree)"
      by (rule Cons.IH) (use Cons.prems j assms(1) in simp_all)
    ultimately show ?thesis by simp
  qed
qed simp

lemma stream_frame:
  assumes "\<And>x. length (k_vertices K x) = n" "k_max_indices K = k_indices K * m" "0 < k_indices K" "n * m \<le> k_capacity K"
    and "s_index_count r = 0" "s_batch r = 0"
  shows "if length (s_items r) > m then s_RenderInternal K r = fail UseAfterFree
    else \<exists>r'. s_RenderInternal K r = ok r' \<and> s_items r' = s_items r \<and> s_index_count r' = 0 \<and> s_batch r' = 0 \<and>
      s_gpu r' = s_gpu r @ [BeginPass, DrawIndexed \<lparr>d_batch = 0, d_vertices = concat (map (k_vertices K) (s_items r)),
        d_count = k_indices K * length (s_items r), d_textures = []\<rparr>, EndPass, if s_target r then ExecuteBuffer else PresentToScreen]"
proof -
  let ?r = "(s_issue BeginPass r)\<lparr>s_buffer := []\<rparr>"
  have m: "s_map (s_issue BeginPass r) = ok ?r" using assms(6) by (simp add: s_map_def s_issue_def MAX_BATCH_DRAW_CALLS_def)
  have it: "s_items ?r = s_items r" by (simp add: s_issue_def)
  have "fold (\<lambda>x q. rbind q (s_SubmitInternal K x)) (s_items r) (ok ?r) =
    (if 0 + length (s_items r) \<le> m
     then ok (?r\<lparr>s_buffer := s_buffer ?r @ concat (map (k_vertices K) (s_items r)), s_index_count := k_indices K * (0 + length (s_items r))\<rparr>)
     else fail UseAfterFree)"
    by (rule stream_items [OF assms(1-4)]) (use assms(5,6) in \<open>simp_all add: s_issue_def\<close>)
  then show ?thesis using m it assms(6)
    by (auto simp: s_RenderInternal_def s_Present_def s_End_def s_issue_def Let_def MAX_BATCH_DRAW_CALLS_def)
qed

section \<open>Lines and points\<close>

record 'f line_info =
  li_p1 :: "'f vec3"
  li_p2 :: "'f vec3"
  li_col :: "'f vec4"

record 'f line_vertex =
  lv_vertex :: "'f vec3"
  lv_color :: "'f vec4"

definition MaxLines :: nat where "MaxLines = 10000"
definition MaxLineVertices :: nat where "MaxLineVertices = MaxLines * 2"
definition MaxLineIndices :: nat where "MaxLineIndices = MaxLines * 6"

definition line_vertices :: "'f line_info \<Rightarrow> 'f line_vertex list" where
  "line_vertices l = [\<lparr>lv_vertex = li_p1 l, lv_color = li_col l\<rparr>, \<lparr>lv_vertex = li_p2 l, lv_color = li_col l\<rparr>]"

text \<open>The buffer has \<open>sizeof(LineVertexData) * 4 * MaxLineVertices\<close> bytes.\<close>

definition line_kind :: "('f line_info, 'f line_vertex) stream_kind" where
  "line_kind = \<lparr>k_vertices = line_vertices, k_indices = 2, k_max_indices = MaxLineIndices, k_capacity = 4 * MaxLineVertices\<rparr>"

record 'f point_info =
  pi_p1 :: "'f vec3"
  pi_col :: "'f vec4"
  pi_size :: 'f

record 'f point_vertex =
  pv_vertex :: "'f vec3"
  pv_color :: "'f vec4"
  pv_size :: "'f vec2"
  pv_uv :: "'f vec2"

definition MaxPoints :: nat where "MaxPoints = 10000"
definition MaxPointVertices :: nat where "MaxPointVertices = MaxPoints * 4"
definition MaxPointIndices :: nat where "MaxPointIndices = MaxPoints * 6"

definition point_vertices :: "'f :: linordered_field vec3 \<Rightarrow> 'f vec3 \<Rightarrow> 'f point_info \<Rightarrow> 'f point_vertex list" where
  "point_vertices rightDir upDir p =
    (let right = vec_scale rightDir (pi_size p); up = vec_scale upDir (pi_size p);
         vertex = (\<lambda>v uv. \<lparr>pv_vertex = v, pv_color = pi_col p, pv_size = Vec2 (pi_size p) 0, pv_uv = uv\<rparr>)
     in [vertex (vec_sub (vec_sub (pi_p1 p) right) up) (Vec2 (- 1) (- 1)), vertex (vec_sub (vec_add (pi_p1 p) right) up) (Vec2 1 (- 1)),
         vertex (vec_add (vec_add (pi_p1 p) right) up) (Vec2 1 1), vertex (vec_add (vec_sub (pi_p1 p) right) up) (Vec2 (- 1) 1)])"

definition point_kind :: "'f :: linordered_field vec3 \<Rightarrow> 'f vec3 \<Rightarrow> ('f point_info, 'f point_vertex) stream_kind" where
  "point_kind rightDir upDir =
    \<lparr>k_vertices = point_vertices rightDir upDir, k_indices = 6, k_max_indices = MaxPointIndices, k_capacity = 4 * MaxPointVertices\<rparr>"

section \<open>The debug renderer\<close>

record debug_renderer =
  m_Renderer2D :: "real renderer2d"
  m_LineRenderer :: "(real line_info, real line_vertex) stream"
  m_PointRenderer :: "(real point_info, real point_vertex) stream"

text \<open>The static instance, \<open>None\<close> before \<open>Init\<close>.\<close>

type_synonym debug_instance = "debug_renderer option"

definition debug_Init :: "debug_instance \<Rightarrow> debug_instance" where
  "debug_Init s = (case s of Some d \<Rightarrow> Some d
     | None \<Rightarrow> Some \<lparr>m_Renderer2D = renderer2d_new, m_LineRenderer = stream_new, m_PointRenderer = stream_new\<rparr>)"

definition debug_SetRenderTarget :: "bool \<Rightarrow> debug_instance \<Rightarrow> debug_instance res" where
  "debug_SetRenderTarget texture s = (case s of None \<Rightarrow> fail NullDeref
     | Some d \<Rightarrow> ok (Some (d\<lparr>m_LineRenderer := (m_LineRenderer d)\<lparr>s_target := texture\<rparr>,
         m_Renderer2D := (m_Renderer2D d)\<lparr>m_RenderTexture := texture\<rparr>,
         m_PointRenderer := (m_PointRenderer d)\<lparr>s_target := texture\<rparr>\<rparr>)))"

definition GenDrawPoint :: "bool \<Rightarrow> real vec3 \<Rightarrow> real \<Rightarrow> real vec4 \<Rightarrow> debug_instance \<Rightarrow> debug_instance" where
  "GenDrawPoint ndt pos point_radius colour s = map_option (\<lambda>d. d\<lparr>m_PointRenderer :=
     s_Submit \<lparr>pi_p1 = pos, pi_col = colour, pi_size = point_radius\<rparr> (m_PointRenderer d)\<rparr>) s"

definition GenDrawThickLine :: "bool \<Rightarrow> real vec3 \<Rightarrow> real vec3 \<Rightarrow> real \<Rightarrow> real vec4 \<Rightarrow> debug_instance \<Rightarrow> debug_instance" where
  "GenDrawThickLine ndt start stop line_width colour s = map_option (\<lambda>d. d\<lparr>m_LineRenderer :=
     s_Submit \<lparr>li_p1 = start, li_p2 = stop, li_col = colour\<rparr> (m_LineRenderer d)\<rparr>) s"

definition GenDrawHairLine :: "bool \<Rightarrow> real vec3 \<Rightarrow> real vec3 \<Rightarrow> real vec4 \<Rightarrow> debug_instance \<Rightarrow> debug_instance" where
  "GenDrawHairLine ndt start stop colour s = map_option (\<lambda>d. d\<lparr>m_LineRenderer :=
     s_Submit \<lparr>li_p1 = start, li_p2 = stop, li_col = colour\<rparr> (m_LineRenderer d)\<rparr>) s"

definition GenDrawTriangle :: "bool \<Rightarrow> real vec3 \<Rightarrow> real vec3 \<Rightarrow> real vec3 \<Rightarrow> real vec4 \<Rightarrow> debug_instance \<Rightarrow> debug_instance" where
  "GenDrawTriangle ndt v0 v1 v2 colour s = map_option (\<lambda>d. d\<lparr>m_Renderer2D :=
     SubmitTriangle \<lparr>tri_p1 = v0, tri_p2 = v1, tri_p3 = v2, tri_col = colour\<rparr> (m_Renderer2D d)\<rparr>) s"

definition DrawPolygon :: "real vec3 list \<Rightarrow> real vec4 \<Rightarrow> debug_instance \<Rightarrow> debug_instance" where
  "DrawPolygon verts colour s =
    fold (\<lambda>i. GenDrawTriangle False (verts ! 0) (verts ! (i - 1)) (verts ! i) colour) [2..<length verts] s"

definition box_edges :: "real bbox \<Rightarrow> (real vec3 \<times> real vec3) list" where
  "box_edges box =
    (let uuu = bb_max box; lll = bb_min box;
         ull = Vec3 (vx uuu) (vy lll) (vz lll); uul = Vec3 (vx uuu) (vy uuu) (vz lll); ulu = Vec3 (vx uuu) (vy lll) (vz uuu);
         luu = Vec3 (vx lll) (vy uuu) (vz uuu); llu = Vec3 (vx lll) (vy lll) (vz uuu); lul = Vec3 (vx lll) (vy uuu) (vz lll)
     in [(luu, uuu), (lul, uul), (llu, ulu), (lll, ull), (lul, lll), (uul, ull), (luu, llu), (uuu, ulu), (lll, llu), (ull, ulu), (lul, luu), (uul, uuu)])"

definition DebugDraw_box :: "real bbox \<Rightarrow> real vec4 \<Rightarrow> bool \<Rightarrow> real \<Rightarrow> debug_instance \<Rightarrow> debug_instance" where
  "DebugDraw_box box edgeColour cornersOnly width s =
    (if \<not> cornersOnly then fold (\<lambda>(a, b). GenDrawThickLine True a b width edgeColour) (box_edges box) s
     else fold (\<lambda>(a, b) s. GenDrawThickLine True (vec_add a (vec_scale (vec_sub b a) (3 / 4))) b width edgeColour
         (GenDrawThickLine True a (vec_add a (vec_scale (vec_sub b a) (1 / 4))) width edgeColour s)) (box_edges box) s)"

definition DebugDraw_sphere :: "real sphere \<Rightarrow> real vec4 \<Rightarrow> debug_instance \<Rightarrow> debug_instance" where
  "DebugDraw_sphere sphere colour s = GenDrawPoint True (center sphere) (radius sphere) colour s"

definition DebugDraw_frustum :: "real vec3 list \<Rightarrow> real vec4 \<Rightarrow> debug_instance \<Rightarrow> debug_instance" where
  "DebugDraw_frustum vertices colour s =
    fold (\<lambda>(i, j). GenDrawHairLine False (vertices ! i) (vertices ! j) colour)
      [(0, 1), (1, 2), (2, 3), (3, 0), (4, 5), (5, 6), (6, 7), (7, 4), (0, 4), (1, 5), (2, 6), (3, 7)] s"

definition Sin :: "real \<Rightarrow> real" where "Sin angle = sin (angle * DEGTORAD)"
definition Cos :: "real \<Rightarrow> real" where "Cos angle = cos (angle * DEGTORAD)"
definition Tan :: "real \<Rightarrow> real" where "Tan angle = tan (angle * DEGTORAD)"

definition circle_point :: "real \<Rightarrow> real \<Rightarrow> real vec3" where
  "circle_point angle r = Vec3 (Cos angle * r) (Sin angle * r) 0"

definition DebugDrawCircle :: "nat \<Rightarrow> real \<Rightarrow> real vec3 \<Rightarrow> real quat \<Rightarrow> real vec4 \<Rightarrow> debug_instance \<Rightarrow> debug_instance" where
  "DebugDrawCircle numVerts r position rotation colour s =
    (let step = 360 / of_nat numVerts in
     fold (\<lambda>i. GenDrawHairLine False (vec_add position (quat_rotate rotation (circle_point (step * of_nat i) r)))
       (vec_add position (quat_rotate rotation (circle_point (step * of_nat (i + 1)) r))) colour) [0..<numVerts] s)"

definition DebugDrawSphere :: "real \<Rightarrow> real vec3 \<Rightarrow> real vec4 \<Rightarrow> debug_instance \<Rightarrow> debug_instance" where
  "DebugDrawSphere r position colour s =
    DebugDrawCircle 20 r position (FromEulerAngles 0 90 90) colour
      (DebugDrawCircle 20 r position (FromEulerAngles 90 0 0) colour
        (DebugDrawCircle 20 r position (FromEulerAngles 0 0 0) colour s))"

definition DebugDrawCone :: "nat \<Rightarrow> nat \<Rightarrow> real \<Rightarrow> real \<Rightarrow> real vec3 \<Rightarrow> real quat \<Rightarrow> real vec4 \<Rightarrow> debug_instance \<Rightarrow> debug_instance" where
  "DebugDrawCone numCircleVerts numLinesToCircle angle len position rotation colour s =
    (let endAngle = Tan (angle * (1 / 2)) * len;
         forward = vec_neg (quat_rotate rotation (Vec3 0 0 1));
         endPosition = vec_add position (vec_scale forward len)
     in fold (\<lambda>i. let a = of_nat i * 90; point = vec_scale (quat_rotate rotation (Vec3 (Cos a) (Sin a) 0)) endAngle
            in GenDrawHairLine False position (vec_add (vec_add position point) (vec_scale forward len)) colour)
          [0..<numLinesToCircle]
          (DebugDrawCircle numCircleVerts endAngle endPosition rotation colour s))"

record light =
  Position :: "real vec4"
  Direction :: "real vec4"
  Intensity :: real
  Radius :: real
  Type :: real
  Angle :: real

definition DebugDraw_light :: "light \<Rightarrow> real quat \<Rightarrow> real vec4 \<Rightarrow> debug_instance \<Rightarrow> debug_instance" where
  "DebugDraw_light light rotation colour s =
    (if Type light < 1 / 10
     then (let flipRotation = quat_mul rotation (FromEulerAngles 180 0 0); offset = Vec3 0 (1 / 10) 0;
               a = ToVector3 (Position light); b = ToVector3 (vec4_add (Position light) (vec4_scale (Direction light) 2));
               s = GenDrawHairLine False (vec_add a offset) (vec_add b offset) colour s;
               s = GenDrawHairLine False (vec_sub a offset) (vec_sub b offset) colour s;
               s = GenDrawHairLine False a b colour s
           in DebugDrawCone 20 4 30 (3 / 2) (ToVector3 (vec4_sub (Position light) (vec4_scale (Direction light) (3 / 2)))) flipRotation colour s)
     else if Type light < 11 / 10
     then DebugDrawCone 20 4 (Angle light * (1 / DEGTORAD)) (Intensity light) (ToVector3 (Position light)) rotation colour s
     else DebugDrawSphere (Radius light / 2) (ToVector3 (Position light)) colour s)"

definition debug_Begin :: "debug_renderer \<Rightarrow> debug_renderer" where
  "debug_Begin d = d\<lparr>m_LineRenderer := s_Begin (m_LineRenderer d), m_Renderer2D := BeginSimple (m_Renderer2D d),
     m_PointRenderer := s_Begin (m_PointRenderer d)\<rparr>"

definition debug_RenderInternal :: "real vec3 \<Rightarrow> real vec3 \<Rightarrow> debug_renderer \<Rightarrow> debug_renderer res" where
  "debug_RenderInternal rightDir upDir d =
    rbind (rbind (Begin (m_Renderer2D d)) (\<lambda>r. rbind (SubmitTriangles r) (\<lambda>r. rbind (Present r) (\<lambda>r. ok (End r))))) (\<lambda>r.
    rbind (s_RenderInternal (point_kind rightDir upDir) (m_PointRenderer d)) (\<lambda>ps.
    rbind (s_RenderInternal line_kind (m_LineRenderer d)) (\<lambda>ls.
      ok (d\<lparr>m_Renderer2D := r, m_PointRenderer := ps, m_LineRenderer := ls\<rparr>))))"

section \<open>What the debug renderer draws\<close>

definition debug_idle :: "debug_renderer \<Rightarrow> bool" where
  "debug_idle d \<longleftrightarrow> idle (m_Renderer2D d) \<and> s_index_count (m_LineRenderer d) = 0 \<and> s_batch (m_LineRenderer d) = 0
     \<and> s_index_count (m_PointRenderer d) = 0 \<and> s_batch (m_PointRenderer d) = 0"

definition frame_of :: "bool \<Rightarrow> nat \<Rightarrow> 'v list \<Rightarrow> ('v, texture) gpu_call list" where
  "frame_of target n vs = [BeginPass, DrawIndexed \<lparr>d_batch = 0, d_vertices = vs, d_count = n, d_textures = []\<rparr>, EndPass,
     if target then ExecuteBuffer else PresentToScreen]"

lemma triangles_part:
  assumes "idle r"
  shows "\<exists>r'. rbind (Begin r) (\<lambda>r. rbind (SubmitTriangles r) (\<lambda>r. rbind (Present r) (\<lambda>r. ok (End r)))) = ok r' \<and> idle r'
     \<and> gpu r' = gpu r @ [BeginPass, EndPass] @ (if m_RenderTexture r then [ExecuteBuffer] else [])"
  using assms
  by (simp add: Begin_def issue_def map_buffer_def idle_def SubmitTriangles_def Present_def End_def Let_def)

text \<open>Property C23. A frame of the debug renderer draws every submitted line and point, in order, with one draw call each, as
  long as there are at most 30000 lines and 10000 points; with more it reads a vector that it has cleared. Whatever
  triangles were submitted, none is drawn: the frame clears them before it submits them.\<close>

theorem debug_frame_draws:
  assumes "debug_idle d"
  shows "if length (s_items (m_PointRenderer d)) > 10000 \<or> length (s_items (m_LineRenderer d)) > 30000
    then debug_RenderInternal right up d = fail UseAfterFree
    else \<exists>d'. debug_RenderInternal right up d = ok d' \<and> debug_idle d'
      \<and> s_gpu (m_LineRenderer d') = s_gpu (m_LineRenderer d) @ frame_of (s_target (m_LineRenderer d))
          (2 * length (s_items (m_LineRenderer d))) (concat (map line_vertices (s_items (m_LineRenderer d))))
      \<and> s_gpu (m_PointRenderer d') = s_gpu (m_PointRenderer d) @ frame_of (s_target (m_PointRenderer d))
          (6 * length (s_items (m_PointRenderer d))) (concat (map (point_vertices right up) (s_items (m_PointRenderer d))))
      \<and> gpu (m_Renderer2D d') = gpu (m_Renderer2D d) @ [BeginPass, EndPass] @ (if m_RenderTexture (m_Renderer2D d) then [ExecuteBuffer] else [])"
proof -
  obtain r where r: "rbind (Begin (m_Renderer2D d)) (\<lambda>r. rbind (SubmitTriangles r) (\<lambda>r. rbind (Present r) (\<lambda>r. ok (End r)))) = ok r"
    "idle r" "gpu r = gpu (m_Renderer2D d) @ [BeginPass, EndPass] @ (if m_RenderTexture (m_Renderer2D d) then [ExecuteBuffer] else [])"
    using triangles_part assms by (auto simp: debug_idle_def)
  have ls: "if length (s_items (m_LineRenderer d)) > 30000 then s_RenderInternal line_kind (m_LineRenderer d) = fail UseAfterFree
    else \<exists>r'. s_RenderInternal line_kind (m_LineRenderer d) = ok r' \<and> s_items r' = s_items (m_LineRenderer d) \<and> s_index_count r' = 0 \<and> s_batch r' = 0 \<and>
      s_gpu r' = s_gpu (m_LineRenderer d) @ [BeginPass, DrawIndexed \<lparr>d_batch = 0, d_vertices = concat (map (k_vertices line_kind) (s_items (m_LineRenderer d))),
        d_count = k_indices (line_kind :: (real line_info, real line_vertex) stream_kind) * length (s_items (m_LineRenderer d)), d_textures = []\<rparr>, EndPass, if s_target (m_LineRenderer d) then ExecuteBuffer else PresentToScreen]"
    by (rule stream_frame [where n = 2]) (use assms in \<open>simp_all add: line_kind_def line_vertices_def debug_idle_def MaxLineIndices_def MaxLineVertices_def MaxLines_def\<close>)
  have ps: "if length (s_items (m_PointRenderer d)) > 10000 then s_RenderInternal (point_kind right up) (m_PointRenderer d) = fail UseAfterFree
    else \<exists>r'. s_RenderInternal (point_kind right up) (m_PointRenderer d) = ok r' \<and> s_items r' = s_items (m_PointRenderer d) \<and> s_index_count r' = 0 \<and> s_batch r' = 0 \<and>
      s_gpu r' = s_gpu (m_PointRenderer d) @ [BeginPass, DrawIndexed \<lparr>d_batch = 0, d_vertices = concat (map (k_vertices (point_kind right up)) (s_items (m_PointRenderer d))),
        d_count = k_indices (point_kind right up) * length (s_items (m_PointRenderer d)), d_textures = []\<rparr>, EndPass, if s_target (m_PointRenderer d) then ExecuteBuffer else PresentToScreen]"
    by (rule stream_frame [where n = 4]) (use assms in \<open>simp_all add: point_kind_def point_vertices_def Let_def debug_idle_def MaxPointIndices_def MaxPointVertices_def MaxPoints_def\<close>)
  show ?thesis
  proof (cases "length (s_items (m_PointRenderer d)) > 10000")
    case True
    then show ?thesis using r(1) ps by (simp add: debug_RenderInternal_def)
  next
    case p: False
    with ps obtain q where q: "s_RenderInternal (point_kind right up) (m_PointRenderer d) = ok q" "s_index_count q = 0" "s_batch q = 0"
      "s_gpu q = s_gpu (m_PointRenderer d) @ frame_of (s_target (m_PointRenderer d))
          (6 * length (s_items (m_PointRenderer d))) (concat (map (point_vertices right up) (s_items (m_PointRenderer d))))"
      by (auto simp: frame_of_def point_kind_def)
    show ?thesis
    proof (cases "length (s_items (m_LineRenderer d)) > 30000")
      case True
      then show ?thesis using r(1) q(1) ls by (simp add: debug_RenderInternal_def)
    next
      case False
      with ls obtain l where l: "s_RenderInternal line_kind (m_LineRenderer d) = ok l" "s_index_count l = 0" "s_batch l = 0"
        "s_gpu l = s_gpu (m_LineRenderer d) @ frame_of (s_target (m_LineRenderer d))
          (2 * length (s_items (m_LineRenderer d))) (concat (map line_vertices (s_items (m_LineRenderer d))))"
        by (auto simp: frame_of_def line_kind_def)
      show ?thesis using p False r q l by (simp add: debug_RenderInternal_def debug_idle_def)
    qed
  qed
qed

lemma debug_frame_draws_witness:
  "\<exists>d'. debug_RenderInternal (Vec3 1 0 0) (Vec3 0 1 0) (the (GenDrawTriangle False (Vec3 0 0 0) (Vec3 1 0 0) (Vec3 0 1 0) (Vec4 1 1 1 1)
     (GenDrawHairLine False (Vec3 0 0 0) (Vec3 1 0 0) (Vec4 1 1 1 1) (map_option debug_Begin (debug_Init None))))) = ok d'
   \<and> gpu (m_Renderer2D d') = [BeginPass, EndPass]"
proof -
  let ?d = "the (GenDrawTriangle False (Vec3 0 0 0) (Vec3 1 0 0) (Vec3 0 1 0) (Vec4 1 1 1 1)
     (GenDrawHairLine False (Vec3 0 0 0) (Vec3 1 0 0) (Vec4 1 1 1 1) (map_option debug_Begin (debug_Init None))))"
  have d: "debug_idle ?d" "length (s_items (m_PointRenderer ?d)) = 0" "length (s_items (m_LineRenderer ?d)) = 1" "gpu (m_Renderer2D ?d) = []"
    "\<not> m_RenderTexture (m_Renderer2D ?d)"
    using idle_new by (simp_all add: debug_idle_def GenDrawTriangle_def GenDrawHairLine_def debug_Init_def debug_Begin_def s_Begin_def BeginSimple_def
      SubmitTriangle_def s_Submit_def stream_new_def s_issue_def idle_def renderer2d_new_def)
  show ?thesis using debug_frame_draws [OF d(1), of "Vec3 1 0 0" "Vec3 0 1 0"] d(2-5) by auto
qed

text \<open>The edges drawn for a box are those between corners that differ in one coordinate.\<close>

lemma box_edges_spec:
  "list_all (\<lambda>(a, c). vx a = vx c \<and> vy a = vy c \<or> vx a = vx c \<and> vz a = vz c \<or> vy a = vy c \<and> vz a = vz c) (box_edges b)"
  "length (box_edges b) = 12"
  by (simp_all add: box_edges_def Let_def)

end
