(* ===== verification/BinAlloc.thy ===== *)
theory BinAlloc
  imports Prelude
begin

text \<open>
  The bin allocator (\<open>Core/OS/Allocators/BinAllocator.*\<close>): an arena of 10 MB cut into chunks of 1024 bytes, each holding
  blocks of one size; the free blocks of a size form a list whose links are stored in the blocks. Addresses are
  byte offsets from the allocator object, which sits in front of the chunks. The memory maps an address to the value
  last stored there: a link, a chunk's bin number, or data of a client. Blocks are multiples of 16 bytes, so that the
  values the allocator stores never overlap.
\<close>

section \<open>State and operations\<close>

datatype cell = Link "nat option" | Bin nat | Client nat

definition MEMORY_SIZE :: nat where "MEMORY_SIZE = 10 * 1024 * 1024"
definition BIN_SIZE :: nat where "BIN_SIZE = 1024"
definition NUM_BINS :: nat where "NUM_BINS = 128"
definition BIN_SIZE_INC :: nat where "BIN_SIZE_INC = 16"

text \<open>The virtual table, \<open>m_Max\<close> with its padding and the heads of the lists.\<close>

definition sizeof_BinAllocator :: nat where "sizeof_BinAllocator = 8 + 8 + 128 * 8"

record bin_alloc =
  m_Max :: nat
  m_Bins :: "nat option list"
  mem :: "nat \<rightharpoonup> cell"

definition bin_new :: bin_alloc where
  "bin_new = \<lparr>m_Max = 0, m_Bins = replicate NUM_BINS None, mem = Map.empty\<rparr>"

definition Chunk :: "nat \<Rightarrow> nat" where
  "Chunk num = num * BIN_SIZE + sizeof_BinAllocator"

definition ChunkIndex :: "nat \<Rightarrow> nat" where
  "ChunkIndex loc = (loc - sizeof_BinAllocator) div BIN_SIZE"

definition BinForSize :: "u64 \<Rightarrow> int" where
  "BinForSize n = sint (ucast ((n - 1) div word_of_nat BIN_SIZE_INC) :: u32)"

definition SizeForBin :: "nat \<Rightarrow> nat" where
  "SizeForBin bin = (bin + 1) * BIN_SIZE_INC"

definition BinForLocation :: "nat \<Rightarrow> bin_alloc \<Rightarrow> nat res" where
  "BinForLocation location s =
    (case mem s (Chunk (ChunkIndex location)) of Some (Bin b) \<Rightarrow> ok b | _ \<Rightarrow> fail UseAfterFree)"

definition bin_Free :: "nat \<Rightarrow> bin_alloc \<Rightarrow> bin_alloc res" where
  "bin_Free location s = rbind (BinForLocation location s) (\<lambda>bin.
     if bin \<ge> NUM_BINS then fail OutOfRange
     else ok (s\<lparr>mem := (mem s)(location \<mapsto> Link (m_Bins s ! bin)), m_Bins := (m_Bins s)[bin := Some location]\<rparr>))"

function fill_chunk :: "nat \<Rightarrow> nat \<Rightarrow> nat \<Rightarrow> bin_alloc \<Rightarrow> bin_alloc res" where
  "fill_chunk bin chunkPtr stop s =
    (if chunkPtr + SizeForBin bin \<le> stop
     then rbind (bin_Free chunkPtr s) (\<lambda>s. fill_chunk bin (chunkPtr + SizeForBin bin) stop s)
     else ok s)"
  by pat_completeness auto

termination
  by (relation "measure (\<lambda>(bin, p, stop, s). stop - p)") (auto simp: SizeForBin_def BIN_SIZE_INC_def)

declare fill_chunk.simps [simp del]

definition MakeChunk :: "nat \<Rightarrow> bin_alloc \<Rightarrow> bin_alloc res" where
  "MakeChunk bin s =
    (if (m_Max s + 2) * BIN_SIZE + sizeof_BinAllocator > MEMORY_SIZE then ok s
     else (let chunkPtr = Chunk (m_Max s);
               s = s\<lparr>m_Max := m_Max s + 1, mem := (mem s)(chunkPtr \<mapsto> Bin bin)\<rparr>
           in fill_chunk bin (chunkPtr + SizeForBin bin) (Chunk (m_Max s)) s))"

definition bin_Malloc :: "u64 \<Rightarrow> bin_alloc \<Rightarrow> (nat option \<times> bin_alloc) res" where
  "bin_Malloc n s =
    (if BinForSize n < 0 \<or> BinForSize n \<ge> int NUM_BINS then fail OutOfRange
     else (let bin = nat (BinForSize n) in
       rbind (if m_Bins s ! bin = None then MakeChunk bin s else ok s) (\<lambda>s.
         case m_Bins s ! bin of
           None \<Rightarrow> ok (None, s)
         | Some result \<Rightarrow>
             (case mem s result of
                Some (Link nx) \<Rightarrow> ok (Some result, s\<lparr>m_Bins := (m_Bins s)[bin := nx]\<rparr>)
              | _ \<Rightarrow> fail UseAfterFree))))"

section \<open>Blocks and free lists\<close>

definition block_at :: "bin_alloc \<Rightarrow> nat \<Rightarrow> nat \<Rightarrow> bool" where
  "block_at s bin a \<longleftrightarrow> (\<exists>i k. i < m_Max s \<and> mem s (Chunk i) = Some (Bin bin) \<and> bin < NUM_BINS \<and> 1 \<le> k
     \<and> (k + 1) * SizeForBin bin \<le> BIN_SIZE \<and> a = Chunk i + k * SizeForBin bin)"

inductive free_list :: "(nat \<rightharpoonup> cell) \<Rightarrow> nat option \<Rightarrow> nat list \<Rightarrow> bool" for m where
  nil: "free_list m None []"
| cons: "m a = Some (Link p) \<Longrightarrow> free_list m p xs \<Longrightarrow> free_list m (Some a) (a # xs)"

inductive_simps free_list_None [simp]: "free_list m None xs"
inductive_simps free_list_Some: "free_list m (Some a) xs"
inductive_simps free_list_Nil [simp]: "free_list m p []"

lemma free_list_upd: "free_list m p xs \<Longrightarrow> a \<notin> set xs \<Longrightarrow> free_list (m(a := c)) p xs"
  by (induction rule: free_list.induct) (auto intro: free_list.intros)

lemma chunk_index: "a < BIN_SIZE \<Longrightarrow> ChunkIndex (Chunk i + a) = i"
  by (simp add: ChunkIndex_def Chunk_def BIN_SIZE_def)

lemma SizeForBin_pos: "16 \<le> SizeForBin b"
  by (simp add: SizeForBin_def BIN_SIZE_INC_def)

text \<open>A block knows its chunk, and lies strictly inside it.\<close>

lemma block_in_chunk:
  assumes "block_at s b a"
  shows "ChunkIndex a < m_Max s" "mem s (Chunk (ChunkIndex a)) = Some (Bin b)" "b < NUM_BINS"
    "Chunk (ChunkIndex a) + SizeForBin b \<le> a" "a + SizeForBin b \<le> Chunk (ChunkIndex a + 1)"
proof -
  obtain i k where ik: "i < m_Max s" "mem s (Chunk i) = Some (Bin b)" "b < NUM_BINS" "1 \<le> k" "(k + 1) * SizeForBin b \<le> BIN_SIZE"
    "a = Chunk i + k * SizeForBin b" using assms by (auto simp: block_at_def)
  have "k * SizeForBin b < BIN_SIZE" using ik(5) SizeForBin_pos [of b] by simp
  then have c: "ChunkIndex a = i" using ik(6) chunk_index by simp
  have "SizeForBin b \<le> k * SizeForBin b" using ik(4) by simp
  then show "ChunkIndex a < m_Max s" "mem s (Chunk (ChunkIndex a)) = Some (Bin b)" "b < NUM_BINS"
    "Chunk (ChunkIndex a) + SizeForBin b \<le> a" "a + SizeForBin b \<le> Chunk (ChunkIndex a + 1)"
    using ik c by (simp_all add: Chunk_def algebra_simps)
qed

lemma block_bin_unique: "block_at s b a \<Longrightarrow> block_at s b' a \<Longrightarrow> b = b'"
  using block_in_chunk(2) [of s b a] block_in_chunk(2) [of s b' a] by simp

lemma block_not_header: "block_at s b a \<Longrightarrow> a \<noteq> Chunk i"
proof
  assume b: "block_at s b a" and "a = Chunk i"
  then have "ChunkIndex a = i" using chunk_index [of 0 i] by (simp add: BIN_SIZE_def)
  then show False using block_in_chunk(4) [OF b] SizeForBin_pos [of b] \<open>a = Chunk i\<close> by simp
qed

text \<open>Two different blocks do not overlap.\<close>

lemma blocks_disjoint:
  assumes "block_at s b a" "block_at s b' a'" "a < a'"
  shows "a + SizeForBin b \<le> a'"
proof (cases "ChunkIndex a = ChunkIndex a'")
  case True
  then have bb: "b' = b" using block_in_chunk(2) [OF assms(1)] block_in_chunk(2) [OF assms(2)] by simp
  obtain i k where i: "a = Chunk i + k * SizeForBin b" "(k + 1) * SizeForBin b \<le> BIN_SIZE" using assms(1) by (auto simp: block_at_def)
  obtain j l where j: "a' = Chunk j + l * SizeForBin b" "(l + 1) * SizeForBin b \<le> BIN_SIZE" using assms(2) bb by (auto simp: block_at_def)
  have "k * SizeForBin b < BIN_SIZE" "l * SizeForBin b < BIN_SIZE" using i(2) j(2) SizeForBin_pos [of b] by simp_all
  then have "i = j" using True chunk_index i(1) j(1) by simp
  then have "k < l" using assms(3) i(1) j(1) by simp
  then have "(k + 1) * SizeForBin b \<le> l * SizeForBin b" by (intro mult_le_mono1) simp
  then show ?thesis using i(1) j(1) \<open>i = j\<close> by simp
next
  case False
  have "ChunkIndex a \<le> ChunkIndex a'" using assms(3) unfolding ChunkIndex_def by (intro div_le_mono) simp
  then have "(ChunkIndex a + 1) * BIN_SIZE \<le> ChunkIndex a' * BIN_SIZE" using False by (intro mult_le_mono1) simp
  then have "Chunk (ChunkIndex a + 1) \<le> Chunk (ChunkIndex a')" by (simp only: Chunk_def add_le_mono1)
  then show ?thesis using block_in_chunk(5) [OF assms(1)] block_in_chunk(4) [OF assms(2)] by simp
qed

section \<open>The invariant\<close>

text \<open>\<open>fl\<close> gives the free list of every bin, \<open>A\<close> the blocks handed out.\<close>

definition bin_inv :: "bin_alloc \<Rightarrow> (nat \<Rightarrow> nat list) \<Rightarrow> nat set \<Rightarrow> bool" where
  "bin_inv s fl A \<longleftrightarrow> length (m_Bins s) = NUM_BINS \<and> Chunk (m_Max s) \<le> MEMORY_SIZE
     \<and> (\<forall>b < NUM_BINS. free_list (mem s) (m_Bins s ! b) (fl b) \<and> distinct (fl b) \<and> (\<forall>a \<in> set (fl b). block_at s b a) \<and> set (fl b) \<inter> A = {})
     \<and> (\<forall>a \<in> A. \<exists>b. block_at s b a)"

lemma bin_inv_new: "bin_inv bin_new (\<lambda>_. []) {}"
  by (simp add: bin_inv_def bin_new_def Chunk_def MEMORY_SIZE_def sizeof_BinAllocator_def)

text \<open>Storing a value in a block that is in no free list, or behind it, changes nothing the allocator knows.\<close>

lemma block_at_cong:
  assumes "m_Max s' = m_Max s" "\<And>i. mem s' (Chunk i) = mem s (Chunk i)"
  shows "block_at s' b a = block_at s b a"
  using assms by (simp add: block_at_def)

lemma block_at_store:
  assumes "\<And>i. x \<noteq> Chunk i"
  shows "block_at (s\<lparr>mem := (mem s)(x \<mapsto> c)\<rparr>) b a = block_at s b a"
  by (rule block_at_cong) (use assms in \<open>auto simp: fun_upd_def\<close>)

lemma inside_not_header:
  assumes "block_at s b a" "a \<le> x" "x < a + SizeForBin b"
  shows "x \<noteq> Chunk i"
proof -
  let ?c = "ChunkIndex a"
  have "Chunk ?c < x" "x < Chunk (?c + 1)" using block_in_chunk(4,5) [OF assms(1)] assms(2,3) SizeForBin_pos [of b] by linarith+
  then show ?thesis
  proof (cases "i \<le> ?c")
    case True
    then have "Chunk i \<le> Chunk ?c" by (simp add: Chunk_def)
    then show ?thesis using \<open>Chunk ?c < x\<close> by simp
  next
    case False
    then have "(?c + 1) * BIN_SIZE \<le> i * BIN_SIZE" by (intro mult_le_mono1) simp
    then have "Chunk (?c + 1) \<le> Chunk i" by (simp only: Chunk_def add_le_mono1)
    then show ?thesis using \<open>x < Chunk (?c + 1)\<close> by simp
  qed
qed

lemma inside_not_block:
  assumes "block_at s b a" "a \<le> x" "x < a + SizeForBin b" "block_at s b' a'" "a' \<noteq> a"
  shows "x \<noteq> a'"
  using blocks_disjoint [OF assms(1,4)] blocks_disjoint [OF assms(4,1)] assms SizeForBin_pos [of b'] by (cases "a < a'") auto

lemma client_write:
  assumes inv: "bin_inv s fl A" and b: "block_at s b a" "a \<in> A" and x: "a \<le> x" "x < a + SizeForBin b"
  shows "bin_inv (s\<lparr>mem := (mem s)(x \<mapsto> c)\<rparr>) fl A"
proof -
  note h = inside_not_header [OF b(1) x]
  have "x \<notin> set (fl b')" if "b' < NUM_BINS" for b'
  proof
    assume "x \<in> set (fl b')"
    then have "block_at s b' x" "x \<noteq> a" using inv b(2) that by (auto simp: bin_inv_def)
    then show False using inside_not_block [OF b(1) x] by blast
  qed
  then show ?thesis using inv by (auto simp: bin_inv_def block_at_store [OF h] intro: free_list_upd)
qed

text \<open>Putting a block in front of its free list.\<close>

lemma release_block:
  assumes inv: "bin_inv s fl A" and b: "block_at s b a" "a \<notin> A" "a \<notin> set (fl b)"
  shows "\<exists>s'. bin_Free a s = ok s' \<and> bin_inv s' (fl(b := a # fl b)) A \<and> m_Max s' = m_Max s
     \<and> m_Bins s' ! b = Some a \<and> (\<forall>b' c. block_at s' b' c = block_at s b' c) \<and> (\<forall>i. mem s' (Chunk i) = mem s (Chunk i))"
proof -
  note bl = block_in_chunk [OF b(1)]
  have h: "a \<noteq> Chunk i" for i using block_not_header [OF b(1)] .
  let ?s = "s\<lparr>mem := (mem s)(a \<mapsto> Link (m_Bins s ! b)), m_Bins := (m_Bins s)[b := Some a]\<rparr>"
  have f: "bin_Free a s = ok ?s" using bl(2,3) by (simp add: bin_Free_def BinForLocation_def)
  have at: "block_at ?s b' c = block_at s b' c" for b' c by (rule block_at_cong) (use h in \<open>auto simp: fun_upd_def\<close>)
  have other: "a \<notin> set (fl b')" if "b' < NUM_BINS" for b'
  proof
    assume a: "a \<in> set (fl b')"
    then have "block_at s b' a" using inv that by (auto simp: bin_inv_def)
    then have "b' = b" using block_bin_unique [OF b(1)] by blast
    then show False using a b(3) by simp
  qed
  have fl: "free_list (mem ?s) (m_Bins ?s ! b') ((fl(b := a # fl b)) b')" if b': "b' < NUM_BINS" for b'
  proof -
    have l: "free_list ((mem s)(a \<mapsto> Link (m_Bins s ! b))) (m_Bins s ! b') (fl b')"
      using inv b' other [OF b'] free_list_upd by (auto simp: bin_inv_def)
    show ?thesis
    proof (cases "b' = b")
      case True
      then show ?thesis using l b' inv by (auto simp: bin_inv_def intro: free_list.cons)
    next
      case False
      then show ?thesis using l by simp
    qed
  qed
  have "bin_inv ?s (fl(b := a # fl b)) A"
    using inv fl b bl(3) unfolding bin_inv_def at by auto
  moreover have "m_Bins ?s ! b = Some a" using inv bl(3) by (simp add: bin_inv_def)
  ultimately show ?thesis using f at h by (intro exI [of _ ?s]) auto
qed

text \<open>The loop of \<open>MakeChunk\<close> releases the blocks of the new chunk from the pointer on.\<close>

lemma fill_chunk_ok:
  assumes "bin_inv s fl A" "i < m_Max s" "mem s (Chunk i) = Some (Bin b)" "b < NUM_BINS" "p = Chunk i + k * SizeForBin b" "1 \<le> k"
    and "\<forall>x \<in> set (fl b) \<union> A. x < p \<or> ChunkIndex x \<noteq> i"
  shows "\<exists>s' fl'. fill_chunk b p (Chunk (i + 1)) s = ok s' \<and> bin_inv s' fl' A \<and> m_Max s' = m_Max s
     \<and> (p + SizeForBin b \<le> Chunk (i + 1) \<or> m_Bins s ! b \<noteq> None \<longrightarrow> m_Bins s' ! b \<noteq> None)
     \<and> (\<forall>b' c. block_at s' b' c = block_at s b' c)"
  using assms
proof (induction b p "Chunk (i + 1)" s arbitrary: fl k rule: fill_chunk.induct)
  case (1 b p s)
  show ?case
  proof (cases "p + SizeForBin b \<le> Chunk (i + 1)")
    case False
    then show ?thesis using 1(2) by (subst fill_chunk.simps) auto
  next
    case True
    have "(k + 1) * SizeForBin b \<le> BIN_SIZE" using True 1(6) by (simp add: Chunk_def algebra_simps)
    then have at: "block_at s b p" using 1(3-7) by (auto simp: block_at_def)
    moreover have ci: "ChunkIndex p = i"
    proof -
      have "k * SizeForBin b < BIN_SIZE" using \<open>(k + 1) * SizeForBin b \<le> BIN_SIZE\<close> SizeForBin_pos [of b] by simp
      then show ?thesis using chunk_index 1(6) by simp
    qed
    ultimately have "p \<notin> A" "p \<notin> set (fl b)" using 1(8) by blast+
    from release_block [OF 1(2) at this] obtain s1 where s1: "bin_Free p s = ok s1" "bin_inv s1 (fl(b := p # fl b)) A" "m_Max s1 = m_Max s"
      "m_Bins s1 ! b = Some p" "\<forall>b' c. block_at s1 b' c = block_at s b' c" "\<forall>i. mem s1 (Chunk i) = mem s (Chunk i)" by blast
    have "\<exists>s' fl'. fill_chunk b (p + SizeForBin b) (Chunk (i + 1)) s1 = ok s' \<and> bin_inv s' fl' A \<and> m_Max s' = m_Max s1
     \<and> (p + SizeForBin b + SizeForBin b \<le> Chunk (i + 1) \<or> m_Bins s1 ! b \<noteq> None \<longrightarrow> m_Bins s' ! b \<noteq> None)
     \<and> (\<forall>b' c. block_at s' b' c = block_at s1 b' c)"
    proof (rule 1(1) [OF True s1(2), of "k + 1"])
      show "\<forall>x\<in>set ((fl(b := p # fl b)) b) \<union> A. x < p + SizeForBin b \<or> ChunkIndex x \<noteq> i"
      proof
        fix x assume "x \<in> set ((fl(b := p # fl b)) b) \<union> A"
        then have "x = p \<or> x < p \<or> ChunkIndex x \<noteq> i" using 1(8) by auto
        then show "x < p + SizeForBin b \<or> ChunkIndex x \<noteq> i" using SizeForBin_pos [of b] by linarith
      qed
    qed (use s1 1(3-7) in \<open>simp_all add: algebra_simps\<close>)
    then show ?thesis using True s1 by (subst fill_chunk.simps) auto
  qed
qed

lemma MakeChunk_ok:
  assumes inv: "bin_inv s fl A" and b: "b < NUM_BINS" and e: "m_Bins s ! b = None"
  shows "\<exists>s' fl'. MakeChunk b s = ok s' \<and> bin_inv s' fl' A \<and> (\<forall>b' a. block_at s b' a \<longrightarrow> block_at s' b' a)
     \<and> ((m_Max s + 2) * BIN_SIZE + sizeof_BinAllocator \<le> MEMORY_SIZE \<and> 2 * SizeForBin b \<le> BIN_SIZE \<longrightarrow> m_Bins s' ! b \<noteq> None)"
proof (cases "(m_Max s + 2) * BIN_SIZE + sizeof_BinAllocator > MEMORY_SIZE")
  case True
  then show ?thesis using inv by (auto simp: MakeChunk_def)
next
  case False
  let ?i = "m_Max s"
  let ?s = "s\<lparr>m_Max := ?i + 1, mem := (mem s)(Chunk ?i \<mapsto> Bin b)\<rparr>"
  have inj: "Chunk i = Chunk j \<longleftrightarrow> i = j" for i j by (simp add: Chunk_def BIN_SIZE_def)
  have at: "block_at ?s b' a" if "block_at s b' a" for b' a
  proof -
    obtain i k where "i < m_Max s" "mem s (Chunk i) = Some (Bin b')" "b' < NUM_BINS" "1 \<le> k" "(k + 1) * SizeForBin b' \<le> BIN_SIZE"
      "a = Chunk i + k * SizeForBin b'" using \<open>block_at s b' a\<close> unfolding block_at_def by blast
    then show ?thesis unfolding block_at_def by (intro exI [of _ i] exI [of _ k]) (simp add: inj)
  qed
  have old: "ChunkIndex a < ?i" if "block_at s b' a" for b' a using block_in_chunk(1) [OF that] .
  have nh: "Chunk ?i \<notin> set (fl b')" if "b' < NUM_BINS" for b'
  proof
    assume "Chunk ?i \<in> set (fl b')"
    then have "block_at s b' (Chunk ?i)" using inv that by (auto simp: bin_inv_def)
    then show False using block_not_header by blast
  qed
  have iv: "bin_inv ?s fl A"
    using inv False nh at free_list_upd unfolding bin_inv_def by (auto simp: Chunk_def) blast+
  have "\<forall>x \<in> set (fl b) \<union> A. x < Chunk ?i + 1 * SizeForBin b \<or> ChunkIndex x \<noteq> ?i"
    using inv b old unfolding bin_inv_def by (metis Un_iff less_irrefl)
  from fill_chunk_ok [OF iv _ _ b refl _ this] obtain s' fl' where
    "fill_chunk b (Chunk ?i + 1 * SizeForBin b) (Chunk (?i + 1)) ?s = ok s'" "bin_inv s' fl' A" "\<forall>b' c. block_at s' b' c = block_at ?s b' c"
    "Chunk ?i + 1 * SizeForBin b + SizeForBin b \<le> Chunk (?i + 1) \<or> m_Bins ?s ! b \<noteq> None \<longrightarrow> m_Bins s' ! b \<noteq> None" by auto
  moreover from this(4) have "2 * SizeForBin b \<le> BIN_SIZE \<longrightarrow> m_Bins s' ! b \<noteq> None" by (auto simp: Chunk_def)
  ultimately show ?thesis using False at by (auto simp: MakeChunk_def Let_def)
qed

text \<open>The bin of a size holds it, unless the size is 0 or above 2048.\<close>

lemma BinForSize_ok:
  assumes "1 \<le> unat n" "unat n \<le> 2048"
  shows "0 \<le> BinForSize n" "BinForSize n < int NUM_BINS" "unat n \<le> SizeForBin (nat (BinForSize n))"
    "SizeForBin (nat (BinForSize n)) < unat n + 16"
proof -
  have "n \<noteq> 0" using assms(1) by auto
  then have p: "unat (n - 1) = unat n - 1" by (rule unat_minus_one)
  have d: "unat ((n - 1) div 16) = (unat n - 1) div 16" by (simp add: unat_div p)
  have lt: "(unat n - 1) div 16 < 128" using assms by auto
  have u: "unat (ucast ((n - 1) div 16) :: u32) = (unat n - 1) div 16"
    using d lt by (simp add: unsigned_ucast_eq take_bit_nat_eq_self)
  have "uint (ucast ((n - 1) div 16) :: u32) = int ((unat n - 1) div 16)" using u by (metis uint_nat)
  then have b: "BinForSize n = int ((unat n - 1) div 16)"
    using lt by (simp add: BinForSize_def BIN_SIZE_INC_def sint_uint signed_take_bit_int_eq_self)
  then show "0 \<le> BinForSize n" "BinForSize n < int NUM_BINS" using lt by (simp_all add: NUM_BINS_def)
  show "unat n \<le> SizeForBin (nat (BinForSize n))" "SizeForBin (nat (BinForSize n)) < unat n + 16"
    using assms(1) by (simp_all add: b SizeForBin_def BIN_SIZE_INC_def)
qed

lemma pop_block:
  assumes inv: "bin_inv s fl A" and b: "b < NUM_BINS" and h: "m_Bins s ! b = Some a"
  shows "\<exists>nx. mem s a = Some (Link nx) \<and> a \<notin> A \<and> block_at s b a
     \<and> (\<exists>fl'. bin_inv (s\<lparr>m_Bins := (m_Bins s)[b := nx]\<rparr>) fl' (insert a A))"
proof -
  have l: "free_list (mem s) (Some a) (fl b)" "distinct (fl b)" "\<forall>x \<in> set (fl b). block_at s b x" "set (fl b) \<inter> A = {}"
    using inv b h by (auto simp: bin_inv_def)
  then obtain p xs where p: "mem s a = Some (Link p)" "fl b = a # xs" "free_list (mem s) p xs"
    by (auto simp: free_list_Some)
  have at: "block_at (s\<lparr>m_Bins := (m_Bins s)[b := p]\<rparr>) b' c = block_at s b' c" for b' c by (rule block_at_cong) simp_all
  have "block_at s b a" using l(3) p(2) by simp
  have "a \<notin> set (fl b')" if "b' < NUM_BINS" "b' \<noteq> b" for b'
  proof
    assume "a \<in> set (fl b')"
    then have "block_at s b' a" using inv that(1) by (auto simp: bin_inv_def)
    then show False using block_bin_unique [of s b a b'] l(3) p(2) that(2) by auto
  qed
  then have "bin_inv (s\<lparr>m_Bins := (m_Bins s)[b := p]\<rparr>) (fl(b := xs)) (insert a A)"
    using inv b l p unfolding bin_inv_def at by (auto simp: nth_list_update intro: \<open>block_at s b a\<close>)
  then show ?thesis using p l by auto
qed

lemma Malloc_ok:
  assumes inv: "bin_inv s fl A" and n: "1 \<le> unat n" "unat n \<le> 2048"
  shows "\<exists>r s' fl'. bin_Malloc n s = ok (r, s') \<and> (\<forall>b' a. block_at s b' a \<longrightarrow> block_at s' b' a) \<and>
    (case r of None \<Rightarrow> bin_inv s' fl' A | Some a \<Rightarrow> a \<notin> A \<and> bin_inv s' fl' (insert a A) \<and> (\<exists>b. block_at s' b a \<and> unat n \<le> SizeForBin b)) \<and>
    (r = None \<longrightarrow> 2 * SizeForBin (nat (BinForSize n)) > BIN_SIZE \<or> (m_Max s + 2) * BIN_SIZE + sizeof_BinAllocator > MEMORY_SIZE)"
proof -
  let ?b = "nat (BinForSize n)"
  note bn = BinForSize_ok [OF n]
  have b: "?b < NUM_BINS" using bn(1,2) by simp
  obtain s1 fl1 where s1: "(if m_Bins s ! ?b = None then MakeChunk ?b s else ok s) = ok s1" "bin_inv s1 fl1 A"
    "\<forall>b' a. block_at s b' a \<longrightarrow> block_at s1 b' a"
    "m_Bins s1 ! ?b = None \<longrightarrow> 2 * SizeForBin ?b > BIN_SIZE \<or> (m_Max s + 2) * BIN_SIZE + sizeof_BinAllocator > MEMORY_SIZE"
  proof (cases "m_Bins s ! ?b")
    case None
    from MakeChunk_ok [OF inv b None] obtain s' fl' where s': "MakeChunk ?b s = ok s'" "bin_inv s' fl' A"
      "\<forall>b' a. block_at s b' a \<longrightarrow> block_at s' b' a"
      "(m_Max s + 2) * BIN_SIZE + sizeof_BinAllocator \<le> MEMORY_SIZE \<and> 2 * SizeForBin ?b \<le> BIN_SIZE \<longrightarrow> m_Bins s' ! ?b \<noteq> None" by blast
    have "(if m_Bins s ! ?b = None then MakeChunk ?b s else ok s) = ok s'" using None s'(1) by simp
    from that [OF this s'(2,3)] show ?thesis using s'(4) not_le by blast
  next
    case (Some a)
    then show ?thesis using inv that by auto
  qed
  have m: "bin_Malloc n s = (case m_Bins s1 ! ?b of None \<Rightarrow> ok (None, s1)
         | Some result \<Rightarrow> (case mem s1 result of
                Some (Link nx) \<Rightarrow> ok (Some result, s1\<lparr>m_Bins := (m_Bins s1)[?b := nx]\<rparr>) | _ \<Rightarrow> fail UseAfterFree))"
    using bn(1,2) s1(1) by (simp add: bin_Malloc_def Let_def)
  show ?thesis
  proof (cases "m_Bins s1 ! ?b")
    case None
    then show ?thesis using m s1 by auto
  next
    case (Some a)
    from pop_block [OF s1(2) b Some] obtain p fl' where p: "mem s1 a = Some (Link p)" "a \<notin> A" "block_at s1 ?b a"
      "bin_inv (s1\<lparr>m_Bins := (m_Bins s1)[?b := p]\<rparr>) fl' (insert a A)" by blast
    have "block_at (s1\<lparr>m_Bins := (m_Bins s1)[?b := p]\<rparr>) b' c = block_at s1 b' c" for b' c by (rule block_at_cong) simp_all
    then show ?thesis using m Some p s1(3) bn(3) by auto
  qed
qed

lemma SizeForBin_small:
  assumes "1 \<le> unat n" "unat n \<le> 512"
  shows "2 * SizeForBin (nat (BinForSize n)) \<le> BIN_SIZE"
  using BinForSize_ok(4) [of n] assms by (simp add: SizeForBin_def BIN_SIZE_INC_def BIN_SIZE_def)

section \<open>A client of the allocator\<close>

text \<open>The client asks for 1 to 2048 bytes, frees what it holds and writes into what it holds; \<open>A\<close> maps the blocks it
  holds to the sizes it asked for.\<close>

inductive heap_run :: "bin_alloc \<Rightarrow> (nat \<rightharpoonup> nat) \<Rightarrow> bool" where
  started: "heap_run bin_new Map.empty"
| alloc: "heap_run s A \<Longrightarrow> 1 \<le> unat n \<Longrightarrow> unat n \<le> 2048 \<Longrightarrow> bin_Malloc n s = ok (Some a, s') \<Longrightarrow> heap_run s' (A(a \<mapsto> unat n))"
| alloc_null: "heap_run s A \<Longrightarrow> 1 \<le> unat n \<Longrightarrow> unat n \<le> 2048 \<Longrightarrow> bin_Malloc n s = ok (None, s') \<Longrightarrow> heap_run s' A"
| freed: "heap_run s A \<Longrightarrow> A a = Some n \<Longrightarrow> bin_Free a s = ok s' \<Longrightarrow> heap_run s' (A(a := None))"
| wrote: "heap_run s A \<Longrightarrow> A a = Some n \<Longrightarrow> a \<le> x \<Longrightarrow> x < a + n \<Longrightarrow> heap_run (s\<lparr>mem := (mem s)(x \<mapsto> Client v)\<rparr>) A"

definition heap_ok :: "bin_alloc \<Rightarrow> (nat \<rightharpoonup> nat) \<Rightarrow> bool" where
  "heap_ok s A \<longleftrightarrow> (\<exists>fl. bin_inv s fl (dom A)) \<and> (\<forall>a n. A a = Some n \<longrightarrow> (\<exists>b. block_at s b a \<and> n \<le> SizeForBin b))"

lemma heap_okD:
  assumes "heap_ok s A" "A a = Some n"
  obtains b where "block_at s b a" "n \<le> SizeForBin b"
  using assms unfolding heap_ok_def by blast

lemma heap_ok_mono:
  assumes "\<forall>b a. block_at s b a \<longrightarrow> block_at s' b a" "heap_ok s A" "bin_inv s' fl (dom A)"
  shows "heap_ok s' A"
  using assms unfolding heap_ok_def by blast

lemma Free_ok:
  assumes "heap_ok s A" "A a = Some n"
  shows "\<exists>s'. bin_Free a s = ok s' \<and> heap_ok s' (A(a := None))"
proof -
  obtain fl where fl: "bin_inv s fl (dom A)" using assms(1) by (auto simp: heap_ok_def)
  obtain b where b: "block_at s b a" using assms heap_okD by blast
  have "bin_inv s fl (dom A - {a})" using fl by (auto simp: bin_inv_def)
  moreover have "a \<notin> set (fl b)" using fl assms(2) block_in_chunk(3) [OF b] by (auto simp: bin_inv_def)
  ultimately obtain s' where s': "bin_Free a s = ok s'" "bin_inv s' (fl(b := a # fl b)) (dom A - {a})"
    "\<forall>b' c. block_at s' b' c = block_at s b' c" using release_block [of s fl "dom A - {a}" b a] b by auto
  then have "heap_ok s' (A(a := None))" using assms(1) by (auto simp: heap_ok_def)
  then show ?thesis using s'(1) by blast
qed

lemma heap_run_ok: "heap_run s A \<Longrightarrow> heap_ok s A"
proof (induction rule: heap_run.induct)
  case started
  then show ?case using bin_inv_new by (auto simp: heap_ok_def)
next
  case (alloc s A n a s')
  then obtain fl where fl: "bin_inv s fl (dom A)" by (auto simp: heap_ok_def)
  from Malloc_ok [OF this alloc.hyps(2,3)] alloc.hyps(4) obtain fl' b where
    "\<forall>b' a. block_at s b' a \<longrightarrow> block_at s' b' a" "bin_inv s' fl' (insert a (dom A))" "block_at s' b a" "unat n \<le> SizeForBin b" by auto
  then have "bin_inv s' fl' (dom (A(a \<mapsto> unat n)))" "block_at s' b a" "unat n \<le> SizeForBin b" "\<forall>b' a. block_at s b' a \<longrightarrow> block_at s' b' a"
    by simp_all
  moreover have "\<exists>b. block_at s' b c \<and> m \<le> SizeForBin b" if "(A(a \<mapsto> unat n)) c = Some m" for c m
    using that calculation heap_okD [OF alloc.IH, of c m] by (cases "c = a") (simp, blast)+
  ultimately show ?case unfolding heap_ok_def by blast
next
  case (alloc_null s A n s')
  then obtain fl where fl: "bin_inv s fl (dom A)" by (auto simp: heap_ok_def)
  from Malloc_ok [OF this alloc_null.hyps(2,3)] alloc_null.hyps(4) obtain fl' where
    "\<forall>b' a. block_at s b' a \<longrightarrow> block_at s' b' a" "bin_inv s' fl' (dom A)" by auto
  then show ?case using heap_ok_mono alloc_null.IH by blast
next
  case (freed s A a n s')
  then show ?case using Free_ok [of s A a n] by (metis sum.inject(2))
next
  case (wrote s A a n x v)
  then obtain fl where fl: "bin_inv s fl (dom A)" by (auto simp: heap_ok_def)
  obtain b where b: "block_at s b a" "n \<le> SizeForBin b" using heap_okD wrote.IH wrote.hyps(2) by blast
  have x: "a \<le> x" "x < a + SizeForBin b" using wrote.hyps b(2) by auto
  have "bin_inv (s\<lparr>mem := (mem s)(x \<mapsto> Client v)\<rparr>) fl (dom A)"
    using client_write [OF fl b(1) _ x] wrote.hyps(2) by auto
  moreover have "block_at (s\<lparr>mem := (mem s)(x \<mapsto> Client v)\<rparr>) b' c = block_at s b' c" for b' c
    by (rule block_at_store) (rule inside_not_header [OF b(1) x])
  ultimately show ?case using wrote.IH unfolding heap_ok_def by auto
qed

text \<open>Property C9. Whatever a client does that asks for 1 to 2048 bytes, frees and writes only what it holds, no call faults,
  the blocks it holds do not overlap, lie behind the allocator object and inside the arena, and a null answer means that the
  size is above 512 bytes or that the arena is full.\<close>

theorem bin_allocator_safe:
  assumes "heap_run s A"
  shows "(\<forall>n. 1 \<le> unat n \<and> unat n \<le> 2048 \<longrightarrow> (\<exists>r s'. bin_Malloc n s = ok (r, s') \<and>
      (r = None \<longrightarrow> unat n > 512 \<or> (m_Max s + 2) * BIN_SIZE + sizeof_BinAllocator > MEMORY_SIZE)))
    \<and> (\<forall>a \<in> dom A. \<exists>s'. bin_Free a s = ok s')
    \<and> (\<forall>a n. A a = Some n \<longrightarrow> sizeof_BinAllocator \<le> a \<and> a + n \<le> MEMORY_SIZE)
    \<and> (\<forall>a n a' n'. A a = Some n \<and> A a' = Some n' \<and> a < a' \<longrightarrow> a + n \<le> a')"
proof (intro conjI allI impI ballI)
  note ok = heap_run_ok [OF assms]
  then obtain fl where fl: "bin_inv s fl (dom A)" by (auto simp: heap_ok_def)
  show "\<exists>r s'. bin_Malloc n s = ok (r, s') \<and> (r = None \<longrightarrow> unat n > 512 \<or> (m_Max s + 2) * BIN_SIZE + sizeof_BinAllocator > MEMORY_SIZE)"
    if "1 \<le> unat n \<and> unat n \<le> 2048" for n
  proof -
    have "2 * SizeForBin (nat (BinForSize n)) > BIN_SIZE \<Longrightarrow> unat n > 512"
    proof (rule ccontr)
      assume a: "2 * SizeForBin (nat (BinForSize n)) > BIN_SIZE" "\<not> unat n > 512"
      have "unat n \<le> 512" using a(2) by simp
      then show False using a(1) SizeForBin_small [of n] that by simp
    qed
   then show ?thesis using Malloc_ok [OF fl, of n] that by blast
  qed
  show "\<exists>s'. bin_Free a s = ok s'" if "a \<in> dom A" for a using Free_ok [OF ok] that by blast
  show "sizeof_BinAllocator \<le> a" "a + n \<le> MEMORY_SIZE" if A: "A a = Some n" for a n
  proof -
    obtain b where b: "block_at s b a" "n \<le> SizeForBin b" using heap_okD [OF ok A] .
    note c = block_in_chunk [OF b(1)]
    show "sizeof_BinAllocator \<le> a" using c(4) by (simp add: Chunk_def)
    have "(ChunkIndex a + 1) * BIN_SIZE \<le> m_Max s * BIN_SIZE" using c(1) by (intro mult_le_mono1) simp
    then have "Chunk (ChunkIndex a + 1) \<le> Chunk (m_Max s)" by (simp only: Chunk_def add_le_mono1)
    then show "a + n \<le> MEMORY_SIZE" using c(5) b(2) fl by (auto simp: bin_inv_def)
  qed
  show "a + n \<le> a'" if "A a = Some n \<and> A a' = Some n' \<and> a < a'" for a n a' n'
  proof -
    from that have A: "A a = Some n" "A a' = Some n'" "a < a'" by simp_all
    obtain b where b: "block_at s b a" "n \<le> SizeForBin b" using heap_okD [OF ok A(1)] .
    obtain b' where "block_at s b' a'" using heap_okD [OF ok A(2)] .
    then show ?thesis using blocks_disjoint [OF b(1) _ A(3)] b(2) by fastforce
  qed
qed

lemma bin_alloc_512:
  "bin_Malloc 512 bin_new = ok (Some 1552, \<lparr>m_Max = 1, m_Bins = (replicate NUM_BINS None)[31 := None],
     mem = [1040 \<mapsto> Bin 31, 1552 \<mapsto> Link None]\<rparr>)"
proof -
  have b: "BinForSize 512 = 31" by (simp add: BinForSize_def BIN_SIZE_INC_def)
  show ?thesis
    by (simp add: bin_Malloc_def b MakeChunk_def bin_new_def Let_def Chunk_def ChunkIndex_def SizeForBin_def BIN_SIZE_def BIN_SIZE_INC_def
        NUM_BINS_def MEMORY_SIZE_def sizeof_BinAllocator_def bin_Free_def BinForLocation_def fill_chunk.simps)
qed

theorem bin_allocator_safe_witness:
  "\<exists>s. heap_run s [1552 \<mapsto> 512] \<and> (\<exists>s'. bin_Free 1552 s = ok s') \<and> (\<exists>r s'. bin_Malloc 16 s = ok (r, s'))"
proof -
  let ?s = "\<lparr>m_Max = 1, m_Bins = (replicate NUM_BINS None)[31 := None], mem = [1040 \<mapsto> Bin 31, 1552 \<mapsto> Link None]\<rparr>"
  have r: "heap_run ?s [1552 \<mapsto> 512]" using heap_run.alloc [OF heap_run.started _ _ bin_alloc_512] by simp
  have f: "\<exists>s'. bin_Free 1552 ?s = ok s'" using bin_allocator_safe [OF r] by simp
  have "\<forall>n. 1 \<le> unat n \<and> unat n \<le> 2048 \<longrightarrow> (\<exists>r s'. bin_Malloc n ?s = ok (r, s'))" using bin_allocator_safe [OF r] by blast
  moreover have "1 \<le> unat (16 :: u64)" "unat (16 :: u64) \<le> 2048" by simp_all
  ultimately have "\<exists>r s'. bin_Malloc 16 ?s = ok (r, s')" by blast
  then show ?thesis using r f by blast
qed

section \<open>The sizes the allocator does not serve\<close>

text \<open>A request of no bytes computes bin number -1, one above 2048 bytes a bin beyond the array: both read outside it.\<close>

lemma Malloc_zero: "bin_Malloc 0 s = fail OutOfRange"
  by (simp add: bin_Malloc_def BinForSize_def BIN_SIZE_INC_def)

lemma Malloc_beyond_bins:
  assumes "2048 < unat n" "unat n \<le> 2 ^ 32"
  shows "bin_Malloc n s = fail OutOfRange"
proof -
  have "n \<noteq> 0" using assms(1) by auto
  then have p: "unat (n - 1) = unat n - 1" by (rule unat_minus_one)
  have d: "unat ((n - 1) div 16) = (unat n - 1) div 16" by (simp add: unat_div p)
  have lt: "(unat n - 1) div 16 < 2 ^ 28" "128 \<le> (unat n - 1) div 16" using assms by auto
  have u: "unat (ucast ((n - 1) div 16) :: u32) = (unat n - 1) div 16"
    using d lt by (simp add: unsigned_ucast_eq take_bit_nat_eq_self)
  have "uint (ucast ((n - 1) div 16) :: u32) = int ((unat n - 1) div 16)" using u by (metis uint_nat)
  then have "BinForSize n = int ((unat n - 1) div 16)"
    using lt by (simp add: BinForSize_def BIN_SIZE_INC_def sint_uint signed_take_bit_int_eq_self)
  then show ?thesis using lt(2) by (simp add: bin_Malloc_def NUM_BINS_def)
qed

text \<open>A request of 513 to 2048 bytes is never served, and takes a chunk out of the arena all the same.\<close>

lemma Malloc_large_null:
  assumes "heap_run s A" "512 < unat n" "unat n \<le> 2048"
  shows "\<exists>s'. bin_Malloc n s = ok (None, s') \<and>
    m_Max s' = (if (m_Max s + 2) * BIN_SIZE + sizeof_BinAllocator > MEMORY_SIZE then m_Max s else m_Max s + 1)"
proof -
  let ?b = "nat (BinForSize n)"
  have n: "1 \<le> unat n" using assms(2) by simp
  note bn = BinForSize_ok [OF n assms(3)]
  have b: "?b < NUM_BINS" using bn(1,2) by simp
  have large: "BIN_SIZE < 2 * SizeForBin ?b" using bn(3) assms(2) by (simp add: BIN_SIZE_def)
  have no: "\<not> block_at s' ?b a" for s' a
  proof
    assume "block_at s' ?b a"
    from block_in_chunk(4,5) [OF this] large show False by (simp add: Chunk_def)
  qed
  obtain fl where "bin_inv s fl (dom A)" using heap_run_ok [OF assms(1)] by (auto simp: heap_ok_def)
  then have l: "free_list (mem s) (m_Bins s ! ?b) (fl ?b)" "\<forall>a \<in> set (fl ?b). block_at s ?b a" using b by (simp_all add: bin_inv_def)
  have nil: "fl ?b = []" using l(2) no by (metis list.set_intros(1) neq_Nil_conv)
  have e: "m_Bins s ! ?b = None" using l(1) unfolding nil by simp
  have f: "fill_chunk ?b (Chunk (m_Max s) + SizeForBin ?b) (Chunk (m_Max s + 1)) s' = ok s'" for s'
    using large by (subst fill_chunk.simps) (simp add: Chunk_def)
  show ?thesis using bn(1,2) e f by (simp add: bin_Malloc_def MakeChunk_def Let_def not_less)
qed

end
