(* ===== verification/AffineMatrices.thy ===== *)
theory AffineMatrices
  imports Shapes PlanarVectors
begin

text \<open>
  The matrices of affine transforms (\<open>Maths/Matrix3x4.*\<close>), over a field in place of floats and in the branches
  without SSE instructions, and the transforms of planes (\<open>Maths/Plane.*\<close>) and of boxes they induce.
\<close>

section \<open>Matrices of three rows and four columns\<close>

datatype 'f mat34 = Mat34 (a00: 'f) (a01: 'f) (a02: 'f) (a03: 'f) (a10: 'f) (a11: 'f) (a12: 'f) (a13: 'f)
  (a20: 'f) (a21: 'f) (a22: 'f) (a23: 'f)

definition mat34_id :: "'f :: zero_neq_one mat34" where
  "mat34_id = Mat34 1 0 0 0 0 1 0 0 0 0 1 0"

definition mat34_zero :: "'f :: zero mat34" where
  "mat34_zero = Mat34 0 0 0 0 0 0 0 0 0 0 0 0"

definition mat34_of_mat3 :: "'f :: zero mat3 \<Rightarrow> 'f mat34" where
  "mat34_of_mat3 m = Mat34 (m00 m) (m01 m) (m02 m) 0 (m10 m) (m11 m) (m12 m) 0 (m20 m) (m21 m) (m22 m) 0"

definition mat34_of_mat4 :: "'f mat4 \<Rightarrow> 'f mat34" where
  "mat34_of_mat4 m = Mat34 (n00 m) (n01 m) (n02 m) (n03 m) (n10 m) (n11 m) (n12 m) (n13 m) (n20 m) (n21 m) (n22 m) (n23 m)"

definition mat34_SetTranslation :: "'f vec3 \<Rightarrow> 'f mat34 \<Rightarrow> 'f mat34" where
  "mat34_SetTranslation t m = Mat34 (a00 m) (a01 m) (a02 m) (vx t) (a10 m) (a11 m) (a12 m) (vy t) (a20 m) (a21 m) (a22 m) (vz t)"

definition mat34_SetRotation :: "'f mat3 \<Rightarrow> 'f mat34 \<Rightarrow> 'f mat34" where
  "mat34_SetRotation r m = Mat34 (m00 r) (m01 r) (m02 r) (a03 m) (m10 r) (m11 r) (m12 r) (a13 m) (m20 r) (m21 r) (m22 r) (a23 m)"

definition mat34_SetScale :: "'f vec3 \<Rightarrow> 'f mat34 \<Rightarrow> 'f mat34" where
  "mat34_SetScale s m = Mat34 (vx s) (a01 m) (a02 m) (a03 m) (a10 m) (vy s) (a12 m) (a13 m) (a20 m) (a21 m) (vz s) (a23 m)"

definition mat34_SetScale1 :: "'f \<Rightarrow> 'f mat34 \<Rightarrow> 'f mat34" where
  "mat34_SetScale1 s m = Mat34 s (a01 m) (a02 m) (a03 m) (a10 m) s (a12 m) (a13 m) (a20 m) (a21 m) s (a23 m)"

definition mat34_TRS1 :: "'f :: comm_ring_1 vec3 \<Rightarrow> 'f quat \<Rightarrow> 'f \<Rightarrow> 'f mat34" where
  "mat34_TRS1 translation rotation scale =
    mat34_SetTranslation translation (mat34_SetRotation (mat3_scale (RotationMatrix rotation) scale) mat34_id)"

definition mat34_TRS :: "'f :: comm_ring_1 vec3 \<Rightarrow> 'f quat \<Rightarrow> 'f vec3 \<Rightarrow> 'f mat34" where
  "mat34_TRS translation rotation scale =
    mat34_SetTranslation translation (mat34_SetRotation (mat3_Scaled (RotationMatrix rotation) scale) mat34_id)"

definition mat34_vec :: "'f :: comm_ring mat34 \<Rightarrow> 'f vec3 \<Rightarrow> 'f vec3" where
  "mat34_vec m v = Vec3 (a00 m * vx v + a01 m * vy v + a02 m * vz v + a03 m)
     (a10 m * vx v + a11 m * vy v + a12 m * vz v + a13 m) (a20 m * vx v + a21 m * vy v + a22 m * vz v + a23 m)"

definition mat34_vec4 :: "'f :: comm_ring mat34 \<Rightarrow> 'f vec4 \<Rightarrow> 'f vec3" where
  "mat34_vec4 m v = Vec3 (a00 m * x4 v + a01 m * y4 v + a02 m * z4 v + a03 m * w4 v)
     (a10 m * x4 v + a11 m * y4 v + a12 m * z4 v + a13 m * w4 v) (a20 m * x4 v + a21 m * y4 v + a22 m * z4 v + a23 m * w4 v)"

definition mat34_add :: "'f :: plus mat34 \<Rightarrow> 'f mat34 \<Rightarrow> 'f mat34" where
  "mat34_add a b = Mat34 (a00 a + a00 b) (a01 a + a01 b) (a02 a + a02 b) (a03 a + a03 b)
     (a10 a + a10 b) (a11 a + a11 b) (a12 a + a12 b) (a13 a + a13 b)
     (a20 a + a20 b) (a21 a + a21 b) (a22 a + a22 b) (a23 a + a23 b)"

definition mat34_sub :: "'f :: minus mat34 \<Rightarrow> 'f mat34 \<Rightarrow> 'f mat34" where
  "mat34_sub a b = Mat34 (a00 a - a00 b) (a01 a - a01 b) (a02 a - a02 b) (a03 a - a03 b)
     (a10 a - a10 b) (a11 a - a11 b) (a12 a - a12 b) (a13 a - a13 b)
     (a20 a - a20 b) (a21 a - a21 b) (a22 a - a22 b) (a23 a - a23 b)"

definition mat34_scale :: "'f :: times mat34 \<Rightarrow> 'f \<Rightarrow> 'f mat34" where
  "mat34_scale a s = Mat34 (a00 a * s) (a01 a * s) (a02 a * s) (a03 a * s) (a10 a * s) (a11 a * s) (a12 a * s) (a13 a * s)
     (a20 a * s) (a21 a * s) (a22 a * s) (a23 a * s)"

definition mat34_mul :: "'f :: comm_ring mat34 \<Rightarrow> 'f mat34 \<Rightarrow> 'f mat34" where
  "mat34_mul a b = Mat34
     (a00 a * a00 b + a01 a * a10 b + a02 a * a20 b)
     (a00 a * a01 b + a01 a * a11 b + a02 a * a21 b)
     (a00 a * a02 b + a01 a * a12 b + a02 a * a22 b)
     (a00 a * a03 b + a01 a * a13 b + a02 a * a23 b + a03 a)
     (a10 a * a00 b + a11 a * a10 b + a12 a * a20 b)
     (a10 a * a01 b + a11 a * a11 b + a12 a * a21 b)
     (a10 a * a02 b + a11 a * a12 b + a12 a * a22 b)
     (a10 a * a03 b + a11 a * a13 b + a12 a * a23 b + a13 a)
     (a20 a * a00 b + a21 a * a10 b + a22 a * a20 b)
     (a20 a * a01 b + a21 a * a11 b + a22 a * a21 b)
     (a20 a * a02 b + a21 a * a12 b + a22 a * a22 b)
     (a20 a * a03 b + a21 a * a13 b + a22 a * a23 b + a23 a)"

definition mat34_mul4 :: "'f :: comm_ring mat34 \<Rightarrow> 'f mat4 \<Rightarrow> 'f mat4" where
  "mat34_mul4 a b = Mat4
     (a00 a * n00 b + a01 a * n10 b + a02 a * n20 b + a03 a * n30 b)
     (a00 a * n01 b + a01 a * n11 b + a02 a * n21 b + a03 a * n31 b)
     (a00 a * n02 b + a01 a * n12 b + a02 a * n22 b + a03 a * n32 b)
     (a00 a * n03 b + a01 a * n13 b + a02 a * n23 b + a03 a * n33 b)
     (a10 a * n00 b + a11 a * n10 b + a12 a * n20 b + a13 a * n30 b)
     (a10 a * n01 b + a11 a * n11 b + a12 a * n21 b + a13 a * n31 b)
     (a10 a * n02 b + a11 a * n12 b + a12 a * n22 b + a13 a * n32 b)
     (a10 a * n03 b + a11 a * n13 b + a12 a * n23 b + a13 a * n33 b)
     (a20 a * n00 b + a21 a * n10 b + a22 a * n20 b + a23 a * n30 b)
     (a20 a * n01 b + a21 a * n11 b + a22 a * n21 b + a23 a * n31 b)
     (a20 a * n02 b + a21 a * n12 b + a22 a * n22 b + a23 a * n32 b)
     (a20 a * n03 b + a21 a * n13 b + a22 a * n23 b + a23 a * n33 b)
     (n30 b) (n31 b) (n32 b) (n33 b)"

definition mat34_ToMatrix3 :: "'f mat34 \<Rightarrow> 'f mat3" where
  "mat34_ToMatrix3 m = Mat3 (a00 m) (a01 m) (a02 m) (a10 m) (a11 m) (a12 m) (a20 m) (a21 m) (a22 m)"

definition ToMatrix4 :: "'f :: zero_neq_one mat34 \<Rightarrow> 'f mat4" where
  "ToMatrix4 m = Mat4 (a00 m) (a01 m) (a02 m) (a03 m) (a10 m) (a11 m) (a12 m) (a13 m) (a20 m) (a21 m) (a22 m) (a23 m) 0 0 0 1"

definition mat34_Translation :: "'f mat34 \<Rightarrow> 'f vec3" where
  "mat34_Translation m = Vec3 (a03 m) (a13 m) (a23 m)"

definition mat34_RotationMatrix :: "real mat34 \<Rightarrow> real mat3" where
  "mat34_RotationMatrix m =
    (let invScale = Vec3 (1 / sqrt (a00 m * a00 m + a10 m * a10 m + a20 m * a20 m))
                      (1 / sqrt (a01 m * a01 m + a11 m * a11 m + a21 m * a21 m))
                      (1 / sqrt (a02 m * a02 m + a12 m * a12 m + a22 m * a22 m))
     in mat3_Scaled (mat34_ToMatrix3 m) invScale)"

definition mat34_Rotation :: "real mat34 \<Rightarrow> real quat" where
  "mat34_Rotation m = FromRotationMatrix (mat34_RotationMatrix m)"

definition mat34_Scale :: "real mat34 \<Rightarrow> real vec3" where
  "mat34_Scale m = Vec3 (sqrt (a00 m * a00 m + a10 m * a10 m + a20 m * a20 m))
     (sqrt (a01 m * a01 m + a11 m * a11 m + a21 m * a21 m)) (sqrt (a02 m * a02 m + a12 m * a12 m + a22 m * a22 m))"

definition mat34_SignedScale :: "'f :: comm_ring mat34 \<Rightarrow> 'f mat3 \<Rightarrow> 'f vec3" where
  "mat34_SignedScale m rotation = Vec3 (m00 rotation * a00 m + m10 rotation * a10 m + m20 rotation * a20 m)
     (m01 rotation * a01 m + m11 rotation * a11 m + m21 rotation * a21 m)
     (m02 rotation * a02 m + m12 rotation * a12 m + m22 rotation * a22 m)"

text \<open>The twelve elements in the order of \<open>Data\<close>.\<close>

definition mat34_Data :: "'f mat34 \<Rightarrow> 'f list" where
  "mat34_Data m = [a00 m, a01 m, a02 m, a03 m, a10 m, a11 m, a12 m, a13 m, a20 m, a21 m, a22 m, a23 m]"

definition mat34_Equals :: "'f :: linordered_field mat34 \<Rightarrow> 'f mat34 \<Rightarrow> 'f \<Rightarrow> bool" where
  "mat34_Equals a b eps \<longleftrightarrow> list_all2 (\<lambda>x y. Equals_eps x y eps) (mat34_Data a) (mat34_Data b)"

definition Element :: "'f mat34 \<Rightarrow> nat \<Rightarrow> nat \<Rightarrow> 'f res" where
  "Element m i j = (if i * 4 + j < 12 then ok (mat34_Data m ! (i * 4 + j)) else fail OutOfRange)"

definition mat34_Row :: "'f mat34 \<Rightarrow> nat \<Rightarrow> 'f vec4 res" where
  "mat34_Row m i = rbind (Element m i 0) (\<lambda>x. rbind (Element m i 1) (\<lambda>y. rbind (Element m i 2) (\<lambda>z.
     rbind (Element m i 3) (\<lambda>w. ok (Vec4 x y z w)))))"

definition mat34_Column :: "'f mat34 \<Rightarrow> nat \<Rightarrow> 'f vec3 res" where
  "mat34_Column m j = rbind (Element m 0 j) (\<lambda>x. rbind (Element m 1 j) (\<lambda>y. rbind (Element m 2 j) (\<lambda>z. ok (Vec3 x y z))))"

definition Decompose :: "real mat34 \<Rightarrow> real vec3 \<times> real quat \<times> real vec3" where
  "Decompose m =
    (let translation = Vec3 (a03 m) (a13 m) (a23 m);
         scale = Vec3 (sqrt (a00 m * a00 m + a10 m * a10 m + a20 m * a20 m))
                   (sqrt (a01 m * a01 m + a11 m * a11 m + a21 m * a21 m)) (sqrt (a02 m * a02 m + a12 m * a12 m + a22 m * a22 m));
         invScale = Vec3 (1 / vx scale) (1 / vy scale) (1 / vz scale);
         rotation = FromRotationMatrix (mat3_Scaled (mat34_ToMatrix3 m) invScale)
     in (translation, rotation, scale))"

definition mat34_det :: "'f :: comm_ring mat34 \<Rightarrow> 'f" where
  "mat34_det m = a00 m * a11 m * a22 m + a10 m * a21 m * a02 m + a20 m * a01 m * a12 m
     - a20 m * a11 m * a02 m - a10 m * a01 m * a22 m - a00 m * a21 m * a12 m"

definition mat34_Inverse :: "'f :: field mat34 \<Rightarrow> 'f mat34" where
  "mat34_Inverse m =
    (let invDet = 1 / mat34_det m;
         r00 = (a11 m * a22 m - a21 m * a12 m) * invDet; r01 = - (a01 m * a22 m - a21 m * a02 m) * invDet;
         r02 = (a01 m * a12 m - a11 m * a02 m) * invDet; r03 = - (a03 m * r00 + a13 m * r01 + a23 m * r02);
         r10 = - (a10 m * a22 m - a20 m * a12 m) * invDet; r11 = (a00 m * a22 m - a20 m * a02 m) * invDet;
         r12 = - (a00 m * a12 m - a10 m * a02 m) * invDet; r13 = - (a03 m * r10 + a13 m * r11 + a23 m * r12);
         r20 = (a10 m * a21 m - a20 m * a11 m) * invDet; r21 = - (a00 m * a21 m - a20 m * a01 m) * invDet;
         r22 = (a00 m * a11 m - a10 m * a01 m) * invDet; r23 = - (a03 m * r20 + a13 m * r21 + a23 m * r22)
     in Mat34 r00 r01 r02 r03 r10 r11 r12 r13 r20 r21 r22 r23)"

section \<open>They act as the 4x4 matrices whose last row is that of the identity\<close>

lemmas mat34_simps = mat34_id_def mat34_vec_def mat34_vec4_def mat34_mul_def mat34_mul4_def ToMatrix4_def mat34_ToMatrix3_def
  mat34_Translation_def mat34_of_mat3_def mat34_of_mat4_def

lemma affine_ToMatrix4 [simp]: "affine (ToMatrix4 m)"
  by (simp add: affine_def ToMatrix4_def)

lemma ToMatrix4_of_mat4: "affine m \<Longrightarrow> ToMatrix4 (mat34_of_mat4 m) = m"
  by (simp add: affine_def mat34_simps mat4.expand)

lemma ToMatrix4_mul: "ToMatrix4 (mat34_mul a b) = mat4_mul (ToMatrix4 a) (ToMatrix4 b)" for a b :: "'f :: comm_ring_1 mat34"
  by (simp add: mat34_simps mat4_mul_def)

lemma mat34_mul4_ToMatrix4: "mat34_mul4 a b = mat4_mul (ToMatrix4 a) b" for a :: "'f :: comm_ring_1 mat34"
  by (simp add: mat34_simps mat4_mul_def)

lemma mat34_vec_ToMatrix4: "mat4_vec (ToMatrix4 m) v = mat34_vec m v" for v :: "'f :: field vec3"
  by (simp add: mat34_simps mat4_vec_def)

lemma mat34_vec4_point: "mat34_vec4 m (Vec4 (vx v) (vy v) (vz v) 1) = mat34_vec m v" for v :: "'f :: comm_ring_1 vec3"
  by (simp add: mat34_simps)

lemma mat34_vec_mul: "mat34_vec (mat34_mul a b) v = mat34_vec a (mat34_vec b v)"
  by (simp add: mat34_simps algebra_simps)

lemma mat34_vec_split: "mat34_vec m v = mat3_vec (mat34_ToMatrix3 m) v + mat34_Translation m"
  by (simp add: mat34_simps mat3_vec_def plus_vec3_def vec_add_def)

lemma mat34_id_vec [simp]: "mat34_vec mat34_id v = v" for v :: "'f :: comm_ring_1 vec3"
  by (simp add: mat34_simps vec3.expand)

lemma mat34_det_ToMatrix3: "mat34_det m = mat3_det (mat34_ToMatrix3 m)"
  by (simp add: mat34_det_def mat3_det_def mat34_ToMatrix3_def)

lemma mat34_inverse:
  assumes "mat34_det m \<noteq> (0 :: 'f :: field)"
  shows "mat34_mul m (mat34_Inverse m) = mat34_id" "mat34_mul (mat34_Inverse m) m = mat34_id"
proof -
  define k where "k = 1 / mat34_det m"
  have k: "mat34_det m * k = 1" using assms by (simp add: k_def)
  note unf = mat34_Inverse_def Let_def k_def [symmetric] mat34_mul_def mat34_id_def mat34_det_def
  have e: "mat34_mul m (mat34_Inverse m) = Mat34 (mat34_det m * k) 0 0 (a03 m * (1 - mat34_det m * k)) 0 (mat34_det m * k) 0 (a13 m * (1 - mat34_det m * k))
     0 0 (mat34_det m * k) (a23 m * (1 - mat34_det m * k))"
    "mat34_mul (mat34_Inverse m) m = Mat34 (mat34_det m * k) 0 0 0 0 (mat34_det m * k) 0 0 0 0 (mat34_det m * k) 0"
    unfolding mat34_Inverse_def Let_def k_def [symmetric]
    by (simp_all add: mat34_mul_def mat34_det_def algebra_simps)
  show "mat34_mul m (mat34_Inverse m) = mat34_id" "mat34_mul (mat34_Inverse m) m = mat34_id"
    unfolding e by (simp_all add: k mat34_id_def)
qed

lemma mat34_inverse_vec:
  assumes "mat34_det m \<noteq> (0 :: 'f :: field)"
  shows "mat34_vec m (mat34_vec (mat34_Inverse m) v) = v" "mat34_vec (mat34_Inverse m) (mat34_vec m v) = v"
  using mat34_inverse [OF assms] by (simp_all flip: mat34_vec_mul)

section \<open>Decomposition\<close>

lemma columns_of_rotation:
  assumes "quat_LengthSquared q = 1"
  shows "m00 (RotationMatrix q) * m00 (RotationMatrix q) + m10 (RotationMatrix q) * m10 (RotationMatrix q)
      + m20 (RotationMatrix q) * m20 (RotationMatrix q) = 1"
    "m01 (RotationMatrix q) * m01 (RotationMatrix q) + m11 (RotationMatrix q) * m11 (RotationMatrix q)
      + m21 (RotationMatrix q) * m21 (RotationMatrix q) = 1"
    "m02 (RotationMatrix q) * m02 (RotationMatrix q) + m12 (RotationMatrix q) * m12 (RotationMatrix q)
      + m22 (RotationMatrix q) * m22 (RotationMatrix q) = 1"
  using rotation_orthogonal(1) [OF assms] by (simp_all add: mat3_mul_def mat3_Transpose_def mat3_id_def)

lemma sqrt_scaled_column:
  assumes "a * a + b * b + c * c = (1 :: real)" "0 < s"
  shows "sqrt (a * s * (a * s) + b * s * (b * s) + c * s * (c * s)) = s"
proof -
  have "a * s * (a * s) + b * s * (b * s) + c * s * (c * s) = (a * a + b * b + c * c) * (s * s)" by (simp add: algebra_simps)
  then show ?thesis using assms by simp
qed

lemma mat34_TRS_vec: "mat34_vec (mat34_TRS t q s) v = vec_add (quat_rotate q (vec_mul s v)) t"
  by (simp add: rotate_matrix [symmetric] mat34_TRS_def mat34_vec_def mat34_SetTranslation_def mat34_SetRotation_def mat3_Scaled_def
      mat3_vec_def vec_mul_def vec_add_def algebra_simps)

lemma mat34_TRS1_vec: "mat34_vec (mat34_TRS1 t q s) v = vec_add (vec_scale (quat_rotate q v) s) t"
  by (simp add: rotate_matrix [symmetric] mat34_TRS1_def mat34_vec_def mat34_SetTranslation_def mat34_SetRotation_def mat3_scale_def
      mat3_vec_def vec_scale_def vec_add_def algebra_simps)

lemma sgn_rotation: "a \<noteq> (0 :: real) \<Longrightarrow> RotationMatrix (quat_scale q (sgn a)) = RotationMatrix q"
  by (simp add: RotationMatrix_def quat_scale_def sgn_if)

text \<open>Property C40. Composing a transform from a translation, a unit quaternion and positive scales and decomposing it again returns
  the translation, the scales and, up to its sign, the quaternion, so the same rotation; the two ways of reading the
  scale and rotation of the matrix agree with the decomposition.\<close>

theorem decompose_compose:
  assumes "quat_LengthSquared q = 1" and "0 < vx s" and "0 < vy s" and "0 < vz s"
  shows "Decompose (mat34_TRS t q s) = (t, mat34_Rotation (mat34_TRS t q s), s)
    \<and> mat34_Scale (mat34_TRS t q s) = s \<and> mat34_Translation (mat34_TRS t q s) = t
    \<and> mat34_RotationMatrix (mat34_TRS t q s) = RotationMatrix q
    \<and> RotationMatrix (mat34_Rotation (mat34_TRS t q s)) = RotationMatrix q
    \<and> (mat34_Rotation (mat34_TRS t q s) = q \<or> mat34_Rotation (mat34_TRS t q s) = quat_neg q)"
proof -
  let ?R = "RotationMatrix q"
  have m: "mat34_TRS t q s = Mat34 (m00 ?R * vx s) (m01 ?R * vy s) (m02 ?R * vz s) (vx t) (m10 ?R * vx s) (m11 ?R * vy s) (m12 ?R * vz s) (vy t)
     (m20 ?R * vx s) (m21 ?R * vy s) (m22 ?R * vz s) (vz t)"
    by (simp add: mat34_TRS_def mat34_SetTranslation_def mat34_SetRotation_def mat3_Scaled_def)
  note cols = columns_of_rotation [OF assms(1)]
  note sc = sqrt_scaled_column [OF cols(1) assms(2)] sqrt_scaled_column [OF cols(2) assms(3)] sqrt_scaled_column [OF cols(3) assms(4)]
  have R: "mat34_RotationMatrix (mat34_TRS t q s) = ?R"
    unfolding m mat34_RotationMatrix_def mat34_ToMatrix3_def mat34.sel sc Let_def
    using assms(2-4) by (simp add: mat3_Scaled_def mat3.expand)
  obtain a where a: "a \<noteq> 0" "FromRotationMatrix ?R = quat_scale q (sgn a)" using FromRotationMatrix_cases [OF assms(1)] .
  have S: "mat34_Scale (mat34_TRS t q s) = s"
    unfolding m mat34_Scale_def mat34.sel sc by (simp add: vec3.expand)
  have D: "Decompose (mat34_TRS t q s) = (t, FromRotationMatrix (mat34_RotationMatrix (mat34_TRS t q s)), s)"
    unfolding m Decompose_def mat34_RotationMatrix_def mat34.sel sc Let_def by (simp add: vec3.expand)
  have q: "quat_scale q (sgn a) = q \<or> quat_scale q (sgn a) = quat_neg q"
    using a(1) by (auto simp: quat_scale_def quat_neg_def sgn_if quat.expand)
  have T: "mat34_Translation (mat34_TRS t q s) = t" unfolding m by (simp add: mat34_Translation_def vec3.expand)
  show ?thesis using D S T R q a sgn_rotation [OF a(1)] by (simp add: mat34_Rotation_def)
qed

theorem decompose_compose_witness:
  "mat34_Scale (mat34_TRS (Vec3 1 2 3) quat_id (Vec3 2 2 (1 / 2))) = Vec3 2 2 (1 / 2)"
  using decompose_compose [of quat_id "Vec3 2 2 (1 / 2)" "Vec3 1 2 3"] by (simp add: quat_id_def quat_LengthSquared_def)

section \<open>Planes under transforms\<close>

definition mat4_vec4 :: "'f :: comm_ring mat4 \<Rightarrow> 'f vec4 \<Rightarrow> 'f vec4" where
  "mat4_vec4 m v = Vec4 (n00 m * x4 v + n01 m * y4 v + n02 m * z4 v + n03 m * w4 v)
     (n10 m * x4 v + n11 m * y4 v + n12 m * z4 v + n13 m * w4 v)
     (n20 m * x4 v + n21 m * y4 v + n22 m * z4 v + n23 m * w4 v)
     (n30 m * x4 v + n31 m * y4 v + n32 m * z4 v + n33 m * w4 v)"

definition Plane_vec4 :: "real vec4 \<Rightarrow> plane" where
  "Plane_vec4 v = (let n = Vec3 (x4 v) (y4 v) (z4 v) in \<lparr>plane_normal = n, plane_absNormal = vec_Abs n, plane_d = w4 v\<rparr>)"

definition plane_ToVector4 :: "plane \<Rightarrow> real vec4" where
  "plane_ToVector4 p = Vec4 (vx (plane_normal p)) (vy (plane_normal p)) (vz (plane_normal p)) (plane_d p)"

definition plane_Transformed4 :: "real mat4 \<Rightarrow> plane \<Rightarrow> plane" where
  "plane_Transformed4 m p = Plane_vec4 (mat4_vec4 (mat4_Transpose (mat4_Inverse m)) (plane_ToVector4 p))"

definition plane_Transformed34 :: "real mat34 \<Rightarrow> plane \<Rightarrow> plane" where
  "plane_Transformed34 m p = Plane_vec4 (mat4_vec4 (mat4_Transpose (mat4_Inverse (ToMatrix4 m))) (plane_ToVector4 p))"

definition plane_Transformed3 :: "real mat3 \<Rightarrow> plane \<Rightarrow> plane" where
  "plane_Transformed3 m p = Plane_vec4 (mat4_vec4 (mat4_Transpose (mat4_Inverse (mat4_of_mat3 m))) (plane_ToVector4 p))"

definition ReflectionMatrix :: "plane \<Rightarrow> real mat34" where
  "ReflectionMatrix p = (let n = plane_normal p; d = plane_d p in Mat34
     (-2 * vx n * vx n + 1) (-2 * vx n * vy n) (-2 * vx n * vz n) (-2 * vx n * d)
     (-2 * vy n * vx n) (-2 * vy n * vy n + 1) (-2 * vy n * vz n) (-2 * vy n * d)
     (-2 * vz n * vx n) (-2 * vz n * vy n) (-2 * vz n * vz n + 1) (-2 * vz n * d))"

lemma mat4_vec4_transpose:
  "vec4_DotProduct (mat4_vec4 (mat4_Transpose m) a) b = vec4_DotProduct a (mat4_vec4 m b)"
  by (simp add: vec4_DotProduct_def mat4_vec4_def mat4_Transpose_def algebra_simps)

lemma mat4_vec4_mul: "mat4_vec4 (mat4_mul a b) v = mat4_vec4 a (mat4_vec4 b v)"
  by (simp add: mat4_vec4_def mat4_mul_def algebra_simps)

lemma mat4_vec4_id [simp]: "mat4_vec4 mat4_id v = v" for v :: "'f :: comm_ring_1 vec4"
  by (simp add: mat4_vec4_def mat4_id_def vec4.expand)

lemma affine_vec4: "affine m \<Longrightarrow> mat4_vec4 m (vec4_point v) = vec4_point (mat4_vec m v)"
  by (simp add: affine_def mat4_vec4_def mat4_vec_def vec4_point_def)

lemma mat4_det_affine: "affine m \<Longrightarrow> mat4_det m = mat3_det (ToMatrix3 m)" for m :: "'f :: field mat4"
  unfolding affine_def mat4_det_def mat3_det_def ToMatrix3_def Let_def mat3.sel by (simp add: algebra_simps)

lemma plane_Distance_vec4: "plane_Distance (Plane_vec4 a) v = vec4_DotProduct a (vec4_point v)"
  "plane_Distance p v = vec4_DotProduct (plane_ToVector4 p) (vec4_point v)"
  by (simp_all add: plane_Distance_def Plane_vec4_def plane_ToVector4_def vec4_DotProduct_def vec4_point_def DotProduct_def Let_def)

text \<open>The transformed plane keeps the signed distances of the transformed points.\<close>

lemma plane_Transformed4_distance:
  assumes "affine m" "mat3_det (ToMatrix3 m) \<noteq> 0"
  shows "plane_Distance (plane_Transformed4 m p) (mat4_vec m v) = plane_Distance p v"
proof -
  have "mat4_vec4 (mat4_Inverse m) (vec4_point (mat4_vec m v)) = vec4_point v"
    using mat4_inverse [of m] assms by (simp add: mat4_det_affine flip: affine_vec4 mat4_vec4_mul)
  then show ?thesis
    by (simp add: plane_Transformed4_def plane_Distance_vec4(1) mat4_vec4_transpose) (simp add: plane_Distance_vec4(2))
qed

lemma ToMatrix3_ToMatrix4 [simp]: "ToMatrix3 (ToMatrix4 m) = mat34_ToMatrix3 m"
  by (simp add: mat34_simps ToMatrix3_def)

lemma plane_Transformed34_distance:
  assumes "mat34_det m \<noteq> 0"
  shows "plane_Distance (plane_Transformed34 m p) (mat34_vec m v) = plane_Distance p v"
  using plane_Transformed4_distance [of "ToMatrix4 m" p v] assms
  by (simp add: mat34_vec_ToMatrix4 mat34_det_ToMatrix3 plane_Transformed4_def plane_Transformed34_def)

lemma plane_Transformed3_distance:
  assumes "mat3_det m \<noteq> 0"
  shows "plane_Distance (plane_Transformed3 m p) (mat3_vec m v) = plane_Distance p v"
proof -
  have "mat4_vec (mat4_of_mat3 m) v = mat3_vec m v"
    by (simp add: mat4_vec_def mat4_of_mat3_def mat3_vec_def)
  then show ?thesis using plane_Transformed4_distance [of "mat4_of_mat3 m" p v] assms
    by (simp add: plane_Transformed4_def plane_Transformed3_def)
qed

text \<open>The reflection matrix mirrors points in the plane.\<close>

lemma ReflectionMatrix_vec: "mat34_vec (ReflectionMatrix p) v = vec_sub v (vec_scale (plane_normal p) (2 * plane_Distance p v))"
  by (simp add: ReflectionMatrix_def mat34_vec_def plane_Distance_def vec_defs Let_def algebra_simps)

lemma reflection_involutive:
  assumes "LengthSquared (plane_normal p) = 1"
  shows "mat34_vec (ReflectionMatrix p) (mat34_vec (ReflectionMatrix p) v) = v"
    "plane_Distance p (mat34_vec (ReflectionMatrix p) v) = - plane_Distance p v"
proof -
  have "DotProduct n (vec_sub v (vec_scale n k)) = DotProduct n v - k * LengthSquared n" for n :: "real vec3" and k
    by (simp add: vec_defs algebra_simps)
  then show d: "plane_Distance p (mat34_vec (ReflectionMatrix p) v) = - plane_Distance p v"
    unfolding ReflectionMatrix_vec using assms by (simp add: plane_Distance_def)
  have "mat34_vec (ReflectionMatrix p) (mat34_vec (ReflectionMatrix p) v)
      = vec_sub (mat34_vec (ReflectionMatrix p) v) (vec_scale (plane_normal p) (2 * - plane_Distance p v))"
    by (subst ReflectionMatrix_vec) (simp only: d)
  also have "\<dots> = v" unfolding ReflectionMatrix_vec by (simp only: vec_sub_def vec_scale_def vec3.sel) simp
  finally show "mat34_vec (ReflectionMatrix p) (mat34_vec (ReflectionMatrix p) v) = v" .
qed

end
