(* ===== verification/Frustums.thy ===== *)
theory Frustums
  imports AffineMatrices Projections
begin

text \<open>
  View frusta (\<open>Maths/Frustum.*\<close>): eight corners, the six planes computed from them, and the tests that decide what is
  drawn. The corners are listed near face first, in the order of the code.
\<close>

section \<open>Construction\<close>

record frustum =
  f_planes :: "plane list"
  f_vertices :: "real vec3 list"

definition NUM_FRUSTUM_PLANES :: nat where "NUM_FRUSTUM_PLANES = 6"
definition NUM_FRUSTUM_VERTICES :: nat where "NUM_FRUSTUM_VERTICES = 8"

definition frustum_new :: frustum where
  "frustum_new = \<lparr>f_planes = replicate NUM_FRUSTUM_PLANES \<lparr>plane_normal = 0, plane_absNormal = 0, plane_d = 0\<rparr>,
     f_vertices = replicate NUM_FRUSTUM_VERTICES 0\<rparr>"

definition plane_flip :: "plane \<Rightarrow> plane" where
  "plane_flip p = p\<lparr>plane_normal := vec_neg (plane_normal p), plane_d := - plane_d p\<rparr>"

definition vertex_planes :: "real vec3 list \<Rightarrow> plane list" where
  "vertex_planes v = [Plane_vertices (v ! 2) (v ! 1) (v ! 0), Plane_vertices (v ! 3) (v ! 7) (v ! 6),
     Plane_vertices (v ! 1) (v ! 5) (v ! 4), Plane_vertices (v ! 0) (v ! 4) (v ! 7),
     Plane_vertices (v ! 6) (v ! 5) (v ! 1), Plane_vertices (v ! 5) (v ! 6) (v ! 7)]"

definition UpdatePlanes :: "frustum \<Rightarrow> frustum" where
  "UpdatePlanes f =
    (let v = f_vertices f; planes = vertex_planes v
     in f\<lparr>f_planes := if plane_Distance (planes ! 0) (v ! 5) < 0 then map plane_flip planes else planes\<rparr>)"

definition Define_extents :: "real vec3 \<Rightarrow> real vec3 \<Rightarrow> real mat34 \<Rightarrow> frustum \<Rightarrow> frustum" where
  "Define_extents lNear lFar m f = UpdatePlanes (f\<lparr>f_vertices :=
     [mat34_vec m lNear, mat34_vec m (Vec3 (vx lNear) (- vy lNear) (vz lNear)),
      mat34_vec m (Vec3 (- vx lNear) (- vy lNear) (vz lNear)), mat34_vec m (Vec3 (- vx lNear) (vy lNear) (vz lNear)),
      mat34_vec m lFar, mat34_vec m (Vec3 (vx lFar) (- vy lFar) (vz lFar)),
      mat34_vec m (Vec3 (- vx lFar) (- vy lFar) (vz lFar)), mat34_vec m (Vec3 (- vx lFar) (vy lFar) (vz lFar))]\<rparr>)"

definition Define_lens :: "real \<Rightarrow> real \<Rightarrow> real \<Rightarrow> real \<Rightarrow> real \<Rightarrow> real mat34 \<Rightarrow> frustum \<Rightarrow> frustum" where
  "Define_lens fov aspectRatio zoom nearZ farZ m f =
    (let nearZ = Max nearZ 0; farZ = Max farZ nearZ; halfViewSize = tan (fov * DEGTORAD_2) / zoom;
         nearY = nearZ * halfViewSize; farY = farZ * halfViewSize
     in Define_extents (Vec3 (nearY * aspectRatio) nearY nearZ) (Vec3 (farY * aspectRatio) farY farZ) m f)"

definition DefineOrtho :: "real \<Rightarrow> real \<Rightarrow> real \<Rightarrow> real \<Rightarrow> real \<Rightarrow> real mat34 \<Rightarrow> frustum \<Rightarrow> frustum" where
  "DefineOrtho orthoSize aspectRatio zoom nearZ farZ m f =
    (let nearZ = Max nearZ 0; farZ = Max farZ nearZ; halfViewSize = orthoSize * (1 / 2) / zoom
     in Define_extents (Vec3 (halfViewSize * aspectRatio) halfViewSize nearZ) (Vec3 (halfViewSize * aspectRatio) halfViewSize farZ) m f)"

definition Define_bbox :: "real bbox \<Rightarrow> real mat34 \<Rightarrow> frustum \<Rightarrow> frustum" where
  "Define_bbox box m f =
    (let lo = bb_min box; hi = bb_max box in UpdatePlanes (f\<lparr>f_vertices :=
     [mat34_vec m (Vec3 (vx hi) (vy hi) (vz lo)), mat34_vec m (Vec3 (vx hi) (vy lo) (vz lo)),
      mat34_vec m (Vec3 (vx lo) (vy lo) (vz lo)), mat34_vec m (Vec3 (vx lo) (vy hi) (vz lo)),
      mat34_vec m (Vec3 (vx hi) (vy hi) (vz hi)), mat34_vec m (Vec3 (vx hi) (vy lo) (vz hi)),
      mat34_vec m (Vec3 (vx lo) (vy lo) (vz hi)), mat34_vec m (Vec3 (vx lo) (vy hi) (vz hi))]\<rparr>))"

text \<open>From a projection: the corners of the clip volume taken back by its inverse.\<close>

definition Define_projection :: "int \<Rightarrow> real mat4 \<Rightarrow> frustum \<Rightarrow> frustum" where
  "Define_projection config projection f =
    (let projInverse = mat4_Inverse projection; zeroOne = IsDepthZeroOne config; near = if zeroOne then 0 else -1
     in UpdatePlanes (f\<lparr>f_vertices :=
     [mat4_vec projInverse (Vec3 1 1 near), mat4_vec projInverse (Vec3 1 (-1) near),
      mat4_vec projInverse (Vec3 (-1) (-1) near), mat4_vec projInverse (Vec3 (-1) 1 near),
      mat4_vec projInverse (Vec3 1 1 1), mat4_vec projInverse (Vec3 1 (-1) 1),
      mat4_vec projInverse (Vec3 (-1) (-1) 1), mat4_vec projInverse (Vec3 (-1) 1 1)]\<rparr>))"

definition DefineSplit :: "real mat4 \<Rightarrow> real \<Rightarrow> real \<Rightarrow> frustum \<Rightarrow> frustum" where
  "DefineSplit projection lNear lFar f =
    (let projInverse = mat4_Inverse projection; nearTemp = mat4_vec4 projection (Vec4 0 0 lNear 1);
         farTemp = mat4_vec4 projection (Vec4 0 0 lFar 1); nearZ = z4 nearTemp / w4 nearTemp; farZ = z4 farTemp / w4 farTemp
     in UpdatePlanes (f\<lparr>f_vertices :=
     [mat4_vec projInverse (Vec3 1 1 nearZ), mat4_vec projInverse (Vec3 1 (-1) nearZ),
      mat4_vec projInverse (Vec3 (-1) (-1) nearZ), mat4_vec projInverse (Vec3 (-1) 1 nearZ),
      mat4_vec projInverse (Vec3 1 1 farZ), mat4_vec projInverse (Vec3 1 (-1) farZ),
      mat4_vec projInverse (Vec3 (-1) (-1) farZ), mat4_vec projInverse (Vec3 (-1) 1 farZ)]\<rparr>))"

definition frustum_Transform3 :: "real mat3 \<Rightarrow> frustum \<Rightarrow> frustum" where
  "frustum_Transform3 m f = UpdatePlanes (f\<lparr>f_vertices := map (mat3_vec m) (f_vertices f)\<rparr>)"

definition frustum_Transform34 :: "real mat34 \<Rightarrow> frustum \<Rightarrow> frustum" where
  "frustum_Transform34 m f = UpdatePlanes (f\<lparr>f_vertices := map (mat34_vec m) (f_vertices f)\<rparr>)"

definition frustum_Transformed3 :: "real mat3 \<Rightarrow> frustum \<Rightarrow> frustum" where
  "frustum_Transformed3 m f = UpdatePlanes (frustum_new\<lparr>f_vertices := map (mat3_vec m) (f_vertices f)\<rparr>)"

definition frustum_Transformed34 :: "real mat34 \<Rightarrow> frustum \<Rightarrow> frustum" where
  "frustum_Transformed34 m f = UpdatePlanes (frustum_new\<lparr>f_vertices := map (mat34_vec m) (f_vertices f)\<rparr>)"

section \<open>Tests\<close>

fun frustum_point_loop :: "real vec3 \<Rightarrow> plane list \<Rightarrow> intersection" where
  "frustum_point_loop point [] = INSIDE"
| "frustum_point_loop point (plane # planes) =
    (if plane_Distance plane point < 0 then OUTSIDE else frustum_point_loop point planes)"

definition frustum_IsInside_point :: "frustum \<Rightarrow> real vec3 \<Rightarrow> intersection" where
  "frustum_IsInside_point f point = frustum_point_loop point (f_planes f)"

text \<open>The loops over the planes for spheres and boxes: \<open>d\<close> is the distance of the centre and \<open>reach\<close> how far the
  volume extends from it along the normal.\<close>

fun reach_loop :: "(plane \<Rightarrow> real) \<Rightarrow> (plane \<Rightarrow> real) \<Rightarrow> plane list \<Rightarrow> bool \<Rightarrow> intersection" where
  "reach_loop d reach [] allInside = (if allInside then INSIDE else INTERSECTS)"
| "reach_loop d reach (plane # planes) allInside =
    (if d plane < - reach plane then OUTSIDE
     else reach_loop d reach planes (if d plane < reach plane then False else allInside))"

fun reach_fast_loop :: "(plane \<Rightarrow> real) \<Rightarrow> (plane \<Rightarrow> real) \<Rightarrow> plane list \<Rightarrow> intersection" where
  "reach_fast_loop d reach [] = INSIDE"
| "reach_fast_loop d reach (plane # planes) =
    (if d plane < - reach plane then OUTSIDE else reach_fast_loop d reach planes)"

definition frustum_IsInside_sphere :: "frustum \<Rightarrow> real sphere \<Rightarrow> intersection" where
  "frustum_IsInside_sphere f s = reach_loop (\<lambda>plane. plane_Distance plane (center s)) (\<lambda>_. radius s) (f_planes f) True"

definition frustum_IsInsideFast_sphere :: "frustum \<Rightarrow> real sphere \<Rightarrow> intersection" where
  "frustum_IsInsideFast_sphere f s = reach_fast_loop (\<lambda>plane. plane_Distance plane (center s)) (\<lambda>_. radius s) (f_planes f)"

definition frustum_IsInside_bbox :: "frustum \<Rightarrow> real bbox \<Rightarrow> intersection" where
  "frustum_IsInside_bbox f box =
    (let centr = bb_Center box; edge = vec_sub centr (bb_min box)
     in reach_loop (\<lambda>plane. DotProduct (plane_normal plane) centr + plane_d plane) (\<lambda>plane. DotProduct (plane_absNormal plane) edge)
          (f_planes f) True)"

definition frustum_IsInsideFast_bbox :: "frustum \<Rightarrow> real bbox \<Rightarrow> intersection" where
  "frustum_IsInsideFast_bbox f box =
    (let centr = bb_Center box; edge = vec_sub centr (bb_min box)
     in reach_fast_loop (\<lambda>plane. DotProduct (plane_normal plane) centr + plane_d plane) (\<lambda>plane. DotProduct (plane_absNormal plane) edge)
          (f_planes f))"

definition frustum_Distance :: "frustum \<Rightarrow> real vec3 \<Rightarrow> real" where
  "frustum_Distance f point = fold (\<lambda>plane distance. Max (- plane_Distance plane point) distance) (f_planes f) 0"

section \<open>Projection onto the screen\<close>

definition MIN_NEARCLIP :: real where "MIN_NEARCLIP = 1 / 100"

definition ClipEdgeZ :: "real vec3 \<Rightarrow> real vec3 \<Rightarrow> real \<Rightarrow> real vec3" where
  "ClipEdgeZ v0 v1 clipZ = Vec3 (vx v1 + (vx v0 - vx v1) * ((clipZ - vz v1) / (vz v0 - vz v1)))
     (vy v1 + (vy v0 - vy v1) * ((clipZ - vz v1) / (vz v0 - vz v1))) clipZ"

definition ProjectAndMergeEdge :: "real mat4 \<Rightarrow> real vec3 \<times> real vec3 \<Rightarrow> real frect \<Rightarrow> real frect" where
  "ProjectAndMergeEdge projection e rect =
    (let (v0, v1) = e in
     if vz v0 < MIN_NEARCLIP \<and> vz v1 < MIN_NEARCLIP then rect
     else (let (v0, v1) = if vz v1 < MIN_NEARCLIP then (v0, ClipEdgeZ v1 v0 MIN_NEARCLIP)
                          else if vz v0 < MIN_NEARCLIP then (ClipEdgeZ v0 v1 MIN_NEARCLIP, v1) else (v0, v1);
               tV0 = mat4_vec projection v0; tV1 = mat4_vec projection v1
           in frect_Merge_point (xy tV1) (frect_Merge_point (xy tV0) rect)))"

definition frustum_Projected :: "real \<Rightarrow> frustum \<Rightarrow> real mat4 \<Rightarrow> real frect" where
  "frustum_Projected huge f projection =
    (let v = f_vertices f in
     fold (ProjectAndMergeEdge projection)
       [(v ! 0, v ! 4), (v ! 1, v ! 5), (v ! 2, v ! 6), (v ! 3, v ! 7), (v ! 4, v ! 5), (v ! 5, v ! 6), (v ! 6, v ! 7), (v ! 7, v ! 4)]
       (frect_Clear huge))"

section \<open>The planes of a frustum\<close>

definition plane_wf :: "plane \<Rightarrow> bool" where
  "plane_wf p \<longleftrightarrow> plane_absNormal p = vec_Abs (plane_normal p) \<and> LengthSquared (plane_normal p) \<le> 1 + 1 / 1000000"

lemma plane_wf_point: "plane_wf (Plane_point n v)"
  using normalized_length [of n]
  by (auto simp: plane_wf_def Plane_point_def Let_def Equals_eps_def Normalized_def LengthSquared_def zero_vec3_def)

lemma plane_wf_flip [simp]: "plane_wf (plane_flip p) = plane_wf p"
  by (simp add: plane_wf_def plane_flip_def vec_Abs_def vec_neg_def LengthSquared_def Abs_def)

lemma UpdatePlanes_wf: "\<forall>p \<in> set (f_planes (UpdatePlanes f)). plane_wf p"
  by (auto simp: UpdatePlanes_def Let_def vertex_planes_def Plane_vertices_def plane_wf_point)

lemma UpdatePlanes_vertices [simp]: "f_vertices (UpdatePlanes f) = f_vertices f"
  by (simp add: UpdatePlanes_def Let_def)

lemma frustum_point_inside: "frustum_IsInside_point f v = INSIDE \<longleftrightarrow> (\<forall>p \<in> set (f_planes f). 0 \<le> plane_Distance p v)"
proof -
  have "frustum_point_loop v ps = INSIDE \<longleftrightarrow> (\<forall>p \<in> set ps. 0 \<le> plane_Distance p v)" for ps
    by (induction ps) auto
  then show ?thesis by (simp add: frustum_IsInside_point_def)
qed

lemma frustum_point_outside: "frustum_IsInside_point f v = OUTSIDE \<longleftrightarrow> frustum_IsInside_point f v \<noteq> INSIDE"
proof -
  have "frustum_point_loop v ps = OUTSIDE \<longleftrightarrow> frustum_point_loop v ps \<noteq> INSIDE" for ps
    by (induction ps) auto
  then show ?thesis by (simp add: frustum_IsInside_point_def)
qed

section \<open>Culling is sound\<close>

lemma reach_loop_outside: "reach_loop d r ps b = OUTSIDE \<longleftrightarrow> (\<exists>p \<in> set ps. d p < - r p)"
  by (induction d r ps b rule: reach_loop.induct) auto

lemma reach_loop_inside: "reach_loop d r ps b = INSIDE \<longleftrightarrow> b \<and> (\<forall>p \<in> set ps. - r p \<le> d p \<and> r p \<le> d p)"
  by (induction d r ps b rule: reach_loop.induct) (auto simp: not_less)

lemma reach_fast_outside: "reach_fast_loop d r ps = OUTSIDE \<longleftrightarrow> reach_loop d r ps b = OUTSIDE"
  by (induction d r ps b rule: reach_loop.induct) auto

lemma reach_fast_inside: "reach_fast_loop d r ps = INSIDE \<longleftrightarrow> reach_fast_loop d r ps \<noteq> OUTSIDE"
  by (induction ps) auto

lemma abs_scaled: "\<bar>x\<bar> \<le> e \<Longrightarrow> \<bar>n * x\<bar> \<le> \<bar>n\<bar> * (e :: real)"
  by (simp add: abs_mult mult_left_mono)

lemma reach_of_box:
  assumes "plane_absNormal p = vec_Abs (plane_normal p)" and "in_box v b"
  shows "\<bar>plane_Distance p v - (DotProduct (plane_normal p) (bb_Center b) + plane_d p)\<bar>
    \<le> DotProduct (plane_absNormal p) (vec_sub (bb_Center b) (bb_min b))"
proof -
  let ?n = "plane_normal p" and ?c = "bb_Center b" and ?e = "vec_sub (bb_Center b) (bb_min b)"
  have d: "\<bar>vx v - vx ?c\<bar> \<le> vx ?e" "\<bar>vy v - vy ?c\<bar> \<le> vy ?e" "\<bar>vz v - vz ?c\<bar> \<le> vz ?e"
    using assms(2) by (auto simp: in_box_def vec_le_def bb_Center_def vec_scale_def vec_add_def vec_sub_def abs_le_iff field_simps)
  have "plane_Distance p v - (DotProduct ?n ?c + plane_d p)
      = vx ?n * (vx v - vx ?c) + vy ?n * (vy v - vy ?c) + vz ?n * (vz v - vz ?c)"
    by (simp add: plane_Distance_def DotProduct_def algebra_simps)
  moreover have "\<bar>x + y + z\<bar> \<le> \<bar>x\<bar> + \<bar>y\<bar> + \<bar>z\<bar>" for x y z :: real by linarith
  ultimately show ?thesis
    using abs_scaled [OF d(1), of "vx ?n"] abs_scaled [OF d(2), of "vy ?n"] abs_scaled [OF d(3), of "vz ?n"] assms(1)
    by (simp add: DotProduct_def vec_Abs_def Abs_def abs_if [symmetric]) (smt (verit))
qed

lemma reach_of_sphere:
  assumes "LengthSquared (plane_normal p) \<le> c" and "0 \<le> radius s"
    and "c * LengthSquared (vec_sub v (center s)) \<le> radius s * radius s"
  shows "\<bar>plane_Distance p v - plane_Distance p (center s)\<bar> \<le> radius s"
proof -
  let ?x = "vec_sub v (center s)"
  have "plane_Distance p v - plane_Distance p (center s) = DotProduct (plane_normal p) ?x"
    by (simp add: plane_Distance_def vec_defs algebra_simps)
  moreover have "(DotProduct (plane_normal p) ?x)\<^sup>2 \<le> c * LengthSquared ?x"
    using cauchy_schwarz [of "plane_normal p" ?x] mult_right_mono [OF assms(1) LengthSquared_nonneg [of ?x]] by linarith
  moreover have "(radius s)\<^sup>2 = radius s * radius s" by (rule power2_eq_square)
  ultimately show ?thesis using assms(2,3) abs_le_square_iff [of "DotProduct (plane_normal p) ?x" "radius s"] by linarith
qed

lemma box_culling:
  assumes "\<forall>p \<in> set (f_planes f). plane_wf p" and "in_box v b"
  shows "frustum_IsInside_bbox f b = OUTSIDE \<Longrightarrow> frustum_IsInside_point f v = OUTSIDE"
    "frustum_IsInside_bbox f b = INSIDE \<Longrightarrow> frustum_IsInside_point f v = INSIDE"
proof -
  have r: "\<bar>plane_Distance p v - (DotProduct (plane_normal p) (bb_Center b) + plane_d p)\<bar>
      \<le> DotProduct (plane_absNormal p) (vec_sub (bb_Center b) (bb_min b))" if "p \<in> set (f_planes f)" for p
    using reach_of_box assms that by (simp add: plane_wf_def)
  show "frustum_IsInside_point f v = OUTSIDE" if "frustum_IsInside_bbox f b = OUTSIDE"
    using that r by (force simp: frustum_point_outside frustum_point_inside frustum_IsInside_bbox_def Let_def reach_loop_outside)
  show "frustum_IsInside_point f v = INSIDE" if "frustum_IsInside_bbox f b = INSIDE"
    using that r by (force simp: frustum_point_inside frustum_IsInside_bbox_def Let_def reach_loop_inside)
qed

lemma sphere_culling:
  assumes "\<forall>p \<in> set (f_planes f). plane_wf p" and "0 \<le> radius s"
    and "(1 + 1 / 1000000) * LengthSquared (vec_sub v (center s)) \<le> radius s * radius s"
  shows "frustum_IsInside_sphere f s = OUTSIDE \<Longrightarrow> frustum_IsInside_point f v = OUTSIDE"
    "frustum_IsInside_sphere f s = INSIDE \<Longrightarrow> frustum_IsInside_point f v = INSIDE"
proof -
  have r: "\<bar>plane_Distance p v - plane_Distance p (center s)\<bar> \<le> radius s" if "p \<in> set (f_planes f)" for p
    using reach_of_sphere [OF _ assms(2,3)] assms(1) that unfolding plane_wf_def by blast
  show "frustum_IsInside_point f v = OUTSIDE" if "frustum_IsInside_sphere f s = OUTSIDE"
    using that r by (force simp: frustum_point_outside frustum_point_inside frustum_IsInside_sphere_def reach_loop_outside)
  show "frustum_IsInside_point f v = INSIDE" if "frustum_IsInside_sphere f s = INSIDE"
    using that r by (force simp: frustum_point_inside frustum_IsInside_sphere_def reach_loop_inside)
qed

lemma fast_tests:
  "frustum_IsInsideFast_bbox f b = (if frustum_IsInside_bbox f b = OUTSIDE then OUTSIDE else INSIDE)"
  "frustum_IsInsideFast_sphere f s = (if frustum_IsInside_sphere f s = OUTSIDE then OUTSIDE else INSIDE)"
proof -
  have "reach_fast_loop d r ps = (if reach_loop d r ps True = OUTSIDE then OUTSIDE else INSIDE)" for d r ps
    using reach_fast_outside [of d r ps True] reach_fast_inside [of d r ps] by auto
  then show "frustum_IsInsideFast_bbox f b = (if frustum_IsInside_bbox f b = OUTSIDE then OUTSIDE else INSIDE)"
    "frustum_IsInsideFast_sphere f s = (if frustum_IsInside_sphere f s = OUTSIDE then OUTSIDE else INSIDE)"
    by (simp_all only: frustum_IsInsideFast_bbox_def frustum_IsInside_bbox_def frustum_IsInsideFast_sphere_def frustum_IsInside_sphere_def Let_def)
qed

lemma frustum_Distance_zero: "frustum_Distance f v = 0 \<longleftrightarrow> frustum_IsInside_point f v = INSIDE"
proof -
  have "fold (\<lambda>p x. Max (- plane_Distance p v) x) ps a = 0 \<longleftrightarrow> a = 0 \<and> (\<forall>p \<in> set ps. 0 \<le> plane_Distance p v)" if "0 \<le> a" for ps a
    using that by (induction ps arbitrary: a) (auto simp: Max_def)
  then show ?thesis by (simp add: frustum_Distance_def frustum_point_inside)
qed

section \<open>The volume between the planes\<close>

text \<open>On which side of the plane through three points a point lies; a frustum whose corners are images under an
  invertible affine map contains the image of a point iff the point is on the right side of every plane of the originals.\<close>

definition side :: "real vec3 \<Rightarrow> real vec3 \<Rightarrow> real vec3 \<Rightarrow> real vec3 \<Rightarrow> real" where
  "side v0 v1 v2 p = DotProduct (CrossProduct (vec_sub v1 v0) (vec_sub v2 v0)) (vec_sub p v0)"

definition sides :: "real vec3 list \<Rightarrow> real vec3 \<Rightarrow> real list" where
  "sides v p = [side (v ! 2) (v ! 1) (v ! 0) p, side (v ! 3) (v ! 7) (v ! 6) p, side (v ! 1) (v ! 5) (v ! 4) p,
     side (v ! 0) (v ! 4) (v ! 7) p, side (v ! 6) (v ! 5) (v ! 1) p, side (v ! 5) (v ! 6) (v ! 7) p]"

lemma Normalized_positive: "\<exists>k > 0. Normalized n = vec_scale n k"
proof (cases "\<not> Equals_eps (LengthSquared n) 1 (1 / 1000000) \<and> LengthSquared n > 0")
  case True
  then show ?thesis by (intro exI [of _ "1 / sqrt (LengthSquared n)"]) (simp add: Normalized_def Let_def)
next
  case False
  then show ?thesis by (intro exI [of _ 1]) (auto simp: Normalized_def Let_def vec_scale_def)
qed

lemma plane_side: "\<exists>k > 0. \<forall>p. plane_Distance (Plane_vertices v0 v1 v2) p = k * side v0 v1 v2 p"
proof -
  obtain k where k: "k > 0" "Normalized (CrossProduct (vec_sub v1 v0) (vec_sub v2 v0)) = vec_scale (CrossProduct (vec_sub v1 v0) (vec_sub v2 v0)) k"
    using Normalized_positive by blast
  have "DotProduct (vec_scale n k) p + - DotProduct (vec_scale n k) v0 = k * DotProduct n (vec_sub p v0)" for n p
    by (simp add: vec_defs algebra_simps)
  then have "plane_Distance (Plane_vertices v0 v1 v2) p = k * side v0 v1 v2 p" for p
    by (simp add: Plane_vertices_def Plane_point_def Let_def k(2) plane_Distance_def side_def)
  then show ?thesis using k(1) by blast
qed

lemma plane_side_sign:
  "plane_Distance (Plane_vertices v0 v1 v2) p < 0 \<longleftrightarrow> side v0 v1 v2 p < 0"
  "0 \<le> plane_Distance (Plane_vertices v0 v1 v2) p \<longleftrightarrow> 0 \<le> side v0 v1 v2 p"
  "0 \<le> plane_Distance (plane_flip (Plane_vertices v0 v1 v2)) p \<longleftrightarrow> side v0 v1 v2 p \<le> 0"
proof -
  obtain k where k: "k > 0" "\<forall>p. plane_Distance (Plane_vertices v0 v1 v2) p = k * side v0 v1 v2 p" using plane_side by blast
  have f: "plane_Distance (plane_flip q) p = - plane_Distance q p" for q
    by (simp add: plane_flip_def plane_Distance_def DotProduct_def vec_neg_def)
  show "plane_Distance (Plane_vertices v0 v1 v2) p < 0 \<longleftrightarrow> side v0 v1 v2 p < 0"
    "0 \<le> plane_Distance (Plane_vertices v0 v1 v2) p \<longleftrightarrow> 0 \<le> side v0 v1 v2 p"
    "0 \<le> plane_Distance (plane_flip (Plane_vertices v0 v1 v2)) p \<longleftrightarrow> side v0 v1 v2 p \<le> 0"
    using k by (simp_all add: f mult_less_0_iff zero_le_mult_iff mult_le_0_iff)
qed

lemma UpdatePlanes_inside:
  "frustum_IsInside_point (UpdatePlanes f) p = INSIDE \<longleftrightarrow>
    (if sides (f_vertices f) (f_vertices f ! 5) ! 0 < 0 then \<forall>s \<in> set (sides (f_vertices f) p). s \<le> 0
     else \<forall>s \<in> set (sides (f_vertices f) p). 0 \<le> s)"
  by (simp add: frustum_point_inside UpdatePlanes_def Let_def vertex_planes_def sides_def plane_side_sign)

lemma triple_matrix:
  "DotProduct (CrossProduct (mat3_vec m a) (mat3_vec m b)) (mat3_vec m c) = mat3_det m * DotProduct (CrossProduct a b) c"
  for m :: "real mat3"
  unfolding vec_defs mat3_vec_def mat3_det_def vec3.sel by (simp only: algebra_simps)

lemma mat34_vec_sub: "vec_sub (mat34_vec m a) (mat34_vec m b) = mat3_vec (mat34_ToMatrix3 m) (vec_sub a b)" for m :: "real mat34"
  by (simp add: mat34_vec_def mat3_vec_def mat34_ToMatrix3_def vec_sub_def algebra_simps)

lemma side_image: "side (mat34_vec m a) (mat34_vec m b) (mat34_vec m c) (mat34_vec m p) = mat34_det m * side a b c p"
  by (simp only: side_def mat34_vec_sub triple_matrix mat34_det_ToMatrix3)

lemma sides_image:
  "length vs = 8 \<Longrightarrow> sides (map (mat34_vec m) vs) (mat34_vec m p) = map ((*) (mat34_det m)) (sides vs p)"
  by (simp add: sides_def side_image)

lemma image_inside:
  assumes "mat34_det m \<noteq> 0" and "f_vertices f = map (mat34_vec m) vs" and "length vs = 8" and "sides vs (vs ! 5) ! 0 \<noteq> 0"
  shows "frustum_IsInside_point (UpdatePlanes f) (mat34_vec m p) = INSIDE \<longleftrightarrow>
    (\<forall>s \<in> set (sides vs p). 0 \<le> s * (sides vs (vs ! 5) ! 0))"
proof -
  let ?d = "mat34_det m" and ?n = "sides vs (vs ! 5) ! 0"
  have l: "length (sides vs x) = 6" for x by (simp add: sides_def)
  have sgn: "?d * x \<le> 0 \<longleftrightarrow> 0 \<le> x * ?n" if "?d * ?n < 0" for x
    using that by (auto simp: mult_less_0_iff mult_le_0_iff zero_le_mult_iff)
  have sgn': "0 \<le> ?d * x \<longleftrightarrow> 0 \<le> x * ?n" if "\<not> ?d * ?n < 0" for x
    using that assms(1,4) by (auto simp: mult_less_0_iff zero_le_mult_iff)
  have five: "map (mat34_vec m) vs ! 5 = mat34_vec m (vs ! 5)" using assms(3) by simp
  show ?thesis
    unfolding UpdatePlanes_inside assms(2) five sides_image [OF assms(3)]
    using sgn sgn' l by (simp add: nth_map)
qed

lemma nonneg_scaled: "0 < c \<Longrightarrow> 0 \<le> c * x \<longleftrightarrow> 0 \<le> (x :: real)"
  by (simp add: zero_le_mult_iff)

lemma image_inside_pos:
  assumes "mat34_det m \<noteq> 0" and "f_vertices f = map (mat34_vec m) vs" and "length vs = 8" and "0 < sides vs (vs ! 5) ! 0"
  shows "frustum_IsInside_point (UpdatePlanes f) (mat34_vec m p) = INSIDE \<longleftrightarrow> (\<forall>s \<in> set (sides vs p). 0 \<le> s)"
proof -
  define c where "c = sides vs (vs ! 5) ! 0"
  have "0 \<le> s * c \<longleftrightarrow> 0 \<le> s" for s using assms(4) by (simp add: c_def zero_le_mult_iff)
  then show ?thesis using image_inside [OF assms(1-3), of p] assms(4) by (simp add: c_def [symmetric])
qed

text \<open>The corners of a pyramid of sight with the slopes \<open>k\<close> and \<open>h\<close>, and of a box.\<close>

definition pyramid_corners :: "real \<Rightarrow> real \<Rightarrow> real \<Rightarrow> real \<Rightarrow> real vec3 list" where
  "pyramid_corners k h n f = [Vec3 (k * n) (h * n) n, Vec3 (k * n) (- (h * n)) n, Vec3 (- (k * n)) (- (h * n)) n, Vec3 (- (k * n)) (h * n) n,
     Vec3 (k * f) (h * f) f, Vec3 (k * f) (- (h * f)) f, Vec3 (- (k * f)) (- (h * f)) f, Vec3 (- (k * f)) (h * f) f]"

definition box_corners :: "real vec3 \<Rightarrow> real vec3 \<Rightarrow> real vec3 list" where
  "box_corners lo hi = [Vec3 (vx hi) (vy hi) (vz lo), Vec3 (vx hi) (vy lo) (vz lo), Vec3 (vx lo) (vy lo) (vz lo), Vec3 (vx lo) (vy hi) (vz lo),
     Vec3 (vx hi) (vy hi) (vz hi), Vec3 (vx hi) (vy lo) (vz hi), Vec3 (vx lo) (vy lo) (vz hi), Vec3 (vx lo) (vy hi) (vz hi)]"

lemma corner_lengths [simp]: "length (pyramid_corners k h n f) = 8" "length (box_corners lo hi) = 8"
  by (simp_all add: pyramid_corners_def box_corners_def)

lemma pyramid_sides:
  "sides (pyramid_corners k h n f) p =
    [4 * k * h * n * n * (vz p - n), 2 * h * f * (f - n) * (vx p + k * vz p), 2 * h * f * (f - n) * (k * vz p - vx p),
     2 * k * f * (f - n) * (h * vz p - vy p), 2 * k * f * (f - n) * (vy p + h * vz p), 4 * k * h * f * f * (f - vz p)]"
  unfolding sides_def pyramid_corners_def
  by (simp add: side_def vec_sub_def CrossProduct_def DotProduct_def) (simp add: algebra_simps)

lemma box_sides:
  "sides (box_corners lo hi) p =
    (let dx = vx hi - vx lo; dy = vy hi - vy lo; dz = vz hi - vz lo in
     [dx * dy * (vz p - vz lo), dy * dz * (vx p - vx lo), dy * dz * (vx hi - vx p),
      dx * dz * (vy hi - vy p), dx * dz * (vy p - vy lo), dx * dy * (vz hi - vz p)])"
  unfolding sides_def box_corners_def Let_def
  by (simp add: side_def vec_sub_def CrossProduct_def DotProduct_def) (simp add: algebra_simps)

lemma pyramid_inside:
  assumes "mat34_det m \<noteq> 0" and "f_vertices F = map (mat34_vec m) (pyramid_corners k h n f)"
    and "0 < k" and "0 < h" and "0 < n" and "n < f"
  shows "frustum_IsInside_point (UpdatePlanes F) (mat34_vec m p) = INSIDE \<longleftrightarrow>
    n \<le> vz p \<and> vz p \<le> f \<and> \<bar>vx p\<bar> \<le> k * vz p \<and> \<bar>vy p\<bar> \<le> h * vz p"
proof -
  have z: "sides (pyramid_corners k h n f) (pyramid_corners k h n f ! 5) ! 0 = 4 * k * h * n * n * (f - n)"
    unfolding pyramid_sides by (simp add: pyramid_corners_def)
  have pos: "0 < 4 * k * h * n * n" "0 < 4 * k * h * f * f" "0 < 2 * h * f * (f - n)" "0 < 2 * k * f * (f - n)" "0 < f - n"
    using assms(3-6) by simp_all
  have nz: "0 < 4 * k * h * n * n * (f - n)" using pos(1,5) by (rule mult_pos_pos)
  have "frustum_IsInside_point (UpdatePlanes F) (mat34_vec m p) = INSIDE \<longleftrightarrow> (\<forall>s \<in> set (sides (pyramid_corners k h n f) p). 0 \<le> s)"
    by (rule image_inside_pos [OF assms(1,2) corner_lengths(1)]) (simp only: z nz)
  also have "\<dots> \<longleftrightarrow> 0 \<le> vz p - n \<and> 0 \<le> vx p + k * vz p \<and> 0 \<le> k * vz p - vx p \<and> 0 \<le> h * vz p - vy p \<and> 0 \<le> vy p + h * vz p \<and> 0 \<le> f - vz p"
    unfolding pyramid_sides by (simp only: list.set ball_simps pos [THEN nonneg_scaled] simp_thms)
  finally show ?thesis by (auto simp: abs_le_iff)
qed

lemma box_inside:
  assumes "mat34_det m \<noteq> 0" and "f_vertices F = map (mat34_vec m) (box_corners lo hi)" and "vec_less lo hi"
  shows "frustum_IsInside_point (UpdatePlanes F) (mat34_vec m p) = INSIDE \<longleftrightarrow> in_box p (mk_box lo hi)"
proof -
  define dx dy dz where d: "dx = vx hi - vx lo" "dy = vy hi - vy lo" "dz = vz hi - vz lo"
  have pos: "0 < dx" "0 < dy" "0 < dz" using assms(3) by (simp_all add: d vec_less_def)
  then have pos2: "0 < dx * dy" "0 < dy * dz" "0 < dx * dz" by simp_all
  have z: "sides (box_corners lo hi) (box_corners lo hi ! 5) ! 0 = dx * dy * dz"
    unfolding box_sides Let_def d by (simp add: box_corners_def)
  have "frustum_IsInside_point (UpdatePlanes F) (mat34_vec m p) = INSIDE \<longleftrightarrow> (\<forall>s \<in> set (sides (box_corners lo hi) p). 0 \<le> s)"
    by (rule image_inside_pos [OF assms(1,2) corner_lengths(2)]) (simp only: z pos pos2 mult_pos_pos)
  also have "\<dots> \<longleftrightarrow> 0 \<le> vz p - vz lo \<and> 0 \<le> vx p - vx lo \<and> 0 \<le> vx hi - vx p \<and> 0 \<le> vy hi - vy p \<and> 0 \<le> vy p - vy lo \<and> 0 \<le> vz hi - vz p"
    unfolding box_sides Let_def d [symmetric] by (simp only: list.set ball_simps pos2 [THEN nonneg_scaled] simp_thms)
  finally show ?thesis by (auto simp: in_box_def mk_box_def vec_le_def)
qed

lemma Define_bbox_inside:
  assumes "mat34_det m \<noteq> 0" and "vec_less (bb_min b) (bb_max b)"
  shows "frustum_IsInside_point (Define_bbox b m F) (mat34_vec m p) = INSIDE \<longleftrightarrow> in_box p b"
  unfolding Define_bbox_def Let_def
  by (subst box_inside [OF assms(1) _ assms(2)]) (simp_all add: box_corners_def mk_box_def in_box_def)

lemma Define_lens_inside:
  assumes "mat34_det m \<noteq> 0" and "0 < n" and "n < f" and "0 < aspect" and "0 < h" and "h = tan (fov * DEGTORAD_2) / zoom"
  shows "frustum_IsInside_point (Define_lens fov aspect zoom n f m F) (mat34_vec m p) = INSIDE \<longleftrightarrow>
    n \<le> vz p \<and> vz p \<le> f \<and> \<bar>vx p\<bar> \<le> aspect * h * vz p \<and> \<bar>vy p\<bar> \<le> h * vz p"
proof -
  have nf: "Max n 0 = n" "Max f n = f" using assms(2,3) by (simp_all add: Max_def)
  show ?thesis
    unfolding Define_lens_def Let_def nf assms(6) [symmetric] Define_extents_def
    by (rule pyramid_inside [OF assms(1)]) (use assms(2-5) in \<open>simp_all add: pyramid_corners_def ac_simps\<close>)
qed

lemma DefineOrtho_inside:
  assumes "mat34_det m \<noteq> 0" and "0 \<le> n" and "n < f" and "0 < aspect" and "0 < h" and "h = extent * (1 / 2) / zoom"
  shows "frustum_IsInside_point (DefineOrtho extent aspect zoom n f m F) (mat34_vec m p) = INSIDE \<longleftrightarrow>
    n \<le> vz p \<and> vz p \<le> f \<and> \<bar>vx p\<bar> \<le> h * aspect \<and> \<bar>vy p\<bar> \<le> h"
proof -
  have nf: "Max n 0 = n" "Max f n = f" using assms(2,3) by (simp_all add: Max_def)
  let ?lo = "Vec3 (- (h * aspect)) (- h) n" and ?hi = "Vec3 (h * aspect) h f"
  have "frustum_IsInside_point (DefineOrtho extent aspect zoom n f m F) (mat34_vec m p) = INSIDE \<longleftrightarrow> in_box p (mk_box ?lo ?hi)"
    unfolding DefineOrtho_def Let_def nf assms(6) [symmetric] Define_extents_def
    by (rule box_inside [OF assms(1)]) (use assms(2-5) in \<open>simp_all add: box_corners_def vec_less_def\<close>)
  then show ?thesis by (auto simp: in_box_def vec_le_def mk_box_def abs_le_iff)
qed

section \<open>The frustum of a projection\<close>

lemma mat4_vec_vec4: "mat4_vec m v = (let u = mat4_vec4 m (vec4_point v) in Vec3 (x4 u * (1 / w4 u)) (y4 u * (1 / w4 u)) (z4 u * (1 / w4 u)))"
  by (simp add: mat4_vec_def mat4_vec4_def vec4_point_def Let_def)

lemma mat4_vec4_scale: "mat4_vec4 m (vec4_scale v s) = vec4_scale (mat4_vec4 m v) s"
  by (simp add: mat4_vec4_def vec4_scale_def algebra_simps)

text \<open>The inverse takes a clip position back to the point it came from.\<close>

lemma unproject:
  assumes "mat4_det m \<noteq> 0" and "mat4_vec4 m (vec4_point x) = vec4_scale (vec4_point c) w" and "w \<noteq> 0"
  shows "mat4_vec (mat4_Inverse m) c = (x :: real vec3)"
proof -
  let ?u = "mat4_vec4 (mat4_Inverse m) (vec4_point c)"
  have "vec4_point x = mat4_vec4 (mat4_Inverse m) (mat4_vec4 m (vec4_point x))"
    using mat4_inverse [OF assms(1)] by (simp flip: mat4_vec4_mul)
  also have "\<dots> = vec4_scale ?u w" by (simp only: assms(2) mat4_vec4_scale)
  finally have "vx x = x4 ?u * w" "vy x = y4 ?u * w" "vz x = z4 ?u * w" "1 = w4 ?u * w"
    by (simp_all add: vec4_point_def vec4_scale_def)
  moreover from this(4) have "1 / w4 ?u = w" using assms(3) by (metis divide_eq_eq mult.commute mult_zero_left zero_neq_one)
  ultimately have "x4 ?u * (1 / w4 ?u) = vx x" "y4 ?u * (1 / w4 ?u) = vy x" "z4 ?u * (1 / w4 ?u) = vz x" by (simp_all only:)
  then show ?thesis by (simp only: mat4_vec_vec4 Let_def vec3.collapse)
qed

lemma mat4_det_lens:
  "mat4_det (mat4_mul (Mat4 a 0 0 0 0 b 0 0 0 0 c d 0 0 e 0) (ToMatrix4 V)) = - (a * b * d * e * mat34_det V)"
  for V :: "real mat34"
  unfolding mat4_det_def mat4_mul_def ToMatrix4_def mat34_det_def Let_def mat4.sel by (simp add: algebra_simps)

text \<open>\<open>flip_axes\<close> turns a pyramid along the positive z axis into the camera's, which looks along the negative one.\<close>

definition flip_axes :: "real \<Rightarrow> real mat34" where
  "flip_axes s = Mat34 1 0 0 0 0 s 0 0 0 0 (-1) 0"

lemma flip_axes_vec: "mat34_vec (flip_axes s) v = Vec3 (vx v) (s * vy v) (- vz v)"
  by (simp add: flip_axes_def mat34_vec_def)

lemma mat34_det_mul: "mat34_det (mat34_mul a b) = mat34_det a * mat34_det b"
  by (simp add: mat34_det_def mat34_mul_def algebra_simps)

lemma mat34_det_inverse: "mat34_det V \<noteq> 0 \<Longrightarrow> mat34_det (mat34_Inverse V) \<noteq> (0 :: real)"
  using mat34_det_mul [of V "mat34_Inverse V"] mat34_inverse(1) [of V]
  by (auto simp: mat34_id_def mat34_det_def)

lemma lens_unproject:
  assumes V: "mat34_det V \<noteq> 0" and P: "P = Mat4 (g / aspect) 0 0 0 0 (s * g) 0 0 0 0 c d 0 0 (-1) 0" and s: "s * s = 1"
    and pos: "0 < aspect" "0 < g" "d \<noteq> 0" and e: "0 < e" "d - c * e = e * z"
  shows "mat4_vec (mat4_Inverse (mat4_mul P (ToMatrix4 V))) (Vec3 x y z)
    = mat34_vec (mat34_mul (mat34_Inverse V) (flip_axes s)) (Vec3 (x * (aspect / g * e)) (y * (1 / g * e)) e)"
proof (rule unproject)
  let ?m = "mat34_mul (mat34_Inverse V) (flip_axes s)"
  have "s \<noteq> 0" using s by auto
  then show "mat4_det (mat4_mul P (ToMatrix4 V)) \<noteq> 0" unfolding P mat4_det_lens using V pos by simp
  have v: "mat34_vec V (mat34_vec ?m v) = Vec3 (vx v) (s * vy v) (- vz v)" for v
    by (simp add: mat34_vec_mul mat34_inverse_vec(1) [OF V] flip_axes_vec)
  have "s * (g * (s * y)) = g * y" for y using s by (metis mult.assoc mult.left_commute mult_1)
  then show "mat4_vec4 (mat4_mul P (ToMatrix4 V)) (vec4_point (mat34_vec ?m (Vec3 (x * (aspect / g * e)) (y * (1 / g * e)) e)))
      = vec4_scale (vec4_point (Vec3 x y z)) e"
    using e pos unfolding mat4_vec4_mul affine_vec4 [OF affine_ToMatrix4] mat34_vec_ToMatrix4 v unfolding P
    by (simp add: mat4_vec4_def vec4_point_def vec4_scale_def field_simps)
qed (use e in simp)

lemma lens_frustum_inside:
  assumes V: "mat34_det V \<noteq> 0" and P: "P = Mat4 (g / aspect) 0 0 0 0 (s * g) 0 0 0 0 c d 0 0 (-1) 0" and s: "s * s = 1"
    and pos: "0 < aspect" "0 < g" "0 < n" "n < f" "d \<noteq> 0" and ends: "d - c * n = n * nearZ" "d - c * f = f"
    and F: "f_vertices F = map (mat4_vec (mat4_Inverse (mat4_mul P (ToMatrix4 V))))
      [Vec3 1 1 nearZ, Vec3 1 (-1) nearZ, Vec3 (-1) (-1) nearZ, Vec3 (-1) 1 nearZ, Vec3 1 1 1, Vec3 1 (-1) 1, Vec3 (-1) (-1) 1, Vec3 (-1) 1 1]"
  shows "frustum_IsInside_point (UpdatePlanes F) p = INSIDE \<longleftrightarrow>
    (let q = mat34_vec V p in n \<le> - vz q \<and> - vz q \<le> f \<and> \<bar>vx q\<bar> \<le> aspect / g * - vz q \<and> \<bar>vy q\<bar> \<le> 1 / g * - vz q)"
proof -
  let ?m = "mat34_mul (mat34_Inverse V) (flip_axes s)"
  have s0: "s \<noteq> 0" using s by auto
  note corner = lens_unproject [OF V P s pos(1,2,5)]
  have "f_vertices F = map (mat34_vec ?m) (pyramid_corners (aspect / g) (1 / g) n f)"
    unfolding F pyramid_corners_def list.map
    using corner [of n nearZ 1 1] corner [of n nearZ 1 "-1"] corner [of n nearZ "-1" "-1"] corner [of n nearZ "-1" 1]
      corner [of f 1 1 1] corner [of f 1 1 "-1"] corner [of f 1 "-1" "-1"] corner [of f 1 "-1" 1] pos ends by simp
  note inside = pyramid_inside [OF _ this, of "mat34_vec (flip_axes s) (mat34_vec V p)"]
  have dm: "mat34_det ?m \<noteq> 0" using mat34_det_inverse [OF V] s0 by (simp add: mat34_det_mul) (simp add: flip_axes_def mat34_det_def)
  have "mat34_vec (flip_axes s) (mat34_vec (flip_axes s) v) = v" for v
    using s by (simp add: flip_axes_vec mult.assoc [symmetric])
  then have pm: "mat34_vec ?m (mat34_vec (flip_axes s) (mat34_vec V p)) = p"
    by (simp add: mat34_vec_mul mat34_inverse_vec(2) [OF V])
  have "\<bar>s\<bar> = 1" using s by (metis abs_mult abs_one abs_mult_self_eq mult_cancel_right1 mult_eq_1_iff power2_eq_1_iff power2_eq_square abs_minus_cancel)
  then have as: "\<bar>s * y\<bar> = \<bar>y\<bar>" for y by (simp add: abs_mult)
  show ?thesis using inside [OF dm] pos unfolding pm by (simp add: flip_axes_vec as Let_def)
qed

lemma camera_frustum_inside:
  assumes "mat34_det V \<noteq> 0" and "0 < aspect" and "0 < zoom" and "0 < tan (fov * DEGTORAD * (1 / 2))" and "0 < n" and "n < f"
  shows "frustum_IsInside_point (Define_projection (SetUpCoordSystem False zo)
      (mat4_mul (Perspective (SetUpCoordSystem False zo) n f aspect fov 0 0 zoom) (ToMatrix4 V)) F) p = INSIDE \<longleftrightarrow>
    (let q = mat34_vec V p; slope = tan (fov * DEGTORAD * (1 / 2)) / zoom
     in n \<le> - vz q \<and> - vz q \<le> f \<and> \<bar>vx q\<bar> \<le> aspect * slope * - vz q \<and> \<bar>vy q\<bar> \<le> slope * - vz q)"
proof -
  define t where "t = tan (fov * DEGTORAD * (1 / 2))"
  define k where "k = 1 / (n - f)"
  have t: "0 < t" using assms(4) by (simp add: t_def)
  have k: "n * k - f * k = 1" "k \<noteq> 0" using assms(6) by (simp_all add: k_def diff_divide_distrib [symmetric])
  have g: "0 < zoom / t" "aspect / (zoom / t) = aspect * (t / zoom)" "1 / (zoom / t) = t / zoom"
    using t assms(3) by simp_all
  have e: "n * f * k - f * k * f = f * (n * k - f * k)" "2 * (n * f) * k - (f + n) * k * n = - (n * (n * k - f * k))"
    "2 * (n * f) * k - (f + n) * k * f = f * (n * k - f * k)" by (simp_all add: algebra_simps)
  show ?thesis
  proof (cases zo)
    case True
    let ?P = "Perspective (SetUpCoordSystem False True) n f aspect fov 0 0 zoom"
    have P: "?P = Mat4 (zoom / t / aspect) 0 0 0 0 (- 1 * (zoom / t)) 0 0 0 0 (f * k) (n * f * k) 0 0 (-1) 0"
      by (simp add: Perspective_def SetUpCoordSystem_def PerspectiveRH_ZO_def Let_def t_def k_def)
    have "frustum_IsInside_point (Define_projection (SetUpCoordSystem False True) (mat4_mul ?P (ToMatrix4 V)) F) p = INSIDE \<longleftrightarrow>
      (let q = mat34_vec V p in n \<le> - vz q \<and> - vz q \<le> f \<and> \<bar>vx q\<bar> \<le> aspect / (zoom / t) * - vz q \<and> \<bar>vy q\<bar> \<le> 1 / (zoom / t) * - vz q)"
      unfolding Define_projection_def IsDepthZeroOne_SetUp Let_def if_True
      by (rule lens_frustum_inside [OF assms(1) P _ assms(2) g(1) assms(5,6), where nearZ = 0, unfolded Let_def])
        (use assms(5,6) k in \<open>simp_all add: e\<close>)
    then show ?thesis using True unfolding t_def [symmetric] g Let_def by simp
  next
    case False
    let ?P = "Perspective (SetUpCoordSystem False False) n f aspect fov 0 0 zoom"
    have P: "?P = Mat4 (zoom / t / aspect) 0 0 0 0 (1 * (zoom / t)) 0 0 0 0 ((f + n) * k) (2 * (n * f) * k) 0 0 (-1) 0"
      by (simp add: Perspective_def SetUpCoordSystem_def PerspectiveRH_NO_def Let_def t_def k_def)
    have "frustum_IsInside_point (Define_projection (SetUpCoordSystem False False) (mat4_mul ?P (ToMatrix4 V)) F) p = INSIDE \<longleftrightarrow>
      (let q = mat34_vec V p in n \<le> - vz q \<and> - vz q \<le> f \<and> \<bar>vx q\<bar> \<le> aspect / (zoom / t) * - vz q \<and> \<bar>vy q\<bar> \<le> 1 / (zoom / t) * - vz q)"
      unfolding Define_projection_def IsDepthZeroOne_SetUp Let_def if_False
      by (rule lens_frustum_inside [OF assms(1) P _ assms(2) g(1) assms(5,6), where nearZ = "-1", unfolded Let_def])
        (use assms(5,6) k in \<open>simp_all add: e\<close>)
    then show ?thesis using False unfolding t_def [symmetric] g Let_def by simp
  qed
qed

text \<open>The frustum taken from the product of a right-handed perspective matrix and the view matrix of a camera contains
  exactly the points the camera sees: those whose view coordinates lie between the near and the far plane and inside the
  slopes of the lens, in both depth conventions and for mirrored views too.\<close>

theorem frustum_of_camera:
  assumes "mat34_det V \<noteq> 0" and "0 < aspect" and "0 < zoom" and "0 < tan (fov * DEGTORAD * (1 / 2))" and "0 < n" and "n < f"
  shows "frustum_IsInside_point (Define_projection (SetUpCoordSystem False zo)
      (mat4_mul (Perspective (SetUpCoordSystem False zo) n f aspect fov 0 0 zoom) (ToMatrix4 V)) F) p = INSIDE \<longleftrightarrow>
    (let q = mat34_vec V p; slope = tan (fov * DEGTORAD * (1 / 2)) / zoom
     in n \<le> - vz q \<and> - vz q \<le> f \<and> \<bar>vx q\<bar> \<le> aspect * slope * - vz q \<and> \<bar>vy q\<bar> \<le> slope * - vz q)"
  by (rule camera_frustum_inside [OF assms])

theorem frustum_of_camera_witness:
  "frustum_IsInside_point (Define_projection (SetUpCoordSystem False True)
    (mat4_mul (Perspective (SetUpCoordSystem False True) 1 100 2 90 0 0 1) (ToMatrix4 mat34_id)) frustum_new) (Vec3 10 (-5) (-7)) = INSIDE"
  using frustum_of_camera [of mat34_id 2 1 90 1 100 True frustum_new "Vec3 10 (-5) (-7)"]
  by (simp add: DEGTORAD_def tan_45 Let_def) (simp add: mat34_det_def mat34_id_def)

text \<open>Property C11. Culling never drops what is visible: when the test of a box answers outside, no point of the box is in the frustum,
  and when it answers inside all are; the fast tests agree with the full ones; the same holds for the points of a sphere,
  up to the millionth by which a normal may be too long. This holds for the planes of any eight corners.\<close>

theorem culling_is_sound:
  "(in_box v b \<longrightarrow>
      (frustum_IsInside_bbox (UpdatePlanes F) b = OUTSIDE \<longrightarrow> frustum_IsInside_point (UpdatePlanes F) v = OUTSIDE)
      \<and> (frustum_IsInside_bbox (UpdatePlanes F) b = INSIDE \<longrightarrow> frustum_IsInside_point (UpdatePlanes F) v = INSIDE))
    \<and> (0 \<le> radius s \<and> (1 + 1 / 1000000) * LengthSquared (vec_sub v (center s)) \<le> radius s * radius s \<longrightarrow>
      (frustum_IsInside_sphere (UpdatePlanes F) s = OUTSIDE \<longrightarrow> frustum_IsInside_point (UpdatePlanes F) v = OUTSIDE)
      \<and> (frustum_IsInside_sphere (UpdatePlanes F) s = INSIDE \<longrightarrow> frustum_IsInside_point (UpdatePlanes F) v = INSIDE))
    \<and> frustum_IsInsideFast_bbox (UpdatePlanes F) b = (if frustum_IsInside_bbox (UpdatePlanes F) b = OUTSIDE then OUTSIDE else INSIDE)
    \<and> frustum_IsInsideFast_sphere (UpdatePlanes F) s = (if frustum_IsInside_sphere (UpdatePlanes F) s = OUTSIDE then OUTSIDE else INSIDE)"
  using box_culling [OF UpdatePlanes_wf] sphere_culling [OF UpdatePlanes_wf] fast_tests by blast

definition cube_frustum :: frustum where
  "cube_frustum = frustum_new\<lparr>f_vertices := box_corners (Vec3 0 0 0) (Vec3 1 1 1)\<rparr>"

lemma cube_planes:
  "f_planes (UpdatePlanes cube_frustum) =
    [\<lparr>plane_normal = Vec3 0 0 1, plane_absNormal = Vec3 0 0 1, plane_d = 0\<rparr>, \<lparr>plane_normal = Vec3 1 0 0, plane_absNormal = Vec3 1 0 0, plane_d = 0\<rparr>,
     \<lparr>plane_normal = Vec3 (-1) 0 0, plane_absNormal = Vec3 1 0 0, plane_d = 1\<rparr>, \<lparr>plane_normal = Vec3 0 (-1) 0, plane_absNormal = Vec3 0 1 0, plane_d = 1\<rparr>,
     \<lparr>plane_normal = Vec3 0 1 0, plane_absNormal = Vec3 0 1 0, plane_d = 0\<rparr>, \<lparr>plane_normal = Vec3 0 0 (-1), plane_absNormal = Vec3 0 0 1, plane_d = 1\<rparr>]"
  by (simp add: UpdatePlanes_def cube_frustum_def vertex_planes_def box_corners_def Plane_vertices_def Plane_point_def Let_def vec_sub_def
      CrossProduct_def Normalized_def LengthSquared_def Equals_eps_def vec_Abs_def Abs_def DotProduct_def plane_Distance_def)

theorem culling_is_sound_witness:
  "frustum_IsInside_point (UpdatePlanes cube_frustum) (Vec3 5 5 5) = OUTSIDE"
  using culling_is_sound [of "Vec3 5 5 5" "mk_box (Vec3 4 4 4) (Vec3 6 6 6)" cube_frustum "\<lparr>center = Vec3 0 0 0, radius = 0\<rparr>"]
  by (simp add: in_box_def mk_box_def vec_le_def frustum_IsInside_bbox_def cube_planes Let_def bb_Center_def vec_scale_def vec_add_def
      vec_sub_def DotProduct_def)

end
