(* ===== verification/Polyhedra.thy ===== *)
theory Polyhedra
  imports Frustums
begin

text \<open>
  Convex volumes made of polygons and their clipping (\<open>Maths/Polyhedron.*\<close>), and the spheres that grow around points,
  boxes and other spheres (\<open>Maths/Sphere.*\<close>).
\<close>

section \<open>Polyhedra\<close>

record polyhedron =
  faces :: "real vec3 list list"
  clippedVertices :: "real vec3 list"
  outFace :: "real vec3 list"

definition polyhedron_new :: polyhedron where
  "polyhedron_new = \<lparr>faces = [], clippedVertices = [], outFace = []\<rparr>"

definition SetFace3 :: "nat \<Rightarrow> real vec3 \<Rightarrow> real vec3 \<Rightarrow> real vec3 \<Rightarrow> polyhedron \<Rightarrow> polyhedron" where
  "SetFace3 index v0 v1 v2 p = p\<lparr>faces := (faces p)[index := [v0, v1, v2]]\<rparr>"

definition SetFace4 :: "nat \<Rightarrow> real vec3 \<Rightarrow> real vec3 \<Rightarrow> real vec3 \<Rightarrow> real vec3 \<Rightarrow> polyhedron \<Rightarrow> polyhedron" where
  "SetFace4 index v0 v1 v2 v3 p = p\<lparr>faces := (faces p)[index := [v0, v1, v2, v3]]\<rparr>"

definition resize_faces :: "nat \<Rightarrow> polyhedron \<Rightarrow> polyhedron" where
  "resize_faces n p = p\<lparr>faces := take n (faces p) @ replicate (n - length (faces p)) []\<rparr>"

definition bbox_vertices :: "real bbox \<Rightarrow> real vec3 list" where
  "bbox_vertices box = (let lo = bb_min box; hi = bb_max box in
     [lo, Vec3 (vx hi) (vy lo) (vz lo), Vec3 (vx lo) (vy hi) (vz lo), Vec3 (vx hi) (vy hi) (vz lo),
      Vec3 (vx lo) (vy lo) (vz hi), Vec3 (vx hi) (vy lo) (vz hi), Vec3 (vx lo) (vy hi) (vz hi), hi])"

definition poly_Define_bbox :: "real bbox \<Rightarrow> polyhedron \<Rightarrow> polyhedron" where
  "poly_Define_bbox box p =
    (let v = bbox_vertices box;
         p = resize_faces 6 p;
         p = SetFace4 0 (v ! 3) (v ! 7) (v ! 5) (v ! 1) p; p = SetFace4 1 (v ! 6) (v ! 2) (v ! 0) (v ! 4) p;
         p = SetFace4 2 (v ! 6) (v ! 7) (v ! 3) (v ! 2) p; p = SetFace4 3 (v ! 1) (v ! 5) (v ! 4) (v ! 0) p;
         p = SetFace4 4 (v ! 7) (v ! 6) (v ! 4) (v ! 5) p
     in SetFace4 5 (v ! 2) (v ! 3) (v ! 1) (v ! 0) p)"

definition poly_Define_frustum :: "frustum \<Rightarrow> polyhedron \<Rightarrow> polyhedron" where
  "poly_Define_frustum f p =
    (let v = f_vertices f;
         p = resize_faces 6 p;
         p = SetFace4 0 (v ! 0) (v ! 4) (v ! 5) (v ! 1) p; p = SetFace4 1 (v ! 7) (v ! 3) (v ! 2) (v ! 6) p;
         p = SetFace4 2 (v ! 7) (v ! 4) (v ! 0) (v ! 3) p; p = SetFace4 3 (v ! 1) (v ! 5) (v ! 6) (v ! 2) p;
         p = SetFace4 4 (v ! 4) (v ! 7) (v ! 6) (v ! 5) p
     in SetFace4 5 (v ! 3) (v ! 0) (v ! 1) (v ! 2) p)"

definition AddFace3 :: "real vec3 \<Rightarrow> real vec3 \<Rightarrow> real vec3 \<Rightarrow> polyhedron \<Rightarrow> polyhedron" where
  "AddFace3 v0 v1 v2 p = p\<lparr>faces := faces p @ [[v0, v1, v2]]\<rparr>"

definition AddFace4 :: "real vec3 \<Rightarrow> real vec3 \<Rightarrow> real vec3 \<Rightarrow> real vec3 \<Rightarrow> polyhedron \<Rightarrow> polyhedron" where
  "AddFace4 v0 v1 v2 v3 p = p\<lparr>faces := faces p @ [[v0, v1, v2, v3]]\<rparr>"

definition poly_AddFace :: "real vec3 list \<Rightarrow> polyhedron \<Rightarrow> polyhedron" where
  "poly_AddFace face p = p\<lparr>faces := faces p @ [face]\<rparr>"

definition poly_Clear :: "polyhedron \<Rightarrow> polyhedron" where
  "poly_Clear p = p\<lparr>faces := []\<rparr>"

definition poly_Empty :: "polyhedron \<Rightarrow> bool" where
  "poly_Empty p \<longleftrightarrow> faces p = []"

definition poly_Transform3 :: "real mat3 \<Rightarrow> polyhedron \<Rightarrow> polyhedron" where
  "poly_Transform3 m p = p\<lparr>faces := map (map (mat3_vec m)) (faces p)\<rparr>"

definition poly_Transform34 :: "real mat34 \<Rightarrow> polyhedron \<Rightarrow> polyhedron" where
  "poly_Transform34 m p = p\<lparr>faces := map (map (mat34_vec m)) (faces p)\<rparr>"

definition poly_Transformed3 :: "real mat3 \<Rightarrow> polyhedron \<Rightarrow> polyhedron" where
  "poly_Transformed3 m p = polyhedron_new\<lparr>faces := map (map (mat3_vec m)) (faces p)\<rparr>"

definition poly_Transformed34 :: "real mat34 \<Rightarrow> polyhedron \<Rightarrow> polyhedron" where
  "poly_Transformed34 m p = polyhedron_new\<lparr>faces := map (map (mat34_vec m)) (faces p)\<rparr>"

section \<open>Clipping\<close>

definition cut_edge :: "real vec3 \<Rightarrow> real \<Rightarrow> real vec3 \<Rightarrow> real \<Rightarrow> real vec3" where
  "cut_edge lastVertex lastDistance v distance =
    (let t = lastDistance / (lastDistance - distance) in vec_add lastVertex (vec_scale (vec_sub v lastVertex) t))"

text \<open>The loop over the vertices of a face: \<open>j\<close> counts them, \<open>out\<close> is the new face, \<open>cl\<close> the vertices made by cutting.\<close>

fun clip_face_loop :: "plane \<Rightarrow> nat \<Rightarrow> real vec3 list \<Rightarrow> real vec3 \<Rightarrow> real \<Rightarrow> real vec3 list \<Rightarrow> real vec3 list
    \<Rightarrow> real vec3 \<times> real \<times> real vec3 list \<times> real vec3 list" where
  "clip_face_loop plane j [] lastVertex lastDistance out cl = (lastVertex, lastDistance, out, cl)"
| "clip_face_loop plane j (v # vs) lastVertex lastDistance out cl =
    (let distance = plane_Distance plane v; c = cut_edge lastVertex lastDistance v distance in
     if distance \<ge> 0
     then (if lastDistance < 0 then clip_face_loop plane (j + 1) vs v distance (out @ [c, v]) (cl @ [c])
           else clip_face_loop plane (j + 1) vs v distance (out @ [v]) cl)
     else (if lastDistance \<ge> 0 \<and> j \<noteq> 0 then clip_face_loop plane (j + 1) vs v distance (out @ [c]) (cl @ [c])
           else clip_face_loop plane (j + 1) vs v distance out cl))"

definition clip_face :: "plane \<Rightarrow> real vec3 list \<Rightarrow> real vec3 list \<Rightarrow> (real vec3 list \<times> real vec3 list) res" where
  "clip_face plane face cl =
    (let (lastVertex, lastDistance, out, cl) = clip_face_loop plane 0 face 0 0 [] cl in
     if face = [] then fail OutOfRange
     else (let distance = plane_Distance plane (face ! 0);
               c = cut_edge lastVertex lastDistance (face ! 0) distance;
               (out, cl) = if lastDistance < 0 \<and> distance \<ge> 0 \<or> lastDistance \<ge> 0 \<and> distance < 0 then (out @ [c], cl @ [c]) else (out, cl)
           in ok (if length out < 3 then [] else out, cl)))"

fun clip_faces :: "plane \<Rightarrow> real vec3 list list \<Rightarrow> real vec3 list \<Rightarrow> (real vec3 list list \<times> real vec3 list) res" where
  "clip_faces plane [] cl = ok ([], cl)"
| "clip_faces plane (face # rest) cl =
    rbind (clip_face plane face cl) (\<lambda>(face, cl). rbind (clip_faces plane rest cl) (\<lambda>(rest, cl). ok (face # rest, cl)))"

definition Clip_plane :: "plane \<Rightarrow> polyhedron \<Rightarrow> polyhedron res" where
  "Clip_plane plane p = rbind (clip_faces plane (faces p) []) (\<lambda>(fs, cl).
     ok (p\<lparr>faces := fs, clippedVertices := cl,
           outFace := if length cl > 3 then [hd cl] else (if fs = [] then outFace p else last fs)\<rparr>))"

fun Clip_planes :: "plane list \<Rightarrow> polyhedron \<Rightarrow> polyhedron res" where
  "Clip_planes [] p = ok p"
| "Clip_planes (plane # planes) p = rbind (Clip_plane plane p) (Clip_planes planes)"

definition Clip_frustum :: "frustum \<Rightarrow> polyhedron \<Rightarrow> polyhedron res" where
  "Clip_frustum f = Clip_planes (f_planes f)"

definition Clip_bbox :: "real bbox \<Rightarrow> polyhedron \<Rightarrow> polyhedron res" where
  "Clip_bbox box = (let v = bbox_vertices box in
     Clip_planes [Plane_vertices (v ! 5) (v ! 7) (v ! 3), Plane_vertices (v ! 0) (v ! 2) (v ! 6), Plane_vertices (v ! 3) (v ! 7) (v ! 6),
       Plane_vertices (v ! 4) (v ! 5) (v ! 1), Plane_vertices (v ! 4) (v ! 6) (v ! 7), Plane_vertices (v ! 1) (v ! 3) (v ! 2)])"

section \<open>What clipping keeps\<close>

lemma cut_distance:
  "plane_Distance q (cut_edge u d v e) = plane_Distance q u + d / (d - e) * (plane_Distance q v - plane_Distance q u)"
  by (simp add: cut_edge_def Let_def plane_Distance_def vec_defs algebra_simps)

lemma cut_on_plane: "d = plane_Distance q u \<Longrightarrow> e = plane_Distance q v \<Longrightarrow> d \<noteq> e \<Longrightarrow> plane_Distance q (cut_edge u d v e) = 0"
  by (simp add: cut_distance field_simps)

lemma cut_between:
  assumes "d < 0 \<and> 0 \<le> e \<or> 0 \<le> d \<and> e < 0" and "0 \<le> plane_Distance q u" and "0 \<le> plane_Distance q v"
  shows "0 \<le> plane_Distance q (cut_edge u d v e)"
proof -
  define t where "t = d / (d - e)"
  have t: "0 \<le> t" "0 \<le> 1 - t" using assms(1) by (auto simp: t_def field_simps)
  have "plane_Distance q (cut_edge u d v e) = (1 - t) * plane_Distance q u + t * plane_Distance q v"
    by (simp add: cut_distance t_def algebra_simps)
  then show ?thesis using t assms(2,3) by simp
qed

text \<open>\<open>behind q vs\<close>: the points lie on the inner side of a plane. What the loop has put out lies on the inner side of the
  clipping plane and of every plane that had the face on its inner side.\<close>

abbreviation behind :: "plane \<Rightarrow> real vec3 list \<Rightarrow> bool" where
  "behind q vs \<equiv> \<forall>v \<in> set vs. 0 \<le> plane_Distance q v"

lemma cut_zero:
  assumes "d = plane_Distance q u" and "d < 0 \<and> 0 \<le> plane_Distance q v \<or> 0 \<le> d \<and> plane_Distance q v < 0"
  shows "plane_Distance q (cut_edge u d v (plane_Distance q v)) = 0"
  using assms by (intro cut_on_plane) auto

lemma clip_face_loop_inside:
  assumes "clip_face_loop plane j vs u d out cl = (u', d', out', cl')"
    and "j \<noteq> 0 \<longrightarrow> d = plane_Distance plane u" and "j = 0 \<longrightarrow> d = 0" and "behind plane out"
  shows "behind plane out' \<and> (vs \<noteq> [] \<or> j \<noteq> 0 \<longrightarrow> d' = plane_Distance plane u')"
  using assms
proof (induction plane j vs u d out cl rule: clip_face_loop.induct)
  case (2 plane j v vs u d out cl)
  have c: "plane_Distance plane (cut_edge u d v (plane_Distance plane v)) = 0"
    if "j \<noteq> 0" "d < 0 \<and> 0 \<le> plane_Distance plane v \<or> 0 \<le> d \<and> plane_Distance plane v < 0"
    using cut_zero that "2.prems"(2) by blast
  let ?D = "plane_Distance plane v" and ?C = "cut_edge u d v (plane_Distance plane v)"
  show ?case
  proof (cases "0 \<le> ?D")
    case True
    show ?thesis
    proof (cases "d < 0")
      case neg: True
      then have j: "j \<noteq> 0" using "2.prems"(3) by auto
      have s: "clip_face_loop plane (j + 1) vs v ?D (out @ [?C, v]) (cl @ [?C]) = (u', d', out', cl')"
        using "2.prems"(1) True neg by (simp add: Let_def)
      have "behind plane (out @ [?C, v])" using "2.prems"(4) c [OF j] neg True by (simp del: not_le)
      with "2.IH"(1) [OF refl refl True neg s] show ?thesis by simp
    next
      case False
      have s: "clip_face_loop plane (j + 1) vs v ?D (out @ [v]) cl = (u', d', out', cl')"
        using "2.prems"(1) True False by (simp add: Let_def)
      have "behind plane (out @ [v])" using "2.prems"(4) True by simp
      with "2.IH"(2) [OF refl refl True False s] show ?thesis by simp
    qed
  next
    case False
    show ?thesis
    proof (cases "0 \<le> d \<and> j \<noteq> 0")
      case cross: True
      have s: "clip_face_loop plane (j + 1) vs v ?D (out @ [?C]) (cl @ [?C]) = (u', d', out', cl')"
        using "2.prems"(1) False cross by (simp add: Let_def)
      have "behind plane (out @ [?C])" using "2.prems"(4) c cross False by simp
      with "2.IH"(3) [OF refl refl False cross s] show ?thesis by simp
    next
      case no: False
      have s: "clip_face_loop plane (j + 1) vs v ?D out cl = (u', d', out', cl')"
        using "2.prems"(1) False no by (auto simp: Let_def)
      with "2.IH"(4) [OF refl refl False no s] "2.prems"(4) show ?thesis by simp
    qed
  qed
qed auto

lemma clip_face_loop_convex:
  assumes "clip_face_loop plane j vs u d out cl = (u', d', out', cl')"
    and "behind q vs" and "behind q out" and "j \<noteq> 0 \<longrightarrow> 0 \<le> plane_Distance q u" and "j = 0 \<longrightarrow> d = 0"
  shows "behind q out' \<and> (vs \<noteq> [] \<or> j \<noteq> 0 \<longrightarrow> 0 \<le> plane_Distance q u')"
  using assms
proof (induction plane j vs u d out cl rule: clip_face_loop.induct)
  case (2 plane j v vs u d out cl)
  then show ?case by (auto simp: Let_def cut_between split: if_splits)
qed auto

lemma clip_face_sound:
  assumes "clip_face plane face cl = ok (face', cl')"
  shows "face \<noteq> []" "behind plane face'" "behind q face \<Longrightarrow> behind q face'" "face' = [] \<or> 3 \<le> length face'"
proof -
  obtain u d out cl1 where l: "clip_face_loop plane 0 face 0 0 [] cl = (u, d, out, cl1)" by (metis prod_cases4)
  show ne: "face \<noteq> []" using assms by (auto simp: clip_face_def Let_def l)
  let ?D = "plane_Distance plane (face ! 0)" and ?C = "cut_edge u d (face ! 0) (plane_Distance plane (face ! 0))"
  define closed where "closed = (if d < 0 \<and> 0 \<le> ?D \<or> 0 \<le> d \<and> ?D < 0 then out @ [?C] else out)"
  have f: "face' = (if length closed < 3 then [] else closed)"
    using assms ne by (auto simp: clip_face_def Let_def l closed_def split: if_splits)
  have i: "behind plane out" "d = plane_Distance plane u" using clip_face_loop_inside [OF l] ne by auto
  have "behind plane closed" using i cut_zero [OF i(2), of "face ! 0"] by (auto simp: closed_def)
  then show "behind plane face'" using f by auto
  show "face' = [] \<or> 3 \<le> length face'" using f by auto
  show "behind q face'" if q: "behind q face"
  proof -
    have c: "behind q out" "0 \<le> plane_Distance q u" using clip_face_loop_convex [OF l q] ne by auto
    moreover have "0 \<le> plane_Distance q (face ! 0)" using q ne by simp
    ultimately have "behind q closed" by (auto simp: closed_def intro: cut_between)
    then show ?thesis using f by auto
  qed
qed

lemma clip_face_total: "face \<noteq> [] \<Longrightarrow> \<exists>r. clip_face plane face cl = ok r"
  by (auto simp: clip_face_def Let_def split: prod.splits)

lemma clip_face_empty: "clip_face plane [] cl = fail OutOfRange"
  by (simp add: clip_face_def)

definition clip_result :: "plane \<Rightarrow> real vec3 list \<Rightarrow> real vec3 list \<Rightarrow> bool" where
  "clip_result plane f f' \<longleftrightarrow> behind plane f' \<and> (\<forall>q. behind q f \<longrightarrow> behind q f') \<and> (f' = [] \<or> 3 \<le> length f')"

lemma clip_faces_sound:
  assumes "[] \<notin> set fs"
  shows "\<exists>fs' cl'. clip_faces plane fs cl = ok (fs', cl') \<and> list_all2 (clip_result plane) fs fs'"
  using assms
proof (induction fs arbitrary: cl)
  case (Cons f fs)
  then have "f \<noteq> []" "[] \<notin> set fs" by auto
  obtain f' cl1 where f: "clip_face plane f cl = ok (f', cl1)" using clip_face_total [OF \<open>f \<noteq> []\<close>] by (metis surj_pair)
  obtain fs' cl' where fs: "clip_faces plane fs cl1 = ok (fs', cl')" "list_all2 (clip_result plane) fs fs'"
    using Cons.IH [OF \<open>[] \<notin> set fs\<close>] by blast
  have "clip_result plane f f'" unfolding clip_result_def using clip_face_sound [OF f] by blast
  then show ?case using f fs by simp
qed simp

lemma clip_faces_empty: "[] \<in> set fs \<Longrightarrow> clip_faces plane fs cl = fail OutOfRange"
proof (induction fs arbitrary: cl)
  case (Cons f fs)
  show ?case
  proof (cases "f = []")
    case True
    then show ?thesis by (simp add: clip_face_empty)
  next
    case False
    then obtain r where "clip_face plane f cl = ok r" using clip_face_total by blast
    then show ?thesis using Cons False by (cases r) simp
  qed
qed simp

text \<open>A face wholly inside is kept, one wholly outside becomes empty.\<close>

lemma clip_face_loop_inner:
  assumes "behind plane vs" and "0 \<le> d"
  shows "clip_face_loop plane j vs u d out cl = (if vs = [] then u else last vs, if vs = [] then d else plane_Distance plane (last vs), out @ vs, cl)"
  using assms by (induction vs arbitrary: j u d out) (auto simp: Let_def)

lemma clip_face_loop_outer:
  assumes "\<forall>v \<in> set vs. plane_Distance plane v < 0" and "d < 0 \<or> j = 0"
  shows "clip_face_loop plane j vs u d out cl = (if vs = [] then u else last vs, if vs = [] then d else plane_Distance plane (last vs), out, cl)"
  using assms by (induction vs arbitrary: j u d) (auto simp: Let_def)

lemma clip_face_kept:
  assumes "behind plane face" and "3 \<le> length face"
  shows "clip_face plane face cl = ok (face, cl)"
proof -
  have ne: "face \<noteq> []" using assms(2) by auto
  then have "0 \<le> plane_Distance plane (last face)" "0 \<le> plane_Distance plane (face ! 0)" using assms(1) by simp_all
  then show ?thesis using ne assms(2) clip_face_loop_inner [OF assms(1), of 0 0 0 "[]" cl] by (simp add: clip_face_def Let_def)
qed

lemma clip_face_dropped:
  assumes "\<forall>v \<in> set face. plane_Distance plane v < 0" and "face \<noteq> []"
  shows "clip_face plane face cl = ok ([], cl)"
proof -
  have "plane_Distance plane (last face) < 0" "plane_Distance plane (face ! 0) < 0" using assms by simp_all
  then show ?thesis using assms(2) clip_face_loop_outer [OF assms(1), of 0 0 0 "[]" cl] by (simp add: clip_face_def Let_def)
qed

lemma clip_faces_dropped:
  assumes "clip_faces plane fs cl = ok (fs', cl')" and "f \<in> set fs" and "\<forall>v \<in> set f. plane_Distance plane v < 0"
  shows "[] \<in> set fs'"
  using assms
proof (induction fs arbitrary: cl fs' cl')
  case (Cons g fs)
  obtain g' cl1 where g: "clip_face plane g cl = ok (g', cl1)" using Cons.prems(1) by (cases "clip_face plane g cl") auto
  obtain fs1 cl2 where fs: "clip_faces plane fs cl1 = ok (fs1, cl2)" "fs' = g' # fs1"
    using Cons.prems(1) g by (cases "clip_faces plane fs cl1") auto
  show ?case
  proof (cases "f = g")
    case True
    then have "g' = []" using g clip_face_dropped [of g plane cl] Cons.prems(3) clip_face_sound(1) [OF g] by simp
    then show ?thesis using fs by simp
  next
    case False
    then show ?thesis using Cons.IH [OF fs(1)] Cons.prems fs(2) by auto
  qed
qed simp

text \<open>Property C12. Clipping a polyhedron without empty faces by a plane returns, keeps the number and order of its faces, and every
  clipped face lies on the inner side of the plane and of every plane that had the old face on its inner side, and is
  empty or a polygon; clipping one that has an empty face reads its first vertex all the same, which is out of range.\<close>

theorem clip_plane_sound:
  "if [] \<in> set (faces p) then Clip_plane plane p = fail OutOfRange
   else \<exists>p'. Clip_plane plane p = ok p' \<and> length (faces p') = length (faces p) \<and>
     (\<forall>i < length (faces p). behind plane (faces p' ! i) \<and> (\<forall>q. behind q (faces p ! i) \<longrightarrow> behind q (faces p' ! i))
       \<and> (faces p' ! i = [] \<or> 3 \<le> length (faces p' ! i)))"
proof (cases "[] \<in> set (faces p)")
  case True
  then show ?thesis by (simp add: Clip_plane_def clip_faces_empty)
next
  case False
  then obtain fs' cl' where c: "clip_faces plane (faces p) [] = ok (fs', cl')" "list_all2 (clip_result plane) (faces p) fs'"
    using clip_faces_sound by blast
  obtain p' where "Clip_plane plane p = ok p'" "faces p' = fs'" using c(1) by (simp add: Clip_plane_def)
  then show ?thesis using False c(2) unfolding list_all2_conv_all_nth clip_result_def by auto
qed

theorem clip_plane_sound_witness:
  "\<exists>p'. Clip_plane \<lparr>plane_normal = Vec3 0 1 0, plane_absNormal = Vec3 0 1 0, plane_d = 0\<rparr>
      (polyhedron_new\<lparr>faces := [[Vec3 0 (-1) 0, Vec3 2 1 0, Vec3 (-2) 1 0]]\<rparr>) = ok p'
    \<and> length (faces p') = 1 \<and> list_all (\<lambda>v. 0 \<le> vy v) (faces p' ! 0)"
  using clip_plane_sound [of "polyhedron_new\<lparr>faces := [[Vec3 0 (-1) 0, Vec3 2 1 0, Vec3 (-2) 1 0]]\<rparr>"
      "\<lparr>plane_normal = Vec3 0 1 0, plane_absNormal = Vec3 0 1 0, plane_d = 0\<rparr>"]
  by (auto simp: list_all_iff plane_Distance_def DotProduct_def)

text \<open>So a plane that cuts a whole face away makes every clip that follows fail, as those by a frustum or a box do.\<close>

lemma clip_twice_faults:
  assumes "f \<in> set (faces p)" and "\<forall>v \<in> set f. plane_Distance plane v < 0"
  shows "Clip_planes (plane # plane2 # planes) p = fail OutOfRange"
proof (cases "[] \<in> set (faces p)")
  case True
  then show ?thesis by (simp add: Clip_plane_def clip_faces_empty)
next
  case False
  then obtain fs' cl' where c: "clip_faces plane (faces p) [] = ok (fs', cl')" using clip_faces_sound by blast
  have "[] \<in> set fs'" by (rule clip_faces_dropped [OF c assms])
  then show ?thesis by (simp add: Clip_plane_def c clip_faces_empty)
qed

section \<open>Spheres that grow\<close>

definition sphere_Clear :: "real \<Rightarrow> real sphere" where
  "sphere_Clear huge = \<lparr>center = Vec3 0 0 0, radius = - huge\<rparr>"

definition sphere_Defined :: "real sphere \<Rightarrow> bool" where
  "sphere_Defined s \<longleftrightarrow> radius s \<ge> 0"

definition sphere_Merge_point :: "real vec3 \<Rightarrow> real sphere \<Rightarrow> real sphere" where
  "sphere_Merge_point point s =
    (if radius s < 0 then s\<lparr>center := point, radius := 0\<rparr>
     else (let offset = vec_sub point (center s); d = vec_Length offset in
       if d > radius s
       then (let half = (d - radius s) * (1 / 2) in s\<lparr>radius := radius s + half, center := vec_add (center s) (vec_scale offset (half / d))\<rparr>)
       else s))"

definition sphere_Merge_points :: "real vec3 list \<Rightarrow> real sphere \<Rightarrow> real sphere" where
  "sphere_Merge_points vs s = fold sphere_Merge_point vs s"

definition sphere_Merge_bbox :: "real bbox \<Rightarrow> real sphere \<Rightarrow> real sphere" where
  "sphere_Merge_bbox box s = fold sphere_Merge_point (bbox_vertices box) s"

definition sphere_Merge_frustum :: "frustum \<Rightarrow> real sphere \<Rightarrow> real sphere" where
  "sphere_Merge_frustum f s = sphere_Merge_points (f_vertices f) s"

definition sphere_Merge_poly :: "polyhedron \<Rightarrow> real sphere \<Rightarrow> real sphere" where
  "sphere_Merge_poly p s = fold (\<lambda>face s. if face \<noteq> [] then sphere_Merge_points face s else s) (faces p) s"

text \<open>Merging a sphere divides by the distance of the centres.\<close>

definition sphere_Merge_sphere :: "real sphere \<Rightarrow> real sphere \<Rightarrow> real sphere res" where
  "sphere_Merge_sphere t s =
    (if radius s < 0 then ok (s\<lparr>center := center t, radius := radius t\<rparr>)
     else (let offset = vec_sub (center t) (center s); d = vec_Length offset in
       if d + radius t < radius s then ok s
       else if d + radius s < radius t then ok (s\<lparr>center := center t, radius := radius t\<rparr>)
       else if d = 0 then fail DivByZero
       else (let NormalizedOffset = vec_div offset d;
                 lo = vec_sub (center s) (vec_scale NormalizedOffset (radius s));
                 hi = vec_add (center t) (vec_scale NormalizedOffset (radius t));
                 c = vec_scale (vec_add lo hi) (1 / 2)
             in ok (s\<lparr>center := c, radius := vec_Length (vec_sub hi c)\<rparr>))))"

definition sphere_Define_points :: "real \<Rightarrow> real vec3 list \<Rightarrow> real sphere \<Rightarrow> real sphere" where
  "sphere_Define_points huge vs s = (if vs = [] then s else sphere_Merge_points vs (sphere_Clear huge))"

definition sphere_Define_bbox :: "real \<Rightarrow> real bbox \<Rightarrow> real sphere" where
  "sphere_Define_bbox huge box = fold sphere_Merge_point (bbox_vertices box) (sphere_Clear huge)"

definition sphere_Define_frustum :: "real \<Rightarrow> frustum \<Rightarrow> real sphere \<Rightarrow> real sphere" where
  "sphere_Define_frustum huge f s = sphere_Define_points huge (f_vertices f) s"

definition sphere_Define_poly :: "real \<Rightarrow> polyhedron \<Rightarrow> real sphere" where
  "sphere_Define_poly huge p = sphere_Merge_poly p (sphere_Clear huge)"

definition sphere_IsInside_sphere :: "real sphere \<Rightarrow> real sphere \<Rightarrow> intersection" where
  "sphere_IsInside_sphere s t =
    (let d = vec_Length (vec_sub (center t) (center s)) in
     if d \<ge> radius t + radius s then OUTSIDE else if d + radius t < radius s then INSIDE else INTERSECTS)"

definition sphere_Distance :: "real sphere \<Rightarrow> real vec3 \<Rightarrow> real" where
  "sphere_Distance s point = Max (vec_Length (vec_sub point (center s)) - radius s) 0"

text \<open>The closed ball of a sphere.\<close>

definition in_ball :: "real sphere \<Rightarrow> real vec3 \<Rightarrow> bool" where
  "in_ball s p \<longleftrightarrow> vec_Length (vec_sub p (center s)) \<le> radius s"

lemma vec_Length_nonneg [simp]: "0 \<le> vec_Length a"
  by (simp add: vec_Length_def LengthSquared_nonneg)

lemma vec_Length_triangle: "vec_Length (vec_add a b) \<le> vec_Length a + vec_Length b"
proof -
  have "(DotProduct a b)\<^sup>2 \<le> (vec_Length a * vec_Length b)\<^sup>2"
    using cauchy_schwarz [of a b] by (simp add: vec_Length_def power_mult_distrib LengthSquared_nonneg)
  then have "DotProduct a b \<le> vec_Length a * vec_Length b" by (rule power2_le_imp_le) simp
  moreover have "(vec_Length (vec_add a b))\<^sup>2 = LengthSquared a + 2 * DotProduct a b + LengthSquared b"
    by (simp add: vec_Length_def LengthSquared_nonneg) (simp add: vec_defs algebra_simps)
  moreover have "(vec_Length a + vec_Length b)\<^sup>2 = LengthSquared a + 2 * (vec_Length a * vec_Length b) + LengthSquared b"
    by (simp add: vec_Length_def power2_sum LengthSquared_nonneg)
  ultimately have "(vec_Length (vec_add a b))\<^sup>2 \<le> (vec_Length a + vec_Length b)\<^sup>2" by linarith
  then show ?thesis by (rule power2_le_imp_le) simp
qed

lemma vec_Length_scale: "vec_Length (vec_scale a k) = vec_Length a * \<bar>k\<bar>"
proof -
  have "LengthSquared (vec_scale a k) = LengthSquared a * (k * k)" by (simp add: vec_defs algebra_simps)
  then show ?thesis by (simp add: vec_Length_def real_sqrt_mult)
qed

text \<open>A ball around another centre covers a ball when its radius allows for the distance of the centres.\<close>

lemma ball_cover:
  assumes "in_ball s p" and "vec_Length (vec_sub (center s) c) + radius s \<le> r"
  shows "vec_Length (vec_sub p c) \<le> r"
proof -
  have "vec_sub p c = vec_add (vec_sub p (center s)) (vec_sub (center s) c)" by (simp add: vec_defs)
  then show ?thesis using assms vec_Length_triangle [of "vec_sub p (center s)" "vec_sub (center s) c"]
    by (simp add: in_ball_def)
qed

lemma towards:
  "vec_sub p (vec_add c (vec_scale (vec_sub p c) k)) = vec_scale (vec_sub p c) (1 - k)"
  "vec_sub c (vec_add c (vec_scale (vec_sub p c) k)) = vec_scale (vec_sub p c) (- k)" for p :: "real vec3"
  by (simp_all add: vec_defs algebra_simps)

lemma sphere_Merge_point_covers:
  "in_ball (sphere_Merge_point p s) p \<and> (in_ball s q \<longrightarrow> in_ball (sphere_Merge_point p s) q) \<and> 0 \<le> radius (sphere_Merge_point p s)"
proof -
  let ?o = "vec_sub p (center s)" and ?d = "vec_Length (vec_sub p (center s))"
  consider (undefined) "radius s < 0" | (grow) "0 \<le> radius s" "radius s < ?d" | (same) "0 \<le> radius s" "?d \<le> radius s" by linarith
  then show ?thesis
  proof cases
    case undefined
    have "\<not> in_ball s q" using undefined vec_Length_nonneg [of "vec_sub q (center s)"] unfolding in_ball_def by linarith
    then show ?thesis using undefined by (simp add: sphere_Merge_point_def in_ball_def vec_defs vec_Length_def)
  next
    case grow
    define h where "h = (?d - radius s) * (1 / 2)"
    define c where "c = vec_add (center s) (vec_scale ?o (h / ?d))"
    have d: "0 < ?d" "0 < h" "h = ?d - radius s - h" "h < ?d" using grow by (simp_all add: h_def field_simps)
    have m: "center (sphere_Merge_point p s) = c" "radius (sphere_Merge_point p s) = radius s + h"
      using grow by (simp_all add: sphere_Merge_point_def Let_def h_def c_def)
    have v: "vec_sub p c = vec_scale ?o (1 - h / ?d)" "vec_sub (center s) c = vec_scale ?o (- (h / ?d))"
      unfolding c_def by (rule towards)+
    have "?d * \<bar>1 - h / ?d\<bar> = ?d - h" "?d * \<bar>- (h / ?d)\<bar> = h"
      using d by (simp_all add: abs_if field_simps)
    then have l: "vec_Length (vec_sub p c) = radius s + h" "vec_Length (vec_sub (center s) c) = h"
      unfolding v vec_Length_scale using d(3) by simp_all
    have "in_ball s q \<longrightarrow> vec_Length (vec_sub q c) \<le> radius s + h" using ball_cover [of s q c "radius s + h"] l(2) by simp
    then show ?thesis using l(1) grow(1) d(2) by (simp add: in_ball_def m)
  next
    case same
    then show ?thesis by (simp add: sphere_Merge_point_def Let_def in_ball_def)
  qed
qed

lemma fold_Merge_point_covers:
  "in_ball s q \<or> q \<in> set vs \<Longrightarrow> in_ball (fold sphere_Merge_point vs s) q"
proof (induction vs arbitrary: s)
  case (Cons v vs)
  then have "in_ball (sphere_Merge_point v s) q \<or> q \<in> set vs" using sphere_Merge_point_covers by auto
  then show ?case using Cons.IH by simp
qed simp

text \<open>A ball that holds the corners of a box holds the box.\<close>

lemma farther_end:
  assumes "lo \<le> x" "x \<le> (hi :: real)"
  obtains y where "y = lo \<or> y = hi" "(x - c) * (x - c) \<le> (y - c) * (y - c)"
proof (cases "x \<le> c")
  case True
  then have "(c - x) * (c - x) \<le> (c - lo) * (c - lo)" using assms(1) by (intro mult_mono) simp_all
  moreover have "(y - c) * (y - c) = (c - y) * (c - y)" for y by (simp add: algebra_simps)
  ultimately show ?thesis using that by metis
next
  case False
  then have "(x - c) * (x - c) \<le> (hi - c) * (hi - c)" using assms(2) by (intro mult_mono) simp_all
  then show ?thesis using that by blast
qed

lemma corners_in_ball:
  assumes "\<forall>v \<in> set (bbox_vertices b). in_ball s v" and "in_box q b"
  shows "in_ball s q"
proof -
  have q: "vx (bb_min b) \<le> vx q" "vx q \<le> vx (bb_max b)" "vy (bb_min b) \<le> vy q" "vy q \<le> vy (bb_max b)"
    "vz (bb_min b) \<le> vz q" "vz q \<le> vz (bb_max b)" using assms(2) by (simp_all add: in_box_def vec_le_def)
  obtain x where x: "x = vx (bb_min b) \<or> x = vx (bb_max b)" "(vx q - vx (center s)) * (vx q - vx (center s)) \<le> (x - vx (center s)) * (x - vx (center s))"
    using farther_end [OF q(1,2)] by blast
  obtain y where y: "y = vy (bb_min b) \<or> y = vy (bb_max b)" "(vy q - vy (center s)) * (vy q - vy (center s)) \<le> (y - vy (center s)) * (y - vy (center s))"
    using farther_end [OF q(3,4)] by blast
  obtain z where z: "z = vz (bb_min b) \<or> z = vz (bb_max b)" "(vz q - vz (center s)) * (vz q - vz (center s)) \<le> (z - vz (center s)) * (z - vz (center s))"
    using farther_end [OF q(5,6)] by blast
  have "Vec3 x y z \<in> set (bbox_vertices b)"
    using x(1) y(1) z(1) by (cases "bb_min b"; cases "bb_max b") (auto simp: bbox_vertices_def Let_def)
  then have "vec_Length (vec_sub (Vec3 x y z) (center s)) \<le> radius s" using assms(1) by (auto simp: in_ball_def)
  moreover have "vec_Length (vec_sub q (center s)) \<le> vec_Length (vec_sub (Vec3 x y z) (center s))"
    using x(2) y(2) z(2) by (simp add: vec_Length_def LengthSquared_def vec_sub_def)
  ultimately show ?thesis by (simp add: in_ball_def)
qed

lemma vec_Length_zero: "vec_Length a = 0 \<longleftrightarrow> a = 0"
  by (simp add: vec_Length_def LengthSquared_zero)

lemma unit_direction: "0 < vec_Length o' \<Longrightarrow> vec_div o' (vec_Length o') = vec_scale o' (1 / vec_Length o')"
  by (simp add: vec_div_def vec_scale_def)

text \<open>The sphere around two that overlap or lie apart has its ends on the line through the centres.\<close>

lemma spanning_sphere:
  fixes a b :: "real vec3" and r t :: real
  defines "d \<equiv> vec_Length (vec_sub b a)"
  defines "n \<equiv> vec_scale (vec_sub b a) (1 / d)"
  defines "hi \<equiv> vec_add b (vec_scale n t)"
  defines "c \<equiv> vec_scale (vec_add (vec_sub a (vec_scale n r)) hi) (1 / 2)"
  assumes "0 < d" and "r \<le> d + t" and "t \<le> d + r" and "0 \<le> r" and "0 \<le> t"
  shows "vec_Length (vec_sub hi c) = (d + r + t) / 2" "vec_Length (vec_sub a c) + r = (d + r + t) / 2"
    "vec_Length (vec_sub b c) + t = (d + r + t) / 2"
proof -
  define k where "k = 1 / d"
  have k: "d * k = 1" using assms(5) by (simp add: k_def)
  have len: "vec_Length (vec_scale (vec_sub b a) (x * k)) = x" if "0 \<le> x" for x
  proof -
    have "0 \<le> x * k" using that assms(5) by (simp add: k_def)
    then have "vec_Length (vec_scale (vec_sub b a) (x * k)) = d * (x * k)" by (simp add: vec_Length_scale d_def)
    also have "\<dots> = x * (d * k)" by (simp add: ac_simps)
    finally show ?thesis by (simp add: k)
  qed
  have one: "x = (d * k) * x" for x by (simp add: k)
  have u: "vec_sub b a = vec_scale (vec_sub b a) (d * k)" by (simp add: k vec_scale_def vec_sub_def)
  have half: "(b' + t * (e * k)) - (a' - r * (e * k) + (b' + t * (e * k))) * (1 / 2) = e * ((d + r + t) / 2 * k)"
    "a' - (a' - r * (e * k) + (b' + t * (e * k))) * (1 / 2) = - (e * ((d + t - r) / 2 * k))"
    "b' - (a' - r * (e * k) + (b' + t * (e * k))) * (1 / 2) = e * ((d + r - t) / 2 * k)"
    if "e = b' - a'" for a' b' e
  proof -
    have "b' = a' + e * (d * k)" using that k by simp
    then show "(b' + t * (e * k)) - (a' - r * (e * k) + (b' + t * (e * k))) * (1 / 2) = e * ((d + r + t) / 2 * k)"
      "a' - (a' - r * (e * k) + (b' + t * (e * k))) * (1 / 2) = - (e * ((d + t - r) / 2 * k))"
      "b' - (a' - r * (e * k) + (b' + t * (e * k))) * (1 / 2) = e * ((d + r - t) / 2 * k)"
      by (simp_all add: field_simps)
  qed
  note unf = c_def hi_def n_def k_def [symmetric] vec_scale_def vec_add_def vec_sub_def
  have s: "vec_sub hi c = vec_scale (vec_sub b a) ((d + r + t) / 2 * k)"
    "vec_sub a c = vec_neg (vec_scale (vec_sub b a) ((d + t - r) / 2 * k))"
    "vec_sub b c = vec_scale (vec_sub b a) ((d + r - t) / 2 * k)"
    unfolding unf vec_neg_def vec3.sel using half by (simp_all add: ac_simps)
  have neg: "vec_Length (vec_neg v) = vec_Length v" for v by (simp add: vec_Length_def LengthSquared_def vec_neg_def)
  have "0 \<le> (d + r + t) / 2" "0 \<le> (d + t - r) / 2" "0 \<le> (d + r - t) / 2" using assms by simp_all
  then show "vec_Length (vec_sub hi c) = (d + r + t) / 2" "vec_Length (vec_sub a c) + r = (d + r + t) / 2"
    "vec_Length (vec_sub b c) + t = (d + r + t) / 2"
    unfolding s neg len by (simp_all only: len) (simp_all add: field_simps)
qed

lemma sphere_Merge_sphere_covers:
  assumes "0 \<le> radius t"
  shows "if 0 \<le> radius s \<and> radius t = radius s \<and> center t = center s then sphere_Merge_sphere t s = fail DivByZero
    else \<exists>u. sphere_Merge_sphere t s = ok u \<and> 0 \<le> radius u \<and> (\<forall>q. in_ball s q \<or> in_ball t q \<longrightarrow> in_ball u q)"
proof -
  let ?o = "vec_sub (center t) (center s)" and ?d = "vec_Length (vec_sub (center t) (center s))"
  have d0: "?d = 0 \<longleftrightarrow> center t = center s" unfolding vec_Length_zero by (auto simp flip: minus_vec3_def)
  have sym: "vec_Length (vec_sub (center s) (center t)) = ?d"
    by (simp add: vec_Length_def LengthSquared_def vec_sub_def algebra_simps)
  consider (undefined) "radius s < 0" | (small) "0 \<le> radius s" "?d + radius t < radius s"
    | (big) "0 \<le> radius s" "?d + radius s < radius t"
    | (zero) "0 \<le> radius s" "?d = 0" "radius t = radius s"
    | (span) "0 \<le> radius s" "0 < ?d" "radius s \<le> ?d + radius t" "radius t \<le> ?d + radius s"
    using vec_Length_nonneg [of ?o] by linarith
  then show ?thesis
  proof cases
    case undefined
    have "\<not> in_ball s q" for q using undefined vec_Length_nonneg [of "vec_sub q (center s)"] unfolding in_ball_def by linarith
    then show ?thesis using undefined assms by (simp add: sphere_Merge_sphere_def in_ball_def)
  next
    case small
    have "in_ball t q \<longrightarrow> in_ball s q" for q
      using ball_cover [of t q "center s" "radius s"] small(2) unfolding in_ball_def by simp
    moreover have "radius t \<noteq> radius s" using small(2) vec_Length_nonneg [of ?o] by linarith
    ultimately show ?thesis using small by (auto simp: sphere_Merge_sphere_def Let_def)
  next
    case big
    have "in_ball s q \<longrightarrow> vec_Length (vec_sub q (center t)) \<le> radius t" for q
      using ball_cover [of s q "center t" "radius t"] big(2) sym by simp
    moreover have "radius t \<noteq> radius s" "\<not> ?d + radius t < radius s" using big(2) vec_Length_nonneg [of ?o] by linarith+
    ultimately show ?thesis using big assms by (auto simp: sphere_Merge_sphere_def Let_def in_ball_def)
  next
    case zero
    then show ?thesis using d0 by (simp add: sphere_Merge_sphere_def Let_def)
  next
    case span
    define n where "n = vec_scale ?o (1 / ?d)"
    define hi where "hi = vec_add (center t) (vec_scale n (radius t))"
    define c where "c = vec_scale (vec_add (vec_sub (center s) (vec_scale n (radius s))) hi) (1 / 2)"
    note S = spanning_sphere [OF span(2,3,4,1) assms, folded n_def, folded hi_def, folded c_def]
    have m: "sphere_Merge_sphere t s = ok (s\<lparr>center := c, radius := (?d + radius s + radius t) / 2\<rparr>)"
      using span unit_direction [OF span(2)] S(1)
      by (simp add: sphere_Merge_sphere_def Let_def n_def [symmetric] hi_def [symmetric] c_def [symmetric])
    have "in_ball s q \<or> in_ball t q \<longrightarrow> vec_Length (vec_sub q c) \<le> (?d + radius s + radius t) / 2" for q
      using ball_cover [OF _ eq_refl [OF S(2)]] ball_cover [OF _ eq_refl [OF S(3)]] by blast
    then show ?thesis using m span assms d0 by (simp add: in_ball_def)
  qed
qed

text \<open>A sphere defined from a box holds every point of the box; merging a point or a sphere (of radius at least zero) into a
  sphere gives one that holds both; only merging a sphere with an equal one divides by the zero distance of the centres.\<close>

theorem bounding_spheres_cover:
  assumes "0 \<le> radius t"
  shows "(in_box q b \<longrightarrow> in_ball (sphere_Define_bbox huge b) q)
    \<and> in_ball (sphere_Merge_point p s) p \<and> (in_ball s q \<longrightarrow> in_ball (sphere_Merge_point p s) q)
    \<and> (if 0 \<le> radius s \<and> radius t = radius s \<and> center t = center s then sphere_Merge_sphere t s = fail DivByZero
       else \<exists>u. sphere_Merge_sphere t s = ok u \<and> 0 \<le> radius u \<and> (in_ball s q \<or> in_ball t q \<longrightarrow> in_ball u q))"
proof -
  have "in_ball (sphere_Define_bbox huge b) q" if "in_box q b"
    by (rule corners_in_ball [OF _ that]) (simp add: sphere_Define_bbox_def fold_Merge_point_covers)
  moreover note sphere_Merge_point_covers [of p s q]
  moreover have "if 0 \<le> radius s \<and> radius t = radius s \<and> center t = center s then sphere_Merge_sphere t s = fail DivByZero
       else \<exists>u. sphere_Merge_sphere t s = ok u \<and> 0 \<le> radius u \<and> (in_ball s q \<or> in_ball t q \<longrightarrow> in_ball u q)"
    using sphere_Merge_sphere_covers [OF assms, of s] by (auto split: if_splits)
  ultimately show ?thesis by blast
qed

theorem bounding_spheres_cover_witness:
  "in_ball (sphere_Define_bbox 1000 (mk_box (Vec3 0 0 0) (Vec3 2 4 6))) (Vec3 1 1 5)
    \<and> sphere_Merge_sphere \<lparr>center = Vec3 0 0 0, radius = 1\<rparr> \<lparr>center = Vec3 0 0 0, radius = 1\<rparr> = fail DivByZero"
  using bounding_spheres_cover [of "\<lparr>center = Vec3 0 0 0, radius = 1\<rparr>" "Vec3 1 1 5" "mk_box (Vec3 0 0 0) (Vec3 2 4 6)" 1000 0
      "\<lparr>center = Vec3 0 0 0, radius = 1\<rparr>"]
  by (simp add: in_box_def mk_box_def vec_le_def)

end
