(* ===== verification/Rays.thy ===== *)
theory Rays
  imports Polyhedra
begin

text \<open>
  Rays and their hits (\<open>Maths/Ray.*\<close>). A distance is an option whose \<open>None\<close> stands for \<open>M_INFINITY\<close>. The geometry a ray is
  tested against is a list of vertices (position and texture coordinate) in place of strided memory; reading outside it
  is a fault. The branches for 16 and 32 bit indices repeat one loop, which one definition models.
\<close>

section \<open>Rays\<close>

record ray =
  ray_origin :: "real vec3"
  ray_direction :: "real vec3"

definition ray_of :: "real vec3 \<Rightarrow> real vec3 \<Rightarrow> ray" where
  "ray_of origin direction = \<lparr>ray_origin = origin, ray_direction = Normalized direction\<rparr>"

definition ray_Project :: "ray \<Rightarrow> real vec3 \<Rightarrow> real vec3" where
  "ray_Project r point =
    (let offset = vec_sub point (ray_origin r)
     in vec_add (ray_origin r) (vec_scale (ray_direction r) (DotProduct offset (ray_direction r))))"

definition ray_Distance :: "ray \<Rightarrow> real vec3 \<Rightarrow> real" where
  "ray_Distance r point = vec_Length (vec_sub point (ray_Project r point))"

definition ClosestPoint :: "ray \<Rightarrow> ray \<Rightarrow> real vec3" where
  "ClosestPoint r q =
    (let p13 = vec_sub (ray_origin r) (ray_origin q); p43 = ray_direction q; p21 = ray_direction r;
         d1343 = DotProduct p13 p43; d4321 = DotProduct p43 p21; d1321 = DotProduct p13 p21;
         d4343 = DotProduct p43 p43; d2121 = DotProduct p21 p21; d = d2121 * d4343 - d4321 * d4321
     in if Abs d < EPSILON then ray_origin r
        else (let n = d1343 * d4321 - d1321 * d4343; a = n / d in vec_add (ray_origin r) (vec_scale (ray_direction r) a)))"

definition ray_Transformed :: "real mat34 \<Rightarrow> ray \<Rightarrow> ray" where
  "ray_Transformed m r = \<lparr>ray_origin = mat34_vec m (ray_origin r),
     ray_direction = mat34_vec4 m (Vec4 (vx (ray_direction r)) (vy (ray_direction r)) (vz (ray_direction r)) 0)\<rparr>"

section \<open>Distances with infinity\<close>

fun inf_less :: "real option \<Rightarrow> real option \<Rightarrow> bool" where
  "inf_less None y = False"
| "inf_less (Some x) None = True"
| "inf_less (Some x) (Some y) = (x < y)"

definition inf_min :: "real option \<Rightarrow> real option \<Rightarrow> real option" where
  "inf_min x y = (if inf_less x y then x else y)"

definition inf_max :: "real option \<Rightarrow> real option \<Rightarrow> real option" where
  "inf_max x y = (if inf_less y x then x else y)"

section \<open>Hits of planes, boxes, frusta and spheres\<close>

definition Hit_plane :: "ray \<Rightarrow> plane \<Rightarrow> real option" where
  "Hit_plane r p =
    (let d = DotProduct (plane_normal p) (ray_direction r) in
     if Abs d \<ge> EPSILON
     then (let t = - (DotProduct (plane_normal p) (ray_origin r) + plane_d p) / d in if t \<ge> 0 then Some t else None)
     else None)"

definition ray_at :: "ray \<Rightarrow> real \<Rightarrow> real vec3" where
  "ray_at r t = vec_add (ray_origin r) (vec_scale (ray_direction r) t)"

text \<open>One of the six tests of a box: the ray meets the side at \<open>x\<close>, if that is nearer than \<open>d\<close> and the point is within the
  bounds of the other two axes.\<close>

definition span_has :: "real \<Rightarrow> real \<Rightarrow> real \<Rightarrow> bool" where
  "span_has lo hi x \<longleftrightarrow> x \<ge> lo \<and> x \<le> hi"

definition Hit_bbox :: "real \<Rightarrow> ray \<Rightarrow> real bbox \<Rightarrow> real option" where
  "Hit_bbox huge r b =
    (let o1 = ray_origin r; d1 = ray_direction r; lo = bb_min b; hi = bb_max b in
     if \<not> bb_Defined huge b then None
     else if IsInside_point b o1 \<noteq> OUTSIDE then Some 0
     else (let dist = None;
       dist = (if vx o1 < vx lo \<and> vx d1 > 0
               then (let x = (vx lo - vx o1) / vx d1 in
                 if inf_less (Some x) dist
                 then (let point = ray_at r x in
                   if span_has (vy lo) (vy hi) (vy point) \<and> span_has (vz lo) (vz hi) (vz point) then Some x else dist)
                 else dist)
               else dist);
       dist = (if vx o1 > vx hi \<and> vx d1 < 0
               then (let x = (vx hi - vx o1) / vx d1 in
                 if inf_less (Some x) dist
                 then (let point = ray_at r x in
                   if span_has (vy lo) (vy hi) (vy point) \<and> span_has (vz lo) (vz hi) (vz point) then Some x else dist)
                 else dist)
               else dist);
       dist = (if vy o1 < vy lo \<and> vy d1 > 0
               then (let x = (vy lo - vy o1) / vy d1 in
                 if inf_less (Some x) dist
                 then (let point = ray_at r x in
                   if span_has (vx lo) (vx hi) (vx point) \<and> span_has (vz lo) (vz hi) (vz point) then Some x else dist)
                 else dist)
               else dist);
       dist = (if vy o1 > vy hi \<and> vy d1 < 0
               then (let x = (vy hi - vy o1) / vy d1 in
                 if inf_less (Some x) dist
                 then (let point = ray_at r x in
                   if span_has (vx lo) (vx hi) (vx point) \<and> span_has (vz lo) (vz hi) (vz point) then Some x else dist)
                 else dist)
               else dist);
       dist = (if vz o1 < vz lo \<and> vz d1 > 0
               then (let x = (vz lo - vz o1) / vz d1 in
                 if inf_less (Some x) dist
                 then (let point = ray_at r x in
                   if span_has (vx lo) (vx hi) (vx point) \<and> span_has (vy lo) (vy hi) (vy point) then Some x else dist)
                 else dist)
               else dist)
     in if vz o1 > vz hi \<and> vz d1 < 0
        then (let x = (vz hi - vz o1) / vz d1 in
          if inf_less (Some x) dist
          then (let point = ray_at r x in
            if span_has (vx lo) (vx hi) (vx point) \<and> span_has (vy lo) (vy hi) (vy point) then Some x else dist)
          else dist)
        else dist))"

fun frustum_hit_loop :: "ray \<Rightarrow> plane list \<Rightarrow> real option \<Rightarrow> real option \<Rightarrow> bool \<Rightarrow> real option \<times> real option \<times> bool" where
  "frustum_hit_loop r [] maxOutside minInside allInside = (maxOutside, minInside, allInside)"
| "frustum_hit_loop r (plane # planes) maxOutside minInside allInside =
    (let distance = Hit_plane r plane in
     if plane_Distance plane (ray_origin r) < 0
     then frustum_hit_loop r planes (inf_max maxOutside distance) minInside False
     else frustum_hit_loop r planes maxOutside (inf_min minInside distance) allInside)"

definition Hit_frustum :: "ray \<Rightarrow> frustum \<Rightarrow> bool \<Rightarrow> real option" where
  "Hit_frustum r f solidInside =
    (let (maxOutside, minInside, allInside) = frustum_hit_loop r (f_planes f) (Some 0) None True in
     if allInside then (if solidInside then Some 0 else minInside)
     else if \<not> inf_less minInside maxOutside then maxOutside
     else None)"

text \<open>The degenerate ray of a zero direction divides zero by zero.\<close>

definition Hit_sphere :: "ray \<Rightarrow> real sphere \<Rightarrow> real option res" where
  "Hit_sphere r s =
    (let centeredOrigin = vec_sub (ray_origin r) (center s); squaredRadius = radius s * radius s in
     if LengthSquared centeredOrigin \<le> squaredRadius then ok (Some 0)
     else (let a = DotProduct (ray_direction r) (ray_direction r); b = 2 * DotProduct centeredOrigin (ray_direction r);
               c = DotProduct centeredOrigin centeredOrigin - squaredRadius; d = b * b - 4 * a * c
           in if d < 0 then ok None
              else if a = 0 then fail DivByZero
              else (let dSqrt = sqrt d; dist = (- b - dSqrt) / (2 * a)
                    in if dist \<ge> 0 then ok (Some dist) else ok (Some ((- b + dSqrt) / (2 * a))))))"

section \<open>Hits of triangles\<close>

text \<open>The distance with the normal and the barycentric coordinates the code writes through its output pointers.\<close>

definition Hit_triangle :: "ray \<Rightarrow> real vec3 \<Rightarrow> real vec3 \<Rightarrow> real vec3 \<Rightarrow> (real \<times> real vec3 \<times> real vec3) option" where
  "Hit_triangle r v0 v1 v2 =
    (let edge1 = vec_sub v1 v0; edge2 = vec_sub v2 v0; p = CrossProduct (ray_direction r) edge2; det = DotProduct edge1 p in
     if det \<ge> EPSILON
     then (let t = vec_sub (ray_origin r) v0; u = DotProduct t p in
       if u \<ge> 0 \<and> u \<le> det
       then (let q = CrossProduct t edge1; v = DotProduct (ray_direction r) q in
         if v \<ge> 0 \<and> u + v \<le> det
         then (let distance = DotProduct edge2 q / det in
           if distance \<ge> 0
           then Some (distance, CrossProduct edge1 edge2, Vec3 (1 - u / det - v / det) (u / det) (v / det))
           else None)
         else None)
       else None)
     else None)"

type_synonym mesh_vertex = "real vec3 \<times> real vec2"

definition vertex_at :: "mesh_vertex list \<Rightarrow> nat \<Rightarrow> mesh_vertex res" where
  "vertex_at vs i = (if i < length vs then ok (vs ! i) else fail OutOfRange)"

text \<open>The variables of the loops over triangles: the nearest distance, the indices of its triangle, and what the
  output pointers hold.\<close>

record hit_state =
  nearest :: "real option"
  nearestIdx :: "(nat \<times> nat \<times> nat) option"
  outNormal :: "real vec3"
  barycentric :: "real vec3"

definition hit_step :: "ray \<Rightarrow> mesh_vertex list \<Rightarrow> nat \<times> nat \<times> nat \<Rightarrow> hit_state \<Rightarrow> hit_state res" where
  "hit_step r vs tri h = (let (i, j, k) = tri in
     rbind (vertex_at vs i) (\<lambda>v0. rbind (vertex_at vs j) (\<lambda>v1. rbind (vertex_at vs k) (\<lambda>v2.
       let hit = Hit_triangle r (fst v0) (fst v1) (fst v2);
           h = (case hit of None \<Rightarrow> h | Some (d, n, b) \<Rightarrow> h\<lparr>outNormal := n, barycentric := b\<rparr>);
           distance = map_option fst hit
       in ok (if inf_less distance (nearest h) then h\<lparr>nearestIdx := Some tri, nearest := distance\<rparr> else h)))))"

fun hit_loop :: "ray \<Rightarrow> mesh_vertex list \<Rightarrow> (nat \<times> nat \<times> nat) list \<Rightarrow> hit_state \<Rightarrow> hit_state res" where
  "hit_loop r vs [] h = ok h"
| "hit_loop r vs (tri # tris) h = rbind (hit_step r vs tri h) (hit_loop r vs tris)"

definition interpolate_uv :: "mesh_vertex list \<Rightarrow> hit_state \<Rightarrow> real vec2 res" where
  "interpolate_uv vs h = (case nearestIdx h of
     None \<Rightarrow> ok (Vec2 0 0)
   | Some (i, j, k) \<Rightarrow>
       rbind (vertex_at vs i) (\<lambda>v0. rbind (vertex_at vs j) (\<lambda>v1. rbind (vertex_at vs k) (\<lambda>v2.
         let uv0 = snd v0; uv1 = snd v1; uv2 = snd v2; b = barycentric h
         in ok (Vec2 (px uv0 * vx b + px uv1 * vy b + px uv2 * vz b) (py uv0 * vx b + py uv1 * vy b + py uv2 * vz b))))))"

definition hit_start :: "real vec3 \<Rightarrow> hit_state" where
  "hit_start normal = \<lparr>nearest = None, nearestIdx = None, outNormal = normal, barycentric = Vec3 0 0 0\<rparr>"

text \<open>The triangles of the two kinds of geometry: consecutive vertices from a start, or consecutive indices. The last
  triangle of indices is read whole even where the count ends inside it.\<close>

definition vertex_triangles :: "nat \<Rightarrow> nat \<Rightarrow> (nat \<times> nat \<times> nat) list" where
  "vertex_triangles start n = map (\<lambda>i. (start + 3 * i, start + 3 * i + 1, start + 3 * i + 2)) [0..<n div 3]"

fun index_triangles :: "nat list \<Rightarrow> nat \<Rightarrow> nat \<Rightarrow> (nat \<times> nat \<times> nat) list res" where
  "index_triangles indices start n =
    (if n = 0 then ok []
     else if start + 2 < length indices
     then rbind (index_triangles indices (start + 3) (n - 3)) (\<lambda>ts. ok ((indices ! start, indices ! (start + 1), indices ! (start + 2)) # ts))
     else fail OutOfRange)"

declare index_triangles.simps [simp del]

definition Hit_vertices :: "ray \<Rightarrow> mesh_vertex list \<Rightarrow> nat \<Rightarrow> nat \<Rightarrow> real vec3 \<Rightarrow> (real option \<times> real vec3 \<times> real vec2) res" where
  "Hit_vertices r vs vertexStart vertexCount normal =
    rbind (hit_loop r vs (vertex_triangles vertexStart vertexCount) (hit_start normal)) (\<lambda>h.
      rbind (interpolate_uv vs h) (\<lambda>uv. ok (nearest h, outNormal h, uv)))"

definition Hit_indexed :: "ray \<Rightarrow> mesh_vertex list \<Rightarrow> nat list \<Rightarrow> nat \<Rightarrow> nat \<Rightarrow> real vec3 \<Rightarrow> (real option \<times> real vec3 \<times> real vec2) res" where
  "Hit_indexed r vs indices indexStart indexCount normal =
    rbind (index_triangles indices indexStart indexCount) (\<lambda>tris.
      rbind (hit_loop r vs tris (hit_start normal)) (\<lambda>h.
        rbind (interpolate_uv vs h) (\<lambda>uv. ok (nearest h, outNormal h, uv))))"

definition positive_hit :: "(real \<times> real vec3 \<times> real vec3) option \<Rightarrow> real option" where
  "positive_hit hit = (case hit of None \<Rightarrow> None | Some (d, _) \<Rightarrow> if d > 0 then Some d else None)"

fun inside_loop :: "ray \<Rightarrow> mesh_vertex list \<Rightarrow> (nat \<times> nat \<times> nat) list \<Rightarrow> real option \<times> real option \<Rightarrow> (real option \<times> real option) res" where
  "inside_loop r vs [] ds = ok ds"
| "inside_loop r vs ((i, j, k) # tris) (currentFrontFace, currentBackFace) =
    rbind (vertex_at vs i) (\<lambda>v0. rbind (vertex_at vs j) (\<lambda>v1. rbind (vertex_at vs k) (\<lambda>v2.
      let frontFaceDistance = positive_hit (Hit_triangle r (fst v0) (fst v1) (fst v2));
          backFaceDistance = positive_hit (Hit_triangle r (fst v2) (fst v1) (fst v0))
      in inside_loop r vs tris (inf_min frontFaceDistance currentFrontFace, inf_min backFaceDistance currentBackFace))))"

definition inside_answer :: "real option \<times> real option \<Rightarrow> bool" where
  "inside_answer ds = (let (currentFrontFace, currentBackFace) = ds in
     if currentFrontFace \<noteq> None \<or> currentBackFace \<noteq> None then inf_less currentBackFace currentFrontFace else False)"

definition InsideGeometry_vertices :: "ray \<Rightarrow> mesh_vertex list \<Rightarrow> nat \<Rightarrow> nat \<Rightarrow> bool res" where
  "InsideGeometry_vertices r vs vertexStart vertexCount =
    rbind (inside_loop r vs (vertex_triangles vertexStart vertexCount) (None, None)) (\<lambda>ds. ok (inside_answer ds))"

definition InsideGeometry_indexed :: "ray \<Rightarrow> mesh_vertex list \<Rightarrow> nat list \<Rightarrow> nat \<Rightarrow> nat \<Rightarrow> bool res" where
  "InsideGeometry_indexed r vs indices indexStart indexCount =
    rbind (index_triangles indices indexStart indexCount) (\<lambda>tris.
      rbind (inside_loop r vs tris (None, None)) (\<lambda>ds. ok (inside_answer ds)))"

section \<open>The box test finds the first hit\<close>

definition face_step :: "bool \<Rightarrow> real \<Rightarrow> bool \<Rightarrow> real option \<Rightarrow> real option" where
  "face_step c x k e = (if c then if inf_less (Some x) e then if k then Some x else e else e else e)"

lemma face_step_Some: "face_step c x k e = Some t \<Longrightarrow> e = Some t \<or> c \<and> k \<and> t = x"
  by (auto simp: face_step_def split: if_splits)

lemma face_step_None: "face_step c x k e = None \<Longrightarrow> e = None \<and> \<not> (c \<and> k)"
  by (cases e) (auto simp: face_step_def split: if_splits)

text \<open>\<open>enters o d lo hi x\<close>: along one axis, the ray enters the interval at \<open>x\<close>.\<close>

definition enters :: "real \<Rightarrow> real \<Rightarrow> real \<Rightarrow> real \<Rightarrow> real \<Rightarrow> bool" where
  "enters a d lo hi x \<longleftrightarrow> (a < lo \<and> d > 0 \<and> x = (lo - a) / d) \<or> (a > hi \<and> d < 0 \<and> x = (hi - a) / d)"

lemma enters_first:
  assumes "enters a d lo hi x" and "lo \<le> hi"
  shows "0 < x" "span_has lo hi (a + d * x)" "0 \<le> u \<Longrightarrow> u < x \<Longrightarrow> \<not> span_has lo hi (a + d * u)"
proof -
  show "0 < x" using assms(1) by (auto simp: enters_def divide_neg_neg)
  show "span_has lo hi (a + d * x)" using assms by (auto simp: enters_def span_has_def)
  show "\<not> span_has lo hi (a + d * u)" if "0 \<le> u" "u < x"
    using assms(1) that by (auto simp: enters_def span_has_def field_simps)
qed

lemma axis_entry:
  assumes "0 \<le> u" and "span_has lo hi (a + d * u)"
  shows "\<exists>e. 0 \<le> e \<and> e \<le> u \<and> (e = 0 \<and> span_has lo hi a \<or> enters a d lo hi e) \<and> (\<forall>s. e \<le> s \<and> s \<le> u \<longrightarrow> span_has lo hi (a + d * s))"
proof -
  have mono: "d * s \<le> d * u" if "0 \<le> d" "s \<le> u" for s using that by (intro mult_left_mono)
  have anti: "d * u \<le> d * s" if "d \<le> 0" "s \<le> u" for s using that by (intro mult_left_mono_neg)
  consider (below) "a < lo" | (above) "hi < a" | (inn) "span_has lo hi a" by (force simp: span_has_def)
  then show ?thesis
  proof cases
    case below
    have "0 < d * u" using below assms(2) by (simp add: span_has_def)
    then have d: "0 < d" using assms(1) by (simp add: zero_less_mult_iff)
    have e: "enters a d lo hi ((lo - a) / d)" using below d by (simp add: enters_def)
    have "(lo - a) / d \<le> u" using assms(2) d by (simp add: span_has_def field_simps)
    moreover have "span_has lo hi (a + d * s)" if s: "(lo - a) / d \<le> s" "s \<le> u" for s
    proof -
      have "d * s \<le> d * u" using mono d s(2) by simp
      moreover have "lo \<le> a + d * s" using s(1) d by (simp add: field_simps)
      ultimately show ?thesis using assms(2) unfolding span_has_def by linarith
    qed
    moreover have "0 \<le> (lo - a) / d" using below d by simp
    ultimately show ?thesis using e by blast
  next
    case above
    have "d * u < 0" using above assms(2) by (simp add: span_has_def)
    then have d: "d < 0" using assms(1) by (simp add: mult_less_0_iff)
    have e: "enters a d lo hi ((hi - a) / d)" using above d by (simp add: enters_def)
    have "(hi - a) / d \<le> u" using assms(2) d by (simp add: span_has_def field_simps)
    moreover have "span_has lo hi (a + d * s)" if s: "(hi - a) / d \<le> s" "s \<le> u" for s
    proof -
      have "d * u \<le> d * s" using anti d s(2) by simp
      moreover have "a + d * s \<le> hi" using s(1) d by (simp add: field_simps)
      ultimately show ?thesis using assms(2) unfolding span_has_def by linarith
    qed
    moreover have "0 \<le> (hi - a) / d" using above d by (simp add: divide_nonpos_neg)
    ultimately show ?thesis using e by blast
  next
    case inn
    have "span_has lo hi (a + d * s)" if s: "0 \<le> s" "s \<le> u" for s
    proof (cases "0 \<le> d")
      case True
      have "0 \<le> d * s" using True s(1) by simp
      moreover have "d * s \<le> d * u" using mono True s(2) by simp
      ultimately show ?thesis using inn assms(2) unfolding span_has_def by linarith
    next
      case False
      have "d * s \<le> 0" using False s(1) by (simp add: mult_nonpos_nonneg)
      moreover have "d * u \<le> d * s" using anti False s(2) by simp
      ultimately show ?thesis using inn assms(2) unfolding span_has_def by linarith
    qed
    then show ?thesis using inn assms(1) by blast
  qed
qed

lemma in_box_spans: "in_box p b \<longleftrightarrow> span_has (vx (bb_min b)) (vx (bb_max b)) (vx p) \<and> span_has (vy (bb_min b)) (vy (bb_max b)) (vy p)
    \<and> span_has (vz (bb_min b)) (vz (bb_max b)) (vz p)"
  by (auto simp: in_box_def vec_le_def span_has_def)

lemma ray_at_sel [simp]:
  "vx (ray_at r t) = vx (ray_origin r) + vx (ray_direction r) * t" "vy (ray_at r t) = vy (ray_origin r) + vy (ray_direction r) * t"
  "vz (ray_at r t) = vz (ray_origin r) + vz (ray_direction r) * t"
  by (simp_all add: ray_at_def vec_add_def vec_scale_def)

text \<open>\<open>meets r b t\<close>: the ray enters along some axis at \<open>t\<close> while the other two coordinates are in range.\<close>

definition meets :: "ray \<Rightarrow> real bbox \<Rightarrow> real \<Rightarrow> bool" where
  "meets r b t \<longleftrightarrow>
    (enters (vx (ray_origin r)) (vx (ray_direction r)) (vx (bb_min b)) (vx (bb_max b)) t
      \<and> span_has (vy (bb_min b)) (vy (bb_max b)) (vy (ray_at r t)) \<and> span_has (vz (bb_min b)) (vz (bb_max b)) (vz (ray_at r t)))
    \<or> (enters (vy (ray_origin r)) (vy (ray_direction r)) (vy (bb_min b)) (vy (bb_max b)) t
      \<and> span_has (vx (bb_min b)) (vx (bb_max b)) (vx (ray_at r t)) \<and> span_has (vz (bb_min b)) (vz (bb_max b)) (vz (ray_at r t)))
    \<or> (enters (vz (ray_origin r)) (vz (ray_direction r)) (vz (bb_min b)) (vz (bb_max b)) t
      \<and> span_has (vx (bb_min b)) (vx (bb_max b)) (vx (ray_at r t)) \<and> span_has (vy (bb_min b)) (vy (bb_max b)) (vy (ray_at r t)))"

lemma meets_first:
  assumes "meets r b t" and "box_ok b"
  shows "0 < t" "in_box (ray_at r t) b" "0 \<le> u \<Longrightarrow> u < t \<Longrightarrow> \<not> in_box (ray_at r u) b"
proof -
  have ok: "vx (bb_min b) \<le> vx (bb_max b)" "vy (bb_min b) \<le> vy (bb_max b)" "vz (bb_min b) \<le> vz (bb_max b)"
    using assms(2) by (simp_all add: box_ok_def vec_le_def)
  note e = enters_first [OF _ ok(1)] enters_first [OF _ ok(2)] enters_first [OF _ ok(3)]
  show "0 < t" using assms(1) e(1,4,7) unfolding meets_def by blast
  show "in_box (ray_at r t) b" using assms(1) e(2,5,8) unfolding meets_def in_box_spans ray_at_sel by blast
  show "\<not> in_box (ray_at r u) b" if "0 \<le> u" "u < t"
    using assms(1) e(3,6,9) that unfolding meets_def in_box_spans ray_at_sel by blast
qed

lemma meets_exists:
  assumes "0 \<le> u" and "in_box (ray_at r u) b" and "\<not> in_box (ray_origin r) b"
  shows "\<exists>t. meets r b t"
proof -
  have s: "span_has (vx (bb_min b)) (vx (bb_max b)) (vx (ray_at r u))" "span_has (vy (bb_min b)) (vy (bb_max b)) (vy (ray_at r u))"
    "span_has (vz (bb_min b)) (vz (bb_max b)) (vz (ray_at r u))" using assms(2) by (simp_all add: in_box_spans)
  obtain x where x: "0 \<le> x" "x \<le> u" "x = 0 \<and> span_has (vx (bb_min b)) (vx (bb_max b)) (vx (ray_origin r))
      \<or> enters (vx (ray_origin r)) (vx (ray_direction r)) (vx (bb_min b)) (vx (bb_max b)) x"
    "\<forall>s. x \<le> s \<and> s \<le> u \<longrightarrow> span_has (vx (bb_min b)) (vx (bb_max b)) (vx (ray_at r s))"
    using axis_entry [OF assms(1) s(1) [unfolded ray_at_sel]] unfolding ray_at_sel by blast
  obtain y where y: "0 \<le> y" "y \<le> u" "y = 0 \<and> span_has (vy (bb_min b)) (vy (bb_max b)) (vy (ray_origin r))
      \<or> enters (vy (ray_origin r)) (vy (ray_direction r)) (vy (bb_min b)) (vy (bb_max b)) y"
    "\<forall>s. y \<le> s \<and> s \<le> u \<longrightarrow> span_has (vy (bb_min b)) (vy (bb_max b)) (vy (ray_at r s))"
    using axis_entry [OF assms(1) s(2) [unfolded ray_at_sel]] unfolding ray_at_sel by blast
  obtain z where z: "0 \<le> z" "z \<le> u" "z = 0 \<and> span_has (vz (bb_min b)) (vz (bb_max b)) (vz (ray_origin r))
      \<or> enters (vz (ray_origin r)) (vz (ray_direction r)) (vz (bb_min b)) (vz (bb_max b)) z"
    "\<forall>s. z \<le> s \<and> s \<le> u \<longrightarrow> span_has (vz (bb_min b)) (vz (bb_max b)) (vz (ray_at r s))"
    using axis_entry [OF assms(1) s(3) [unfolded ray_at_sel]] unfolding ray_at_sel by blast
  define t where "t = max x (max y z)"
  have t: "x \<le> t" "y \<le> t" "z \<le> t" "t \<le> u" "t = x \<or> t = y \<or> t = z" using x y z by (auto simp: t_def max_def)
  have spans: "span_has (vx (bb_min b)) (vx (bb_max b)) (vx (ray_at r t))" "span_has (vy (bb_min b)) (vy (bb_max b)) (vy (ray_at r t))"
    "span_has (vz (bb_min b)) (vz (bb_max b)) (vz (ray_at r t))" using x(4) y(4) z(4) t by blast+
  have "enters (vx (ray_origin r)) (vx (ray_direction r)) (vx (bb_min b)) (vx (bb_max b)) t
    \<or> enters (vy (ray_origin r)) (vy (ray_direction r)) (vy (bb_min b)) (vy (bb_max b)) t
    \<or> enters (vz (ray_origin r)) (vz (ray_direction r)) (vz (bb_min b)) (vz (bb_max b)) t"
  proof (rule ccontr)
    assume n: "\<not> ?thesis"
    then have "t = 0" using t(5) x(3) y(3) z(3) by blast
    then have "x = 0" "y = 0" "z = 0" using t(1-3) x(1) y(1) z(1) by simp_all
    with n \<open>t = 0\<close> x(3) y(3) z(3) have "in_box (ray_origin r) b" unfolding in_box_spans by blast
    with assms(3) show False by blast
  qed
  then show ?thesis using spans unfolding meets_def by blast
qed

text \<open>The six tests of the code in a row.\<close>

lemma Hit_bbox_chain:
  "Hit_bbox huge r b =
    (let a = ray_origin r; d = ray_direction r; lo = bb_min b; hi = bb_max b;
         kx = (\<lambda>x. span_has (vy lo) (vy hi) (vy (ray_at r x)) \<and> span_has (vz lo) (vz hi) (vz (ray_at r x)));
         ky = (\<lambda>x. span_has (vx lo) (vx hi) (vx (ray_at r x)) \<and> span_has (vz lo) (vz hi) (vz (ray_at r x)));
         kz = (\<lambda>x. span_has (vx lo) (vx hi) (vx (ray_at r x)) \<and> span_has (vy lo) (vy hi) (vy (ray_at r x)))
     in if \<not> bb_Defined huge b then None
        else if IsInside_point b a \<noteq> OUTSIDE then Some 0
        else face_step (vz a > vz hi \<and> vz d < 0) ((vz hi - vz a) / vz d) (kz ((vz hi - vz a) / vz d))
          (face_step (vz a < vz lo \<and> vz d > 0) ((vz lo - vz a) / vz d) (kz ((vz lo - vz a) / vz d))
          (face_step (vy a > vy hi \<and> vy d < 0) ((vy hi - vy a) / vy d) (ky ((vy hi - vy a) / vy d))
          (face_step (vy a < vy lo \<and> vy d > 0) ((vy lo - vy a) / vy d) (ky ((vy lo - vy a) / vy d))
          (face_step (vx a > vx hi \<and> vx d < 0) ((vx hi - vx a) / vx d) (kx ((vx hi - vx a) / vx d))
          (face_step (vx a < vx lo \<and> vx d > 0) ((vx lo - vx a) / vx d) (kx ((vx lo - vx a) / vx d)) None))))))"
  unfolding Hit_bbox_def face_step_def Let_def by (rule refl)

lemma origin_in_box_iff: "IsInside_point b p \<noteq> OUTSIDE \<longleftrightarrow> in_box p b"
  by (auto simp: IsInside_point_def in_box_def vec_le_def)

lemma Hit_bbox_Some:
  assumes "Hit_bbox huge r b = Some t"
  shows "t = 0 \<and> in_box (ray_origin r) b \<or> meets r b t"
proof (cases "IsInside_point b (ray_origin r) = OUTSIDE")
  case True
  have "meets r b t"
    using assms True unfolding Hit_bbox_chain Let_def
    by (auto simp: meets_def enters_def simp del: ray_at_sel split: if_splits dest!: face_step_Some)
  then show ?thesis by blast
next
  case False
  then show ?thesis using assms origin_in_box_iff [of b] unfolding Hit_bbox_chain Let_def by (auto split: if_splits)
qed

lemma Hit_bbox_None:
  assumes "Hit_bbox huge r b = None" and "bb_Defined huge b"
  shows "\<not> in_box (ray_origin r) b" "\<not> meets r b t"
proof -
  have o': "IsInside_point b (ray_origin r) = OUTSIDE"
    using assms unfolding Hit_bbox_chain Let_def by (auto split: if_splits)
  then show "\<not> in_box (ray_origin r) b" using origin_in_box_iff [of b] by blast
  show "\<not> meets r b t"
    using assms o' unfolding Hit_bbox_chain Let_def
    by (auto simp: meets_def enters_def simp del: ray_at_sel dest!: face_step_None)
qed

text \<open>Property C13. The distance a ray returns for a defined box is that of the first point of the ray in the box, and it
  returns infinity exactly when no point of the ray lies in the box.\<close>

theorem ray_hits_box:
  assumes "bb_Defined huge b" and "box_ok b"
  shows "case Hit_bbox huge r b of
      Some t \<Rightarrow> 0 \<le> t \<and> in_box (ray_at r t) b \<and> (\<forall>u. 0 \<le> u \<and> u < t \<longrightarrow> \<not> in_box (ray_at r u) b)
    | None \<Rightarrow> \<forall>u \<ge> 0. \<not> in_box (ray_at r u) b"
proof (cases "Hit_bbox huge r b")
  case None
  then show ?thesis using meets_exists Hit_bbox_None [OF None assms(1)] by auto
next
  case (Some t)
  have z: "ray_at r 0 = ray_origin r" by (simp add: ray_at_def vec_add_def vec_scale_def)
  from Hit_bbox_Some [OF Some] show ?thesis
  proof
    assume "t = 0 \<and> in_box (ray_origin r) b"
    then show ?thesis using Some z by auto
  next
    assume m: "meets r b t"
    show ?thesis using Some meets_first [OF m assms(2)] by auto
  qed
qed

theorem ray_hits_box_witness:
  "Hit_bbox 1000 \<lparr>ray_origin = Vec3 (-3) 1 1, ray_direction = Vec3 1 0 0\<rparr> (mk_box (Vec3 0 0 0) (Vec3 2 2 2)) = Some 3
    \<and> \<not> in_box (ray_at \<lparr>ray_origin = Vec3 (-3) 1 1, ray_direction = Vec3 1 0 0\<rparr> 2) (mk_box (Vec3 0 0 0) (Vec3 2 2 2))"
proof -
  have h: "Hit_bbox 1000 \<lparr>ray_origin = Vec3 (-3) 1 1, ray_direction = Vec3 1 0 0\<rparr> (mk_box (Vec3 0 0 0) (Vec3 2 2 2)) = Some 3"
    by (simp add: Hit_bbox_def Let_def mk_box_def bb_Defined_def IsInside_point_def span_has_def vec_defs)
  have "bb_Defined 1000 (mk_box (Vec3 0 0 0) (Vec3 2 2 (2 :: real)))" "box_ok (mk_box (Vec3 0 0 0) (Vec3 2 2 (2 :: real)))"
    by (simp_all add: mk_box_def bb_Defined_def box_ok_def vec_le_def)
  from ray_hits_box [OF this, of "\<lparr>ray_origin = Vec3 (-3) 1 1, ray_direction = Vec3 1 0 0\<rparr>"] h show ?thesis by simp
qed

section \<open>The sphere test\<close>

text \<open>Completing the square: where the ray is on the sphere.\<close>

lemma sphere_quadratic:
  fixes r :: ray and s :: "real sphere"
  defines "a \<equiv> DotProduct (ray_direction r) (ray_direction r)"
  defines "b \<equiv> 2 * DotProduct (vec_sub (ray_origin r) (center s)) (ray_direction r)"
  defines "c \<equiv> DotProduct (vec_sub (ray_origin r) (center s)) (vec_sub (ray_origin r) (center s)) - radius s * radius s"
  shows "LengthSquared (vec_sub (ray_at r t) (center s)) - radius s * radius s = a * (t * t) + b * t + c"
  by (simp add: a_def b_def c_def LengthSquared_def DotProduct_def vec_sub_def algebra_simps)

lemma quadratic_root:
  assumes "a \<noteq> (0 :: real)" and "q * q = b * b - 4 * a * c" and "t = (- b + q) / (2 * a)"
  shows "a * (t * t) + b * t + c = 0"
proof -
  have t: "2 * a * t = - b + q" using assms(1,3) by simp
  have "4 * a * (a * (t * t) + b * t + c) = (2 * a * t) * (2 * a * t) + 2 * b * (2 * a * t) + 4 * a * c" by (simp add: algebra_simps)
  also have "\<dots> = 0" unfolding t using assms(2) by (simp add: algebra_simps)
  finally show ?thesis using assms(1) by simp
qed

lemma Hit_sphere_on_surface:
  assumes "Hit_sphere r s = ok (Some t)" and "LengthSquared (vec_sub (ray_origin r) (center s)) > radius s * radius s"
  shows "LengthSquared (vec_sub (ray_at r t) (center s)) = radius s * radius s"
proof -
  let ?a = "DotProduct (ray_direction r) (ray_direction r)"
  let ?b = "2 * DotProduct (vec_sub (ray_origin r) (center s)) (ray_direction r)"
  let ?c = "DotProduct (vec_sub (ray_origin r) (center s)) (vec_sub (ray_origin r) (center s)) - radius s * radius s"
  let ?D = "?b * ?b - 4 * ?a * ?c"
  have d: "0 \<le> ?D" "?a \<noteq> 0" and t: "t = (- ?b - sqrt ?D) / (2 * ?a) \<or> t = (- ?b + sqrt ?D) / (2 * ?a)"
    using assms by (auto simp: Hit_sphere_def Let_def split: if_splits)
  have q: "sqrt ?D * sqrt ?D = ?D" "(- sqrt ?D) * (- sqrt ?D) = ?D" using d(1) by simp_all
  have "?a * (t * t) + ?b * t + ?c = 0"
    using t
  proof
    assume "t = (- ?b - sqrt ?D) / (2 * ?a)"
    then have "t = (- ?b + (- sqrt ?D)) / (2 * ?a)" by simp
    then show ?thesis by (rule quadratic_root [OF d(2) q(2)])
  next
    assume "t = (- ?b + sqrt ?D) / (2 * ?a)"
    then show ?thesis by (rule quadratic_root [OF d(2) q(1)])
  qed
  then show ?thesis using sphere_quadratic [of r t s] by simp
qed

text \<open>A sphere behind the ray is reported at a negative distance, not at infinity.\<close>

lemma sphere_behind:
  "Hit_sphere \<lparr>ray_origin = Vec3 5 0 0, ray_direction = Vec3 1 0 0\<rparr> \<lparr>center = Vec3 0 0 0, radius = 1\<rparr> = ok (Some (- 4))"
proof -
  have "sqrt (4 :: real) = 2" by (rule real_sqrt_unique) simp_all
  then show ?thesis by (simp add: Hit_sphere_def Let_def LengthSquared_def DotProduct_def vec_sub_def)
qed

section \<open>The triangle test\<close>

definition tri_point :: "real vec3 \<Rightarrow> real vec3 \<Rightarrow> real vec3 \<Rightarrow> real vec3 \<Rightarrow> real vec3" where
  "tri_point v0 v1 v2 w = vec_add (vec_add (vec_scale v0 (vx w)) (vec_scale v1 (vy w))) (vec_scale v2 (vz w))"

lemma cramer:
  fixes e1 e2 d t :: "real vec3"
  shows "vec_add (vec_scale t (DotProduct e1 (CrossProduct d e2))) (vec_scale d (DotProduct e2 (CrossProduct t e1)))
    = vec_add (vec_scale e1 (DotProduct t (CrossProduct d e2))) (vec_scale e2 (DotProduct d (CrossProduct t e1)))"
  by (simp add: vec_add_def vec_scale_def DotProduct_def CrossProduct_def algebra_simps)

lemma cramer_unique:
  fixes e1 e2 d t :: "real vec3"
  assumes "vec_add t (vec_scale d x) = vec_add (vec_scale e1 u) (vec_scale e2 v)"
  shows "DotProduct t (CrossProduct d e2) = u * DotProduct e1 (CrossProduct d e2)"
    "DotProduct d (CrossProduct t e1) = v * DotProduct e1 (CrossProduct d e2)"
    "DotProduct e2 (CrossProduct t e1) = x * DotProduct e1 (CrossProduct d e2)"
proof -
  have t: "vx t = vx e1 * u + vx e2 * v - vx d * x" "vy t = vy e1 * u + vy e2 * v - vy d * x" "vz t = vz e1 * u + vz e2 * v - vz d * x"
    using assms by (simp_all add: vec_add_def vec_scale_def)
  then show "DotProduct t (CrossProduct d e2) = u * DotProduct e1 (CrossProduct d e2)"
    "DotProduct d (CrossProduct t e1) = v * DotProduct e1 (CrossProduct d e2)"
    "DotProduct e2 (CrossProduct t e1) = x * DotProduct e1 (CrossProduct d e2)"
    unfolding DotProduct_def CrossProduct_def vec3.sel t by (simp_all add: algebra_simps)
qed

lemma from_corner: "vec_sub p v0 = vec_add (vec_scale (vec_sub v1 v0) (vy w)) (vec_scale (vec_sub v2 v0) (vz w)) \<longleftrightarrow> p = tri_point v0 v1 v2 w"
  if "vx w + vy w + vz w = 1" for w :: "real vec3"
proof -
  have w: "vx w = 1 - vy w - vz w" using that by linarith
  have "x - a = (b - a) * y + (c - a) * z \<longleftrightarrow> x = a * (1 - y - z) + b * y + c * z" for x a b c y z :: real
    by (auto simp: algebra_simps)
  then show ?thesis by (cases p) (simp add: tri_point_def vec_sub_def vec_add_def vec_scale_def w)
qed

definition tri_det :: "ray \<Rightarrow> real vec3 \<Rightarrow> real vec3 \<Rightarrow> real vec3 \<Rightarrow> real" where
  "tri_det r v0 v1 v2 = DotProduct (vec_sub v1 v0) (CrossProduct (ray_direction r) (vec_sub v2 v0))"

lemma Hit_triangle_iff:
  assumes "EPSILON \<le> tri_det r v0 v1 v2"
  shows "Hit_triangle r v0 v1 v2 = Some (t, n, w) \<longleftrightarrow> n = CrossProduct (vec_sub v1 v0) (vec_sub v2 v0) \<and> 0 \<le> t
    \<and> 0 \<le> vx w \<and> 0 \<le> vy w \<and> 0 \<le> vz w \<and> vx w + vy w + vz w = 1 \<and> ray_at r t = tri_point v0 v1 v2 w"
proof -
  define e1 e2 T d where "e1 = vec_sub v1 v0" and "e2 = vec_sub v2 v0" and "T = vec_sub (ray_origin r) v0" and "d = ray_direction r"
  define D U V X where "D = DotProduct e1 (CrossProduct d e2)" and "U = DotProduct T (CrossProduct d e2)"
    and "V = DotProduct d (CrossProduct T e1)" and "X = DotProduct e2 (CrossProduct T e1)"
  have D: "EPSILON \<le> D" "0 < D" using assms by (simp_all add: D_def d_def e1_def e2_def tri_det_def EPSILON_def)
  have code: "Hit_triangle r v0 v1 v2 = Some (t, n, w) \<longleftrightarrow> 0 \<le> U \<and> U \<le> D \<and> 0 \<le> V \<and> U + V \<le> D \<and> 0 \<le> X / D
      \<and> t = X / D \<and> n = CrossProduct e1 e2 \<and> w = Vec3 (1 - U / D - V / D) (U / D) (V / D)"
    unfolding Hit_triangle_def Let_def e1_def [symmetric] e2_def [symmetric] T_def [symmetric] d_def [symmetric]
      D_def [symmetric] U_def [symmetric] V_def [symmetric] X_def [symmetric]
    using D(1) by auto
  have at: "ray_at r t = tri_point v0 v1 v2 w \<longleftrightarrow> vec_add T (vec_scale d t) = vec_add (vec_scale e1 (vy w)) (vec_scale e2 (vz w))"
    if "vx w + vy w + vz w = 1" for t w
    unfolding from_corner [OF that, symmetric]
    by (simp add: ray_at_def T_def d_def e1_def e2_def vec_add_def vec_sub_def vec_scale_def algebra_simps)
  have on: "vec_add T (vec_scale d (X / D)) = vec_add (vec_scale e1 (U / D)) (vec_scale e2 (V / D))"
  proof -
    have "vec_add (vec_scale T D) (vec_scale d X) = vec_add (vec_scale e1 U) (vec_scale e2 V)"
      unfolding D_def U_def V_def X_def by (rule cramer)
    then have "vec_scale (vec_add (vec_scale T D) (vec_scale d X)) (1 / D) = vec_scale (vec_add (vec_scale e1 U) (vec_scale e2 V)) (1 / D)" by simp
    then show ?thesis using D(2) by (simp add: vec_add_def vec_scale_def field_simps)
  qed
  show ?thesis
  proof
    assume "Hit_triangle r v0 v1 v2 = Some (t, n, w)"
    then have h: "0 \<le> U" "0 \<le> V" "U + V \<le> D" "0 \<le> X / D" "t = X / D" "n = CrossProduct e1 e2" "w = Vec3 (1 - U / D - V / D) (U / D) (V / D)"
      unfolding code by auto
    have "(U + V) / D \<le> 1" using h(3) D(2) by simp
    then have "0 \<le> 1 - U / D - V / D" by (simp add: add_divide_distrib)
    then show "n = CrossProduct (vec_sub v1 v0) (vec_sub v2 v0) \<and> 0 \<le> t
      \<and> 0 \<le> vx w \<and> 0 \<le> vy w \<and> 0 \<le> vz w \<and> vx w + vy w + vz w = 1 \<and> ray_at r t = tri_point v0 v1 v2 w"
      using h D(2) on at [of w t] by (simp add: e1_def e2_def)
  next
    assume a: "n = CrossProduct (vec_sub v1 v0) (vec_sub v2 v0) \<and> 0 \<le> t
      \<and> 0 \<le> vx w \<and> 0 \<le> vy w \<and> 0 \<le> vz w \<and> vx w + vy w + vz w = 1 \<and> ray_at r t = tri_point v0 v1 v2 w"
    then have "vec_add T (vec_scale d t) = vec_add (vec_scale e1 (vy w)) (vec_scale e2 (vz w))" using at by blast
    note u = cramer_unique [OF this, folded D_def U_def V_def X_def]
    have q: "U / D = vy w" "V / D = vz w" "X / D = t" using u D(2) by simp_all
    have "vy w * D + vz w * D \<le> D" "vy w * D \<le> D" "0 \<le> vy w * D" "0 \<le> vz w * D"
    proof -
      have "vy w + vz w \<le> 1" "vy w \<le> 1" using a by linarith+
      then have "(vy w + vz w) * D \<le> 1 * D" "vy w * D \<le> 1 * D" using D(2) by (intro mult_right_mono; simp)+
      then show "vy w * D + vz w * D \<le> D" "vy w * D \<le> D" by (simp_all add: distrib_right)
      show "0 \<le> vy w * D" "0 \<le> vz w * D" using a D(2) by simp_all
    qed
    then have r: "0 \<le> U" "U \<le> D" "0 \<le> V" "U + V \<le> D" unfolding u by simp_all
    have "vx w = 1 - vy w - vz w" using a by linarith
    then have "w = Vec3 (1 - U / D - V / D) (U / D) (V / D)" unfolding q by (cases w) simp
    then show "Hit_triangle r v0 v1 v2 = Some (t, n, w)" unfolding code using r q a by (simp add: e1_def e2_def)
  qed
qed

lemma Hit_triangle_back: "tri_det r v0 v1 v2 < EPSILON \<Longrightarrow> Hit_triangle r v0 v1 v2 = None"
  by (simp add: Hit_triangle_def Let_def tri_det_def)

text \<open>Property C14. A triangle that faces the ray is hit at a distance exactly when the point of the ray there is the combination of its
  corners by weights of sum one that are not negative, which are the weights the test reports; one that turns its back is not hit.\<close>

theorem ray_hits_triangle:
  "if EPSILON \<le> tri_det r v0 v1 v2
   then Hit_triangle r v0 v1 v2 = Some (t, n, w) \<longleftrightarrow> n = CrossProduct (vec_sub v1 v0) (vec_sub v2 v0) \<and> 0 \<le> t
     \<and> 0 \<le> vx w \<and> 0 \<le> vy w \<and> 0 \<le> vz w \<and> vx w + vy w + vz w = 1 \<and> ray_at r t = tri_point v0 v1 v2 w
   else Hit_triangle r v0 v1 v2 = None"
  using Hit_triangle_iff [of r v0 v1 v2 t n w] Hit_triangle_back [of r v0 v1 v2] by simp

section \<open>The nearest triangle\<close>

definition tri_hit :: "ray \<Rightarrow> mesh_vertex list \<Rightarrow> nat \<times> nat \<times> nat \<Rightarrow> (real \<times> real vec3 \<times> real vec3) option" where
  "tri_hit r vs = (\<lambda>(i, j, k). Hit_triangle r (fst (vs ! i)) (fst (vs ! j)) (fst (vs ! k)))"

definition in_range :: "mesh_vertex list \<Rightarrow> nat \<times> nat \<times> nat \<Rightarrow> bool" where
  "in_range vs = (\<lambda>(i, j, k). i < length vs \<and> j < length vs \<and> k < length vs)"

lemma vertex_at_ok [simp]: "i < length vs \<Longrightarrow> vertex_at vs i = ok (vs ! i)"
  by (simp add: vertex_at_def)

lemma hit_step_ok:
  assumes "in_range vs tri"
  shows "hit_step r vs tri h = ok (case tri_hit r vs tri of
      None \<Rightarrow> h
    | Some (d, n, b) \<Rightarrow> if inf_less (Some d) (nearest h) then h\<lparr>outNormal := n, barycentric := b, nearestIdx := Some tri, nearest := Some d\<rparr>
        else h\<lparr>outNormal := n, barycentric := b\<rparr>)"
  using assms by (cases tri) (auto simp: hit_step_def in_range_def tri_hit_def Let_def split: option.splits)

text \<open>What the loop has found, as a relation to the hits so far: the nearest distance is the least, but the normal and
  the weights are those of the latest hit.\<close>

definition found :: "(real \<times> real vec3 \<times> real vec3) list \<Rightarrow> hit_state \<Rightarrow> hit_state \<Rightarrow> bool" where
  "found hits h h' \<longleftrightarrow> (hits = [] \<longrightarrow> h' = h)
    \<and> (hits \<noteq> [] \<longrightarrow> (outNormal h', barycentric h') = snd (last hits)
       \<and> nearest h' = Some (fold min (map fst hits) (case nearest h of None \<Rightarrow> fst (hd hits) | Some e \<Rightarrow> e)))"

lemma hit_loop_found:
  assumes "list_all (in_range vs) tris"
  shows "\<exists>h'. hit_loop r vs tris h = ok h' \<and> found (List.map_filter (tri_hit r vs) tris) h h'"
  using assms
proof (induction tris arbitrary: h)
  case (Cons tri tris)
  let ?hits = "List.map_filter (tri_hit r vs) tris"
  note step = hit_step_ok [of vs tri r h]
  show ?case
  proof (cases "tri_hit r vs tri")
    case None
    then show ?thesis using Cons step by simp
  next
    case (Some hit)
    obtain d n b where hit: "hit = (d, n, b)" by (cases hit)
    obtain h1 where h1: "hit_step r vs tri h = ok h1" "outNormal h1 = n" "barycentric h1 = b"
      "nearest h1 = Some (min d (case nearest h of None \<Rightarrow> d | Some e \<Rightarrow> e))"
      using step Cons.prems Some hit by (cases "nearest h") (simp_all add: min_def)
    obtain h' where h': "hit_loop r vs tris h1 = ok h'" "found ?hits h1 h'" using Cons by auto
    have "found ((d, n, b) # ?hits) h h'"
      using h'(2) h1 unfolding found_def by (cases "nearest h"; cases "?hits = []") (simp_all add: min.commute)
    then show ?thesis using h1(1) h'(1) Some hit by simp
  qed
qed (simp add: found_def)

lemma hit_loop_index:
  assumes "hit_loop r vs tris h = ok h'" and "list_all (in_range vs) tris"
  shows "nearestIdx h' = nearestIdx h \<or> (\<exists>tri \<in> set tris. nearestIdx h' = Some tri)"
  using assms
proof (induction tris arbitrary: h)
  case (Cons tri tris)
  obtain h1 where h1: "hit_step r vs tri h = ok h1" "nearestIdx h1 = nearestIdx h \<or> nearestIdx h1 = Some tri"
    using hit_step_ok [of vs tri r h] Cons.prems(2) by (auto split: option.splits)
  then show ?case using Cons.IH [of h1] Cons.prems by auto
qed simp

lemma interpolate_ok:
  assumes "hit_loop r vs tris (hit_start normal) = ok h'" and "list_all (in_range vs) tris"
  shows "\<exists>uv. interpolate_uv vs h' = ok uv"
proof (cases "nearestIdx h'")
  case None
  then show ?thesis by (simp add: interpolate_uv_def)
next
  case (Some tri)
  then have "in_range vs tri" using hit_loop_index [OF assms] assms(2) by (auto simp: hit_start_def list_all_iff)
  then show ?thesis using Some by (cases tri) (simp add: interpolate_uv_def in_range_def Let_def)
qed

lemma fold_min_Min: "xs \<noteq> [] \<Longrightarrow> fold min xs (hd xs) = linorder_class.Min (set xs)" for xs :: "real list"
  by (cases xs) (simp_all add: Min.set_eq_fold [symmetric])

text \<open>The hits of a list of triangles, in order.\<close>

definition hits_of :: "ray \<Rightarrow> mesh_vertex list \<Rightarrow> (nat \<times> nat \<times> nat) list \<Rightarrow> (real \<times> real vec3 \<times> real vec3) list" where
  "hits_of r vs tris = List.map_filter (tri_hit r vs) tris"

lemma hit_loop_result:
  assumes "list_all (in_range vs) tris"
  shows "\<exists>uv. rbind (hit_loop r vs tris (hit_start normal)) (\<lambda>h. rbind (interpolate_uv vs h) (\<lambda>uv. ok (nearest h, outNormal h, uv)))
    = ok (if hits_of r vs tris = [] then None else Some (linorder_class.Min (fst ` set (hits_of r vs tris))),
          if hits_of r vs tris = [] then normal else fst (snd (last (hits_of r vs tris))), uv)"
proof -
  let ?hits = "hits_of r vs tris"
  obtain h' where h': "hit_loop r vs tris (hit_start normal) = ok h'" "found ?hits (hit_start normal) h'"
    using hit_loop_found [OF assms] unfolding hits_of_def by blast
  obtain uv where uv: "interpolate_uv vs h' = ok uv" using interpolate_ok [OF h'(1) assms] by blast
  have e: "outNormal h' = normal \<and> nearest h' = None" if "?hits = []" using h'(2) that by (simp add: found_def hit_start_def)
  have c: "outNormal h' = fst (snd (last ?hits))" "nearest h' = Some (linorder_class.Min (fst ` set ?hits))" if n: "?hits \<noteq> []"
  proof -
    have "(outNormal h', barycentric h') = snd (last ?hits)" using h'(2) n by (simp add: found_def)
    then show "outNormal h' = fst (snd (last ?hits))" by (metis fst_conv)
    have "nearest h' = Some (fold min (map fst ?hits) (hd (map fst ?hits)))"
      using h'(2) n by (simp add: found_def hit_start_def hd_map)
    then show "nearest h' = Some (linorder_class.Min (fst ` set ?hits))" using fold_min_Min [of "map fst ?hits"] n by simp
  qed
  show ?thesis using h'(1) uv e c by simp
qed

lemma vertex_triangles_range: "first + n \<le> length vs \<Longrightarrow> list_all (in_range vs) (vertex_triangles first n)"
  by (auto simp: list_all_iff vertex_triangles_def in_range_def)

text \<open>Property C15. The test of a mesh returns the least distance of the triangles the ray hits, and infinity when it hits none; the normal it
  writes is that of the last triangle hit, whichever is nearest.\<close>

theorem ray_finds_nearest:
  assumes "first + n \<le> length vs" and "hits = hits_of r vs (vertex_triangles first n)"
  shows "\<exists>uv. Hit_vertices r vs first n normal
    = ok (if hits = [] then None else Some (linorder_class.Min (fst ` set hits)), if hits = [] then normal else fst (snd (last hits)), uv)"
  unfolding assms(2) Hit_vertices_def by (rule hit_loop_result [OF vertex_triangles_range [OF assms(1)]])

text \<open>Two triangles face a ray along the x axis: the normal reported with the distance 1 of the first is that of the second.\<close>

definition two_walls :: "mesh_vertex list" where
  "two_walls = map (\<lambda>v. (v, Vec2 0 0))
    [Vec3 1 (-1) (-1), Vec3 1 (-1) 3, Vec3 1 3 (-1), Vec3 2 (-1) (-1), Vec3 4 (-1) 3, Vec3 2 3 (-1)]"

lemma two_walls_hits:
  "hits_of \<lparr>ray_origin = Vec3 0 0 0, ray_direction = Vec3 1 0 0\<rparr> two_walls (vertex_triangles 0 6)
    = [(1, Vec3 (-16) 0 0, Vec3 (1 / 2) (1 / 4) (1 / 4)), (5 / 2, Vec3 (-16) 0 8, Vec3 (1 / 2) (1 / 4) (1 / 4))]"
  by (simp add: hits_of_def two_walls_def vertex_triangles_def map_filter_simps tri_hit_def upt_rec Hit_triangle_def Let_def vec_defs EPSILON_def
      CrossProduct_def)

theorem ray_finds_nearest_witness:
  "\<exists>uv. Hit_vertices \<lparr>ray_origin = Vec3 0 0 0, ray_direction = Vec3 1 0 0\<rparr> two_walls 0 6 (Vec3 0 0 0)
    = ok (Some 1, Vec3 (-16) 0 8, uv)"
proof -
  have "0 + 6 \<le> length two_walls" by (simp add: two_walls_def)
  from ray_finds_nearest [OF this refl, of "\<lparr>ray_origin = Vec3 0 0 0, ray_direction = Vec3 1 0 0\<rparr>" "Vec3 0 0 0"]
  show ?thesis unfolding two_walls_hits by simp
qed

text \<open>Indices are read in threes: a count that is no multiple of three reads past it, and past the end of the indices.\<close>

lemma index_triangles_ok:
  assumes "start' + 3 * n \<le> length indices"
  shows "index_triangles indices start' (3 * n)
    = ok (map (\<lambda>i. (indices ! (start' + 3 * i), indices ! (start' + 3 * i + 1), indices ! (start' + 3 * i + 2))) [0..<n])"
  using assms
proof (induction n arbitrary: start')
  case 0
  then show ?case by (subst index_triangles.simps) simp
next
  case (Suc n)
  have "index_triangles indices (start' + 3) (3 * n)
    = ok (map (\<lambda>i. (indices ! (start' + 3 + 3 * i), indices ! (start' + 3 + 3 * i + 1), indices ! (start' + 3 + 3 * i + 2))) [0..<n])"
    using Suc by simp
  moreover have "[0..<Suc n] = 0 # map Suc [0..<n]" by (simp add: map_Suc_upt upt_conv_Cons del: upt_Suc)
  ultimately show ?case using Suc.prems by (subst index_triangles.simps) (simp add: algebra_simps)
qed

lemma index_triangles_overrun:
  assumes "start' + n = length indices" and "n mod 3 \<noteq> 0"
  shows "index_triangles indices start' n = fail OutOfRange"
  using assms
proof (induction indices start' n rule: index_triangles.induct)
  case (1 indices start' n)
  show ?case
  proof (cases "start' + 2 < length indices")
    case True
    then have "n \<ge> 3" using "1.prems" by simp
    then have "start' + 3 + (n - 3) = length indices" "(n - 3) mod 3 \<noteq> 0" using "1.prems" by presburger+
    then have "index_triangles indices (start' + 3) (n - 3) = fail OutOfRange" using "1.IH" True "1.prems" by fastforce
    then show ?thesis using "1.prems" True by (subst index_triangles.simps) simp
  next
    case False
    then show ?thesis using "1.prems" by (subst index_triangles.simps) auto
  qed
qed

lemma Hit_indexed_overrun:
  "start' + n = length indices \<Longrightarrow> n mod 3 \<noteq> 0 \<Longrightarrow> Hit_indexed r vs indices start' n normal = fail OutOfRange"
  by (simp add: Hit_indexed_def index_triangles_overrun)

end
