(* ===== verification/Cameras.thy ===== *)
theory Cameras
  imports Rays
begin

text \<open>
  The camera (\<open>Graphics/Camera/Camera.*\<close>): its lens, the projection matrix it caches behind a dirty flag, the frustum it
  defines for a view matrix and the ray through a point of the screen. The clip-control configuration, a global of
  \<open>Maths/Matrix4.cpp\<close>, is an argument.
\<close>

section \<open>Cameras\<close>

datatype render_path = Forward | Deferred | Batch2D
datatype render_target = Texture | Display0

record camera =
  m_ShadowBoundingRadius :: real
  m_AspectRatio :: real
  m_Scale :: real
  m_Zoom :: real
  m_ProjectionOffset :: "real vec2"
  m_ProjMatrix :: "real mat4"
  m_Frustum :: frustum
  m_FrustumDirty :: bool
  m_ProjectionDirty :: bool
  customProjection :: bool
  m_Fov :: real
  m_Near :: real
  m_Far :: real
  m_MouseSensitivity :: real
  m_Orthographic :: bool
  m_RenderPath :: render_path
  m_CastShadow :: bool
  m_Target :: render_target

definition camera_default :: camera where
  "camera_default = \<lparr>m_ShadowBoundingRadius = 25, m_AspectRatio = 0, m_Scale = 1, m_Zoom = 1, m_ProjectionOffset = Vec2 0 0,
     m_ProjMatrix = mat4_id, m_Frustum = frustum_new, m_FrustumDirty = True, m_ProjectionDirty = False, customProjection = False,
     m_Fov = 0, m_Near = 0, m_Far = 0, m_MouseSensitivity = 1 / 10, m_Orthographic = False, m_RenderPath = Deferred,
     m_CastShadow = True, m_Target = Display0\<rparr>"

definition camera_perspective :: "real \<Rightarrow> real \<Rightarrow> real \<Rightarrow> real \<Rightarrow> camera" where
  "camera_perspective FOV Near Far aspect = camera_default\<lparr>m_AspectRatio := aspect, m_FrustumDirty := True, m_ProjectionDirty := True,
     m_Fov := FOV, m_Near := Near, m_Far := Far, m_Orthographic := False, m_Scale := 1\<rparr>"

definition camera_placed :: "real \<Rightarrow> real \<Rightarrow> real vec3 \<Rightarrow> real \<Rightarrow> real \<Rightarrow> real \<Rightarrow> real \<Rightarrow> camera" where
  "camera_placed pitch yaw position FOV Near Far aspect = camera_default\<lparr>m_AspectRatio := aspect, m_FrustumDirty := True,
     m_ProjectionDirty := True, m_Fov := FOV, m_Near := Near, m_Far := Far, m_Orthographic := False, m_Scale := 1\<rparr>"

definition camera_orthographic :: "real \<Rightarrow> real \<Rightarrow> camera" where
  "camera_orthographic aspectRatio scale = camera_default\<lparr>m_AspectRatio := aspectRatio, m_Scale := scale, m_FrustumDirty := True,
     m_ProjectionDirty := True, m_Fov := 0, m_Near := -10, m_Far := 10, m_Orthographic := True\<rparr>"

definition camera_SetMouseSensitivity :: "real \<Rightarrow> camera \<Rightarrow> camera" where
  "camera_SetMouseSensitivity v c = c\<lparr>m_MouseSensitivity := v\<rparr>"

definition SetIsOrthographic :: "bool \<Rightarrow> camera \<Rightarrow> camera" where
  "SetIsOrthographic ortho c = c\<lparr>m_FrustumDirty := True, m_ProjectionDirty := True, m_Orthographic := ortho\<rparr>"

definition SetAspectRatio :: "real \<Rightarrow> camera \<Rightarrow> camera" where
  "SetAspectRatio y c = c\<lparr>m_AspectRatio := y, m_ProjectionDirty := True, m_FrustumDirty := True\<rparr>"

definition SetFar :: "real \<Rightarrow> camera \<Rightarrow> camera" where
  "SetFar pFar c = c\<lparr>m_Far := pFar, m_ProjectionDirty := True, m_FrustumDirty := True\<rparr>"

definition SetNear :: "real \<Rightarrow> camera \<Rightarrow> camera" where
  "SetNear pNear c = c\<lparr>m_Near := pNear, m_ProjectionDirty := True, m_FrustumDirty := True\<rparr>"

definition camera_SetScale :: "real \<Rightarrow> camera \<Rightarrow> camera" where
  "camera_SetScale scale c = c\<lparr>m_Scale := scale, m_ProjectionDirty := True, m_FrustumDirty := True\<rparr>"

definition SetFOV :: "real \<Rightarrow> camera \<Rightarrow> camera" where
  "SetFOV fov c = c\<lparr>m_Fov := fov, m_ProjectionDirty := True, m_FrustumDirty := True\<rparr>"

text \<open>What is saved of a camera, and loading the values the archive has under these names.\<close>

definition camera_save :: "camera \<Rightarrow> (string \<times> real) list" where
  "camera_save c = [(''Scale'', m_Scale c), (''Aspect'', m_AspectRatio c), (''FOV'', m_Fov c), (''Near'', m_Near c), (''Far'', m_Far c)]"

definition camera_load :: "real \<Rightarrow> real \<Rightarrow> real \<Rightarrow> real \<Rightarrow> real \<Rightarrow> camera \<Rightarrow> camera" where
  "camera_load scale aspect fov near far c = c\<lparr>m_Scale := scale, m_AspectRatio := aspect, m_Fov := fov, m_Near := near, m_Far := far,
     m_FrustumDirty := True, m_ProjectionDirty := True\<rparr>"

definition UpdateProjectionMatrix :: "int \<Rightarrow> camera \<Rightarrow> camera" where
  "UpdateProjectionMatrix config c =
    (if m_Orthographic c
     then c\<lparr>m_ProjMatrix := Orthographic config (- m_AspectRatio c * m_Scale c) (m_AspectRatio c * m_Scale c) (- m_Scale c) (m_Scale c)
       (m_Near c) (m_Far c) (px (m_ProjectionOffset c)) (py (m_ProjectionOffset c)) (m_Zoom c)\<rparr>
     else c\<lparr>m_ProjMatrix := Perspective config (m_Near c) (m_Far c) (m_AspectRatio c) (m_Fov c)
       (px (m_ProjectionOffset c)) (py (m_ProjectionOffset c)) (m_Zoom c)\<rparr>)"

definition GetFrustum :: "int \<Rightarrow> real mat4 \<Rightarrow> camera \<Rightarrow> frustum \<times> camera" where
  "GetFrustum config viewMatrix c =
    (let c = (if m_ProjectionDirty c then UpdateProjectionMatrix config c else c);
         c = c\<lparr>customProjection := True\<rparr>;
         frustum = (if customProjection c then Define_projection config (mat4_mul (m_ProjMatrix c) viewMatrix) (m_Frustum c)
           else if m_Orthographic c
           then DefineOrtho (m_Scale c) (m_AspectRatio c) (m_Zoom c) (m_Near c) (m_Far c) (mat34_of_mat4 viewMatrix) (m_Frustum c)
           else Define_lens (m_Fov c) (m_AspectRatio c) (m_Zoom c) (m_Near c) (m_Far c) (mat34_of_mat4 viewMatrix) (m_Frustum c));
         c = c\<lparr>m_Frustum := frustum, m_FrustumDirty := False\<rparr>
     in (m_Frustum c, c))"

definition GetProjectionMatrix :: "int \<Rightarrow> camera \<Rightarrow> real mat4 \<times> camera" where
  "GetProjectionMatrix config c =
    (let c = (if m_ProjectionDirty c then (UpdateProjectionMatrix config c)\<lparr>m_ProjectionDirty := False\<rparr> else c) in (m_ProjMatrix c, c))"

definition GetScreenRay :: "real \<Rightarrow> real \<Rightarrow> real mat4 \<Rightarrow> bool \<Rightarrow> camera \<Rightarrow> ray" where
  "GetScreenRay x y viewMatrix invertY c =
    (let viewProjInverse = mat4_Inverse (mat4_mul (m_ProjMatrix c) viewMatrix);
         x = 2 * x - 1; y = 2 * y - 1; y = (if invertY then y * -1 else y);
         nearPlane = Vec3 x y 0; farPlane = Vec3 x y 1; origin = mat4_vec viewProjInverse nearPlane
     in \<lparr>ray_origin = origin, ray_direction = Normalized (vec_sub (mat4_vec viewProjInverse farPlane) origin)\<rparr>)"

section \<open>The cached projection\<close>

definition projection_of :: "int \<Rightarrow> camera \<Rightarrow> real mat4" where
  "projection_of config c = m_ProjMatrix (UpdateProjectionMatrix config c)"

definition cache_ok :: "int \<Rightarrow> camera \<Rightarrow> bool" where
  "cache_ok config c \<longleftrightarrow> m_ProjectionDirty c \<or> m_ProjMatrix c = projection_of config c"

datatype camera_op = Op_Sensitivity real | Op_Orthographic bool | Op_Aspect real | Op_Far real | Op_Near real | Op_Scale real | Op_FOV real
  | Op_Load real real real real real | Op_Projection | Op_Frustum "real mat4"

primrec camera_do :: "int \<Rightarrow> camera_op \<Rightarrow> camera \<Rightarrow> camera" where
  "camera_do config (Op_Sensitivity v) c = camera_SetMouseSensitivity v c"
| "camera_do config (Op_Orthographic b) c = SetIsOrthographic b c"
| "camera_do config (Op_Aspect v) c = SetAspectRatio v c"
| "camera_do config (Op_Far v) c = SetFar v c"
| "camera_do config (Op_Near v) c = SetNear v c"
| "camera_do config (Op_Scale v) c = camera_SetScale v c"
| "camera_do config (Op_FOV v) c = SetFOV v c"
| "camera_do config (Op_Load scale aspect fov near far) c = camera_load scale aspect fov near far c"
| "camera_do config Op_Projection c = snd (GetProjectionMatrix config c)"
| "camera_do config (Op_Frustum view) c = snd (GetFrustum config view c)"

lemmas camera_setters = camera_SetMouseSensitivity_def SetIsOrthographic_def SetAspectRatio_def SetFar_def SetNear_def
  camera_SetScale_def SetFOV_def

lemma cache_ok_op: "cache_ok config c \<Longrightarrow> cache_ok config (camera_do config x c)"
  by (cases x) (auto simp: cache_ok_def projection_of_def UpdateProjectionMatrix_def camera_setters camera_load_def GetProjectionMatrix_def
      GetFrustum_def Let_def)

lemma cache_ok_run: "cache_ok config c \<Longrightarrow> cache_ok config (fold (camera_do config) xs c)"
  by (induction xs arbitrary: c) (simp_all add: cache_ok_op)

text \<open>Cameras made by the constructors with arguments.\<close>

definition constructed :: "camera \<Rightarrow> bool" where
  "constructed c \<longleftrightarrow> (\<exists>fov n f aspect. c = camera_perspective fov n f aspect) \<or> (\<exists>pitch yaw p fov n f aspect. c = camera_placed pitch yaw p fov n f aspect)
    \<or> (\<exists>aspect scale. c = camera_orthographic aspect scale)"

lemma constructed_ok: "constructed c \<Longrightarrow> cache_ok config c"
  by (auto simp: constructed_def cache_ok_def camera_perspective_def camera_placed_def camera_orthographic_def)

lemma GetFrustum_current: "cache_ok config c \<Longrightarrow> fst (GetFrustum config view c) = Define_projection config (mat4_mul (projection_of config c) view) (m_Frustum c)"
  by (auto simp: cache_ok_def GetFrustum_def projection_of_def UpdateProjectionMatrix_def Let_def)

lemma GetProjectionMatrix_current:
  assumes "cache_ok config c"
  shows "fst (GetProjectionMatrix config c) = projection_of config c" "m_ProjMatrix (snd (GetProjectionMatrix config c)) = projection_of config c"
    "projection_of config (snd (GetProjectionMatrix config c)) = projection_of config c"
  using assms by (auto simp: cache_ok_def GetProjectionMatrix_def projection_of_def UpdateProjectionMatrix_def Let_def)

text \<open>A default-constructed camera starts with the identity taken for its projection.\<close>

lemma default_camera_stale: "fst (GetProjectionMatrix config camera_default) = mat4_id" "\<not> cache_ok CLIP_CONTROL_RH_NO camera_default"
  by (simp_all add: GetProjectionMatrix_def camera_default_def Let_def)
    (simp add: cache_ok_def projection_of_def UpdateProjectionMatrix_def Perspective_def PerspectiveRH_NO_def mat4_id_def Let_def)

section \<open>Rays through the screen\<close>

lemma mat34_vec_line:
  "vec_add (mat34_vec m a) (vec_scale (vec_sub (mat34_vec m b) (mat34_vec m a)) u) = mat34_vec m (vec_add a (vec_scale (vec_sub b a) u))"
  for m :: "real mat34"
  by (simp add: mat34_vec_def vec_add_def vec_scale_def vec_sub_def algebra_simps)

lemma lens_line:
  "vec_add (Vec3 (x * (a * e0)) (y * (b * e0)) e0) (vec_scale (vec_sub (Vec3 (x * (a * e1)) (y * (b * e1)) e1) (Vec3 (x * (a * e0)) (y * (b * e0)) e0)) u)
    = Vec3 (x * (a * (e0 + u * (e1 - e0)))) (y * (b * (e0 + u * (e1 - e0)))) (e0 + u * (e1 - e0))" for x :: real
  by (simp add: vec_add_def vec_scale_def vec_sub_def algebra_simps)

text \<open>The view coordinates of the points of a screen ray: it starts at the depth \<open>e0\<close> whose clip depth is zero.\<close>

lemma lens_screen_ray:
  assumes V: "mat34_det V \<noteq> 0" and P: "m_ProjMatrix c = Mat4 (g / aspect) 0 0 0 0 (s * g) 0 0 0 0 a d 0 0 (-1) 0" and s: "s * s = 1"
    and pos: "0 < aspect" "0 < g" "d \<noteq> 0" "0 < e0" "e0 < f" and ends: "d - a * e0 = 0" "d - a * f = f"
  shows "\<exists>k > 0. \<forall>t. mat34_vec V (ray_at (GetScreenRay x y (ToMatrix4 V) invertY c) t) =
    (let e = e0 + k * t; Y = (if invertY then - (2 * y - 1) else 2 * y - 1)
     in Vec3 ((2 * x - 1) * (aspect / g * e)) (s * (Y * (1 / g * e))) (- e))"
proof -
  define X Y where "X = 2 * x - 1" and "Y = (if invertY then - (2 * y - 1) else 2 * y - 1)"
  let ?m = "mat34_mul (mat34_Inverse V) (flip_axes s)" and ?q = "\<lambda>e. Vec3 (X * (aspect / g * e)) (Y * (1 / g * e)) e"
  note un = lens_unproject [OF V P s pos(1,2,3)]
  have e: "mat4_vec (mat4_Inverse (mat4_mul (m_ProjMatrix c) (ToMatrix4 V))) (Vec3 X Y 0) = mat34_vec ?m (?q e0)"
    "mat4_vec (mat4_Inverse (mat4_mul (m_ProjMatrix c) (ToMatrix4 V))) (Vec3 X Y 1) = mat34_vec ?m (?q f)"
    using un [of e0 0 X Y] un [of f 1 X Y] pos ends by simp_all
  obtain k where k: "0 < k" "Normalized (vec_sub (mat34_vec ?m (?q f)) (mat34_vec ?m (?q e0)))
      = vec_scale (vec_sub (mat34_vec ?m (?q f)) (mat34_vec ?m (?q e0))) k" using Normalized_positive by blast
  have yy: "(if invertY then (2 * y - 1) * - 1 else 2 * y - 1) = Y" by (simp add: Y_def)
  have r: "GetScreenRay x y (ToMatrix4 V) invertY c = \<lparr>ray_origin = mat34_vec ?m (?q e0),
      ray_direction = vec_scale (vec_sub (mat34_vec ?m (?q f)) (mat34_vec ?m (?q e0))) k\<rparr>"
    unfolding GetScreenRay_def Let_def X_def [symmetric] yy e k(2) by (rule refl)
  have sc: "vec_scale (vec_scale v a) b = vec_scale v (a * b)" for v :: "real vec3" and a b by (simp add: vec_scale_def ac_simps)
  have at: "ray_at (GetScreenRay x y (ToMatrix4 V) invertY c) t = mat34_vec ?m (?q (e0 + (k * t) * (f - e0)))" for t
    unfolding r ray_at_def ray.simps sc mat34_vec_line lens_line by (rule refl)
  have v: "mat34_vec V (mat34_vec ?m v) = Vec3 (vx v) (s * vy v) (- vz v)" for v
    by (simp add: mat34_vec_mul mat34_inverse_vec(1) [OF V] flip_axes_vec)
  have "0 < k * (f - e0)" using k(1) pos(5) by simp
  moreover have "e0 + (k * t) * (f - e0) = e0 + (k * (f - e0)) * t" for t by (simp add: ac_simps)
  ultimately show ?thesis unfolding at v Let_def X_def [symmetric] Y_def [symmetric] vec3.sel by (intro exI [of _ "k * (f - e0)"]) simp
qed

lemma perspective_screen_ray:
  assumes V: "mat34_det V \<noteq> 0" and pos: "0 < aspect" "0 < zoom" "0 < tan (fov * DEGTORAD * (1 / 2))" "0 < n" "n < f"
    and P: "m_ProjMatrix c = Perspective (SetUpCoordSystem False zo) n f aspect fov 0 0 zoom"
  shows "\<exists>k > 0. \<forall>t. mat34_vec V (ray_at (GetScreenRay x y (ToMatrix4 V) invertY c) t) =
    (let slope = tan (fov * DEGTORAD * (1 / 2)) / zoom; e = (if zo then n else 2 * (n * f) / (n + f)) + k * t;
         Y = (if invertY then - (2 * y - 1) else 2 * y - 1)
     in Vec3 ((2 * x - 1) * (aspect * slope * e)) ((if zo then - 1 else 1) * (Y * (slope * e))) (- e))"
proof -
  define t where "t = tan (fov * DEGTORAD * (1 / 2))"
  define k where "k = 1 / (n - f)"
  have t: "0 < t" using pos(3) by (simp add: t_def)
  have k: "(n - f) * k = 1" "k \<noteq> 0" using pos(5) by (simp_all add: k_def)
  have g: "0 < zoom / t" "aspect / (zoom / t) = aspect * (t / zoom)" "1 / (zoom / t) = t / zoom" using t pos(2) by simp_all
  show ?thesis
  proof (cases zo)
    case True
    have P': "m_ProjMatrix c = Mat4 (zoom / t / aspect) 0 0 0 0 (- 1 * (zoom / t)) 0 0 0 0 (f * k) (n * f * k) 0 0 (-1) 0"
      unfolding P by (simp add: True Perspective_def SetUpCoordSystem_def PerspectiveRH_ZO_def Let_def t_def k_def)
    have d: "n * f * k - f * k * n = 0" "n * f * k - f * k * f = f" "n * f * k \<noteq> 0"
    proof -
      have "n * f * k - f * k * f = f * ((n - f) * k)" by (simp add: algebra_simps)
      then show "n * f * k - f * k * f = f" by (simp only: k mult_1_right)
    qed (use pos k(2) in simp_all)
    have s1: "- 1 * - 1 = (1 :: real)" by simp
    show ?thesis
      using lens_screen_ray [OF V P' s1 pos(1) g(1) d(3) pos(4,5) d(1,2), of x y invertY] True
      unfolding g t_def [symmetric] Let_def by simp
  next
    case False
    let ?e = "2 * (n * f) / (n + f)"
    have P': "m_ProjMatrix c = Mat4 (zoom / t / aspect) 0 0 0 0 (1 * (zoom / t)) 0 0 0 0 ((f + n) * k) (2 * (n * f) * k) 0 0 (-1) 0"
      unfolding P by (simp add: False Perspective_def SetUpCoordSystem_def PerspectiveRH_NO_def Let_def t_def k_def)
    have e: "0 < ?e" "(n + f) * ?e = 2 * (n * f)" using pos by simp_all
    have "n * f < f * f" using pos by simp
    then have "2 * (n * f) < f * (n + f)" by (simp add: algebra_simps)
    then have ef: "?e < f" using pos by (simp add: pos_divide_less_eq)
    have d: "2 * (n * f) * k - (f + n) * k * ?e = 0" "2 * (n * f) * k - (f + n) * k * f = f" "2 * (n * f) * k \<noteq> 0"
    proof -
      have "(f + n) * k * ?e = k * ((n + f) * ?e)" by (simp add: ac_simps)
      then show "2 * (n * f) * k - (f + n) * k * ?e = 0" unfolding e(2) by simp
      have "2 * (n * f) * k - (f + n) * k * f = f * ((n - f) * k)" by (simp add: algebra_simps)
      then show "2 * (n * f) * k - (f + n) * k * f = f" by (simp only: k mult_1_right)
    qed (use pos k(2) in simp)
    have s1: "1 * 1 = (1 :: real)" by simp
    show ?thesis
      using lens_screen_ray [OF V P' s1 pos(1) g(1) d(3) e(1) ef d(1,2), of x y invertY] False
      unfolding g t_def [symmetric] Let_def by simp
  qed
qed

lemma zoom_kept: "m_Zoom (camera_do config x c) = m_Zoom c" "m_ProjectionOffset (camera_do config x c) = m_ProjectionOffset c"
  by (cases x; simp add: camera_setters camera_load_def GetProjectionMatrix_def GetFrustum_def UpdateProjectionMatrix_def Let_def)+

lemma zoom_run:
  assumes "constructed c"
  shows "m_Zoom (fold (camera_do config) xs c) = 1" "m_ProjectionOffset (fold (camera_do config) xs c) = Vec2 0 0"
proof -
  have "m_Zoom (fold (camera_do config) xs c) = m_Zoom c" "m_ProjectionOffset (fold (camera_do config) xs c) = m_ProjectionOffset c"
    by (induction xs arbitrary: c) (simp_all add: zoom_kept)
  then show "m_Zoom (fold (camera_do config) xs c) = 1" "m_ProjectionOffset (fold (camera_do config) xs c) = Vec2 0 0"
    using assms by (auto simp: constructed_def camera_perspective_def camera_placed_def camera_orthographic_def camera_default_def)
qed

text \<open>What a camera sees, in view coordinates.\<close>

definition in_sight :: "camera \<Rightarrow> real vec3 \<Rightarrow> bool" where
  "in_sight c q \<longleftrightarrow> (let slope = tan (m_Fov c * DEGTORAD * (1 / 2)) in
     m_Near c \<le> - vz q \<and> - vz q \<le> m_Far c \<and> \<bar>vx q\<bar> \<le> m_AspectRatio c * slope * - vz q \<and> \<bar>vy q\<bar> \<le> slope * - vz q)"

definition lens_ok :: "camera \<Rightarrow> bool" where
  "lens_ok c \<longleftrightarrow> \<not> m_Orthographic c \<and> 0 < m_AspectRatio c \<and> 0 < tan (m_Fov c * DEGTORAD * (1 / 2)) \<and> 0 < m_Near c \<and> m_Near c < m_Far c"

lemma in_sight_ray:
  assumes "lens_ok c" and "\<bar>u\<bar> \<le> 1" and "\<bar>v\<bar> \<le> 1" and "m_Near c \<le> e"
    and "slope = tan (m_Fov c * DEGTORAD * (1 / 2))" and "\<bar>b\<bar> = 1"
  shows "in_sight c (Vec3 (u * (m_AspectRatio c * slope * e)) (b * (v * (slope * e))) (- e)) \<longleftrightarrow> e \<le> m_Far c"
proof -
  have pos: "0 < e" "0 < slope" "0 < m_AspectRatio c" using assms(1,4,5) by (simp_all add: lens_ok_def)
  have "\<bar>u\<bar> * (m_AspectRatio c * slope * e) \<le> 1 * (m_AspectRatio c * slope * e)" "\<bar>v\<bar> * (slope * e) \<le> 1 * (slope * e)"
    using assms(2,3) pos by (intro mult_right_mono; simp)+
  then have b: "\<bar>u * (m_AspectRatio c * slope * e)\<bar> \<le> m_AspectRatio c * slope * e" "\<bar>b * (v * (slope * e))\<bar> \<le> slope * e"
    using pos assms(6) by (simp_all add: abs_mult)
  show ?thesis unfolding in_sight_def assms(5) [symmetric] Let_def vec3.sel minus_minus using b assms(4) by blast
qed

lemma near_start:
  assumes "0 < n" and "n < (f :: real)"
  shows "n \<le> 2 * (n * f) / (n + f)"
proof -
  have "n * (n + f) \<le> n * (2 * f)" using assms by (intro mult_left_mono) simp_all
  then have "n * (n + f) \<le> 2 * (n * f)" by simp
  then show ?thesis using assms by (simp add: pos_le_divide_eq)
qed

lemma camera_sees:
  assumes "constructed c0" and "config = SetUpCoordSystem False zo"
    and "c = snd (GetProjectionMatrix config (fold (camera_do config) ops c0))" and "lens_ok c" and "mat34_det V \<noteq> 0"
  shows "frustum_IsInside_point (fst (GetFrustum config (ToMatrix4 V) c)) p = INSIDE \<longleftrightarrow> in_sight c (mat34_vec V p)"
    and "0 \<le> x \<Longrightarrow> x \<le> 1 \<Longrightarrow> 0 \<le> y \<Longrightarrow> y \<le> 1 \<Longrightarrow> 0 \<le> t \<Longrightarrow> in_sight c (mat34_vec V (ray_at (GetScreenRay x y (ToMatrix4 V) invertY c) t))
      \<longleftrightarrow> - vz (mat34_vec V (ray_at (GetScreenRay x y (ToMatrix4 V) invertY c) t)) \<le> m_Far c"
proof -
  have c': "c = fold (camera_do config) (ops @ [Op_Projection]) c0" using assms(3) by simp
  have ok: "cache_ok config c" unfolding c' by (rule cache_ok_run [OF constructed_ok [OF assms(1)]])
  have z: "m_Zoom c = 1" "m_ProjectionOffset c = Vec2 0 0" unfolding c' using zoom_run [OF assms(1)] by blast+
  have P: "projection_of config c = Perspective config (m_Near c) (m_Far c) (m_AspectRatio c) (m_Fov c) 0 0 1"
    using assms(4) by (simp add: projection_of_def UpdateProjectionMatrix_def lens_ok_def z)
  have lens: "0 < m_AspectRatio c" "0 < tan (m_Fov c * DEGTORAD * (1 / 2))" "0 < m_Near c" "m_Near c < m_Far c"
    using assms(4) by (simp_all add: lens_ok_def)
  show "frustum_IsInside_point (fst (GetFrustum config (ToMatrix4 V) c)) p = INSIDE \<longleftrightarrow> in_sight c (mat34_vec V p)"
    unfolding GetFrustum_current [OF ok] P unfolding assms(2) in_sight_def
    using camera_frustum_inside [OF assms(5) lens(1) _ lens(2-4), of 1] by (simp add: Let_def)
  assume xy: "0 \<le> x" "x \<le> 1" "0 \<le> y" "y \<le> 1" "0 \<le> t"
  have cache: "m_ProjMatrix c = Perspective (SetUpCoordSystem False zo) (m_Near c) (m_Far c) (m_AspectRatio c) (m_Fov c) 0 0 1"
  proof -
    have "cache_ok config (fold (camera_do config) ops c0)" by (rule cache_ok_run [OF constructed_ok [OF assms(1)]])
    from GetProjectionMatrix_current(2,3) [OF this] have "m_ProjMatrix c = projection_of config c" unfolding assms(3) by simp
    then show ?thesis using P assms(2) by simp
  qed
  obtain k where k: "0 < k" "\<And>t. mat34_vec V (ray_at (GetScreenRay x y (ToMatrix4 V) invertY c) t) =
    (let slope = tan (m_Fov c * DEGTORAD * (1 / 2)) / 1; e = (if zo then m_Near c else 2 * (m_Near c * m_Far c) / (m_Near c + m_Far c)) + k * t;
         Y = (if invertY then - (2 * y - 1) else 2 * y - 1)
     in Vec3 ((2 * x - 1) * (m_AspectRatio c * slope * e)) ((if zo then - 1 else 1) * (Y * (slope * e))) (- e))"
    using perspective_screen_ray [OF assms(5) lens(1) _ lens(2-4) cache, of x y invertY] by auto
  define e where "e = (if zo then m_Near c else 2 * (m_Near c * m_Far c) / (m_Near c + m_Far c)) + k * t"
  have "0 \<le> k * t" using k(1) xy(5) by simp
  then have e: "m_Near c \<le> e" using near_start [OF lens(3,4)] by (simp add: e_def)
  have b: "\<bar>2 * x - 1\<bar> \<le> 1" "\<bar>if invertY then - (2 * y - 1) else 2 * y - 1\<bar> \<le> 1" "\<bar>if zo then - 1 else 1 :: real\<bar> = 1" using xy by (auto simp: abs_le_iff)
  show "in_sight c (mat34_vec V (ray_at (GetScreenRay x y (ToMatrix4 V) invertY c) t))
      \<longleftrightarrow> - vz (mat34_vec V (ray_at (GetScreenRay x y (ToMatrix4 V) invertY c) t)) \<le> m_Far c"
    unfolding k(2) Let_def e_def [symmetric] div_by_1 using in_sight_ray [OF assms(4) b(1,2) e refl b(3)] by simp
qed

text \<open>Property C10. Take a camera made by a constructor with arguments, after any calls, and right after \<open>GetProjectionMatrix\<close>, in perspective with a
  sensible lens and a right-handed coordinate system. Then the frustum it returns for an invertible view contains
  exactly the points in sight of the lens it has now, and of a ray through the screen exactly the points up to the far plane.
  Both need the projection to be up to date: the lemma \<open>screen_ray_stale\<close> shows a ray taken before \<open>GetProjectionMatrix\<close>.\<close>

theorem camera_frustum_and_rays:
  assumes "constructed c0" and "config = SetUpCoordSystem False zo"
    and "c = snd (GetProjectionMatrix config (fold (camera_do config) ops c0))" and "lens_ok c" and "mat34_det V \<noteq> 0"
  shows "(frustum_IsInside_point (fst (GetFrustum config (ToMatrix4 V) c)) p = INSIDE \<longleftrightarrow> in_sight c (mat34_vec V p))
    \<and> (0 \<le> x \<and> x \<le> 1 \<and> 0 \<le> y \<and> y \<le> 1 \<and> 0 \<le> t \<longrightarrow>
      (let q = ray_at (GetScreenRay x y (ToMatrix4 V) invertY c) t in
       frustum_IsInside_point (fst (GetFrustum config (ToMatrix4 V) c)) q = INSIDE \<longleftrightarrow> - vz (mat34_vec V q) \<le> m_Far c))"
  using camera_sees [OF assms] unfolding Let_def by simp

theorem camera_frustum_and_rays_witness:
  "frustum_IsInside_point (fst (GetFrustum 9 (ToMatrix4 mat34_id)
    (snd (GetProjectionMatrix 9 (SetAspectRatio 2 (camera_perspective 90 1 100 1)))))) (Vec3 10 (-5) (-7)) = INSIDE"
proof -
  have c: "constructed (camera_perspective 90 1 100 1)" unfolding constructed_def by blast
  have s: "9 = SetUpCoordSystem False True" by (simp add: SetUpCoordSystem_def)
  have f: "snd (GetProjectionMatrix 9 (SetAspectRatio 2 (camera_perspective 90 1 100 1)))
    = snd (GetProjectionMatrix 9 (fold (camera_do 9) [Op_Aspect 2] (camera_perspective 90 1 100 1)))" by simp
  let ?c = "snd (GetProjectionMatrix 9 (SetAspectRatio 2 (camera_perspective 90 1 100 1)))"
  have v: "m_Fov ?c = 90" "m_AspectRatio ?c = 2" "m_Near ?c = 1" "m_Far ?c = 100" "\<not> m_Orthographic ?c"
    by (simp_all add: GetProjectionMatrix_def UpdateProjectionMatrix_def SetAspectRatio_def camera_perspective_def Let_def)
  have t: "tan (90 * DEGTORAD * (1 / 2)) = 1" by (simp add: DEGTORAD_def tan_45)
  have l: "lens_ok ?c" using v(5) unfolding lens_ok_def v(1-4) t by simp
  have d: "mat34_det mat34_id \<noteq> (0 :: real)" by (simp add: mat34_det_def mat34_id_def)
  have "in_sight ?c (mat34_vec mat34_id (Vec3 10 (-5) (-7)))" unfolding in_sight_def v t by (simp add: mat34_id_vec Let_def)
  then show ?thesis using camera_frustum_and_rays [OF c s f l d, of "Vec3 10 (-5) (-7)" 0 0 0 False] by blast
qed

text \<open>A ray taken before the projection was asked for uses the last matrix: here the identity the camera was made with.\<close>

lemma screen_ray_stale: "m_ProjMatrix (SetFOV 60 (camera_perspective 90 1 100 1)) = mat4_id"
  by (simp add: SetFOV_def camera_perspective_def camera_default_def)

text \<open>With a depth range of -1 to 1 the clip depth 0 at which rays start is not the near plane, but far behind it: closer
  things are missed.\<close>

lemma screen_ray_starts_behind:
  assumes "0 < n" and "n < (f :: real)"
  shows "n < 2 * (n * f) / (n + f)"
proof -
  have "n * (n + f) < n * (2 * f)" using assms by (intro mult_strict_left_mono) simp_all
  then have "n * (n + f) < 2 * (n * f)" by simp
  then show ?thesis using assms by (simp add: pos_less_divide_eq)
qed

end
