(* ===== verification/CameraControllers.thy ===== *)
theory CameraControllers
  imports AffineMatrices Projections SceneTransforms Events
begin

text \<open>
  The controllers that move a camera (\<open>Graphics/Camera/CameraController.h\<close>, \<open>EditorCamera.cpp\<close>, \<open>FPSCamera.cpp\<close>,
  \<open>ThirdPersonCamera.cpp\<close>, \<open>Camera2D.cpp\<close>), with the Euler angles of \<open>Maths/Quaternion.cpp\<close> and the directions of
  \<open>Maths/Transform.h\<close>. The virtual methods are cases over the class of the controller; the input state is an argument, and
  the calls on the window are returned.
\<close>

section \<open>Euler angles\<close>

text \<open>The function of the C library, over the reals.\<close>

definition atan2 :: "real \<Rightarrow> real \<Rightarrow> real" where
  "atan2 y x = (if x > 0 then arctan (y / x)
     else if x < 0 then (if y \<ge> 0 then arctan (y / x) + pi else arctan (y / x) - pi)
     else if y > 0 then pi / 2 else if y < 0 then - pi / 2 else 0)"

definition c_pow :: "real \<Rightarrow> real \<Rightarrow> real" where
  "c_pow x y = (if y = 0 then 1 else x powr y)"

definition RADTODEG :: real where "RADTODEG = 1 / DEGTORAD"

definition EulerAngles :: "real quat \<Rightarrow> real vec3" where
  "EulerAngles q =
    (let w = qw q; x = qx q; y = qy q; z = qz q; check = 2 * (- y * z + w * x) in
     if check < - (995 / 1000) then Vec3 (-90) 0 (- atan2 (2 * (x * z - w * y)) (1 - 2 * (y * y + z * z)) * RADTODEG)
     else if check > 995 / 1000 then Vec3 90 0 (atan2 (2 * (x * z - w * y)) (1 - 2 * (y * y + z * z)) * RADTODEG)
     else Vec3 (arcsin check * RADTODEG) (atan2 (2 * (x * z + w * y)) (1 - 2 * (x * x + y * y)) * RADTODEG)
       (atan2 (2 * (x * y + w * z)) (1 - 2 * (x * x + z * z)) * RADTODEG))"

definition EulerAnglesToQuaternion :: "real \<Rightarrow> real \<Rightarrow> real \<Rightarrow> real quat" where
  "EulerAnglesToQuaternion x y z = FromEulerAngles x y z"

section \<open>Directions of a transform\<close>

type_synonym xform = "(real mat4, real vec3, real quat) transform"

definition mat4_RotationMatrix :: "real mat4 \<Rightarrow> real mat3" where
  "mat4_RotationMatrix m =
    (let invScale = Vec3 (1 / sqrt (n00 m * n00 m + n10 m * n10 m + n20 m * n20 m))
                      (1 / sqrt (n01 m * n01 m + n11 m * n11 m + n21 m * n21 m))
                      (1 / sqrt (n02 m * n02 m + n12 m * n12 m + n22 m * n22 m))
     in mat3_Scaled (ToMatrix3 m) invScale)"

definition GetWorldOrientation :: "xform \<Rightarrow> real quat" where
  "GetWorldOrientation t = FromRotationMatrix (mat4_RotationMatrix (m_WorldMatrix t))"

definition GetUpDirection :: "xform \<Rightarrow> real vec3" where
  "GetUpDirection t = quat_rotate (GetWorldOrientation t) (Vec3 0 1 0)"

definition GetRightDirection :: "xform \<Rightarrow> real vec3" where
  "GetRightDirection t = quat_rotate (GetWorldOrientation t) (Vec3 1 0 0)"

definition GetForwardDirection :: "xform \<Rightarrow> real vec3" where
  "GetForwardDirection t = quat_rotate (GetWorldOrientation t) (Vec3 0 0 1)"

section \<open>Controllers\<close>

datatype controller_class = BaseController | EditorController bool | FPSController | ThirdPersonController | Controller2D

record controller =
  m_Velocity :: "real vec3"
  m_RotateVelocity :: "real vec2"
  m_FocalPoint :: "real vec3"
  m_ZoomVelocity :: real
  m_CameraSpeed :: real
  m_Distance :: real
  m_ControllerZoom :: real
  m_ControllerOffset :: "real vec2"
  m_PreviousCurserPos :: "real vec2"
  m_Sensitivity :: real
  m_ZoomDampeningFactor :: real
  m_DampeningFactor :: real
  m_RotateDampeningFactor :: real

definition controller_default :: controller where
  "controller_default = \<lparr>m_Velocity = Vec3 0 0 0, m_RotateVelocity = Vec2 0 0, m_FocalPoint = Vec3 0 0 0, m_ZoomVelocity = 0,
     m_CameraSpeed = 0, m_Distance = 0, m_ControllerZoom = 1, m_ControllerOffset = Vec2 0 0, m_PreviousCurserPos = Vec2 0 0, m_Sensitivity = 1 / 10, m_ZoomDampeningFactor = 1 / 100000,
     m_DampeningFactor = 1 / 100000, m_RotateDampeningFactor = 1 / 1000\<rparr>"

definition controller_new :: "controller_class \<Rightarrow> controller" where
  "controller_new k = (case k of
     BaseController \<Rightarrow> controller_default
   | EditorController _ \<Rightarrow> controller_default\<lparr>m_FocalPoint := Vec3 0 0 0, m_Velocity := Vec3 0 0 0, m_Sensitivity := 1 / 100000,
       m_ZoomDampeningFactor := 1 / 100000, m_DampeningFactor := 1 / 100000, m_RotateDampeningFactor := 1 / 10000000\<rparr>
   | FPSController \<Rightarrow> controller_default
   | ThirdPersonController \<Rightarrow> controller_default\<lparr>m_RotateDampeningFactor := 0\<rparr>
   | Controller2D \<Rightarrow> controller_default\<lparr>m_Velocity := Vec3 0 0 0, m_Sensitivity := 5 / 1000\<rparr>)"

definition controller_SetMouseSensitivity :: "real \<Rightarrow> controller \<Rightarrow> controller" where
  "controller_SetMouseSensitivity v c = c\<lparr>m_Sensitivity := v\<rparr>"

definition key_Space :: u32 where "key_Space = 32"
definition key_A :: u32 where "key_A = 65"
definition key_D :: u32 where "key_D = 68"
definition key_E :: u32 where "key_E = 69"
definition key_Q :: u32 where "key_Q = 81"
definition key_S :: u32 where "key_S = 83"
definition key_W :: u32 where "key_W = 87"
definition key_LeftShift :: u32 where "key_LeftShift = 340"
definition button_Right :: u32 where "button_Right = 2"

lemmas key_defs = key_Space_def key_A_def key_D_def key_E_def key_Q_def key_S_def key_W_def key_LeftShift_def

text \<open>The keys that are held change the velocity, one after the other.\<close>

fun held_keys :: "real input \<Rightarrow> (u32 \<times> (real vec3 \<Rightarrow> real vec3)) list \<Rightarrow> real vec3 \<Rightarrow> real vec3 res" where
  "held_keys inp [] v = ok v"
| "held_keys inp ((k, f) # ks) v = rbind (GetKeyHeld k inp) (\<lambda>b. held_keys inp ks (if b then f v else v))"

definition plus_eq :: "real vec3 \<Rightarrow> real \<Rightarrow> real vec3 \<Rightarrow> real vec3" where
  "plus_eq dir speed v = vec_add v (vec_scale dir speed)"

definition minus_eq :: "real vec3 \<Rightarrow> real \<Rightarrow> real vec3 \<Rightarrow> real vec3" where
  "minus_eq dir speed v = vec_sub v (vec_scale dir speed)"

definition vec_Equals3 :: "real vec3 \<Rightarrow> real vec3 \<Rightarrow> real vec3 \<Rightarrow> bool" where
  "vec_Equals3 lhs rhs eps \<longleftrightarrow> vec_le rhs (vec_add lhs eps) \<and> vec_le (vec_sub lhs eps) rhs"

text \<open>The end of every \<open>HandleKeyboard\<close>: the position follows the velocity, which is damped, until it is nearly zero.\<close>

definition glide :: "real \<Rightarrow> controller \<times> xform \<Rightarrow> controller \<times> xform" where
  "glide dt = (\<lambda>(c, t).
    if \<not> vec_Equals3 (m_Velocity c) (Vec3 0 0 0) (Vec3 EPSILON EPSILON EPSILON)
    then (c\<lparr>m_Velocity := vec_scale (m_Velocity c) (c_pow (m_DampeningFactor c) dt)\<rparr>,
          SetLocalPosition (vec_add (m_LocalPosition t) (vec_scale (m_Velocity c) dt)) t)
    else (c, t))"

definition scroll_2d :: "real input \<Rightarrow> real \<Rightarrow> real \<Rightarrow> controller \<Rightarrow> controller res" where
  "scroll_2d inp offset dt c =
    rbind (GetKeyHeld key_LeftShift inp) (\<lambda>shift.
      let multiplier = (if shift then 10 else 2);
          c = (if offset \<noteq> 0 then c\<lparr>m_ZoomVelocity := m_ZoomVelocity c + dt * offset * multiplier\<rparr> else c)
      in ok (if \<not> Equals_eps (m_ZoomVelocity c) 0 EPSILON
             then (let scale = 1 - m_ZoomVelocity c in
               if scale < 15 / 100 then c\<lparr>m_ZoomVelocity := 0\<rparr>
               else c\<lparr>m_ZoomVelocity := m_ZoomVelocity c * c_pow (m_ZoomDampeningFactor c) dt\<rparr>)
             else c))"

definition scroll_3d :: "real \<Rightarrow> real \<Rightarrow> controller \<times> xform \<Rightarrow> controller \<times> xform" where
  "scroll_3d offset dt = (\<lambda>(c, t).
    let c = (if offset \<noteq> 0 then c\<lparr>m_ZoomVelocity := m_ZoomVelocity c - dt * offset * 10\<rparr> else c)
    in if \<not> Equals_eps (m_ZoomVelocity c) 0 EPSILON
       then (c\<lparr>m_ZoomVelocity := m_ZoomVelocity c * c_pow (m_ZoomDampeningFactor c) dt\<rparr>,
             SetLocalPosition (vec_add (m_LocalPosition t) (vec_scale (GetForwardDirection t) (m_ZoomVelocity c))) t)
       else (c, t))"

definition UpdateScroll :: "controller_class \<Rightarrow> real input \<Rightarrow> real \<Rightarrow> real \<Rightarrow> controller \<times> xform \<Rightarrow> (controller \<times> xform) res" where
  "UpdateScroll k inp offset dt ct = (case k of
     EditorController True \<Rightarrow> rbind (scroll_2d inp offset dt (fst ct)) (\<lambda>c. ok (c, snd ct))
   | EditorController False \<Rightarrow> ok (scroll_3d offset dt ct)
   | Controller2D \<Rightarrow> rbind (scroll_2d inp offset dt (fst ct)) (\<lambda>c. ok (c, snd ct))
   | _ \<Rightarrow> ok ct)"

section \<open>The mouse\<close>

definition drag_2d :: "real \<Rightarrow> real \<Rightarrow> controller \<Rightarrow> xform \<Rightarrow> xform" where
  "drag_2d xpos ypos c t =
    (let position = m_LocalPosition t;
         position = Vec3 (vx position - (xpos - px (m_PreviousCurserPos c)) * m_Sensitivity c * (1 / 2)) (vy position) (vz position);
         position = Vec3 (vx position) (vy position + (ypos - py (m_PreviousCurserPos c)) * m_Sensitivity c * (1 / 2)) (vz position)
     in SetLocalPosition position t)"

definition damp_rotation :: "real \<Rightarrow> controller \<Rightarrow> controller" where
  "damp_rotation dt c = c\<lparr>m_RotateVelocity := vec2_scale (m_RotateVelocity c) (c_pow (m_RotateDampeningFactor c) dt)\<rparr>"

definition add_rotation :: "real \<Rightarrow> real \<Rightarrow> controller \<Rightarrow> controller" where
  "add_rotation xpos ypos c = c\<lparr>m_RotateVelocity := vec2_add (m_RotateVelocity c)
     (vec2_scale (Vec2 (xpos - px (m_PreviousCurserPos c)) (ypos - py (m_PreviousCurserPos c))) (m_Sensitivity c))\<rparr>"

definition editor_mouse :: "bool \<Rightarrow> bool \<Rightarrow> real \<Rightarrow> real \<Rightarrow> controller \<times> xform \<Rightarrow> controller \<times> xform" where
  "editor_mouse mode2D held xpos ypos = (\<lambda>(c, t).
    if mode2D
    then (if held then (let c = c\<lparr>m_Sensitivity := 5 / 10000\<rparr> in (c, drag_2d xpos ypos c t)) else (c, t))
    else (let c = (if held then add_rotation xpos ypos (c\<lparr>m_Sensitivity := 2 / 100\<rparr>) else c);
              euler = EulerAngles (m_LocalOrientation t);
              pitch = vx euler - py (m_RotateVelocity c); yaw = vy euler - px (m_RotateVelocity c);
              pitch = Min pitch 84; pitch = Max pitch (-84)
          in (c\<lparr>m_PreviousCurserPos := Vec2 xpos ypos\<rparr>, SetLocalOrientation (EulerAnglesToQuaternion pitch yaw 0) t)))"

text \<open>The result has the positions the window was told to put the cursor at.\<close>

definition fps_mouse :: "real \<Rightarrow> real \<Rightarrow> controller \<times> xform \<Rightarrow> controller \<times> xform \<times> real vec2 list" where
  "fps_mouse xpos ypos = (\<lambda>(c, t).
    let windowCentre = Vec2 0 0; xpos = xpos - px windowCentre; ypos = ypos - py windowCentre;
        euler = EulerAngles (m_LocalOrientation t); pitch = vx euler; yaw = vy euler;
        pitch = pitch - ypos * m_Sensitivity c; yaw = yaw - xpos * m_Sensitivity c
    in (c\<lparr>m_PreviousCurserPos := Vec2 xpos ypos\<rparr>, SetLocalOrientation (EulerAnglesToQuaternion pitch yaw (vz euler)) t, [windowCentre]))"

definition third_person_mouse :: "bool \<Rightarrow> real \<Rightarrow> real \<Rightarrow> real \<Rightarrow> controller \<times> xform \<Rightarrow> controller \<times> xform" where
  "third_person_mouse held dt xpos ypos = (\<lambda>(c, t).
    let (c, t) = (if held
          then (let c = add_rotation xpos ypos (c\<lparr>m_Sensitivity := 1 / 10\<rparr>); euler = EulerAngles (m_LocalOrientation t);
                    pitch = vx euler - py (m_RotateVelocity c); yaw = vy euler - px (m_RotateVelocity c);
                    yaw = (if yaw < 0 then yaw + 360 else yaw); yaw = (if yaw > 360 then yaw - 360 else yaw)
                in (c, SetLocalOrientation (EulerAnglesToQuaternion pitch yaw (vz euler)) t))
          else (c, t))
    in (damp_rotation dt (c\<lparr>m_PreviousCurserPos := Vec2 xpos ypos\<rparr>), t))"

definition HandleMouse ::
    "controller_class \<Rightarrow> real input \<Rightarrow> real \<Rightarrow> real \<Rightarrow> real \<Rightarrow> controller \<times> xform \<Rightarrow> (controller \<times> xform \<times> real vec2 list) res" where
  "HandleMouse k inp dt xpos ypos ct = (case k of
     BaseController \<Rightarrow> ok (fst ct, snd ct, [])
   | EditorController mode2D \<Rightarrow>
       rbind (GetMouseHeld button_Right inp) (\<lambda>held.
         let ct = editor_mouse mode2D held xpos ypos ct; ct = (damp_rotation dt (fst ct), snd ct)
         in rbind (UpdateScroll k inp (m_ScrollOffset inp) dt ct) (\<lambda>ct. ok (fst ct, snd ct, [])))
   | FPSController \<Rightarrow>
       (if m_WindowFocus inp
        then (let (c, t, calls) = fps_mouse xpos ypos ct in
          rbind (UpdateScroll k inp (m_ScrollOffset inp) dt (c, t)) (\<lambda>ct. ok (fst ct, snd ct, calls)))
        else ok (fst ct, snd ct, []))
   | ThirdPersonController \<Rightarrow>
       rbind (GetMouseHeld button_Right inp) (\<lambda>held.
         rbind (UpdateScroll k inp (m_ScrollOffset inp) dt (third_person_mouse held dt xpos ypos ct)) (\<lambda>ct. ok (fst ct, snd ct, [])))
   | Controller2D \<Rightarrow>
       rbind (GetMouseHeld button_Right inp) (\<lambda>held.
         let (c, t) = ct; t = (if held then drag_2d xpos ypos c t else t) in ok (c\<lparr>m_PreviousCurserPos := Vec2 xpos ypos\<rparr>, t, [])))"

section \<open>The keyboard\<close>

definition keys_2d :: "real \<Rightarrow> (u32 \<times> (real vec3 \<Rightarrow> real vec3)) list" where
  "keys_2d speed = (let up = Vec3 0 1 0; right = Vec3 1 0 0 in
     [(key_A, minus_eq right speed), (key_D, plus_eq right speed), (key_W, plus_eq up speed), (key_S, minus_eq up speed)])"

definition keys_3d :: "xform \<Rightarrow> real \<Rightarrow> (u32 \<times> (real vec3 \<Rightarrow> real vec3)) list" where
  "keys_3d t speed =
     [(key_W, minus_eq (GetForwardDirection t) speed), (key_S, plus_eq (GetForwardDirection t) speed),
      (key_A, minus_eq (GetRightDirection t) speed), (key_D, plus_eq (GetRightDirection t) speed),
      (key_Q, minus_eq (GetUpDirection t) speed), (key_E, plus_eq (GetUpDirection t) speed)]"

definition keys_fps :: "xform \<Rightarrow> real \<Rightarrow> (u32 \<times> (real vec3 \<Rightarrow> real vec3)) list" where
  "keys_fps t speed =
     [(key_W, plus_eq (GetForwardDirection t) speed), (key_S, minus_eq (GetForwardDirection t) speed),
      (key_A, minus_eq (GetRightDirection t) speed), (key_D, plus_eq (GetRightDirection t) speed),
      (key_Space, minus_eq (GetUpDirection t) speed), (key_LeftShift, plus_eq (GetUpDirection t) speed)]"

definition steer :: "real input \<Rightarrow> (u32 \<times> (real vec3 \<Rightarrow> real vec3)) list \<Rightarrow> controller \<Rightarrow> controller res" where
  "steer inp ks c = rbind (held_keys inp ks (m_Velocity c)) (\<lambda>v. ok (c\<lparr>m_Velocity := v\<rparr>))"

text \<open>The three-dimensional branch, which the editor's and the third person's controllers share.\<close>

definition keyboard_3d :: "real input \<Rightarrow> real \<Rightarrow> controller \<times> xform \<Rightarrow> (controller \<times> xform) res" where
  "keyboard_3d inp dt = (\<lambda>(c, t).
    rbind (GetKeyHeld key_LeftShift inp) (\<lambda>shift.
      let multiplier = (if shift then 10000 else 1000); c = c\<lparr>m_CameraSpeed := multiplier * dt\<rparr> in
      rbind (GetMouseHeld button_Right inp) (\<lambda>held.
        rbind (if held then steer inp (keys_3d t (m_CameraSpeed c)) c else ok c) (\<lambda>c. ok (glide dt (c, t))))))"

definition keyboard_2d :: "real input \<Rightarrow> real \<Rightarrow> controller \<times> xform \<Rightarrow> (controller \<times> xform) res" where
  "keyboard_2d inp dt = (\<lambda>(c, t).
    let c = c\<lparr>m_CameraSpeed := dt * 20\<rparr> in rbind (steer inp (keys_2d (m_CameraSpeed c)) c) (\<lambda>c. ok (glide dt (c, t))))"

definition HandleKeyboard :: "controller_class \<Rightarrow> real input \<Rightarrow> real \<Rightarrow> controller \<times> xform \<Rightarrow> (controller \<times> xform) res" where
  "HandleKeyboard k inp dt ct = (case k of
     BaseController \<Rightarrow> ok ct
   | EditorController mode2D \<Rightarrow> if mode2D then keyboard_2d inp dt ct else keyboard_3d inp dt ct
   | FPSController \<Rightarrow> (let (c, t) = ct; c = c\<lparr>m_CameraSpeed := 1000 * dt\<rparr> in
       rbind (steer inp (keys_fps t (m_CameraSpeed c)) c) (\<lambda>c. ok (glide dt (c, t))))
   | ThirdPersonController \<Rightarrow> keyboard_3d inp dt ct
   | Controller2D \<Rightarrow> rbind (keyboard_2d inp dt ct) (UpdateScroll k inp (m_ScrollOffset inp) dt))"

section \<open>Angles come back\<close>

lemma atan2_polar:
  assumes "0 < k" and "- pi < a" and "a \<le> pi"
  shows "atan2 (k * sin a) (k * cos a) = a"
proof -
  have q: "k * sin a / (k * cos a) = tan a" using assms(1) by (simp add: tan_def)
  consider (right) "- (pi / 2) < a" "a < pi / 2" | (up) "a = pi / 2" | (down) "a = - (pi / 2)"
    | (left) "pi / 2 < a" | (below) "a < - (pi / 2)" by linarith
  then show ?thesis
  proof cases
    case right
    then have "0 < k * cos a" using assms(1) cos_gt_zero_pi by simp
    then show ?thesis using right by (simp only: atan2_def q if_True arctan_tan)
  next
    case up
    show ?thesis unfolding up using assms(1) by (simp add: atan2_def)
  next
    case down
    show ?thesis unfolding down using assms(1) by (simp add: atan2_def)
  next
    case left
    have r: "- (pi / 2) < a - pi" "a - pi < pi / 2" using left assms(3) by simp_all
    have "cos (a - pi) = - cos a" "sin (a - pi) = - sin a" by (simp_all add: cos_diff sin_diff)
    then have t: "tan (a - pi) = tan a" "0 < - cos a" using cos_gt_zero_pi [OF r] by (simp_all add: tan_def)
    have "k * cos a < 0" using t(2) assms(1) by (simp add: mult_pos_neg)
    moreover have "0 \<le> k * sin a" using assms(1,3) left pi_gt_zero by (intro mult_nonneg_nonneg sin_ge_zero) linarith+
    moreover have "arctan (tan a) = a - pi" unfolding t(1) [symmetric] by (rule arctan_tan [OF r])
    ultimately show ?thesis unfolding atan2_def q by simp
  next
    case below
    have r: "- (pi / 2) < a + pi" "a + pi < pi / 2" using below assms(2) by simp_all
    have "cos (a + pi) = - cos a" "sin (a + pi) = - sin a" by simp_all
    then have t: "tan (a + pi) = tan a" "0 < - cos a" using cos_gt_zero_pi [OF r] by (simp_all add: tan_def)
    have "k * cos a < 0" using t(2) assms(1) by (simp add: mult_pos_neg)
    moreover have "k * sin a < 0"
    proof -
      have "0 < sin (a + pi)" using assms(2) below by (intro sin_gt_zero) simp_all
      then show ?thesis using assms(1) by (simp add: mult_pos_neg)
    qed
    moreover have "arctan (tan a) = a + pi" unfolding t(1) [symmetric] by (rule arctan_tan [OF r])
    ultimately show ?thesis unfolding atan2_def q by simp
  qed
qed

lemma euler_terms:
  fixes p y :: real
  defines "q \<equiv> FromEulerAngles p y 0" and "a \<equiv> p * DEGTORAD" and "b \<equiv> y * DEGTORAD"
  shows "2 * (- qy q * qz q + qw q * qx q) = sin a" "2 * (qx q * qz q + qw q * qy q) = cos a * sin b"
    "1 - 2 * (qx q * qx q + qy q * qy q) = cos a * cos b" "2 * (qx q * qy q + qw q * qz q) = 0" "1 - 2 * (qx q * qx q + qz q * qz q) = cos a"
proof -
  define s c S C where "s = sin (p * DEGTORAD_2)" and "c = cos (p * DEGTORAD_2)" and "S = sin (y * DEGTORAD_2)" and "C = cos (y * DEGTORAD_2)"
  have q: "q = Quat (C * c) (C * s) (S * c) (- (S * s))"
    by (simp add: q_def FromEulerAngles_def s_def c_def S_def C_def Let_def)
  have h: "x * DEGTORAD = 2 * (x * DEGTORAD_2)" for x by (simp add: DEGTORAD_def DEGTORAD_2_def)
  have ab: "sin a = 2 * s * c" "cos a = c * c - s * s" "sin b = 2 * S * C" "cos b = C * C - S * S"
    unfolding a_def b_def h sin_double cos_double s_def c_def S_def C_def power2_eq_square by simp_all
  have one: "s * s = 1 - c * c" "S * S = 1 - C * C"
    using sin_cos_squared_add [of "p * DEGTORAD_2"] sin_cos_squared_add [of "y * DEGTORAD_2"]
    by (simp_all add: s_def c_def S_def C_def power2_eq_square)
  have "S * c * (S * s) + C * c * (C * s) = (S * S + C * C) * (s * c)" by (simp add: algebra_simps)
  then show "2 * (- qy q * qz q + qw q * qx q) = sin a" unfolding q ab one by simp
  show "2 * (qx q * qz q + qw q * qy q) = cos a * sin b" unfolding q ab by (simp add: algebra_simps)
  have "C * s * (C * s) + S * c * (S * c) = C * C * (s * s) + S * S * (c * c)" by (simp add: ac_simps)
  then show "1 - 2 * (qx q * qx q + qy q * qy q) = cos a * cos b" unfolding q ab quat.sel one by (simp add: algebra_simps)
  show "2 * (qx q * qy q + qw q * qz q) = 0" unfolding q by (simp add: algebra_simps)
  have "C * s * (C * s) + S * s * (S * s) = (C * C + S * S) * (s * s)" by (simp add: algebra_simps)
  then show "1 - 2 * (qx q * qx q + qz q * qz q) = cos a" unfolding q ab one by (simp add: one)
qed

lemma deg_rad: "0 < DEGTORAD" "x * DEGTORAD * RADTODEG = x" "90 * DEGTORAD = pi / 2" "180 * DEGTORAD = pi"
  by (simp_all add: DEGTORAD_def RADTODEG_def)

lemma EulerAngles_level:
  assumes "\<bar>p\<bar> < 90" and "\<bar>sin (p * DEGTORAD)\<bar> \<le> 995 / 1000"
  shows "vx (EulerAngles (FromEulerAngles p y 0)) = p" "vz (EulerAngles (FromEulerAngles p y 0)) = 0"
    "- 180 < y \<Longrightarrow> y \<le> 180 \<Longrightarrow> vy (EulerAngles (FromEulerAngles p y 0)) = y"
proof -
  have "- 90 * DEGTORAD < p * DEGTORAD" "p * DEGTORAD < 90 * DEGTORAD" using assms(1) deg_rad(1) by (intro mult_strict_right_mono; simp)+
  then have a: "- (pi / 2) < p * DEGTORAD" "p * DEGTORAD < pi / 2" using deg_rad(3) by simp_all
  have c: "0 < cos (p * DEGTORAD)" by (rule cos_gt_zero_pi [OF a])
  have s: "\<not> sin (p * DEGTORAD) < - (995 / 1000)" "\<not> sin (p * DEGTORAD) > 995 / 1000" using assms(2) by (simp_all add: abs_le_iff)
  have e: "EulerAngles (FromEulerAngles p y 0) = Vec3 (arcsin (sin (p * DEGTORAD)) * RADTODEG)
      (atan2 (cos (p * DEGTORAD) * sin (y * DEGTORAD)) (cos (p * DEGTORAD) * cos (y * DEGTORAD)) * RADTODEG) (atan2 0 (cos (p * DEGTORAD)) * RADTODEG)"
    unfolding EulerAngles_def Let_def euler_terms using s by simp
  show "vx (EulerAngles (FromEulerAngles p y 0)) = p" unfolding e vec3.sel using arcsin_sin a deg_rad(2) by simp
  show "vz (EulerAngles (FromEulerAngles p y 0)) = 0" unfolding e vec3.sel using c by (simp add: atan2_def)
  assume y: "- 180 < y" "y \<le> 180"
  have "- 180 * DEGTORAD < y * DEGTORAD" "y * DEGTORAD \<le> 180 * DEGTORAD"
    using y deg_rad(1) by (intro mult_strict_right_mono mult_right_mono; simp)+
  then have r: "- pi < y * DEGTORAD" "y * DEGTORAD \<le> pi" using deg_rad(4) by simp_all
  show "vy (EulerAngles (FromEulerAngles p y 0)) = y" unfolding e vec3.sel using atan2_polar [OF c r] deg_rad(2) by simp
qed

text \<open>The clamp at 84 degrees keeps clear of the gimbal lock, which the code sees from a sine of 0.995 on.\<close>

lemma sin_subadditive: "0 \<le> a \<Longrightarrow> a \<le> pi / 2 \<Longrightarrow> 0 \<le> b \<Longrightarrow> b \<le> pi / 2 \<Longrightarrow> sin (a + b) \<le> sin a + sin b"
proof -
  assume ab: "0 \<le> a" "a \<le> pi / 2" "0 \<le> b" "b \<le> pi / 2"
  then have "0 \<le> sin a" "0 \<le> sin b" by (intro sin_ge_zero; simp)+
  then have "sin a * cos b \<le> sin a * 1" "cos a * sin b \<le> 1 * sin b" by (intro mult_left_mono mult_right_mono; simp)+
  then show ?thesis by (simp add: sin_add)
qed

lemma sin_84: "sin (84 * DEGTORAD) < 995 / 1000"
proof -
  define x where "x = pi / 60"
  have s: "sin (x + x) \<le> sin x + sin x" "sin (x + x + x) \<le> sin (x + x) + sin x" "sin (x + x + x + x) \<le> sin (x + x + x) + sin x"
    "sin (x + x + x + x + x) \<le> sin (x + x + x + x) + sin x"
    by (intro sin_subadditive; simp add: x_def)+
  have "sin (x + x + x + x + x) = sin (pi / 12)" by (simp add: x_def)
  then have five: "sin (pi / 12) \<le> 5 * sin x" using s by linarith
  have "sin (pi / 6) = 2 * sin (pi / 12) * cos (pi / 12)" using sin_double [of "pi / 12"] by simp
  then have half: "1 / 2 = 2 * sin (pi / 12) * cos (pi / 12)" by (simp add: sin_30)
  have p: "0 < sin (pi / 12)" by (intro sin_gt_zero) simp_all
  have "cos (pi / 12) < cos 0" by (intro cos_monotone_0_pi) simp_all
  then have "2 * sin (pi / 12) * cos (pi / 12) < 2 * sin (pi / 12) * 1" using p by (intro mult_strict_left_mono) simp_all
  then have "1 / 20 < sin x" using half five by linarith
  then have "1 / 20 * (1 / 20) < sin x * sin x" by (intro mult_strict_mono) simp_all
  moreover have "sin (84 * DEGTORAD) = cos (2 * x)"
    unfolding sin_cos_eq by (simp add: x_def DEGTORAD_def)
  moreover have "cos (2 * x) = 1 - 2 * (sin x * sin x)" by (simp add: cos_double_sin power2_eq_square)
  ultimately show ?thesis by simp
qed

lemma pitch_in_range:
  assumes "\<bar>p\<bar> \<le> 84"
  shows "\<bar>p\<bar> < 90" "\<bar>sin (p * DEGTORAD)\<bar> \<le> 995 / 1000"
proof -
  show "\<bar>p\<bar> < 90" using assms by simp
  have "- 84 * DEGTORAD \<le> p * DEGTORAD" "p * DEGTORAD \<le> 84 * DEGTORAD" using assms deg_rad(1) by (intro mult_right_mono; simp)+
  moreover have "84 * DEGTORAD \<le> pi / 2" by (simp add: DEGTORAD_def)
  ultimately have "sin (p * DEGTORAD) \<le> sin (84 * DEGTORAD)" "sin (- (84 * DEGTORAD)) \<le> sin (p * DEGTORAD)"
    by (intro sin_monotone_2pi_le; simp)+
  then show "\<bar>sin (p * DEGTORAD)\<bar> \<le> 995 / 1000" using sin_84 by (simp add: abs_le_iff)
qed

lemma clamp_pitch: "\<bar>Max (Min p 84) (- 84)\<bar> \<le> (84 :: real)"
  by (simp add: Max_def Min_def)

text \<open>A yaw beyond half a turn reads back as the same direction between -180 and 180 degrees.\<close>

definition wrap_degrees :: "real \<Rightarrow> real" where
  "wrap_degrees y = y - 360 * real_of_int (\<lceil>(y - 180) / 360\<rceil>)"

lemma wrap_degrees: "- 180 < wrap_degrees y" "wrap_degrees y \<le> 180" "- 180 < y \<Longrightarrow> y \<le> 180 \<Longrightarrow> wrap_degrees y = y"
proof -
  define n where "n = real_of_int \<lceil>(y - 180) / 360\<rceil>"
  have "(y - 180) / 360 \<le> n" "n < (y - 180) / 360 + 1" unfolding n_def by linarith+
  then have "y - 180 \<le> 360 * n" "360 * n < y + 180" by (simp_all add: field_simps)
  then show "- 180 < wrap_degrees y" "wrap_degrees y \<le> 180" unfolding wrap_degrees_def n_def [symmetric] by simp_all
  assume "- 180 < y" "y \<le> 180"
  then have "\<lceil>(y - 180) / 360\<rceil> = 0" by (simp add: ceiling_eq_iff field_simps)
  then show "wrap_degrees y = y" by (simp add: wrap_degrees_def)
qed

lemma wrap_degrees_turn: "sin (wrap_degrees y * DEGTORAD) = sin (y * DEGTORAD)" "cos (wrap_degrees y * DEGTORAD) = cos (y * DEGTORAD)"
proof -
  define n where "n = - \<lceil>(y - 180) / 360\<rceil>"
  have "360 * DEGTORAD = 2 * pi" by (simp add: DEGTORAD_def)
  then have w: "wrap_degrees y * DEGTORAD = y * DEGTORAD + 2 * pi * real_of_int n"
    by (simp add: wrap_degrees_def n_def left_diff_distrib)
  show "sin (wrap_degrees y * DEGTORAD) = sin (y * DEGTORAD)" "cos (wrap_degrees y * DEGTORAD) = cos (y * DEGTORAD)"
    unfolding w sin_add cos_add by (simp_all add: sin_int_2pin cos_int_2pin)
qed

lemma EulerAngles_upright:
  assumes "\<bar>p\<bar> \<le> 84"
  shows "EulerAngles (FromEulerAngles p y 0) = Vec3 p (wrap_degrees y) 0"
proof -
  note r = pitch_in_range [OF assms]
  have s: "\<not> sin (p * DEGTORAD) < - (995 / 1000)" "\<not> sin (p * DEGTORAD) > 995 / 1000" using r(2) by (simp_all add: abs_le_iff)
  have "vy (EulerAngles (FromEulerAngles p y 0)) = vy (EulerAngles (FromEulerAngles p (wrap_degrees y) 0))"
    unfolding EulerAngles_def Let_def euler_terms wrap_degrees_turn using s by simp
  then show ?thesis
    using EulerAngles_level(1,2) [OF r, of y] EulerAngles_level(3) [OF r wrap_degrees(1,2)] by (simp add: vec3.expand)
qed

text \<open>Property C36. The editor's camera stays upright. In its three-dimensional mode, whatever the camera was turned to before, after the
  mouse is handled the orientation has the old pitch less the turn of the mouse, clamped to 84 degrees, the old yaw less the turn of the
  mouse, and no roll; reading the Euler angles of that orientation gives these angles back, the yaw wrapped into half a turn to
  either side. In its two-dimensional mode the orientation stays as it was.\<close>

theorem editor_camera_stays_upright:
  assumes "HandleMouse (EditorController mode2D) inp dt xpos ypos (c, t) = ok (c', t', calls)"
  shows "if mode2D then m_LocalOrientation t' = m_LocalOrientation t
    else \<exists>held. GetMouseHeld button_Right inp = ok held
      \<and> (let turn = m_RotateVelocity (if held then add_rotation xpos ypos (c\<lparr>m_Sensitivity := 2 / 100\<rparr>) else c);
              old = EulerAngles (m_LocalOrientation t);
              pitch = max (- 84) (min 84 (vx old - py turn)); yaw = vy old - px turn
         in m_LocalOrientation t' = FromEulerAngles pitch yaw 0
            \<and> EulerAngles (m_LocalOrientation t') = Vec3 pitch (wrap_degrees yaw) 0)"
proof -
  have scroll: "m_LocalOrientation (snd (scroll_3d off dt ct)) = m_LocalOrientation (snd ct)" for off ct
    by (cases ct) (simp add: scroll_3d_def Let_def SetLocalPosition_def)
  obtain held where held: "GetMouseHeld button_Right inp = ok held"
    using assms by (cases "GetMouseHeld button_Right inp") (simp_all add: HandleMouse_def)
  show ?thesis
  proof (cases mode2D)
    case True
    with assms held show ?thesis
      by (auto simp: HandleMouse_def UpdateScroll_def Let_def rbind_eq_Inr editor_mouse_def drag_2d_def SetLocalPosition_def split: if_splits)
  next
    case False
    let ?e = "editor_mouse False held xpos ypos (c, t)"
    have "snd (scroll_3d (m_ScrollOffset inp) dt (damp_rotation dt (fst ?e), snd ?e)) = t'"
      using assms held False by (simp add: HandleMouse_def UpdateScroll_def Let_def)
    then have o': "m_LocalOrientation t' = m_LocalOrientation (snd ?e)"
      using scroll [of "m_ScrollOffset inp" "(damp_rotation dt (fst ?e), snd ?e)"] by simp
    have "\<bar>max (- 84) (min 84 p)\<bar> \<le> (84 :: real)" "Max (Min p 84) (- 84) = max (- 84) (min 84 p)" for p :: real
      by (auto simp: Max_def Min_def)
    then show ?thesis
      unfolding o' using False held EulerAngles_upright
      by (simp add: editor_mouse_def Let_def EulerAnglesToQuaternion_def SetLocalOrientation_def)
  qed
qed

definition start_transform :: xform where
  "start_transform = \<lparr>m_LocalMatrix = mat4_id, m_WorldMatrix = mat4_id, m_LocalPosition = 0, m_LocalScale = Vec3 1 1 1,
     m_LocalOrientation = quat_id, m_HasUpdated = False, m_Dirty = False\<rparr>"

theorem editor_camera_stays_upright_witness:
  "\<exists>c' t'. HandleMouse (EditorController False) (input_new (0, 0)) (1 / 60) 300 9000
        (controller_new (EditorController False)\<lparr>m_RotateVelocity := Vec2 (- 190) 90\<rparr>, start_transform)
      = ok (c', t', []) \<and> EulerAngles (m_LocalOrientation t') = Vec3 (- 84) (- 170) 0"
proof -
  let ?ct = "(controller_new (EditorController False)\<lparr>m_RotateVelocity := Vec2 (- 190) 90\<rparr>, start_transform)"
  have m: "GetMouseHeld button_Right (input_new (0 :: real, 0)) = ok False"
    by (simp add: GetMouseHeld_def get_flag_def input_new_def Input_Reset_def button_Right_def MAX_BUTTONS_def)
  then obtain c' t' where h: "HandleMouse (EditorController False) (input_new (0, 0)) (1 / 60) 300 9000 ?ct = ok (c', t', [])"
    by (simp add: HandleMouse_def UpdateScroll_def Let_def)
  have o: "EulerAngles (m_LocalOrientation start_transform) = Vec3 0 0 0"
    by (simp add: start_transform_def quat_id_def EulerAngles_def atan2_def)
  have "\<lceil>(10 :: real) / 360\<rceil> = 1" by (simp add: ceiling_eq_iff)
  then have w: "wrap_degrees 190 = - 170" by (simp add: wrap_degrees_def)
  show ?thesis using editor_camera_stays_upright [OF h] m o w h by (auto simp: Let_def)
qed

section \<open>Coming to rest\<close>

definition nearly_zero :: "real vec3 \<Rightarrow> bool" where
  "nearly_zero v \<longleftrightarrow> vec_Equals3 v (Vec3 0 0 0) (Vec3 EPSILON EPSILON EPSILON)"

lemma nearly_zero_iff: "nearly_zero v \<longleftrightarrow> \<bar>vx v\<bar> \<le> EPSILON \<and> \<bar>vy v\<bar> \<le> EPSILON \<and> \<bar>vz v\<bar> \<le> EPSILON"
  by (auto simp: nearly_zero_def vec_Equals3_def vec_le_def vec_add_def vec_sub_def abs_le_iff)

text \<open>One frame: \<open>Scene::OnUpdate\<close> and the editor let the controller handle the mouse, at the position of the input state, and then the
  keyboard. \<open>world\<close> is the world matrix that the scene graph gave the camera since the last frame.\<close>

definition controller_frame ::
    "controller_class \<Rightarrow> real \<Rightarrow> real input \<times> real mat4 \<Rightarrow> controller \<times> xform \<Rightarrow> (controller \<times> xform) res" where
  "controller_frame k dt = (\<lambda>(inp, world) (c, t).
     rbind (HandleMouse k inp dt (fst (m_MousePosition inp)) (snd (m_MousePosition inp)) (c, t\<lparr>m_WorldMatrix := world\<rparr>)) (\<lambda>(c, t, calls).
       HandleKeyboard k inp dt (c, t)))"

fun controller_frames ::
    "controller_class \<Rightarrow> real \<Rightarrow> (real input \<times> real mat4) list \<Rightarrow> controller \<times> xform \<Rightarrow> (controller \<times> xform) res" where
  "controller_frames k dt [] ct = ok ct"
| "controller_frames k dt (f # fs) ct = rbind (controller_frame k dt f ct) (controller_frames k dt fs)"

lemma controller_frames_append:
  "controller_frames k dt (fs @ gs) ct = rbind (controller_frames k dt fs ct) (controller_frames k dt gs)"
proof (induction fs arbitrary: ct)
  case (Cons f fs)
  then show ?case by (cases "controller_frame k dt f ct") simp_all
qed simp

text \<open>No key or button is held and the wheel does not turn; the mouse may move.\<close>

definition idle_input :: "real input \<Rightarrow> bool" where
  "idle_input inp \<longleftrightarrow> m_KeyHeld inp = replicate MAX_KEYS False \<and> m_MouseHeld inp = replicate MAX_BUTTONS False \<and> m_ScrollOffset inp = 0"

lemma idle_reads:
  assumes "idle_input inp"
  shows "unat k < MAX_KEYS \<Longrightarrow> GetKeyHeld k inp = ok False" "GetMouseHeld button_Right inp = ok False" "m_ScrollOffset inp = 0"
  using assms by (simp_all add: GetKeyHeld_def GetMouseHeld_def get_flag_def idle_input_def button_Right_def MAX_BUTTONS_def)

lemma idle_keys: "idle_input inp \<Longrightarrow> \<forall>(k, f) \<in> set ks. unat k < MAX_KEYS \<Longrightarrow> held_keys inp ks v = ok v"
  by (induction ks arbitrary: v) (auto simp: idle_reads)

lemma idle_steer:
  assumes "idle_input inp"
  shows "steer inp (keys_2d sp) c = ok c" "steer inp (keys_3d t sp) c = ok c" "steer inp (keys_fps t sp) c = ok c"
proof -
  have k: "\<forall>(k, f) \<in> set (keys_2d sp). unat k < MAX_KEYS" "\<forall>(k, f) \<in> set (keys_3d t sp). unat k < MAX_KEYS"
    "\<forall>(k, f) \<in> set (keys_fps t sp). unat k < MAX_KEYS"
    by (simp_all add: keys_2d_def keys_3d_def keys_fps_def key_defs MAX_KEYS_def Let_def)
  show "steer inp (keys_2d sp) c = ok c" "steer inp (keys_3d t sp) c = ok c" "steer inp (keys_fps t sp) c = ok c"
    unfolding steer_def k [THEN idle_keys [OF assms]] by simp_all
qed

text \<open>What a frame does to the velocity, the zoom and the position of a controller nobody acts on. Only the editor's three-dimensional
  mode moves the camera by the zoom.\<close>

definition no_zoom :: "real \<Rightarrow> bool" where "no_zoom z \<longleftrightarrow> Equals_eps z 0 EPSILON"

definition coasts :: "controller_class \<Rightarrow> real \<Rightarrow> real mat4 \<Rightarrow> controller \<times> xform \<Rightarrow> controller \<times> xform \<Rightarrow> bool" where
  "coasts k dt world = (\<lambda>(c, t) (c', t').
     m_DampeningFactor c' = m_DampeningFactor c \<and> m_ZoomDampeningFactor c' = m_ZoomDampeningFactor c
     \<and> m_Velocity c' = (if nearly_zero (m_Velocity c) then m_Velocity c else vec_scale (m_Velocity c) (c_pow (m_DampeningFactor c) dt))
     \<and> (k = EditorController False \<longrightarrow>
          m_ZoomVelocity c' = (if no_zoom (m_ZoomVelocity c) then m_ZoomVelocity c else m_ZoomVelocity c * c_pow (m_ZoomDampeningFactor c) dt))
     \<and> m_LocalPosition t' = m_LocalPosition t
         + (if k = EditorController False \<and> \<not> no_zoom (m_ZoomVelocity c)
            then vec_scale (GetForwardDirection (t\<lparr>m_WorldMatrix := world\<rparr>)) (m_ZoomVelocity c) else 0)
         + (if nearly_zero (m_Velocity c) then 0 else vec_scale (m_Velocity c) dt))"

lemma mouse_idle:
  assumes "idle_input inp"
  shows "\<exists>c' t' calls. HandleMouse k inp dt xpos ypos (c, t) = ok (c', t', calls)
    \<and> m_DampeningFactor c' = m_DampeningFactor c \<and> m_ZoomDampeningFactor c' = m_ZoomDampeningFactor c \<and> m_Velocity c' = m_Velocity c
    \<and> m_WorldMatrix t' = m_WorldMatrix t
    \<and> (k = EditorController False \<longrightarrow>
          m_ZoomVelocity c' = (if no_zoom (m_ZoomVelocity c) then m_ZoomVelocity c else m_ZoomVelocity c * c_pow (m_ZoomDampeningFactor c) dt))
    \<and> m_LocalPosition t' = (if k = EditorController False \<and> \<not> no_zoom (m_ZoomVelocity c)
          then vec_add (m_LocalPosition t) (vec_scale (GetForwardDirection t) (m_ZoomVelocity c)) else m_LocalPosition t)"
proof -
  have f: "GetForwardDirection (SetLocalOrientation q t) = GetForwardDirection t" for q t
    by (simp add: GetForwardDirection_def GetWorldOrientation_def SetLocalOrientation_def)
  have shift: "GetKeyHeld key_LeftShift inp = ok False" using assms by (simp add: idle_reads key_defs MAX_KEYS_def)
  show ?thesis
  proof (cases k)
    case (EditorController mode2D)
    then show ?thesis
      by (cases mode2D) (auto simp: HandleMouse_def idle_reads [OF assms] UpdateScroll_def scroll_2d_def scroll_3d_def shift Let_def
          editor_mouse_def damp_rotation_def no_zoom_def f, simp_all add: SetLocalOrientation_def SetLocalPosition_def)
  qed (auto simp: HandleMouse_def idle_reads [OF assms] UpdateScroll_def third_person_mouse_def fps_mouse_def damp_rotation_def
      SetLocalOrientation_def Let_def)
qed

lemma keyboard_idle:
  assumes i: "idle_input inp" and k: "k \<noteq> BaseController"
  shows "\<exists>c' t'. HandleKeyboard k inp dt (c, t) = ok (c', t')
    \<and> m_DampeningFactor c' = m_DampeningFactor c \<and> m_ZoomDampeningFactor c' = m_ZoomDampeningFactor c
    \<and> m_Velocity c' = (if nearly_zero (m_Velocity c) then m_Velocity c else vec_scale (m_Velocity c) (c_pow (m_DampeningFactor c) dt))
    \<and> (k = EditorController False \<longrightarrow> m_ZoomVelocity c' = m_ZoomVelocity c)
    \<and> m_LocalPosition t' = m_LocalPosition t + (if nearly_zero (m_Velocity c) then 0 else vec_scale (m_Velocity c) dt)"
proof -
  have shift: "GetKeyHeld key_LeftShift inp = ok False" using i by (simp add: idle_reads key_defs MAX_KEYS_def)
  note defs = HandleKeyboard_def keyboard_3d_def keyboard_2d_def idle_steer [OF i] idle_reads [OF i] shift Let_def glide_def nearly_zero_def
    UpdateScroll_def scroll_2d_def SetLocalPosition_def plus_vec3_def [symmetric]
  show ?thesis
  proof (cases k)
    case (EditorController mode2D)
    then show ?thesis by (cases mode2D) (auto simp: defs)
  qed (use k in \<open>auto simp: defs\<close>)
qed

lemma frame_coasts:
  assumes "idle_input inp" and "k \<noteq> BaseController"
  shows "\<exists>c' t'. controller_frame k dt (inp, world) (c, t) = ok (c', t') \<and> coasts k dt world (c, t) (c', t')"
proof -
  let ?x = "fst (m_MousePosition inp)" and ?y = "snd (m_MousePosition inp)" and ?t = "t\<lparr>m_WorldMatrix := world\<rparr>"
  obtain c1 t1 calls where m: "HandleMouse k inp dt ?x ?y (c, ?t) = ok (c1, t1, calls)"
    "m_DampeningFactor c1 = m_DampeningFactor c" "m_ZoomDampeningFactor c1 = m_ZoomDampeningFactor c" "m_Velocity c1 = m_Velocity c"
    "k = EditorController False \<longrightarrow>
          m_ZoomVelocity c1 = (if no_zoom (m_ZoomVelocity c) then m_ZoomVelocity c else m_ZoomVelocity c * c_pow (m_ZoomDampeningFactor c) dt)"
    "m_LocalPosition t1 = (if k = EditorController False \<and> \<not> no_zoom (m_ZoomVelocity c)
          then vec_add (m_LocalPosition ?t) (vec_scale (GetForwardDirection ?t) (m_ZoomVelocity c)) else m_LocalPosition ?t)"
    using mouse_idle [OF assms(1), of k dt ?x ?y c ?t] by blast
  obtain c2 t2 where "HandleKeyboard k inp dt (c1, t1) = ok (c2, t2)"
    "m_DampeningFactor c2 = m_DampeningFactor c1" "m_ZoomDampeningFactor c2 = m_ZoomDampeningFactor c1"
    "m_Velocity c2 = (if nearly_zero (m_Velocity c1) then m_Velocity c1 else vec_scale (m_Velocity c1) (c_pow (m_DampeningFactor c1) dt))"
    "k = EditorController False \<longrightarrow> m_ZoomVelocity c2 = m_ZoomVelocity c1"
    "m_LocalPosition t2 = m_LocalPosition t1 + (if nearly_zero (m_Velocity c1) then 0 else vec_scale (m_Velocity c1) dt)"
    using keyboard_idle [OF assms, of dt c1 t1] by blast
  with m show ?thesis by (simp add: controller_frame_def coasts_def plus_vec3_def [symmetric])
qed

text \<open>A quantity that shrinks by a factor each frame stops at the first frame that finds it nearly zero.\<close>

lemma stops_at:
  fixes P :: "nat \<Rightarrow> bool"
  assumes "\<exists>n. P n"
  shows "\<exists>N. \<forall>n. P (min n N) \<longleftrightarrow> N \<le> n"
proof -
  define N where "N = (LEAST n. P n)"
  have "P N" using LeastI_ex [OF assms] by (simp add: N_def)
  moreover have "\<not> P n" if "n < N" for n using that not_less_Least [of n P] by (simp add: N_def)
  ultimately have "P (min n N) \<longleftrightarrow> N \<le> n" for n by (cases "N \<le> n") (simp_all add: min_def)
  then show ?thesis by blast
qed

lemma power_below:
  assumes "0 \<le> q" and "q < (1 :: real)" and "0 < e"
  shows "\<exists>n. \<forall>x. \<bar>x\<bar> \<le> m \<longrightarrow> \<bar>x * q ^ n\<bar> \<le> e"
proof -
  define k where "k = \<bar>m\<bar> + 1"
  have k: "0 < k" "m \<le> k" by (simp_all add: k_def)
  then obtain n where "q ^ n < e / k" using real_arch_pow_inv [OF _ assms(2), of "e / k"] assms(3) by auto
  then have n: "k * q ^ n \<le> e" using k(1) by (simp add: field_simps)
  have "\<bar>x * q ^ n\<bar> \<le> e" if "\<bar>x\<bar> \<le> m" for x
  proof -
    have "\<bar>x * q ^ n\<bar> = \<bar>x\<bar> * q ^ n" using assms(1) by (simp add: abs_mult)
    also have "\<dots> \<le> k * q ^ n" using that k(2) assms(1) by (intro mult_right_mono) simp_all
    finally show ?thesis using n by simp
  qed
  then show ?thesis by blast
qed

lemma velocity_vanishes:
  assumes "0 \<le> q" and "q < (1 :: real)"
  shows "\<exists>n. nearly_zero (vec_scale v (q ^ n))"
proof -
  have "(0 :: real) < EPSILON" by (simp add: EPSILON_def)
  from power_below [OF assms this, of "max (max \<bar>vx v\<bar> \<bar>vy v\<bar>) \<bar>vz v\<bar>"] obtain n where
    "\<And>x. \<bar>x\<bar> \<le> max (max \<bar>vx v\<bar> \<bar>vy v\<bar>) \<bar>vz v\<bar> \<Longrightarrow> \<bar>x * q ^ n\<bar> \<le> EPSILON" by blast
  then have "nearly_zero (vec_scale v (q ^ n))" by (simp add: nearly_zero_iff vec_scale_def)
  then show ?thesis by blast
qed

lemma zoom_vanishes:
  assumes "0 \<le> q" and "q < (1 :: real)"
  shows "\<exists>n. no_zoom (z * q ^ n)"
proof -
  have "(0 :: real) < EPSILON" by (simp add: EPSILON_def)
  from power_below [OF assms this, of "\<bar>z\<bar>"] obtain n where "\<bar>z * q ^ n\<bar> \<le> EPSILON" by blast
  then show ?thesis by (intro exI [of _ n]) (simp add: no_zoom_def Equals_eps_def abs_le_iff)
qed

lemma damping_factor:
  assumes "0 \<le> d" and "d < 1" and "0 < dt"
  shows "0 \<le> c_pow d dt" "c_pow d dt < 1"
  using assms powr_less_mono2 [of dt d 1] by (simp_all add: c_pow_def)

text \<open>The whole run, frame by frame, given the frames \<open>N\<close> and \<open>M\<close> at which the velocity and the zoom stop.\<close>

lemma frames_coast:
  fixes c t
  defines "q \<equiv> c_pow (m_DampeningFactor c)" and "r \<equiv> c_pow (m_ZoomDampeningFactor c)" and "v \<equiv> m_Velocity c" and "z \<equiv> m_ZoomVelocity c"
  assumes k: "k \<noteq> BaseController"
    and N: "\<And>n. nearly_zero (vec_scale v (q dt ^ min n N)) \<longleftrightarrow> N \<le> n" and M: "\<And>n. no_zoom (z * r dt ^ min n M) \<longleftrightarrow> M \<le> n"
  shows "list_all (idle_input \<circ> fst) fs \<Longrightarrow> \<exists>c' t'. controller_frames k dt fs (c, t) = ok (c', t')
    \<and> m_DampeningFactor c' = m_DampeningFactor c \<and> m_ZoomDampeningFactor c' = m_ZoomDampeningFactor c
    \<and> m_Velocity c' = vec_scale v (q dt ^ min (length fs) N)
    \<and> (k = EditorController False \<longrightarrow> m_ZoomVelocity c' = z * r dt ^ min (length fs) M)
    \<and> m_LocalPosition t' = m_LocalPosition t + vec_scale v (dt * (\<Sum>i < min (length fs) N. q dt ^ i))
        + (if k = EditorController False
           then \<Sum>i < min (length fs) M. vec_scale (GetForwardDirection (t\<lparr>m_WorldMatrix := snd (fs ! i)\<rparr>)) (z * r dt ^ i) else 0)"
proof (induction fs rule: rev_induct)
  case Nil
  then show ?case by (simp add: v_def z_def vec_scale_def zero_vec3_def [symmetric])
next
  case (snoc f fs)
  let ?n = "length fs"
  have fw: "GetForwardDirection (t1\<lparr>m_WorldMatrix := w\<rparr>) = GetForwardDirection (t2\<lparr>m_WorldMatrix := w\<rparr>)" for t1 t2 w
    by (simp add: GetForwardDirection_def GetWorldOrientation_def)
  obtain inp w where f: "f = (inp, w)" by fastforce
  obtain c1 t1 where c1: "controller_frames k dt fs (c, t) = ok (c1, t1)"
    "m_DampeningFactor c1 = m_DampeningFactor c" "m_ZoomDampeningFactor c1 = m_ZoomDampeningFactor c"
    "m_Velocity c1 = vec_scale v (q dt ^ min ?n N)" "k = EditorController False \<longrightarrow> m_ZoomVelocity c1 = z * r dt ^ min ?n M"
    "m_LocalPosition t1 = m_LocalPosition t + vec_scale v (dt * (\<Sum>i < min ?n N. q dt ^ i))
        + (if k = EditorController False
           then \<Sum>i < min ?n M. vec_scale (GetForwardDirection (t\<lparr>m_WorldMatrix := snd (fs ! i)\<rparr>)) (z * r dt ^ i) else 0)"
    using snoc by auto
  obtain c2 t2 where c2: "controller_frame k dt (inp, w) (c1, t1) = ok (c2, t2)" "coasts k dt w (c1, t1) (c2, t2)"
    using frame_coasts [OF _ k, of inp dt w c1 t1] snoc.prems f by auto
  have vz: "nearly_zero (m_Velocity c1) \<longleftrightarrow> N \<le> ?n" unfolding c1(4) by (rule N)
  have zz: "no_zoom (m_ZoomVelocity c1) \<longleftrightarrow> M \<le> ?n" if "k = EditorController False" using c1(5) M that by simp
  have v2: "m_Velocity c2 = vec_scale v (q dt ^ min (Suc ?n) N)"
    using c2(2) vz c1(2,4) by (cases "N \<le> ?n") (auto simp: coasts_def q_def min_def vec_scale_def not_le Suc_le_eq ac_simps)
  have z2: "m_ZoomVelocity c2 = z * r dt ^ min (Suc ?n) M" if "k = EditorController False"
    using c2(2) zz [OF that] c1(3,5) that by (cases "M \<le> ?n") (auto simp: coasts_def r_def min_def not_le Suc_le_eq)
  have sumv: "vec_scale v (dt * (\<Sum>i < min ?n N. q dt ^ i)) + (if N \<le> ?n then 0 else vec_scale (vec_scale v (q dt ^ min ?n N)) dt)
      = vec_scale v (dt * (\<Sum>i < min (Suc ?n) N. q dt ^ i))"
    by (cases "N \<le> ?n") (simp_all add: min_def not_le Suc_le_eq vec_scale_def plus_vec3_def zero_vec3_def vec_add_def algebra_simps)
  have sumz: "(\<Sum>i < min ?n M. vec_scale (GetForwardDirection (t\<lparr>m_WorldMatrix := snd (fs ! i)\<rparr>)) (z * r dt ^ i))
        + (if M \<le> ?n then 0 else vec_scale (GetForwardDirection (t\<lparr>m_WorldMatrix := w\<rparr>)) (z * r dt ^ min ?n M))
      = (\<Sum>i < min (Suc ?n) M. vec_scale (GetForwardDirection (t\<lparr>m_WorldMatrix := snd ((fs @ [f]) ! i)\<rparr>)) (z * r dt ^ i))"
    by (cases "M \<le> ?n") (simp_all add: min_def not_le Suc_le_eq nth_append f)
  have "m_LocalPosition t2 = m_LocalPosition t + vec_scale v (dt * (\<Sum>i < min (Suc ?n) N. q dt ^ i))
      + (if k = EditorController False
         then \<Sum>i < min (Suc ?n) M. vec_scale (GetForwardDirection (t\<lparr>m_WorldMatrix := snd ((fs @ [f]) ! i)\<rparr>)) (z * r dt ^ i) else 0)"
    unfolding sumv [symmetric] sumz [symmetric]
    using c2(2) vz zz c1(4,5,6) fw [of w t1 t]
    by (cases "N \<le> ?n"; cases "M \<le> ?n"; cases "k = EditorController False") (simp_all add: coasts_def ac_simps)
  then show ?case using c1 c2 v2 z2 f by (simp add: controller_frames_append coasts_def)
qed

text \<open>Property C37. While no key or button is held and the wheel is still, every controller but the base one comes to rest, whatever the
  mouse, the window and the scene graph do in the meantime: after \<open>n\<close> frames of equal length the position has moved by the
  velocity, which the damping shrinks by the same factor each frame, and in the editor's three-dimensional mode along the
  camera's view by the zoom, which shrinks likewise; from some frame on neither moves it any more.\<close>

theorem camera_comes_to_rest:
  assumes "k \<noteq> BaseController" and "0 < dt" and "0 \<le> m_DampeningFactor c" and "m_DampeningFactor c < 1"
    and "0 \<le> m_ZoomDampeningFactor c" and "m_ZoomDampeningFactor c < 1"
  shows "\<exists>N M. \<forall>fs. list_all (idle_input \<circ> fst) fs \<longrightarrow> (\<exists>c' t'. controller_frames k dt fs (c, t) = ok (c', t')
    \<and> m_LocalPosition t' = m_LocalPosition t
        + vec_scale (m_Velocity c) (dt * (\<Sum>i < min (length fs) N. c_pow (m_DampeningFactor c) dt ^ i))
        + (if k = EditorController False
           then \<Sum>i < min (length fs) M. vec_scale (GetForwardDirection (t\<lparr>m_WorldMatrix := snd (fs ! i)\<rparr>))
               (m_ZoomVelocity c * c_pow (m_ZoomDampeningFactor c) dt ^ i)
           else 0))"
proof -
  obtain N where N: "\<And>n. nearly_zero (vec_scale (m_Velocity c) (c_pow (m_DampeningFactor c) dt ^ min n N)) \<longleftrightarrow> N \<le> n"
    using stops_at [OF velocity_vanishes [OF damping_factor [OF assms(3,4,2)]]] by blast
  obtain M where M: "\<And>n. no_zoom (m_ZoomVelocity c * c_pow (m_ZoomDampeningFactor c) dt ^ min n M) \<longleftrightarrow> M \<le> n"
    using stops_at [OF zoom_vanishes [OF damping_factor [OF assms(5,6,2)]]] by blast
  from frames_coast [OF assms(1) N M] show ?thesis by blast
qed

theorem camera_comes_to_rest_witness:
  "\<exists>N M. \<forall>fs. list_all (idle_input \<circ> fst) fs \<longrightarrow> (\<exists>c' t'. controller_frames (EditorController False) 1 fs
      (controller_new (EditorController False)\<lparr>m_Velocity := Vec3 4 0 0, m_ZoomVelocity := 2\<rparr>, start_transform) = ok (c', t')
    \<and> m_LocalPosition t' = 0 + vec_scale (Vec3 4 0 0) (\<Sum>i<min (length fs) N. (1 / 100000) ^ i)
       + (\<Sum>i<min (length fs) M. vec_scale (GetForwardDirection (start_transform\<lparr>m_WorldMatrix := snd (fs ! i)\<rparr>)) (2 * (1 / 100000) ^ i)))"
  using camera_comes_to_rest [of "EditorController False" 1 "controller_new (EditorController False)\<lparr>m_Velocity := Vec3 4 0 0, m_ZoomVelocity := 2\<rparr>"
      start_transform]
  by (simp add: controller_new_def controller_default_def start_transform_def c_pow_def)

section \<open>Two slips of the controllers\<close>

text \<open>A camera looks along its negative z axis; the other controllers walk there on W, the first person's walks backwards.\<close>

lemma start_forward: "GetForwardDirection start_transform = Vec3 0 0 1"
proof -
  have "sqrt (4 :: real) = 2" by (rule real_sqrt_unique) simp_all
  then show ?thesis
    by (simp add: GetForwardDirection_def GetWorldOrientation_def mat4_RotationMatrix_def start_transform_def mat4_id_def mat3_Scaled_def
        ToMatrix3_def FromRotationMatrix_def quat_rotate_def CrossProduct_def vec_add_def vec_scale_def Let_def)
qed

lemma fps_walks_backwards:
  assumes "GetKeyHeld key_W inp = ok True" and "list_all (\<lambda>k. GetKeyHeld k inp = ok False) [key_S, key_A, key_D, key_Q, key_E, key_Space, key_LeftShift]"
  shows "steer inp (keys_fps start_transform 1) c = ok (c\<lparr>m_Velocity := vec_add (m_Velocity c) (Vec3 0 0 1)\<rparr>)"
    "steer inp (keys_3d start_transform 1) c = ok (c\<lparr>m_Velocity := vec_sub (m_Velocity c) (Vec3 0 0 1)\<rparr>)"
  using assms by (simp_all add: steer_def keys_fps_def keys_3d_def start_forward plus_eq_def minus_eq_def) (simp_all add: vec_scale_def)

text \<open>The editor's two-dimensional mode never takes down where the cursor was: holding the mouse still moves the camera every frame.\<close>

lemma editor_2d_drag_repeats:
  assumes "(c1, t1) = editor_mouse True True xpos ypos (c, t)" and "(c2, t2) = editor_mouse True True xpos ypos (c1, t1)"
  shows "vx (m_LocalPosition t2) - vx (m_LocalPosition t1) = vx (m_LocalPosition t1) - vx (m_LocalPosition t)"
    "vx (m_LocalPosition t1) - vx (m_LocalPosition t) = - (xpos - px (m_PreviousCurserPos c)) / 4000"
  using assms by (simp_all add: editor_mouse_def drag_2d_def SetLocalPosition_def Let_def diff_divide_distrib)

end
