(* ===== verification/Resources.thy ===== *)
theory Resources
  imports RefCounting "HOL-Library.Multiset"
begin

text \<open>
  The resource manager and the shader library (\<open>Utilities/AssetManager.h\<close>) over the heap of counted references. The map
  from names to resources is the list of its entries in the order it is walked. The \<open>std::function\<close> members are options;
  calling an empty one throws. A handle returned to a client is a reference the client owns.
\<close>

section \<open>The resource manager\<close>

record resource =
  timeSinceReload :: int
  res_data :: reference
  onDisk :: bool

record manager =
  m_nameResourceMap :: "(string \<times> resource) list"
  m_loadFunc :: "(string \<Rightarrow> heap \<Rightarrow> (bool \<times> reference \<times> heap) res) option"
  m_releaseFunc :: "(reference \<Rightarrow> heap \<Rightarrow> (reference \<times> heap) res) option"
  m_reloadFunc :: "(string \<Rightarrow> reference \<Rightarrow> heap \<Rightarrow> (bool \<times> reference \<times> heap) res) option"
  m_getIdFunc :: "(reference \<Rightarrow> string) option"

definition manager_new :: manager where
  "manager_new = \<lparr>m_nameResourceMap = [], m_loadFunc = None, m_releaseFunc = None, m_reloadFunc = None, m_getIdFunc = None\<rparr>"

definition call_func :: "'a option \<Rightarrow> 'a res" where
  "call_func f = (case f of None \<Rightarrow> fail BadFunctionCall | Some g \<Rightarrow> ok g)"

text \<open>\<open>emplace\<close> of a local resource: its data is assigned from \<open>resourceData\<close>, copied into the map, and destroyed.\<close>

definition emplace_resource :: "string \<Rightarrow> reference \<Rightarrow> bool \<Rightarrow> manager \<Rightarrow> heap \<Rightarrow> (manager \<times> heap) res" where
  "emplace_resource name resourceData disk m h =
    rbind (ref_ref resourceData ref_null h) (\<lambda>(d, h1).
    rbind (ref_copy d h1) (\<lambda>(e, h2).
    rbind (ref_unref d h2) (\<lambda>(d', h3).
      ok (m\<lparr>m_nameResourceMap := m_nameResourceMap m @ [(name, \<lparr>timeSinceReload = 0, res_data = e, onDisk = disk\<rparr>)]\<rparr>, h3))))"

definition GetResource :: "string \<Rightarrow> manager \<Rightarrow> heap \<Rightarrow> (reference \<times> manager \<times> heap) res" where
  "GetResource name m h = (case map_of (m_nameResourceMap m) name of
     Some r \<Rightarrow> rbind (ref_copy (res_data r) h) (\<lambda>(v, h1). ok (v, m, h1))
   | None \<Rightarrow>
       rbind (call_func (m_loadFunc m)) (\<lambda>f.
       rbind (f name h) (\<lambda>(loaded, resourceData, h1).
         if \<not> loaded then rbind (ref_unref resourceData h1) (\<lambda>(v, h2). ok (ref_null, m, h2))
         else rbind (emplace_resource name resourceData True m h1) (\<lambda>(m1, h2). ok (resourceData, m1, h2)))))"

definition GetResource_handle :: "reference \<Rightarrow> manager \<Rightarrow> heap \<Rightarrow> (reference \<times> manager \<times> heap) res" where
  "GetResource_handle handle m h =
    rbind (call_func (m_getIdFunc m)) (\<lambda>f. let newId = f handle in
      case map_of (m_nameResourceMap m) newId of
        None \<Rightarrow> rbind (ref_copy handle h) (\<lambda>(resourceData, h1).
          rbind (emplace_resource newId resourceData False m h1) (\<lambda>(m1, h2). ok (resourceData, m1, h2)))
      | Some r \<Rightarrow> rbind (ref_copy (res_data r) h) (\<lambda>(v, h1). ok (v, m, h1)))"

fun release_entries :: "(reference \<Rightarrow> heap \<Rightarrow> (reference \<times> heap) res) option \<Rightarrow> (string \<times> resource) list \<Rightarrow> heap
    \<Rightarrow> ((string \<times> resource) list \<times> heap) res" where
  "release_entries f [] h = ok ([], h)"
| "release_entries f ((n, r) # es) h =
    rbind (call_func f) (\<lambda>g. rbind (g (res_data r) h) (\<lambda>(d, h1). rbind (release_entries f es h1) (\<lambda>(es', h2).
      ok ((n, r\<lparr>res_data := d\<rparr>) # es', h2))))"

definition manager_Destroy :: "manager \<Rightarrow> heap \<Rightarrow> (manager \<times> heap) res" where
  "manager_Destroy m h = rbind (release_entries (m_releaseFunc m) (m_nameResourceMap m) h) (\<lambda>(es, h1).
     ok (m\<lparr>m_nameResourceMap := es\<rparr>, h1))"

text \<open>Erasing an entry destroys its reference.\<close>

fun update_entries :: "(string \<times> resource) list \<Rightarrow> heap \<Rightarrow> ((string \<times> resource) list \<times> heap) res" where
  "update_entries [] h = ok ([], h)"
| "update_entries ((n, r) # es) h =
    rbind (get_counter (m_Counter (res_data r)) h) (\<lambda>c.
      if rc_GetReferenceCount c = 1
      then rbind (ref_unref (res_data r) h) (\<lambda>(d, h1). update_entries es h1)
      else rbind (update_entries es h) (\<lambda>(es', h1). ok ((n, r) # es', h1)))"

definition manager_Update :: "manager \<Rightarrow> heap \<Rightarrow> (manager \<times> heap) res" where
  "manager_Update m h = rbind (update_entries (m_nameResourceMap m) h) (\<lambda>(es, h1). ok (m\<lparr>m_nameResourceMap := es\<rparr>, h1))"

fun reload_entries :: "(string \<Rightarrow> reference \<Rightarrow> heap \<Rightarrow> (bool \<times> reference \<times> heap) res) option \<Rightarrow> (string \<times> resource) list \<Rightarrow> heap
    \<Rightarrow> ((string \<times> resource) list \<times> heap) res" where
  "reload_entries f [] h = ok ([], h)"
| "reload_entries f ((n, r) # es) h =
    rbind (call_func f) (\<lambda>g. rbind (g n (res_data r) h) (\<lambda>(b, d, h1). rbind (reload_entries f es h1) (\<lambda>(es', h2).
      ok ((n, r\<lparr>timeSinceReload := 0, res_data := d\<rparr>) # es', h2))))"

definition ReloadResources :: "manager \<Rightarrow> heap \<Rightarrow> (bool \<times> manager \<times> heap) res" where
  "ReloadResources m h = rbind (reload_entries (m_reloadFunc m) (m_nameResourceMap m) h) (\<lambda>(es, h1).
     ok (True, m\<lparr>m_nameResourceMap := es\<rparr>, h1))"

definition ResourceExists :: "string \<Rightarrow> manager \<Rightarrow> bool" where
  "ResourceExists name m \<longleftrightarrow> map_of (m_nameResourceMap m) name \<noteq> None"

section \<open>The shader library\<close>

text \<open>\<open>CreateFromFile\<close> allocates a shader; the temporary reference to it is assigned and destroyed.\<close>

definition ShaderLibrary_Load :: "string \<Rightarrow> heap \<Rightarrow> (bool \<times> reference \<times> heap) res" where
  "ShaderLibrary_Load filePath h =
    (let (p, h1) = new_object h; (tmp, h2) = ref_of_ptr (Some p) h1 in
     rbind (ref_ref tmp ref_null h2) (\<lambda>(shader, h3). rbind (ref_unref tmp h3) (\<lambda>(t, h4). ok (True, shader, h4))))"

definition shader_library_new :: manager where
  "shader_library_new = manager_new\<lparr>m_loadFunc := Some ShaderLibrary_Load\<rparr>"

section \<open>References in any order\<close>

lemma uses_mset: "uses c vs = sum_mset (image_mset (\<lambda>v. if m_Counter v = Some c then 1 else 0) (mset vs))"
  unfolding uses_def by (simp add: sum_mset_sum_list [symmetric])

lemma uses_Cons: "uses c (v # vs) = (if m_Counter v = Some c then 1 else 0) + uses c vs"
  by (simp add: uses_def)

lemma counter_ok_cong: "uses c vs = uses c ws \<Longrightarrow> counter_ok vs h c = counter_ok ws h c"
  by (simp add: counter_ok_def split: option.split)

lemma shared_inv_cong:
  assumes "insert ref_null (set vs) = insert ref_null (set ws)" and "\<And>c. uses c vs = uses c ws"
  shows "shared_inv raw vs h \<longleftrightarrow> shared_inv raw ws h"
proof -
  have "pointed vs p \<longleftrightarrow> (\<exists>v \<in> insert ref_null (set vs). m_Ptr v = Some p)" for vs p
    by (auto simp: pointed_def ref_null_def)
  then have "pointed vs p = pointed ws p" for p using assms(1) by metis
  moreover have "counter_ok vs h c = counter_ok ws h c" for c using assms(2) by (rule counter_ok_cong)
  ultimately show ?thesis using assms(1) by (simp add: shared_inv_def refs_agree_def)
qed

lemma shared_inv_perm: "mset vs = mset ws \<Longrightarrow> shared_inv raw vs h \<longleftrightarrow> shared_inv raw ws h"
proof (rule shared_inv_cong)
  assume e: "mset vs = mset ws"
  show "insert ref_null (set vs) = insert ref_null (set ws)" by (simp only: mset_eq_setD [OF e])
  show "uses c vs = uses c ws" for c unfolding uses_mset e by (rule refl)
qed

lemma shared_inv_null: "shared_inv raw (ref_null # vs) h \<longleftrightarrow> shared_inv raw vs h"
  by (rule shared_inv_cong) (simp_all add: uses_Cons ref_null_def)

lemma unref_head:
  assumes "shared_inv raw (v # vs) h" and "Suc (length vs) < 2 ^ 32"
  shows "\<exists>v' h'. ref_unref v h = ok (v', h') \<and> shared_inv raw vs h'"
  using ref_unref_ok [OF assms(1), of 0] assms(2) by (auto simp: shared_inv_null)

lemma copy_head:
  assumes "shared_inv {} vs h" and "Suc (length vs) < 2 ^ 32" and "w \<in> set vs"
  shows "\<exists>h'. ref_copy w h = ok (w, h') \<and> shared_inv {} (w # vs) h'"
proof (cases "m_Ptr w = None")
  case True
  then have w: "w = ref_null" using refs_agree_null [of vs w] assms by (simp add: shared_inv_def ref_null_def)
  then show ?thesis using assms(1) by (simp add: ref_copy_def ref_ref_def shared_inv_null)
next
  case False
  have "m_Ptr w = None \<longleftrightarrow> m_Counter w = None" using refs_agree_null [of vs w] assms by (simp add: shared_inv_def)
  then have c: "m_Counter w \<noteq> None" using False by blast
  obtain v h' where a: "ref_attach w ref_null h = ok (v, h')" "shared_inv {} (v # vs) h'"
    using ref_attach_ok [of "{}" "ref_null # vs" h 0 w] assms by (auto simp: shared_inv_null)
  have "v = w" using a(1) False c by (cases w; cases "on_counter rc_reference (m_Counter w) h") (auto simp: ref_attach_def)
  moreover have "ref_copy w h = ref_attach w ref_null h"
    using False by (auto simp: ref_copy_def ref_ref_def ref_unref_def ref_null_def)
  ultimately show ?thesis using a by simp
qed

lemma ref_copy_eq: "ref_ref w ref_null h = ref_copy w h"
  by (simp add: ref_copy_def)

section \<open>The invariant of a manager\<close>

definition entry_refs :: "(string \<times> resource) list \<Rightarrow> reference list" where
  "entry_refs es = map (\<lambda>(n, r). res_data r) es"

lemma entry_refs_simps [simp]:
  "entry_refs [] = []" "entry_refs (e # es) = res_data (snd e) # entry_refs es" "entry_refs (es @ fs) = entry_refs es @ entry_refs fs"
  "length (entry_refs es) = length es"
  by (simp_all add: entry_refs_def split: prod.split)

lemma entry_refs_mem: "x \<in> set es \<Longrightarrow> res_data (snd x) \<in> set (entry_refs es)"
  by (induction es) auto

text \<open>The references of the clients and of the map are counted, the names are distinct, and so are the objects of the entries,
  none of which is null.\<close>

definition entries_ok :: "(string \<times> resource) list \<Rightarrow> bool" where
  "entries_ok es \<longleftrightarrow> distinct (map fst es) \<and> distinct (map m_Ptr (entry_refs es)) \<and> None \<notin> m_Ptr ` set (entry_refs es)"

definition manager_ok :: "reference list \<Rightarrow> manager \<Rightarrow> heap \<Rightarrow> bool" where
  "manager_ok clients m h \<longleftrightarrow> shared_inv {} (clients @ entry_refs (m_nameResourceMap m)) h \<and> entries_ok (m_nameResourceMap m)"

lemma emplace_ok:
  assumes "shared_inv {} (v # vs) h" and "length vs + 3 < 2 ^ 32"
  shows "\<exists>h'. emplace_resource name v disk m h
      = ok (m\<lparr>m_nameResourceMap := m_nameResourceMap m @ [(name, \<lparr>timeSinceReload = 0, res_data = v, onDisk = disk\<rparr>)]\<rparr>, h')
    \<and> shared_inv {} (v # v # vs) h'"
proof -
  obtain h1 where 1: "ref_copy v h = ok (v, h1)" "shared_inv {} (v # v # vs) h1" using copy_head [OF assms(1), of v] assms(2) by auto
  obtain h2 where 2: "ref_copy v h1 = ok (v, h2)" "shared_inv {} (v # v # v # vs) h2" using copy_head [OF 1(2), of v] assms(2) by auto
  obtain v' h3 where 3: "ref_unref v h2 = ok (v', h3)" "shared_inv {} (v # v # vs) h3" using unref_head [OF 2(2)] assms(2) by auto
  show ?thesis using 1(1) 2(1) 3 by (simp add: emplace_resource_def ref_copy_eq)
qed

text \<open>What a manager needs of its load function: a new object, or a failure.\<close>

locale resource_loader =
  fixes load :: "string \<Rightarrow> heap \<Rightarrow> (bool \<times> reference \<times> heap) res"
  assumes loads: "shared_inv {} vs h \<Longrightarrow> length vs + 3 < 2 ^ 32 \<Longrightarrow>
    \<exists>b v h'. load name h = Inr (b, v, h') \<and> shared_inv {} (v # vs) h' \<and> (b \<longrightarrow> m_Ptr v \<noteq> None \<and> m_Ptr v \<notin> m_Ptr ` set vs)"
begin

lemma GetResource_ok:
  assumes m: "manager_ok clients m h" and f: "m_loadFunc m = Some load"
    and n: "length clients + length (m_nameResourceMap m) + 3 < 2 ^ 32"
  shows "\<exists>v m' h'. GetResource name m h = Inr (v, m', h') \<and> manager_ok (v # clients) m' h' \<and> m_loadFunc m' = Some load
    \<and> length (m_nameResourceMap m') \<le> Suc (length (m_nameResourceMap m))"
proof (cases "map_of (m_nameResourceMap m) name")
  case (Some r)
  let ?vs = "clients @ entry_refs (m_nameResourceMap m)"
  have "res_data r \<in> set ?vs" using map_of_SomeD [OF Some] by (force simp: entry_refs_def)
  then obtain h' where "ref_copy (res_data r) h = Inr (res_data r, h')" "shared_inv {} (res_data r # ?vs) h'"
    using copy_head [of ?vs h "res_data r"] m n by (auto simp: manager_ok_def)
  then show ?thesis using Some m f by (simp add: GetResource_def manager_ok_def)
next
  case None
  let ?es = "m_nameResourceMap m"
  obtain b v h1 where l: "load name h = Inr (b, v, h1)" "shared_inv {} (v # clients @ entry_refs ?es) h1"
    "b \<longrightarrow> m_Ptr v \<noteq> None \<and> m_Ptr v \<notin> m_Ptr ` set (clients @ entry_refs ?es)"
    using loads [of "clients @ entry_refs ?es" h name] m n by (auto simp: manager_ok_def)
  show ?thesis
  proof (cases b)
    case False
    obtain v' h2 where "ref_unref v h1 = Inr (v', h2)" "shared_inv {} (clients @ entry_refs ?es) h2"
      using unref_head [OF l(2)] n by auto
    then show ?thesis using None False l(1) f m by (simp add: GetResource_def call_func_def manager_ok_def shared_inv_null)
  next
    case True
    let ?m = "m\<lparr>m_nameResourceMap := ?es @ [(name, \<lparr>timeSinceReload = 0, res_data = v, onDisk = True\<rparr>)]\<rparr>"
    obtain h2 where e: "emplace_resource name v True m h1 = Inr (?m, h2)" "shared_inv {} (v # v # clients @ entry_refs ?es) h2"
      using emplace_ok [OF l(2), of name True m] n by auto
    have "shared_inv {} ((v # clients) @ entry_refs (m_nameResourceMap ?m)) h2"
      using e(2) by (subst shared_inv_perm [of _ "v # v # clients @ entry_refs ?es"]) simp_all
    moreover have "name \<notin> set (map fst ?es)" using None by (simp add: map_of_eq_None_iff)
    ultimately have "manager_ok (v # clients) ?m h2"
      using m l(3) True by (auto simp: manager_ok_def entries_ok_def)
    then show ?thesis using None True l(1) e(1) f by (simp add: GetResource_def call_func_def)
  qed
qed

end

lemma ShaderLibrary_Load_ok:
  assumes "shared_inv {} vs h" and "length vs + 3 < 2 ^ 32"
  shows "\<exists>v h'. ShaderLibrary_Load name h = ok (True, v, h') \<and> shared_inv {} (v # vs) h' \<and> m_Ptr v \<noteq> None \<and> m_Ptr v \<notin> m_Ptr ` set vs"
proof -
  obtain p h1 where p: "new_object h = (p, h1)" by (cases "new_object h")
  have raw: "shared_inv {p} vs h1" by (rule new_object_inv [OF assms(1) p])
  then have inv: "shared_inv {p} (ref_null # vs) h1" by (simp add: shared_inv_null)
  obtain tmp h2 where t: "ref_of_ptr (Some p) h1 = (tmp, h2)" "shared_inv {} (tmp # vs) h2"
    using ref_fresh_ok [OF inv, of 0 p] by auto
  have ptr: "m_Ptr tmp = Some p" using t(1) by (auto simp: ref_of_ptr_def ref_refPointer_def split: prod.splits)
  have np: "m_Ptr tmp \<notin> m_Ptr ` set vs" using raw ptr by (auto simp: shared_inv_def pointed_def)
  obtain h3 where c: "ref_copy tmp h2 = ok (tmp, h3)" "shared_inv {} (tmp # tmp # vs) h3" using copy_head [OF t(2), of tmp] assms(2) by auto
  obtain v' h4 where u: "ref_unref tmp h3 = ok (v', h4)" "shared_inv {} (tmp # vs) h4" using unref_head [OF c(2)] assms(2) by auto
  show ?thesis using p t(1) c(1) u ptr np by (simp add: ShaderLibrary_Load_def ref_copy_eq)
qed

interpretation shaders: resource_loader ShaderLibrary_Load
  by unfold_locales (use ShaderLibrary_Load_ok in blast)

section \<open>Dropping what nobody holds\<close>

definition held :: "reference list \<Rightarrow> string \<times> resource \<Rightarrow> bool" where
  "held vs e \<longleftrightarrow> pointed vs (the (m_Ptr (res_data (snd e))))"

lemma uses_append: "uses c (vs @ ws) = uses c vs + uses c ws"
  by (simp add: uses_def)

lemma count_one: "rc_GetReferenceCount r = 1 \<longleftrightarrow> unat (m_Refcount r) = 1"
proof -
  have "sint (m_Refcount r) = 1 \<longleftrightarrow> m_Refcount r = 1"
    using signed_word_eqI [of "m_Refcount r" 1] by auto
  also have "\<dots> \<longleftrightarrow> unat (m_Refcount r) = 1" by (simp add: word_unat_eq_iff)
  finally show ?thesis by (simp add: rc_GetReferenceCount_def)
qed

lemma only_the_map_counts:
  assumes inv: "shared_inv {} (vs @ v # ws) h" and v: "m_Ptr v = Some p" and ws: "Some p \<notin> m_Ptr ` set ws"
  shows "\<exists>c r. m_Counter v = Some c \<and> get_counter (Some c) h = ok r \<and> (rc_GetReferenceCount r = 1 \<longleftrightarrow> \<not> pointed vs p)"
proof -
  let ?all = "vs @ v # ws"
  have agr: "refs_agree ?all" using inv by (simp add: shared_inv_def)
  have mem: "v \<in> set ?all" by simp
  obtain c where c: "m_Counter v = Some c" using refs_agree_null [OF agr mem] v by (cases "m_Counter v") auto
  obtain r where r: "counters h c = Some r" "unat (m_Refcount r) = uses c ?all" using counter_of [OF inv mem c] by auto
  have "pointed ws p \<longleftrightarrow> 0 < uses c ws" "pointed vs p \<longleftrightarrow> 0 < uses c vs"
    by (rule ptr_mem_iff_uses [OF agr _ mem v c]; auto)+
  moreover have "\<not> pointed ws p" using ws by (force simp: pointed_def)
  ultimately have "uses c ?all = uses c vs + 1" "pointed vs p \<longleftrightarrow> 0 < uses c vs"
    using c by (simp_all add: uses_append uses_Cons)
  then show ?thesis using c r by (simp add: get_counter_def count_one)
qed

lemma update_entries_ok:
  assumes "shared_inv {} (vs @ entry_refs es) h" and "length vs + length es < 2 ^ 32"
    and "distinct (map m_Ptr (entry_refs es))" and "None \<notin> m_Ptr ` set (entry_refs es)"
  shows "\<exists>h'. update_entries es h = ok (filter (held vs) es, h') \<and> shared_inv {} (vs @ entry_refs (filter (held vs) es)) h'"
  using assms
proof (induction es arbitrary: vs h)
  case (Cons e es)
  obtain n r where e: "e = (n, r)" by (cases e)
  let ?v = "res_data r"
  obtain p where p: "m_Ptr ?v = Some p" using Cons.prems(4) e by (cases "m_Ptr ?v") auto
  have np: "Some p \<notin> m_Ptr ` set (entry_refs es)" using Cons.prems(3) e p by auto
  obtain c rc where c: "m_Counter ?v = Some c" "get_counter (Some c) h = ok rc" "rc_GetReferenceCount rc = 1 \<longleftrightarrow> \<not> pointed vs p"
    using only_the_map_counts [of vs ?v "entry_refs es" h p] Cons.prems(1) e p np by auto
  have he: "held vs e \<longleftrightarrow> pointed vs p" using e p by (simp add: held_def)
  show ?case
  proof (cases "pointed vs p")
    case True
    have "shared_inv {} ((vs @ [?v]) @ entry_refs es) h" using Cons.prems(1) e by simp
    then obtain h' where h': "update_entries es h = ok (filter (held (vs @ [?v])) es, h')"
      "shared_inv {} ((vs @ [?v]) @ entry_refs (filter (held (vs @ [?v])) es)) h'"
      using Cons.IH [of "vs @ [?v]" h] Cons.prems(2-4) by auto
    have "held (vs @ [?v]) x \<longleftrightarrow> held vs x" if x: "x \<in> set es" for x
    proof -
      have "res_data (snd x) \<in> set (entry_refs es)" using x by (rule entry_refs_mem)
      then have "m_Ptr (res_data (snd x)) \<noteq> None" "m_Ptr (res_data (snd x)) \<noteq> Some p" using Cons.prems(4) e np by force+
      then show ?thesis using p by (auto simp: held_def pointed_def)
    qed
    then have f: "filter (held (vs @ [?v])) es = filter (held vs) es" by (rule filter_cong [OF refl])
    show ?thesis using h' c True he e unfolding f by simp
  next
    case False
    have "shared_inv {} (?v # vs @ entry_refs es) h"
      using Cons.prems(1) e by (subst shared_inv_perm [of _ "vs @ ?v # entry_refs es"]) simp_all
    then obtain d h1 where u: "ref_unref ?v h = ok (d, h1)" "shared_inv {} (vs @ entry_refs es) h1"
      using unref_head [of "{}" ?v "vs @ entry_refs es" h] Cons.prems(2) by auto
    obtain h' where "update_entries es h1 = ok (filter (held vs) es, h')" "shared_inv {} (vs @ entry_refs (filter (held vs) es)) h'"
      using Cons.IH [OF u(2)] Cons.prems(2-4) by auto
    then show ?thesis using c False he e u(1) by simp
  qed
qed simp

lemma entries_ok_filter: "entries_ok es \<Longrightarrow> entries_ok (filter P es)"
proof -
  have "mset (entry_refs (filter P es)) \<subseteq># mset (entry_refs es)" "set (entry_refs (filter P es)) \<subseteq> set (entry_refs es)"
    by (auto simp: entry_refs_def image_mset_subseteq_mono multiset_filter_subset)
  moreover have "distinct (map f (filter P es))" if "distinct (map f es)" for f :: "string \<times> resource \<Rightarrow> 'a"
    using that by (induction es) auto
  note d = this
  assume "entries_ok es"
  then have "distinct (map fst es)" "distinct (map (\<lambda>e. m_Ptr (res_data (snd e))) es)" "None \<notin> m_Ptr ` set (entry_refs es)"
    by (simp_all add: entries_ok_def entry_refs_def split_beta comp_def)
  ultimately have "distinct (map fst (filter P es))" "distinct (map (\<lambda>e. m_Ptr (res_data (snd e))) (filter P es))"
    "None \<notin> m_Ptr ` set (entry_refs (filter P es))" by (auto intro!: distinct_map_filter)
  then show "entries_ok (filter P es)" by (simp add: entries_ok_def entry_refs_def split_beta comp_def)
qed

lemma manager_Update_ok:
  assumes "manager_ok clients m h" and "length clients + length (m_nameResourceMap m) < 2 ^ 32"
  shows "\<exists>h'. manager_Update m h = ok (m\<lparr>m_nameResourceMap := filter (held clients) (m_nameResourceMap m)\<rparr>, h')
    \<and> manager_ok clients (m\<lparr>m_nameResourceMap := filter (held clients) (m_nameResourceMap m)\<rparr>) h'"
proof -
  obtain h' where "update_entries (m_nameResourceMap m) h = ok (filter (held clients) (m_nameResourceMap m), h')"
    "shared_inv {} (clients @ entry_refs (filter (held clients) (m_nameResourceMap m))) h'"
    using update_entries_ok [of clients "m_nameResourceMap m" h] assms by (auto simp: manager_ok_def entries_ok_def)
  then show ?thesis using assms(1) entries_ok_filter by (simp add: manager_Update_def manager_ok_def)
qed

section \<open>A program over the shader library\<close>

text \<open>Clients request shaders by name, drop a handle, and the application updates the library once a frame.\<close>

datatype library_op = Request string | Drop nat | Frame_Update

fun library_step :: "library_op \<Rightarrow> reference list \<times> manager \<times> heap \<Rightarrow> (reference list \<times> manager \<times> heap) res" where
  "library_step (Request name) (clients, m, h) = rbind (GetResource name m h) (\<lambda>(v, m1, h1). ok (v # clients, m1, h1))"
| "library_step (Drop i) (clients, m, h) =
    (if i < length clients
     then rbind (ref_unref (clients ! i) h) (\<lambda>(v, h1). ok (take i clients @ drop (Suc i) clients, m, h1))
     else ok (clients, m, h))"
| "library_step Frame_Update (clients, m, h) = rbind (manager_Update m h) (\<lambda>(m1, h1). ok (clients, m1, h1))"

fun library_run :: "library_op list \<Rightarrow> reference list \<times> manager \<times> heap \<Rightarrow> (reference list \<times> manager \<times> heap) res" where
  "library_run [] s = ok s"
| "library_run (x # xs) s = rbind (library_step x s) (library_run xs)"

lemma library_step_ok:
  assumes "manager_ok clients m h" and "m_loadFunc m = Some ShaderLibrary_Load" and "length clients + length (m_nameResourceMap m) + 3 < 2 ^ 32"
  shows "\<exists>cs m' h'. library_step x (clients, m, h) = ok (cs, m', h') \<and> manager_ok cs m' h' \<and> m_loadFunc m' = Some ShaderLibrary_Load
    \<and> length cs + length (m_nameResourceMap m') \<le> length clients + length (m_nameResourceMap m) + 2"
proof (cases x)
  case (Request name)
  then show ?thesis using shaders.GetResource_ok [OF assms, of name] by force
next
  case (Drop i)
  show ?thesis
  proof (cases "i < length clients")
    case True
    let ?rest = "take i clients @ drop (Suc i) clients"
    have "mset (clients ! i # ?rest) = mset clients" using id_take_nth_drop [OF True] by (metis mset_append mset.simps(2) add_mset_add_single union_assoc union_commute)
    then have "shared_inv {} (clients ! i # ?rest @ entry_refs (m_nameResourceMap m)) h"
      using assms(1) by (subst shared_inv_perm [of _ "clients @ entry_refs (m_nameResourceMap m)"]) (simp_all add: manager_ok_def)
    moreover have l: "Suc (length (?rest @ entry_refs (m_nameResourceMap m))) < 2 ^ 32" using assms(3) True by simp
    ultimately obtain v h1 where "ref_unref (clients ! i) h = ok (v, h1)" "shared_inv {} (?rest @ entry_refs (m_nameResourceMap m)) h1"
      using unref_head [of "{}" "clients ! i" "?rest @ entry_refs (m_nameResourceMap m)" h] l by auto
    then show ?thesis using Drop True assms(1,2) by (simp add: manager_ok_def)
  next
    case False
    then show ?thesis using Drop assms by simp
  qed
next
  case Frame_Update
  have "length (filter (held clients) (m_nameResourceMap m)) \<le> Suc (Suc (length (m_nameResourceMap m)))"
    by (rule order_trans [OF length_filter_le]) simp
  then show ?thesis using manager_Update_ok [OF assms(1)] Frame_Update assms(2,3) by auto
qed

lemma library_run_ok:
  assumes "manager_ok clients m h" and "m_loadFunc m = Some ShaderLibrary_Load"
    and "length clients + length (m_nameResourceMap m) + 2 * length ops + 3 < 2 ^ 32"
  shows "\<exists>cs m' h'. library_run ops (clients, m, h) = ok (cs, m', h') \<and> manager_ok cs m' h'
    \<and> length cs + length (m_nameResourceMap m') \<le> length clients + length (m_nameResourceMap m) + 2 * length ops"
  using assms
proof (induction ops arbitrary: clients m h)
  case (Cons x xs)
  obtain cs m1 h1 where 1: "library_step x (clients, m, h) = ok (cs, m1, h1)" "manager_ok cs m1 h1" "m_loadFunc m1 = Some ShaderLibrary_Load"
    "length cs + length (m_nameResourceMap m1) \<le> length clients + length (m_nameResourceMap m) + 2"
    using library_step_ok [OF Cons.prems(1,2), of x] Cons.prems(3) by auto
  have "length cs + length (m_nameResourceMap m1) + 2 * length xs + 3 < 2 ^ 32" using 1(4) Cons.prems(3) by simp
  from Cons.IH [OF 1(2,3) this] show ?case using 1(1,4) by force
qed auto

lemma shader_library_start: "manager_ok [] shader_library_new heap_empty"
  using shared_inv_init [of 0] by (simp add: manager_ok_def shader_library_new_def manager_new_def entries_ok_def)

lemma pointed_append: "pointed (vs @ ws) p \<longleftrightarrow> pointed vs p \<or> pointed ws p"
  by (auto simp: pointed_def)

lemma manager_objects: "manager_ok cs m h \<Longrightarrow> objects h = {p. pointed cs p \<or> pointed (entry_refs (m_nameResourceMap m)) p}"
  by (auto simp: manager_ok_def shared_inv_def pointed_append)

lemma update_frees:
  assumes "manager_ok cs m h" and "manager_ok cs (m\<lparr>m_nameResourceMap := filter (held cs) (m_nameResourceMap m)\<rparr>) h'"
  shows "objects h' = {p. pointed cs p}"
proof -
  have "pointed cs p" if p: "pointed (entry_refs (filter (held cs) (m_nameResourceMap m))) p" for p
  proof -
    obtain e where "held cs e" "m_Ptr (res_data (snd e)) = Some p" using p by (auto simp: pointed_def entry_refs_def)
    then show ?thesis by (simp add: held_def)
  qed
  then show ?thesis using manager_objects [OF assms(2)] by auto
qed

lemma request_again:
  assumes "manager_ok cs m h" and "map_of (m_nameResourceMap m) name = Some r" and "length cs + length (m_nameResourceMap m) + 3 < 2 ^ 32"
  shows "\<exists>h'. GetResource name m h = ok (res_data r, m, h')"
proof -
  have "res_data r \<in> set (cs @ entry_refs (m_nameResourceMap m))" using entry_refs_mem [OF map_of_SomeD [OF assms(2)]] by simp
  then obtain h' where "ref_copy (res_data r) h = ok (res_data r, h')"
    using copy_head [of "cs @ entry_refs (m_nameResourceMap m)" h "res_data r"] assms(1,3) by (auto simp: manager_ok_def)
  then show ?thesis using assms(2) by (simp add: GetResource_def)
qed

text \<open>Property C3. Clients that request shaders by name, drop handles and update the library, in any order, never make it fail: at every moment the
  live shaders are those of the clients' handles and of the library, under distinct names; an update leaves in the library exactly the
  shaders some client holds and frees all others, and a request for a name in the library gives its shader.\<close>

theorem shader_library_frees_unused:
  assumes "length ops < 2 ^ 30"
  shows "\<exists>cs m h. library_run ops ([], shader_library_new, heap_empty) = ok (cs, m, h)
    \<and> distinct (map fst (m_nameResourceMap m))
    \<and> objects h = {p. pointed cs p \<or> pointed (entry_refs (m_nameResourceMap m)) p}
    \<and> (\<forall>name r. map_of (m_nameResourceMap m) name = Some r \<longrightarrow> (\<exists>h'. GetResource name m h = ok (res_data r, m, h')))
    \<and> (\<exists>m' h'. manager_Update m h = ok (m', h') \<and> m_nameResourceMap m' = filter (held cs) (m_nameResourceMap m) \<and> objects h' = {p. pointed cs p})"
proof -
  have load: "m_loadFunc shader_library_new = Some ShaderLibrary_Load" "m_nameResourceMap shader_library_new = []"
    by (simp_all add: shader_library_new_def manager_new_def)
  obtain cs m h where run: "library_run ops ([], shader_library_new, heap_empty) = ok (cs, m, h)" "manager_ok cs m h"
    "length cs + length (m_nameResourceMap m) \<le> 2 * length ops"
    using library_run_ok [OF shader_library_start load(1), of ops] load(2) assms by auto
  obtain h' where u: "manager_Update m h = ok (m\<lparr>m_nameResourceMap := filter (held cs) (m_nameResourceMap m)\<rparr>, h')"
    "manager_ok cs (m\<lparr>m_nameResourceMap := filter (held cs) (m_nameResourceMap m)\<rparr>) h'"
    using manager_Update_ok [OF run(2)] run(3) assms by auto
  have g: "\<exists>h'. GetResource name m h = ok (res_data r, m, h')" if "map_of (m_nameResourceMap m) name = Some r" for name r
    using request_again [OF run(2) that] run(3) assms by simp
  show ?thesis using run(1,2) u g manager_objects [OF run(2)] update_frees [OF run(2) u(2)] by (simp add: manager_ok_def entries_ok_def)
qed

theorem shader_library_frees_unused_witness:
  "\<exists>cs m h. library_run [Request ''a'', Request ''b'', Request ''a'', Drop 1] ([], shader_library_new, heap_empty) = ok (cs, m, h)
    \<and> (\<exists>m' h'. manager_Update m h = ok (m', h') \<and> objects h' = {p. pointed cs p})"
proof -
  have "length [Request ''a'', Request ''b'', Request ''a'', Drop 1] < 2 ^ 30" by simp
  from shader_library_frees_unused [OF this] show ?thesis by blast
qed

section \<open>Slips of the manager\<close>

text \<open>The shader library sets the load function alone: destroying it, reloading its resources and looking one up by its
  handle all call an empty function; the last has no way to be set.\<close>

lemma empty_functions:
  assumes "m_releaseFunc m = None" and "m_reloadFunc m = None" and "m_getIdFunc m = None" and "m_nameResourceMap m \<noteq> []"
  shows "manager_Destroy m h = fail BadFunctionCall" "ReloadResources m h = fail BadFunctionCall" "GetResource_handle v m h = fail BadFunctionCall"
proof -
  obtain n r es where e: "m_nameResourceMap m = (n, r) # es" using assms(4) by (cases "m_nameResourceMap m") auto
  show "manager_Destroy m h = fail BadFunctionCall" "ReloadResources m h = fail BadFunctionCall" "GetResource_handle v m h = fail BadFunctionCall"
    by (simp_all add: manager_Destroy_def ReloadResources_def GetResource_handle_def call_func_def assms e)
qed

text \<open>A load that succeeds without setting its handle leaves an entry whose counter the next update dereferences.\<close>

lemma null_resource_breaks_update:
  assumes "m_loadFunc m = Some (\<lambda>name h. ok (True, ref_null, h))" and "m_nameResourceMap m = []"
  shows "rbind (GetResource name m h) (\<lambda>(v, m', h'). manager_Update m' h') = fail NullDeref"
  using assms by (simp add: GetResource_def call_func_def emplace_resource_def ref_copy_def ref_ref_def ref_unref_def ref_null_def manager_Update_def
      get_counter_def)

end
