(* ===== verification/Singletons.thy ===== *)
theory Singletons
  imports Prelude
begin

text \<open>
  The singletons of \<open>Utilities/TSingleton.h\<close>. Threads call \<open>Get\<close> and \<open>Release\<close>; every access to the shared pointer, the
  mutex and the heap is one step of the thread, and threads interleave in any order. Addresses are numbered in the order of
  allocation. A thread that executes the last statement of \<open>Get\<close> dereferences the pointer it reads there.
\<close>

section \<open>State\<close>

text \<open>The statement a thread is at: those of \<open>Get\<close> and of \<open>Release\<close>.\<close>

datatype pc = Idle | Test | Take | Retest | Construct | Give | Deref
  | R_Take | R_Test | R_Delete | R_Clear | R_Give

record singleton =
  m_pInstance :: "nat option"
  m_mConstructed :: "nat option"
  live_instances :: "nat set"
  allocated :: nat
  pcs :: "pc list"
  results :: "(nat \<times> nat option) list"

definition singleton_new :: "nat \<Rightarrow> singleton" where
  "singleton_new threads = \<lparr>m_pInstance = None, m_mConstructed = None, live_instances = {}, allocated = 0,
     pcs = replicate threads Idle, results = []\<rparr>"

definition goto :: "nat \<Rightarrow> pc \<Rightarrow> singleton \<Rightarrow> singleton" where
  "goto i l s = s\<lparr>pcs := (pcs s)[i := l]\<rparr>"

definition construct :: "singleton \<Rightarrow> singleton" where
  "construct s = s\<lparr>m_pInstance := Some (allocated s), live_instances := insert (allocated s) (live_instances s), allocated := allocated s + 1\<rparr>"

section \<open>The three classes\<close>

text \<open>\<open>ThreadSafeSingleton\<close>: the test is repeated under the lock.\<close>

inductive safe_get :: "nat \<Rightarrow> singleton \<Rightarrow> singleton \<Rightarrow> bool" for i where
  call: "i < length (pcs s) \<Longrightarrow> pcs s ! i = Idle \<Longrightarrow> safe_get i s (goto i Test s)"
| found: "i < length (pcs s) \<Longrightarrow> pcs s ! i = Test \<Longrightarrow> m_pInstance s \<noteq> None \<Longrightarrow> safe_get i s (goto i Deref s)"
| missing: "i < length (pcs s) \<Longrightarrow> pcs s ! i = Test \<Longrightarrow> m_pInstance s = None \<Longrightarrow> safe_get i s (goto i Take s)"
| lock: "i < length (pcs s) \<Longrightarrow> pcs s ! i = Take \<Longrightarrow> m_mConstructed s = None \<Longrightarrow> safe_get i s (goto i Retest (s\<lparr>m_mConstructed := Some i\<rparr>))"
| late: "i < length (pcs s) \<Longrightarrow> pcs s ! i = Retest \<Longrightarrow> m_pInstance s \<noteq> None \<Longrightarrow> safe_get i s (goto i Give s)"
| first: "i < length (pcs s) \<Longrightarrow> pcs s ! i = Retest \<Longrightarrow> m_pInstance s = None \<Longrightarrow> safe_get i s (goto i Construct s)"
| build: "i < length (pcs s) \<Longrightarrow> pcs s ! i = Construct \<Longrightarrow> safe_get i s (goto i Give (construct s))"
| unlock: "i < length (pcs s) \<Longrightarrow> pcs s ! i = Give \<Longrightarrow> safe_get i s (goto i Deref (s\<lparr>m_mConstructed := None\<rparr>))"
| deref: "i < length (pcs s) \<Longrightarrow> pcs s ! i = Deref \<Longrightarrow> safe_get i s (goto i Idle (s\<lparr>results := (i, m_pInstance s) # results s\<rparr>))"

inductive safe_release :: "nat \<Rightarrow> singleton \<Rightarrow> singleton \<Rightarrow> bool" for i where
  call: "i < length (pcs s) \<Longrightarrow> pcs s ! i = Idle \<Longrightarrow> safe_release i s (goto i R_Take s)"
| lock: "i < length (pcs s) \<Longrightarrow> pcs s ! i = R_Take \<Longrightarrow> m_mConstructed s = None \<Longrightarrow> safe_release i s (goto i R_Test (s\<lparr>m_mConstructed := Some i\<rparr>))"
| none: "i < length (pcs s) \<Longrightarrow> pcs s ! i = R_Test \<Longrightarrow> m_pInstance s = None \<Longrightarrow> safe_release i s (goto i R_Give s)"
| some: "i < length (pcs s) \<Longrightarrow> pcs s ! i = R_Test \<Longrightarrow> m_pInstance s \<noteq> None \<Longrightarrow> safe_release i s (goto i R_Delete s)"
| delete: "i < length (pcs s) \<Longrightarrow> pcs s ! i = R_Delete \<Longrightarrow>
    safe_release i s (goto i R_Clear (s\<lparr>live_instances := live_instances s - {the (m_pInstance s)}\<rparr>))"
| clear: "i < length (pcs s) \<Longrightarrow> pcs s ! i = R_Clear \<Longrightarrow> safe_release i s (goto i R_Give (s\<lparr>m_pInstance := None\<rparr>))"
| unlock: "i < length (pcs s) \<Longrightarrow> pcs s ! i = R_Give \<Longrightarrow> safe_release i s (goto i Idle (s\<lparr>m_mConstructed := None\<rparr>))"

text \<open>\<open>TSingleton\<close>: no lock at all.\<close>

inductive plain_get :: "nat \<Rightarrow> singleton \<Rightarrow> singleton \<Rightarrow> bool" for i where
  call: "i < length (pcs s) \<Longrightarrow> pcs s ! i = Idle \<Longrightarrow> plain_get i s (goto i Test s)"
| found: "i < length (pcs s) \<Longrightarrow> pcs s ! i = Test \<Longrightarrow> m_pInstance s \<noteq> None \<Longrightarrow> plain_get i s (goto i Deref s)"
| missing: "i < length (pcs s) \<Longrightarrow> pcs s ! i = Test \<Longrightarrow> m_pInstance s = None \<Longrightarrow> plain_get i s (goto i Construct s)"
| build: "i < length (pcs s) \<Longrightarrow> pcs s ! i = Construct \<Longrightarrow> plain_get i s (goto i Deref (construct s))"
| deref: "i < length (pcs s) \<Longrightarrow> pcs s ! i = Deref \<Longrightarrow> plain_get i s (goto i Idle (s\<lparr>results := (i, m_pInstance s) # results s\<rparr>))"

text \<open>\<open>TSingletonInit\<close>, called by one thread: \<open>Get\<close> asserts before it dereferences, where assertions are compiled in.\<close>

definition init_Get :: "bool \<Rightarrow> nat option \<Rightarrow> nat res" where
  "init_Get asserts p = (if asserts \<and> p \<noteq> None then fail AssertFailed else (case p of None \<Rightarrow> fail NullDeref | Some a \<Rightarrow> ok a))"

definition init_Init :: "bool \<Rightarrow> nat option \<times> nat \<Rightarrow> (nat option \<times> nat) res" where
  "init_Init asserts = (\<lambda>(p, n). if asserts \<and> p \<noteq> None then fail AssertFailed else ok (Some n, n + 1))"

definition init_Release :: "nat option \<times> nat \<Rightarrow> nat option \<times> nat" where
  "init_Release = (\<lambda>(p, n). if p \<noteq> None then (None, n) else (p, n))"

section \<open>Runs\<close>

inductive safe_reach :: "nat \<Rightarrow> singleton \<Rightarrow> bool" for n where
  start: "safe_reach n (singleton_new n)"
| get: "safe_reach n s \<Longrightarrow> safe_get i s s' \<Longrightarrow> safe_reach n s'"
| release: "safe_reach n s \<Longrightarrow> safe_release i s s' \<Longrightarrow> safe_reach n s'"

text \<open>Runs in which no thread releases the instance.\<close>

inductive get_reach :: "nat \<Rightarrow> singleton \<Rightarrow> bool" for n where
  start: "get_reach n (singleton_new n)"
| get: "get_reach n s \<Longrightarrow> safe_get i s s' \<Longrightarrow> get_reach n s'"

inductive plain_reach :: "nat \<Rightarrow> singleton \<Rightarrow> bool" for n where
  start: "plain_reach n (singleton_new n)"
| get: "plain_reach n s \<Longrightarrow> plain_get i s s' \<Longrightarrow> plain_reach n s'"

inductive_cases safe_getE: "safe_get i s s'"
inductive_cases safe_releaseE: "safe_release i s s'"

fun holds_lock :: "pc \<Rightarrow> bool" where
  "holds_lock Retest = True"
| "holds_lock Construct = True"
| "holds_lock Give = True"
| "holds_lock R_Test = True"
| "holds_lock R_Delete = True"
| "holds_lock R_Clear = True"
| "holds_lock R_Give = True"
| "holds_lock _ = False"

definition lock_inv :: "singleton \<Rightarrow> bool" where
  "lock_inv s \<longleftrightarrow> (\<forall>i < length (pcs s). holds_lock (pcs s ! i) \<longleftrightarrow> m_mConstructed s = Some i)
    \<and> (\<forall>i. m_mConstructed s = Some i \<longrightarrow> i < length (pcs s))"

lemma goto_sel [simp]:
  "m_pInstance (goto i l s) = m_pInstance s" "m_mConstructed (goto i l s) = m_mConstructed s" "live_instances (goto i l s) = live_instances s"
  "allocated (goto i l s) = allocated s" "results (goto i l s) = results s" "pcs (goto i l s) = (pcs s)[i := l]"
  by (simp_all add: goto_def)

lemma construct_sel [simp]:
  "m_pInstance (construct s) = Some (allocated s)" "m_mConstructed (construct s) = m_mConstructed s" "pcs (construct s) = pcs s"
  "live_instances (construct s) = insert (allocated s) (live_instances s)" "allocated (construct s) = allocated s + 1" "results (construct s) = results s"
  by (simp_all add: construct_def)

text \<open>A step keeps the lock, takes it or gives it back.\<close>

lemma lock_keep:
  assumes "lock_inv s" and "i < length (pcs s)" and "holds_lock l = holds_lock (pcs s ! i)"
    and "pcs t = pcs s" and "m_mConstructed t = m_mConstructed s"
  shows "lock_inv (goto i l t)"
  unfolding lock_inv_def
proof (intro conjI allI impI)
  fix j assume "j < length (pcs (goto i l t))"
  then show "holds_lock (pcs (goto i l t) ! j) \<longleftrightarrow> m_mConstructed (goto i l t) = Some j"
    using assms by (cases "j = i") (simp_all add: lock_inv_def)
next
  fix j assume "m_mConstructed (goto i l t) = Some j"
  then show "j < length (pcs (goto i l t))" using assms by (simp add: lock_inv_def)
qed

lemma lock_move:
  assumes "lock_inv s" and "i < length (pcs s)" and "pcs t = pcs s"
    and "m_mConstructed s = None \<and> m_mConstructed t = Some i \<and> holds_lock l \<or> holds_lock (pcs s ! i) \<and> m_mConstructed t = None \<and> \<not> holds_lock l"
  shows "lock_inv (goto i l t)"
  unfolding lock_inv_def
proof (intro conjI allI impI)
  fix j assume j: "j < length (pcs (goto i l t))"
  have "\<not> holds_lock (pcs s ! j)" if "j \<noteq> i"
  proof -
    have "holds_lock (pcs s ! j) \<longleftrightarrow> m_mConstructed s = Some j" "holds_lock (pcs s ! i) \<longleftrightarrow> m_mConstructed s = Some i"
      using assms(1-3) j by (simp_all add: lock_inv_def)
    then show ?thesis using assms(4) that by auto
  qed
  then show "holds_lock (pcs (goto i l t) ! j) \<longleftrightarrow> m_mConstructed (goto i l t) = Some j"
    using assms(2-4) j by (cases "j = i") auto
next
  fix j assume "m_mConstructed (goto i l t) = Some j"
  then show "j < length (pcs (goto i l t))" using assms by auto
qed

lemma lock_inv_get:
  assumes "lock_inv s" and "safe_get i s s'"
  shows "lock_inv s'"
  using assms(2)
proof cases
  case lock
  then show ?thesis by (auto intro!: lock_move [OF assms(1)])
next
  case unlock
  then show ?thesis by (auto intro!: lock_move [OF assms(1)])
qed (auto intro!: lock_keep [OF assms(1)])

lemma lock_inv_release:
  assumes "lock_inv s" and "safe_release i s s'"
  shows "lock_inv s'"
  using assms(2)
proof cases
  case lock
  then show ?thesis by (auto intro!: lock_move [OF assms(1)])
next
  case unlock
  then show ?thesis by (auto intro!: lock_move [OF assms(1)])
qed (auto intro!: lock_keep [OF assms(1)])

lemma lock_inv_new: "lock_inv (singleton_new n)"
  by (simp add: singleton_new_def lock_inv_def)

text \<open>What holds of the instance, by what the holder of the lock is about to do.\<close>

definition holder_pc :: "singleton \<Rightarrow> pc" where
  "holder_pc s = (case m_mConstructed s of None \<Rightarrow> Idle | Some i \<Rightarrow> pcs s ! i)"

definition instance_inv :: "singleton \<Rightarrow> bool" where
  "instance_inv s \<longleftrightarrow>
    (if holder_pc s = R_Clear then live_instances s = {} \<and> m_pInstance s \<noteq> None else live_instances s = set_option (m_pInstance s))
    \<and> (holder_pc s = Construct \<longrightarrow> m_pInstance s = None) \<and> (holder_pc s = R_Delete \<longrightarrow> m_pInstance s \<noteq> None)
    \<and> (\<forall>p \<in> live_instances s. p < allocated s)"

lemma holder_other:
  assumes "lock_inv s" and "i < length (pcs s)" and "\<not> holds_lock (pcs s ! i)" and "pcs t = pcs s" and "m_mConstructed t = m_mConstructed s"
  shows "holder_pc (goto i l t) = holder_pc s"
proof -
  have "m_mConstructed s \<noteq> Some i" using assms(1-3) by (auto simp: lock_inv_def)
  then show ?thesis using assms(4,5) by (auto simp: holder_pc_def split: option.split)
qed

lemma holder_self:
  assumes "lock_inv s" and "i < length (pcs s)" and "holds_lock (pcs s ! i)"
  shows "holder_pc s = pcs s ! i" "pcs t = pcs s \<Longrightarrow> m_mConstructed t = m_mConstructed s \<Longrightarrow> holder_pc (goto i l t) = l"
  using assms by (auto simp: holder_pc_def lock_inv_def)

lemma holder_moves:
  "i < length (pcs t) \<Longrightarrow> m_mConstructed t = Some i \<Longrightarrow> holder_pc (goto i l t) = l" "m_mConstructed t = None \<Longrightarrow> holder_pc t = Idle"
  by (simp_all add: holder_pc_def)

lemma instance_inv_get:
  assumes "lock_inv s" and "instance_inv s" and "safe_get i s s'"
  shows "instance_inv s'"
  using assms(3)
proof cases
  case lock
  then show ?thesis using assms(2) holder_moves(1) [of i "s\<lparr>m_mConstructed := Some i\<rparr>" Retest] holder_moves(2) [of s] by (simp add: instance_inv_def)
next
  case late
  then show ?thesis using assms(2) holder_self(1) [OF assms(1), of i] holder_self(2) [OF assms(1), of i s Give] by (simp add: instance_inv_def)
next
  case first
  then show ?thesis using assms(2) holder_self(1) [OF assms(1), of i] holder_self(2) [OF assms(1), of i s Construct] by (simp add: instance_inv_def)
next
  case build
  then show ?thesis using assms(2) holder_self(1) [OF assms(1), of i] holder_self(2) [OF assms(1), of i "construct s" Give] by (auto simp: instance_inv_def)
next
  case unlock
  then show ?thesis using assms(2) holder_self(1) [OF assms(1), of i] holder_moves(2) [of "goto i Deref (s\<lparr>m_mConstructed := None\<rparr>)"]
    by (simp add: instance_inv_def)
qed (use assms(2) holder_other [OF assms(1)] in \<open>auto simp: instance_inv_def split: if_splits\<close>)

lemma instance_inv_release:
  assumes "lock_inv s" and "instance_inv s" and "safe_release i s s'"
  shows "instance_inv s'"
  using assms(3)
proof cases
  case lock
  then show ?thesis using assms(2) holder_moves(1) [of i "s\<lparr>m_mConstructed := Some i\<rparr>" R_Test] holder_moves(2) [of s] by (simp add: instance_inv_def)
next
  case none
  then show ?thesis using assms(2) holder_self(1) [OF assms(1), of i] holder_self(2) [OF assms(1), of i s R_Give] by (simp add: instance_inv_def)
next
  case some
  then show ?thesis using assms(2) holder_self(1) [OF assms(1), of i] holder_self(2) [OF assms(1), of i s R_Delete] by (simp add: instance_inv_def)
next
  case delete
  then show ?thesis using assms(2) holder_self(1) [OF assms(1), of i]
      holder_self(2) [OF assms(1), of i "s\<lparr>live_instances := live_instances s - {the (m_pInstance s)}\<rparr>" R_Clear]
    by (auto simp: instance_inv_def)
next
  case clear
  then show ?thesis using assms(2) holder_self(1) [OF assms(1), of i] holder_self(2) [OF assms(1), of i "s\<lparr>m_pInstance := None\<rparr>" R_Give]
    by (simp add: instance_inv_def)
next
  case unlock
  then show ?thesis using assms(2) holder_self(1) [OF assms(1), of i] holder_moves(2) [of "goto i Idle (s\<lparr>m_mConstructed := None\<rparr>)"]
    by (simp add: instance_inv_def)
qed (use assms(2) holder_other [OF assms(1)] in \<open>auto simp: instance_inv_def split: if_splits\<close>)

lemma reach_inv: "safe_reach n s \<Longrightarrow> lock_inv s \<and> instance_inv s"
proof (induction rule: safe_reach.induct)
  case start
  show ?case using lock_inv_new by (simp add: instance_inv_def holder_pc_def singleton_new_def)
qed (auto intro: lock_inv_get lock_inv_release instance_inv_get instance_inv_release)

text \<open>Deleting is never done twice: the instance is alive when a thread is about to delete it.\<close>

lemma delete_live:
  assumes "safe_reach n s" and "i < length (pcs s)" and "pcs s ! i = R_Delete"
  shows "\<exists>p. m_pInstance s = Some p \<and> p \<in> live_instances s"
proof -
  have "holder_pc s = R_Delete" using reach_inv [OF assms(1)] holder_self(1) [of s i] assms(2,3) by simp
  then show ?thesis using reach_inv [OF assms(1)] by (auto simp: instance_inv_def)
qed

section \<open>One instance\<close>

fun in_get :: "pc \<Rightarrow> bool" where
  "in_get R_Take = False"
| "in_get R_Test = False"
| "in_get R_Delete = False"
| "in_get R_Clear = False"
| "in_get R_Give = False"
| "in_get _ = True"

definition get_inv :: "singleton \<Rightarrow> bool" where
  "get_inv s \<longleftrightarrow> list_all in_get (pcs s) \<and> (m_pInstance s = None \<and> allocated s = 0 \<or> m_pInstance s = Some 0 \<and> allocated s = 1)
    \<and> (\<forall>i < length (pcs s). pcs s ! i = Give \<or> pcs s ! i = Deref \<longrightarrow> m_pInstance s \<noteq> None) \<and> (\<forall>r \<in> set (results s). snd r = Some 0)"

lemma list_all_update: "list_all P xs \<Longrightarrow> P y \<Longrightarrow> list_all P (xs[i := y])"
  by (auto simp: list_all_iff dest: subsetD [OF set_update_subset])

lemma construct_empty:
  assumes "lock_inv s" and "instance_inv s" and "i < length (pcs s)" and "pcs s ! i = Construct"
  shows "m_pInstance s = None"
  using assms holder_self(1) [OF assms(1,3)] by (simp add: instance_inv_def)

lemma get_inv_step:
  assumes "lock_inv s" and "instance_inv s" and "get_inv s" and "safe_get i s s'"
  shows "get_inv s'"
  using assms(4)
proof cases
  case build
  then show ?thesis using assms(3) construct_empty [OF assms(1,2)] by (auto simp: get_inv_def list_all_update nth_list_update)
qed (use assms(3) in \<open>auto simp: get_inv_def list_all_update nth_list_update\<close>)

lemma get_reach_safe: "get_reach n s \<Longrightarrow> safe_reach n s"
  by (induction rule: get_reach.induct) (auto intro: safe_reach.intros)

lemma get_reach_inv: "get_reach n s \<Longrightarrow> get_inv s"
proof (induction rule: get_reach.induct)
  case start
  show ?case by (auto simp: get_inv_def singleton_new_def list_all_iff)
next
  case (get s i s')
  then show ?case using reach_inv [OF get_reach_safe] get_inv_step by blast
qed

lemma can_step:
  assumes "i < length (pcs s)" and "in_get (pcs s ! i)" and "pcs s ! i = Take \<longrightarrow> m_mConstructed s = None"
  shows "\<exists>s'. safe_get i s s'"
proof (cases "pcs s ! i")
  case Test
  then show ?thesis using safe_get.found [OF assms(1)] safe_get.missing [OF assms(1)] by (cases "m_pInstance s") auto
next
  case Retest
  then show ?thesis using safe_get.late [OF assms(1)] safe_get.first [OF assms(1)] by (cases "m_pInstance s") auto
qed (use assms safe_get.call safe_get.lock safe_get.build safe_get.unlock safe_get.deref in \<open>auto; blast\<close>)+

lemma get_progress:
  assumes "lock_inv s" and "get_inv s" and "j < length (pcs s)" and "pcs s ! j \<noteq> Idle"
  shows "\<exists>i s'. i < length (pcs s) \<and> pcs s ! i \<noteq> Idle \<and> safe_get i s s'"
proof -
  have g: "in_get (pcs s ! i)" if "i < length (pcs s)" for i using assms(2) that by (simp add: get_inv_def list_all_length)
  show ?thesis
  proof (cases "m_mConstructed s")
    case None
    then show ?thesis using can_step [OF assms(3) g [OF assms(3)]] assms(3,4) by blast
  next
    case (Some h)
    then have h: "h < length (pcs s)" "holds_lock (pcs s ! h)" using assms(1) by (auto simp: lock_inv_def)
    then have "pcs s ! h \<noteq> Take" "pcs s ! h \<noteq> Idle" by auto
    then show ?thesis using can_step [OF h(1) g [OF h(1)]] h(1) by blast
  qed
qed

text \<open>Property C4. However threads interleave in \<open>ThreadSafeSingleton\<close>: as long as they only get the instance, at most one is ever
  constructed, every call returns that one, and threads inside a call can always go on; and with releases too, at most one
  is alive at any time, and a thread about to delete it finds it alive.\<close>

theorem singleton_constructed_once:
  "(get_reach n s \<longrightarrow> allocated s \<le> 1 \<and> (\<forall>r \<in> set (results s). snd r = Some 0)
      \<and> (\<forall>j < length (pcs s). pcs s ! j \<noteq> Idle \<longrightarrow> (\<exists>i s'. i < length (pcs s) \<and> pcs s ! i \<noteq> Idle \<and> safe_get i s s')))
   \<and> (safe_reach n s \<longrightarrow> card (live_instances s) \<le> 1
      \<and> (\<forall>i < length (pcs s). pcs s ! i = R_Delete \<longrightarrow> (\<exists>p. m_pInstance s = Some p \<and> p \<in> live_instances s)))"
proof (intro conjI impI)
  assume g: "get_reach n s"
  note inv = get_reach_inv [OF g] reach_inv [OF get_reach_safe [OF g]]
  show "allocated s \<le> 1" "\<forall>r \<in> set (results s). snd r = Some 0" using inv(1) by (auto simp: get_inv_def)
  show "\<forall>j < length (pcs s). pcs s ! j \<noteq> Idle \<longrightarrow> (\<exists>i s'. i < length (pcs s) \<and> pcs s ! i \<noteq> Idle \<and> safe_get i s s')"
    using get_progress inv by blast
next
  assume r: "safe_reach n s"
  have "live_instances s = {} \<or> live_instances s = set_option (m_pInstance s)" using reach_inv [OF r] by (auto simp: instance_inv_def split: if_splits)
  then show "card (live_instances s) \<le> 1" by (cases "m_pInstance s") auto
  show "\<forall>i < length (pcs s). pcs s ! i = R_Delete \<longrightarrow> (\<exists>p. m_pInstance s = Some p \<and> p \<in> live_instances s)" using delete_live [OF r] by blast
qed

text \<open>One thread constructs the instance and returns from \<open>Get\<close> while another waits for the lock it has released.\<close>

theorem singleton_constructed_once_witness:
  "\<exists>s. get_reach 2 s \<and> pcs s ! 1 = Take \<and> results s = [(0, Some 0)] \<and> allocated s \<le> 1 \<and> card (live_instances s) \<le> 1
     \<and> (\<exists>i s'. i < length (pcs s) \<and> pcs s ! i \<noteq> Idle \<and> safe_get i s s')"
proof -
  let ?s0 = "singleton_new 2"
  let ?s1 = "goto 1 Take (goto 0 Take (goto 1 Test (goto 0 Test ?s0)))"
  let ?s2 = "goto 0 Construct (goto 0 Retest (?s1\<lparr>m_mConstructed := Some 0\<rparr>))"
  let ?s3 = "goto 0 Give (construct ?s2)"
  let ?s4 = "goto 0 Deref (?s3\<lparr>m_mConstructed := None\<rparr>)"
  let ?s5 = "goto 0 Idle (?s4\<lparr>results := (0, m_pInstance ?s4) # results ?s4\<rparr>)"
  have n: "length (pcs ?s0) = 2" "pcs ?s0 = [Idle, Idle]" "m_pInstance ?s0 = None" "m_mConstructed ?s0 = None" "allocated ?s0 = 0" "results ?s0 = []"
    by (simp_all add: singleton_new_def numeral_2_eq_2)
  have 1: "get_reach 2 ?s1"
    by (rule get_reach.get [where i = 1], rule get_reach.get [where i = 0], rule get_reach.get [where i = 1], rule get_reach.get [where i = 0],
        rule get_reach.start; rule safe_get.call safe_get.missing; simp add: n)
  have 2: "get_reach 2 ?s2"
    by (rule get_reach.get [where i = 0], rule get_reach.get [OF 1, where i = 0]; rule safe_get.lock safe_get.first; simp add: n)
  have 3: "get_reach 2 ?s3" by (rule get_reach.get [OF 2]; rule safe_get.build; simp add: n)
  have 4: "get_reach 2 ?s4" by (rule get_reach.get [OF 3]; rule safe_get.unlock; simp add: n)
  have 5: "get_reach 2 ?s5" by (rule get_reach.get [OF 4]; rule safe_get.deref; simp add: n)
  have p: "1 < length (pcs ?s5)" "pcs ?s5 ! 1 = Take" "results ?s5 = [(0, Some 0)]" by (simp_all add: n)
  note c = singleton_constructed_once [of 2 ?s5]
  have "allocated ?s5 \<le> 1" using c 5 by blast
  moreover have "card (live_instances ?s5) \<le> 1" using c get_reach_safe [OF 5] by blast
  moreover have "pcs ?s5 ! 1 \<noteq> Idle" using p(2) by simp
  then have "\<exists>i s'. i < length (pcs ?s5) \<and> pcs ?s5 ! i \<noteq> Idle \<and> safe_get i ?s5 s'" using c 5 p(1) by blast
  ultimately show ?thesis using 5 p(2,3) by blast
qed

section \<open>Races\<close>

text \<open>Two threads in \<open>TSingleton\<close> construct an instance each and return different ones.\<close>

lemma plain_race:
  "\<exists>s. plain_reach 2 s \<and> results s = [(1, Some 1), (0, Some 0)] \<and> live_instances s = {0, 1}"
proof -
  let ?s0 = "singleton_new 2"
  let ?s1 = "goto 1 Construct (goto 0 Construct (goto 1 Test (goto 0 Test ?s0)))"
  let ?s2 = "goto 0 Deref (construct ?s1)"
  let ?s3 = "goto 0 Idle (?s2\<lparr>results := (0, m_pInstance ?s2) # results ?s2\<rparr>)"
  let ?s4 = "goto 1 Deref (construct ?s3)"
  let ?s5 = "goto 1 Idle (?s4\<lparr>results := (1, m_pInstance ?s4) # results ?s4\<rparr>)"
  have n: "length (pcs ?s0) = 2" "pcs ?s0 = [Idle, Idle]" "m_pInstance ?s0 = None" "allocated ?s0 = 0" "live_instances ?s0 = {}" "results ?s0 = []"
    by (simp_all add: singleton_new_def numeral_2_eq_2)
  have 1: "plain_reach 2 ?s1"
    by (rule plain_reach.get [where i = 1], rule plain_reach.get [where i = 0], rule plain_reach.get [where i = 1], rule plain_reach.get [where i = 0],
        rule plain_reach.start; rule plain_get.call plain_get.missing; simp add: n)
  have 2: "plain_reach 2 ?s2" by (rule plain_reach.get [OF 1]; rule plain_get.build; simp add: n)
  have 3: "plain_reach 2 ?s3" by (rule plain_reach.get [OF 2]; rule plain_get.deref; simp add: n)
  have 4: "plain_reach 2 ?s4" by (rule plain_reach.get [OF 3]; rule plain_get.build; simp add: n)
  have "plain_reach 2 ?s5" by (rule plain_reach.get [OF 4]; rule plain_get.deref; simp add: n)
  moreover have "results ?s5 = [(1, Some 1), (0, Some 0)]" "live_instances ?s5 = {0, 1}" by (auto simp: n)
  ultimately show ?thesis by blast
qed

text \<open>With assertions compiled in, \<open>TSingletonInit::Get\<close> has no state in which it returns.\<close>

lemma init_Get_always_fails: "\<exists>e. init_Get True p = fail e"
  by (cases p) (simp_all add: init_Get_def)

end
