(* ===== verification/RenderCaches.thy ===== *)
theory RenderCaches
  imports Resources "HOL-Library.AList"
begin

unbundle bit_operations_syntax

text \<open>
  The vertex layouts and the caches of render passes, framebuffers and pipelines (\<open>Graphics/API/BufferLayout.*\<close>,
  \<open>RenderPass.*\<close>, \<open>Framebuffer.*\<close>, \<open>Pipeline.*\<close>, \<open>Utilities/CombineHash.h\<close>). A cache maps the combined hash of a description to
  a counted reference; it is the list of its entries in the order it is walked. The hash functions of the standard
  library, whose values it leaves open, are the fields of \<open>std_hash\<close>. Addresses of textures are numbers, as those of objects.
\<close>

section \<open>Vertex layouts\<close>

datatype Format = R32G32B32A32_UINT | R32G32B32_UINT | R32G32_UINT | R32_UINT | R8_UINT
  | R32G32B32A32_INT | R32G32B32_INT | R32G32_INT | R32_INT
  | R32G32B32A32_FLOAT | R32G32B32_FLOAT | R32G32_FLOAT | R32_FLOAT

record buffer_element =
  be_name :: string
  be_format :: Format
  be_offset :: u32
  be_normalized :: bool

record buffer_layout =
  bl_Size :: u32
  bl_Layout :: "buffer_element list"

definition buffer_layout_new :: buffer_layout where
  "buffer_layout_new = \<lparr>bl_Size = 0, bl_Layout = []\<rparr>"

definition layout_Push :: "string \<Rightarrow> Format \<Rightarrow> u32 \<Rightarrow> bool \<Rightarrow> buffer_layout \<Rightarrow> buffer_layout" where
  "layout_Push name format sz normalized l =
    l\<lparr>bl_Layout := bl_Layout l @ [\<lparr>be_name = name, be_format = format, be_offset = bl_Size l, be_normalized = normalized\<rparr>],
      bl_Size := bl_Size l + sz\<rparr>"

text \<open>The types \<open>Push\<close> is specialised for; any other type fails an assertion.\<close>

datatype vertex_type = V_uint32 | V_uint8 | V_float | V_Vector2 | V_Vector3 | V_Vector4 | V_IntVector3 | V_IntVector4 | V_other

fun type_format :: "vertex_type \<Rightarrow> Format option" where
  "type_format V_uint32 = Some R32_UINT"
| "type_format V_uint8 = Some R8_UINT"
| "type_format V_float = Some R32_FLOAT"
| "type_format V_Vector2 = Some R32G32_FLOAT"
| "type_format V_Vector3 = Some R32G32B32_FLOAT"
| "type_format V_Vector4 = Some R32G32B32A32_FLOAT"
| "type_format V_IntVector3 = Some R32G32B32_INT"
| "type_format V_IntVector4 = Some R32G32B32A32_INT"
| "type_format V_other = None"

fun type_size :: "vertex_type \<Rightarrow> u32" where
  "type_size V_uint32 = 4"
| "type_size V_uint8 = 1"
| "type_size V_float = 4"
| "type_size V_Vector2 = 8"
| "type_size V_Vector3 = 12"
| "type_size V_Vector4 = 16"
| "type_size V_IntVector3 = 12"
| "type_size V_IntVector4 = 16"
| "type_size V_other = 0"

definition layout_push :: "vertex_type \<Rightarrow> string \<Rightarrow> bool \<Rightarrow> buffer_layout \<Rightarrow> buffer_layout res" where
  "layout_push t name normalized l = (case type_format t of None \<Rightarrow> fail AssertFailed
     | Some f \<Rightarrow> ok (layout_Push name f (type_size t) normalized l))"

fun layout_of :: "(vertex_type \<times> string) list \<Rightarrow> buffer_layout \<Rightarrow> buffer_layout res" where
  "layout_of [] l = ok l"
| "layout_of ((t, name) # ts) l = rbind (layout_push t name False l) (layout_of ts)"

text \<open>What the OpenGL pipeline passes for an element: components and whether they are floats, and the calls for a layout.\<close>

datatype gl_type = GL_FLOAT | GL_UNSIGNED_BYTE | GL_UNSIGNED_INT | GL_INT

fun VertexAtrribPointer :: "Format \<Rightarrow> (nat \<times> gl_type) option" where
  "VertexAtrribPointer R32_FLOAT = Some (1, GL_FLOAT)"
| "VertexAtrribPointer R32G32_FLOAT = Some (2, GL_FLOAT)"
| "VertexAtrribPointer R32G32B32_FLOAT = Some (3, GL_FLOAT)"
| "VertexAtrribPointer R32G32B32A32_FLOAT = Some (4, GL_FLOAT)"
| "VertexAtrribPointer R8_UINT = Some (1, GL_UNSIGNED_BYTE)"
| "VertexAtrribPointer R32_UINT = Some (1, GL_UNSIGNED_INT)"
| "VertexAtrribPointer R32G32_UINT = Some (2, GL_UNSIGNED_INT)"
| "VertexAtrribPointer R32G32B32_UINT = Some (3, GL_UNSIGNED_INT)"
| "VertexAtrribPointer R32G32B32A32_UINT = Some (4, GL_UNSIGNED_INT)"
| "VertexAtrribPointer R32G32_INT = Some (2, GL_INT)"
| "VertexAtrribPointer R32G32B32_INT = Some (3, GL_INT)"
| "VertexAtrribPointer R32G32B32A32_INT = Some (4, GL_INT)"
| "VertexAtrribPointer R32_INT = None"

fun bind_attributes :: "nat \<Rightarrow> u32 \<Rightarrow> buffer_element list \<Rightarrow> (nat \<times> (nat \<times> gl_type) option \<times> u32 \<times> u32) list" where
  "bind_attributes index stride [] = []"
| "bind_attributes index stride (e # es) =
    (index, VertexAtrribPointer (be_format e), be_offset e, stride) # bind_attributes (index + 1) stride es"

definition BindVertexArray :: "buffer_layout \<Rightarrow> (nat \<times> (nat \<times> gl_type) option \<times> u32 \<times> u32) list" where
  "BindVertexArray l = bind_attributes 0 (bl_Size l) (bl_Layout l)"

definition mesh_layout :: "(vertex_type \<times> string) list" where
  "mesh_layout = [(V_Vector3, ''position''), (V_Vector4, ''colour''), (V_Vector2, ''uv''), (V_Vector3, ''normal''), (V_Vector3, ''tangent'')]"

section \<open>Descriptions and their hashes\<close>

datatype CullMode = CULL_FRONT | CULL_BACK | CULL_FRONTANDBACK | CULL_NONE
datatype PolygonMode = FILL | LINE | POINT_MODE
datatype DrawType = DRAW_POINT | DRAW_TRIANGLE | DRAW_LINES
datatype TextureType = TEX_COLOUR | TEX_DEPTH | TEX_DEPTHARRAY | TEX_CUBE | TEX_OTHER
datatype TextureFormat = TF_NONE | TF_R8 | TF_RG8 | TF_RGB8 | TF_RGBA8 | TF_RGB16 | TF_RGBA16 | TF_RGB32 | TF_RGBA32
  | TF_RGB | TF_RGBA | TF_DEPTH | TF_STENCIL | TF_DEPTH_STENCIL

record std_hash =
  hash_u32 :: "u32 \<Rightarrow> u64"
  hash_int :: "32 word \<Rightarrow> u64"
  hash_size :: "nat \<Rightarrow> u64"
  hash_bool :: "bool \<Rightarrow> u64"
  hash_ptr :: "addr option \<Rightarrow> u64"
  hash_string :: "string \<Rightarrow> u64"
  hash_cull :: "CullMode \<Rightarrow> u64"
  hash_polygon :: "PolygonMode \<Rightarrow> u64"
  hash_draw :: "DrawType \<Rightarrow> u64"
  hash_format :: "Format \<Rightarrow> u64"
  hash_texture_type :: "TextureType \<Rightarrow> u64"
  hash_texture_format :: "TextureFormat \<Rightarrow> u64"

fun HashCombine :: "u64 \<Rightarrow> u64 list \<Rightarrow> u64" where
  "HashCombine seed [] = seed"
| "HashCombine seed (v # rest) = HashCombine (seed XOR (v + 0x9e3779b9 + push_bit 6 seed + drop_bit 2 seed)) rest"

record renderpass_info =
  rp_textureType :: "(TextureType \<times> TextureFormat) list"
  rp_attachmentCount :: "32 word"
  rp_clear :: bool

record framebuffer_info =
  fb_width :: u32
  fb_height :: u32
  fb_layer :: u32
  fb_attachmentCount :: u32
  fb_screenFBO :: bool
  fb_attachments :: "addr option list"
  fb_attachmentTypes :: "TextureType list"
  fb_renderPass :: "addr option"

record pipeline_info =
  pi_renderpass :: reference
  pi_shader :: reference
  pi_layout :: buffer_layout
  pi_cullMode :: CullMode
  pi_polygonMode :: PolygonMode
  pi_drawType :: DrawType
  pi_transparencyEnabled :: bool
  pi_depthBiasEnabled :: bool

text \<open>The hashes of the elements up to a count that is read from the description.\<close>

definition hash_items :: "('a \<Rightarrow> u64 list) \<Rightarrow> nat \<Rightarrow> 'a list \<Rightarrow> u64 list res" where
  "hash_items f n xs = (if n \<le> length xs then ok (concat (map f (take n xs))) else fail OutOfRange)"

definition renderpass_key :: "std_hash \<Rightarrow> renderpass_info \<Rightarrow> u64 res" where
  "renderpass_key H i = rbind (hash_items (\<lambda>(t, f). [hash_texture_format H f, hash_texture_type H t]) (nat (sint (rp_attachmentCount i))) (rp_textureType i))
     (\<lambda>hs. ok (HashCombine (HashCombine 0 [hash_int H (rp_attachmentCount i), hash_bool H (rp_clear i)]) hs))"

definition framebuffer_key :: "std_hash \<Rightarrow> framebuffer_info \<Rightarrow> u64 res" where
  "framebuffer_key H i = rbind (hash_items (\<lambda>(t, a). [hash_texture_type H t, hash_ptr H a]) (unat (fb_attachmentCount i))
       (zip (fb_attachmentTypes i) (fb_attachments i)))
     (\<lambda>hs. ok (HashCombine (HashCombine 0 [hash_u32 H (fb_attachmentCount i), hash_u32 H (fb_width i), hash_u32 H (fb_height i),
        hash_u32 H (fb_layer i), hash_ptr H (fb_renderPass i), hash_bool H (fb_screenFBO i)]) hs))"

definition pipeline_key :: "std_hash \<Rightarrow> pipeline_info \<Rightarrow> u64 res" where
  "pipeline_key H i = (let
     hash = HashCombine 0 [hash_ptr H (m_Ptr (pi_shader i)), hash_cull H (pi_cullMode i), hash_bool H (pi_depthBiasEnabled i),
       hash_draw H (pi_drawType i), hash_polygon H (pi_polygonMode i), hash_bool H (pi_transparencyEnabled i), hash_ptr H (m_Ptr (pi_renderpass i))];
     hash = HashCombine hash [hash_u32 H (bl_Size (pi_layout i)), hash_size H (length (bl_Layout (pi_layout i)))]
   in ok (HashCombine hash (concat (map (\<lambda>e. [hash_string H (be_name e), hash_format H (be_format e), hash_bool H (be_normalized e),
       hash_u32 H (be_offset e)]) (bl_Layout (pi_layout i))))))"

section \<open>The caches\<close>

type_synonym cache = "(u64 \<times> reference) list"

text \<open>\<open>CreateFunc\<close> is set by the back end; every back end answers with a new object. An unset one fails the assertion of \<open>Create\<close>.\<close>

definition create_func :: "'i \<Rightarrow> heap \<Rightarrow> addr option \<times> heap" where
  "create_func info h = (let (p, h1) = new_object h in (Some p, h1))"

definition call_create :: "('i \<Rightarrow> heap \<Rightarrow> addr option \<times> heap) option \<Rightarrow> 'i \<Rightarrow> heap \<Rightarrow> (addr option \<times> heap) res" where
  "call_create f info h = (case f of None \<Rightarrow> fail AssertFailed | Some g \<Rightarrow> ok (g info h))"

text \<open>The entry of a hash that is missing is inserted as null, then assigned.\<close>

definition cache_lookup :: "('i \<Rightarrow> heap \<Rightarrow> addr option \<times> heap) option \<Rightarrow> 'i \<Rightarrow> u64 \<Rightarrow> cache \<Rightarrow> heap \<Rightarrow> (reference \<times> cache \<times> heap) res" where
  "cache_lookup create info hash c h = (let old = (case map_of c hash of None \<Rightarrow> ref_null | Some v \<Rightarrow> v) in
     if m_Ptr old \<noteq> None then rbind (ref_copy old h) (\<lambda>(v, h1). ok (v, c, h1))
     else rbind (call_create create info h) (\<lambda>(p, h1). let (v, h2) = ref_of_ptr p h1 in
       rbind (ref_ref v old h2) (\<lambda>(w, h3). ok (v, AList.update hash w c, h3))))"

definition cache_Get :: "('i \<Rightarrow> u64 res) \<Rightarrow> ('i \<Rightarrow> heap \<Rightarrow> addr option \<times> heap) option \<Rightarrow> 'i \<Rightarrow> cache \<Rightarrow> heap \<Rightarrow> (reference \<times> cache \<times> heap) res" where
  "cache_Get key create info c h = rbind (key info) (\<lambda>hash. cache_lookup create info hash c h)"

definition RenderPass_Get :: "std_hash \<Rightarrow> (renderpass_info \<Rightarrow> heap \<Rightarrow> addr option \<times> heap) option \<Rightarrow> renderpass_info \<Rightarrow> cache \<Rightarrow> heap \<Rightarrow> (reference \<times> cache \<times> heap) res" where
  "RenderPass_Get H = cache_Get (renderpass_key H)"

definition Framebuffer_Get :: "std_hash \<Rightarrow> (framebuffer_info \<Rightarrow> heap \<Rightarrow> addr option \<times> heap) option \<Rightarrow> framebuffer_info \<Rightarrow> cache \<Rightarrow> heap \<Rightarrow> (reference \<times> cache \<times> heap) res" where
  "Framebuffer_Get H = cache_Get (framebuffer_key H)"

definition Pipeline_Get :: "std_hash \<Rightarrow> (pipeline_info \<Rightarrow> heap \<Rightarrow> addr option \<times> heap) option \<Rightarrow> pipeline_info \<Rightarrow> cache \<Rightarrow> heap \<Rightarrow> (reference \<times> cache \<times> heap) res" where
  "Pipeline_Get H = cache_Get (pipeline_key H)"

text \<open>\<open>clear\<close> destroys the references of the entries.\<close>

fun ClearCache :: "cache \<Rightarrow> heap \<Rightarrow> (cache \<times> heap) res" where
  "ClearCache [] h = ok ([], h)"
| "ClearCache ((k, v) # c) h = rbind (ref_unref v h) (\<lambda>(v', h1). ClearCache c h1)"

fun DeleteUnusedCache :: "cache \<Rightarrow> heap \<Rightarrow> (cache \<times> heap) res" where
  "DeleteUnusedCache [] h = ok ([], h)"
| "DeleteUnusedCache ((k, v) # c) h =
    rbind (if m_Ptr v = None then ok False else rbind (get_counter (m_Counter v) h) (\<lambda>r. ok (rc_GetReferenceCount r = 1))) (\<lambda>unused.
    rbind (if unused then ref_reset None v h else ok (v, h)) (\<lambda>(v1, h1).
    rbind (DeleteUnusedCache c h1) (\<lambda>(c1, h2). ok ((k, v1) # c1, h2))))"

text \<open>A program over one of the caches: it gets an object by a description and keeps the handle, drops a handle, and the frame
  loop deletes what is unused or clears the cache.\<close>

datatype 'i cache_op = Get_Cached 'i | Drop_Handle nat | Delete_Unused | Clear_All

type_synonym 'i cache_state = "('i \<times> reference) list \<times> cache \<times> heap"

fun cache_step :: "('i \<Rightarrow> u64 res) \<Rightarrow> ('i \<Rightarrow> heap \<Rightarrow> addr option \<times> heap) option \<Rightarrow> 'i cache_op \<Rightarrow> 'i cache_state \<Rightarrow> 'i cache_state res" where
  "cache_step key create (Get_Cached i) (cs, c, h) = rbind (cache_Get key create i c h) (\<lambda>(v, c1, h1). ok ((i, v) # cs, c1, h1))"
| "cache_step key create (Drop_Handle n) (cs, c, h) =
    (if n < length cs then rbind (ref_unref (snd (cs ! n)) h) (\<lambda>(v, h1). ok (take n cs @ drop (Suc n) cs, c, h1)) else ok (cs, c, h))"
| "cache_step key create Delete_Unused (cs, c, h) = rbind (DeleteUnusedCache c h) (\<lambda>(c1, h1). ok (cs, c1, h1))"
| "cache_step key create Clear_All (cs, c, h) = rbind (ClearCache c h) (\<lambda>(c1, h1). ok (cs, c1, h1))"

fun cache_run :: "('i \<Rightarrow> u64 res) \<Rightarrow> ('i \<Rightarrow> heap \<Rightarrow> addr option \<times> heap) option \<Rightarrow> 'i cache_op list \<Rightarrow> 'i cache_state \<Rightarrow> 'i cache_state res" where
  "cache_run key create [] s = ok s"
| "cache_run key create (x # xs) s = rbind (cache_step key create x s) (cache_run key create xs)"

section \<open>Layouts are exact\<close>

fun gl_size :: "gl_type \<Rightarrow> nat" where
  "gl_size GL_FLOAT = 4"
| "gl_size GL_UNSIGNED_BYTE = 1"
| "gl_size GL_UNSIGNED_INT = 4"
| "gl_size GL_INT = 4"

abbreviation sizes_of :: "(vertex_type \<times> string) list \<Rightarrow> nat list" where
  "sizes_of ts \<equiv> map (\<lambda>(t, name). unat (type_size t)) ts"

lemma attribute_covers_type:
  "type_format t = Some f \<Longrightarrow> \<exists>n g. VertexAtrribPointer f = Some (n, g) \<and> n * gl_size g = unat (type_size t)"
  by (cases t) auto

lemma layout_of_offsets:
  assumes "V_other \<notin> fst ` set ts" and "unat (bl_Size l) + sum_list (sizes_of ts) < 2 ^ 32"
  shows "\<exists>l'. layout_of ts l = ok l' \<and> unat (bl_Size l') = unat (bl_Size l) + sum_list (sizes_of ts)
    \<and> (\<exists>es. bl_Layout l' = bl_Layout l @ es \<and> length es = length ts
      \<and> (\<forall>j < length ts. type_format (fst (ts ! j)) = Some (be_format (es ! j))
          \<and> unat (be_offset (es ! j)) = unat (bl_Size l) + sum_list (take j (sizes_of ts))))"
  using assms
proof (induction ts arbitrary: l)
  case (Cons x ts)
  obtain t name where x: "x = (t, name)" by (cases x)
  obtain f where f: "type_format t = Some f" using Cons.prems(1) x by (cases t) auto
  let ?e = "\<lparr>be_name = name, be_format = f, be_offset = bl_Size l, be_normalized = False\<rparr>"
  let ?l = "layout_Push name f (type_size t) False l"
  have sz: "unat (bl_Size ?l) = unat (bl_Size l) + unat (type_size t)"
    using Cons.prems(2) x by (simp add: layout_Push_def unat_word_ariths)
  obtain l' es where l': "layout_of ts ?l = ok l'" "unat (bl_Size l') = unat (bl_Size ?l) + sum_list (sizes_of ts)"
    "bl_Layout l' = bl_Layout ?l @ es" "length es = length ts"
    "\<forall>j < length ts. type_format (fst (ts ! j)) = Some (be_format (es ! j))
          \<and> unat (be_offset (es ! j)) = unat (bl_Size ?l) + sum_list (take j (sizes_of ts))"
    using Cons.IH [of ?l] Cons.prems sz x by auto
  have "type_format (fst ((x # ts) ! j)) = Some (be_format ((?e # es) ! j))
      \<and> unat (be_offset ((?e # es) ! j)) = unat (bl_Size l) + sum_list (take j (sizes_of (x # ts)))" if "j < length (x # ts)" for j
    using that l'(5) f sz x by (cases j) simp_all
  then show ?case using l'(1-4) f sz x
    by (intro exI [of _ l'] conjI) (auto simp: layout_push_def layout_Push_def intro!: exI [of _ "?e # es"])
qed auto

lemma bind_attributes_nth:
  "j < length es \<Longrightarrow> bind_attributes i st es ! j = (i + j, VertexAtrribPointer (be_format (es ! j)), be_offset (es ! j), st)"
  by (induction i st es arbitrary: j rule: bind_attributes.induct) (auto simp: nth_Cons split: nat.split)

lemma bind_attributes_length [simp]: "length (bind_attributes i st es) = length es"
  by (induction i st es rule: bind_attributes.induct) auto

text \<open>The attributes of a layout tile the vertex, in order and without gaps.\<close>

lemma attributes_tile_vertex:
  assumes "V_other \<notin> fst ` set ts" and "sum_list (sizes_of ts) < 2 ^ 32"
  shows "\<exists>l. layout_of ts buffer_layout_new = ok l \<and> length (BindVertexArray l) = length ts
    \<and> (\<forall>j < length ts. \<exists>n g off st. BindVertexArray l ! j = (j, Some (n, g), off, st) \<and> n * gl_size g = sizes_of ts ! j
        \<and> unat off = sum_list (take j (sizes_of ts)) \<and> unat st = sum_list (sizes_of ts))"
proof -
  obtain l es where l: "layout_of ts buffer_layout_new = ok l" "unat (bl_Size l) = sum_list (sizes_of ts)" "bl_Layout l = es" "length es = length ts"
    "\<forall>j < length ts. type_format (fst (ts ! j)) = Some (be_format (es ! j)) \<and> unat (be_offset (es ! j)) = sum_list (take j (sizes_of ts))"
    using layout_of_offsets [of ts buffer_layout_new] assms by (auto simp: buffer_layout_new_def)
  have "\<exists>n g off st. BindVertexArray l ! j = (j, Some (n, g), off, st) \<and> n * gl_size g = sizes_of ts ! j
        \<and> unat off = sum_list (take j (sizes_of ts)) \<and> unat st = sum_list (sizes_of ts)" if j: "j < length ts" for j
  proof -
    obtain n g where "VertexAtrribPointer (be_format (es ! j)) = Some (n, g)" "n * gl_size g = unat (type_size (fst (ts ! j)))"
      using attribute_covers_type l(5) j by blast
    then show ?thesis using l j by (simp add: BindVertexArray_def bind_attributes_nth case_prod_unfold)
  qed
  then show ?thesis using l by (auto simp: BindVertexArray_def)
qed

section \<open>Hashes\<close>

lemma HashCombine_append: "HashCombine s (vs @ ws) = HashCombine (HashCombine s vs) ws"
  by (induction s vs rule: HashCombine.induct) simp_all

text \<open>The last value combined is determined by the result; hence every seed and result have a value that leads from one to the other.\<close>

lemma xor_cancel: "a XOR x = a XOR y \<longleftrightarrow> x = (y :: 'w :: len word)"
  by (metis xor.left_neutral xor.assoc xor_self_eq)

lemma HashCombine_last: "HashCombine s (vs @ [a]) = HashCombine s (vs @ [b]) \<longleftrightarrow> a = b"
  by (simp add: HashCombine_append xor_cancel)

lemma HashCombine_reach: "\<exists>v. HashCombine s [v] = t"
proof
  let ?v = "(s XOR t) - (0x9e3779b9 + push_bit 6 s + drop_bit 2 s)"
  have "?v + 0x9e3779b9 + push_bit 6 s + drop_bit 2 s = s XOR t" by (simp add: algebra_simps)
  then show "HashCombine s [?v] = t" by (simp add: xor.assoc [symmetric])
qed

text \<open>A render pass at the right address makes up for any other width: the caches compare hashes, not descriptions.\<close>

lemma framebuffer_keys_collide:
  assumes "surj (hash_ptr H)"
  shows "\<exists>p. framebuffer_key H (i\<lparr>fb_width := w, fb_renderPass := p\<rparr>) = framebuffer_key H i"
proof -
  let ?s = "\<lambda>j. HashCombine 0 [hash_u32 H (fb_attachmentCount j), hash_u32 H (fb_width j), hash_u32 H (fb_height j), hash_u32 H (fb_layer j)]"
  have split: "HashCombine 0 [a, b, c, d, e, f] = HashCombine (HashCombine (HashCombine 0 [a, b, c, d]) [e]) [f]" for a b c d e f
    using HashCombine_append [of 0 "[a, b, c, d]" "[e, f]"] HashCombine_append [of _ "[e]" "[f]"] by (metis append_Cons append_Nil)
  let ?j = "i\<lparr>fb_width := w\<rparr>"
  obtain v where v: "HashCombine (?s ?j) [v] = HashCombine (?s i) [hash_ptr H (fb_renderPass i)]" using HashCombine_reach by blast
  obtain p where "v = hash_ptr H p" using assms by (rule surjE)
  then show ?thesis using v unfolding framebuffer_key_def split
    by (intro exI [of _ p]) (simp del: HashCombine.simps)
qed

section \<open>The invariant of a cache\<close>

text \<open>References of equal objects belong to equal keys.\<close>

definition one_key :: "(u64 res \<times> reference) list \<Rightarrow> bool" where
  "one_key ts \<longleftrightarrow> (\<forall>a \<in> set ts. \<forall>b \<in> set ts. m_Ptr (snd a) = m_Ptr (snd b) \<and> m_Ptr (snd a) \<noteq> None \<longrightarrow> fst a = fst b)"

definition tagged :: "('i \<Rightarrow> u64 res) \<Rightarrow> ('i \<times> reference) list \<Rightarrow> cache \<Rightarrow> (u64 res \<times> reference) list" where
  "tagged key cs c = map (\<lambda>(i, v). (key i, v)) cs @ map (\<lambda>(k, v). (ok k, v)) c"

definition cache_ok :: "('i \<Rightarrow> u64 res) \<Rightarrow> 'i cache_state \<Rightarrow> bool" where
  "cache_ok key = (\<lambda>(cs, c, h). shared_inv {} (map snd cs @ map snd c) h \<and> distinct (map fst c) \<and> one_key (tagged key cs c)
     \<and> (\<forall>x \<in> set cs. m_Ptr (snd x) \<noteq> None))"

text \<open>As long as nobody clears the cache, the object of every handle is the one of its entry.\<close>

definition cache_shares :: "('i \<Rightarrow> u64 res) \<Rightarrow> 'i cache_state \<Rightarrow> bool" where
  "cache_shares key = (\<lambda>(cs, c, h). \<forall>x \<in> set cs. \<exists>k. key (fst x) = ok k \<and> map_of c k = Some (snd x))"

lemma one_key_mono: "one_key ts \<Longrightarrow> set us \<subseteq> set ts \<Longrightarrow> one_key us"
  unfolding one_key_def by blast

lemma one_key_fresh:
  assumes "one_key ts" and "set us \<subseteq> insert (k, v) (set ts)" and "m_Ptr v \<notin> m_Ptr ` snd ` set ts"
  shows "one_key us"
  unfolding one_key_def
proof (intro ballI impI)
  fix a b assume a: "a \<in> set us" "b \<in> set us" "m_Ptr (snd a) = m_Ptr (snd b) \<and> m_Ptr (snd a) \<noteq> None"
  have "x = (k, v) \<or> x \<in> set ts \<and> m_Ptr (snd x) \<noteq> m_Ptr v" if x: "x \<in> set us" for x
  proof -
    have "x = (k, v) \<or> x \<in> set ts" using x assms(2) by blast
    moreover have "m_Ptr (snd x) \<noteq> m_Ptr v" if "x \<in> set ts" using assms(3) that by (metis imageI)
    ultimately show ?thesis by blast
  qed
  then show "fst a = fst b" using a assms(1) by (metis one_key_def snd_conv)
qed

lemma set_AList_update: "set (AList.update k v c) \<subseteq> insert (k, v) (set c)"
  by (induction c) auto

lemma set_tagged_update: "set (tagged key cs (AList.update k v c)) \<subseteq> insert (ok k, v) (set (tagged key cs c))"
  using set_AList_update [of k v c] by (auto simp: tagged_def)

lemma mset_AList_update:
  assumes "distinct (map fst c)"
  shows "mset ((case map_of c k of None \<Rightarrow> ref_null | Some w \<Rightarrow> w) # map snd (AList.update k v c))
    = mset (v # map snd c @ (if map_of c k = None then [ref_null] else []))"
  using assms by (induction c) auto

lemma cache_lookup_hit:
  assumes ok: "cache_ok key (cs, c, h)" and k: "key i = ok k" and e: "map_of c k = Some v" "m_Ptr v \<noteq> None"
    and n: "length cs + length c + 1 < 2 ^ 32"
  shows "\<exists>h'. cache_lookup create i k c h = ok (v, c, h') \<and> cache_ok key ((i, v) # cs, c, h')"
proof -
  have v: "(k, v) \<in> set c" using e(1) by (rule map_of_SomeD)
  then have "v \<in> set (map snd cs @ map snd c)" by force
  then obtain h' where h': "ref_copy v h = ok (v, h')" "shared_inv {} (v # map snd cs @ map snd c) h'"
    using copy_head [of "map snd cs @ map snd c" h v] ok n by (auto simp: cache_ok_def)
  have "set (tagged key ((i, v) # cs) c) \<subseteq> set (tagged key cs c)" using v k by (force simp: tagged_def)
  then have "one_key (tagged key ((i, v) # cs) c)" using ok one_key_mono by (fastforce simp: cache_ok_def)
  then show ?thesis using h' e ok by (simp add: cache_lookup_def cache_ok_def)
qed

text \<open>What a cache needs of the back end: each call creates a new object.\<close>

locale backend =
  fixes create :: "'i \<Rightarrow> heap \<Rightarrow> addr option \<times> heap"
  assumes creates: "shared_inv {} vs h \<Longrightarrow> \<exists>p h'. create i h = (Some p, h') \<and> shared_inv {p} vs h'"
begin

lemma fresh_reference:
  assumes "shared_inv {} vs h"
  shows "\<exists>po h1 v h2. create i h = (po, h1) \<and> ref_of_ptr po h1 = (v, h2) \<and> shared_inv {} (v # vs) h2 \<and> m_Ptr v \<noteq> None \<and> m_Ptr v \<notin> m_Ptr ` set vs"
proof -
  obtain p h1 where p: "create i h = (Some p, h1)" "shared_inv {p} vs h1" using creates [OF assms] by blast
  then have inv: "shared_inv {p} (ref_null # vs) h1" by (simp add: shared_inv_null)
  obtain v h2 where v: "ref_of_ptr (Some p) h1 = (v, h2)" "shared_inv {} (v # vs) h2" using ref_fresh_ok [OF inv, of 0 p] by auto
  have "m_Ptr v = Some p" using v(1) by (auto simp: ref_of_ptr_def ref_refPointer_def split: prod.splits)
  moreover from this have "m_Ptr v \<notin> m_Ptr ` set vs" using p(2) by (auto simp: shared_inv_def pointed_def)
  ultimately show ?thesis using p(1) v by blast
qed

lemma cache_lookup_miss:
  assumes ok: "cache_ok key (cs, c, h)" and k: "key i = Inr k" and e: "m_Ptr (case map_of c k of None \<Rightarrow> ref_null | Some v \<Rightarrow> v) = None"
    and n: "length cs + length c + 2 < 2 ^ 32"
  shows "\<exists>v h'. cache_lookup (Some create) i k c h = Inr (v, AList.update k v c, h') \<and> m_Ptr v \<noteq> None
    \<and> cache_ok key ((i, v) # cs, AList.update k v c, h')"
proof -
  let ?vs = "map snd cs @ map snd c" and ?old = "case map_of c k of None \<Rightarrow> ref_null | Some v \<Rightarrow> v"
  have inv: "shared_inv {} ?vs h" using ok by (simp add: cache_ok_def)
  have "?old \<in> insert ref_null (set ?vs)" by (cases "map_of c k") (auto dest!: map_of_SomeD intro: rev_image_eqI)
  then have old: "?old = ref_null"
    using e refs_agree_null [of ?vs ?old] inv by (cases ?old) (auto simp: ref_null_def shared_inv_def)
  obtain po h1 v h2 where v: "create i h = (po, h1)" "ref_of_ptr po h1 = (v, h2)" "shared_inv {} (v # ?vs) h2" "m_Ptr v \<noteq> None"
    "m_Ptr v \<notin> m_Ptr ` set ?vs" using fresh_reference [OF inv] by blast
  obtain h3 where h3: "ref_copy v h2 = Inr (v, h3)" "shared_inv {} (v # v # ?vs) h3" using copy_head [OF v(3), of v] n by auto
  let ?c = "AList.update k v c"
  have "mset (ref_null # map snd ?c) = mset (v # map snd c @ (if map_of c k = None then [ref_null] else []))"
    using mset_AList_update [of c k v] ok old by (simp add: cache_ok_def)
  then have m: "mset (ref_null # v # map snd cs @ map snd ?c) = mset ((if map_of c k = None then [ref_null] else []) @ v # v # ?vs)"
    by simp
  have "shared_inv {} ((if map_of c k = None then [ref_null] else []) @ v # v # ?vs) h3" using h3(2) by (simp add: shared_inv_null)
  then have "shared_inv {} (map snd ((i, v) # cs) @ map snd ?c) h3"
    using shared_inv_perm [OF m, of "{}" h3] by (simp add: shared_inv_null)
  moreover have "one_key (tagged key ((i, v) # cs) ?c)"
  proof (rule one_key_fresh)
    show "one_key (tagged key cs c)" using ok by (simp add: cache_ok_def)
    show "set (tagged key ((i, v) # cs) ?c) \<subseteq> insert (Inr k, v) (set (tagged key cs c))"
      using set_tagged_update [of key cs k v c] k by (auto simp: tagged_def)
    show "m_Ptr v \<notin> m_Ptr ` snd ` set (tagged key cs c)" using v(5) by (force simp: tagged_def)
  qed
  ultimately have "cache_ok key ((i, v) # cs, ?c, h3)" using ok v(4) by (simp add: cache_ok_def distinct_update)
  then show ?thesis using e old v(1,2,4) h3(1) by (simp add: cache_lookup_def call_create_def ref_copy_eq)
qed

end

lemma create_func_ok: "shared_inv {} vs h \<Longrightarrow> \<exists>p h'. create_func i h = (Some p, h') \<and> shared_inv {p} vs h'"
  using new_object_inv [of vs h] by (cases "new_object h") (simp add: create_func_def)

interpretation backends: backend create_func
  by unfold_locales (rule create_func_ok)

section \<open>The operations keep the invariant\<close>

lemma unused_test:
  assumes "shared_inv {} (vs @ v # ws) h" and "m_Ptr v \<noteq> None \<longrightarrow> m_Ptr v \<notin> m_Ptr ` set ws"
  shows "(if m_Ptr v = None then ok False else rbind (get_counter (m_Counter v) h) (\<lambda>r. ok (rc_GetReferenceCount r = 1)))
    = ok (m_Ptr v \<noteq> None \<and> m_Ptr v \<notin> m_Ptr ` set vs)"
proof (cases "m_Ptr v")
  case (Some p)
  then have "Some p \<notin> m_Ptr ` set ws" using assms(2) by simp
  then obtain c r where "m_Counter v = Some c" "get_counter (Some c) h = ok r" "rc_GetReferenceCount r = 1 \<longleftrightarrow> \<not> pointed vs p"
    using only_the_map_counts [OF assms(1) Some] by blast
  moreover have "Some p \<in> m_Ptr ` set vs \<longleftrightarrow> pointed vs p" by (auto simp: pointed_def image_iff eq_commute)
  ultimately show ?thesis using Some by simp
qed simp

text \<open>What \<open>DeleteUnusedCache\<close> leaves: the keys, and the references to objects held elsewhere.\<close>

definition keep_used :: "reference list \<Rightarrow> cache \<Rightarrow> cache" where
  "keep_used vs c = map (\<lambda>(k, v). (k, if m_Ptr v \<in> m_Ptr ` set vs then v else ref_null)) c"

lemma keep_used_simps [simp]:
  "keep_used vs [] = []" "keep_used vs ((k, v) # c) = (k, if m_Ptr v \<in> m_Ptr ` set vs then v else ref_null) # keep_used vs c"
  by (simp_all add: keep_used_def)

lemma shared_inv_mid_null: "shared_inv raw (vs @ ref_null # ws) h \<longleftrightarrow> shared_inv raw (vs @ ws) h"
  using shared_inv_perm [of "vs @ ref_null # ws" "ref_null # vs @ ws"] by (simp add: shared_inv_null)

lemma DeleteUnusedCache_ok:
  assumes "shared_inv {} (vs @ map snd c) h" and "length vs + length c < 2 ^ 32" and "distinct (map fst c)"
    and "\<forall>a \<in> set c. \<forall>b \<in> set c. m_Ptr (snd a) = m_Ptr (snd b) \<and> m_Ptr (snd a) \<noteq> None \<longrightarrow> fst a = fst b"
  shows "\<exists>h'. DeleteUnusedCache c h = ok (keep_used vs c, h') \<and> shared_inv {} (vs @ map snd (keep_used vs c)) h'"
  using assms
proof (induction c arbitrary: vs h)
  case (Cons x c)
  obtain k v where x: "x = (k, v)" by (cases x)
  have fresh: "m_Ptr v \<notin> m_Ptr ` snd ` set c" if p: "m_Ptr v \<noteq> None"
  proof
    assume "m_Ptr v \<in> m_Ptr ` snd ` set c"
    then obtain y where y: "y \<in> set c" "m_Ptr (snd y) = m_Ptr v" by auto
    then have "fst y = k" using Cons.prems(4) x p by (metis fst_conv list.set_intros snd_conv)
    then show False using y(1) Cons.prems(3) x by auto
  qed
  then have t: "(if m_Ptr v = None then ok False else rbind (get_counter (m_Counter v) h) (\<lambda>r. ok (rc_GetReferenceCount r = 1)))
    = ok (m_Ptr v \<noteq> None \<and> m_Ptr v \<notin> m_Ptr ` set vs)"
    using unused_test [of vs v "map snd c" h] Cons.prems(1) x by auto
  have inv: "shared_inv {} (v # vs @ map snd c) h"
    using Cons.prems(1) x shared_inv_perm [of "v # vs @ map snd c" "vs @ v # map snd c"] by simp
  have agr: "refs_agree (vs @ v # map snd c)" using Cons.prems(1) x by (simp add: shared_inv_def)
  have rest: "distinct (map fst c)" "\<forall>a \<in> set c. \<forall>b \<in> set c. m_Ptr (snd a) = m_Ptr (snd b) \<and> m_Ptr (snd a) \<noteq> None \<longrightarrow> fst a = fst b"
    using Cons.prems(3) by simp (use Cons.prems(4) in \<open>meson list.set_intros(2)\<close>)
  have nul: "v = ref_null" if "m_Ptr v = None" using refs_agree_null [OF agr, of v] that by (cases v) (simp add: ref_null_def)
  show ?case
  proof (cases "m_Ptr v \<noteq> None \<and> m_Ptr v \<in> m_Ptr ` set vs")
    case True
    have "shared_inv {} ((vs @ [v]) @ map snd c) h" "length (vs @ [v]) + length c < 2 ^ 32" using Cons.prems(1,2) x by simp_all
    then obtain h' where h': "DeleteUnusedCache c h = ok (keep_used (vs @ [v]) c, h')" "shared_inv {} ((vs @ [v]) @ map snd (keep_used (vs @ [v]) c)) h'"
      using Cons.IH [OF _ _ rest] by blast
    have "m_Ptr ` set (vs @ [v]) = m_Ptr ` set vs" using True by auto
    then have "keep_used (vs @ [v]) c = keep_used vs c" by (simp only: keep_used_def)
    then show ?thesis using h' t True x by simp
  next
    case False
    obtain h1 where h1: "(if m_Ptr v \<noteq> None \<and> m_Ptr v \<notin> m_Ptr ` set vs then ref_reset None v h else ok (v, h)) = ok (ref_null, h1)"
      "shared_inv {} (vs @ map snd c) h1"
    proof (cases "m_Ptr v")
      case None
      then show ?thesis using nul inv that by (simp add: shared_inv_null)
    next
      case (Some p)
      obtain w h1 where "ref_unref v h = ok (w, h1)" "shared_inv {} (vs @ map snd c) h1" using unref_head [OF inv] Cons.prems(2) x by auto
      then show ?thesis using that Some False by (simp add: ref_reset_def ref_of_ptr_def)
    qed
    have "length vs + length c < 2 ^ 32" using Cons.prems(2) by simp
    then obtain h' where "DeleteUnusedCache c h1 = ok (keep_used vs c, h')" "shared_inv {} (vs @ map snd (keep_used vs c)) h'"
      using Cons.IH [OF h1(2) _ rest] by blast
    moreover have "(if m_Ptr v \<in> m_Ptr ` set vs then v else ref_null) = ref_null" using False nul by auto
    ultimately show ?thesis using t h1(1) x by (simp add: shared_inv_mid_null)
  qed
qed simp

lemma ClearCache_ok:
  assumes "shared_inv {} (vs @ map snd c) h" and "length vs + length c < 2 ^ 32"
  shows "\<exists>h'. ClearCache c h = ok ([], h') \<and> shared_inv {} vs h'"
  using assms
proof (induction c arbitrary: h)
  case (Cons x c)
  obtain k v where x: "x = (k, v)" by (cases x)
  have "shared_inv {} (v # vs @ map snd c) h"
    using Cons.prems(1) x shared_inv_perm [of "v # vs @ map snd c" "vs @ v # map snd c"] by simp
  then obtain w h1 where w: "ref_unref v h = ok (w, h1)" "shared_inv {} (vs @ map snd c) h1"
    using unref_head [of "{}" v "vs @ map snd c" h] Cons.prems(2) by auto
  then show ?case using Cons.IH [OF w(2)] Cons.prems(2) x by auto
qed auto

lemma one_key_entries:
  assumes "one_key (tagged key cs c)"
  shows "\<forall>a \<in> set c. \<forall>b \<in> set c. m_Ptr (snd a) = m_Ptr (snd b) \<and> m_Ptr (snd a) \<noteq> None \<longrightarrow> fst a = fst b"
proof (intro ballI impI)
  fix a b assume ab: "a \<in> set c" "b \<in> set c" "m_Ptr (snd a) = m_Ptr (snd b) \<and> m_Ptr (snd a) \<noteq> None"
  have "(ok (fst x), snd x) \<in> set (tagged key cs c)" if "x \<in> set c" for x using that by (force simp: tagged_def)
  then show "fst a = fst b" using ab assms unfolding one_key_def by (metis Inr_inject fst_conv snd_conv)
qed

lemma keep_used_tagged:
  assumes "one_key (tagged key cs c)"
  shows "one_key (tagged key cs (keep_used vs c))"
  unfolding one_key_def
proof (intro ballI impI)
  fix a b assume ab: "a \<in> set (tagged key cs (keep_used vs c))" "b \<in> set (tagged key cs (keep_used vs c))"
    "m_Ptr (snd a) = m_Ptr (snd b) \<and> m_Ptr (snd a) \<noteq> None"
  have "x \<in> set (tagged key cs c)" if "x \<in> set (tagged key cs (keep_used vs c))" "m_Ptr (snd x) \<noteq> None" for x
    using that by (auto simp: tagged_def keep_used_def ref_null_def split: if_splits intro: rev_image_eqI)
  then show "fst a = fst b" using ab assms unfolding one_key_def by metis
qed

lemma cache_Delete_ok:
  assumes "cache_ok key (cs, c, h)" and "length cs + length c < 2 ^ 32"
  shows "\<exists>h'. DeleteUnusedCache c h = ok (keep_used (map snd cs) c, h') \<and> cache_ok key (cs, keep_used (map snd cs) c, h')"
proof -
  have k: "map fst (keep_used (map snd cs) c) = map fst c" by (simp add: keep_used_def comp_def case_prod_unfold)
  then show ?thesis
    using DeleteUnusedCache_ok [of "map snd cs" c h] keep_used_tagged [of key cs c] one_key_entries [of key cs c] assms
    by (auto simp: cache_ok_def)
qed

lemma keep_used_shares: "cache_shares key (cs, c, h) \<Longrightarrow> cache_shares key (cs, keep_used (map snd cs) c, h')"
proof -
  have "map_of (keep_used vs c) k = map_option (\<lambda>v. if m_Ptr v \<in> m_Ptr ` set vs then v else ref_null) (map_of c k)" for vs k
    by (induction c) auto
  then show "cache_shares key (cs, c, h) \<Longrightarrow> cache_shares key (cs, keep_used (map snd cs) c, h')"
    by (fastforce simp: cache_shares_def)
qed

lemma cache_drop_ok:
  assumes "cache_ok key (cs, c, h)" and "n < length cs" and "length cs + length c < 2 ^ 32"
  shows "\<exists>v h'. ref_unref (snd (cs ! n)) h = ok (v, h') \<and> cache_ok key (take n cs @ drop (Suc n) cs, c, h')
    \<and> set (take n cs @ drop (Suc n) cs) \<subseteq> set cs"
proof -
  let ?cs = "take n cs @ drop (Suc n) cs"
  have m: "mset (cs ! n # ?cs) = mset cs" using id_take_nth_drop [OF assms(2)] by (metis mset_append mset.simps(2) add_mset_add_single union_assoc union_commute)
  then have "mset (map snd (cs ! n # ?cs)) = mset (map snd cs)" by (metis mset_map)
  then have "mset (snd (cs ! n) # map snd ?cs @ map snd c) = mset (map snd cs @ map snd c)" by simp
  then have "shared_inv {} (snd (cs ! n) # map snd ?cs @ map snd c) h"
    using assms(1) shared_inv_perm [of "snd (cs ! n) # map snd ?cs @ map snd c" "map snd cs @ map snd c"] by (simp add: cache_ok_def)
  moreover have l: "Suc (length (map snd ?cs @ map snd c)) < 2 ^ 32" using assms(2,3) by simp
  ultimately obtain v h' where v: "ref_unref (snd (cs ! n)) h = ok (v, h')" "shared_inv {} (map snd ?cs @ map snd c) h'"
    using unref_head [of "{}" "snd (cs ! n)" "map snd ?cs @ map snd c" h] l by blast
  have sub: "set ?cs \<subseteq> set cs" using set_take_subset set_drop_subset by fastforce
  then have "set (tagged key ?cs c) \<subseteq> set (tagged key cs c)" by (auto simp: tagged_def)
  then have "one_key (tagged key ?cs c)" using assms(1) one_key_mono by (fastforce simp: cache_ok_def)
  then show ?thesis using v assms(1) sub by (auto simp: cache_ok_def)
qed

text \<open>A cache state is in order; without a clear it also shares.\<close>

definition cache_good :: "('i \<Rightarrow> u64 res) \<Rightarrow> bool \<Rightarrow> 'i cache_state \<Rightarrow> bool" where
  "cache_good key cleared s \<longleftrightarrow> cache_ok key s \<and> (\<not> cleared \<longrightarrow> cache_shares key s)"

lemma cache_step_good:
  assumes g: "cache_good key b (cs, c, h)" and n: "length cs + length c + 2 < 2 ^ 32"
    and k: "\<forall>i. x = Get_Cached i \<longrightarrow> (\<exists>k. key i = ok k)"
  shows "\<exists>cs' c' h'. cache_step key (Some create_func) x (cs, c, h) = ok (cs', c', h') \<and> cache_good key (b \<or> x = Clear_All) (cs', c', h')
    \<and> length cs' + length c' \<le> length cs + length c + 2"
proof (cases x)
  case (Get_Cached i)
  obtain k where ki: "key i = ok k" using k Get_Cached by blast
  let ?old = "case map_of c k of None \<Rightarrow> ref_null | Some v \<Rightarrow> v"
  show ?thesis
  proof (cases "m_Ptr ?old = None")
    case False
    then obtain v where v: "map_of c k = Some v" "m_Ptr v \<noteq> None" by (cases "map_of c k") (auto simp: ref_null_def)
    then show ?thesis using cache_lookup_hit [of key cs c h i k v "Some create_func"] g n ki Get_Cached
      by (fastforce simp: cache_good_def cache_Get_def cache_shares_def)
  next
    case True
    obtain v h' where v: "cache_lookup (Some create_func) i k c h = ok (v, AList.update k v c, h')" "m_Ptr v \<noteq> None"
      "cache_ok key ((i, v) # cs, AList.update k v c, h')"
      using backends.cache_lookup_miss [of key cs c h i k] g n ki True by (auto simp: cache_good_def)
    have "cache_shares key ((i, v) # cs, AList.update k v c, h')" if "cache_shares key (cs, c, h)"
    proof -
      have "\<exists>k'. key (fst y) = ok k' \<and> map_of (AList.update k v c) k' = Some (snd y)" if y: "y \<in> set cs" for y
      proof -
        obtain k' where "key (fst y) = ok k'" "map_of c k' = Some (snd y)" using \<open>cache_shares key (cs, c, h)\<close> y by (auto simp: cache_shares_def)
        moreover have "m_Ptr (snd y) \<noteq> None" using g y by (auto simp: cache_good_def cache_ok_def)
        ultimately show ?thesis using True by (auto simp: update_conv')
      qed
      then show ?thesis using ki by (simp add: cache_shares_def update_conv')
    qed
    moreover have "length (AList.update k v c) \<le> Suc (length c)"
      using update_keys [of k v c] by (metis (no_types, lifting) length_append_singleton length_map le_Suc_eq order_refl)
    ultimately show ?thesis using v g ki Get_Cached by (auto simp: cache_good_def cache_Get_def)
  qed
next
  case (Drop_Handle m)
  then show ?thesis using cache_drop_ok [of key cs c h m] g n by (cases "m < length cs") (fastforce simp: cache_good_def cache_shares_def)+
next
  case Delete_Unused
  then show ?thesis using cache_Delete_ok [of key cs c h] keep_used_shares g n by (fastforce simp: cache_good_def keep_used_def)
next
  case Clear_All
  obtain h' where h': "ClearCache c h = ok ([], h')" "shared_inv {} (map snd cs) h'"
    using ClearCache_ok [of "map snd cs" c h] g n by (auto simp: cache_good_def cache_ok_def)
  have "set (tagged key cs []) \<subseteq> set (tagged key cs c)" by (auto simp: tagged_def)
  then have "one_key (tagged key cs [])" using g one_key_mono by (fastforce simp: cache_good_def cache_ok_def)
  then show ?thesis using h' g Clear_All by (simp add: cache_good_def cache_ok_def)
qed

lemma cache_run_good:
  assumes "cache_good key b (cs, c, h)" and "length cs + length c + 2 * length ops + 2 < 2 ^ 32"
    and "\<forall>i. Get_Cached i \<in> set ops \<longrightarrow> (\<exists>k. key i = ok k)"
  shows "\<exists>cs' c' h'. cache_run key (Some create_func) ops (cs, c, h) = ok (cs', c', h') \<and> cache_good key (b \<or> Clear_All \<in> set ops) (cs', c', h')
    \<and> length cs' + length c' \<le> length cs + length c + 2 * length ops"
  using assms
proof (induction ops arbitrary: cs c h b)
  case (Cons x xs)
  obtain cs1 c1 h1 where 1: "cache_step key (Some create_func) x (cs, c, h) = ok (cs1, c1, h1)" "cache_good key (b \<or> x = Clear_All) (cs1, c1, h1)"
    "length cs1 + length c1 \<le> length cs + length c + 2"
    using cache_step_good [OF Cons.prems(1), of x] Cons.prems(2,3) by auto
  have "length cs1 + length c1 + 2 * length xs + 2 < 2 ^ 32" "\<forall>i. Get_Cached i \<in> set xs \<longrightarrow> (\<exists>k. key i = ok k)"
    using 1(3) Cons.prems(2,3) by auto
  from Cons.IH [OF 1(2) this] obtain cs' c' h' where 2: "cache_run key (Some create_func) xs (cs1, c1, h1) = ok (cs', c', h')"
    "cache_good key ((b \<or> x = Clear_All) \<or> Clear_All \<in> set xs) (cs', c', h')" "length cs' + length c' \<le> length cs1 + length c1 + 2 * length xs" by blast
  have "(b \<or> x = Clear_All) \<or> Clear_All \<in> set xs \<longleftrightarrow> b \<or> Clear_All \<in> set (x # xs)" by auto
  then show ?case using 1(1,3) 2 by (intro exI [of _ cs'] exI [of _ c'] exI [of _ h']) simp
qed auto

lemma cache_good_start: "cache_good key False ([], [], heap_empty)"
  using shared_inv_init [of 0] by (simp add: cache_good_def cache_ok_def cache_shares_def tagged_def one_key_def)

lemma cache_objects: "cache_ok key (cs, c, h) \<Longrightarrow> objects h = {p. pointed (map snd cs) p \<or> pointed (map snd c) p}"
  by (auto simp: cache_ok_def shared_inv_def pointed_append)

lemma keep_used_objects:
  assumes "cache_ok key (cs, keep_used (map snd cs) c, h)"
  shows "objects h = {p. pointed (map snd cs) p}"
proof -
  have "pointed (map snd cs) p" if p: "pointed (map snd (keep_used (map snd cs) c)) p" for p
  proof -
    have "Some p \<in> m_Ptr ` set (map snd cs)" using p by (force simp: pointed_def keep_used_def ref_null_def split: if_splits)
    then show ?thesis by (force simp: pointed_def)
  qed
  then show ?thesis using cache_objects [OF assms] by auto
qed

lemma cache_handles:
  assumes "cache_ok key (cs, c, h)" and "x \<in> set cs" and "y \<in> set cs" and "m_Ptr (snd x) = m_Ptr (snd y)"
  shows "key (fst x) = key (fst y)"
proof -
  have "(key (fst z), snd z) \<in> set (tagged key cs c)" if "z \<in> set cs" for z using that by (force simp: tagged_def)
  moreover have "m_Ptr (snd x) \<noteq> None" using assms(1,2) by (auto simp: cache_ok_def)
  moreover have "one_key (tagged key cs c)" using assms(1) by (simp add: cache_ok_def)
  ultimately show ?thesis using assms(2-4) unfolding one_key_def by (metis fst_conv snd_conv)
qed

lemma cache_sharing:
  assumes "cache_shares key (cs, c, h)" and "x \<in> set cs" and "y \<in> set cs" and "key (fst x) = key (fst y)"
  shows "snd x = snd y"
proof -
  have "\<exists>k. key (fst z) = ok k \<and> map_of c k = Some (snd z)" if "z \<in> set cs" for z using assms(1) that by (simp add: cache_shares_def)
  from this [OF assms(2)] this [OF assms(3)] show ?thesis using assms(4) by auto
qed

lemma renderpass_key_ok: "sint (rp_attachmentCount i) \<le> int (length (rp_textureType i)) \<Longrightarrow> \<exists>k. renderpass_key H i = ok k"
  by (simp add: renderpass_key_def hash_items_def)

text \<open>However a program gets objects from a cache, drops them, deletes the unused and clears the cache: no call fails; every
  handle it holds is live, and the live objects are those of the handles and of the cache; handles of one object were
  asked for under one hash, and unless the cache was cleared those asked for under one hash are of one object; and
  deleting the unused frees exactly the objects without a handle, but forgets no hash.\<close>

theorem caches_share_by_hash:
  assumes "length ops < 2 ^ 30" and "\<forall>i. Get_Cached i \<in> set ops \<longrightarrow> (\<exists>k. key i = ok k)"
  shows "\<exists>cs c h. cache_run key (Some create_func) ops ([], [], heap_empty) = ok (cs, c, h)
    \<and> (\<forall>x \<in> set cs. \<exists>p. m_Ptr (snd x) = Some p \<and> p \<in> objects h)
    \<and> objects h = {p. pointed (map snd cs) p \<or> pointed (map snd c) p}
    \<and> (\<forall>x \<in> set cs. \<forall>y \<in> set cs. m_Ptr (snd x) = m_Ptr (snd y) \<longrightarrow> key (fst x) = key (fst y))
    \<and> (Clear_All \<notin> set ops \<longrightarrow> (\<forall>x \<in> set cs. \<forall>y \<in> set cs. key (fst x) = key (fst y) \<longrightarrow> snd x = snd y))
    \<and> (\<exists>c' h'. DeleteUnusedCache c h = ok (c', h') \<and> map fst c' = map fst c \<and> objects h' = {p. pointed (map snd cs) p})"
proof -
  obtain cs c h where run: "cache_run key (Some create_func) ops ([], [], heap_empty) = ok (cs, c, h)"
    "cache_good key (Clear_All \<in> set ops) (cs, c, h)" "length cs + length c \<le> 2 * length ops"
    using cache_run_good [OF cache_good_start [of key], of ops] assms by auto
  have good: "cache_ok key (cs, c, h)" and share: "Clear_All \<notin> set ops \<Longrightarrow> cache_shares key (cs, c, h)" using run(2) by (auto simp: cache_good_def)
  obtain h' where h': "DeleteUnusedCache c h = ok (keep_used (map snd cs) c, h')" "cache_ok key (cs, keep_used (map snd cs) c, h')"
    using cache_Delete_ok [OF good] run(3) assms(1) by auto
  have "map fst (keep_used (map snd cs) c) = map fst c" by (simp add: keep_used_def comp_def case_prod_unfold)
  then have del: "\<exists>c' h'. DeleteUnusedCache c h = ok (c', h') \<and> map fst c' = map fst c \<and> objects h' = {p. pointed (map snd cs) p}"
    using h' keep_used_objects [OF h'(2)] by blast
  have "\<exists>p. m_Ptr (snd x) = Some p \<and> p \<in> objects h" if x: "x \<in> set cs" for x
  proof -
    obtain p where p: "m_Ptr (snd x) = Some p" using good x by (auto simp: cache_ok_def)
    then have "pointed (map snd cs) p" using x by (auto simp: pointed_def)
    then show ?thesis using p cache_objects [OF good] by simp
  qed
  then show ?thesis using run(1) cache_objects [OF good] cache_handles [OF good] cache_sharing [OF share] del by blast
qed

text \<open>Render passes asked for with one description twice, with another once, and dropped.\<close>

theorem caches_share_by_hash_witness:
  "\<exists>cs c h. cache_run (renderpass_key H) (Some create_func)
      [Get_Cached \<lparr>rp_textureType = [(TEX_COLOUR, TF_RGBA8)], rp_attachmentCount = 1, rp_clear = True\<rparr>,
       Get_Cached \<lparr>rp_textureType = [(TEX_COLOUR, TF_RGBA8)], rp_attachmentCount = 1, rp_clear = True\<rparr>,
       Get_Cached \<lparr>rp_textureType = [], rp_attachmentCount = 0, rp_clear = False\<rparr>, Drop_Handle 0] ([], [], heap_empty) = ok (cs, c, h)
    \<and> (\<exists>c' h'. DeleteUnusedCache c h = ok (c', h') \<and> map fst c' = map fst c \<and> objects h' = {p. pointed (map snd cs) p})"
proof -
  let ?ops = "[Get_Cached \<lparr>rp_textureType = [(TEX_COLOUR, TF_RGBA8)], rp_attachmentCount = 1, rp_clear = True\<rparr>,
       Get_Cached \<lparr>rp_textureType = [(TEX_COLOUR, TF_RGBA8)], rp_attachmentCount = 1, rp_clear = True\<rparr>,
       Get_Cached \<lparr>rp_textureType = [], rp_attachmentCount = 0, rp_clear = False\<rparr>, Drop_Handle 0]"
  have "length ?ops < 2 ^ 30" by simp
  moreover have "\<forall>i. Get_Cached i \<in> set ?ops \<longrightarrow> (\<exists>k. renderpass_key H i = ok k)"
    by (simp add: renderpass_key_ok)
  ultimately show ?thesis using caches_share_by_hash [of ?ops "renderpass_key H"] by blast
qed

section \<open>The three caches\<close>

text \<open>A key is computed exactly when the arrays of the description hold as many attachments as it says.\<close>

lemma renderpass_key_fault: "renderpass_key H i = fail OutOfRange \<longleftrightarrow> int (length (rp_textureType i)) < sint (rp_attachmentCount i)"
  by (simp add: renderpass_key_def hash_items_def) linarith

lemma framebuffer_key_fault:
  "framebuffer_key H i = fail OutOfRange \<longleftrightarrow>
    length (fb_attachmentTypes i) < unat (fb_attachmentCount i) \<or> length (fb_attachments i) < unat (fb_attachmentCount i)"
  by (simp add: framebuffer_key_def hash_items_def) linarith

text \<open>The key of a pipeline looks at the addresses of its shader and its render pass only: a description with new ones that were
  allocated where the old ones were has the same key.\<close>

lemma pipeline_key_addresses:
  assumes "m_Ptr s = m_Ptr (pi_shader i)" and "m_Ptr r = m_Ptr (pi_renderpass i)"
  shows "pipeline_key H (i\<lparr>pi_shader := s, pi_renderpass := r\<rparr>) = pipeline_key H i"
  by (simp add: pipeline_key_def assms Let_def del: HashCombine.simps)

text \<open>The layout of the mesh vertices, with the offsets of the fields of \<open>Vertex\<close>.\<close>

lemma mesh_layout_offsets:
  "\<exists>l. layout_of mesh_layout buffer_layout_new = ok l \<and> map be_offset (bl_Layout l) = [0, 12, 28, 36, 48] \<and> bl_Size l = 60"
  by (simp add: mesh_layout_def layout_push_def layout_Push_def buffer_layout_new_def)

end
