(* ===== verification/Spec2Isabelle.thy ===== *)
theory Spec2Isabelle
  imports AreaAlloc JobSystem RefCounting IniFiles Vfs AStarSearch SceneTransforms SceneManagement AppLoop MathBits BoundingBoxes Broadphases Projections PhysicsEngine Colours DebugDrawing Sprites BinAlloc Cameras CameraControllers Resources Singletons RenderCaches
begin

text \<open>
  A verification library for the Lumos game engine (\<open>src/Lumos/Source/Lumos\<close>; all paths below are
  relative to it).

  \<^bold>\<open>The program and its parts.\<close> \<open>Core/Application\<close> owns the engine: it runs one frame after another,
  hands window events down a chain of layers (ImGui, the render graph, the input state, the scene), asks the
  scene manager to switch scenes between frames, ticks the systems (physics, audio, scripts) and calls the
  renderers. A scene keeps an entity registry; the scene graph orders the entities into a forest and
  propagates their transforms. The physics engine moves rigid bodies through a broad phase, a narrow phase
  with contact manifolds, constraints and an integrator. Below these lie the shared services: job system,
  virtual file system, settings files, path finding, reference counting, strings and the mathematics library.

  \<^bold>\<open>Shared vocabulary.\<close> \<open>Prelude\<close>: machine words, the result type with the faults of the model (null
  dereference, index out of range, use after free, double free, failed assertion, division by zero), and
  generic lemmas. Every operation whose C++ original can leave defined behaviour returns such a result.

  \<^bold>\<open>Core services.\<close>
  \<^item> \<open>JobSystem\<close> (\<open>Core/JobSystem.cpp\<close>): the ring buffer as a record, \<open>Dispatch\<close> on 32-bit words, and the
    threads as the step relation \<open>sys_step\<close> whose critical sections are single steps. Its lemmas show the
    ring refines a bounded queue (locale \<open>bounded_queue\<close>), that the jobs of a dispatch cover its range in whatever order they run,
    that a pool that is not busy has run every job, and that of a busy one with all workers asleep the steps of \<open>poll\<close> wake one.
  \<^item> \<open>RefCounting\<close> (\<open>Core/ReferenceCounter.h\<close>, \<open>Core/Reference.*\<close>): counters and smart pointers over a heap of
    objects and counters, with the invariant that a counter holds the number of references to it; raw pointers of \<open>release\<close> are
    tracked, and what goes wrong with them is a lemma.
  \<^item> \<open>StringUtils\<close>, \<open>IniFiles\<close>, \<open>Vfs\<close> (\<open>Core/StringUtilities.*\<close>, \<open>Utilities/IniFile.*\<close>, \<open>Core/VFS.*\<close>): strings as
    character lists, the settings file with its round trip, the mount points and path resolution.
  \<^item> \<open>AStarSearch\<close> (\<open>AI/*\<close>): the priority queue, the search loop and the reconstruction of the path.
  \<^item> \<open>Events\<close>, \<open>RenderGraphs\<close>, \<open>SceneManagement\<close>, \<open>AppLoop\<close> (\<open>Events/*\<close>, \<open>Core/OS/Input.*\<close>, \<open>ImGui/ImGuiManager.cpp\<close>,
    \<open>Graphics/Renderers/RenderGraph.*\<close>, \<open>Scene/SceneManager.*\<close>, \<open>Core/Application.*\<close>): the frame loop over the
    layers. Calls into other parts are recorded as traces, and what those parts may do in return is an input. The lemmas say
    exactly when a run faults.

  \<^bold>\<open>Scenes.\<close> \<open>SceneHierarchy\<close> (\<open>Scene/SceneGraph.*\<close>, \<open>Scene/Entity.h\<close>): the pointer structure of the hierarchy with the
    invariant that the children of every entity form a doubly linked list and the parents a forest.
    \<open>SceneTransforms\<close> (\<open>Maths/Transform.*\<close>): the propagation of world matrices, and which entities it reaches when some
    have no transform.

  \<^bold>\<open>Mathematics.\<close> \<open>MathBits\<close> (bit tricks and half floats of \<open>Maths/MathDefs.h\<close> on words), \<open>Rects\<close> and \<open>AreaAlloc\<close> (integer
  rectangles and the texture-atlas allocator), \<open>Vectors\<close>, \<open>BoundingBoxes\<close>, \<open>Rotations\<close>, \<open>Quaternions\<close>, \<open>Projections\<close> (vectors,
  boxes, matrices, quaternions and projections, over an ordered field or the reals in place of floats).

  \<^bold>\<open>Physics.\<close> \<open>Broadphases\<close>, \<open>Hulls\<close>, \<open>Shapes\<close>, \<open>RigidBodies\<close>, \<open>Manifolds\<close>, \<open>Collisions\<close>, \<open>Constraints\<close>, \<open>PhysicsEngine\<close>
  (\<open>Physics/LumosPhysicsEngine/*\<close>): bodies and shapes live in stores and are named by their index, since they
  are shared and mutated. A hull's vertices, edges and faces refer to each other, and the lemmas keep all of these links exact. The
  lemmas follow a body through the engine: its caches stay coherent except after \<open>SetOrientation\<close>, its world
  box contains its shape as long as the local box was taken from it (a capsule of some height sticks out), the broad phases report what can collide, the separating-axis tests are sound, the
  impulses are what they should be, and the clock accounts for the frame time.

  \<^bold>\<open>Drawing in two dimensions and debugging.\<close>
  \<^item> \<open>PlanarVectors\<close> (\<open>Maths/Vector2.h\<close>, \<open>Maths/Vector4.h\<close>, \<open>Maths/Rect.h\<close>): vectors of two and four components and rectangles of floats.
  \<^item> \<open>Colours\<close> (\<open>Maths/Colour.*\<close>): the packed forms of a colour and its hue, saturation and value or lightness.
  \<^item> \<open>Sprites\<close> (\<open>Graphics/AnimatedSprite.cpp\<close>, \<open>Graphics/Sprite.cpp\<close>): the frames an animated sprite shows.
  \<^item> \<open>Batches\<close>, \<open>DebugDrawing\<close> (\<open>Graphics/Renderers/Renderer2D.cpp\<close>, \<open>LineRenderer.cpp\<close>, \<open>PointRenderer.cpp\<close>, \<open>DebugRenderer.cpp\<close>):
    the batches written into vertex buffers and the draw calls made of them. The lemmas show which sprites, lines
    and points a frame draws, in which order, from how many on the buffers overflow, and which textures a back end meets that
    draws only at the end of the frame.

  \<^bold>\<open>What the camera sees.\<close>
  \<^item> \<open>AffineMatrices\<close> (\<open>Maths/Matrix3x4.*\<close>, \<open>Maths/Plane.cpp\<close>): affine matrices, their decomposition, planes under transforms.
  \<^item> \<open>Frustums\<close> (\<open>Maths/Frustum.*\<close>): the corners and planes of a view frustum and the tests that cull. The lemmas show that
    the frustum of a camera is its volume of sight and that nothing visible is culled.

  \<^item> \<open>Polyhedra\<close> (\<open>Maths/Polyhedron.*\<close>, \<open>Maths/Sphere.*\<close>): volumes made of polygons and their clipping, spheres that grow. The lemmas show
    what clipping keeps, when it reads out of range, and that merged spheres cover their parts.
  \<^item> \<open>Rays\<close> (\<open>Maths/Ray.*\<close>): the hits of a ray on planes, boxes, frusta, spheres, triangles and meshes. The lemmas show that
    the box test finds the first point in the box, that the triangle test is exact, and which triangle a mesh test reports.
  \<^item> \<open>Cameras\<close> (\<open>Graphics/Camera/Camera.*\<close>): the lens and its cached projection. The lemmas keep the cache, show that the frustum
    of a camera is its sight once its projection is up to date, and that rays through the screen then lie in it.
  \<^item> \<open>CameraControllers\<close> (\<open>Graphics/Camera/*Camera*.cpp\<close>): the controllers that move a camera, by the class of the controller. The lemmas
    show that Euler angles come back, that the editor's camera stays upright and that over whole frames every controller
    comes to rest.

  \<^bold>\<open>Memory.\<close> \<open>BinAlloc\<close> (\<open>Core/OS/Allocators/BinAllocator.*\<close>): the free lists as chains of cells of a byte-addressed memory, with
  the invariant that ties them to the blocks of the chunks, for every sequence of calls and writes of a client.


  \<^bold>\<open>Shared resources.\<close>
  \<^item> \<open>Resources\<close> (\<open>Utilities/AssetManager.h\<close>): the resource manager over the counted references of \<open>RefCounting\<close>. The contract of
    a loader is the locale \<open>resource_loader\<close>, interpreted by the shader library; the lemmas show which shaders an update frees.
  \<^item> \<open>Singletons\<close> (\<open>Utilities/TSingleton.h\<close>): the steps of threads in \<open>Get\<close> and \<open>Release\<close>, with the invariant of the lock and of
    the one instance, and the race of the class without a lock.
  \<^item> \<open>RenderCaches\<close> (\<open>Graphics/API/BufferLayout.*\<close>, \<open>RenderPass.cpp\<close>, \<open>Framebuffer.cpp\<close>, \<open>Pipeline.cpp\<close>): vertex layouts and the
    caches of objects by hash. The lemmas show that attributes tile the vertex, who shares an object, and what deleting the unused frees.

  \<^bold>\<open>Bounds and loops.\<close> Loops of the code that may not end are \<open>partial_function (option)\<close> whose value is \<open>None\<close>
  exactly when they run forever (the allocation search, the A* loop and path walk, pointer walks of
  the hierarchy); no fuel is used there, and returning is proved where it holds and refuted where it does
  not. The recursion of the octree is bounded by its depth parameter, as in the code. Widths are kept where
  the code depends on them: 32-bit group and job counts, 64-bit labels, 32-bit reference counts,
  key codes and bit functions. The texture allocator works on 32-bit \<open>int\<close>, with an overflow as a fault, and the sizes up to which there is
  none are a hypothesis of its property. Elsewhere integers are mathematical. Floats are elements of an ordered field or reals: rounding, infinities and NaN are not
  modelled, except for the half-float conversions, which work on bit patterns.

  \<^bold>\<open>Parameters.\<close> Code outside the repository or of the operating system is an argument: the file system's tests
  and readers, the order in which unordered maps and entity views are enumerated, \<open>std::sort\<close>, the
  decomposition of matrices, the renderer back end and the callbacks of the game.

  \<^bold>\<open>Not modelled.\<close> The graphics back ends (\<open>Platform/OpenGL\<close>, \<open>Platform/Vulkan\<close>, \<open>Platform/GLFW\<close>, \<open>Platform/Windows\<close>, \<open>Platform/Unix\<close>): calls
  into drivers and windows whose effect is outside the repository. The remaining scene renderers (deferred,
  forward, skybox, grid): sequences of calls into those back ends. Audio: buffers handed to OpenAL.
  Scripting: bindings handed to Lua. Scene and material serialisation: templates handed to the cereal library. The
  loaders of models and images, the 2D physics wrapper around Box2D, the drawing of user interfaces with
  ImGui, the editor, and everything vendored under \<open>External\<close>.
\<close>

end
